(* ===== verification/Beef_Prelude.thy ===== *)
theory Beef_Prelude
  imports Main "HOL-Library.Word" "HOL-Library.Monad_Syntax"
begin

text \<open>
  Shared ground of the development: the machine integer types of the C++ sources, the
  two's complement casts on \<open>int\<close>, the little-endian byte encodings by which the sources
  reinterpret memory (\<open>*(int32*)ptr\<close>), and the generic lemmas about them that the
  component theories use.  All supported hosts of the compiler are little-endian with
  two's complement integers.  Overflow of a signed addition, subtraction, multiplication,
  negation or left shift, which standard C++ leaves undefined, is modelled as the wrapping
  those hosts perform on such operations.
\<close>

section \<open>Types and lemma collections\<close>

type_synonym u8 = "8 word"
type_synonym u16 = "16 word"
type_synonym u32 = "32 word"
type_synonym u64 = "64 word"

named_theorems mem_simps \<open>reading and writing typed values in a byte memory\<close>
named_theorems wrap_simps \<open>two's complement casts\<close>

section \<open>Casts between integer widths\<close>

text \<open>
  A width is given in bytes. \<open>wrap_u n v\<close> is the C cast \<open>(uintN)v\<close> and \<open>wrap_s n v\<close> is
  \<open>(intN)v\<close>, both read back as a mathematical integer.
\<close>

definition wrap_u :: "nat \<Rightarrow> int \<Rightarrow> int" where
  "wrap_u n v = v mod 256 ^ n"

definition wrap_s :: "nat \<Rightarrow> int \<Rightarrow> int" where
  "wrap_s n v = (v + 256 ^ n div 2) mod 256 ^ n - 256 ^ n div 2"

definition in_s :: "nat \<Rightarrow> int \<Rightarrow> bool" where
  "in_s n v \<longleftrightarrow> - (256 ^ n div 2) \<le> v \<and> v < 256 ^ n div 2"

definition in_u :: "nat \<Rightarrow> int \<Rightarrow> bool" where
  "in_u n v \<longleftrightarrow> 0 \<le> v \<and> v < 256 ^ n"

lemma even_256_pow: "0 < n \<Longrightarrow> (2::int) dvd 256 ^ n"
  by (cases n) auto

lemma half_256_pow: "0 < n \<Longrightarrow> 2 * ((256::int) ^ n div 2) = 256 ^ n"
  using even_256_pow by simp

lemma wrap_u_range: "in_u n (wrap_u n v)"
  by (simp add: wrap_u_def in_u_def)

lemma wrap_s_range: "0 < n \<Longrightarrow> in_s n (wrap_s n v)"
proof -
  assume n: "0 < n"
  let ?m = "(256::int) ^ n"
  have "0 \<le> (v + ?m div 2) mod ?m" "(v + ?m div 2) mod ?m < ?m" by simp_all
  with half_256_pow [OF n] show ?thesis by (simp add: wrap_s_def in_s_def)
qed

lemma wrap_u_id [wrap_simps]: "in_u n v \<Longrightarrow> wrap_u n v = v"
  by (simp add: wrap_u_def in_u_def)

lemma wrap_s_id [wrap_simps]: "0 < n \<Longrightarrow> in_s n v \<Longrightarrow> wrap_s n v = v"
proof -
  assume n: "0 < n" and v: "in_s n v"
  from half_256_pow [OF n] v
  have "0 \<le> v + 256 ^ n div 2" "v + 256 ^ n div 2 < 256 ^ n"
    by (auto simp: in_s_def)
  then show ?thesis by (simp add: wrap_s_def)
qed

lemma wrap_u_wrap_u [wrap_simps]: "wrap_u n (wrap_u n v) = wrap_u n v"
  by (simp add: wrap_u_def)

lemma wrap_s_wrap_u [wrap_simps]: "wrap_s n (wrap_u n v) = wrap_s n v"
  by (simp add: wrap_s_def wrap_u_def mod_simps)

lemma wrap_u_wrap_s [wrap_simps]: "wrap_u n (wrap_s n v) = wrap_u n v"
proof -
  have "((v + 256 ^ n div 2) mod 256 ^ n - 256 ^ n div 2) mod 256 ^ n = v mod (256 ^ n :: int)"
    by (subst mod_diff_left_eq) simp
  then show ?thesis by (simp add: wrap_s_def wrap_u_def)
qed

lemma wrap_s_wrap_s [wrap_simps]: "wrap_s n (wrap_s n v) = wrap_s n v"
  by (metis wrap_s_wrap_u wrap_u_wrap_s)

lemma wrap_u_eq_iff_wrap_s: "wrap_u n v = wrap_u n w \<longleftrightarrow> wrap_s n v = wrap_s n w"
  by (metis wrap_s_wrap_u wrap_u_wrap_s)

lemma wrap_u_smaller:
  assumes "m \<le> n"
  shows "wrap_u m (wrap_u n v) = wrap_u m v"
proof -
  from assms have "(256::int) ^ m dvd 256 ^ n" by (rule le_imp_power_dvd)
  then show ?thesis by (simp add: wrap_u_def mod_mod_cancel)
qed

lemma wrap_u_add: "wrap_u n (wrap_u n a + wrap_u n b) = wrap_u n (a + b)"
  by (simp add: wrap_u_def mod_simps)

lemma wrap_u_diff: "wrap_u n (wrap_u n a - wrap_u n b) = wrap_u n (a - b)"
  by (simp add: wrap_u_def mod_simps)

lemma wrap_u_mult: "wrap_u n (wrap_u n a * wrap_u n b) = wrap_u n (a * b)"
  by (simp add: wrap_u_def mod_simps)

text \<open>The same casts as conversions of machine words.\<close>

lemma uint_word_of_int_wrap:
  assumes "LENGTH('a::len) = 8 * n"
  shows "uint (word_of_int v :: 'a word) = wrap_u n v"
  using assms by (simp add: uint_word_of_int wrap_u_def power_mult)

lemma sint_word_of_int_wrap:
  assumes n: "LENGTH('a::len) = 8 * n"
  shows "sint (word_of_int v :: 'a word) = wrap_s n v"
proof -
  have pos: "0 < n" using n len_gt_0 [where 'a='a] by (cases n) auto
  have p: "(2::int) ^ LENGTH('a) = 256 ^ n" by (simp add: n power_mult)
  have "(2::int) ^ (LENGTH('a) - 1) * 2 = 2 ^ LENGTH('a)"
    using power_Suc2 [of "2::int" "LENGTH('a) - 1"] by simp
  then have h: "(2::int) ^ (LENGTH('a) - 1) = 256 ^ n div 2"
    using p by linarith
  have "sint (word_of_int v :: 'a word) = signed_take_bit (LENGTH('a) - Suc 0) v"
    by (simp add: sint_sbintrunc')
  also have "\<dots> = (v + 2 ^ (LENGTH('a) - 1)) mod 2 ^ LENGTH('a) - 2 ^ (LENGTH('a) - 1)"
    by (simp add: signed_take_bit_eq_take_bit_shift take_bit_eq_mod)
  finally show ?thesis by (simp only: h p wrap_s_def)
qed

section \<open>Little-endian byte encoding\<close>

primrec le_bytes :: "nat \<Rightarrow> int \<Rightarrow> u8 list" where
  "le_bytes 0 v = []"
| "le_bytes (Suc n) v = word_of_int v # le_bytes n (v div 256)"

primrec le_uint :: "u8 list \<Rightarrow> int" where
  "le_uint [] = 0"
| "le_uint (b # bs) = uint b + 256 * le_uint bs"

definition le_sint :: "u8 list \<Rightarrow> int" where
  "le_sint bs = wrap_s (length bs) (le_uint bs)"

lemma length_le_bytes [simp]: "length (le_bytes n v) = n"
  by (induction n arbitrary: v) auto

lemma le_uint_range: "in_u (length bs) (le_uint bs)"
proof (induction bs)
  case Nil
  then show ?case by (simp add: in_u_def)
next
  case (Cons b bs)
  have "0 \<le> uint b" "uint b < 256" using uint_lt2p [of b] by simp_all
  with Cons show ?case by (simp add: in_u_def)
qed

lemma le_uint_le_bytes [simp]: "le_uint (le_bytes n v) = wrap_u n v"
proof (induction n arbitrary: v)
  case 0
  then show ?case by (simp add: wrap_u_def)
next
  case (Suc n)
  have "v mod (256 * 256 ^ n) = 256 * (v div 256 mod 256 ^ n) + v mod 256"
    by (rule zmod_zmult2_eq) simp
  with Suc show ?case by (simp add: wrap_u_def uint_word_of_int)
qed

lemma le_sint_le_bytes [simp]: "le_sint (le_bytes n v) = wrap_s n v"
  by (simp add: le_sint_def wrap_simps)

lemma le_bytes_le_uint: "le_bytes (length bs) (le_uint bs) = bs"
proof (induction bs)
  case Nil
  then show ?case by simp
next
  case (Cons b bs)
  have r: "0 \<le> uint b" "uint b < 256" using uint_lt2p [of b] by simp_all
  then have "(uint b + 256 * le_uint bs) div 256 = le_uint bs" by simp
  moreover have "(word_of_int (uint b + 256 * le_uint bs) :: u8) = b"
    by (rule word_uint_eqI) (use r in \<open>simp only: uint_word_of_int, simp\<close>)
  ultimately show ?case using Cons by simp
qed

lemma le_bytes_inj: "le_bytes n v = le_bytes n w \<longleftrightarrow> wrap_u n v = wrap_u n w"
  by (metis le_bytes_le_uint le_uint_le_bytes length_le_bytes)

lemma le_bytes_wrap_u [simp]: "le_bytes n (wrap_u n v) = le_bytes n v"
  by (simp add: le_bytes_inj wrap_simps)

lemma le_bytes_wrap_s [simp]: "le_bytes n (wrap_s n v) = le_bytes n v"
  by (simp add: le_bytes_inj wrap_simps)

section \<open>Reading a byte array\<close>

text \<open>
  The \<open>n\<close> bytes from position \<open>p\<close> of a byte array. \<open>None\<close> stands for an access outside the
  array, which is undefined behaviour in the sources.
\<close>

definition slice :: "u8 list \<Rightarrow> int \<Rightarrow> nat \<Rightarrow> u8 list option" where
  "slice xs p n =
     (if 0 \<le> p \<and> p + int n \<le> int (length xs) then Some (take n (drop (nat p) xs)) else None)"

lemma length_slice: "slice xs p n = Some bs \<Longrightarrow> length bs = n"
  by (auto simp: slice_def split: if_splits)

lemma slice_append [simp]:
  "slice (pre @ bs @ post) (int (length pre)) (length bs) = Some bs"
  by (simp add: slice_def)

text \<open>A code segment \<open>bs\<close> placed at position \<open>p\<close> of an array.\<close>

definition placed :: "u8 list \<Rightarrow> int \<Rightarrow> u8 list \<Rightarrow> bool" where
  "placed xs p bs \<longleftrightarrow> slice xs p (length bs) = Some bs"

lemma placed_append:
  "placed xs p (as @ bs) \<longleftrightarrow> placed xs p as \<and> placed xs (p + int (length as)) bs"
proof (cases "0 \<le> p \<and> p + int (length as + length bs) \<le> int (length xs)")
  case False
  then show ?thesis by (auto simp: placed_def slice_def)
next
  case True
  let ?d = "drop (nat p) xs"
  have d: "drop (nat (p + int (length as))) xs = drop (length as) ?d"
    using True by (simp add: nat_add_distrib add.commute)
  have l: "length as + length bs \<le> length ?d" using True by auto
  have "take (length as + length bs) ?d = as @ bs \<longleftrightarrow>
        take (length as) ?d = as \<and> take (length bs) (drop (length as) ?d) = bs"
    using l by (auto simp: take_add append_eq_append_conv min_def)
  with True d show ?thesis by (auto simp: placed_def slice_def)
qed

lemma placed_slice: "placed xs p bs \<Longrightarrow> length bs = n \<Longrightarrow> slice xs p n = Some bs"
  by (simp add: placed_def)

lemma placed_whole: "placed (pre @ bs @ post) (int (length pre)) bs"
  by (simp add: placed_def)

section \<open>Division\<close>

text \<open>The C operators \<open>/\<close> and \<open>%\<close>, which truncate towards zero.\<close>

definition c_div :: "int \<Rightarrow> int \<Rightarrow> int" where
  "c_div a b = (if (a < 0) = (b < 0) then \<bar>a\<bar> div \<bar>b\<bar> else - (\<bar>a\<bar> div \<bar>b\<bar>))"

definition c_mod :: "int \<Rightarrow> int \<Rightarrow> int" where
  "c_mod a b = a - b * c_div a b"

lemma c_div_mod: "b * c_div a b + c_mod a b = a"
  by (simp add: c_mod_def)

lemma c_div_nonneg: "0 \<le> a \<Longrightarrow> 0 < b \<Longrightarrow> c_div a b = a div b"
  by (simp add: c_div_def)

lemma c_mod_nonneg: "0 \<le> a \<Longrightarrow> 0 < b \<Longrightarrow> c_mod a b = a mod b"
  by (simp add: c_mod_def c_div_nonneg minus_mult_div_eq_mod)

lemma c_div_abs: "b \<noteq> 0 \<Longrightarrow> \<bar>c_div a b\<bar> = \<bar>a\<bar> div \<bar>b\<bar>"
  by (simp add: c_div_def pos_imp_zdiv_nonneg_iff)

lemma c_div_bound: "b \<noteq> 0 \<Longrightarrow> \<bar>c_div a b\<bar> \<le> \<bar>a\<bar>"
  by (simp add: c_div_abs) (smt (verit) div_by_1 zdiv_mono2)

lemma c_div_in_s:
  assumes "0 < n" "in_s n a" "b \<noteq> 0" "\<not> (a = - (256 ^ n div 2) \<and> b = -1)"
  shows "in_s n (c_div a b)"
proof (cases "b = -1")
  case True
  then have "c_div a b = - a" by (simp add: c_div_def)
  with True assms show ?thesis by (auto simp: in_s_def)
next
  case nb: False
  show ?thesis
  proof (cases "b = 1 \<or> a = 0")
    case True
    then show ?thesis using assms by (auto simp: c_div_def)
  next
    case False
    with nb assms(3) have "2 \<le> \<bar>b\<bar>" "0 < \<bar>a\<bar>" by auto
    then have "\<bar>a\<bar> div \<bar>b\<bar> < \<bar>a\<bar>" by (intro int_div_less_self) auto
    with c_div_abs [OF assms(3), of a] assms(2) show ?thesis by (auto simp: in_s_def)
  qed
qed

end
