(* ===== verification/Ce_Ops.thy ===== *)
theory Ce_Ops
  imports Beef_Prelude
begin

text \<open>
  The instruction set of the compile-time evaluator (\<^verbatim>\<open>IDEHelper/Compiler/CeMachine.h\<close> and the
  tables at the head of \<^verbatim>\<open>CeMachine.cpp\<close>): the opcodes of \<open>enum CeOp\<close> in the sections of the
  enum, their numbering (the builder computes opcodes by adding to the first one of a sized
  family), the operand layout table \<open>gOpInfo\<close>, and \<open>CeMachine::GetInstSize\<close>, which the
  debugger uses to walk over the code.
\<close>

section \<open>Operand widths\<close>

text \<open>\<open>enum CeSizeClass\<close>: the suffixes \<open>_8\<close>, \<open>_16\<close>, \<open>_32\<close>, \<open>_64\<close>, \<open>_X\<close> of the sized families.\<close>

datatype ce_size = CeSizeClass_8 | CeSizeClass_16 | CeSizeClass_32 | CeSizeClass_64 | CeSizeClass_X

text \<open>The suffixes \<open>_I8\<close> to \<open>_I64\<close> (or \<open>_U8\<close> to \<open>_U64\<close>), and with \<open>_F32\<close>, \<open>_F64\<close> added.\<close>

datatype ce_int = I8 | I16 | I32 | I64

datatype ce_float = F32 | F64

datatype ce_num = KI ce_int | KF ce_float

primrec int_bytes :: "ce_int \<Rightarrow> nat" where
  "int_bytes I8 = 1"
| "int_bytes I16 = 2"
| "int_bytes I32 = 4"
| "int_bytes I64 = 8"

primrec float_bytes :: "ce_float \<Rightarrow> nat" where
  "float_bytes F32 = 4"
| "float_bytes F64 = 8"

section \<open>The opcodes\<close>

text \<open>Control, errors and allocation: \<open>CeOp_InvalidOp\<close> to \<open>CeOp_Free\<close>.\<close>

datatype (plugins only: size code) ce_ctl_op =
  CeOp_InvalidOp | CeOp_Nop | CeOp_DbgBreak | CeOp_Ret | CeOp_SetRetType | CeOp_Jmp
  | CeOp_JmpIf | CeOp_JmpIfNot | CeOp_Error | CeOp_DynamicCastCheck | CeOp_GetReflectType
  | CeOp_GetString | CeOp_Malloc | CeOp_Free

text \<open>Memory, frame addresses, constants and the sized data movement families.\<close>

datatype (plugins only: size code) ce_mem_op =
  CeOp_MemSet | CeOp_MemSet_Const | CeOp_MemCpy | CeOp_MemCmp | CeOp_FrameAddr_32
  | CeOp_FrameAddr_64 | CeOp_FrameAddrOfs_32 | CeOp_ConstData | CeOp_ConstDataRef
  | CeOp_Zero
  | CeOp_Const ce_size | CeOp_Load ce_size | CeOp_Store ce_size | CeOp_Move ce_size
  | CeOp_Push ce_size | CeOp_Pop ce_size

text \<open>Stack pointer, static fields, method lookup and calls.\<close>

datatype (plugins only: size code) ce_stack_op =
  CeOp_AdjustSP | CeOp_AdjustSPNeg | CeOp_AdjustSPConst | CeOp_GetSP | CeOp_SetSP
  | CeOp_GetStaticField | CeOp_GetStaticField_Initializer | CeOp_GetMethod
  | CeOp_GetMethod_Inner | CeOp_GetMethod_Virt | CeOp_GetMethod_IFace | CeOp_Call

text \<open>The numeric conversions.\<close>

datatype (plugins only: size code) ce_conv_op =
  CeOp_Conv_I8_I16 | CeOp_Conv_I8_I32 | CeOp_Conv_I8_I64 | CeOp_Conv_I8_F32
  | CeOp_Conv_I8_F64 | CeOp_Conv_I16_I32 | CeOp_Conv_I16_I64 | CeOp_Conv_I16_F32
  | CeOp_Conv_I16_F64 | CeOp_Conv_I32_I64 | CeOp_Conv_I32_F32 | CeOp_Conv_I32_F64
  | CeOp_Conv_I64_F32 | CeOp_Conv_I64_F64 | CeOp_Conv_U8_U16 | CeOp_Conv_U8_U32
  | CeOp_Conv_U8_U64 | CeOp_Conv_U8_F32 | CeOp_Conv_U8_F64 | CeOp_Conv_U16_U32
  | CeOp_Conv_U16_U64 | CeOp_Conv_U16_F32 | CeOp_Conv_U16_F64 | CeOp_Conv_U32_U64
  | CeOp_Conv_U32_F32 | CeOp_Conv_U32_F64 | CeOp_Conv_U64_F32 | CeOp_Conv_U64_F64
  | CeOp_Conv_F32_I8 | CeOp_Conv_F32_I16 | CeOp_Conv_F32_I32 | CeOp_Conv_F32_I64
  | CeOp_Conv_F32_U8 | CeOp_Conv_F32_U16 | CeOp_Conv_F32_U32 | CeOp_Conv_F32_U64
  | CeOp_Conv_F32_F64 | CeOp_Conv_F64_I8 | CeOp_Conv_F64_I16 | CeOp_Conv_F64_I32
  | CeOp_Conv_F64_I64 | CeOp_Conv_F64_U8 | CeOp_Conv_F64_U16 | CeOp_Conv_F64_U32
  | CeOp_Conv_F64_U64 | CeOp_Conv_F64_F32

text \<open>
  Arithmetic. The families \<open>CEOP_SIZED_UNUMERIC(Div)\<close>, \<open>(Mod)\<close> and \<open>(Shr)\<close>, whose opcodes are
  \<open>CeOp_Div_U8\<close> and so on, are the constructors ending in \<open>U\<close>.
\<close>

datatype (plugins only: size code) ce_arith_op =
  CeOp_Abs ce_num | CeOp_AddConst ce_num | CeOp_Add ce_num | CeOp_Sub ce_num
  | CeOp_Mul ce_num | CeOp_Div ce_num | CeOp_DivU ce_int | CeOp_Mod ce_num
  | CeOp_ModU ce_int | CeOp_And ce_int | CeOp_Or ce_int | CeOp_Xor ce_int | CeOp_Shl ce_int
  | CeOp_Shr ce_int | CeOp_ShrU ce_int

text \<open>The floating point functions, each with an \<open>_F32\<close> and an \<open>_F64\<close> opcode.\<close>

datatype (plugins only: size code) ce_math_op =
  CeOp_Acos | CeOp_Asin | CeOp_Atan | CeOp_Atan2 | CeOp_Ceiling | CeOp_Cos | CeOp_Cosh
  | CeOp_Exp | CeOp_Floor | CeOp_Fma | CeOp_Log | CeOp_Log10 | CeOp_Pow | CeOp_Round
  | CeOp_Sin | CeOp_Sinh | CeOp_Sqrt | CeOp_Tan | CeOp_Tanh

text \<open>Comparisons, negation and complement.\<close>

datatype (plugins only: size code) ce_cmp_op =
  CeOp_Cmp_EQ ce_num | CeOp_Cmp_NE ce_num | CeOp_Cmp_SLT ce_num | CeOp_Cmp_ULT ce_int
  | CeOp_Cmp_SLE ce_num | CeOp_Cmp_ULE ce_int | CeOp_Cmp_SGT ce_num | CeOp_Cmp_UGT ce_int
  | CeOp_Cmp_SGE ce_num | CeOp_Cmp_UGE ce_int

datatype (plugins only: size code) ce_unary_op =
  CeOp_Neg ce_num | CeOp_Not_I1 | CeOp_Not ce_int

text \<open>\<open>enum CeOp\<close>: its sections in order.\<close>

datatype (plugins only: size code) ce_op =
    Ctl ce_ctl_op
  | Mem ce_mem_op
  | Stk ce_stack_op
  | Conv ce_conv_op
  | Arith ce_arith_op
  | Math ce_math_op ce_float
  | Cmp ce_cmp_op
  | Unary ce_unary_op

section \<open>The enum in declaration order\<close>

text \<open>The macros \<open>CEOP_SIZED\<close>, \<open>CEOP_SIZED_FLOAT\<close>, \<open>CEOP_SIZED_NUMERIC\<close> and \<open>..._PLUSF\<close>.\<close>

definition ceop_sized :: "(ce_size \<Rightarrow> 'a) \<Rightarrow> 'a list" where
  "ceop_sized f = map f [CeSizeClass_8, CeSizeClass_16, CeSizeClass_32, CeSizeClass_64, CeSizeClass_X]"

definition ceop_sized_float :: "(ce_float \<Rightarrow> 'a) \<Rightarrow> 'a list" where
  "ceop_sized_float f = map f [F32, F64]"

definition ceop_sized_numeric :: "(ce_int \<Rightarrow> 'a) \<Rightarrow> 'a list" where
  "ceop_sized_numeric f = map f [I8, I16, I32, I64]"

definition ceop_sized_numeric_plusf :: "(ce_num \<Rightarrow> 'a) \<Rightarrow> 'a list" where
  "ceop_sized_numeric_plusf f = map f [KI I8, KI I16, KI I32, KI I64, KF F32, KF F64]"

lemmas ceop_macros = ceop_sized_def ceop_sized_float_def ceop_sized_numeric_def
  ceop_sized_numeric_plusf_def

definition ce_op_enum :: "ce_op list" where
  "ce_op_enum =
     map Ctl [CeOp_InvalidOp, CeOp_Nop, CeOp_DbgBreak, CeOp_Ret,
       CeOp_SetRetType, CeOp_Jmp, CeOp_JmpIf, CeOp_JmpIfNot,
       CeOp_Error, CeOp_DynamicCastCheck, CeOp_GetReflectType, CeOp_GetString,
       CeOp_Malloc, CeOp_Free] @
     map Mem [CeOp_MemSet, CeOp_MemSet_Const, CeOp_MemCpy, CeOp_MemCmp,
       CeOp_FrameAddr_32, CeOp_FrameAddr_64, CeOp_FrameAddrOfs_32, CeOp_ConstData,
       CeOp_ConstDataRef, CeOp_Zero] @
     ceop_sized (\<lambda>z. Mem (CeOp_Const z)) @
     ceop_sized (\<lambda>z. Mem (CeOp_Load z)) @
     ceop_sized (\<lambda>z. Mem (CeOp_Store z)) @
     ceop_sized (\<lambda>z. Mem (CeOp_Move z)) @
     ceop_sized (\<lambda>z. Mem (CeOp_Push z)) @
     ceop_sized (\<lambda>z. Mem (CeOp_Pop z)) @
     map Stk [CeOp_AdjustSP, CeOp_AdjustSPNeg, CeOp_AdjustSPConst, CeOp_GetSP,
       CeOp_SetSP, CeOp_GetStaticField, CeOp_GetStaticField_Initializer, CeOp_GetMethod,
       CeOp_GetMethod_Inner, CeOp_GetMethod_Virt, CeOp_GetMethod_IFace, CeOp_Call] @
     map Conv [CeOp_Conv_I8_I16, CeOp_Conv_I8_I32, CeOp_Conv_I8_I64, CeOp_Conv_I8_F32,
       CeOp_Conv_I8_F64, CeOp_Conv_I16_I32, CeOp_Conv_I16_I64, CeOp_Conv_I16_F32,
       CeOp_Conv_I16_F64, CeOp_Conv_I32_I64, CeOp_Conv_I32_F32, CeOp_Conv_I32_F64,
       CeOp_Conv_I64_F32, CeOp_Conv_I64_F64, CeOp_Conv_U8_U16, CeOp_Conv_U8_U32,
       CeOp_Conv_U8_U64, CeOp_Conv_U8_F32, CeOp_Conv_U8_F64, CeOp_Conv_U16_U32,
       CeOp_Conv_U16_U64, CeOp_Conv_U16_F32, CeOp_Conv_U16_F64, CeOp_Conv_U32_U64,
       CeOp_Conv_U32_F32, CeOp_Conv_U32_F64, CeOp_Conv_U64_F32, CeOp_Conv_U64_F64,
       CeOp_Conv_F32_I8, CeOp_Conv_F32_I16, CeOp_Conv_F32_I32, CeOp_Conv_F32_I64,
       CeOp_Conv_F32_U8, CeOp_Conv_F32_U16, CeOp_Conv_F32_U32, CeOp_Conv_F32_U64,
       CeOp_Conv_F32_F64, CeOp_Conv_F64_I8, CeOp_Conv_F64_I16, CeOp_Conv_F64_I32,
       CeOp_Conv_F64_I64, CeOp_Conv_F64_U8, CeOp_Conv_F64_U16, CeOp_Conv_F64_U32,
       CeOp_Conv_F64_U64, CeOp_Conv_F64_F32] @
     ceop_sized_numeric_plusf (\<lambda>k. Arith (CeOp_Abs k)) @
     ceop_sized_numeric_plusf (\<lambda>k. Arith (CeOp_AddConst k)) @
     ceop_sized_numeric_plusf (\<lambda>k. Arith (CeOp_Add k)) @
     ceop_sized_numeric_plusf (\<lambda>k. Arith (CeOp_Sub k)) @
     ceop_sized_numeric_plusf (\<lambda>k. Arith (CeOp_Mul k)) @
     ceop_sized_numeric_plusf (\<lambda>k. Arith (CeOp_Div k)) @
     ceop_sized_numeric (\<lambda>k. Arith (CeOp_DivU k)) @
     ceop_sized_numeric_plusf (\<lambda>k. Arith (CeOp_Mod k)) @
     ceop_sized_numeric (\<lambda>k. Arith (CeOp_ModU k)) @
     ceop_sized_numeric (\<lambda>k. Arith (CeOp_And k)) @
     ceop_sized_numeric (\<lambda>k. Arith (CeOp_Or k)) @
     ceop_sized_numeric (\<lambda>k. Arith (CeOp_Xor k)) @
     ceop_sized_numeric (\<lambda>k. Arith (CeOp_Shl k)) @
     ceop_sized_numeric (\<lambda>k. Arith (CeOp_Shr k)) @
     ceop_sized_numeric (\<lambda>k. Arith (CeOp_ShrU k)) @
     ceop_sized_float (Math CeOp_Acos) @
     ceop_sized_float (Math CeOp_Asin) @
     ceop_sized_float (Math CeOp_Atan) @
     ceop_sized_float (Math CeOp_Atan2) @
     ceop_sized_float (Math CeOp_Ceiling) @
     ceop_sized_float (Math CeOp_Cos) @
     ceop_sized_float (Math CeOp_Cosh) @
     ceop_sized_float (Math CeOp_Exp) @
     ceop_sized_float (Math CeOp_Floor) @
     ceop_sized_float (Math CeOp_Fma) @
     ceop_sized_float (Math CeOp_Log) @
     ceop_sized_float (Math CeOp_Log10) @
     ceop_sized_float (Math CeOp_Pow) @
     ceop_sized_float (Math CeOp_Round) @
     ceop_sized_float (Math CeOp_Sin) @
     ceop_sized_float (Math CeOp_Sinh) @
     ceop_sized_float (Math CeOp_Sqrt) @
     ceop_sized_float (Math CeOp_Tan) @
     ceop_sized_float (Math CeOp_Tanh) @
     ceop_sized_numeric_plusf (\<lambda>k. Cmp (CeOp_Cmp_EQ k)) @
     ceop_sized_numeric_plusf (\<lambda>k. Cmp (CeOp_Cmp_NE k)) @
     ceop_sized_numeric_plusf (\<lambda>k. Cmp (CeOp_Cmp_SLT k)) @
     ceop_sized_numeric (\<lambda>k. Cmp (CeOp_Cmp_ULT k)) @
     ceop_sized_numeric_plusf (\<lambda>k. Cmp (CeOp_Cmp_SLE k)) @
     ceop_sized_numeric (\<lambda>k. Cmp (CeOp_Cmp_ULE k)) @
     ceop_sized_numeric_plusf (\<lambda>k. Cmp (CeOp_Cmp_SGT k)) @
     ceop_sized_numeric (\<lambda>k. Cmp (CeOp_Cmp_UGT k)) @
     ceop_sized_numeric_plusf (\<lambda>k. Cmp (CeOp_Cmp_SGE k)) @
     ceop_sized_numeric (\<lambda>k. Cmp (CeOp_Cmp_UGE k)) @
     ceop_sized_numeric_plusf (\<lambda>k. Unary (CeOp_Neg k)) @
     [Unary CeOp_Not_I1] @
     ceop_sized_numeric (\<lambda>k. Unary (CeOp_Not k))"

text \<open>\<open>CeOp_COUNT\<close>.\<close>

definition ce_op_count :: nat where
  "ce_op_count = length ce_op_enum"

section \<open>Opcode numbers\<close>

primrec size_idx :: "ce_size \<Rightarrow> nat" where
  "size_idx CeSizeClass_8 = 0"
| "size_idx CeSizeClass_16 = 1"
| "size_idx CeSizeClass_32 = 2"
| "size_idx CeSizeClass_64 = 3"
| "size_idx CeSizeClass_X = 4"

primrec int_idx :: "ce_int \<Rightarrow> nat" where
  "int_idx I8 = 0"
| "int_idx I16 = 1"
| "int_idx I32 = 2"
| "int_idx I64 = 3"

primrec float_idx :: "ce_float \<Rightarrow> nat" where
  "float_idx F32 = 0"
| "float_idx F64 = 1"

primrec num_idx :: "ce_num \<Rightarrow> nat" where
  "num_idx (KI k) = int_idx k"
| "num_idx (KF k) = 4 + float_idx k"

primrec ctl_code :: "ce_ctl_op \<Rightarrow> nat" where
  "ctl_code CeOp_InvalidOp = 0"
| "ctl_code CeOp_Nop = 1"
| "ctl_code CeOp_DbgBreak = 2"
| "ctl_code CeOp_Ret = 3"
| "ctl_code CeOp_SetRetType = 4"
| "ctl_code CeOp_Jmp = 5"
| "ctl_code CeOp_JmpIf = 6"
| "ctl_code CeOp_JmpIfNot = 7"
| "ctl_code CeOp_Error = 8"
| "ctl_code CeOp_DynamicCastCheck = 9"
| "ctl_code CeOp_GetReflectType = 10"
| "ctl_code CeOp_GetString = 11"
| "ctl_code CeOp_Malloc = 12"
| "ctl_code CeOp_Free = 13"

primrec mem_code :: "ce_mem_op \<Rightarrow> nat" where
  "mem_code CeOp_MemSet = 14"
| "mem_code CeOp_MemSet_Const = 15"
| "mem_code CeOp_MemCpy = 16"
| "mem_code CeOp_MemCmp = 17"
| "mem_code CeOp_FrameAddr_32 = 18"
| "mem_code CeOp_FrameAddr_64 = 19"
| "mem_code CeOp_FrameAddrOfs_32 = 20"
| "mem_code CeOp_ConstData = 21"
| "mem_code CeOp_ConstDataRef = 22"
| "mem_code CeOp_Zero = 23"
| "mem_code (CeOp_Const z) = 24 + size_idx z"
| "mem_code (CeOp_Load z) = 29 + size_idx z"
| "mem_code (CeOp_Store z) = 34 + size_idx z"
| "mem_code (CeOp_Move z) = 39 + size_idx z"
| "mem_code (CeOp_Push z) = 44 + size_idx z"
| "mem_code (CeOp_Pop z) = 49 + size_idx z"

primrec stk_code :: "ce_stack_op \<Rightarrow> nat" where
  "stk_code CeOp_AdjustSP = 54"
| "stk_code CeOp_AdjustSPNeg = 55"
| "stk_code CeOp_AdjustSPConst = 56"
| "stk_code CeOp_GetSP = 57"
| "stk_code CeOp_SetSP = 58"
| "stk_code CeOp_GetStaticField = 59"
| "stk_code CeOp_GetStaticField_Initializer = 60"
| "stk_code CeOp_GetMethod = 61"
| "stk_code CeOp_GetMethod_Inner = 62"
| "stk_code CeOp_GetMethod_Virt = 63"
| "stk_code CeOp_GetMethod_IFace = 64"
| "stk_code CeOp_Call = 65"

primrec conv_code :: "ce_conv_op \<Rightarrow> nat" where
  "conv_code CeOp_Conv_I8_I16 = 66"
| "conv_code CeOp_Conv_I8_I32 = 67"
| "conv_code CeOp_Conv_I8_I64 = 68"
| "conv_code CeOp_Conv_I8_F32 = 69"
| "conv_code CeOp_Conv_I8_F64 = 70"
| "conv_code CeOp_Conv_I16_I32 = 71"
| "conv_code CeOp_Conv_I16_I64 = 72"
| "conv_code CeOp_Conv_I16_F32 = 73"
| "conv_code CeOp_Conv_I16_F64 = 74"
| "conv_code CeOp_Conv_I32_I64 = 75"
| "conv_code CeOp_Conv_I32_F32 = 76"
| "conv_code CeOp_Conv_I32_F64 = 77"
| "conv_code CeOp_Conv_I64_F32 = 78"
| "conv_code CeOp_Conv_I64_F64 = 79"
| "conv_code CeOp_Conv_U8_U16 = 80"
| "conv_code CeOp_Conv_U8_U32 = 81"
| "conv_code CeOp_Conv_U8_U64 = 82"
| "conv_code CeOp_Conv_U8_F32 = 83"
| "conv_code CeOp_Conv_U8_F64 = 84"
| "conv_code CeOp_Conv_U16_U32 = 85"
| "conv_code CeOp_Conv_U16_U64 = 86"
| "conv_code CeOp_Conv_U16_F32 = 87"
| "conv_code CeOp_Conv_U16_F64 = 88"
| "conv_code CeOp_Conv_U32_U64 = 89"
| "conv_code CeOp_Conv_U32_F32 = 90"
| "conv_code CeOp_Conv_U32_F64 = 91"
| "conv_code CeOp_Conv_U64_F32 = 92"
| "conv_code CeOp_Conv_U64_F64 = 93"
| "conv_code CeOp_Conv_F32_I8 = 94"
| "conv_code CeOp_Conv_F32_I16 = 95"
| "conv_code CeOp_Conv_F32_I32 = 96"
| "conv_code CeOp_Conv_F32_I64 = 97"
| "conv_code CeOp_Conv_F32_U8 = 98"
| "conv_code CeOp_Conv_F32_U16 = 99"
| "conv_code CeOp_Conv_F32_U32 = 100"
| "conv_code CeOp_Conv_F32_U64 = 101"
| "conv_code CeOp_Conv_F32_F64 = 102"
| "conv_code CeOp_Conv_F64_I8 = 103"
| "conv_code CeOp_Conv_F64_I16 = 104"
| "conv_code CeOp_Conv_F64_I32 = 105"
| "conv_code CeOp_Conv_F64_I64 = 106"
| "conv_code CeOp_Conv_F64_U8 = 107"
| "conv_code CeOp_Conv_F64_U16 = 108"
| "conv_code CeOp_Conv_F64_U32 = 109"
| "conv_code CeOp_Conv_F64_U64 = 110"
| "conv_code CeOp_Conv_F64_F32 = 111"

primrec arith_code :: "ce_arith_op \<Rightarrow> nat" where
  "arith_code (CeOp_Abs k) = 112 + num_idx k"
| "arith_code (CeOp_AddConst k) = 118 + num_idx k"
| "arith_code (CeOp_Add k) = 124 + num_idx k"
| "arith_code (CeOp_Sub k) = 130 + num_idx k"
| "arith_code (CeOp_Mul k) = 136 + num_idx k"
| "arith_code (CeOp_Div k) = 142 + num_idx k"
| "arith_code (CeOp_DivU k) = 148 + int_idx k"
| "arith_code (CeOp_Mod k) = 152 + num_idx k"
| "arith_code (CeOp_ModU k) = 158 + int_idx k"
| "arith_code (CeOp_And k) = 162 + int_idx k"
| "arith_code (CeOp_Or k) = 166 + int_idx k"
| "arith_code (CeOp_Xor k) = 170 + int_idx k"
| "arith_code (CeOp_Shl k) = 174 + int_idx k"
| "arith_code (CeOp_Shr k) = 178 + int_idx k"
| "arith_code (CeOp_ShrU k) = 182 + int_idx k"

primrec math_code :: "ce_math_op \<Rightarrow> nat" where
  "math_code CeOp_Acos = 186"
| "math_code CeOp_Asin = 188"
| "math_code CeOp_Atan = 190"
| "math_code CeOp_Atan2 = 192"
| "math_code CeOp_Ceiling = 194"
| "math_code CeOp_Cos = 196"
| "math_code CeOp_Cosh = 198"
| "math_code CeOp_Exp = 200"
| "math_code CeOp_Floor = 202"
| "math_code CeOp_Fma = 204"
| "math_code CeOp_Log = 206"
| "math_code CeOp_Log10 = 208"
| "math_code CeOp_Pow = 210"
| "math_code CeOp_Round = 212"
| "math_code CeOp_Sin = 214"
| "math_code CeOp_Sinh = 216"
| "math_code CeOp_Sqrt = 218"
| "math_code CeOp_Tan = 220"
| "math_code CeOp_Tanh = 222"

primrec cmp_code :: "ce_cmp_op \<Rightarrow> nat" where
  "cmp_code (CeOp_Cmp_EQ k) = 224 + num_idx k"
| "cmp_code (CeOp_Cmp_NE k) = 230 + num_idx k"
| "cmp_code (CeOp_Cmp_SLT k) = 236 + num_idx k"
| "cmp_code (CeOp_Cmp_ULT k) = 242 + int_idx k"
| "cmp_code (CeOp_Cmp_SLE k) = 246 + num_idx k"
| "cmp_code (CeOp_Cmp_ULE k) = 252 + int_idx k"
| "cmp_code (CeOp_Cmp_SGT k) = 256 + num_idx k"
| "cmp_code (CeOp_Cmp_UGT k) = 262 + int_idx k"
| "cmp_code (CeOp_Cmp_SGE k) = 266 + num_idx k"
| "cmp_code (CeOp_Cmp_UGE k) = 272 + int_idx k"

primrec unary_code :: "ce_unary_op \<Rightarrow> nat" where
  "unary_code (CeOp_Neg k) = 276 + num_idx k"
| "unary_code CeOp_Not_I1 = 282"
| "unary_code (CeOp_Not k) = 283 + int_idx k"

primrec ce_code :: "ce_op \<Rightarrow> nat" where
  "ce_code (Ctl x) = ctl_code x"
| "ce_code (Mem x) = mem_code x"
| "ce_code (Stk x) = stk_code x"
| "ce_code (Conv x) = conv_code x"
| "ce_code (Arith x) = arith_code x"
| "ce_code (Math x k) = math_code x + float_idx k"
| "ce_code (Cmp x) = cmp_code x"
| "ce_code (Unary x) = unary_code x"

text \<open>Reading an opcode back: the value of the \<open>int16\<close> in the code, if it is one of the enum.\<close>

definition ce_op_of_code :: "int \<Rightarrow> ce_op option" where
  "ce_op_of_code c =
     (if 0 \<le> c \<and> c < int ce_op_count then Some (ce_op_enum ! nat c) else None)"

lemma map_ce_code_enum: "map ce_code ce_op_enum = [0..<287]"
  by (simp add: ce_op_enum_def ceop_macros upt_rec)

lemma length_ce_op_enum: "length ce_op_enum = 287"
proof -
  have "length (map ce_code ce_op_enum) = 287" by (simp only: map_ce_code_enum) simp
  then show ?thesis by simp
qed

lemma ce_op_count_eq [simp]: "ce_op_count = 287"
  by (simp add: ce_op_count_def length_ce_op_enum)

lemma ce_op_enum_complete: "op \<in> set ce_op_enum"
proof -
  have ks: "k \<in> {CeSizeClass_8, CeSizeClass_16, CeSizeClass_32, CeSizeClass_64, CeSizeClass_X}" for k
    by (cases k) auto
  have ki: "k \<in> {I8, I16, I32, I64}" for k by (cases k) auto
  have kf: "k \<in> {F32, F64}" for k by (cases k) auto
  have kn: "k \<in> {KI I8, KI I16, KI I32, KI I64, KF F32, KF F64}" for k
    by (cases k) (use ki kf in auto)
  show ?thesis
  proof (cases op)
    case (Ctl x)
    then show ?thesis by (cases x) (simp_all add: ce_op_enum_def)
  next
    case (Mem x)
    then show ?thesis
      by (cases x) (use ks in \<open>auto simp add: ce_op_enum_def ceop_sized_def\<close>)
  next
    case (Stk x)
    then show ?thesis by (cases x) (simp_all add: ce_op_enum_def)
  next
    case (Conv x)
    then show ?thesis by (cases x) (simp_all add: ce_op_enum_def)
  next
    case (Arith x)
    then show ?thesis
      by (cases x) (use ki kn in \<open>auto simp add: ce_op_enum_def ceop_macros\<close>)
  next
    case (Math x k)
    then show ?thesis
      by (cases x) (use kf in \<open>auto simp add: ce_op_enum_def ceop_macros\<close>)
  next
    case (Cmp x)
    then show ?thesis
      by (cases x) (use ki kn in \<open>auto simp add: ce_op_enum_def ceop_macros\<close>)
  next
    case (Unary x)
    then show ?thesis
      by (cases x) (use ki kn in \<open>auto simp add: ce_op_enum_def ceop_macros\<close>)
  qed
qed

lemma ce_op_enum_nth_code: "ce_code op < 287 \<and> ce_op_enum ! ce_code op = op"
proof -
  obtain i where i: "i < length ce_op_enum" "ce_op_enum ! i = op"
    using ce_op_enum_complete by (auto simp: in_set_conv_nth)
  then have lt: "i < 287" by (simp add: length_ce_op_enum)
  from i have "ce_code op = map ce_code ce_op_enum ! i" by simp
  also have "\<dots> = i" using lt by (simp only: map_ce_code_enum) simp
  finally show ?thesis using i lt by simp
qed

lemma ce_op_of_code_code [simp]: "ce_op_of_code (int (ce_code op)) = Some op"
  using ce_op_enum_nth_code [of op] by (simp add: ce_op_of_code_def)

lemma ce_code_lt: "ce_code op < 287"
  using ce_op_enum_nth_code by blast

lemma ce_code_inj: "ce_code a = ce_code b \<longleftrightarrow> a = b"
  by (metis ce_op_enum_nth_code)

end
