(* ===== verification/Ce_OpInfo.thy ===== *)
theory Ce_OpInfo
  imports Ce_Ops
begin

text \<open>
  The operand layout table \<open>gOpInfo\<close> at the head of \<^verbatim>\<open>IDEHelper/Compiler/CeMachine.cpp\<close> and
  \<open>CeMachine::GetInstSize\<close>, which computes the length of an instruction from it.
\<close>

section \<open>Operand kinds\<close>

text \<open>\<open>enum CeOperandInfoKind\<close>; the names \<open>CEOI_None8\<close> to \<open>CEOI_NoneF64\<close> equal \<open>CEOI_None\<close>.\<close>

datatype (plugins only: size code) ce_oi_kind =
  CEOI_None | CEOI_FrameRef | CEOI_FrameRef8 | CEOI_FrameRef16 | CEOI_FrameRef32
  | CEOI_FrameRef64 | CEOI_FrameRefF32 | CEOI_FrameRefF64 | CEOI_IMM8 | CEOI_IMM16
  | CEOI_IMM32 | CEOI_IMM64 | CEOI_IMMF32 | CEOI_IMMF64 | CEOI_IMM_VAR | CEOI_JMPREL

text \<open>\<open>struct CeOpInfo\<close>; the flag tells \<open>CeOpInfoFlag_SizeX\<close> from \<open>CeOpInfoFlag_None\<close>.\<close>

record ce_op_info =
  oi_name :: string
  oi_result :: ce_oi_kind
  oi_a :: ce_oi_kind
  oi_b :: ce_oi_kind
  oi_c :: ce_oi_kind
  oi_sizex :: bool

text \<open>An initialiser \<open>{"Name", result, a, b, c}\<close>, whose missing members are zero.\<close>

definition op_info :: "string \<Rightarrow> ce_oi_kind \<Rightarrow> ce_oi_kind \<Rightarrow> ce_oi_kind \<Rightarrow> ce_oi_kind \<Rightarrow> ce_op_info" where
  "op_info nm r a b c = \<lparr>oi_name = nm, oi_result = r, oi_a = a, oi_b = b, oi_c = c, oi_sizex = False\<rparr>"

definition op_info_x :: "string \<Rightarrow> ce_oi_kind \<Rightarrow> ce_oi_kind \<Rightarrow> ce_oi_kind \<Rightarrow> ce_op_info" where
  "op_info_x nm r a b =
     \<lparr>oi_name = nm, oi_result = r, oi_a = a, oi_b = b, oi_c = CEOI_None, oi_sizex = True\<rparr>"

text \<open>The token pasting \<open>OPINFOA##8\<close> of the table's macros: a kind for each suffix.\<close>

datatype (plugins only: size code) oi_suffix = OI | OI8 | OI16 | OI32 | OI64 | OIF32 | OIF64

primrec oi_none :: "oi_suffix \<Rightarrow> ce_oi_kind" where
  "oi_none OI = CEOI_None"
| "oi_none OI8 = CEOI_None"
| "oi_none OI16 = CEOI_None"
| "oi_none OI32 = CEOI_None"
| "oi_none OI64 = CEOI_None"
| "oi_none OIF32 = CEOI_None"
| "oi_none OIF64 = CEOI_None"

primrec oi_frame :: "oi_suffix \<Rightarrow> ce_oi_kind" where
  "oi_frame OI = CEOI_FrameRef"
| "oi_frame OI8 = CEOI_FrameRef8"
| "oi_frame OI16 = CEOI_FrameRef16"
| "oi_frame OI32 = CEOI_FrameRef32"
| "oi_frame OI64 = CEOI_FrameRef64"
| "oi_frame OIF32 = CEOI_FrameRefF32"
| "oi_frame OIF64 = CEOI_FrameRefF64"

definition ceopinfo_sized_1 :: "string \<Rightarrow> (oi_suffix \<Rightarrow> ce_oi_kind) \<Rightarrow> ce_op_info list" where
  "ceopinfo_sized_1 nm a =
     [op_info (nm @ ''_8'') (a OI8) CEOI_None CEOI_None CEOI_None,
      op_info (nm @ ''_16'') (a OI16) CEOI_None CEOI_None CEOI_None,
      op_info (nm @ ''_32'') (a OI32) CEOI_None CEOI_None CEOI_None,
      op_info (nm @ ''_64'') (a OI64) CEOI_None CEOI_None CEOI_None,
      op_info_x (nm @ ''_X'') (a OI) CEOI_None CEOI_None]"

definition ceopinfo_sized_2 :: "string \<Rightarrow> (oi_suffix \<Rightarrow> ce_oi_kind) \<Rightarrow> (oi_suffix \<Rightarrow> ce_oi_kind) \<Rightarrow> ce_op_info list" where
  "ceopinfo_sized_2 nm a b =
     [op_info (nm @ ''_8'') (a OI8) (b OI8) CEOI_None CEOI_None,
      op_info (nm @ ''_16'') (a OI16) (b OI16) CEOI_None CEOI_None,
      op_info (nm @ ''_32'') (a OI32) (b OI32) CEOI_None CEOI_None,
      op_info (nm @ ''_64'') (a OI64) (b OI64) CEOI_None CEOI_None,
      op_info_x (nm @ ''_X'') (a OI) (b OI) CEOI_None]"

definition ceopinfo_sized_3 :: "string \<Rightarrow> (oi_suffix \<Rightarrow> ce_oi_kind) \<Rightarrow> (oi_suffix \<Rightarrow> ce_oi_kind) \<Rightarrow> (oi_suffix \<Rightarrow> ce_oi_kind) \<Rightarrow> ce_op_info list" where
  "ceopinfo_sized_3 nm a b c =
     [op_info (nm @ ''_8'') (a OI8) (b OI8) (c OI8) CEOI_None,
      op_info (nm @ ''_16'') (a OI16) (b OI16) (c OI16) CEOI_None,
      op_info (nm @ ''_32'') (a OI32) (b OI32) (c OI32) CEOI_None,
      op_info (nm @ ''_64'') (a OI64) (b OI64) (c OI64) CEOI_None,
      op_info_x (nm @ ''_X'') (a OI) (b OI) (c OI)]"

definition ceopinfo_sized_numeric_2 :: "string \<Rightarrow> (oi_suffix \<Rightarrow> ce_oi_kind) \<Rightarrow> (oi_suffix \<Rightarrow> ce_oi_kind) \<Rightarrow> ce_op_info list" where
  "ceopinfo_sized_numeric_2 nm a b =
     [op_info (nm @ ''_I8'') (a OI8) (b OI8) CEOI_None CEOI_None,
      op_info (nm @ ''_I16'') (a OI16) (b OI16) CEOI_None CEOI_None,
      op_info (nm @ ''_I32'') (a OI32) (b OI32) CEOI_None CEOI_None,
      op_info (nm @ ''_I64'') (a OI64) (b OI64) CEOI_None CEOI_None]"

definition ceopinfo_sized_numeric_plusf_2 :: "string \<Rightarrow> (oi_suffix \<Rightarrow> ce_oi_kind) \<Rightarrow> (oi_suffix \<Rightarrow> ce_oi_kind) \<Rightarrow> ce_op_info list" where
  "ceopinfo_sized_numeric_plusf_2 nm a b =
     [op_info (nm @ ''_I8'') (a OI8) (b OI8) CEOI_None CEOI_None,
      op_info (nm @ ''_I16'') (a OI16) (b OI16) CEOI_None CEOI_None,
      op_info (nm @ ''_I32'') (a OI32) (b OI32) CEOI_None CEOI_None,
      op_info (nm @ ''_I64'') (a OI64) (b OI64) CEOI_None CEOI_None,
      op_info (nm @ ''_F32'') (a OIF32) (b OIF64) CEOI_None CEOI_None,
      op_info (nm @ ''_F64'') (a OIF64) (b OIF64) CEOI_None CEOI_None]"

definition ceopinfo_sized_numeric_plusf_2_result8 :: "string \<Rightarrow> (oi_suffix \<Rightarrow> ce_oi_kind) \<Rightarrow> (oi_suffix \<Rightarrow> ce_oi_kind) \<Rightarrow> ce_op_info list" where
  "ceopinfo_sized_numeric_plusf_2_result8 nm a b =
     [op_info (nm @ ''_I8'') (a OI8) (b OI8) CEOI_None CEOI_None,
      op_info (nm @ ''_I16'') (a OI8) (b OI16) CEOI_None CEOI_None,
      op_info (nm @ ''_I32'') (a OI8) (b OI32) CEOI_None CEOI_None,
      op_info (nm @ ''_I64'') (a OI8) (b OI64) CEOI_None CEOI_None,
      op_info (nm @ ''_F32'') (a OI8) (b OIF64) CEOI_None CEOI_None,
      op_info (nm @ ''_F64'') (a OI8) (b OIF64) CEOI_None CEOI_None]"

definition ceopinfo_sized_numeric_3 :: "string \<Rightarrow> (oi_suffix \<Rightarrow> ce_oi_kind) \<Rightarrow> (oi_suffix \<Rightarrow> ce_oi_kind) \<Rightarrow> (oi_suffix \<Rightarrow> ce_oi_kind) \<Rightarrow> ce_op_info list" where
  "ceopinfo_sized_numeric_3 nm a b c =
     [op_info (nm @ ''_I8'') (a OI8) (b OI8) (c OI8) CEOI_None,
      op_info (nm @ ''_I16'') (a OI16) (b OI16) (c OI16) CEOI_None,
      op_info (nm @ ''_I32'') (a OI32) (b OI32) (c OI32) CEOI_None,
      op_info (nm @ ''_I64'') (a OI64) (b OI64) (c OI64) CEOI_None]"

definition ceopinfo_sized_numeric_3_result8 :: "string \<Rightarrow> (oi_suffix \<Rightarrow> ce_oi_kind) \<Rightarrow> (oi_suffix \<Rightarrow> ce_oi_kind) \<Rightarrow> (oi_suffix \<Rightarrow> ce_oi_kind) \<Rightarrow> ce_op_info list" where
  "ceopinfo_sized_numeric_3_result8 nm a b c =
     [op_info (nm @ ''_I8'') (a OI8) (b OI8) (c OI8) CEOI_None,
      op_info (nm @ ''_I16'') (a OI8) (b OI16) (c OI16) CEOI_None,
      op_info (nm @ ''_I32'') (a OI8) (b OI32) (c OI32) CEOI_None,
      op_info (nm @ ''_I64'') (a OI8) (b OI64) (c OI64) CEOI_None]"

definition ceopinfo_sized_unumeric_3 :: "string \<Rightarrow> (oi_suffix \<Rightarrow> ce_oi_kind) \<Rightarrow> (oi_suffix \<Rightarrow> ce_oi_kind) \<Rightarrow> (oi_suffix \<Rightarrow> ce_oi_kind) \<Rightarrow> ce_op_info list" where
  "ceopinfo_sized_unumeric_3 nm a b c =
     [op_info (nm @ ''_U8'') (a OI8) (b OI8) (c OI8) CEOI_None,
      op_info (nm @ ''_U16'') (a OI16) (b OI16) (c OI16) CEOI_None,
      op_info (nm @ ''_U32'') (a OI32) (b OI32) (c OI32) CEOI_None,
      op_info (nm @ ''_U64'') (a OI64) (b OI64) (c OI64) CEOI_None]"

definition ceopinfo_sized_numeric_plusf_3 :: "string \<Rightarrow> (oi_suffix \<Rightarrow> ce_oi_kind) \<Rightarrow> (oi_suffix \<Rightarrow> ce_oi_kind) \<Rightarrow> (oi_suffix \<Rightarrow> ce_oi_kind) \<Rightarrow> ce_op_info list" where
  "ceopinfo_sized_numeric_plusf_3 nm a b c =
     [op_info (nm @ ''_I8'') (a OI8) (b OI8) (c OI8) CEOI_None,
      op_info (nm @ ''_I16'') (a OI16) (b OI16) (c OI16) CEOI_None,
      op_info (nm @ ''_I32'') (a OI32) (b OI32) (c OI32) CEOI_None,
      op_info (nm @ ''_I64'') (a OI64) (b OI64) (c OI64) CEOI_None,
      op_info (nm @ ''_F32'') (a OIF32) (b OIF32) (c OIF32) CEOI_None,
      op_info (nm @ ''_F64'') (a OIF64) (b OIF64) (c OIF64) CEOI_None]"

definition ceopinfo_sized_numeric_plusf_3_result8 :: "string \<Rightarrow> (oi_suffix \<Rightarrow> ce_oi_kind) \<Rightarrow> (oi_suffix \<Rightarrow> ce_oi_kind) \<Rightarrow> (oi_suffix \<Rightarrow> ce_oi_kind) \<Rightarrow> ce_op_info list" where
  "ceopinfo_sized_numeric_plusf_3_result8 nm a b c =
     [op_info (nm @ ''_I8'') (a OI8) (b OI8) (c OI8) CEOI_None,
      op_info (nm @ ''_I16'') (a OI8) (b OI16) (c OI16) CEOI_None,
      op_info (nm @ ''_I32'') (a OI8) (b OI32) (c OI32) CEOI_None,
      op_info (nm @ ''_I64'') (a OI8) (b OI64) (c OI64) CEOI_None,
      op_info (nm @ ''_F32'') (a OI8) (b OIF32) (c OIF32) CEOI_None,
      op_info (nm @ ''_F64'') (a OI8) (b OIF64) (c OIF64) CEOI_None]"

definition ceopinfo_sized_float_2 :: "string \<Rightarrow> (oi_suffix \<Rightarrow> ce_oi_kind) \<Rightarrow> (oi_suffix \<Rightarrow> ce_oi_kind) \<Rightarrow> ce_op_info list" where
  "ceopinfo_sized_float_2 nm a b =
     [op_info (nm @ ''_F32'') (a OIF32) (b OIF32) CEOI_None CEOI_None,
      op_info (nm @ ''_F64'') (a OIF64) (b OIF64) CEOI_None CEOI_None]"

definition ceopinfo_sized_float_3 :: "string \<Rightarrow> (oi_suffix \<Rightarrow> ce_oi_kind) \<Rightarrow> (oi_suffix \<Rightarrow> ce_oi_kind) \<Rightarrow> (oi_suffix \<Rightarrow> ce_oi_kind) \<Rightarrow> ce_op_info list" where
  "ceopinfo_sized_float_3 nm a b c =
     [op_info (nm @ ''_F32'') (a OIF32) (b OIF32) (c OIF32) CEOI_None,
      op_info (nm @ ''_F64'') (a OIF64) (b OIF64) (c OIF64) CEOI_None]"

lemmas ceopinfo_macros = op_info_def op_info_x_def
  ceopinfo_sized_1_def
  ceopinfo_sized_2_def
  ceopinfo_sized_3_def
  ceopinfo_sized_numeric_2_def
  ceopinfo_sized_numeric_plusf_2_def
  ceopinfo_sized_numeric_plusf_2_result8_def
  ceopinfo_sized_numeric_3_def
  ceopinfo_sized_numeric_3_result8_def
  ceopinfo_sized_unumeric_3_def
  ceopinfo_sized_numeric_plusf_3_def
  ceopinfo_sized_numeric_plusf_3_result8_def
  ceopinfo_sized_float_2_def
  ceopinfo_sized_float_3_def

section \<open>The table\<close>

definition gOpInfo_basic :: "ce_op_info list" where
  "gOpInfo_basic =
     [op_info ''InvalidOp'' CEOI_None CEOI_None CEOI_None CEOI_None,
      op_info ''Nop'' CEOI_None CEOI_None CEOI_None CEOI_None,
      op_info ''DbgBreak'' CEOI_None CEOI_None CEOI_None CEOI_None,
      op_info ''Ret'' CEOI_None CEOI_None CEOI_None CEOI_None,
      op_info ''SetRet'' CEOI_None CEOI_IMM32 CEOI_None CEOI_None,
      op_info ''Jmp'' CEOI_None CEOI_JMPREL CEOI_None CEOI_None,
      op_info ''JmpIf'' CEOI_None CEOI_JMPREL CEOI_FrameRef8 CEOI_None,
      op_info ''JmpIfNot'' CEOI_None CEOI_JMPREL CEOI_FrameRef8 CEOI_None,
      op_info ''Error'' CEOI_None CEOI_IMM32 CEOI_None CEOI_None,
      op_info ''DynamicCastCheck'' CEOI_FrameRef CEOI_FrameRef CEOI_IMM32 CEOI_None,
      op_info ''GetReflectType'' CEOI_FrameRef CEOI_IMM32 CEOI_None CEOI_None,
      op_info ''GetString'' CEOI_FrameRef CEOI_IMM32 CEOI_None CEOI_None,
      op_info ''Malloc'' CEOI_FrameRef CEOI_FrameRef CEOI_None CEOI_None,
      op_info ''Free'' CEOI_None CEOI_FrameRef CEOI_None CEOI_None,
      op_info ''MemSet'' CEOI_None CEOI_FrameRef CEOI_FrameRef CEOI_FrameRef,
      op_info ''MemSet_Const'' CEOI_None CEOI_FrameRef CEOI_IMM8 CEOI_IMM32,
      op_info ''MemCpy'' CEOI_None CEOI_FrameRef CEOI_FrameRef CEOI_FrameRef,
      op_info ''MemCmp'' CEOI_FrameRef CEOI_FrameRef CEOI_FrameRef CEOI_FrameRef,
      op_info ''FrameAddr_32'' CEOI_FrameRef CEOI_FrameRef CEOI_None CEOI_None,
      op_info ''FrameAddr_64'' CEOI_FrameRef CEOI_FrameRef CEOI_None CEOI_None,
      op_info ''FrameAddrOfs_32'' CEOI_FrameRef CEOI_FrameRef CEOI_IMM32 CEOI_None,
      op_info ''ConstData'' CEOI_FrameRef CEOI_IMM32 CEOI_None CEOI_None,
      op_info ''ConstDataRef'' CEOI_FrameRef CEOI_IMM32 CEOI_None CEOI_None,
      op_info ''Zero'' CEOI_None CEOI_FrameRef CEOI_IMM32 CEOI_None,
      op_info ''Const_8'' CEOI_FrameRef8 CEOI_IMM8 CEOI_None CEOI_None,
      op_info ''Const_16'' CEOI_FrameRef16 CEOI_IMM16 CEOI_None CEOI_None,
      op_info ''Const_32'' CEOI_FrameRef32 CEOI_IMM32 CEOI_None CEOI_None,
      op_info ''Const_64'' CEOI_FrameRef64 CEOI_IMM64 CEOI_None CEOI_None,
      op_info ''Const_X'' CEOI_FrameRef CEOI_IMM_VAR CEOI_None CEOI_None] @
     ceopinfo_sized_2 ''Load'' oi_frame oi_frame @
     ceopinfo_sized_3 ''Store'' oi_none oi_frame oi_frame @
     ceopinfo_sized_3 ''Move'' oi_none oi_frame oi_frame @
     ceopinfo_sized_2 ''Push'' oi_none oi_frame @
     ceopinfo_sized_1 ''Pop'' oi_frame @
     [op_info ''AdjustSP'' CEOI_None CEOI_FrameRef CEOI_None CEOI_None,
      op_info ''AdjustSPNeg'' CEOI_None CEOI_FrameRef CEOI_None CEOI_None,
      op_info ''AdjustSPConst'' CEOI_None CEOI_IMM32 CEOI_None CEOI_None,
      op_info ''CeOp_GetSP'' CEOI_FrameRef CEOI_None CEOI_None CEOI_None,
      op_info ''CeOp_SetSP'' CEOI_None CEOI_FrameRef CEOI_None CEOI_None,
      op_info ''GetStaticField'' CEOI_FrameRef CEOI_IMM32 CEOI_None CEOI_None,
      op_info ''GetStaticField_Initializer'' CEOI_FrameRef CEOI_IMM32 CEOI_FrameRef CEOI_None,
      op_info ''GetMethod'' CEOI_FrameRef CEOI_IMM32 CEOI_None CEOI_None,
      op_info ''GetMethod_Inner'' CEOI_FrameRef CEOI_IMM32 CEOI_None CEOI_None,
      op_info ''GetMethod_Virt'' CEOI_FrameRef CEOI_FrameRef CEOI_IMM32 CEOI_None,
      op_info ''GetMethod_IFace'' CEOI_FrameRef CEOI_FrameRef CEOI_IMM32 CEOI_IMM32,
      op_info ''Call'' CEOI_None CEOI_FrameRef CEOI_None CEOI_None]"

definition gOpInfo_conv :: "ce_op_info list" where
  "gOpInfo_conv =
     [op_info ''CeOp_Conv_I8_I16'' CEOI_FrameRef16 CEOI_FrameRef8 CEOI_None CEOI_None,
      op_info ''CeOp_Conv_I8_I32'' CEOI_FrameRef32 CEOI_FrameRef8 CEOI_None CEOI_None,
      op_info ''CeOp_Conv_I8_I64'' CEOI_FrameRef64 CEOI_FrameRef8 CEOI_None CEOI_None,
      op_info ''CeOp_Conv_I8_F32'' CEOI_FrameRefF32 CEOI_FrameRef8 CEOI_None CEOI_None,
      op_info ''CeOp_Conv_I8_F64'' CEOI_FrameRefF64 CEOI_FrameRef8 CEOI_None CEOI_None,
      op_info ''CeOp_Conv_I16_I32'' CEOI_FrameRef32 CEOI_FrameRef16 CEOI_None CEOI_None,
      op_info ''CeOp_Conv_I16_I64'' CEOI_FrameRef64 CEOI_FrameRef16 CEOI_None CEOI_None,
      op_info ''CeOp_Conv_I16_F32'' CEOI_FrameRefF32 CEOI_FrameRef16 CEOI_None CEOI_None,
      op_info ''CeOp_Conv_I16_F64'' CEOI_FrameRefF64 CEOI_FrameRef16 CEOI_None CEOI_None,
      op_info ''CeOp_Conv_I32_I64'' CEOI_FrameRef64 CEOI_FrameRef32 CEOI_None CEOI_None,
      op_info ''CeOp_Conv_I32_F32'' CEOI_FrameRefF32 CEOI_FrameRef32 CEOI_None CEOI_None,
      op_info ''CeOp_Conv_I32_F64'' CEOI_FrameRefF64 CEOI_FrameRef32 CEOI_None CEOI_None,
      op_info ''CeOp_Conv_I64_F32'' CEOI_FrameRefF32 CEOI_FrameRef64 CEOI_None CEOI_None,
      op_info ''CeOp_Conv_I64_F64'' CEOI_FrameRefF64 CEOI_FrameRef64 CEOI_None CEOI_None,
      op_info ''CeOp_Conv_U8_U16'' CEOI_FrameRef16 CEOI_FrameRef8 CEOI_None CEOI_None,
      op_info ''CeOp_Conv_U8_U32'' CEOI_FrameRef32 CEOI_FrameRef8 CEOI_None CEOI_None,
      op_info ''CeOp_Conv_U8_U64'' CEOI_FrameRef64 CEOI_FrameRef8 CEOI_None CEOI_None,
      op_info ''CeOp_Conv_U8_F32'' CEOI_FrameRefF32 CEOI_FrameRef8 CEOI_None CEOI_None,
      op_info ''CeOp_Conv_U8_F64'' CEOI_FrameRefF64 CEOI_FrameRef8 CEOI_None CEOI_None,
      op_info ''CeOp_Conv_U16_U32'' CEOI_FrameRef32 CEOI_FrameRef16 CEOI_None CEOI_None,
      op_info ''CeOp_Conv_U16_U64'' CEOI_FrameRef64 CEOI_FrameRef16 CEOI_None CEOI_None,
      op_info ''CeOp_Conv_U16_F32'' CEOI_FrameRefF32 CEOI_FrameRef16 CEOI_None CEOI_None,
      op_info ''CeOp_Conv_U16_F64'' CEOI_FrameRefF64 CEOI_FrameRef16 CEOI_None CEOI_None,
      op_info ''CeOp_Conv_U32_U64'' CEOI_FrameRef64 CEOI_FrameRef32 CEOI_None CEOI_None,
      op_info ''CeOp_Conv_U32_F32'' CEOI_FrameRefF32 CEOI_FrameRef32 CEOI_None CEOI_None,
      op_info ''CeOp_Conv_U32_F64'' CEOI_FrameRefF64 CEOI_FrameRef32 CEOI_None CEOI_None,
      op_info ''CeOp_Conv_U64_F32'' CEOI_FrameRefF32 CEOI_FrameRef64 CEOI_None CEOI_None,
      op_info ''CeOp_Conv_U64_F64'' CEOI_FrameRefF64 CEOI_FrameRef64 CEOI_None CEOI_None,
      op_info ''CeOp_Conv_F32_I8'' CEOI_FrameRef8 CEOI_FrameRefF32 CEOI_None CEOI_None,
      op_info ''CeOp_Conv_F32_I16'' CEOI_FrameRef16 CEOI_FrameRefF32 CEOI_None CEOI_None,
      op_info ''CeOp_Conv_F32_I32'' CEOI_FrameRef32 CEOI_FrameRefF32 CEOI_None CEOI_None,
      op_info ''CeOp_Conv_F32_I64'' CEOI_FrameRef64 CEOI_FrameRefF32 CEOI_None CEOI_None,
      op_info ''CeOp_Conv_F32_U8'' CEOI_FrameRef8 CEOI_FrameRefF32 CEOI_None CEOI_None,
      op_info ''CeOp_Conv_F32_U16'' CEOI_FrameRef16 CEOI_FrameRefF32 CEOI_None CEOI_None,
      op_info ''CeOp_Conv_F32_U32'' CEOI_FrameRef32 CEOI_FrameRefF32 CEOI_None CEOI_None,
      op_info ''CeOp_Conv_F32_U64'' CEOI_FrameRef64 CEOI_FrameRefF32 CEOI_None CEOI_None,
      op_info ''CeOp_Conv_F32_F64'' CEOI_FrameRefF64 CEOI_FrameRefF32 CEOI_None CEOI_None,
      op_info ''CeOp_Conv_F64_I8'' CEOI_FrameRef8 CEOI_FrameRefF64 CEOI_None CEOI_None,
      op_info ''CeOp_Conv_F64_I16'' CEOI_FrameRef16 CEOI_FrameRefF64 CEOI_None CEOI_None,
      op_info ''CeOp_Conv_F64_I32'' CEOI_FrameRef32 CEOI_FrameRefF64 CEOI_None CEOI_None,
      op_info ''CeOp_Conv_F64_I64'' CEOI_FrameRef64 CEOI_FrameRefF64 CEOI_None CEOI_None,
      op_info ''CeOp_Conv_F64_U8'' CEOI_FrameRef8 CEOI_FrameRefF64 CEOI_None CEOI_None,
      op_info ''CeOp_Conv_F64_U16'' CEOI_FrameRef16 CEOI_FrameRefF64 CEOI_None CEOI_None,
      op_info ''CeOp_Conv_F64_U32'' CEOI_FrameRef32 CEOI_FrameRefF64 CEOI_None CEOI_None,
      op_info ''CeOp_Conv_F64_U64'' CEOI_FrameRef64 CEOI_FrameRefF64 CEOI_None CEOI_None,
      op_info ''CeOp_Conv_F64_F32'' CEOI_FrameRefF32 CEOI_FrameRefF64 CEOI_None CEOI_None]"

definition gOpInfo_arith :: "ce_op_info list" where
  "gOpInfo_arith =
     ceopinfo_sized_numeric_plusf_2 ''Abs'' oi_frame oi_frame @
     [op_info ''AddConst_I8'' CEOI_FrameRef8 CEOI_FrameRef8 CEOI_IMM8 CEOI_None,
      op_info ''AddConst_I16'' CEOI_FrameRef16 CEOI_FrameRef16 CEOI_IMM16 CEOI_None,
      op_info ''AddConst_I32'' CEOI_FrameRef32 CEOI_FrameRef32 CEOI_IMM32 CEOI_None,
      op_info ''AddConst_I64'' CEOI_FrameRef64 CEOI_FrameRef64 CEOI_IMM64 CEOI_None,
      op_info ''AddConst_F32'' CEOI_FrameRefF32 CEOI_FrameRefF32 CEOI_IMMF32 CEOI_None,
      op_info ''AddConst_F64'' CEOI_FrameRefF64 CEOI_FrameRefF64 CEOI_IMMF64 CEOI_None] @
     ceopinfo_sized_numeric_plusf_3 ''Add'' oi_frame oi_frame oi_frame @
     ceopinfo_sized_numeric_plusf_3 ''Sub'' oi_frame oi_frame oi_frame @
     ceopinfo_sized_numeric_plusf_3 ''Mul'' oi_frame oi_frame oi_frame @
     ceopinfo_sized_numeric_plusf_3 ''SDiv'' oi_frame oi_frame oi_frame @
     ceopinfo_sized_numeric_3 ''UDiv'' oi_frame oi_frame oi_frame @
     ceopinfo_sized_numeric_plusf_3 ''SMod'' oi_frame oi_frame oi_frame @
     ceopinfo_sized_numeric_3 ''UMod'' oi_frame oi_frame oi_frame @
     ceopinfo_sized_numeric_3 ''And'' oi_frame oi_frame oi_frame @
     ceopinfo_sized_numeric_3 ''Or'' oi_frame oi_frame oi_frame @
     ceopinfo_sized_numeric_3 ''Xor'' oi_frame oi_frame oi_frame @
     ceopinfo_sized_numeric_3 ''Shl'' oi_frame oi_frame oi_frame @
     ceopinfo_sized_numeric_3 ''Shr'' oi_frame oi_frame oi_frame @
     ceopinfo_sized_unumeric_3 ''Shr'' oi_frame oi_frame oi_frame"

definition gOpInfo_math :: "ce_op_info list" where
  "gOpInfo_math =
     ceopinfo_sized_float_2 ''Acos'' oi_frame oi_frame @
     ceopinfo_sized_float_2 ''Asin'' oi_frame oi_frame @
     ceopinfo_sized_float_2 ''Atan'' oi_frame oi_frame @
     ceopinfo_sized_float_3 ''Atan2'' oi_frame oi_frame oi_frame @
     ceopinfo_sized_float_2 ''Ceiling'' oi_frame oi_frame @
     ceopinfo_sized_float_2 ''Cos'' oi_frame oi_frame @
     ceopinfo_sized_float_2 ''Cosh'' oi_frame oi_frame @
     ceopinfo_sized_float_2 ''Exp'' oi_frame oi_frame @
     ceopinfo_sized_float_2 ''Floor'' oi_frame oi_frame @
     [op_info ''Fma_F32'' CEOI_FrameRefF32 CEOI_FrameRefF32 CEOI_FrameRefF32 CEOI_FrameRefF32,
      op_info ''Fma_F64'' CEOI_FrameRefF64 CEOI_FrameRefF64 CEOI_FrameRefF64 CEOI_FrameRefF64] @
     ceopinfo_sized_float_2 ''Log'' oi_frame oi_frame @
     ceopinfo_sized_float_2 ''Log10'' oi_frame oi_frame @
     ceopinfo_sized_float_3 ''Pow'' oi_frame oi_frame oi_frame @
     ceopinfo_sized_float_2 ''Round'' oi_frame oi_frame @
     ceopinfo_sized_float_2 ''Sin'' oi_frame oi_frame @
     ceopinfo_sized_float_2 ''Sinh'' oi_frame oi_frame @
     ceopinfo_sized_float_2 ''Sqrt'' oi_frame oi_frame @
     ceopinfo_sized_float_2 ''Tan'' oi_frame oi_frame @
     ceopinfo_sized_float_2 ''Tanh'' oi_frame oi_frame"

definition gOpInfo_cmp :: "ce_op_info list" where
  "gOpInfo_cmp =
     ceopinfo_sized_numeric_plusf_3_result8 ''Cmp_EQ'' oi_frame oi_frame oi_frame @
     ceopinfo_sized_numeric_plusf_3_result8 ''Cmp_NE'' oi_frame oi_frame oi_frame @
     ceopinfo_sized_numeric_plusf_3_result8 ''Cmp_SLT'' oi_frame oi_frame oi_frame @
     ceopinfo_sized_numeric_3_result8 ''Cmp_ULT'' oi_frame oi_frame oi_frame @
     ceopinfo_sized_numeric_plusf_3_result8 ''Cmp_SLE'' oi_frame oi_frame oi_frame @
     ceopinfo_sized_numeric_3_result8 ''Cmp_ULE'' oi_frame oi_frame oi_frame @
     ceopinfo_sized_numeric_plusf_3_result8 ''Cmp_SGT'' oi_frame oi_frame oi_frame @
     ceopinfo_sized_numeric_3_result8 ''Cmp_UGT'' oi_frame oi_frame oi_frame @
     ceopinfo_sized_numeric_plusf_3_result8 ''Cmp_SGE'' oi_frame oi_frame oi_frame @
     ceopinfo_sized_numeric_3_result8 ''Cmp_UGE'' oi_frame oi_frame oi_frame @
     ceopinfo_sized_numeric_plusf_2_result8 ''Neg'' oi_frame oi_frame @
     [op_info ''Not_I1'' CEOI_FrameRef8 CEOI_FrameRef8 CEOI_None CEOI_None] @
     ceopinfo_sized_numeric_2 ''Not'' oi_frame oi_frame"

definition gOpInfo :: "ce_op_info list" where
  "gOpInfo = gOpInfo_basic @ gOpInfo_conv @ gOpInfo_arith @ gOpInfo_math @ gOpInfo_cmp"

lemmas gOpInfo_defs = gOpInfo_def gOpInfo_basic_def gOpInfo_conv_def gOpInfo_arith_def
  gOpInfo_math_def gOpInfo_cmp_def

section \<open>Instruction sizes\<close>

text \<open>
  \<open>_HandleOperand\<close> of \<open>GetInstSize\<close>: the position after an operand at \<open>p\<close>. The \<open>default\<close> case
  asserts a non-null string, which holds, and leaves the position alone; it takes
  \<open>CEOI_None\<close>, and also \<open>CEOI_IMMF32\<close> and \<open>CEOI_IMMF64\<close>.
\<close>

primrec ce_handle_operand :: "u8 list \<Rightarrow> ce_oi_kind \<Rightarrow> int \<Rightarrow> int option" where
  "ce_handle_operand code CEOI_None p = Some p"
| "ce_handle_operand code CEOI_FrameRef p = Some (p + 4)"
| "ce_handle_operand code CEOI_FrameRef8 p = Some (p + 4)"
| "ce_handle_operand code CEOI_FrameRef16 p = Some (p + 4)"
| "ce_handle_operand code CEOI_FrameRef32 p = Some (p + 4)"
| "ce_handle_operand code CEOI_FrameRef64 p = Some (p + 4)"
| "ce_handle_operand code CEOI_FrameRefF32 p = Some (p + 4)"
| "ce_handle_operand code CEOI_FrameRefF64 p = Some (p + 4)"
| "ce_handle_operand code CEOI_IMM8 p = Some (p + 1)"
| "ce_handle_operand code CEOI_IMM16 p = Some (p + 2)"
| "ce_handle_operand code CEOI_IMM32 p = Some (p + 4)"
| "ce_handle_operand code CEOI_IMM64 p = Some (p + 8)"
| "ce_handle_operand code CEOI_IMMF32 p = Some p"
| "ce_handle_operand code CEOI_IMMF64 p = Some p"
| "ce_handle_operand code CEOI_IMM_VAR p =
     do { bs \<leftarrow> slice code p 4; Some (p + 4 + le_sint bs) }"
| "ce_handle_operand code CEOI_JMPREL p = Some (p + 4)"

text \<open>
  \<open>CeMachine::GetInstSize\<close>. \<open>bps\<close> is \<open>mBreakpoints\<close>, which maps the position of a patched
  instruction to the opcode the breakpoint replaced.
\<close>

definition ce_get_inst_size :: "(int \<rightharpoonup> ce_op) \<Rightarrow> u8 list \<Rightarrow> int \<Rightarrow> int option" where
  "ce_get_inst_size bps code instIdx =
     do { bs \<leftarrow> slice code instIdx 2;
          op0 \<leftarrow> ce_op_of_code (le_sint bs);
          let op = (if op0 = Ctl CeOp_DbgBreak
                    then (case bps instIdx of Some prev \<Rightarrow> prev | None \<Rightarrow> op0) else op0);
          let info = gOpInfo ! ce_code op;
          p1 \<leftarrow> ce_handle_operand code (oi_result info) (instIdx + 2);
          let p2 = (if oi_sizex info then p1 + 4 else p1);
          p3 \<leftarrow> ce_handle_operand code (oi_a info) p2;
          p4 \<leftarrow> ce_handle_operand code (oi_b info) p3;
          p5 \<leftarrow> ce_handle_operand code (oi_c info) p4;
          Some (p5 - instIdx) }"

text \<open>
  The table read per opcode: the bytes its operand kinds stand for, or \<open>None\<close> for the one
  entry (\<open>Const_X\<close>) with an operand of variable size.
\<close>

primrec oi_width :: "ce_oi_kind \<Rightarrow> int option" where
  "oi_width CEOI_None = Some 0"
| "oi_width CEOI_FrameRef = Some 4"
| "oi_width CEOI_FrameRef8 = Some 4"
| "oi_width CEOI_FrameRef16 = Some 4"
| "oi_width CEOI_FrameRef32 = Some 4"
| "oi_width CEOI_FrameRef64 = Some 4"
| "oi_width CEOI_FrameRefF32 = Some 4"
| "oi_width CEOI_FrameRefF64 = Some 4"
| "oi_width CEOI_IMM8 = Some 1"
| "oi_width CEOI_IMM16 = Some 2"
| "oi_width CEOI_IMM32 = Some 4"
| "oi_width CEOI_IMM64 = Some 8"
| "oi_width CEOI_IMMF32 = Some 0"
| "oi_width CEOI_IMMF64 = Some 0"
| "oi_width CEOI_IMM_VAR = None"
| "oi_width CEOI_JMPREL = Some 4"

definition info_width :: "ce_op_info \<Rightarrow> int option" where
  "info_width i =
     do { r \<leftarrow> oi_width (oi_result i); a \<leftarrow> oi_width (oi_a i); b \<leftarrow> oi_width (oi_b i);
          c \<leftarrow> oi_width (oi_c i); Some (r + (if oi_sizex i then 4 else 0) + a + b + c) }"

lemma handle_operand_width:
  "oi_width k = Some w \<Longrightarrow> ce_handle_operand code k p = Some (p + w)"
  by (cases k) auto

lemma get_inst_size_width:
  assumes op: "slice code p 2 = Some bs" "le_sint bs = int (ce_code op)"
    and nb: "op \<noteq> Ctl CeOp_DbgBreak"
    and w: "info_width (gOpInfo ! ce_code op) = Some w"
  shows "ce_get_inst_size bps code p = Some (2 + w)"
proof -
  let ?i = "gOpInfo ! ce_code op"
  from w obtain r a b c where ws: "oi_width (oi_result ?i) = Some r" "oi_width (oi_a ?i) = Some a"
    "oi_width (oi_b ?i) = Some b" "oi_width (oi_c ?i) = Some c"
    and weq: "w = r + (if oi_sizex ?i then 4 else 0) + a + b + c"
    by (auto simp: info_width_def bind_eq_Some_conv)
  from op nb ws show ?thesis
    by (simp add: ce_get_inst_size_def handle_operand_width weq Let_def)
qed

lemma length_gOpInfo: "length gOpInfo = ce_op_count"
  by (simp add: gOpInfo_defs ceopinfo_macros)

end
