(* ===== verification/Beef_Heap.thy ===== *)
theory Beef_Heap
  imports Beef_Prelude
begin

text \<open>
  \<open>ContiguousHeap\<close> (\<^verbatim>\<open>BeefySysLib/util/Heap.h\<close>, \<^verbatim>\<open>Heap.cpp\<close>), the allocator behind the memory of
  the compile-time evaluator. It hands out references into a growing range and keeps one
  \<open>ChBlock\<close> header per block, at the block's offset, in a separate metadata buffer; the
  headers form a doubly linked list in address order, and \<open>mFreeList\<close> holds the offsets of
  free blocks together with stale offsets that were merged into a neighbour.
\<close>

section \<open>State\<close>

text \<open>\<open>enum ChBlockKind\<close>, with \<open>ChBlockKind_Zero\<close> for the \<open>(ChBlockKind)0\<close> of fresh metadata.\<close>

datatype ch_kind = ChBlockKind_Zero | ChBlockKind_Bad | ChBlockKind_Unused | ChBlockKind_Used
  | ChBlockKind_Merged

text \<open>\<open>struct ChBlock\<close>; \<open>-1\<close> is the null offset. \<open>ch_block0\<close> is zeroed metadata.\<close>

record ch_block =
  b_prev :: int
  b_next :: int
  b_size :: int
  b_kind :: ch_kind

definition ch_block0 :: ch_block where
  "ch_block0 = \<lparr>b_prev = 0, b_next = 0, b_size = 0, b_kind = ChBlockKind_Zero\<rparr>"

definition ch_block_new :: ch_block where
  "ch_block_new = \<lparr>b_prev = -1, b_next = -1, b_size = 0, b_kind = ChBlockKind_Bad\<rparr>"

text \<open>
  \<open>class ContiguousHeap\<close> with the \<open>ChList\<close> at the start of its metadata. The metadata is a
  map from the 16-byte aligned offsets to the header there.
\<close>

record ch_heap =
  h_blocks :: "int \<Rightarrow> ch_block"
  h_head :: int
  h_tail :: int
  h_mem_size :: int
  h_data_ofs :: int
  h_free :: "int list"
  h_free_idx :: nat

definition ch_init :: ch_heap where
  "ch_init = \<lparr>h_blocks = (\<lambda>_. ch_block0), h_head = 0, h_tail = 0, h_mem_size = 0,
              h_data_ofs = 0, h_free = [], h_free_idx = 0\<rparr>"

definition upd_blk :: "ch_heap \<Rightarrow> int \<Rightarrow> (ch_block \<Rightarrow> ch_block) \<Rightarrow> ch_heap" where
  "upd_blk h r f = h\<lparr>h_blocks := (h_blocks h)(r := f (h_blocks h r))\<rparr>"

text \<open>\<open>BF_ALIGN(v, 16)\<close>.\<close>

definition align16 :: "int \<Rightarrow> int" where
  "align16 v = (v + 15) div 16 * 16"

text \<open>\<open>Array::RemoveAtFast\<close>: the last element takes the place of the removed one.\<close>

definition remove_at_fast :: "'a list \<Rightarrow> nat \<Rightarrow> 'a list" where
  "remove_at_fast xs i = butlast (xs[i := last xs])"

section \<open>The block list\<close>

definition ch_push_back :: "ch_heap \<Rightarrow> int \<Rightarrow> ch_heap" where
  "ch_push_back h node =
     (let h1 = (if h_head h = -1 then h\<lparr>h_head := node\<rparr>
                else upd_blk (upd_blk h (h_tail h) (b_next_update (\<lambda>_. node)))
                       node (b_prev_update (\<lambda>_. h_tail h)))
      in h1\<lparr>h_tail := node\<rparr>)"

definition ch_add_after :: "ch_heap \<Rightarrow> int \<Rightarrow> int \<Rightarrow> ch_heap" where
  "ch_add_after h ref new =
     (let prev_next = b_next (h_blocks h ref);
          h1 = upd_blk h ref (b_next_update (\<lambda>_. new));
          h2 = upd_blk h1 new (b_prev_update (\<lambda>_. ref));
          h3 = upd_blk h2 new (b_next_update (\<lambda>_. prev_next));
          h4 = (if prev_next \<noteq> -1 then upd_blk h3 prev_next (b_prev_update (\<lambda>_. new)) else h3)
      in if ref = h_tail h4 then h4\<lparr>h_tail := new\<rparr> else h4)"

definition ch_remove :: "ch_heap \<Rightarrow> int \<Rightarrow> ch_heap" where
  "ch_remove h node =
     (let h1 = (if b_prev (h_blocks h node) = -1
                then (let hd = b_next (h_blocks h node); h' = h\<lparr>h_head := hd\<rparr>
                      in if hd \<noteq> -1 then upd_blk h' hd (b_prev_update (\<lambda>_. -1)) else h')
                else upd_blk h (b_prev (h_blocks h node))
                       (b_next_update (\<lambda>_. b_next (h_blocks h node))));
          h2 = (if b_next (h_blocks h1 node) = -1
                then (let tl = b_prev (h_blocks h1 node); h' = h1\<lparr>h_tail := tl\<rparr>
                      in if tl \<noteq> -1 then upd_blk h' tl (b_next_update (\<lambda>_. -1)) else h')
                else upd_blk h1 (b_next (h_blocks h1 node))
                       (b_prev_update (\<lambda>_. b_prev (h_blocks h1 node))))
      in upd_blk (upd_blk h2 node (b_prev_update (\<lambda>_. -1))) node (b_next_update (\<lambda>_. -1)))"

section \<open>Allocation\<close>

text \<open>
  The block at \<open>r\<close>, found free and large enough, is handed out: it leaves the free list, and
  is split when at least 64 bytes remain. \<open>None\<close> is a failed assertion.
\<close>

definition ch_take :: "ch_heap \<Rightarrow> int \<Rightarrow> int \<Rightarrow> (ch_heap \<times> int) option" where
  "ch_take h r sz =
     (let h0 = h\<lparr>h_free := remove_at_fast (h_free h) (h_free_idx h)\<rparr>;
          bsz = b_size (h_blocks h0 r);
          used = (\<lambda>g. upd_blk g r (b_kind_update (\<lambda>_. ChBlockKind_Used)))
      in if sz + 64 \<le> bsz
         then (let new = r + sz; nk = b_kind (h_blocks h0 new)
               in if nk \<noteq> ChBlockKind_Zero \<and> nk \<noteq> ChBlockKind_Merged then None
                  else (let h1 = (if nk = ChBlockKind_Zero then h0\<lparr>h_free := h_free h0 @ [new]\<rparr> else h0);
                            h2 = upd_blk h1 new (\<lambda>_. \<lparr>b_prev = -1, b_next = -1, b_size = bsz - sz,
                                                      b_kind = ChBlockKind_Unused\<rparr>);
                            h3 = ch_add_after h2 r new;
                            h4 = upd_blk h3 r (b_size_update (\<lambda>_. sz))
                        in Some (used h4, r)))
         else Some (used h0, r))"

text \<open>Dropping the stale entry at \<open>mFreeIdx\<close> of the free list.\<close>

definition ch_drop_stale :: "ch_heap \<Rightarrow> int \<Rightarrow> ch_heap" where
  "ch_drop_stale h r =
     (let fl = remove_at_fast (h_free h) (h_free_idx h);
          h1 = (upd_blk h r (b_kind_update (\<lambda>_. ChBlockKind_Zero)))\<lparr>h_free := fl\<rparr>
      in if length fl \<le> h_free_idx h1 then h1\<lparr>h_free_idx := 0\<rparr> else h1)"

lemma length_drop_stale [simp]: "length (h_free (ch_drop_stale h r)) = length (h_free h) - 1"
  by (simp add: ch_drop_stale_def remove_at_fast_def Let_def upd_blk_def)

text \<open>
  The \<open>for\<close> loop of \<open>Alloc\<close> over the free list, from iteration \<open>itr\<close>: \<open>Inr\<close> is the allocated
  reference, \<open>Inl\<close> the state after a whole round without success. Stale merged entries are
  dropped on the way without counting as an iteration.
\<close>

function ch_scan :: "ch_heap \<Rightarrow> int \<Rightarrow> nat \<Rightarrow> (ch_heap + ch_heap \<times> int) option" where
  "ch_scan h sz itr =
     (if itr < length (h_free h)
      then (let r = h_free h ! h_free_idx h; b = h_blocks h r
            in if b_kind b = ChBlockKind_Merged
               then ch_scan (ch_drop_stale h r) sz itr
               else if b_kind b \<noteq> ChBlockKind_Unused then None
               else if sz \<le> b_size b then map_option Inr (ch_take h r sz)
               else ch_scan (h\<lparr>h_free_idx := (h_free_idx h + 1) mod length (h_free h)\<rparr>) sz (itr + 1))
      else Some (Inl h))"
  by pat_completeness auto
termination
  by (relation "measure (\<lambda>(h, sz, itr). length (h_free h) - itr)")
     auto

declare ch_scan.simps [simp del]

text \<open>
  The growth step: the metadata is enlarged by half, or by the size asked for, or by 64K, and
  a new free block covers the added range (the whole range after a \<open>Clear\<close>). \<open>None\<close> is the
  overflow of the \<open>int\<close> sizes.
\<close>

definition ch_grow :: "ch_heap \<Rightarrow> int \<Rightarrow> ch_heap option" where
  "ch_grow h sz =
     (let m = h_mem_size h;
          want0 = max (m + m div 2) (m + max sz (64 * 1024));
          want = align16 want0
      in if 2 ^ 31 \<le> m + m div 2 \<or> 2 ^ 31 \<le> want0 + 15 then None
         else (let h0 = h\<lparr>h_blocks := (\<lambda>a. if m \<le> a then ch_block0 else h_blocks h a),
                          h_mem_size := want\<rparr>;
                   (h1, prev) = (if h_data_ofs h0 = 0
                                 then (h0\<lparr>h_head := -1, h_tail := -1, h_data_ofs := 16\<rparr>, 16)
                                 else (h0, m));
                   h2 = upd_blk h1 prev (\<lambda>_. ch_block_new\<lparr>b_size := want - prev,
                                                          b_kind := ChBlockKind_Unused\<rparr>);
                   h3 = ch_push_back h2 prev;
                   h4 = h3\<lparr>h_free := h_free h3 @ [prev]\<rparr>
               in Some (if length (h_free h4) \<le> h_free_idx h4 then h4\<lparr>h_free_idx := 0\<rparr> else h4)))"

text \<open>
  The \<open>while (true)\<close> of \<open>Alloc\<close>: scan, grow, scan again. Each round allocates or adds a free
  block, and three rounds are enough (\<open>ch_alloc_rounds_enough\<close>).
\<close>

fun ch_alloc_rounds :: "nat \<Rightarrow> ch_heap \<Rightarrow> int \<Rightarrow> (ch_heap \<times> int) option" where
  "ch_alloc_rounds 0 h sz = None"
| "ch_alloc_rounds (Suc n) h sz =
     (case ch_scan h sz 0 of
        None \<Rightarrow> None
      | Some (Inr res) \<Rightarrow> Some res
      | Some (Inl h1) \<Rightarrow> (case ch_grow h1 sz of None \<Rightarrow> None
                                           | Some h2 \<Rightarrow> ch_alloc_rounds n h2 sz))"

definition ch_alloc :: "ch_heap \<Rightarrow> int \<Rightarrow> (ch_heap \<times> int) option" where
  "ch_alloc h sz =
     (if sz = 0 then Some (h, 0)
      else if 2 ^ 31 \<le> sz + 15 then None
      else (let sz1 = align16 sz;
                h1 = (if length (h_free h) \<le> h_free_idx h then h\<lparr>h_free_idx := 0\<rparr> else h)
            in ch_alloc_rounds 3 h1 sz1))"

section \<open>Release\<close>

text \<open>
  The first loop of \<open>Free\<close>: free predecessors swallow the block. It follows \<open>mPrev\<close>, so it is
  given fuel; the list has at most one block per 16 bytes (\<open>ch_merge_head_enough\<close>).
\<close>

fun ch_merge_head :: "nat \<Rightarrow> ch_heap \<Rightarrow> int \<Rightarrow> int \<Rightarrow> (ch_heap \<times> int \<times> int) option" where
  "ch_merge_head 0 h mh acc = None"
| "ch_merge_head (Suc n) h mh acc =
     (if b_prev (h_blocks h mh) = -1 then Some (h, mh, acc)
      else (let check = b_prev (h_blocks h mh)
            in if b_kind (h_blocks h check) \<noteq> ChBlockKind_Unused then Some (h, mh, acc)
               else (let acc1 = acc + b_size (h_blocks h mh);
                         h1 = upd_blk h mh (b_kind_update (\<lambda>_. ChBlockKind_Merged));
                         h2 = ch_remove h1 mh
                     in ch_merge_head n h2 check acc1)))"

text \<open>The second loop, over the free successors of the merged head.\<close>

fun ch_merge_tail :: "nat \<Rightarrow> ch_heap \<Rightarrow> int \<Rightarrow> int \<Rightarrow> (ch_heap \<times> int) option" where
  "ch_merge_tail 0 h mt acc = None"
| "ch_merge_tail (Suc n) h mt acc =
     (if b_kind (h_blocks h mt) \<noteq> ChBlockKind_Unused then Some (h, acc)
      else (let nxt = b_next (h_blocks h mt);
                acc1 = acc + b_size (h_blocks h mt);
                h1 = upd_blk h mt (b_kind_update (\<lambda>_. ChBlockKind_Merged));
                h2 = ch_remove h1 mt
            in if nxt = -1 then Some (h2, acc1) else ch_merge_tail n h2 nxt acc1))"

text \<open>
  \<open>Free\<close>. The bound check is unsigned, so it lets every non-negative reference through while
  no memory has been allocated; the header is then read through a null pointer. \<open>None\<close> is
  that access, and any reference that is not 16-byte aligned (it straddles two headers,
  which this header-level model of the metadata does not cover).
\<close>

definition ch_fuel :: "ch_heap \<Rightarrow> nat" where
  "ch_fuel h = nat (h_mem_size h div 16) + 1"

definition ch_free_block :: "ch_heap \<Rightarrow> int \<Rightarrow> ch_heap option" where
  "ch_free_block h block =
     do { (h1, mh, hacc) \<leftarrow> ch_merge_head (ch_fuel h) h block 0;
          (h2, tacc) \<leftarrow> (if b_next (h_blocks h1 mh) \<noteq> -1
                         then ch_merge_tail (ch_fuel h) h1 (b_next (h_blocks h1 mh)) 0
                         else Some (h1, 0));
          let h3 = upd_blk h2 mh (\<lambda>b. b\<lparr>b_size := b_size b + (tacc + hacc)\<rparr>);
          let k = b_kind (h_blocks h3 mh);
          let h4 = (if k \<noteq> ChBlockKind_Unused \<and> k \<noteq> ChBlockKind_Merged
                    then h3\<lparr>h_free := h_free h3 @ [mh]\<rparr> else h3);
          let h5 = upd_blk h4 mh (b_kind_update (\<lambda>_. ChBlockKind_Unused));
          Some (if mh \<noteq> block then upd_blk h5 block (b_kind_update (\<lambda>_. ChBlockKind_Zero)) else h5) }"

definition ch_free :: "ch_heap \<Rightarrow> int \<Rightarrow> (ch_heap \<times> bool) option" where
  "ch_free h ref =
     (if ref < 0 \<or> (h_mem_size h - 16) mod 2 ^ 64 < ref then Some (h, False)
      else if h_mem_size h < ref + 16 \<or> \<not> 16 dvd ref then None
      else if b_kind (h_blocks h ref) \<noteq> ChBlockKind_Used then Some (h, False)
      else map_option (\<lambda>h'. (h', True)) (ch_free_block h ref))"

section \<open>Reset\<close>

text \<open>Walking the block list from \<open>r\<close>, at most \<open>n\<close> blocks: every header's kind is zeroed.\<close>

fun ch_clear_list :: "nat \<Rightarrow> ch_heap \<Rightarrow> int \<Rightarrow> ch_heap option" where
  "ch_clear_list 0 h r = None"
| "ch_clear_list (Suc n) h r =
     (let h1 = upd_blk h r (b_kind_update (\<lambda>_. ChBlockKind_Zero))
      in if b_next (h_blocks h1 r) = -1 then Some h1 else ch_clear_list n h1 (b_next (h_blocks h1 r)))"

text \<open>
  \<open>Clear(maxAllocSize)\<close>: gives the metadata back when it is larger than the limit, and
  otherwise forgets every block but keeps the memory (the final \<open>Validate\<close> only asserts).
\<close>

definition ch_clear :: "ch_heap \<Rightarrow> int \<Rightarrow> ch_heap option" where
  "ch_clear h max_size =
     (if h_data_ofs h = 0 then Some h
      else if h_mem_size h \<noteq> -1 \<and> max_size < h_mem_size h
      then Some (h\<lparr>h_blocks := (\<lambda>_. ch_block0), h_mem_size := 0, h_data_ofs := 0, h_free := []\<rparr>)
      else do {
        let h1 = fold (\<lambda>idx g. upd_blk g idx (b_kind_update (\<lambda>_. ChBlockKind_Zero))) (h_free h) h;
        h2 \<leftarrow> (if h_head h1 \<noteq> -1 then ch_clear_list (ch_fuel h) h1 (h_head h1) else Some h1);
        Some (h2\<lparr>h_head := -1, h_tail := -1, h_data_ofs := 0, h_free := []\<rparr>) })"

end
