(* ===== verification/Beef_Heap_Inv.thy ===== *)
theory Beef_Heap_Inv
  imports Beef_Heap
begin

text \<open>
  The invariant of \<open>ContiguousHeap\<close> and its preservation by \<open>Alloc\<close>, \<open>Free\<close> and \<open>Clear\<close>.
  The block headers are described by the list of their offsets in address order; the
  invariant says that the list is doubly linked through the headers, that the blocks tile the
  data range, and that the free list holds exactly the offsets of free and of stale blocks.
\<close>

section \<open>Doubly linked lists and tilings\<close>

definition hd0 :: "int list \<Rightarrow> int \<Rightarrow> int" where
  "hd0 L q = (case L of [] \<Rightarrow> q | x # _ \<Rightarrow> x)"

definition last0 :: "int list \<Rightarrow> int \<Rightarrow> int" where
  "last0 L p = (if L = [] then p else last L)"

lemma hd0_simps [simp]: "hd0 [] q = q" "hd0 (x # L) q = x"
  by (simp_all add: hd0_def)

lemma last0_simps [simp]: "last0 [] p = p" "last0 (xs @ [x]) p = x" "last0 (x # L) p = last0 L x"
  by (simp_all add: last0_def)

lemma hd0_append [simp]: "hd0 (xs @ ys) q = hd0 xs (hd0 ys q)"
  by (cases xs) auto

lemma last0_append [simp]: "last0 (xs @ ys) p = last0 ys (last0 xs p)"
  by (simp add: last0_def)

text \<open>
  The headers at \<open>L\<close> form a chain entered from \<open>p\<close> and left to \<open>q\<close> (\<open>-1\<close> is the null offset).
\<close>

fun dll :: "(int \<Rightarrow> ch_block) \<Rightarrow> int \<Rightarrow> int list \<Rightarrow> int \<Rightarrow> bool" where
  "dll bs p [] q \<longleftrightarrow> True"
| "dll bs p (a # L) q \<longleftrightarrow> b_prev (bs a) = p \<and> b_next (bs a) = hd0 L q \<and> dll bs a L q"

lemma dll_append [simp]:
  "dll bs p (xs @ ys) q \<longleftrightarrow> dll bs p xs (hd0 ys q) \<and> dll bs (last0 xs p) ys q"
  by (induction xs arbitrary: p) auto

lemma dll_cong:
  assumes "\<And>a. a \<in> set L \<Longrightarrow> b_prev (bs' a) = b_prev (bs a) \<and> b_next (bs' a) = b_next (bs a)"
  shows "dll bs' p L q = dll bs p L q"
  using assms by (induction L arbitrary: p) auto

lemma dll_at:
  "dll bs p (xs @ a # ys) q \<Longrightarrow> b_prev (bs a) = last0 xs p \<and> b_next (bs a) = hd0 ys q"
  by simp

text \<open>The ranges \<open>[a, a + sz a)\<close> for \<open>a\<close> in \<open>L\<close> follow each other from \<open>s\<close> to \<open>e\<close>.\<close>

fun tile :: "(int \<Rightarrow> int) \<Rightarrow> int \<Rightarrow> int list \<Rightarrow> int \<Rightarrow> bool" where
  "tile sz s [] e \<longleftrightarrow> s = e"
| "tile sz s (a # L) e \<longleftrightarrow> a = s \<and> 16 \<le> sz a \<and> 16 dvd sz a \<and> tile sz (s + sz a) L e"

lemma tile_hd0: "tile sz s L e \<Longrightarrow> hd0 L e = s"
  by (cases L) auto

lemma tile_append [simp]:
  "tile sz s (xs @ ys) e \<longleftrightarrow> tile sz s xs (hd0 ys e) \<and> tile sz (hd0 ys e) ys e"
proof (induction xs arbitrary: s)
  case Nil
  then show ?case by (auto dest: tile_hd0)
qed auto

lemma tile_cong: "(\<And>a. a \<in> set L \<Longrightarrow> sz' a = sz a) \<Longrightarrow> tile sz' s L e = tile sz s L e"
  by (induction L arbitrary: s) auto

lemma tile_le: "tile sz s L e \<Longrightarrow> s \<le> e"
  by (induction L arbitrary: s) force+

lemma tile_range: "tile sz s L e \<Longrightarrow> a \<in> set L \<Longrightarrow> s \<le> a \<and> 16 \<le> sz a \<and> a + sz a \<le> e"
proof (induction L arbitrary: s)
  case (Cons b L)
  then show ?case using tile_le [of sz "s + sz b" L e] by force
qed simp

lemma tile_distinct: "tile sz s L e \<Longrightarrow> distinct L"
proof (induction L arbitrary: s)
  case (Cons b L)
  then show ?case using tile_range [of sz "s + sz b" L e b] by auto
qed simp

lemma tile_dvd: "tile sz s L e \<Longrightarrow> 16 dvd s \<Longrightarrow> a \<in> set L \<Longrightarrow> 16 dvd a \<and> 16 dvd sz a"
  by (induction L arbitrary: s) auto

lemma tile_end_dvd: "tile sz s L e \<Longrightarrow> 16 dvd s \<Longrightarrow> 16 dvd e"
  by (induction L arbitrary: s) auto

lemma tile_disjoint:
  "tile sz s L e \<Longrightarrow> a \<in> set L \<Longrightarrow> b \<in> set L \<Longrightarrow> a < b \<Longrightarrow> a + sz a \<le> b"
proof (induction L arbitrary: s)
  case (Cons c L)
  then show ?case using tile_range [of sz "s + sz c" L e] by force
qed simp

lemma tile_length: "tile sz s L e \<Longrightarrow> 16 * int (length L) \<le> e - s"
  by (induction L arbitrary: s) force+

section \<open>The invariant\<close>

definition ch_free_set :: "ch_heap \<Rightarrow> int set" where
  "ch_free_set h = {a. b_kind (h_blocks h a) \<in> {ChBlockKind_Unused, ChBlockKind_Merged}}"

text \<open>The list part: \<open>sz\<close> is \<open>b_size\<close> up to sizes accumulated by a running merge.\<close>

definition ch_list :: "ch_heap \<Rightarrow> (int \<Rightarrow> int) \<Rightarrow> int list \<Rightarrow> bool" where
  "ch_list h sz L \<longleftrightarrow> L \<noteq> [] \<and> h_head h = hd L \<and> h_tail h = last L \<and>
     dll (h_blocks h) (-1) L (-1) \<and> tile sz 16 L (h_mem_size h) \<and> h_mem_size h < 2 ^ 31"

text \<open>The headers on the list are free or used ones, every other one is zero or stale.\<close>

definition ch_kinds :: "ch_heap \<Rightarrow> int list \<Rightarrow> bool" where
  "ch_kinds h L \<longleftrightarrow>
     (\<forall>a\<in>set L. b_kind (h_blocks h a) \<in> {ChBlockKind_Unused, ChBlockKind_Used}) \<and>
     (\<forall>a. a \<notin> set L \<longrightarrow> b_kind (h_blocks h a) \<in> {ChBlockKind_Zero, ChBlockKind_Merged})"

definition in_data :: "ch_heap \<Rightarrow> int \<Rightarrow> bool" where
  "in_data h a \<longleftrightarrow> 16 \<le> a \<and> a + 16 \<le> h_mem_size h \<and> 16 dvd a"

definition ch_sizes :: "ch_heap \<Rightarrow> int \<Rightarrow> int" where
  "ch_sizes h a = b_size (h_blocks h a)"

definition ch_wf_with :: "ch_heap \<Rightarrow> int list \<Rightarrow> bool" where
  "ch_wf_with h L \<longleftrightarrow> h_data_ofs h = 16 \<and> ch_list h (ch_sizes h) L \<and> ch_kinds h L \<and>
     distinct (h_free h) \<and> set (h_free h) = ch_free_set h \<and> (\<forall>a\<in>ch_free_set h. in_data h a)"

definition ch_wf_empty :: "ch_heap \<Rightarrow> bool" where
  "ch_wf_empty h \<longleftrightarrow> h_data_ofs h = 0 \<and> h_free h = [] \<and>
     (\<forall>a. b_kind (h_blocks h a) = ChBlockKind_Zero) \<and>
     0 \<le> h_mem_size h \<and> h_mem_size h < 2 ^ 31 \<and> 16 dvd h_mem_size h"

definition ch_wf :: "ch_heap \<Rightarrow> bool" where
  "ch_wf h \<longleftrightarrow> ch_wf_empty h \<or> (\<exists>L. ch_wf_with h L)"

text \<open>The abstract state: the live allocations and their sizes.\<close>

definition ch_live :: "ch_heap \<Rightarrow> int \<rightharpoonup> int" where
  "ch_live h a = (if b_kind (h_blocks h a) = ChBlockKind_Used then Some (b_size (h_blocks h a)) else None)"

lemma ch_wf_init: "ch_wf ch_init"
  by (simp add: ch_wf_def ch_wf_empty_def ch_init_def ch_block0_def)

lemma ch_live_init: "ch_live ch_init = Map.empty"
  by (simp add: ch_live_def ch_init_def ch_block0_def fun_eq_iff)

lemma ch_live_cong:
  "(\<And>a. b_kind (h_blocks h' a) = b_kind (h_blocks h a) \<and>
        (b_kind (h_blocks h a) = ChBlockKind_Used \<longrightarrow> b_size (h_blocks h' a) = b_size (h_blocks h a)))
   \<Longrightarrow> ch_live h' = ch_live h"
  by (simp add: ch_live_def fun_eq_iff)

lemma ch_list_elem:
  assumes "ch_list h sz L" "a \<in> set L"
  shows "16 \<le> a \<and> 16 \<le> sz a \<and> 16 dvd a \<and> 16 dvd sz a \<and> a + sz a \<le> h_mem_size h"
  using assms tile_range [of sz 16 L "h_mem_size h" a] tile_dvd [of sz 16 L "h_mem_size h" a]
  by (auto simp: ch_list_def)

lemma ch_wf_with_live:
  assumes "ch_wf_with h L" "ch_live h a = Some s"
  shows "a \<in> set L \<and> s = ch_sizes h a"
  using assms by (auto simp: ch_wf_with_def ch_kinds_def ch_live_def ch_sizes_def split: if_splits)

text \<open>Live allocations lie in the data range and are disjoint.\<close>

lemma ch_wf_live_range:
  assumes "ch_wf h" "ch_live h a = Some s"
  shows "16 \<le> a \<and> 16 \<le> s \<and> 16 dvd a \<and> 16 dvd s \<and> a + s \<le> h_mem_size h"
proof -
  obtain L where L: "ch_wf_with h L"
    using assms by (auto simp: ch_wf_def ch_wf_empty_def ch_live_def)
  with ch_wf_with_live [OF L assms(2)] ch_list_elem [of h "ch_sizes h" L a]
  show ?thesis by (auto simp: ch_wf_with_def)
qed

lemma ch_wf_live_disjoint:
  assumes "ch_wf h" "ch_live h a = Some s" "ch_live h b = Some t" "a \<noteq> b"
  shows "{a ..< a + s} \<inter> {b ..< b + t} = {}"
proof -
  obtain L where L: "ch_wf_with h L"
    using assms by (auto simp: ch_wf_def ch_wf_empty_def ch_live_def)
  then have t: "tile (ch_sizes h) 16 L (h_mem_size h)" by (simp add: ch_wf_with_def ch_list_def)
  from tile_disjoint [OF t, of a b] tile_disjoint [OF t, of b a]
    ch_wf_with_live [OF L assms(2)] ch_wf_with_live [OF L assms(3)] assms(4)
  show ?thesis by (cases "a < b") auto
qed

section \<open>Field updates\<close>

lemma upd_blk_simps [simp]:
  "h_blocks (upd_blk h r f) = (h_blocks h)(r := f (h_blocks h r))"
  "h_head (upd_blk h r f) = h_head h" "h_tail (upd_blk h r f) = h_tail h"
  "h_mem_size (upd_blk h r f) = h_mem_size h" "h_data_ofs (upd_blk h r f) = h_data_ofs h"
  "h_free (upd_blk h r f) = h_free h" "h_free_idx (upd_blk h r f) = h_free_idx h"
  by (simp_all add: upd_blk_def)

section \<open>List operations\<close>

text \<open>\<open>ChList::Remove\<close> unlinks a node; kinds, sizes and everything else stay.\<close>

lemma ch_remove_heap [simp]:
  "h_mem_size (ch_remove h a) = h_mem_size h" "h_data_ofs (ch_remove h a) = h_data_ofs h"
  "h_free (ch_remove h a) = h_free h" "h_free_idx (ch_remove h a) = h_free_idx h"
  by (simp_all add: ch_remove_def Let_def split del: if_split cong: if_cong
        add: if_distrib [of h_mem_size] if_distrib [of h_data_ofs] if_distrib [of h_free]
             if_distrib [of h_free_idx])

lemma upd_link_kind [simp]:
  "b_kind (h_blocks (upd_blk h r (b_prev_update f)) b) = b_kind (h_blocks h b)"
  "b_kind (h_blocks (upd_blk h r (b_next_update f)) b) = b_kind (h_blocks h b)"
  "b_size (h_blocks (upd_blk h r (b_prev_update f)) b) = b_size (h_blocks h b)"
  "b_size (h_blocks (upd_blk h r (b_next_update f)) b) = b_size (h_blocks h b)"
  by simp_all

lemma ch_remove_block [simp]:
  "b_kind (h_blocks (ch_remove h a) b) = b_kind (h_blocks h b)"
  "b_size (h_blocks (ch_remove h a) b) = b_size (h_blocks h b)"
  by (simp_all add: ch_remove_def Let_def del: upd_blk_simps(1))

lemma ch_remove_links:
  assumes "b_prev (h_blocks h a) = p" "b_next (h_blocks h a) = n" "p \<noteq> a" "n \<noteq> a" "p \<noteq> n \<or> p = -1"
    "a \<noteq> -1"
  shows "b_prev (h_blocks (ch_remove h a) b) =
           (if b = a then -1 else if b = n \<and> n \<noteq> -1 then p else b_prev (h_blocks h b))"
    and "b_next (h_blocks (ch_remove h a) b) =
           (if b = a then -1 else if b = p \<and> p \<noteq> -1 then n else b_next (h_blocks h b))"
    and "h_head (ch_remove h a) = (if p = -1 then n else h_head h)"
    and "h_tail (ch_remove h a) = (if n = -1 then p else h_tail h)"
  using assms by (cases "p = -1"; cases "n = -1"; simp add: ch_remove_def Let_def)+

lemma dll_relink_last:
  assumes "dll bs p xs q" "distinct xs"
    and "\<forall>b\<in>set xs. b_prev (bs' b) = b_prev (bs b)"
    and "\<forall>b\<in>set xs. b_next (bs' b) = (if b = last xs then q' else b_next (bs b))"
  shows "dll bs' p xs q'"
  using assms
proof (induction xs arbitrary: p)
  case (Cons a xs)
  then have "dll bs' a xs q'" by auto
  with Cons.prems show ?case by (cases xs) auto
qed simp

lemma dll_relink_first:
  assumes "dll bs p xs q" "distinct xs"
    and "\<forall>b\<in>set xs. b_next (bs' b) = b_next (bs b)"
    and "\<forall>b\<in>set xs. b_prev (bs' b) = (if b = hd xs then p' else b_prev (bs b))"
  shows "dll bs' p' xs q"
proof (cases xs)
  case (Cons a ys)
  with assms have "dll bs' a ys q = dll bs a ys q" by (intro dll_cong) auto
  with assms Cons show ?thesis by simp
qed simp

lemma last0_cases: "(xs = [] \<and> last0 xs p = p) \<or> (xs \<noteq> [] \<and> last0 xs p = last xs \<and> last xs \<in> set xs)"
  by (auto simp: last0_def)

lemma hd0_cases: "(xs = [] \<and> hd0 xs p = p) \<or> (xs \<noteq> [] \<and> hd0 xs p = hd xs \<and> hd xs \<in> set xs)"
  by (cases xs) auto

lemma ch_remove_list:
  assumes d: "dll (h_blocks h) (-1) (xs @ a # ys) (-1)" and dist: "distinct (xs @ a # ys)"
    and pos: "\<forall>b\<in>set (xs @ a # ys). 0 \<le> b"
    and ht: "h_head h = hd (xs @ a # ys)" "h_tail h = last (xs @ a # ys)"
    and ne: "xs @ ys \<noteq> []"
  shows "dll (h_blocks (ch_remove h a)) (-1) (xs @ ys) (-1)"
    and "h_head (ch_remove h a) = hd (xs @ ys)" and "h_tail (ch_remove h a) = last (xs @ ys)"
proof -
  define p where "p = last0 xs (-1)"
  define n where "n = hd0 ys (-1)"
  have pn: "b_prev (h_blocks h a) = p" "b_next (h_blocks h a) = n"
    using d by (simp_all add: p_def n_def)
  have p: "xs = [] \<and> p = -1 \<or> xs \<noteq> [] \<and> p = last xs \<and> p \<in> set xs"
    unfolding p_def using last0_cases [of xs "-1"] by auto
  have n: "ys = [] \<and> n = -1 \<or> ys \<noteq> [] \<and> n = hd ys \<and> n \<in> set ys"
    unfolding n_def using hd0_cases [of ys "-1"] by auto
  have ne1: "p \<noteq> a" "n \<noteq> a" "p \<noteq> n \<or> p = -1" "a \<noteq> -1" "p \<in> set xs \<longrightarrow> 0 \<le> p" "n \<in> set ys \<longrightarrow> 0 \<le> n"
    using p n dist pos by auto
  note L = ch_remove_links [OF pn ne1(1-4)]
  have dx: "dll (h_blocks (ch_remove h a)) (-1) xs n"
    by (rule dll_relink_last [of "h_blocks h" _ _ a]) (use d dist p n ne1 L(1,2) in auto)
  have dy: "dll (h_blocks (ch_remove h a)) p ys (-1)"
    by (rule dll_relink_first [of "h_blocks h" a]) (use d dist p n ne1 L(1,2) in auto)
  from dx dy show "dll (h_blocks (ch_remove h a)) (-1) (xs @ ys) (-1)"
    by (simp add: p_def n_def)
  show "h_head (ch_remove h a) = hd (xs @ ys)" using L(3) p n ne ne1 ht by auto
  show "h_tail (ch_remove h a) = last (xs @ ys)" using L(4) p n ne ne1 ht by auto
qed

lemma ch_add_after_links:
  assumes "b_next (h_blocks h a) = n" "new \<noteq> a" "n \<noteq> new" "n \<noteq> a"
  shows "b_prev (h_blocks (ch_add_after h a new) b) =
           (if b = new then a else if b = n \<and> n \<noteq> -1 then new else b_prev (h_blocks h b))"
    and "b_next (h_blocks (ch_add_after h a new) b) =
           (if b = new then n else if b = a then new else b_next (h_blocks h b))"
    and "h_tail (ch_add_after h a new) = (if a = h_tail h then new else h_tail h)"
    and "h_head (ch_add_after h a new) = h_head h"
  using assms by (cases "n = -1"; simp add: ch_add_after_def Let_def)+

lemma ch_add_after_heap [simp]:
  "h_mem_size (ch_add_after h a c) = h_mem_size h" "h_data_ofs (ch_add_after h a c) = h_data_ofs h"
  "h_free (ch_add_after h a c) = h_free h" "h_free_idx (ch_add_after h a c) = h_free_idx h"
  "b_kind (h_blocks (ch_add_after h a c) b) = b_kind (h_blocks h b)"
  "b_size (h_blocks (ch_add_after h a c) b) = b_size (h_blocks h b)"
  by (simp_all add: ch_add_after_def Let_def del: upd_blk_simps(1))

lemma ch_add_after_list:
  assumes d: "dll (h_blocks h) (-1) (xs @ a # ys) (-1)" and dist: "distinct (xs @ a # ys)"
    and pos: "\<forall>b\<in>set (xs @ a # ys). 0 \<le> b"
    and ht: "h_head h = hd (xs @ a # ys)" "h_tail h = last (xs @ a # ys)"
    and new: "new \<notin> set (xs @ a # ys)" "0 \<le> new"
  shows "dll (h_blocks (ch_add_after h a new)) (-1) (xs @ a # new # ys) (-1)"
    and "h_head (ch_add_after h a new) = hd (xs @ a # new # ys)"
    and "h_tail (ch_add_after h a new) = last (xs @ a # new # ys)"
proof -
  define n where "n = hd0 ys (-1)"
  have pn: "b_next (h_blocks h a) = n" using d by (simp add: n_def)
  have n: "ys = [] \<and> n = -1 \<or> ys \<noteq> [] \<and> n = hd ys \<and> n \<in> set ys"
    unfolding n_def using hd0_cases [of ys "-1"] by auto
  have ne: "new \<noteq> a" "n \<noteq> new" "n \<noteq> a" using n dist pos new by auto
  have m: "-1 \<notin> set ys" using pos by force
  note L = ch_add_after_links [OF pn ne]
  have dx: "dll (h_blocks (ch_add_after h a new)) (-1) (xs @ [a]) new"
    by (rule dll_relink_last [of "h_blocks h" _ _ n])
      (use d dist n ne new pos L(1,2) in \<open>auto simp: n_def\<close>)
  have dy: "dll (h_blocks (ch_add_after h a new)) new ys (-1)"
    by (rule dll_relink_first [of "h_blocks h" a]) (use d dist n ne new pos m L(1,2) in auto)
  from dx dy L(1,2) [of new] show "dll (h_blocks (ch_add_after h a new)) (-1) (xs @ a # new # ys) (-1)"
    by (simp add: n_def)
  show "h_head (ch_add_after h a new) = hd (xs @ a # new # ys)" using L(4) ht by (cases xs) auto
  show "h_tail (ch_add_after h a new) = last (xs @ a # new # ys)"
    using L(3) ht dist by (cases ys) auto
qed

lemma ch_push_back_heap [simp]:
  "h_mem_size (ch_push_back h a) = h_mem_size h" "h_data_ofs (ch_push_back h a) = h_data_ofs h"
  "h_free (ch_push_back h a) = h_free h" "h_free_idx (ch_push_back h a) = h_free_idx h"
  "b_kind (h_blocks (ch_push_back h a) b) = b_kind (h_blocks h b)"
  "b_size (h_blocks (ch_push_back h a) b) = b_size (h_blocks h b)"
  by (simp_all add: ch_push_back_def Let_def del: upd_blk_simps(1))

lemma ch_push_back_list:
  assumes d: "dll (h_blocks h) (-1) xs (-1)" and dist: "distinct xs"
    and pos: "\<forall>b\<in>set xs. 0 \<le> b"
    and ht: "h_head h = hd0 xs (-1)" "xs \<noteq> [] \<longrightarrow> h_tail h = last xs"
    and new: "new \<notin> set xs" "b_prev (h_blocks h new) = -1" "b_next (h_blocks h new) = -1"
  shows "dll (h_blocks (ch_push_back h new)) (-1) (xs @ [new]) (-1)"
    and "h_head (ch_push_back h new) = hd (xs @ [new])"
    and "h_tail (ch_push_back h new) = new"
proof -
  show "h_tail (ch_push_back h new) = new" by (simp add: ch_push_back_def Let_def)
  have "xs \<noteq> [] \<Longrightarrow> h_head h \<noteq> -1" using ht(1) pos by (cases xs) auto
  then have h: "h_head h = -1 \<longleftrightarrow> xs = []" using ht by auto
  show "h_head (ch_push_back h new) = hd (xs @ [new])"
    using h ht by (cases xs) (auto simp: ch_push_back_def Let_def)
  show "dll (h_blocks (ch_push_back h new)) (-1) (xs @ [new]) (-1)"
  proof (cases "xs = []")
    case True
    with h new show ?thesis by (simp add: ch_push_back_def Let_def)
  next
    case False
    then have t: "h_tail h = last xs" "last xs \<in> set xs" "last xs \<noteq> new" using ht new by auto
    have "dll (h_blocks (ch_push_back h new)) (-1) xs new"
      by (rule dll_relink_last [of "h_blocks h" _ _ "-1"])
        (use d dist False h t new in \<open>auto simp: ch_push_back_def Let_def\<close>)
    with False t h new show ?thesis by (simp add: last0_def ch_push_back_def Let_def)
  qed
qed

section \<open>Allocation\<close>

lemma remove_at_fast_set:
  assumes "distinct xs" "i < length xs"
  shows "distinct (remove_at_fast xs i)" "set (remove_at_fast xs i) = set xs - {xs ! i}"
    and "length (remove_at_fast xs i) = length xs - 1"
proof -
  obtain ys z where xs: "xs = ys @ [z]" using assms(2) by (cases xs rule: rev_cases) auto
  have "distinct (remove_at_fast xs i) \<and> set (remove_at_fast xs i) = set xs - {xs ! i}"
  proof (cases "i = length ys")
    case True
    then show ?thesis using assms xs by (auto simp: remove_at_fast_def)
  next
    case False
    then have i: "i < length ys" using assms xs by simp
    then have e: "remove_at_fast xs i = ys[i := z]"
      by (simp add: remove_at_fast_def xs list_update_append)
    have "set (ys[i := z]) = insert z (set ys - {ys ! i})"
      using i assms(1) xs by (simp add: set_update_distinct)
    moreover have "z \<noteq> ys ! i" using assms(1) xs i by auto
    ultimately show ?thesis using e xs i assms(1)
      by (auto simp: nth_append distinct_list_update)
  qed
  then show "distinct (remove_at_fast xs i)" "set (remove_at_fast xs i) = set xs - {xs ! i}"
    by auto
  show "length (remove_at_fast xs i) = length xs - 1" by (simp add: remove_at_fast_def)
qed

lemma dll_upd_other [simp]:
  "dll (h_blocks (upd_blk h r (b_kind_update f))) p L q = dll (h_blocks h) p L q"
  "dll (h_blocks (upd_blk h r (b_size_update g))) p L q = dll (h_blocks h) p L q"
  by (rule dll_cong; simp)+

lemma ch_list_pos: "ch_list h sz L \<Longrightarrow> \<forall>b\<in>set L. 0 \<le> b"
  using ch_list_elem by fastforce

lemma ch_list_distinct: "ch_list h sz L \<Longrightarrow> distinct L"
  by (auto simp: ch_list_def intro: tile_distinct)

lemma ch_wf_with_unused:
  assumes "ch_wf_with h L" "b_kind (h_blocks h a) = ChBlockKind_Unused"
  shows "a \<in> set L"
  using assms by (fastforce simp: ch_wf_with_def ch_kinds_def)

text \<open>The state after a take without a split, and after one with a split.\<close>

lemma ch_take_whole:
  assumes wf: "ch_wf_with h L" and i: "h_free_idx h < length (h_free h)"
    and r: "h_free h ! h_free_idx h = r" and k: "b_kind (h_blocks h r) = ChBlockKind_Unused"
    and s: "b_size (h_blocks h r) < sz + 64"
  shows "\<exists>h'. ch_take h r sz = Some (h', r) \<and> ch_wf_with h' L \<and> h_mem_size h' = h_mem_size h \<and>
              ch_live h' = (ch_live h)(r \<mapsto> b_size (h_blocks h r))"
proof -
  define h' where "h' = upd_blk (h\<lparr>h_free := remove_at_fast (h_free h) (h_free_idx h)\<rparr>) r
                          (b_kind_update (\<lambda>_. ChBlockKind_Used))"
  have t: "ch_take h r sz = Some (h', r)" using s by (simp add: ch_take_def h'_def Let_def)
  have rL: "r \<in> set L" using ch_wf_with_unused [OF wf k] .
  from wf have dist: "distinct (h_free h)" and fs: "set (h_free h) = ch_free_set h"
    by (auto simp: ch_wf_with_def)
  note rem = remove_at_fast_set [OF dist i, unfolded r]
  have fs': "ch_free_set h' = ch_free_set h - {r}"
    by (auto simp: ch_free_set_def h'_def)
  have sz': "ch_sizes h' = ch_sizes h" by (auto simp: ch_sizes_def h'_def fun_eq_iff)
  have "dll (h_blocks h') (-1) L (-1) = dll (h_blocks h) (-1) L (-1)"
    by (rule dll_cong) (simp add: h'_def)
  then have "ch_list h' (ch_sizes h') L" using wf sz'
    by (simp add: ch_wf_with_def ch_list_def h'_def)
  moreover have "ch_kinds h' L" using wf rL by (auto simp: ch_wf_with_def ch_kinds_def h'_def)
  moreover have "in_data h' = in_data h" by (auto simp: in_data_def h'_def fun_eq_iff)
  ultimately have "ch_wf_with h' L" using wf rem fs fs' 
    by (simp add: ch_wf_with_def) (simp add: h'_def)
  moreover have "ch_live h' = (ch_live h)(r \<mapsto> b_size (h_blocks h r))"
    by (auto simp: ch_live_def h'_def fun_eq_iff)
  moreover have "h_mem_size h' = h_mem_size h" by (simp add: h'_def)
  ultimately show ?thesis using t by blast
qed

lemma ch_take_split:
  assumes wf: "ch_wf_with h L" and i: "h_free_idx h < length (h_free h)"
    and r: "h_free h ! h_free_idx h = r" and k: "b_kind (h_blocks h r) = ChBlockKind_Unused"
    and s: "sz + 64 \<le> b_size (h_blocks h r)" and sz: "16 \<le> sz" "16 dvd sz"
  shows "\<exists>h' L'. ch_take h r sz = Some (h', r) \<and> ch_wf_with h' L' \<and> h_mem_size h' = h_mem_size h \<and>
              ch_live h' = (ch_live h)(r \<mapsto> sz)"
proof -
  define bsz where "bsz = b_size (h_blocks h r)"
  define new where "new = r + sz"
  define nk where "nk = b_kind (h_blocks h new)"
  define h0 where "h0 = h\<lparr>h_free := remove_at_fast (h_free h) (h_free_idx h)\<rparr>"
  define h1 where "h1 = (if nk = ChBlockKind_Zero then h0\<lparr>h_free := h_free h0 @ [new]\<rparr> else h0)"
  define h2 where "h2 = upd_blk h1 new (\<lambda>_. \<lparr>b_prev = -1, b_next = -1, b_size = bsz - sz,
                                            b_kind = ChBlockKind_Unused\<rparr>)"
  define h3 where "h3 = ch_add_after h2 r new"
  define h' where "h' = upd_blk (upd_blk h3 r (b_size_update (\<lambda>_. sz))) r
                          (b_kind_update (\<lambda>_. ChBlockKind_Used))"
  have rL: "r \<in> set L" using ch_wf_with_unused [OF wf k] .
  from wf have dist: "distinct (h_free h)" and fs: "set (h_free h) = ch_free_set h"
    and li: "ch_list h (ch_sizes h) L" and kk: "ch_kinds h L" and ofs: "h_data_ofs h = 16"
    and ind: "\<forall>a\<in>ch_free_set h. in_data h a"
    by (auto simp: ch_wf_with_def)
  from li have tile: "tile (ch_sizes h) 16 L (h_mem_size h)" by (simp add: ch_list_def)
  have rr: "16 \<le> r" "16 dvd r" "16 dvd bsz" "r + bsz \<le> h_mem_size h"
    using ch_list_elem [OF li rL] by (auto simp: bsz_def ch_sizes_def)
  have newL: "new \<notin> set L"
  proof
    assume "new \<in> set L"
    then have "r + bsz \<le> new"
      using tile_disjoint [OF tile rL, of new] sz by (auto simp: new_def bsz_def ch_sizes_def)
    with s show False by (simp add: new_def bsz_def)
  qed
  have nr: "new \<noteq> r" using sz by (simp add: new_def)
  have nk: "nk = ChBlockKind_Zero \<or> nk = ChBlockKind_Merged" 
    using kk newL by (auto simp: ch_kinds_def nk_def)
  have t: "ch_take h r sz = Some (h', r)"
    using s nk by (simp add: ch_take_def Let_def h'_def h3_def h2_def h1_def h0_def nk_def
        new_def bsz_def)
  have b1: "h_blocks h1 = h_blocks h" "h_head h1 = h_head h" "h_tail h1 = h_tail h"
      "h_mem_size h1 = h_mem_size h" "h_data_ofs h1 = h_data_ofs h"
    by (simp_all add: h1_def h0_def)
  have kind': "b_kind (h_blocks h' a) = (if a = r then ChBlockKind_Used
       else if a = new then ChBlockKind_Unused else b_kind (h_blocks h a))" for a
    using nr by (simp add: h'_def h3_def h2_def b1)
  have size': "b_size (h_blocks h' a) = (if a = r then sz
       else if a = new then bsz - sz else b_size (h_blocks h a))" for a
    using nr by (simp add: h'_def h3_def h2_def b1)
  obtain xs ys where L: "L = xs @ r # ys" using rL by (auto simp: in_set_conv_decomp)
  have d2: "dll (h_blocks h2) (-1) (xs @ r # ys) (-1)"
  proof -
    have "dll (h_blocks h2) (-1) L (-1) = dll (h_blocks h) (-1) L (-1)"
      by (rule dll_cong) (use newL in \<open>auto simp: h2_def b1\<close>)
    with li L show ?thesis by (simp add: ch_list_def)
  qed
  have ht2: "h_head h2 = hd (xs @ r # ys)" "h_tail h2 = last (xs @ r # ys)"
    using li L by (simp_all add: ch_list_def h2_def b1)
  have dp: "distinct (xs @ r # ys)" "\<forall>b\<in>set (xs @ r # ys). 0 \<le> b"
    "new \<notin> set (xs @ r # ys)" "0 \<le> new"
    using ch_list_distinct [OF li] ch_list_pos [OF li] newL rr sz
    unfolding L by (simp_all add: new_def)
  note aa = ch_add_after_list [OF d2 dp(1,2) ht2 dp(3,4), folded h3_def]
  define L' where "L' = xs @ r # new # ys"
  have "dll (h_blocks h') (-1) L' (-1)" using aa(1) by (simp only: h'_def L'_def dll_upd_other)
  moreover have "h_head h' = hd L'" "h_tail h' = last L'" "L' \<noteq> []"
    using aa(2,3) by (simp_all add: h'_def L'_def)
  moreover have "tile (ch_sizes h') 16 L' (h_mem_size h')"
  proof -
    have m: "h_mem_size h' = h_mem_size h" by (simp add: h'_def h3_def h2_def b1)
    have s1: "ch_sizes h' a = (if a = r then sz else if a = new then bsz - sz else ch_sizes h a)" for a
      by (simp add: ch_sizes_def size')
    have e1: "tile (ch_sizes h') s xs e = tile (ch_sizes h) s xs e" for s e
      by (rule tile_cong) (use dp(1,3) in \<open>auto simp: s1\<close>)
    have e2: "tile (ch_sizes h') s ys e = tile (ch_sizes h) s ys e" for s e
      by (rule tile_cong) (use dp(1,3) in \<open>auto simp: s1\<close>)
    have "r + ch_sizes h r = new + (bsz - sz)" by (simp add: new_def ch_sizes_def bsz_def)
    with tile nr s sz rr show ?thesis
      by (simp add: m L L'_def e1 e2 s1 new_def bsz_def)
  qed
  moreover have "h_mem_size h' < 2 ^ 31"
    using li by (simp add: ch_list_def h'_def h3_def h2_def b1)
  ultimately have li': "ch_list h' (ch_sizes h') L'" by (simp add: ch_list_def)
  have kk': "ch_kinds h' L'" using kk L nr by (auto simp: ch_kinds_def kind' L'_def)
  have fs': "ch_free_set h' = insert new (ch_free_set h - {r})"
    using nr by (auto simp: ch_free_set_def kind')
  note rem = remove_at_fast_set [OF dist i, unfolded r]
  have fr: "h_free h' = (if nk = ChBlockKind_Zero then remove_at_fast (h_free h) (h_free_idx h) @ [new]
                         else remove_at_fast (h_free h) (h_free_idx h))"
    by (simp add: h'_def h3_def h2_def h1_def h0_def)
  have nf: "new \<in> ch_free_set h \<longleftrightarrow> nk \<noteq> ChBlockKind_Zero"
    using nk by (auto simp: ch_free_set_def nk_def)
  have fd: "distinct (h_free h')" "set (h_free h') = ch_free_set h'"
    using rem fs nf nr by (auto simp: fr fs')
  have idn: "in_data h' a = in_data h a" for a by (simp add: in_data_def h'_def h3_def h2_def b1)
  have "in_data h new" using rr sz s by (auto simp: in_data_def new_def bsz_def)
  with ind have "\<forall>a\<in>ch_free_set h'. in_data h' a" by (auto simp: fs' idn)
  with li' kk' fd ofs have wf': "ch_wf_with h' L'"
    by (simp add: ch_wf_with_def) (simp add: h'_def h3_def h2_def b1)
  have "ch_live h' = (ch_live h)(r \<mapsto> sz)"
  proof
    fix a
    show "ch_live h' a = ((ch_live h)(r \<mapsto> sz)) a"
      using nk by (auto simp: ch_live_def kind' size' nk_def)
  qed
  moreover have "h_mem_size h' = h_mem_size h" by (simp add: h'_def h3_def h2_def b1)
  ultimately show ?thesis using t wf' by blast
qed

text \<open>What an allocation promises: one more live block, large enough, nothing else changed.\<close>

definition ch_allocated :: "ch_heap \<Rightarrow> int \<Rightarrow> ch_heap \<Rightarrow> int \<Rightarrow> bool" where
  "ch_allocated h sz h' r \<longleftrightarrow> (\<exists>L'. ch_wf_with h' L') \<and> ch_live h r = None \<and>
     (\<exists>s. sz \<le> s \<and> s < sz + 64 \<and> ch_live h' = (ch_live h)(r \<mapsto> s))"

definition idx_ok :: "ch_heap \<Rightarrow> bool" where
  "idx_ok h \<longleftrightarrow> h_free_idx h < length (h_free h) \<or> h_free h = [] \<and> h_free_idx h = 0"

lemma ch_take_allocates:
  assumes wf: "ch_wf_with h L" and i: "h_free_idx h < length (h_free h)"
    and r: "h_free h ! h_free_idx h = r" and k: "b_kind (h_blocks h r) = ChBlockKind_Unused"
    and s: "sz \<le> b_size (h_blocks h r)" and sz: "16 \<le> sz" "16 dvd sz"
  shows "\<exists>h'. ch_take h r sz = Some (h', r) \<and> ch_allocated h sz h' r"
proof -
  have n: "ch_live h r = None" using k by (simp add: ch_live_def)
  show ?thesis
  proof (cases "b_size (h_blocks h r) < sz + 64")
    case True
    from ch_take_whole [OF wf i r k True] n s True show ?thesis
      by (auto simp: ch_allocated_def intro!: exI [of _ "b_size (h_blocks h r)"])
  next
    case False
    then have "sz + 64 \<le> b_size (h_blocks h r)" by simp
    from ch_take_split [OF wf i r k this sz] n show ?thesis
      by (auto simp: ch_allocated_def intro!: exI [of _ sz])
  qed
qed

text \<open>Dropping a stale entry of the free list.\<close>

lemma ch_drop_stale_fields:
  "h_blocks (ch_drop_stale h r) = (h_blocks h)(r := (h_blocks h r)\<lparr>b_kind := ChBlockKind_Zero\<rparr>)"
  "h_head (ch_drop_stale h r) = h_head h" "h_tail (ch_drop_stale h r) = h_tail h"
  "h_mem_size (ch_drop_stale h r) = h_mem_size h" "h_data_ofs (ch_drop_stale h r) = h_data_ofs h"
  "h_free (ch_drop_stale h r) = remove_at_fast (h_free h) (h_free_idx h)"
  "h_free_idx (ch_drop_stale h r) =
     (if length (h_free h) - 1 \<le> h_free_idx h then 0 else h_free_idx h)"
  by (simp_all add: ch_drop_stale_def Let_def remove_at_fast_def)

lemma ch_drop_stale_wf:
  assumes wf: "ch_wf_with h L" and i: "h_free_idx h < length (h_free h)"
    and r: "h_free h ! h_free_idx h = r" and k: "b_kind (h_blocks h r) = ChBlockKind_Merged"
  shows "ch_wf_with (ch_drop_stale h r) L \<and> idx_ok (ch_drop_stale h r) \<and>
         ch_live (ch_drop_stale h r) = ch_live h \<and>
         length (h_free (ch_drop_stale h r)) = length (h_free h) - 1"
proof -
  let ?h = "ch_drop_stale h r"
  from wf have dist: "distinct (h_free h)" and fs: "set (h_free h) = ch_free_set h"
    and kk: "ch_kinds h L" by (auto simp: ch_wf_with_def)
  note rem = remove_at_fast_set [OF dist i, unfolded r]
  have rL: "r \<notin> set L" using kk k by (auto simp: ch_kinds_def)
  have fs': "ch_free_set ?h = ch_free_set h - {r}"
    by (auto simp: ch_free_set_def ch_drop_stale_fields)
  have sz': "ch_sizes ?h = ch_sizes h" by (auto simp: ch_sizes_def ch_drop_stale_fields fun_eq_iff)
  have "dll (h_blocks ?h) (-1) L (-1) = dll (h_blocks h) (-1) L (-1)"
    by (rule dll_cong) (simp add: ch_drop_stale_fields)
  then have "ch_list ?h (ch_sizes ?h) L" using wf sz'
    by (simp add: ch_wf_with_def ch_list_def ch_drop_stale_fields)
  moreover have "ch_kinds ?h L" using wf rL
    by (auto simp: ch_wf_with_def ch_kinds_def ch_drop_stale_fields)
  moreover have "in_data ?h = in_data h"
    by (auto simp: in_data_def ch_drop_stale_fields fun_eq_iff)
  ultimately have "ch_wf_with ?h L" using wf rem fs fs'
    by (simp add: ch_wf_with_def) (simp add: ch_drop_stale_fields)
  moreover have "idx_ok ?h"
  proof (cases "h_free_idx h < length (h_free h) - 1")
    case True
    then show ?thesis using length_drop_stale [of h r]
      by (simp only: idx_ok_def ch_drop_stale_fields(7)) simp
  next
    case False
    then have "h_free_idx ?h = 0" by (simp add: ch_drop_stale_fields(7))
    then show ?thesis unfolding idx_ok_def by (cases "h_free ?h") simp_all
  qed
  moreover have "ch_live ?h = ch_live h"
    using k by (intro ext) (simp add: ch_live_def ch_drop_stale_fields(1))
  ultimately show ?thesis by (simp only: length_drop_stale)
qed

lemma ch_scan_unfold:
  "ch_scan h sz itr =
     (if itr < length (h_free h)
      then (let r = h_free h ! h_free_idx h
            in if b_kind (h_blocks h r) = ChBlockKind_Merged then ch_scan (ch_drop_stale h r) sz itr
               else if b_kind (h_blocks h r) \<noteq> ChBlockKind_Unused then None
               else if sz \<le> b_size (h_blocks h r) then map_option Inr (ch_take h r sz)
               else ch_scan (h\<lparr>h_free_idx := (h_free_idx h + 1) mod length (h_free h)\<rparr>) sz (itr + 1))
      else Some (Inl h))"
  by (subst ch_scan.simps) (simp only: Let_def)

lemma ch_sizes_idx [simp]: "ch_sizes (h\<lparr>h_free_idx := i\<rparr>) = ch_sizes h"
  by (simp add: ch_sizes_def fun_eq_iff)

lemma ch_wf_with_idx [simp]: "ch_wf_with (h\<lparr>h_free_idx := i\<rparr>) L = ch_wf_with h L"
  by (simp add: ch_wf_with_def ch_list_def ch_kinds_def ch_free_set_def in_data_def)

lemma ch_live_idx [simp]: "ch_live (h\<lparr>h_free_idx := i\<rparr>) = ch_live h"
  by (simp add: ch_live_def fun_eq_iff)

text \<open>A round of the scan ends with an allocation, or with nothing but stale entries dropped.\<close>

lemma ch_scan_spec:
  assumes "ch_wf_with h L" "idx_ok h" "16 \<le> sz" "16 dvd sz"
  shows "(\<exists>h1. ch_scan h sz itr = Some (Inl h1) \<and> ch_wf_with h1 L \<and> idx_ok h1 \<and>
               ch_live h1 = ch_live h \<and> h_mem_size h1 = h_mem_size h) \<or>
         (\<exists>h1 r. ch_scan h sz itr = Some (Inr (h1, r)) \<and> ch_allocated h sz h1 r)"
  using assms
proof (induction h sz itr rule: ch_scan.induct)
  case (1 h sz itr)
  let ?r = "h_free h ! h_free_idx h"
  show ?case
  proof (cases "itr < length (h_free h)")
    case False
    with 1 show ?thesis by (simp add: ch_scan_unfold [of h])
  next
    case itr: True
    then have i: "h_free_idx h < length (h_free h)" using 1(4) by (auto simp: idx_ok_def)
    then have rf: "?r \<in> ch_free_set h" using 1(3) by (metis ch_wf_with_def nth_mem)
    show ?thesis
    proof (cases "b_kind (h_blocks h ?r) = ChBlockKind_Merged")
      case True
      note D = ch_drop_stale_wf [OF 1(3) i refl True]
      have "(\<exists>h1. ch_scan (ch_drop_stale h ?r) sz itr = Some (Inl h1) \<and> ch_wf_with h1 L \<and> idx_ok h1 \<and>
               ch_live h1 = ch_live h \<and> h_mem_size h1 = h_mem_size h) \<or>
            (\<exists>h1 r. ch_scan (ch_drop_stale h ?r) sz itr = Some (Inr (h1, r)) \<and>
               ch_allocated (ch_drop_stale h ?r) sz h1 r)"
        using 1(1) [OF itr refl refl True] 1(5,6) D by (simp add: ch_drop_stale_fields(4))
      moreover have "ch_allocated (ch_drop_stale h ?r) sz h1 r = ch_allocated h sz h1 r" for h1 r
        using D by (simp add: ch_allocated_def)
      ultimately show ?thesis using itr True by (simp add: ch_scan_unfold [of h])
    next
      case nm: False
      then have k: "b_kind (h_blocks h ?r) = ChBlockKind_Unused" using rf by (auto simp: ch_free_set_def)
      show ?thesis
      proof (cases "sz \<le> b_size (h_blocks h ?r)")
        case True
        then show ?thesis using ch_take_allocates [OF 1(3) i refl k True 1(5,6)] itr k
          by (auto simp: ch_scan_unfold [of h])
      next
        case False
        let ?h = "h\<lparr>h_free_idx := (h_free_idx h + 1) mod length (h_free h)\<rparr>"
        have "idx_ok ?h" using i by (auto simp: idx_ok_def intro: mod_less_divisor)
        moreover have "ch_allocated ?h sz h1 r = ch_allocated h sz h1 r" for h1 r
          by (simp add: ch_allocated_def)
        ultimately show ?thesis
          using 1(2) [OF itr refl refl nm _ False] 1(3,5,6) k False itr
          by (simp add: ch_scan_unfold [of h])
      qed
    qed
  qed
qed

text \<open>
  A fitting block at the end of the free list is not missed: the removals of stale entries only
  move it to the position that is looked at next.
\<close>

lemma ch_scan_finds_last:
  assumes "ch_wf_with h L" "16 \<le> sz" "16 dvd sz" "itr \<le> h_free_idx h"
    "h_free_idx h < length (h_free h)"
    "b_kind (h_blocks h (last (h_free h))) = ChBlockKind_Unused"
    "sz \<le> b_size (h_blocks h (last (h_free h)))"
  shows "\<exists>h1 r. ch_scan h sz itr = Some (Inr (h1, r))"
  using assms
proof (induction h sz itr rule: ch_scan.induct)
  case (1 h sz itr)
  let ?r = "h_free h ! h_free_idx h" and ?n = "length (h_free h)"
  note itr = le_less_trans [OF 1(6,7)]
  have ne: "h_free h \<noteq> []" using itr by auto
  have rf: "?r \<in> ch_free_set h" using 1(3,7) by (metis ch_wf_with_def nth_mem)
  have lst: "h_free_idx h = ?n - 1 \<Longrightarrow> ?r = last (h_free h)" using ne by (simp add: last_conv_nth)
  show ?case
  proof (cases "b_kind (h_blocks h ?r) = ChBlockKind_Merged")
    case True
    then have i: "h_free_idx h < ?n - 1" using 1(7,8) lst True by (cases "h_free_idx h = ?n - 1") auto
    let ?h = "ch_drop_stale h ?r"
    from ch_drop_stale_wf [OF 1(3,7) refl True]
    have wf': "ch_wf_with ?h L" and len: "length (h_free ?h) = ?n - 1" by auto
    have idx: "h_free_idx ?h = h_free_idx h" using i by (simp add: ch_drop_stale_fields)
    have cur: "h_free ?h ! h_free_idx ?h = last (h_free h)"
      using i ne by (simp add: idx) (simp add: ch_drop_stale_fields remove_at_fast_def nth_butlast)
    have "last (h_free h) \<noteq> ?r" using 1(8) True by auto
    then have "b_kind (h_blocks ?h (last (h_free h))) = ChBlockKind_Unused"
      "sz \<le> b_size (h_blocks ?h (last (h_free h)))"
      using 1(8,9) by (simp_all add: ch_drop_stale_fields)
    with ch_take_allocates [OF wf' _ cur _ _ 1(4,5)] i idx len 1(6) cur
    have "\<exists>h1 r. ch_scan ?h sz itr = Some (Inr (h1, r))"
      by (auto simp: ch_scan_unfold [of ?h])
    with True itr show ?thesis by (simp add: ch_scan_unfold [of h])
  next
    case nm: False
    then have k: "b_kind (h_blocks h ?r) = ChBlockKind_Unused" using rf by (auto simp: ch_free_set_def)
    show ?thesis
    proof (cases "sz \<le> b_size (h_blocks h ?r)")
      case True
      then show ?thesis using ch_take_allocates [OF 1(3,7) refl k True 1(4,5)] itr k
        by (auto simp: ch_scan_unfold [of h])
    next
      case False
      then have "h_free_idx h < ?n - 1" using 1(7,9) lst False by (cases "h_free_idx h = ?n - 1") auto
      then have "(h_free_idx h + 1) mod ?n = h_free_idx h + 1" by simp
      with 1(2) [OF itr refl refl nm _ False] 1(3-9) k False itr \<open>h_free_idx h < ?n - 1\<close>
      show ?thesis by (simp add: ch_scan_unfold [of h])
    qed
  qed
qed


text \<open>The growth step appends one free block.\<close>

lemma align16_bounds: "v \<le> align16 v" "align16 v \<le> v + 15" "16 dvd align16 v"
proof -
  show "16 dvd align16 v" by (simp add: align16_def)
  have "(v + 15) mod 16 = v + 15 - align16 v" by (simp add: align16_def minus_div_mult_eq_mod [symmetric])
  moreover have "0 \<le> (v + 15) mod 16" "(v + 15) mod 16 < 16" by simp_all
  ultimately show "v \<le> align16 v" "align16 v \<le> v + 15" by linarith+
qed

definition ch_want :: "int \<Rightarrow> int \<Rightarrow> int" where
  "ch_want m sz = align16 (max (m + m div 2) (m + max sz (64 * 1024)))"

lemma ch_want_bounds:
  assumes "0 \<le> m"
  shows "m + sz \<le> ch_want m sz" "m + 65536 \<le> ch_want m sz" "16 dvd ch_want m sz"
proof -
  let ?v = "max (m + m div 2) (m + max sz (64 * 1024))"
  have "m + sz \<le> ?v" "m + 65536 \<le> ?v" by simp_all
  with align16_bounds(1) [of ?v] show "m + sz \<le> ch_want m sz" "m + 65536 \<le> ch_want m sz"
    unfolding ch_want_def by linarith+
  show "16 dvd ch_want m sz" unfolding ch_want_def by (rule align16_bounds(3))
qed

lemma ch_want_upper:
  assumes "0 \<le> m" "0 \<le> sz"
  shows "ch_want m sz \<le> m + m div 2 + sz + 65551"
proof -
  have "max (m + m div 2) (m + max sz (64 * 1024)) \<le> m + m div 2 + sz + 65536"
    using assms by simp
  with align16_bounds(2) [of "max (m + m div 2) (m + max sz (64 * 1024))"]
  show ?thesis unfolding ch_want_def by linarith
qed

lemma ch_grow_total:
  assumes "0 \<le> h_mem_size h" "0 \<le> sz" "h_mem_size h + h_mem_size h div 2 + sz + 65551 < 2 ^ 31"
  shows "\<exists>h'. ch_grow h sz = Some h'"
  using assms by (auto simp: ch_grow_def Let_def split: prod.splits)

lemma ch_grow_bound:
  assumes "ch_grow h sz = Some h'"
  shows "ch_want (h_mem_size h) sz < 2 ^ 31"
proof -
  let ?v = "max (h_mem_size h + h_mem_size h div 2) (h_mem_size h + max sz (64 * 1024))"
  have "\<not> 2 ^ 31 \<le> ?v + 15"
    using assms unfolding ch_grow_def Let_def by (metis option.distinct(1))
  with align16_bounds(2) [of ?v] show ?thesis unfolding ch_want_def by linarith
qed

lemma ch_grow_with:
  assumes wf: "ch_wf_with h L" and g: "ch_grow h sz = Some h'"
  shows "ch_wf_with h' (L @ [h_mem_size h]) \<and> ch_live h' = ch_live h \<and>
         h_mem_size h' = ch_want (h_mem_size h) sz \<and>
         h_free h' = h_free h @ [h_mem_size h] \<and>
         b_kind (h_blocks h' (h_mem_size h)) = ChBlockKind_Unused \<and>
         b_size (h_blocks h' (h_mem_size h)) = ch_want (h_mem_size h) sz - h_mem_size h \<and>
         h_free_idx h' < length (h_free h')"
proof -
  define m where "m = h_mem_size h"
  define w where "w = ch_want m sz"
  define h0 where "h0 = h\<lparr>h_blocks := (\<lambda>a. if m \<le> a then ch_block0 else h_blocks h a), h_mem_size := w\<rparr>"
  define h2 where "h2 = upd_blk h0 m (\<lambda>_. ch_block_new\<lparr>b_size := w - m, b_kind := ChBlockKind_Unused\<rparr>)"
  define h3 where "h3 = ch_push_back h2 m"
  define h4 where "h4 = h3\<lparr>h_free := h_free h3 @ [m]\<rparr>"
  from wf have ofs: "h_data_ofs h = 16" and li: "ch_list h (ch_sizes h) L" and kk: "ch_kinds h L"
    and fd: "distinct (h_free h)" "set (h_free h) = ch_free_set h"
    and ind: "\<forall>a\<in>ch_free_set h. in_data h a" by (auto simp: ch_wf_with_def)
  have h': "h' = (if length (h_free h4) \<le> h_free_idx h4 then h4\<lparr>h_free_idx := 0\<rparr> else h4)"
    using g ofs
    by (auto simp: ch_grow_def Let_def h4_def h3_def h2_def h0_def w_def ch_want_def m_def
        split: if_splits)
  from li have tile: "tile (ch_sizes h) 16 L m" by (simp add: ch_list_def m_def)
  have m: "16 \<le> m" "16 dvd m" using tile_le [OF tile] tile_end_dvd [OF tile] by auto
  have w: "m + 65536 \<le> w" "16 dvd w" using ch_want_bounds m unfolding w_def by auto
  have below: "a < m" if "a \<in> set L" for a
    using ch_list_elem [OF li that] by (auto simp: m_def)
  have mL: "m \<notin> set L" using below by blast
  have zero: "b_kind (h_blocks h a) = ChBlockKind_Zero" if "m \<le> a" for a
  proof -
    have "a \<notin> ch_free_set h" using ind that by (force simp: in_data_def m_def)
    moreover have "a \<notin> set L" using below that by force
    ultimately show ?thesis using kk by (auto simp: ch_kinds_def ch_free_set_def)
  qed
  have b2: "h_blocks h2 a = (if a = m then ch_block_new\<lparr>b_size := w - m, b_kind := ChBlockKind_Unused\<rparr>
      else if m \<le> a then ch_block0 else h_blocks h a)" for a
    by (simp add: h2_def h0_def)
  have kind: "b_kind (h_blocks h4 a) = (if a = m then ChBlockKind_Unused else b_kind (h_blocks h a))" for a
    using zero [of a] by (simp add: h4_def h3_def b2 ch_block0_def)
  have size: "b_size (h_blocks h4 a) = (if a = m then w - m else if m \<le> a then 0 else b_size (h_blocks h a))" for a
    by (simp add: h4_def h3_def b2 ch_block0_def)
  have "dll (h_blocks h2) (-1) L (-1) = dll (h_blocks h) (-1) L (-1)"
    by (rule dll_cong) (use below in \<open>force simp: b2\<close>)
  then have d2: "dll (h_blocks h2) (-1) L (-1)" using li by (simp add: ch_list_def)
  have ne: "L \<noteq> []" using li by (simp add: ch_list_def)
  have ht: "h_head h2 = hd0 L (-1)" "L \<noteq> [] \<longrightarrow> h_tail h2 = last L"
    using li by (cases L; simp add: ch_list_def h2_def h0_def)+
  note pb = ch_push_back_list [OF d2 ch_list_distinct [OF li] ch_list_pos [OF li] ht mL, folded h3_def]
  have pb': "dll (h_blocks h4) (-1) (L @ [m]) (-1)" "h_head h4 = hd (L @ [m])" "h_tail h4 = m"
    using pb by (simp_all add: b2 h4_def ch_block_new_def)
  have m4: "h_mem_size h4 = w" "h_data_ofs h4 = 16" "h_free h4 = h_free h @ [m]"
    by (simp_all add: h4_def h3_def h2_def h0_def ofs)
  have "tile (ch_sizes h4) 16 L m = tile (ch_sizes h) 16 L m"
    by (rule tile_cong) (use below in \<open>force simp: ch_sizes_def size\<close>)
  then have "tile (ch_sizes h4) 16 (L @ [m]) w" using tile w m by (simp add: ch_sizes_def size)
  then have li4: "ch_list h4 (ch_sizes h4) (L @ [m])"
    using pb' m4 ch_grow_bound [OF g] by (simp add: ch_list_def w_def m_def)
  have kk4: "ch_kinds h4 (L @ [m])" using kk by (auto simp: ch_kinds_def kind)
  have fs4: "ch_free_set h4 = insert m (ch_free_set h)" by (auto simp: ch_free_set_def kind)
  have "m \<notin> ch_free_set h" using zero [of m] by (simp add: ch_free_set_def)
  with fd have fd4: "distinct (h_free h4)" "set (h_free h4) = ch_free_set h4" by (auto simp: m4 fs4)
  have "in_data h4 a" if "a \<in> ch_free_set h4" for a
    using that ind w m by (force simp: fs4 in_data_def m4 m_def [symmetric])
  with li4 kk4 fd4 m4 have wf4: "ch_wf_with h4 (L @ [m])" by (simp add: ch_wf_with_def)
  have lv: "ch_live h4 = ch_live h"
    using zero [of m] by (intro ext) (auto simp: ch_live_def kind size dest: zero)
  from lv wf4 have "ch_wf_with h' (L @ [m]) \<and> ch_live h' = ch_live h" by (auto simp: h')
  moreover have "h_blocks h' = h_blocks h4" "h_mem_size h' = w" "h_free h' = h_free h @ [m]"
    by (simp_all add: h' m4)
  moreover have "h_free_idx h' < length (h_free h')" by (simp add: h' m4)
  ultimately show ?thesis by (simp add: m_def [symmetric] w_def [symmetric] kind size)
qed

lemma ch_grow_empty:
  assumes wf: "ch_wf_empty h" and g: "ch_grow h sz = Some h'"
  shows "ch_wf_with h' [16] \<and> ch_live h' = ch_live h \<and> h_mem_size h' = ch_want (h_mem_size h) sz \<and>
         h_free_idx h' = 0 \<and> h_free h' = [16]"
proof -
  define m where "m = h_mem_size h"
  define w where "w = ch_want m sz"
  define h0 where "h0 = h\<lparr>h_blocks := (\<lambda>a. if m \<le> a then ch_block0 else h_blocks h a), h_mem_size := w,
     h_head := -1, h_tail := -1, h_data_ofs := 16\<rparr>"
  define h2 where "h2 = upd_blk h0 16 (\<lambda>_. ch_block_new\<lparr>b_size := w - 16, b_kind := ChBlockKind_Unused\<rparr>)"
  define h3 where "h3 = ch_push_back h2 16"
  define h4 where "h4 = h3\<lparr>h_free := h_free h3 @ [16]\<rparr>"
  from wf have ofs: "h_data_ofs h = 0" and fr: "h_free h = []" and z: "b_kind (h_blocks h a) = ChBlockKind_Zero"
    and m: "0 \<le> m" "16 dvd m" for a by (auto simp: ch_wf_empty_def m_def)
  have h': "h' = (if length (h_free h4) \<le> h_free_idx h4 then h4\<lparr>h_free_idx := 0\<rparr> else h4)"
    using g ofs
    by (auto simp: ch_grow_def Let_def h4_def h3_def h2_def h0_def w_def ch_want_def m_def
        split: if_splits)
  have w: "65536 \<le> w" "16 dvd w" using ch_want_bounds [of m sz] m unfolding w_def by auto
  have b2: "h_blocks h2 a = (if a = 16 then ch_block_new\<lparr>b_size := w - 16, b_kind := ChBlockKind_Unused\<rparr>
      else if m \<le> a then ch_block0 else h_blocks h a)" for a
    by (simp add: h2_def h0_def)
  have kind: "b_kind (h_blocks h4 a) = (if a = 16 then ChBlockKind_Unused else ChBlockKind_Zero)" for a
    by (simp add: h4_def h3_def b2 ch_block0_def z)
  have m4: "h_mem_size h4 = w" "h_data_ofs h4 = 16" "h_free h4 = [16]"
    by (simp_all add: h4_def h3_def h2_def h0_def fr)
  have "dll (h_blocks h2) (-1) [] (-1)" "h_head h2 = hd0 [] (-1)" by (simp_all add: h2_def h0_def)
  from ch_push_back_list [OF this(1) _ _ this(2), of 16, folded h3_def]
  have "dll (h_blocks h4) (-1) [16] (-1)" "h_head h4 = 16" "h_tail h4 = 16"
    by (simp_all add: b2 h4_def ch_block_new_def)
  moreover have "tile (ch_sizes h4) 16 [16] w"
    using w by (auto simp: ch_sizes_def h4_def h3_def b2 dvd_diff)
  ultimately have "ch_list h4 (ch_sizes h4) [16]"
    using m4 ch_grow_bound [OF g] by (simp add: ch_list_def w_def m_def)
  moreover have "ch_free_set h4 = {16}" by (auto simp: ch_free_set_def kind)
  moreover have "ch_kinds h4 [16]" by (auto simp: ch_kinds_def kind)
  moreover have "in_data h4 16" using w by (simp add: in_data_def m4)
  ultimately have wf4: "ch_wf_with h4 [16]" using m4 by (simp add: ch_wf_with_def)
  have lv: "ch_live h4 = ch_live h" by (simp add: ch_live_def fun_eq_iff kind z)
  have "h_free_idx h' = 0" by (auto simp: h' m4)
  moreover from lv wf4 have "ch_wf_with h' [16] \<and> ch_live h' = ch_live h" by (auto simp: h')
  moreover have "h_mem_size h' = w" "h_free h' = [16]" by (simp_all add: h' m4)
  ultimately show ?thesis by (simp add: m_def [symmetric] w_def [symmetric])
qed

text \<open>After a growth of a heap that holds blocks the next round of the scan allocates.\<close>

lemma ch_allocated_live:
  "ch_live h1 = ch_live h \<Longrightarrow> ch_allocated h1 sz h' r = ch_allocated h sz h' r"
  by (simp add: ch_allocated_def)

lemma ch_rounds_grown:
  assumes "ch_wf_with h L" "idx_ok h" "16 \<le> sz" "16 dvd sz" "ch_grow h sz = Some h1"
  shows "\<exists>h' r. ch_alloc_rounds (Suc n) h1 sz = Some (h', r) \<and> ch_allocated h sz h' r"
proof -
  note G = ch_grow_with [OF assms(1,5)]
  have m: "0 \<le> h_mem_size h"
    using assms(1) tile_le by (force simp: ch_wf_with_def ch_list_def)
  have fits: "sz \<le> ch_want (h_mem_size h) sz - h_mem_size h"
    using ch_want_bounds(1) [OF m, of sz] by simp
  from G fits ch_scan_finds_last [of h1 "L @ [h_mem_size h]" sz 0] assms(3,4)
  obtain h2 r where s: "ch_scan h1 sz 0 = Some (Inr (h2, r))" by auto
  from G ch_scan_spec [of h1 "L @ [h_mem_size h]" sz 0] assms(3,4) s
  have "ch_allocated h1 sz h2 r" by (auto simp: idx_ok_def)
  with s G show ?thesis by (auto simp: ch_allocated_live [of h1 h])
qed

lemma ch_rounds_with:
  assumes wf: "ch_wf_with h L" and ix: "idx_ok h" and sz: "16 \<le> sz" "16 dvd sz"
    and mem: "h_mem_size h + h_mem_size h div 2 + sz + 65551 < 2 ^ 31"
  shows "\<exists>h' r. ch_alloc_rounds (Suc (Suc n)) h sz = Some (h', r) \<and> ch_allocated h sz h' r"
proof -
  from ch_scan_spec [OF wf ix sz, of 0] show ?thesis
  proof (elim disjE exE conjE)
    fix h1 r assume "ch_scan h sz 0 = Some (Inr (h1, r))" "ch_allocated h sz h1 r"
    then show ?thesis by simp
  next
    fix h1 assume s: "ch_scan h sz 0 = Some (Inl h1)" and wf1: "ch_wf_with h1 L" and ix1: "idx_ok h1"
      and lv: "ch_live h1 = ch_live h" and m: "h_mem_size h1 = h_mem_size h"
    have m0: "0 \<le> h_mem_size h"
      using wf tile_le by (force simp: ch_wf_with_def ch_list_def)
    with ch_grow_total [of h1 sz] m mem sz obtain h2 where g: "ch_grow h1 sz = Some h2" by auto
    from ch_rounds_grown [OF wf1 ix1 sz g, of n] s g lv show ?thesis
      by (auto simp: ch_allocated_live [OF lv])
  qed
qed

lemma ch_grow_arith:
  fixes m :: int
  assumes "3 * (m + sz + 65600) < P" "0 \<le> m" "0 < sz" "s \<le> sz + 15" "2 * q \<le> m"
  shows "m + q + s + 65551 < P"
  using assms by simp

lemma ch_grow_arith2:
  fixes m :: int
  assumes "3 * (m + sz + 65600) < P" "0 \<le> m" "0 < sz" "s \<le> sz + 15" "2 * q \<le> m"
    "n \<le> m + q + s + 65551" "2 * t \<le> n"
  shows "n + t + s + 65551 < P"
  using assms by simp

lemma ch_alloc_with:
  assumes wf: "ch_wf h" and sz: "0 < sz" "3 * (h_mem_size h + sz + 65600) < 2 ^ 31"
  shows "\<exists>h' r. ch_alloc h sz = Some (h', r) \<and> ch_allocated h (align16 sz) h' r"
proof -
  define h1 where "h1 = (if length (h_free h) \<le> h_free_idx h then h\<lparr>h_free_idx := 0\<rparr> else h)"
  define s where "s = align16 sz"
  have s: "16 \<le> s" "16 dvd s" "s \<le> sz + 15"
    using align16_bounds [of sz] sz(1) zdvd_imp_le [of 16 s] by (auto simp: s_def)
  have m1: "h_mem_size h1 = h_mem_size h" and lv: "ch_live h1 = ch_live h" by (simp_all add: h1_def)
  have ix: "idx_ok h1" by (auto simp: idx_ok_def h1_def)
  have m0: "0 \<le> h_mem_size h"
    using wf tile_le by (force simp: ch_wf_def ch_wf_empty_def ch_wf_with_def ch_list_def)
  have a: "ch_alloc h sz = ch_alloc_rounds 3 h1 s"
    using sz m0 by (simp add: ch_alloc_def h1_def s_def Let_def)
  have "\<exists>h' r. ch_alloc_rounds 3 h1 s = Some (h', r) \<and> ch_allocated h1 s h' r"
  proof (cases "ch_wf_empty h")
    case False
    then obtain L where "ch_wf_with h L" using wf by (auto simp: ch_wf_def)
    then have "ch_wf_with h1 L" by (simp add: h1_def)
    from ch_rounds_with [OF this ix s(1,2), of 1] sz m0 s(3) m1
    show ?thesis by (simp add: eval_nat_numeral)
  next
    case True
    then have e: "ch_wf_empty h1" by (auto simp: h1_def ch_wf_empty_def)
    have sc: "ch_scan h1 s 0 = Some (Inl h1)"
      using e by (simp add: ch_scan_unfold [of h1] ch_wf_empty_def)
    have d: "2 * (h_mem_size h div 2) \<le> h_mem_size h" by simp
    have "h_mem_size h1 + h_mem_size h1 div 2 + s + 65551 < 2 ^ 31"
      unfolding m1 by (rule ch_grow_arith [OF sz(2) m0 sz(1) s(3) d])
    with ch_grow_total [of h1 s] m0 s m1 obtain h2 where g: "ch_grow h1 s = Some h2" by auto
    note G = ch_grow_empty [OF e g]
    have "h_mem_size h2 \<le> h_mem_size h + h_mem_size h div 2 + s + 65551"
      using ch_want_upper [of "h_mem_size h" s] m0 s G m1 by simp
    then have "h_mem_size h2 + h_mem_size h2 div 2 + s + 65551 < 2 ^ 31"
      by (intro ch_grow_arith2 [OF sz(2) m0 sz(1) s(3) d]) simp_all
    from ch_rounds_with [of h2 "[16]", OF _ _ s(1,2) this, of 0] G sc g
    show ?thesis
      by (auto simp: eval_nat_numeral idx_ok_def ch_allocated_live [of h2 h1])
  qed
  with a lv show ?thesis by (simp add: s_def ch_allocated_live [OF lv])
qed


end
