(* ===== verification/Beef_Heap_Spec.thy ===== *)
theory Beef_Heap_Spec
  imports Beef_Heap_Inv
begin

text \<open>
  Release and reset of \<open>ContiguousHeap\<close>: \<open>Free\<close> with its merging of neighbours and \<open>Clear\<close>
  keep the invariant, and the allocator implements its abstract specification, a finite map
  of live allocations. The specification is a locale, interpreted on the model.
\<close>

section \<open>Merging\<close>

text \<open>
  A state inside \<open>Free\<close> of \<open>block\<close>, reached from \<open>h0\<close>: the block, or the free block \<open>mh\<close> that
  swallowed it, stands for \<open>acc\<close> bytes more than its header says.
\<close>

definition ch_mid :: "ch_heap \<Rightarrow> int \<Rightarrow> ch_heap \<Rightarrow> int list \<Rightarrow> int \<Rightarrow> int \<Rightarrow> bool" where
  "ch_mid h0 block h L mh acc \<longleftrightarrow>
     ch_list h ((ch_sizes h)(mh := ch_sizes h mh + acc)) L \<and> ch_kinds h L \<and> h_data_ofs h = 16 \<and>
     distinct (h_free h) \<and> set (h_free h) = ch_free_set h - {block} \<and>
     (\<forall>a\<in>ch_free_set h \<union> {block}. in_data h a) \<and>
     (if mh = block then b_kind (h_blocks h block) = ChBlockKind_Used
      else b_kind (h_blocks h mh) = ChBlockKind_Unused \<and> b_kind (h_blocks h block) = ChBlockKind_Merged) \<and>
     h_mem_size h = h_mem_size h0 \<and> (\<forall>a. a \<noteq> block \<longrightarrow> ch_live h a = ch_live h0 a)"

definition ch_merge_step :: "ch_heap \<Rightarrow> int \<Rightarrow> ch_heap" where
  "ch_merge_step h b = ch_remove (upd_blk h b (b_kind_update (\<lambda>_. ChBlockKind_Merged))) b"

lemma ch_merge_step_fields [simp]:
  "h_mem_size (ch_merge_step h b) = h_mem_size h" "h_data_ofs (ch_merge_step h b) = h_data_ofs h"
  "h_free (ch_merge_step h b) = h_free h" "h_free_idx (ch_merge_step h b) = h_free_idx h"
  "ch_sizes (ch_merge_step h b) = ch_sizes h"
  "b_size (h_blocks (ch_merge_step h b) a) = b_size (h_blocks h a)"
  "b_kind (h_blocks (ch_merge_step h b) a) = (if a = b then ChBlockKind_Merged else b_kind (h_blocks h a))"
  by (simp_all add: ch_merge_step_def ch_sizes_def fun_eq_iff)

lemma ch_merge_step_list:
  assumes li: "ch_list h sz (xs @ a # b # ys)" and sz': "sz' a = sz a + sz b"
    and same: "\<And>c. c \<in> set xs \<union> set ys \<Longrightarrow> sz' c = sz c"
  shows "ch_list (ch_merge_step h b) sz' (xs @ a # ys)"
proof -
  let ?h = "upd_blk h b (b_kind_update (\<lambda>_. ChBlockKind_Merged))"
  let ?xs = "xs @ [a]"
  have L: "xs @ a # b # ys = ?xs @ b # ys" by simp
  have d: "dll (h_blocks ?h) (-1) (?xs @ b # ys) (-1)"
    using li by (simp only: L ch_list_def dll_upd_other)
  have ht: "h_head ?h = hd (?xs @ b # ys)" "h_tail ?h = last (?xs @ b # ys)"
    using li by (simp_all add: ch_list_def)
  have dist: "distinct (?xs @ b # ys)" "\<forall>c\<in>set (?xs @ b # ys). 0 \<le> c"
    using ch_list_distinct [OF li] ch_list_pos [OF li] by simp_all
  note R = ch_remove_list [OF d dist ht, folded ch_merge_step_def]
  have t: "tile sz 16 (xs @ a # b # ys) (h_mem_size h)" using li unfolding ch_list_def by blast
  have "tile sz' s xs e = tile sz s xs e" "tile sz' s ys e = tile sz s ys e" for s e
    using same by (intro tile_cong; simp)+
  with t sz' have "tile sz' 16 (xs @ a # ys) (h_mem_size h)" by (auto simp: add.assoc)
  moreover have "h_mem_size h < 2 ^ 31" using li by (simp add: ch_list_def)
  ultimately show ?thesis using R by (simp add: ch_list_def)
qed

lemma ch_mid_step:
  assumes mid: "ch_mid h0 block h (xs @ a # b # ys) mh acc" and mh: "mh = a \<or> mh = b"
    and other: "b_kind (h_blocks h (if mh = a then b else a)) = ChBlockKind_Unused"
  shows "ch_mid h0 block (ch_merge_step h b) (xs @ a # ys) a (acc + ch_sizes h b)"
proof -
  let ?h = "ch_merge_step h b" and ?L = "xs @ a # b # ys"
  let ?sz = "(ch_sizes h)(mh := ch_sizes h mh + acc)"
  from mid have li: "ch_list h ?sz ?L" and kk: "ch_kinds h ?L" and mid': "h_data_ofs h = 16"
     "distinct (h_free h)" "set (h_free h) = ch_free_set h - {block}"
     "\<forall>c\<in>ch_free_set h \<union> {block}. in_data h c" "h_mem_size h = h_mem_size h0"
     and lv: "\<And>c. c \<noteq> block \<Longrightarrow> ch_live h c = ch_live h0 c"
     and bk: "if mh = block then b_kind (h_blocks h block) = ChBlockKind_Used
      else b_kind (h_blocks h mh) = ChBlockKind_Unused \<and> b_kind (h_blocks h block) = ChBlockKind_Merged"
    by (simp_all add: ch_mid_def)
  have dist: "distinct ?L" by (rule ch_list_distinct [OF li])
  have li': "ch_list ?h ((ch_sizes ?h)(a := ch_sizes ?h a + (acc + ch_sizes h b))) (xs @ a # ys)"
    by (rule ch_merge_step_list [OF li]) (use dist mh in auto)
  have kk': "ch_kinds ?h (xs @ a # ys)" using kk dist by (auto simp: ch_kinds_def)
  have b: "b \<noteq> a" using dist by auto
  have kb: "b_kind (h_blocks h b) = ChBlockKind_Unused \<or> b = block"
    using mh other bk by (auto split: if_splits)
  then have fs: "ch_free_set ?h - {block} = ch_free_set h - {block}"
    "ch_free_set ?h \<subseteq> ch_free_set h \<union> {block}"
    by (auto simp: ch_free_set_def split: if_splits)
  have ind: "in_data ?h = in_data h" by (simp add: in_data_def fun_eq_iff)
  have bk': "if a = block then b_kind (h_blocks ?h block) = ChBlockKind_Used
      else b_kind (h_blocks ?h a) = ChBlockKind_Unused \<and> b_kind (h_blocks ?h block) = ChBlockKind_Merged"
    using mh bk other b by (auto split: if_splits)
  have lv': "ch_live ?h c = ch_live h0 c" if "c \<noteq> block" for c
  proof -
    have "ch_live ?h c = ch_live h c"
      using kb that by (auto simp: ch_live_def)
    with lv that show ?thesis by simp
  qed
  show ?thesis unfolding ch_mid_def
    using li' kk' mid' fs ind bk' lv' by (intro conjI) (auto simp: fun_upd_def)
qed

lemma ch_merge_head_Suc:
  "ch_merge_head (Suc n) h mh acc =
     (if b_prev (h_blocks h mh) = -1 \<or> b_kind (h_blocks h (b_prev (h_blocks h mh))) \<noteq> ChBlockKind_Unused
      then Some (h, mh, acc)
      else ch_merge_head n (ch_merge_step h mh) (b_prev (h_blocks h mh)) (acc + ch_sizes h mh))"
  by (simp add: Let_def ch_merge_step_def ch_sizes_def)

lemma ch_merge_tail_Suc:
  "ch_merge_tail (Suc n) h mt acc =
     (if b_kind (h_blocks h mt) \<noteq> ChBlockKind_Unused then Some (h, acc)
      else if b_next (h_blocks h mt) = -1 then Some (ch_merge_step h mt, acc + ch_sizes h mt)
      else ch_merge_tail n (ch_merge_step h mt) (b_next (h_blocks h mt)) (acc + ch_sizes h mt))"
  by (simp add: Let_def ch_merge_step_def ch_sizes_def)

lemma ch_mid_list: "ch_mid h0 block h L mh acc \<Longrightarrow> ch_list h ((ch_sizes h)(mh := ch_sizes h mh + acc)) L"
  by (simp add: ch_mid_def)

text \<open>The fuel of the first loop, one step per block before the freed one, is enough.\<close>

lemma ch_merge_head_enough:
  assumes "ch_mid h0 block h (xs @ mh # ys) mh acc" "length xs < n"
  shows "\<exists>h1 mh1 acc1 xs1. ch_merge_head n h mh acc = Some (h1, mh1, acc1) \<and>
            ch_mid h0 block h1 (xs1 @ mh1 # ys) mh1 acc1"
  using assms
proof (induction n arbitrary: h xs mh acc)
  case (Suc n)
  from ch_mid_list [OF Suc.prems(1)]
  have p: "b_prev (h_blocks h mh) = last0 xs (-1)" by (simp add: ch_list_def)
  show ?case
  proof (cases xs rule: rev_cases)
    case Nil
    with p Suc.prems show ?thesis
      by (auto simp: ch_merge_head_Suc simp del: ch_merge_head.simps intro!: exI [of _ "[]"])
  next
    case (snoc zs c)
    have pc: "b_prev (h_blocks h mh) = c" using p snoc by simp
    have cn: "c \<noteq> -1" "c \<noteq> mh"
      using ch_list_pos [OF ch_mid_list [OF Suc.prems(1)]] ch_list_distinct [OF ch_mid_list [OF Suc.prems(1)]] snoc
      by auto
    show ?thesis
    proof (cases "b_kind (h_blocks h c) = ChBlockKind_Unused")
      case False
      with pc Suc.prems show ?thesis by (auto simp: ch_merge_head_Suc simp del: ch_merge_head.simps)
    next
      case True
      have "ch_mid h0 block (ch_merge_step h mh) (zs @ c # ys) c (acc + ch_sizes h mh)"
        by (rule ch_mid_step [where mh = mh]) (use Suc.prems(1) snoc True cn in auto)
      from Suc.IH [OF this] Suc.prems(2) snoc True pc cn show ?thesis
        by (simp add: ch_merge_head_Suc del: ch_merge_head.simps)
    qed
  qed
qed simp

lemma ch_merge_tail_enough:
  assumes "ch_mid h0 block h (xs @ mh # mt # ys) mh (hacc + acc)" "length ys < n"
  shows "\<exists>h1 acc1 ys1. ch_merge_tail n h mt acc = Some (h1, acc1) \<and>
            ch_mid h0 block h1 (xs @ mh # ys1) mh (hacc + acc1)"
  using assms
proof (induction n arbitrary: h mt ys acc)
  case (Suc n)
  note li = ch_mid_list [OF Suc.prems(1)]
  have nx: "b_next (h_blocks h mt) = hd0 ys (-1)" using li by (auto simp: ch_list_def)
  show ?case
  proof (cases "b_kind (h_blocks h mt) = ChBlockKind_Unused")
    case False
    with Suc.prems show ?thesis by (auto simp: ch_merge_tail_Suc simp del: ch_merge_tail.simps)
  next
    case True
    have ne: "mt \<noteq> mh" using ch_list_distinct [OF li] by auto
    have m: "ch_mid h0 block (ch_merge_step h mt) (xs @ mh # ys) mh (hacc + (acc + ch_sizes h mt))"
      using ch_mid_step [OF Suc.prems(1)] True ne by (simp add: add.assoc)
    show ?thesis
    proof (cases ys)
      case Nil
      with nx True m show ?thesis by (auto simp: ch_merge_tail_Suc simp del: ch_merge_tail.simps)
    next
      case (Cons c zs)
      have "c \<noteq> -1" using ch_list_pos [OF li] Cons by auto
      with Suc.IH [of "ch_merge_step h mt" c zs "acc + ch_sizes h mt"] m Suc.prems(2) Cons nx True
      show ?thesis by (simp add: ch_merge_tail_Suc del: ch_merge_tail.simps)
    qed
  qed
qed simp


section \<open>Free\<close>

lemma ch_free_block_unfold:
  assumes "ch_merge_head (ch_fuel h) h block 0 = Some (h1, mh, hacc)"
    and "(if b_next (h_blocks h1 mh) \<noteq> -1 then ch_merge_tail (ch_fuel h) h1 (b_next (h_blocks h1 mh)) 0
          else Some (h1, 0)) = Some (h2, tacc)"
  shows "ch_free_block h block = Some (
     let h3 = upd_blk h2 mh (\<lambda>b. b\<lparr>b_size := b_size b + (tacc + hacc)\<rparr>);
         k = b_kind (h_blocks h3 mh);
         h4 = (if k \<noteq> ChBlockKind_Unused \<and> k \<noteq> ChBlockKind_Merged
               then h3\<lparr>h_free := h_free h3 @ [mh]\<rparr> else h3);
         h5 = upd_blk h4 mh (b_kind_update (\<lambda>_. ChBlockKind_Unused))
     in if mh \<noteq> block then upd_blk h5 block (b_kind_update (\<lambda>_. ChBlockKind_Zero)) else h5)"
  using assms by (simp add: ch_free_block_def Let_def)

lemma ch_finish_free:
  assumes mid: "ch_mid h0 block h2 L mh (hacc + tacc)" and mL: "mh \<in> set L"
    and lv0: "ch_live h0 block \<noteq> None"
  defines "h' \<equiv> (let h3 = upd_blk h2 mh (\<lambda>b. b\<lparr>b_size := b_size b + (tacc + hacc)\<rparr>);
         k = b_kind (h_blocks h3 mh);
         h4 = (if k \<noteq> ChBlockKind_Unused \<and> k \<noteq> ChBlockKind_Merged
               then h3\<lparr>h_free := h_free h3 @ [mh]\<rparr> else h3);
         h5 = upd_blk h4 mh (b_kind_update (\<lambda>_. ChBlockKind_Unused))
     in if mh \<noteq> block then upd_blk h5 block (b_kind_update (\<lambda>_. ChBlockKind_Zero)) else h5)"
  shows "ch_wf_with h' L \<and> ch_live h' = (ch_live h0)(block := None) \<and> h_mem_size h' = h_mem_size h0"
proof -
  from mid have li: "ch_list h2 ((ch_sizes h2)(mh := ch_sizes h2 mh + (hacc + tacc))) L"
    and kk: "ch_kinds h2 L" and ofs: "h_data_ofs h2 = 16"
    and fd: "distinct (h_free h2)" "set (h_free h2) = ch_free_set h2 - {block}"
    and ind: "\<forall>c\<in>ch_free_set h2 \<union> {block}. in_data h2 c"
    and mm: "h_mem_size h2 = h_mem_size h0"
    and lv: "\<And>c. c \<noteq> block \<Longrightarrow> ch_live h2 c = ch_live h0 c"
    and bk: "if mh = block then b_kind (h_blocks h2 block) = ChBlockKind_Used
      else b_kind (h_blocks h2 mh) = ChBlockKind_Unused \<and> b_kind (h_blocks h2 block) = ChBlockKind_Merged"
    by (simp_all add: ch_mid_def)
  have kind: "b_kind (h_blocks h' a) = (if a = mh then ChBlockKind_Unused
      else if a = block then ChBlockKind_Zero else b_kind (h_blocks h2 a))" for a
    using bk by (auto simp: h'_def Let_def)
  have size: "ch_sizes h' = (ch_sizes h2)(mh := ch_sizes h2 mh + (hacc + tacc))"
    by (auto simp: h'_def Let_def ch_sizes_def fun_eq_iff)
  have heap: "h_head h' = h_head h2" "h_tail h' = h_tail h2" "h_mem_size h' = h_mem_size h2"
    "h_data_ofs h' = h_data_ofs h2"
    by (auto simp: h'_def Let_def)
  have free: "h_free h' = (if mh = block then h_free h2 @ [mh] else h_free h2)"
    using bk by (auto simp: h'_def Let_def)
  have links: "b_prev (h_blocks h' a) = b_prev (h_blocks h2 a) \<and> b_next (h_blocks h' a) = b_next (h_blocks h2 a)" for a
    by (auto simp: h'_def Let_def)
  have "dll (h_blocks h') (-1) L (-1) = dll (h_blocks h2) (-1) L (-1)"
    by (rule dll_cong) (rule links)
  then have li': "ch_list h' (ch_sizes h') L" using li by (simp add: ch_list_def heap size)
  have bL: "block \<in> set L \<longrightarrow> mh = block" using kk bk by (auto simp: ch_kinds_def split: if_splits)
  have kk': "ch_kinds h' L" using kk mL bL by (auto simp: ch_kinds_def kind)
  have fs': "ch_free_set h' = ch_free_set h2 - {block} \<union> {mh}"
    using bk by (auto simp: ch_free_set_def kind split: if_splits)
  have mf: "mh \<noteq> block \<Longrightarrow> mh \<in> ch_free_set h2" using bk by (auto simp: ch_free_set_def)
  have fd': "distinct (h_free h')" "set (h_free h') = ch_free_set h'"
    using fd mf by (auto simp: free fs')
  have "in_data h' = in_data h2" by (simp add: in_data_def heap fun_eq_iff)
  then have "\<forall>c\<in>ch_free_set h'. in_data h' c" using ind mf fs' by (cases "mh = block") auto
  with li' kk' fd' ofs heap have "ch_wf_with h' L" by (simp add: ch_wf_with_def)
  moreover have "ch_live h' = (ch_live h0)(block := None)"
  proof
    fix c
    show "ch_live h' c = ((ch_live h0)(block := None)) c"
    proof (cases "c = block \<or> c = mh")
      case True
      have "ch_live h' c = None" using True by (auto simp: ch_live_def kind)
      moreover have "mh \<noteq> block \<Longrightarrow> ch_live h0 mh = None"
        using lv [of mh] bk by (simp add: ch_live_def)
      ultimately show ?thesis using True by auto
    next
      case False
      then have "b_size (h_blocks h' c) = b_size (h_blocks h2 c)"
        using fun_cong [OF size, of c] by (simp add: ch_sizes_def)
      with False have "ch_live h' c = ch_live h2 c" by (simp add: ch_live_def kind)
      with False lv [of c] show ?thesis by simp
    qed
  qed
  ultimately show ?thesis using mm heap by simp
qed

lemma ch_free_block_spec:
  assumes wf: "ch_wf h" and lv: "ch_live h block \<noteq> None"
  shows "\<exists>h'. ch_free_block h block = Some h' \<and> ch_wf h' \<and>
              ch_live h' = (ch_live h)(block := None) \<and> h_mem_size h' = h_mem_size h"
proof -
  from lv obtain s where s: "ch_live h block = Some s" by auto
  from wf s obtain L where L: "ch_wf_with h L" by (auto simp: ch_wf_def ch_wf_empty_def ch_live_def)
  from ch_wf_with_live [OF L s] obtain xs ys where split: "L = xs @ block # ys"
    by (auto simp: in_set_conv_decomp)
  have used: "b_kind (h_blocks h block) = ChBlockKind_Used" using s by (simp add: ch_live_def split: if_splits)
  have nf: "block \<notin> ch_free_set h" using used by (simp add: ch_free_set_def)
  have li: "ch_list h (ch_sizes h) L" using L by (simp add: ch_wf_with_def)
  have ind: "in_data h block" using ch_wf_live_range [OF wf s] by (auto simp: in_data_def)
  have mid: "ch_mid h block h (xs @ block # ys) block 0"
    using L split used nf ind by (simp add: ch_mid_def ch_wf_with_def)
  have len: "16 * int (length L) \<le> h_mem_size h - 16"
    using li by (auto simp: ch_list_def dest: tile_length)
  then have fuel: "length L < ch_fuel h" unfolding ch_fuel_def by linarith
  from ch_merge_head_enough [OF mid, of "ch_fuel h"] fuel split
  obtain h1 mh hacc xs1 where H: "ch_merge_head (ch_fuel h) h block 0 = Some (h1, mh, hacc)"
    and mid1: "ch_mid h block h1 (xs1 @ mh # ys) mh hacc" by auto
  have nx: "b_next (h_blocks h1 mh) = hd0 ys (-1)"
    using ch_mid_list [OF mid1] by (auto simp: ch_list_def)
  obtain h2 tacc ys2 where T: "(if b_next (h_blocks h1 mh) \<noteq> -1
          then ch_merge_tail (ch_fuel h) h1 (b_next (h_blocks h1 mh)) 0 else Some (h1, 0)) = Some (h2, tacc)"
    and mid2: "ch_mid h block h2 (xs1 @ mh # ys2) mh (hacc + tacc)"
  proof (cases ys)
    case Nil
    with nx mid1 that [of h1 0 "[]"] show thesis by simp
  next
    case (Cons c zs)
    moreover have "c \<noteq> -1" using ch_list_pos [OF ch_mid_list [OF mid1]] Cons by auto
    moreover have "ch_mid h block h1 (xs1 @ mh # c # zs) mh (hacc + 0)" using mid1 Cons by simp
    moreover have "length zs < ch_fuel h" using fuel split Cons by simp
    ultimately show thesis using ch_merge_tail_enough [of h block h1 xs1 mh c zs hacc 0 "ch_fuel h"] nx that
      by auto
  qed
  from ch_finish_free [OF mid2 _ lv] ch_free_block_unfold [OF H T] show ?thesis
    by (auto simp: ch_wf_def)
qed

lemma ch_wf_mem: "ch_wf h \<Longrightarrow> 0 \<le> h_mem_size h \<and> h_mem_size h < 2 ^ 31 \<and> 16 dvd h_mem_size h"
  using tile_le tile_end_dvd by (force simp: ch_wf_def ch_wf_empty_def ch_wf_with_def ch_list_def)

lemma ch_free_spec:
  assumes wf: "ch_wf h" and lv: "ch_live h ref = Some s"
  shows "\<exists>h'. ch_free h ref = Some (h', True) \<and> ch_wf h' \<and> ch_live h' = (ch_live h)(ref := None) \<and>
              h_mem_size h' = h_mem_size h"
proof -
  note r = ch_wf_live_range [OF wf lv]
  have u: "b_kind (h_blocks h ref) = ChBlockKind_Used" using lv by (simp add: ch_live_def split: if_splits)
  have "(h_mem_size h - 16) mod 2 ^ 64 = h_mem_size h - 16"
    using r ch_wf_mem [OF wf] by (intro mod_pos_pos_trivial) simp_all
  with r u ch_free_block_spec [OF wf, of ref] lv show ?thesis by (auto simp: ch_free_def)
qed

text \<open>A reference that is not live is rejected and nothing changes.\<close>

lemma ch_free_invalid:
  assumes "ch_wf h" "ch_live h ref = None" "16 \<le> h_mem_size h" "16 dvd ref"
  shows "ch_free h ref = Some (h, False)"
proof -
  have "(h_mem_size h - 16) mod 2 ^ 64 = h_mem_size h - 16"
    using assms(3) ch_wf_mem [OF assms(1)] by (intro mod_pos_pos_trivial) simp_all
  with assms(2,4) show ?thesis by (auto simp: ch_free_def ch_live_def split: if_splits)
qed

section \<open>Clear\<close>

lemma ch_clear_list_spec:
  assumes "dll (h_blocks h) p L (-1)" "L \<noteq> []" "\<forall>a\<in>set L. 0 \<le> a" "distinct L" "length L \<le> n"
  shows "\<exists>h'. ch_clear_list n h (hd L) = Some h' \<and> h_mem_size h' = h_mem_size h \<and>
    (\<forall>a. b_kind (h_blocks h' a) = (if a \<in> set L then ChBlockKind_Zero else b_kind (h_blocks h a)))"
  using assms
proof (induction n arbitrary: h p L)
  case (Suc n)
  then obtain a M where L: "L = a # M" by (cases L) auto
  let ?h = "upd_blk h a (b_kind_update (\<lambda>_. ChBlockKind_Zero))"
  have nx: "b_next (h_blocks ?h a) = hd0 M (-1)" using Suc.prems(1) L by simp
  show ?case
  proof (cases M)
    case Nil
    with L nx show ?thesis by (simp del: upd_blk_simps(1)) simp
  next
    case (Cons c zs)
    have c: "c \<noteq> -1" using Suc.prems(3) L Cons by auto
    have "dll (h_blocks ?h) a M (-1)" using Suc.prems(1) L by (simp only: dll_upd_other dll.simps)
    from Suc.IH [OF this] Suc.prems L Cons
    obtain h' where "ch_clear_list n ?h c = Some h'" "h_mem_size h' = h_mem_size ?h"
      "\<forall>x. b_kind (h_blocks h' x) = (if x \<in> set M then ChBlockKind_Zero else b_kind (h_blocks ?h x))"
      by auto
    with L Cons nx c Suc.prems show ?thesis by (simp add: Let_def)
  qed
qed simp

lemma fold_zero_kinds:
  "h_mem_size (fold (\<lambda>i g. upd_blk g i (b_kind_update (\<lambda>_. ChBlockKind_Zero))) is h) = h_mem_size h \<and>
   h_head (fold (\<lambda>i g. upd_blk g i (b_kind_update (\<lambda>_. ChBlockKind_Zero))) is h) = h_head h \<and>
   (\<forall>a. h_blocks (fold (\<lambda>i g. upd_blk g i (b_kind_update (\<lambda>_. ChBlockKind_Zero))) is h) a =
      (if a \<in> set is then (h_blocks h a)\<lparr>b_kind := ChBlockKind_Zero\<rparr> else h_blocks h a))"
  by (induction "is" arbitrary: h) (auto simp: fun_eq_iff)

lemma ch_clear_spec:
  assumes wf: "ch_wf h"
  shows "\<exists>h'. ch_clear h n = Some h' \<and> ch_wf h' \<and> ch_live h' = Map.empty"
proof (cases "h_data_ofs h = 0")
  case True
  then have "ch_wf_empty h" using wf by (auto simp: ch_wf_def ch_wf_with_def)
  with True wf show ?thesis by (auto simp: ch_clear_def ch_wf_empty_def ch_live_def fun_eq_iff)
next
  case ofs: False
  then obtain L where L: "ch_wf_with h L" using wf by (auto simp: ch_wf_def ch_wf_empty_def)
  note m = ch_wf_mem [OF wf]
  show ?thesis
  proof (cases "n < h_mem_size h")
    case True
    with ofs m show ?thesis
      by (auto simp: ch_clear_def ch_wf_def ch_wf_empty_def ch_live_def ch_block0_def fun_eq_iff)
  next
    case False
    define h1 where "h1 = fold (\<lambda>i g. upd_blk g i (b_kind_update (\<lambda>_. ChBlockKind_Zero))) (h_free h) h"
    note F = fold_zero_kinds [of "h_free h" h, folded h1_def]
    from L have li: "ch_list h (ch_sizes h) L" and kk: "ch_kinds h L"
      and fs: "set (h_free h) = ch_free_set h" by (auto simp: ch_wf_with_def)
    have "dll (h_blocks h1) (-1) L (-1) = dll (h_blocks h) (-1) L (-1)"
      by (rule dll_cong) (use F in auto)
    with li have d: "dll (h_blocks h1) (-1) L (-1)" and ne: "L \<noteq> []" and hd: "h_head h = hd L"
      by (auto simp: ch_list_def)
    have "16 * int (length L) \<le> h_mem_size h - 16"
      using li by (auto simp: ch_list_def dest: tile_length)
    then have fuel: "length L \<le> ch_fuel h" unfolding ch_fuel_def by linarith
    have h1: "h_head h1 = hd L" "hd L \<noteq> -1" using F hd ne ch_list_pos [OF li] by (cases L; auto)+
    from ch_clear_list_spec [OF d ne ch_list_pos [OF li] ch_list_distinct [OF li] fuel]
    obtain h2 where h2: "ch_clear_list (ch_fuel h) h1 (hd L) = Some h2" "h_mem_size h2 = h_mem_size h1"
      "\<And>a. b_kind (h_blocks h2 a) = (if a \<in> set L then ChBlockKind_Zero else b_kind (h_blocks h1 a))"
      by blast
    have z: "b_kind (h_blocks h2 a) = ChBlockKind_Zero" for a
      using kk fs F by (auto simp: h2(3) ch_kinds_def ch_free_set_def)
    have c: "ch_clear h n = Some (h2\<lparr>h_head := -1, h_tail := -1, h_data_ofs := 0, h_free := []\<rparr>)"
      using False ofs h1 h2(1) by (simp add: ch_clear_def h1_def [symmetric])
    have "ch_wf (h2\<lparr>h_head := -1, h_tail := -1, h_data_ofs := 0, h_free := []\<rparr>)"
      using m F h2(2) z by (simp add: ch_wf_def ch_wf_empty_def)
    with c z show ?thesis by (simp add: ch_live_def fun_eq_iff)
  qed
qed

section \<open>The allocator contract\<close>

text \<open>
  What the evaluator relies on: \<open>live\<close> maps each allocated reference to its size. The laws
  speak of the results only, so a provider may also run out of memory (\<open>None\<close>).
\<close>

locale allocator =
  fixes inv :: "'h \<Rightarrow> bool"
    and live :: "'h \<Rightarrow> int \<Rightarrow> int option"
    and valid :: "'h \<Rightarrow> int \<Rightarrow> bool"
    and alloc :: "'h \<Rightarrow> int \<Rightarrow> ('h \<times> int) option"
    and release :: "'h \<Rightarrow> int \<Rightarrow> ('h \<times> bool) option"
  assumes alloc_some: "inv h \<Longrightarrow> 0 < n \<Longrightarrow> alloc h n = Some (h', r) \<Longrightarrow>
      inv h' \<and> live h r = None \<and> (\<exists>s\<ge>n. live h' = (live h)(r \<mapsto> s))"
    and release_live: "inv h \<Longrightarrow> live h r = Some s \<Longrightarrow>
      \<exists>h'. release h r = Some (h', True) \<and> inv h' \<and> live h' = (live h)(r := None)"
    and release_dead: "inv h \<Longrightarrow> live h r = None \<Longrightarrow> valid h r \<Longrightarrow> release h r = Some (h, False)"
    and live_valid: "inv h \<Longrightarrow> live h r = Some s \<Longrightarrow> release h r = Some (h', ok) \<Longrightarrow> valid h' r"
    and live_disjoint: "inv h \<Longrightarrow> live h a = Some s \<Longrightarrow> live h b = Some t \<Longrightarrow> a \<noteq> b \<Longrightarrow>
      {a ..< a + s} \<inter> {b ..< b + t} = {}"
begin

lemma alloc_fresh:
  assumes "inv h" "0 < n" "alloc h n = Some (h', r)" "live h a = Some s"
  shows "live h' a = Some s \<and> {r ..< r + n} \<inter> {a ..< a + s} = {}"
proof -
  from alloc_some [OF assms(1-3)] obtain t where h': "inv h'" "live h r = None" "n \<le> t"
    "live h' = (live h)(r \<mapsto> t)" by auto
  with assms(4) have a: "live h' a = Some s" "live h' r = Some t" "r \<noteq> a" by auto
  have "{r ..< r + n} \<subseteq> {r ..< r + t}" using h' by auto
  with live_disjoint [OF h'(1) a(2) a(1) a(3)] a(1) show ?thesis by blast
qed

lemma alloc_release:
  assumes "inv h" "0 < n" "alloc h n = Some (h', r)"
  shows "\<exists>h''. release h' r = Some (h'', True) \<and> inv h'' \<and> live h'' = live h"
proof -
  from alloc_some [OF assms] obtain s where h': "inv h'" "live h r = None"
    "live h' = (live h)(r \<mapsto> s)" by auto
  then have "live h' r = Some s" by simp
  from release_live [OF h'(1) this] obtain h'' where "release h' r = Some (h'', True)" "inv h''"
    "live h'' = (live h')(r := None)" by auto
  moreover have "(live h')(r := None) = live h" using h'(2,3) by (simp add: fun_upd_idem)
  ultimately show ?thesis by auto
qed

lemma release_twice:
  assumes "inv h" "live h r = Some s"
  shows "\<exists>h'. release h r = Some (h', True) \<and> release h' r = Some (h', False)"
proof -
  from release_live [OF assms] obtain h' where h': "release h r = Some (h', True)" "inv h'"
    "live h' = (live h)(r := None)" by auto
  with release_dead [OF h'(2)] live_valid [OF assms h'(1)] show ?thesis by auto
qed

end

text \<open>A partial form of the allocation lemma, without the memory bound.\<close>

lemma ch_rounds_partial:
  assumes "ch_wf_empty h \<or> (\<exists>L. ch_wf_with h L)" "idx_ok h" "16 \<le> sz" "16 dvd sz"
    and "ch_alloc_rounds n h sz = Some (h', r)"
  shows "ch_allocated h sz h' r"
  using assms
proof (induction n arbitrary: h)
  case (Suc n)
  from Suc.prems(1) show ?case
  proof (elim disjE exE)
    assume e: "ch_wf_empty h"
    have sc: "ch_scan h sz 0 = Some (Inl h)"
      using e by (simp add: ch_scan_unfold [of h] ch_wf_empty_def)
    with Suc.prems(5) obtain h2 where g: "ch_grow h sz = Some h2"
      and r: "ch_alloc_rounds n h2 sz = Some (h', r)" by (auto split: option.splits)
    note G = ch_grow_empty [OF e g]
    then have "ch_allocated h2 sz h' r"
      using Suc.IH [OF _ _ Suc.prems(3,4) r] by (auto simp: idx_ok_def)
    with G show ?thesis by (simp add: ch_allocated_live [of h2 h])
  next
    fix L assume L: "ch_wf_with h L"
    from ch_scan_spec [OF L Suc.prems(2-4), of 0] show ?thesis
    proof (elim disjE exE conjE)
      fix h1 r1 assume "ch_scan h sz 0 = Some (Inr (h1, r1))" "ch_allocated h sz h1 r1"
      with Suc.prems(5) show ?thesis by simp
    next
      fix h1 assume s: "ch_scan h sz 0 = Some (Inl h1)" and wf1: "ch_wf_with h1 L"
        and lv: "ch_live h1 = ch_live h"
      from s Suc.prems(5) obtain h2 where g: "ch_grow h1 sz = Some h2"
        and r: "ch_alloc_rounds n h2 sz = Some (h', r)" by (auto split: option.splits)
      note G = ch_grow_with [OF wf1 g]
      then have "ch_wf_empty h2 \<or> (\<exists>M. ch_wf_with h2 M)" "idx_ok h2" by (auto simp: idx_ok_def)
      from Suc.IH [OF this Suc.prems(3,4) r] have "ch_allocated h2 sz h' r" .
      with G lv show ?thesis by (simp add: ch_allocated_live [of h2 h])
    qed
  qed
qed simp

lemma ch_alloc_partial:
  assumes wf: "ch_wf h" and n: "0 < n" and a: "ch_alloc h n = Some (h', r)"
  shows "ch_allocated h (align16 n) h' r"
proof -
  define h1 where "h1 = (if length (h_free h) \<le> h_free_idx h then h\<lparr>h_free_idx := 0\<rparr> else h)"
  have r: "ch_alloc_rounds 3 h1 (align16 n) = Some (h', r)"
    using a n by (simp add: ch_alloc_def h1_def Let_def split: if_splits)
  have "ch_wf_empty h1 \<or> (\<exists>L. ch_wf_with h1 L)" using wf by (auto simp: ch_wf_def h1_def ch_wf_empty_def)
  moreover have "idx_ok h1" by (auto simp: idx_ok_def h1_def)
  moreover have "16 \<le> align16 n" "16 dvd align16 n"
    using align16_bounds [of n] n zdvd_imp_le [of 16 "align16 n"] by auto
  ultimately have "ch_allocated h1 (align16 n) h' r" using ch_rounds_partial r by blast
  then show ?thesis using ch_allocated_live [of h1 h] by (simp add: h1_def)
qed

text \<open>A reference can be passed to \<open>Free\<close> once the heap has metadata, if it is 16-byte aligned.\<close>

definition ch_valid :: "ch_heap \<Rightarrow> int \<Rightarrow> bool" where
  "ch_valid h r \<longleftrightarrow> 16 \<le> h_mem_size h \<and> 16 dvd r"

interpretation ch: allocator ch_wf ch_live ch_valid ch_alloc ch_free
proof unfold_locales
  fix h n h' r assume "ch_wf h" "0 < n" "ch_alloc h n = Some (h', r)"
  from ch_alloc_partial [OF this] align16_bounds(1) [of n]
  show "ch_wf h' \<and> ch_live h r = None \<and> (\<exists>s\<ge>n. ch_live h' = (ch_live h)(r \<mapsto> s))"
    by (auto simp: ch_allocated_def ch_wf_def intro: order_trans)
next
  fix h r s assume "ch_wf h" "ch_live h r = Some s"
  from ch_free_spec [OF this]
  show "\<exists>h'. ch_free h r = Some (h', True) \<and> ch_wf h' \<and> ch_live h' = (ch_live h)(r := None)" by auto
next
  fix h r assume "ch_wf h" "ch_live h r = None" "ch_valid h r"
  then show "ch_free h r = Some (h, False)" by (auto simp: ch_valid_def intro: ch_free_invalid)
next
  fix h r s h' b assume h: "ch_wf h" "ch_live h r = Some s" "ch_free h r = Some (h', b)"
  from ch_free_spec [OF h(1,2)] ch_wf_live_range [OF h(1,2)] h(3)
  show "ch_valid h' r" by (auto simp: ch_valid_def)
qed (rule ch_wf_live_disjoint)

section \<open>Properties\<close>

text \<open>
  C9 (Alloc). On a well-formed heap every positive request that leaves room in the \<open>int\<close> range
  of sizes succeeds; the reference was not live, and afterwards exactly it is added to the
  live blocks with a size that covers the request with less than 80 bytes of slack; the heap
  stays well-formed.
\<close>

theorem ch_alloc_correct:
  assumes "ch_wf h" "0 < n" "3 * (h_mem_size h + n + 65600) < 2 ^ 31"
  shows "\<exists>h' r s. ch_alloc h n = Some (h', r) \<and> ch_wf h' \<and> ch_live h r = None \<and>
           ch_live h' = (ch_live h)(r \<mapsto> s) \<and> n \<le> s \<and> s < n + 79 \<and>
           16 dvd r \<and> 16 \<le> r \<and> r + s \<le> h_mem_size h'"
proof -
  from ch_alloc_with [OF assms] obtain h' r s where a: "ch_alloc h n = Some (h', r)" "ch_wf h'"
    "ch_live h r = None" "align16 n \<le> s" "s < align16 n + 64" "ch_live h' = (ch_live h)(r \<mapsto> s)"
    by (auto simp: ch_allocated_def ch_wf_def)
  with align16_bounds [of n] ch_wf_live_range [OF a(2), of r s] show ?thesis by auto
qed

theorem ch_alloc_correct_witness:
  "\<exists>h' r s. ch_alloc ch_init 100 = Some (h', r) \<and> ch_live h' = [r \<mapsto> s] \<and> 100 \<le> s"
proof -
  have "3 * (h_mem_size ch_init + 100 + 65600) < 2 ^ 31" by (simp add: ch_init_def)
  from ch_alloc_correct [OF ch_wf_init _ this] show ?thesis by (auto simp: ch_live_init)
qed

text \<open>
  C10 (Free). Releasing a live block succeeds, removes exactly that block and keeps the heap
  well-formed, whichever neighbours it is merged with; a second release of the same reference
  is rejected and changes nothing.
\<close>

theorem ch_free_correct:
  assumes "ch_wf h" "ch_live h r = Some s"
  shows "\<exists>h'. ch_free h r = Some (h', True) \<and> ch_wf h' \<and> ch_live h' = (ch_live h)(r := None) \<and>
              ch_free h' r = Some (h', False)"
  using ch.release_live [OF assms] ch.release_twice [OF assms] by auto

theorem ch_free_correct_witness:
  "\<exists>h'. ch_free (fst (the (ch_alloc ch_init 100))) 16 = Some (h', True) \<and> ch_live h' = Map.empty"
proof -
  let ?a = "the (ch_alloc ch_init 100)"
  have r: "ch_live (fst ?a) 16 = Some 112" "snd ?a = 16" "ch_alloc ch_init 100 \<noteq> None" by code_simp+
  then have a: "ch_alloc ch_init 100 = Some (fst ?a, 16)" by (metis option.collapse prod.collapse)
  from ch.alloc_some [OF ch_wf_init _ a] have wf: "ch_wf (fst ?a)"
    and lv: "ch_live (fst ?a) = [16 \<mapsto> 112]" using r(1) by (auto simp: ch_live_init)
  from ch_free_correct [OF wf r(1)] lv show ?thesis by auto
qed


text \<open>
  C11 (Clear). Whatever limit is passed, a reset ends with a well-formed heap without live
  blocks, so the next evaluation starts from a clean heap.
\<close>

theorem ch_clear_correct:
  assumes "ch_wf h"
  shows "\<exists>h'. ch_clear h limit = Some h' \<and> ch_wf h' \<and> ch_live h' = Map.empty"
  using assms by (rule ch_clear_spec)

theorem ch_clear_correct_witness:
  "\<exists>h'. ch_clear (fst (the (ch_alloc ch_init 100))) 1048576 = Some h' \<and> ch_live h' = Map.empty"
proof -
  have "ch_alloc ch_init 100 \<noteq> None" by code_simp
  then obtain h r where a: "ch_alloc ch_init 100 = Some (h, r)" by auto
  from ch.alloc_some [OF ch_wf_init _ a] have "ch_wf h" by simp
  from ch_clear_correct [OF this, of 1048576] a show ?thesis by auto
qed

text \<open>
  \<open>Free\<close> before the first \<open>Alloc\<close>: the bound check of \<open>Free\<close> is unsigned: on a heap that owns
  no memory yet it lets reference 0 through and the block header is read through the null
  metadata pointer, while the same call on a heap with memory is rejected.
\<close>

theorem ch_free_empty_unguarded:
  "ch_free ch_init 0 = None \<and>
   (\<forall>h. ch_wf h \<and> 16 \<le> h_mem_size h \<longrightarrow> ch_free h 0 = Some (h, False))"
proof (intro conjI allI impI)
  show "ch_free ch_init 0 = None" by (simp add: ch_free_def ch_init_def)
  fix h assume h: "ch_wf h \<and> 16 \<le> h_mem_size h"
  then have "ch_live h 0 = None" using ch_wf_live_range [of h 0] by (cases "ch_live h 0") auto
  with h show "ch_free h 0 = Some (h, False)" by (auto intro: ch_free_invalid)
qed

theorem ch_free_empty_unguarded_witness:
  "\<exists>h. ch_free h 0 = Some (h, False)"
proof -
  have "ch_alloc ch_init 100 \<noteq> None" "16 \<le> h_mem_size (fst (the (ch_alloc ch_init 100)))" by code_simp+
  then obtain h r where a: "ch_alloc ch_init 100 = Some (h, r)" "16 \<le> h_mem_size h" by auto
  from ch.alloc_some [OF ch_wf_init _ a(1)] a(2) ch_free_empty_unguarded show ?thesis by auto
qed


end
