(* ===== verification/Ce_Machine.thy ===== *)
theory Ce_Machine
  imports Ce_Ops Beef_Heap
begin

text \<open>
  The virtual machine of the compile-time evaluator, \<open>CeContext::Execute\<close>
  (\<^verbatim>\<open>IDEHelper/Compiler/CeMachine.cpp\<close>), run without a debugger attached: the byte memory with
  its stack and heap, the instruction and frame operands, one executable function per group of
  opcodes, the call protocol, and the fetch loop.

  Pointers into the evaluator's memory are offsets from \<open>memStart\<close>, so that the re-basing
  \<open>_FixVariables\<close> after a growth of the memory is the identity. A step yields \<open>None\<close> where the
  code has undefined behaviour: an access outside the memory or the code array that no check of
  the code prevents, a division overflow, a shift by the width of the promoted operand.
\<close>

unbundle bit_operations_syntax

section \<open>State\<close>

text \<open>
  \<open>enum CeFunctionKind\<close>: the kinds \<open>_CheckFunction\<close> handles by itself; \<open>CeFunctionKind_Service n\<close>
  stands for the remaining ones, requests to the compiler front end and the file system.
\<close>

datatype (plugins only: size code) ce_fun_kind =
    CeFunctionKind_NotSet | CeFunctionKind_Normal | CeFunctionKind_Extern | CeFunctionKind_OOB
  | CeFunctionKind_ObjectNotInitialized | CeFunctionKind_Malloc | CeFunctionKind_Free
  | CeFunctionKind_DynCheckFailed | CeFunctionKind_FatalError | CeFunctionKind_DebugWrite
  | CeFunctionKind_DebugWrite_Int | CeFunctionKind_Service nat

record ce_function =
  mFunctionKind :: ce_fun_kind
  mFailed :: bool
  mIsVarReturn :: bool
  mCode :: "u8 list"
  mFrameSize :: int

record ce_frame =
  f_function :: ce_function
  f_stack_addr :: int
  f_frame_addr :: int
  f_inst_ptr :: int
  f_return_type :: int

text \<open>
  The locals of \<open>Execute\<close> with the members of \<open>CeContext\<close> it changes. The return type is held by
  its id; \<open>x_errs\<close> lists the errors reported so far, the latest first.
\<close>

record ce_state =
  x_mem :: "int \<Rightarrow> u8"
  x_mem_size :: int
  x_inst :: int
  x_stack :: int
  x_frame :: int
  x_fn :: ce_function
  x_calls :: "ce_frame list"
  x_heap :: ch_heap
  x_ret_type :: int
  x_errs :: "string list"

text \<open>
  The floating point unit of the host, on bit patterns. \<open>fp_to_int\<close> truncates, \<open>None\<close> for a NaN or
  an infinity.
\<close>

datatype (plugins only: size code) fp_bin = FAdd | FSub | FMul | FDiv | FMod | FAtan2 | FPow

record ce_fpu =
  fp_bin :: "ce_float \<Rightarrow> fp_bin \<Rightarrow> int \<Rightarrow> int \<Rightarrow> int"
  fp_fun :: "ce_float \<Rightarrow> ce_math_op \<Rightarrow> int \<Rightarrow> int"
  fp_abs :: "ce_float \<Rightarrow> int \<Rightarrow> int"
  fp_neg :: "ce_float \<Rightarrow> int \<Rightarrow> int"
  fp_fma :: "ce_float \<Rightarrow> int \<Rightarrow> int \<Rightarrow> int \<Rightarrow> int"
  fp_lt :: "ce_float \<Rightarrow> int \<Rightarrow> int \<Rightarrow> bool"
  fp_le :: "ce_float \<Rightarrow> int \<Rightarrow> int \<Rightarrow> bool"
  fp_eq :: "ce_float \<Rightarrow> int \<Rightarrow> int \<Rightarrow> bool"
  fp_of_int :: "ce_float \<Rightarrow> int \<Rightarrow> int"
  fp_to_int :: "ce_float \<Rightarrow> int \<Rightarrow> int option"
  fp_cvt :: "ce_float \<Rightarrow> ce_float \<Rightarrow> int \<Rightarrow> int"

text \<open>
  What stays fixed during a run: the target's pointer size, \<open>mStackSize\<close>, the functions by the
  value that stands for them in memory (an id, or a pointer where pointers have 8 bytes).
\<close>

record ce_env =
  e_ptr_size :: int
  e_stack_size :: int
  e_functions :: "int \<rightharpoonup> ce_function"
  e_fpu :: ce_fpu

datatype (plugins only: size code) ce_result =
    CeNext ce_state
  | CeDone ce_state
  | CeFail string ce_state
  | CeOutside ce_state

section \<open>Memory and operands\<close>

definition ce_bytes :: "ce_state \<Rightarrow> int \<Rightarrow> nat \<Rightarrow> u8 list" where
  "ce_bytes s a n = map (\<lambda>i. x_mem s (a + int i)) [0..<n]"

definition ce_put :: "ce_state \<Rightarrow> int \<Rightarrow> u8 list \<Rightarrow> ce_state" where
  "ce_put s a bs = s\<lparr>x_mem := (\<lambda>x. if a \<le> x \<and> x < a + int (length bs) then bs ! nat (x - a) else x_mem s x)\<rparr>"

definition in_mem :: "ce_state \<Rightarrow> int \<Rightarrow> int \<Rightarrow> bool" where
  "in_mem s a n \<longleftrightarrow> 0 \<le> a \<and> 0 \<le> n \<and> a + n \<le> x_mem_size s"

definition mem_read :: "ce_state \<Rightarrow> int \<Rightarrow> int \<Rightarrow> u8 list option" where
  "mem_read s a n = (if in_mem s a n then Some (ce_bytes s a (nat n)) else None)"

definition mem_write :: "ce_state \<Rightarrow> int \<Rightarrow> u8 list \<Rightarrow> ce_state option" where
  "mem_write s a bs = (if in_mem s a (int (length bs)) then Some (ce_put s a bs) else None)"

text \<open>\<open>CE_GETINST(T)\<close> for a type of \<open>n\<close> bytes; \<open>get_i32\<close> for \<open>int32\<close>.\<close>

definition get_inst :: "nat \<Rightarrow> ce_state \<Rightarrow> (u8 list \<times> ce_state) option" where
  "get_inst n s = (case slice (mCode (x_fn s)) (x_inst s) n of
                     None \<Rightarrow> None | Some bs \<Rightarrow> Some (bs, s\<lparr>x_inst := x_inst s + int n\<rparr>))"

definition get_i32 :: "ce_state \<Rightarrow> (int \<times> ce_state) option" where
  "get_i32 s = do { (bs, s1) \<leftarrow> get_inst 4 s; Some (le_sint bs, s1) }"

text \<open>The address \<open>&CE_GETFRAME(T)\<close>, and the value \<open>CE_GETFRAME(T)\<close> there.\<close>

definition frame_ref :: "ce_state \<Rightarrow> (int \<times> ce_state) option" where
  "frame_ref s = do { (ofs, s1) \<leftarrow> get_i32 s; Some (x_frame s1 + ofs, s1) }"

definition get_frame :: "int \<Rightarrow> ce_state \<Rightarrow> (u8 list \<times> ce_state) option" where
  "get_frame n s = do { (a, s1) \<leftarrow> frame_ref s; bs \<leftarrow> mem_read s1 a n; Some (bs, s1) }"

definition get_frame_s :: "int \<Rightarrow> ce_state \<Rightarrow> (int \<times> ce_state) option" where
  "get_frame_s n s = do { (bs, s1) \<leftarrow> get_frame n s; Some (le_sint bs, s1) }"

text \<open>A \<open>bool\<close> operand: a byte other than 0 and 1 is not a value of the type.\<close>

definition get_frame_bool :: "ce_state \<Rightarrow> (bool \<times> ce_state) option" where
  "get_frame_bool s = do { (bs, s1) \<leftarrow> get_frame 1 s;
     if bs = [0] then Some (False, s1) else if bs = [1] then Some (True, s1) else None }"

definition bool_byte :: "bool \<Rightarrow> u8 list" where
  "bool_byte b = [if b then 1 else 0]"

text \<open>\<open>CeSetAddrVal\<close>.\<close>

definition set_addr_val :: "ce_env \<Rightarrow> ce_state \<Rightarrow> int \<Rightarrow> int \<Rightarrow> ce_state option" where
  "set_addr_val e s a v = mem_write s a (le_bytes (if e_ptr_size e = 4 then 4 else 8) v)"

section \<open>Checks\<close>

text \<open>\<open>_Fail\<close> where the code goes on afterwards.\<close>

definition ce_report :: "string \<Rightarrow> ce_state \<Rightarrow> ce_state" where
  "ce_report msg s = s\<lparr>x_errs := msg # x_errs s\<rparr>"

text \<open>\<open>_Fail\<close> followed by \<open>return false\<close>.\<close>

definition ce_abort :: "string \<Rightarrow> ce_state \<Rightarrow> ce_result option" where
  "ce_abort msg s = Some (CeFail msg (ce_report msg s))"

definition ce_ok :: "ce_state \<Rightarrow> ce_result option" where
  "ce_ok s = Some (CeNext s)"

text \<open>
  The conditions under which \<open>CE_CHECKADDR\<close> fails: with a \<open>sizeof\<close> or an \<open>int64\<close> size the sum is
  formed in 64 bits, with an \<open>int32\<close> size it is formed in 32.
\<close>

definition bad_addr :: "ce_state \<Rightarrow> int \<Rightarrow> int \<Rightarrow> bool" where
  "bad_addr s a n \<longleftrightarrow> a < 0x10000 \<or> x_mem_size s < a + n"

definition bad_addr32 :: "ce_state \<Rightarrow> int \<Rightarrow> int \<Rightarrow> bool" where
  "bad_addr32 s a n \<longleftrightarrow> a < 0x10000 \<or> x_mem_size s < wrap_s 4 (a + n)"

text \<open>\<open>CE_CHECKALLOC\<close>, with \<open>BF_CE_MAX_MEMORY\<close>.\<close>

definition bad_alloc :: "ce_state \<Rightarrow> int \<Rightarrow> bool" where
  "bad_alloc s n \<longleftrightarrow> n < 0 \<or> 0x80000000 \<le> n \<or> 0x7FFFFFFF < x_mem_size s + n"

text \<open>\<open>CE_CHECKSTACK\<close>.\<close>

definition check_stack :: "ce_state \<Rightarrow> ce_result option" where
  "check_stack s = (if x_stack s < 0 then ce_abort ''Stack overflow'' s else ce_ok s)"

section \<open>Heap\<close>

text \<open>
  \<open>CeMalloc\<close>: the memory grows to cover the block, with the contents the allocation happens to
  have. \<open>None\<close> where the allocator's or the address arithmetic leaves \<open>int\<close>.
\<close>

definition ce_malloc :: "ce_env \<Rightarrow> ce_state \<Rightarrow> int \<Rightarrow> (int \<times> ce_state) option" where
  "ce_malloc e s n = do {
     (h, r) \<leftarrow> ch_alloc (x_heap s) n;
     let a = e_stack_size e + r;
     if 2 ^ 31 \<le> a + n then None
     else Some (a, s\<lparr>x_heap := h, x_mem_size := max (x_mem_size s) (a + n)\<rparr>) }"

definition ce_free :: "ce_env \<Rightarrow> ce_state \<Rightarrow> int \<Rightarrow> (bool \<times> ce_state) option" where
  "ce_free e s a = do {
     (h, ok) \<leftarrow> ch_free (x_heap s) (wrap_s 4 (a - e_stack_size e));
     Some (ok, s\<lparr>x_heap := h\<rparr>) }"

section \<open>Calls\<close>

definition cur_frame :: "ce_state \<Rightarrow> ce_frame" where
  "cur_frame s = \<lparr>f_function = x_fn s, f_stack_addr = x_stack s, f_frame_addr = x_frame s,
                  f_inst_ptr = x_inst s, f_return_type = x_ret_type s\<rparr>"

text \<open>\<open>CE_CALL\<close>; taking \<open>&mCode[0]\<close> of an empty array is an assertion failure.\<close>

definition ce_call :: "ce_function \<Rightarrow> ce_state \<Rightarrow> ce_result option" where
  "ce_call f s =
     (if mCode f = [] then None
      else check_stack (s\<lparr>x_calls := cur_frame s # x_calls s, x_fn := f, x_frame := x_stack s,
                          x_stack := x_stack s - mFrameSize f, x_inst := 0\<rparr>))"

text \<open>
  \<open>_CheckFunction\<close>: \<open>Inl\<close> is the result of a call that ends the evaluation or leaves the model,
  \<open>Inr (handled, s)\<close> its normal return. The second test of the code for an unusable object
  repeats \<open>CeFunctionKind_OOB\<close>, so \<open>CeFunctionKind_ObjectNotInitialized\<close> falls through to the last
  branch. Of the messages with a method name or a string read from memory the fixed part is kept.
\<close>

definition ce_check_prepared :: "ce_function \<Rightarrow> ce_state \<Rightarrow> (ce_result + bool \<times> ce_state) option" where
  "ce_check_prepared f s =
     (if \<not> mFailed f then Some (Inr (False, s))
      else map_option Inl (ce_abort ''Method call preparation failed'' s))"

definition ce_extern_failure :: "ce_state \<Rightarrow> (ce_result + bool \<times> ce_state) option" where
  "ce_extern_failure s = map_option Inl (ce_abort ''Unable to invoke extern method'' s)"

definition ce_check_function ::
  "ce_env \<Rightarrow> ce_function option \<Rightarrow> ce_state \<Rightarrow> (ce_result + bool \<times> ce_state) option" where
  "ce_check_function e fo s =
     (let fail = (\<lambda>msg. map_option Inl (ce_abort msg s)); p = e_ptr_size e
      in case fo of
        None \<Rightarrow> fail ''Const method not available''
      | Some f \<Rightarrow>
        (case mFunctionKind f of
           CeFunctionKind_Normal \<Rightarrow> ce_check_prepared f s
         | CeFunctionKind_OOB \<Rightarrow> fail ''Array out of bounds''
         | CeFunctionKind_Malloc \<Rightarrow>
             do { bs \<leftarrow> (if p = 4 then mem_read s (x_stack s + 4) 4 else mem_read s (x_stack s + 8) 8);
                  let n = le_sint bs;
                  if bad_alloc s n then fail ''Maximum memory size exceeded (2GB)''
                  else do { (a, s1) \<leftarrow> ce_malloc e s n;
                            s2 \<leftarrow> set_addr_val e s1 (x_stack s1) a;
                            Some (Inr (True, s2)) } }
         | CeFunctionKind_Free \<Rightarrow>
             do { bs \<leftarrow> mem_read s (x_stack s + 4) 4;
                  (ok, s1) \<leftarrow> ce_free e s (le_sint bs);
                  Some (Inr (True, if ok then s1 else ce_report ''Invalid heap address'' s1)) }
         | CeFunctionKind_FatalError \<Rightarrow> fail ''Fatal Error: ''
         | CeFunctionKind_DynCheckFailed \<Rightarrow> fail ''Dynamic cast check failed''
         | CeFunctionKind_DebugWrite \<Rightarrow>
             do { pb \<leftarrow> mem_read s (x_stack s) 4;
                  nb \<leftarrow> mem_read s (x_stack s + p) 4;
                  if bad_addr32 s (le_sint pb) (le_sint nb) then fail ''Access violation''
                  else do { _ \<leftarrow> mem_read s (le_sint pb) (le_sint nb); Some (Inr (True, s)) } }
         | CeFunctionKind_DebugWrite_Int \<Rightarrow>
             do { _ \<leftarrow> mem_read s (x_stack s) (if p = 4 then 4 else 8); Some (Inr (True, s)) }
         | CeFunctionKind_Service _ \<Rightarrow> Some (Inl (CeOutside s))
         | _ \<Rightarrow> ce_extern_failure s))"

section \<open>Control, errors and allocation\<close>

text \<open>\<open>enum CeErrorKind\<close> and the messages of \<open>CeOp_Error\<close>.\<close>

datatype (plugins only: size code) ce_error_kind =
    CeErrorKind_None | CeErrorKind_Error | CeErrorKind_GlobalVariable | CeErrorKind_FunctionPointer
  | CeErrorKind_Intrinsic | CeErrorKind_ObjectDynCheckFailed

primrec error_kind_code :: "ce_error_kind \<Rightarrow> int" where
  "error_kind_code CeErrorKind_None = 0"
| "error_kind_code CeErrorKind_Error = 1"
| "error_kind_code CeErrorKind_GlobalVariable = 2"
| "error_kind_code CeErrorKind_FunctionPointer = 3"
| "error_kind_code CeErrorKind_Intrinsic = 4"
| "error_kind_code CeErrorKind_ObjectDynCheckFailed = 5"

definition error_message :: "int \<Rightarrow> string" where
  "error_message k =
     (if k = error_kind_code CeErrorKind_GlobalVariable then ''Global variable access not allowed''
      else if k = error_kind_code CeErrorKind_FunctionPointer then ''Function pointer calls not allowed''
      else if k = error_kind_code CeErrorKind_Intrinsic then ''Intrinsic not allowed''
      else if k = error_kind_code CeErrorKind_ObjectDynCheckFailed then ''Dynamic cast check failed''
      else ''Operation not allowed'')"

definition jump_if :: "bool \<Rightarrow> ce_state \<Rightarrow> ce_result option" where
  "jump_if want s = do {
     (ofs, s1) \<leftarrow> get_i32 s;
     (cond, s2) \<leftarrow> get_frame_bool s1;
     ce_ok (if cond = want then s2\<lparr>x_inst := x_inst s2 + (ofs - 4)\<rparr> else s2) }"

definition exec_malloc :: "ce_env \<Rightarrow> ce_state \<Rightarrow> ce_result option" where
  "exec_malloc e s =
     do { (ofs, s1) \<leftarrow> get_i32 s;
          (n, s2) \<leftarrow> get_frame_s (if e_ptr_size e = 4 then 4 else 8) s1;
          if bad_alloc s2 n then ce_abort ''Maximum memory size exceeded (2GB)'' s2
          else do { (a, s3) \<leftarrow> ce_malloc e s2 n;
                    s4 \<leftarrow> set_addr_val e s3 (x_frame s3 + ofs) a;
                    ce_ok s4 } }"

definition exec_free :: "ce_env \<Rightarrow> ce_state \<Rightarrow> ce_result option" where
  "exec_free e s =
     do { (a, s1) \<leftarrow> get_frame_s 4 s;
          (ok, s2) \<leftarrow> ce_free e s1 a;
          ce_ok (if ok then s2 else ce_report ''Invalid heap address'' s2) }"

text \<open>
  \<open>CeOp_DbgBreak\<close> without a debugger waits for nothing. The three opcodes that consult the
  front end leave the model.
\<close>

primrec exec_ctl :: "ce_env \<Rightarrow> ce_ctl_op \<Rightarrow> ce_state \<Rightarrow> ce_result option" where
  "exec_ctl e CeOp_InvalidOp s = ce_abort ''Unhandled op'' s"
| "exec_ctl e CeOp_Nop s = ce_ok s"
| "exec_ctl e CeOp_DbgBreak s = ce_ok s"
| "exec_ctl e CeOp_Ret s =
     (case x_calls s of
        [] \<Rightarrow> Some (CeDone s)
      | f # fs \<Rightarrow> ce_ok (s\<lparr>x_fn := f_function f, x_inst := f_inst_ptr f, x_stack := f_stack_addr f,
                             x_frame := f_frame_addr f, x_ret_type := f_return_type f, x_calls := fs\<rparr>))"
| "exec_ctl e CeOp_SetRetType s =
     do { (t, s1) \<leftarrow> get_i32 s; ce_ok (s1\<lparr>x_ret_type := t\<rparr>) }"
| "exec_ctl e CeOp_Jmp s =
     do { (ofs, s1) \<leftarrow> get_i32 s; ce_ok (s1\<lparr>x_inst := x_inst s1 + ofs\<rparr>) }"
| "exec_ctl e CeOp_JmpIf s = jump_if True s"
| "exec_ctl e CeOp_JmpIfNot s = jump_if False s"
| "exec_ctl e CeOp_Error s =
     do { (k, s1) \<leftarrow> get_i32 s; ce_ok (ce_report (error_message k) s1) }"
| "exec_ctl e CeOp_DynamicCastCheck s = Some (CeOutside s)"
| "exec_ctl e CeOp_GetReflectType s = Some (CeOutside s)"
| "exec_ctl e CeOp_GetString s = Some (CeOutside s)"
| "exec_ctl e CeOp_Malloc s = exec_malloc e s"
| "exec_ctl e CeOp_Free s = exec_free e s"

section \<open>Memory operations\<close>

text \<open>
  \<open>memset\<close>, \<open>memmove\<close> and \<open>memcpy\<close> of \<open>n\<close> bytes; a negative \<open>int32\<close> length converts to a huge
  \<open>size_t\<close>, which the range test of \<open>mem_read\<close> and \<open>mem_fill\<close> rejects. Overlapping operands of
  \<open>memcpy\<close> are copied as \<open>memmove\<close> does.
\<close>

definition mem_fill :: "ce_state \<Rightarrow> int \<Rightarrow> u8 \<Rightarrow> int \<Rightarrow> ce_state option" where
  "mem_fill s a v n = (if in_mem s a n then Some (ce_put s a (replicate (nat n) v)) else None)"

definition mem_copy :: "ce_state \<Rightarrow> int \<Rightarrow> int \<Rightarrow> int \<Rightarrow> ce_state option" where
  "mem_copy s dst src n = do { bs \<leftarrow> mem_read s src n; mem_write s dst bs }"

text \<open>
  \<open>memcmp\<close>: the difference of the first bytes that differ.  The C standard fixes its sign only, so an evaluated
  program sees the magnitude of one implementation; no theorem depends on it.
\<close>

fun ce_memcmp :: "u8 list \<Rightarrow> u8 list \<Rightarrow> int" where
  "ce_memcmp (a # as) (b # bs) = (if a = b then ce_memcmp as bs else uint a - uint b)"
| "ce_memcmp _ _ = 0"

definition mem_set_checked :: "ce_state \<Rightarrow> int \<Rightarrow> u8 \<Rightarrow> int \<Rightarrow> ce_result option" where
  "mem_set_checked s a v n =
     (if n < 0 then ce_abort ''Invalid memory size'' s
      else if n = 0 then ce_ok s
      else if bad_addr32 s a n then ce_abort ''Access violation'' s
      else do { s1 \<leftarrow> mem_fill s a v n; ce_ok s1 })"

primrec size_bytes :: "ce_size \<Rightarrow> nat option" where
  "size_bytes CeSizeClass_8 = Some 1"
| "size_bytes CeSizeClass_16 = Some 2"
| "size_bytes CeSizeClass_32 = Some 4"
| "size_bytes CeSizeClass_64 = Some 8"
| "size_bytes CeSizeClass_X = None"

text \<open>The bodies of the sized families: the \<open>_8\<close> to \<open>_64\<close> macros and the \<open>_X\<close> cases.\<close>

definition exec_const :: "nat option \<Rightarrow> ce_state \<Rightarrow> ce_result option" where
  "exec_const w s = (case w of
     Some n \<Rightarrow> do { (r, s1) \<leftarrow> frame_ref s; (bs, s2) \<leftarrow> get_inst n s1; s3 \<leftarrow> mem_write s2 r bs; ce_ok s3 }
   | None \<Rightarrow> do { (n, s1) \<leftarrow> get_i32 s; (r, s2) \<leftarrow> frame_ref s1;
                 if n < 0 then None
                 else do { (bs, s3) \<leftarrow> get_inst (nat n) s2; s4 \<leftarrow> mem_write s3 r bs; ce_ok s4 } })"

definition exec_load :: "nat option \<Rightarrow> ce_state \<Rightarrow> ce_result option" where
  "exec_load w s = (case w of
     Some n \<Rightarrow> do { (r, s1) \<leftarrow> frame_ref s; (a, s2) \<leftarrow> get_frame_s 4 s1;
                   if bad_addr s2 a (int n) then ce_abort ''Access violation'' s2
                   else do { s3 \<leftarrow> mem_copy s2 r a (int n); ce_ok s3 } }
   | None \<Rightarrow> do { (n, s1) \<leftarrow> get_i32 s; (r, s2) \<leftarrow> frame_ref s1; (a, s3) \<leftarrow> get_frame_s 4 s2;
                 if bad_addr32 s3 a n then ce_abort ''Access violation'' s3
                 else do { s4 \<leftarrow> mem_copy s3 r a n; ce_ok s4 } })"

definition exec_store :: "nat option \<Rightarrow> ce_state \<Rightarrow> ce_result option" where
  "exec_store w s = (case w of
     Some n \<Rightarrow> do { (bs, s1) \<leftarrow> get_frame (int n) s; (a, s2) \<leftarrow> get_frame_s 4 s1;
                   if bad_addr s2 a (int n) then ce_abort ''Access violation'' s2
                   else do { s3 \<leftarrow> mem_write s2 a bs; ce_ok s3 } }
   | None \<Rightarrow> do { (n, s1) \<leftarrow> get_i32 s; (p, s2) \<leftarrow> frame_ref s1; (a, s3) \<leftarrow> get_frame_s 4 s2;
                 if bad_addr32 s3 a n then ce_abort ''Access violation'' s3
                 else do { s4 \<leftarrow> mem_copy s3 a p n; ce_ok s4 } })"

definition exec_move :: "nat option \<Rightarrow> ce_state \<Rightarrow> ce_result option" where
  "exec_move w s = (case w of
     Some n \<Rightarrow> do { (bs, s1) \<leftarrow> get_frame (int n) s; (r, s2) \<leftarrow> frame_ref s1; s3 \<leftarrow> mem_write s2 r bs; ce_ok s3 }
   | None \<Rightarrow> do { (n, s1) \<leftarrow> get_i32 s; (p, s2) \<leftarrow> frame_ref s1; (r, s3) \<leftarrow> frame_ref s2;
                 s4 \<leftarrow> mem_copy s3 r p n; ce_ok s4 })"

text \<open>
  A push stores the value before the stack is checked. There is no \<open>CeOp_Push_X\<close> case.
\<close>

definition exec_push :: "nat option \<Rightarrow> ce_state \<Rightarrow> ce_result option" where
  "exec_push w s = (case w of
     Some n \<Rightarrow> do { (bs, s1) \<leftarrow> get_frame (int n) (s\<lparr>x_stack := x_stack s - int n\<rparr>);
                   s2 \<leftarrow> mem_write s1 (x_stack s1) bs; check_stack s2 }
   | None \<Rightarrow> ce_abort ''Unhandled op'' s)"

definition exec_pop :: "nat option \<Rightarrow> ce_state \<Rightarrow> ce_result option" where
  "exec_pop w s = (case w of
     Some n \<Rightarrow> do { (r, s1) \<leftarrow> frame_ref s; s2 \<leftarrow> mem_copy s1 r (x_stack s1) (int n);
                   ce_ok (s2\<lparr>x_stack := x_stack s2 + int n\<rparr>) }
   | None \<Rightarrow> do { (n, s1) \<leftarrow> get_i32 s; (r, s2) \<leftarrow> frame_ref s1; s3 \<leftarrow> mem_copy s2 r (x_stack s2) n;
                 ce_ok (s3\<lparr>x_stack := x_stack s3 + n\<rparr>) })"

definition exec_zero :: "ce_state \<Rightarrow> ce_result option" where
  "exec_zero s =
     do { (r, s1) \<leftarrow> frame_ref s; (n, s2) \<leftarrow> get_i32 s1; s3 \<leftarrow> mem_fill s2 r 0 n; ce_ok s3 }"

primrec exec_mem :: "ce_env \<Rightarrow> ce_mem_op \<Rightarrow> ce_state \<Rightarrow> ce_result option" where
  "exec_mem e CeOp_MemSet s =
     do { (a, s1) \<leftarrow> get_frame_s 4 s; (v, s2) \<leftarrow> get_frame 1 s1; (n, s3) \<leftarrow> get_frame_s 4 s2;
          mem_set_checked s3 a (hd v) n }"
| "exec_mem e CeOp_MemSet_Const s =
     do { (a, s1) \<leftarrow> get_frame_s 4 s; (v, s2) \<leftarrow> get_inst 1 s1; (n, s3) \<leftarrow> get_i32 s2;
          mem_set_checked s3 a (hd v) n }"
| "exec_mem e CeOp_MemCpy s =
     do { (d, s1) \<leftarrow> get_frame_s 4 s; (a, s2) \<leftarrow> get_frame_s 4 s1; (n, s3) \<leftarrow> get_frame_s 4 s2;
          if n < 0 then ce_abort ''Invalid memory size'' s3
          else if n = 0 then ce_ok s3
          else if bad_addr32 s3 a n \<or> bad_addr32 s3 d n then ce_abort ''Access violation'' s3
          else do { s4 \<leftarrow> mem_copy s3 d a n; ce_ok s4 } }"
| "exec_mem e CeOp_MemCmp s =
     do { (r, s1) \<leftarrow> frame_ref s; (a, s2) \<leftarrow> get_frame_s 4 s1; (b, s3) \<leftarrow> get_frame_s 4 s2;
          (n, s4) \<leftarrow> get_frame_s (if e_ptr_size e = 4 then 4 else 8) s3;
          if n < 0 then ce_abort ''Invalid memory size'' s4
          else if n = 0 then do { s5 \<leftarrow> set_addr_val e s4 r 0; ce_ok s5 }
          else if x_mem_size s4 < n \<or> bad_addr s4 a n \<or> bad_addr s4 b n
          then ce_abort ''Access violation'' s4
          else do { xs \<leftarrow> mem_read s4 a n; ys \<leftarrow> mem_read s4 b n;
                    s5 \<leftarrow> set_addr_val e s4 r (ce_memcmp xs ys); ce_ok s5 } }"
| "exec_mem e CeOp_FrameAddr_32 s =
     do { (r, s1) \<leftarrow> frame_ref s; (a, s2) \<leftarrow> frame_ref s1; s3 \<leftarrow> mem_write s2 r (le_bytes 4 a); ce_ok s3 }"
| "exec_mem e CeOp_FrameAddr_64 s =
     do { (r, s1) \<leftarrow> frame_ref s; (a, s2) \<leftarrow> frame_ref s1; s3 \<leftarrow> mem_write s2 r (le_bytes 8 a); ce_ok s3 }"
| "exec_mem e CeOp_FrameAddrOfs_32 s =
     do { (r, s1) \<leftarrow> frame_ref s; (a, s2) \<leftarrow> frame_ref s1; (ofs, s3) \<leftarrow> get_i32 s2;
          s4 \<leftarrow> mem_write s3 r (le_bytes 4 (a + ofs)); ce_ok s4 }"
| "exec_mem e CeOp_ConstData s = Some (CeOutside s)"
| "exec_mem e CeOp_ConstDataRef s = Some (CeOutside s)"
| "exec_mem e CeOp_Zero s = exec_zero s"
| "exec_mem e (CeOp_Const sz) s = exec_const (size_bytes sz) s"
| "exec_mem e (CeOp_Load sz) s = exec_load (size_bytes sz) s"
| "exec_mem e (CeOp_Store sz) s = exec_store (size_bytes sz) s"
| "exec_mem e (CeOp_Move sz) s = exec_move (size_bytes sz) s"
| "exec_mem e (CeOp_Push sz) s = exec_push (size_bytes sz) s"
| "exec_mem e (CeOp_Pop sz) s = exec_pop (size_bytes sz) s"

section \<open>Stack pointer and calls\<close>

text \<open>
  The function an operand of \<open>CeOp_Call\<close> stands for: an id that \<open>mFunctionIdMap\<close> lacks yields
  the null function, a pointer that is neither null nor a function is undefined behaviour.
\<close>

definition call_target :: "ce_env \<Rightarrow> ce_state \<Rightarrow> (ce_function option \<times> ce_state) option" where
  "call_target e s =
     (if e_ptr_size e \<noteq> 8
      then do { (i, s1) \<leftarrow> get_frame_s 4 s; Some (e_functions e i, s1) }
      else do { (bs, s1) \<leftarrow> get_frame 8 s;
                let p = le_uint bs;
                if p = 0 then Some (None, s1)
                else case e_functions e p of None \<Rightarrow> None | Some f \<Rightarrow> Some (Some f, s1) })"

definition exec_call :: "ce_env \<Rightarrow> ce_state \<Rightarrow> ce_result option" where
  "exec_call e s = do {
     (fo, s1) \<leftarrow> call_target e s;
     r \<leftarrow> ce_check_function e fo s1;
     case r of
       Inl res \<Rightarrow> Some res
     | Inr (handled, s2) \<Rightarrow>
         (case fo of
            None \<Rightarrow> None
          | Some f \<Rightarrow>
              (let s3 = (if mIsVarReturn f
                         then ce_report ''Illegal call to method with 'var' return.'' s2 else s2)
               in if handled then ce_ok s3 else ce_call f s3)) }"

primrec exec_stack :: "ce_env \<Rightarrow> ce_stack_op \<Rightarrow> ce_state \<Rightarrow> ce_result option" where
  "exec_stack e CeOp_AdjustSP s =
     do { (n, s1) \<leftarrow> get_frame_s 4 s; ce_ok (s1\<lparr>x_stack := x_stack s1 + n\<rparr>) }"
| "exec_stack e CeOp_AdjustSPNeg s =
     do { (n, s1) \<leftarrow> get_frame_s 4 s; ce_ok (s1\<lparr>x_stack := x_stack s1 - n\<rparr>) }"
| "exec_stack e CeOp_AdjustSPConst s =
     do { (n, s1) \<leftarrow> get_i32 s; ce_ok (s1\<lparr>x_stack := x_stack s1 + n\<rparr>) }"
| "exec_stack e CeOp_GetSP s =
     do { (r, s1) \<leftarrow> frame_ref s; s2 \<leftarrow> mem_write s1 r (le_bytes 4 (x_stack s1)); ce_ok s2 }"
| "exec_stack e CeOp_SetSP s =
     do { (a, s1) \<leftarrow> get_frame_s 4 s; ce_ok (s1\<lparr>x_stack := a\<rparr>) }"
| "exec_stack e CeOp_GetStaticField s = Some (CeOutside s)"
| "exec_stack e CeOp_GetStaticField_Initializer s = Some (CeOutside s)"
| "exec_stack e CeOp_GetMethod s = Some (CeOutside s)"
| "exec_stack e CeOp_GetMethod_Inner s = Some (CeOutside s)"
| "exec_stack e CeOp_GetMethod_Virt s = Some (CeOutside s)"
| "exec_stack e CeOp_GetMethod_IFace s = Some (CeOutside s)"
| "exec_stack e CeOp_Call s = exec_call e s"

section \<open>Conversions\<close>

text \<open>The C types of the operands: \<open>TI n\<close> and \<open>TU n\<close> are the integers of \<open>n\<close> bytes.\<close>

datatype (plugins only: size code) c_type = TI nat | TU nat | TF ce_float

primrec type_bytes :: "c_type \<Rightarrow> nat" where
  "type_bytes (TI n) = n"
| "type_bytes (TU n) = n"
| "type_bytes (TF k) = float_bytes k"

text \<open>The arguments of \<open>CE_CAST\<close> in each case.\<close>

primrec conv_types :: "ce_conv_op \<Rightarrow> c_type \<times> c_type" where
  "conv_types CeOp_Conv_I8_I16 = (TI 1, TI 2)"
| "conv_types CeOp_Conv_I8_I32 = (TI 1, TI 4)"
| "conv_types CeOp_Conv_I8_I64 = (TI 1, TI 8)"
| "conv_types CeOp_Conv_I8_F32 = (TI 1, TF F32)"
| "conv_types CeOp_Conv_I8_F64 = (TI 1, TF F64)"
| "conv_types CeOp_Conv_I16_I32 = (TI 2, TI 4)"
| "conv_types CeOp_Conv_I16_I64 = (TI 2, TI 8)"
| "conv_types CeOp_Conv_I16_F32 = (TI 2, TF F32)"
| "conv_types CeOp_Conv_I16_F64 = (TI 2, TF F64)"
| "conv_types CeOp_Conv_I32_I64 = (TI 4, TI 8)"
| "conv_types CeOp_Conv_I32_F32 = (TI 4, TF F32)"
| "conv_types CeOp_Conv_I32_F64 = (TI 4, TF F64)"
| "conv_types CeOp_Conv_I64_F32 = (TI 8, TF F32)"
| "conv_types CeOp_Conv_I64_F64 = (TI 8, TF F64)"
| "conv_types CeOp_Conv_U8_U16 = (TU 1, TU 2)"
| "conv_types CeOp_Conv_U8_U32 = (TU 1, TU 4)"
| "conv_types CeOp_Conv_U8_U64 = (TU 1, TU 8)"
| "conv_types CeOp_Conv_U8_F32 = (TU 1, TF F32)"
| "conv_types CeOp_Conv_U8_F64 = (TU 1, TF F64)"
| "conv_types CeOp_Conv_U16_U32 = (TU 2, TU 4)"
| "conv_types CeOp_Conv_U16_U64 = (TU 2, TU 8)"
| "conv_types CeOp_Conv_U16_F32 = (TU 2, TF F32)"
| "conv_types CeOp_Conv_U16_F64 = (TU 2, TF F64)"
| "conv_types CeOp_Conv_U32_U64 = (TU 4, TU 8)"
| "conv_types CeOp_Conv_U32_F32 = (TU 4, TF F32)"
| "conv_types CeOp_Conv_U32_F64 = (TU 4, TF F64)"
| "conv_types CeOp_Conv_U64_F32 = (TU 8, TF F32)"
| "conv_types CeOp_Conv_U64_F64 = (TU 8, TF F64)"
| "conv_types CeOp_Conv_F32_I8 = (TF F32, TI 1)"
| "conv_types CeOp_Conv_F32_I16 = (TF F32, TI 2)"
| "conv_types CeOp_Conv_F32_I32 = (TF F32, TI 4)"
| "conv_types CeOp_Conv_F32_I64 = (TF F32, TI 8)"
| "conv_types CeOp_Conv_F32_U8 = (TF F32, TU 1)"
| "conv_types CeOp_Conv_F32_U16 = (TF F32, TU 2)"
| "conv_types CeOp_Conv_F32_U32 = (TF F32, TU 4)"
| "conv_types CeOp_Conv_F32_U64 = (TF F32, TU 8)"
| "conv_types CeOp_Conv_F32_F64 = (TF F32, TF F64)"
| "conv_types CeOp_Conv_F64_I8 = (TF F64, TI 1)"
| "conv_types CeOp_Conv_F64_I16 = (TF F64, TI 2)"
| "conv_types CeOp_Conv_F64_I32 = (TF F64, TI 4)"
| "conv_types CeOp_Conv_F64_I64 = (TF F64, TI 8)"
| "conv_types CeOp_Conv_F64_U8 = (TF F32, TU 1)"
| "conv_types CeOp_Conv_F64_U16 = (TF F32, TU 2)"
| "conv_types CeOp_Conv_F64_U32 = (TF F32, TU 4)"
| "conv_types CeOp_Conv_F64_U64 = (TF F32, TU 8)"
| "conv_types CeOp_Conv_F64_F32 = (TF F64, TF F32)"

text \<open>
  The C cast on byte representations. A floating value whose integer part does not fit the
  integer type is undefined behaviour.
\<close>

definition c_cast :: "ce_fpu \<Rightarrow> c_type \<Rightarrow> c_type \<Rightarrow> u8 list \<Rightarrow> u8 list option" where
  "c_cast fpu from to bs =
     (case (from, to) of
        (TF k, TF l) \<Rightarrow> Some (le_bytes (float_bytes l) (fp_cvt fpu k l (le_uint bs)))
      | (TF k, TI n) \<Rightarrow> (case fp_to_int fpu k (le_uint bs) of
            None \<Rightarrow> None | Some v \<Rightarrow> if in_s n v then Some (le_bytes n v) else None)
      | (TF k, TU n) \<Rightarrow> (case fp_to_int fpu k (le_uint bs) of
            None \<Rightarrow> None | Some v \<Rightarrow> if in_u n v then Some (le_bytes n v) else None)
      | (TI m, TF l) \<Rightarrow> Some (le_bytes (float_bytes l) (fp_of_int fpu l (le_sint bs)))
      | (TU m, TF l) \<Rightarrow> Some (le_bytes (float_bytes l) (fp_of_int fpu l (le_uint bs)))
      | (TI m, _) \<Rightarrow> Some (le_bytes (type_bytes to) (le_sint bs))
      | (TU m, _) \<Rightarrow> Some (le_bytes (type_bytes to) (le_uint bs)))"

definition exec_conv :: "ce_env \<Rightarrow> ce_conv_op \<Rightarrow> ce_state \<Rightarrow> ce_result option" where
  "exec_conv e op s =
     (let (from, to) = conv_types op
      in do { (r, s1) \<leftarrow> frame_ref s; (bs, s2) \<leftarrow> get_frame (int (type_bytes from)) s1;
              v \<leftarrow> c_cast (e_fpu e) from to bs; s3 \<leftarrow> mem_write s2 r v; ce_ok s3 })"

section \<open>Arithmetic\<close>

text \<open>\<open>CEOP_BIN\<close>, \<open>CEOP_BIN2\<close> and \<open>CEOP_BIN_FUNC\<close>: the operands have \<open>m\<close> and \<open>n\<close> bytes.\<close>

definition exec_bin :: "nat \<Rightarrow> nat \<Rightarrow> (u8 list \<Rightarrow> u8 list \<Rightarrow> u8 list option) \<Rightarrow> ce_state \<Rightarrow> ce_result option" where
  "exec_bin m n f s = do {
     (r, s1) \<leftarrow> frame_ref s; (x, s2) \<leftarrow> get_frame (int m) s1; (y, s3) \<leftarrow> get_frame (int n) s2;
     v \<leftarrow> f x y; s4 \<leftarrow> mem_write s3 r v; ce_ok s4 }"

text \<open>\<open>CEOP_BIN_DIV\<close>, and the two \<open>fmod\<close> cases: \<open>z\<close> is the test \<open>rhs == 0\<close>.\<close>

definition exec_bin_div ::
  "nat \<Rightarrow> (u8 list \<Rightarrow> bool) \<Rightarrow> (u8 list \<Rightarrow> u8 list \<Rightarrow> u8 list option) \<Rightarrow> ce_state \<Rightarrow> ce_result option" where
  "exec_bin_div n z f s = do {
     (r, s1) \<leftarrow> frame_ref s; (x, s2) \<leftarrow> get_frame (int n) s1; (y, s3) \<leftarrow> get_frame (int n) s2;
     if z y then ce_abort ''Division by zero'' s3
     else do { v \<leftarrow> f x y; s4 \<leftarrow> mem_write s3 r v; ce_ok s4 } }"

text \<open>\<open>CEOP_BIN_CONST\<close>, and the unary macros.\<close>

definition exec_bin_const :: "nat \<Rightarrow> (u8 list \<Rightarrow> u8 list \<Rightarrow> u8 list) \<Rightarrow> ce_state \<Rightarrow> ce_result option" where
  "exec_bin_const n f s = do {
     (r, s1) \<leftarrow> frame_ref s; (x, s2) \<leftarrow> get_frame (int n) s1; (y, s3) \<leftarrow> get_inst n s2;
     s4 \<leftarrow> mem_write s3 r (f x y); ce_ok s4 }"

definition exec_un :: "nat \<Rightarrow> (u8 list \<Rightarrow> u8 list) \<Rightarrow> ce_state \<Rightarrow> ce_result option" where
  "exec_un n f s = do {
     (r, s1) \<leftarrow> frame_ref s; (x, s2) \<leftarrow> get_frame (int n) s1; s3 \<leftarrow> mem_write s2 r (f x); ce_ok s3 }"

text \<open>Operators on the values of \<open>intN\<close> and \<open>uintN\<close>; the result is truncated to \<open>n\<close> bytes.\<close>

definition s_op :: "nat \<Rightarrow> (int \<Rightarrow> int \<Rightarrow> int) \<Rightarrow> u8 list \<Rightarrow> u8 list \<Rightarrow> u8 list option" where
  "s_op n f x y = Some (le_bytes n (f (le_sint x) (le_sint y)))"

definition u_op :: "nat \<Rightarrow> (int \<Rightarrow> int \<Rightarrow> int) \<Rightarrow> u8 list \<Rightarrow> u8 list \<Rightarrow> u8 list option" where
  "u_op n f x y = Some (le_bytes n (f (le_uint x) (le_uint y)))"

definition f_op :: "ce_fpu \<Rightarrow> ce_float \<Rightarrow> fp_bin \<Rightarrow> u8 list \<Rightarrow> u8 list \<Rightarrow> u8 list option" where
  "f_op fpu k f x y = Some (le_bytes (float_bytes k) (fp_bin fpu k f (le_uint x) (le_uint y)))"

text \<open>
  Signed division: the operands are promoted to \<open>int\<close>, so the quotient of the least value by
  \<open>-1\<close> overflows for the widths that are not promoted only.
\<close>

definition div_overflow :: "nat \<Rightarrow> int \<Rightarrow> int \<Rightarrow> bool" where
  "div_overflow n a b \<longleftrightarrow> 4 \<le> n \<and> a = - (256 ^ n div 2) \<and> b = -1"

definition s_div_op :: "nat \<Rightarrow> (int \<Rightarrow> int \<Rightarrow> int) \<Rightarrow> u8 list \<Rightarrow> u8 list \<Rightarrow> u8 list option" where
  "s_div_op n f x y =
     (if div_overflow n (le_sint x) (le_sint y) then None else s_op n f x y)"

text \<open>Shifts by a \<open>uint8\<close> count, undefined from the width of the promoted operand on.\<close>

definition shift_ok :: "nat \<Rightarrow> int \<Rightarrow> bool" where
  "shift_ok n c \<longleftrightarrow> c < 8 * int (max n 4)"

definition shl_op :: "nat \<Rightarrow> u8 list \<Rightarrow> u8 list \<Rightarrow> u8 list option" where
  "shl_op n x y = (if shift_ok n (le_uint y)
                   then Some (le_bytes n (le_sint x * 2 ^ nat (le_uint y))) else None)"

definition sshr_op :: "nat \<Rightarrow> u8 list \<Rightarrow> u8 list \<Rightarrow> u8 list option" where
  "sshr_op n x y = (if shift_ok n (le_uint y)
                    then Some (le_bytes n (le_sint x div 2 ^ nat (le_uint y))) else None)"

definition ushr_op :: "nat \<Rightarrow> u8 list \<Rightarrow> u8 list \<Rightarrow> u8 list option" where
  "ushr_op n x y = (if shift_ok n (le_uint y)
                    then Some (le_bytes n (le_uint x div 2 ^ nat (le_uint y))) else None)"

definition s_zero :: "u8 list \<Rightarrow> bool" where
  "s_zero y \<longleftrightarrow> le_uint y = 0"

definition f_zero :: "ce_fpu \<Rightarrow> ce_float \<Rightarrow> u8 list \<Rightarrow> bool" where
  "f_zero fpu k y = fp_eq fpu k (le_uint y) 0"

text \<open>A family \<open>Op_I8\<close> to \<open>Op_I64\<close>, \<open>Op_F32\<close>, \<open>Op_F64\<close> with one integer and one floating form.\<close>

definition exec_num_bin :: "ce_env \<Rightarrow> ce_num \<Rightarrow> (int \<Rightarrow> int \<Rightarrow> int) \<Rightarrow> fp_bin \<Rightarrow> ce_state \<Rightarrow> ce_result option" where
  "exec_num_bin e k f g s =
     (case k of KI i \<Rightarrow> (let n = int_bytes i in exec_bin n n (s_op n f) s)
              | KF j \<Rightarrow> (let n = float_bytes j in exec_bin n n (f_op (e_fpu e) j g) s))"

definition exec_num_div :: "ce_env \<Rightarrow> ce_num \<Rightarrow> (int \<Rightarrow> int \<Rightarrow> int) \<Rightarrow> fp_bin \<Rightarrow> ce_state \<Rightarrow> ce_result option" where
  "exec_num_div e k f g s =
     (case k of KI i \<Rightarrow> (let n = int_bytes i in exec_bin_div n s_zero (s_div_op n f) s)
              | KF j \<Rightarrow> (let n = float_bytes j in exec_bin_div n (f_zero (e_fpu e) j) (f_op (e_fpu e) j g) s))"

definition exec_abs :: "ce_env \<Rightarrow> ce_num \<Rightarrow> ce_state \<Rightarrow> ce_result option" where
  "exec_abs e k s =
     (case k of
        KI i \<Rightarrow> (let n = int_bytes i in exec_un n (\<lambda>x. le_bytes n \<bar>le_sint x\<bar>) s)
      | KF j \<Rightarrow> (let n = float_bytes j in exec_un n (\<lambda>x. le_bytes n (fp_abs (e_fpu e) j (le_uint x))) s))"

text \<open>There is no case for the floating forms of \<open>AddConst\<close>.\<close>

definition exec_add_const :: "ce_num \<Rightarrow> ce_state \<Rightarrow> ce_result option" where
  "exec_add_const k s =
     (case k of
        KI i \<Rightarrow> (let n = int_bytes i in exec_bin_const n (\<lambda>x y. le_bytes n (le_sint x + le_sint y)) s)
      | KF j \<Rightarrow> ce_abort ''Unhandled op'' s)"

definition exec_udiv :: "ce_int \<Rightarrow> (int \<Rightarrow> int \<Rightarrow> int) \<Rightarrow> ce_state \<Rightarrow> ce_result option" where
  "exec_udiv i f s = (let n = int_bytes i in exec_bin_div n s_zero (u_op n f) s)"

definition exec_bits :: "ce_int \<Rightarrow> (int \<Rightarrow> int \<Rightarrow> int) \<Rightarrow> ce_state \<Rightarrow> ce_result option" where
  "exec_bits i f s = (let n = int_bytes i in exec_bin n n (u_op n f) s)"

definition exec_shift ::
  "ce_int \<Rightarrow> (nat \<Rightarrow> u8 list \<Rightarrow> u8 list \<Rightarrow> u8 list option) \<Rightarrow> ce_state \<Rightarrow> ce_result option" where
  "exec_shift i f s = (let n = int_bytes i in exec_bin n 1 (f n) s)"

primrec exec_arith :: "ce_env \<Rightarrow> ce_arith_op \<Rightarrow> ce_state \<Rightarrow> ce_result option" where
  "exec_arith e (CeOp_Abs k) s = exec_abs e k s"
| "exec_arith e (CeOp_AddConst k) s = exec_add_const k s"
| "exec_arith e (CeOp_Add k) s = exec_num_bin e k (+) FAdd s"
| "exec_arith e (CeOp_Sub k) s = exec_num_bin e k (-) FSub s"
| "exec_arith e (CeOp_Mul k) s = exec_num_bin e k (*) FMul s"
| "exec_arith e (CeOp_Div k) s = exec_num_div e k c_div FDiv s"
| "exec_arith e (CeOp_DivU i) s = exec_udiv i (div) s"
| "exec_arith e (CeOp_Mod k) s = exec_num_div e k c_mod FMod s"
| "exec_arith e (CeOp_ModU i) s = exec_udiv i (mod) s"
| "exec_arith e (CeOp_And i) s = exec_bits i (AND) s"
| "exec_arith e (CeOp_Or i) s = exec_bits i (OR) s"
| "exec_arith e (CeOp_Xor i) s = exec_bits i (XOR) s"
| "exec_arith e (CeOp_Shl i) s = exec_shift i shl_op s"
| "exec_arith e (CeOp_Shr i) s = exec_shift i sshr_op s"
| "exec_arith e (CeOp_ShrU i) s = exec_shift i ushr_op s"

lemmas exec_arith_defs = exec_abs_def exec_add_const_def exec_udiv_def exec_bits_def exec_shift_def

section \<open>Floating point functions, comparisons, negation\<close>

definition exec_math :: "ce_env \<Rightarrow> ce_math_op \<Rightarrow> ce_float \<Rightarrow> ce_state \<Rightarrow> ce_result option" where
  "exec_math e op k s =
     (let n = float_bytes k; fpu = e_fpu e
      in case op of
           CeOp_Atan2 \<Rightarrow> exec_bin n n (f_op fpu k FAtan2) s
         | CeOp_Pow \<Rightarrow> exec_bin n n (f_op fpu k FPow) s
         | CeOp_Fma \<Rightarrow>
             do { (r, s1) \<leftarrow> frame_ref s; (x, s2) \<leftarrow> get_frame (int n) s1; (y, s3) \<leftarrow> get_frame (int n) s2;
                  (z, s4) \<leftarrow> get_frame (int n) s3;
                  s5 \<leftarrow> mem_write s4 r (le_bytes n (fp_fma fpu k (le_uint x) (le_uint y) (le_uint z))); ce_ok s5 }
         | _ \<Rightarrow> exec_un n (\<lambda>x. le_bytes n (fp_fun fpu k op (le_uint x))) s)"

text \<open>\<open>CEOP_CMP\<close>.\<close>

definition exec_cmp :: "nat \<Rightarrow> (u8 list \<Rightarrow> u8 list \<Rightarrow> bool) \<Rightarrow> ce_state \<Rightarrow> ce_result option" where
  "exec_cmp n p s = exec_bin n n (\<lambda>x y. Some (bool_byte (p x y))) s"

definition exec_num_cmp ::
  "ce_num \<Rightarrow> (int \<Rightarrow> int \<Rightarrow> bool) \<Rightarrow> (ce_float \<Rightarrow> int \<Rightarrow> int \<Rightarrow> bool) \<Rightarrow> ce_state \<Rightarrow> ce_result option" where
  "exec_num_cmp k p q s =
     (case k of KI i \<Rightarrow> exec_cmp (int_bytes i) (\<lambda>x y. p (le_sint x) (le_sint y)) s
              | KF j \<Rightarrow> exec_cmp (float_bytes j) (\<lambda>x y. q j (le_uint x) (le_uint y)) s)"

definition exec_int_ucmp :: "ce_int \<Rightarrow> (int \<Rightarrow> int \<Rightarrow> bool) \<Rightarrow> ce_state \<Rightarrow> ce_result option" where
  "exec_int_ucmp i p s = exec_cmp (int_bytes i) (\<lambda>x y. p (le_uint x) (le_uint y)) s"

primrec exec_cmp_op :: "ce_env \<Rightarrow> ce_cmp_op \<Rightarrow> ce_state \<Rightarrow> ce_result option" where
  "exec_cmp_op e (CeOp_Cmp_EQ k) s = exec_num_cmp k (=) (fp_eq (e_fpu e)) s"
| "exec_cmp_op e (CeOp_Cmp_NE k) s = exec_num_cmp k (\<noteq>) (\<lambda>j x y. \<not> fp_eq (e_fpu e) j x y) s"
| "exec_cmp_op e (CeOp_Cmp_SLT k) s = exec_num_cmp k (<) (fp_lt (e_fpu e)) s"
| "exec_cmp_op e (CeOp_Cmp_ULT i) s = exec_int_ucmp i (<) s"
| "exec_cmp_op e (CeOp_Cmp_SLE k) s = exec_num_cmp k (\<le>) (fp_le (e_fpu e)) s"
| "exec_cmp_op e (CeOp_Cmp_ULE i) s = exec_int_ucmp i (\<le>) s"
| "exec_cmp_op e (CeOp_Cmp_SGT k) s = exec_num_cmp k (>) (\<lambda>j x y. fp_lt (e_fpu e) j y x) s"
| "exec_cmp_op e (CeOp_Cmp_UGT i) s = exec_int_ucmp i (>) s"
| "exec_cmp_op e (CeOp_Cmp_SGE k) s = exec_num_cmp k (\<ge>) (\<lambda>j x y. fp_le (e_fpu e) j y x) s"
| "exec_cmp_op e (CeOp_Cmp_UGE i) s = exec_int_ucmp i (\<ge>) s"

primrec exec_unary :: "ce_env \<Rightarrow> ce_unary_op \<Rightarrow> ce_state \<Rightarrow> ce_result option" where
  "exec_unary e (CeOp_Neg k) s =
     (case k of
        KI i \<Rightarrow> (let n = int_bytes i in exec_un n (\<lambda>x. le_bytes n (- le_sint x)) s)
      | KF j \<Rightarrow> (let n = float_bytes j in exec_un n (\<lambda>x. le_bytes n (fp_neg (e_fpu e) j (le_uint x))) s))"
| "exec_unary e CeOp_Not_I1 s =
     do { (r, s1) \<leftarrow> frame_ref s; (b, s2) \<leftarrow> get_frame_bool s1; s3 \<leftarrow> mem_write s2 r (bool_byte (\<not> b)); ce_ok s3 }"
| "exec_unary e (CeOp_Not i) s =
     (let n = int_bytes i in exec_un n (\<lambda>x. le_bytes n (NOT (le_sint x))) s)"

section \<open>The loop\<close>

primrec exec_op :: "ce_env \<Rightarrow> ce_op \<Rightarrow> ce_state \<Rightarrow> ce_result option" where
  "exec_op e (Ctl x) s = exec_ctl e x s"
| "exec_op e (Mem x) s = exec_mem e x s"
| "exec_op e (Stk x) s = exec_stack e x s"
| "exec_op e (Conv x) s = exec_conv e x s"
| "exec_op e (Arith x) s = exec_arith e x s"
| "exec_op e (Math x k) s = exec_math e x k s"
| "exec_op e (Cmp x) s = exec_cmp_op e x s"
| "exec_op e (Unary x) s = exec_unary e x s"

text \<open>One round of the \<open>while (true)\<close>: fetch an \<open>int16\<close> opcode and dispatch.\<close>

definition ce_step :: "ce_env \<Rightarrow> ce_state \<Rightarrow> ce_result option" where
  "ce_step e s = do {
     (bs, s1) \<leftarrow> get_inst 2 s;
     case ce_op_of_code (le_sint bs) of
       None \<Rightarrow> ce_abort ''Unhandled op'' s1
     | Some op \<Rightarrow> exec_op e op s1 }"

text \<open>At most \<open>n\<close> rounds; \<open>CeNext\<close> at the end means that the evaluation is still running.\<close>

fun ce_run :: "nat \<Rightarrow> ce_env \<Rightarrow> ce_state \<Rightarrow> ce_result option" where
  "ce_run 0 e s = Some (CeNext s)"
| "ce_run (Suc n) e s =
     (case ce_step e s of Some (CeNext s1) \<Rightarrow> ce_run n e s1 | r \<Rightarrow> r)"

text \<open>The entry of \<open>Execute\<close>: the function is checked like a callee, then the stack.\<close>

definition ce_start :: "ce_env \<Rightarrow> ce_state \<Rightarrow> ce_result option" where
  "ce_start e s = do {
     r \<leftarrow> ce_check_function e (Some (x_fn s)) s;
     case r of
       Inl res \<Rightarrow> Some res
     | Inr (handled, s1) \<Rightarrow> (if handled then Some (CeDone s1) else check_stack s1) }"

end
