(* ===== verification/Ce_Machine_Props.thy ===== *)
theory Ce_Machine_Props
  imports Ce_Machine Ce_OpInfo Beef_Heap_Spec
begin

text \<open>
  Lemmas about the virtual machine: what the operand readers consume, the effect of the memory
  checks, the invariant of the heap, and the agreement of the arithmetic with machine words.
\<close>

unbundle bit_operations_syntax

section \<open>Readers and writers\<close>

lemma get_inst_some: "get_inst n s = Some (bs, s1) \<Longrightarrow> s1 = s\<lparr>x_inst := x_inst s + int n\<rparr> \<and> length bs = n"
  by (auto simp: get_inst_def length_slice split: option.splits)

lemma get_i32_some: "get_i32 s = Some (v, s1) \<Longrightarrow> s1 = s\<lparr>x_inst := x_inst s + 4\<rparr>"
  by (auto simp: get_i32_def bind_eq_Some_conv dest!: get_inst_some)

lemma frame_ref_some: "frame_ref s = Some (a, s1) \<Longrightarrow> s1 = s\<lparr>x_inst := x_inst s + 4\<rparr>"
  by (auto simp: frame_ref_def bind_eq_Some_conv dest!: get_i32_some)

lemma get_frame_some: "get_frame n s = Some (bs, s1) \<Longrightarrow> s1 = s\<lparr>x_inst := x_inst s + 4\<rparr>"
  by (auto simp: get_frame_def bind_eq_Some_conv dest!: frame_ref_some)

lemma get_frame_s_some: "get_frame_s n s = Some (v, s1) \<Longrightarrow> s1 = s\<lparr>x_inst := x_inst s + 4\<rparr>"
  by (auto simp: get_frame_s_def bind_eq_Some_conv dest!: get_frame_some)

lemma get_frame_bool_some: "get_frame_bool s = Some (b, s1) \<Longrightarrow> s1 = s\<lparr>x_inst := x_inst s + 4\<rparr>"
  by (auto simp: get_frame_bool_def bind_eq_Some_conv split: if_splits dest!: get_frame_some)

text \<open>What a write leaves alone.\<close>

definition same_control :: "ce_state \<Rightarrow> ce_state \<Rightarrow> bool" where
  "same_control s s1 \<longleftrightarrow> x_mem_size s1 = x_mem_size s \<and> x_inst s1 = x_inst s \<and> x_stack s1 = x_stack s \<and>
     x_frame s1 = x_frame s \<and> x_fn s1 = x_fn s \<and> x_calls s1 = x_calls s \<and> x_heap s1 = x_heap s \<and>
     x_ret_type s1 = x_ret_type s \<and> x_errs s1 = x_errs s"

lemma ce_put_control [simp]:
  "x_mem_size (ce_put s a bs) = x_mem_size s" "x_inst (ce_put s a bs) = x_inst s"
  "x_stack (ce_put s a bs) = x_stack s" "x_frame (ce_put s a bs) = x_frame s"
  "x_fn (ce_put s a bs) = x_fn s" "x_calls (ce_put s a bs) = x_calls s"
  "x_heap (ce_put s a bs) = x_heap s" "x_ret_type (ce_put s a bs) = x_ret_type s"
  "x_errs (ce_put s a bs) = x_errs s"
  by (simp_all add: ce_put_def)

lemma mem_write_some: "mem_write s a bs = Some s1 \<Longrightarrow> s1 = ce_put s a bs \<and> in_mem s a (int (length bs))"
  by (auto simp: mem_write_def split: if_splits)

lemma mem_fill_some: "mem_fill s a v n = Some s1 \<Longrightarrow> s1 = ce_put s a (replicate (nat n) v)"
  by (auto simp: mem_fill_def split: if_splits)

lemma mem_copy_some: "mem_copy s d a n = Some s1 \<Longrightarrow> \<exists>bs. s1 = ce_put s d bs"
  by (auto simp: mem_copy_def bind_eq_Some_conv dest!: mem_write_some)

lemma set_addr_val_some: "set_addr_val e s a v = Some s1 \<Longrightarrow> \<exists>bs. s1 = ce_put s a bs"
  by (auto simp: set_addr_val_def dest!: mem_write_some)

lemmas reader_dests = get_inst_some get_i32_some frame_ref_some get_frame_some get_frame_s_some
  get_frame_bool_some mem_write_some mem_fill_some mem_copy_some set_addr_val_some

lemmas exec_defs = ce_check_prepared_def ce_extern_failure_def exec_malloc_def exec_free_def exec_zero_def
  exec_arith_defs ce_ok_def ce_abort_def bind_eq_Some_conv Let_def

section \<open>Instruction lengths\<close>

text \<open>The bytes of the operands of an opcode, as \<open>Execute\<close> reads them; \<open>None\<close> for the opcodes
  whose length is in the code, that have no case, or that leave the model.\<close>

primrec size_width :: "ce_size \<Rightarrow> int" where
  "size_width CeSizeClass_8 = 1"
| "size_width CeSizeClass_16 = 2"
| "size_width CeSizeClass_32 = 4"
| "size_width CeSizeClass_64 = 8"
| "size_width CeSizeClass_X = 4"

primrec num_bytes :: "ce_num \<Rightarrow> nat" where
  "num_bytes (KI i) = int_bytes i"
| "num_bytes (KF k) = float_bytes k"

definition is_x :: "ce_size \<Rightarrow> bool" where
  "is_x z = (case z of CeSizeClass_X \<Rightarrow> True | _ \<Rightarrow> False)"

primrec mem_width :: "ce_mem_op \<Rightarrow> int option" where
  "mem_width CeOp_MemSet = Some 12"
| "mem_width CeOp_MemSet_Const = Some 9"
| "mem_width CeOp_MemCpy = Some 12"
| "mem_width CeOp_MemCmp = Some 16"
| "mem_width CeOp_FrameAddr_32 = Some 8"
| "mem_width CeOp_FrameAddr_64 = Some 8"
| "mem_width CeOp_FrameAddrOfs_32 = Some 12"
| "mem_width CeOp_ConstData = None"
| "mem_width CeOp_ConstDataRef = None"
| "mem_width CeOp_Zero = Some 8"
| "mem_width (CeOp_Const z) = (if is_x z then None else Some (4 + size_width z))"
| "mem_width (CeOp_Load z) = Some (if is_x z then 12 else 8)"
| "mem_width (CeOp_Store z) = Some (if is_x z then 12 else 8)"
| "mem_width (CeOp_Move z) = Some (if is_x z then 12 else 8)"
| "mem_width (CeOp_Push z) = (if is_x z then None else Some 4)"
| "mem_width (CeOp_Pop z) = Some (if is_x z then 8 else 4)"

primrec ctl_width :: "ce_ctl_op \<Rightarrow> int option" where
  "ctl_width CeOp_InvalidOp = None"
| "ctl_width CeOp_Nop = Some 0"
| "ctl_width CeOp_DbgBreak = Some 0"
| "ctl_width CeOp_Ret = None"
| "ctl_width CeOp_SetRetType = Some 4"
| "ctl_width CeOp_Jmp = None"
| "ctl_width CeOp_JmpIf = None"
| "ctl_width CeOp_JmpIfNot = None"
| "ctl_width CeOp_Error = Some 4"
| "ctl_width CeOp_DynamicCastCheck = None"
| "ctl_width CeOp_GetReflectType = None"
| "ctl_width CeOp_GetString = None"
| "ctl_width CeOp_Malloc = Some 8"
| "ctl_width CeOp_Free = Some 4"

primrec stack_width :: "ce_stack_op \<Rightarrow> int option" where
  "stack_width CeOp_AdjustSP = Some 4"
| "stack_width CeOp_AdjustSPNeg = Some 4"
| "stack_width CeOp_AdjustSPConst = Some 4"
| "stack_width CeOp_GetSP = Some 4"
| "stack_width CeOp_SetSP = Some 4"
| "stack_width CeOp_GetStaticField = None"
| "stack_width CeOp_GetStaticField_Initializer = None"
| "stack_width CeOp_GetMethod = None"
| "stack_width CeOp_GetMethod_Inner = None"
| "stack_width CeOp_GetMethod_Virt = None"
| "stack_width CeOp_GetMethod_IFace = None"
| "stack_width CeOp_Call = None"

primrec arith_width :: "ce_arith_op \<Rightarrow> int option" where
  "arith_width (CeOp_Abs k) = Some 8"
| "arith_width (CeOp_AddConst k) = (case k of KI i \<Rightarrow> Some (8 + int (int_bytes i)) | KF _ \<Rightarrow> None)"
| "arith_width (CeOp_Add k) = Some 12"
| "arith_width (CeOp_Sub k) = Some 12"
| "arith_width (CeOp_Mul k) = Some 12"
| "arith_width (CeOp_Div k) = Some 12"
| "arith_width (CeOp_DivU i) = Some 12"
| "arith_width (CeOp_Mod k) = Some 12"
| "arith_width (CeOp_ModU i) = Some 12"
| "arith_width (CeOp_And i) = Some 12"
| "arith_width (CeOp_Or i) = Some 12"
| "arith_width (CeOp_Xor i) = Some 12"
| "arith_width (CeOp_Shl i) = Some 12"
| "arith_width (CeOp_Shr i) = Some 12"
| "arith_width (CeOp_ShrU i) = Some 12"

definition math_width :: "ce_math_op \<Rightarrow> int" where
  "math_width op = (case op of CeOp_Atan2 \<Rightarrow> 12 | CeOp_Pow \<Rightarrow> 12 | CeOp_Fma \<Rightarrow> 16 | _ \<Rightarrow> 8)"

primrec op_width :: "ce_op \<Rightarrow> int option" where
  "op_width (Ctl x) = ctl_width x"
| "op_width (Mem x) = mem_width x"
| "op_width (Stk x) = stack_width x"
| "op_width (Conv x) = Some 8"
| "op_width (Arith x) = arith_width x"
| "op_width (Math x k) = Some (math_width x)"
| "op_width (Cmp x) = Some 12"
| "op_width (Unary x) = Some 8"

lemma gOpInfo_widths:
  "list_all2 (\<lambda>op i. case op_width op of None \<Rightarrow> True | Some w \<Rightarrow> info_width i = Some w)
     ce_op_enum gOpInfo"
  by (simp add: ce_op_enum_def ceop_macros gOpInfo_defs ceopinfo_macros info_width_def op_info_def op_info_x_def
     is_x_def math_width_def)

lemma gOpInfo_width:
  assumes "op_width op = Some w"
  shows "info_width (gOpInfo ! ce_code op) = Some w"
proof -
  have "ce_code op < length ce_op_enum" using ce_code_lt [of op] by (simp add: length_ce_op_enum)
  from list_all2_nthD [OF gOpInfo_widths this] assms ce_op_enum_nth_code [of op]
  show ?thesis by simp
qed

lemma check_stack_next: "check_stack s = Some (CeNext s1) \<Longrightarrow> s1 = s"
  by (auto simp: check_stack_def exec_defs split: if_splits)

lemma ce_malloc_some: "ce_malloc e s n = Some (a, s1) \<Longrightarrow>
   \<exists>h m. s1 = s\<lparr>x_heap := h, x_mem_size := m\<rparr>"
  by (auto simp: ce_malloc_def bind_eq_Some_conv Let_def split: if_splits)

lemma ce_free_some: "ce_free e s a = Some (ok, s1) \<Longrightarrow> \<exists>h. s1 = s\<lparr>x_heap := h\<rparr>"
  by (auto simp: ce_free_def bind_eq_Some_conv)

lemma ce_report_inst [simp]: "x_inst (ce_report m s) = x_inst s"
  by (simp add: ce_report_def)

lemma exec_ctl_width:
  "exec_ctl e op s = Some (CeNext s1) \<Longrightarrow> ctl_width op = Some w \<Longrightarrow> x_inst s1 = x_inst s + w"
  by (cases op)
    (auto simp: exec_defs split: if_splits dest!: reader_dests ce_malloc_some ce_free_some)

lemma mem_set_checked_inst: "mem_set_checked s a v n = Some (CeNext s1) \<Longrightarrow> x_inst s1 = x_inst s"
  by (auto simp: mem_set_checked_def exec_defs split: if_splits dest!: reader_dests)

lemma size_bytes_width: "size_bytes z = Some n \<Longrightarrow> \<not> is_x z \<and> size_width z = int n"
  by (cases z) (auto simp: is_x_def)

lemma size_bytes_none: "size_bytes z = None \<longleftrightarrow> is_x z"
  by (cases z) (auto simp: is_x_def)

lemma exec_sized_inst:
  "exec_const (Some n) s = Some (CeNext s1) \<Longrightarrow> x_inst s1 = x_inst s + (4 + int n)"
  "exec_load w s = Some (CeNext s1) \<Longrightarrow> x_inst s1 = x_inst s + (if w = None then 12 else 8)"
  "exec_store w s = Some (CeNext s1) \<Longrightarrow> x_inst s1 = x_inst s + (if w = None then 12 else 8)"
  "exec_move w s = Some (CeNext s1) \<Longrightarrow> x_inst s1 = x_inst s + (if w = None then 12 else 8)"
  "exec_push w s = Some (CeNext s1) \<Longrightarrow> x_inst s1 = x_inst s + 4"
  "exec_pop w s = Some (CeNext s1) \<Longrightarrow> x_inst s1 = x_inst s + (if w = None then 8 else 4)"
  by (auto simp: exec_const_def exec_load_def exec_store_def exec_move_def exec_push_def exec_pop_def
      exec_defs split: if_splits option.splits dest!: reader_dests check_stack_next)

lemma exec_mem_width:
  "exec_mem e op s = Some (CeNext s1) \<Longrightarrow> mem_width op = Some w \<Longrightarrow> x_inst s1 = x_inst s + w"
proof (cases op)
  case (CeOp_Const z)
  assume "exec_mem e op s = Some (CeNext s1)" "mem_width op = Some w"
  with CeOp_Const show ?thesis
    by (cases "size_bytes z") (auto simp: size_bytes_none dest!: exec_sized_inst(1) size_bytes_width split: if_splits)
qed (auto simp: exec_defs size_bytes_none split: if_splits dest!: reader_dests mem_set_checked_inst exec_sized_inst(2-))

lemma exec_stack_width:
  "exec_stack e op s = Some (CeNext s1) \<Longrightarrow> stack_width op = Some w \<Longrightarrow> x_inst s1 = x_inst s + w"
  by (cases op) (auto simp: exec_defs dest!: reader_dests)

lemma exec_conv_width: "exec_conv e op s = Some (CeNext s1) \<Longrightarrow> x_inst s1 = x_inst s + 8"
  by (auto simp: exec_conv_def exec_defs split: prod.splits dest!: reader_dests)

lemma exec_bin_width: "exec_bin m n f s = Some (CeNext s1) \<Longrightarrow> x_inst s1 = x_inst s + 12"
  by (auto simp: exec_bin_def exec_defs dest!: reader_dests)

lemma exec_bin_div_width: "exec_bin_div n z f s = Some (CeNext s1) \<Longrightarrow> x_inst s1 = x_inst s + 12"
  by (auto simp: exec_bin_div_def exec_defs split: if_splits dest!: reader_dests)

lemma exec_bin_const_width:
  "exec_bin_const n f s = Some (CeNext s1) \<Longrightarrow> x_inst s1 = x_inst s + (8 + int n)"
  by (auto simp: exec_bin_const_def exec_defs dest!: reader_dests)

lemma exec_un_width: "exec_un n f s = Some (CeNext s1) \<Longrightarrow> x_inst s1 = x_inst s + 8"
  by (auto simp: exec_un_def exec_defs dest!: reader_dests)

lemmas exec_widths = exec_bin_width exec_bin_div_width exec_bin_const_width exec_un_width

lemma exec_arith_width:
  "exec_arith e op s = Some (CeNext s1) \<Longrightarrow> arith_width op = Some w \<Longrightarrow> x_inst s1 = x_inst s + w"
  by (cases op)
    (auto simp: exec_num_bin_def exec_num_div_def exec_arith_defs ce_abort_def Let_def split: ce_num.splits dest!: exec_widths)

lemma exec_math_width:
  "exec_math e op k s = Some (CeNext s1) \<Longrightarrow> x_inst s1 = x_inst s + math_width op"
  by (cases op)
    (auto simp: exec_math_def math_width_def exec_defs dest!: exec_widths reader_dests)

lemma exec_cmp_width: "exec_cmp_op e op s = Some (CeNext s1) \<Longrightarrow> x_inst s1 = x_inst s + 12"
  by (cases op)
    (auto simp: exec_num_cmp_def exec_int_ucmp_def exec_cmp_def split: ce_num.splits dest!: exec_widths)

lemma exec_unary_width: "exec_unary e op s = Some (CeNext s1) \<Longrightarrow> x_inst s1 = x_inst s + 8"
  by (cases op) (auto simp: exec_defs split: ce_num.splits dest!: exec_widths reader_dests)

lemma exec_op_width:
  "exec_op e op s = Some (CeNext s1) \<Longrightarrow> op_width op = Some w \<Longrightarrow> x_inst s1 = x_inst s + w"
  by (cases op)
    (auto dest: exec_ctl_width exec_mem_width exec_stack_width exec_conv_width exec_arith_width
      exec_math_width exec_cmp_width exec_unary_width)

text \<open>The opcode at the current instruction pointer.\<close>

definition cur_op :: "ce_state \<Rightarrow> ce_op option" where
  "cur_op s = (case slice (mCode (x_fn s)) (x_inst s) 2 of
                 None \<Rightarrow> None | Some bs \<Rightarrow> ce_op_of_code (le_sint bs))"

lemma ce_op_of_code_some: "ce_op_of_code c = Some op \<longleftrightarrow> c = int (ce_code op)"
proof
  assume a: "ce_op_of_code c = Some op"
  then have c: "0 \<le> c" "c < 287" "ce_op_enum ! nat c = op"
    by (auto simp: ce_op_of_code_def split: if_splits)
  then have "nat c < length ce_op_enum" by (simp add: length_ce_op_enum)
  then have "map ce_code ce_op_enum ! nat c = ce_code op" using c by simp
  moreover have "map ce_code ce_op_enum ! nat c = nat c" using c by (simp only: map_ce_code_enum) simp
  ultimately show "c = int (ce_code op)" using c by simp
qed simp

lemma ce_step_op:
  assumes "cur_op s = Some op"
  shows "ce_step e s = exec_op e op (s\<lparr>x_inst := x_inst s + 2\<rparr>)"
  using assms by (auto simp: cur_op_def ce_step_def get_inst_def split: option.splits)

section \<open>The heap invariant\<close>

primrec result_state :: "ce_result \<Rightarrow> ce_state" where
  "result_state (CeNext s) = s"
| "result_state (CeDone s) = s"
| "result_state (CeFail m s) = s"
| "result_state (CeOutside s) = s"

definition keeps_heap :: "ce_state \<Rightarrow> ce_state \<Rightarrow> bool" where
  "keeps_heap s s1 \<longleftrightarrow> x_heap s1 = x_heap s \<and> x_mem_size s1 = x_mem_size s"

lemma ce_report_fields [simp]:
  "x_heap (ce_report m s) = x_heap s" "x_mem_size (ce_report m s) = x_mem_size s"
  "x_calls (ce_report m s) = x_calls s" "x_fn (ce_report m s) = x_fn s"
  "x_stack (ce_report m s) = x_stack s" "x_frame (ce_report m s) = x_frame s"
  "x_ret_type (ce_report m s) = x_ret_type s" "x_mem (ce_report m s) = x_mem s"
  by (simp_all add: ce_report_def)

lemma check_stack_keeps: "check_stack s = Some r \<Longrightarrow> keeps_heap s (result_state r)"
  by (auto simp: check_stack_def exec_defs keeps_heap_def split: if_splits)

lemma exec_ctl_keeps:
  "exec_ctl e op s = Some r \<Longrightarrow> op \<noteq> CeOp_Malloc \<Longrightarrow> op \<noteq> CeOp_Free \<Longrightarrow> keeps_heap s (result_state r)"
  by (cases op)
    (auto simp: exec_defs jump_if_def keeps_heap_def split: if_splits list.splits dest!: reader_dests)

lemma mem_set_checked_keeps: "mem_set_checked s a v n = Some r \<Longrightarrow> keeps_heap s (result_state r)"
  by (auto simp: mem_set_checked_def exec_defs keeps_heap_def split: if_splits dest!: reader_dests)

lemma exec_sized_keeps:
  "exec_const w s = Some r \<Longrightarrow> keeps_heap s (result_state r)"
  "exec_load w s = Some r \<Longrightarrow> keeps_heap s (result_state r)"
  "exec_store w s = Some r \<Longrightarrow> keeps_heap s (result_state r)"
  "exec_move w s = Some r \<Longrightarrow> keeps_heap s (result_state r)"
  "exec_push w s = Some r \<Longrightarrow> keeps_heap s (result_state r)"
  "exec_pop w s = Some r \<Longrightarrow> keeps_heap s (result_state r)"
  by (auto simp: exec_const_def exec_load_def exec_store_def exec_move_def exec_push_def exec_pop_def
      exec_defs keeps_heap_def split: if_splits option.splits dest!: reader_dests check_stack_keeps)

lemma keeps_heap_simp:
  "x_heap s1 = x_heap s \<Longrightarrow> x_mem_size s1 = x_mem_size s \<Longrightarrow> keeps_heap s s1"
  by (simp add: keeps_heap_def)

lemma exec_mem_keeps: "exec_mem e op s = Some r \<Longrightarrow> keeps_heap s (result_state r)"
  by (cases op)
    (auto simp: exec_defs keeps_heap_def split: if_splits dest!: reader_dests
      mem_set_checked_keeps exec_sized_keeps)

lemma exec_stack_keeps:
  "exec_stack e op s = Some r \<Longrightarrow> op \<noteq> CeOp_Call \<Longrightarrow> keeps_heap s (result_state r)"
  by (cases op) (auto simp: exec_defs keeps_heap_def dest!: reader_dests)

lemma exec_conv_keeps: "exec_conv e op s = Some r \<Longrightarrow> keeps_heap s (result_state r)"
  by (auto simp: exec_conv_def exec_defs keeps_heap_def split: prod.splits dest!: reader_dests)

lemma exec_alu_keeps:
  "exec_bin m n f s = Some r \<Longrightarrow> keeps_heap s (result_state r)"
  "exec_bin_div n z f s = Some r \<Longrightarrow> keeps_heap s (result_state r)"
  "exec_bin_const n g s = Some r \<Longrightarrow> keeps_heap s (result_state r)"
  "exec_un n h s = Some r \<Longrightarrow> keeps_heap s (result_state r)"
  by (auto simp: exec_bin_def exec_bin_div_def exec_bin_const_def exec_un_def exec_defs keeps_heap_def
      split: if_splits dest!: reader_dests)

lemma exec_arith_keeps: "exec_arith e op s = Some r \<Longrightarrow> keeps_heap s (result_state r)"
  by (cases op)
    (auto simp: exec_num_bin_def exec_num_div_def exec_arith_defs ce_abort_def Let_def keeps_heap_def
      split: ce_num.splits dest!: exec_alu_keeps)

lemma exec_math_keeps: "exec_math e op k s = Some r \<Longrightarrow> keeps_heap s (result_state r)"
  by (cases op)
    (auto simp: exec_math_def exec_defs keeps_heap_def dest!: exec_alu_keeps reader_dests)

lemma exec_cmp_keeps: "exec_cmp_op e op s = Some r \<Longrightarrow> keeps_heap s (result_state r)"
  by (cases op)
    (auto simp: exec_num_cmp_def exec_int_ucmp_def exec_cmp_def split: ce_num.splits dest!: exec_alu_keeps)

lemma exec_unary_keeps: "exec_unary e op s = Some r \<Longrightarrow> keeps_heap s (result_state r)"
  by (cases op) (auto simp: exec_defs keeps_heap_def split: ce_num.splits dest!: exec_alu_keeps reader_dests)

text \<open>The heap is well-formed, the sizes are those of an \<open>int\<close>, and every live block is in the memory.\<close>

definition ce_inv :: "ce_env \<Rightarrow> ce_state \<Rightarrow> bool" where
  "ce_inv e s \<longleftrightarrow> ch_wf (x_heap s) \<and> 0 \<le> x_mem_size s \<and> x_mem_size s < 2 ^ 31 \<and>
     (\<forall>a n. ch_live (x_heap s) a = Some n \<longrightarrow> e_stack_size e + a < x_mem_size s)"

lemma ce_inv_keeps: "keeps_heap s s1 \<Longrightarrow> ce_inv e s1 = ce_inv e s"
  by (simp add: ce_inv_def keeps_heap_def)

lemma ce_malloc_inv:
  assumes inv: "ce_inv e s" and n: "0 \<le> n" and m: "ce_malloc e s n = Some (a, s1)"
  shows "ce_inv e s1"
proof -
  from m obtain h r where al: "ch_alloc (x_heap s) n = Some (h, r)" and a: "a = e_stack_size e + r"
    and s1: "s1 = s\<lparr>x_heap := h, x_mem_size := max (x_mem_size s) (a + n)\<rparr>" and b: "a + n < 2 ^ 31"
    by (auto simp: ce_malloc_def bind_eq_Some_conv Let_def split: if_splits)
  show ?thesis
  proof (cases "n = 0")
    case True
    with al have "h = x_heap s" by (simp add: ch_alloc_def)
    with inv s1 b show ?thesis by (auto simp: ce_inv_def)
  next
    case False
    with n have pos: "0 < n" by simp
    have "ch_wf (x_heap s)" using inv by (simp add: ce_inv_def)
    from ch.alloc_some [OF this pos al] inv s1 b a pos show ?thesis
      by (auto simp: ce_inv_def less_max_iff_disj split: if_splits)
  qed
qed

lemma ce_free_inv:
  assumes inv: "ce_inv e s" and f: "ce_free e s a = Some (ok, s1)"
  shows "ce_inv e s1"
proof -
  define r where "r = wrap_s 4 (a - e_stack_size e)"
  from f obtain h where fr: "ch_free (x_heap s) r = Some (h, ok)" and s1: "s1 = s\<lparr>x_heap := h\<rparr>"
    by (auto simp: ce_free_def bind_eq_Some_conv r_def)
  have wf: "ch_wf (x_heap s)" using inv by (simp add: ce_inv_def)
  show ?thesis
  proof (cases "ch_live (x_heap s) r")
    case None
    then have "h = x_heap s" using fr by (auto simp: ch_free_def ch_live_def split: if_splits)
    with inv s1 show ?thesis by (simp add: ce_inv_def)
  next
    case (Some sz)
    from ch.release_live [OF wf Some] fr have "ch_wf h" "ch_live h = (ch_live (x_heap s))(r := None)"
      by auto
    with inv s1 show ?thesis by (auto simp: ce_inv_def)
  qed
qed

lemma set_addr_val_keeps: "set_addr_val e s a v = Some s1 \<Longrightarrow> keeps_heap s s1"
  by (auto simp: keeps_heap_def dest!: set_addr_val_some)

lemma bad_alloc_nonneg: "\<not> bad_alloc s n \<Longrightarrow> 0 \<le> n"
  by (simp add: bad_alloc_def)

lemma ce_inv_report [simp]: "ce_inv e (ce_report m s) = ce_inv e s"
  by (simp add: ce_inv_def)

lemma ce_inv_inst [simp]: "ce_inv e (s\<lparr>x_inst := i\<rparr>) = ce_inv e s"
  by (simp add: ce_inv_def)

lemma ce_alloc_inv_inst:
  "ce_malloc e (s\<lparr>x_inst := i\<rparr>) n = Some (a, s1) \<Longrightarrow> ce_inv e s \<Longrightarrow> 0 \<le> n \<Longrightarrow> ce_inv e s1"
  "ce_free e (s\<lparr>x_inst := i\<rparr>) a = Some (ok, s1) \<Longrightarrow> ce_inv e s \<Longrightarrow> ce_inv e s1"
  by (rule ce_malloc_inv [of e "s\<lparr>x_inst := i\<rparr>"] ce_free_inv [of e "s\<lparr>x_inst := i\<rparr>"]; simp)+

lemma ce_check_function_inv:
  assumes inv: "ce_inv e s" and c: "ce_check_function e fo s = Some r"
  shows "case r of Inl res \<Rightarrow> ce_inv e (result_state res) | Inr p \<Rightarrow> ce_inv e (snd p)"
proof (cases fo)
  case None
  with c inv show ?thesis by (auto simp: ce_check_function_def ce_check_prepared_def ce_extern_failure_def ce_abort_def)
next
  case (Some f)
  show ?thesis
  proof (cases "mFunctionKind f")
    case CeFunctionKind_Malloc
    with c Some inv show ?thesis
      by (auto simp: ce_check_function_def ce_check_prepared_def ce_extern_failure_def Let_def bind_eq_Some_conv ce_abort_def split: if_splits
          dest!: set_addr_val_keeps ce_inv_keeps bad_alloc_nonneg dest: ce_malloc_inv)
  next
    case CeFunctionKind_Free
    with c Some inv show ?thesis
      by (auto simp: ce_check_function_def ce_check_prepared_def ce_extern_failure_def Let_def bind_eq_Some_conv split: if_splits dest: ce_free_inv)
  qed (use c Some inv in \<open>auto simp: ce_check_function_def ce_check_prepared_def ce_extern_failure_def Let_def bind_eq_Some_conv ce_abort_def
        split: if_splits\<close>)
qed

lemma call_target_some: "call_target e s = Some (fo, s1) \<Longrightarrow> s1 = s\<lparr>x_inst := x_inst s + 4\<rparr>"
  by (auto simp: call_target_def bind_eq_Some_conv Let_def split: if_splits option.splits dest!: reader_dests)

lemma ce_call_keeps: "ce_call f s = Some r \<Longrightarrow> keeps_heap s (result_state r)"
  by (auto simp: ce_call_def keeps_heap_def split: if_splits dest!: check_stack_keeps)

lemma exec_call_inv:
  assumes inv: "ce_inv e s" and c: "exec_call e s = Some r"
  shows "ce_inv e (result_state r)"
proof -
  from c obtain fo s1 q where t: "call_target e s = Some (fo, s1)"
    and q: "ce_check_function e fo s1 = Some q"
    and r: "(case q of Inl res \<Rightarrow> Some res
             | Inr (handled, s2) \<Rightarrow> (case fo of None \<Rightarrow> None
                 | Some f \<Rightarrow> (let s3 = (if mIsVarReturn f
                         then ce_report ''Illegal call to method with 'var' return.'' s2 else s2)
               in if handled then ce_ok s3 else ce_call f s3))) = Some r"
    by (auto simp: exec_call_def bind_eq_Some_conv)
  have inv1: "ce_inv e s1" using inv call_target_some [OF t] by simp
  note i = ce_check_function_inv [OF inv1 q]
  show ?thesis
  proof (cases q)
    case (Inl res)
    with i r show ?thesis by simp
  next
    case (Inr p)
    then obtain b s2 where p: "q = Inr (b, s2)" by (cases p) auto
    with i r show ?thesis
      by (auto simp: Let_def ce_ok_def split: option.splits if_splits dest!: ce_call_keeps ce_inv_keeps)
  qed
qed

lemma exec_ctl_inv:
  assumes inv: "ce_inv e s" and c: "exec_ctl e op s = Some r"
  shows "ce_inv e (result_state r)"
proof (cases "op = CeOp_Malloc \<or> op = CeOp_Free")
  case False
  with exec_ctl_keeps [OF c] inv show ?thesis by (auto dest: ce_inv_keeps)
next
  case True
  then show ?thesis
  proof
    assume "op = CeOp_Malloc"
    with c inv show ?thesis
      by (auto simp: exec_defs split: if_splits
          dest!: get_i32_some get_frame_s_some set_addr_val_keeps ce_inv_keeps bad_alloc_nonneg
            ce_alloc_inv_inst(1))
  next
    assume op: "op = CeOp_Free"
    with c obtain a s1 ok s2 where g: "get_frame_s 4 s = Some (a, s1)" "ce_free e s1 a = Some (ok, s2)"
      and r: "r = CeNext (if ok then s2 else ce_report ''Invalid heap address'' s2)"
      by (auto simp: exec_defs)
    have "ce_inv e s1" using get_frame_s_some [OF g(1)] inv by simp
    from ce_free_inv [OF this g(2)] r show ?thesis by simp
  qed
qed

lemma exec_op_inv:
  assumes inv: "ce_inv e s" and c: "exec_op e op s = Some r"
  shows "ce_inv e (result_state r)"
proof (cases op)
  case (Ctl x)
  with c inv show ?thesis by (auto intro: exec_ctl_inv)
next
  case (Stk x)
  with c inv exec_stack_keeps [of e x s r] exec_call_inv [OF inv, of r] show ?thesis
    by (cases "x = CeOp_Call") (auto dest: ce_inv_keeps)
qed (use c inv in \<open>auto dest!: exec_mem_keeps exec_conv_keeps exec_arith_keeps exec_math_keeps
      exec_cmp_keeps exec_unary_keeps dest: ce_inv_keeps\<close>)

lemma ce_step_keeps_inv:
  assumes inv: "ce_inv e s" and st: "ce_step e s = Some r"
  shows "ce_inv e (result_state r)"
proof -
  from st obtain bs s1 where f: "get_inst 2 s = Some (bs, s1)"
    and r: "(case ce_op_of_code (le_sint bs) of None \<Rightarrow> ce_abort ''Unhandled op'' s1
             | Some op \<Rightarrow> exec_op e op s1) = Some r"
    by (auto simp: ce_step_def bind_eq_Some_conv)
  from get_inst_some [OF f] inv have "ce_inv e s1" by simp
  with r show ?thesis by (auto simp: ce_abort_def split: option.splits intro: exec_op_inv)
qed

text \<open>The states an evaluation can reach, as a step relation.\<close>

inductive ce_reach :: "ce_env \<Rightarrow> ce_state \<Rightarrow> ce_state \<Rightarrow> bool" for e s0 where
  start: "ce_start e s0 = Some (CeNext s) \<Longrightarrow> ce_reach e s0 s"
| step: "ce_reach e s0 s \<Longrightarrow> ce_step e s = Some (CeNext s1) \<Longrightarrow> ce_reach e s0 s1"

inductive_cases ce_reachE: "ce_reach e s0 s"

lemma ce_start_inv:
  assumes inv: "ce_inv e s" and c: "ce_start e s = Some r"
  shows "ce_inv e (result_state r)"
proof -
  from c obtain q where q: "ce_check_function e (Some (x_fn s)) s = Some q"
    and r: "(case q of Inl res \<Rightarrow> Some res
             | Inr (handled, s1) \<Rightarrow> (if handled then Some (CeDone s1) else check_stack s1)) = Some r"
    by (auto simp: ce_start_def bind_eq_Some_conv)
  from ce_check_function_inv [OF inv q] r show ?thesis
    by (auto split: sum.splits if_splits dest!: check_stack_keeps ce_inv_keeps)
qed

end
