(* ===== verification/Ce_Machine_Spec.thy ===== *)
theory Ce_Machine_Spec
  imports Ce_Machine_Props
begin

text \<open>
  The behaviour of the virtual machine on code placed in a function: what each operand reader
  returns there, the complete specification of loads and stores, calls and returns, and the
  agreement of the arithmetic opcodes with machine words.
\<close>

unbundle bit_operations_syntax

lemma wrap_s_minus: "wrap_s n (v - 256 ^ n) = wrap_s n v"
proof -
  have "v - 256 ^ n + 256 ^ n div 2 = (v + 256 ^ n div 2) - (256 ^ n :: int)" by simp
  then show ?thesis by (simp only: wrap_s_def minus_mod_self2)
qed

section \<open>Operands placed in the code\<close>

text \<open>\<open>adv s k\<close> is \<open>s\<close> with the instruction pointer advanced by \<open>k\<close>.\<close>

definition adv :: "ce_state \<Rightarrow> int \<Rightarrow> ce_state" where
  "adv s k = s\<lparr>x_inst := x_inst s + k\<rparr>"

lemma adv_simps [simp]:
  "x_mem (adv s k) = x_mem s" "x_mem_size (adv s k) = x_mem_size s" "x_inst (adv s k) = x_inst s + k"
  "x_stack (adv s k) = x_stack s" "x_frame (adv s k) = x_frame s" "x_fn (adv s k) = x_fn s"
  "x_calls (adv s k) = x_calls s" "x_heap (adv s k) = x_heap s" "x_ret_type (adv s k) = x_ret_type s"
  "x_errs (adv s k) = x_errs s" "adv (adv s k) m = adv s (k + m)" "adv s 0 = s"
  by (simp_all add: adv_def add.assoc)

abbreviation code_at :: "ce_state \<Rightarrow> u8 list \<Rightarrow> bool" where
  "code_at s bs \<equiv> placed (mCode (x_fn s)) (x_inst s) bs"

lemma code_at_append: "code_at s (as @ bs) \<longleftrightarrow> code_at s as \<and> code_at (adv s (int (length as))) bs"
  by (simp add: placed_append)

lemma get_inst_at: "code_at s bs \<Longrightarrow> length bs = n \<Longrightarrow> get_inst n s = Some (bs, adv s (int n))"
  by (simp add: get_inst_def placed_def adv_def)

lemma get_i32_at: "code_at s (le_bytes 4 v) \<Longrightarrow> in_s 4 v \<Longrightarrow> get_i32 s = Some (v, adv s 4)"
  by (simp add: get_i32_def get_inst_at wrap_s_id)

lemma frame_ref_at: "code_at s (le_bytes 4 v) \<Longrightarrow> in_s 4 v \<Longrightarrow> frame_ref s = Some (x_frame s + v, adv s 4)"
  by (simp add: frame_ref_def get_i32_at)

lemma ce_bytes_adv [simp]: "ce_bytes (adv s k) a n = ce_bytes s a n"
  by (simp add: ce_bytes_def)

lemma in_mem_adv [simp]: "in_mem (adv s k) a n = in_mem s a n"
  by (simp add: in_mem_def)

lemma get_frame_at:
  "code_at s (le_bytes 4 v) \<Longrightarrow> in_s 4 v \<Longrightarrow> in_mem s (x_frame s + v) n \<Longrightarrow>
   get_frame n s = Some (ce_bytes s (x_frame s + v) (nat n), adv s 4)"
  by (simp add: get_frame_def frame_ref_at mem_read_def)

lemma length_ce_bytes [simp]: "length (ce_bytes s a n) = n"
  by (simp add: ce_bytes_def)

lemma get_frame_s_at:
  "code_at s (le_bytes 4 v) \<Longrightarrow> in_s 4 v \<Longrightarrow> in_mem s (x_frame s + v) n \<Longrightarrow>
   get_frame_s n s = Some (le_sint (ce_bytes s (x_frame s + v) (nat n)), adv s 4)"
  by (simp add: get_frame_s_def get_frame_at)

lemmas operand_at = get_inst_at get_i32_at frame_ref_at get_frame_at get_frame_s_at

text \<open>Reading back what was written, and the frame rule of a write.\<close>

lemma ce_bytes_put_same [mem_simps]: "length bs = n \<Longrightarrow> ce_bytes (ce_put s a bs) a n = bs"
  by (auto simp: ce_bytes_def ce_put_def intro: nth_equalityI)

lemma ce_bytes_put_other [mem_simps]:
  "a + int n \<le> b \<or> b + int (length bs) \<le> a \<Longrightarrow> ce_bytes (ce_put s b bs) a n = ce_bytes s a n"
  by (auto simp: ce_bytes_def ce_put_def)

lemma in_mem_put [simp]: "in_mem (ce_put s b bs) a n = in_mem s a n"
  by (simp add: in_mem_def)

lemma ce_put_adv: "ce_put (adv s k) a bs = adv (ce_put s a bs) k"
  by (cases s) (simp add: ce_put_def adv_def cong: if_cong)

lemma cur_op_at: "code_at s (le_bytes 2 (int (ce_code op)) @ rest) \<Longrightarrow> cur_op s = Some op"
proof -
  assume "code_at s (le_bytes 2 (int (ce_code op)) @ rest)"
  then have "placed (mCode (x_fn s)) (x_inst s) (le_bytes 2 (int (ce_code op)))"
    by (simp only: placed_append)
  then have "slice (mCode (x_fn s)) (x_inst s) 2 = Some (le_bytes 2 (int (ce_code op)))"
    by (simp add: placed_def)
  moreover have "wrap_s 2 (int (ce_code op)) = int (ce_code op)"
    using ce_code_lt [of op] by (intro wrap_s_id) (auto simp: in_s_def)
  ultimately show ?thesis by (simp add: cur_op_def)
qed

lemma step_at:
  assumes "code_at s (le_bytes 2 (int (ce_code op)) @ rest)"
  shows "ce_step e s = exec_op e op (adv s 2)" and "code_at (adv s 2) rest"
  using assms ce_step_op [OF cur_op_at [OF assms]] by (simp_all add: placed_append adv_def)

lemma exec_bin_at:
  assumes c: "code_at s (le_bytes 4 r @ le_bytes 4 p @ le_bytes 4 q)" "in_s 4 r" "in_s 4 p" "in_s 4 q"
    and m: "in_mem s (x_frame s + p) (int m)" "in_mem s (x_frame s + q) (int n)"
    and f: "f (ce_bytes s (x_frame s + p) m) (ce_bytes s (x_frame s + q) n) = Some v"
    and w: "in_mem s (x_frame s + r) (int (length v))"
  shows "exec_bin m n f s = Some (CeNext (adv (ce_put s (x_frame s + r) v) 12))"
proof -
  from c(1) have cs: "code_at s (le_bytes 4 r)" "code_at (adv s 4) (le_bytes 4 p)"
    "code_at (adv s 8) (le_bytes 4 q)"
    unfolding code_at_append by simp_all
  show ?thesis
    using frame_ref_at [OF cs(1) c(2)] get_frame_at [OF cs(2) c(3), of "int m"]
      get_frame_at [OF cs(3) c(4), of "int n"] m f w
    by (simp add: exec_bin_def mem_write_def ce_ok_def ce_put_adv)
qed

lemma exec_bin_div_at:
  assumes c: "code_at s (le_bytes 4 r @ le_bytes 4 p @ le_bytes 4 q)" "in_s 4 r" "in_s 4 p" "in_s 4 q"
    and m: "in_mem s (x_frame s + p) (int n)" "in_mem s (x_frame s + q) (int n)"
  shows "\<not> z (ce_bytes s (x_frame s + q) n) \<Longrightarrow> exec_bin_div n z f s = exec_bin n n f s"
    and "z (ce_bytes s (x_frame s + q) n) \<Longrightarrow> \<exists>s'. exec_bin_div n z f s = Some (CeFail ''Division by zero'' s')"
proof -
  from c(1) have cs: "code_at s (le_bytes 4 r)" "code_at (adv s 4) (le_bytes 4 p)" "code_at (adv s 8) (le_bytes 4 q)"
    unfolding code_at_append by simp_all
  note ops = frame_ref_at [OF cs(1) c(2)] get_frame_at [OF cs(2) c(3), of "int n"] get_frame_at [OF cs(3) c(4), of "int n"]
  show "\<not> z (ce_bytes s (x_frame s + q) n) \<Longrightarrow> exec_bin_div n z f s = exec_bin n n f s"
    using ops m by (simp add: exec_bin_div_def exec_bin_def)
  show "z (ce_bytes s (x_frame s + q) n) \<Longrightarrow> \<exists>s'. exec_bin_div n z f s = Some (CeFail ''Division by zero'' s')"
    using ops m by (simp add: exec_bin_div_def ce_abort_def)
qed

lemma exec_un_at:
  assumes c: "code_at s (le_bytes 4 r @ le_bytes 4 p)" "in_s 4 r" "in_s 4 p"
    and m: "in_mem s (x_frame s + p) (int n)"
    and w: "in_mem s (x_frame s + r) (int (length (f (ce_bytes s (x_frame s + p) n))))"
  shows "exec_un n f s = Some (CeNext (adv (ce_put s (x_frame s + r) (f (ce_bytes s (x_frame s + p) n))) 8))"
proof -
  from c(1) have cs: "code_at s (le_bytes 4 r)" "code_at (adv s 4) (le_bytes 4 p)"
    unfolding code_at_append by simp_all
  show ?thesis
    using frame_ref_at [OF cs(1) c(2)] get_frame_at [OF cs(2) c(3), of "int n"] m w
    by (simp add: exec_un_def mem_write_def ce_ok_def ce_put_adv)
qed

text \<open>States for the examples: a function with the given code, 128K of zeroed memory.\<close>

definition demo_fn :: "u8 list \<Rightarrow> ce_function" where
  "demo_fn code = \<lparr>mFunctionKind = CeFunctionKind_Normal, mFailed = False, mIsVarReturn = False,
                   mCode = code, mFrameSize = 32\<rparr>"

definition demo_state :: "u8 list \<Rightarrow> ce_state" where
  "demo_state code = \<lparr>x_mem = (\<lambda>_. 0), x_mem_size = 0x20000, x_inst = 0, x_stack = 0x80, x_frame = 0x100,
     x_fn = demo_fn code, x_calls = [], x_heap = ch_init, x_ret_type = 0, x_errs = []\<rparr>"

lemma demo_simps [simp]:
  "x_mem_size (demo_state code) = 0x20000" "x_inst (demo_state code) = 0" "x_stack (demo_state code) = 0x80"
  "x_frame (demo_state code) = 0x100" "mCode (x_fn (demo_state code)) = code" "x_calls (demo_state code) = []"
  "x_heap (demo_state code) = ch_init"
  by (simp_all add: demo_state_def demo_fn_def)

lemma placed_self [simp]: "placed bs 0 bs"
  by (simp add: placed_def slice_def)

lemma demo_bytes [simp]: "ce_bytes (demo_state code) a n = replicate n 0"
  by (simp add: ce_bytes_def demo_state_def map_replicate_const)

lemma demo_in_mem [simp]: "in_mem (demo_state code) a n \<longleftrightarrow> 0 \<le> a \<and> 0 \<le> n \<and> a + n \<le> 0x20000"
  by (simp add: in_mem_def)

definition demo_code :: "ce_op \<Rightarrow> int list \<Rightarrow> u8 list" where
  "demo_code op args = le_bytes 2 (int (ce_code op)) @ concat (map (le_bytes 4) args)"

text \<open>An environment for the examples, with one function that returns at once.\<close>

definition demo_fpu :: ce_fpu where
  "demo_fpu = \<lparr>fp_bin = (\<lambda>_ _ _ _. 0), fp_fun = (\<lambda>_ _ _. 0), fp_abs = (\<lambda>_ _. 0), fp_neg = (\<lambda>_ _. 0),
     fp_fma = (\<lambda>_ _ _ _. 0), fp_lt = (\<lambda>_ _ _. False), fp_le = (\<lambda>_ _ _. True), fp_eq = (\<lambda>_ _ _. True),
     fp_of_int = (\<lambda>_ _. 0), fp_to_int = (\<lambda>_ _. Some 0), fp_cvt = (\<lambda>_ _ _. 0)\<rparr>"

definition demo_env :: ce_env where
  "demo_env = \<lparr>e_ptr_size = 4, e_stack_size = 0x10000,
     e_functions = [0 \<mapsto> demo_fn (demo_code (Ctl CeOp_Ret) [])], e_fpu = demo_fpu\<rparr>"

lemma demo_add:
  "ce_step e (demo_state (demo_code (Arith (CeOp_Add (KI I32))) [0, 4, 8])) =
     Some (CeNext (adv (ce_put (demo_state (demo_code (Arith (CeOp_Add (KI I32))) [0, 4, 8])) 0x100 (replicate 4 0)) 14)) \<and>
   cur_op (demo_state (demo_code (Arith (CeOp_Add (KI I32))) [0, 4, 8])) = Some (Arith (CeOp_Add (KI I32)))"
proof -
  let ?op = "Arith (CeOp_Add (KI I32))" and ?code = "demo_code (Arith (CeOp_Add (KI I32))) [0, 4, 8]"
  let ?s = "demo_state ?code"
  have c: "code_at ?s (le_bytes 2 (int (ce_code ?op)) @ le_bytes 4 0 @ le_bytes 4 4 @ le_bytes 4 8)"
    using placed_self [of ?code] by (simp add: demo_code_def del: le_bytes.simps)
  have f: "s_op 4 (+) (replicate 4 0) (replicate 4 0) = Some (replicate 4 0)" by code_simp
  have "exec_bin 4 4 (s_op 4 (+)) (adv ?s 2) =
      Some (CeNext (adv (ce_put (adv ?s 2) (x_frame (adv ?s 2) + 0) (replicate 4 0)) 12))"
    by (rule exec_bin_at [OF step_at(2) [OF c]]) (use f in \<open>simp_all add: in_s_def\<close>)
  then show ?thesis using step_at(1) [OF c, of e] cur_op_at [OF c]
    by (simp add: exec_num_bin_def ce_put_adv)
qed

text \<open>
  C7 (GetInstSize against Execute). Wherever the interpreter falls through to the next
  instruction, the debugger's \<open>GetInstSize\<close> computes exactly the number of bytes that the
  interpreter consumed. This covers every opcode with a fixed operand layout.
\<close>

theorem get_inst_size_agrees:
  assumes "cur_op s = Some op" "op \<noteq> Ctl CeOp_DbgBreak" "op_width op \<noteq> None"
    and "ce_step e s = Some (CeNext s1)"
  shows "ce_get_inst_size bps (mCode (x_fn s)) (x_inst s) = Some (x_inst s1 - x_inst s)"
proof -
  from assms(3) obtain w where w: "op_width op = Some w" by auto
  from assms(1) obtain bs where bs: "slice (mCode (x_fn s)) (x_inst s) 2 = Some bs"
    "le_sint bs = int (ce_code op)" by (auto simp: cur_op_def ce_op_of_code_some split: option.splits)
  have "x_inst s1 = x_inst s + 2 + w"
    using exec_op_width [OF _ w] assms(4) ce_step_op [OF assms(1)] by fastforce
  with get_inst_size_width [OF bs assms(2) gOpInfo_width [OF w]] show ?thesis by simp
qed

theorem get_inst_size_agrees_witness:
  "ce_get_inst_size Map.empty (demo_code (Arith (CeOp_Add (KI I32))) [0, 4, 8]) 0 = Some 14"
proof -
  let ?code = "demo_code (Arith (CeOp_Add (KI I32))) [0, 4, 8]"
  from get_inst_size_agrees [OF conjunct2 [OF demo_add] _ _ conjunct1 [OF demo_add [of demo_env]], of Map.empty]
  show ?thesis by simp
qed

text \<open>
  C3 (Reachable states). In every state an evaluation reaches, the allocator is well-formed, the
  memory size is a non-negative \<open>int\<close>, and every live heap block starts inside the memory.
\<close>

theorem ce_reach_inv:
  assumes "ce_reach e s0 s" "ce_inv e s0"
  shows "ce_inv e s"
  using assms
proof (induction rule: ce_reach.induct)
  case (start s)
  then show ?case using ce_start_inv by fastforce
next
  case (step s s1)
  then show ?case using ce_step_keeps_inv by fastforce
qed

theorem ce_reach_inv_witness: "ce_inv demo_env (demo_state (demo_code (Ctl CeOp_Nop) []))"
proof -
  let ?s = "demo_state (demo_code (Ctl CeOp_Nop) [])"
  have "ce_start demo_env ?s = Some (CeNext ?s)"
    by (simp add: ce_start_def ce_check_function_def ce_check_prepared_def ce_extern_failure_def demo_state_def demo_fn_def check_stack_def ce_ok_def)
  then have r: "ce_reach demo_env ?s ?s" by (rule ce_reach.start)
  have "ce_inv demo_env ?s" by (simp add: ce_inv_def ch_wf_init ch_live_init)
  with ce_reach_inv [OF r] show ?thesis by simp
qed

text \<open>
  \<open>GetInstSize\<close> on \<open>Const_X\<close>: the table lists the operands of \<open>Const_X\<close> as frame offset and
  sized data, while the code and \<open>Execute\<close> have size, frame offset and data: the interpreter
  consumes \<open>10 + n\<close> bytes, \<open>GetInstSize\<close> takes the frame offset \<open>k\<close> for the size.
\<close>

theorem const_x_inst_size:
  assumes c: "code_at s (le_bytes 2 (int (ce_code (Mem (CeOp_Const CeSizeClass_X)))) @ le_bytes 4 n @ le_bytes 4 k)"
    and n: "in_s 4 n" and k: "in_s 4 k" and st: "ce_step e s = Some (CeNext s1)"
  shows "x_inst s1 - x_inst s = 10 + n \<and>
         ce_get_inst_size bps (mCode (x_fn s)) (x_inst s) = Some (10 + k)"
proof
  let ?op = "Mem (CeOp_Const CeSizeClass_X)"
  note c2 = step_at [OF c]
  from c2(2) have p: "code_at (adv s 2) (le_bytes 4 n)" "code_at (adv s 6) (le_bytes 4 k)"
    unfolding code_at_append by simp_all
  from st c2(1) have "exec_const None (adv s 2) = Some (CeNext s1)" by simp
  then show "x_inst s1 - x_inst s = 10 + n"
    by (auto simp: exec_const_def get_i32_at [OF p(1) n] exec_defs split: if_splits
        dest!: frame_ref_some get_inst_some mem_write_some)
  have "slice (mCode (x_fn s)) (x_inst s) 2 = Some (le_bytes 2 (int (ce_code ?op)))"
    using c unfolding placed_append by (simp add: placed_def)
  moreover have "le_sint (le_bytes 2 (int (ce_code ?op))) = int (ce_code ?op)"
    using ce_code_lt [of ?op] by (simp add: in_s_def wrap_s_id)
  moreover have "gOpInfo ! ce_code ?op = op_info ''Const_X'' CEOI_FrameRef CEOI_IMM_VAR CEOI_None CEOI_None"
    by (simp add: gOpInfo_defs ceopinfo_macros)
  moreover have "slice (mCode (x_fn s)) (x_inst s + 6) 4 = Some (le_bytes 4 k)"
    using p(2) by (simp add: placed_def)
  moreover have "ce_op_of_code (int (ce_code ?op)) = Some ?op" by (rule ce_op_of_code_code)
  ultimately show "ce_get_inst_size bps (mCode (x_fn s)) (x_inst s) = Some (10 + k)"
    using k by (simp add: ce_get_inst_size_def op_info_def wrap_s_id Let_def add.commute)
qed

theorem const_x_inst_size_witness:
  "\<exists>s s1. ce_step demo_env s = Some (CeNext s1) \<and> x_inst s1 - x_inst s = 12 \<and>
     ce_get_inst_size Map.empty (mCode (x_fn s)) (x_inst s) = Some 26"
proof -
  let ?op = "Mem (CeOp_Const CeSizeClass_X)"
  let ?pre = "le_bytes 2 (int (ce_code ?op)) @ le_bytes 4 2 @ le_bytes 4 16"
  let ?s = "demo_state (?pre @ [7, 9])"
  have c: "code_at ?s (?pre @ [7, 9])" by simp
  then have p: "code_at ?s ?pre" unfolding code_at_append by simp
  note st = step_at [OF c [simplified append_assoc]]
  have "code_at (adv ?s 2) (le_bytes 4 2 @ le_bytes 4 16 @ [7, 9])" using st(2) by simp
  then have "code_at (adv ?s 2) (le_bytes 4 2)" "code_at (adv ?s 6) (le_bytes 4 16)" "code_at (adv ?s 10) [7, 9]"
    unfolding code_at_append by simp_all
  then have "exec_const None (adv ?s 2) \<noteq> None" "exec_const None (adv ?s 2) =
      Some (CeNext (adv (ce_put ?s 272 [7, 9]) 12))"
    by (simp_all add: exec_const_def operand_at in_s_def mem_write_def ce_put_adv ce_ok_def)
  with st(1) [of demo_env] have "ce_step demo_env ?s = Some (CeNext (adv (ce_put ?s 272 [7, 9]) 12))" by simp
  with const_x_inst_size [OF p _ _ this, of Map.empty] show ?thesis
    by (intro exI [of _ ?s] exI [of _ "adv (ce_put ?s 272 [7, 9]) 12"]) (simp add: in_s_def)
qed

text \<open>
  C8 (Checked fill). The checks of \<open>CeOp_MemSet\<close> rule out an access outside the memory for every
  address and size but those whose sum passes \<open>2^31\<close>: there the 32-bit sum in \<open>CE_CHECKADDR\<close>
  wraps to a negative number and the check lets the access through.
\<close>

theorem memset_undefined_iff:
  assumes "in_s 4 a" "in_s 4 n" "0 \<le> x_mem_size s" "x_mem_size s < 2 ^ 31"
  shows "mem_set_checked s a v n = None \<longleftrightarrow> 0x10000 \<le> a \<and> 0 < n \<and> 2 ^ 31 \<le> a + n"
proof (cases "a + n < 2 ^ 31")
  case True
  have "0 \<le> n \<longrightarrow> 0x10000 \<le> a \<longrightarrow> wrap_s 4 (a + n) = a + n"
    using assms True by (intro impI wrap_s_id) (auto simp: in_s_def)
  with True assms show ?thesis
    by (auto simp: mem_set_checked_def bad_addr32_def mem_fill_def in_mem_def ce_abort_def ce_ok_def)
next
  case False
  have "wrap_s 4 (a + n) = wrap_s 4 (a + n - 256 ^ 4)" by (rule wrap_s_minus [symmetric])
  also have "\<dots> = a + n - 256 ^ 4" using assms False by (intro wrap_s_id) (auto simp: in_s_def)
  finally have "wrap_s 4 (a + n) = a + n - 2 ^ 32" by simp
  with False assms show ?thesis
    by (auto simp: mem_set_checked_def bad_addr32_def mem_fill_def in_mem_def ce_abort_def ce_ok_def in_s_def)
qed

theorem memset_undefined_iff_witness:
  "mem_set_checked (demo_state []) 0x10000 7 16 \<noteq> None \<and>
   mem_set_checked (demo_state []) 0x10000 7 0x7FFFFFFF = None"
  using memset_undefined_iff [of "0x10000" 16 "demo_state []" 7]
    memset_undefined_iff [of "0x10000" "0x7FFFFFFF" "demo_state []" 7]
  by (simp add: in_s_def)

text \<open>
  C4 (Load and store). With its operands in the frame, a load or store of any fixed width either
  performs exactly the access or reports an access violation, and which one depends only on
  whether the address is at least 64K and the access ends inside the memory: no address makes it
  undefined.
\<close>

theorem load_store_checked:
  assumes c: "code_at s (le_bytes 4 p @ le_bytes 4 q)" "in_s 4 p" "in_s 4 q"
    and m: "in_mem s (x_frame s + p) (int n)" "in_mem s (x_frame s + q) 4"
  defines "a \<equiv> le_sint (ce_bytes s (x_frame s + q) 4)" and "s1 \<equiv> adv s 8"
  shows "exec_load (Some n) s =
           (if 0x10000 \<le> a \<and> a + int n \<le> x_mem_size s
            then Some (CeNext (ce_put s1 (x_frame s + p) (ce_bytes s a n)))
            else Some (CeFail ''Access violation'' (ce_report ''Access violation'' s1))) \<and>
         exec_store (Some n) s =
           (if 0x10000 \<le> a \<and> a + int n \<le> x_mem_size s
            then Some (CeNext (ce_put s1 a (ce_bytes s (x_frame s + p) n)))
            else Some (CeFail ''Access violation'' (ce_report ''Access violation'' s1)))"
proof -
  from c(1) have c1: "code_at s (le_bytes 4 p)" and c2: "code_at (adv s 4) (le_bytes 4 q)"
    unfolding code_at_append by simp_all
  have f: "frame_ref s = Some (x_frame s + p, adv s 4)"
    "get_frame (int n) s = Some (ce_bytes s (x_frame s + p) n, adv s 4)"
    "get_frame_s 4 (adv s 4) = Some (a, s1)"
    using frame_ref_at [OF c1 c(2)] get_frame_at [OF c1 c(2) m(1)] get_frame_s_at [OF c2 c(3)] m(2)
    by (simp_all add: a_def s1_def)
  have ok: "0x10000 \<le> a \<and> a + int n \<le> x_mem_size s \<Longrightarrow> in_mem s1 a (int n)"
    by (simp add: in_mem_def s1_def)
  have m1: "in_mem s1 (x_frame s + p) (int n)" "ce_bytes s1 a n = ce_bytes s a n" "x_mem_size s1 = x_mem_size s"
    using m(1) by (simp_all add: s1_def)
  show ?thesis
    using ok m1 by (auto simp: exec_load_def exec_store_def f bad_addr_def mem_copy_def mem_read_def
        mem_write_def ce_abort_def ce_ok_def)
qed

theorem load_store_checked_witness:
  "exec_load (Some 4) (demo_state (le_bytes 4 0 @ le_bytes 4 8)) =
     Some (CeFail ''Access violation'' (ce_report ''Access violation'' (adv (demo_state (le_bytes 4 0 @ le_bytes 4 8)) 8)))"
proof -
  let ?s = "demo_state (le_bytes 4 0 @ le_bytes 4 8)"
  have "code_at ?s (le_bytes 4 0 @ le_bytes 4 8)" by simp
  from load_store_checked [OF this, of 4] have
    "exec_load (Some 4) ?s =
       (if 0x10000 \<le> le_sint (ce_bytes ?s 264 4) \<and> le_sint (ce_bytes ?s 264 4) + 4 \<le> 0x20000
        then Some (CeNext (ce_put (adv ?s 8) 256 (ce_bytes ?s (le_sint (ce_bytes ?s 264 4)) 4)))
        else Some (CeFail ''Access violation'' (ce_report ''Access violation'' (adv ?s 8))))"
    by (simp add: in_s_def)
  moreover have "le_sint (replicate 4 0) = 0" by code_simp
  ultimately show ?thesis by simp
qed

lemma ce_bytes_stack [simp]: "ce_bytes (s\<lparr>x_stack := i\<rparr>) a n = ce_bytes s a n"
  by (simp add: ce_bytes_def)

text \<open>
  \<open>CEOP_PUSH\<close> checks the stack after it has stored the value, so
  the check never reports an overflow: a push that crosses the start of the memory has already
  written below it.
\<close>

theorem push_never_reports_overflow:
  "exec_push (Some n) s \<noteq> Some (CeFail msg s1) \<and>
   (x_stack s < int n \<longrightarrow> exec_push (Some n) s = None)"
proof (intro conjI impI)
  let ?s = "s\<lparr>x_stack := x_stack s - int n\<rparr>"
  have st: "x_stack s1 = x_stack s - int n" if "get_frame (int n) ?s = Some (bs, s1)" for bs s1
    using get_frame_some [OF that] by simp
  have len: "length bs = n" if "get_frame (int n) ?s = Some (bs, s1)" for bs s1
    using that by (auto simp: get_frame_def mem_read_def bind_eq_Some_conv split: if_splits)
  show "exec_push (Some n) s \<noteq> Some (CeFail msg s1)"
    by (auto simp: exec_push_def bind_eq_Some_conv mem_write_def in_mem_def check_stack_def ce_ok_def
        ce_abort_def split: if_splits)
  assume "x_stack s < int n"
  then show "exec_push (Some n) s = None"
    by (cases "get_frame (int n) ?s") (auto simp: exec_push_def mem_write_def in_mem_def dest!: st)
qed

theorem push_never_reports_overflow_witness:
  "exec_push (Some 8) ((demo_state [])\<lparr>x_stack := 4\<rparr>) = None"
  using push_never_reports_overflow [of 8 "(demo_state [])\<lparr>x_stack := 4\<rparr>"] by simp

lemma ce_check_function_inr:
  assumes "ce_check_function e fo s = Some (Inr (b, s1))"
  shows "x_calls s1 = x_calls s \<and> (\<not> b \<longrightarrow> s1 = s)"
proof (cases fo)
  case None
  with assms show ?thesis by (auto simp: ce_check_function_def ce_check_prepared_def ce_extern_failure_def ce_abort_def)
next
  case (Some f)
  with assms show ?thesis
    by (cases "mFunctionKind f")
      (auto simp: ce_check_function_def ce_check_prepared_def ce_extern_failure_def Let_def bind_eq_Some_conv ce_abort_def split: if_splits
        dest!: set_addr_val_some ce_malloc_some ce_free_some)
qed

lemma ce_check_function_inl: "ce_check_function e fo s \<noteq> Some (Inl (CeNext s1))"
proof (cases fo)
  case (Some f)
  then show ?thesis
    by (cases "mFunctionKind f")
      (auto simp: ce_check_function_def ce_check_prepared_def ce_extern_failure_def Let_def bind_eq_Some_conv ce_abort_def split: if_splits)
qed (simp add: ce_check_function_def ce_check_prepared_def ce_extern_failure_def ce_abort_def)

lemma ce_call_next:
  "ce_call f s = Some (CeNext s1) \<Longrightarrow> x_calls s1 = cur_frame s # x_calls s \<and> x_fn s1 = f \<and>
     x_frame s1 = x_stack s \<and> x_stack s1 = x_stack s - mFrameSize f \<and> 0 \<le> x_stack s1 \<and> x_inst s1 = 0"
  by (auto simp: ce_call_def check_stack_def ce_ok_def ce_abort_def split: if_splits)

lemma cur_frame_report [simp]: "cur_frame (ce_report m s) = cur_frame s"
  by (simp add: cur_frame_def ce_report_def)

lemma exec_call_pushed:
  assumes c: "exec_call e s = Some (CeNext s1)" and p: "x_calls s1 \<noteq> x_calls s"
  shows "\<exists>f. x_calls s1 = cur_frame (s\<lparr>x_inst := x_inst s + 4\<rparr>) # x_calls s \<and> x_fn s1 = f \<and>
     x_frame s1 = x_stack s \<and> x_stack s1 = x_stack s - mFrameSize f \<and> 0 \<le> x_stack s1 \<and> x_inst s1 = 0"
proof -
  from c obtain fo s2 q where t: "call_target e s = Some (fo, s2)"
    and q: "ce_check_function e fo s2 = Some q"
    and r: "(case q of Inl res \<Rightarrow> Some res
             | Inr (handled, s2) \<Rightarrow> (case fo of None \<Rightarrow> None
                 | Some f \<Rightarrow> (let s3 = (if mIsVarReturn f
                         then ce_report ''Illegal call to method with 'var' return.'' s2 else s2)
               in if handled then ce_ok s3 else ce_call f s3))) = Some (CeNext s1)"
    by (auto simp: exec_call_def bind_eq_Some_conv)
  have s2: "s2 = s\<lparr>x_inst := x_inst s + 4\<rparr>" by (rule call_target_some [OF t])
  have calls: "ce_call f s' = Some (CeNext s1) \<Longrightarrow> s' = s2 \<or> (\<exists>m. s' = ce_report m s2) \<Longrightarrow> ?thesis" for f s'
    by (drule ce_call_next) (auto simp: s2)
  show ?thesis
  proof (cases q)
    case (Inl res)
    then show ?thesis using q r ce_check_function_inl by simp
  next
    case (Inr qq)
    then obtain b s3 where qq: "q = Inr (b, s3)" by (cases qq) auto
    note k = ce_check_function_inr [OF q [unfolded qq]]
    from r qq obtain f where f: "fo = Some f" by (auto split: option.splits)
    show ?thesis
    proof (cases b)
      case True
      with r qq f have "x_calls s1 = x_calls s3" by (auto simp: Let_def ce_ok_def)
      with k p s2 show ?thesis by simp
    next
      case False
      with r qq f k have "ce_call f (if mIsVarReturn f
          then ce_report ''Illegal call to method with 'var' return.'' s2 else s2) = Some (CeNext s1)"
        by (simp add: Let_def)
      from calls [OF this] show ?thesis by (cases "mIsVarReturn f") auto
    qed
  qed
qed

text \<open>
  C6 (Call and return). When a call pushes a frame, the callee starts at its first instruction with
  its frame at the caller's stack pointer, and a return executed at the same call depth restores
  the caller's function, stack, frame, return type and call stack, continues after the call, and
  leaves the memory as the callee left it.
\<close>

theorem call_ret_restores:
  assumes op: "cur_op s = Some (Stk CeOp_Call)" and st: "ce_step e s = Some (CeNext s1)"
    and pushed: "x_calls s1 \<noteq> x_calls s"
    and ret: "cur_op s2 = Some (Ctl CeOp_Ret)" "x_calls s2 = x_calls s1"
  shows "\<exists>s3. ce_step e s2 = Some (CeNext s3) \<and> x_fn s3 = x_fn s \<and> x_inst s3 = x_inst s + 6 \<and>
     x_stack s3 = x_stack s \<and> x_frame s3 = x_frame s \<and> x_ret_type s3 = x_ret_type s \<and>
     x_calls s3 = x_calls s \<and> x_mem s3 = x_mem s2 \<and> x_frame s1 = x_stack s \<and>
     x_stack s1 = x_stack s - mFrameSize (x_fn s1) \<and> 0 \<le> x_stack s1 \<and> x_inst s1 = 0"
proof -
  have "exec_call e (s\<lparr>x_inst := x_inst s + 2\<rparr>) = Some (CeNext s1)"
    using st ce_step_op [OF op] by simp
  from exec_call_pushed [OF this] pushed have
    "x_calls s1 = cur_frame (s\<lparr>x_inst := x_inst s + 6\<rparr>) # x_calls s" "x_frame s1 = x_stack s"
    "x_stack s1 = x_stack s - mFrameSize (x_fn s1)" "0 \<le> x_stack s1" "x_inst s1 = 0"
    by (auto simp: add.commute)
  then show ?thesis using ret ce_step_op [OF ret(1), of e] by (auto simp: ce_ok_def cur_frame_def)
qed

theorem call_ret_restores_witness:
  "\<exists>s s1 s3. ce_step demo_env s = Some (CeNext s1) \<and> ce_step demo_env s1 = Some (CeNext s3) \<and>
     x_inst s3 = x_inst s + 6 \<and> x_stack s3 = x_stack s"
proof -
  let ?op = "Stk CeOp_Call"
  let ?code = "demo_code ?op [0]" and ?f = "demo_fn (demo_code (Ctl CeOp_Ret) [])"
  let ?s = "demo_state ?code"
  have c: "code_at ?s (le_bytes 2 (int (ce_code ?op)) @ le_bytes 4 0)"
    using placed_self [of ?code] by (simp add: demo_code_def del: le_bytes.simps)
  note st = step_at [OF c]
  have z: "le_sint (replicate 4 0) = 0" by code_simp
  have "call_target demo_env (adv ?s 2) = Some (Some ?f, adv ?s 6)"
    using get_frame_s_at [OF st(2), of 4] z by (simp add: call_target_def demo_env_def in_s_def)
  moreover have ne: "demo_code (Ctl CeOp_Ret) [] \<noteq> []"
    by (metis demo_code_def append_is_Nil_conv length_le_bytes list.size(3) zero_neq_numeral)
  ultimately have "ce_step demo_env ?s = Some (CeNext ((adv ?s 6)\<lparr>x_calls := [cur_frame (adv ?s 6)],
      x_fn := ?f, x_frame := 0x80, x_stack := 0x60, x_inst := 0\<rparr>))" (is "_ = Some (CeNext ?s1)")
    using st(1) [of demo_env]
    by (simp add: exec_call_def ce_check_function_def ce_check_prepared_def ce_extern_failure_def demo_fn_def ce_call_def check_stack_def ce_ok_def)
  moreover have "cur_op ?s1 = Some (Ctl CeOp_Ret)"
    by (rule cur_op_at [of _ _ "[]"]) (simp add: demo_fn_def demo_code_def del: le_bytes.simps)
  moreover have "cur_op ?s = Some ?op" by (rule cur_op_at [OF c])
  ultimately show ?thesis using call_ret_restores [of ?s demo_env ?s1 ?s1] by fastforce
qed

section \<open>Arithmetic is the arithmetic of machine words\<close>

text \<open>The bytes of a word in memory.\<close>

definition word_bytes :: "'a::len word \<Rightarrow> u8 list" where
  "word_bytes w = le_bytes (LENGTH('a) div 8) (uint w)"

lemma word_bytes_le:
  assumes "LENGTH('a::len) = 8 * n"
  shows "le_bytes n v = word_bytes (word_of_int v :: 'a word)"
proof -
  have "uint (word_of_int v :: 'a word) = wrap_u n v" by (rule uint_word_of_int_wrap [OF assms])
  then show ?thesis using assms by (simp add: word_bytes_def)
qed

lemma le_uint_word_bytes:
  assumes "LENGTH('a::len) = 8 * n"
  shows "le_uint (word_bytes (w :: 'a word)) = uint w"
proof -
  have "in_u n (uint w)" using uint_lt2p [of w] assms by (simp add: in_u_def power_mult)
  with assms show ?thesis by (simp add: word_bytes_def wrap_u_id)
qed

lemma le_sint_word_bytes:
  assumes "LENGTH('a::len) = 8 * n"
  shows "le_sint (word_bytes (w :: 'a word)) = sint w"
  using assms sint_word_of_int_wrap [OF assms, of "uint w"] by (simp add: word_bytes_def)

lemma uint_drop_bit: "uint (drop_bit n w) = drop_bit n (uint w)"
  by transfer (simp add: drop_bit_take_bit min_def le_less less_diff_conv)

text \<open>
  For a count below the width the shift opcodes are the left, logical right and
  arithmetic right shift of words.
\<close>

theorem shifts_are_word_shifts:
  fixes x :: "'a::len word" and c :: "8 word"
  assumes n: "LENGTH('a) = 8 * n" and c: "unat c < LENGTH('a)"
  shows "shl_op n (word_bytes x) [c] = Some (word_bytes (push_bit (unat c) x)) \<and>
         ushr_op n (word_bytes x) [c] = Some (word_bytes (drop_bit (unat c) x)) \<and>
         sshr_op n (word_bytes x) [c] = Some (word_bytes (signed_drop_bit (unat c) x))"
proof -
  have ok: "shift_ok n (uint c)" 
  proof -
    have "uint c = int (unat c)" by simp
    with c n show ?thesis by (simp only: shift_ok_def)
  qed
  have k: "nat (uint c) = unat c" "le_uint [c] = uint c" by simp_all
  have "word_of_int (sint x * 2 ^ unat c) = push_bit (unat c) x"
    by (simp add: push_bit_eq_mult)
  moreover have "uint x div 2 ^ unat c = uint (drop_bit (unat c) x)"
    by (simp only: drop_bit_eq_div [symmetric] uint_drop_bit)
  then have "word_of_int (uint x div 2 ^ unat c) = drop_bit (unat c) x"
    by (simp only: word_of_int_uint)
  moreover have "sint x div 2 ^ unat c = sint (signed_drop_bit (unat c) x)"
    by (metis drop_bit_eq_div sint_signed_drop_bit_eq)
  then have "word_of_int (sint x div 2 ^ unat c) = signed_drop_bit (unat c) x"
    by simp
  ultimately show ?thesis
    unfolding shl_op_def ushr_op_def sshr_op_def le_sint_word_bytes [OF n] le_uint_word_bytes [OF n]
      word_bytes_le [OF n] k by (simp add: ok)
qed

theorem shifts_are_word_shifts_witness:
  "sshr_op 4 (word_bytes (-16 :: 32 word)) [2] = Some (word_bytes (signed_drop_bit 2 (-16 :: 32 word)))"
  using shifts_are_word_shifts [of 4 2 "-16 :: 32 word"] by simp

text \<open>
  The meaning of the integer opcodes with two operands, on words of their width: the result, or the message of an
  abort; \<open>None\<close> for other opcodes and where C++ defines no result.
\<close>

definition word_divide :: "(int \<Rightarrow> int \<Rightarrow> int) \<Rightarrow> 'a::len word \<Rightarrow> 'a word \<Rightarrow> 'a word option" where
  "word_divide f x y =
     (if 32 \<le> LENGTH('a) \<and> sint x = - (2 ^ (LENGTH('a) - 1)) \<and> y = -1 then None
      else Some (word_of_int (f (sint x) (sint y))))"

definition word_shift :: "(nat \<Rightarrow> 'a::len word \<Rightarrow> 'a word) \<Rightarrow> 'a word \<Rightarrow> 'a word \<Rightarrow> 'a word option" where
  "word_shift f x y = (let c = unat (ucast y :: 8 word) in if c < LENGTH('a) then Some (f c x) else None)"

definition or_zero :: "'a::len word \<Rightarrow> 'a word option \<Rightarrow> (string + 'a word) option" where
  "or_zero y z = (if y = 0 then Some (Inl ''Division by zero'') else map_option Inr z)"

primrec word_alu :: "ce_arith_op \<Rightarrow> 'a::len word \<Rightarrow> 'a word \<Rightarrow> (string + 'a word) option" where
  "word_alu (CeOp_Abs k) x y = None"
| "word_alu (CeOp_AddConst k) x y = None"
| "word_alu (CeOp_Add k) x y = Some (Inr (x + y))"
| "word_alu (CeOp_Sub k) x y = Some (Inr (x - y))"
| "word_alu (CeOp_Mul k) x y = Some (Inr (x * y))"
| "word_alu (CeOp_Div k) x y = or_zero y (word_divide c_div x y)"
| "word_alu (CeOp_DivU i) x y = or_zero y (Some (x div y))"
| "word_alu (CeOp_Mod k) x y = or_zero y (word_divide c_mod x y)"
| "word_alu (CeOp_ModU i) x y = or_zero y (Some (x mod y))"
| "word_alu (CeOp_And i) x y = Some (Inr (x AND y))"
| "word_alu (CeOp_Or i) x y = Some (Inr (x OR y))"
| "word_alu (CeOp_Xor i) x y = Some (Inr (x XOR y))"
| "word_alu (CeOp_Shl i) x y = map_option Inr (word_shift push_bit x y)"
| "word_alu (CeOp_Shr i) x y = map_option Inr (word_shift signed_drop_bit x y)"
| "word_alu (CeOp_ShrU i) x y = map_option Inr (word_shift drop_bit x y)"

text \<open>The width of an integer opcode.\<close>

primrec num_width :: "ce_num \<Rightarrow> nat option" where
  "num_width (KI i) = Some (int_bytes i)"
| "num_width (KF j) = None"

primrec arith_width :: "ce_arith_op \<Rightarrow> nat option" where
  "arith_width (CeOp_Abs k) = num_width k"
| "arith_width (CeOp_AddConst k) = num_width k"
| "arith_width (CeOp_Add k) = num_width k"
| "arith_width (CeOp_Sub k) = num_width k"
| "arith_width (CeOp_Mul k) = num_width k"
| "arith_width (CeOp_Div k) = num_width k"
| "arith_width (CeOp_DivU i) = Some (int_bytes i)"
| "arith_width (CeOp_Mod k) = num_width k"
| "arith_width (CeOp_ModU i) = Some (int_bytes i)"
| "arith_width (CeOp_And i) = Some (int_bytes i)"
| "arith_width (CeOp_Or i) = Some (int_bytes i)"
| "arith_width (CeOp_Xor i) = Some (int_bytes i)"
| "arith_width (CeOp_Shl i) = Some (int_bytes i)"
| "arith_width (CeOp_Shr i) = Some (int_bytes i)"
| "arith_width (CeOp_ShrU i) = Some (int_bytes i)"

lemma num_width_KI: "num_width k = Some n \<longleftrightarrow> (\<exists>i. k = KI i \<and> n = int_bytes i)"
  by (cases k) auto

definition is_arith_div :: "ce_arith_op \<Rightarrow> bool" where
  "is_arith_div op = (case op of CeOp_Div k \<Rightarrow> True | CeOp_DivU i \<Rightarrow> True | CeOp_Mod k \<Rightarrow> True | CeOp_ModU i \<Rightarrow> True | _ \<Rightarrow> False)"

definition is_arith_shift :: "ce_arith_op \<Rightarrow> bool" where
  "is_arith_shift op = (case op of CeOp_Shl i \<Rightarrow> True | CeOp_Shr i \<Rightarrow> True | CeOp_ShrU i \<Rightarrow> True | _ \<Rightarrow> False)"

primrec arith_fun :: "ce_arith_op \<Rightarrow> nat \<Rightarrow> u8 list \<Rightarrow> u8 list \<Rightarrow> u8 list option" where
  "arith_fun (CeOp_Abs k) n = (\<lambda>x y. None)"
| "arith_fun (CeOp_AddConst k) n = (\<lambda>x y. None)"
| "arith_fun (CeOp_Add k) n = s_op n (+)"
| "arith_fun (CeOp_Sub k) n = s_op n (-)"
| "arith_fun (CeOp_Mul k) n = s_op n (*)"
| "arith_fun (CeOp_Div k) n = s_div_op n c_div"
| "arith_fun (CeOp_DivU i) n = u_op n (div)"
| "arith_fun (CeOp_Mod k) n = s_div_op n c_mod"
| "arith_fun (CeOp_ModU i) n = u_op n (mod)"
| "arith_fun (CeOp_And i) n = u_op n (AND)"
| "arith_fun (CeOp_Or i) n = u_op n (OR)"
| "arith_fun (CeOp_Xor i) n = u_op n (XOR)"
| "arith_fun (CeOp_Shl i) n = shl_op n"
| "arith_fun (CeOp_Shr i) n = sshr_op n"
| "arith_fun (CeOp_ShrU i) n = ushr_op n"

lemma exec_arith_forms:
  assumes "arith_width op = Some n" "word_alu op (x :: 'a::len word) y = Some z"
  shows "exec_arith e op s =
     (if is_arith_div op then exec_bin_div n s_zero (arith_fun op n) s
      else exec_bin n (if is_arith_shift op then 1 else n) (arith_fun op n) s)"
  using assms
  by (cases op) (auto simp: is_arith_div_def is_arith_shift_def exec_num_bin_def exec_num_div_def exec_arith_defs Let_def num_width_KI)

lemma word_bytes_1: 
  fixes y :: "'a::len word"
  assumes "LENGTH('a) = 8 * n"
  shows "take (Suc 0) (word_bytes y) = [ucast y :: 8 word]"
  using assms by (cases n) (simp_all add: word_bytes_def)

lemma take_ce_bytes: "k \<le> n \<Longrightarrow> ce_bytes s a k = take k (ce_bytes s a n)"
  by (simp add: ce_bytes_def take_map take_upt)

lemma arith_fun_word:
  fixes x y :: "'a::len word"
  assumes n: "LENGTH('a) = 8 * n" and r: "word_alu op x y = Some (Inr z)"
  shows "arith_fun op n (word_bytes x) (if is_arith_shift op then take 1 (word_bytes y) else word_bytes y) = Some (word_bytes z)"
proof -
  have ov: "div_overflow n (sint x) (sint y) \<longleftrightarrow> 32 \<le> LENGTH('a) \<and> sint x = - (2 ^ (LENGTH('a) - 1)) \<and> y = -1"
  proof -
    have "(256 :: int) ^ n div 2 = 2 ^ (LENGTH('a) - 1)" using n by (cases n) (simp_all add: power_add power_mult)
    moreover have "sint y = -1 \<longleftrightarrow> y = -1" by (metis signed_word_eqI sint_n1)
    ultimately show ?thesis using n by (auto simp: div_overflow_def)
  qed
  show ?thesis
    using r shifts_are_word_shifts [OF n, of "ucast y" x]
    by (cases op)
      (simp_all add: is_arith_shift_def or_zero_def s_op_def u_op_def s_div_op_def le_sint_word_bytes [OF n]
        le_uint_word_bytes [OF n] word_bytes_le [OF n] word_bytes_1 [OF n] ov word_divide_def word_shift_def Let_def
        word_div_def word_mod_def of_int_and_eq of_int_or_eq of_int_xor_eq split: if_splits)
qed

lemma s_zero_word:
  fixes y :: "'a::len word"
  assumes n: "LENGTH('a) = 8 * n"
  shows "s_zero (word_bytes y) \<longleftrightarrow> y = 0"
  unfolding s_zero_def le_uint_word_bytes [OF n] by (simp add: uint_0_iff)

text \<open>
  An integer opcode with two operands, executed on slots of the frame that hold two words
  of its width, stores the word sum, difference, product, quotient, remainder, bitwise combination or shift into
  the result slot and moves on by the fourteen bytes of the instruction; a zero divisor stops the evaluation.
\<close>

theorem arith_opcode_step:
  fixes x y :: "'a::len word"
  assumes op: "arith_width op = Some n" and n: "LENGTH('a) = 8 * n"
    and c: "code_at s (le_bytes 2 (int (ce_code (Arith op))) @ le_bytes 4 r @ le_bytes 4 p @ le_bytes 4 q)"
    and i: "in_s 4 r" "in_s 4 p" "in_s 4 q"
    and m: "in_mem s (x_frame s + r) (int n)" "in_mem s (x_frame s + p) (int n)" "in_mem s (x_frame s + q) (int n)"
    and x: "ce_bytes s (x_frame s + p) n = word_bytes x" and y: "ce_bytes s (x_frame s + q) n = word_bytes y"
  shows "case word_alu op x y of
      None \<Rightarrow> True
    | Some (Inl msg) \<Rightarrow> \<exists>s'. ce_step e s = Some (CeFail msg s')
    | Some (Inr z) \<Rightarrow> ce_step e s = Some (CeNext (adv (ce_put s (x_frame s + r) (word_bytes z)) 14))"
proof (cases "word_alu op x y")
  case None
  then show ?thesis by simp
next
  case (Some a)
  note st = step_at [OF c]
  let ?k = "if is_arith_shift op then 1 else n"
  have "1 \<le> n" using n by (cases n) simp_all
  then have m1: "in_mem s (x_frame s + q) (int ?k)" and k: "?k \<le> n" using m(3) by (auto simp: in_mem_def)
  have b: "ce_bytes s (x_frame s + q) ?k = (if is_arith_shift op then take 1 (word_bytes y) else word_bytes y)"
    using take_ce_bytes [OF \<open>1 \<le> n\<close>, of s "x_frame s + q"] y by simp
  have run: "ce_step e s =
    (if is_arith_div op then exec_bin_div n s_zero (arith_fun op n) (adv s 2) else exec_bin n ?k (arith_fun op n) (adv s 2))"
    using st(1) [of e] exec_arith_forms [OF op Some, of e "adv s 2"] by simp
  have dk: "?k = n" if "is_arith_div op" using that by (auto simp: is_arith_div_def is_arith_shift_def split: ce_arith_op.splits)
  note z = exec_bin_div_at [OF st(2) i, of n s_zero, unfolded ce_bytes_adv in_mem_adv adv_simps, OF m(2,3), unfolded y s_zero_word [OF n]]
  show ?thesis
  proof (cases a)
    case (Inl msg)
    then have "is_arith_div op" "y = 0" "msg = ''Division by zero''"
      using Some by (cases op; auto simp: or_zero_def is_arith_div_def word_divide_def word_shift_def Let_def split: if_splits)+
    then show ?thesis using Some Inl run z(2) [of "arith_fun op n"] by simp
  next
    case (Inr v)
    note af = arith_fun_word [OF n, of op x y v]
    have "length (word_bytes v) = n" using n by (simp add: word_bytes_def)
    then have e: "exec_bin n ?k (arith_fun op n) (adv s 2) = Some (CeNext (adv (ce_put s (x_frame s + r) (word_bytes v)) 14))"
      using exec_bin_at [OF st(2) i, of n ?k "arith_fun op n" "word_bytes v"] m m1 x b af Some Inr by (simp add: ce_put_adv)
    have "y \<noteq> 0" if "is_arith_div op"
      using that Some Inr by (cases op) (auto simp: or_zero_def is_arith_div_def)
    then show ?thesis using Some Inr run e z(1) [of "arith_fun op n"] dk by auto
  qed
qed

text \<open>\<open>CeOp_Mod_I32\<close> on the zeroed memory of the example.\<close>

theorem arith_opcode_step_witness:
  "\<exists>s'. ce_step demo_env (demo_state (demo_code (Arith (CeOp_Mod (KI I32))) [0, 4, 8])) = Some (CeFail ''Division by zero'' s')"
proof -
  let ?op = "CeOp_Mod (KI I32)" and ?s = "demo_state (demo_code (Arith (CeOp_Mod (KI I32))) [0, 4, 8])"
  have c: "code_at ?s (le_bytes 2 (int (ce_code (Arith ?op))) @ le_bytes 4 0 @ le_bytes 4 4 @ le_bytes 4 8)"
    using placed_self [of "demo_code (Arith ?op) [0, 4, 8]"] by (simp add: demo_code_def del: le_bytes.simps)
  have "replicate 4 0 = word_bytes (0 :: 32 word)" by code_simp
  from arith_opcode_step [OF _ _ c, of 4 "0 :: 32 word" "0 :: 32 word" demo_env] this show ?thesis
    by (simp add: in_s_def or_zero_def del: le_bytes.simps replicate.simps)
qed

end
