(* ===== verification/Beef_Checked.thy ===== *)
theory Beef_Checked
  imports Beef_Prelude
begin

text \<open>
  The overflow-checked operations of \<open>BfIRBuilder\<close> (BfIRBuilder.cpp), by which constant
  expressions are folded: \<open>CheckedAdd\<close>, \<open>CheckedSub\<close>, \<open>CheckedMul\<close> and \<open>CheckedShl\<close>, one overload
  per machine integer type.  Each returns its result and whether it called \<open>OpFailed\<close>.  The
  lemmas say when an overload is exact: it returns the wrapped result and fails just when the
  result does not fit.  The overloads that are not exact are characterised instead.
\<close>

unbundle bit_operations_syntax

section \<open>The operations\<close>

definition CheckedAdd_u8 :: "u8 \<Rightarrow> u8 \<Rightarrow> u8 \<times> bool" where
  "CheckedAdd_u8 a b =
     (let result = (ucast a :: u32) + ucast b in (ucast result, result AND 0xFFFFFF00 \<noteq> 0))"

definition CheckedAdd_u16 :: "u16 \<Rightarrow> u16 \<Rightarrow> u16 \<times> bool" where
  "CheckedAdd_u16 a b =
     (let result = (ucast a :: u32) + ucast b in (ucast result, result AND 0xFFFF0000 \<noteq> 0))"

definition CheckedAdd_u32 :: "u32 \<Rightarrow> u32 \<Rightarrow> u32 \<times> bool" where
  "CheckedAdd_u32 a b = (let result = a + b in (result, result < a))"

definition CheckedAdd_u64 :: "u64 \<Rightarrow> u64 \<Rightarrow> u64 \<times> bool" where
  "CheckedAdd_u64 a b = (let result = a + b in (result, result < a))"

definition CheckedAdd_i8 :: "u8 \<Rightarrow> u8 \<Rightarrow> u8 \<times> bool" where
  "CheckedAdd_i8 a b =
     (let result = (scast a :: u32) + scast b
      in (ucast result, sint result > 0x7F \<or> sint result < -0x80))"

definition CheckedAdd_i16 :: "u16 \<Rightarrow> u16 \<Rightarrow> u16 \<times> bool" where
  "CheckedAdd_i16 a b =
     (let result = (scast a :: u32) + scast b
      in (ucast result, sint result > 0x7FFF \<or> sint result < -0x8000))"

definition CheckedAdd_i32 :: "u32 \<Rightarrow> u32 \<Rightarrow> u32 \<times> bool" where
  "CheckedAdd_i32 a b =
     (let result = a + b
      in (result, if sint b \<ge> 0 then result <s a else a <s result))"

definition CheckedAdd_i64 :: "u64 \<Rightarrow> u64 \<Rightarrow> u64 \<times> bool" where
  "CheckedAdd_i64 a b =
     (let result = a + b
      in (result, if sint b \<ge> 0 then result <s a else a <s result))"

definition CheckedSub_u8 :: "u8 \<Rightarrow> u8 \<Rightarrow> u8 \<times> bool" where
  "CheckedSub_u8 a b =
     (let result = (ucast a :: u32) - ucast b in (ucast result, result AND 0xFFFFFF00 \<noteq> 0))"

definition CheckedSub_u16 :: "u16 \<Rightarrow> u16 \<Rightarrow> u16 \<times> bool" where
  "CheckedSub_u16 a b =
     (let result = (ucast a :: u32) - ucast b in (ucast result, result AND 0xFFFF0000 \<noteq> 0))"

definition CheckedSub_u32 :: "u32 \<Rightarrow> u32 \<Rightarrow> u32 \<times> bool" where
  "CheckedSub_u32 a b = (let result = a - b in (result, a < result))"

definition CheckedSub_u64 :: "u64 \<Rightarrow> u64 \<Rightarrow> u64 \<times> bool" where
  "CheckedSub_u64 a b = (let result = a - b in (result, a < result))"

definition CheckedSub_i8 :: "u8 \<Rightarrow> u8 \<Rightarrow> u8 \<times> bool" where
  "CheckedSub_i8 a b =
     (let result = (scast a :: u32) - scast b
      in (ucast result, sint result > 0x7F \<or> sint result < -0x80))"

definition CheckedSub_i16 :: "u16 \<Rightarrow> u16 \<Rightarrow> u16 \<times> bool" where
  "CheckedSub_i16 a b =
     (let result = (scast a :: u32) - scast b
      in (ucast result, sint result > 0x7FFF \<or> sint result < -0x8000))"

definition CheckedSub_i32 :: "u32 \<Rightarrow> u32 \<Rightarrow> u32 \<times> bool" where
  "CheckedSub_i32 a b =
     (let result = a - b
      in (result, if sint b \<ge> 0 then a <s result else result <s a))"

definition CheckedSub_i64 :: "u64 \<Rightarrow> u64 \<Rightarrow> u64 \<times> bool" where
  "CheckedSub_i64 a b =
     (let result = a - b
      in (result, if sint b \<ge> 0 then a <s result else result <s a))"

definition CheckedMul_u8 :: "u8 \<Rightarrow> u8 \<Rightarrow> u8 \<times> bool" where
  "CheckedMul_u8 a b =
     (let result = (ucast a :: u32) * ucast b in (ucast result, result AND 0xFFFFFF00 \<noteq> 0))"

definition CheckedMul_u16 :: "u16 \<Rightarrow> u16 \<Rightarrow> u16 \<times> bool" where
  "CheckedMul_u16 a b =
     (let result = (ucast a :: u32) * ucast b in (ucast result, result AND 0xFFFF0000 \<noteq> 0))"

definition CheckedMul_u32 :: "u32 \<Rightarrow> u32 \<Rightarrow> u32 \<times> bool" where
  "CheckedMul_u32 a b =
     (let result = (ucast a :: u64) * ucast b;
          upper = (ucast (drop_bit 32 result) :: u32)
      in (ucast result, upper \<noteq> 0 \<and> upper \<noteq> 0xFFFFFFFF))"

definition CheckedMul_u64 :: "u64 \<Rightarrow> u64 \<Rightarrow> u64 \<times> bool" where
  "CheckedMul_u64 a b = (let result = a * b in (result, a \<noteq> 0 \<and> result div a \<noteq> b))"

definition CheckedMul_i8 :: "u8 \<Rightarrow> u8 \<Rightarrow> u8 \<times> bool" where
  "CheckedMul_i8 a b =
     (let result = (scast a :: u32) * scast b
      in (ucast result, sint result > 0x7F \<or> sint result < -0x80))"

definition CheckedMul_i16 :: "u16 \<Rightarrow> u16 \<Rightarrow> u16 \<times> bool" where
  "CheckedMul_i16 a b =
     (let result = (scast a :: u32) * scast b
      in (ucast result, sint result > 0x7FFF \<or> sint result < -0x8000))"

definition CheckedMul_i32 :: "u32 \<Rightarrow> u32 \<Rightarrow> u32 \<times> bool" where
  "CheckedMul_i32 a b =
     (let result = (scast a :: u64) * scast b;
          upper = (ucast (signed_drop_bit 32 result) :: u32)
      in (ucast result, upper \<noteq> 0 \<and> upper \<noteq> 0xFFFFFFFF))"

definition CheckedMul_i64 :: "u64 \<Rightarrow> u64 \<Rightarrow> u64 \<times> bool" where
  "CheckedMul_i64 a b =
     (let aNegative = sint a < 0; aAbs = (if aNegative then - a else a);
          bNegative = sint b < 0; bAbs = (if bNegative then - b else b);
          (tmp, failed) = CheckedMul_u64 aAbs bAbs;
          failed = (failed \<or> tmp AND 0x8000000000000000 \<noteq> 0)
      in (if aNegative \<noteq> bNegative then - tmp else tmp, failed))"

text \<open>A shift count outside the promoted type's width is undefined: \<open>None\<close>.\<close>

definition CheckedShl_u8 :: "u8 \<Rightarrow> u8 \<Rightarrow> (u8 \<times> bool) option" where
  "CheckedShl_u8 a b =
     (if uint b \<ge> 32 then None
      else let result = push_bit (unat b) (ucast a :: u32)
           in Some (ucast result, (a \<noteq> 0 \<and> uint b \<ge> 8) \<or> result AND 0xFFFFFF00 \<noteq> 0))"

definition CheckedShl_u16 :: "u16 \<Rightarrow> u16 \<Rightarrow> (u16 \<times> bool) option" where
  "CheckedShl_u16 a b =
     (if uint b \<ge> 32 then None
      else let result = push_bit (unat b) (ucast a :: u32)
           in Some (ucast result, (a \<noteq> 0 \<and> uint b \<ge> 16) \<or> result AND 0xFFFF0000 \<noteq> 0))"

definition CheckedShl_u32 :: "u32 \<Rightarrow> u32 \<Rightarrow> (u32 \<times> bool) option" where
  "CheckedShl_u32 a b =
     (if uint b \<ge> 32 then None
      else let result = push_bit (unat b) a
           in Some (result, (a \<noteq> 0 \<and> uint b \<ge> 32) \<or> result < a))"

definition CheckedShl_u64 :: "u64 \<Rightarrow> u64 \<Rightarrow> (u64 \<times> bool) option" where
  "CheckedShl_u64 a b =
     (if uint b \<ge> 64 then None
      else let result = push_bit (unat b) a
           in Some (result, (a \<noteq> 0 \<and> uint b \<ge> 64) \<or> result < a))"

definition CheckedShl_i8 :: "u8 \<Rightarrow> u8 \<Rightarrow> (u8 \<times> bool) option" where
  "CheckedShl_i8 a b =
     (if sint b < 0 \<or> sint b \<ge> 32 then None
      else let result = push_bit (unat b) (scast a :: u32)
           in Some (ucast result, (a \<noteq> 0 \<and> sint b \<ge> 8) \<or> sint result > 0x7F \<or> sint result < -0x80))"

definition CheckedShl_i16 :: "u16 \<Rightarrow> u16 \<Rightarrow> (u16 \<times> bool) option" where
  "CheckedShl_i16 a b =
     (if sint b < 0 \<or> sint b \<ge> 32 then None
      else let result = push_bit (unat b) (scast a :: u32)
           in Some (ucast result, (a \<noteq> 0 \<and> sint b \<ge> 16) \<or> sint result > 0x7FFF \<or> sint result < -0x8000))"

definition CheckedShl_i32 :: "u32 \<Rightarrow> u32 \<Rightarrow> (u32 \<times> bool) option" where
  "CheckedShl_i32 a b =
     (if sint b < 0 \<or> sint b \<ge> 64 then None
      else let result = push_bit (unat b) (scast a :: u64)
           in Some (ucast result,
                    (a \<noteq> 0 \<and> sint b \<ge> 32) \<or> sint result > 0x7FFFFFFF \<or> sint result < -0x80000000))"

definition CheckedShl_i64 :: "u64 \<Rightarrow> u64 \<Rightarrow> (u64 \<times> bool) option" where
  "CheckedShl_i64 a b =
     (if sint b < 0 \<or> sint b \<ge> 64 then None
      else let result = push_bit (unat b) a
           in Some (result, (a \<noteq> 0 \<and> sint b \<ge> 64) \<or>
                    (sint a > 0 \<and> result <s a) \<or> (sint a < 0 \<and> a <s result)))"

section \<open>Lemmas\<close>

text \<open>A word at a width, as the number it stands for.\<close>

lemma uint_in_u:
  assumes "LENGTH('a::len) = 8 * n"
  shows "in_u n (uint (w :: 'a word))"
  using uint_lt2p [of w] assms by (simp add: in_u_def power_mult)

lemma sint_in_s:
  assumes "LENGTH('a::len) = 8 * n"
  shows "in_s n (sint (w :: 'a word))"
proof -
  have "0 < n" using assms len_gt_0 [where 'a='a] by (cases n) auto
  then show ?thesis using wrap_s_range [of n "uint w"] sint_word_of_int_wrap [OF assms, of "uint w"] by simp
qed

lemma uint_of_wrap:
  assumes "LENGTH('a::len) = 8 * n" "(w :: 'a word) = word_of_int v"
  shows "uint w = wrap_u n v"
  using uint_word_of_int_wrap [OF assms(1)] assms(2) by simp

lemma sint_of_wrap:
  assumes "LENGTH('a::len) = 8 * n" "(w :: 'a word) = word_of_int v"
  shows "sint w = wrap_s n v"
  using sint_word_of_int_wrap [OF assms(1)] assms(2) by simp

lemma wrap_s_cases:
  assumes "0 < n" "- (256 ^ n div 2) - 256 ^ n \<le> v" "v < 256 ^ n div 2 + 256 ^ n"
  shows "wrap_s n v = (if v < - (256 ^ n div 2) then v + 256 ^ n
                       else if v < 256 ^ n div 2 then v else v - 256 ^ n)"
proof -
  let ?m = "(256::int) ^ n"
  have h: "?m = 2 * (?m div 2)" using half_256_pow [OF assms(1)] by simp
  have p: "0 < ?m" by simp
  consider "v < - (?m div 2)" | "in_s n v" | "?m div 2 \<le> v" unfolding in_s_def by linarith
  then show ?thesis
  proof cases
    case 1
    then have "in_s n (v + ?m)" using h assms(2) by (simp add: in_s_def)
    moreover have "wrap_s n (v + ?m) = wrap_s n v"
      by (simp only: wrap_s_def add.assoc add.commute [of ?m]) (simp only: add.assoc [symmetric] mod_add_self2)
    ultimately show ?thesis using wrap_s_id [OF assms(1)] 1 by simp
  next
    case 2
    then show ?thesis using wrap_s_id [OF assms(1) 2] by (simp add: in_s_def)
  next
    case 3
    then have "in_s n (v - ?m)" using h assms(3) by (simp add: in_s_def)
    moreover have "wrap_s n (v - ?m) = wrap_s n v"
    proof -
      have "(v - ?m + ?m div 2) mod ?m = (v + ?m div 2) mod ?m"
        by (metis add_diff_eq diff_add_eq minus_mod_self2)
      then show ?thesis by (simp only: wrap_s_def)
    qed
    ultimately show ?thesis using wrap_s_id [OF assms(1)] 3 p by (simp add: in_s_def)
  qed
qed

lemma high_bits_clear:
  assumes "n \<le> LENGTH('a::len)"
  shows "(w :: 'a word) AND NOT (mask n) = 0 \<longleftrightarrow> uint w < 2 ^ n"
proof -
  have "w AND NOT (mask n) = 0 \<longleftrightarrow> (\<forall>i < LENGTH('a). bit w i \<longrightarrow> i < n)"
    by (auto simp: bit_eq_iff bit_simps)
  also have "\<dots> \<longleftrightarrow> take_bit n w = w"
    by (auto simp: bit_eq_iff bit_simps)
  also have "\<dots> \<longleftrightarrow> take_bit n (uint w) = uint w"
    by (simp only: word_uint_eq_iff unsigned_take_bit_eq)
  also have "\<dots> \<longleftrightarrow> uint w < 2 ^ n"
    by (simp add: take_bit_int_eq_self_iff)
  finally show ?thesis .
qed

lemma mask_00FF: "(0xFFFFFF00 :: u32) = NOT (mask 8)" "(0xFFFF0000 :: u32) = NOT (mask 16)"
  by (simp_all add: mask_eq_exp_minus_1)

text \<open>
  An operation on promoted operands computes \<open>word_of_int v\<close> for the exact result \<open>v\<close>: the bit
  test of the unsigned overloads and the range test of the signed ones decide the range of \<open>v\<close>.
\<close>

lemmas promote =
  ucast_eq [where 'a = 32 and 'b = 8] ucast_eq [where 'a = 32 and 'b = 16] ucast_eq [where 'a = 64 and 'b = 32]
  scast_eq [where 'a = 32 and 'b = 8] scast_eq [where 'a = 32 and 'b = 16] scast_eq [where 'a = 64 and 'b = 32]
  of_int_add [symmetric] of_int_diff [symmetric] of_int_mult [symmetric]

lemma narrow_unsigned:
  assumes "- 0x10000 \<le> v" "v < 0x100000000"
  shows "(word_of_int v :: u32) AND 0xFFFFFF00 \<noteq> 0 \<longleftrightarrow> \<not> in_u 1 v"
    and "(word_of_int v :: u32) AND 0xFFFF0000 \<noteq> 0 \<longleftrightarrow> \<not> in_u 2 v"
proof -
  have u: "uint (word_of_int v :: u32) = (if v < 0 then v + 0x100000000 else v)"
  proof (cases "v < 0")
    case True
    have "v mod 0x100000000 = (v + 0x100000000) mod 0x100000000" by simp
    also have "\<dots> = v + 0x100000000" using True assms by (intro mod_pos_pos_trivial) auto
    finally show ?thesis using True by (simp add: uint_word_of_int)
  next
    case False
    then show ?thesis using assms by (simp add: uint_word_of_int)
  qed
  show "(word_of_int v :: u32) AND 0xFFFFFF00 \<noteq> 0 \<longleftrightarrow> \<not> in_u 1 v"
    using assms high_bits_clear [of 8 "word_of_int v :: u32"] unfolding mask_00FF u by (auto simp: in_u_def)
  show "(word_of_int v :: u32) AND 0xFFFF0000 \<noteq> 0 \<longleftrightarrow> \<not> in_u 2 v"
    using assms high_bits_clear [of 16 "word_of_int v :: u32"] unfolding mask_00FF u by (auto simp: in_u_def)
qed

lemma narrow_signed:
  assumes "- 0x80000000 \<le> v" "v < 0x80000000"
  shows "sint (word_of_int v :: u32) = v"
  using sint_of_wrap [of 4 "word_of_int v :: u32" v] wrap_s_id [of 4 v] assms by (simp add: in_s_def)

lemma narrow_ucast: "LENGTH('a::len) \<le> LENGTH('b::len) \<Longrightarrow> ucast (word_of_int v :: 'b word) = (word_of_int v :: 'a word)"
  by transfer (simp add: min_def)

lemma bounds8:
  "0 \<le> uint (a :: u8)" "uint (a :: u8) < 0x100" "- 0x80 \<le> sint (a :: u8)" "sint (a :: u8) < 0x80"
  using sint_in_s [of 1 a] uint_in_u [of 1 a] by (simp_all add: in_s_def in_u_def)

lemma bounds16:
  "0 \<le> uint (a :: u16)" "uint (a :: u16) < 0x10000" "- 0x8000 \<le> sint (a :: u16)" "sint (a :: u16) < 0x8000"
  using sint_in_s [of 2 a] uint_in_u [of 2 a] by (simp_all add: in_s_def in_u_def)

lemma bounds32:
  "0 \<le> uint (a :: u32)" "uint (a :: u32) < 0x100000000"
  "- 0x80000000 \<le> sint (a :: u32)" "sint (a :: u32) < 0x80000000"
  using sint_in_s [of 4 a] uint_in_u [of 4 a] by (simp_all add: in_s_def in_u_def)

lemma bounds64:
  "0 \<le> uint (a :: u64)" "uint (a :: u64) < 0x10000000000000000"
  "- 0x8000000000000000 \<le> sint (a :: u64)" "sint (a :: u64) < 0x8000000000000000"
  using sint_in_s [of 8 a] uint_in_u [of 8 a] by (simp_all add: in_s_def in_u_def)

lemma narrow_op:
  assumes "- 0x10000 \<le> v" "v < 0x100000000"
  shows "a = word_of_int v \<Longrightarrow>
      (ucast (word_of_int v :: u32) :: u8, (word_of_int v :: u32) AND 0xFFFFFF00 \<noteq> 0) = (a, \<not> in_u 1 v)"
    and "b = word_of_int v \<Longrightarrow>
      (ucast (word_of_int v :: u32) :: u16, (word_of_int v :: u32) AND 0xFFFF0000 \<noteq> 0) = (b, \<not> in_u 2 v)"
  using assms narrow_unsigned [of v] by (simp_all add: narrow_ucast)

lemma narrow_sop:
  assumes "- 0x80000000 \<le> v" "v < 0x80000000"
  shows "a = word_of_int v \<Longrightarrow>
      (ucast (word_of_int v :: u32) :: u8,
       sint (word_of_int v :: u32) > 0x7F \<or> sint (word_of_int v :: u32) < -0x80) = (a, \<not> in_s 1 v)"
    and "b = word_of_int v \<Longrightarrow>
      (ucast (word_of_int v :: u32) :: u16,
       sint (word_of_int v :: u32) > 0x7FFF \<or> sint (word_of_int v :: u32) < -0x8000) = (b, \<not> in_s 2 v)"
  using narrow_signed [OF assms] by (auto simp: in_s_def narrow_ucast)

section \<open>Addition and subtraction\<close>

lemma CheckedAdd_narrow_exact:
  "CheckedAdd_u8 a b = (a + b, \<not> in_u 1 (uint a + uint b))"
  "CheckedAdd_u16 c d = (c + d, \<not> in_u 2 (uint c + uint d))"
  "CheckedAdd_i8 a b = (a + b, \<not> in_s 1 (sint a + sint b))"
  "CheckedAdd_i16 c d = (c + d, \<not> in_s 2 (sint c + sint d))"
  unfolding CheckedAdd_u8_def CheckedAdd_u16_def CheckedAdd_i8_def CheckedAdd_i16_def promote Let_def
  using bounds8 [of a] bounds8 [of b] bounds16 [of c] bounds16 [of d]
  by - (rule narrow_op narrow_sop; (linarith | simp))+

lemma CheckedSub_narrow_exact:
  "CheckedSub_u8 a b = (a - b, \<not> in_u 1 (uint a - uint b))"
  "CheckedSub_u16 c d = (c - d, \<not> in_u 2 (uint c - uint d))"
  "CheckedSub_i8 a b = (a - b, \<not> in_s 1 (sint a - sint b))"
  "CheckedSub_i16 c d = (c - d, \<not> in_s 2 (sint c - sint d))"
  unfolding CheckedSub_u8_def CheckedSub_u16_def CheckedSub_i8_def CheckedSub_i16_def promote Let_def
  using bounds8 [of a] bounds8 [of b] bounds16 [of c] bounds16 [of d]
  by - (rule narrow_op narrow_sop; (linarith | simp))+

text \<open>The overloads at full width test the wrapped result.\<close>

lemma wide_unsigned:
  assumes n: "LENGTH('a::len) = 8 * n"
  shows "(a :: 'a word) + b < a \<longleftrightarrow> \<not> in_u n (uint a + uint b)"
    and "a < a - b \<longleftrightarrow> \<not> in_u n (uint a - uint b)"
proof -
  have b: "0 \<le> uint a" "uint a < 256 ^ n" "0 \<le> uint b" "uint b < 256 ^ n"
    using uint_in_u [OF n, of a] uint_in_u [OF n, of b] by (simp_all add: in_u_def)
  have "uint (a + b) = wrap_u n (uint a + uint b)" by (rule uint_of_wrap [OF n]) simp
  moreover have "(uint a + uint b) mod 256 ^ n = uint a + uint b - 256 ^ n" if "256 ^ n \<le> uint a + uint b"
    using that b mod_pos_pos_trivial [of "uint a + uint b - 256 ^ n" "256 ^ n"] by simp
  ultimately show "a + b < a \<longleftrightarrow> \<not> in_u n (uint a + uint b)"
    using b unfolding word_less_def by (cases "256 ^ n \<le> uint a + uint b") (auto simp: wrap_u_def in_u_def)
  have "uint (a - b) = wrap_u n (uint a - uint b)" by (rule uint_of_wrap [OF n]) simp
  moreover have "(uint a - uint b) mod 256 ^ n = uint a - uint b + 256 ^ n" if "uint a < uint b"
  proof -
    have "0 \<le> uint a - uint b + 256 ^ n" "uint a - uint b + 256 ^ n < 256 ^ n" using that b by linarith+
    then show ?thesis using mod_pos_pos_trivial [of "uint a - uint b + 256 ^ n" "256 ^ n"] by simp
  qed
  moreover have "(uint a - uint b) mod 256 ^ n = uint a - uint b" if "\<not> uint a < uint b"
    by (rule mod_pos_pos_trivial) (use that b in linarith)+
  ultimately have "uint (a - b) = (if uint a < uint b then uint a - uint b + 256 ^ n else uint a - uint b)"
    by (simp add: wrap_u_def)
  then show "a < a - b \<longleftrightarrow> \<not> in_u n (uint a - uint b)"
    using b unfolding word_less_def in_u_def by (smt (verit))
qed

lemma wide_signed:
  assumes n: "LENGTH('a::len) = 8 * n"
  shows "(if 0 \<le> sint b then (a :: 'a word) + b <s a else a <s a + b) \<longleftrightarrow> \<not> in_s n (sint a + sint b)"
    and "(if 0 \<le> sint b then a <s a - b else a - b <s a) \<longleftrightarrow> \<not> in_s n (sint a - sint b)"
proof -
  let ?h = "(256::int) ^ n div 2"
  have pos: "0 < n" using n len_gt_0 [where 'a='a] by (cases n) auto
  have h: "256 ^ n = 2 * ?h" using half_256_pow [OF pos] by simp
  have b: "- ?h \<le> sint a" "sint a < ?h" "- ?h \<le> sint b" "sint b < ?h"
    using sint_in_s [OF n, of a] sint_in_s [OF n, of b] by (simp_all add: in_s_def)
  have s: "sint (a + b) = wrap_s n (sint a + sint b)" "sint (a - b) = wrap_s n (sint a - sint b)"
    by (rule sint_of_wrap [OF n], simp)+
  have w: "wrap_s n v = (if v < - ?h then v + 2 * ?h else if v < ?h then v else v - 2 * ?h)"
    if "- 2 * ?h \<le> v" "v \<le> 2 * ?h" for v
    using wrap_s_cases [OF pos, of v] that b h by simp
  show "(if 0 \<le> sint b then a + b <s a else a <s a + b) \<longleftrightarrow> \<not> in_s n (sint a + sint b)"
    using w [of "sint a + sint b"] b unfolding word_sless_alt s(1) in_s_def by (auto split: if_splits)
  show "(if 0 \<le> sint b then a <s a - b else a - b <s a) \<longleftrightarrow> \<not> in_s n (sint a - sint b)"
    using w [of "sint a - sint b"] b unfolding word_sless_alt s(2) in_s_def by (auto split: if_splits)
qed

lemma CheckedAdd_wide_exact:
  "CheckedAdd_u32 a b = (a + b, \<not> in_u 4 (uint a + uint b))"
  "CheckedAdd_u64 c d = (c + d, \<not> in_u 8 (uint c + uint d))"
  "CheckedAdd_i32 a b = (a + b, \<not> in_s 4 (sint a + sint b))"
  "CheckedAdd_i64 c d = (c + d, \<not> in_s 8 (sint c + sint d))"
  unfolding CheckedAdd_u32_def CheckedAdd_u64_def CheckedAdd_i32_def CheckedAdd_i64_def Let_def prod.inject
  by (intro conjI refl wide_unsigned wide_signed; simp)+

lemma CheckedSub_wide_exact:
  "CheckedSub_u32 a b = (a - b, \<not> in_u 4 (uint a - uint b))"
  "CheckedSub_u64 c d = (c - d, \<not> in_u 8 (uint c - uint d))"
  "CheckedSub_i32 a b = (a - b, \<not> in_s 4 (sint a - sint b))"
  "CheckedSub_i64 c d = (c - d, \<not> in_s 8 (sint c - sint d))"
  unfolding CheckedSub_u32_def CheckedSub_u64_def CheckedSub_i32_def CheckedSub_i64_def Let_def prod.inject
  by (intro conjI refl wide_unsigned wide_signed; simp)+

section \<open>Multiplication\<close>

text \<open>Bounds of products, from bounds of the factors.\<close>

lemma mult_bounds:
  fixes x y m :: int
  assumes "- m \<le> x" "x \<le> m" "- m \<le> y" "y \<le> m"
  shows "- (m * m) \<le> x * y" "x * y \<le> m * m"
proof -
  have "\<bar>x * y\<bar> \<le> m * m"
    using assms mult_mono [of "\<bar>x\<bar>" m "\<bar>y\<bar>" m] by (simp add: abs_mult)
  then show "- (m * m) \<le> x * y" "x * y \<le> m * m" by linarith+
qed

lemma CheckedMul_narrow_unsigned:
  "CheckedMul_u8 a b = (a * b, \<not> in_u 1 (uint a * uint b))"
  "CheckedMul_u16 c d = (c * d, \<not> in_u 2 (uint c * uint d))"
proof -
  have "0 \<le> uint a * uint b" "uint a * uint b \<le> 0xFF * 0xFF" "0 \<le> uint c * uint d" "uint c * uint d \<le> 0xFFFF * 0xFFFF"
    using mult_bounds [of "0xFF" "uint a" "uint b"] mult_bounds [of "0xFFFF" "uint c" "uint d"]
      bounds8 [of a] bounds8 [of b] bounds16 [of c] bounds16 [of d] by simp_all
  then show "CheckedMul_u8 a b = (a * b, \<not> in_u 1 (uint a * uint b))"
    "CheckedMul_u16 c d = (c * d, \<not> in_u 2 (uint c * uint d))"
    unfolding CheckedMul_u8_def CheckedMul_u16_def promote Let_def
    by - (rule narrow_op; (linarith | simp))+
qed

lemma CheckedMul_narrow_signed:
  "CheckedMul_i8 a b = (a * b, \<not> in_s 1 (sint a * sint b))"
  "CheckedMul_i16 c d = (c * d, \<not> in_s 2 (sint c * sint d))"
proof -
  have "- (0x80 * 0x80) \<le> sint a * sint b" "sint a * sint b \<le> 0x80 * 0x80"
    using bounds8 [of a] bounds8 [of b] by (intro mult_bounds; simp)+
  moreover have "- (0x8000 * 0x8000) \<le> sint c * sint d" "sint c * sint d \<le> 0x8000 * 0x8000"
    using bounds16 [of c] bounds16 [of d] by (intro mult_bounds; simp)+
  ultimately show "CheckedMul_i8 a b = (a * b, \<not> in_s 1 (sint a * sint b))"
    "CheckedMul_i16 c d = (c * d, \<not> in_s 2 (sint c * sint d))"
    unfolding CheckedMul_i8_def CheckedMul_i16_def promote Let_def
    by - (rule narrow_sop; (linarith | simp))+
qed

lemma CheckedMul_u32_exact: "CheckedMul_u32 a b = (a * b, \<not> in_u 4 (uint a * uint b))"
proof -
  let ?v = "uint a * uint b" and ?r = "(ucast a :: u64) * ucast b"
  have v: "0 \<le> ?v" "?v \<le> 0xFFFFFFFF * 0xFFFFFFFF"
    using bounds32 [of a] bounds32 [of b] mult_mono [of "uint a" "0xFFFFFFFF" "uint b" "0xFFFFFFFF"] by simp_all
  have r: "?r = word_of_int ?v" by (simp only: promote)
  have u: "uint ?r = ?v"
    using uint_of_wrap [OF _ r, of 8] wrap_u_id [of 8 ?v] v by (simp add: in_u_def)
  have up: "uint (ucast (drop_bit 32 ?r) :: u32) = ?v div 0x100000000"
  proof -
    have "uint (drop_bit 32 ?r) = ?v div 0x100000000"
      by (simp only: u [symmetric]) (simp add: drop_bit_eq_div uint_div_distrib unsigned_drop_bit_eq)
    moreover have "?v div 0x100000000 < 0x100000000" using v by simp
    ultimately show ?thesis using v by (simp add: unsigned_ucast_eq take_bit_eq_mod pos_imp_zdiv_nonneg_iff)
  qed
  have "?v div 0x100000000 < 0xFFFFFFFF" using v by simp
  then have "(ucast (drop_bit 32 ?r) :: u32) \<noteq> 0xFFFFFFFF" using up by auto
  moreover have "(ucast (drop_bit 32 ?r) :: u32) = 0 \<longleftrightarrow> ?v div 0x100000000 = 0"
    using up by (metis uint_0_iff)
  moreover have "?v div 0x100000000 = 0 \<longleftrightarrow> in_u 4 ?v"
    using v by (auto simp: in_u_def)
  moreover have "ucast ?r = (word_of_int ?v :: u32)" unfolding r by (rule narrow_ucast) simp
  then have "ucast ?r = a * b" by simp
  ultimately show ?thesis by (simp add: CheckedMul_u32_def Let_def)
qed

lemma CheckedMul_u64_exact: "CheckedMul_u64 a b = (a * b, \<not> in_u 8 (uint a * uint b))"
proof (cases "a = 0")
  case True
  then show ?thesis by (simp add: CheckedMul_u64_def Let_def in_u_def)
next
  case False
  let ?m = "0x10000000000000000 :: int"
  have a: "0 < uint a" using False bounds64 [of a] by (metis uint_0_iff order_le_less)
  have ab: "uint (a * b) = (uint a * uint b) mod ?m" by (simp add: uint_word_ariths)
  have "a * b div a = b \<longleftrightarrow> uint (a * b) div uint a = uint b"
    by (simp add: word_uint_eq_iff uint_div)
  also have "\<dots> \<longleftrightarrow> uint a * uint b < ?m"
  proof
    assume "uint (a * b) div uint a = uint b"
    then have "uint a * uint b \<le> uint (a * b)"
      using div_mult_mod_eq [of "uint (a * b)" "uint a"] pos_mod_sign [OF a, of "uint (a * b)"] by (simp add: ac_simps)
    also have "\<dots> < ?m" by (simp add: ab)
    finally show "uint a * uint b < ?m" .
  next
    assume "uint a * uint b < ?m"
    then show "uint (a * b) div uint a = uint b" using a by (simp add: ab)
  qed
  finally show ?thesis using False by (simp add: CheckedMul_u64_def Let_def in_u_def)
qed

text \<open>
  The two signed overloads at full width are not exact: the 32-bit one looks at the upper half of
  the product only, the 64-bit one at the product of the absolute values.
\<close>

lemma CheckedMul_i32_flag:
  "CheckedMul_i32 a b = (a * b, \<not> (- 0x100000000 \<le> sint a * sint b \<and> sint a * sint b < 0x100000000))"
proof -
  let ?v = "sint a * sint b" and ?r = "(scast a :: u64) * scast b"
  have v: "- 0x4000000000000000 \<le> ?v" "?v \<le> 0x4000000000000000"
    using mult_bounds [of "0x80000000" "sint a" "sint b"] bounds32 [of a] bounds32 [of b] by simp_all
  have r: "?r = word_of_int ?v" by (simp only: promote)
  have s: "sint ?r = ?v"
    using sint_of_wrap [OF _ r, of 8] wrap_s_id [of 8 ?v] v by (simp add: in_s_def)
  have up: "signed_drop_bit 32 ?r = (word_of_int (?v div 0x100000000) :: u64)"
  proof -
    have "sint (signed_drop_bit 32 ?r) = ?v div 0x100000000"
      by (simp add: sint_signed_drop_bit_eq s drop_bit_eq_div)
    then show ?thesis by (metis scast_eq scast_id)
  qed
  have q: "- 0x40000000 \<le> ?v div 0x100000000" "?v div 0x100000000 \<le> 0x40000000" using v by auto
  have up': "sint (ucast (signed_drop_bit 32 ?r) :: u32) = ?v div 0x100000000"
    unfolding up using q by (simp add: narrow_ucast narrow_signed)
  have "(ucast (signed_drop_bit 32 ?r) :: u32) = 0 \<longleftrightarrow> ?v div 0x100000000 = 0"
    using up' by (metis sint_0 signed_word_eqI)
  moreover have "sint (0xFFFFFFFF :: u32) = -1" by simp
  then have "(ucast (signed_drop_bit 32 ?r) :: u32) = 0xFFFFFFFF \<longleftrightarrow> ?v div 0x100000000 = -1"
    using up' by (metis signed_word_eqI)
  moreover have "ucast ?r = (word_of_int ?v :: u32)" unfolding r by (rule narrow_ucast) simp
  then have "ucast ?r = a * b" by simp
  moreover have "?v div 0x100000000 = 0 \<or> ?v div 0x100000000 = -1 \<longleftrightarrow> - 0x100000000 \<le> ?v \<and> ?v < 0x100000000"
    by auto
  ultimately show ?thesis unfolding CheckedMul_i32_def Let_def by auto
qed

lemma CheckedMul_i64_flag:
  "CheckedMul_i64 a b = (a * b, \<not> (\<bar>sint a * sint b\<bar> < 0x8000000000000000))"
proof -
  let ?A = "if sint a < 0 then - a else a" and ?B = "if sint b < 0 then - b else b"
  have ab: "uint (if sint w < 0 then - w else w) = \<bar>sint w\<bar>" for w :: u64
  proof -
    have "uint (- w) = wrap_u 8 (- sint w)" "uint w = wrap_u 8 (sint w)"
      by (rule uint_of_wrap; simp)+
    then show ?thesis using bounds64 [of w] wrap_u_id [of 8 "\<bar>sint w\<bar>"] by (auto simp: in_u_def)
  qed
  let ?p = "\<bar>sint a * sint b\<bar>"
  have p: "uint ?A * uint ?B = ?p" by (simp only: ab abs_mult)
  have t: "uint (?A * ?B) = ?p mod 0x10000000000000000"
    using p by (simp only: uint_word_ariths) simp
  have m: "(0x8000000000000000 :: u64) = NOT (mask 63)" by (simp add: mask_eq_exp_minus_1)
  have "?A * ?B AND 0x8000000000000000 = 0 \<longleftrightarrow> uint (?A * ?B) < 0x8000000000000000"
    using high_bits_clear [of 63 "?A * ?B"] by (simp add: m)
  then have "\<not> in_u 8 ?p \<or> ?A * ?B AND 0x8000000000000000 \<noteq> 0 \<longleftrightarrow> \<not> ?p < 0x8000000000000000"
    unfolding t by (auto simp: in_u_def)
  moreover have "(if (sint a < 0) \<noteq> (sint b < 0) then - (?A * ?B) else ?A * ?B) = a * b"
    by auto
  ultimately show ?thesis
    unfolding CheckedMul_i64_def Let_def CheckedMul_u64_exact p by auto
qed

section \<open>Left shift\<close>

text \<open>
  A value shifted by a count below the width of its own type fits the promoted type; a larger
  count shifts every nonzero value out of the range of its own type.
\<close>

lemma push_bit_promote:
  "push_bit n (ucast (a :: 'b::len word) :: 'c::len word) = word_of_int (uint a * 2 ^ n)"
  "push_bit n (scast (a :: 'b::len word) :: 'c::len word) = word_of_int (sint a * 2 ^ n)"
  by (simp_all add: push_bit_eq_mult)

lemma shifted_bounds:
  fixes v :: int
  assumes "k \<le> n" "- m \<le> v" "v < m" "0 \<le> m"
  shows "v * 2 ^ k \<le> m * 2 ^ n" "- (m * 2 ^ n) \<le> v * 2 ^ k"
proof -
  have "v * 2 ^ k \<le> m * 2 ^ k" "- m * 2 ^ k \<le> v * 2 ^ k"
    using assms by (intro mult_right_mono; simp)+
  moreover have "m * 2 ^ k \<le> m * 2 ^ n" using assms by (intro mult_left_mono) auto
  ultimately show "v * 2 ^ k \<le> m * 2 ^ n" "- (m * 2 ^ n) \<le> v * 2 ^ k" by linarith+
qed

lemma shifted_out:
  fixes v :: int
  assumes "n \<le> k"
  shows "0 < v \<Longrightarrow> 2 ^ n \<le> v * 2 ^ k" and "v < 0 \<Longrightarrow> v * 2 ^ k \<le> - (2 ^ n)"
proof -
  have p: "(2::int) ^ n \<le> 2 ^ k" using assms by simp
  { assume "0 < v"
    then have "1 * 2 ^ k \<le> v * 2 ^ k" by (intro mult_right_mono) auto
    with p show "2 ^ n \<le> v * 2 ^ k" by linarith }
  { assume "v < 0"
    then have "v * 2 ^ k \<le> (- 1) * 2 ^ k" by (intro mult_right_mono) auto
    with p show "v * 2 ^ k \<le> - (2 ^ n)" by linarith }
qed

lemma uint_int_unat: "uint (b :: 'b::len word) = int (unat b)"
  by simp

lemma sint_int_unat:
  assumes "0 \<le> sint (b :: 'b::len word)"
  shows "sint b = int (unat b)"
proof -
  have "uint b = take_bit LENGTH('b) (sint b)" by (metis uint_sint)
  moreover have "sint b < 2 ^ LENGTH('b)"
    using sint_lt [of b] by (meson diff_le_self less_le_trans one_le_numeral power_increasing)
  ultimately show ?thesis using assms by (simp add: take_bit_int_eq_self)
qed

text \<open>
  The flag of a shift whose type has \<open>w\<close> bits, where \<open>t\<close> is the range test of the promoted
  result and \<open>P\<close> the range of the type.
\<close>

lemma shift_flag:
  fixes v :: int
  assumes "n < w \<Longrightarrow> t \<longleftrightarrow> \<not> P (v * 2 ^ n)" "v = 0 \<Longrightarrow> \<not> t" "P 0"
    "\<And>x. 2 ^ w \<le> x \<Longrightarrow> \<not> P x" "\<And>x. x \<le> - (2 ^ w) \<Longrightarrow> \<not> P x"
  shows "(v \<noteq> 0 \<and> w \<le> n) \<or> t \<longleftrightarrow> \<not> P (v * 2 ^ n)"
proof (cases "n < w")
  case False
  then have "v \<noteq> 0 \<Longrightarrow> \<not> P (v * 2 ^ n)"
    using shifted_out [of w n v] assms(4,5) by (cases "0 < v") auto
  with False assms(2,3) show ?thesis by auto
qed (use assms(1) in simp)

lemma narrow_signed64:
  assumes "- 0x8000000000000000 \<le> v" "v < 0x8000000000000000"
  shows "sint (word_of_int v :: u64) = v"
  using sint_of_wrap [of 8 "word_of_int v :: u64" v] wrap_s_id [of 8 v] assms by (simp add: in_s_def)

lemma sint_0_iff: "sint (a :: 'b::len word) = 0 \<longleftrightarrow> a = 0"
  by (metis sint_0 signed_word_eqI)

lemma CheckedShl_u8_exact:
  assumes "unat b < 32"
  shows "CheckedShl_u8 a b = Some (word_of_int (uint a * 2 ^ unat b), \<not> in_u 1 (uint a * 2 ^ unat b))"
proof -
  let ?v = "uint a * 2 ^ unat b"
  have "(uint a \<noteq> 0 \<and> 8 \<le> unat b) \<or> (word_of_int ?v :: u32) AND 0xFFFFFF00 \<noteq> 0 \<longleftrightarrow> \<not> in_u 1 ?v"
  proof (rule shift_flag)
    assume "unat b < 8"
    then have "0 \<le> ?v" "?v \<le> 0x100 * 2 ^ 7"
      using shifted_bounds [of "unat b" 7 "0x100" "uint a"] bounds8 [of a] by simp_all
    then show "((word_of_int ?v :: u32) AND 0xFFFFFF00 \<noteq> 0) = (\<not> in_u 1 ?v)"
      by - (rule narrow_unsigned(1); (linarith | simp))
  qed (auto simp: in_u_def)
  then show ?thesis
    using assms narrow_ucast [where 'a = 8 and 'b = 32, of ?v]
    by (simp add: CheckedShl_u8_def Let_def push_bit_promote(1) uint_int_unat unat_eq_zero del: of_int_mult of_nat_unat)
qed

lemma CheckedShl_u16_exact:
  assumes "unat b < 32"
  shows "CheckedShl_u16 a b = Some (word_of_int (uint a * 2 ^ unat b), \<not> in_u 2 (uint a * 2 ^ unat b))"
proof -
  let ?v = "uint a * 2 ^ unat b"
  have "(uint a \<noteq> 0 \<and> 16 \<le> unat b) \<or> (word_of_int ?v :: u32) AND 0xFFFF0000 \<noteq> 0 \<longleftrightarrow> \<not> in_u 2 ?v"
  proof (rule shift_flag)
    assume "unat b < 16"
    then have "0 \<le> ?v" "?v \<le> 0x10000 * 2 ^ 15"
      using shifted_bounds [of "unat b" 15 "0x10000" "uint a"] bounds16 [of a] by simp_all
    then show "((word_of_int ?v :: u32) AND 0xFFFF0000 \<noteq> 0) = (\<not> in_u 2 ?v)"
      by - (rule narrow_unsigned(2); (linarith | simp))
  qed (auto simp: in_u_def)
  then show ?thesis
    using assms narrow_ucast [where 'a = 16 and 'b = 32, of ?v]
    by (simp add: CheckedShl_u16_def Let_def push_bit_promote(1) uint_int_unat unat_eq_zero del: of_int_mult of_nat_unat)
qed

lemma CheckedShl_i8_exact:
  assumes "0 \<le> sint b" "unat b < 32"
  shows "CheckedShl_i8 a b = Some (word_of_int (sint a * 2 ^ unat b), \<not> in_s 1 (sint a * 2 ^ unat b))"
proof -
  let ?v = "sint a * 2 ^ unat b" and ?r = "word_of_int (sint a * 2 ^ unat b) :: u32"
  have "(sint a \<noteq> 0 \<and> 8 \<le> unat b) \<or> (sint ?r > 0x7F \<or> sint ?r < -0x80) \<longleftrightarrow> \<not> in_s 1 ?v"
  proof (rule shift_flag)
    assume "unat b < 8"
    then have "?v \<le> 0x80 * 2 ^ 7" "- (0x80 * 2 ^ 7) \<le> ?v"
      using shifted_bounds [of "unat b" 7 "0x80" "sint a"] bounds8 [of a] by simp_all
    then have "sint ?r = ?v" by (intro narrow_signed) simp_all
    then show "(sint ?r > 0x7F \<or> sint ?r < -0x80) = (\<not> in_s 1 ?v)"
      by (auto simp: in_s_def)
  qed (auto simp: in_s_def)
  then show ?thesis
    using assms narrow_ucast [where 'a = 8 and 'b = 32, of ?v] sint_int_unat [OF assms(1)]
    by (simp add: CheckedShl_i8_def Let_def push_bit_promote(2) sint_0_iff del: of_int_mult of_nat_unat)
qed

lemma CheckedShl_i16_exact:
  assumes "0 \<le> sint b" "unat b < 32"
  shows "CheckedShl_i16 a b = Some (word_of_int (sint a * 2 ^ unat b), \<not> in_s 2 (sint a * 2 ^ unat b))"
proof -
  let ?v = "sint a * 2 ^ unat b" and ?r = "word_of_int (sint a * 2 ^ unat b) :: u32"
  have "(sint a \<noteq> 0 \<and> 16 \<le> unat b) \<or> (sint ?r > 0x7FFF \<or> sint ?r < -0x8000) \<longleftrightarrow> \<not> in_s 2 ?v"
  proof (rule shift_flag)
    assume "unat b < 16"
    then have "?v \<le> 0x8000 * 2 ^ 15" "- (0x8000 * 2 ^ 15) \<le> ?v"
      using shifted_bounds [of "unat b" 15 "0x8000" "sint a"] bounds16 [of a] by simp_all
    then have "sint ?r = ?v" by (intro narrow_signed) simp_all
    then show "(sint ?r > 0x7FFF \<or> sint ?r < -0x8000) = (\<not> in_s 2 ?v)"
      by (auto simp: in_s_def)
  qed (auto simp: in_s_def)
  then show ?thesis
    using assms narrow_ucast [where 'a = 16 and 'b = 32, of ?v] sint_int_unat [OF assms(1)]
    by (simp add: CheckedShl_i16_def Let_def push_bit_promote(2) sint_0_iff del: of_int_mult of_nat_unat)
qed

lemma CheckedShl_i32_exact:
  assumes "0 \<le> sint b" "unat b < 64"
  shows "CheckedShl_i32 a b = Some (word_of_int (sint a * 2 ^ unat b), \<not> in_s 4 (sint a * 2 ^ unat b))"
proof -
  let ?v = "sint a * 2 ^ unat b" and ?r = "word_of_int (sint a * 2 ^ unat b) :: u64"
  have "(sint a \<noteq> 0 \<and> 32 \<le> unat b) \<or> (sint ?r > 0x7FFFFFFF \<or> sint ?r < -0x80000000) \<longleftrightarrow> \<not> in_s 4 ?v"
  proof (rule shift_flag)
    assume "unat b < 32"
    then have "?v \<le> 0x80000000 * 2 ^ 31" "- (0x80000000 * 2 ^ 31) \<le> ?v"
      using shifted_bounds [of "unat b" 31 "0x80000000" "sint a"] bounds32 [of a] by simp_all
    then have "sint ?r = ?v" by (intro narrow_signed64) simp_all
    then show "(sint ?r > 0x7FFFFFFF \<or> sint ?r < -0x80000000) = (\<not> in_s 4 ?v)"
      by (auto simp: in_s_def)
  qed (auto simp: in_s_def)
  then show ?thesis
    using assms narrow_ucast [where 'a = 32 and 'b = 64, of ?v] sint_int_unat [OF assms(1)]
    by (simp add: CheckedShl_i32_def Let_def push_bit_promote(2) sint_0_iff del: of_int_mult of_nat_unat)
qed

text \<open>The full-width shifts compare the result with the operand: a fitting result is never smaller.\<close>

lemma scaled_ge:
  fixes v :: int
  shows "0 \<le> v \<Longrightarrow> v \<le> v * 2 ^ k" and "v \<le> 0 \<Longrightarrow> v * 2 ^ k \<le> v"
proof -
  have p: "(1::int) \<le> 2 ^ k" by simp
  show "0 \<le> v \<Longrightarrow> v \<le> v * 2 ^ k" using mult_left_mono [OF p, of v] by simp
  show "v \<le> 0 \<Longrightarrow> v * 2 ^ k \<le> v" using mult_left_mono_neg [OF p, of v] by simp
qed

lemma two_pow_ge_1: "\<not> (2::int) ^ k < 1"
  by (simp add: not_less)

lemma push_bit_fits:
  assumes n: "LENGTH('a::len) = 8 * n"
  shows "in_u n (uint a * 2 ^ k) \<Longrightarrow> uint (push_bit k (a :: 'a word)) = uint a * 2 ^ k"
    and "in_s n (sint a * 2 ^ k) \<Longrightarrow> sint (push_bit k (a :: 'a word)) = sint a * 2 ^ k"
proof -
  have pos: "0 < n" using n len_gt_0 [where 'a='a] by (cases n) auto
  show "in_u n (uint a * 2 ^ k) \<Longrightarrow> uint (push_bit k a) = uint a * 2 ^ k"
    using uint_of_wrap [OF n, of "push_bit k a" "uint a * 2 ^ k"] by (simp add: push_bit_eq_mult wrap_u_id)
  show "in_s n (sint a * 2 ^ k) \<Longrightarrow> sint (push_bit k a) = sint a * 2 ^ k"
    using sint_of_wrap [OF n, of "push_bit k a" "sint a * 2 ^ k"] pos by (simp add: push_bit_eq_mult wrap_s_id)
qed

lemma CheckedShl_full_flag:
  "CheckedShl_u32 a b = Some (r, True) \<Longrightarrow> \<not> in_u 4 (uint a * 2 ^ unat b)"
  "CheckedShl_u64 c d = Some (s, True) \<Longrightarrow> \<not> in_u 8 (uint c * 2 ^ unat d)"
  "CheckedShl_i64 c d = Some (s, True) \<Longrightarrow> \<not> in_s 8 (sint c * 2 ^ unat d)"
  using push_bit_fits(1) [of 4 a "unat b"] push_bit_fits(1) [of 8 c "unat d"] push_bit_fits(2) [of 8 c "unat d"]
    scaled_ge(1) [of "uint a" "unat b"] scaled_ge(1) [of "uint c" "unat d"]
    scaled_ge [of "sint c" "unat d"]
  by (auto simp: CheckedShl_u32_def CheckedShl_u64_def CheckedShl_i64_def Let_def word_less_def
        word_sless_alt two_pow_ge_1 split: if_splits)

section \<open>Properties\<close>

text \<open>
  C12 (Checked sums and differences). Each of the sixteen overloads of \<open>CheckedAdd\<close> and
  \<open>CheckedSub\<close> returns the wrapped result and reports failure exactly when the mathematical
  result is outside the type's range.
\<close>

theorem checked_add_sub_exact:
  "CheckedAdd_u8 a b = (a + b, \<not> in_u 1 (uint a + uint b)) \<and>
   CheckedAdd_i8 a b = (a + b, \<not> in_s 1 (sint a + sint b)) \<and>
   CheckedSub_u8 a b = (a - b, \<not> in_u 1 (uint a - uint b)) \<and>
   CheckedSub_i8 a b = (a - b, \<not> in_s 1 (sint a - sint b)) \<and>
   CheckedAdd_u16 c d = (c + d, \<not> in_u 2 (uint c + uint d)) \<and>
   CheckedAdd_i16 c d = (c + d, \<not> in_s 2 (sint c + sint d)) \<and>
   CheckedSub_u16 c d = (c - d, \<not> in_u 2 (uint c - uint d)) \<and>
   CheckedSub_i16 c d = (c - d, \<not> in_s 2 (sint c - sint d)) \<and>
   CheckedAdd_u32 e f = (e + f, \<not> in_u 4 (uint e + uint f)) \<and>
   CheckedAdd_i32 e f = (e + f, \<not> in_s 4 (sint e + sint f)) \<and>
   CheckedSub_u32 e f = (e - f, \<not> in_u 4 (uint e - uint f)) \<and>
   CheckedSub_i32 e f = (e - f, \<not> in_s 4 (sint e - sint f)) \<and>
   CheckedAdd_u64 g h = (g + h, \<not> in_u 8 (uint g + uint h)) \<and>
   CheckedAdd_i64 g h = (g + h, \<not> in_s 8 (sint g + sint h)) \<and>
   CheckedSub_u64 g h = (g - h, \<not> in_u 8 (uint g - uint h)) \<and>
   CheckedSub_i64 g h = (g - h, \<not> in_s 8 (sint g - sint h))"
  by (intro conjI CheckedAdd_narrow_exact CheckedSub_narrow_exact CheckedAdd_wide_exact CheckedSub_wide_exact)

text \<open>
  C13 (Checked products). Every overload of \<open>CheckedMul\<close> returns the wrapped product. The six
  unsigned and narrow overloads fail exactly when it does not fit. The 32-bit signed one accepts
  every product from \<open>-2^32\<close> to below \<open>2^32\<close>, so it misses overflows by one bit, and the 64-bit
  signed one rejects the product \<open>-2^63\<close>, which fits.
\<close>

theorem checked_mul_flags:
  "CheckedMul_u8 a b = (a * b, \<not> in_u 1 (uint a * uint b)) \<and>
   CheckedMul_i8 a b = (a * b, \<not> in_s 1 (sint a * sint b)) \<and>
   CheckedMul_u16 c d = (c * d, \<not> in_u 2 (uint c * uint d)) \<and>
   CheckedMul_i16 c d = (c * d, \<not> in_s 2 (sint c * sint d)) \<and>
   CheckedMul_u32 e f = (e * f, \<not> in_u 4 (uint e * uint f)) \<and>
   CheckedMul_i32 e f = (e * f, sint e * sint f < - 0x100000000 \<or> 0x100000000 \<le> sint e * sint f) \<and>
   CheckedMul_u64 g h = (g * h, \<not> in_u 8 (uint g * uint h)) \<and>
   CheckedMul_i64 g h = (g * h, 0x8000000000000000 \<le> \<bar>sint g * sint h\<bar>) \<and>
   CheckedMul_i32 0x40000000 2 = (0x80000000, False) \<and> \<not> in_s 4 (sint (0x40000000 :: u32) * 2) \<and>
   CheckedMul_i64 0x8000000000000000 1 = (0x8000000000000000, True) \<and> in_s 8 (sint (0x8000000000000000 :: u64) * 1)"
  unfolding CheckedMul_narrow_unsigned CheckedMul_narrow_signed CheckedMul_u32_exact CheckedMul_u64_exact
    CheckedMul_i32_flag CheckedMul_i64_flag
  by (auto simp: in_s_def)

text \<open>
  For every count for which C++ defines the shift, the overloads of
  \<open>CheckedShl\<close> for 8 and 16 bits and for \<open>int32\<close> return the wrapped \<open>a * 2^b\<close> and fail exactly
  when it does not fit.
\<close>

theorem checked_shl_exact:
  assumes "unat b < 32" "unat d < 32" "unat f < 64" "0 \<le> sint b" "0 \<le> sint d" "0 \<le> sint f"
  shows "CheckedShl_u8 a b = Some (word_of_int (uint a * 2 ^ unat b), \<not> in_u 1 (uint a * 2 ^ unat b)) \<and>
         CheckedShl_i8 a b = Some (word_of_int (sint a * 2 ^ unat b), \<not> in_s 1 (sint a * 2 ^ unat b)) \<and>
         CheckedShl_u16 c d = Some (word_of_int (uint c * 2 ^ unat d), \<not> in_u 2 (uint c * 2 ^ unat d)) \<and>
         CheckedShl_i16 c d = Some (word_of_int (sint c * 2 ^ unat d), \<not> in_s 2 (sint c * 2 ^ unat d)) \<and>
         CheckedShl_i32 e f = Some (word_of_int (sint e * 2 ^ unat f), \<not> in_s 4 (sint e * 2 ^ unat f))"
  by (intro conjI CheckedShl_u8_exact CheckedShl_i8_exact CheckedShl_u16_exact CheckedShl_i16_exact
        CheckedShl_i32_exact assms)

theorem checked_shl_exact_witness:
  "CheckedShl_i8 (0xC0 :: u8) 1 = Some (0x80, False) \<and> CheckedShl_i32 (0x40000000 :: u32) 1 = Some (0x80000000, True)"
  using checked_shl_exact [of 1 1 1 "0xC0 :: u8" 0 "0x40000000 :: u32"] by (simp add: in_s_def)

text \<open>
  The overloads of \<open>CheckedShl\<close> for \<open>uint32\<close>, \<open>uint64\<close> and \<open>int64\<close> never
  fail without an overflow, but since they only compare the result with the operand they accept
  shifts that lose bits.
\<close>

theorem checked_shl_full_width:
  "(CheckedShl_u32 a b = Some (r, True) \<longrightarrow> \<not> in_u 4 (uint a * 2 ^ unat b)) \<and>
   (CheckedShl_u64 c d = Some (s, True) \<longrightarrow> \<not> in_u 8 (uint c * 2 ^ unat d)) \<and>
   (CheckedShl_i64 c d = Some (s, True) \<longrightarrow> \<not> in_s 8 (sint c * 2 ^ unat d)) \<and>
   CheckedShl_u32 3 31 = Some (0x80000000, False) \<and> \<not> in_u 4 (uint (3 :: u32) * 2 ^ 31) \<and>
   CheckedShl_u64 3 63 = Some (0x8000000000000000, False) \<and> \<not> in_u 8 (uint (3 :: u64) * 2 ^ 63) \<and>
   CheckedShl_i64 5 62 = Some (0x4000000000000000, False) \<and> \<not> in_s 8 (sint (5 :: u64) * 2 ^ 62)"
proof -
  have "CheckedShl_u32 3 31 = Some (0x80000000, False)" "CheckedShl_u64 3 63 = Some (0x8000000000000000, False)"
    "CheckedShl_i64 5 62 = Some (0x4000000000000000, False)" by code_simp+
  then show ?thesis using CheckedShl_full_flag by (simp add: in_u_def in_s_def)
qed

theorem checked_shl_full_width_witness:
  "\<not> in_u 4 (uint (6 :: u32) * 2 ^ unat (31 :: u32)) \<and> \<not> in_u 8 (uint (8 :: u64) * 2 ^ unat (62 :: u64)) \<and>
   \<not> in_s 8 (sint (8 :: u64) * 2 ^ unat (62 :: u64))"
proof -
  have "CheckedShl_u32 6 31 = Some (0, True)" "CheckedShl_u64 8 62 = Some (0, True)"
    "CheckedShl_i64 8 62 = Some (0, True)" by code_simp+
  then show ?thesis using checked_shl_full_width [of 6 31 0 8 62 0] by blast
qed

end
