(* ===== verification/Beef_Const.thy ===== *)
theory Beef_Const
  imports Beef_Prelude
begin

text \<open>
  The constants of the IR builder (\<open>BfIRConstHolder\<close> in BfIRBuilder.h and BfIRBuilder.cpp): type
  codes, the pool of constants, their creation, the test for zero and the comparison of two
  constants.  A constant is addressed by its position in the pool; the source uses its position
  in the bump allocator, which is as stable and as unique.  \<open>None\<close> stands for undefined
  behaviour: an id outside the pool, or a read of a payload that the addressed object does not have.
\<close>

unbundle bit_operations_syntax

section \<open>Type codes\<close>

datatype (plugins only: size code) bf_type_code =
  BfTypeCode_None | BfTypeCode_CharPtr | BfTypeCode_StringId | BfTypeCode_Pointer
  | BfTypeCode_NullPtr | BfTypeCode_Self | BfTypeCode_Dot | BfTypeCode_Var | BfTypeCode_Let
  | BfTypeCode_Boolean | BfTypeCode_Int8 | BfTypeCode_UInt8 | BfTypeCode_Int16 | BfTypeCode_UInt16
  | BfTypeCode_Int24 | BfTypeCode_UInt24 | BfTypeCode_Int32 | BfTypeCode_UInt32 | BfTypeCode_Int40
  | BfTypeCode_UInt40 | BfTypeCode_Int48 | BfTypeCode_UInt48 | BfTypeCode_Int56 | BfTypeCode_UInt56
  | BfTypeCode_Int64 | BfTypeCode_UInt64 | BfTypeCode_Int128 | BfTypeCode_UInt128
  | BfTypeCode_IntPtr | BfTypeCode_UIntPtr | BfTypeCode_IntUnknown | BfTypeCode_UIntUnknown
  | BfTypeCode_Char8 | BfTypeCode_Char16 | BfTypeCode_Char32 | BfTypeCode_Float | BfTypeCode_Double
  | BfTypeCode_Float2 | BfTypeCode_Float4 | BfTypeCode_Int32_4 | BfTypeCode_Bool2 | BfTypeCode_Bool4
  | BfTypeCode_V128 | BfTypeCode_Object | BfTypeCode_Interface | BfTypeCode_Struct | BfTypeCode_Enum
  | BfTypeCode_TypeAlias | BfTypeCode_Extension | BfTypeCode_FloatX1 | BfTypeCode_FloatX2
  | BfTypeCode_FloatX3 | BfTypeCode_FloatX4 | BfTypeCode_DoubleX1 | BfTypeCode_DoubleX2
  | BfTypeCode_DoubleX3 | BfTypeCode_DoubleX4 | BfTypeCode_Int64X2 | BfTypeCode_Int64X3
  | BfTypeCode_Int64X4

text \<open>\<open>enum BfConstType\<close>, which continues the numbering of the type codes.\<close>

datatype (plugins only: size code) bf_const_type =
  BfConstType_GlobalVar | BfConstType_BitCast | BfConstType_BitCastNull | BfConstType_GEP32_1
  | BfConstType_GEP32_2 | BfConstType_ExtractValue | BfConstType_PtrToInt | BfConstType_IntToPtr
  | BfConstType_TypeOf | BfConstType_TypeOf_WithData | BfConstType_TypeOf_Comptime
  | BfConstType_AggZero | BfConstType_Agg | BfConstType_AggCE | BfConstType_ArrayZero
  | BfConstType_ArrayZero8 | BfConstType_Undef | BfConstType_SizedArrayType | BfConstType_Box

primrec type_code_nat :: "bf_type_code \<Rightarrow> nat" where
  "type_code_nat BfTypeCode_None = 0"
| "type_code_nat BfTypeCode_CharPtr = 1"
| "type_code_nat BfTypeCode_StringId = 2"
| "type_code_nat BfTypeCode_Pointer = 3"
| "type_code_nat BfTypeCode_NullPtr = 4"
| "type_code_nat BfTypeCode_Self = 5"
| "type_code_nat BfTypeCode_Dot = 6"
| "type_code_nat BfTypeCode_Var = 7"
| "type_code_nat BfTypeCode_Let = 8"
| "type_code_nat BfTypeCode_Boolean = 9"
| "type_code_nat BfTypeCode_Int8 = 10"
| "type_code_nat BfTypeCode_UInt8 = 11"
| "type_code_nat BfTypeCode_Int16 = 12"
| "type_code_nat BfTypeCode_UInt16 = 13"
| "type_code_nat BfTypeCode_Int24 = 14"
| "type_code_nat BfTypeCode_UInt24 = 15"
| "type_code_nat BfTypeCode_Int32 = 16"
| "type_code_nat BfTypeCode_UInt32 = 17"
| "type_code_nat BfTypeCode_Int40 = 18"
| "type_code_nat BfTypeCode_UInt40 = 19"
| "type_code_nat BfTypeCode_Int48 = 20"
| "type_code_nat BfTypeCode_UInt48 = 21"
| "type_code_nat BfTypeCode_Int56 = 22"
| "type_code_nat BfTypeCode_UInt56 = 23"
| "type_code_nat BfTypeCode_Int64 = 24"
| "type_code_nat BfTypeCode_UInt64 = 25"
| "type_code_nat BfTypeCode_Int128 = 26"
| "type_code_nat BfTypeCode_UInt128 = 27"
| "type_code_nat BfTypeCode_IntPtr = 28"
| "type_code_nat BfTypeCode_UIntPtr = 29"
| "type_code_nat BfTypeCode_IntUnknown = 30"
| "type_code_nat BfTypeCode_UIntUnknown = 31"
| "type_code_nat BfTypeCode_Char8 = 32"
| "type_code_nat BfTypeCode_Char16 = 33"
| "type_code_nat BfTypeCode_Char32 = 34"
| "type_code_nat BfTypeCode_Float = 35"
| "type_code_nat BfTypeCode_Double = 36"
| "type_code_nat BfTypeCode_Float2 = 37"
| "type_code_nat BfTypeCode_Float4 = 38"
| "type_code_nat BfTypeCode_Int32_4 = 39"
| "type_code_nat BfTypeCode_Bool2 = 40"
| "type_code_nat BfTypeCode_Bool4 = 41"
| "type_code_nat BfTypeCode_V128 = 42"
| "type_code_nat BfTypeCode_Object = 43"
| "type_code_nat BfTypeCode_Interface = 44"
| "type_code_nat BfTypeCode_Struct = 45"
| "type_code_nat BfTypeCode_Enum = 46"
| "type_code_nat BfTypeCode_TypeAlias = 47"
| "type_code_nat BfTypeCode_Extension = 48"
| "type_code_nat BfTypeCode_FloatX1 = 49"
| "type_code_nat BfTypeCode_FloatX2 = 50"
| "type_code_nat BfTypeCode_FloatX3 = 51"
| "type_code_nat BfTypeCode_FloatX4 = 52"
| "type_code_nat BfTypeCode_DoubleX1 = 53"
| "type_code_nat BfTypeCode_DoubleX2 = 54"
| "type_code_nat BfTypeCode_DoubleX3 = 55"
| "type_code_nat BfTypeCode_DoubleX4 = 56"
| "type_code_nat BfTypeCode_Int64X2 = 57"
| "type_code_nat BfTypeCode_Int64X3 = 58"
| "type_code_nat BfTypeCode_Int64X4 = 59"

definition BfTypeCode_Length :: nat where
  "BfTypeCode_Length = 60"

text \<open>The comparisons of the code are those of the numbers, a linear order.\<close>

definition type_codes :: "bf_type_code list" where
  "type_codes = [
    BfTypeCode_None, BfTypeCode_CharPtr, BfTypeCode_StringId, BfTypeCode_Pointer, BfTypeCode_NullPtr,
    BfTypeCode_Self, BfTypeCode_Dot, BfTypeCode_Var, BfTypeCode_Let, BfTypeCode_Boolean, BfTypeCode_Int8,
    BfTypeCode_UInt8, BfTypeCode_Int16, BfTypeCode_UInt16, BfTypeCode_Int24, BfTypeCode_UInt24,
    BfTypeCode_Int32, BfTypeCode_UInt32, BfTypeCode_Int40, BfTypeCode_UInt40, BfTypeCode_Int48,
    BfTypeCode_UInt48, BfTypeCode_Int56, BfTypeCode_UInt56, BfTypeCode_Int64, BfTypeCode_UInt64,
    BfTypeCode_Int128, BfTypeCode_UInt128, BfTypeCode_IntPtr, BfTypeCode_UIntPtr, BfTypeCode_IntUnknown,
    BfTypeCode_UIntUnknown, BfTypeCode_Char8, BfTypeCode_Char16, BfTypeCode_Char32, BfTypeCode_Float,
    BfTypeCode_Double, BfTypeCode_Float2, BfTypeCode_Float4, BfTypeCode_Int32_4, BfTypeCode_Bool2,
    BfTypeCode_Bool4, BfTypeCode_V128, BfTypeCode_Object, BfTypeCode_Interface, BfTypeCode_Struct,
    BfTypeCode_Enum, BfTypeCode_TypeAlias, BfTypeCode_Extension, BfTypeCode_FloatX1, BfTypeCode_FloatX2,
    BfTypeCode_FloatX3, BfTypeCode_FloatX4, BfTypeCode_DoubleX1, BfTypeCode_DoubleX2, BfTypeCode_DoubleX3,
    BfTypeCode_DoubleX4, BfTypeCode_Int64X2, BfTypeCode_Int64X3, BfTypeCode_Int64X4]"

lemma type_codes_nth: "type_codes ! type_code_nat tc = tc"
  by (cases tc) (simp_all add: type_codes_def)

lemma type_code_nat_inj: "type_code_nat a = type_code_nat b \<longleftrightarrow> a = b"
  by (metis type_codes_nth)

instantiation bf_type_code :: linorder
begin

definition less_eq_bf_type_code :: "bf_type_code \<Rightarrow> bf_type_code \<Rightarrow> bool" where
  "a \<le> b \<longleftrightarrow> type_code_nat a \<le> type_code_nat b"

definition less_bf_type_code :: "bf_type_code \<Rightarrow> bf_type_code \<Rightarrow> bool" where
  "a < b \<longleftrightarrow> type_code_nat a < type_code_nat b"

instance
  by standard (auto simp: less_eq_bf_type_code_def less_bf_type_code_def type_code_nat_inj)

end

primrec const_type_nat :: "bf_const_type \<Rightarrow> nat" where
  "const_type_nat BfConstType_GlobalVar = BfTypeCode_Length + 0"
| "const_type_nat BfConstType_BitCast = BfTypeCode_Length + 1"
| "const_type_nat BfConstType_BitCastNull = BfTypeCode_Length + 2"
| "const_type_nat BfConstType_GEP32_1 = BfTypeCode_Length + 3"
| "const_type_nat BfConstType_GEP32_2 = BfTypeCode_Length + 4"
| "const_type_nat BfConstType_ExtractValue = BfTypeCode_Length + 5"
| "const_type_nat BfConstType_PtrToInt = BfTypeCode_Length + 6"
| "const_type_nat BfConstType_IntToPtr = BfTypeCode_Length + 7"
| "const_type_nat BfConstType_TypeOf = BfTypeCode_Length + 8"
| "const_type_nat BfConstType_TypeOf_WithData = BfTypeCode_Length + 9"
| "const_type_nat BfConstType_TypeOf_Comptime = BfTypeCode_Length + 10"
| "const_type_nat BfConstType_AggZero = BfTypeCode_Length + 11"
| "const_type_nat BfConstType_Agg = BfTypeCode_Length + 12"
| "const_type_nat BfConstType_AggCE = BfTypeCode_Length + 13"
| "const_type_nat BfConstType_ArrayZero = BfTypeCode_Length + 14"
| "const_type_nat BfConstType_ArrayZero8 = BfTypeCode_Length + 15"
| "const_type_nat BfConstType_Undef = BfTypeCode_Length + 16"
| "const_type_nat BfConstType_SizedArrayType = BfTypeCode_Length + 17"
| "const_type_nat BfConstType_Box = BfTypeCode_Length + 18"

definition FixTypeCode :: "nat \<Rightarrow> bf_type_code \<Rightarrow> bf_type_code" where
  "FixTypeCode ptrSize tc =
     (case tc of
        BfTypeCode_IntUnknown \<Rightarrow> BfTypeCode_Int64
      | BfTypeCode_UIntUnknown \<Rightarrow> BfTypeCode_UInt64
      | BfTypeCode_IntPtr \<Rightarrow> (if ptrSize = 4 then BfTypeCode_Int32 else BfTypeCode_Int64)
      | BfTypeCode_UIntPtr \<Rightarrow> (if ptrSize = 4 then BfTypeCode_UInt32 else BfTypeCode_UInt64)
      | _ \<Rightarrow> tc)"

primrec GetSize :: "bf_type_code \<Rightarrow> nat \<Rightarrow> nat" where
  "GetSize BfTypeCode_None ptrSize = 0"
| "GetSize BfTypeCode_CharPtr ptrSize = ptrSize"
| "GetSize BfTypeCode_StringId ptrSize = 4"
| "GetSize BfTypeCode_Pointer ptrSize = ptrSize"
| "GetSize BfTypeCode_NullPtr ptrSize = ptrSize"
| "GetSize BfTypeCode_Self ptrSize = 0"
| "GetSize BfTypeCode_Dot ptrSize = 0"
| "GetSize BfTypeCode_Var ptrSize = 0"
| "GetSize BfTypeCode_Let ptrSize = 0"
| "GetSize BfTypeCode_Boolean ptrSize = 1"
| "GetSize BfTypeCode_Int8 ptrSize = 1"
| "GetSize BfTypeCode_UInt8 ptrSize = 1"
| "GetSize BfTypeCode_Int16 ptrSize = 2"
| "GetSize BfTypeCode_UInt16 ptrSize = 2"
| "GetSize BfTypeCode_Int24 ptrSize = 3"
| "GetSize BfTypeCode_UInt24 ptrSize = 3"
| "GetSize BfTypeCode_Int32 ptrSize = 4"
| "GetSize BfTypeCode_UInt32 ptrSize = 4"
| "GetSize BfTypeCode_Int40 ptrSize = 5"
| "GetSize BfTypeCode_UInt40 ptrSize = 5"
| "GetSize BfTypeCode_Int48 ptrSize = 6"
| "GetSize BfTypeCode_UInt48 ptrSize = 6"
| "GetSize BfTypeCode_Int56 ptrSize = 7"
| "GetSize BfTypeCode_UInt56 ptrSize = 7"
| "GetSize BfTypeCode_Int64 ptrSize = 8"
| "GetSize BfTypeCode_UInt64 ptrSize = 8"
| "GetSize BfTypeCode_Int128 ptrSize = 16"
| "GetSize BfTypeCode_UInt128 ptrSize = 16"
| "GetSize BfTypeCode_IntPtr ptrSize = ptrSize"
| "GetSize BfTypeCode_UIntPtr ptrSize = ptrSize"
| "GetSize BfTypeCode_IntUnknown ptrSize = 0"
| "GetSize BfTypeCode_UIntUnknown ptrSize = 0"
| "GetSize BfTypeCode_Char8 ptrSize = 1"
| "GetSize BfTypeCode_Char16 ptrSize = 2"
| "GetSize BfTypeCode_Char32 ptrSize = 4"
| "GetSize BfTypeCode_Float ptrSize = 4"
| "GetSize BfTypeCode_Double ptrSize = 8"
| "GetSize BfTypeCode_Float2 ptrSize = 8"
| "GetSize BfTypeCode_Float4 ptrSize = 16"
| "GetSize BfTypeCode_Int32_4 ptrSize = 16"
| "GetSize BfTypeCode_Bool2 ptrSize = 2"
| "GetSize BfTypeCode_Bool4 ptrSize = 4"
| "GetSize BfTypeCode_V128 ptrSize = 16"
| "GetSize BfTypeCode_Object ptrSize = ptrSize"
| "GetSize BfTypeCode_Interface ptrSize = ptrSize"
| "GetSize BfTypeCode_Struct ptrSize = 0"
| "GetSize BfTypeCode_Enum ptrSize = 0"
| "GetSize BfTypeCode_TypeAlias ptrSize = 0"
| "GetSize BfTypeCode_Extension ptrSize = 0"
| "GetSize BfTypeCode_FloatX1 ptrSize = 0"
| "GetSize BfTypeCode_FloatX2 ptrSize = 8"
| "GetSize BfTypeCode_FloatX3 ptrSize = 12"
| "GetSize BfTypeCode_FloatX4 ptrSize = 16"
| "GetSize BfTypeCode_DoubleX1 ptrSize = 0"
| "GetSize BfTypeCode_DoubleX2 ptrSize = 16"
| "GetSize BfTypeCode_DoubleX3 ptrSize = 24"
| "GetSize BfTypeCode_DoubleX4 ptrSize = 32"
| "GetSize BfTypeCode_Int64X2 ptrSize = 16"
| "GetSize BfTypeCode_Int64X3 ptrSize = 24"
| "GetSize BfTypeCode_Int64X4 ptrSize = 32"

text \<open>Ranges of the enumeration.\<close>

definition IsInt :: "bf_type_code \<Rightarrow> bool" where
  "IsInt tc \<longleftrightarrow> BfTypeCode_Int8 \<le> tc \<and> tc \<le> BfTypeCode_Char32"

definition IsChar :: "bf_type_code \<Rightarrow> bool" where
  "IsChar tc \<longleftrightarrow> BfTypeCode_Char8 \<le> tc \<and> tc \<le> BfTypeCode_Char32"

definition IsIntable :: "bf_type_code \<Rightarrow> bool" where
  "IsIntable tc \<longleftrightarrow> BfTypeCode_Boolean \<le> tc \<and> tc \<le> BfTypeCode_Char32"

text \<open>The ranges by number.\<close>

lemma IsInt_nat: "IsInt tc \<longleftrightarrow> type_code_nat BfTypeCode_Int8 \<le> type_code_nat tc \<and> type_code_nat tc \<le> type_code_nat BfTypeCode_Char32"
  by (simp add: IsInt_def less_eq_bf_type_code_def)

lemma IsChar_nat: "IsChar tc \<longleftrightarrow> type_code_nat BfTypeCode_Char8 \<le> type_code_nat tc \<and> type_code_nat tc \<le> type_code_nat BfTypeCode_Char32"
  by (simp add: IsChar_def less_eq_bf_type_code_def)

lemma IsIntable_nat: "IsIntable tc \<longleftrightarrow> type_code_nat BfTypeCode_Boolean \<le> type_code_nat tc \<and> type_code_nat tc \<le> type_code_nat BfTypeCode_Char32"
  by (simp add: IsIntable_def less_eq_bf_type_code_def)

definition IsSigned :: "bf_type_code \<Rightarrow> bool" where
  "IsSigned tc \<longleftrightarrow> tc = BfTypeCode_Int64 \<or> tc = BfTypeCode_Int32 \<or> tc = BfTypeCode_Int16 \<or>
                 tc = BfTypeCode_Int8 \<or> tc = BfTypeCode_IntPtr"

definition IsFloat :: "bf_type_code \<Rightarrow> bool" where
  "IsFloat tc \<longleftrightarrow> tc = BfTypeCode_Float \<or> tc = BfTypeCode_Double"

section \<open>Values and constants\<close>

text \<open>\<open>BfIRValue\<close>: flags and an id. A value is a constant when its flags have the bit 4.\<close>

datatype bf_value = BfIRValue (v_flags: nat) (v_id: int)

definition BfIRValueFlags_Value :: nat where "BfIRValueFlags_Value = 1"
definition BfIRValueFlags_Const :: nat where "BfIRValueFlags_Const = 4"

definition IsConst :: "bf_value \<Rightarrow> bool" where
  "IsConst v \<longleftrightarrow> v_flags v AND BfIRValueFlags_Const \<noteq> 0"

text \<open>\<open>BfIRType\<close>, of the two kinds the folding code makes.\<close>

datatype bf_ir_type = TypeKind_TypeCode bf_type_code | TypeKind_TypeId int

text \<open>
  The objects of the pool: the struct types that share the leading tag \<open>mTypeCode\<close> or
  \<open>mConstType\<close>.  \<open>BfConstant\<close> carries its eight-byte payload; the others carry what the modelled
  code reads of them.
\<close>

datatype (plugins only: size code) bf_const =
    BfConstant bf_type_code u64
  | BfConstantUndef bf_ir_type
  | BfConstantBitCast int
  | BfConstantGEP32_2 int
  | BfConstantAgg "bf_value list"
  | BfConstantAggZero
  | BfTypeOf_Const bf_const_type nat
  | BfConstOther bf_const_type

fun const_tag :: "bf_const \<Rightarrow> nat" where
  "const_tag (BfConstant tc w) = type_code_nat tc"
| "const_tag (BfConstantUndef t) = const_type_nat BfConstType_Undef"
| "const_tag (BfConstantBitCast i) = const_type_nat BfConstType_BitCast"
| "const_tag (BfConstantGEP32_2 i) = const_type_nat BfConstType_GEP32_2"
| "const_tag (BfConstantAgg vs) = const_type_nat BfConstType_Agg"
| "const_tag BfConstantAggZero = const_type_nat BfConstType_AggZero"
| "const_tag (BfTypeOf_Const k t) = const_type_nat k"
| "const_tag (BfConstOther k) = const_type_nat k"

type_synonym bf_pool = "bf_const list"

definition GetConstantById :: "bf_pool \<Rightarrow> int \<Rightarrow> bf_const option" where
  "GetConstantById P i = (if 0 \<le> i \<and> i < int (length P) then Some (P ! nat i) else None)"

text \<open>\<open>BfIRValue(BfIRValueFlags_Const, id)\<close>\<close>

definition const_value :: "int \<Rightarrow> bf_value" where
  "const_value i = BfIRValue BfIRValueFlags_Const i"

text \<open>The members of the payload union.\<close>

definition mInt8 :: "u64 \<Rightarrow> u8" where "mInt8 w = ucast w"
definition mInt16 :: "u64 \<Rightarrow> u16" where "mInt16 w = ucast w"
definition mInt32 :: "u64 \<Rightarrow> u32" where "mInt32 w = ucast w"

section \<open>Creating constants\<close>

text \<open>
  \<open>CreateConst(typeCode, uint64)\<close>.  Its case for \<open>UInt8\<close> writes one byte of the payload only; the
  pool's memory is zeroed, so that the payload is the zero-extended byte.
\<close>

definition const_payload_u64 :: "bf_type_code \<Rightarrow> u64 \<Rightarrow> u64" where
  "const_payload_u64 tc val =
     (case tc of
        BfTypeCode_Int8 \<Rightarrow> scast (ucast val :: u8)
      | BfTypeCode_Int16 \<Rightarrow> scast (ucast val :: u16)
      | BfTypeCode_Int32 \<Rightarrow> scast (ucast val :: u32)
      | BfTypeCode_UInt8 \<Rightarrow> ucast (ucast val :: u8)
      | BfTypeCode_UInt16 \<Rightarrow> ucast (ucast val :: u16)
      | BfTypeCode_UInt32 \<Rightarrow> ucast (ucast val :: u32)
      | _ \<Rightarrow> val)"

text \<open>\<open>CreateConst(typeCode, int)\<close>\<close>

definition const_payload_int :: "bf_type_code \<Rightarrow> u32 \<Rightarrow> u64" where
  "const_payload_int tc val =
     (case tc of
        BfTypeCode_Int8 \<Rightarrow> scast (ucast val :: u8)
      | BfTypeCode_Int16 \<Rightarrow> scast (ucast val :: u16)
      | BfTypeCode_UInt8 \<Rightarrow> ucast (ucast val :: u8)
      | BfTypeCode_UInt16 \<Rightarrow> ucast (ucast val :: u16)
      | BfTypeCode_UInt32 \<Rightarrow> ucast val
      | _ \<Rightarrow> scast val)"

definition add_const :: "bf_const \<Rightarrow> bf_pool \<Rightarrow> bf_value \<times> bf_pool" where
  "add_const c P = (const_value (int (length P)), P @ [c])"

definition CreateConst_u64 :: "nat \<Rightarrow> bf_type_code \<Rightarrow> u64 \<Rightarrow> bf_pool \<Rightarrow> bf_value \<times> bf_pool" where
  "CreateConst_u64 ptrSize tc val P =
     (let tc = FixTypeCode ptrSize tc in add_const (BfConstant tc (const_payload_u64 tc val)) P)"

definition CreateConst_int :: "nat \<Rightarrow> bf_type_code \<Rightarrow> u32 \<Rightarrow> bf_pool \<Rightarrow> bf_value \<times> bf_pool" where
  "CreateConst_int ptrSize tc val P =
     (let tc = FixTypeCode ptrSize tc in add_const (BfConstant tc (const_payload_int tc val)) P)"

text \<open>A \<open>double\<close> is given by its bits.\<close>

definition CreateConst_double :: "bf_type_code \<Rightarrow> u64 \<Rightarrow> bf_pool \<Rightarrow> bf_value \<times> bf_pool" where
  "CreateConst_double tc val P = add_const (BfConstant tc val) P"

definition GetUndefConstValue :: "bf_ir_type \<Rightarrow> bf_pool \<Rightarrow> bf_value \<times> bf_pool" where
  "GetUndefConstValue t P = add_const (BfConstantUndef t) P"

section \<open>Zero test and comparison\<close>

text \<open>
  The loops over the elements of an aggregate leave at the first result other than 1.  The
  recursion follows references into the pool, so the definitions carry fuel; it cannot run out
  when every object refers to earlier objects only, see below.
\<close>

primrec all_one :: "('a \<Rightarrow> int option) \<Rightarrow> 'a list \<Rightarrow> int option" where
  "all_one f [] = Some 1"
| "all_one f (x # xs) = (case f x of None \<Rightarrow> None | Some r \<Rightarrow> if r \<noteq> 1 then Some r else all_one f xs)"

definition in_value_range :: "bf_type_code \<Rightarrow> bool" where
  "in_value_range tc \<longleftrightarrow> type_code_nat BfTypeCode_Boolean \<le> type_code_nat tc \<and>
                       type_code_nat tc \<le> type_code_nat BfTypeCode_Double"

primrec is_zero :: "nat \<Rightarrow> bf_pool \<Rightarrow> bf_value \<Rightarrow> int option" where
  "is_zero 0 P v = None"
| "is_zero (Suc n) P v =
     (if \<not> IsConst v then Some (-1)
      else case GetConstantById P (v_id v) of
             None \<Rightarrow> None
           | Some c \<Rightarrow>
               (case c of
                  BfConstant tc w \<Rightarrow> Some (if in_value_range tc then (if w = 0 then 1 else 0) else -1)
                | BfConstantAggZero \<Rightarrow> Some 1
                | BfConstantAgg vs \<Rightarrow> all_one (is_zero n P) vs
                | _ \<Rightarrow> Some (-1)))"

definition IsZero :: "bf_pool \<Rightarrow> bf_value \<Rightarrow> int option" where
  "IsZero P v = is_zero (Suc (length P)) P v"

primrec is_const_value :: "nat \<Rightarrow> bf_pool \<Rightarrow> bf_value \<Rightarrow> bool option" where
  "is_const_value 0 P v = None"
| "is_const_value (Suc n) P v =
     (if \<not> IsConst v then Some False
      else case GetConstantById P (v_id v) of
             None \<Rightarrow> None
           | Some c \<Rightarrow>
               (case c of
                  BfConstOther BfConstType_GlobalVar \<Rightarrow> Some False
                | BfConstantUndef t \<Rightarrow> Some False
                | BfConstantGEP32_2 i \<Rightarrow> is_const_value n P (const_value i)
                | BfConstantBitCast i \<Rightarrow> is_const_value n P (const_value i)
                | _ \<Rightarrow> Some True))"

definition IsConstValue :: "bf_pool \<Rightarrow> bf_value \<Rightarrow> bool option" where
  "IsConstValue P v = is_const_value (Suc (length P)) P v"

text \<open>What \<open>CheckConstEquality\<close> decides from the zero tests of both sides, if anything.\<close>

definition zero_verdict :: "int \<Rightarrow> int \<Rightarrow> int option" where
  "zero_verdict lz rz =
     (if lz \<noteq> -1 \<and> rz \<noteq> -1 \<and> (lz \<noteq> 0 \<or> rz \<noteq> 0) then Some (if lz = rz then 1 else 0) else None)"

text \<open>The comparison of two different objects that are not casts.\<close>

definition check_objects ::
  "(bf_value \<times> bf_value \<Rightarrow> int option) \<Rightarrow> bf_const \<Rightarrow> bf_const \<Rightarrow> int option" where
  "check_objects rec l r =
     (case (l, r) of
        (BfTypeOf_Const k t, BfTypeOf_Const k' t') \<Rightarrow> Some (if t = t' then 1 else 0)
      | _ \<Rightarrow>
        if const_tag l \<noteq> const_tag r then Some (-1)
        else case (l, r) of
               (BfConstant tc w, BfConstant tc' w') \<Rightarrow>
                 Some (if in_value_range tc then (if w = w' then 1 else 0) else -1)
             | (BfConstantAgg vs, BfConstantAgg ws) \<Rightarrow>
                 if length vs \<noteq> length ws then Some (-1) else all_one rec (zip vs ws)
             | _ \<Rightarrow> Some (-1))"

primrec check_const_equality :: "nat \<Rightarrow> bf_pool \<Rightarrow> bf_value \<times> bf_value \<Rightarrow> int option" where
  "check_const_equality 0 P lr = None"
| "check_const_equality (Suc n) P lr =
     (let (lhs, rhs) = lr in
      if \<not> IsConst lhs \<or> \<not> IsConst rhs then Some (-1)
      else case (GetConstantById P (v_id lhs), GetConstantById P (v_id rhs)) of
             (Some l, Some r) \<Rightarrow>
               if v_id lhs = v_id rhs then Some 1
               else (case l of BfConstantBitCast i \<Rightarrow> check_const_equality n P (const_value i, rhs)
               | _ \<Rightarrow> (case r of BfConstantBitCast i \<Rightarrow> check_const_equality n P (lhs, const_value i)
               | _ \<Rightarrow>
                 do { lz \<leftarrow> IsZero P lhs;
                      rz \<leftarrow> (if lz \<noteq> -1 then IsZero P rhs else Some (-1));
                      case zero_verdict lz rz of
                        Some v \<Rightarrow> Some v
                      | None \<Rightarrow> check_objects (check_const_equality n P) l r }))
           | _ \<Rightarrow> None)"

definition CheckConstEquality :: "bf_pool \<Rightarrow> bf_value \<Rightarrow> bf_value \<Rightarrow> int option" where
  "CheckConstEquality P lhs rhs = check_const_equality (2 * length P + 1) P (lhs, rhs)"

end
