(* ===== verification/Beef_Fold.thy ===== *)
theory Beef_Fold
  imports Beef_Checked Beef_Const Ce_Machine
begin

text \<open>
  The arithmetic of \<open>BfIRBuilder\<close> (BfIRBuilder.cpp): every \<open>Create...\<close> operation folds constant
  operands into a new constant or writes a command for the code generator.  The state is the part
  of the builder these operations use.  Results are \<open>None\<close> where the C++ code has no defined
  behaviour: a shift by too much, a division that traps, a conversion of a double that does not
  fit, a read of a payload that is not there.  Assertions are those of a release build, which
  checks none.  The target of debug builds of the command stream (\<open>mIRCodeGen\<close>) and the type
  definitions that \<open>MapType\<close> may write first are not modelled.
\<close>

unbundle bit_operations_syntax

section \<open>The builder\<close>

datatype (plugins only: size code) bf_ir_cmd =
    BfIRCmd_NumericCast bf_value bool bf_type_code
  | BfIRCmd_CmpEQ bf_value bf_value | BfIRCmd_CmpNE bf_value bf_value
  | BfIRCmd_CmpSLT bf_value bf_value | BfIRCmd_CmpULT bf_value bf_value
  | BfIRCmd_CmpSLE bf_value bf_value | BfIRCmd_CmpULE bf_value bf_value
  | BfIRCmd_CmpSGT bf_value bf_value | BfIRCmd_CmpUGT bf_value bf_value
  | BfIRCmd_CmpSGE bf_value bf_value | BfIRCmd_CmpUGE bf_value bf_value
  | BfIRCmd_Add bf_value bf_value nat | BfIRCmd_Sub bf_value bf_value nat | BfIRCmd_Mul bf_value bf_value nat
  | BfIRCmd_SDiv bf_value bf_value | BfIRCmd_UDiv bf_value bf_value
  | BfIRCmd_SRem bf_value bf_value | BfIRCmd_URem bf_value bf_value
  | BfIRCmd_And bf_value bf_value | BfIRCmd_Or bf_value bf_value | BfIRCmd_Xor bf_value bf_value
  | BfIRCmd_Shl bf_value bf_value | BfIRCmd_AShr bf_value bf_value | BfIRCmd_LShr bf_value bf_value
  | BfIRCmd_Neg bf_value | BfIRCmd_Not bf_value | BfIRCmd_GetInsertBlock

record bf_builder =
  b_pool :: bf_pool
  b_ptr_size :: nat
  b_bool_type :: int
  mOpFailed :: bool
  mIgnoreWrites :: bool
  mCmdCount :: int
  mCurFakeId :: int
  b_stream :: "bf_ir_cmd list"
  mInsertBlock :: bf_value
  mActualInsertBlock :: bf_value

type_synonym bf_result = "(bf_value \<times> bf_builder) option"

definition GetFakeId :: "bf_builder \<Rightarrow> int \<times> bf_builder" where
  "GetFakeId b = (mCurFakeId b,
     b\<lparr>mCurFakeId := (if mCurFakeId b - 1 \<ge> 0 then -2 else mCurFakeId b - 1)\<rparr>)"

definition GetFakeVal :: "bf_builder \<Rightarrow> bf_value \<times> bf_builder" where
  "GetFakeVal b = (let (i, b') = GetFakeId b in (BfIRValue BfIRValueFlags_Value i, b'))"

definition WriteCmd :: "bf_ir_cmd \<Rightarrow> bf_builder \<Rightarrow> bf_value \<times> bf_builder" where
  "WriteCmd cmd b =
     (if mIgnoreWrites b then GetFakeVal b
      else (BfIRValue BfIRValueFlags_Value (mCmdCount b),
            b\<lparr>mCmdCount := mCmdCount b + 1, b_stream := b_stream b @ [cmd]\<rparr>))"

text \<open>The tail of the operations that may branch on overflow: the insert block is asked for anew.\<close>

definition write_checked :: "nat \<Rightarrow> bf_ir_cmd \<Rightarrow> bf_builder \<Rightarrow> bf_value \<times> bf_builder" where
  "write_checked kind cmd b =
     (let (v, b) = WriteCmd cmd b
      in if kind \<noteq> 0 \<and> \<not> mIgnoreWrites b
         then (let (blk, b) = WriteCmd BfIRCmd_GetInsertBlock b
               in (v, b\<lparr>mActualInsertBlock := blk, mInsertBlock := blk\<rparr>))
         else (v, b))"

definition in_pool :: "bf_builder \<Rightarrow> bf_value \<times> bf_pool \<Rightarrow> bf_value \<times> bf_builder" where
  "in_pool b vP = (fst vP, b\<lparr>b_pool := snd vP\<rparr>)"

definition new_u64 :: "bf_type_code \<Rightarrow> u64 \<Rightarrow> bf_builder \<Rightarrow> bf_value \<times> bf_builder" where
  "new_u64 tc w b = in_pool b (CreateConst_u64 (b_ptr_size b) tc w (b_pool b))"

definition new_int :: "bf_type_code \<Rightarrow> u32 \<Rightarrow> bf_builder \<Rightarrow> bf_value \<times> bf_builder" where
  "new_int tc w b = in_pool b (CreateConst_int (b_ptr_size b) tc w (b_pool b))"

definition new_double :: "bf_type_code \<Rightarrow> u64 \<Rightarrow> bf_builder \<Rightarrow> bf_value \<times> bf_builder" where
  "new_double tc w b = in_pool b (CreateConst_double tc w (b_pool b))"

definition new_undef :: "bf_ir_type \<Rightarrow> bf_builder \<Rightarrow> bf_value \<times> bf_builder" where
  "new_undef t b = in_pool b (GetUndefConstValue t (b_pool b))"

definition const_of :: "bf_builder \<Rightarrow> bf_value \<Rightarrow> bf_const option" where
  "const_of b v = GetConstantById (b_pool b) (v_id v)"

definition is_undef :: "bf_const \<Rightarrow> bool" where
  "is_undef c \<longleftrightarrow> const_tag c = const_type_nat BfConstType_Undef"

text \<open>Doubles, by the host's floating point unit on their bits.\<close>

definition f64_bin :: "ce_fpu \<Rightarrow> fp_bin \<Rightarrow> u64 \<Rightarrow> u64 \<Rightarrow> u64" where
  "f64_bin fpu f x y = word_of_int (fp_bin fpu F64 f (uint x) (uint y))"

section \<open>The folding macros\<close>

text \<open>
  What a macro does: return from the enclosing function, go on behind it, or run into undefined
  behaviour.
\<close>

datatype bf_fold = FoldReturn "bf_value \<times> bf_builder" | FoldNext | FoldUndefined

definition or_else :: "bf_fold \<Rightarrow> bf_result \<Rightarrow> bf_result" where
  "or_else f r = (case f of FoldReturn x \<Rightarrow> Some x | FoldNext \<Rightarrow> r | FoldUndefined \<Rightarrow> None)"

text \<open>The overloads of a checked operation, the argument \<open>OP\<close> of the macros.\<close>

record ck_ops =
  ck_u8 :: "u8 \<Rightarrow> u8 \<Rightarrow> (u8 \<times> bool) option"
  ck_i8 :: "u8 \<Rightarrow> u8 \<Rightarrow> (u8 \<times> bool) option"
  ck_u16 :: "u16 \<Rightarrow> u16 \<Rightarrow> (u16 \<times> bool) option"
  ck_i16 :: "u16 \<Rightarrow> u16 \<Rightarrow> (u16 \<times> bool) option"
  ck_u32 :: "u32 \<Rightarrow> u32 \<Rightarrow> (u32 \<times> bool) option"
  ck_i32 :: "u32 \<Rightarrow> u32 \<Rightarrow> (u32 \<times> bool) option"
  ck_u64 :: "u64 \<Rightarrow> u64 \<Rightarrow> (u64 \<times> bool) option"
  ck_i64 :: "u64 \<Rightarrow> u64 \<Rightarrow> (u64 \<times> bool) option"

definition CheckedAdd :: ck_ops where
  "CheckedAdd = \<lparr>ck_u8 = (\<lambda>a b. Some (CheckedAdd_u8 a b)), ck_i8 = (\<lambda>a b. Some (CheckedAdd_i8 a b)),
     ck_u16 = (\<lambda>a b. Some (CheckedAdd_u16 a b)), ck_i16 = (\<lambda>a b. Some (CheckedAdd_i16 a b)),
     ck_u32 = (\<lambda>a b. Some (CheckedAdd_u32 a b)), ck_i32 = (\<lambda>a b. Some (CheckedAdd_i32 a b)),
     ck_u64 = (\<lambda>a b. Some (CheckedAdd_u64 a b)), ck_i64 = (\<lambda>a b. Some (CheckedAdd_i64 a b))\<rparr>"

definition CheckedSub :: ck_ops where
  "CheckedSub = \<lparr>ck_u8 = (\<lambda>a b. Some (CheckedSub_u8 a b)), ck_i8 = (\<lambda>a b. Some (CheckedSub_i8 a b)),
     ck_u16 = (\<lambda>a b. Some (CheckedSub_u16 a b)), ck_i16 = (\<lambda>a b. Some (CheckedSub_i16 a b)),
     ck_u32 = (\<lambda>a b. Some (CheckedSub_u32 a b)), ck_i32 = (\<lambda>a b. Some (CheckedSub_i32 a b)),
     ck_u64 = (\<lambda>a b. Some (CheckedSub_u64 a b)), ck_i64 = (\<lambda>a b. Some (CheckedSub_i64 a b))\<rparr>"

definition CheckedMul :: ck_ops where
  "CheckedMul = \<lparr>ck_u8 = (\<lambda>a b. Some (CheckedMul_u8 a b)), ck_i8 = (\<lambda>a b. Some (CheckedMul_i8 a b)),
     ck_u16 = (\<lambda>a b. Some (CheckedMul_u16 a b)), ck_i16 = (\<lambda>a b. Some (CheckedMul_i16 a b)),
     ck_u32 = (\<lambda>a b. Some (CheckedMul_u32 a b)), ck_i32 = (\<lambda>a b. Some (CheckedMul_i32 a b)),
     ck_u64 = (\<lambda>a b. Some (CheckedMul_u64 a b)), ck_i64 = (\<lambda>a b. Some (CheckedMul_i64 a b))\<rparr>"

definition CheckedShl :: ck_ops where
  "CheckedShl = \<lparr>ck_u8 = CheckedShl_u8, ck_i8 = CheckedShl_i8, ck_u16 = CheckedShl_u16, ck_i16 = CheckedShl_i16,
     ck_u32 = CheckedShl_u32, ck_i32 = CheckedShl_i32, ck_u64 = CheckedShl_u64, ck_i64 = CheckedShl_i64\<rparr>"

text \<open>\<open>uint64 val = OP(...)\<close>: the result is sign- or zero-extended.\<close>

definition s_val :: "('a::len word \<times> bool) option \<Rightarrow> (u64 \<times> bool) option" where
  "s_val r = map_option (\<lambda>(w, f). (scast w, f)) r"

definition u_val :: "('a::len word \<times> bool) option \<Rightarrow> (u64 \<times> bool) option" where
  "u_val r = map_option (\<lambda>(w, f). (ucast w, f)) r"

text \<open>The switch of \<open>BINOPFUNC_APPLY\<close> and \<open>INT_BINOPFUNC_APPLY\<close> over the integer types.\<close>

definition binopfunc_switch :: "ck_ops \<Rightarrow> bf_type_code \<Rightarrow> u64 \<Rightarrow> u64 \<Rightarrow> (u64 \<times> bool) option" where
  "binopfunc_switch ops tc x y =
     (case tc of
        BfTypeCode_Boolean \<Rightarrow> s_val (ck_i8 ops (mInt8 x) (mInt8 y))
      | BfTypeCode_Int8 \<Rightarrow> s_val (ck_i8 ops (mInt8 x) (mInt8 y))
      | BfTypeCode_Char8 \<Rightarrow> u_val (ck_u8 ops (mInt8 x) (mInt8 y))
      | BfTypeCode_UInt8 \<Rightarrow> u_val (ck_u8 ops (mInt8 x) (mInt8 y))
      | BfTypeCode_Int16 \<Rightarrow> s_val (ck_i16 ops (mInt16 x) (mInt16 y))
      | BfTypeCode_UInt16 \<Rightarrow> u_val (ck_u16 ops (mInt16 x) (mInt16 y))
      | BfTypeCode_Char16 \<Rightarrow> u_val (ck_u16 ops (mInt16 x) (mInt16 y))
      | BfTypeCode_Int32 \<Rightarrow> s_val (ck_i32 ops (mInt32 x) (mInt32 y))
      | BfTypeCode_UInt32 \<Rightarrow> u_val (ck_u32 ops (mInt32 x) (mInt32 y))
      | BfTypeCode_Char32 \<Rightarrow> u_val (ck_u32 ops (mInt32 x) (mInt32 y))
      | BfTypeCode_Int64 \<Rightarrow> ck_i64 ops x y
      | BfTypeCode_UInt64 \<Rightarrow> ck_u64 ops x y
      | _ \<Rightarrow> Some (0, False))"

definition checked_new :: "bf_type_code \<Rightarrow> (u64 \<times> bool) option \<Rightarrow> bf_builder \<Rightarrow> bf_fold" where
  "checked_new tc r b =
     (case r of
        None \<Rightarrow> FoldUndefined
      | Some (val, failed) \<Rightarrow> FoldReturn (new_u64 tc val (b\<lparr>mOpFailed := mOpFailed b \<or> failed\<rparr>)))"

definition binopfunc_apply ::
  "ce_fpu \<Rightarrow> ck_ops \<Rightarrow> fp_bin \<Rightarrow> bf_value \<Rightarrow> bf_value \<Rightarrow> bf_builder \<Rightarrow> bf_fold" where
  "binopfunc_apply fpu ops f lhs rhs b =
     (case (const_of b lhs, const_of b rhs) of
        (Some l, Some r) \<Rightarrow>
          if is_undef l then FoldReturn (lhs, b)
          else if is_undef r then FoldReturn (rhs, b)
          else (case (l, r) of
                  (BfConstant tc x, BfConstant tc' y) \<Rightarrow>
                    if IsFloat tc then FoldReturn (new_double tc (f64_bin fpu f x y) b)
                    else checked_new tc (binopfunc_switch ops tc x y) b
                | _ \<Rightarrow> FoldNext)
      | _ \<Rightarrow> FoldUndefined)"

definition int_binopfunc_apply :: "ck_ops \<Rightarrow> bf_value \<Rightarrow> bf_value \<Rightarrow> bf_builder \<Rightarrow> bf_fold" where
  "int_binopfunc_apply ops lhs rhs b =
     (case (const_of b lhs, const_of b rhs) of
        (Some l, Some r) \<Rightarrow>
          if is_undef l then FoldReturn (lhs, b)
          else if is_undef r then FoldReturn (rhs, b)
          else (case (l, r) of
                  (BfConstant tc x, BfConstant tc' y) \<Rightarrow> checked_new tc (binopfunc_switch ops tc x y) b
                | _ \<Rightarrow> FoldNext)
      | _ \<Rightarrow> FoldUndefined)"

text \<open>
  \<open>INT_BINOP_APPLY\<close>: an operator on promoted operands.  The operands narrower than \<open>int\<close> give an
  \<open>int\<close>, which selects the other overload of \<open>CreateConst\<close>.
\<close>

datatype bf_int_op = IDiv | IRem | IAnd | IOr | IXor

primrec c_int_op :: "bf_int_op \<Rightarrow> int \<Rightarrow> int \<Rightarrow> int" where
  "c_int_op IDiv a b = c_div a b"
| "c_int_op IRem a b = c_mod a b"
| "c_int_op IAnd a b = a AND b"
| "c_int_op IOr a b = a OR b"
| "c_int_op IXor a b = a XOR b"

definition int_op_undefined :: "bf_int_op \<Rightarrow> nat \<Rightarrow> int \<Rightarrow> int \<Rightarrow> bool" where
  "int_op_undefined op n a b \<longleftrightarrow> (op = IDiv \<or> op = IRem) \<and> (b = 0 \<or> div_overflow n a b)"

definition int_op_new ::
  "(int \<Rightarrow> bf_builder \<Rightarrow> bf_value \<times> bf_builder) \<Rightarrow> bf_int_op \<Rightarrow> nat \<Rightarrow> int \<Rightarrow> int \<Rightarrow> bf_builder \<Rightarrow> bf_fold" where
  "int_op_new mk op n a b bld =
     (if int_op_undefined op n a b then FoldUndefined else FoldReturn (mk (c_int_op op a b) bld))"

definition int_binop_switch :: "bf_int_op \<Rightarrow> bf_type_code \<Rightarrow> u64 \<Rightarrow> u64 \<Rightarrow> bf_builder \<Rightarrow> bf_fold" where
  "int_binop_switch op tc x y b =
     (let as_int = (\<lambda>v. new_int tc (word_of_int v));
          as_u64 = (\<lambda>v. new_u64 tc (word_of_int v));
          s8 = sint (mInt8 x); s8' = sint (mInt8 y); u8 = uint (mInt8 x); u8' = uint (mInt8 y);
          s16 = sint (mInt16 x); s16' = sint (mInt16 y); u16 = uint (mInt16 x); u16' = uint (mInt16 y);
          s32 = sint (mInt32 x); s32' = sint (mInt32 y); u32 = uint (mInt32 x); u32' = uint (mInt32 y)
      in case tc of
           BfTypeCode_Int8 \<Rightarrow> int_op_new as_int op 1 s8 s8' b
         | BfTypeCode_Char8 \<Rightarrow> int_op_new as_int op 1 u8 u8' b
         | BfTypeCode_UInt8 \<Rightarrow> int_op_new as_int op 1 u8 u8' b
         | BfTypeCode_Int16 \<Rightarrow> int_op_new as_int op 2 s16 s16' b
         | BfTypeCode_UInt16 \<Rightarrow> int_op_new as_int op 2 u16 u16' b
         | BfTypeCode_Char16 \<Rightarrow> int_op_new as_int op 2 u16 u16' b
         | BfTypeCode_Int32 \<Rightarrow> int_op_new as_int op 4 s32 s32' b
         | BfTypeCode_UInt32 \<Rightarrow> int_op_new as_u64 op 4 u32 u32' b
         | BfTypeCode_Char32 \<Rightarrow> int_op_new as_u64 op 4 u32 u32' b
         | BfTypeCode_Int64 \<Rightarrow> int_op_new as_u64 op 8 (sint x) (sint y) b
         | BfTypeCode_UInt64 \<Rightarrow> int_op_new as_u64 op 8 (uint x) (uint y) b
         | _ \<Rightarrow> FoldNext)"

definition int_binop_apply :: "bf_int_op \<Rightarrow> bf_value \<Rightarrow> bf_value \<Rightarrow> bf_builder \<Rightarrow> bf_fold" where
  "int_binop_apply op lhs rhs b =
     (case (const_of b lhs, const_of b rhs) of
        (Some l, Some r) \<Rightarrow>
          if is_undef l then FoldReturn (lhs, b)
          else if is_undef r then FoldReturn (rhs, b)
          else (case (l, r) of
                  (BfConstant tc x, BfConstant tc' y) \<Rightarrow> int_binop_switch op tc x y b
                | _ \<Rightarrow> FoldNext)
      | _ \<Rightarrow> FoldUndefined)"

text \<open>\<open>UNARYOP_APPLY(val, -)\<close>: operands narrower than \<open>int\<close> are promoted before the negation.\<close>

definition neg_switch :: "bf_type_code \<Rightarrow> u64 \<Rightarrow> u64" where
  "neg_switch tc x =
     (case tc of
        BfTypeCode_Int8 \<Rightarrow> word_of_int (- sint (mInt8 x))
      | BfTypeCode_UInt8 \<Rightarrow> word_of_int (- uint (mInt8 x))
      | BfTypeCode_Char8 \<Rightarrow> word_of_int (- uint (mInt8 x))
      | BfTypeCode_Int16 \<Rightarrow> word_of_int (- sint (mInt16 x))
      | BfTypeCode_UInt16 \<Rightarrow> word_of_int (- uint (mInt16 x))
      | BfTypeCode_Char16 \<Rightarrow> word_of_int (- uint (mInt16 x))
      | BfTypeCode_Int32 \<Rightarrow> scast (- mInt32 x)
      | BfTypeCode_UInt32 \<Rightarrow> ucast (- mInt32 x)
      | BfTypeCode_Char32 \<Rightarrow> ucast (- mInt32 x)
      | BfTypeCode_Int64 \<Rightarrow> - x
      | BfTypeCode_UInt64 \<Rightarrow> - x
      | _ \<Rightarrow> 0)"

definition unaryop_apply :: "ce_fpu \<Rightarrow> bf_value \<Rightarrow> bf_builder \<Rightarrow> bf_fold" where
  "unaryop_apply fpu v b =
     (case const_of b v of
        None \<Rightarrow> FoldUndefined
      | Some c \<Rightarrow>
          if is_undef c then FoldReturn (v, b)
          else (case c of
                  BfConstant tc x \<Rightarrow>
                    if IsFloat tc then FoldReturn (new_double tc (word_of_int (fp_neg fpu F64 (uint x))) b)
                    else FoldReturn (new_u64 tc (neg_switch tc x) b)
                | _ \<Rightarrow> FoldNext))"

text \<open>\<open>CMP_APPLY\<close>. There is no case for the character types.\<close>

datatype bf_cmp = CmpEQ | CmpNE | CmpLT | CmpLE | CmpGT | CmpGE

primrec cmp_int :: "bf_cmp \<Rightarrow> int \<Rightarrow> int \<Rightarrow> bool" where
  "cmp_int CmpEQ a b = (a = b)"
| "cmp_int CmpNE a b = (a \<noteq> b)"
| "cmp_int CmpLT a b = (a < b)"
| "cmp_int CmpLE a b = (a \<le> b)"
| "cmp_int CmpGT a b = (a > b)"
| "cmp_int CmpGE a b = (a \<ge> b)"

primrec cmp_double :: "ce_fpu \<Rightarrow> bf_cmp \<Rightarrow> int \<Rightarrow> int \<Rightarrow> bool" where
  "cmp_double fpu CmpEQ a b = fp_eq fpu F64 a b"
| "cmp_double fpu CmpNE a b = (\<not> fp_eq fpu F64 a b)"
| "cmp_double fpu CmpLT a b = fp_lt fpu F64 a b"
| "cmp_double fpu CmpLE a b = fp_le fpu F64 a b"
| "cmp_double fpu CmpGT a b = fp_lt fpu F64 b a"
| "cmp_double fpu CmpGE a b = fp_le fpu F64 b a"

definition cmp_switch :: "ce_fpu \<Rightarrow> bf_cmp \<Rightarrow> bf_type_code \<Rightarrow> u64 \<Rightarrow> u64 \<Rightarrow> bool" where
  "cmp_switch fpu op tc x y =
     (case tc of
        BfTypeCode_Boolean \<Rightarrow> cmp_int op (sint (mInt8 x)) (sint (mInt8 y))
      | BfTypeCode_Int8 \<Rightarrow> cmp_int op (sint (mInt8 x)) (sint (mInt8 y))
      | BfTypeCode_UInt8 \<Rightarrow> cmp_int op (uint (mInt8 x)) (uint (mInt8 y))
      | BfTypeCode_Int16 \<Rightarrow> cmp_int op (sint (mInt16 x)) (sint (mInt16 y))
      | BfTypeCode_UInt16 \<Rightarrow> cmp_int op (uint (mInt16 x)) (uint (mInt16 y))
      | BfTypeCode_Int32 \<Rightarrow> cmp_int op (sint (mInt32 x)) (sint (mInt32 y))
      | BfTypeCode_UInt32 \<Rightarrow> cmp_int op (uint (mInt32 x)) (uint (mInt32 y))
      | BfTypeCode_Int64 \<Rightarrow> cmp_int op (sint x) (sint y)
      | BfTypeCode_UInt64 \<Rightarrow> cmp_int op (uint x) (uint y)
      | BfTypeCode_Float \<Rightarrow> cmp_double fpu op (uint x) (uint y)
      | BfTypeCode_Double \<Rightarrow> cmp_double fpu op (uint x) (uint y)
      | _ \<Rightarrow> False)"

definition new_bool :: "bool \<Rightarrow> bf_builder \<Rightarrow> bf_value \<times> bf_builder" where
  "new_bool p b = new_u64 BfTypeCode_Boolean (if p then 1 else 0) b"

definition cmp_apply :: "ce_fpu \<Rightarrow> bf_cmp \<Rightarrow> bf_value \<Rightarrow> bf_value \<Rightarrow> bf_builder \<Rightarrow> bf_fold" where
  "cmp_apply fpu op lhs rhs b =
     (case (const_of b lhs, const_of b rhs) of
        (Some l, Some r) \<Rightarrow>
          if is_undef l \<or> is_undef r then FoldReturn (new_undef (TypeKind_TypeId (b_bool_type b)) b)
          else if const_tag l = type_code_nat BfTypeCode_NullPtr \<or> const_tag r = type_code_nat BfTypeCode_NullPtr
          then FoldReturn (new_bool (cmp_int op (int (const_tag l)) (int (const_tag r))) b)
          else (case (l, r) of
                  (BfConstant tc x, BfConstant tc' y) \<Rightarrow> FoldReturn (new_bool (cmp_switch fpu op tc x y) b)
                | _ \<Rightarrow> FoldNext)
      | _ \<Rightarrow> FoldUndefined)"

section \<open>The operations\<close>

text \<open>Conversions of a constant to an integer type, from an integer and from a double payload.\<close>

definition cast_int :: "bf_type_code \<Rightarrow> u64 \<Rightarrow> u64" where
  "cast_int tc x =
     (case tc of
        BfTypeCode_Int8 \<Rightarrow> scast (ucast x :: u8)
      | BfTypeCode_Char8 \<Rightarrow> ucast (ucast x :: u8)
      | BfTypeCode_UInt8 \<Rightarrow> ucast (ucast x :: u8)
      | BfTypeCode_Int16 \<Rightarrow> scast (ucast x :: u16)
      | BfTypeCode_Char16 \<Rightarrow> ucast (ucast x :: u16)
      | BfTypeCode_UInt16 \<Rightarrow> ucast (ucast x :: u16)
      | BfTypeCode_Int32 \<Rightarrow> scast (ucast x :: u32)
      | BfTypeCode_Char32 \<Rightarrow> ucast (ucast x :: u32)
      | BfTypeCode_UInt32 \<Rightarrow> ucast (ucast x :: u32)
      | BfTypeCode_Int64 \<Rightarrow> x
      | BfTypeCode_UInt64 \<Rightarrow> x
      | _ \<Rightarrow> 0)"

definition double_to :: "ce_fpu \<Rightarrow> (int \<Rightarrow> bool) \<Rightarrow> u64 \<Rightarrow> u64 option" where
  "double_to fpu fits x =
     (case fp_to_int fpu F64 (uint x) of None \<Rightarrow> None | Some v \<Rightarrow> if fits v then Some (word_of_int v) else None)"

definition cast_double :: "ce_fpu \<Rightarrow> bf_type_code \<Rightarrow> u64 \<Rightarrow> u64 option" where
  "cast_double fpu tc x =
     (case tc of
        BfTypeCode_Int8 \<Rightarrow> double_to fpu (in_s 1) x
      | BfTypeCode_Char8 \<Rightarrow> double_to fpu (in_u 1) x
      | BfTypeCode_UInt8 \<Rightarrow> double_to fpu (in_u 1) x
      | BfTypeCode_Int16 \<Rightarrow> double_to fpu (in_s 2) x
      | BfTypeCode_Char16 \<Rightarrow> double_to fpu (in_u 2) x
      | BfTypeCode_UInt16 \<Rightarrow> double_to fpu (in_u 2) x
      | BfTypeCode_Int32 \<Rightarrow> double_to fpu (in_s 4) x
      | BfTypeCode_Char32 \<Rightarrow> double_to fpu (in_u 4) x
      | BfTypeCode_UInt32 \<Rightarrow> double_to fpu (in_u 4) x
      | BfTypeCode_Int64 \<Rightarrow> double_to fpu (in_s 8) x
      | BfTypeCode_UInt64 \<Rightarrow> double_to fpu (in_u 8) x
      | _ \<Rightarrow> Some 0)"

text \<open>The pointer-sized integers are replaced by \<open>FixTypeCode\<close> before the test for them.\<close>

definition CreateNumericCast :: "ce_fpu \<Rightarrow> bf_value \<Rightarrow> bool \<Rightarrow> bf_type_code \<Rightarrow> bf_builder \<Rightarrow> bf_result" where
  "CreateNumericCast fpu v valIsSigned tc0 b =
     (let tc = FixTypeCode (b_ptr_size b) tc0;
          emit = Some (WriteCmd (BfIRCmd_NumericCast v valIsSigned tc) b)
      in if \<not> IsConst v then emit
         else case const_of b v of
                None \<Rightarrow> None
              | Some c \<Rightarrow>
                  if is_undef c then Some (new_undef (TypeKind_TypeCode (FixTypeCode (b_ptr_size b) tc)) b)
                  else (case c of
                          BfConstant from x \<Rightarrow>
                            if IsInt tc then
                              (if IsInt from then Some (new_u64 tc (cast_int tc x) b)
                               else do { val \<leftarrow> cast_double fpu tc x; Some (new_u64 tc val b) })
                            else if IsInt from then
                              Some (new_double tc (word_of_int (fp_of_int fpu F64
                                      (if IsSigned from then sint x else uint x))) b)
                            else Some (new_double tc x b)
                        | _ \<Rightarrow> emit))"

definition CreateCmpEQ :: "ce_fpu \<Rightarrow> bf_value \<Rightarrow> bf_value \<Rightarrow> bf_builder \<Rightarrow> bf_result" where
  "CreateCmpEQ fpu lhs rhs b =
     (let emit = Some (WriteCmd (BfIRCmd_CmpEQ lhs rhs) b)
      in if IsConst lhs \<and> IsConst rhs
         then or_else (cmp_apply fpu CmpEQ lhs rhs b)
                (do { eqVal \<leftarrow> CheckConstEquality (b_pool b) lhs rhs;
                      if eqVal \<noteq> -1 then Some (new_bool (eqVal = 1) b) else emit })
         else emit)"

definition CreateCmpNE :: "ce_fpu \<Rightarrow> bf_value \<Rightarrow> bf_value \<Rightarrow> bf_builder \<Rightarrow> bf_result" where
  "CreateCmpNE fpu lhs rhs b =
     (let emit = Some (WriteCmd (BfIRCmd_CmpNE lhs rhs) b)
      in if IsConst lhs \<and> IsConst rhs
         then or_else (cmp_apply fpu CmpNE lhs rhs b)
                (do { eqVal \<leftarrow> CheckConstEquality (b_pool b) lhs rhs;
                      if eqVal \<noteq> -1 then Some (new_bool (eqVal = 0) b) else emit })
         else emit)"

text \<open>Whether a constant operand is an integer zero, for the shortcuts of \<open>LT\<close> and \<open>GTE\<close>.\<close>

definition is_int_zero :: "bf_const \<Rightarrow> bool" where
  "is_int_zero c = (case c of BfConstant tc w \<Rightarrow> IsInt tc \<and> w = 0 | _ \<Rightarrow> False)"

definition CreateCmpLT :: "ce_fpu \<Rightarrow> bf_value \<Rightarrow> bf_value \<Rightarrow> bool \<Rightarrow> bf_builder \<Rightarrow> bf_result" where
  "CreateCmpLT fpu lhs rhs isSigned b =
     (let emit = Some (WriteCmd ((if isSigned then BfIRCmd_CmpSLT else BfIRCmd_CmpULT) lhs rhs) b)
      in if IsConst lhs \<and> IsConst rhs then or_else (cmp_apply fpu CmpLT lhs rhs b) emit
         else if \<not> isSigned \<and> IsConst rhs
         then (case const_of b rhs of
                 None \<Rightarrow> None
               | Some c \<Rightarrow> if is_int_zero c then Some (new_int BfTypeCode_Boolean 0 b) else emit)
         else emit)"

definition CreateCmpLTE :: "ce_fpu \<Rightarrow> bf_value \<Rightarrow> bf_value \<Rightarrow> bool \<Rightarrow> bf_builder \<Rightarrow> bf_result" where
  "CreateCmpLTE fpu lhs rhs isSigned b =
     (let emit = Some (WriteCmd ((if isSigned then BfIRCmd_CmpSLE else BfIRCmd_CmpULE) lhs rhs) b)
      in if IsConst lhs \<and> IsConst rhs then or_else (cmp_apply fpu CmpLE lhs rhs b) emit else emit)"

definition CreateCmpGT :: "ce_fpu \<Rightarrow> bf_value \<Rightarrow> bf_value \<Rightarrow> bool \<Rightarrow> bf_builder \<Rightarrow> bf_result" where
  "CreateCmpGT fpu lhs rhs isSigned b =
     (let emit = Some (WriteCmd ((if isSigned then BfIRCmd_CmpSGT else BfIRCmd_CmpUGT) lhs rhs) b)
      in if IsConst lhs \<and> IsConst rhs then or_else (cmp_apply fpu CmpGT lhs rhs b) emit else emit)"

definition CreateCmpGTE :: "ce_fpu \<Rightarrow> bf_value \<Rightarrow> bf_value \<Rightarrow> bool \<Rightarrow> bf_builder \<Rightarrow> bf_result" where
  "CreateCmpGTE fpu lhs rhs isSigned b =
     (let emit = Some (WriteCmd ((if isSigned then BfIRCmd_CmpSGE else BfIRCmd_CmpUGE) lhs rhs) b)
      in if IsConst lhs \<and> IsConst rhs then or_else (cmp_apply fpu CmpGE lhs rhs b) emit
         else if \<not> isSigned \<and> IsConst lhs
         then (case const_of b lhs of
                 None \<Rightarrow> None
               | Some c \<Rightarrow> if is_int_zero c then Some (new_int BfTypeCode_Boolean 1 b) else emit)
         else emit)"

definition CreateAdd :: "ce_fpu \<Rightarrow> bf_value \<Rightarrow> bf_value \<Rightarrow> nat \<Rightarrow> bf_builder \<Rightarrow> bf_result" where
  "CreateAdd fpu lhs rhs kind b0 =
     (let b = b0\<lparr>mOpFailed := False\<rparr>; emit = Some (write_checked kind (BfIRCmd_Add lhs rhs kind) b)
      in if IsConst lhs \<and> IsConst rhs
         then (case const_of b lhs of
                 None \<Rightarrow> None
               | Some l \<Rightarrow>
                   if const_tag l \<noteq> const_type_nat BfConstType_PtrToInt
                   then or_else (binopfunc_apply fpu CheckedAdd FAdd lhs rhs b) emit else emit)
         else emit)"

definition CreateSub :: "ce_fpu \<Rightarrow> bf_value \<Rightarrow> bf_value \<Rightarrow> nat \<Rightarrow> bf_builder \<Rightarrow> bf_result" where
  "CreateSub fpu lhs rhs kind b0 =
     (let b = b0\<lparr>mOpFailed := False\<rparr>; emit = Some (write_checked kind (BfIRCmd_Sub lhs rhs kind) b)
      in if IsConst lhs \<and> IsConst rhs
         then or_else (binopfunc_apply fpu CheckedSub FSub lhs rhs b) emit else emit)"

definition CreateMul :: "ce_fpu \<Rightarrow> bf_value \<Rightarrow> bf_value \<Rightarrow> nat \<Rightarrow> bf_builder \<Rightarrow> bf_result" where
  "CreateMul fpu lhs rhs kind b0 =
     (let b = b0\<lparr>mOpFailed := False\<rparr>; emit = Some (write_checked kind (BfIRCmd_Mul lhs rhs kind) b)
      in if IsConst lhs \<and> IsConst rhs
         then or_else (binopfunc_apply fpu CheckedMul FMul lhs rhs b) emit else emit)"

text \<open>
  \<open>CreateDiv\<close> and \<open>CreateRem\<close> test the 64-bit payload of the divisor for zero, also where the
  division reads a narrower member of it.
\<close>

definition div_apply ::
  "ce_fpu \<Rightarrow> fp_bin \<Rightarrow> bf_int_op \<Rightarrow> bf_value \<Rightarrow> bf_value \<Rightarrow> bf_builder \<Rightarrow> bf_fold" where
  "div_apply fpu f op lhs rhs b =
     (case (const_of b lhs, const_of b rhs) of
        (Some l, Some (BfConstant tc' y)) \<Rightarrow>
          (case l of
             BfConstant tc x \<Rightarrow>
               if IsFloat tc then FoldReturn (new_double tc (f64_bin fpu f x y) b)
               else if y \<noteq> 0 then int_binop_apply op lhs rhs b else FoldNext
           | _ \<Rightarrow> if y \<noteq> 0 then int_binop_apply op lhs rhs b else FoldNext)
      | _ \<Rightarrow> FoldUndefined)"

definition CreateDiv :: "ce_fpu \<Rightarrow> bf_value \<Rightarrow> bf_value \<Rightarrow> bool \<Rightarrow> bf_builder \<Rightarrow> bf_result" where
  "CreateDiv fpu lhs rhs isSigned b =
     (let emit = Some (WriteCmd ((if isSigned then BfIRCmd_SDiv else BfIRCmd_UDiv) lhs rhs) b)
      in if IsConst lhs \<and> IsConst rhs then or_else (div_apply fpu FDiv IDiv lhs rhs b) emit else emit)"

definition CreateRem :: "ce_fpu \<Rightarrow> bf_value \<Rightarrow> bf_value \<Rightarrow> bool \<Rightarrow> bf_builder \<Rightarrow> bf_result" where
  "CreateRem fpu lhs rhs isSigned b =
     (let emit = Some (WriteCmd ((if isSigned then BfIRCmd_SRem else BfIRCmd_URem) lhs rhs) b)
      in if IsConst lhs \<and> IsConst rhs then or_else (div_apply fpu FMod IRem lhs rhs b) emit else emit)"

definition CreateAnd :: "bf_value \<Rightarrow> bf_value \<Rightarrow> bf_builder \<Rightarrow> bf_result" where
  "CreateAnd lhs rhs b =
     (let emit = Some (WriteCmd (BfIRCmd_And lhs rhs) b)
      in if IsConst lhs \<and> IsConst rhs then or_else (int_binop_apply IAnd lhs rhs b) emit else emit)"

definition CreateOr :: "bf_value \<Rightarrow> bf_value \<Rightarrow> bf_builder \<Rightarrow> bf_result" where
  "CreateOr lhs rhs b =
     (let emit = Some (WriteCmd (BfIRCmd_Or lhs rhs) b)
      in if IsConst lhs \<and> IsConst rhs then or_else (int_binop_apply IOr lhs rhs b) emit else emit)"

definition CreateXor :: "bf_value \<Rightarrow> bf_value \<Rightarrow> bf_builder \<Rightarrow> bf_result" where
  "CreateXor lhs rhs b =
     (let emit = Some (WriteCmd (BfIRCmd_Xor lhs rhs) b)
      in if IsConst lhs \<and> IsConst rhs then or_else (int_binop_apply IXor lhs rhs b) emit else emit)"

definition CreateShl :: "bf_value \<Rightarrow> bf_value \<Rightarrow> bf_builder \<Rightarrow> bf_result" where
  "CreateShl lhs rhs b0 =
     (let b = b0\<lparr>mOpFailed := False\<rparr>; emit = Some (WriteCmd (BfIRCmd_Shl lhs rhs) b)
      in if IsConst lhs \<and> IsConst rhs then or_else (int_binopfunc_apply CheckedShl lhs rhs b) emit else emit)"

text \<open>\<open>CreateShr\<close> has none of the tests of the other operations: it reads both payloads at once.\<close>

definition CreateShr :: "bf_value \<Rightarrow> bf_value \<Rightarrow> bool \<Rightarrow> bf_builder \<Rightarrow> bf_result" where
  "CreateShr lhs rhs isSigned b =
     (if IsConst lhs \<and> IsConst rhs
      then (case (const_of b lhs, const_of b rhs) of
              (Some (BfConstant tc x), Some (BfConstant tc' y)) \<Rightarrow>
                let count = sint (mInt32 y)
                in if count < 0 \<or> count \<ge> 64 then None
                   else Some (new_u64 tc (if isSigned then word_of_int (sint x div 2 ^ nat count)
                                          else drop_bit (nat count) x) b)
            | _ \<Rightarrow> None)
      else Some (WriteCmd ((if isSigned then BfIRCmd_AShr else BfIRCmd_LShr) lhs rhs) b))"

definition CreateNeg :: "ce_fpu \<Rightarrow> bf_value \<Rightarrow> bf_builder \<Rightarrow> bf_result" where
  "CreateNeg fpu v b =
     (let emit = Some (WriteCmd (BfIRCmd_Neg v) b)
      in if IsConst v then or_else (unaryop_apply fpu v b) emit else emit)"

definition CreateNot :: "bf_value \<Rightarrow> bf_builder \<Rightarrow> bf_result" where
  "CreateNot v b =
     (if IsConst v
      then (case const_of b v of
              Some c \<Rightarrow>
                if is_undef c then Some (v, b)
                else (case c of
                        BfConstant tc x \<Rightarrow>
                          Some (new_u64 tc (if tc = BfTypeCode_Boolean then (if mInt8 x \<noteq> 0 then 0 else 1)
                                            else NOT x) b)
                      | _ \<Rightarrow> None)
            | None \<Rightarrow> None)
      else Some (WriteCmd (BfIRCmd_Not v) b))"

end
