(* ===== verification/Beef_Const_Spec.thy ===== *)
theory Beef_Const_Spec
  imports Beef_Const
begin

text \<open>
  What holds of the constant pool: a pool whose objects refer to earlier objects only keeps that
  property under every creation, the recursive queries terminate on it, and the comparison of
  constants is sound with respect to the meaning of the compared objects.
\<close>

section \<open>Well-formed pools\<close>

definition value_ok :: "nat \<Rightarrow> bf_value \<Rightarrow> bool" where
  "value_ok k v \<longleftrightarrow> (IsConst v \<longrightarrow> 0 \<le> v_id v \<and> v_id v < int k)"

fun const_refs :: "bf_const \<Rightarrow> bf_value list" where
  "const_refs (BfConstantBitCast i) = [const_value i]"
| "const_refs (BfConstantGEP32_2 i) = [const_value i]"
| "const_refs (BfConstantAgg vs) = vs"
| "const_refs _ = []"

definition pool_wf :: "bf_pool \<Rightarrow> bool" where
  "pool_wf P \<longleftrightarrow> (\<forall>i < length P. \<forall>v \<in> set (const_refs (P ! i)). value_ok i v)"

lemma IsConst_const_value [simp]: "IsConst (const_value i)" "v_id (const_value i) = i"
  by (simp_all add: IsConst_def const_value_def BfIRValueFlags_Const_def)

lemma value_ok_mono: "value_ok j v \<Longrightarrow> j \<le> k \<Longrightarrow> value_ok k v"
  by (auto simp: value_ok_def)

lemma value_ok_const: "value_ok k v \<Longrightarrow> IsConst v \<Longrightarrow> 0 \<le> v_id v \<and> nat (v_id v) < k"
  by (auto simp: value_ok_def)

lemma pool_wf_add: "pool_wf P \<Longrightarrow> \<forall>v \<in> set (const_refs c). value_ok (length P) v \<Longrightarrow> pool_wf (P @ [c])"
  by (auto simp: pool_wf_def nth_append less_Suc_eq)

lemma GetConstantById_ok:
  assumes "value_ok (length P) v" "IsConst v"
  shows "GetConstantById P (v_id v) = Some (P ! nat (v_id v))"
  using assms by (simp add: GetConstantById_def value_ok_def)

lemma refs_ok:
  assumes "pool_wf P" "value_ok n v" "n \<le> length P" "IsConst v" "u \<in> set (const_refs (P ! nat (v_id v)))"
  shows "value_ok (nat (v_id v)) u" and "value_ok (n - 1) u"
proof -
  from value_ok_const [OF assms(2,4)] have i: "nat (v_id v) < n" by simp
  then show "value_ok (nat (v_id v)) u" using assms by (auto simp: pool_wf_def)
  then show "value_ok (n - 1) u" using i by (elim value_ok_mono) simp
qed

lemma all_one_total: "(\<And>x. x \<in> set xs \<Longrightarrow> f x \<noteq> None) \<Longrightarrow> all_one f xs \<noteq> None"
  by (induction xs) (auto split: option.splits)

lemmas all_one_Some = all_one_total [unfolded not_None_eq]

lemma all_one_cong: "(\<And>x. x \<in> set xs \<Longrightarrow> f x = g x) \<Longrightarrow> all_one f xs = all_one g xs"
  by (induction xs) (auto split: option.splits)

lemma all_one_1: "all_one f xs = Some 1 \<Longrightarrow> x \<in> set xs \<Longrightarrow> f x = Some 1"
  by (induction xs) (auto split: option.splits if_splits)

lemma all_one_not1: "all_one f xs = Some r \<Longrightarrow> r \<noteq> 1 \<Longrightarrow> \<exists>x \<in> set xs. f x = Some r"
  by (induction xs) (auto split: option.splits if_splits)

lemma is_zero_total:
  assumes "pool_wf P" "n \<le> length P" "value_ok n v"
  shows "is_zero (Suc n) P v \<noteq> None"
  using assms(2,3)
proof (induction n arbitrary: v)
  case 0
  then show ?case by (cases "IsConst v") (auto simp: value_ok_def)
next
  case (Suc n)
  show ?case
  proof (cases "IsConst v")
    case True
    have v: "value_ok (length P) v" using Suc.prems by (auto elim: value_ok_mono)
    have "\<And>u. u \<in> set (const_refs (P ! nat (v_id v))) \<Longrightarrow> is_zero (Suc n) P u \<noteq> None"
      using refs_ok(2) [OF assms(1) Suc.prems(2,1) True] Suc.IH Suc.prems(1) by simp
    then show ?thesis using GetConstantById_ok [OF v True] True
      by (auto split: bf_const.splits simp del: is_zero.simps simp: is_zero.simps(2) [of "Suc n"] intro!: all_one_Some)
  qed simp
qed

lemma IsZero_total: "pool_wf P \<Longrightarrow> value_ok (length P) v \<Longrightarrow> IsZero P v \<noteq> None"
  unfolding IsZero_def by (rule is_zero_total) auto

lemma is_const_value_total:
  assumes "pool_wf P" "n \<le> length P" "value_ok n v"
  shows "is_const_value (Suc n) P v \<noteq> None"
  using assms(2,3)
proof (induction n arbitrary: v)
  case 0
  then show ?case by (cases "IsConst v") (auto simp: value_ok_def)
next
  case (Suc n)
  show ?case
  proof (cases "IsConst v")
    case True
    have v: "value_ok (length P) v" using Suc.prems by (auto elim: value_ok_mono)
    have "\<And>u. u \<in> set (const_refs (P ! nat (v_id v))) \<Longrightarrow> is_const_value (Suc n) P u \<noteq> None"
      using refs_ok(2) [OF assms(1) Suc.prems(2,1) True] Suc.IH Suc.prems(1) by simp
    then show ?thesis using GetConstantById_ok [OF v True] True
      by (auto split: bf_const.splits bf_const_type.splits simp del: is_const_value.simps
          simp: is_const_value.simps(2) [of "Suc n"])
  qed simp
qed

lemma check_objects_total:
  assumes "\<And>x y. x \<in> set (const_refs l) \<Longrightarrow> y \<in> set (const_refs r) \<Longrightarrow> rec (x, y) \<noteq> None"
  shows "check_objects rec l r \<noteq> None"
proof (cases "\<exists>vs ws. l = BfConstantAgg vs \<and> r = BfConstantAgg ws")
  case True
  then obtain vs ws where lr: "l = BfConstantAgg vs" "r = BfConstantAgg ws" by blast
  have "all_one rec (zip vs ws) \<noteq> None"
    using assms lr by (intro all_one_total) (auto dest: set_zip_leftD set_zip_rightD)
  then show ?thesis using lr by (simp add: check_objects_def)
next
  case False
  then show ?thesis by (auto simp: check_objects_def split: bf_const.splits)
qed

lemma check_const_equality_total:
  assumes wf: "pool_wf P"
  shows "a \<le> length P \<Longrightarrow> b \<le> length P \<Longrightarrow> value_ok a l \<Longrightarrow> value_ok b r \<Longrightarrow> a + b \<le> n \<Longrightarrow>
    check_const_equality (Suc n) P (l, r) \<noteq> None"
proof (induction n arbitrary: a b l r)
  case 0
  then show ?case by (auto simp: value_ok_def)
next
  case (Suc n)
  show ?case
  proof (cases "IsConst l \<and> IsConst r")
    case True
    then have c: "IsConst l" "IsConst r" by auto
    have ok: "value_ok (length P) l" "value_ok (length P) r" using Suc.prems by (auto elim: value_ok_mono)
    have d: "0 < a" "0 < b" using value_ok_const [OF Suc.prems(3) c(1)] value_ok_const [OF Suc.prems(4) c(2)] by auto
    have L: "value_ok (a - 1) u" if "u \<in> set (const_refs (P ! nat (v_id l)))" for u
      using refs_ok(2) [OF wf Suc.prems(3,1) c(1) that] .
    have R: "value_ok (b - 1) u" if "u \<in> set (const_refs (P ! nat (v_id r)))" for u
      using refs_ok(2) [OF wf Suc.prems(4,2) c(2) that] .
    have 1: "check_const_equality (Suc n) P (u, r) \<noteq> None" if "u \<in> set (const_refs (P ! nat (v_id l)))" for u
      using Suc.IH [of "a - 1" b] Suc.prems L [OF that] d by simp
    have 2: "check_const_equality (Suc n) P (l, u) \<noteq> None" if "u \<in> set (const_refs (P ! nat (v_id r)))" for u
      using Suc.IH [of a "b - 1"] Suc.prems R [OF that] d by simp
    have 3: "check_const_equality (Suc n) P (u, w) \<noteq> None"
      if "u \<in> set (const_refs (P ! nat (v_id l)))" "w \<in> set (const_refs (P ! nat (v_id r)))" for u w
      using Suc.IH [of "a - 1" "b - 1"] Suc.prems L [OF that(1)] R [OF that(2)] d by simp
    have 4: "check_objects (check_const_equality (Suc n) P) (P ! nat (v_id l)) (P ! nat (v_id r)) \<noteq> None"
      by (rule check_objects_total) (rule 3)
    show ?thesis
      using c GetConstantById_ok [OF ok(1) c(1)] GetConstantById_ok [OF ok(2) c(2)] 1 2 4
        IsZero_total [OF wf ok(1)] IsZero_total [OF wf ok(2)]
      unfolding check_const_equality.simps(2) [of "Suc n"]
      by (auto split: bf_const.splits option.splits simp del: check_const_equality.simps)
  qed auto
qed

section \<open>The meaning of a constant\<close>

text \<open>
  A tree of zeroes, payloads and identities: everything that is zero is the same zero, a cast
  means what it casts, and an object whose content is not compared means itself.
\<close>

datatype bf_meaning =
    MZero | MBits nat u64 | MNode "bf_meaning list" | MTypeOf nat | MObject int | MValue bf_value

definition mk_node :: "bf_meaning list \<Rightarrow> bf_meaning" where
  "mk_node ms = (if \<forall>m \<in> set ms. m = MZero then MZero else MNode ms)"

primrec meaning_n :: "nat \<Rightarrow> bf_pool \<Rightarrow> bf_value \<Rightarrow> bf_meaning" where
  "meaning_n 0 P v = MValue v"
| "meaning_n (Suc n) P v =
     (if \<not> IsConst v then MValue v
      else case P ! nat (v_id v) of
             BfConstant tc w \<Rightarrow>
               if in_value_range tc then (if w = 0 then MZero else MBits (type_code_nat tc) w) else MObject (v_id v)
           | BfConstantAggZero \<Rightarrow> MZero
           | BfConstantAgg vs \<Rightarrow> mk_node (map (meaning_n n P) vs)
           | BfConstantBitCast i \<Rightarrow> meaning_n n P (const_value i)
           | BfTypeOf_Const k t \<Rightarrow> MTypeOf t
           | _ \<Rightarrow> MObject (v_id v))"

definition const_meaning :: "bf_pool \<Rightarrow> bf_value \<Rightarrow> bf_meaning" where
  "const_meaning P v = meaning_n (Suc (length P)) P v"

lemma meaning_n_fuel:
  assumes "pool_wf P" "n \<le> length P" "value_ok n v" "n \<le> m"
  shows "meaning_n (Suc m) P v = meaning_n (Suc n) P v"
  using assms(2-4)
proof (induction n arbitrary: v m)
  case 0
  then show ?case by (auto simp: value_ok_def)
next
  case (Suc n)
  then obtain k where m: "m = Suc k" "n \<le> k" by (cases m) auto
  have "meaning_n (Suc k) P u = meaning_n (Suc n) P u"
    if "IsConst v" "u \<in> set (const_refs (P ! nat (v_id v)))" for u
    using Suc.IH [OF _ _ m(2)] Suc.prems refs_ok(2) [OF assms(1) Suc.prems(2,1) that] by simp
  then show ?case
    unfolding m meaning_n.simps(2) [of "Suc n"] meaning_n.simps(2) [of "Suc k"]
    by (auto split: bf_const.splits simp del: meaning_n.simps intro!: arg_cong [where f = mk_node])
qed

lemma const_meaning_unfold:
  assumes wf: "pool_wf P" and v: "value_ok (length P) v"
  shows "const_meaning P v =
     (if \<not> IsConst v then MValue v
      else case P ! nat (v_id v) of
             BfConstant tc w \<Rightarrow>
               if in_value_range tc then (if w = 0 then MZero else MBits (type_code_nat tc) w) else MObject (v_id v)
           | BfConstantAggZero \<Rightarrow> MZero
           | BfConstantAgg vs \<Rightarrow> mk_node (map (const_meaning P) vs)
           | BfConstantBitCast i \<Rightarrow> const_meaning P (const_value i)
           | BfTypeOf_Const k t \<Rightarrow> MTypeOf t
           | _ \<Rightarrow> MObject (v_id v))"
proof -
  have "meaning_n (length P) P u = const_meaning P u"
    if c: "IsConst v" and u: "u \<in> set (const_refs (P ! nat (v_id v)))" for u
  proof -
    have u': "value_ok (length P - 1) u" by (rule refs_ok(2) [OF wf v _ c u]) simp
    have p: "Suc (length P - 1) = length P" using value_ok_const [OF v c] by linarith
    then show ?thesis
      using meaning_n_fuel [OF wf _ u', of "length P"] by (simp add: const_meaning_def del: meaning_n.simps)
  qed
  then show ?thesis
    unfolding const_meaning_def [of P v] meaning_n.simps(2)
    by (auto split: bf_const.splits simp del: meaning_n.simps intro!: arg_cong [where f = mk_node])
qed

lemma mk_node_zero_iff: "mk_node ms = MZero \<longleftrightarrow> (\<forall>m \<in> set ms. m = MZero)"
  by (simp add: mk_node_def)

lemma mk_node_inj: "length ms = length ns \<Longrightarrow> mk_node ms = mk_node ns \<longleftrightarrow> ms = ns"
proof
  assume l: "length ms = length ns" and e: "mk_node ms = mk_node ns"
  show "ms = ns"
  proof (cases "\<forall>m \<in> set ms. m = MZero")
    case True
    with e have "\<forall>n \<in> set ns. n = MZero" by (metis mk_node_zero_iff)
    with True l show ?thesis by (metis nth_equalityI nth_mem)
  qed (use e in \<open>auto simp: mk_node_def split: if_splits\<close>)
qed simp

text \<open>The zero test agrees with the meaning, whenever it decides.\<close>

lemma is_zero_sound:
  assumes wf: "pool_wf P"
  shows "value_ok (length P) v \<Longrightarrow> is_zero n P v = Some r \<Longrightarrow> r \<noteq> -1 \<Longrightarrow>
    (r = 1 \<and> const_meaning P v = MZero) \<or> (r = 0 \<and> const_meaning P v \<noteq> MZero)"
proof (induction n arbitrary: v r)
  case (Suc n)
  then have c: "IsConst v" by (auto split: if_splits)
  note u = const_meaning_unfold [OF wf Suc.prems(1)]
  note g = GetConstantById_ok [OF Suc.prems(1) c]
  have refs: "value_ok (length P) x" if "x \<in> set (const_refs (P ! nat (v_id v)))" for x
    using refs_ok(2) [OF wf Suc.prems(1) _ c that] by (auto elim: value_ok_mono)
  show ?case
  proof (cases "\<exists>vs. P ! nat (v_id v) = BfConstantAgg vs")
    case True
    then obtain vs where vs: "P ! nat (v_id v) = BfConstantAgg vs" ..
    with Suc.prems c g have a: "all_one (is_zero n P) vs = Some r" by simp
    have ih: "x \<in> set vs \<Longrightarrow> is_zero n P x = Some q \<Longrightarrow> q \<noteq> -1 \<Longrightarrow>
       (q = 1 \<and> const_meaning P x = MZero) \<or> (q = 0 \<and> const_meaning P x \<noteq> MZero)" for x q
      using Suc.IH refs vs by simp
    have m: "const_meaning P v = mk_node (map (const_meaning P) vs)" using u c vs by simp
    show ?thesis
    proof (cases "r = 1")
      case True
      then show ?thesis using a ih all_one_1 [of _ vs] unfolding m mk_node_zero_iff by fastforce
    next
      case False
      then obtain x where "x \<in> set vs" "is_zero n P x = Some r" using all_one_not1 [OF a] by blast
      then show ?thesis using ih Suc.prems(3) False unfolding m mk_node_zero_iff by fastforce
    qed
  qed (use Suc.prems c g u in \<open>auto split: bf_const.splits if_splits\<close>)
qed simp

lemma IsZero_sound:
  assumes "pool_wf P" "value_ok (length P) v" "IsZero P v = Some r" "r \<noteq> -1"
  shows "(r = 1 \<and> const_meaning P v = MZero) \<or> (r = 0 \<and> const_meaning P v \<noteq> MZero)"
  using is_zero_sound [OF assms(1,2)] assms(3,4) unfolding IsZero_def by blast

text \<open>A verdict \<open>r\<close> on two meanings is right when 1 says equal and 0 says different.\<close>

definition verdict_ok :: "int \<Rightarrow> bf_meaning \<Rightarrow> bf_meaning \<Rightarrow> bool" where
  "verdict_ok r m n \<longleftrightarrow> (r = 1 \<and> m = n) \<or> (r = 0 \<and> m \<noteq> n) \<or> r = -1"

lemma all_one_verdict:
  assumes "all_one f (zip xs ys) = Some r" "length xs = length ys"
    "\<And>x y q. x \<in> set xs \<Longrightarrow> y \<in> set ys \<Longrightarrow> f (x, y) = Some q \<Longrightarrow> verdict_ok q (g x) (g y)"
  shows "verdict_ok r (mk_node (map g xs)) (mk_node (map g ys))"
proof -
  have "(r = 1 \<and> map g xs = map g ys) \<or> (r = 0 \<and> map g xs \<noteq> map g ys) \<or> r = -1"
    using assms(2,1,3)
  proof (induction xs ys rule: list_induct2)
    case (Cons x xs y ys)
    then obtain q where q: "f (x, y) = Some q" by (auto split: option.splits)
    with Cons.prems(2) have "verdict_ok q (g x) (g y)" by simp
    with Cons q show ?case by (cases "q = 1") (auto simp: verdict_ok_def)
  qed simp
  then show ?thesis using mk_node_inj [of "map g xs" "map g ys"] assms(2) by (auto simp: verdict_ok_def)
qed

lemma check_const_equality_sound:
  assumes wf: "pool_wf P"
  shows "value_ok (length P) l \<Longrightarrow> value_ok (length P) r \<Longrightarrow> check_const_equality n P (l, r) = Some q \<Longrightarrow>
    verdict_ok q (const_meaning P l) (const_meaning P r)"
proof (induction n arbitrary: l r q)
  case (Suc n)
  show ?case
  proof (cases "IsConst l \<and> IsConst r")
    case True
    then have c: "IsConst l" "IsConst r" by auto
    let ?L = "P ! nat (v_id l)" and ?R = "P ! nat (v_id r)"
    note g = GetConstantById_ok [OF Suc.prems(1) c(1)] GetConstantById_ok [OF Suc.prems(2) c(2)]
    note ul = const_meaning_unfold [OF wf Suc.prems(1)] and ur = const_meaning_unfold [OF wf Suc.prems(2)]
    have refs: "value_ok (length P) x" if "x \<in> set (const_refs ?L) \<union> set (const_refs ?R)" for x
      using that refs_ok(2) [OF wf Suc.prems(1) _ c(1), of x] refs_ok(2) [OF wf Suc.prems(2) _ c(2), of x]
      by (auto intro: value_ok_mono [OF _ diff_le_self])
    consider (same) "v_id l = v_id r" | (castl) i where "v_id l \<noteq> v_id r" "?L = BfConstantBitCast i"
      | (castr) i where "v_id l \<noteq> v_id r" "\<nexists>j. ?L = BfConstantBitCast j" "?R = BfConstantBitCast i"
      | (objects) "v_id l \<noteq> v_id r" "\<nexists>j. ?L = BfConstantBitCast j" "\<nexists>j. ?R = BfConstantBitCast j" by blast
    then show ?thesis
    proof cases
      case same
      with Suc.prems(3) c g have "q = 1" by simp
      moreover have "const_meaning P l = const_meaning P r" using ul ur c unfolding same by simp
      ultimately show ?thesis by (simp add: verdict_ok_def)
    next
      case castl
      with Suc.prems(3) c g have "check_const_equality n P (const_value i, r) = Some q" by simp
      from Suc.IH [OF refs Suc.prems(2) this] castl show ?thesis using ul c by simp
    next
      case castr
      with Suc.prems(3) c g have "check_const_equality n P (l, const_value i) = Some q"
        by (auto split: bf_const.splits)
      from Suc.IH [OF Suc.prems(1) refs this] castr show ?thesis using ur c by simp
    next
      case objects
      have "(do { lz \<leftarrow> IsZero P l; rz \<leftarrow> (if lz \<noteq> -1 then IsZero P r else Some (-1));
                  case zero_verdict lz rz of Some v \<Rightarrow> Some v
                  | None \<Rightarrow> check_objects (check_const_equality n P) ?L ?R }) = Some q"
        using Suc.prems(3) c g objects by (auto split: bf_const.splits)
      then obtain lz rz where z: "IsZero P l = Some lz" "(if lz \<noteq> -1 then IsZero P r else Some (-1)) = Some rz"
        and q: "(case zero_verdict lz rz of Some v \<Rightarrow> Some v
                 | None \<Rightarrow> check_objects (check_const_equality n P) ?L ?R) = Some q"
        by (auto simp: bind_eq_Some_conv)
      show ?thesis
      proof (cases "zero_verdict lz rz")
        case None
        with q have q: "check_objects (check_const_equality n P) ?L ?R = Some q" by simp
        have "verdict_ok q (mk_node (map (const_meaning P) vs)) (mk_node (map (const_meaning P) ws))"
          if "?L = BfConstantAgg vs" "?R = BfConstantAgg ws" "all_one (check_const_equality n P) (zip vs ws) = Some q"
            "length vs = length ws" for vs ws
          using that(3,4) by (rule all_one_verdict) (use Suc.IH refs that(1,2) in simp)
        then show ?thesis using q objects ul ur c
          by (auto simp: check_objects_def verdict_ok_def in_value_range_def split: bf_const.splits if_splits)
      next
        case (Some v)
        with q z have "lz \<noteq> -1" "rz \<noteq> -1" "IsZero P r = Some rz" "q = (if lz = rz then 1 else 0)"
          "lz \<noteq> 0 \<or> rz \<noteq> 0" by (auto simp: zero_verdict_def split: if_splits)
        then show ?thesis
          using IsZero_sound [OF wf Suc.prems(1) z(1)] IsZero_sound [OF wf Suc.prems(2), of rz]
          by (auto simp: verdict_ok_def)
      qed
    qed
  qed (use Suc.prems in \<open>auto simp: verdict_ok_def\<close>)
qed simp

section \<open>The number an integer constant stands for\<close>

text \<open>The member of the payload union that the folding code reads at a type, as a number.\<close>

definition const_int :: "bf_type_code \<Rightarrow> u64 \<Rightarrow> int option" where
  "const_int tc w =
     (case tc of
        BfTypeCode_Boolean \<Rightarrow> Some (sint (mInt8 w))
      | BfTypeCode_Int8 \<Rightarrow> Some (sint (mInt8 w))
      | BfTypeCode_Int16 \<Rightarrow> Some (sint (mInt16 w))
      | BfTypeCode_Int32 \<Rightarrow> Some (sint (mInt32 w))
      | BfTypeCode_Int64 \<Rightarrow> Some (sint w)
      | BfTypeCode_UInt8 \<Rightarrow> Some (uint (mInt8 w))
      | BfTypeCode_Char8 \<Rightarrow> Some (uint (mInt8 w))
      | BfTypeCode_UInt16 \<Rightarrow> Some (uint (mInt16 w))
      | BfTypeCode_Char16 \<Rightarrow> Some (uint (mInt16 w))
      | BfTypeCode_UInt32 \<Rightarrow> Some (uint (mInt32 w))
      | BfTypeCode_Char32 \<Rightarrow> Some (uint (mInt32 w))
      | BfTypeCode_UInt64 \<Rightarrow> Some (uint w)
      | _ \<Rightarrow> None)"

lemma ucast_scast_low:
  "LENGTH('a::len) \<le> LENGTH('b::len) \<Longrightarrow> ucast (scast (w :: 'a word) :: 'b word) = w"
  "LENGTH('a::len) \<le> LENGTH('b::len) \<Longrightarrow> ucast (ucast (w :: 'a word) :: 'b word) = w"
  by (transfer, simp add: take_bit_signed_take_bit min_def)+

lemma sint_scast_up:
  "LENGTH('a::len) \<le> LENGTH('b::len) \<Longrightarrow> sint (scast (w :: 'a word) :: 'b word) = sint w"
  by transfer (simp add: signed_take_bit_signed_take_bit min_def)

lemma uint_ucast_up:
  "LENGTH('a::len) \<le> LENGTH('b::len) \<Longrightarrow> uint (ucast (w :: 'a word) :: 'b word) = uint w"
  by transfer (simp add: min_def)

lemma sint_scast_64 [simp]:
  "sint (scast (a :: u8) :: u64) = sint a" "sint (scast (b :: u16) :: u64) = sint b" "sint (scast (c :: u32) :: u64) = sint c"
  "uint (ucast (a :: u8) :: u64) = uint a" "uint (ucast (b :: u16) :: u64) = uint b" "uint (ucast (c :: u32) :: u64) = uint c"
  by (rule sint_scast_up uint_ucast_up; simp)+

lemma low_members [simp]:
  "mInt8 (scast (a :: u8)) = a" "mInt8 (ucast (a :: u8)) = a" "mInt16 (scast (b :: u16)) = b"
  "mInt16 (ucast (b :: u16)) = b" "mInt32 (scast (c :: u32)) = c" "mInt32 (ucast (c :: u32)) = c"
  by (simp_all add: mInt8_def mInt16_def mInt32_def ucast_scast_low)

lemma const_payload_overloads: "const_payload_int tc v = const_payload_u64 tc (scast v)"
proof -
  have "(ucast (scast v :: u64) :: u8) = ucast v" "(ucast (scast v :: u64) :: u16) = ucast v"
    by (transfer, simp add: take_bit_signed_take_bit)+
  then show ?thesis
    by (cases tc) (simp_all add: const_payload_int_def const_payload_u64_def ucast_scast_low)
qed

lemma const_int_payload: "const_int tc (const_payload_u64 tc w) = const_int tc w"
  by (cases tc) (simp_all add: const_int_def const_payload_u64_def, simp_all add: mInt8_def mInt16_def mInt32_def)

section \<open>Properties\<close>

text \<open>
  C14 (Pools). Creating a constant keeps the pool well-formed, leaves every older constant where it
  is and returns a value that reads back the new one; the recursive queries on constants of a
  well-formed pool always return.
\<close>

theorem const_pool_queries:
  assumes wf: "pool_wf P" and l: "value_ok (length P) l" and r: "value_ok (length P) r"
    and new: "(v, Q) \<in> {CreateConst_u64 ps tc w P, CreateConst_int ps tc i P, CreateConst_double tc w P, GetUndefConstValue t P}"
  shows "pool_wf Q \<and> IsConst v \<and> value_ok (length Q) v \<and> GetConstantById Q (v_id v) = Some (last Q) \<and> butlast Q = P \<and>
    IsZero P l \<noteq> None \<and> IsConstValue P l \<noteq> None \<and> CheckConstEquality P l r \<noteq> None"
proof -
  obtain c where vQ: "(v, Q) = add_const c P" and c: "const_refs c = []"
    using new by (auto simp: CreateConst_u64_def CreateConst_int_def CreateConst_double_def GetUndefConstValue_def Let_def)
  then have "pool_wf Q \<and> IsConst v \<and> value_ok (length Q) v \<and> GetConstantById Q (v_id v) = Some (last Q) \<and> butlast Q = P"
    using pool_wf_add [OF wf] by (auto simp: add_const_def value_ok_def GetConstantById_def)
  moreover have "IsConstValue P l \<noteq> None"
    unfolding IsConstValue_def by (rule is_const_value_total [OF wf _ l]) simp
  moreover have "CheckConstEquality P l r \<noteq> None"
    using check_const_equality_total [OF wf _ _ l r, of "2 * length P"] by (simp add: CheckConstEquality_def)
  ultimately show ?thesis using IsZero_total [OF wf l] by blast
qed

definition demo_pool :: bf_pool where
  "demo_pool = [BfConstant BfTypeCode_Int32 0, BfConstantAgg [const_value 0, const_value 0], BfConstantAggZero,
                BfConstantBitCast 1, BfConstant BfTypeCode_Int32 7, BfConstantAgg [const_value 0, const_value 4]]"

lemma demo_pool_wf: "pool_wf demo_pool"
proof -
  have "\<forall>i \<in> set [0 ..< length demo_pool]. \<forall>v \<in> set (const_refs (demo_pool ! i)). value_ok i v" by code_simp
  then show ?thesis by (simp add: pool_wf_def)
qed

theorem const_pool_queries_witness:
  "pool_wf (demo_pool @ [BfConstant BfTypeCode_UInt8 0xFF]) \<and> CheckConstEquality demo_pool (const_value 3) (const_value 2) \<noteq> None"
proof -
  have "CreateConst_u64 8 BfTypeCode_UInt8 0x1FF demo_pool = (const_value 6, demo_pool @ [BfConstant BfTypeCode_UInt8 0xFF])"
    by code_simp
  then show ?thesis
    using const_pool_queries [OF demo_pool_wf, of "const_value 3" "const_value 2" "const_value 6"
        "demo_pool @ [BfConstant BfTypeCode_UInt8 0xFF]" 8 BfTypeCode_UInt8 "0x1FF" 0 "TypeKind_TypeId 0"]
    by (simp add: value_ok_def demo_pool_def)
qed

text \<open>
  C15 (Equality of constants). In a well-formed pool a decided \<open>CheckConstEquality\<close> is right: 1 is
  returned only for constants of the same meaning, 0 only for constants of different meaning,
  where an aggregate means its elements, a cast means its target and every zero is one zero.
\<close>

theorem const_equality_sound:
  assumes "pool_wf P" "value_ok (length P) l" "value_ok (length P) r" "CheckConstEquality P l r = Some q"
  shows "(q = 1 \<and> const_meaning P l = const_meaning P r) \<or> (q = 0 \<and> const_meaning P l \<noteq> const_meaning P r) \<or> q = -1"
  using check_const_equality_sound [OF assms(1-3)] assms(4) unfolding CheckConstEquality_def verdict_ok_def by blast

theorem const_equality_sound_witness:
  "const_meaning demo_pool (const_value 3) = const_meaning demo_pool (const_value 2) \<and>
   const_meaning demo_pool (const_value 1) \<noteq> const_meaning demo_pool (const_value 5)"
proof -
  have "CheckConstEquality demo_pool (const_value 3) (const_value 2) = Some 1"
    "CheckConstEquality demo_pool (const_value 1) (const_value 5) = Some 0" by code_simp+
  then show ?thesis
    using const_equality_sound [OF demo_pool_wf, of "const_value 3" "const_value 2" 1]
      const_equality_sound [OF demo_pool_wf, of "const_value 1" "const_value 5" 0]
    by (simp add: value_ok_def demo_pool_def)
qed

text \<open>
  C16 (Payloads). The integer overloads of \<open>CreateConst\<close> agree on every \<open>int\<close>; the stored payload
  reads back, at the constant's type, as the number the argument has at that type, and is itself
  that number in 64 bits: sign-extended for the signed types, zero-extended for the unsigned.
\<close>

theorem create_const_payload:
  "const_payload_int tc v = const_payload_u64 tc (scast v) \<and>
   const_int tc (const_payload_u64 tc w) = const_int tc w \<and>
   (tc \<in> {BfTypeCode_Int8, BfTypeCode_Int16, BfTypeCode_Int32, BfTypeCode_Int64} \<longrightarrow>
     const_int tc w = Some (sint (const_payload_u64 tc w))) \<and>
   (tc \<in> {BfTypeCode_UInt8, BfTypeCode_UInt16, BfTypeCode_UInt32, BfTypeCode_UInt64} \<longrightarrow>
     const_int tc w = Some (uint (const_payload_u64 tc w)))"
  using const_payload_overloads const_int_payload
  by (auto simp: const_payload_u64_def const_int_def mInt8_def mInt16_def mInt32_def)

theorem create_const_payload_witness:
  "const_int BfTypeCode_Int8 0x1FF = Some (sint (const_payload_u64 BfTypeCode_Int8 0x1FF)) \<and>
   const_int BfTypeCode_UInt8 0x1FF = Some (uint (const_payload_u64 BfTypeCode_UInt8 0x1FF))"
  using create_const_payload [of BfTypeCode_Int8 0 "0x1FF"] create_const_payload [of BfTypeCode_UInt8 0 "0x1FF"] by blast

end
