(* ===== verification/Beef_Fold_Spec.thy ===== *)
theory Beef_Fold_Spec
  imports Beef_Fold Beef_Const_Spec
begin

text \<open>
  Correctness of constant folding: what a folded operation returns, as numbers of the operands'
  type, when it reports failure, when it writes a command instead, and that every operation only
  appends to the pool and the command stream.  The laws that the fold of a checked operation
  needs of its overloads are two locales, interpreted on addition, subtraction and
  multiplication.
\<close>

section \<open>Integer types as number ranges\<close>

text \<open>Signedness and bytes of the types that the folding switches have a case for.\<close>

definition int_kind :: "bf_type_code \<Rightarrow> (bool \<times> nat) option" where
  "int_kind tc =
     (case tc of
        BfTypeCode_Boolean \<Rightarrow> Some (True, 1)
      | BfTypeCode_Int8 \<Rightarrow> Some (True, 1)
      | BfTypeCode_Int16 \<Rightarrow> Some (True, 2)
      | BfTypeCode_Int32 \<Rightarrow> Some (True, 4)
      | BfTypeCode_Int64 \<Rightarrow> Some (True, 8)
      | BfTypeCode_UInt8 \<Rightarrow> Some (False, 1)
      | BfTypeCode_Char8 \<Rightarrow> Some (False, 1)
      | BfTypeCode_UInt16 \<Rightarrow> Some (False, 2)
      | BfTypeCode_Char16 \<Rightarrow> Some (False, 2)
      | BfTypeCode_UInt32 \<Rightarrow> Some (False, 4)
      | BfTypeCode_Char32 \<Rightarrow> Some (False, 4)
      | BfTypeCode_UInt64 \<Rightarrow> Some (False, 8)
      | _ \<Rightarrow> None)"

definition in_type :: "bf_type_code \<Rightarrow> int \<Rightarrow> bool" where
  "in_type tc v = (case int_kind tc of Some (s, n) \<Rightarrow> if s then in_s n v else in_u n v | None \<Rightarrow> False)"

definition wrap_type :: "bf_type_code \<Rightarrow> int \<Rightarrow> int" where
  "wrap_type tc v = (case int_kind tc of Some (s, n) \<Rightarrow> if s then wrap_s n v else wrap_u n v | None \<Rightarrow> v)"

lemmas kind_defs = int_kind_def in_type_def wrap_type_def const_int_def

lemma const_int_Some: "int_kind tc \<noteq> None \<longleftrightarrow> const_int tc w \<noteq> None"
  by (cases tc) (simp_all add: int_kind_def const_int_def)

lemma FixTypeCode_int: "int_kind tc \<noteq> None \<Longrightarrow> FixTypeCode p tc = tc"
  by (cases tc) (simp_all add: int_kind_def FixTypeCode_def)

text \<open>The number stored for a 64-bit value of a type.\<close>

lemma sint_word_of_int_w:
  "sint (word_of_int v :: u8) = wrap_s 1 v" "sint (word_of_int v :: u16) = wrap_s 2 v"
  "sint (word_of_int v :: u32) = wrap_s 4 v" "sint (word_of_int v :: u64) = wrap_s 8 v"
  "uint (word_of_int v :: u8) = wrap_u 1 v" "uint (word_of_int v :: u16) = wrap_u 2 v"
  "uint (word_of_int v :: u32) = wrap_u 4 v" "uint (word_of_int v :: u64) = wrap_u 8 v"
  by (rule sint_word_of_int_wrap uint_word_of_int_wrap; simp)+

lemma members_of_int:
  "mInt8 (word_of_int v) = word_of_int v" "mInt16 (word_of_int v) = word_of_int v"
  "mInt32 (word_of_int v) = word_of_int v"
  by (simp_all add: mInt8_def mInt16_def mInt32_def narrow_ucast)

lemma const_int_word_of_int: "int_kind tc \<noteq> None \<Longrightarrow> const_int tc (word_of_int v) = Some (wrap_type tc v)"
  by (cases tc) (simp_all add: kind_defs members_of_int sint_word_of_int_w del: of_int_uint of_int_sint)

lemma wrap_type_id: "in_type tc v \<Longrightarrow> wrap_type tc v = v"
  by (cases tc) (simp_all add: kind_defs wrap_s_id wrap_u_id)

lemma const_int_in_type: "const_int tc w = Some v \<Longrightarrow> in_type tc v"
  by (cases tc) (auto simp: kind_defs intro: sint_in_s uint_in_u simp del: One_nat_def)

section \<open>The new constant\<close>

definition folded :: "bf_builder \<Rightarrow> bf_type_code \<Rightarrow> int \<Rightarrow> bf_value \<times> bf_builder \<Rightarrow> bool" where
  "folded b tc v r \<longleftrightarrow>
     (\<exists>w. IsConst (fst r) \<and> const_of (snd r) (fst r) = Some (BfConstant tc w) \<and> const_int tc w = Some v \<and>
          b_pool (snd r) = b_pool b @ [BfConstant tc w] \<and> b_stream (snd r) = b_stream b \<and>
          mCmdCount (snd r) = mCmdCount b)"

lemma const_of_new: "const_of (snd (in_pool b (add_const c P))) (fst (in_pool b (add_const c P))) = Some c"
  by (simp add: const_of_def in_pool_def add_const_def GetConstantById_def)

lemma folded_u64:
  assumes "int_kind tc \<noteq> None" "const_int tc w = Some v"
  shows "folded b tc v (new_u64 tc w (b\<lparr>mOpFailed := q\<rparr>))" and "folded b tc v (new_u64 tc w b)"
  using assms const_int_payload [of tc w] FixTypeCode_int [OF assms(1), of "b_ptr_size b"]
  by (simp_all add: folded_def new_u64_def CreateConst_u64_def Let_def in_pool_def add_const_def const_of_def
        GetConstantById_def)

lemma folded_int:
  assumes "int_kind tc \<noteq> None" "const_int tc (scast w) = Some v"
  shows "folded b tc v (new_int tc w b)"
  using assms const_int_payload [of tc "scast w"] FixTypeCode_int [OF assms(1), of "b_ptr_size b"]
  by (simp add: folded_def new_int_def CreateConst_int_def Let_def in_pool_def add_const_def const_of_def
        GetConstantById_def const_payload_overloads)

lemma new_u64_failed [simp]: "mOpFailed (snd (new_u64 tc w b)) = mOpFailed b"
  by (simp add: new_u64_def in_pool_def)

section \<open>Checked operations\<close>

text \<open>A family of overloads returns the wrapped values of an integer function.\<close>

locale wrapped_overloads =
  fixes ops :: ck_ops and f :: "int \<Rightarrow> int \<Rightarrow> int"
  assumes u8: "\<exists>q. ck_u8 ops a b = Some (word_of_int (f (uint a) (uint b)), q)"
    and i8: "\<exists>q. ck_i8 ops a b = Some (word_of_int (f (sint a) (sint b)), q)"
    and u16: "\<exists>q. ck_u16 ops c d = Some (word_of_int (f (uint c) (uint d)), q)"
    and i16: "\<exists>q. ck_i16 ops c d = Some (word_of_int (f (sint c) (sint d)), q)"
    and u32: "\<exists>q. ck_u32 ops e g = Some (word_of_int (f (uint e) (uint g)), q)"
    and i32: "\<exists>q. ck_i32 ops e g = Some (word_of_int (f (sint e) (sint g)), q)"
    and u64: "\<exists>q. ck_u64 ops h i = Some (word_of_int (f (uint h) (uint i)), q)"
    and i64: "\<exists>q. ck_i64 ops h i = Some (word_of_int (f (sint h) (sint i)), q)"
begin

lemma switch_value:
  assumes x: "const_int tc x = Some a" and y: "const_int tc y = Some c"
  shows "\<exists>w q. binopfunc_switch ops tc x y = Some (w, q) \<and> const_int tc w = Some (wrap_type tc (f a c))"
  using x y u8 [of "mInt8 x" "mInt8 y"] i8 [of "mInt8 x" "mInt8 y"] u16 [of "mInt16 x" "mInt16 y"]
    i16 [of "mInt16 x" "mInt16 y"] u32 [of "mInt32 x" "mInt32 y"] i32 [of "mInt32 x" "mInt32 y"]
    u64 [of x y] i64 [of x y]
  by (cases tc) (auto simp: binopfunc_switch_def kind_defs s_val_def u_val_def sint_word_of_int_w
      simp del: of_int_uint of_int_sint One_nat_def)

end

text \<open>The overloads also report exactly the results outside the type.\<close>

locale exact_overloads = wrapped_overloads +
  assumes fu8: "ck_u8 ops a b = Some (r1, q) \<Longrightarrow> q \<longleftrightarrow> \<not> in_u 1 (f (uint a) (uint b))"
    and fi8: "ck_i8 ops a b = Some (r1, q) \<Longrightarrow> q \<longleftrightarrow> \<not> in_s 1 (f (sint a) (sint b))"
    and fu16: "ck_u16 ops c d = Some (r2, q) \<Longrightarrow> q \<longleftrightarrow> \<not> in_u 2 (f (uint c) (uint d))"
    and fi16: "ck_i16 ops c d = Some (r2, q) \<Longrightarrow> q \<longleftrightarrow> \<not> in_s 2 (f (sint c) (sint d))"
    and fu32: "ck_u32 ops e g = Some (r4, q) \<Longrightarrow> q \<longleftrightarrow> \<not> in_u 4 (f (uint e) (uint g))"
    and fi32: "ck_i32 ops e g = Some (r4, q) \<Longrightarrow> q \<longleftrightarrow> \<not> in_s 4 (f (sint e) (sint g))"
    and fu64: "ck_u64 ops h i = Some (r8, q) \<Longrightarrow> q \<longleftrightarrow> \<not> in_u 8 (f (uint h) (uint i))"
    and fi64: "ck_i64 ops h i = Some (r8, q) \<Longrightarrow> q \<longleftrightarrow> \<not> in_s 8 (f (sint h) (sint i))"
begin

lemma switch_flag:
  assumes x: "const_int tc x = Some a" and y: "const_int tc y = Some c"
    and r: "binopfunc_switch ops tc x y = Some (w, q)"
  shows "q \<longleftrightarrow> \<not> in_type tc (f a c)"
  using x y r fu8 [of "mInt8 x" "mInt8 y"] fi8 [of "mInt8 x" "mInt8 y"] fu16 [of "mInt16 x" "mInt16 y"]
    fi16 [of "mInt16 x" "mInt16 y"] fu32 [of "mInt32 x" "mInt32 y"] fi32 [of "mInt32 x" "mInt32 y"]
    fu64 [of x y] fi64 [of x y]
  by (cases tc) (auto simp: binopfunc_switch_def kind_defs s_val_def u_val_def simp del: One_nat_def)

end

lemmas ck_fields = CheckedAdd_def CheckedSub_def CheckedMul_def ck_ops.simps

interpretation ck_add: exact_overloads CheckedAdd "(+)"
  by unfold_locales (simp_all add: ck_fields CheckedAdd_narrow_exact CheckedAdd_wide_exact del: One_nat_def)

interpretation ck_sub: exact_overloads CheckedSub "(-)"
  by unfold_locales (simp_all add: ck_fields CheckedSub_narrow_exact CheckedSub_wide_exact del: One_nat_def)

interpretation ck_mul: wrapped_overloads CheckedMul "(*)"
  by unfold_locales (simp_all add: ck_fields CheckedMul_narrow_unsigned CheckedMul_narrow_signed
      CheckedMul_u32_exact CheckedMul_u64_exact CheckedMul_i32_flag CheckedMul_i64_flag)

section \<open>Folding two constants of one type\<close>

text \<open>Both operands are constants of type \<open>tc\<close> that stand for the numbers \<open>a\<close> and \<open>c\<close>.\<close>

definition int_operands :: "bf_builder \<Rightarrow> bf_type_code \<Rightarrow> bf_value \<Rightarrow> int \<Rightarrow> bf_value \<Rightarrow> int \<Rightarrow> bool" where
  "int_operands b tc lhs a rhs c \<longleftrightarrow> IsConst lhs \<and> IsConst rhs \<and>
     (\<exists>x y. const_of b lhs = Some (BfConstant tc x) \<and> const_int tc x = Some a \<and>
            const_of b rhs = Some (BfConstant tc y) \<and> const_int tc y = Some c)"

lemma is_undef_prim [simp]: "\<not> is_undef (BfConstant tc x)"
  by (cases tc) (simp_all add: is_undef_def BfTypeCode_Length_def)

lemma tag_prim_lt: "type_code_nat tc < BfTypeCode_Length"
  by (cases tc) (simp_all add: BfTypeCode_Length_def)

lemma tag_prim_neq [simp]: "type_code_nat tc \<noteq> const_type_nat k"
proof -
  have "BfTypeCode_Length \<le> const_type_nat k" by (cases k) simp_all
  then show ?thesis using tag_prim_lt [of tc] by linarith
qed

lemma tag_prim_neq_num [simp]: "type_code_nat tc \<noteq> BfTypeCode_Length + k" "type_code_nat tc \<noteq> BfTypeCode_Length"
  using tag_prim_lt [of tc] by linarith+

lemma int_kind_not_float: "int_kind tc \<noteq> None \<Longrightarrow> \<not> IsFloat tc"
  by (cases tc) (simp_all add: int_kind_def IsFloat_def)

lemma int_operandsE:
  assumes "int_operands b tc lhs a rhs c"
  obtains x y where "IsConst lhs" "IsConst rhs" "const_of b lhs = Some (BfConstant tc x)"
    "const_of b rhs = Some (BfConstant tc y)" "const_int tc x = Some a" "const_int tc y = Some c"
    "int_kind tc \<noteq> None"
  using assms const_int_Some unfolding int_operands_def by (metis option.distinct(1))

context wrapped_overloads
begin

lemma checked_fold:
  assumes x: "const_int tc x = Some a" and y: "const_int tc y = Some c"
  shows "\<exists>r w q. checked_new tc (binopfunc_switch ops tc x y) b = FoldReturn r \<and>
    folded b tc (wrap_type tc (f a c)) r \<and> mOpFailed (snd r) = (mOpFailed b \<or> q) \<and>
    binopfunc_switch ops tc x y = Some (w, q)"
proof -
  obtain w q where w: "binopfunc_switch ops tc x y = Some (w, q)" "const_int tc w = Some (wrap_type tc (f a c))"
    using switch_value [OF x y] by blast
  have k: "int_kind tc \<noteq> None" using x const_int_Some by (metis option.distinct(1))
  show ?thesis
    by (rule exI [of _ "new_u64 tc w (b\<lparr>mOpFailed := mOpFailed b \<or> q\<rparr>)"], rule exI [of _ w], rule exI [of _ q])
      (use w folded_u64(1) [OF k w(2)] in \<open>simp add: checked_new_def\<close>)
qed

end

text \<open>A folded operation: the new constant is the wrapped result, failure is reported as \<open>bad\<close> says.\<close>

definition folds_to :: "bf_builder \<Rightarrow> bf_type_code \<Rightarrow> int \<Rightarrow> bool \<Rightarrow> bf_result \<Rightarrow> bool" where
  "folds_to b tc v bad r \<longleftrightarrow>
     (case r of None \<Rightarrow> False | Some p \<Rightarrow> folded b tc (wrap_type tc v) p \<and> mOpFailed (snd p) = bad)"

lemma const_of_failed [simp]: "const_of (b\<lparr>mOpFailed := q\<rparr>) v = const_of b v"
  by (simp add: const_of_def)

lemma folded_failed [simp]: "folded (b\<lparr>mOpFailed := q\<rparr>) tc v p = folded b tc v p"
  by (simp add: folded_def)

text \<open>
  C17 (Folding sums and differences). For two constants of one integer, character or boolean type
  \<open>CreateAdd\<close> and \<open>CreateSub\<close> write no command; they return a new constant of that type that stands
  for the wrapped result, and set \<open>mOpFailed\<close> exactly when the result is not in the type's range.
\<close>

theorem fold_add_sub:
  assumes "int_operands b tc lhs a rhs c"
  shows "folds_to b tc (a + c) (\<not> in_type tc (a + c)) (CreateAdd fpu lhs rhs kind b) \<and>
         folds_to b tc (a - c) (\<not> in_type tc (a - c)) (CreateSub fpu lhs rhs kind b)"
proof -
  obtain x y where c: "IsConst lhs" "IsConst rhs" "const_of b lhs = Some (BfConstant tc x)"
    "const_of b rhs = Some (BfConstant tc y)" and n: "const_int tc x = Some a" "const_int tc y = Some c"
    and k: "int_kind tc \<noteq> None" using assms by (rule int_operandsE)
  let ?b = "b\<lparr>mOpFailed := False\<rparr>"
  obtain r q w where r: "checked_new tc (binopfunc_switch CheckedAdd tc x y) ?b = FoldReturn r"
    "folded ?b tc (wrap_type tc (a + c)) r" "mOpFailed (snd r) = (mOpFailed ?b \<or> q)" "binopfunc_switch CheckedAdd tc x y = Some (w, q)"
    using ck_add.checked_fold [OF n, of ?b] by blast
  obtain r' q' w' where r': "checked_new tc (binopfunc_switch CheckedSub tc x y) ?b = FoldReturn r'"
    "folded ?b tc (wrap_type tc (a - c)) r'" "mOpFailed (snd r') = (mOpFailed ?b \<or> q')" "binopfunc_switch CheckedSub tc x y = Some (w', q')"
    using ck_sub.checked_fold [OF n, of ?b] by blast
  show ?thesis
    using c int_kind_not_float [OF k] r r' ck_add.switch_flag [OF n r(4)] ck_sub.switch_flag [OF n r'(4)]
    by (simp add: folds_to_def CreateAdd_def CreateSub_def Let_def binopfunc_apply_def or_else_def)
qed

text \<open>A builder with the integer constants 100, 27 and 0 of a type, and commands being written.\<close>

definition demo_builder :: "bf_type_code \<Rightarrow> bf_builder" where
  "demo_builder tc = \<lparr>b_pool = [BfConstant tc 100, BfConstant tc 27, BfConstant tc 0], b_ptr_size = 8,
     b_bool_type = 1, mOpFailed = False, mIgnoreWrites = False, mCmdCount = 0, mCurFakeId = -32,
     b_stream = [], mInsertBlock = BfIRValue 0 (-1), mActualInsertBlock = BfIRValue 0 (-1)\<rparr>"

lemma demo_operands:
  assumes "const_int tc 100 = Some 100" "const_int tc 27 = Some 27"
  shows "int_operands (demo_builder tc) tc (const_value 0) 100 (const_value 1) 27"
    and "int_operands (demo_builder tc) tc (const_value 0) 100 (const_value 0) 100"
  using assms by (simp_all add: int_operands_def demo_builder_def const_of_def GetConstantById_def)

lemma demo_numbers:
  "const_int BfTypeCode_Int8 100 = Some 100" "const_int BfTypeCode_Int8 27 = Some 27"
  "const_int BfTypeCode_Int32 100 = Some 100" "const_int BfTypeCode_Int32 27 = Some 27"
  by code_simp+

theorem fold_add_sub_witness:
  "\<forall>fpu. folds_to (demo_builder BfTypeCode_Int8) BfTypeCode_Int8 200 True
     (CreateAdd fpu (const_value 0) (const_value 0) 0 (demo_builder BfTypeCode_Int8)) \<and>
   wrap_type BfTypeCode_Int8 200 = - 56"
proof -
  have "wrap_type BfTypeCode_Int8 200 = - 56" "\<not> in_type BfTypeCode_Int8 (100 + 100)" by code_simp+
  then show ?thesis
    using fold_add_sub [OF demo_operands(2) [OF demo_numbers(1,2)]] by simp
qed

section \<open>Products and shifts\<close>

definition mul_reported :: "bf_type_code \<Rightarrow> int \<Rightarrow> bool" where
  "mul_reported tc v =
     (if tc = BfTypeCode_Int32 then v < - 0x100000000 \<or> 0x100000000 \<le> v
      else if tc = BfTypeCode_Int64 then 0x8000000000000000 \<le> \<bar>v\<bar>
      else \<not> in_type tc v)"

lemma mul_switch_flag:
  assumes "const_int tc x = Some a" "const_int tc y = Some c" "binopfunc_switch CheckedMul tc x y = Some (w, q)"
  shows "q = mul_reported tc (a * c)"
  using assms
  by (cases tc) (auto simp: binopfunc_switch_def kind_defs s_val_def u_val_def ck_fields mul_reported_def
      CheckedMul_narrow_unsigned CheckedMul_narrow_signed CheckedMul_u32_exact CheckedMul_u64_exact
      CheckedMul_i32_flag CheckedMul_i64_flag simp del: One_nat_def)

text \<open>
  C18 (Folding products). \<open>CreateMul\<close> of two constants of one type returns the wrapped product and
  reports it exactly when it is outside the type, except that for \<open>Int32\<close> only products outside
  \<open>-2^32 .. 2^32 - 1\<close> are reported and for \<open>Int64\<close> the representable \<open>-2^63\<close> is reported too.
\<close>

theorem fold_mul:
  assumes "int_operands b tc lhs a rhs c"
  shows "folds_to b tc (a * c) (mul_reported tc (a * c)) (CreateMul fpu lhs rhs kind b)"
proof -
  obtain x y where c: "IsConst lhs" "IsConst rhs" "const_of b lhs = Some (BfConstant tc x)"
    "const_of b rhs = Some (BfConstant tc y)" and n: "const_int tc x = Some a" "const_int tc y = Some c"
    and k: "int_kind tc \<noteq> None" using assms by (rule int_operandsE)
  let ?b = "b\<lparr>mOpFailed := False\<rparr>"
  obtain r q w where r: "checked_new tc (binopfunc_switch CheckedMul tc x y) ?b = FoldReturn r"
    "folded ?b tc (wrap_type tc (a * c)) r" "mOpFailed (snd r) = (mOpFailed ?b \<or> q)" "binopfunc_switch CheckedMul tc x y = Some (w, q)"
    using ck_mul.checked_fold [OF n, of ?b] by blast
  show ?thesis
    using c int_kind_not_float [OF k] r mul_switch_flag [OF n r(4)]
    by (simp add: folds_to_def CreateMul_def Let_def binopfunc_apply_def or_else_def)
qed

definition big_demo :: "bf_type_code \<Rightarrow> bf_builder" where
  "big_demo tc = (demo_builder tc)\<lparr>b_pool := [BfConstant tc 0x40000000, BfConstant tc 2]\<rparr>"

theorem fold_mul_witness:
  "\<forall>fpu. folds_to (big_demo BfTypeCode_Int32) BfTypeCode_Int32 0x80000000 False
     (CreateMul fpu (const_value 0) (const_value 1) 0 (big_demo BfTypeCode_Int32)) \<and>
   \<not> in_type BfTypeCode_Int32 0x80000000"
proof -
  have "const_int BfTypeCode_Int32 0x40000000 = Some 0x40000000" "const_int BfTypeCode_Int32 2 = Some 2"
    "mul_reported BfTypeCode_Int32 0x80000000 = False" "\<not> in_type BfTypeCode_Int32 0x80000000" by code_simp+
  moreover from this have "int_operands (big_demo BfTypeCode_Int32) BfTypeCode_Int32 (const_value 0) 0x40000000 (const_value 1) 2"
    by (simp add: int_operands_def big_demo_def demo_builder_def const_of_def GetConstantById_def)
  ultimately show ?thesis using fold_mul [of "big_demo BfTypeCode_Int32" BfTypeCode_Int32 "const_value 0" "0x40000000" "const_value 1" 2] by simp
qed

text \<open>The counts for which the C++ shift of a promoted operand is defined.\<close>

definition shl_defined :: "bf_type_code \<Rightarrow> int \<Rightarrow> bool" where
  "shl_defined tc c \<longleftrightarrow> 0 \<le> c \<and>
     c < (if tc \<in> {BfTypeCode_Int32, BfTypeCode_Int64, BfTypeCode_UInt64} then 64 else 32)"

definition shl_exact :: "bf_type_code \<Rightarrow> bool" where
  "shl_exact tc \<longleftrightarrow> tc \<notin> {BfTypeCode_UInt32, BfTypeCode_Char32, BfTypeCode_UInt64, BfTypeCode_Int64}"

lemma push_bit_word: "push_bit k (a :: 'a::len word) = word_of_int (uint a * 2 ^ k)" "push_bit k a = word_of_int (sint a * 2 ^ k)"
  by (simp_all add: push_bit_eq_mult)

lemma nat_uint: "nat (uint b) = unat b"
  by simp

lemma CheckedShl_total:
  "CheckedShl_u8 a b = (if uint b < 32 then Some (word_of_int (uint a * 2 ^ nat (uint b)), \<not> in_u 1 (uint a * 2 ^ nat (uint b))) else None)"
  "CheckedShl_u16 c d = (if uint d < 32 then Some (word_of_int (uint c * 2 ^ nat (uint d)), \<not> in_u 2 (uint c * 2 ^ nat (uint d))) else None)"
  "CheckedShl_i8 a b = (if 0 \<le> sint b \<and> sint b < 32 then Some (word_of_int (sint a * 2 ^ nat (sint b)), \<not> in_s 1 (sint a * 2 ^ nat (sint b))) else None)"
  "CheckedShl_i16 c d = (if 0 \<le> sint d \<and> sint d < 32 then Some (word_of_int (sint c * 2 ^ nat (sint d)), \<not> in_s 2 (sint c * 2 ^ nat (sint d))) else None)"
  "CheckedShl_i32 e f = (if 0 \<le> sint f \<and> sint f < 64 then Some (word_of_int (sint e * 2 ^ nat (sint f)), \<not> in_s 4 (sint e * 2 ^ nat (sint f))) else None)"
proof -
  have u: "unat w < k \<longleftrightarrow> uint w < int k" for w :: "'x::len word" and k
    by (metis nat_uint uint_int_unat of_nat_less_iff)
  show "CheckedShl_u8 a b = (if uint b < 32 then Some (word_of_int (uint a * 2 ^ nat (uint b)), \<not> in_u 1 (uint a * 2 ^ nat (uint b))) else None)"
    using CheckedShl_u8_exact [of b a] u [of b 32] by (auto simp: CheckedShl_u8_def nat_uint simp del: of_int_mult)
  show "CheckedShl_u16 c d = (if uint d < 32 then Some (word_of_int (uint c * 2 ^ nat (uint d)), \<not> in_u 2 (uint c * 2 ^ nat (uint d))) else None)"
    using CheckedShl_u16_exact [of d c] u [of d 32] by (auto simp: CheckedShl_u16_def nat_uint simp del: of_int_mult)
  have s: "0 \<le> sint w \<Longrightarrow> nat (sint w) = unat w \<and> (unat w < k \<longleftrightarrow> sint w < int k)" for w :: "'x::len word" and k
    using sint_int_unat [of w] by (simp only: nat_int of_nat_less_iff simp_thms)
  show "CheckedShl_i8 a b = (if 0 \<le> sint b \<and> sint b < 32 then Some (word_of_int (sint a * 2 ^ nat (sint b)), \<not> in_s 1 (sint a * 2 ^ nat (sint b))) else None)"
    using CheckedShl_i8_exact [of b a] s [of b 32] by (auto simp: CheckedShl_i8_def simp del: of_int_mult)
  show "CheckedShl_i16 c d = (if 0 \<le> sint d \<and> sint d < 32 then Some (word_of_int (sint c * 2 ^ nat (sint d)), \<not> in_s 2 (sint c * 2 ^ nat (sint d))) else None)"
    using CheckedShl_i16_exact [of d c] s [of d 32] by (auto simp: CheckedShl_i16_def simp del: of_int_mult)
  show "CheckedShl_i32 e f = (if 0 \<le> sint f \<and> sint f < 64 then Some (word_of_int (sint e * 2 ^ nat (sint f)), \<not> in_s 4 (sint e * 2 ^ nat (sint f))) else None)"
    using CheckedShl_i32_exact [of f e] s [of f 64] by (auto simp: CheckedShl_i32_def simp del: of_int_mult)
qed

lemma CheckedShl_full:
  "\<exists>q. CheckedShl_u32 a b = (if uint b < 32 then Some (word_of_int (uint a * 2 ^ nat (uint b)), q) else None) \<and>
       (q \<longrightarrow> \<not> in_u 4 (uint a * 2 ^ nat (uint b)))"
  "\<exists>q. CheckedShl_u64 c d = (if uint d < 64 then Some (word_of_int (uint c * 2 ^ nat (uint d)), q) else None) \<and>
       (q \<longrightarrow> \<not> in_u 8 (uint c * 2 ^ nat (uint d)))"
  "\<exists>q. CheckedShl_i64 c d = (if 0 \<le> sint d \<and> sint d < 64 then Some (word_of_int (sint c * 2 ^ nat (sint d)), q) else None) \<and>
       (q \<longrightarrow> \<not> in_s 8 (sint c * 2 ^ nat (sint d)))"
proof -
  obtain r q where 1: "CheckedShl_u32 a b = (if uint b < 32 then Some (r, q) else None)" "uint b < 32 \<Longrightarrow> r = push_bit (unat b) a"
    by (cases "uint b < 32") (auto simp: CheckedShl_u32_def Let_def)
  then show "\<exists>q. CheckedShl_u32 a b = (if uint b < 32 then Some (word_of_int (uint a * 2 ^ nat (uint b)), q) else None) \<and>
       (q \<longrightarrow> \<not> in_u 4 (uint a * 2 ^ nat (uint b)))"
    using CheckedShl_full_flag(1) [of a b r]
    by (cases "uint b < 32") (auto simp: push_bit_word(1) simp del: of_int_mult intro!: exI [of _ q])
  obtain r q where 2: "CheckedShl_u64 c d = (if uint d < 64 then Some (r, q) else None)" "uint d < 64 \<Longrightarrow> r = push_bit (unat d) c"
    by (cases "uint d < 64") (auto simp: CheckedShl_u64_def Let_def)
  then show "\<exists>q. CheckedShl_u64 c d = (if uint d < 64 then Some (word_of_int (uint c * 2 ^ nat (uint d)), q) else None) \<and>
       (q \<longrightarrow> \<not> in_u 8 (uint c * 2 ^ nat (uint d)))"
    using CheckedShl_full_flag(2) [of c d r]
    by (cases "uint d < 64") (auto simp: push_bit_word(1) simp del: of_int_mult intro!: exI [of _ q])
  obtain r q where 3: "CheckedShl_i64 c d = (if 0 \<le> sint d \<and> sint d < 64 then Some (r, q) else None)"
    "0 \<le> sint d \<and> sint d < 64 \<Longrightarrow> r = push_bit (unat d) c"
    by (cases "0 \<le> sint d \<and> sint d < 64") (auto simp: CheckedShl_i64_def Let_def)
  then show "\<exists>q. CheckedShl_i64 c d = (if 0 \<le> sint d \<and> sint d < 64 then Some (word_of_int (sint c * 2 ^ nat (sint d)), q) else None) \<and>
       (q \<longrightarrow> \<not> in_s 8 (sint c * 2 ^ nat (sint d)))"
    using CheckedShl_full_flag(3) [of c d r] sint_int_unat [of d]
    by (cases "0 \<le> sint d \<and> sint d < 64") (auto simp: push_bit_word(2) simp del: of_int_mult intro!: exI [of _ q])
qed

lemma shl_switch:
  assumes x: "const_int tc x = Some a" and y: "const_int tc y = Some c"
  shows "if shl_defined tc c
         then \<exists>w q. binopfunc_switch CheckedShl tc x y = Some (w, q) \<and>
              const_int tc w = Some (wrap_type tc (a * 2 ^ nat c)) \<and>
              (q \<longrightarrow> \<not> in_type tc (a * 2 ^ nat c)) \<and> (shl_exact tc \<longrightarrow> q = (\<not> in_type tc (a * 2 ^ nat c)))
         else binopfunc_switch CheckedShl tc x y = None"
  using x y CheckedShl_full(1) [of "mInt32 x" "mInt32 y"] CheckedShl_full(2,3) [of x y]
  by (cases tc) (auto simp: binopfunc_switch_def kind_defs s_val_def u_val_def CheckedShl_def CheckedShl_total
      shl_defined_def shl_exact_def sint_word_of_int_w simp del: One_nat_def of_int_mult)

text \<open>
  C19 (Folding left shifts). \<open>CreateShl\<close> of two constants of one type returns the wrapped
  \<open>a * 2^c\<close> for every count for which C++ defines the shift, and never reports a result that fits.
  Except for \<open>UInt32\<close>, \<open>Char32\<close>, \<open>UInt64\<close> and \<open>Int64\<close> it reports every result that does not.
\<close>

theorem fold_shl:
  assumes ops: "int_operands b tc lhs a rhs c" and d: "shl_defined tc c"
  shows "\<exists>bad. folds_to b tc (a * 2 ^ nat c) bad (CreateShl lhs rhs b) \<and>
     (bad \<longrightarrow> \<not> in_type tc (a * 2 ^ nat c)) \<and> (shl_exact tc \<longrightarrow> bad = (\<not> in_type tc (a * 2 ^ nat c)))"
proof -
  obtain x y where c: "IsConst lhs" "IsConst rhs" "const_of b lhs = Some (BfConstant tc x)"
    "const_of b rhs = Some (BfConstant tc y)" and n: "const_int tc x = Some a" "const_int tc y = Some c"
    and k: "int_kind tc \<noteq> None" using ops by (rule int_operandsE)
  obtain w q where w: "binopfunc_switch CheckedShl tc x y = Some (w, q)"
    "const_int tc w = Some (wrap_type tc (a * 2 ^ nat c))"
    "(q \<longrightarrow> \<not> in_type tc (a * 2 ^ nat c)) \<and> (shl_exact tc \<longrightarrow> q = (\<not> in_type tc (a * 2 ^ nat c)))"
    using shl_switch [OF n] d by auto
  have "folds_to b tc (a * 2 ^ nat c) q (CreateShl lhs rhs b)"
    using c w(1) folded_u64(1) [OF k w(2)]
    by (simp add: folds_to_def CreateShl_def Let_def int_binopfunc_apply_def or_else_def checked_new_def)
  with w(3) show ?thesis by blast
qed

theorem fold_shl_witness:
  "\<exists>bad. folds_to (big_demo BfTypeCode_Int32) BfTypeCode_Int32 (0x40000000 * 2 ^ nat 2) bad
     (CreateShl (const_value 0) (const_value 1) (big_demo BfTypeCode_Int32)) \<and> bad"
proof -
  let ?b = "big_demo BfTypeCode_Int32"
  have n: "const_int BfTypeCode_Int32 0x40000000 = Some 0x40000000" "const_int BfTypeCode_Int32 2 = Some 2"
    "shl_defined BfTypeCode_Int32 2" "shl_exact BfTypeCode_Int32"
    "\<not> in_type BfTypeCode_Int32 (0x40000000 * 2 ^ nat 2)" by code_simp+
  then have "int_operands ?b BfTypeCode_Int32 (const_value 0) 0x40000000 (const_value 1) 2"
    by (simp add: int_operands_def big_demo_def demo_builder_def const_of_def GetConstantById_def)
  from fold_shl [OF this n(3)] n(4,5) show ?thesis by auto
qed

section \<open>Right shift, division and the bitwise operations\<close>

text \<open>
  \<open>CreateShr\<close> and the zero test of the divisions read the whole payload, which is the number
  itself when it was made by \<open>CreateConst\<close>.
\<close>

definition canonical :: "bf_type_code \<Rightarrow> u64 \<Rightarrow> bool" where
  "canonical tc x \<longleftrightarrow>
     (case int_kind tc of
        Some (s, n) \<Rightarrow> const_int tc x = Some (if s then sint x else uint x) | None \<Rightarrow> False)"

definition canonical_operands :: "bf_builder \<Rightarrow> bf_type_code \<Rightarrow> bf_value \<Rightarrow> int \<Rightarrow> bf_value \<Rightarrow> int \<Rightarrow> bool" where
  "canonical_operands b tc lhs a rhs c \<longleftrightarrow> int_operands b tc lhs a rhs c \<and>
     (\<forall>v x. v \<in> {lhs, rhs} \<and> const_of b v = Some (BfConstant tc x) \<longrightarrow> canonical tc x)"

lemma canonical_zero: "canonical tc y \<Longrightarrow> const_int tc y = Some c \<Longrightarrow> y = 0 \<longleftrightarrow> c = 0"
  by (auto simp: canonical_def sint_0_iff uint_0_iff split: option.splits if_splits)

definition type_signed :: "bf_type_code \<Rightarrow> bool" where
  "type_signed tc \<longleftrightarrow> (case int_kind tc of Some (s, n) \<Rightarrow> s | None \<Rightarrow> False)"

lemma canonical_signed:
  "canonical tc x \<Longrightarrow> const_int tc x = Some a \<Longrightarrow> a = (if type_signed tc then sint x else uint x)"
  by (auto simp: canonical_def type_signed_def split: option.splits)

lemma in_type_shr: "in_type tc a \<Longrightarrow> in_type tc (a div 2 ^ k)"
proof -
  have p: "(1::int) \<le> 2 ^ k" by simp
  have up: "v div 2 ^ k \<le> v" if "0 \<le> v" for v :: int
    using that by (metis div_by_1 p zdiv_mono2 zero_less_one)
  have down: "v \<le> v div 2 ^ k \<and> v div 2 ^ k < 0" if "v < 0" for v :: int
    using that zdiv_mono2_neg [of v 1 "2 ^ k"] p by (simp add: pos_imp_zdiv_neg_iff)
  have ge: "0 \<le> v div 2 ^ k" if "0 \<le> v" for v :: int
    using that by (simp add: pos_imp_zdiv_nonneg_iff)
  have "in_s n (v div 2 ^ k)" if "in_s n v" for n v
    using that up [of v] down [of v] ge [of v] by (cases "0 \<le> v") (auto simp: in_s_def)
  moreover have "in_u n (v div 2 ^ k)" if "in_u n v" for n v
    using that up [of v] ge [of v] by (auto simp: in_u_def)
  ultimately show "in_type tc a \<Longrightarrow> in_type tc (a div 2 ^ k)"
    by (auto simp: in_type_def split: option.splits if_splits)
qed

lemma canonical_word: "canonical tc x \<Longrightarrow> const_int tc x = Some a \<Longrightarrow> x = word_of_int a"
  by (auto simp: canonical_def scast_eq [symmetric] split: option.splits if_splits)

lemma drop_bit_word: "drop_bit k (w :: 'a::len word) = word_of_int (uint w div 2 ^ k)"
proof -
  have "uint (drop_bit k w) = drop_bit k (uint w)"
    by transfer (simp add: drop_bit_take_bit min_def le_less less_diff_conv)
  then show ?thesis by (metis drop_bit_eq_div word_of_int_uint)
qed

text \<open>
  C20 (Folding right shifts). With the signedness of its type, \<open>CreateShr\<close> of a constant by a count
  from 0 to 63 returns the quotient \<open>a div 2^c\<close>, which is always in the type's range.
\<close>

theorem fold_shr:
  assumes ops: "canonical_operands b tc lhs a rhs c" and cnt: "0 \<le> c" "c < 64"
  shows "folds_to b tc (a div 2 ^ nat c) (mOpFailed b) (CreateShr lhs rhs (type_signed tc) b) \<and>
         wrap_type tc (a div 2 ^ nat c) = a div 2 ^ nat c"
proof -
  have ops': "int_operands b tc lhs a rhs c" using ops by (simp add: canonical_operands_def)
  obtain x y where c: "IsConst lhs" "IsConst rhs" "const_of b lhs = Some (BfConstant tc x)"
    "const_of b rhs = Some (BfConstant tc y)" and n: "const_int tc x = Some a" "const_int tc y = Some c"
    and k: "int_kind tc \<noteq> None" using ops' by (rule int_operandsE)
  have can: "canonical tc x" "canonical tc y" using ops c by (auto simp: canonical_operands_def)
  have a: "a = (if type_signed tc then sint x else uint x)" using canonical_signed [OF can(1) n(1)] .
  have y: "sint (mInt32 y) = c"
    using canonical_word [OF can(2) n(2)] cnt by (simp add: members_of_int sint_word_of_int_w wrap_s_id in_s_def)
  have w: "(if type_signed tc then word_of_int (sint x div 2 ^ nat c) else drop_bit (nat c) x) = word_of_int (a div 2 ^ nat c)"
    using a drop_bit_word [of "nat c" x] by simp
  have "const_int tc (word_of_int (a div 2 ^ nat c)) = Some (wrap_type tc (a div 2 ^ nat c))"
    by (rule const_int_word_of_int [OF k])
  with w c y cnt folded_u64(2) [OF k this, of b]
  have "folds_to b tc (a div 2 ^ nat c) (mOpFailed b) (CreateShr lhs rhs (type_signed tc) b)"
    by (cases "type_signed tc") (simp_all add: folds_to_def CreateShr_def Let_def)
  moreover have "in_type tc (a div 2 ^ nat c)" by (rule in_type_shr [OF const_int_in_type [OF n(1)]])
  ultimately show ?thesis by (simp add: wrap_type_id)
qed

lemma demo_canonical:
  assumes "const_int tc 100 = Some 100" "const_int tc 27 = Some 27" "canonical tc 100" "canonical tc 27"
  shows "canonical_operands (demo_builder tc) tc (const_value 0) 100 (const_value 1) 27"
  using assms demo_operands(1) [OF assms(1,2)]
  by (auto simp: canonical_operands_def demo_builder_def const_of_def GetConstantById_def)

theorem fold_shr_witness:
  "folds_to (demo_builder BfTypeCode_Int8) BfTypeCode_Int8 (100 div 2 ^ nat 27) False
     (CreateShr (const_value 0) (const_value 1) (type_signed BfTypeCode_Int8) (demo_builder BfTypeCode_Int8))"
proof -
  have can: "canonical BfTypeCode_Int8 100" "canonical BfTypeCode_Int8 27" by code_simp+
  have "\<not> mOpFailed (demo_builder BfTypeCode_Int8)" by (simp add: demo_builder_def)
  then show ?thesis using fold_shr [OF demo_canonical [OF demo_numbers(1,2) can]] by simp
qed

lemma members_scast:
  "mInt8 (scast (word_of_int v :: u32)) = word_of_int v" "mInt16 (scast (word_of_int v :: u32)) = word_of_int v"
  "mInt32 (scast (word_of_int v :: u32)) = word_of_int v"
  unfolding mInt8_def mInt16_def mInt32_def
  by (transfer, simp add: take_bit_signed_take_bit)+

lemma new_int_failed [simp]: "mOpFailed (snd (new_int tc w b)) = mOpFailed b"
  by (simp add: new_int_def in_pool_def)

text \<open>The quotient and the bitwise results of an operator, as the new constant's number.\<close>

lemma int_binop_fold:
  assumes x: "const_int tc x = Some a" and y: "const_int tc y = Some c"
    and tc: "tc \<noteq> BfTypeCode_Boolean"
    and ok: "\<not> int_op_undefined op (snd (the (int_kind tc))) a c"
  shows "\<exists>p. int_binop_switch op tc x y b = FoldReturn p \<and> folded b tc (wrap_type tc (c_int_op op a c)) p \<and>
             mOpFailed (snd p) = mOpFailed b"
proof -
  let ?v = "c_int_op op a c"
  have k: "int_kind tc \<noteq> None" using x const_int_Some by (metis option.distinct(1))
  have u: "folded b tc (wrap_type tc ?v) (new_u64 tc (word_of_int ?v) b)"
    by (rule folded_u64(2) [OF k const_int_word_of_int [OF k]])
  have i: "folded b tc (wrap_type tc ?v) (new_int tc (word_of_int ?v) b)" if "snd (the (int_kind tc)) \<noteq> 8"
  proof (rule folded_int [OF k])
    show "const_int tc (scast (word_of_int ?v :: u32)) = Some (wrap_type tc ?v)"
      using that k by (cases tc) (simp_all add: kind_defs members_scast sint_word_of_int_w)
  qed
  have "int_binop_switch op tc x y b \<in> {FoldReturn (new_u64 tc (word_of_int ?v) b), FoldReturn (new_int tc (word_of_int ?v) b)}
      \<and> (snd (the (int_kind tc)) = 8 \<longrightarrow> int_binop_switch op tc x y b = FoldReturn (new_u64 tc (word_of_int ?v) b))"
    using x y tc ok by (cases tc) (auto simp: int_binop_switch_def int_op_new_def kind_defs Let_def simp del: One_nat_def)
  then show ?thesis using u i by (auto simp del: split_paired_Ex)
qed

lemma int_binop_apply_prim:
  assumes "const_of b lhs = Some (BfConstant tc x)" "const_of b rhs = Some (BfConstant tc y)"
  shows "int_binop_apply op lhs rhs b = int_binop_switch op tc x y b"
  using assms by (simp add: int_binop_apply_def)

text \<open>
  C21 (Folding division). For canonical constants of an integer or character type and a divisor
  other than zero \<open>CreateDiv\<close> and \<open>CreateRem\<close> return the truncated quotient and the remainder,
  unless the quotient of a promoted type overflows; a zero divisor is left to the generated code.
\<close>

theorem fold_div_rem:
  assumes ops: "canonical_operands b tc lhs a rhs c" and tc: "tc \<noteq> BfTypeCode_Boolean"
    and ov: "\<not> div_overflow (snd (the (int_kind tc))) a c"
  shows "if c = 0
         then CreateDiv fpu lhs rhs sg b = Some (WriteCmd ((if sg then BfIRCmd_SDiv else BfIRCmd_UDiv) lhs rhs) b) \<and>
              CreateRem fpu lhs rhs sg b = Some (WriteCmd ((if sg then BfIRCmd_SRem else BfIRCmd_URem) lhs rhs) b)
         else folds_to b tc (c_div a c) (mOpFailed b) (CreateDiv fpu lhs rhs sg b) \<and>
              folds_to b tc (c_mod a c) (mOpFailed b) (CreateRem fpu lhs rhs sg b)"
proof -
  have ops': "int_operands b tc lhs a rhs c" using ops by (simp add: canonical_operands_def)
  obtain x y where cs: "IsConst lhs" "IsConst rhs" "const_of b lhs = Some (BfConstant tc x)"
    "const_of b rhs = Some (BfConstant tc y)" and n: "const_int tc x = Some a" "const_int tc y = Some c"
    and k: "int_kind tc \<noteq> None" using ops' by (rule int_operandsE)
  have can: "canonical tc y" using ops cs by (auto simp: canonical_operands_def)
  have d: "div_apply fpu f op lhs rhs b = (if c \<noteq> 0 then int_binop_switch op tc x y b else FoldNext)" for f op
    using cs int_kind_not_float [OF k] canonical_zero [OF can n(2)] int_binop_apply_prim [OF cs(3,4)]
    by (simp add: div_apply_def)
  have q: "folds_to b tc (c_int_op op a c) (mOpFailed b) (or_else (int_binop_switch op tc x y b) e)"
    if "c \<noteq> 0" "op \<in> {IDiv, IRem}" for op e
    using int_binop_fold [OF n tc, of op b] that ov
    by (auto simp: folds_to_def or_else_def int_op_undefined_def)
  show ?thesis
    using cs d q [of IDiv] q [of IRem] by (simp add: CreateDiv_def CreateRem_def Let_def) (simp add: or_else_def)
qed

theorem fold_div_rem_witness:
  "\<forall>fpu. folds_to (demo_builder BfTypeCode_Int8) BfTypeCode_Int8 (c_div 100 27) False
     (CreateDiv fpu (const_value 0) (const_value 1) True (demo_builder BfTypeCode_Int8)) \<and> c_div 100 27 = 3"
proof -
  have can: "canonical BfTypeCode_Int8 100" "canonical BfTypeCode_Int8 27" by code_simp+
  have "\<not> mOpFailed (demo_builder BfTypeCode_Int8)" by (simp add: demo_builder_def)
  moreover have "\<not> div_overflow (snd (the (int_kind BfTypeCode_Int8))) 100 27" "c_div 100 27 = 3" by code_simp+
  ultimately show ?thesis
    using fold_div_rem [OF demo_canonical [OF demo_numbers(1,2) can], where sg = True] by simp
qed

text \<open>Negation and complement of the members, as numbers.\<close>

lemma members_not: "mInt8 (NOT x) = NOT (mInt8 x)" "mInt16 (NOT x) = NOT (mInt16 x)" "mInt32 (NOT x) = NOT (mInt32 x)"
  unfolding mInt8_def mInt16_def mInt32_def by (rule bit_word_eqI, simp add: bit_simps)+

lemma word_of_neg: "word_of_int (- sint w) = - w" "word_of_int (- uint w) = - w"
  by simp_all

lemma word_of_not: "word_of_int (NOT (sint w)) = NOT w" "word_of_int (NOT (uint w)) = NOT w"
proof -
  have s: "word_of_int (sint w) = w" "word_of_int (uint w) = w" by simp_all
  show "word_of_int (NOT (sint w)) = NOT w" "word_of_int (NOT (uint w)) = NOT w"
    by (simp_all only: of_int_not_eq) (simp_all only: s)
qed

lemma const_int_neg:
  assumes "const_int tc x = Some a" "tc \<noteq> BfTypeCode_Boolean"
  shows "const_int tc (neg_switch tc x) = Some (wrap_type tc (- a))"
proof -
  have "const_int tc (word_of_int (- a)) = Some (wrap_type tc (- a))"
    using assms(1) const_int_Some by (intro const_int_word_of_int) (metis option.distinct(1))
  moreover have "const_int tc (neg_switch tc x) = const_int tc (word_of_int (- a))"
    using assms
    by (cases tc) (auto simp: neg_switch_def const_int_def members_of_int word_of_neg simp del: of_int_minus)
  ultimately show ?thesis by simp
qed

lemma const_int_not:
  assumes "const_int tc x = Some a" "tc \<noteq> BfTypeCode_Boolean"
  shows "const_int tc (NOT x) = Some (wrap_type tc (NOT a))"
proof -
  have "const_int tc (word_of_int (NOT a)) = Some (wrap_type tc (NOT a))"
    using assms(1) const_int_Some by (intro const_int_word_of_int) (metis option.distinct(1))
  moreover have "const_int tc (NOT x) = const_int tc (word_of_int (NOT a))"
    using assms
    by (cases tc) (auto simp only: const_int_def members_of_int members_not word_of_not bf_type_code.case
        option.inject option.distinct)
  ultimately show ?thesis by simp
qed

text \<open>
  C22 (Folding bitwise operations). For two constants of one integer or character type
  \<open>CreateAnd\<close>, \<open>CreateOr\<close>, \<open>CreateXor\<close> and \<open>CreateNot\<close> return the constant of the bitwise result,
  \<open>CreateNeg\<close> that of the negated number. On booleans the binary ones write a command, \<open>CreateNot\<close>
  negates, and \<open>CreateNeg\<close> gives zero.
\<close>

theorem fold_bits:
  assumes ops: "int_operands b tc lhs a rhs c"
  shows "if tc = BfTypeCode_Boolean
         then CreateAnd lhs rhs b = Some (WriteCmd (BfIRCmd_And lhs rhs) b) \<and>
              CreateOr lhs rhs b = Some (WriteCmd (BfIRCmd_Or lhs rhs) b) \<and>
              CreateXor lhs rhs b = Some (WriteCmd (BfIRCmd_Xor lhs rhs) b) \<and>
              folds_to b tc (if a = 0 then 1 else 0) (mOpFailed b) (CreateNot lhs b) \<and>
              folds_to b tc 0 (mOpFailed b) (CreateNeg fpu lhs b)
         else folds_to b tc (a AND c) (mOpFailed b) (CreateAnd lhs rhs b) \<and>
              folds_to b tc (a OR c) (mOpFailed b) (CreateOr lhs rhs b) \<and>
              folds_to b tc (a XOR c) (mOpFailed b) (CreateXor lhs rhs b) \<and>
              folds_to b tc (NOT a) (mOpFailed b) (CreateNot lhs b) \<and>
              folds_to b tc (- a) (mOpFailed b) (CreateNeg fpu lhs b)"
proof -
  obtain x y where cs: "IsConst lhs" "IsConst rhs" "const_of b lhs = Some (BfConstant tc x)"
    "const_of b rhs = Some (BfConstant tc y)" and n: "const_int tc x = Some a" "const_int tc y = Some c"
    and k: "int_kind tc \<noteq> None" using ops by (rule int_operandsE)
  note ap = int_binop_apply_prim [OF cs(3,4)]
  have neg: "folds_to b tc (if tc = BfTypeCode_Boolean then 0 else - a) (mOpFailed b) (CreateNeg fpu lhs b)"
  proof -
    have "const_int tc (neg_switch tc x) = Some (wrap_type tc (if tc = BfTypeCode_Boolean then 0 else - a))"
      using const_int_neg [OF n(1)]
      by (cases "tc = BfTypeCode_Boolean") (simp_all add: neg_switch_def, simp_all add: kind_defs mInt8_def wrap_s_def)
    from folded_u64(2) [OF k this, of b] show ?thesis
      using cs int_kind_not_float [OF k] by (simp add: folds_to_def CreateNeg_def Let_def unaryop_apply_def or_else_def)
  qed
  have nt: "folds_to b tc (if tc = BfTypeCode_Boolean then if a = 0 then 1 else 0 else NOT a) (mOpFailed b) (CreateNot lhs b)"
  proof -
    let ?w = "if tc = BfTypeCode_Boolean then (if mInt8 x \<noteq> 0 then 0 else 1) else NOT x"
    have z: "mInt8 x = 0 \<longleftrightarrow> a = 0" if "tc = BfTypeCode_Boolean"
      using n(1) that by (auto simp: const_int_def sint_0_iff)
    have "const_int tc ?w = Some (wrap_type tc (if tc = BfTypeCode_Boolean then if a = 0 then 1 else 0 else NOT a))"
      using const_int_not [OF n(1)] z
      by (cases "tc = BfTypeCode_Boolean") (simp_all add: kind_defs mInt8_def wrap_s_def)
    from folded_u64(2) [OF k this, of b] show ?thesis using cs by (simp add: folds_to_def CreateNot_def)
  qed
  show ?thesis
  proof (cases "tc = BfTypeCode_Boolean")
    case True
    then have "int_binop_switch op tc x y b = FoldNext" for op by (simp add: int_binop_switch_def Let_def)
    then show ?thesis using True cs neg nt ap
      by (simp add: CreateAnd_def CreateOr_def CreateXor_def Let_def or_else_def)
  next
    case False
    have "folds_to b tc (c_int_op op a c) (mOpFailed b) (or_else (int_binop_switch op tc x y b) e)"
      if "op \<in> {IAnd, IOr, IXor}" for op e
      using int_binop_fold [OF n False, of op b] that by (auto simp: folds_to_def or_else_def int_op_undefined_def)
    from this [of IAnd] this [of IOr] this [of IXor] show ?thesis
      using False cs neg nt ap by (simp add: CreateAnd_def CreateOr_def CreateXor_def Let_def)
  qed
qed

theorem fold_bits_witness:
  "\<forall>fpu. folds_to (demo_builder BfTypeCode_Int8) BfTypeCode_Int8 (100 AND 27) False
     (CreateAnd (const_value 0) (const_value 1) (demo_builder BfTypeCode_Int8)) \<and>
   folds_to (demo_builder BfTypeCode_Int8) BfTypeCode_Int8 (- 100) False
     (CreateNeg fpu (const_value 0) (demo_builder BfTypeCode_Int8))"
proof -
  have "\<not> mOpFailed (demo_builder BfTypeCode_Int8)" by (simp add: demo_builder_def)
  then show ?thesis using fold_bits [OF demo_operands(1) [OF demo_numbers(1,2)]] by simp
qed

section \<open>Comparisons and conversions\<close>

lemma cmp_apply_prim:
  assumes "const_of b lhs = Some (BfConstant tc x)" "const_of b rhs = Some (BfConstant tc y)"
    "const_int tc x = Some a" "const_int tc y = Some c"
  shows "cmp_apply fpu op lhs rhs b = FoldReturn (new_bool (\<not> IsChar tc \<and> cmp_int op a c) b)"
proof -
  have "type_code_nat tc \<noteq> type_code_nat BfTypeCode_NullPtr"
    using assms(3) by (cases tc) (simp_all add: const_int_def)
  moreover have "cmp_switch fpu op tc x y = (\<not> IsChar tc \<and> cmp_int op a c)"
    using assms(3,4) by (cases tc) (auto simp: const_int_def cmp_switch_def IsChar_nat)
  ultimately show ?thesis using assms(1,2) by (simp add: cmp_apply_def)
qed

text \<open>
  C23 (Folding comparisons). Comparing two constants of one integer or boolean type never writes a
  command: the new boolean constant is the comparison of the two numbers. For the character types,
  which \<open>CMP_APPLY\<close> has no case for, every comparison folds to false, equality of equal characters
  included.
\<close>

theorem fold_cmp:
  assumes "int_operands b tc lhs a rhs c"
  shows "CreateCmpEQ fpu lhs rhs b = Some (new_bool (\<not> IsChar tc \<and> a = c) b) \<and>
         CreateCmpNE fpu lhs rhs b = Some (new_bool (\<not> IsChar tc \<and> a \<noteq> c) b) \<and>
         CreateCmpLT fpu lhs rhs sg b = Some (new_bool (\<not> IsChar tc \<and> a < c) b) \<and>
         CreateCmpLTE fpu lhs rhs sg b = Some (new_bool (\<not> IsChar tc \<and> a \<le> c) b) \<and>
         CreateCmpGT fpu lhs rhs sg b = Some (new_bool (\<not> IsChar tc \<and> a > c) b) \<and>
         CreateCmpGTE fpu lhs rhs sg b = Some (new_bool (\<not> IsChar tc \<and> a \<ge> c) b) \<and>
         folded b BfTypeCode_Boolean (if p then 1 else 0) (new_bool p b)"
proof -
  have "const_int BfTypeCode_Boolean 1 = Some 1" "const_int BfTypeCode_Boolean 0 = Some 0" by code_simp+
  then have "const_int BfTypeCode_Boolean (if p then 1 else 0) = Some (if p then 1 else 0)" by simp
  from folded_u64(2) [OF _ this, of b]
  have "folded b BfTypeCode_Boolean (if p then 1 else 0) (new_bool p b)"
    by (simp add: int_kind_def new_bool_def)
  with assms show ?thesis
    by (elim int_operandsE) (simp add: CreateCmpEQ_def CreateCmpNE_def CreateCmpLT_def CreateCmpLTE_def
        CreateCmpGT_def CreateCmpGTE_def Let_def cmp_apply_prim or_else_def)
qed

theorem fold_cmp_witness:
  "\<forall>fpu. CreateCmpEQ fpu (const_value 0) (const_value 0) (demo_builder BfTypeCode_Char8) =
      Some (new_bool False (demo_builder BfTypeCode_Char8)) \<and>
    CreateCmpGT fpu (const_value 0) (const_value 1) True (demo_builder BfTypeCode_Int8) =
      Some (new_bool True (demo_builder BfTypeCode_Int8))"
proof -
  have "const_int BfTypeCode_Char8 100 = Some 100" "const_int BfTypeCode_Char8 27 = Some 27"
    "IsChar BfTypeCode_Char8" "\<not> IsChar BfTypeCode_Int8" by code_simp+
  then show ?thesis
    using fold_cmp [OF demo_operands(2), of BfTypeCode_Char8] fold_cmp [OF demo_operands(1) [OF demo_numbers(1,2)]]
    by simp
qed

lemma cast_int_word: "int_kind tc \<noteq> None \<Longrightarrow> tc \<noteq> BfTypeCode_Boolean \<Longrightarrow>
    const_int tc (cast_int tc x) = const_int tc x"
  by (cases tc) (simp_all add: int_kind_def const_int_def cast_int_def, simp_all add: mInt8_def mInt16_def mInt32_def)

lemma cast_canonical: "int_kind tc \<noteq> None \<Longrightarrow> tc \<noteq> BfTypeCode_Boolean \<Longrightarrow>
    canonical tc (const_payload_u64 tc (cast_int tc x))"
  by (cases tc) (simp_all add: canonical_def int_kind_def const_int_def cast_int_def const_payload_u64_def)

lemma int_kind_IsInt: "int_kind tc \<noteq> None \<Longrightarrow> IsInt tc \<longleftrightarrow> tc \<noteq> BfTypeCode_Boolean"
  by (cases tc) (simp_all add: int_kind_def IsInt_nat)

text \<open>
  C24 (Folding integer conversions). Converting a canonical integer or character constant to an
  integer or character type gives the number wrapped to the target type, again as a canonical
  constant.
\<close>

theorem fold_int_cast:
  assumes v: "IsConst v" "const_of b v = Some (BfConstant src x)" "canonical src x" "const_int src x = Some a"
    and src: "src \<noteq> BfTypeCode_Boolean" and tc: "int_kind tc \<noteq> None" "tc \<noteq> BfTypeCode_Boolean"
  shows "folds_to b tc a (mOpFailed b) (CreateNumericCast fpu v sg tc b) \<and>
         (\<exists>p y. CreateNumericCast fpu v sg tc b = Some p \<and> const_of (snd p) (fst p) = Some (BfConstant tc y) \<and> canonical tc y)"
proof -
  have k: "int_kind src \<noteq> None" using v(4) const_int_Some by (metis option.distinct(1))
  have c: "CreateNumericCast fpu v sg tc b = Some (new_u64 tc (cast_int tc x) b)"
    using v(1,2) int_kind_IsInt [OF k] int_kind_IsInt [OF tc(1)] src tc FixTypeCode_int [OF tc(1)]
    by (simp add: CreateNumericCast_def Let_def)
  have "const_int tc (cast_int tc x) = Some (wrap_type tc a)"
    using cast_int_word [OF tc, of x] const_int_word_of_int [OF tc(1), of a] canonical_word [OF v(3,4)] by simp
  from folded_u64(2) [OF tc(1) this, of b] have "folds_to b tc a (mOpFailed b) (CreateNumericCast fpu v sg tc b)"
    by (simp add: folds_to_def c)
  moreover have "const_of (snd (new_u64 tc (cast_int tc x) b)) (fst (new_u64 tc (cast_int tc x) b)) =
      Some (BfConstant tc (const_payload_u64 tc (cast_int tc x)))"
    using FixTypeCode_int [OF tc(1), of "b_ptr_size b"] by (simp add: new_u64_def CreateConst_u64_def Let_def const_of_new)
  ultimately show ?thesis using c cast_canonical [OF tc, of x] by blast
qed

theorem fold_int_cast_witness:
  "\<forall>fpu. folds_to (demo_builder BfTypeCode_Int32) BfTypeCode_Int8 100 False
     (CreateNumericCast fpu (const_value 0) True BfTypeCode_Int8 (demo_builder BfTypeCode_Int32))"
proof -
  have c: "canonical BfTypeCode_Int32 100" "int_kind BfTypeCode_Int8 \<noteq> None" by code_simp+
  have "const_of (demo_builder BfTypeCode_Int32) (const_value 0) = Some (BfConstant BfTypeCode_Int32 100)"
    "\<not> mOpFailed (demo_builder BfTypeCode_Int32)"
    by (simp_all add: demo_builder_def const_of_def GetConstantById_def)
  then show ?thesis
    using fold_int_cast [OF _ _ c(1) demo_numbers(3) _ c(2), of "const_value 0" "demo_builder BfTypeCode_Int32"] by simp
qed

text \<open>
  A boolean constant is not \<open>IsInt\<close>, so \<open>CreateNumericCast\<close> reads its
  payload as a double: converting \<open>true\<close> to \<open>Int32\<close> gives 0 on every host whose conversion truncates
  the least positive double to 0.
\<close>

theorem fold_bool_cast_zero:
  assumes "IsConst v" "const_of b v = Some (BfConstant BfTypeCode_Boolean 1)" "fp_to_int fpu F64 1 = Some 0"
  shows "folds_to b BfTypeCode_Int32 0 (mOpFailed b) (CreateNumericCast fpu v sg BfTypeCode_Int32 b)"
proof -
  have "CreateNumericCast fpu v sg BfTypeCode_Int32 b = Some (new_u64 BfTypeCode_Int32 0 b)"
    using assms by (simp add: CreateNumericCast_def Let_def FixTypeCode_def IsInt_nat cast_double_def double_to_def in_s_def)
  moreover have "int_kind BfTypeCode_Int32 \<noteq> None" "const_int BfTypeCode_Int32 0 = Some (wrap_type BfTypeCode_Int32 0)"
    by code_simp+
  ultimately show ?thesis using folded_u64(2) [of BfTypeCode_Int32 0 _ b] by (simp add: folds_to_def)
qed

definition zero_fpu :: ce_fpu where
  "zero_fpu = \<lparr>fp_bin = (\<lambda>_ _ _ _. 0), fp_fun = (\<lambda>_ _ _. 0), fp_abs = (\<lambda>_ _. 0), fp_neg = (\<lambda>_ _. 0),
     fp_fma = (\<lambda>_ _ _ _. 0), fp_lt = (\<lambda>_ _ _. False), fp_le = (\<lambda>_ _ _. True), fp_eq = (\<lambda>_ _ _. True),
     fp_of_int = (\<lambda>_ _. 0), fp_to_int = (\<lambda>_ x. if x < 0x3FF0000000000000 then Some 0 else None), fp_cvt = (\<lambda>_ _ _. 0)\<rparr>"

theorem fold_bool_cast_zero_witness:
  "folds_to ((demo_builder BfTypeCode_Boolean)\<lparr>b_pool := [BfConstant BfTypeCode_Boolean 1]\<rparr>) BfTypeCode_Int32 0 False
     (CreateNumericCast zero_fpu (const_value 0) False BfTypeCode_Int32
       ((demo_builder BfTypeCode_Boolean)\<lparr>b_pool := [BfConstant BfTypeCode_Boolean 1]\<rparr>))"
proof -
  let ?b = "(demo_builder BfTypeCode_Boolean)\<lparr>b_pool := [BfConstant BfTypeCode_Boolean 1]\<rparr>"
  have "const_of ?b (const_value 0) = Some (BfConstant BfTypeCode_Boolean 1)" "mOpFailed ?b = False"
    by (simp_all add: demo_builder_def const_of_def GetConstantById_def)
  then show ?thesis using fold_bool_cast_zero [of "const_value 0" ?b zero_fpu False] by (simp add: zero_fpu_def)
qed

section \<open>Sequences of operations\<close>

text \<open>
  What an operation does to a builder: it appends constants that refer to nothing and commands,
  counts the commands, writes none while writes are ignored, and returns a value that is valid
  afterwards.  \<open>vs\<close> are the operands, which may be returned as they are.
\<close>

definition extends :: "bf_builder \<Rightarrow> bf_value list \<Rightarrow> bf_value \<times> bf_builder \<Rightarrow> bool" where
  "extends b vs p \<longleftrightarrow>
     (\<exists>cs ks. b_pool (snd p) = b_pool b @ cs \<and> (\<forall>c \<in> set cs. const_refs c = []) \<and>
        b_stream (snd p) = b_stream b @ ks \<and> mCmdCount (snd p) = mCmdCount b + int (length ks) \<and>
        mIgnoreWrites (snd p) = mIgnoreWrites b \<and> (mIgnoreWrites b \<longrightarrow> ks = []) \<and>
        (fst p \<in> set vs \<or> value_ok (length (b_pool b @ cs)) (fst p)))"

named_theorems builder_intros \<open>operations of the builder extend it\<close>

lemma extends_new_const [builder_intros]:
  assumes "const_refs c = []"
  shows "extends b vs (in_pool b (add_const c (b_pool b)))"
  using assms by (auto simp: extends_def in_pool_def add_const_def value_ok_def intro!: exI [of _ "[c]"])

lemma extends_new [builder_intros]:
  "extends b vs (new_u64 tc w b)" "extends b vs (new_int tc i b)" "extends b vs (new_double tc w b)"
  "extends b vs (new_undef t b)" "extends b vs (new_bool q b)"
  by (simp_all add: new_u64_def new_int_def new_double_def new_undef_def new_bool_def CreateConst_u64_def
      CreateConst_int_def CreateConst_double_def GetUndefConstValue_def Let_def extends_new_const)

lemma extends_failed: "extends (b\<lparr>mOpFailed := q\<rparr>) vs p = extends b vs p"
  by (simp add: extends_def)

lemma extends_operand [builder_intros]: "v \<in> set vs \<Longrightarrow> extends b vs (v, b)"
  by (auto simp: extends_def)

lemma value_ok_value [simp]: "value_ok n (BfIRValue BfIRValueFlags_Value i)"
  by (simp add: value_ok_def IsConst_def BfIRValueFlags_Value_def BfIRValueFlags_Const_def)

lemma extends_WriteCmd [builder_intros]: "extends b vs (WriteCmd cmd b)"
  by (auto simp: extends_def WriteCmd_def GetFakeVal_def GetFakeId_def Let_def)

lemma WriteCmd_ignore: "mIgnoreWrites (snd (WriteCmd cmd b)) = mIgnoreWrites b"
  by (simp add: WriteCmd_def GetFakeVal_def GetFakeId_def Let_def)

lemma extends_write_checked [builder_intros]: "extends b vs (write_checked k cmd b)"
proof (cases "k \<noteq> 0 \<and> \<not> mIgnoreWrites b")
  case True
  then show ?thesis
    by (auto simp: extends_def write_checked_def WriteCmd_def Let_def)
next
  case False
  then have "write_checked k cmd b = WriteCmd cmd b"
    using WriteCmd_ignore [of cmd b] by (auto simp: write_checked_def Let_def split: prod.splits)
  then show ?thesis by (simp add: extends_WriteCmd)
qed

definition fold_extends :: "bf_builder \<Rightarrow> bf_value list \<Rightarrow> bf_fold \<Rightarrow> bool" where
  "fold_extends b vs f \<longleftrightarrow> (\<forall>p. f = FoldReturn p \<longrightarrow> extends b vs p)"

definition result_extends :: "bf_builder \<Rightarrow> bf_value list \<Rightarrow> bf_result \<Rightarrow> bool" where
  "result_extends b vs r \<longleftrightarrow> (\<forall>p. r = Some p \<longrightarrow> extends b vs p)"

lemma result_extends_simps [simp]:
  "result_extends b vs None" "result_extends b vs (Some p) = extends b vs p"
  by (simp_all add: result_extends_def)

lemma or_else_extends [builder_intros]:
  "fold_extends b vs f \<Longrightarrow> result_extends b vs r \<Longrightarrow> result_extends b vs (or_else f r)"
  by (auto simp: or_else_def fold_extends_def result_extends_def split: bf_fold.splits)

lemma bind_extends [builder_intros]:
  "(\<And>y. result_extends b vs (k y)) \<Longrightarrow> result_extends b vs (Option.bind x k)"
  by (cases x) simp_all

lemma fold_extends_simps [simp]:
  "fold_extends b vs FoldNext" "fold_extends b vs FoldUndefined"
  "fold_extends b vs (FoldReturn p) = extends b vs p"
  by (auto simp: fold_extends_def)

lemma checked_new_extends: "fold_extends b vs (checked_new tc r b)"
  using extends_new(1) [of "b\<lparr>mOpFailed := q\<rparr>" vs for q]
  by (auto simp: checked_new_def extends_failed split: option.splits)

lemma int_op_new_extends:
  "(\<And>v. extends b vs (mk v b)) \<Longrightarrow> fold_extends b vs (int_op_new mk op n x y b)"
  by (simp add: int_op_new_def)

lemma int_binop_switch_extends: "fold_extends b vs (int_binop_switch op tc x y b)"
  by (cases tc) (simp_all add: int_binop_switch_def Let_def int_op_new_extends extends_new)

lemma apply_extends:
  "fold_extends b [lhs, rhs] (binopfunc_apply fpu ops f lhs rhs b)"
  "fold_extends b [lhs, rhs] (int_binopfunc_apply ops lhs rhs b)"
  "fold_extends b [lhs, rhs] (int_binop_apply op lhs rhs b)"
  "fold_extends b [lhs] (unaryop_apply fpu lhs b)"
  "fold_extends b [lhs, rhs] (cmp_apply fpu c lhs rhs b)"
  "fold_extends b [lhs, rhs] (div_apply fpu f op lhs rhs b)"
  by (auto simp: binopfunc_apply_def int_binopfunc_apply_def int_binop_apply_def unaryop_apply_def cmp_apply_def
      div_apply_def checked_new_extends int_binop_switch_extends extends_new extends_operand
      split: option.splits bf_const.splits)

text \<open>One operation on given operands.\<close>

inductive builder_step :: "ce_fpu \<Rightarrow> bf_builder \<Rightarrow> bf_value list \<Rightarrow> bf_value \<times> bf_builder \<Rightarrow> bool"
  for fpu :: ce_fpu and b :: bf_builder where
  st_cast: "CreateNumericCast fpu v sg tc b = Some p \<Longrightarrow> builder_step fpu b [v] p"
| st_eq: "CreateCmpEQ fpu l r b = Some p \<Longrightarrow> builder_step fpu b [l, r] p"
| st_ne: "CreateCmpNE fpu l r b = Some p \<Longrightarrow> builder_step fpu b [l, r] p"
| st_lt: "CreateCmpLT fpu l r sg b = Some p \<Longrightarrow> builder_step fpu b [l, r] p"
| st_le: "CreateCmpLTE fpu l r sg b = Some p \<Longrightarrow> builder_step fpu b [l, r] p"
| st_gt: "CreateCmpGT fpu l r sg b = Some p \<Longrightarrow> builder_step fpu b [l, r] p"
| st_ge: "CreateCmpGTE fpu l r sg b = Some p \<Longrightarrow> builder_step fpu b [l, r] p"
| st_add: "CreateAdd fpu l r k b = Some p \<Longrightarrow> builder_step fpu b [l, r] p"
| st_sub: "CreateSub fpu l r k b = Some p \<Longrightarrow> builder_step fpu b [l, r] p"
| st_mul: "CreateMul fpu l r k b = Some p \<Longrightarrow> builder_step fpu b [l, r] p"
| st_div: "CreateDiv fpu l r sg b = Some p \<Longrightarrow> builder_step fpu b [l, r] p"
| st_rem: "CreateRem fpu l r sg b = Some p \<Longrightarrow> builder_step fpu b [l, r] p"
| st_and: "CreateAnd l r b = Some p \<Longrightarrow> builder_step fpu b [l, r] p"
| st_or: "CreateOr l r b = Some p \<Longrightarrow> builder_step fpu b [l, r] p"
| st_xor: "CreateXor l r b = Some p \<Longrightarrow> builder_step fpu b [l, r] p"
| st_shl: "CreateShl l r b = Some p \<Longrightarrow> builder_step fpu b [l, r] p"
| st_shr: "CreateShr l r sg b = Some p \<Longrightarrow> builder_step fpu b [l, r] p"
| st_neg: "CreateNeg fpu v b = Some p \<Longrightarrow> builder_step fpu b [v] p"
| st_not: "CreateNot v b = Some p \<Longrightarrow> builder_step fpu b [v] p"

lemma fold_extends_failed: "fold_extends (b\<lparr>mOpFailed := q\<rparr>) vs f = fold_extends b vs f"
  by (simp add: fold_extends_def extends_failed)

lemma extends_emit [builder_intros]:
  "extends b vs (WriteCmd cmd (b\<lparr>mOpFailed := q\<rparr>))" "extends b vs (write_checked k cmd (b\<lparr>mOpFailed := q\<rparr>))"
  using extends_WriteCmd [of "b\<lparr>mOpFailed := q\<rparr>"] extends_write_checked [of "b\<lparr>mOpFailed := q\<rparr>"]
  by (simp_all add: extends_failed)

lemmas apply_extends_failed [builder_intros] =
  apply_extends(1,2) [of "b\<lparr>mOpFailed := False\<rparr>" for b, unfolded fold_extends_failed]

declare apply_extends [builder_intros]

lemma create_extends:
  "result_extends b [l, r] (CreateAdd fpu l r k b)" "result_extends b [l, r] (CreateSub fpu l r k b)"
  "result_extends b [l, r] (CreateMul fpu l r k b)" "result_extends b [l, r] (CreateDiv fpu l r sg b)"
  "result_extends b [l, r] (CreateRem fpu l r sg b)" "result_extends b [l, r] (CreateAnd l r b)"
  "result_extends b [l, r] (CreateOr l r b)" "result_extends b [l, r] (CreateXor l r b)"
  "result_extends b [l, r] (CreateShl l r b)" "result_extends b [l] (CreateNeg fpu l b)"
  unfolding CreateAdd_def CreateSub_def CreateMul_def CreateDiv_def CreateRem_def CreateAnd_def CreateOr_def
    CreateXor_def CreateShl_def CreateNeg_def Let_def
  by (auto intro!: builder_intros split: option.split)

lemma compare_extends:
  "result_extends b [l, r] (CreateCmpEQ fpu l r b)" "result_extends b [l, r] (CreateCmpNE fpu l r b)"
  "result_extends b [l, r] (CreateCmpLT fpu l r sg b)" "result_extends b [l, r] (CreateCmpLTE fpu l r sg b)"
  "result_extends b [l, r] (CreateCmpGT fpu l r sg b)" "result_extends b [l, r] (CreateCmpGTE fpu l r sg b)"
  unfolding CreateCmpEQ_def CreateCmpNE_def CreateCmpLT_def CreateCmpLTE_def CreateCmpGT_def CreateCmpGTE_def Let_def
  by (auto intro!: builder_intros split: option.split)

lemma convert_extends:
  "result_extends b [v] (CreateNumericCast fpu v sg tc b)" "result_extends b [v] (CreateNot v b)"
  "result_extends b [l, r] (CreateShr l r sg b)"
  unfolding CreateNumericCast_def CreateNot_def CreateShr_def Let_def
  by (auto intro!: builder_intros split: option.split bf_const.split)

lemma builder_step_extends: "builder_step fpu b vs p \<Longrightarrow> extends b vs p"
  by (induction rule: builder_step.induct)
    (metis create_extends compare_extends convert_extends result_extends_simps(2))+

text \<open>Builders reached by any sequence of operations whose operands are valid values.\<close>

inductive builder_reach :: "ce_fpu \<Rightarrow> bf_builder \<Rightarrow> bf_builder \<Rightarrow> bool" for fpu :: ce_fpu and b0 :: bf_builder where
  br_start: "builder_reach fpu b0 b0"
| br_step: "builder_reach fpu b0 b \<Longrightarrow> \<forall>v \<in> set vs. value_ok (length (b_pool b)) v \<Longrightarrow>
    builder_step fpu b vs (v, b') \<Longrightarrow> builder_reach fpu b0 b'"

text \<open>
  C25 (Builders only grow). From a builder with a well-formed pool every sequence of operations on
  valid operands reaches only builders with well-formed pools, in which all earlier constants and
  commands are unchanged, the number of commands counted is the number written, nothing is written
  while writes are ignored, and every operation possible there returns a valid value.
\<close>

theorem builder_reach_inv:
  assumes "builder_reach fpu b0 b" "pool_wf (b_pool b0)" "mCmdCount b0 = int (length (b_stream b0))"
  shows "pool_wf (b_pool b) \<and> take (length (b_pool b0)) (b_pool b) = b_pool b0 \<and>
         take (length (b_stream b0)) (b_stream b) = b_stream b0 \<and> mCmdCount b = int (length (b_stream b)) \<and>
         mIgnoreWrites b = mIgnoreWrites b0 \<and> (mIgnoreWrites b0 \<longrightarrow> b_stream b = b_stream b0) \<and>
         (\<forall>vs v b'. builder_step fpu b vs (v, b') \<and> (\<forall>u \<in> set vs. value_ok (length (b_pool b)) u) \<longrightarrow>
            value_ok (length (b_pool b')) v)"
proof -
  have valid: "value_ok (length (b_pool c')) v"
    if "builder_step fpu c vs (v, c')" "\<forall>u \<in> set vs. value_ok (length (b_pool c)) u" for c vs v c'
    using builder_step_extends [OF that(1)] that(2) value_ok_mono unfolding extends_def by fastforce
  have "pool_wf (b_pool b) \<and> take (length (b_pool b0)) (b_pool b) = b_pool b0 \<and>
         take (length (b_stream b0)) (b_stream b) = b_stream b0 \<and> mCmdCount b = int (length (b_stream b)) \<and>
         mIgnoreWrites b = mIgnoreWrites b0 \<and> (mIgnoreWrites b0 \<longrightarrow> b_stream b = b_stream b0)"
    using assms
  proof (induction rule: builder_reach.induct)
    case (br_step b vs v b')
    then have "extends b vs (v, b')" by (blast intro: builder_step_extends)
    then obtain cs ks where e: "b_pool b' = b_pool b @ cs" "\<forall>c \<in> set cs. const_refs c = []" "b_stream b' = b_stream b @ ks"
      "mCmdCount b' = mCmdCount b + int (length ks)" "mIgnoreWrites b' = mIgnoreWrites b" "mIgnoreWrites b \<longrightarrow> ks = []"
      by (auto simp: extends_def)
    have ih: "pool_wf (b_pool b)" "take (length (b_pool b0)) (b_pool b) = b_pool b0"
      "take (length (b_stream b0)) (b_stream b) = b_stream b0" "mCmdCount b = int (length (b_stream b))"
      "mIgnoreWrites b = mIgnoreWrites b0" "mIgnoreWrites b0 \<longrightarrow> b_stream b = b_stream b0"
      using br_step by auto
    have "pool_wf (b_pool b @ cs)"
      using ih(1) e(2) by (auto simp: pool_wf_def nth_append dest: nth_mem)
    moreover have "length (b_pool b0) \<le> length (b_pool b)" "length (b_stream b0) \<le> length (b_stream b)"
      using arg_cong [OF ih(2), of length] arg_cong [OF ih(3), of length] by simp_all
    ultimately show ?case using e ih by simp
  qed simp
  with valid show ?thesis by blast
qed

theorem builder_reach_inv_witness:
  "\<forall>fpu. let b = demo_builder BfTypeCode_Int8; b' = b\<lparr>b_pool := b_pool b @ [BfConstant BfTypeCode_Int8 (- 101)]\<rparr>
     in builder_reach fpu b b' \<and> pool_wf (b_pool b') \<and> take 3 (b_pool b') = b_pool b"
proof -
  let ?b = "demo_builder BfTypeCode_Int8"
  let ?b' = "?b\<lparr>b_pool := b_pool ?b @ [BfConstant BfTypeCode_Int8 (- 101)]\<rparr>"
  have "CreateNot (const_value 0) ?b = Some (const_value 3, ?b')" by code_simp
  moreover have "\<forall>v \<in> set [const_value 0]. value_ok (length (b_pool ?b)) v"
    by (simp add: value_ok_def demo_builder_def)
  ultimately have r: "builder_reach fpu ?b ?b'" for fpu
    by (blast intro: builder_reach.intros st_not)
  have w: "pool_wf (b_pool ?b)" "mCmdCount ?b = int (length (b_stream ?b))" and n: "length (b_pool ?b) = 3"
    by (auto simp: demo_builder_def pool_wf_def less_Suc_eq nth_Cons')
  have "pool_wf (b_pool ?b') \<and> take 3 (b_pool ?b') = b_pool ?b"
    using builder_reach_inv [OF r [of zero_fpu] w] unfolding n by blast
  then show ?thesis using r unfolding Let_def by blast
qed

end
