(* ===== verification/Beef_Stream.thy ===== *)
theory Beef_Stream
  imports Beef_Prelude
begin

text \<open>
  The byte stream between the front end and the code generators: the chunked buffer
  (\<^verbatim>\<open>BeefySysLib/util/ChunkedDataBuffer.cpp\<close>), the variable-length integers
  \<open>BfIRBuilder\<close> writes into it and \<open>BeIRCodeGen\<close> reads back, and strings.

  A pointer into a chunk is the chunk it points into and an offset.  An operation yields
  \<open>None\<close> where the code accesses memory outside the chunk, indexes \<open>mPools\<close> out of range,
  shifts by 64 or more, or reads into a string of negative length.  \<open>mSize\<close> is the mathematical size, which the code's
  \<open>int\<close> holds below 2 GB.
\<close>

unbundle bit_operations_syntax

section \<open>The buffer\<close>

text \<open>The memory a pointer of the buffer points into.\<close>

datatype cd_alloc = CdNull | CdPool nat | CdFlat "u8 list"

record cd_buffer =
  mPools :: "u8 list list"
  mWriteCurAlloc :: cd_alloc
  mWriteCurPtr :: nat
  mReadCurAlloc :: cd_alloc
  mReadCurPtr :: int
  mReadNextAlloc :: int
  mReadPoolIdx :: int
  mSize :: int

definition ALLOC_SIZE :: nat where "ALLOC_SIZE = 0x1000"

definition cd_init :: cd_buffer where
  "cd_init = \<lparr>mPools = [], mWriteCurAlloc = CdNull, mWriteCurPtr = ALLOC_SIZE, mReadCurAlloc = CdNull,
              mReadCurPtr = int ALLOC_SIZE, mReadNextAlloc = int ALLOC_SIZE, mReadPoolIdx = -1, mSize = 0\<rparr>"

definition cd_init_flat_ref :: "u8 list \<Rightarrow> cd_buffer \<Rightarrow> cd_buffer" where
  "cd_init_flat_ref bs b =
     b\<lparr>mReadPoolIdx := 0, mReadCurPtr := 0, mReadCurAlloc := CdFlat bs, mReadNextAlloc := int (length bs)\<rparr>"

definition cd_clear :: "cd_buffer \<Rightarrow> cd_buffer" where
  "cd_clear b =
     b\<lparr>mWriteCurAlloc := CdNull, mWriteCurPtr := ALLOC_SIZE, mReadCurAlloc := CdNull,
       mReadCurPtr := int ALLOC_SIZE, mReadNextAlloc := int ALLOC_SIZE, mReadPoolIdx := -1, mSize := 0,
       mPools := []\<rparr>"

text \<open>The bytes of a chunk; there are none behind the null pointer.\<close>

definition cd_chunk :: "cd_buffer \<Rightarrow> cd_alloc \<Rightarrow> u8 list option" where
  "cd_chunk b a =
     (case a of CdNull \<Rightarrow> Some []
              | CdPool i \<Rightarrow> if i < length (mPools b) then Some (mPools b ! i) else None
              | CdFlat bs \<Rightarrow> Some bs)"

subsection \<open>Writing\<close>

definition cd_grow_pool :: "cd_buffer \<Rightarrow> cd_buffer" where
  "cd_grow_pool b =
     b\<lparr>mWriteCurAlloc := CdPool (length (mPools b)), mPools := mPools b @ [replicate ALLOC_SIZE 0],
       mWriteCurPtr := 0\<rparr>"

text \<open>\<open>memcpy(mWriteCurPtr, data, size)\<close>, which does nothing for the size 0.\<close>

definition cd_poke :: "u8 list \<Rightarrow> cd_buffer \<Rightarrow> cd_buffer option" where
  "cd_poke bs b =
     (if bs = [] then Some b
      else case mWriteCurAlloc b of
        CdPool i \<Rightarrow>
          (if i < length (mPools b) \<and> mWriteCurPtr b + length bs \<le> length (mPools b ! i)
           then Some (b\<lparr>mPools := (mPools b)[i := take (mWriteCurPtr b) (mPools b ! i) @ bs @
                                              drop (mWriteCurPtr b + length bs) (mPools b ! i)]\<rparr>)
           else None)
      | _ \<Rightarrow> None)"

text \<open>
  \<open>Write(data, size)\<close>: the loop fills a chunk whenever the data reach its end, and leaves at
  once when nothing is left.  \<open>cd_put\<close> is the copy that follows it.
\<close>

definition cd_put :: "u8 list \<Rightarrow> cd_buffer \<Rightarrow> cd_buffer option" where
  "cd_put bs b = do {
     b1 \<leftarrow> cd_poke bs b;
     Some (b1\<lparr>mWriteCurPtr := mWriteCurPtr b1 + length bs, mSize := mSize b1 + int (length bs)\<rparr>) }"

function cd_write_fill :: "u8 list \<Rightarrow> cd_buffer \<Rightarrow> (u8 list \<times> cd_buffer) option" where
  "cd_write_fill bs b =
     (if ALLOC_SIZE \<le> mWriteCurPtr b + length bs
      then (let cur = ALLOC_SIZE - mWriteCurPtr b
            in case cd_poke (take cur bs) b of
                 None \<Rightarrow> None
               | Some b1 \<Rightarrow>
                   (let b2 = (cd_grow_pool b1)\<lparr>mSize := mSize b1 + int cur\<rparr>
                    in if drop cur bs = [] then Some ([], b2) else cd_write_fill (drop cur bs) b2))
      else Some (bs, b))"
  by pat_completeness auto
termination
  by (relation "measure (\<lambda>(bs, b). 2 * length bs + (if ALLOC_SIZE \<le> mWriteCurPtr b then 1 else 0))")
     (auto simp: cd_grow_pool_def ALLOC_SIZE_def)

declare cd_write_fill.simps [simp del]

definition cd_write :: "u8 list \<Rightarrow> cd_buffer \<Rightarrow> cd_buffer option" where
  "cd_write bs b = do { (rest, b1) \<leftarrow> cd_write_fill bs b; cd_put rest b1 }"

definition cd_write_byte :: "u8 \<Rightarrow> cd_buffer \<Rightarrow> cd_buffer option" where
  "cd_write_byte v b = cd_put [v] (if mWriteCurPtr b = ALLOC_SIZE then cd_grow_pool b else b)"

text \<open>\<open>Write_2\<close> and \<open>Write_4\<close>: the bytes of the value.\<close>

definition cd_write_n :: "nat \<Rightarrow> int \<Rightarrow> cd_buffer \<Rightarrow> cd_buffer option" where
  "cd_write_n n v b =
     (if ALLOC_SIZE < mWriteCurPtr b + n then cd_write (le_bytes n v) b else cd_put (le_bytes n v) b)"

definition cd_write_2 :: "u16 \<Rightarrow> cd_buffer \<Rightarrow> cd_buffer option" where
  "cd_write_2 v = cd_write_n 2 (uint v)"

definition cd_write_4 :: "u32 \<Rightarrow> cd_buffer \<Rightarrow> cd_buffer option" where
  "cd_write_4 v = cd_write_n 4 (uint v)"

text \<open>
  \<open>Write_3\<close> stores all four bytes of the value and keeps three of them: the fourth is overwritten by the next
  write. With exactly three bytes left the store reaches past the end of the chunk, and the result is \<open>None\<close>.
\<close>

definition cd_write_3 :: "u32 \<Rightarrow> cd_buffer \<Rightarrow> cd_buffer option" where
  "cd_write_3 v b =
     (if ALLOC_SIZE < mWriteCurPtr b + 3 then cd_write (le_bytes 3 (uint v)) b
      else do {
        b1 \<leftarrow> cd_poke (le_bytes 4 (uint v)) b;
        Some (b1\<lparr>mWriteCurPtr := mWriteCurPtr b1 + 3, mSize := mSize b1 + 3\<rparr>) })"

subsection \<open>Reading\<close>

definition cd_get_read_pos :: "cd_buffer \<Rightarrow> int" where
  "cd_get_read_pos b = mReadPoolIdx b * int ALLOC_SIZE + mReadCurPtr b"

definition cd_at_pool :: "cd_buffer \<Rightarrow> int \<Rightarrow> (cd_alloc \<times> int) option" where
  "cd_at_pool b i = (if 0 \<le> i \<and> i < int (length (mPools b)) then Some (CdPool (nat i), i) else None)"

text \<open>The end of the chunk that \<open>SetReadPos\<close> sets is an offset from the new position.\<close>

definition cd_set_read_pos :: "int \<Rightarrow> cd_buffer \<Rightarrow> cd_buffer option" where
  "cd_set_read_pos pos b =
     (let idx = c_div pos (int ALLOC_SIZE)
      in if idx < int (length (mPools b))
         then do { (a, i) \<leftarrow> cd_at_pool b idx;
                   let p = c_mod pos (int ALLOC_SIZE);
                   Some (b\<lparr>mReadPoolIdx := idx, mReadCurAlloc := a, mReadCurPtr := p,
                           mReadNextAlloc := p + int ALLOC_SIZE\<rparr>) }
         else do { (a, i) \<leftarrow> cd_at_pool b (int (length (mPools b)) - 1);
                   Some (b\<lparr>mReadPoolIdx := i, mReadCurAlloc := a, mReadCurPtr := int ALLOC_SIZE,
                           mReadNextAlloc := int ALLOC_SIZE\<rparr>) })"

definition cd_next_read_pool :: "cd_buffer \<Rightarrow> cd_buffer option" where
  "cd_next_read_pool b = do {
     (a, i) \<leftarrow> cd_at_pool b (mReadPoolIdx b + 1);
     Some (b\<lparr>mReadPoolIdx := i, mReadCurAlloc := a, mReadCurPtr := 0, mReadNextAlloc := int ALLOC_SIZE\<rparr>) }"

text \<open>\<open>memcpy(data, mReadCurPtr, n)\<close>\<close>

definition cd_peek :: "nat \<Rightarrow> cd_buffer \<Rightarrow> u8 list option" where
  "cd_peek n b = (if n = 0 then Some [] else do { xs \<leftarrow> cd_chunk b (mReadCurAlloc b); slice xs (mReadCurPtr b) n })"

definition cd_take :: "nat \<Rightarrow> cd_buffer \<Rightarrow> (u8 list \<times> cd_buffer) option" where
  "cd_take n b = do { bs \<leftarrow> cd_peek n b; Some (bs, b\<lparr>mReadCurPtr := mReadCurPtr b + int n\<rparr>) }"

lemma cd_next_read_pool_progress:
  "cd_next_read_pool b = Some b1 \<Longrightarrow>
     mPools b1 = mPools b \<and> mReadPoolIdx b1 = mReadPoolIdx b + 1 \<and> mReadPoolIdx b1 < int (length (mPools b))"
  by (auto simp: cd_next_read_pool_def cd_at_pool_def split: if_splits)

text \<open>\<open>Read(data, size)\<close>; \<open>FastRead\<close> delivers the same bytes without a copy where it can.\<close>

function cd_read :: "nat \<Rightarrow> cd_buffer \<Rightarrow> (u8 list \<times> cd_buffer) option" where
  "cd_read n b =
     (if mReadNextAlloc b < mReadCurPtr b + int n
      then (let cur = nat (mReadNextAlloc b - mReadCurPtr b)
            in case cd_peek cur b of
                 None \<Rightarrow> None
               | Some bs \<Rightarrow>
                   (case cd_next_read_pool b of
                      None \<Rightarrow> None
                    | Some b1 \<Rightarrow>
                        (case cd_read (n - cur) b1 of None \<Rightarrow> None | Some (cs, b2) \<Rightarrow> Some (bs @ cs, b2))))
      else cd_take n b)"
  by pat_completeness auto
termination
  by (relation "measure (\<lambda>(n, b). nat (int (length (mPools b)) - mReadPoolIdx b))")
     (auto dest: cd_next_read_pool_progress)

declare cd_read.simps [simp del]

definition cd_read_byte :: "cd_buffer \<Rightarrow> (u8 \<times> cd_buffer) option" where
  "cd_read_byte b = do {
     b1 \<leftarrow> (if mReadCurPtr b = mReadNextAlloc b then cd_next_read_pool b else Some b);
     (bs, b2) \<leftarrow> cd_take 1 b1;
     Some (hd bs, b2) }"

text \<open>\<open>BfIRBuilder::GetBufferData\<close>: the contents of the stream as one block, for the code generator.\<close>

definition GetBufferData :: "cd_buffer \<Rightarrow> (u8 list \<times> cd_buffer) option" where
  "GetBufferData b =
     (if mSize b = 0 then Some ([], b)
      else do { b1 \<leftarrow> cd_set_read_pos 0 b; cd_read (nat (mSize b1)) b1 })"

section \<open>Variable-length integers\<close>

lemma sleb_progress:
  assumes "\<not> (v div 128 = 0 \<and> (v AND 0x7F) AND 0x40 = 0 \<or> v div 128 = -1 \<and> (v AND 0x7F) AND 0x40 \<noteq> (0::int))"
  shows "nat (if 0 \<le> v div 128 then v div 128 else - (v div 128) - 1) < nat (if 0 \<le> v then v else - v - 1)"
proof -
  have "v \<noteq> 0" using assms by auto
  moreover have "v \<noteq> -1" using assms by auto
  ultimately show ?thesis by auto
qed

text \<open>
  The loop of \<open>WriteSLEB128\<close>: seven bits at a time, until the rest is the sign of the last
  group.  The value is the signed integer an \<open>int32\<close> or \<open>int64\<close> holds.
\<close>

function write_sleb_loop :: "int \<Rightarrow> cd_buffer \<Rightarrow> cd_buffer option" where
  "write_sleb_loop v b =
     (let cur = v AND 0x7F; v' = v div 2 ^ 7;
          has_more = (\<not> (v' = 0 \<and> cur AND 0x40 = 0 \<or> v' = -1 \<and> cur AND 0x40 \<noteq> 0))
      in case cd_write_byte (word_of_int (if has_more then cur OR 0x80 else cur)) b of
           None \<Rightarrow> None
         | Some b1 \<Rightarrow> if has_more then write_sleb_loop v' b1 else Some b1)"
  by pat_completeness auto

termination
proof (relation "measure (\<lambda>(v, b). nat (if 0 \<le> v then v else - v - 1))", goal_cases)
  case 1
  show ?case by simp
next
  case (2 v b cur v' has_more b1)
  then show ?case using sleb_progress [of v] by simp
qed

declare write_sleb_loop.simps [simp del]

definition WriteSLEB128_int64 :: "u64 \<Rightarrow> cd_buffer \<Rightarrow> cd_buffer option" where
  "WriteSLEB128_int64 value b =
     (if -0x40 \<le> sint value \<and> sint value \<le> 0x3F then cd_write_byte (ucast value AND 0x7F) b
      else write_sleb_loop (sint value) b)"

definition WriteSLEB128_int32 :: "u32 \<Rightarrow> cd_buffer \<Rightarrow> cd_buffer option" where
  "WriteSLEB128_int32 value b =
     (if 0 \<le> sint value \<and> sint value \<le> 0x3F then cd_write_byte (ucast value) b
      else if 0 \<le> sint value \<and> sint value \<le> 0x1FFF
      then cd_write_2 ((ucast (push_bit 1 value) AND 0x7F00) OR (ucast value AND 0x7F) OR 0x80) b
      else write_sleb_loop (sint value) b)"

text \<open>\<open>ReadSLEB128\<close>; the shift of a value of more than ten groups has no defined result.\<close>

function read_sleb_loop :: "u64 \<Rightarrow> nat \<Rightarrow> cd_buffer \<Rightarrow> (u64 \<times> cd_buffer) option" where
  "read_sleb_loop val shift b =
     (if 64 \<le> shift then None
      else (case cd_read_byte b of
              None \<Rightarrow> None
            | Some (byteVal, b1) \<Rightarrow>
                (let val' = val OR push_bit shift (ucast (byteVal AND 0x7F)); shift' = shift + 7
                 in if 128 \<le> byteVal then read_sleb_loop val' shift' b1
                    else Some (if byteVal AND 0x40 \<noteq> 0 \<and> shift' < 64 then val' OR push_bit shift' (-1) else val', b1))))"
  by pat_completeness auto
termination
  by (relation "measure (\<lambda>(val, shift, b). 64 - shift)") auto

declare read_sleb_loop.simps [simp del]

definition ReadSLEB128 :: "cd_buffer \<Rightarrow> (u64 \<times> cd_buffer) option" where
  "ReadSLEB128 = read_sleb_loop 0 0"

end
