(* ===== verification/Be_Module.thy ===== *)
theory Be_Module
  imports Beef_Const
begin

text \<open>
  The backend's intermediate representation (\<^verbatim>\<open>IDEHelper/Backend/BeContext\<close> and
  \<^verbatim>\<open>BeModule\<close>): types with their sizes and the layout of structs, values and instructions, and
  the block the code generator appends instructions to.  An object is the value of a datatype; a
  struct type, which may be recursive through pointers, is its index in the context, and an
  instruction is the id of the command that made it.
\<close>

unbundle bit_operations_syntax

section \<open>Types\<close>

datatype (plugins only: size code) be_type_code =
    BeTypeCode_None | BeTypeCode_NullPtr | BeTypeCode_Boolean | BeTypeCode_Int8 | BeTypeCode_Int16
  | BeTypeCode_Int32 | BeTypeCode_Int64 | BeTypeCode_Float | BeTypeCode_Double | BeTypeCode_M128
  | BeTypeCode_M256 | BeTypeCode_M512 | BeTypeCode_Struct | BeTypeCode_Function | BeTypeCode_Pointer
  | BeTypeCode_SizedArray | BeTypeCode_Vector | BeTypeCode_CmpResult

primrec be_type_code_nat :: "be_type_code \<Rightarrow> nat" where
  "be_type_code_nat BeTypeCode_None = 0"
| "be_type_code_nat BeTypeCode_NullPtr = 1"
| "be_type_code_nat BeTypeCode_Boolean = 2"
| "be_type_code_nat BeTypeCode_Int8 = 3"
| "be_type_code_nat BeTypeCode_Int16 = 4"
| "be_type_code_nat BeTypeCode_Int32 = 5"
| "be_type_code_nat BeTypeCode_Int64 = 6"
| "be_type_code_nat BeTypeCode_Float = 7"
| "be_type_code_nat BeTypeCode_Double = 8"
| "be_type_code_nat BeTypeCode_M128 = 9"
| "be_type_code_nat BeTypeCode_M256 = 10"
| "be_type_code_nat BeTypeCode_M512 = 11"
| "be_type_code_nat BeTypeCode_Struct = 12"
| "be_type_code_nat BeTypeCode_Function = 13"
| "be_type_code_nat BeTypeCode_Pointer = 14"
| "be_type_code_nat BeTypeCode_SizedArray = 15"
| "be_type_code_nat BeTypeCode_Vector = 16"
| "be_type_code_nat BeTypeCode_CmpResult = 17"

text \<open>\<open>BePrim\<close> is a type that \<open>GetPrimitiveType\<close> allocates; the others hold their parameters.\<close>

datatype be_type =
    BePrim be_type_code
  | BePointerType be_type
  | BeStructType nat
  | BeSizedArrayType be_type int
  | BeVectorType be_type int

primrec mTypeCode :: "be_type \<Rightarrow> be_type_code" where
  "mTypeCode (BePrim c) = c"
| "mTypeCode (BePointerType t) = BeTypeCode_Pointer"
| "mTypeCode (BeStructType i) = BeTypeCode_Struct"
| "mTypeCode (BeSizedArrayType t n) = BeTypeCode_SizedArray"
| "mTypeCode (BeVectorType t n) = BeTypeCode_Vector"

record be_struct =
  mMembers :: "(be_type \<times> int) list"
  s_size :: int
  s_align :: int
  mIsPacked :: bool
  mIsOpaque :: bool

record be_context =
  mPointerSize :: int
  c_structs :: "be_struct list"

text \<open>\<open>GetPrimitiveType\<close>; the size of a primitive type stays \<open>-1\<close> where no case sets it.\<close>

definition GetPrimitiveType :: "be_type_code \<Rightarrow> be_type" where
  "GetPrimitiveType c = (if c = BeTypeCode_NullPtr then BePointerType (BePrim BeTypeCode_None) else BePrim c)"

primrec prim_size :: "be_type_code \<Rightarrow> int \<Rightarrow> int" where
  "prim_size BeTypeCode_None p = 0"
| "prim_size BeTypeCode_NullPtr p = p"
| "prim_size BeTypeCode_Boolean p = 1"
| "prim_size BeTypeCode_Int8 p = 1"
| "prim_size BeTypeCode_Int16 p = 2"
| "prim_size BeTypeCode_Int32 p = 4"
| "prim_size BeTypeCode_Int64 p = 8"
| "prim_size BeTypeCode_Float p = 4"
| "prim_size BeTypeCode_Double p = 8"
| "prim_size BeTypeCode_M128 p = 16"
| "prim_size BeTypeCode_M256 p = 32"
| "prim_size BeTypeCode_M512 p = 64"
| "prim_size BeTypeCode_Struct p = -1"
| "prim_size BeTypeCode_Function p = -1"
| "prim_size BeTypeCode_Pointer p = -1"
| "prim_size BeTypeCode_SizedArray p = -1"
| "prim_size BeTypeCode_Vector p = -1"
| "prim_size BeTypeCode_CmpResult p = -1"

text \<open>
  \<open>BF_ALIGN\<close>, on which the addresses of members and the strides are rounded up.  Sizes, alignments and
  positions have the type \<open>int\<close> of 32 bits: every sum and product wraps.
\<close>

abbreviation int32 :: "int \<Rightarrow> int" where "int32 \<equiv> wrap_s 4"

definition BF_ALIGN :: "int \<Rightarrow> int \<Rightarrow> int" where
  "BF_ALIGN v a = int32 (v + (a - 1)) AND NOT (a - 1)"

definition struct_at :: "be_context \<Rightarrow> nat \<Rightarrow> be_struct" where
  "struct_at C i =
     (if i < length (c_structs C) then c_structs C ! i
      else \<lparr>mMembers = [], s_size = -1, s_align = -1, mIsPacked = False, mIsOpaque = True\<rparr>)"

primrec mAlign :: "be_context \<Rightarrow> be_type \<Rightarrow> int" where
  "mAlign C (BePrim c) = prim_size c (mPointerSize C)"
| "mAlign C (BePointerType t) = mPointerSize C"
| "mAlign C (BeStructType i) = s_align (struct_at C i)"
| "mAlign C (BeSizedArrayType t n) = mAlign C t"
| "mAlign C (BeVectorType t n) = mAlign C t"

primrec be_size :: "be_context \<Rightarrow> be_type \<Rightarrow> int" where
  "be_size C (BePrim c) = prim_size c (mPointerSize C)"
| "be_size C (BePointerType t) = mPointerSize C"
| "be_size C (BeStructType i) = s_size (struct_at C i)"
| "be_size C (BeSizedArrayType t n) = int32 (BF_ALIGN (be_size C t) (mAlign C t) * n)"
| "be_size C (BeVectorType t n) = int32 (BF_ALIGN (be_size C t) (mAlign C t) * n)"

definition GetStride :: "be_context \<Rightarrow> be_type \<Rightarrow> int" where
  "GetStride C t = BF_ALIGN (be_size C t) (mAlign C t)"

definition be_IsPointer :: "be_type \<Rightarrow> bool" where
  "be_IsPointer t \<longleftrightarrow> mTypeCode t = BeTypeCode_Pointer \<or> mTypeCode t = BeTypeCode_NullPtr"

definition be_IsInt :: "be_type \<Rightarrow> bool" where
  "be_IsInt t \<longleftrightarrow> be_type_code_nat BeTypeCode_Int8 \<le> be_type_code_nat (mTypeCode t) \<and>
     be_type_code_nat (mTypeCode t) \<le> be_type_code_nat BeTypeCode_Int64"

definition be_IsIntable :: "be_type \<Rightarrow> bool" where
  "be_IsIntable t \<longleftrightarrow>
     be_type_code_nat BeTypeCode_Boolean \<le> be_type_code_nat (mTypeCode t) \<and>
     be_type_code_nat (mTypeCode t) \<le> be_type_code_nat BeTypeCode_Int64 \<or> mTypeCode t = BeTypeCode_Pointer"

definition be_IsFloat :: "be_type \<Rightarrow> bool" where
  "be_IsFloat t \<longleftrightarrow> mTypeCode t = BeTypeCode_Float \<or> mTypeCode t = BeTypeCode_Double"

section \<open>Layout of structs\<close>

definition CreateStruct :: "be_context \<Rightarrow> be_type \<times> be_context" where
  "CreateStruct C =
     (BeStructType (length (c_structs C)),
      C\<lparr>c_structs := c_structs C @ [\<lparr>mMembers = [], s_size = -1, s_align = -1, mIsPacked = False, mIsOpaque = True\<rparr>]\<rparr>)"

text \<open>The loop of \<open>SetStructBody\<close>, from the position and the alignment reached so far.\<close>

fun layout_members :: "be_context \<Rightarrow> bool \<Rightarrow> int \<Rightarrow> int \<Rightarrow> be_type list \<Rightarrow> (be_type \<times> int) list \<times> int \<times> int" where
  "layout_members C packed pos al [] = ([], pos, al)"
| "layout_members C packed pos al (t # ts) =
     (let pos = (if packed then pos else BF_ALIGN pos (mAlign C t));
          al = (if packed then 1 else max al (mAlign C t));
          (ms, end, al') = layout_members C packed (int32 (pos + be_size C t)) al ts
      in ((t, pos) # ms, end, al'))"

definition SetStructBody :: "nat \<Rightarrow> be_type list \<Rightarrow> bool \<Rightarrow> be_context \<Rightarrow> be_context" where
  "SetStructBody i ts packed C =
     (let (ms, pos, al) = layout_members C packed 0 (s_align (struct_at C i)) ts;
          size = (if packed then pos else BF_ALIGN pos al)
      in C\<lparr>c_structs := (c_structs C)[i := \<lparr>mMembers = ms, s_size = size, s_align = al,
                                            mIsPacked = packed, mIsOpaque = False\<rparr>]\<rparr>)"

section \<open>Values and instructions\<close>

text \<open>A constant carries the eight bytes of its payload union.\<close>

datatype (plugins only: size code) be_value =
    BeInst int
  | BeArgument nat
  | BeConstant be_type u64
  | BeUndefConstant "be_type option"

datatype (plugins only: size code) be_binary_op_kind =
    BeBinaryOpKind_Add | BeBinaryOpKind_Subtract | BeBinaryOpKind_Multiply | BeBinaryOpKind_SDivide
  | BeBinaryOpKind_UDivide | BeBinaryOpKind_SModulus | BeBinaryOpKind_UModulus
  | BeBinaryOpKind_BitwiseAnd | BeBinaryOpKind_BitwiseOr | BeBinaryOpKind_ExclusiveOr
  | BeBinaryOpKind_LeftShift | BeBinaryOpKind_RightShift | BeBinaryOpKind_ARightShift

datatype (plugins only: size code) be_cmp_kind =
    BeCmpKind_SLT | BeCmpKind_ULT | BeCmpKind_SLE | BeCmpKind_ULE | BeCmpKind_EQ | BeCmpKind_NE
  | BeCmpKind_SGT | BeCmpKind_UGT | BeCmpKind_SGE | BeCmpKind_UGE

text \<open>
  A block is its index in the function.  A case of a switch is its constant, by type and payload, and
  the block.
\<close>

datatype (plugins only: size code) be_inst =
    BeBinaryOpInst be_binary_op_kind "be_value option" "be_value option" nat
  | BeCmpInst be_cmp_kind "be_value option" "be_value option"
  | BeNumericCastInst "be_value option" be_type bool bool
  | BeNegInst "be_value option"
  | BeNotInst "be_value option"
  | BeNopInst
  | BeUnreachableInst
  | BeUndefValueInst be_type
  | BeBitCastInst "be_value option" be_type
  | BeAllocaInst be_type "be_value option"
  | BeLoadInst "be_value option"
  | BeStoreInst "be_value option" "be_value option"
  | BeBrInst nat
  | BeCondBrInst "be_value option" nat nat
  | BePhiInst be_type "(nat \<times> be_value option) list"
  | BeSwitchInst "be_value option" nat "(be_type \<times> u64 \<times> nat) list"
  | BeRetInst "be_value option"
  | BeSetRetInst "be_value option" int

text \<open>
  The part of \<open>BeModule\<close> the commands use: the instructions of the active block with the ids and
  the types of their results, the insert position, the parameter types of the active function.
\<close>

record be_module =
  mInstructions :: "(int \<times> be_inst) list"
  mInsertPos :: int
  m_types :: "int \<rightharpoonup> be_type"
  m_params :: "be_type list"

definition AddInst :: "int \<Rightarrow> be_inst \<Rightarrow> be_type option \<Rightarrow> be_module \<Rightarrow> be_module" where
  "AddInst i inst t M =
     (let M1 = (if mInsertPos M = -1 then M\<lparr>mInstructions := mInstructions M @ [(i, inst)]\<rparr>
                else M\<lparr>mInstructions := take (nat (mInsertPos M)) (mInstructions M) @ [(i, inst)] @
                                        drop (nat (mInsertPos M)) (mInstructions M),
                       mInsertPos := mInsertPos M + 1\<rparr>)
      in M1\<lparr>m_types := (m_types M1)(i := t)\<rparr>)"

text \<open>\<open>GetType\<close>; \<open>None\<close> is a null value or a value without a type.\<close>

definition value_type :: "be_module \<Rightarrow> be_value option \<Rightarrow> be_type option" where
  "value_type M v =
     (case v of
        None \<Rightarrow> None
      | Some (BeInst i) \<Rightarrow> m_types M i
      | Some (BeArgument n) \<Rightarrow> (if n < length (m_params M) then Some (m_params M ! n) else None)
      | Some (BeConstant t w) \<Rightarrow> Some t
      | Some (BeUndefConstant t) \<Rightarrow> t)"

definition inst_type :: "be_module \<Rightarrow> be_inst \<Rightarrow> be_type option" where
  "inst_type M inst =
     (case inst of
        BeBinaryOpInst k l r ov \<Rightarrow> value_type M l
      | BeCmpInst k l r \<Rightarrow> Some (GetPrimitiveType BeTypeCode_Boolean)
      | BeNumericCastInst v t vs ts \<Rightarrow> Some t
      | BeNegInst v \<Rightarrow> value_type M v
      | BeNotInst v \<Rightarrow> value_type M v
      | BeUndefValueInst t \<Rightarrow> Some t
      | BeBitCastInst v t \<Rightarrow> Some t
      | BeAllocaInst t n \<Rightarrow> Some (BePointerType t)
      | BeLoadInst v \<Rightarrow> (case value_type M v of Some (BePointerType t) \<Rightarrow> Some t | _ \<Rightarrow> None)
      | BePhiInst t ins \<Rightarrow> Some t
      | _ \<Rightarrow> None)"

text \<open>\<open>GetConstant\<close> of an integer sign-extends from the width of the type.\<close>

definition GetConstant_int :: "be_type \<Rightarrow> u64 \<Rightarrow> be_value" where
  "GetConstant_int t w =
     BeConstant t
       (case mTypeCode t of
          BeTypeCode_Int8 \<Rightarrow> scast (ucast w :: u8)
        | BeTypeCode_Int16 \<Rightarrow> scast (ucast w :: u16)
        | BeTypeCode_Int32 \<Rightarrow> scast (ucast w :: u32)
        | _ \<Rightarrow> w)"

definition GetConstant_double :: "be_type \<Rightarrow> u64 \<Rightarrow> be_value" where
  "GetConstant_double t w = BeConstant t w"

definition GetConstant_bool :: "be_type \<Rightarrow> bool \<Rightarrow> be_value" where
  "GetConstant_bool t p = BeConstant t (if p then 1 else 0)"

end
