(* ===== verification/Beef_IRStream.thy ===== *)
theory Beef_IRStream
  imports Beef_Fold Beef_Stream Be_Module
begin

text \<open>
  The command stream: how \<open>BfIRBuilder\<close> encodes the arithmetic commands and their operands
  (BfIRBuilder.cpp, \<open>Write\<close> and \<open>WriteCmd\<close>), and how \<open>BeIRCodeGen\<close> decodes and executes them
  (BeIRCodeGen.cpp, \<open>Read\<close> and \<open>HandleNextCmd\<close>).

  Constants are those of \<^verbatim>\<open>Beef_Const\<close> that the modelled objects describe in full: numbers,
  booleans, the null constant and undefined values.  An operation yields \<open>None\<close> for another
  constant or command, and where the code stops with a fatal error, follows a null pointer or finds
  no value of the right kind.
\<close>

unbundle bit_operations_syntax

section \<open>Codes\<close>

definition BfIRValueFlags_Arg :: nat where "BfIRValueFlags_Arg = 2"

definition BfIRParamType_None :: u8 where "BfIRParamType_None = 0"
definition BfIRParamType_Const :: u8 where "BfIRParamType_Const = 1"
definition BfIRParamType_Arg :: u8 where "BfIRParamType_Arg = 2"
definition BfIRParamType_StreamId_Abs8 :: u8 where "BfIRParamType_StreamId_Abs8 = 3"
definition BfIRParamType_StreamId_Rel :: u8 where "BfIRParamType_StreamId_Rel = 4"
definition BfIRParamType_StreamId_Back1 :: u8 where "BfIRParamType_StreamId_Back1 = 5"

lemmas param_type_defs = BfIRParamType_None_def BfIRParamType_Const_def BfIRParamType_Arg_def
  BfIRParamType_StreamId_Abs8_def BfIRParamType_StreamId_Rel_def BfIRParamType_StreamId_Back1_def

text \<open>\<open>enum BfIRCmd\<close>.\<close>

primrec ir_cmd_code :: "bf_ir_cmd \<Rightarrow> u8" where
  "ir_cmd_code (BfIRCmd_NumericCast v s t) = 26"
| "ir_cmd_code (BfIRCmd_CmpEQ l r) = 27"
| "ir_cmd_code (BfIRCmd_CmpNE l r) = 28"
| "ir_cmd_code (BfIRCmd_CmpSLT l r) = 29"
| "ir_cmd_code (BfIRCmd_CmpULT l r) = 30"
| "ir_cmd_code (BfIRCmd_CmpSLE l r) = 31"
| "ir_cmd_code (BfIRCmd_CmpULE l r) = 32"
| "ir_cmd_code (BfIRCmd_CmpSGT l r) = 33"
| "ir_cmd_code (BfIRCmd_CmpUGT l r) = 34"
| "ir_cmd_code (BfIRCmd_CmpSGE l r) = 35"
| "ir_cmd_code (BfIRCmd_CmpUGE l r) = 36"
| "ir_cmd_code (BfIRCmd_Add l r k) = 37"
| "ir_cmd_code (BfIRCmd_Sub l r k) = 38"
| "ir_cmd_code (BfIRCmd_Mul l r k) = 39"
| "ir_cmd_code (BfIRCmd_SDiv l r) = 40"
| "ir_cmd_code (BfIRCmd_UDiv l r) = 41"
| "ir_cmd_code (BfIRCmd_SRem l r) = 42"
| "ir_cmd_code (BfIRCmd_URem l r) = 43"
| "ir_cmd_code (BfIRCmd_And l r) = 44"
| "ir_cmd_code (BfIRCmd_Or l r) = 45"
| "ir_cmd_code (BfIRCmd_Xor l r) = 46"
| "ir_cmd_code (BfIRCmd_Shl l r) = 47"
| "ir_cmd_code (BfIRCmd_AShr l r) = 48"
| "ir_cmd_code (BfIRCmd_LShr l r) = 49"
| "ir_cmd_code (BfIRCmd_Neg v) = 50"
| "ir_cmd_code (BfIRCmd_Not v) = 51"
| "ir_cmd_code BfIRCmd_GetInsertBlock = 97"

definition all_type_codes :: "bf_type_code list" where
  "all_type_codes =
     [BfTypeCode_None, BfTypeCode_CharPtr, BfTypeCode_StringId, BfTypeCode_Pointer, BfTypeCode_NullPtr,
      BfTypeCode_Self, BfTypeCode_Dot, BfTypeCode_Var, BfTypeCode_Let, BfTypeCode_Boolean,
      BfTypeCode_Int8, BfTypeCode_UInt8, BfTypeCode_Int16, BfTypeCode_UInt16, BfTypeCode_Int24,
      BfTypeCode_UInt24, BfTypeCode_Int32, BfTypeCode_UInt32, BfTypeCode_Int40, BfTypeCode_UInt40,
      BfTypeCode_Int48, BfTypeCode_UInt48, BfTypeCode_Int56, BfTypeCode_UInt56, BfTypeCode_Int64,
      BfTypeCode_UInt64, BfTypeCode_Int128, BfTypeCode_UInt128, BfTypeCode_IntPtr, BfTypeCode_UIntPtr,
      BfTypeCode_IntUnknown, BfTypeCode_UIntUnknown, BfTypeCode_Char8, BfTypeCode_Char16,
      BfTypeCode_Char32, BfTypeCode_Float, BfTypeCode_Double, BfTypeCode_Float2, BfTypeCode_Float4,
      BfTypeCode_Int32_4, BfTypeCode_Bool2, BfTypeCode_Bool4, BfTypeCode_V128, BfTypeCode_Object,
      BfTypeCode_Interface, BfTypeCode_Struct, BfTypeCode_Enum, BfTypeCode_TypeAlias,
      BfTypeCode_Extension, BfTypeCode_FloatX1, BfTypeCode_FloatX2, BfTypeCode_FloatX3,
      BfTypeCode_FloatX4, BfTypeCode_DoubleX1, BfTypeCode_DoubleX2, BfTypeCode_DoubleX3,
      BfTypeCode_DoubleX4, BfTypeCode_Int64X2, BfTypeCode_Int64X3, BfTypeCode_Int64X4]"

text \<open>The cast of a number to \<open>BfTypeCode\<close>.\<close>

definition type_code_of :: "nat \<Rightarrow> bf_type_code option" where
  "type_code_of n = (if n < length all_type_codes then Some (all_type_codes ! n) else None)"

section \<open>Writing\<close>

text \<open>The stream of the builder and its command counter.\<close>

record ir_writer =
  w_stream :: cd_buffer
  w_cmd_count :: int

definition on_stream :: "(cd_buffer \<Rightarrow> cd_buffer option) \<Rightarrow> ir_writer \<Rightarrow> ir_writer option" where
  "on_stream f w = map_option (\<lambda>b. w\<lparr>w_stream := b\<rparr>) (f (w_stream w))"

definition Write_bool :: "bool \<Rightarrow> cd_buffer \<Rightarrow> cd_buffer option" where
  "Write_bool v = cd_write_byte (if v then 1 else 0)"

definition Write_int :: "int \<Rightarrow> cd_buffer \<Rightarrow> cd_buffer option" where
  "Write_int v = WriteSLEB128_int32 (word_of_int v)"

definition Write_type_code :: "bf_type_code \<Rightarrow> cd_buffer \<Rightarrow> cd_buffer option" where
  "Write_type_code tc = cd_write_byte (word_of_int (int (type_code_nat tc)))"

text \<open>\<open>Write(BfIRTypeData)\<close>; the kinds of a type are numbered in \<open>BfIRTypeData::TypeKind\<close>.\<close>

primrec Write_type :: "bf_ir_type \<Rightarrow> cd_buffer \<Rightarrow> cd_buffer option" where
  "Write_type (TypeKind_TypeCode tc) b =
     do { b1 \<leftarrow> cd_write_byte 2 b; Write_int (int (type_code_nat tc)) b1 }"
| "Write_type (TypeKind_TypeId i) b = do { b1 \<leftarrow> cd_write_byte 1 b; Write_int i b1 }"

text \<open>The type codes whose constants are written as integers.\<close>

definition writes_sleb :: "bf_type_code \<Rightarrow> bool" where
  "writes_sleb tc \<longleftrightarrow> tc \<in> {BfTypeCode_Int8, BfTypeCode_UInt8, BfTypeCode_Int16, BfTypeCode_UInt16,
     BfTypeCode_Int32, BfTypeCode_UInt32, BfTypeCode_Int64, BfTypeCode_UInt64, BfTypeCode_IntPtr,
     BfTypeCode_UIntPtr, BfTypeCode_IntUnknown, BfTypeCode_UIntUnknown, BfTypeCode_Char8,
     BfTypeCode_Char16, BfTypeCode_Char32}"

definition Write_const :: "ce_fpu \<Rightarrow> bf_const \<Rightarrow> cd_buffer \<Rightarrow> cd_buffer option" where
  "Write_const fpu c b = do {
     b1 \<leftarrow> cd_write_byte BfIRParamType_Const b;
     b2 \<leftarrow> cd_write_byte (word_of_int (int (const_tag c))) b1;
     case c of
       BfConstant tc w \<Rightarrow>
         if tc = BfTypeCode_Float then cd_write (le_bytes 4 (fp_cvt fpu F64 F32 (uint w))) b2
         else if tc = BfTypeCode_Double then cd_write (le_bytes 8 (uint w)) b2
         else if writes_sleb tc then WriteSLEB128_int64 w b2
         else if tc = BfTypeCode_Boolean then Write_bool (mInt8 w \<noteq> 0) b2
         else if tc = BfTypeCode_None then Some b2
         else None
     | BfConstantUndef t \<Rightarrow> Write_type t b2
     | _ \<Rightarrow> None }"

text \<open>\<open>Write(BfIRValue)\<close>: a result is named by its id, or by its distance from the command counter.\<close>

definition Write_value :: "ce_fpu \<Rightarrow> bf_pool \<Rightarrow> int \<Rightarrow> bf_value \<Rightarrow> cd_buffer \<Rightarrow> cd_buffer option" where
  "Write_value fpu P count v b =
     (if IsConst v
      then (case GetConstantById P (v_id v) of None \<Rightarrow> None | Some c \<Rightarrow> Write_const fpu c b)
      else if v_flags v AND BfIRValueFlags_Arg \<noteq> 0
      then do { b1 \<leftarrow> cd_write_byte BfIRParamType_Arg b; Write_int (v_id v) b1 }
      else if v_flags v \<noteq> 0
      then (if v_id v < 0x100
            then do { b1 \<leftarrow> cd_write_byte BfIRParamType_StreamId_Abs8 b; cd_write_byte (word_of_int (v_id v)) b1 }
            else let offset = count - v_id v
                 in if offset \<le> 0xFF - uint BfIRParamType_StreamId_Back1
                    then cd_write_byte (word_of_int (uint BfIRParamType_StreamId_Back1 + (offset - 1))) b
                    else do { b1 \<leftarrow> cd_write_byte BfIRParamType_StreamId_Rel b; Write_int offset b1 })
      else cd_write_byte BfIRParamType_None b)"

text \<open>
  The arguments of the commands.  An overflow check kind is an enumeration over \<open>int8\<close>, for which
  overload resolution takes \<open>Write(int)\<close>.
\<close>

definition Write_args :: "ce_fpu \<Rightarrow> bf_pool \<Rightarrow> int \<Rightarrow> bf_ir_cmd \<Rightarrow> cd_buffer \<Rightarrow> cd_buffer option" where
  "Write_args fpu P n cmd b =
     (let one = (\<lambda>v. Write_value fpu P n v b);
          two = (\<lambda>l r. do { b1 \<leftarrow> Write_value fpu P n l b; Write_value fpu P n r b1 });
          checked = (\<lambda>l r k. do { b1 \<leftarrow> two l r; Write_int (int k) b1 })
      in case cmd of
           BfIRCmd_NumericCast v s t \<Rightarrow> do { b1 \<leftarrow> one v; b2 \<leftarrow> Write_bool s b1; Write_type_code t b2 }
         | BfIRCmd_CmpEQ l r \<Rightarrow> two l r | BfIRCmd_CmpNE l r \<Rightarrow> two l r
         | BfIRCmd_CmpSLT l r \<Rightarrow> two l r | BfIRCmd_CmpULT l r \<Rightarrow> two l r
         | BfIRCmd_CmpSLE l r \<Rightarrow> two l r | BfIRCmd_CmpULE l r \<Rightarrow> two l r
         | BfIRCmd_CmpSGT l r \<Rightarrow> two l r | BfIRCmd_CmpUGT l r \<Rightarrow> two l r
         | BfIRCmd_CmpSGE l r \<Rightarrow> two l r | BfIRCmd_CmpUGE l r \<Rightarrow> two l r
         | BfIRCmd_Add l r k \<Rightarrow> checked l r k | BfIRCmd_Sub l r k \<Rightarrow> checked l r k
         | BfIRCmd_Mul l r k \<Rightarrow> checked l r k
         | BfIRCmd_SDiv l r \<Rightarrow> two l r | BfIRCmd_UDiv l r \<Rightarrow> two l r
         | BfIRCmd_SRem l r \<Rightarrow> two l r | BfIRCmd_URem l r \<Rightarrow> two l r
         | BfIRCmd_And l r \<Rightarrow> two l r | BfIRCmd_Or l r \<Rightarrow> two l r | BfIRCmd_Xor l r \<Rightarrow> two l r
         | BfIRCmd_Shl l r \<Rightarrow> two l r | BfIRCmd_AShr l r \<Rightarrow> two l r | BfIRCmd_LShr l r \<Rightarrow> two l r
         | BfIRCmd_Neg v \<Rightarrow> one v | BfIRCmd_Not v \<Rightarrow> one v
         | BfIRCmd_GetInsertBlock \<Rightarrow> Some b)"

text \<open>\<open>WriteCmd(cmd, args...)\<close>: the counter is advanced before the arguments are written.\<close>

definition ir_write_cmd :: "ce_fpu \<Rightarrow> bf_pool \<Rightarrow> bf_ir_cmd \<Rightarrow> ir_writer \<Rightarrow> ir_writer option" where
  "ir_write_cmd fpu P cmd w = do {
     b1 \<leftarrow> cd_write_byte (ir_cmd_code cmd) (w_stream w);
     b2 \<leftarrow> Write_args fpu P (w_cmd_count w + 1) cmd b1;
     Some \<lparr>w_stream = b2, w_cmd_count = w_cmd_count w + 1\<rparr> }"

fun ir_write_all :: "ce_fpu \<Rightarrow> bf_pool \<Rightarrow> bf_ir_cmd list \<Rightarrow> ir_writer \<Rightarrow> ir_writer option" where
  "ir_write_all fpu P [] w = Some w"
| "ir_write_all fpu P (c # cs) w = do { w1 \<leftarrow> ir_write_cmd fpu P c w; ir_write_all fpu P cs w1 }"

definition ir_writer_init :: ir_writer where
  "ir_writer_init = \<lparr>w_stream = cd_init, w_cmd_count = 0\<rparr>"

section \<open>Reading\<close>

datatype (plugins only: size code) be_entry = BeEntry_Value "be_value option" | BeEntry_Block

text \<open>The code generator: \<open>g_types\<close> is \<open>mTypes[id].mBeType\<close>, \<open>None\<close> for a null pointer.\<close>

record be_codegen =
  g_stream :: cd_buffer
  g_cmd_count :: int
  g_results :: "int \<rightharpoonup> be_entry"
  g_types :: "int \<Rightarrow> be_type option"
  g_module :: be_module
  g_failed :: bool

definition of_stream :: "(cd_buffer \<Rightarrow> ('a \<times> cd_buffer) option) \<Rightarrow> be_codegen \<Rightarrow> ('a \<times> be_codegen) option" where
  "of_stream f g = map_option (\<lambda>(x, b). (x, g\<lparr>g_stream := b\<rparr>)) (f (g_stream g))"

definition g_byte :: "be_codegen \<Rightarrow> (u8 \<times> be_codegen) option" where
  "g_byte = of_stream cd_read_byte"

definition g_sleb :: "be_codegen \<Rightarrow> (u64 \<times> be_codegen) option" where
  "g_sleb = of_stream ReadSLEB128"

text \<open>\<open>(int)ReadSLEB128()\<close>\<close>

definition g_int :: "be_codegen \<Rightarrow> (int \<times> be_codegen) option" where
  "g_int g = do { (w, g1) \<leftarrow> g_sleb g; Some (sint (ucast w :: u32), g1) }"

definition g_bool :: "be_codegen \<Rightarrow> (bool \<times> be_codegen) option" where
  "g_bool g = do { (v, g1) \<leftarrow> g_byte g; Some (v \<noteq> 0, g1) }"

definition SetResult :: "int \<Rightarrow> be_entry \<Rightarrow> be_codegen \<Rightarrow> be_codegen" where
  "SetResult i e g = (case g_results g i of None \<Rightarrow> g\<lparr>g_results := (g_results g)(i \<mapsto> e)\<rparr> | Some _ \<Rightarrow> g)"

text \<open>\<open>GetBeType\<close>: the type and whether the code is signed; pointer-sized integers are illegal here.\<close>

definition GetBeType :: "bf_type_code \<Rightarrow> (be_type \<times> bool) option" where
  "GetBeType tc =
     (let prim = (\<lambda>c s. Some (GetPrimitiveType c, s)); vec = (\<lambda>c n s. Some (BeVectorType (GetPrimitiveType c) n, s))
      in case tc of
           BfTypeCode_NullPtr \<Rightarrow> prim BeTypeCode_NullPtr False
         | BfTypeCode_Boolean \<Rightarrow> prim BeTypeCode_Boolean False
         | BfTypeCode_Int8 \<Rightarrow> prim BeTypeCode_Int8 True
         | BfTypeCode_UInt8 \<Rightarrow> prim BeTypeCode_Int8 False
         | BfTypeCode_Char8 \<Rightarrow> prim BeTypeCode_Int8 False
         | BfTypeCode_Int16 \<Rightarrow> prim BeTypeCode_Int16 True
         | BfTypeCode_Char16 \<Rightarrow> prim BeTypeCode_Int16 False
         | BfTypeCode_UInt16 \<Rightarrow> prim BeTypeCode_Int16 False
         | BfTypeCode_Int32 \<Rightarrow> prim BeTypeCode_Int32 True
         | BfTypeCode_UInt32 \<Rightarrow> prim BeTypeCode_Int32 False
         | BfTypeCode_Char32 \<Rightarrow> prim BeTypeCode_Int32 False
         | BfTypeCode_Int64 \<Rightarrow> prim BeTypeCode_Int64 True
         | BfTypeCode_UInt64 \<Rightarrow> prim BeTypeCode_Int64 False
         | BfTypeCode_IntPtr \<Rightarrow> None
         | BfTypeCode_UIntPtr \<Rightarrow> None
         | BfTypeCode_Float \<Rightarrow> prim BeTypeCode_Float True
         | BfTypeCode_Double \<Rightarrow> prim BeTypeCode_Double True
         | BfTypeCode_Float2 \<Rightarrow> vec BeTypeCode_Float 2 True
         | BfTypeCode_Float4 \<Rightarrow> vec BeTypeCode_Float 4 True
         | BfTypeCode_Int32_4 \<Rightarrow> vec BeTypeCode_Int32 4 True
         | BfTypeCode_Bool2 \<Rightarrow> vec BeTypeCode_Boolean 2 False
         | BfTypeCode_Bool4 \<Rightarrow> vec BeTypeCode_Boolean 4 False
         | BfTypeCode_V128 \<Rightarrow> vec BeTypeCode_Int8 16 False
         | _ \<Rightarrow> prim BeTypeCode_None False)"

definition Read_type_code :: "be_codegen \<Rightarrow> (bf_type_code \<times> be_codegen) option" where
  "Read_type_code g = do { (v, g1) \<leftarrow> g_byte g; tc \<leftarrow> type_code_of (unat v); Some (tc, g1) }"

text \<open>\<open>Read(BeType*)\<close>, for the two kinds of types that are written.\<close>

definition Read_type :: "be_codegen \<Rightarrow> (be_type option \<times> be_codegen) option" where
  "Read_type g = do {
     (k, g1) \<leftarrow> g_byte g;
     if k = 2 then do { (i, g2) \<leftarrow> g_int g1; tc \<leftarrow> type_code_of (unat (word_of_int i :: u8));
                        (t, s) \<leftarrow> GetBeType tc; Some (Some t, g2) }
     else if k = 1 then do { (i, g2) \<leftarrow> g_int g1; Some (g_types g2 i, g2) }
     else None }"

definition Read_const :: "ce_fpu \<Rightarrow> be_codegen \<Rightarrow> (be_value option \<times> be_codegen) option" where
  "Read_const fpu g = do {
     (k, g1) \<leftarrow> g_byte g;
     if unat k = const_type_nat BfConstType_Undef
     then do { (t, g2) \<leftarrow> Read_type g1; Some (Some (BeUndefConstant t), g2) }
     else do {
       tc \<leftarrow> type_code_of (unat k);
       (t, s) \<leftarrow> GetBeType tc;
       if tc = BfTypeCode_Float
       then do { (bs, g2) \<leftarrow> of_stream (cd_read 4) g1;
                 Some (Some (GetConstant_double t (word_of_int (fp_cvt fpu F32 F64 (le_uint bs)))), g2) }
       else if tc = BfTypeCode_Double
       then do { (bs, g2) \<leftarrow> of_stream (cd_read 8) g1;
                 Some (Some (GetConstant_double t (word_of_int (le_uint bs))), g2) }
       else if tc = BfTypeCode_Boolean
       then do { (p, g2) \<leftarrow> g_bool g1; Some (Some (GetConstant_bool t p), g2) }
       else if tc = BfTypeCode_None then Some (None, g1)
       else if IsInt tc then do { (w, g2) \<leftarrow> g_sleb g1; Some (Some (GetConstant_int t w), g2) }
       else None } }"

text \<open>The value of \<open>mResults[id]\<close>, which has to be there.\<close>

definition result_value :: "be_codegen \<Rightarrow> int \<Rightarrow> (be_value option \<times> be_codegen) option" where
  "result_value g i = (case g_results g i of Some (BeEntry_Value v) \<Rightarrow> Some (v, g) | _ \<Rightarrow> None)"

text \<open>\<open>Read(BeValue*)\<close>: the index of an argument is one byte.\<close>

definition Read_value :: "ce_fpu \<Rightarrow> be_codegen \<Rightarrow> (be_value option \<times> be_codegen) option" where
  "Read_value fpu g = do {
     (k, g1) \<leftarrow> g_byte g;
     if k = BfIRParamType_None then Some (None, g1)
     else if k = BfIRParamType_Const then Read_const fpu g1
     else if k = BfIRParamType_Arg then do { (i, g2) \<leftarrow> g_byte g1; Some (Some (BeArgument (unat i)), g2) }
     else if k = BfIRParamType_StreamId_Abs8 then do { (i, g2) \<leftarrow> g_byte g1; result_value g2 (uint i) }
     else if k = BfIRParamType_StreamId_Rel
     then do { (i, g2) \<leftarrow> g_int g1; result_value g2 (g_cmd_count g2 - i) }
     else result_value g1 (g_cmd_count g1 - (uint k - uint BfIRParamType_StreamId_Back1) - 1) }"

section \<open>Commands\<close>

text \<open>A command with its operands.\<close>

datatype (plugins only: size code) be_cmd =
    BeCmd_Binary be_binary_op_kind "be_value option" "be_value option" nat
  | BeCmd_Cmp be_cmp_kind "be_value option" "be_value option"
  | BeCmd_NumericCast "be_value option" bool bf_type_code
  | BeCmd_Neg "be_value option"
  | BeCmd_Not "be_value option"
  | BeCmd_GetInsertBlock

definition read_two :: "ce_fpu \<Rightarrow> be_codegen \<Rightarrow> ((be_value option \<times> be_value option) \<times> be_codegen) option" where
  "read_two fpu g = do { (l, g1) \<leftarrow> Read_value fpu g; (r, g2) \<leftarrow> Read_value fpu g1; Some ((l, r), g2) }"

definition read_binary :: "ce_fpu \<Rightarrow> be_binary_op_kind \<Rightarrow> be_codegen \<Rightarrow> (be_cmd \<times> be_codegen) option" where
  "read_binary fpu k g = do { ((l, r), g1) \<leftarrow> read_two fpu g; Some (BeCmd_Binary k l r 0, g1) }"

definition read_checked :: "ce_fpu \<Rightarrow> be_binary_op_kind \<Rightarrow> be_codegen \<Rightarrow> (be_cmd \<times> be_codegen) option" where
  "read_checked fpu k g = do {
     ((l, r), g1) \<leftarrow> read_two fpu g; (ov, g2) \<leftarrow> g_byte g1; Some (BeCmd_Binary k l r (unat ov), g2) }"

definition read_cmp :: "ce_fpu \<Rightarrow> be_cmp_kind \<Rightarrow> be_codegen \<Rightarrow> (be_cmd \<times> be_codegen) option" where
  "read_cmp fpu k g = do { ((l, r), g1) \<leftarrow> read_two fpu g; Some (BeCmd_Cmp k l r, g1) }"

definition read_params :: "ce_fpu \<Rightarrow> u8 \<Rightarrow> be_codegen \<Rightarrow> (be_cmd \<times> be_codegen) option" where
  "read_params fpu code g =
     (if code = 26
      then do { (v, g1) \<leftarrow> Read_value fpu g; (s, g2) \<leftarrow> g_bool g1; (tc, g3) \<leftarrow> Read_type_code g2;
                Some (BeCmd_NumericCast v s tc, g3) }
      else if code = 27 then read_cmp fpu BeCmpKind_EQ g
      else if code = 28 then read_cmp fpu BeCmpKind_NE g
      else if code = 29 then read_cmp fpu BeCmpKind_SLT g
      else if code = 30 then read_cmp fpu BeCmpKind_ULT g
      else if code = 31 then read_cmp fpu BeCmpKind_SLE g
      else if code = 32 then read_cmp fpu BeCmpKind_ULE g
      else if code = 33 then read_cmp fpu BeCmpKind_SGT g
      else if code = 34 then read_cmp fpu BeCmpKind_UGT g
      else if code = 35 then read_cmp fpu BeCmpKind_SGE g
      else if code = 36 then read_cmp fpu BeCmpKind_UGE g
      else if code = 37 then read_checked fpu BeBinaryOpKind_Add g
      else if code = 38 then read_checked fpu BeBinaryOpKind_Subtract g
      else if code = 39 then read_checked fpu BeBinaryOpKind_Multiply g
      else if code = 40 then read_binary fpu BeBinaryOpKind_SDivide g
      else if code = 41 then read_binary fpu BeBinaryOpKind_UDivide g
      else if code = 42 then read_binary fpu BeBinaryOpKind_SModulus g
      else if code = 43 then read_binary fpu BeBinaryOpKind_UModulus g
      else if code = 44 then read_binary fpu BeBinaryOpKind_BitwiseAnd g
      else if code = 45 then read_binary fpu BeBinaryOpKind_BitwiseOr g
      else if code = 46 then read_binary fpu BeBinaryOpKind_ExclusiveOr g
      else if code = 47 then read_binary fpu BeBinaryOpKind_LeftShift g
      else if code = 48 then read_binary fpu BeBinaryOpKind_ARightShift g
      else if code = 49 then read_binary fpu BeBinaryOpKind_RightShift g
      else if code = 50 then do { (v, g1) \<leftarrow> Read_value fpu g; Some (BeCmd_Neg v, g1) }
      else if code = 51 then do { (v, g1) \<leftarrow> Read_value fpu g; Some (BeCmd_Not v, g1) }
      else if code = 97 then Some (BeCmd_GetInsertBlock, g)
      else None)"

text \<open>The instruction is appended to the block and becomes the result of the command.\<close>

definition emit_inst :: "int \<Rightarrow> be_inst \<Rightarrow> be_codegen \<Rightarrow> be_codegen" where
  "emit_inst i inst g =
     SetResult i (BeEntry_Value (Some (BeInst i)))
       (g\<lparr>g_module := AddInst i inst (inst_type (g_module g) inst) (g_module g)\<rparr>)"

text \<open>
  The cases of \<open>HandleNextCmd\<close>.  \<open>Fail\<close> marks the module as failed and the case goes on.  The type
  of an operand is asked for in two cases, where a null operand is a null pointer access.
\<close>

definition handle_cmd :: "int \<Rightarrow> be_cmd \<Rightarrow> be_codegen \<Rightarrow> be_codegen option" where
  "handle_cmd i cmd g =
     (case cmd of
        BeCmd_Binary k l r ov \<Rightarrow> Some (emit_inst i (BeBinaryOpInst k l r ov) g)
      | BeCmd_Cmp k l r \<Rightarrow>
          (if k = BeCmpKind_EQ
           then (if l = None \<or> r = None then None
                 else let g1 = (if value_type (g_module g) l \<noteq> value_type (g_module g) r
                                then g\<lparr>g_failed := True\<rparr> else g)
                      in Some (emit_inst i (BeCmpInst k l r) g1))
           else Some (emit_inst i (BeCmpInst k l r) g))
      | BeCmd_NumericCast v s tc \<Rightarrow>
          (case value_type (g_module g) v of
             None \<Rightarrow> None
           | Some vt \<Rightarrow>
               do { (t, ts) \<leftarrow> GetBeType tc;
                    let g1 = (if \<not> be_IsIntable vt \<and> \<not> be_IsFloat vt then g\<lparr>g_failed := True\<rparr> else g);
                    Some (emit_inst i (BeNumericCastInst v t s ts) g1) })
      | BeCmd_Neg v \<Rightarrow> Some (emit_inst i (BeNegInst v) g)
      | BeCmd_Not v \<Rightarrow> Some (emit_inst i (BeNotInst v) g)
      | BeCmd_GetInsertBlock \<Rightarrow> Some (SetResult i BeEntry_Block g))"

text \<open>\<open>HandleNextCmd\<close>, for a module that has not failed.\<close>

definition HandleNextCmd :: "ce_fpu \<Rightarrow> be_codegen \<Rightarrow> be_codegen option" where
  "HandleNextCmd fpu g =
     (if g_failed g
      then do { b \<leftarrow> cd_set_read_pos (mSize (g_stream g)) (g_stream g); Some (g\<lparr>g_stream := b\<rparr>) }
      else do {
        (code, g1) \<leftarrow> g_byte g;
        let i = g_cmd_count g1;
        let g2 = g1\<lparr>g_cmd_count := i + 1\<rparr>;
        (cmd, g3) \<leftarrow> read_params fpu code g2;
        handle_cmd i cmd g3 })"

text \<open>
  The loop of \<open>Init\<close> over a block of \<open>size\<close> bytes.  Every command takes a byte, so that \<open>size\<close>
  rounds are enough (\<open>ir_stream_roundtrip\<close> has the loop end).
\<close>

fun codegen_loop :: "nat \<Rightarrow> ce_fpu \<Rightarrow> int \<Rightarrow> be_codegen \<Rightarrow> be_codegen option" where
  "codegen_loop n fpu sz g =
     (if sz \<le> cd_get_read_pos (g_stream g) \<or> g_failed g then Some g
      else case n of 0 \<Rightarrow> None
           | Suc m \<Rightarrow> (case HandleNextCmd fpu g of None \<Rightarrow> None | Some g1 \<Rightarrow> codegen_loop m fpu sz g1))"

declare codegen_loop.simps [simp del]

definition codegen_init :: "(int \<Rightarrow> be_type option) \<Rightarrow> be_module \<Rightarrow> u8 list \<Rightarrow> be_codegen" where
  "codegen_init types M bs =
     \<lparr>g_stream = cd_init_flat_ref bs cd_init, g_cmd_count = 0, g_results = Map.empty, g_types = types,
      g_module = M, g_failed = False\<rparr>"

definition be_Init :: "ce_fpu \<Rightarrow> (int \<Rightarrow> be_type option) \<Rightarrow> be_module \<Rightarrow> u8 list \<Rightarrow> be_codegen option" where
  "be_Init fpu types M bs = codegen_loop (length bs) fpu (int (length bs)) (codegen_init types M bs)"

end
