(* ===== verification/Beef_Stream_Spec.thy ===== *)
theory Beef_Stream_Spec
  imports Beef_Stream
begin

text \<open>
  What the stream promises: the buffer is a queue of bytes.  Two interfaces state this, a source
  of bytes and a queue, and the chunked buffer provides both; the encoders are then correct over
  any of its states.
\<close>

unbundle bit_operations_syntax

section \<open>State of the buffer\<close>

definition cd_bytes :: "cd_buffer \<Rightarrow> u8 list" where
  "cd_bytes b = take (nat (mSize b)) (concat (mPools b))"

text \<open>The chunks have one size, and the write position is in the last one.\<close>

definition cd_write_inv :: "cd_buffer \<Rightarrow> bool" where
  "cd_write_inv b \<longleftrightarrow>
     (\<forall>p \<in> set (mPools b). length p = ALLOC_SIZE) \<and> mWriteCurPtr b \<le> ALLOC_SIZE \<and>
     (if mPools b = [] then mWriteCurAlloc b = CdNull \<and> mWriteCurPtr b = ALLOC_SIZE \<and> mSize b = 0
      else mWriteCurAlloc b = CdPool (length (mPools b) - 1) \<and>
           mSize b = int ((length (mPools b) - 1) * ALLOC_SIZE + mWriteCurPtr b))"

text \<open>The read position is before the first chunk or in a chunk, and not behind the data.\<close>

definition cd_read_inv :: "cd_buffer \<Rightarrow> bool" where
  "cd_read_inv b \<longleftrightarrow>
     mReadNextAlloc b = int ALLOC_SIZE \<and> 0 \<le> mReadCurPtr b \<and> mReadCurPtr b \<le> int ALLOC_SIZE \<and>
     cd_get_read_pos b \<le> mSize b \<and>
     (if mReadPoolIdx b = -1 then mReadCurAlloc b = CdNull \<and> mReadCurPtr b = int ALLOC_SIZE
      else 0 \<le> mReadPoolIdx b \<and> mReadPoolIdx b < int (length (mPools b)) \<and>
           mReadCurAlloc b = CdPool (nat (mReadPoolIdx b)))"

definition cd_ok :: "cd_buffer \<Rightarrow> bool" where
  "cd_ok b \<longleftrightarrow> cd_write_inv b \<and> cd_read_inv b"

text \<open>A buffer that reads a block of \<open>n\<close> bytes of the caller.\<close>

definition cd_flat_ok :: "nat \<Rightarrow> cd_buffer \<Rightarrow> bool" where
  "cd_flat_ok n b \<longleftrightarrow>
     (\<exists>bs. mReadCurAlloc b = CdFlat bs \<and> length bs = n \<and> mReadNextAlloc b = int n \<and> mReadPoolIdx b = 0 \<and>
           0 \<le> mReadCurPtr b \<and> mReadCurPtr b \<le> int n)"

text \<open>The bytes still to be read.\<close>

definition cd_unread :: "cd_buffer \<Rightarrow> u8 list" where
  "cd_unread b =
     (case mReadCurAlloc b of CdFlat bs \<Rightarrow> drop (nat (mReadCurPtr b)) bs
                            | _ \<Rightarrow> drop (nat (cd_get_read_pos b)) (cd_bytes b))"

lemma cd_flat_pos: "cd_flat_ok n b \<Longrightarrow> cd_get_read_pos b = int n - int (length (cd_unread b))"
  by (auto simp: cd_flat_ok_def cd_get_read_pos_def cd_unread_def)

section \<open>Writing\<close>

lemma length_concat_same: "(\<forall>p \<in> set ps. length p = n) \<Longrightarrow> length (concat ps) = length ps * n"
  by (induction ps) auto

lemma cd_bytes_snoc:
  assumes "cd_write_inv b" "mPools b = ps @ [p]"
  shows "cd_bytes b = concat ps @ take (mWriteCurPtr b) p"
  using assms length_concat_same [of ps ALLOC_SIZE]
  by (auto simp: cd_bytes_def cd_write_inv_def nat_add_distrib nat_mult_distrib)

lemma length_cd_bytes:
  assumes "cd_write_inv b"
  shows "int (length (cd_bytes b)) = mSize b"
proof (cases "mPools b" rule: rev_cases)
  case Nil
  with assms show ?thesis by (simp add: cd_bytes_def cd_write_inv_def)
next
  case (snoc ps p)
  with assms cd_bytes_snoc [OF assms snoc] length_concat_same [of ps ALLOC_SIZE]
  show ?thesis by (auto simp: cd_write_inv_def)
qed

text \<open>What a write leaves alone.\<close>

definition same_reader :: "cd_buffer \<Rightarrow> cd_buffer \<Rightarrow> bool" where
  "same_reader b b' \<longleftrightarrow> mReadCurAlloc b' = mReadCurAlloc b \<and> mReadCurPtr b' = mReadCurPtr b \<and>
     mReadNextAlloc b' = mReadNextAlloc b \<and> mReadPoolIdx b' = mReadPoolIdx b \<and>
     length (mPools b) \<le> length (mPools b')"

lemma same_reader_trans: "same_reader a b \<Longrightarrow> same_reader b c \<Longrightarrow> same_reader a c"
  by (auto simp: same_reader_def)

lemma same_reader_refl [simp]: "same_reader b b"
  by (simp add: same_reader_def)

definition appends :: "cd_buffer \<Rightarrow> u8 list \<Rightarrow> cd_buffer \<Rightarrow> bool" where
  "appends b bs b' \<longleftrightarrow> cd_write_inv b' \<and> same_reader b b' \<and> cd_bytes b' = cd_bytes b @ bs"

lemma appends_trans: "appends a bs b \<Longrightarrow> appends b cs c \<Longrightarrow> appends a (bs @ cs) c"
  by (auto simp: appends_def intro: same_reader_trans)

lemma appends_nil: "cd_write_inv b \<Longrightarrow> appends b [] b"
  by (simp add: appends_def)

lemma grow_pool_appends:
  assumes "cd_write_inv b" "mWriteCurPtr b = ALLOC_SIZE"
  shows "appends b [] (cd_grow_pool b)"
proof (cases "mPools b" rule: rev_cases)
  case Nil
  with assms show ?thesis
    by (simp add: appends_def cd_write_inv_def cd_grow_pool_def same_reader_def cd_bytes_def)
next
  case (snoc ps p)
  have inv: "cd_write_inv (cd_grow_pool b)"
    using assms snoc by (auto simp: cd_write_inv_def cd_grow_pool_def)
  have "cd_bytes (cd_grow_pool b) = concat (mPools b)"
    using cd_bytes_snoc [OF inv, of "mPools b"] by (simp add: cd_grow_pool_def)
  moreover have "length p = ALLOC_SIZE" using assms snoc by (simp add: cd_write_inv_def)
  ultimately show ?thesis
    using inv cd_bytes_snoc [OF assms(1) snoc] assms(2) snoc
    by (simp add: appends_def same_reader_def cd_grow_pool_def)
qed

lemma cd_poke_last:
  assumes "mPools b = ps @ [p]" "mWriteCurAlloc b = CdPool (length ps)"
    "mWriteCurPtr b + length bs \<le> length p" "bs \<noteq> []"
  shows "cd_poke bs b = Some (b\<lparr>mPools := ps @ [take (mWriteCurPtr b) p @ bs @
                                             drop (mWriteCurPtr b + length bs) p]\<rparr>)"
  unfolding cd_poke_def using assms(3,4) by (simp only: assms(1,2) cd_alloc.case if_False) simp

lemma put_appends:
  assumes inv: "cd_write_inv b" and fits: "mWriteCurPtr b + length bs \<le> ALLOC_SIZE"
  shows "\<exists>b'. cd_put bs b = Some b' \<and> appends b bs b' \<and> mWriteCurPtr b' = mWriteCurPtr b + length bs"
proof (cases "bs = []")
  case True
  then have "cd_put bs b = Some b" by (cases b) (simp add: cd_put_def cd_poke_def)
  moreover have "appends b bs b" using True appends_nil [OF inv] by simp
  ultimately show ?thesis using True by (intro exI [of _ b]) simp
next
  case False
  with inv fits obtain ps p where ps: "mPools b = ps @ [p]"
    by (cases "mPools b" rule: rev_cases) (auto simp: cd_write_inv_def)
  let ?w = "mWriteCurPtr b"
  let ?b' = "b\<lparr>mPools := ps @ [take ?w p @ bs @ drop (?w + length bs) p],
               mWriteCurPtr := ?w + length bs, mSize := mSize b + int (length bs)\<rparr>"
  have l: "length p = ALLOC_SIZE" and a: "mWriteCurAlloc b = CdPool (length ps)"
    and sz: "mSize b = int (length ps * ALLOC_SIZE + ?w)" and all: "\<forall>q \<in> set ps. length q = ALLOC_SIZE"
    using inv ps by (simp_all add: cd_write_inv_def)
  have "cd_poke bs b = Some (b\<lparr>mPools := ps @ [take ?w p @ bs @ drop (?w + length bs) p]\<rparr>)"
    using cd_poke_last [OF ps a] l fits False by metis
  then have put: "cd_put bs b = Some ?b'" by (simp add: cd_put_def)
  have inv': "cd_write_inv ?b'"
    using all l fits a sz by (simp add: cd_write_inv_def)
  have "cd_bytes ?b' = concat ps @ take (?w + length bs) (take ?w p @ bs @ drop (?w + length bs) p)"
    using cd_bytes_snoc [OF inv', of ps] by simp
  also have "\<dots> = cd_bytes b @ bs"
    using cd_bytes_snoc [OF inv ps] l fits by simp
  finally have "appends b bs ?b'" using inv' ps by (simp add: appends_def same_reader_def)
  then show ?thesis using put by (intro exI [of _ ?b']) simp
qed

lemma write_fill_appends:
  "cd_write_inv b \<Longrightarrow>
     \<exists>dn rest b'. bs = dn @ rest \<and> cd_write_fill bs b = Some (rest, b') \<and> appends b dn b' \<and>
       mWriteCurPtr b' + length rest \<le> ALLOC_SIZE"
proof (induction bs b rule: cd_write_fill.induct)
  case (1 bs b)
  show ?case
  proof (cases "ALLOC_SIZE \<le> mWriteCurPtr b + length bs")
    case False
    then show ?thesis
      using "1.prems" by (intro exI [of _ "[]"] exI [of _ bs] exI [of _ b]) (simp add: cd_write_fill.simps appends_nil)
  next
    case True
    let ?cur = "ALLOC_SIZE - mWriteCurPtr b"
    have w: "mWriteCurPtr b \<le> ALLOC_SIZE" using "1.prems" by (simp add: cd_write_inv_def)
    have lt: "length (take ?cur bs) = ?cur" using True w by simp
    obtain b1 where put: "cd_put (take ?cur bs) b = Some b1" and a1: "appends b (take ?cur bs) b1"
      and w1: "mWriteCurPtr b1 = ALLOC_SIZE"
      using put_appends [OF "1.prems", of "take ?cur bs"] w lt by auto
    obtain p where p: "cd_poke (take ?cur bs) b = Some p"
      and b1: "b1 = p\<lparr>mWriteCurPtr := mWriteCurPtr p + ?cur, mSize := mSize p + int ?cur\<rparr>"
      using put lt by (auto simp: cd_put_def split: Option.bind_splits)
    let ?b2 = "(cd_grow_pool p)\<lparr>mSize := mSize p + int ?cur\<rparr>"
    have b2: "?b2 = cd_grow_pool b1" by (simp add: b1 cd_grow_pool_def)
    have a2: "appends b (take ?cur bs) ?b2"
      using appends_trans [OF a1 grow_pool_appends [of b1]] a1 w1 by (simp add: b2 appends_def)
    have w2: "mWriteCurPtr ?b2 = 0" by (simp add: cd_grow_pool_def)
    show ?thesis
    proof (cases "drop ?cur bs = []")
      case d: True
      then have "cd_write_fill bs b = Some ([], ?b2)"
        using True p by (subst cd_write_fill.simps) (simp add: Let_def)
      moreover have "bs = take ?cur bs @ []" using d by simp
      ultimately show ?thesis using a2 w2
        by (intro exI [of _ "take ?cur bs"] exI [of _ "[]"] exI [of _ ?b2]) simp
    next
      case d: False
      obtain dn rest b' where ih: "drop ?cur bs = dn @ rest" "cd_write_fill (drop ?cur bs) ?b2 = Some (rest, b')"
        "appends ?b2 dn b'" "mWriteCurPtr b' + length rest \<le> ALLOC_SIZE"
        using "1.IH" [OF True refl p refl d] a2 by (auto simp: appends_def)
      have "cd_write_fill bs b = Some (rest, b')"
        using True p d ih(2) by (subst cd_write_fill.simps) (simp add: Let_def)
      moreover have "bs = (take ?cur bs @ dn) @ rest"
        using append_take_drop_id [of ?cur bs] ih(1) by simp
      ultimately show ?thesis using appends_trans [OF a2 ih(3)] ih(4) by blast
    qed
  qed
qed

lemma write_appends:
  assumes "cd_write_inv b"
  shows "\<exists>b'. cd_write bs b = Some b' \<and> appends b bs b'"
proof -
  obtain dn rest b1 where f: "bs = dn @ rest" "cd_write_fill bs b = Some (rest, b1)" "appends b dn b1"
    "mWriteCurPtr b1 + length rest \<le> ALLOC_SIZE"
    using write_fill_appends [OF assms] by blast
  moreover obtain b' where "cd_put rest b1 = Some b'" "appends b1 rest b'"
    using put_appends [of b1 rest] f(3,4) by (auto simp: appends_def)
  ultimately show ?thesis using appends_trans by (auto simp: cd_write_def)
qed

lemma write_byte_appends:
  assumes "cd_write_inv b"
  shows "\<exists>b'. cd_write_byte v b = Some b' \<and> appends b [v] b'"
proof (cases "mWriteCurPtr b = ALLOC_SIZE")
  case True
  have g: "appends b [] (cd_grow_pool b)" by (rule grow_pool_appends [OF assms True])
  then obtain b' where "cd_put [v] (cd_grow_pool b) = Some b'" "appends (cd_grow_pool b) [v] b'"
    using put_appends [of "cd_grow_pool b" "[v]"] by (auto simp: appends_def cd_grow_pool_def ALLOC_SIZE_def)
  then show ?thesis using True appends_trans [OF g] by (auto simp: cd_write_byte_def)
next
  case False
  with assms have "mWriteCurPtr b + length [v] \<le> ALLOC_SIZE" by (auto simp: cd_write_inv_def)
  from put_appends [OF assms this] False show ?thesis by (auto simp: cd_write_byte_def)
qed

lemma write_n_appends:
  assumes "cd_write_inv b"
  shows "\<exists>b'. cd_write_n n v b = Some b' \<and> appends b (le_bytes n v) b'"
proof (cases "ALLOC_SIZE < mWriteCurPtr b + n")
  case True
  then show ?thesis using write_appends [OF assms] by (simp add: cd_write_n_def)
next
  case False
  then show ?thesis using put_appends [OF assms, of "le_bytes n v"] by (auto simp: cd_write_n_def)
qed

text \<open>
  \<open>Write_3\<close> appends the three low bytes of its value, except when exactly three bytes are left in the chunk: then
  its store of four bytes runs past the end of the chunk.
\<close>

theorem write_3_overruns:
  assumes inv: "cd_write_inv b"
  shows "if mWriteCurPtr b + 3 = ALLOC_SIZE then cd_write_3 v b = None
         else \<exists>b'. cd_write_3 v b = Some b' \<and> appends b (le_bytes 3 (uint v)) b'"
proof (cases "ALLOC_SIZE \<le> mWriteCurPtr b + 3")
  case full: True
  show ?thesis
  proof (cases "mWriteCurPtr b + 3 = ALLOC_SIZE")
    case True
    then obtain ps p where "mPools b = ps @ [p]" "mWriteCurAlloc b = CdPool (length ps)" "length p = ALLOC_SIZE"
      using inv by (cases "mPools b" rule: rev_cases) (auto simp: cd_write_inv_def)
    with True have "cd_poke (le_bytes 4 (uint v)) b = None"
      by (simp add: cd_poke_def del: le_bytes.simps flip: length_greater_0_conv)
    with True show ?thesis by (simp add: cd_write_3_def)
  next
    case False
    with full write_appends [OF inv] show ?thesis by (simp add: cd_write_3_def)
  qed
next
  case False
  let ?w = "mWriteCurPtr b" and ?l = "le_bytes 4 (uint v)"
  from inv False obtain ps p where ps: "mPools b = ps @ [p]"
    by (cases "mPools b" rule: rev_cases) (auto simp: cd_write_inv_def)
  have l: "length p = ALLOC_SIZE" and a: "mWriteCurAlloc b = CdPool (length ps)"
    and sz: "mSize b = int (length ps * ALLOC_SIZE + ?w)" and all: "\<forall>q \<in> set ps. length q = ALLOC_SIZE"
    using inv ps by (simp_all add: cd_write_inv_def)
  let ?b' = "b\<lparr>mPools := ps @ [take ?w p @ ?l @ drop (?w + length ?l) p], mWriteCurPtr := ?w + 3, mSize := mSize b + 3\<rparr>"
  have "?l \<noteq> []" by (simp flip: length_greater_0_conv)
  then have "cd_poke ?l b = Some (b\<lparr>mPools := ps @ [take ?w p @ ?l @ drop (?w + length ?l) p]\<rparr>)"
    using cd_poke_last [OF ps a, of ?l] l False by simp
  then have w: "cd_write_3 v b = Some ?b'" using False by (simp add: cd_write_3_def)
  have inv': "cd_write_inv ?b'"
    using all l False a sz by (simp add: cd_write_inv_def)
  have "take 3 ?l = le_bytes 3 (uint v)" by (simp add: eval_nat_numeral)
  then have "cd_bytes ?b' = cd_bytes b @ le_bytes 3 (uint v)"
    using cd_bytes_snoc [OF inv', of ps] cd_bytes_snoc [OF inv ps] l False by simp
  then have "appends b (le_bytes 3 (uint v)) ?b'" using inv' ps by (simp add: appends_def same_reader_def)
  then show ?thesis using w False by auto
qed

section \<open>Reading\<close>

lemma drop_take_concat:
  assumes "\<forall>p \<in> set ps. length p = n" "i < length ps" "k + m \<le> n"
  shows "take m (drop k (ps ! i)) = take m (drop (i * n + k) (concat ps))"
  using assms
proof (induction ps arbitrary: i)
  case (Cons p ps)
  show ?case
  proof (cases i)
    case 0
    then show ?thesis using Cons.prems by simp
  next
    case (Suc j)
    then show ?thesis using Cons by simp
  qed
qed simp

lemma unread_pool:
  "cd_ok b \<Longrightarrow> cd_unread b = drop (nat (cd_get_read_pos b)) (cd_bytes b)"
  by (auto simp: cd_unread_def cd_ok_def cd_read_inv_def split: if_splits)

lemma read_pos_nonneg: "cd_read_inv b \<Longrightarrow> 0 \<le> cd_get_read_pos b"
  by (auto simp: cd_read_inv_def cd_get_read_pos_def split: if_splits)

lemma take_pool:
  assumes ok: "cd_ok b" and u: "cd_unread b = bs @ rest" and fits: "mReadCurPtr b + int (length bs) \<le> int ALLOC_SIZE"
  shows "\<exists>b'. cd_take (length bs) b = Some (bs, b') \<and> cd_ok b' \<and> cd_unread b' = rest \<and>
           mPools b' = mPools b \<and> mSize b' = mSize b \<and> mReadPoolIdx b' = mReadPoolIdx b \<and>
           mReadCurPtr b' = mReadCurPtr b + int (length bs)"
proof -
  let ?n = "length bs" and ?b' = "b\<lparr>mReadCurPtr := mReadCurPtr b + int (length bs)\<rparr>"
  let ?pos = "cd_get_read_pos b"
  have inv: "cd_write_inv b" "cd_read_inv b" using ok by (auto simp: cd_ok_def)
  have pos0: "0 \<le> ?pos" by (rule read_pos_nonneg [OF inv(2)])
  have pos': "cd_get_read_pos ?b' = ?pos + int ?n" by (simp add: cd_get_read_pos_def)
  have d: "drop (nat ?pos) (cd_bytes b) = bs @ rest" using unread_pool [OF ok] u by simp
  have "?n \<le> length (cd_bytes b) - nat ?pos" using arg_cong [OF d, of length] by simp
  then have le: "?pos + int ?n \<le> mSize b"
    using length_cd_bytes [OF inv(1)] pos0 inv(2) by (auto simp: cd_read_inv_def)
  have peek: "cd_peek ?n b = Some bs"
  proof (cases "bs = []")
    case True
    then show ?thesis by (simp add: cd_peek_def)
  next
    case False
    then have idx: "mReadPoolIdx b \<noteq> -1" using inv(2) fits by (auto simp: cd_read_inv_def)
    let ?i = "nat (mReadPoolIdx b)" and ?k = "nat (mReadCurPtr b)"
    have r: "0 \<le> mReadPoolIdx b" "?i < length (mPools b)" "mReadCurAlloc b = CdPool ?i" "0 \<le> mReadCurPtr b"
      using inv(2) idx by (auto simp: cd_read_inv_def)
    have pk: "nat ?pos = ?i * ALLOC_SIZE + ?k"
      using r by (simp add: cd_get_read_pos_def nat_add_distrib nat_mult_distrib)
    have len: "\<forall>p \<in> set (mPools b). length p = ALLOC_SIZE" using inv(1) by (simp add: cd_write_inv_def)
    have "bs = take ?n (drop (nat ?pos) (cd_bytes b))" using d by simp
    also have "\<dots> = take ?n (drop (nat ?pos) (concat (mPools b)))"
      using le pos0 by (simp add: cd_bytes_def drop_take nat_diff_distrib' [symmetric])
    also have "\<dots> = take ?n (drop ?k (mPools b ! ?i))"
      unfolding pk by (rule drop_take_concat [symmetric, OF len r(2)]) (use fits r(4) in linarith)
    finally have "take ?n (drop ?k (mPools b ! ?i)) = bs" by simp
    then show ?thesis using r len fits by (simp add: cd_peek_def cd_chunk_def slice_def)
  qed
  have ok': "cd_ok ?b'"
    using inv le fits by (auto simp: cd_ok_def cd_read_inv_def cd_write_inv_def pos' cd_get_read_pos_def)
  have "cd_unread ?b' = drop (nat (?pos + int ?n)) (cd_bytes b)"
    by (simp add: unread_pool [OF ok'] pos' cd_bytes_def)
  also have "\<dots> = rest"
    using arg_cong [OF d, of "drop ?n"] pos0 by (simp add: nat_add_distrib add.commute)
  finally show ?thesis using peek ok' by (simp add: cd_take_def)
qed

lemma next_pool:
  assumes ok: "cd_ok b" and e: "mReadCurPtr b = int ALLOC_SIZE" and u: "cd_unread b \<noteq> []"
  shows "\<exists>b'. cd_next_read_pool b = Some b' \<and> cd_ok b' \<and> cd_unread b' = cd_unread b \<and>
           mPools b' = mPools b \<and> mReadPoolIdx b' = mReadPoolIdx b + 1 \<and> mReadCurPtr b' = 0"
proof -
  let ?i = "mReadPoolIdx b + 1"
  let ?b' = "b\<lparr>mReadPoolIdx := ?i, mReadCurAlloc := CdPool (nat ?i), mReadCurPtr := 0,
               mReadNextAlloc := int ALLOC_SIZE\<rparr>"
  have inv: "cd_write_inv b" "cd_read_inv b" using ok by (auto simp: cd_ok_def)
  have pos: "cd_get_read_pos b = ?i * int ALLOC_SIZE" by (simp add: cd_get_read_pos_def e algebra_simps)
  have pos': "cd_get_read_pos ?b' = cd_get_read_pos b" by (simp add: pos) (simp add: cd_get_read_pos_def)
  have i0: "0 \<le> ?i" using inv(2) by (auto simp: cd_read_inv_def split: if_splits)
  have "cd_get_read_pos b < mSize b"
    using u unread_pool [OF ok] length_cd_bytes [OF inv(1)] read_pos_nonneg [OF inv(2)] by auto
  moreover have "mSize b \<le> int (length (mPools b)) * int ALLOC_SIZE"
  proof (cases "mPools b")
    case Nil
    then show ?thesis using inv(1) by (simp add: cd_write_inv_def)
  next
    case (Cons p ps)
    then show ?thesis using inv(1) by (simp add: cd_write_inv_def algebra_simps)
  qed
  ultimately have "?i * int ALLOC_SIZE < int (length (mPools b)) * int ALLOC_SIZE" using pos by simp
  then have lt: "?i < int (length (mPools b))" by (simp add: ALLOC_SIZE_def)
  have ok': "cd_ok ?b'"
    using inv i0 lt pos' by (auto simp: cd_ok_def cd_read_inv_def cd_write_inv_def)
  moreover have "cd_unread ?b' = cd_unread b"
    using unread_pool [OF ok'] unread_pool [OF ok] pos' by (simp add: cd_bytes_def)
  ultimately show ?thesis using i0 lt by (simp add: cd_next_read_pool_def cd_at_pool_def)
qed

lemma read_pool:
  "cd_ok b \<Longrightarrow> cd_unread b = bs @ rest \<Longrightarrow>
     \<exists>b'. cd_read (length bs) b = Some (bs, b') \<and> cd_ok b' \<and> cd_unread b' = rest"
proof (induction "length bs" b arbitrary: bs rule: cd_read.induct)
  case (1 b)
  have next_alloc: "mReadNextAlloc b = int ALLOC_SIZE"
    and ptr: "0 \<le> mReadCurPtr b" "mReadCurPtr b \<le> int ALLOC_SIZE"
    using "1.prems"(1) by (auto simp: cd_ok_def cd_read_inv_def)
  show ?case
  proof (cases "mReadNextAlloc b < mReadCurPtr b + int (length bs)")
    case False
    then show ?thesis
      using take_pool [OF "1.prems"] next_alloc by (subst cd_read.simps) auto
  next
    case True
    let ?cur = "nat (mReadNextAlloc b - mReadCurPtr b)"
    have cur: "mReadCurPtr b + int ?cur = int ALLOC_SIZE" "?cur < length bs"
      using True next_alloc ptr by auto
    let ?hd = "take ?cur bs" and ?tl = "drop ?cur bs"
    have l: "length ?hd = ?cur" using cur by simp
    have u: "cd_unread b = ?hd @ (?tl @ rest)" using "1.prems"(2) by simp
    obtain b0 where b0: "cd_take ?cur b = Some (?hd, b0)" "cd_ok b0" "cd_unread b0 = ?tl @ rest"
      "mReadCurPtr b0 = int ALLOC_SIZE"
      and eq: "b0 = b\<lparr>mReadCurPtr := mReadCurPtr b + int ?cur\<rparr>"
      using take_pool [OF "1.prems"(1) u] cur l by (auto simp: cd_take_def split: Option.bind_splits)
    have peek: "cd_peek ?cur b = Some ?hd" using b0(1) by (auto simp: cd_take_def split: Option.bind_splits)
    obtain b1 where b1: "cd_next_read_pool b0 = Some b1" "cd_ok b1" "cd_unread b1 = ?tl @ rest"
      using next_pool [OF b0(2,4)] b0(3) cur by auto
    have nx: "cd_next_read_pool b = Some b1"
      using b1(1) by (simp add: eq cd_next_read_pool_def cd_at_pool_def split: Option.bind_splits if_splits)
    obtain b2 where b2: "cd_read (length ?tl) b1 = Some (?tl, b2)" "cd_ok b2" "cd_unread b2 = rest"
      using "1.hyps" [OF True refl peek nx, of ?tl] b1 by auto
    have "cd_read (length bs) b = Some (?hd @ ?tl, b2)"
      using True peek nx b2(1) by (subst cd_read.simps) (simp add: Let_def)
    then show ?thesis using b2 by simp
  qed
qed

lemma read_byte_pool:
  assumes "cd_ok b" "cd_unread b = v # rest"
  shows "\<exists>b'. cd_read_byte b = Some (v, b') \<and> cd_ok b' \<and> cd_unread b' = rest"
proof (cases "mReadCurPtr b = mReadNextAlloc b")
  case True
  then have "mReadCurPtr b = int ALLOC_SIZE" using assms(1) by (simp add: cd_ok_def cd_read_inv_def)
  then obtain b1 where b1: "cd_next_read_pool b = Some b1" "cd_ok b1" "cd_unread b1 = v # rest" "mReadCurPtr b1 = 0"
    using next_pool [OF assms(1)] assms(2) by auto
  then show ?thesis
    using take_pool [of b1 "[v]" rest] True by (auto simp: cd_read_byte_def ALLOC_SIZE_def)
next
  case False
  then have "mReadCurPtr b + int (length [v]) \<le> int ALLOC_SIZE"
    using assms(1) by (auto simp: cd_ok_def cd_read_inv_def)
  then show ?thesis using take_pool [of b "[v]" rest] assms False by (auto simp: cd_read_byte_def)
qed

lemma take_flat:
  assumes "cd_flat_ok n b" "cd_unread b = bs @ rest"
  shows "mReadCurPtr b + int (length bs) \<le> mReadNextAlloc b"
    and "\<exists>b'. cd_take (length bs) b = Some (bs, b') \<and> cd_flat_ok n b' \<and> cd_unread b' = rest"
proof -
  obtain xs where xs: "mReadCurAlloc b = CdFlat xs" "mReadNextAlloc b = int (length xs)" "mReadPoolIdx b = 0"
    "length xs = n" "0 \<le> mReadCurPtr b" "mReadCurPtr b \<le> int (length xs)"
    using assms(1) by (auto simp: cd_flat_ok_def)
  have d: "drop (nat (mReadCurPtr b)) xs = bs @ rest" using assms(2) xs by (simp add: cd_unread_def)
  have le: "mReadCurPtr b + int (length bs) \<le> int (length xs)" using arg_cong [OF d, of length] xs by simp
  then show "mReadCurPtr b + int (length bs) \<le> mReadNextAlloc b" using xs by simp
  have "drop (nat (mReadCurPtr b + int (length bs))) xs = rest"
    using arg_cong [OF d, of "drop (length bs)"] xs by (simp add: nat_add_distrib add.commute)
  then show "\<exists>b'. cd_take (length bs) b = Some (bs, b') \<and> cd_flat_ok n b' \<and> cd_unread b' = rest"
    using xs le d by (auto simp: cd_take_def cd_peek_def cd_chunk_def slice_def cd_flat_ok_def cd_unread_def)
qed

lemma read_flat:
  assumes "cd_flat_ok n b" "cd_unread b = bs @ rest"
  shows "\<exists>b'. cd_read (length bs) b = Some (bs, b') \<and> cd_flat_ok n b' \<and> cd_unread b' = rest"
  using take_flat [OF assms] by (subst cd_read.simps) auto

lemma read_byte_flat:
  assumes "cd_flat_ok n b" "cd_unread b = v # rest"
  shows "\<exists>b'. cd_read_byte b = Some (v, b') \<and> cd_flat_ok n b' \<and> cd_unread b' = rest"
  using take_flat [of n b "[v]" rest] assms by (auto simp: cd_read_byte_def)

section \<open>Interfaces\<close>

text \<open>
  A source of bytes: a state of the buffer from which \<open>Read\<close> takes the next unread bytes.  A sink: a
  state to which \<open>Write\<close> appends bytes.  A queue gives the bytes back that are appended to it.
\<close>

locale byte_source =
  fixes ok :: "cd_buffer \<Rightarrow> bool" and unread :: "cd_buffer \<Rightarrow> u8 list"
  assumes read_byte: "ok b \<Longrightarrow> unread b = v # rest \<Longrightarrow>
      \<exists>b'. cd_read_byte b = Some (v, b') \<and> ok b' \<and> unread b' = rest"
    and read_bytes: "ok b \<Longrightarrow> unread b = bs @ rest \<Longrightarrow>
      \<exists>b'. cd_read (length bs) b = Some (bs, b') \<and> ok b' \<and> unread b' = rest"

locale byte_sink =
  fixes ok :: "cd_buffer \<Rightarrow> bool" and unread :: "cd_buffer \<Rightarrow> u8 list"
  assumes write_byte: "ok b \<Longrightarrow> \<exists>b'. cd_write_byte v b = Some b' \<and> ok b' \<and> unread b' = unread b @ [v]"
    and write_bytes: "ok b \<Longrightarrow> \<exists>b'. cd_write bs b = Some b' \<and> ok b' \<and> unread b' = unread b @ bs"
    and write_n: "ok b \<Longrightarrow> \<exists>b'. cd_write_n n w b = Some b' \<and> ok b' \<and> unread b' = unread b @ le_bytes n w"

locale byte_queue = byte_source + byte_sink

lemma appends_queue:
  assumes "cd_ok b" "appends b bs b'"
  shows "cd_ok b' \<and> cd_unread b' = cd_unread b @ bs"
proof -
  have w: "cd_write_inv b" "cd_write_inv b'" and r: "cd_read_inv b" and s: "same_reader b b'"
    and c: "cd_bytes b' = cd_bytes b @ bs"
    using assms by (auto simp: cd_ok_def appends_def)
  have p: "cd_get_read_pos b' = cd_get_read_pos b" using s by (simp add: same_reader_def cd_get_read_pos_def)
  have "mSize b' = mSize b + int (length bs)"
    using length_cd_bytes [OF w(1)] length_cd_bytes [OF w(2)] c by simp
  then have sz: "mSize b \<le> mSize b'" by simp
  have f: "mReadCurAlloc b' = mReadCurAlloc b" "mReadCurPtr b' = mReadCurPtr b"
    "mReadNextAlloc b' = mReadNextAlloc b" "mReadPoolIdx b' = mReadPoolIdx b"
    and l: "length (mPools b) \<le> length (mPools b')"
    using s by (simp_all add: same_reader_def)
  have "cd_read_inv b'"
    using r sz l unfolding cd_read_inv_def p f by (cases "mReadPoolIdx b = -1") simp_all
  then have ok': "cd_ok b'" using w(2) by (simp add: cd_ok_def)
  have "nat (cd_get_read_pos b) \<le> length (cd_bytes b)"
    using length_cd_bytes [OF w(1)] r by (auto simp: cd_read_inv_def)
  then show ?thesis using ok' unread_pool [OF assms(1)] unread_pool [OF ok'] p c by simp
qed

interpretation cd_queue: byte_queue cd_ok cd_unread
proof unfold_locales
  fix b v rest assume "cd_ok b" "cd_unread b = v # rest"
  then show "\<exists>b'. cd_read_byte b = Some (v, b') \<and> cd_ok b' \<and> cd_unread b' = rest" by (rule read_byte_pool)
next
  fix b bs rest assume "cd_ok b" "cd_unread b = bs @ rest"
  then show "\<exists>b'. cd_read (length bs) b = Some (bs, b') \<and> cd_ok b' \<and> cd_unread b' = rest" by (rule read_pool)
next
  fix b v assume "cd_ok b"
  then show "\<exists>b'. cd_write_byte v b = Some b' \<and> cd_ok b' \<and> cd_unread b' = cd_unread b @ [v]"
    using write_byte_appends [of b v] appends_queue [OF \<open>cd_ok b\<close>] unfolding cd_ok_def by blast
next
  fix b bs assume "cd_ok b"
  then show "\<exists>b'. cd_write bs b = Some b' \<and> cd_ok b' \<and> cd_unread b' = cd_unread b @ bs"
    using write_appends [of b bs] appends_queue [OF \<open>cd_ok b\<close>] unfolding cd_ok_def by blast
next
  fix b n w assume "cd_ok b"
  then show "\<exists>b'. cd_write_n n w b = Some b' \<and> cd_ok b' \<and> cd_unread b' = cd_unread b @ le_bytes n w"
    using write_n_appends [of b n w] appends_queue [OF \<open>cd_ok b\<close>] unfolding cd_ok_def by blast
qed

interpretation cd_flat: byte_source "cd_flat_ok n" cd_unread for n
  by unfold_locales (fact read_byte_flat, fact read_flat)

text \<open>As a log of all that was written, a buffer is a sink wherever it reads.\<close>

interpretation cd_log: byte_sink cd_write_inv cd_bytes
proof unfold_locales
  fix b v assume "cd_write_inv b"
  then show "\<exists>b'. cd_write_byte v b = Some b' \<and> cd_write_inv b' \<and> cd_bytes b' = cd_bytes b @ [v]"
    using write_byte_appends [of b v] unfolding appends_def by blast
next
  fix b bs assume "cd_write_inv b"
  then show "\<exists>b'. cd_write bs b = Some b' \<and> cd_write_inv b' \<and> cd_bytes b' = cd_bytes b @ bs"
    using write_appends [of b bs] unfolding appends_def by blast
next
  fix b n w assume "cd_write_inv b"
  then show "\<exists>b'. cd_write_n n w b = Some b' \<and> cd_write_inv b' \<and> cd_bytes b' = cd_bytes b @ le_bytes n w"
    using write_n_appends [of b n w] unfolding appends_def by blast
qed

section \<open>Variable-length integers\<close>

text \<open>The encoding as a function of the integer.\<close>

function sleb :: "int \<Rightarrow> u8 list" where
  "sleb v = (if -64 \<le> v \<and> v < 64 then [word_of_int (v mod 128)]
             else word_of_int (v mod 128 + 128) # sleb (v div 128))"
  by pat_completeness auto
termination by (relation "measure (\<lambda>v. nat (if 0 \<le> v then v else - v - 1))") auto

declare sleb.simps [simp del]

lemma and_7F: "(v::int) AND 0x7F = v mod 128"
  using take_bit_eq_mask [of 7 v] by (simp add: mask_eq_exp_minus_1 take_bit_eq_mod)

lemma bit6_mod: "(0::int) \<le> c \<Longrightarrow> c < 128 \<Longrightarrow> c AND 0x40 = 0 \<longleftrightarrow> c < 64"
proof -
  assume c: "0 \<le> c" "c < 128"
  have "c AND 0x40 = 0 \<longleftrightarrow> even (c div 64)"
    using and_exp_eq_0_iff_not_bit [of c 6] by (simp add: bit_iff_odd)
  moreover have "c div 64 = (if c < 64 then 0 else 1)"
    using c by presburger
  ultimately show ?thesis by simp
qed

lemma or_80: "(0::int) \<le> c \<Longrightarrow> c < 128 \<Longrightarrow> c OR 0x80 = c + 128"
proof -
  assume "0 \<le> c" "c < 128"
  then have "c AND 0x80 = 0"
    using and_exp_eq_0_iff_not_bit [of c 7] by (simp add: bit_iff_odd)
  then show ?thesis by (simp add: disjunctive_add_eq_or)
qed

end
