(* ===== verification/Beef_Sleb.thy ===== *)
theory Beef_Sleb
  imports Beef_Stream_Spec
begin

text \<open>
  The variable-length integers of the command stream: the encoder of \<open>BfIRBuilder\<close> writes the
  bytes \<open>sleb v\<close>, and the decoder of \<open>BeIRCodeGen\<close> gets \<open>v\<close> back from them, on every source of
  bytes.  Then the properties of the stream as a whole.
\<close>

unbundle bit_operations_syntax

section \<open>Encoding\<close>

lemma mod_128_bounds: "0 \<le> v mod 128" "v mod 128 < (128::int)"
  by simp_all

lemma sleb_stop:
  "(v div 128 = 0 \<and> v mod 128 AND 0x40 = 0 \<or> v div 128 = -1 \<and> v mod 128 AND 0x40 \<noteq> (0::int))
     \<longleftrightarrow> -64 \<le> v \<and> v < 64"
proof -
  define q r where "q = v div 128" and "r = v mod 128"
  have v: "v = 128 * q + r" and r: "0 \<le> r" "r < 128" by (simp_all add: q_def r_def)
  show ?thesis
    unfolding bit6_mod [OF mod_128_bounds] unfolding q_def [symmetric] r_def [symmetric]
  proof
    assume "q = 0 \<and> r < 64 \<or> q = -1 \<and> \<not> r < 64"
    then show "-64 \<le> v \<and> v < 64" using v r by auto
  next
    assume b: "-64 \<le> v \<and> v < 64"
    then have "-2 < q" "q < 1" using v r by linarith+
    then have "q = 0 \<or> q = -1" by linarith
    then show "q = 0 \<and> r < 64 \<or> q = -1 \<and> \<not> r < 64" using b v by auto
  qed
qed

lemma write_sleb_loop_eq:
  "write_sleb_loop v b =
     (if -64 \<le> v \<and> v < 64 then cd_write_byte (word_of_int (v mod 128)) b
      else case cd_write_byte (word_of_int (v mod 128 + 128)) b of
             None \<Rightarrow> None | Some b1 \<Rightarrow> write_sleb_loop (v div 128) b1)"
proof -
  have pow7: "(2::int) ^ 7 = 128" by simp
  show ?thesis
    by (subst write_sleb_loop.simps, simp only: Let_def pow7 and_7F or_80 [OF mod_128_bounds] sleb_stop)
      (simp split: option.splits)
qed

context byte_sink
begin

lemma write_sleb_loop_ok:
  "ok b \<Longrightarrow> \<exists>b'. write_sleb_loop v b = Some b' \<and> ok b' \<and> unread b' = unread b @ sleb v"
proof (induction v arbitrary: b rule: sleb.induct)
  case (1 v)
  show ?case
  proof (cases "-64 \<le> v \<and> v < 64")
    case True
    obtain b' where "cd_write_byte (word_of_int (v mod 128)) b = Some b'" "ok b'"
      "unread b' = unread b @ [word_of_int (v mod 128)]"
      using write_byte [OF "1.prems"] by blast
    then show ?thesis using True by (simp add: sleb.simps [of v] write_sleb_loop_eq [of v])
  next
    case False
    let ?c = "word_of_int (v mod 128 + 128) :: u8"
    obtain b1 where b1: "cd_write_byte ?c b = Some b1" "ok b1" "unread b1 = unread b @ [?c]"
      using write_byte [OF "1.prems"] by blast
    obtain b' where b': "write_sleb_loop (v div 128) b1 = Some b'" "ok b'"
      "unread b' = unread b1 @ sleb (v div 128)"
      using "1.IH" [OF False b1(2)] by blast
    moreover have "write_sleb_loop v b = write_sleb_loop (v div 128) b1"
      by (simp only: write_sleb_loop_eq [of v] False if_False b1(1) option.case)
    moreover have "sleb v = ?c # sleb (v div 128)"
      by (simp only: sleb.simps [of v] False if_False)
    ultimately show ?thesis using b1(3) by simp
  qed
qed

end

lemma sleb_byte: "(ucast (w :: u64) AND 0x7F :: u8) = word_of_int (sint w mod 128)"
proof -
  have "(ucast w AND 0x7F :: u8) = take_bit 7 (ucast w)"
    using take_bit_eq_mask [of 7 "ucast w :: u8"] by (simp add: mask_eq_exp_minus_1)
  also have "\<dots> = word_of_int (take_bit 7 (sint w))"
    by (rule bit_word_eqI) (auto simp: bit_simps bit_sint_iff)
  also have "take_bit 7 (sint w) = sint w mod 128" by (simp add: take_bit_eq_mod)
  finally show ?thesis .
qed

lemma le_bytes_u16: "le_bytes 2 (uint (x :: u16)) = [ucast x, ucast (drop_bit 8 x)]"
proof -
  have "uint x div 256 = uint (drop_bit 8 x)" by (simp add: drop_bit_eq_div uint_div)
  then show ?thesis by (simp only: numeral_2_eq_2 le_bytes.simps ucast_eq)
qed

lemma sleb_two_bytes:
  fixes w :: u32
  assumes "0x40 \<le> sint w" "sint w \<le> 0x1FFF"
  shows "le_bytes 2 (uint ((ucast (push_bit 1 w) AND 0x7F00) OR (ucast w AND 0x7F) OR 0x80 :: u16)) = sleb (sint w)"
proof -
  define v where "v = sint w"
  have v: "0x40 \<le> v" "v \<le> 0x1FFF" using assms by (simp_all add: v_def)
  let ?x = "(ucast (push_bit 1 w) AND 0x7F00) OR (ucast w AND 0x7F) OR 0x80 :: u16"
  have c1: "(0x7F00 :: u16) = push_bit 8 (mask 7)" and c2: "(0x7F :: u16) = mask 7"
    and c3: "(0x80 :: u16) = push_bit 7 1"
    by (simp_all add: mask_eq_exp_minus_1 push_bit_eq_mult)
  have w: "w = word_of_int v" by (simp add: v_def)
  have "ucast ?x = (word_of_int (take_bit 7 v OR push_bit 7 1) :: u8)"
    unfolding c1 c2 c3 w
    by (rule bit_word_eqI, simp only: bit_simps possible_bit_word) auto
  also have "take_bit 7 v OR push_bit 7 1 = v mod 128 + 128"
    using or_80 [OF mod_128_bounds, of v] by (simp add: take_bit_eq_mod push_bit_eq_mult)
  finally have b0: "ucast ?x = (word_of_int (v mod 128 + 128) :: u8)" .
  have b1: "ucast (drop_bit 8 ?x) = (word_of_int (v div 128) :: u8)"
  proof -
    have "ucast (drop_bit 8 ?x) = (word_of_int (take_bit 7 (drop_bit 7 v)) :: u8)"
      unfolding c1 c2 c3 w
      by (rule bit_word_eqI, simp only: bit_simps possible_bit_word bit_drop_bit_eq o_apply) auto
    also have "take_bit 7 (drop_bit 7 v) = v div 128"
      using v by (simp add: take_bit_eq_mod drop_bit_eq_div)
    finally show ?thesis .
  qed
  have "le_bytes 2 (uint ?x) = [ucast ?x, ucast (drop_bit 8 ?x)]"
    by (rule le_bytes_u16)
  moreover have "sleb v = [word_of_int (v mod 128 + 128), word_of_int (v div 128)]"
  proof -
    have d: "0 \<le> v div 128" "v div 128 < 64" using v by linarith+
    then have "v div 128 mod 128 = v div 128" by (simp add: mod_pos_pos_trivial)
    then show ?thesis using v d by (simp add: sleb.simps [of v] sleb.simps [of "v div 128"])
  qed
  ultimately show ?thesis using b0 b1 v_def by simp
qed

context byte_sink
begin

lemma write_int64:
  assumes "ok b"
  shows "\<exists>b'. WriteSLEB128_int64 w b = Some b' \<and> ok b' \<and> unread b' = unread b @ sleb (sint w)"
proof (cases "-0x40 \<le> sint w \<and> sint w \<le> 0x3F")
  case True
  then show ?thesis
    using write_byte [OF assms, of "word_of_int (sint w mod 128)"]
    by (simp add: WriteSLEB128_int64_def sleb_byte sleb.simps [of "sint w"])
next
  case False
  then show ?thesis
    using write_sleb_loop_ok [OF assms] by (simp only: WriteSLEB128_int64_def if_False)
qed

lemma write_int32:
  assumes "ok b"
  shows "\<exists>b'. WriteSLEB128_int32 w b = Some b' \<and> ok b' \<and> unread b' = unread b @ sleb (sint w)"
proof -
  consider (one) "0 \<le> sint w \<and> sint w \<le> 0x3F" | (two) "0x40 \<le> sint w \<and> sint w \<le> 0x1FFF"
    | (more) "\<not> (0 \<le> sint w \<and> sint w \<le> 0x3F)" "\<not> (0 \<le> sint w \<and> sint w \<le> 0x1FFF)"
    by linarith
  then show ?thesis
  proof cases
    case one
    have "ucast w = (word_of_int (sint w) :: u8)"
      by (rule bit_word_eqI) (auto simp: bit_simps bit_sint_iff)
    with one show ?thesis
      using write_byte [OF assms, of "ucast w"]
      by (simp add: WriteSLEB128_int32_def sleb.simps [of "sint w"])
  next
    case two
    let ?x = "uint ((ucast (push_bit 1 w) AND 0x7F00) OR (ucast w AND 0x7F) OR 0x80 :: u16)"
    have "WriteSLEB128_int32 w b = cd_write_n 2 ?x b"
      using two by (simp add: WriteSLEB128_int32_def cd_write_2_def)
    then show ?thesis
      using write_n [OF assms, of 2 ?x] sleb_two_bytes [of w] two by (simp only:)
  next
    case more
    then show ?thesis
      using write_sleb_loop_ok [OF assms] by (simp only: WriteSLEB128_int32_def if_False)
  qed
qed

end

section \<open>Decoding\<close>

text \<open>One group of the decoder: the new bits are above those already read.\<close>

lemma sleb_group:
  fixes val :: u64
  assumes "take_bit s val = val" "0 \<le> c" "c < 128"
  shows "val OR push_bit s (ucast (word_of_int c AND 0x7F :: u8)) = val + word_of_int (c * 2 ^ s)"
    and "take_bit (s + 7) (val OR push_bit s (ucast (word_of_int c AND 0x7F :: u8))) =
         val OR push_bit s (ucast (word_of_int c AND 0x7F :: u8))"
proof -
  let ?p = "push_bit s (ucast (word_of_int c AND 0x7F :: u8)) :: u64"
  have c7: "take_bit 7 c = c" using assms(2,3) by (simp add: take_bit_int_eq_self)
  have "(word_of_int c AND 0x7F :: u8) = word_of_int c"
    using c7 take_bit_eq_mask [of 7 "word_of_int c :: u8"]
    by (simp add: mask_eq_exp_minus_1 take_bit_of_int flip: of_int_take_bit)
  moreover have "(ucast (word_of_int c :: u8) :: u64) = word_of_int c"
    by (rule word_uint_eqI) (use assms in \<open>simp add: uint_word_of_int unsigned_ucast_eq take_bit_int_eq_self\<close>)
  ultimately have p: "?p = word_of_int (c * 2 ^ s)"
    by (simp add: push_bit_of_int [symmetric] push_bit_eq_mult)
  have lo: "\<not> bit val n" if "s \<le> n" for n
    using that assms(1) by (metis bit_take_bit_iff not_less)
  have "val AND ?p = 0"
    by (rule bit_word_eqI) (use lo in \<open>auto simp: bit_and_iff bit_push_bit_iff\<close>)
  then show "val OR ?p = val + word_of_int (c * 2 ^ s)"
    using p by (simp add: disjunctive_add_eq_or)
  show "take_bit (s + 7) (val OR ?p) = val OR ?p"
  proof (rule bit_word_eqI)
    fix n assume "n < LENGTH(64)"
    have m: "(0x7F :: u8) = mask 7" by (simp add: mask_eq_exp_minus_1)
    have "\<not> bit (word_of_int c AND 0x7F :: u8) (n - s)" if "s + 7 \<le> n"
    proof -
      have "7 \<le> n - s" using that by simp
      then show ?thesis unfolding m by (simp only: bit_and_iff bit_mask_iff) simp
    qed
    then show "bit (take_bit (s + 7) (val OR ?p)) n = bit (val OR ?p) n"
      using lo [of n] by (auto simp: bit_take_bit_iff bit_or_iff bit_push_bit_iff bit_ucast_iff)
  qed
qed

lemma read_sleb_step:
  assumes "s < 64" "cd_read_byte b = Some (byte, b1)"
  shows "read_sleb_loop val s b =
    (if 128 \<le> byte then read_sleb_loop (val OR push_bit s (ucast (byte AND 0x7F))) (s + 7) b1
     else Some (if byte AND 0x40 \<noteq> 0 \<and> s + 7 < 64
                then (val OR push_bit s (ucast (byte AND 0x7F))) OR push_bit (s + 7) (-1)
                else val OR push_bit s (ucast (byte AND 0x7F)), b1))"
  by (subst read_sleb_loop.simps)
    (simp only: assms(2) Let_def option.case prod.case not_le [THEN iffD2, OF assms(1)] if_False)

lemma sleb_low_bits: "(word_of_int (v mod 128 + 128) :: u8) AND 0x7F = word_of_int (v mod 128) AND 0x7F"
proof -
  have m: "(0x7F :: u8) = mask 7" by (simp add: mask_eq_exp_minus_1)
  have t: "take_bit 7 (word_of_int k :: u8) = word_of_int (take_bit 7 k)" for k
    by (rule bit_word_eqI) (auto simp: bit_simps)
  show ?thesis
    unfolding m take_bit_eq_mask [symmetric] t by (simp add: take_bit_eq_mod)
qed

lemma sleb_sign:
  assumes "-64 \<le> v" "v < 64"
  shows "(word_of_int (v mod 128) :: u8) AND 0x40 \<noteq> 0 \<longleftrightarrow> v < 0"
proof -
  have "(word_of_int (v mod 128) :: u8) AND 0x40 \<noteq> 0 \<longleftrightarrow> bit (v mod 128) 6"
    using and_exp_eq_0_iff_not_bit [of "word_of_int (v mod 128) :: u8" 6] by (simp add: bit_simps)
  also have "\<dots> \<longleftrightarrow> (v mod 128) AND 0x40 \<noteq> 0"
    using and_exp_eq_0_iff_not_bit [of "v mod 128" 6] by simp
  also have "\<dots> \<longleftrightarrow> v < 0"
  proof -
    have "v mod 128 = (if v < 0 then v + 128 else v)"
      using assms mod_add_self2 [of v 128] mod_pos_pos_trivial [of "v + 128" 128] by auto
    then show ?thesis unfolding bit6_mod [OF mod_128_bounds] using assms by auto
  qed
  finally show ?thesis .
qed

lemma sleb_extend:
  fixes val :: u64
  assumes "take_bit s val = val" "-64 \<le> v" "v < 64"
  shows "(if v < 0 \<and> s + 7 < 64 then val + word_of_int (v mod 128 * 2 ^ s) OR push_bit (s + 7) (-1)
          else val + word_of_int (v mod 128 * 2 ^ s)) = val + word_of_int (v * 2 ^ s)"
proof (cases "v < 0")
  case False
  then have "v mod 128 = v" using assms by simp
  then show ?thesis using False by simp
next
  case neg: True
  then have c: "v mod 128 = v + 128" using assms(2) by presburger
  let ?w = "val + word_of_int (v mod 128 * 2 ^ s)"
  have pow: "(128 :: int) * 2 ^ s = 2 ^ (s + 7)" by (simp add: power_add)
  have w: "?w = val + word_of_int (v * 2 ^ s) + word_of_int (2 ^ (s + 7))"
    unfolding c distrib_right pow by (simp only: of_int_add add.assoc)
  show ?thesis
  proof (cases "s + 7 < 64")
    case True
    have tb: "take_bit (s + 7) ?w = ?w"
      using sleb_group [OF assms(1) mod_128_bounds, of v] by metis
    then have "\<not> bit ?w n" if "s + 7 \<le> n" for n
      using that by (metis bit_take_bit_iff not_less)
    then have "?w AND push_bit (s + 7) (-1) = 0"
      by (intro bit_word_eqI) (auto simp only: bit_and_iff bit_push_bit_iff bit_0_eq bot_fun_def bot_bool_def)
    then have o: "?w OR push_bit (s + 7) (-1) = ?w + push_bit (s + 7) (-1)"
      by (simp only: disjunctive_add_eq_or)
    have pb: "push_bit (s + 7) (-1 :: u64) = - word_of_int (2 ^ (s + 7))"
      by (simp only: push_bit_eq_mult of_int_power of_int_numeral) simp
    have "?w OR push_bit (s + 7) (-1) = ?w - word_of_int (2 ^ (s + 7))"
      using o unfolding pb diff_conv_add_uminus by assumption
    also have "\<dots> = val + word_of_int (v * 2 ^ s)" unfolding w by (simp only: add_diff_cancel_right')
    finally have "?w OR push_bit (s + 7) (-1) = val + word_of_int (v * 2 ^ s)" .
    then show ?thesis using neg True by (simp only: if_True simp_thms)
  next
    case False
    then have "(word_of_int (2 ^ (s + 7)) :: u64) = 0"
    proof -
      have "(2::int) ^ 64 dvd 2 ^ (s + 7)" using False by (intro le_imp_power_dvd) simp
      then show ?thesis by (intro word_uint_eqI) (simp only: uint_word_of_int, simp)
    qed
    then show ?thesis using w False by (simp only: simp_thms if_False add_0_right)
  qed
qed

context byte_source
begin

lemma read_sleb_loop_ok:
  "ok b \<Longrightarrow> unread b = sleb v @ rest \<Longrightarrow> take_bit s val = val \<Longrightarrow> s < 64 \<Longrightarrow>
   - (2 ^ (63 - s)) \<le> v \<Longrightarrow> v < 2 ^ (63 - s) \<Longrightarrow>
     \<exists>b'. read_sleb_loop val s b = Some (val + word_of_int (v * 2 ^ s), b') \<and> ok b' \<and> unread b' = rest"
proof (induction v arbitrary: b s val rule: sleb.induct)
  case (1 v)
  let ?c = "v mod 128"
  have vc: "v = 128 * (v div 128) + ?c" by simp
  show ?case
  proof (cases "-64 \<le> v \<and> v < 64")
    case True
    let ?byte = "word_of_int ?c :: u8" and ?val' = "val + word_of_int (?c * 2 ^ s)"
    have "unread b = ?byte # rest" using "1.prems"(2) True by (simp add: sleb.simps [of v])
    then obtain b' where b': "cd_read_byte b = Some (?byte, b')" "ok b'" "unread b' = rest"
      using read_byte [OF "1.prems"(1)] by blast
    note g = sleb_group [OF "1.prems"(3) mod_128_bounds, of v]
    have u: "uint ?byte = ?c" by (simp add: uint_word_of_int)
    have lt: "\<not> 128 \<le> ?byte" using u by (simp add: word_le_def)
    have v: "-64 \<le> v" "v < 64" using True by simp_all
    show ?thesis
      using b' sleb_extend [OF "1.prems"(3) v]
      by (simp only: read_sleb_step [OF "1.prems"(4) b'(1)] lt if_False sleb_sign [OF v] g(1) simp_thms option.inject prod.inject)
  next
    case False
    let ?byte = "word_of_int (?c + 128) :: u8" and ?val' = "val + word_of_int (?c * 2 ^ s)"
    have "unread b = ?byte # (sleb (v div 128) @ rest)"
      using "1.prems"(2) by (simp only: sleb.simps [of v] False if_False append_Cons)
    then obtain b1 where b1: "cd_read_byte b = Some (?byte, b1)" "ok b1" "unread b1 = sleb (v div 128) @ rest"
      using read_byte [OF "1.prems"(1)] by blast
    have a: "?byte AND 0x7F = word_of_int ?c AND 0x7F"
      by (rule sleb_low_bits)
    note g = sleb_group [OF "1.prems"(3) mod_128_bounds, of v]
    have "uint ?byte = ?c + 128" by (simp only: uint_word_of_int) simp
    then have ge: "128 \<le> ?byte" by (simp only: word_le_def) simp
    have s: "s \<le> 56"
    proof (rule ccontr)
      assume "\<not> s \<le> 56"
      then have "63 - s \<le> 6" by simp
      then have "(2::int) ^ (63 - s) \<le> 2 ^ 6" by (rule power_increasing) simp
      then show False using False "1.prems"(5,6) by simp
    qed
    have "(2::int) ^ (63 - s) = 128 * 2 ^ (63 - (s + 7))"
      using s power_add [of "2::int" 7 "56 - s"] by simp
    then have r: "- (2 ^ (63 - (s + 7))) \<le> v div 128" "v div 128 < 2 ^ (63 - (s + 7))"
      using "1.prems"(5,6) by linarith+
    obtain b' where b': "read_sleb_loop ?val' (s + 7) b1 =
        Some (?val' + word_of_int (v div 128 * 2 ^ (s + 7)), b')" "ok b'" "unread b' = rest"
      using "1.IH" [OF False b1(2,3), of "s + 7" ?val'] g s r by auto
    have "?c * 2 ^ s + v div 128 * 2 ^ (s + 7) = v * 2 ^ s"
    proof -
      have "?c * 2 ^ s + v div 128 * 2 ^ (s + 7) = (128 * (v div 128) + ?c) * 2 ^ s"
        by (simp only: power_add distrib_right) simp
      then show ?thesis by simp
    qed
    then have "?val' + word_of_int (v div 128 * 2 ^ (s + 7)) = val + word_of_int (v * 2 ^ s)"
      by (simp only: add.assoc of_int_add [symmetric])
    then show ?thesis
      using b' ge by (simp only: read_sleb_step [OF "1.prems"(4) b1(1)] if_True a g(1)) blast
  qed
qed

lemma read_sleb:
  assumes "ok b" "unread b = sleb (sint w) @ rest"
  shows "\<exists>b'. ReadSLEB128 b = Some (w, b') \<and> ok b' \<and> unread b' = rest"
  using read_sleb_loop_ok [OF assms, of 0 0] sint_lt [of w] sint_ge [of w] by (simp add: ReadSLEB128_def)

end

section \<open>Size of an encoding\<close>

lemma length_sleb:
  "- (2 ^ (7 * n + 6)) \<le> v \<Longrightarrow> v < 2 ^ (7 * n + 6) \<Longrightarrow> 1 \<le> length (sleb v) \<and> length (sleb v) \<le> n + 1"
proof (induction n arbitrary: v)
  case 0
  then show ?case by (simp add: sleb.simps [of v])
next
  case (Suc n)
  show ?case
  proof (cases "-64 \<le> v \<and> v < 64")
    case True
    then show ?thesis by (simp add: sleb.simps [of v])
  next
    case False
    have "(2::int) ^ (7 * Suc n + 6) = 128 * 2 ^ (7 * n + 6)"
      using power_add [of "2::int" 7 "7 * n + 6"] by simp
    then have "- (2 ^ (7 * n + 6)) \<le> v div 128" "v div 128 < 2 ^ (7 * n + 6)"
      using Suc.prems by linarith+
    then have "length (sleb (v div 128)) \<le> n + 1" using Suc.IH by blast
    moreover have "sleb v = word_of_int (v mod 128 + 128) # sleb (v div 128)"
      by (simp only: sleb.simps [of v] False if_False)
    ultimately show ?thesis by simp
  qed
qed

section \<open>Properties\<close>

lemma cd_ok_init [simp]: "cd_ok cd_init" "cd_unread cd_init = []"
  by (simp_all add: cd_ok_def cd_write_inv_def cd_read_inv_def cd_init_def cd_get_read_pos_def
      cd_unread_def cd_bytes_def)

lemma read_sleb_any:
  assumes "cd_ok c \<or> cd_flat_ok n c" "cd_unread c = sleb (sint u) @ rest"
  shows "\<exists>c'. ReadSLEB128 c = Some (u, c') \<and> cd_unread c' = rest"
  using assms cd_queue.read_sleb [of c u rest] cd_flat.read_sleb [of n c u rest] by blast

text \<open>
  C27 (Variable-length integers round trip). Writing a 64-bit or a 32-bit integer to a buffer
  appends at least one and at most ten, respectively five, bytes, and \<open>ReadSLEB128\<close> gives the
  integer back from them, whatever follows, both from the buffer itself and from a flat copy of its
  contents.
\<close>

theorem sleb128_roundtrip:
  assumes "cd_ok b"
  shows "(\<exists>bs b'. WriteSLEB128_int64 w b = Some b' \<and> cd_ok b' \<and> cd_unread b' = cd_unread b @ bs \<and>
            1 \<le> length bs \<and> length bs \<le> 10 \<and>
            (\<forall>c n rest. cd_ok c \<or> cd_flat_ok n c \<longrightarrow> cd_unread c = bs @ rest \<longrightarrow>
               (\<exists>c'. ReadSLEB128 c = Some (w, c') \<and> cd_unread c' = rest))) \<and>
         (\<exists>bs b'. WriteSLEB128_int32 v b = Some b' \<and> cd_ok b' \<and> cd_unread b' = cd_unread b @ bs \<and>
            1 \<le> length bs \<and> length bs \<le> 5 \<and>
            (\<forall>c n rest. cd_ok c \<or> cd_flat_ok n c \<longrightarrow> cd_unread c = bs @ rest \<longrightarrow>
               (\<exists>c'. ReadSLEB128 c = Some (scast v, c') \<and> cd_unread c' = rest)))"
proof -
  have s: "sint (scast v :: u64) = sint v" by (rule sint_up_scast) (simp add: is_up)
  have "1 \<le> length (sleb (sint w)) \<and> length (sleb (sint w)) \<le> 10"
    "1 \<le> length (sleb (sint v)) \<and> length (sleb (sint v)) \<le> 5"
    using length_sleb [of 9 "sint w"] sint_lt [of w] sint_ge [of w]
      length_sleb [of 4 "sint v"] sint_lt [of v] sint_ge [of v] by simp_all
  then show ?thesis
    using cd_queue.write_int64 [OF assms, of w] cd_queue.write_int32 [OF assms, of v]
      read_sleb_any [where u = w] read_sleb_any [where u = "scast v"] unfolding s by blast
qed

lemma sleb128_roundtrip_witness:
  "cd_ok cd_init \<and>
   (\<exists>bs b'. WriteSLEB128_int64 (- 300) cd_init = Some b' \<and> cd_ok b' \<and> cd_unread b' = [] @ bs \<and>
           1 \<le> length bs \<and> length bs \<le> 10 \<and>
           (\<forall>c n rest. cd_ok c \<or> cd_flat_ok n c \<longrightarrow> cd_unread c = bs @ rest \<longrightarrow>
              (\<exists>c'. ReadSLEB128 c = Some (- 300, c') \<and> cd_unread c' = rest)))"
  using sleb128_roundtrip [OF cd_ok_init(1), of "- 300" 0] by simp

text \<open>Sequences of blocks.\<close>

fun cd_write_all :: "u8 list list \<Rightarrow> cd_buffer \<Rightarrow> cd_buffer option" where
  "cd_write_all [] b = Some b"
| "cd_write_all (bs # bss) b = do { b1 \<leftarrow> cd_write bs b; cd_write_all bss b1 }"

fun cd_read_all :: "nat list \<Rightarrow> cd_buffer \<Rightarrow> u8 list list option" where
  "cd_read_all [] b = Some []"
| "cd_read_all (n # ns) b = do { (bs, b1) \<leftarrow> cd_read n b; bss \<leftarrow> cd_read_all ns b1; Some (bs # bss) }"

context byte_queue
begin

lemma write_all_ok:
  "ok b \<Longrightarrow> \<exists>b'. cd_write_all bss b = Some b' \<and> ok b' \<and> unread b' = unread b @ concat bss"
proof (induction bss arbitrary: b)
  case (Cons bs bss)
  obtain b1 where b1: "cd_write bs b = Some b1" "ok b1" "unread b1 = unread b @ bs"
    using write_bytes [OF Cons.prems] by blast
  then show ?case using Cons.IH [OF b1(2)] by auto
qed simp

lemma read_all_ok:
  "ok b \<Longrightarrow> unread b = concat bss @ rest \<Longrightarrow> cd_read_all (map length bss) b = Some bss"
proof (induction bss arbitrary: b)
  case (Cons bs bss)
  then obtain b1 where b1: "cd_read (length bs) b = Some (bs, b1)" "ok b1" "unread b1 = concat bss @ rest"
    using read_bytes [of b bs "concat bss @ rest"] by auto
  then show ?case using Cons.IH [OF b1(2,3)] by simp
qed simp

end

text \<open>
  C28 (The stream is a queue). A sequence of blocks written to a new buffer is read back block by
  block, whatever their sizes and however they fall on the chunks.
\<close>

theorem stream_fifo:
  "\<exists>b. cd_write_all bss cd_init = Some b \<and> cd_read_all (map length bss) b = Some bss"
proof -
  obtain b where "cd_write_all bss cd_init = Some b" "cd_ok b" "cd_unread b = concat bss"
    using cd_queue.write_all_ok [of cd_init bss] by auto
  then show ?thesis using cd_queue.read_all_ok [of b bss "[]"] by auto
qed

section \<open>Positioning\<close>

lemma pools_cover:
  assumes "cd_write_inv b"
  shows "mSize b \<le> int (length (mPools b)) * int ALLOC_SIZE"
  using assms by (cases "mPools b") (auto simp: cd_write_inv_def algebra_simps)

lemma set_read_pos_in:
  assumes inv: "cd_write_inv b" and pos: "0 \<le> pos" "pos < mSize b"
  shows "pos div int ALLOC_SIZE < int (length (mPools b))" "0 \<le> pos div int ALLOC_SIZE"
    and "cd_set_read_pos pos b =
      Some (b\<lparr>mReadPoolIdx := pos div int ALLOC_SIZE, mReadCurAlloc := CdPool (nat (pos div int ALLOC_SIZE)),
              mReadCurPtr := pos mod int ALLOC_SIZE, mReadNextAlloc := pos mod int ALLOC_SIZE + int ALLOC_SIZE\<rparr>)"
proof -
  have "pos < int (length (mPools b)) * int ALLOC_SIZE" using pos pools_cover [OF inv] by simp
  then show lt: "pos div int ALLOC_SIZE < int (length (mPools b))"
    by (simp add: ALLOC_SIZE_def)
  show ge: "0 \<le> pos div int ALLOC_SIZE" using pos(1) by (simp add: ALLOC_SIZE_def)
  show "cd_set_read_pos pos b =
      Some (b\<lparr>mReadPoolIdx := pos div int ALLOC_SIZE, mReadCurAlloc := CdPool (nat (pos div int ALLOC_SIZE)),
              mReadCurPtr := pos mod int ALLOC_SIZE, mReadNextAlloc := pos mod int ALLOC_SIZE + int ALLOC_SIZE\<rparr>)"
    using lt ge pos(1)
    by (simp add: cd_set_read_pos_def cd_at_pool_def c_div_nonneg c_mod_nonneg ALLOC_SIZE_def Let_def)
qed

text \<open>
  After \<open>SetReadPos\<close> to a position in the data, a read of up to a
  chunk gives the bytes there when it stays inside the chunk, and otherwise runs past the end of the
  chunk's memory: the end it sets is a whole chunk away from the position.
\<close>

theorem set_read_pos_reads:
  assumes "cd_ok b" "0 \<le> pos" "0 < n" "n \<le> ALLOC_SIZE" "pos + int n \<le> mSize b"
  shows "\<exists>b1. cd_set_read_pos pos b = Some b1 \<and>
     (if pos mod int ALLOC_SIZE + int n \<le> int ALLOC_SIZE
      then \<exists>b2. cd_read n b1 = Some (take n (drop (nat pos) (cd_bytes b)), b2)
      else cd_read n b1 = None)"
proof -
  let ?A = "int ALLOC_SIZE"
  let ?p = "pos mod ?A" and ?i = "nat (pos div ?A)"
  let ?b1 = "b\<lparr>mReadPoolIdx := pos div ?A, mReadCurAlloc := CdPool ?i, mReadCurPtr := ?p,
               mReadNextAlloc := ?p + ?A\<rparr>"
  have inv: "cd_write_inv b" using assms(1) by (simp add: cd_ok_def)
  have lt: "pos < mSize b" using assms by simp
  note s = set_read_pos_in [OF inv assms(2) lt]
  have A: "0 < ?A" by (simp add: ALLOC_SIZE_def)
  have p0: "0 \<le> ?p" using A by simp
  have len: "\<forall>q \<in> set (mPools b). length q = ALLOC_SIZE" using inv by (simp add: cd_write_inv_def)
  have i: "?i < length (mPools b)" using s(1,2) by linarith
  have li: "length (mPools b ! ?i) = ALLOC_SIZE" using len i by simp
  have bytes: "take n (drop (nat pos) (cd_bytes b)) = take n (drop (nat pos) (concat (mPools b)))"
    using assms(2,5) by (simp add: cd_bytes_def drop_take nat_diff_distrib' [symmetric])
  have no_loop: "cd_read n ?b1 = cd_take n ?b1"
    using assms(4) by (subst cd_read.simps) simp
  have peek: "cd_peek n ?b1 = slice (mPools b ! ?i) ?p n"
    using i assms(3) by (simp add: cd_peek_def cd_chunk_def)
  show ?thesis
  proof (cases "?p + int n \<le> ?A")
    case True
    have "int (?i * ALLOC_SIZE + nat ?p) = pos" using s(2) p0 by simp
    then have "nat pos = ?i * ALLOC_SIZE + nat ?p" by (simp only: nat_int [symmetric])
    then have "slice (mPools b ! ?i) ?p n = Some (take n (drop (nat pos) (cd_bytes b)))"
      using True p0 li drop_take_concat [OF len i, of "nat ?p" n] bytes by (simp add: slice_def)
    then show ?thesis using s(3) no_loop peek True by (simp add: cd_take_def)
  next
    case False
    have "slice (mPools b ! ?i) ?p n = None" using False li by (simp add: slice_def)
    then show ?thesis using s(3) no_loop peek False by (simp add: cd_take_def)
  qed
qed

lemma set_read_pos_reads_witness:
  "\<exists>b b1. cd_write (replicate 0x1800 7) cd_init = Some b \<and> mSize b = 0x1800 \<and>
     cd_set_read_pos 0x900 b = Some b1 \<and> cd_read 0x800 b1 = None"
proof -
  obtain b where b: "cd_write (replicate 0x1800 7) cd_init = Some b" "appends cd_init (replicate 0x1800 7) b"
    using write_appends [of cd_init "replicate 0x1800 7"] cd_ok_init(1) unfolding cd_ok_def by blast
  have ok: "cd_ok b" using appends_queue [OF cd_ok_init(1) b(2)] by blast
  have "cd_bytes b = replicate 0x1800 7"
    using b(2) by (simp add: appends_def cd_bytes_def cd_init_def)
  then have "mSize b = 0x1800" using length_cd_bytes [of b] b(2) by (simp add: appends_def)
  then show ?thesis using b(1) set_read_pos_reads [OF ok, where pos = "0x900" and n = "0x800"] by (auto simp: ALLOC_SIZE_def)
qed

lemma get_buffer_data:
  assumes inv: "cd_write_inv b"
  shows "\<exists>b'. GetBufferData b = Some (cd_bytes b, b')"
proof (cases "mSize b = 0")
  case True
  then show ?thesis by (simp add: GetBufferData_def cd_bytes_def)
next
  case False
  have len: "int (length (cd_bytes b)) = mSize b" by (rule length_cd_bytes [OF inv])
  then have lt: "0 < mSize b" using False by linarith
  let ?b1 = "b\<lparr>mReadPoolIdx := 0, mReadCurAlloc := CdPool 0, mReadCurPtr := 0, mReadNextAlloc := int ALLOC_SIZE\<rparr>"
  have s: "cd_set_read_pos 0 b = Some ?b1" and l: "mPools b \<noteq> []"
    using set_read_pos_in [OF inv _ lt] by simp_all
  have ok: "cd_ok ?b1"
    using inv l lt by (simp add: cd_ok_def cd_write_inv_def cd_read_inv_def cd_get_read_pos_def)
  have "cd_unread ?b1 = cd_bytes b @ []"
    using unread_pool [OF ok] by (simp add: cd_get_read_pos_def cd_bytes_def)
  then obtain b2 where "cd_read (length (cd_bytes b)) ?b1 = Some (cd_bytes b, b2)"
    using read_pool [OF ok] by blast
  moreover have "nat (mSize b) = length (cd_bytes b)" using len by simp
  ultimately show ?thesis using s False by (simp add: GetBufferData_def)
qed

end
