(* ===== verification/Beef_IRStream_Spec.thy ===== *)
theory Beef_IRStream_Spec
  imports Beef_IRStream Beef_Sleb Beef_Fold_Spec
begin

text \<open>
  The encoding and the decoding of the command stream belong together: what \<open>BfIRBuilder\<close> writes
  for a value or a command, \<open>BeIRCodeGen\<close> reads as its meaning in the module built so far.
\<close>

unbundle bit_operations_syntax

section \<open>Writers and readers that belong together\<close>

definition emits :: "(cd_buffer \<Rightarrow> cd_buffer option) \<Rightarrow> u8 list \<Rightarrow> bool" where
  "emits F bs \<longleftrightarrow> (\<forall>b. cd_write_inv b \<longrightarrow> (\<exists>b'. F b = Some b' \<and> cd_write_inv b' \<and> cd_bytes b' = cd_bytes b @ bs))"

text \<open>From the bytes, \<open>f\<close> reads \<open>x\<close> in the state \<open>g\<close> and changes nothing but the stream.\<close>

definition parses :: "(be_codegen \<Rightarrow> ('a \<times> be_codegen) option) \<Rightarrow> be_codegen \<Rightarrow> u8 list \<Rightarrow> 'a \<Rightarrow> bool" where
  "parses f g bs x \<longleftrightarrow> (\<forall>n b rest. cd_flat_ok n b \<longrightarrow> cd_unread b = bs @ rest \<longrightarrow>
     (\<exists>b'. f (g\<lparr>g_stream := b\<rparr>) = Some (x, g\<lparr>g_stream := b'\<rparr>) \<and> cd_flat_ok n b' \<and> cd_unread b' = rest))"

definition codec ::
  "(cd_buffer \<Rightarrow> cd_buffer option) \<Rightarrow> (be_codegen \<Rightarrow> ('a \<times> be_codegen) option) \<Rightarrow> be_codegen \<Rightarrow> 'a \<Rightarrow> bool" where
  "codec F f g x \<longleftrightarrow> (\<exists>bs. emits F bs \<and> parses f g bs x)"

lemma emits_bind: "emits F bs \<Longrightarrow> emits G cs \<Longrightarrow> emits (\<lambda>b. F b \<bind> G) (bs @ cs)"
  unfolding emits_def
proof (intro allI impI)
  fix b assume F: "\<forall>b. cd_write_inv b \<longrightarrow> (\<exists>b'. F b = Some b' \<and> cd_write_inv b' \<and> cd_bytes b' = cd_bytes b @ bs)"
    and G: "\<forall>b. cd_write_inv b \<longrightarrow> (\<exists>b'. G b = Some b' \<and> cd_write_inv b' \<and> cd_bytes b' = cd_bytes b @ cs)"
    and ok: "cd_write_inv b"
  obtain b1 where b1: "F b = Some b1" "cd_write_inv b1" "cd_bytes b1 = cd_bytes b @ bs" using F ok by blast
  obtain b2 where "G b1 = Some b2" "cd_write_inv b2" "cd_bytes b2 = cd_bytes b1 @ cs" using G b1(2) by blast
  then show "\<exists>b'. F b \<bind> G = Some b' \<and> cd_write_inv b' \<and> cd_bytes b' = cd_bytes b @ bs @ cs"
    using b1 by simp
qed

lemma parses_return: "parses (\<lambda>g. Some (x, g)) g [] x"
  by (auto simp: parses_def)

lemma codec_return: "codec Some (\<lambda>g. Some (x, g)) g x"
  unfolding codec_def using parses_return by (intro exI [of _ "[]"]) (auto simp: emits_def)

text \<open>A reader that gets \<open>x\<close> from \<open>f\<close> first, and behaves like \<open>k\<close> from there.\<close>

lemma codec_seq:
  assumes "codec F f g x" "codec G k g y" "\<And>b. F' b = F b \<bind> G"
    "\<And>b b1. f (g\<lparr>g_stream := b\<rparr>) = Some (x, g\<lparr>g_stream := b1\<rparr>) \<Longrightarrow>
       f' (g\<lparr>g_stream := b\<rparr>) = k (g\<lparr>g_stream := b1\<rparr>)"
  shows "codec F' f' g y"
proof -
  obtain bs cs where e: "emits F bs" "emits G cs" and p: "parses f g bs x" "parses k g cs y"
    using assms(1,2) by (auto simp: codec_def)
  have F': "F' = (\<lambda>b. F b \<bind> G)" using assms(3) by blast
  have "parses f' g (bs @ cs) y"
    unfolding parses_def
  proof (intro allI impI)
    fix n b rest assume ok: "cd_flat_ok n b" and u: "cd_unread b = (bs @ cs) @ rest"
    obtain b1 where b1: "f (g\<lparr>g_stream := b\<rparr>) = Some (x, g\<lparr>g_stream := b1\<rparr>)" "cd_flat_ok n b1" "cd_unread b1 = cs @ rest"
      using p(1) ok u unfolding parses_def by (metis append.assoc)
    obtain b2 where "k (g\<lparr>g_stream := b1\<rparr>) = Some (y, g\<lparr>g_stream := b2\<rparr>)" "cd_flat_ok n b2" "cd_unread b2 = rest"
      using p(2) b1(2,3) unfolding parses_def by blast
    then show "\<exists>b'. f' (g\<lparr>g_stream := b\<rparr>) = Some (y, g\<lparr>g_stream := b'\<rparr>) \<and> cd_flat_ok n b' \<and> cd_unread b' = rest"
      using assms(4) [OF b1(1)] by auto
  qed
  then show ?thesis unfolding codec_def F' using emits_bind [OF e] by blast
qed

text \<open>A reader that only changes the form of what \<open>f\<close> reads.\<close>

lemma codec_map:
  assumes "codec F f g x"
    "\<And>b b1. f (g\<lparr>g_stream := b\<rparr>) = Some (x, g\<lparr>g_stream := b1\<rparr>) \<Longrightarrow>
       f' (g\<lparr>g_stream := b\<rparr>) = Some (y, g\<lparr>g_stream := b1\<rparr>)"
  shows "codec F f' g y"
  by (rule codec_seq [OF assms(1) codec_return]) (simp_all add: assms(2))

text \<open>A reader that looks at the state behaves there like the one it chooses.\<close>

lemma codec_cong:
  assumes "codec F f g x" "\<And>b. F' b = F b" "\<And>b. f' (g\<lparr>g_stream := b\<rparr>) = f (g\<lparr>g_stream := b\<rparr>)"
  shows "codec F' f' g x"
  using assms by (simp add: codec_def emits_def parses_def)

section \<open>Elements\<close>

lemma parses_byte: "parses g_byte g [v] v"
  unfolding parses_def using cd_flat.read_byte by (fastforce simp: g_byte_def of_stream_def)

lemma codec_byte: "codec (cd_write_byte v) g_byte g v"
  unfolding codec_def
proof (intro exI conjI)
  show "emits (cd_write_byte v) [v]" unfolding emits_def using cd_log.write_byte by blast
qed (rule parses_byte)

lemma codec_sleb: "codec (WriteSLEB128_int64 w) g_sleb g w"
  unfolding codec_def
proof (intro exI conjI)
  show "emits (WriteSLEB128_int64 w) (sleb (sint w))" unfolding emits_def using cd_log.write_int64 by blast
  show "parses g_sleb g (sleb (sint w)) w"
    unfolding parses_def using cd_flat.read_sleb by (fastforce simp: g_sleb_def of_stream_def)
qed

lemma codec_block: "codec (cd_write bs) (of_stream (cd_read (length bs))) g bs"
  unfolding codec_def
proof (intro exI conjI)
  show "emits (cd_write bs) bs" unfolding emits_def using cd_log.write_bytes by blast
  show "parses (of_stream (cd_read (length bs))) g bs bs"
    unfolding parses_def using cd_flat.read_bytes by (fastforce simp: of_stream_def)
qed

lemma emits_int:
  assumes "in_s 4 v"
  shows "emits (Write_int v) (sleb v)"
proof -
  have "sint (word_of_int v :: u32) = v"
    using assms by (simp add: sint_word_of_int_wrap [of 4] wrap_s_id)
  then show ?thesis
    unfolding emits_def Write_int_def using cd_log.write_int32 [of _ "word_of_int v"] by simp
qed

lemma codec_int:
  assumes "in_s 4 v"
  shows "codec (Write_int v) g_int g v"
proof (rule codec_map)
  have s: "sint (word_of_int v :: u32) = v" "sint (word_of_int v :: u64) = v"
    using assms by (simp_all add: sint_word_of_int_wrap [of 4] sint_word_of_int_wrap [of 8] wrap_s_id in_s_def)
  have "parses g_sleb g (sleb v) (word_of_int v)"
    unfolding parses_def using cd_flat.read_sleb [where w = "word_of_int v"] s
    by (fastforce simp: g_sleb_def of_stream_def)
  then show "codec (Write_int v) g_sleb g (word_of_int v)"
    unfolding codec_def using emits_int [OF assms] by blast
  have "(ucast (word_of_int v :: u64) :: u32) = word_of_int v"
    by (rule bit_word_eqI) (auto simp: bit_simps)
  then show "g_int (g\<lparr>g_stream := b\<rparr>) = Some (v, g\<lparr>g_stream := b1\<rparr>)"
    if "g_sleb (g\<lparr>g_stream := b\<rparr>) = Some (word_of_int v, g\<lparr>g_stream := b1\<rparr>)" for b b1
    using that s by (simp add: g_int_def)
qed

lemma codec_bool: "codec (Write_bool p) g_bool g p"
  unfolding Write_bool_def by (rule codec_map [OF codec_byte]) (simp add: g_bool_def)

lemma type_code_of_code: "type_code_of (type_code_nat tc) = Some tc"
  by (cases tc) (simp_all add: type_code_of_def all_type_codes_def)

lemma type_code_small: "type_code_nat tc < 60"
  by (cases tc) simp_all

lemma type_code_byte: "unat (word_of_nat (type_code_nat tc) :: u8) = type_code_nat tc"
  using type_code_small [of tc] by (simp add: unat_of_nat)

lemma codec_type_code: "codec (Write_type_code tc) Read_type_code g tc"
  unfolding Write_type_code_def
  by (rule codec_map [OF codec_byte]) (simp add: Read_type_code_def type_code_byte type_code_of_code)

section \<open>Meanings\<close>

text \<open>The type a written type stands for; \<open>None\<close> where it is read with a fatal error.\<close>

primrec type_meaning :: "be_codegen \<Rightarrow> bf_ir_type \<Rightarrow> be_type option option" where
  "type_meaning g (TypeKind_TypeCode tc) = map_option (\<lambda>(t, s). Some t) (GetBeType tc)"
| "type_meaning g (TypeKind_TypeId i) = (if in_s 4 i then Some (g_types g i) else None)"

definition const_meaning_be :: "ce_fpu \<Rightarrow> be_codegen \<Rightarrow> bf_const \<Rightarrow> be_value option option" where
  "const_meaning_be fpu g c =
     (case c of
        BfConstant tc w \<Rightarrow>
          (case GetBeType tc of
             None \<Rightarrow> None
           | Some (t, s) \<Rightarrow>
               if tc = BfTypeCode_Float
               then Some (Some (BeConstant t (word_of_int (fp_cvt fpu F32 F64 (wrap_u 4 (fp_cvt fpu F64 F32 (uint w)))))))
               else if tc = BfTypeCode_Double then Some (Some (BeConstant t w))
               else if tc = BfTypeCode_Boolean then Some (Some (BeConstant t (if mInt8 w \<noteq> 0 then 1 else 0)))
               else if tc = BfTypeCode_None then Some None
               else if writes_sleb tc then Some (Some (GetConstant_int t w))
               else None)
      | BfConstantUndef ty \<Rightarrow> map_option (\<lambda>t. Some (BeUndefConstant t)) (type_meaning g ty)
      | _ \<Rightarrow> None)"

definition value_meaning :: "ce_fpu \<Rightarrow> bf_pool \<Rightarrow> be_codegen \<Rightarrow> bf_value \<Rightarrow> be_value option option" where
  "value_meaning fpu P g v =
     (if IsConst v then GetConstantById P (v_id v) \<bind> const_meaning_be fpu g
      else if v_flags v AND BfIRValueFlags_Arg \<noteq> 0
      then (if 0 \<le> v_id v \<and> v_id v < 64 then Some (Some (BeArgument (nat (v_id v)))) else None)
      else if v_flags v \<noteq> 0
      then (if 0 \<le> v_id v \<and> v_id v < g_cmd_count g \<and> g_cmd_count g < 2 ^ 31
            then map_option fst (result_value g (v_id v)) else None)
      else Some None)"

definition cmd_meaning :: "ce_fpu \<Rightarrow> bf_pool \<Rightarrow> be_codegen \<Rightarrow> bf_ir_cmd \<Rightarrow> be_cmd option" where
  "cmd_meaning fpu P g cmd =
     (let val = value_meaning fpu P g;
          bin = (\<lambda>k l r. do { x \<leftarrow> val l; y \<leftarrow> val r; Some (BeCmd_Binary k x y 0) });
          checked = (\<lambda>k l r ov. if ov < 64 then do { x \<leftarrow> val l; y \<leftarrow> val r; Some (BeCmd_Binary k x y ov) } else None);
          cmp = (\<lambda>k l r. do { x \<leftarrow> val l; y \<leftarrow> val r; Some (BeCmd_Cmp k x y) })
      in case cmd of
           BfIRCmd_NumericCast v s t \<Rightarrow> do { x \<leftarrow> val v; Some (BeCmd_NumericCast x s t) }
         | BfIRCmd_CmpEQ l r \<Rightarrow> cmp BeCmpKind_EQ l r | BfIRCmd_CmpNE l r \<Rightarrow> cmp BeCmpKind_NE l r
         | BfIRCmd_CmpSLT l r \<Rightarrow> cmp BeCmpKind_SLT l r | BfIRCmd_CmpULT l r \<Rightarrow> cmp BeCmpKind_ULT l r
         | BfIRCmd_CmpSLE l r \<Rightarrow> cmp BeCmpKind_SLE l r | BfIRCmd_CmpULE l r \<Rightarrow> cmp BeCmpKind_ULE l r
         | BfIRCmd_CmpSGT l r \<Rightarrow> cmp BeCmpKind_SGT l r | BfIRCmd_CmpUGT l r \<Rightarrow> cmp BeCmpKind_UGT l r
         | BfIRCmd_CmpSGE l r \<Rightarrow> cmp BeCmpKind_SGE l r | BfIRCmd_CmpUGE l r \<Rightarrow> cmp BeCmpKind_UGE l r
         | BfIRCmd_Add l r k \<Rightarrow> checked BeBinaryOpKind_Add l r k
         | BfIRCmd_Sub l r k \<Rightarrow> checked BeBinaryOpKind_Subtract l r k
         | BfIRCmd_Mul l r k \<Rightarrow> checked BeBinaryOpKind_Multiply l r k
         | BfIRCmd_SDiv l r \<Rightarrow> bin BeBinaryOpKind_SDivide l r | BfIRCmd_UDiv l r \<Rightarrow> bin BeBinaryOpKind_UDivide l r
         | BfIRCmd_SRem l r \<Rightarrow> bin BeBinaryOpKind_SModulus l r | BfIRCmd_URem l r \<Rightarrow> bin BeBinaryOpKind_UModulus l r
         | BfIRCmd_And l r \<Rightarrow> bin BeBinaryOpKind_BitwiseAnd l r | BfIRCmd_Or l r \<Rightarrow> bin BeBinaryOpKind_BitwiseOr l r
         | BfIRCmd_Xor l r \<Rightarrow> bin BeBinaryOpKind_ExclusiveOr l r | BfIRCmd_Shl l r \<Rightarrow> bin BeBinaryOpKind_LeftShift l r
         | BfIRCmd_AShr l r \<Rightarrow> bin BeBinaryOpKind_ARightShift l r | BfIRCmd_LShr l r \<Rightarrow> bin BeBinaryOpKind_RightShift l r
         | BfIRCmd_Neg v \<Rightarrow> do { x \<leftarrow> val v; Some (BeCmd_Neg x) }
         | BfIRCmd_Not v \<Rightarrow> do { x \<leftarrow> val v; Some (BeCmd_Not x) }
         | BfIRCmd_GetInsertBlock \<Rightarrow> Some BeCmd_GetInsertBlock)"

section \<open>Operands\<close>

lemma codec_type:
  assumes "type_meaning g ty = Some x"
  shows "codec (Write_type ty) Read_type g x"
proof (cases ty)
  case (TypeKind_TypeCode tc)
  then obtain t s where t: "GetBeType tc = Some (t, s)" "x = Some t" using assms by auto
  have "in_s 4 (int (type_code_nat tc))" using type_code_small [of tc] by (simp add: in_s_def)
  then have "codec (Write_int (int (type_code_nat tc)))
      (\<lambda>g. do { (i, g2) \<leftarrow> g_int g; tc \<leftarrow> type_code_of (unat (word_of_int i :: u8));
               (t, s) \<leftarrow> GetBeType tc; Some (Some t, g2) }) g x"
    by (intro codec_map [OF codec_int]) (simp_all add: type_code_byte type_code_of_code t)
  from codec_seq [OF codec_byte [of 2] this] show ?thesis
    by (rule meta_mp) (simp_all add: TypeKind_TypeCode Read_type_def)
next
  case (TypeKind_TypeId i)
  have i: "in_s 4 i" and x: "x = g_types g i" using assms TypeKind_TypeId by (simp_all split: if_splits)
  have "codec (Write_int i) (\<lambda>g. do { (i, g2) \<leftarrow> g_int g; Some (g_types g2 i, g2) }) g x"
    by (rule codec_map [OF codec_int [OF i]]) (simp add: x)
  then show ?thesis
    by (rule codec_seq [OF codec_byte [of 1]]) (simp_all add: TypeKind_TypeId Read_type_def)
qed

lemma GetBeType_not_pointer: "GetBeType tc = Some ts \<Longrightarrow> tc \<noteq> BfTypeCode_IntPtr \<and> tc \<noteq> BfTypeCode_UIntPtr"
  by (auto simp: GetBeType_def)

text \<open>The type codes written as integers are read as integers.\<close>

lemma writes_sleb_codes:
  assumes "writes_sleb tc" "GetBeType tc = Some ts"
  shows "IsInt tc" "tc \<noteq> BfTypeCode_Float" "tc \<noteq> BfTypeCode_Double" "tc \<noteq> BfTypeCode_Boolean" "tc \<noteq> BfTypeCode_None"
  using assms by (auto simp: writes_sleb_def GetBeType_def IsInt_nat)

lemma codec_read_const:
  assumes tail: "codec T t g x"
    and W: "\<And>b. Write_const fpu c b = do { b1 \<leftarrow> cd_write_byte BfIRParamType_Const b; b2 \<leftarrow> cd_write_byte k b1; T b2 }"
    and R: "\<And>b b1. g_byte (g\<lparr>g_stream := b\<rparr>) = Some (k, g\<lparr>g_stream := b1\<rparr>) \<Longrightarrow>
              Read_const fpu (g\<lparr>g_stream := b\<rparr>) = t (g\<lparr>g_stream := b1\<rparr>)"
  shows "codec (Write_const fpu c) (Read_value fpu) g x"
proof -
  have "codec (\<lambda>b. cd_write_byte k b \<bind> T) (Read_const fpu) g x"
    by (rule codec_seq [OF codec_byte tail]) (rule refl, erule R)
  then show ?thesis
    by (rule codec_seq [OF codec_byte]) (simp add: W, simp add: Read_value_def param_type_defs)
qed

lemma const_tag_byte: "unat (word_of_nat (type_code_nat tc) :: u8) \<noteq> const_type_nat BfConstType_Undef"
  using type_code_small [of tc] by (simp add: type_code_byte BfTypeCode_Length_def)

lemma Read_const_code:
  assumes "g_byte g = Some (word_of_nat (type_code_nat tc), g1)" "GetBeType tc = Some (t, s)"
  shows "Read_const fpu g =
    (if tc = BfTypeCode_Float
     then do { (bs, g2) \<leftarrow> of_stream (cd_read 4) g1;
               Some (Some (GetConstant_double t (word_of_int (fp_cvt fpu F32 F64 (le_uint bs)))), g2) }
     else if tc = BfTypeCode_Double
     then do { (bs, g2) \<leftarrow> of_stream (cd_read 8) g1;
               Some (Some (GetConstant_double t (word_of_int (le_uint bs))), g2) }
     else if tc = BfTypeCode_Boolean
     then do { (p, g2) \<leftarrow> g_bool g1; Some (Some (GetConstant_bool t p), g2) }
     else if tc = BfTypeCode_None then Some (None, g1)
     else if IsInt tc then do { (w, g2) \<leftarrow> g_sleb g1; Some (Some (GetConstant_int t w), g2) }
     else None)"
  using const_tag_byte [of tc] unfolding Read_const_def assms(1)
  by (simp add: type_code_byte type_code_of_code assms(2))

lemma codec_const:
  assumes "const_meaning_be fpu g c = Some x"
  shows "codec (Write_const fpu c) (Read_value fpu) g x"
proof (cases c)
  case (BfConstant tc w)
  obtain t s where t: "GetBeType tc = Some (t, s)"
    using assms BfConstant by (auto simp: const_meaning_be_def split: option.splits)
  note rd = Read_const_code [OF _ t]
  note wr = Write_const_def BfConstant
  consider (float) "tc = BfTypeCode_Float" | (double) "tc = BfTypeCode_Double" | (bool) "tc = BfTypeCode_Boolean"
    | (none) "tc = BfTypeCode_None" | (int) "writes_sleb tc"
    using assms BfConstant t by (auto simp: const_meaning_be_def split: if_splits)
  then show ?thesis
  proof cases
    case float
    let ?p = "fp_cvt fpu F64 F32 (uint w)"
    have "codec (cd_write (le_bytes 4 ?p))
        (\<lambda>g. do { (bs, g2) \<leftarrow> of_stream (cd_read 4) g;
                 Some (Some (GetConstant_double t (word_of_int (fp_cvt fpu F32 F64 (le_uint bs)))), g2) }) g x"
      using codec_block [of "le_bytes 4 ?p"] assms float BfConstant t
      by (intro codec_map [OF codec_block])
        (simp add: const_meaning_be_def GetConstant_double_def le_uint_le_bytes)
    then show ?thesis
      by (rule codec_read_const [where k = "word_of_nat (type_code_nat tc)"])
        (simp add: wr float, simp only: rd, simp add: float)
  next
    case double
    have wrap_u8: "wrap_u 8 (uint w) = uint w" using uint_lt2p [of w] by (simp add: wrap_u_def)
    have "codec (cd_write (le_bytes 8 (uint w)))
        (\<lambda>g. do { (bs, g2) \<leftarrow> of_stream (cd_read 8) g;
                 Some (Some (GetConstant_double t (word_of_int (le_uint bs))), g2) }) g x"
      using assms double BfConstant t
      by (intro codec_map [OF codec_block])
        (simp add: const_meaning_be_def GetConstant_double_def wrap_u8)
    then show ?thesis
      by (rule codec_read_const [where k = "word_of_nat (type_code_nat tc)"])
        (simp add: wr double, simp only: rd, simp add: double)
  next
    case bool
    have "codec (Write_bool (mInt8 w \<noteq> 0)) (\<lambda>g. do { (p, g2) \<leftarrow> g_bool g; Some (Some (GetConstant_bool t p), g2) }) g x"
      using assms bool BfConstant t
      by (intro codec_map [OF codec_bool]) (auto simp: const_meaning_be_def GetConstant_bool_def)
    then show ?thesis
      by (rule codec_read_const [where k = "word_of_nat (type_code_nat tc)"])
        (simp add: wr bool writes_sleb_def, simp only: rd, simp add: bool writes_sleb_def)
  next
    case none
    have "codec Some (\<lambda>g. Some (None, g)) g x"
      using codec_return [of None g] assms none BfConstant t by (simp add: const_meaning_be_def)
    then show ?thesis
      by (rule codec_read_const [where k = "word_of_nat (type_code_nat tc)"])
        (simp add: wr none writes_sleb_def, simp only: rd, simp add: none writes_sleb_def)
  next
    case int
    have "codec (WriteSLEB128_int64 w) (\<lambda>g. do { (w, g2) \<leftarrow> g_sleb g; Some (Some (GetConstant_int t w), g2) }) g x"
      using assms int BfConstant t writes_sleb_codes [OF int t]
      by (intro codec_map [OF codec_sleb]) (simp add: const_meaning_be_def)
    then show ?thesis
      by (rule codec_read_const [where k = "word_of_nat (type_code_nat tc)"])
        (simp add: wr int writes_sleb_codes [OF int t], simp only: rd, simp add: int writes_sleb_codes [OF int t])
  qed
next
  case (BfConstantUndef ty)
  then obtain y where y: "type_meaning g ty = Some y" "x = Some (BeUndefConstant y)"
    using assms by (auto simp: const_meaning_be_def)
  have "codec (Write_type ty) (\<lambda>g. do { (t, g2) \<leftarrow> Read_type g; Some (Some (BeUndefConstant t), g2) }) g x"
    by (rule codec_map [OF codec_type [OF y(1)]]) (simp add: y(2))
  then show ?thesis by (rule codec_read_const) (simp add: BfConstantUndef Write_const_def, simp add: Read_const_def BfTypeCode_Length_def)
qed (use assms in \<open>simp_all add: const_meaning_be_def\<close>)

lemma unat_word_of_int_small: "0 \<le> i \<Longrightarrow> i < 256 \<Longrightarrow> unat (word_of_int i :: u8) = nat i"
  by (simp add: unat_eq_nat_uint uint_word_of_int)

lemma param_not_small:
  assumes "5 \<le> uint (k :: u8)"
  shows "k \<noteq> BfIRParamType_None" "k \<noteq> BfIRParamType_Const" "k \<noteq> BfIRParamType_Arg"
    "k \<noteq> BfIRParamType_StreamId_Abs8" "k \<noteq> BfIRParamType_StreamId_Rel"
  using assms by (auto simp: param_type_defs)

text \<open>Every operand whose meaning is defined is read as that meaning.\<close>

lemma codec_value:
  assumes "value_meaning fpu P g v = Some x"
  shows "codec (Write_value fpu P (g_cmd_count g) v) (Read_value fpu) g x"
proof -
  consider (const) c where "IsConst v" "GetConstantById P (v_id v) = Some c" "const_meaning_be fpu g c = Some x"
    | (arg) "\<not> IsConst v" "v_flags v AND BfIRValueFlags_Arg \<noteq> 0" "0 \<le> v_id v" "v_id v < 64" "x = Some (BeArgument (nat (v_id v)))"
    | (res) "\<not> IsConst v" "v_flags v AND BfIRValueFlags_Arg = 0" "v_flags v \<noteq> 0" "0 \<le> v_id v" "v_id v < g_cmd_count g"
        "g_cmd_count g < 2 ^ 31" "map_option fst (result_value g (v_id v)) = Some x"
    | (no) "\<not> IsConst v" "v_flags v = 0" "x = None"
    using assms by (auto simp: value_meaning_def bind_eq_Some_conv split: if_splits)
  then show ?thesis
  proof cases
    case const
    then show ?thesis using codec_const [of fpu g c x] by (simp add: Write_value_def [abs_def])
  next
    case arg
    have id: "in_s 4 (v_id v)" using arg by (simp add: in_s_def)
    have "emits (Write_int (v_id v)) [word_of_int (v_id v)]"
      using emits_int [OF id] arg by (simp add: sleb.simps [of "v_id v"])
    then have w: "codec (Write_int (v_id v)) g_byte g (word_of_int (v_id v))"
      using parses_byte unfolding codec_def by blast
    have "codec (Write_int (v_id v)) (\<lambda>g. do { (i, g2) \<leftarrow> g_byte g; Some (Some (BeArgument (unat i)), g2) }) g x"
      by (rule codec_map [OF w]) (use arg in \<open>simp add: unat_word_of_int_small\<close>)
    then show ?thesis
      by (rule codec_seq [OF codec_byte [of BfIRParamType_Arg]])
        (use arg in \<open>simp add: Write_value_def\<close>, simp add: Read_value_def param_type_defs)
  next
    case res
    let ?d = "g_cmd_count g - v_id v"
    have r: "result_value (g\<lparr>g_stream := b\<rparr>) (v_id v) = Some (x, g\<lparr>g_stream := b\<rparr>)" for b
      using res by (auto simp: result_value_def split: option.splits be_entry.splits)
    consider (abs) "v_id v < 0x100" | (near) "0x100 \<le> v_id v" "?d \<le> 0xFF - 5" | (rel) "0x100 \<le> v_id v" "0xFF - 5 < ?d"
      by linarith
    then show ?thesis
    proof cases
      case abs
      have "codec (cd_write_byte (word_of_int (v_id v))) (\<lambda>g. do { (i, g2) \<leftarrow> g_byte g; result_value g2 (uint i) }) g x"
        by (rule codec_map [OF codec_byte]) (use abs res r in \<open>simp add: uint_word_of_int\<close>)
      then show ?thesis
        by (rule codec_seq [OF codec_byte [of BfIRParamType_StreamId_Abs8]])
          (simp add: Write_value_def res abs, simp add: Read_value_def param_type_defs)
    next
      case near
      let ?k = "word_of_int (uint BfIRParamType_StreamId_Back1 + (?d - 1)) :: u8"
      have "uint ?k = (uint BfIRParamType_StreamId_Back1 + (?d - 1)) mod 2 ^ 8"
        by (simp only: uint_word_of_int len_num1 len_bit0) simp
      also have "\<dots> = ?d + 4" using near res by (simp add: param_type_defs)
      finally have k: "uint ?k = ?d + 4" .
      have "5 \<le> uint ?k" using k res by linarith
      then have ne: "?k \<noteq> BfIRParamType_None" "?k \<noteq> BfIRParamType_Const" "?k \<noteq> BfIRParamType_Arg"
        "?k \<noteq> BfIRParamType_StreamId_Abs8" "?k \<noteq> BfIRParamType_StreamId_Rel"
        by (rule param_not_small)+
      have "codec (cd_write_byte ?k) (Read_value fpu) g x"
        by (rule codec_map [OF codec_byte])
          (simp only: Read_value_def bind.bind_lunit prod.case ne if_False k r, simp add: param_type_defs r)
      then show ?thesis using near res by (simp add: Write_value_def [abs_def] param_type_defs)
    next
      case rel
      have "in_s 4 ?d" using rel res by (simp add: in_s_def)
      then have "codec (Write_int ?d) (\<lambda>g. do { (i, g2) \<leftarrow> g_int g; result_value g2 (g_cmd_count g2 - i) }) g x"
        by (rule codec_map [OF codec_int]) (simp add: r)
      then show ?thesis
        by (rule codec_seq [OF codec_byte [of BfIRParamType_StreamId_Rel]])
          (use rel in \<open>simp add: Write_value_def res param_type_defs\<close>, simp add: Read_value_def param_type_defs)
    qed
  next
    case no
    have "codec (cd_write_byte BfIRParamType_None) (Read_value fpu) g x"
      by (rule codec_map [OF codec_byte]) (simp add: Read_value_def no)
    then show ?thesis using no by (simp add: Write_value_def [abs_def])
  qed
qed

section \<open>Commands\<close>

lemma codec_two:
  assumes "value_meaning fpu P g l = Some x" "value_meaning fpu P g r = Some y"
  shows "codec (\<lambda>b. Write_value fpu P (g_cmd_count g) l b \<bind> Write_value fpu P (g_cmd_count g) r)
    (read_two fpu) g (x, y)"
proof -
  have "codec (Write_value fpu P (g_cmd_count g) r)
      (\<lambda>g. do { (r, g2) \<leftarrow> Read_value fpu g; Some ((x, r), g2) }) g (x, y)"
    by (rule codec_map [OF codec_value [OF assms(2)]]) simp
  then show ?thesis
    by (rule codec_seq [OF codec_value [OF assms(1)]]) (simp_all add: read_two_def)
qed

lemma codec_binary:
  assumes "value_meaning fpu P g l = Some x" "value_meaning fpu P g r = Some y"
  shows "codec (\<lambda>b. Write_value fpu P (g_cmd_count g) l b \<bind> Write_value fpu P (g_cmd_count g) r)
    (read_binary fpu k) g (BeCmd_Binary k x y 0)"
  by (rule codec_map [OF codec_two [OF assms]]) (simp add: read_binary_def)

lemma codec_cmp:
  assumes "value_meaning fpu P g l = Some x" "value_meaning fpu P g r = Some y"
  shows "codec (\<lambda>b. Write_value fpu P (g_cmd_count g) l b \<bind> Write_value fpu P (g_cmd_count g) r)
    (read_cmp fpu k) g (BeCmd_Cmp k x y)"
  by (rule codec_map [OF codec_two [OF assms]]) (simp add: read_cmp_def)

text \<open>An integer below 64 is written as one byte.\<close>

lemma codec_small:
  assumes "0 \<le> i" "i < 64"
  shows "codec (Write_int i) g_byte g (word_of_int i)"
proof -
  have "emits (Write_int i) [word_of_int i]"
    using emits_int [of i] assms by (simp add: sleb.simps [of i] in_s_def)
  then show ?thesis using parses_byte unfolding codec_def by blast
qed

lemma codec_checked:
  assumes "value_meaning fpu P g l = Some x" "value_meaning fpu P g r = Some y" "ov < 64"
  shows "codec (\<lambda>b. Write_value fpu P (g_cmd_count g) l b \<bind>
      (\<lambda>b1. Write_value fpu P (g_cmd_count g) r b1 \<bind> Write_int (int ov)))
    (read_checked fpu k) g (BeCmd_Binary k x y ov)"
proof -
  have "codec (Write_int (int ov)) (\<lambda>g. do { (ov, g2) \<leftarrow> g_byte g; Some (BeCmd_Binary k x y (unat ov), g2) }) g
      (BeCmd_Binary k x y ov)"
    by (rule codec_map [OF codec_small]) (use assms(3) unat_word_of_int_small [of "int ov"] in simp_all)
  then show ?thesis
    by (rule codec_seq [OF codec_two [OF assms(1,2)]]) (simp_all add: read_checked_def)
qed

lemma codec_one:
  assumes "value_meaning fpu P g v = Some x"
    "\<And>b b1. Read_value fpu (g\<lparr>g_stream := b\<rparr>) = Some (x, g\<lparr>g_stream := b1\<rparr>) \<Longrightarrow>
       f (g\<lparr>g_stream := b\<rparr>) = Some (c, g\<lparr>g_stream := b1\<rparr>)"
  shows "codec (Write_value fpu P (g_cmd_count g) v) f g c"
  by (rule codec_map [OF codec_value [OF assms(1)]]) (rule assms(2))

lemma codec_cast:
  assumes "value_meaning fpu P g v = Some x"
  shows "codec (\<lambda>b. Write_value fpu P (g_cmd_count g) v b \<bind> (\<lambda>b1. Write_bool s b1 \<bind> Write_type_code t))
    (\<lambda>g. do { (v, g1) \<leftarrow> Read_value fpu g; (s, g2) \<leftarrow> g_bool g1; (tc, g3) \<leftarrow> Read_type_code g2;
             Some (BeCmd_NumericCast v s tc, g3) }) g (BeCmd_NumericCast x s t)"
proof -
  have "codec (Write_type_code t) (\<lambda>g. do { (tc, g3) \<leftarrow> Read_type_code g; Some (BeCmd_NumericCast x s tc, g3) }) g
      (BeCmd_NumericCast x s t)"
    by (rule codec_map [OF codec_type_code]) simp
  then have "codec (\<lambda>b. Write_bool s b \<bind> Write_type_code t)
      (\<lambda>g. do { (s, g2) \<leftarrow> g_bool g; (tc, g3) \<leftarrow> Read_type_code g2; Some (BeCmd_NumericCast x s tc, g3) }) g
      (BeCmd_NumericCast x s t)"
    by (rule codec_seq [OF codec_bool]) (rule refl, simp)
  then show ?thesis by (rule codec_seq [OF codec_value [OF assms]]) simp_all
qed

text \<open>The arguments of a command whose meaning is defined are read as that meaning.\<close>

lemma codec_cmd:
  assumes "cmd_meaning fpu P g cmd = Some c"
  shows "codec (Write_args fpu P (g_cmd_count g) cmd) (read_params fpu (ir_cmd_code cmd)) g c"
  using assms
  by (cases cmd)
    (auto simp: cmd_meaning_def Let_def Write_args_def [abs_def] read_params_def [abs_def] bind_eq_Some_conv split: if_splits
      intro!: codec_binary codec_cmp codec_checked codec_cast codec_one codec_return)

section \<open>Streams of commands\<close>

text \<open>What the commands do to the module, without a stream in between.\<close>

definition be_direct_cmd :: "ce_fpu \<Rightarrow> bf_pool \<Rightarrow> bf_ir_cmd \<Rightarrow> be_codegen \<Rightarrow> be_codegen option" where
  "be_direct_cmd fpu P cmd g =
     (let i = g_cmd_count g; g1 = g\<lparr>g_cmd_count := i + 1\<rparr>
      in cmd_meaning fpu P g1 cmd \<bind> (\<lambda>c. handle_cmd i c g1))"

fun be_direct :: "ce_fpu \<Rightarrow> bf_pool \<Rightarrow> bf_ir_cmd list \<Rightarrow> be_codegen \<Rightarrow> be_codegen option" where
  "be_direct fpu P [] g = Some g"
| "be_direct fpu P (cmd # cmds) g = be_direct_cmd fpu P cmd g \<bind> be_direct fpu P cmds"

lemma emit_inst_stream: "emit_inst i inst (g\<lparr>g_stream := b\<rparr>) = (emit_inst i inst g)\<lparr>g_stream := b\<rparr>"
  by (simp add: emit_inst_def SetResult_def split: option.splits)

lemma stream_last:
  fixes g :: be_codegen
  shows "g\<lparr>g_stream := b, g_failed := p\<rparr> = g\<lparr>g_failed := p, g_stream := b\<rparr>"
    and "g\<lparr>g_stream := b, g_cmd_count := i\<rparr> = g\<lparr>g_cmd_count := i, g_stream := b\<rparr>"
  by simp_all

text \<open>The operations of the module do not look at the stream, and do not reset a failure.\<close>

lemma handle_cmd_stream:
  "handle_cmd i c g = Some g1 \<Longrightarrow> handle_cmd i c (g\<lparr>g_stream := b\<rparr>) = Some (g1\<lparr>g_stream := b\<rparr>)"
  by (cases c)
    (auto simp: handle_cmd_def emit_inst_stream stream_last SetResult_def Let_def bind_eq_Some_conv split: option.splits if_splits)

lemma SetResult_simps [simp]:
  "g_cmd_count (SetResult i e g) = g_cmd_count g" "g_failed (SetResult i e g) = g_failed g"
  "g_stream (SetResult i e g) = g_stream g" "g_module (SetResult i e g) = g_module g"
  "g_types (SetResult i e g) = g_types g"
  by (simp_all add: SetResult_def split: option.splits)

lemma emit_inst_simps [simp]:
  "g_cmd_count (emit_inst i inst g) = g_cmd_count g" "g_failed (emit_inst i inst g) = g_failed g"
  "g_stream (emit_inst i inst g) = g_stream g"
  by (simp_all add: emit_inst_def)

lemma handle_cmd_mono:
  "handle_cmd i c g = Some g1 \<Longrightarrow>
     g_cmd_count g1 = g_cmd_count g \<and> (g_failed g \<longrightarrow> g_failed g1) \<and> g_stream g1 = g_stream g"
  by (cases c) (auto simp: handle_cmd_def Let_def bind_eq_Some_conv split: option.splits if_splits)

lemma be_direct_mono:
  "be_direct fpu P cmds g = Some g1 \<Longrightarrow> g_failed g \<Longrightarrow> g_failed g1"
  by (induction cmds arbitrary: g)
    (fastforce simp: be_direct_cmd_def Let_def bind_eq_Some_conv dest: handle_cmd_mono)+

text \<open>One command: the bytes the builder appends are those the code generator takes.\<close>

lemma stream_cmd:
  assumes "be_direct_cmd fpu P cmd g = Some g1" "\<not> g_failed g"
  shows "\<exists>bs. bs \<noteq> [] \<and>
    (\<forall>w :: ir_writer. w_cmd_count w = g_cmd_count g \<longrightarrow> cd_write_inv (w_stream w) \<longrightarrow>
       (\<exists>w1. ir_write_cmd fpu P cmd w = Some w1 \<and> w_cmd_count w1 = g_cmd_count g1 \<and> cd_write_inv (w_stream w1) \<and>
             cd_bytes (w_stream w1) = cd_bytes (w_stream w) @ bs)) \<and>
    (\<forall>n b rest. cd_flat_ok n b \<longrightarrow> cd_unread b = bs @ rest \<longrightarrow>
       (\<exists>b1. HandleNextCmd fpu (g\<lparr>g_stream := b\<rparr>) = Some (g1\<lparr>g_stream := b1\<rparr>) \<and> cd_flat_ok n b1 \<and> cd_unread b1 = rest))"
proof -
  let ?i = "g_cmd_count g"
  let ?g = "g\<lparr>g_cmd_count := ?i + 1\<rparr>"
  obtain c where c: "cmd_meaning fpu P ?g cmd = Some c" "handle_cmd ?i c ?g = Some g1"
    using assms(1) by (auto simp: be_direct_cmd_def Let_def bind_eq_Some_conv)
  have count: "g_cmd_count g1 = ?i + 1" using handle_cmd_mono [OF c(2)] by simp
  obtain as where e: "emits (Write_args fpu P (?i + 1) cmd) as" and p: "parses (read_params fpu (ir_cmd_code cmd)) ?g as c"
    using codec_cmd [OF c(1)] unfolding codec_def by auto
  show ?thesis
  proof (intro exI [of _ "ir_cmd_code cmd # as"] conjI allI impI)
    fix w :: ir_writer assume w: "w_cmd_count w = ?i" and ok: "cd_write_inv (w_stream w)"
    obtain b1 where b1: "cd_write_byte (ir_cmd_code cmd) (w_stream w) = Some b1" "cd_write_inv b1"
        "cd_bytes b1 = cd_bytes (w_stream w) @ [ir_cmd_code cmd]"
      using cd_log.write_byte [OF ok] by blast
    obtain b2 where "Write_args fpu P (?i + 1) cmd b1 = Some b2" "cd_write_inv b2" "cd_bytes b2 = cd_bytes b1 @ as"
      using e b1(2) unfolding emits_def by blast
    then show "\<exists>w1. ir_write_cmd fpu P cmd w = Some w1 \<and> w_cmd_count w1 = g_cmd_count g1 \<and> cd_write_inv (w_stream w1) \<and>
        cd_bytes (w_stream w1) = cd_bytes (w_stream w) @ ir_cmd_code cmd # as"
      using b1 w count by (simp add: ir_write_cmd_def)
  next
    fix n b rest assume ok: "cd_flat_ok n b" and u: "cd_unread b = (ir_cmd_code cmd # as) @ rest"
    obtain b1 where b1: "cd_read_byte b = Some (ir_cmd_code cmd, b1)" "cd_flat_ok n b1" "cd_unread b1 = as @ rest"
      using cd_flat.read_byte [OF ok] u by auto
    obtain b2 where b2: "read_params fpu (ir_cmd_code cmd) (?g\<lparr>g_stream := b1\<rparr>) = Some (c, ?g\<lparr>g_stream := b2\<rparr>)"
        "cd_flat_ok n b2" "cd_unread b2 = rest"
      using p b1(2,3) unfolding parses_def by blast
    have "HandleNextCmd fpu (g\<lparr>g_stream := b\<rparr>) = Some (g1\<lparr>g_stream := b2\<rparr>)"
      using b1(1) b2(1) handle_cmd_stream [OF c(2), of b2] assms(2)
      by (simp add: HandleNextCmd_def g_byte_def of_stream_def Let_def stream_last)
    then show "\<exists>b1. HandleNextCmd fpu (g\<lparr>g_stream := b\<rparr>) = Some (g1\<lparr>g_stream := b1\<rparr>) \<and> cd_flat_ok n b1 \<and> cd_unread b1 = rest"
      using b2 by blast
  qed simp
qed

lemma stream_cmds:
  assumes "be_direct fpu P cmds g = Some g1" "\<not> g_failed g1"
  shows "\<exists>bs. length cmds \<le> length bs \<and>
    (\<forall>w :: ir_writer. w_cmd_count w = g_cmd_count g \<longrightarrow> cd_write_inv (w_stream w) \<longrightarrow>
       (\<exists>w1. ir_write_all fpu P cmds w = Some w1 \<and> w_cmd_count w1 = g_cmd_count g1 \<and> cd_write_inv (w_stream w1) \<and>
             cd_bytes (w_stream w1) = cd_bytes (w_stream w) @ bs)) \<and>
    (\<forall>n m b. cd_flat_ok n b \<longrightarrow> cd_unread b = bs \<longrightarrow> length cmds \<le> m \<longrightarrow>
       (\<exists>b1. codegen_loop m fpu (int n) (g\<lparr>g_stream := b\<rparr>) = Some (g1\<lparr>g_stream := b1\<rparr>)))"
  using assms
proof (induction cmds arbitrary: g)
  case Nil
  then show ?case
    by (intro exI [of _ "[]"]) (auto simp: codegen_loop.simps cd_flat_pos intro!: exI)
next
  case (Cons cmd cmds)
  obtain g0 where g0: "be_direct_cmd fpu P cmd g = Some g0" "be_direct fpu P cmds g0 = Some g1"
    using Cons.prems(1) by (auto simp: bind_eq_Some_conv)
  have "\<not> g_failed g0" using be_direct_mono [OF g0(2)] Cons.prems(2) by blast
  then have nf: "\<not> g_failed g"
    using g0(1) by (auto simp: be_direct_cmd_def Let_def bind_eq_Some_conv dest: handle_cmd_mono)
  obtain as where as: "as \<noteq> []"
    "\<And>w :: ir_writer. w_cmd_count w = g_cmd_count g \<Longrightarrow> cd_write_inv (w_stream w) \<Longrightarrow>
       \<exists>w1. ir_write_cmd fpu P cmd w = Some w1 \<and> w_cmd_count w1 = g_cmd_count g0 \<and> cd_write_inv (w_stream w1) \<and>
             cd_bytes (w_stream w1) = cd_bytes (w_stream w) @ as"
    "\<And>n b rest. cd_flat_ok n b \<Longrightarrow> cd_unread b = as @ rest \<Longrightarrow>
       \<exists>b1. HandleNextCmd fpu (g\<lparr>g_stream := b\<rparr>) = Some (g0\<lparr>g_stream := b1\<rparr>) \<and> cd_flat_ok n b1 \<and> cd_unread b1 = rest"
    using stream_cmd [OF g0(1) nf] by blast
  obtain bs where bs: "length cmds \<le> length bs"
    "\<And>w :: ir_writer. w_cmd_count w = g_cmd_count g0 \<Longrightarrow> cd_write_inv (w_stream w) \<Longrightarrow>
       \<exists>w1. ir_write_all fpu P cmds w = Some w1 \<and> w_cmd_count w1 = g_cmd_count g1 \<and> cd_write_inv (w_stream w1) \<and>
             cd_bytes (w_stream w1) = cd_bytes (w_stream w) @ bs"
    "\<And>n m b. cd_flat_ok n b \<Longrightarrow> cd_unread b = bs \<Longrightarrow> length cmds \<le> m \<Longrightarrow>
       \<exists>b1. codegen_loop m fpu (int n) (g0\<lparr>g_stream := b\<rparr>) = Some (g1\<lparr>g_stream := b1\<rparr>)"
    using Cons.IH [OF g0(2) Cons.prems(2)] by blast
  show ?case
  proof (intro exI [of _ "as @ bs"] conjI allI impI)
    show "length (cmd # cmds) \<le> length (as @ bs)" using bs(1) as(1) by (cases as) auto
  next
    fix w :: ir_writer assume w: "w_cmd_count w = g_cmd_count g" "cd_write_inv (w_stream w)"
    obtain w1 where w1: "ir_write_cmd fpu P cmd w = Some w1" "w_cmd_count w1 = g_cmd_count g0" "cd_write_inv (w_stream w1)"
        "cd_bytes (w_stream w1) = cd_bytes (w_stream w) @ as"
      using as(2) [OF w] by blast
    then show "\<exists>w2. ir_write_all fpu P (cmd # cmds) w = Some w2 \<and> w_cmd_count w2 = g_cmd_count g1 \<and> cd_write_inv (w_stream w2) \<and>
        cd_bytes (w_stream w2) = cd_bytes (w_stream w) @ as @ bs"
      using bs(2) [OF w1(2,3)] by simp
  next
    fix n m b assume b: "cd_flat_ok n b" "cd_unread b = as @ bs" "length (cmd # cmds) \<le> m"
    obtain k where m: "m = Suc k" "length cmds \<le> k" using b(3) by (cases m) auto
    obtain b1 where b1: "HandleNextCmd fpu (g\<lparr>g_stream := b\<rparr>) = Some (g0\<lparr>g_stream := b1\<rparr>)"
        "cd_flat_ok n b1" "cd_unread b1 = bs"
      using as(3) [OF b(1,2)] by blast
    have "\<not> int n \<le> cd_get_read_pos b" using cd_flat_pos [OF b(1)] b(2) as(1) by (cases as) auto
    then have "codegen_loop m fpu (int n) (g\<lparr>g_stream := b\<rparr>) = codegen_loop k fpu (int n) (g0\<lparr>g_stream := b1\<rparr>)"
      using nf b1(1) unfolding m(1) by (subst codegen_loop.simps) simp
    then show "\<exists>b2. codegen_loop m fpu (int n) (g\<lparr>g_stream := b\<rparr>) = Some (g1\<lparr>g_stream := b2\<rparr>)"
      using bs(3) [OF b1(2,3) m(2)] by simp
  qed
qed

lemma be_direct_count:
  "be_direct fpu P cmds g = Some g1 \<Longrightarrow> g_cmd_count g1 = g_cmd_count g + int (length cmds)"
  by (induction cmds arbitrary: g)
    (fastforce simp: be_direct_cmd_def Let_def bind_eq_Some_conv dest: handle_cmd_mono)+

section \<open>Properties\<close>

text \<open>
  C26 (The command stream). The commands of the builder, written to a new stream, handed over as one
  block and decoded by the code generator, have the effect of executing them directly on the module
  with operands that stand for what the builder meant: every constant, argument and earlier result
  is the value named, and the decoder ends after exactly these commands.
\<close>

theorem ir_stream_roundtrip:
  assumes "be_direct fpu P cmds (codegen_init types M []) = Some g" "\<not> g_failed g"
  shows "\<exists>w bs b b1. ir_write_all fpu P cmds ir_writer_init = Some w \<and> w_cmd_count w = int (length cmds) \<and>
    GetBufferData (w_stream w) = Some (bs, b) \<and> be_Init fpu types M bs = Some (g\<lparr>g_stream := b1\<rparr>)"
proof -
  let ?g = "codegen_init types M []"
  obtain bs where len: "length cmds \<le> length bs"
    and wr: "\<And>w :: ir_writer. w_cmd_count w = g_cmd_count ?g \<Longrightarrow> cd_write_inv (w_stream w) \<Longrightarrow>
       \<exists>w1. ir_write_all fpu P cmds w = Some w1 \<and> w_cmd_count w1 = g_cmd_count g \<and> cd_write_inv (w_stream w1) \<and>
             cd_bytes (w_stream w1) = cd_bytes (w_stream w) @ bs"
    and rd: "\<And>n m b. cd_flat_ok n b \<Longrightarrow> cd_unread b = bs \<Longrightarrow> length cmds \<le> m \<Longrightarrow>
       \<exists>b1. codegen_loop m fpu (int n) (?g\<lparr>g_stream := b\<rparr>) = Some (g\<lparr>g_stream := b1\<rparr>)"
    using stream_cmds [OF assms] by blast
  have "cd_write_inv cd_init" using cd_ok_init(1) by (simp add: cd_ok_def)
  then obtain w where w: "ir_write_all fpu P cmds ir_writer_init = Some w" "w_cmd_count w = g_cmd_count g"
      "cd_write_inv (w_stream w)" "cd_bytes (w_stream w) = bs"
    using wr [of ir_writer_init] by (auto simp: ir_writer_init_def codegen_init_def cd_bytes_def cd_init_def)
  let ?b = "cd_init_flat_ref bs cd_init"
  have "cd_flat_ok (length bs) ?b" "cd_unread ?b = bs"
    by (simp_all add: cd_flat_ok_def cd_init_flat_ref_def cd_unread_def)
  then obtain b1 where "codegen_loop (length bs) fpu (int (length bs)) (?g\<lparr>g_stream := ?b\<rparr>) = Some (g\<lparr>g_stream := b1\<rparr>)"
    using rd len by blast
  moreover have "?g\<lparr>g_stream := ?b\<rparr> = codegen_init types M bs" by (simp add: codegen_init_def)
  ultimately show ?thesis
    using w get_buffer_data [OF w(3)] be_direct_count [OF assms(1)] by (auto simp: be_Init_def codegen_init_def)
qed

lemma ir_stream_roundtrip_witness:
  "\<exists>g. be_direct zero_fpu [BfConstant BfTypeCode_Int32 7, BfConstant BfTypeCode_Int32 (- 300)]
       [BfIRCmd_Add (BfIRValue BfIRValueFlags_Const 0) (BfIRValue BfIRValueFlags_Const 1) 1,
        BfIRCmd_NumericCast (BfIRValue BfIRValueFlags_Value 0) True BfTypeCode_Int64]
       (codegen_init (\<lambda>i. None) \<lparr>mInstructions = [], mInsertPos = -1, m_types = Map.empty, m_params = []\<rparr> []) = Some g \<and>
     \<not> g_failed g \<and>
     map snd (mInstructions (g_module g)) =
       [BeBinaryOpInst BeBinaryOpKind_Add (Some (BeConstant (BePrim BeTypeCode_Int32) 7))
          (Some (BeConstant (BePrim BeTypeCode_Int32) (- 300))) 1,
        BeNumericCastInst (Some (BeInst 0)) (BePrim BeTypeCode_Int64) True True] \<and>
     (\<exists>w bs b b1. ir_write_all zero_fpu [BfConstant BfTypeCode_Int32 7, BfConstant BfTypeCode_Int32 (- 300)]
       [BfIRCmd_Add (BfIRValue BfIRValueFlags_Const 0) (BfIRValue BfIRValueFlags_Const 1) 1,
        BfIRCmd_NumericCast (BfIRValue BfIRValueFlags_Value 0) True BfTypeCode_Int64] ir_writer_init = Some w \<and>
       GetBufferData (w_stream w) = Some (bs, b) \<and>
       be_Init zero_fpu (\<lambda>i. None) \<lparr>mInstructions = [], mInsertPos = -1, m_types = Map.empty, m_params = []\<rparr> bs =
         Some (g\<lparr>g_stream := b1\<rparr>))"
  (is "\<exists>g. be_direct zero_fpu ?P ?cmds ?g = Some g \<and> _ \<and> map snd (mInstructions (g_module g)) = ?I \<and> _")
proof -
  obtain g where g: "be_direct zero_fpu ?P ?cmds ?g = Some g" "\<not> g_failed g" "map snd (mInstructions (g_module g)) = ?I"
    by (simp add: be_direct_cmd_def cmd_meaning_def value_meaning_def const_meaning_be_def codegen_init_def
        IsConst_def BfIRValueFlags_Const_def BfIRValueFlags_Value_def BfIRValueFlags_Arg_def GetConstantById_def
        GetBeType_def GetPrimitiveType_def writes_sleb_def GetConstant_int_def handle_cmd_def emit_inst_def SetResult_def
        AddInst_def inst_type_def value_type_def result_value_def be_IsIntable_def Let_def)
  obtain w bs b b1 where r: "ir_write_all zero_fpu ?P ?cmds ir_writer_init = Some w"
      "GetBufferData (w_stream w) = Some (bs, b)"
      "be_Init zero_fpu (\<lambda>i. None) \<lparr>mInstructions = [], mInsertPos = -1, m_types = Map.empty, m_params = []\<rparr> bs =
         Some (g\<lparr>g_stream := b1\<rparr>)"
    using ir_stream_roundtrip [OF g(1,2)] by blast
  show ?thesis by (intro exI conjI) (rule g r)+
qed

text \<open>
  The index of an argument is written as a variable-length integer
  but read as one byte.  From 64 on the writer needs more than one byte: the decoder takes the first
  group with its continuation bit for the index, and the rest of the index stays in the stream,
  where the next operand is read from it.
\<close>

theorem arg_index_misread:
  assumes "\<not> IsConst v" "v_flags v AND BfIRValueFlags_Arg \<noteq> 0" "64 \<le> v_id v" "v_id v < 2 ^ 31"
  shows "\<exists>tl. tl \<noteq> [] \<and>
    (\<forall>b n. cd_write_inv b \<longrightarrow>
       (\<exists>b1. Write_value fpu P n v b = Some b1 \<and>
             cd_bytes b1 = cd_bytes b @ BfIRParamType_Arg # word_of_int (v_id v mod 128 + 128) # tl)) \<and>
    (\<forall>g n b rest. cd_flat_ok n b \<longrightarrow>
       cd_unread b = (BfIRParamType_Arg # word_of_int (v_id v mod 128 + 128) # tl) @ rest \<longrightarrow>
       (\<exists>b1. Read_value fpu (g\<lparr>g_stream := b\<rparr>) =
               Some (Some (BeArgument (nat (v_id v mod 128 + 128))), g\<lparr>g_stream := b1\<rparr>) \<and>
             cd_unread b1 = tl @ rest))"
proof (intro exI [of _ "sleb (v_id v div 128)"] conjI allI impI)
  show "sleb (v_id v div 128) \<noteq> []" by (simp add: sleb.simps [of "v_id v div 128"])
next
  fix b n assume "cd_write_inv b"
  then obtain b1 where b1: "cd_write_byte BfIRParamType_Arg b = Some b1" "cd_write_inv b1"
      "cd_bytes b1 = cd_bytes b @ [BfIRParamType_Arg]"
    using cd_log.write_byte by blast
  have id: "in_s 4 (v_id v)" using assms by (simp add: in_s_def)
  obtain b2 where "Write_int (v_id v) b1 = Some b2" "cd_bytes b2 = cd_bytes b1 @ sleb (v_id v)"
    using emits_int [OF id] b1(2) unfolding emits_def by blast
  then show "\<exists>b1. Write_value fpu P n v b = Some b1 \<and>
      cd_bytes b1 = cd_bytes b @ BfIRParamType_Arg # word_of_int (v_id v mod 128 + 128) # sleb (v_id v div 128)"
    using assms b1 by (simp add: Write_value_def sleb.simps [of "v_id v"])
next
  fix g :: be_codegen and n b rest
  assume ok: "cd_flat_ok n b" and u: "cd_unread b = (BfIRParamType_Arg # word_of_int (v_id v mod 128 + 128) # sleb (v_id v div 128)) @ rest"
  let ?k = "word_of_int (v_id v mod 128 + 128) :: u8"
  obtain b1 where b1: "cd_read_byte b = Some (BfIRParamType_Arg, b1)" "cd_flat_ok n b1"
      "cd_unread b1 = ?k # sleb (v_id v div 128) @ rest"
    using cd_flat.read_byte [OF ok] u by auto
  obtain b2 where b2: "cd_read_byte b1 = Some (?k, b2)" "cd_unread b2 = sleb (v_id v div 128) @ rest"
    using cd_flat.read_byte [OF b1(2,3)] by blast
  have k: "unat ?k = nat (v_id v mod 128 + 128)"
    by (rule unat_word_of_int_small) (use mod_128_bounds [of "v_id v"] in linarith)+
  show "\<exists>b1. Read_value fpu (g\<lparr>g_stream := b\<rparr>) =
      Some (Some (BeArgument (nat (v_id v mod 128 + 128))), g\<lparr>g_stream := b1\<rparr>) \<and>
      cd_unread b1 = sleb (v_id v div 128) @ rest"
    using b1(1) b2 unfolding k [symmetric]
    by (intro exI [of _ b2]) (simp add: Read_value_def g_byte_def of_stream_def param_type_defs)
qed

lemma arg_index_misread_witness:
  "\<exists>tl. tl \<noteq> [] \<and>
    (\<forall>b n. cd_write_inv b \<longrightarrow>
       (\<exists>b1. Write_value zero_fpu [] n (BfIRValue BfIRValueFlags_Arg 70) b = Some b1 \<and>
             cd_bytes b1 = cd_bytes b @ BfIRParamType_Arg # 198 # tl)) \<and>
    (\<forall>g n b rest. cd_flat_ok n b \<longrightarrow> cd_unread b = (BfIRParamType_Arg # 198 # tl) @ rest \<longrightarrow>
       (\<exists>b1. Read_value zero_fpu (g\<lparr>g_stream := b\<rparr>) = Some (Some (BeArgument 198), g\<lparr>g_stream := b1\<rparr>) \<and>
             cd_unread b1 = tl @ rest))"
  using arg_index_misread [of "(BfIRValue BfIRValueFlags_Arg 70)" zero_fpu "[]"]
  by (simp add: IsConst_def BfIRValueFlags_Arg_def BfIRValueFlags_Const_def)

end
