(* ===== verification/Be_Layout.thy ===== *)
theory Be_Layout
  imports Be_Module
begin

text \<open>
  Correctness of the struct layout of \<open>BeContext::SetStructBody\<close>: the members are aligned and do
  not overlap, and the alignment and size of the struct fit all of them.
\<close>

unbundle bit_operations_syntax

section \<open>Rounding up\<close>

definition is_pow2 :: "int \<Rightarrow> bool" where "is_pow2 a \<longleftrightarrow> (\<exists>k. a = 2 ^ k)"

text \<open>The positions of \<open>int\<close>.\<close>

lemma int32_id: "0 \<le> v \<Longrightarrow> v < 2 ^ 31 \<Longrightarrow> int32 v = v"
  by (rule wrap_s_id) (simp_all add: in_s_def)

lemma BF_ALIGN_pow2:
  assumes "0 \<le> v" "v + (2 ^ k - 1) < 2 ^ 31"
  shows "BF_ALIGN v (2 ^ k) = 2 ^ k * ((v + (2 ^ k - 1)) div 2 ^ k)"
proof -
  let ?x = "v + (2 ^ k - 1)"
  have "?x AND NOT (2 ^ k - 1) = push_bit k (drop_bit k ?x)"
    unfolding mask_eq_exp_minus_1 [symmetric] by (rule bit_eqI) (auto simp: bit_simps)
  moreover have "0 \<le> (2 ^ k - 1 :: int)" by simp
  then have "int32 ?x = ?x" using assms by (intro int32_id) linarith+
  ultimately show ?thesis by (simp add: BF_ALIGN_def push_bit_eq_mult drop_bit_eq_div mult.commute)
qed

lemma BF_ALIGN_bounds:
  assumes "is_pow2 a" "0 \<le> v" "v + (a - 1) < 2 ^ 31"
  shows "v \<le> BF_ALIGN v a" "BF_ALIGN v a < v + a" "a dvd BF_ALIGN v a"
proof -
  obtain k where a: "a = 2 ^ k" using assms(1) by (auto simp: is_pow2_def)
  then have "0 < a" by simp
  moreover have "BF_ALIGN v a = a * ((v + (a - 1)) div a)" unfolding a by (rule BF_ALIGN_pow2) (use assms(2,3) a in simp_all)
  moreover have "a * ((v + (a - 1)) div a) + (v + (a - 1)) mod a = v + (a - 1)" by simp
  moreover have "0 \<le> (v + (a - 1)) mod a" "(v + (a - 1)) mod a < a" using \<open>0 < a\<close> by simp_all
  ultimately show "v \<le> BF_ALIGN v a" "BF_ALIGN v a < v + a" "a dvd BF_ALIGN v a" by (linarith, linarith, simp)
qed

lemma is_pow2_pos: "is_pow2 a \<Longrightarrow> 1 \<le> a"
  by (auto simp: is_pow2_def)

text \<open>Powers of two are ordered by divisibility, so that the largest alignment fits all members.\<close>

lemma is_pow2_dvd:
  assumes "is_pow2 a" "is_pow2 b" "a \<le> b"
  shows "a dvd b"
proof -
  obtain j k where "a = 2 ^ j" "b = 2 ^ k" using assms(1,2) by (auto simp: is_pow2_def)
  then show ?thesis using assms(3) by (simp add: le_imp_power_dvd)
qed

lemma is_pow2_max: "is_pow2 a \<Longrightarrow> is_pow2 b \<Longrightarrow> is_pow2 (max a b)"
  by (simp add: max_def)

section \<open>Members\<close>

definition member_ok :: "be_context \<Rightarrow> be_type \<Rightarrow> bool" where
  "member_ok C t \<longleftrightarrow> 0 \<le> be_size C t \<and> is_pow2 (mAlign C t)"

text \<open>The room the members take at most, each with the gap in front of it.\<close>

definition members_room :: "be_context \<Rightarrow> be_type list \<Rightarrow> int" where
  "members_room C ts = sum_list (map (\<lambda>t. be_size C t + (mAlign C t - 1)) ts)"

lemma members_room_ge: "\<forall>t \<in> set ts. member_ok C t \<Longrightarrow> 0 \<le> members_room C ts"
  unfolding members_room_def by (rule sum_list_nonneg) (fastforce simp: member_ok_def dest: is_pow2_pos)

lemma layout_members_ok:
  assumes "layout_members C False pos al ts = (ms, end, al')" "\<forall>t \<in> set ts. member_ok C t" "0 \<le> pos"
    "al = -1 \<or> is_pow2 al" "pos + members_room C ts < 2 ^ 31"
  shows "map fst ms = ts \<and> pos \<le> end \<and> end \<le> pos + members_room C ts \<and> al \<le> al' \<and> (al' = al \<or> is_pow2 al') \<and>
    (al' = al \<or> (\<exists>t \<in> set ts. al' = mAlign C t)) \<and>
    (\<forall>(t, o') \<in> set ms. pos \<le> o' \<and> o' + be_size C t \<le> end \<and> mAlign C t dvd o' \<and> mAlign C t \<le> al') \<and>
    sorted_wrt (\<lambda>(t, o1) (u, o2). o1 + be_size C t \<le> o2) ms"
  using assms
proof (induction ts arbitrary: pos al ms)
  case Nil
  then show ?case by (simp add: members_room_def)
next
  case (Cons t ts)
  let ?pos = "BF_ALIGN pos (mAlign C t)" and ?al = "max al (mAlign C t)"
  have t: "0 \<le> be_size C t" "is_pow2 (mAlign C t)" using Cons.prems(2) by (simp_all add: member_ok_def)
  have room: "members_room C (t # ts) = be_size C t + (mAlign C t - 1) + members_room C ts" "0 \<le> members_room C ts"
    using members_room_ge [of ts C] Cons.prems(2) by (simp_all add: members_room_def)
  note b = BF_ALIGN_bounds [OF t(2) Cons.prems(3)]
  have fit: "pos + (mAlign C t - 1) < 2 ^ 31" "?pos + be_size C t + members_room C ts < 2 ^ 31"
    using Cons.prems(5) room t(1) b(2) by linarith+
  note b = b [OF fit(1)]
  have "int32 (?pos + be_size C t) = ?pos + be_size C t" using fit(2) room(2) b(1) t(1) Cons.prems(3) by (intro int32_id) linarith+
  then obtain ms' where l: "layout_members C False (?pos + be_size C t) ?al ts = (ms', end, al')" and ms: "ms = (t, ?pos) # ms'"
    using Cons.prems(1) by (auto simp: Let_def split: prod.splits)
  have pal: "is_pow2 ?al" using Cons.prems(4) t(2) is_pow2_max is_pow2_pos [OF t(2)] by (auto simp: max_def)
  have IH: "map fst ms' = ts" "?pos + be_size C t \<le> end" "end \<le> ?pos + be_size C t + members_room C ts" "?al \<le> al'" "al' = ?al \<or> is_pow2 al'"
    "al' = ?al \<or> (\<exists>t \<in> set ts. al' = mAlign C t)"
    "\<forall>(u, o') \<in> set ms'. ?pos + be_size C t \<le> o' \<and> o' + be_size C u \<le> end \<and> mAlign C u dvd o' \<and> mAlign C u \<le> al'"
    "sorted_wrt (\<lambda>(t, o1) (u, o2). o1 + be_size C t \<le> o2) ms'"
    using Cons.IH [OF l] Cons.prems(2,3) b t pal fit(2) by simp_all
  have e: "end \<le> pos + members_room C (t # ts)" using IH(3) b(2) room(1) by linarith
  have a: "al' = al \<or> (\<exists>u \<in> set (t # ts). al' = mAlign C u)" using IH(6) unfolding max_def by (cases "al \<le> mAlign C t") auto
  show ?case
    unfolding ms using IH b t pal e a by fastforce
qed

text \<open>
  C32 (Layout of structs). For members of non-negative size whose alignments are powers of two and which fit,
  with the gaps between them, into the positions of an \<open>int\<close>, an unpacked struct gets its members in the order of
  declaration, each at a multiple of its alignment and behind the end of all earlier ones.  The alignment of the
  struct is a multiple of that of every member, and its size is a multiple of the alignment that covers all
  members, so that the elements of an array of such structs are aligned as well.
\<close>

theorem struct_layout:
  assumes "i < length (c_structs C)" "s_align (struct_at C i) = -1" "ts \<noteq> []" "\<forall>t \<in> set ts. member_ok C t"
    and fit: "\<forall>t \<in> set ts. members_room C ts + (mAlign C t - 1) < 2 ^ 31"
  shows "let S = struct_at (SetStructBody i ts False C) i
    in map fst (mMembers S) = ts \<and>
       (\<forall>(t, pos) \<in> set (mMembers S). 0 \<le> pos \<and> mAlign C t dvd pos \<and> pos + be_size C t \<le> s_size S \<and>
           mAlign C t dvd s_align S) \<and>
       sorted_wrt (\<lambda>(t, pos1) (u, pos2). pos1 + be_size C t \<le> pos2) (mMembers S) \<and>
       is_pow2 (s_align S) \<and> s_align S dvd s_size S"
proof -
  obtain ms pos al where l: "layout_members C False 0 (-1) ts = (ms, pos, al)" by (cases "layout_members C False 0 (-1) ts")
  obtain t0 where "t0 \<in> set ts" using assms(3) by (cases ts) auto
  then have room: "0 + members_room C ts < 2 ^ 31" using fit assms(4) is_pow2_pos by (fastforce simp: member_ok_def)
  have r: "map fst ms = ts" "al = -1 \<or> is_pow2 al" "0 \<le> pos" "pos \<le> members_room C ts" "al = -1 \<or> (\<exists>t \<in> set ts. al = mAlign C t)"
    "\<forall>(t, o') \<in> set ms. 0 \<le> o' \<and> o' + be_size C t \<le> pos \<and> mAlign C t dvd o' \<and> mAlign C t \<le> al"
    "sorted_wrt (\<lambda>(t, o1) (u, o2). o1 + be_size C t \<le> o2) ms"
    using layout_members_ok [OF l assms(4) _ _ room] by auto
  have mem: "is_pow2 (mAlign C t)" if "(t, p) \<in> set ms" for t p
    using that assms(4) r(1) by (force simp: member_ok_def)
  have "ms \<noteq> []" using r(1) assms(3) by auto
  then obtain t p where "(t, p) \<in> set ms" by (cases ms) auto
  then have "al \<noteq> -1" using r(6) mem is_pow2_pos by fastforce
  then have al: "is_pow2 al" "pos + (al - 1) < 2 ^ 31" using r(2,4,5) fit by fastforce+
  note b = BF_ALIGN_bounds [OF al(1) r(3) al(2)]
  have "mAlign C t dvd al" if "(t, p) \<in> set ms" for t p
    using that r(6) mem al(1) is_pow2_dvd by blast
  then have "\<forall>(t, p) \<in> set ms. 0 \<le> p \<and> mAlign C t dvd p \<and> p + be_size C t \<le> BF_ALIGN pos al \<and> mAlign C t dvd al"
    using r(6) b(1) by fastforce
  then show ?thesis
    using r(1,7) al(1) b(3) assms(1,2) l by (simp add: SetStructBody_def struct_at_def Let_def)
qed

text \<open>A byte, a 32-bit integer and a pointer, in a context of 64-bit pointers.\<close>

lemma struct_layout_witness:
  "let C = snd (CreateStruct \<lparr>mPointerSize = 8, c_structs = []\<rparr>);
       ts = [BePrim BeTypeCode_Int8, BePrim BeTypeCode_Int32, BePrim BeTypeCode_Int8, BePointerType (BeStructType 0)];
       S = struct_at (SetStructBody 0 ts False C) 0
   in map snd (mMembers S) = [0, 4, 8, 16] \<and> s_size S = 24 \<and> is_pow2 (s_align S) \<and> s_align S dvd s_size S"
proof -
  let ?C = "snd (CreateStruct \<lparr>mPointerSize = 8, c_structs = []\<rparr>)"
  let ?ts = "[BePrim BeTypeCode_Int8, BePrim BeTypeCode_Int32, BePrim BeTypeCode_Int8, BePointerType (BeStructType 0)]"
  let ?S = "struct_at (SetStructBody 0 ?ts False ?C) 0"
  have p: "is_pow2 1" "is_pow2 4" "is_pow2 8"
    unfolding is_pow2_def by (rule exI [of _ 0], simp, rule exI [of _ 2], simp, rule exI [of _ 3], simp)
  then have "is_pow2 (s_align ?S) \<and> s_align ?S dvd s_size ?S"
    using struct_layout [of 0 ?C ?ts] by (simp add: CreateStruct_def struct_at_def member_ok_def members_room_def Let_def)
  moreover have "map snd (mMembers ?S) = [0, 4, 8, 16] \<and> s_size ?S = 24"
    by code_simp
  ultimately show ?thesis by (simp add: Let_def)
qed

text \<open>
  Beyond that bound nothing is reported: two arrays of \<open>2^30\<close> bytes make a struct whose size is negative.
\<close>

theorem struct_size_wraps:
  "let C = snd (CreateStruct \<lparr>mPointerSize = 8, c_structs = []\<rparr>);
       big = BeSizedArrayType (BePrim BeTypeCode_Int8) 0x40000000
   in s_size (struct_at (SetStructBody 0 [big, big] False C) 0) = - 0x80000000"
  by code_simp

end
