(* ===== verification/Ce_Builder.thy ===== *)
theory Ce_Builder
  imports Ce_Machine Be_Module
begin

text \<open>
  The code generator of the compile-time evaluator, \<open>CeBuilder\<close>
  (\<^verbatim>\<open>IDEHelper/Compiler/CeMachine.cpp\<close>): from the blocks of a backend function it
  produces the bytes that \<^verbatim>\<open>Ce_Machine\<close> executes.  The components follow the code: the
  emitters, the frame, the operands of instructions, one case per instruction, and the passes of
  \<open>Build\<close> with the table of jumps.

  \<open>None\<close> stands for an assertion failure, an access through a null pointer, and for the values and
  instructions that need the front end: globals, calls, constant aggregates.
\<close>

unbundle bit_operations_syntax

section \<open>State\<close>

text \<open>\<open>CeOperand\<close>, without the kinds that stand for constant aggregates and functions.\<close>

datatype (plugins only: size code) ce_operand =
    CeOperandKind_None
  | CeOperandKind_FrameOfs int be_type
  | CeOperandKind_AllocaAddr int be_type
  | CeOperandKind_Block nat
  | CeOperandKind_Immediate int be_type

record ce_phi_outgoing =
  mPhiValue :: "be_value option"
  mPhiInst :: int
  mPhiBlockIdx :: nat

record ce_block =
  mEmitOfs :: int
  mPhiOutgoing :: "ce_phi_outgoing list"

text \<open>
  The members of \<open>CeBuilder\<close> and of the function it fills; a jump is its emit position with the
  index of its block.
\<close>

record ce_builder =
  cb_code :: "u8 list"
  cb_frame_size :: int
  cb_jumps :: "(int \<times> nat) list"
  cb_operands :: "be_value \<rightharpoonup> ce_operand"
  cb_blocks :: "ce_block list"
  cb_return :: "int option"
  cb_max_return :: int
  cb_error :: "string option"

text \<open>
  What is fixed while a function is built: the types, the floating point unit of the host, and for
  each instruction the number of its uses.
\<close>

record ce_input =
  ci_context :: be_context
  ci_fpu :: ce_fpu
  ci_refs :: "int \<Rightarrow> int"

definition ptr_size :: "ce_input \<Rightarrow> int" where
  "ptr_size C = mPointerSize (ci_context C)"

definition mIntPtrType :: "ce_input \<Rightarrow> be_type" where
  "mIntPtrType C = GetPrimitiveType (if ptr_size C = 4 then BeTypeCode_Int32 else BeTypeCode_Int64)"

abbreviation type_size :: "ce_input \<Rightarrow> be_type \<Rightarrow> int" where
  "type_size C t \<equiv> be_size (ci_context C) t"

text \<open>\<open>mType\<close> of an operand; \<open>None\<close> is the null pointer.\<close>

primrec op_type :: "ce_operand \<Rightarrow> be_type option" where
  "op_type CeOperandKind_None = None"
| "op_type (CeOperandKind_FrameOfs o' t) = Some t"
| "op_type (CeOperandKind_AllocaAddr o' t) = Some t"
| "op_type (CeOperandKind_Block k) = None"
| "op_type (CeOperandKind_Immediate i t) = Some t"

primrec with_type :: "be_type \<Rightarrow> ce_operand \<Rightarrow> ce_operand" where
  "with_type t CeOperandKind_None = CeOperandKind_None"
| "with_type t (CeOperandKind_FrameOfs o' u) = CeOperandKind_FrameOfs o' t"
| "with_type t (CeOperandKind_AllocaAddr o' u) = CeOperandKind_AllocaAddr o' t"
| "with_type t (CeOperandKind_Block k) = CeOperandKind_Block k"
| "with_type t (CeOperandKind_Immediate i u) = CeOperandKind_Immediate i t"

text \<open>\<open>Fail\<close> keeps the first message.\<close>

definition cb_fail :: "string \<Rightarrow> ce_builder \<Rightarrow> ce_builder" where
  "cb_fail msg b = (case cb_error b of None \<Rightarrow> b\<lparr>cb_error := Some msg\<rparr> | Some _ \<Rightarrow> b)"

section \<open>Emitting\<close>

definition emit :: "u8 list \<Rightarrow> ce_builder \<Rightarrow> ce_builder" where
  "emit bs b = b\<lparr>cb_code := cb_code b @ bs\<rparr>"

text \<open>\<open>Emit(CeOp)\<close> of an opcode reached by adding to another one.\<close>

definition emit_op :: "nat \<Rightarrow> ce_builder \<Rightarrow> ce_builder" where
  "emit_op n = emit (le_bytes 2 (int n))"

definition emit_i32 :: "int \<Rightarrow> ce_builder \<Rightarrow> ce_builder" where
  "emit_i32 v = emit (le_bytes 4 v)"

definition GetCodePos :: "ce_builder \<Rightarrow> int" where
  "GetCodePos b = int (length (cb_code b))"

definition GetSizeClass :: "int \<Rightarrow> ce_size" where
  "GetSizeClass n =
     (if n = 1 then CeSizeClass_8 else if n = 2 then CeSizeClass_16 else if n = 4 then CeSizeClass_32
      else if n = 8 then CeSizeClass_64 else CeSizeClass_X)"

text \<open>\<open>EmitFrameOffset\<close> asserts that its operand is in the frame.\<close>

definition EmitFrameOffset :: "ce_operand \<Rightarrow> ce_builder \<Rightarrow> ce_builder option" where
  "EmitFrameOffset p b = (case p of CeOperandKind_FrameOfs o' t \<Rightarrow> Some (emit_i32 o' b) | _ \<Rightarrow> None)"

definition FrameAlloc :: "ce_input \<Rightarrow> be_type \<Rightarrow> ce_builder \<Rightarrow> ce_operand \<times> ce_builder" where
  "FrameAlloc C t b =
     (let size = cb_frame_size b + type_size C t
      in (CeOperandKind_FrameOfs (- size) t, b\<lparr>cb_frame_size := size\<rparr>))"

text \<open>\<open>EmitSizedOp(CeOp, int)\<close>\<close>

definition EmitSizedOp_size :: "ce_op \<Rightarrow> int \<Rightarrow> ce_builder \<Rightarrow> ce_builder" where
  "EmitSizedOp_size op n b =
     (let b1 = emit_op (ce_code op + size_idx (GetSizeClass n)) b
      in if GetSizeClass n = CeSizeClass_X then emit_i32 n b1 else b1)"

text \<open>
  \<open>EmitSizedOp(CeOp, operand, outResult, allowNonStdSize)\<close>, in its two uses: without and with a
  result.
\<close>

definition sized_op :: "ce_input \<Rightarrow> ce_op \<Rightarrow> be_type \<Rightarrow> bool \<Rightarrow> ce_builder \<Rightarrow> ce_builder" where
  "sized_op C op t any b =
     (let n = type_size C t
      in if n = 1 then emit_op (ce_code op) b
         else if n = 2 then emit_op (ce_code op + 1) b
         else if n = 4 then emit_op (ce_code op + 2) b
         else if n = 8 then emit_op (ce_code op + 3) b
         else let b1 = emit_op (ce_code op + 4) b; b2 = (if any then b1 else cb_fail ''Invalid operand size'' b1)
              in emit_i32 n b2)"

definition EmitSizedOp :: "ce_input \<Rightarrow> ce_op \<Rightarrow> ce_operand \<Rightarrow> bool \<Rightarrow> ce_builder \<Rightarrow> ce_builder option" where
  "EmitSizedOp C op p any b =
     (case op_type p of None \<Rightarrow> None | Some t \<Rightarrow> EmitFrameOffset p (sized_op C op t any b))"

definition EmitSizedOp_result ::
  "ce_input \<Rightarrow> ce_op \<Rightarrow> ce_operand \<Rightarrow> bool \<Rightarrow> ce_builder \<Rightarrow> (ce_operand \<times> ce_builder) option" where
  "EmitSizedOp_result C op p any b =
     (case op_type p of
        None \<Rightarrow> None
      | Some t \<Rightarrow>
          (let (r, b1) = FrameAlloc C t (sized_op C op t any b)
           in do { b2 \<leftarrow> EmitFrameOffset r b1; b3 \<leftarrow> EmitFrameOffset p b2; Some (r, b3) }))"

text \<open>\<open>EmitJump\<close>: the offset is filled in when all blocks are emitted.\<close>

definition EmitJump :: "ce_ctl_op \<Rightarrow> nat \<Rightarrow> ce_builder \<Rightarrow> ce_builder" where
  "EmitJump op k b =
     (let b1 = emit_op (ctl_code op) b
      in emit_i32 0 (b1\<lparr>cb_jumps := cb_jumps b1 @ [(GetCodePos b1, k)]\<rparr>))"

text \<open>The opcode of a numeric family for the type of the operands, and the message where there is none.\<close>

definition num_op :: "ce_input \<Rightarrow> string \<Rightarrow> ce_op \<Rightarrow> ce_op \<Rightarrow> be_type \<Rightarrow> ce_builder \<Rightarrow> nat \<times> ce_builder" where
  "num_op C what iop fop t b =
     (let n = type_size C t
      in if be_IsIntable t
         then (if n = 1 then (ce_code iop, b) else if n = 2 then (ce_code iop + 1, b)
               else if n = 4 then (ce_code iop + 2, b) else if n = 8 then (ce_code iop + 3, b)
               else (ce_code iop, cb_fail ''Invalid int operand size'' b))
         else if be_IsFloat t
         then (if n = 4 then (ce_code fop, b) else if n = 8 then (ce_code fop + 1, b)
               else (ce_code iop, cb_fail ''Invalid float operand size'' b))
         else (ce_code iop, cb_fail what b))"

definition EmitBinaryOp ::
  "ce_input \<Rightarrow> ce_op \<Rightarrow> ce_op \<Rightarrow> ce_operand \<Rightarrow> ce_operand \<Rightarrow> ce_operand \<Rightarrow> ce_builder \<Rightarrow> (ce_operand \<times> ce_builder) option" where
  "EmitBinaryOp C iop fop lhs rhs result b =
     (case op_type lhs of
        None \<Rightarrow> None
      | Some t \<Rightarrow>
          if \<not> be_IsIntable t \<and> be_IsFloat t \<and> fop = Ctl CeOp_InvalidOp then None
          else
            (let (n, b1) = num_op C ''Invalid binary operand'' iop fop t b;
                 (r, b2) = (if result = CeOperandKind_None then FrameAlloc C t (emit_op n b1) else (result, emit_op n b1))
             in do { b3 \<leftarrow> EmitFrameOffset r b2; b4 \<leftarrow> EmitFrameOffset lhs b3; b5 \<leftarrow> EmitFrameOffset rhs b4;
                     Some (r, b5) }))"

definition EmitUnaryOp ::
  "ce_input \<Rightarrow> ce_op \<Rightarrow> ce_op \<Rightarrow> ce_operand \<Rightarrow> ce_builder \<Rightarrow> (ce_operand \<times> ce_builder) option" where
  "EmitUnaryOp C iop fop v b =
     (case op_type v of
        None \<Rightarrow> None
      | Some t \<Rightarrow>
          (let (n, b1) = num_op C ''Invalid unary operand'' iop fop t b; (r, b2) = FrameAlloc C t (emit_op n b1)
           in do { b3 \<leftarrow> EmitFrameOffset r b2; b4 \<leftarrow> EmitFrameOffset v b3; Some (r, b4) }))"

text \<open>The opcodes of \<open>EmitNumericCast\<close>: between signed types, and otherwise.\<close>

definition signed_conv :: "be_type_code \<Rightarrow> be_type_code \<Rightarrow> ce_conv_op option" where
  "signed_conv from to =
     (case from of
        BeTypeCode_Int8 \<Rightarrow> (case to of BeTypeCode_Int16 \<Rightarrow> Some CeOp_Conv_I8_I16 | BeTypeCode_Int32 \<Rightarrow> Some CeOp_Conv_I8_I32
            | BeTypeCode_Int64 \<Rightarrow> Some CeOp_Conv_I8_I64 | BeTypeCode_Float \<Rightarrow> Some CeOp_Conv_I8_F32
            | BeTypeCode_Double \<Rightarrow> Some CeOp_Conv_I8_F64 | _ \<Rightarrow> None)
      | BeTypeCode_Int16 \<Rightarrow> (case to of BeTypeCode_Int32 \<Rightarrow> Some CeOp_Conv_I16_I32 | BeTypeCode_Int64 \<Rightarrow> Some CeOp_Conv_I16_I64
            | BeTypeCode_Float \<Rightarrow> Some CeOp_Conv_I16_F32 | BeTypeCode_Double \<Rightarrow> Some CeOp_Conv_I16_F64 | _ \<Rightarrow> None)
      | BeTypeCode_Int32 \<Rightarrow> (case to of BeTypeCode_Int64 \<Rightarrow> Some CeOp_Conv_I32_I64 | BeTypeCode_Float \<Rightarrow> Some CeOp_Conv_I32_F32
            | BeTypeCode_Double \<Rightarrow> Some CeOp_Conv_I32_F64 | _ \<Rightarrow> None)
      | BeTypeCode_Int64 \<Rightarrow> (case to of BeTypeCode_Float \<Rightarrow> Some CeOp_Conv_I64_F32 | BeTypeCode_Double \<Rightarrow> Some CeOp_Conv_I64_F64
            | _ \<Rightarrow> None)
      | BeTypeCode_Float \<Rightarrow> (case to of BeTypeCode_Int8 \<Rightarrow> Some CeOp_Conv_F32_I8 | BeTypeCode_Int16 \<Rightarrow> Some CeOp_Conv_F32_I16
            | BeTypeCode_Int32 \<Rightarrow> Some CeOp_Conv_F32_I32 | BeTypeCode_Int64 \<Rightarrow> Some CeOp_Conv_F32_I64
            | BeTypeCode_Double \<Rightarrow> Some CeOp_Conv_F32_F64 | _ \<Rightarrow> None)
      | BeTypeCode_Double \<Rightarrow> (case to of BeTypeCode_Int8 \<Rightarrow> Some CeOp_Conv_F64_I8 | BeTypeCode_Int16 \<Rightarrow> Some CeOp_Conv_F64_I16
            | BeTypeCode_Int32 \<Rightarrow> Some CeOp_Conv_F64_I32 | BeTypeCode_Int64 \<Rightarrow> Some CeOp_Conv_F64_I64
            | BeTypeCode_Float \<Rightarrow> Some CeOp_Conv_F64_F32 | _ \<Rightarrow> None)
      | _ \<Rightarrow> None)"

definition unsigned_conv :: "be_type_code \<Rightarrow> be_type_code \<Rightarrow> ce_conv_op option" where
  "unsigned_conv from to =
     (case from of
        BeTypeCode_Int8 \<Rightarrow> (case to of BeTypeCode_Int16 \<Rightarrow> Some CeOp_Conv_U8_U16 | BeTypeCode_Int32 \<Rightarrow> Some CeOp_Conv_U8_U32
            | BeTypeCode_Int64 \<Rightarrow> Some CeOp_Conv_U8_U64 | BeTypeCode_Float \<Rightarrow> Some CeOp_Conv_U8_F32
            | BeTypeCode_Double \<Rightarrow> Some CeOp_Conv_U8_F64 | _ \<Rightarrow> None)
      | BeTypeCode_Int16 \<Rightarrow> (case to of BeTypeCode_Int32 \<Rightarrow> Some CeOp_Conv_U16_U32 | BeTypeCode_Int64 \<Rightarrow> Some CeOp_Conv_U16_U64
            | BeTypeCode_Float \<Rightarrow> Some CeOp_Conv_U16_F32 | BeTypeCode_Double \<Rightarrow> Some CeOp_Conv_U16_F64 | _ \<Rightarrow> None)
      | BeTypeCode_Int32 \<Rightarrow> (case to of BeTypeCode_Int64 \<Rightarrow> Some CeOp_Conv_U32_U64 | BeTypeCode_Float \<Rightarrow> Some CeOp_Conv_U32_F32
            | BeTypeCode_Double \<Rightarrow> Some CeOp_Conv_U32_F64 | _ \<Rightarrow> None)
      | BeTypeCode_Int64 \<Rightarrow> (case to of BeTypeCode_Float \<Rightarrow> Some CeOp_Conv_I64_F32 | BeTypeCode_Double \<Rightarrow> Some CeOp_Conv_I64_F64
            | _ \<Rightarrow> None)
      | BeTypeCode_Float \<Rightarrow> (case to of BeTypeCode_Int8 \<Rightarrow> Some CeOp_Conv_F32_U8 | BeTypeCode_Int16 \<Rightarrow> Some CeOp_Conv_F32_U16
            | BeTypeCode_Int32 \<Rightarrow> Some CeOp_Conv_F32_U32 | BeTypeCode_Int64 \<Rightarrow> Some CeOp_Conv_F32_U64 | _ \<Rightarrow> None)
      | BeTypeCode_Double \<Rightarrow> (case to of BeTypeCode_Int8 \<Rightarrow> Some CeOp_Conv_F64_U8 | BeTypeCode_Int16 \<Rightarrow> Some CeOp_Conv_F64_U16
            | BeTypeCode_Int32 \<Rightarrow> Some CeOp_Conv_F64_U32 | BeTypeCode_Int64 \<Rightarrow> Some CeOp_Conv_F64_U64 | _ \<Rightarrow> None)
      | _ \<Rightarrow> None)"

text \<open>A truncation needs no code: the low bytes are those of the value.\<close>

definition EmitNumericCast ::
  "ce_input \<Rightarrow> ce_operand \<Rightarrow> be_type \<Rightarrow> bool \<Rightarrow> bool \<Rightarrow> ce_builder \<Rightarrow> (ce_operand \<times> ce_builder) option" where
  "EmitNumericCast C v to vs ts b =
     (case v of
        CeOperandKind_Immediate i t \<Rightarrow> Some (CeOperandKind_Immediate i to, b)
      | _ \<Rightarrow>
        (if op_type v = Some to then Some (v, b)
         else case op_type v of
           None \<Rightarrow> None
         | Some from \<Rightarrow>
             if be_IsIntable to \<and> be_IsIntable from \<and> type_size C to \<le> type_size C from
             then Some (with_type to v, b)
             else
               (let (r, b1) = FrameAlloc C to b;
                    op = (if vs \<and> ts then signed_conv else unsigned_conv) (mTypeCode from) (mTypeCode to)
                in case op of
                     None \<Rightarrow> Some (r, cb_fail ''Invalid conversion op'' b1)
                   | Some cop \<Rightarrow> do { b2 \<leftarrow> EmitFrameOffset r (emit_op (ce_code (Conv cop)) b1);
                                     b3 \<leftarrow> EmitFrameOffset v b2; Some (r, b3) })))"

text \<open>
  \<open>EmitLoad\<close>: a local variable that is loaded for a single use is not copied, the use reads the
  variable itself.
\<close>

definition EmitLoad :: "ce_input \<Rightarrow> ce_operand \<Rightarrow> int \<Rightarrow> ce_builder \<Rightarrow> (ce_operand \<times> ce_builder) option" where
  "EmitLoad C p refs b =
     (case p of
        CeOperandKind_AllocaAddr o' t \<Rightarrow>
          (if refs \<le> 1 then Some (CeOperandKind_FrameOfs o' t, b)
           else let (r, b1) = FrameAlloc C t b
                in do { b2 \<leftarrow> EmitSizedOp C (Mem (CeOp_Move CeSizeClass_8)) (CeOperandKind_FrameOfs o' t) True b1;
                        b3 \<leftarrow> EmitFrameOffset r b2; Some (r, b3) })
      | _ \<Rightarrow>
          (case op_type p of
             Some (BePointerType t) \<Rightarrow> EmitSizedOp_result C (Mem (CeOp_Load CeSizeClass_8)) (with_type t p) True b
           | _ \<Rightarrow> None))"

section \<open>Operands\<close>

text \<open>The constant of \<open>bs\<close> bytes is loaded into a new slot.\<close>

definition emit_const :: "ce_input \<Rightarrow> be_type \<Rightarrow> u8 list \<Rightarrow> ce_builder \<Rightarrow> (ce_operand \<times> ce_builder) option" where
  "emit_const C t bs b =
     (let (r, b1) = FrameAlloc C t b; sc = GetSizeClass (int (length bs))
      in do { b2 \<leftarrow> EmitFrameOffset r (emit_op (ce_code (Mem (CeOp_Const CeSizeClass_8)) + size_idx sc) b1);
              let b3 = (if sc = CeSizeClass_X then emit_i32 (int (length bs)) b2 else b2);
              Some (r, emit bs b3) })"

text \<open>A value that stands for no operand is an error; a slot for a pointer takes its place.\<close>

definition operand_missing :: "ce_input \<Rightarrow> ce_builder \<Rightarrow> ce_operand \<times> ce_builder" where
  "operand_missing C b = FrameAlloc C (mIntPtrType C) (cb_fail ''Unable to find bevalue for operand'' b)"

text \<open>The constants of scalar types, zeroes of the others; \<open>imm\<close> allows an immediate.\<close>

definition GetOperand_const :: "ce_input \<Rightarrow> be_type \<Rightarrow> u64 \<Rightarrow> bool \<Rightarrow> ce_builder \<Rightarrow> (ce_operand \<times> ce_builder) option" where
  "GetOperand_const C t w imm b =
     (case mTypeCode t of
        BeTypeCode_Float \<Rightarrow> emit_const C t (le_bytes 4 (fp_cvt (ci_fpu C) F64 F32 (uint w))) b
      | BeTypeCode_Pointer \<Rightarrow> (if w = 0 then emit_const C t (replicate (nat (ptr_size C)) 0) b else None)
      | BeTypeCode_Struct \<Rightarrow>
          (let (r, b1) = FrameAlloc C t b
           in do { b2 \<leftarrow> EmitFrameOffset r (emit_op (ce_code (Mem CeOp_Zero)) b1); Some (r, emit_i32 (type_size C t) b2) })
      | BeTypeCode_SizedArray \<Rightarrow>
          (let (r, b1) = FrameAlloc C t b
           in do { b2 \<leftarrow> EmitFrameOffset r (emit_op (ce_code (Mem CeOp_Zero)) b1); Some (r, emit_i32 (type_size C t) b2) })
      | BeTypeCode_Vector \<Rightarrow>
          (let (r, b1) = FrameAlloc C t b
           in do { b2 \<leftarrow> EmitFrameOffset r (emit_op (ce_code (Mem CeOp_Zero)) b1); Some (r, emit_i32 (type_size C t) b2) })
      | tc \<Rightarrow>
          if imm \<and> be_IsInt t then Some (CeOperandKind_Immediate (sint (ucast w :: u32)) t, b)
          else if be_IsInt t \<or> tc = BeTypeCode_Boolean \<or> tc = BeTypeCode_Double
          then emit_const C t (le_bytes (nat (type_size C t)) (uint w)) b
          else Some (operand_missing C b))"

text \<open>
  \<open>GetOperand\<close>.  Where no address of a local variable is allowed its address is computed.  The
  contents of an undefined constant are those of its uninitialised payload.
\<close>

definition GetOperand :: "ce_input \<Rightarrow> be_value option \<Rightarrow> bool \<Rightarrow> bool \<Rightarrow> ce_builder \<Rightarrow> (ce_operand \<times> ce_builder) option" where
  "GetOperand C v alloca imm b =
     (case v of
        None \<Rightarrow> Some (CeOperandKind_None, b)
      | Some (BeConstant t w) \<Rightarrow> GetOperand_const C t w imm b
      | Some (BeUndefConstant t) \<Rightarrow> None
      | Some x \<Rightarrow>
          (case cb_operands b x of
             None \<Rightarrow> Some (operand_missing C b)
           | Some (CeOperandKind_AllocaAddr o' t) \<Rightarrow>
               (if alloca then Some (CeOperandKind_AllocaAddr o' t, b)
                else let (r, b1) = FrameAlloc C (BePointerType t) b
                     in do { b2 \<leftarrow> EmitFrameOffset r (emit_op (ce_code (Mem (if ptr_size C = 4 then CeOp_FrameAddr_32
                                                                             else CeOp_FrameAddr_64))) b1);
                             Some (r, emit_i32 o' b2) })
           | Some p \<Rightarrow> Some (p, b)))"

section \<open>Instructions\<close>

text \<open>The families of the binary operations and comparisons, for integers and for floating point.\<close>

primrec binary_ops :: "be_binary_op_kind \<Rightarrow> ce_op \<times> ce_op" where
  "binary_ops BeBinaryOpKind_Add = (Arith (CeOp_Add (KI I8)), Arith (CeOp_Add (KF F32)))"
| "binary_ops BeBinaryOpKind_Subtract = (Arith (CeOp_Sub (KI I8)), Arith (CeOp_Sub (KF F32)))"
| "binary_ops BeBinaryOpKind_Multiply = (Arith (CeOp_Mul (KI I8)), Arith (CeOp_Mul (KF F32)))"
| "binary_ops BeBinaryOpKind_SDivide = (Arith (CeOp_Div (KI I8)), Arith (CeOp_Div (KF F32)))"
| "binary_ops BeBinaryOpKind_UDivide = (Arith (CeOp_DivU I8), Ctl CeOp_InvalidOp)"
| "binary_ops BeBinaryOpKind_SModulus = (Arith (CeOp_Mod (KI I8)), Arith (CeOp_Mod (KF F32)))"
| "binary_ops BeBinaryOpKind_UModulus = (Arith (CeOp_ModU I8), Ctl CeOp_InvalidOp)"
| "binary_ops BeBinaryOpKind_BitwiseAnd = (Arith (CeOp_And I8), Ctl CeOp_InvalidOp)"
| "binary_ops BeBinaryOpKind_BitwiseOr = (Arith (CeOp_Or I8), Ctl CeOp_InvalidOp)"
| "binary_ops BeBinaryOpKind_ExclusiveOr = (Arith (CeOp_Xor I8), Ctl CeOp_InvalidOp)"
| "binary_ops BeBinaryOpKind_LeftShift = (Arith (CeOp_Shl I8), Ctl CeOp_InvalidOp)"
| "binary_ops BeBinaryOpKind_RightShift = (Arith (CeOp_ShrU I8), Ctl CeOp_InvalidOp)"
| "binary_ops BeBinaryOpKind_ARightShift = (Arith (CeOp_Shr I8), Ctl CeOp_InvalidOp)"

primrec cmp_ops :: "be_cmp_kind \<Rightarrow> ce_op \<times> ce_op" where
  "cmp_ops BeCmpKind_SLT = (Cmp (CeOp_Cmp_SLT (KI I8)), Cmp (CeOp_Cmp_SLT (KF F32)))"
| "cmp_ops BeCmpKind_ULT = (Cmp (CeOp_Cmp_ULT I8), Ctl CeOp_InvalidOp)"
| "cmp_ops BeCmpKind_SLE = (Cmp (CeOp_Cmp_SLE (KI I8)), Cmp (CeOp_Cmp_SLE (KF F32)))"
| "cmp_ops BeCmpKind_ULE = (Cmp (CeOp_Cmp_ULE I8), Ctl CeOp_InvalidOp)"
| "cmp_ops BeCmpKind_EQ = (Cmp (CeOp_Cmp_EQ (KI I8)), Cmp (CeOp_Cmp_EQ (KF F32)))"
| "cmp_ops BeCmpKind_NE = (Cmp (CeOp_Cmp_NE (KI I8)), Cmp (CeOp_Cmp_NE (KF F32)))"
| "cmp_ops BeCmpKind_SGT = (Cmp (CeOp_Cmp_SGT (KI I8)), Cmp (CeOp_Cmp_SGT (KF F32)))"
| "cmp_ops BeCmpKind_UGT = (Cmp (CeOp_Cmp_UGT I8), Ctl CeOp_InvalidOp)"
| "cmp_ops BeCmpKind_SGE = (Cmp (CeOp_Cmp_SGE (KI I8)), Cmp (CeOp_Cmp_SGE (KF F32)))"
| "cmp_ops BeCmpKind_UGE = (Cmp (CeOp_Cmp_UGE I8), Ctl CeOp_InvalidOp)"

definition build_binary ::
  "ce_input \<Rightarrow> be_binary_op_kind \<Rightarrow> be_value option \<Rightarrow> be_value option \<Rightarrow> ce_builder \<Rightarrow> (ce_operand \<times> ce_builder) option" where
  "build_binary C k l r b = do {
     (x, b1) \<leftarrow> GetOperand C l False False b;
     (y, b2) \<leftarrow> GetOperand C r False False b1;
     EmitBinaryOp C (fst (binary_ops k)) (snd (binary_ops k)) x y CeOperandKind_None b2 }"

definition build_cmp ::
  "ce_input \<Rightarrow> be_cmp_kind \<Rightarrow> be_value option \<Rightarrow> be_value option \<Rightarrow> ce_builder \<Rightarrow> (ce_operand \<times> ce_builder) option" where
  "build_cmp C k l r b = do {
     (x, b1) \<leftarrow> GetOperand C l False False b;
     (y, b2) \<leftarrow> GetOperand C r False False b1;
     let (res, b3) = FrameAlloc C (GetPrimitiveType BeTypeCode_Boolean) b2;
     EmitBinaryOp C (fst (cmp_ops k)) (snd (cmp_ops k)) x y res b3 }"

definition build_not :: "ce_input \<Rightarrow> be_value option \<Rightarrow> ce_builder \<Rightarrow> (ce_operand \<times> ce_builder) option" where
  "build_not C v b = do {
     (x, b1) \<leftarrow> GetOperand C v False False b;
     t \<leftarrow> op_type x;
     EmitUnaryOp C (if mTypeCode t = BeTypeCode_Boolean then Unary CeOp_Not_I1 else Unary (CeOp_Not I8))
       (Ctl CeOp_InvalidOp) x b1 }"

text \<open>The integer type in a bit cast has eight bytes.\<close>

definition build_bitcast ::
  "ce_input \<Rightarrow> be_value option \<Rightarrow> be_type \<Rightarrow> ce_builder \<Rightarrow> (ce_operand \<times> ce_builder) option" where
  "build_bitcast C v t b =
     (if (if be_IsInt t then type_size C t \<noteq> 8 else \<not> be_IsPointer t) then None
      else do {
        (x, b1) \<leftarrow> GetOperand C v False True b;
        case x of
          CeOperandKind_Immediate i u \<Rightarrow>
            (if i = 0 then Some (CeOperandKind_Immediate 0 t, b1)
             else let (r, b2) = FrameAlloc C t b1
                  in do { b3 \<leftarrow> EmitSizedOp C (Mem (CeOp_Const CeSizeClass_8)) r True b2;
                          Some (r, emit (le_bytes (nat (type_size C t)) i) b3) })
        | _ \<Rightarrow> do { u \<leftarrow> op_type x;
                    Some (with_type t x, if type_size C t \<noteq> type_size C u then cb_fail ''Invalid bitcast'' b1 else b1) } })"

text \<open>\<open>BeAllocaInst\<close> without an array size: in the head of the function the space is part of the frame.\<close>

definition build_alloca :: "ce_input \<Rightarrow> be_type \<Rightarrow> bool \<Rightarrow> ce_builder \<Rightarrow> (ce_operand \<times> ce_builder) option" where
  "build_alloca C t head b =
     (if head
      then let size = cb_frame_size b + type_size C t
           in Some (CeOperandKind_AllocaAddr (- size) t, b\<lparr>cb_frame_size := size\<rparr>)
      else let b1 = emit_i32 (- type_size C t) (emit_op (ce_code (Stk CeOp_AdjustSPConst)) b);
               (r, b2) = FrameAlloc C (BePointerType t) b1
           in do { b3 \<leftarrow> EmitFrameOffset r (emit_op (ce_code (Stk CeOp_GetSP)) b2); Some (r, b3) })"

definition build_store :: "ce_input \<Rightarrow> be_value option \<Rightarrow> be_value option \<Rightarrow> ce_builder \<Rightarrow> ce_builder option" where
  "build_store C v p b = do {
     (x, b1) \<leftarrow> GetOperand C v False False b;
     (q, b2) \<leftarrow> GetOperand C p True False b1;
     case q of
       CeOperandKind_AllocaAddr o' t \<Rightarrow>
         do { b3 \<leftarrow> EmitSizedOp C (Mem (CeOp_Move CeSizeClass_8)) x True b2; Some (emit_i32 o' b3) }
     | _ \<Rightarrow> do { b3 \<leftarrow> EmitSizedOp C (Mem (CeOp_Store CeSizeClass_8)) x True b2; EmitFrameOffset q b3 } }"

text \<open>The move of the returned value to the start of the caller's part of the frame.\<close>

definition build_ret_value :: "ce_input \<Rightarrow> be_value option \<Rightarrow> ce_builder \<Rightarrow> ce_builder option" where
  "build_ret_value C v b =
     (case v of
        None \<Rightarrow> Some b
      | Some _ \<Rightarrow> do {
          (x, b1) \<leftarrow> GetOperand C v False False b;
          t \<leftarrow> op_type x;
          if type_size C t > 0
          then (case cb_return b1 of
                  None \<Rightarrow> None
                | Some o' \<Rightarrow> do { b2 \<leftarrow> EmitSizedOp C (Mem (CeOp_Move CeSizeClass_8)) x True b1; Some (emit_i32 o' b2) })
          else Some b1 })"

text \<open>
  \<open>FlushPhi\<close>: the move for the first phi instruction of the target block, which is then removed
  from the list.
\<close>

definition FlushPhi :: "ce_input \<Rightarrow> nat \<Rightarrow> nat \<Rightarrow> ce_builder \<Rightarrow> ce_builder option" where
  "FlushPhi C k target b =
     (if k < length (cb_blocks b)
      then (let blk = cb_blocks b ! k; here = (\<lambda>p. mPhiBlockIdx p = target)
            in case find here (mPhiOutgoing blk) of
                 None \<Rightarrow> Some b
               | Some p \<Rightarrow> do {
                   (dst, b1) \<leftarrow> GetOperand C (Some (BeInst (mPhiInst p))) False False b;
                   (x, b2) \<leftarrow> GetOperand C (mPhiValue p) False False b1;
                   b3 \<leftarrow> EmitSizedOp C (Mem (CeOp_Move CeSizeClass_8)) x True b2;
                   b4 \<leftarrow> EmitFrameOffset dst b3;
                   let rest = takeWhile (\<lambda>q. \<not> here q) (mPhiOutgoing blk) @ tl (dropWhile (\<lambda>q. \<not> here q) (mPhiOutgoing blk));
                   Some (b4\<lparr>cb_blocks := (cb_blocks b4)[k := blk\<lparr>mPhiOutgoing := rest\<rparr>]\<rparr>) })
      else None)"

definition build_br :: "ce_input \<Rightarrow> nat \<Rightarrow> nat \<Rightarrow> ce_builder \<Rightarrow> ce_builder option" where
  "build_br C k target b = do {
     b1 \<leftarrow> FlushPhi C k target b;
     Some (if target = k + 1 then b1 else EmitJump CeOp_Jmp target b1) }"

text \<open>The moves for the true block are emitted before the test, those for the false block after it.\<close>

definition build_cond_br :: "ce_input \<Rightarrow> nat \<Rightarrow> be_value option \<Rightarrow> nat \<Rightarrow> nat \<Rightarrow> ce_builder \<Rightarrow> ce_builder option" where
  "build_cond_br C k cond tb fb b = do {
     (x, b1) \<leftarrow> GetOperand C cond True False b;
     b2 \<leftarrow> FlushPhi C k tb b1;
     b3 \<leftarrow> EmitFrameOffset x (EmitJump CeOp_JmpIf tb b2);
     b4 \<leftarrow> FlushPhi C k fb b3;
     Some (EmitJump CeOp_Jmp fb b4) }"

text \<open>\<open>EmitBinarySwitchSection\<close>: a comparison and a jump for each case, in the order of the case values.\<close>

fun build_cases :: "ce_input \<Rightarrow> be_value option \<Rightarrow> (be_type \<times> u64 \<times> nat) list \<Rightarrow> ce_builder \<Rightarrow> ce_builder option" where
  "build_cases C v [] b = Some b"
| "build_cases C v ((t, w, blk) # cs) b = do {
     (x, b1) \<leftarrow> GetOperand C v False False b;
     (y, b2) \<leftarrow> GetOperand C (Some (BeConstant t w)) False False b1;
     (r, b3) \<leftarrow> EmitBinaryOp C (fst (cmp_ops BeCmpKind_EQ)) (snd (cmp_ops BeCmpKind_EQ)) x y CeOperandKind_None b2;
     b4 \<leftarrow> EmitFrameOffset r (EmitJump CeOp_JmpIf blk b3);
     build_cases C v cs b4 }"

definition build_switch ::
  "ce_input \<Rightarrow> be_value option \<Rightarrow> nat \<Rightarrow> (be_type \<times> u64 \<times> nat) list \<Rightarrow> ce_builder \<Rightarrow> ce_builder option" where
  "build_switch C v dflt cases b = do {
     b1 \<leftarrow> build_cases C v (sort_key (\<lambda>(t, w, blk). sint w) cases) b;
     Some (EmitJump CeOp_Jmp dflt b1) }"

text \<open>One instruction: the operand of its result and whether the head of the function goes on.\<close>

definition no_result :: "ce_builder option \<Rightarrow> (ce_operand \<times> ce_builder) option" where
  "no_result r = map_option (\<lambda>b. (CeOperandKind_None, b)) r"

definition build_inst ::
  "ce_input \<Rightarrow> nat \<Rightarrow> bool \<Rightarrow> int \<Rightarrow> be_inst \<Rightarrow> ce_builder \<Rightarrow> (ce_operand \<times> ce_builder) option" where
  "build_inst C k head i inst b =
     (case inst of
        BeBinaryOpInst op l r ov \<Rightarrow> build_binary C op l r b
      | BeCmpInst op l r \<Rightarrow> build_cmp C op l r b
      | BeNumericCastInst v t vs ts \<Rightarrow>
          do { (x, b1) \<leftarrow> GetOperand C v False False b; EmitNumericCast C x t vs ts b1 }
      | BeNegInst v \<Rightarrow>
          do { (x, b1) \<leftarrow> GetOperand C v False False b;
               EmitUnaryOp C (Unary (CeOp_Neg (KI I8))) (Unary (CeOp_Neg (KF F32))) x b1 }
      | BeNotInst v \<Rightarrow> build_not C v b
      | BeNopInst \<Rightarrow> Some (CeOperandKind_None, b)
      | BeUnreachableInst \<Rightarrow> Some (CeOperandKind_None, emit_op (ce_code (Ctl CeOp_InvalidOp)) b)
      | BeUndefValueInst t \<Rightarrow> Some (FrameAlloc C t b)
      | BeBitCastInst v t \<Rightarrow> build_bitcast C v t b
      | BeAllocaInst t n \<Rightarrow> (if n = None then build_alloca C t head b else None)
      | BeLoadInst p \<Rightarrow> do { (x, b1) \<leftarrow> GetOperand C p True False b; EmitLoad C x (ci_refs C i) b1 }
      | BeStoreInst v p \<Rightarrow> no_result (build_store C v p b)
      | BeBrInst t \<Rightarrow> no_result (build_br C k t b)
      | BeCondBrInst c t f \<Rightarrow> no_result (build_cond_br C k c t f b)
      | BePhiInst t ins \<Rightarrow> GetOperand C (Some (BeInst i)) False False b
      | BeSwitchInst v d cs \<Rightarrow> no_result (build_switch C v d cs b)
      | BeRetInst v \<Rightarrow> no_result (map_option (emit_op (ce_code (Ctl CeOp_Ret))) (build_ret_value C v b))
      | BeSetRetInst v n \<Rightarrow>
          no_result (map_option (\<lambda>b1. emit_i32 n (emit_op (ce_code (Ctl CeOp_SetRetType)) b1)) (build_ret_value C v b)))"

definition keeps_head :: "be_inst \<Rightarrow> bool" where
  "keeps_head inst = (case inst of BeAllocaInst t n \<Rightarrow> True | BeNumericCastInst v t vs ts \<Rightarrow> True
                                 | BeBitCastInst v t \<Rightarrow> True | _ \<Rightarrow> False)"

fun build_insts ::
  "ce_input \<Rightarrow> nat \<Rightarrow> (int \<times> be_inst) list \<Rightarrow> bool \<times> ce_builder \<Rightarrow> (bool \<times> ce_builder) option" where
  "build_insts C k [] (head, b) = Some (head, b)"
| "build_insts C k ((i, inst) # is) (head, b) =
     (let head1 = (head \<and> keeps_head inst)
      in case build_inst C k head1 i inst b of
           None \<Rightarrow> None
         | Some (r, b1) \<Rightarrow>
             (let b2 = (if r = CeOperandKind_None then b1
                        else b1\<lparr>cb_operands := (cb_operands b1)(BeInst i \<mapsto> r)\<rparr>)
              in build_insts C k is (head1, b2)))"

section \<open>Functions\<close>

text \<open>A function: its blocks and the types of its parameters.\<close>

record be_function =
  mBlocks :: "(int \<times> be_inst) list list"
  mParams :: "be_type list"

text \<open>
  The pass over all instructions that reserves the slots of the phi instructions, hands their
  incoming values to the blocks they come from, and finds the size of the returned value.  The type
  of a returned value is looked up in \<open>M\<close>.
\<close>

fun add_phis :: "int \<Rightarrow> nat \<Rightarrow> (nat \<times> be_value option) list \<Rightarrow> ce_block list \<Rightarrow> ce_block list option" where
  "add_phis i k [] bs = Some bs"
| "add_phis i k ((from, v) # ins) bs =
     (if from < length bs
      then add_phis i k ins (bs[from := (bs ! from)\<lparr>mPhiOutgoing := mPhiOutgoing (bs ! from) @
                                   [\<lparr>mPhiValue = v, mPhiInst = i, mPhiBlockIdx = k\<rparr>]\<rparr>])
      else None)"

definition pre_inst :: "ce_input \<Rightarrow> be_module \<Rightarrow> nat \<Rightarrow> int \<times> be_inst \<Rightarrow> ce_builder \<Rightarrow> ce_builder option" where
  "pre_inst C M k = (\<lambda>(i, inst) b.
     (let ret = (\<lambda>v. case v of
                       None \<Rightarrow> Some b
                     | Some _ \<Rightarrow> map_option (\<lambda>t. b\<lparr>cb_max_return := max (type_size C t) (cb_max_return b)\<rparr>) (value_type M v))
      in case inst of
           BePhiInst t ins \<Rightarrow>
             (let (r, b1) = FrameAlloc C t b
              in do { bs \<leftarrow> add_phis i k ins (cb_blocks b1);
                      Some (b1\<lparr>cb_operands := (cb_operands b1)(BeInst i \<mapsto> r), cb_blocks := bs\<rparr>) })
         | BeRetInst v \<Rightarrow> ret v
         | BeSetRetInst v n \<Rightarrow> ret v
         | _ \<Rightarrow> Some b))"

fun pre_insts :: "ce_input \<Rightarrow> be_module \<Rightarrow> nat \<Rightarrow> (int \<times> be_inst) list \<Rightarrow> ce_builder \<Rightarrow> ce_builder option" where
  "pre_insts C M k [] b = Some b"
| "pre_insts C M k (x # xs) b = do { b1 \<leftarrow> pre_inst C M k x b; pre_insts C M k xs b1 }"

fun pre_blocks :: "ce_input \<Rightarrow> be_module \<Rightarrow> nat \<Rightarrow> (int \<times> be_inst) list list \<Rightarrow> ce_builder \<Rightarrow> ce_builder option" where
  "pre_blocks C M k [] b = Some b"
| "pre_blocks C M k (x # xs) b = do { b1 \<leftarrow> pre_insts C M k x b; pre_blocks C M (Suc k) xs b1 }"

text \<open>\<open>HandleParams\<close>: the returned value and the parameters, from the frame address upwards.\<close>

fun param_slots :: "ce_input \<Rightarrow> nat \<Rightarrow> int \<Rightarrow> be_type list \<Rightarrow> (be_value \<rightharpoonup> ce_operand) \<Rightarrow> (be_value \<rightharpoonup> ce_operand)" where
  "param_slots C n ofs [] m = m"
| "param_slots C n ofs (t # ts) m =
     param_slots C (Suc n) (ofs + type_size C t) ts (m(BeArgument n \<mapsto> CeOperandKind_FrameOfs ofs t))"

definition HandleParams :: "ce_input \<Rightarrow> be_type list \<Rightarrow> ce_builder \<Rightarrow> ce_builder" where
  "HandleParams C ts b =
     (let ret = (cb_max_return b > 0); ofs = (if ret then cb_max_return b else 0)
      in b\<lparr>cb_return := (if ret then Some 0 else cb_return b), cb_operands := param_slots C 0 ofs ts (cb_operands b)\<rparr>)"

fun build_blocks ::
  "ce_input \<Rightarrow> be_type list \<Rightarrow> nat \<Rightarrow> (int \<times> be_inst) list list \<Rightarrow> bool \<times> ce_builder \<Rightarrow> ce_builder option" where
  "build_blocks C ps k [] (head, b) = Some b"
| "build_blocks C ps k (is # blks) (head, b) =
     (let b1 = b\<lparr>cb_blocks := (cb_blocks b)[k := (cb_blocks b ! k)\<lparr>mEmitOfs := GetCodePos b\<rparr>]\<rparr>;
          b2 = (if k = 0 then HandleParams C ps b1 else b1)
      in case build_insts C k is (head, b2) of
           None \<Rightarrow> None
         | Some hb \<Rightarrow> build_blocks C ps (Suc k) blks hb)"

text \<open>The offsets of the jumps, once the positions of all blocks are known.\<close>

definition patch_i32 :: "int \<Rightarrow> int \<Rightarrow> u8 list \<Rightarrow> u8 list" where
  "patch_i32 pos v code = take (nat pos) code @ le_bytes 4 v @ drop (nat pos + 4) code"

fun patch_jumps :: "ce_block list \<Rightarrow> (int \<times> nat) list \<Rightarrow> u8 list \<Rightarrow> u8 list option" where
  "patch_jumps blks [] code = Some code"
| "patch_jumps blks ((pos, k) # js) code =
     (if k < length blks then patch_jumps blks js (patch_i32 pos (mEmitOfs (blks ! k) - pos - 4) code) else None)"

definition cb_init :: "nat \<Rightarrow> ce_builder" where
  "cb_init n = \<lparr>cb_code = [], cb_frame_size = 0, cb_jumps = [], cb_operands = Map.empty,
     cb_blocks = replicate n \<lparr>mEmitOfs = -1, mPhiOutgoing = []\<rparr>, cb_return = None, cb_max_return = 0, cb_error = None\<rparr>"

text \<open>\<open>Build\<close>: the function object; an empty function is not one.\<close>

definition CeBuild :: "ce_input \<Rightarrow> be_module \<Rightarrow> be_function \<Rightarrow> ce_function option" where
  "CeBuild C M f = do {
     b1 \<leftarrow> pre_blocks C M 0 (mBlocks f) (cb_init (length (mBlocks f)));
     b2 \<leftarrow> build_blocks C (mParams f) 0 (mBlocks f) (True, b1);
     code \<leftarrow> patch_jumps (cb_blocks b2) (cb_jumps b2) (cb_code b2);
     let b3 = (if code = [] then cb_fail ''No method definition available'' b2 else b2);
     Some \<lparr>mFunctionKind = CeFunctionKind_Normal, mFailed = (code = [] \<or> cb_error b3 \<noteq> None), mIsVarReturn = False,
           mCode = code, mFrameSize = (if code = [] then 0 else cb_frame_size b3)\<rparr> }"

end
