(* ===== verification/Ce_Builder_Props.thy ===== *)
theory Ce_Builder_Props
  imports Ce_Builder Ce_Machine_Spec
begin

text \<open>
  What holds of every step of \<open>CeBuilder\<close>: the code, the frame and the table of jumps only grow,
  the jumps lie in the new code, and an error is kept.  Then the builder as it stands before each
  instruction of a function, and the effect of filling in the jumps.
\<close>

section \<open>Growth\<close>

text \<open>The jumps of the code between two positions, one after the other.\<close>

fun gaps :: "int \<Rightarrow> (int \<times> nat) list \<Rightarrow> int \<Rightarrow> bool" where
  "gaps lo [] hi \<longleftrightarrow> lo \<le> hi"
| "gaps lo ((p, k) # js) hi \<longleftrightarrow> lo \<le> p \<and> gaps (p + 4) js hi"

lemma gaps_le: "gaps lo js hi \<Longrightarrow> lo \<le> hi"
  by (induction lo js hi rule: gaps.induct) auto

lemma gaps_append: "gaps lo js mid \<Longrightarrow> gaps mid ks hi \<Longrightarrow> gaps lo (js @ ks) hi"
proof (induction lo js mid rule: gaps.induct)
  case (1 lo hi')
  then show ?case by (cases ks) auto
qed auto

lemma gaps_mono: "gaps lo js hi \<Longrightarrow> hi \<le> hi' \<Longrightarrow> gaps lo js hi'"
  by (induction lo js hi rule: gaps.induct) auto

lemma gaps_in: "gaps lo js hi \<Longrightarrow> (p, k) \<in> set js \<Longrightarrow> lo \<le> p \<and> p + 4 \<le> hi"
  by (induction lo js hi rule: gaps.induct) (auto dest: gaps_le)

definition grows :: "ce_builder \<Rightarrow> ce_builder \<Rightarrow> bool" where
  "grows b b' \<longleftrightarrow>
     (\<exists>seg. cb_code b' = cb_code b @ seg) \<and>
     (\<exists>js. cb_jumps b' = cb_jumps b @ js \<and> gaps (GetCodePos b) js (GetCodePos b')) \<and>
     cb_frame_size b \<le> cb_frame_size b' \<and> (cb_error b' = None \<longrightarrow> cb_error b = None) \<and>
     cb_operands b' = cb_operands b \<and> cb_blocks b' = cb_blocks b \<and>
     cb_return b' = cb_return b \<and> cb_max_return b' = cb_max_return b"

lemma GetCodePos_append [simp]: "cb_code b' = cb_code b @ seg \<Longrightarrow> GetCodePos b' = GetCodePos b + int (length seg)"
  by (simp add: GetCodePos_def)

lemma grows_refl [simp]: "grows b b"
  by (auto simp: grows_def)

lemma grows_trans [trans]:
  assumes "grows a b" "grows b c"
  shows "grows a c"
proof -
  from assms obtain s1 s2 js ks where
    "cb_code b = cb_code a @ s1" "cb_code c = cb_code b @ s2"
    "cb_jumps b = cb_jumps a @ js" "cb_jumps c = cb_jumps b @ ks"
    "gaps (GetCodePos a) js (GetCodePos b)" "gaps (GetCodePos b) ks (GetCodePos c)"
    unfolding grows_def by blast
  moreover from this have "gaps (GetCodePos a) (js @ ks) (GetCodePos c)" by (blast intro: gaps_append)
  ultimately show ?thesis using assms unfolding grows_def by auto
qed

lemma grows_emit [simp]: "grows b (emit bs b)"
  by (simp add: grows_def emit_def GetCodePos_def)

lemma grows_emit_op [simp]: "grows b (emit_op n b)"
  by (simp add: emit_op_def)

lemma grows_emit_i32 [simp]: "grows b (emit_i32 v b)"
  by (simp add: emit_i32_def)

lemma grows_fail [simp]: "grows b (cb_fail msg b)"
  by (auto simp: grows_def cb_fail_def GetCodePos_def split: option.splits)

lemma grows_EmitFrameOffset: "EmitFrameOffset p b = Some b' \<Longrightarrow> grows b b'"
  by (auto simp: EmitFrameOffset_def split: ce_operand.splits)

lemma grows_EmitJump [simp]: "grows b (EmitJump op k b)"
proof -
  have "grows b (emit_op (ctl_code op) b)" by simp
  moreover have "grows b1 (emit_i32 0 (b1\<lparr>cb_jumps := cb_jumps b1 @ [(GetCodePos b1, k)]\<rparr>))" for b1
    by (auto simp: grows_def emit_i32_def emit_def GetCodePos_def)
  ultimately show ?thesis unfolding EmitJump_def Let_def by (rule grows_trans)
qed

section \<open>Types whose sizes are known\<close>

text \<open>A type is sized if the frame can hold it and everything it points to.\<close>

primrec sized :: "be_context \<Rightarrow> be_type \<Rightarrow> bool" where
  "sized C (BePrim c) \<longleftrightarrow> 0 \<le> be_size C (BePrim c)"
| "sized C (BePointerType t) \<longleftrightarrow> 0 \<le> mPointerSize C \<and> sized C t"
| "sized C (BeStructType i) \<longleftrightarrow> 0 \<le> be_size C (BeStructType i)"
| "sized C (BeSizedArrayType t n) \<longleftrightarrow> 0 \<le> be_size C (BeSizedArrayType t n)"
| "sized C (BeVectorType t n) \<longleftrightarrow> 0 \<le> be_size C (BeVectorType t n)"

lemma sized_size: "sized C t \<Longrightarrow> 0 \<le> be_size C t"
  by (cases t) auto

definition op_sized :: "ce_input \<Rightarrow> ce_operand \<Rightarrow> bool" where
  "op_sized C p \<longleftrightarrow> (\<forall>t. op_type p = Some t \<longrightarrow> sized (ci_context C) t)"

lemma op_sized_simps [simp]:
  "op_sized C CeOperandKind_None" "op_sized C (CeOperandKind_Block k)"
  "op_sized C (CeOperandKind_FrameOfs o' t) \<longleftrightarrow> sized (ci_context C) t"
  "op_sized C (CeOperandKind_AllocaAddr o' t) \<longleftrightarrow> sized (ci_context C) t"
  "op_sized C (CeOperandKind_Immediate i t) \<longleftrightarrow> sized (ci_context C) t"
  by (auto simp: op_sized_def)

lemma op_sized_type: "op_sized C p \<Longrightarrow> op_type p = Some t \<Longrightarrow> sized (ci_context C) t"
  by (simp add: op_sized_def)

lemma op_sized_with: "sized (ci_context C) t \<Longrightarrow> op_sized C (with_type t p)"
  by (cases p) auto

text \<open>A builder whose operands are sized, for a context with a pointer size.\<close>

definition cb_sized :: "ce_input \<Rightarrow> ce_builder \<Rightarrow> bool" where
  "cb_sized C b \<longleftrightarrow> ptr_size C \<in> {4, 8} \<and> (\<forall>v p. cb_operands b v = Some p \<longrightarrow> op_sized C p)"

lemma cb_sized_grows: "grows b b' \<Longrightarrow> cb_sized C b' \<longleftrightarrow> cb_sized C b"
  by (simp add: cb_sized_def grows_def)

lemma sized_ptr: "cb_sized C b \<Longrightarrow> sized (ci_context C) t \<Longrightarrow> sized (ci_context C) (BePointerType t)"
  by (auto simp: cb_sized_def ptr_size_def)

lemma sized_int_ptr: "cb_sized C b \<Longrightarrow> sized (ci_context C) (mIntPtrType C)"
  by (auto simp: cb_sized_def mIntPtrType_def GetPrimitiveType_def)

lemma sized_bool [simp]: "sized D (GetPrimitiveType BeTypeCode_Boolean)"
  by (simp add: GetPrimitiveType_def)

lemma grows_FrameAlloc:
  "FrameAlloc C t b = (r, b') \<Longrightarrow> sized (ci_context C) t \<Longrightarrow> grows b b' \<and> op_sized C r"
  by (auto simp: FrameAlloc_def Let_def grows_def GetCodePos_def sized_size)

section \<open>Every emitter grows\<close>

text \<open>The result of an emitter: the builder has grown and the operand is sized.\<close>

definition emits_op :: "ce_input \<Rightarrow> ce_builder \<Rightarrow> (ce_operand \<times> ce_builder) option \<Rightarrow> bool" where
  "emits_op C b r \<longleftrightarrow> (\<forall>p b'. r = Some (p, b') \<longrightarrow> grows b b' \<and> op_sized C p)"

lemma emits_opD: "emits_op C b r \<Longrightarrow> r = Some (p, b') \<Longrightarrow> grows b b' \<and> op_sized C p"
  by (simp add: emits_op_def)

lemma emits_op_None [simp]: "emits_op C b None"
  by (simp add: emits_op_def)

lemma emits_op_Some [simp]: "emits_op C b (Some (p, b')) \<longleftrightarrow> grows b b' \<and> op_sized C p"
  by (simp add: emits_op_def)

lemma emits_op_bind:
  assumes "emits_op C b r" "\<And>p b1. grows b b1 \<Longrightarrow> op_sized C p \<Longrightarrow> emits_op C b (f p b1)"
  shows "emits_op C b (r \<bind> (\<lambda>(p, b1). f p b1))"
proof (cases r)
  case (Some a)
  obtain p b1 where "a = (p, b1)" by fastforce
  moreover from this Some assms(1) have "grows b b1" "op_sized C p" by (simp_all add: emits_op_def)
  ultimately show ?thesis using assms(2) [of b1 p] Some by simp
qed simp

lemma emits_op_offset:
  "grows b b1 \<Longrightarrow> (\<And>b'. grows b b' \<Longrightarrow> emits_op C b (f b')) \<Longrightarrow> emits_op C b (EmitFrameOffset p b1 \<bind> f)"
  by (cases "EmitFrameOffset p b1") (auto dest: grows_EmitFrameOffset intro: grows_trans)

lemma emits_op_alloc:
  "grows b b1 \<Longrightarrow> sized (ci_context C) t \<Longrightarrow> (\<And>r b'. grows b b' \<Longrightarrow> op_sized C r \<Longrightarrow> emits_op C b (f r b')) \<Longrightarrow>
   emits_op C b (case FrameAlloc C t b1 of (r, b') \<Rightarrow> f r b')"
  using grows_FrameAlloc [of C t b1] by (cases "FrameAlloc C t b1") (auto intro: grows_trans)

lemma emits_op_trans: "grows b b1 \<Longrightarrow> emits_op C b1 r \<Longrightarrow> emits_op C b r"
  by (auto simp: emits_op_def intro: grows_trans)

lemma grows_step:
  "grows b b1 \<Longrightarrow> grows b (emit bs b1)" "grows b b1 \<Longrightarrow> grows b (emit_op n b1)"
  "grows b b1 \<Longrightarrow> grows b (emit_i32 v b1)" "grows b b1 \<Longrightarrow> grows b (cb_fail msg b1)"
  "grows b b1 \<Longrightarrow> grows b (EmitJump op k b1)"
  by (auto intro: grows_trans grows_emit grows_emit_op grows_emit_i32 grows_fail grows_EmitJump)

lemma grows_num_op: "num_op C what iop fop t b = (n, b') \<Longrightarrow> grows b b'"
  by (auto simp: num_op_def Let_def split: if_splits)

lemma grows_sized_op [intro]: "grows b b1 \<Longrightarrow> grows b (sized_op C op t any b1)"
  by (auto simp: sized_op_def Let_def intro: grows_step)

lemma grows_EmitSizedOp: "EmitSizedOp C op p any b = Some b' \<Longrightarrow> grows b b'"
  by (auto simp: EmitSizedOp_def split: option.splits dest!: grows_EmitFrameOffset
      intro: grows_trans [OF grows_sized_op [OF grows_refl]])

lemma emits_op_sized:
  "grows b b1 \<Longrightarrow> (\<And>b'. grows b b' \<Longrightarrow> emits_op C b (f b')) \<Longrightarrow> emits_op C b (EmitSizedOp C op p any b1 \<bind> f)"
  by (cases "EmitSizedOp C op p any b1") (auto dest: grows_EmitSizedOp intro: grows_trans)

lemmas emits_rules = emits_op_offset emits_op_alloc emits_op_sized grows_step grows_sized_op grows_refl

lemma emits_EmitSizedOp_result: "op_sized C p \<Longrightarrow> emits_op C b (EmitSizedOp_result C op p any b)"
  by (auto simp: EmitSizedOp_result_def split: option.splits intro!: emits_rules dest: op_sized_type)

lemma emits_EmitBinaryOp:
  assumes "op_sized C lhs" "op_sized C res"
  shows "emits_op C b (EmitBinaryOp C iop fop lhs rhs res b)"
proof (cases "op_type lhs")
  case None
  then show ?thesis by (simp add: EmitBinaryOp_def)
next
  case (Some t)
  obtain n b1 where n: "num_op C ''Invalid binary operand'' iop fop t b = (n, b1)" by fastforce
  obtain r b2 where r: "(if res = CeOperandKind_None then FrameAlloc C t (emit_op n b1) else (res, emit_op n b1)) = (r, b2)"
    by fastforce
  have "grows b (emit_op n b1)" using grows_num_op [OF n] by (rule grows_step)
  with r have "grows b b2 \<and> op_sized C r"
    using grows_FrameAlloc [of C t "emit_op n b1" r b2] op_sized_type [OF assms(1) Some] assms(2)
    by (auto split: if_splits intro: grows_trans)
  then show ?thesis by (auto simp: EmitBinaryOp_def Some n r intro!: emits_rules)
qed

lemma emits_EmitUnaryOp:
  assumes "op_sized C v"
  shows "emits_op C b (EmitUnaryOp C iop fop v b)"
proof (cases "op_type v")
  case (Some t)
  obtain n b1 where n: "num_op C ''Invalid unary operand'' iop fop t b = (n, b1)" by fastforce
  have "grows b (emit_op n b1)" using grows_num_op [OF n] by (rule grows_step)
  then show ?thesis using assms Some n
    by (auto simp: EmitUnaryOp_def intro!: emits_rules dest: op_sized_type split: prod.splits
        dest!: grows_FrameAlloc intro: grows_trans)
qed (simp add: EmitUnaryOp_def)

lemma emits_EmitNumericCast:
  "op_sized C v \<Longrightarrow> sized (ci_context C) t \<Longrightarrow> emits_op C b (EmitNumericCast C v t vs ts b)"
  by (auto simp: EmitNumericCast_def op_sized_with Let_def split: ce_operand.splits option.splits
      intro!: emits_rules split: prod.splits dest!: grows_FrameAlloc intro: grows_trans)


lemma emits_EmitLoad:
  assumes "op_sized C p"
  shows "emits_op C b (EmitLoad C p refs b)"
proof -
  have "emits_op C b (case op_type p of
      Some (BePointerType t) \<Rightarrow> EmitSizedOp_result C (Mem (CeOp_Load CeSizeClass_8)) (with_type t p) True b | _ \<Rightarrow> None)"
    using assms by (auto split: option.splits be_type.splits intro!: emits_EmitSizedOp_result op_sized_with
        dest: op_sized_type)
  then show ?thesis using assms
    by (cases p) (auto simp: EmitLoad_def intro!: emits_rules)
qed

lemma emits_const: "sized (ci_context C) t \<Longrightarrow> emits_op C b (emit_const C t bs b)"
  by (auto simp: emit_const_def Let_def intro!: emits_rules)

definition val_sized :: "ce_input \<Rightarrow> be_value option \<Rightarrow> bool" where
  "val_sized C v \<longleftrightarrow> (case v of Some (BeConstant t w) \<Rightarrow> sized (ci_context C) t | _ \<Rightarrow> True)"

lemma emits_missing: "cb_sized C b \<Longrightarrow> emits_op C b (Some (operand_missing C b))"
  unfolding operand_missing_def emits_op_def
  by (auto dest: grows_FrameAlloc sized_int_ptr intro: grows_trans [OF grows_fail])

lemma emits_GetOperand_const:
  assumes "sized (ci_context C) t" "cb_sized C b"
  shows "emits_op C b (GetOperand_const C t w imm b)"
  using assms emits_missing [OF assms(2)] unfolding GetOperand_const_def Let_def
  by (auto split: be_type_code.splits intro!: emits_rules emits_const)

lemma emits_GetOperand:
  assumes "cb_sized C b" "val_sized C v"
  shows "emits_op C b (GetOperand C v al imm b)"
proof (cases "\<exists>x. v = Some x \<and> (\<exists>i. x = BeInst i \<or> x = BeArgument (nat i))")
  case True
  then obtain x where x: "v = Some x" "GetOperand C v al imm b =
      (case cb_operands b x of
             None \<Rightarrow> Some (operand_missing C b)
           | Some (CeOperandKind_AllocaAddr o' t) \<Rightarrow>
               (if al then Some (CeOperandKind_AllocaAddr o' t, b)
                else let (r, b1) = FrameAlloc C (BePointerType t) b
                     in do { b2 \<leftarrow> EmitFrameOffset r (emit_op (ce_code (Mem (if ptr_size C = 4 then CeOp_FrameAddr_32
                                                                             else CeOp_FrameAddr_64))) b1);
                             Some (r, emit_i32 o' b2) })
           | Some p \<Rightarrow> Some (p, b))" by (auto simp: GetOperand_def)
  have "op_sized C p" if "cb_operands b x = Some p" for p using assms(1) that by (auto simp: cb_sized_def)
  with x(2) emits_missing [OF assms(1)] show ?thesis
    by (auto split: option.splits ce_operand.splits intro!: emits_rules sized_ptr [OF assms(1)])
next
  case False
  then show ?thesis using assms emits_GetOperand_const [OF _ assms(1)]
    by (auto simp: GetOperand_def val_sized_def split: option.splits be_value.splits) (metis nat_int)+
qed

section \<open>Every instruction grows\<close>

primrec inst_ok :: "ce_input \<Rightarrow> be_inst \<Rightarrow> bool" where
  "inst_ok C (BeBinaryOpInst k l r ov) \<longleftrightarrow> val_sized C l \<and> val_sized C r"
| "inst_ok C (BeCmpInst k l r) \<longleftrightarrow> val_sized C l \<and> val_sized C r"
| "inst_ok C (BeNumericCastInst v t vs ts) \<longleftrightarrow> val_sized C v \<and> sized (ci_context C) t"
| "inst_ok C (BeNegInst v) \<longleftrightarrow> val_sized C v"
| "inst_ok C (BeNotInst v) \<longleftrightarrow> val_sized C v"
| "inst_ok C BeNopInst \<longleftrightarrow> True"
| "inst_ok C BeUnreachableInst \<longleftrightarrow> True"
| "inst_ok C (BeUndefValueInst t) \<longleftrightarrow> sized (ci_context C) t"
| "inst_ok C (BeBitCastInst v t) \<longleftrightarrow> val_sized C v \<and> sized (ci_context C) t"
| "inst_ok C (BeAllocaInst t n) \<longleftrightarrow> sized (ci_context C) t"
| "inst_ok C (BeLoadInst p) \<longleftrightarrow> val_sized C p"
| "inst_ok C (BeStoreInst v p) \<longleftrightarrow> val_sized C v \<and> val_sized C p"
| "inst_ok C (BeBrInst k) \<longleftrightarrow> True"
| "inst_ok C (BeCondBrInst c k1 k2) \<longleftrightarrow> val_sized C c"
| "inst_ok C (BePhiInst t ins) \<longleftrightarrow> False"
| "inst_ok C (BeSwitchInst v d cs) \<longleftrightarrow> val_sized C v \<and> (\<forall>(t, w, k) \<in> set cs. sized (ci_context C) t)"
| "inst_ok C (BeRetInst v) \<longleftrightarrow> val_sized C v"
| "inst_ok C (BeSetRetInst v n) \<longleftrightarrow> val_sized C v"

definition no_phis :: "ce_builder \<Rightarrow> bool" where
  "no_phis b \<longleftrightarrow> (\<forall>blk \<in> set (cb_blocks b). mPhiOutgoing blk = [])"

lemma no_phis_grows: "grows b b' \<Longrightarrow> no_phis b' = no_phis b"
  by (simp add: no_phis_def grows_def)

lemma FlushPhi_none: "no_phis b \<Longrightarrow> FlushPhi C k t b = Some b' \<Longrightarrow> b' = b"
  by (auto simp: FlushPhi_def no_phis_def split: if_splits)

text \<open>The same for emitters without a result.\<close>

definition emits_b :: "ce_builder \<Rightarrow> ce_builder option \<Rightarrow> bool" where
  "emits_b b r \<longleftrightarrow> (\<forall>b'. r = Some b' \<longrightarrow> grows b b')"

lemma emits_b_simps [simp]: "emits_b b None" "emits_b b (Some b') \<longleftrightarrow> grows b b'"
  by (simp_all add: emits_b_def)

lemma emits_b_bind:
  assumes "emits_op C b r" "\<And>p b1. grows b b1 \<Longrightarrow> op_sized C p \<Longrightarrow> emits_b b1 (f p b1)"
  shows "emits_b b (r \<bind> (\<lambda>(p, b1). f p b1))"
proof (cases r)
  case (Some a)
  obtain p b1 where "a = (p, b1)" by fastforce
  moreover from this Some assms(1) have "grows b b1" "op_sized C p" by (simp_all add: emits_op_def)
  ultimately show ?thesis using assms(2) [of b1 p] Some by (auto simp: emits_b_def intro: grows_trans)
qed simp

lemma emits_b_then:
  "emits_b b r \<Longrightarrow> (\<And>b'. grows b b' \<Longrightarrow> emits_b b' (f b')) \<Longrightarrow> emits_b b (r \<bind> f)"
  by (cases r) (auto simp: emits_b_def intro: grows_trans)

lemma emits_b_offset: "grows b b1 \<Longrightarrow> emits_b b (EmitFrameOffset p b1)"
  by (auto simp: emits_b_def dest: grows_EmitFrameOffset intro: grows_trans)

lemma emits_b_sized: "grows b b1 \<Longrightarrow> emits_b b (EmitSizedOp C op p any b1)"
  by (auto simp: emits_b_def dest: grows_EmitSizedOp intro: grows_trans)

lemma emits_b_map: "emits_b b r \<Longrightarrow> (\<And>b'. grows b' (g b')) \<Longrightarrow> emits_b b (map_option g r)"
  by (auto simp: emits_b_def intro: grows_trans)

lemma emits_no_result: "emits_b b r \<Longrightarrow> emits_op C b (no_result r)"
  by (auto simp: emits_op_def emits_b_def no_result_def)

lemma emits_op_binds: \<comment> \<open>a second operand is looked up in the builder the first one left\<close>
  "emits_op C b r \<Longrightarrow> (\<And>p b1. grows b b1 \<Longrightarrow> op_sized C p \<Longrightarrow> emits_op C b1 (f p b1)) \<Longrightarrow>
   emits_op C b (r \<bind> (\<lambda>(p, b1). f p b1))"
  by (rule emits_op_bind) (auto intro: emits_op_trans)

lemma get_sized:
  "cb_sized C b \<Longrightarrow> grows b b1 \<Longrightarrow> val_sized C v \<Longrightarrow> emits_op C b1 (GetOperand C v al imm b1)"
  by (intro emits_GetOperand) (simp_all add: cb_sized_grows)

lemma emits_alloc_then:
  "sized (ci_context C) t \<Longrightarrow> (\<And>r b'. grows b b' \<Longrightarrow> op_sized C r \<Longrightarrow> emits_op C b' (f r b')) \<Longrightarrow>
   emits_op C b (case FrameAlloc C t b of (r, b') \<Rightarrow> f r b')"
  using grows_FrameAlloc [of C t b] by (cases "FrameAlloc C t b") (auto intro: emits_op_trans)

lemma emits_build_binary:
  assumes "cb_sized C b" "val_sized C l" "val_sized C r"
  shows "emits_op C b (build_binary C k l r b)"
  unfolding build_binary_def using assms
  by (intro emits_op_binds emits_EmitBinaryOp get_sized) auto

lemma emits_build_cmp:
  assumes "cb_sized C b" "val_sized C l" "val_sized C r"
  shows "emits_op C b (build_cmp C k l r b)"
  unfolding build_cmp_def Let_def using assms
  by (intro emits_op_binds emits_alloc_then emits_EmitBinaryOp get_sized) (auto intro: grows_trans)

lemma emits_build_not:
  assumes "cb_sized C b" "val_sized C v"
  shows "emits_op C b (build_not C v b)"
proof -
  have "emits_op C b1 (op_type p \<bind> (\<lambda>t. EmitUnaryOp C (f t) g p b1))" if "op_sized C p" for p b1 f g
    using that by (cases "op_type p") (auto intro: emits_EmitUnaryOp)
  then show ?thesis unfolding build_not_def using assms by (intro emits_op_binds get_sized) auto
qed

lemma emits_build_bitcast:
  assumes "cb_sized C b" "val_sized C v" "sized (ci_context C) t"
  shows "emits_op C b (build_bitcast C v t b)"
proof -
  have "emits_op C b1 (case p of
          CeOperandKind_Immediate i u \<Rightarrow>
            (if i = 0 then Some (CeOperandKind_Immediate 0 t, b1)
             else let (r, b2) = FrameAlloc C t b1
                  in do { b3 \<leftarrow> EmitSizedOp C (Mem (CeOp_Const CeSizeClass_8)) r True b2;
                          Some (r, emit (le_bytes (nat (type_size C t)) i) b3) })
        | _ \<Rightarrow> do { u \<leftarrow> op_type p;
                    Some (with_type t p, if type_size C t \<noteq> type_size C u then cb_fail ''Invalid bitcast'' b1 else b1) })"
    for p b1
    using assms(3)
    by (cases p) (auto simp: op_sized_with intro!: emits_rules)
  then show ?thesis unfolding build_bitcast_def using assms
    by (auto intro!: emits_op_binds get_sized)
qed

lemma emits_build_alloca:
  assumes "cb_sized C b" "sized (ci_context C) t"
  shows "emits_op C b (build_alloca C t head b)"
  using assms sized_size [OF assms(2)] sized_ptr [OF assms]
  by (auto simp: build_alloca_def Let_def grows_def GetCodePos_def intro!: emits_rules)

lemma emits_build_store:
  assumes "cb_sized C b" "val_sized C v" "val_sized C p"
  shows "emits_b b (build_store C v p b)"
proof -
  have "emits_b b1 (case q of
       CeOperandKind_AllocaAddr o' t \<Rightarrow>
         do { b3 \<leftarrow> EmitSizedOp C (Mem (CeOp_Move CeSizeClass_8)) x True b1; Some (emit_i32 o' b3) }
     | _ \<Rightarrow> do { b3 \<leftarrow> EmitSizedOp C (Mem (CeOp_Store CeSizeClass_8)) x True b1; EmitFrameOffset q b3 })" for q x b1
    by (cases q) (auto intro!: emits_b_then emits_b_sized emits_b_offset)
  then show ?thesis unfolding build_store_def using assms
    by (intro emits_b_bind [where C = C] get_sized) auto
qed

lemma emits_build_ret_value:
  assumes "cb_sized C b" "val_sized C v"
  shows "emits_b b (build_ret_value C v b)"
proof -
  have "emits_b b1 (op_type x \<bind> (\<lambda>t. if type_size C t > 0
          then (case cb_return b1 of
                  None \<Rightarrow> None
                | Some o' \<Rightarrow> do { b2 \<leftarrow> EmitSizedOp C (Mem (CeOp_Move CeSizeClass_8)) x True b1; Some (emit_i32 o' b2) })
          else Some b1))" for x b1
    by (cases "op_type x") (auto split: option.splits intro!: emits_b_then emits_b_sized)
  then show ?thesis using assms
    by (auto simp: build_ret_value_def split: option.splits intro!: emits_b_bind get_sized)
qed

lemma emits_FlushPhi: "no_phis b \<Longrightarrow> emits_b b (FlushPhi C k t b)"
  by (auto simp: emits_b_def dest!: FlushPhi_none [of b])

lemma emits_build_br: "no_phis b \<Longrightarrow> emits_b b (build_br C k t b)"
  unfolding build_br_def by (intro emits_b_then emits_FlushPhi) auto

lemma emits_build_cond_br:
  assumes "cb_sized C b" "no_phis b" "val_sized C c"
  shows "emits_b b (build_cond_br C k c t f b)"
  unfolding build_cond_br_def using assms
  by (intro emits_b_bind [where C = C] emits_b_then get_sized emits_FlushPhi emits_b_offset)
    (auto simp: no_phis_grows)

lemma emits_build_cases:
  "cb_sized C b \<Longrightarrow> val_sized C v \<Longrightarrow> \<forall>(t, w, k) \<in> set cs. sized (ci_context C) t \<Longrightarrow>
   emits_b b (build_cases C v cs b)"
proof (induction cs arbitrary: b)
  case (Cons c cs)
  obtain t w k where c: "c = (t, w, k)" by (cases c)
  with Cons.prems have t: "val_sized C (Some (BeConstant t w))" by (simp add: val_sized_def)
  have IH: "emits_b b1 (build_cases C v cs b1)" if "grows b b1" for b1
    using Cons.IH [of b1] Cons.prems that by (simp add: cb_sized_grows)
  show ?case unfolding c build_cases.simps using Cons.prems(1,2) t
    by (intro emits_b_bind [where C = C] emits_b_then get_sized emits_EmitBinaryOp emits_b_offset IH)
      (auto simp: cb_sized_grows intro: grows_trans)
qed simp

lemma emits_build_switch:
  "cb_sized C b \<Longrightarrow> val_sized C v \<Longrightarrow> \<forall>(t, w, k) \<in> set cs. sized (ci_context C) t \<Longrightarrow>
   emits_b b (build_switch C v d cs b)"
  unfolding build_switch_def by (intro emits_b_then emits_build_cases) auto

lemma emits_build_inst:
  assumes "cb_sized C b" "no_phis b" "inst_ok C inst"
  shows "emits_op C b (build_inst C k head i inst b)"
proof (cases inst)
  case (BeNumericCastInst v t vs ts)
  with assms show ?thesis by (auto simp: build_inst_def intro!: emits_op_binds get_sized emits_EmitNumericCast)
next
  case (BeNegInst v)
  with assms show ?thesis by (auto simp: build_inst_def intro!: emits_op_binds get_sized emits_EmitUnaryOp)
next
  case (BeLoadInst v)
  with assms show ?thesis by (auto simp: build_inst_def intro!: emits_op_binds get_sized emits_EmitLoad)
next
  case (BeUndefValueInst t)
  with assms show ?thesis by (simp add: build_inst_def emits_op_def grows_FrameAlloc)
qed (use assms in \<open>auto simp: build_inst_def intro!: emits_no_result emits_build_binary emits_build_cmp emits_build_not
      emits_build_bitcast emits_build_alloca emits_build_store emits_build_br emits_build_cond_br emits_build_switch
      emits_b_map emits_build_ret_value intro: grows_step\<close>)

section \<open>The builder before each instruction\<close>

text \<open>Growth over several instructions: the operands of the results are added.\<close>

definition extends_b :: "ce_builder \<Rightarrow> ce_builder \<Rightarrow> bool" where
  "extends_b b b' \<longleftrightarrow>
     (\<exists>seg. cb_code b' = cb_code b @ seg) \<and>
     (\<exists>js. cb_jumps b' = cb_jumps b @ js \<and> gaps (GetCodePos b) js (GetCodePos b')) \<and>
     cb_frame_size b \<le> cb_frame_size b' \<and> (cb_error b' = None \<longrightarrow> cb_error b = None) \<and>
     cb_operands b \<subseteq>\<^sub>m cb_operands b' \<and> length (cb_blocks b') = length (cb_blocks b) \<and> cb_return b' = cb_return b"

lemma extends_refl [simp]: "extends_b b b"
  by (auto simp: extends_b_def)

lemma extends_trans [trans]:
  assumes "extends_b a b" "extends_b b c"
  shows "extends_b a c"
proof -
  from assms obtain s1 s2 js ks where
    "cb_code b = cb_code a @ s1" "cb_code c = cb_code b @ s2"
    "cb_jumps b = cb_jumps a @ js" "cb_jumps c = cb_jumps b @ ks"
    "gaps (GetCodePos a) js (GetCodePos b)" "gaps (GetCodePos b) ks (GetCodePos c)"
    unfolding extends_b_def by blast
  moreover from this have "gaps (GetCodePos a) (js @ ks) (GetCodePos c)" by (blast intro: gaps_append)
  ultimately show ?thesis using assms unfolding extends_b_def by (auto intro: map_le_trans)
qed

lemma grows_extends: "grows b b' \<Longrightarrow> extends_b b b'"
  by (auto simp: grows_def extends_b_def)

definition start_block :: "ce_input \<Rightarrow> be_type list \<Rightarrow> nat \<Rightarrow> ce_builder \<Rightarrow> ce_builder" where
  "start_block C ps k b =
     (let b1 = b\<lparr>cb_blocks := (cb_blocks b)[k := (cb_blocks b ! k)\<lparr>mEmitOfs := GetCodePos b\<rparr>]\<rparr>
      in if k = 0 then HandleParams C ps b1 else b1)"

lemma build_blocks_start:
  "build_blocks C ps k (is # blks) (head, b) =
     build_insts C k is (head, start_block C ps k b) \<bind> build_blocks C ps (Suc k) blks"
  by (simp add: start_block_def Let_def split: option.split)

declare build_blocks.simps(2) [simp del]

text \<open>The flag of the head and the builder as they are before instruction \<open>j\<close> of block \<open>k\<close>.\<close>

function bld :: "ce_input \<Rightarrow> be_module \<Rightarrow> be_function \<Rightarrow> nat \<Rightarrow> nat \<Rightarrow> (bool \<times> ce_builder) option" where
  "bld C M f 0 0 =
     map_option (\<lambda>b. (True, start_block C (mParams f) 0 b)) (pre_blocks C M 0 (mBlocks f) (cb_init (length (mBlocks f))))"
| "bld C M f (Suc k) 0 =
     map_option (\<lambda>(h, b). (h, start_block C (mParams f) (Suc k) b)) (bld C M f k (length (mBlocks f ! k)))"
| "bld C M f k (Suc j) = bld C M f k j \<bind> build_insts C k [mBlocks f ! k ! j]"
  by pat_completeness auto
termination by (relation "inv_image (less_than <*lex*> less_than) (\<lambda>(C, M, f, k, j). (k, j))") auto

lemma build_insts_append:
  "build_insts C k (xs @ ys) hb = build_insts C k xs hb \<bind> build_insts C k ys"
proof (induction C k xs hb rule: build_insts.induct)
  case (1 C k head b)
  then show ?case by simp
next
  case (2 C k i inst "is" head b)
  then show ?case by (auto simp: Let_def split: option.split)
qed

lemma bld_insts:
  assumes "bld C M f k 0 = Some hb" "j \<le> length (mBlocks f ! k)"
  shows "bld C M f k j = build_insts C k (take j (mBlocks f ! k)) hb"
  using assms(2)
proof (induction j)
  case 0
  then show ?case using assms(1) by (cases hb) simp
next
  case (Suc j)
  then have "take (Suc j) (mBlocks f ! k) = take j (mBlocks f ! k) @ [mBlocks f ! k ! j]"
    by (simp add: take_Suc_conv_app_nth)
  then show ?case using Suc by (simp add: build_insts_append)
qed

lemma build_blocks_bld:
  assumes "build_blocks C (mParams f) k (drop k (mBlocks f)) (h, b) = Some bF"
    and "k < length (mBlocks f)" "bld C M f k 0 = Some (h, start_block C (mParams f) k b)"
  shows "(\<forall>k'. k \<le> k' \<and> k' < length (mBlocks f) \<longrightarrow> (\<forall>j \<le> length (mBlocks f ! k'). \<exists>hb. bld C M f k' j = Some hb)) \<and>
         (\<exists>h'. bld C M f (length (mBlocks f) - 1) (length (last (mBlocks f))) = Some (h', bF))"
  using assms
proof (induction "length (mBlocks f) - k" arbitrary: k h b)
  case 0
  then show ?case by simp
next
  case (Suc n)
  let ?bs = "mBlocks f"
  have d: "drop k ?bs = ?bs ! k # drop (Suc k) ?bs" using Suc.prems(2) by (simp add: Cons_nth_drop_Suc)
  from Suc.prems(1) obtain h1 b1 where
    i: "build_insts C k (?bs ! k) (h, start_block C (mParams f) k b) = Some (h1, b1)"
    and r: "build_blocks C (mParams f) (Suc k) (drop (Suc k) ?bs) (h1, b1) = Some bF"
    by (auto simp: d build_blocks_start bind_eq_Some_conv)
  have all: "\<exists>hb. bld C M f k j = Some hb" if "j \<le> length (?bs ! k)" for j
  proof -
    have "build_insts C k (take j (?bs ! k) @ drop j (?bs ! k)) (h, start_block C (mParams f) k b) = Some (h1, b1)"
      using i by simp
    then show ?thesis unfolding build_insts_append bld_insts [OF Suc.prems(3) that] by (auto simp: bind_eq_Some_conv)
  qed
  have len: "bld C M f k (length (?bs ! k)) = Some (h1, b1)"
    using bld_insts [OF Suc.prems(3)] i by simp
  show ?case
  proof (cases "Suc k < length ?bs")
    case True
    have "bld C M f (Suc k) 0 = Some (h1, start_block C (mParams f) (Suc k) b1)" using len by simp
    from Suc.hyps(1) [OF _ r True this] Suc.hyps(2) all show ?thesis
      by (metis (no_types, lifting) Suc_diff_Suc Suc_leI diff_Suc_Suc le_neq_implies_less True Suc.prems(2) old.nat.inject)
  next
    case False
    then have "length ?bs = Suc k" using Suc.prems(2) by simp
    moreover from this have "last ?bs = ?bs ! k" by (metis diff_Suc_1 last_conv_nth length_0_conv nat.distinct(1))
    ultimately show ?thesis using r len all le_antisym by (auto simp: less_Suc_eq_le)
  qed
qed

text \<open>The functions considered: sized types, no phis, and every instruction occurs once.\<close>

definition fn_ok :: "ce_input \<Rightarrow> be_function \<Rightarrow> bool" where
  "fn_ok C f \<longleftrightarrow> ptr_size C \<in> {4, 8} \<and> mBlocks f \<noteq> [] \<and> (\<forall>t \<in> set (mParams f). sized (ci_context C) t) \<and>
     (\<forall>x \<in> set (concat (mBlocks f)). inst_ok C (snd x)) \<and> distinct (map fst (concat (mBlocks f)))"

text \<open>Without phis the first pass only finds the size of the returned value.\<close>

definition ret_fits :: "ce_input \<Rightarrow> be_module \<Rightarrow> int \<Rightarrow> int \<times> be_inst \<Rightarrow> bool" where
  "ret_fits C M m x \<longleftrightarrow> (\<forall>v t. snd x = BeRetInst (Some v) \<longrightarrow> value_type M (Some v) = Some t \<longrightarrow> type_size C t \<le> m)"

lemma ret_fits_mono: "ret_fits C M m x \<Longrightarrow> m \<le> n \<Longrightarrow> ret_fits C M n x"
  by (auto simp: ret_fits_def)

lemma pre_inst_ok:
  "pre_inst C M k x b = Some b' \<Longrightarrow> inst_ok C (snd x) \<Longrightarrow>
   \<exists>m. b' = b\<lparr>cb_max_return := m\<rparr> \<and> cb_max_return b \<le> m \<and> ret_fits C M m x"
  by (cases "snd x")
    (auto simp: pre_inst_def ret_fits_def Let_def split: option.splits prod.splits intro: exI [of _ "cb_max_return b"])

lemma pre_insts_ok:
  "pre_insts C M k xs b = Some b' \<Longrightarrow> \<forall>x \<in> set xs. inst_ok C (snd x) \<Longrightarrow>
   \<exists>m. b' = b\<lparr>cb_max_return := m\<rparr> \<and> cb_max_return b \<le> m \<and> (\<forall>x \<in> set xs. ret_fits C M m x)"
proof (induction xs arbitrary: b)
  case Nil
  then show ?case by (auto intro: exI [of _ "cb_max_return b"])
next
  case (Cons x xs)
  then obtain b1 where 1: "pre_inst C M k x b = Some b1" "pre_insts C M k xs b1 = Some b'"
    by (auto simp: bind_eq_Some_conv)
  from pre_inst_ok [OF 1(1)] Cons.prems(2) obtain m where
    m: "b1 = b\<lparr>cb_max_return := m\<rparr>" "cb_max_return b \<le> m" "ret_fits C M m x" by auto
  from Cons.IH [OF 1(2)] Cons.prems(2) m show ?case by (auto intro: ret_fits_mono)
qed

lemma pre_blocks_ok:
  "pre_blocks C M k blks b = Some b' \<Longrightarrow> \<forall>x \<in> set (concat blks). inst_ok C (snd x) \<Longrightarrow>
   \<exists>m. b' = b\<lparr>cb_max_return := m\<rparr> \<and> cb_max_return b \<le> m \<and> (\<forall>x \<in> set (concat blks). ret_fits C M m x)"
proof (induction blks arbitrary: k b)
  case Nil
  then show ?case by (auto intro: exI [of _ "cb_max_return b"])
next
  case (Cons xs blks)
  then obtain b1 where 1: "pre_insts C M k xs b = Some b1" "pre_blocks C M (Suc k) blks b1 = Some b'"
    by (auto simp: bind_eq_Some_conv)
  from pre_insts_ok [OF 1(1)] Cons.prems(2) obtain m where
    m: "b1 = b\<lparr>cb_max_return := m\<rparr>" "cb_max_return b \<le> m" "\<forall>x \<in> set xs. ret_fits C M m x" by auto
  from Cons.IH [OF 1(2)] Cons.prems(2) m(1) obtain n where
    n: "b' = b\<lparr>cb_max_return := n\<rparr>" "m \<le> n" "\<forall>x \<in> set (concat blks). ret_fits C M n x" by auto
  with m show ?case by (intro exI [of _ n]) (auto intro: ret_fits_mono)
qed

text \<open>The size of the returned value, and the slots of the parameters above it.\<close>

definition ret_size :: "ce_input \<Rightarrow> be_module \<Rightarrow> be_function \<Rightarrow> int" where
  "ret_size C M f =
     (case pre_blocks C M 0 (mBlocks f) (cb_init (length (mBlocks f))) of Some b \<Rightarrow> cb_max_return b | None \<Rightarrow> 0)"

definition param_ofs :: "ce_input \<Rightarrow> int \<Rightarrow> be_type list \<Rightarrow> nat \<Rightarrow> int" where
  "param_ofs C ofs ts n = ofs + (\<Sum>t \<leftarrow> take n ts. type_size C t)"

lemma param_slots_eq:
  "param_slots C n ofs ts m v =
     (case v of
        BeArgument k \<Rightarrow> if n \<le> k \<and> k < n + length ts
                        then Some (CeOperandKind_FrameOfs (param_ofs C ofs ts (k - n)) (ts ! (k - n))) else m v
      | _ \<Rightarrow> m v)"
proof (induction ts arbitrary: n ofs m)
  case Nil
  then show ?case by (auto split: be_value.split)
next
  case (Cons t ts)
  have "Suc n \<le> k \<Longrightarrow> k - n = Suc (k - Suc n)" for k by arith
  then show ?case
    by (auto simp: Cons.IH param_ofs_def split: be_value.split)
qed

lemma start_first:
  assumes "fn_ok C f" "pre_blocks C M 0 (mBlocks f) (cb_init (length (mBlocks f))) = Some b"
  shows "start_block C (mParams f) 0 b =
     \<lparr>cb_code = [], cb_frame_size = 0, cb_jumps = [], cb_operands = param_slots C 0 (ret_size C M f) (mParams f) Map.empty,
      cb_blocks = (replicate (length (mBlocks f)) \<lparr>mEmitOfs = -1, mPhiOutgoing = []\<rparr>)[0 := \<lparr>mEmitOfs = 0, mPhiOutgoing = []\<rparr>],
      cb_return = (if ret_size C M f > 0 then Some 0 else None), cb_max_return = ret_size C M f, cb_error = None\<rparr>"
    and "0 \<le> ret_size C M f" and "x \<in> set (concat (mBlocks f)) \<Longrightarrow> ret_fits C M (ret_size C M f) x"
proof -
  have r: "ret_size C M f = cb_max_return b" using assms(2) by (simp add: ret_size_def)
  from pre_blocks_ok [OF assms(2)] assms(1) obtain m where
    m: "b = cb_init (length (mBlocks f))\<lparr>cb_max_return := m\<rparr>" "0 \<le> m" "\<forall>x \<in> set (concat (mBlocks f)). ret_fits C M m x"
    by (auto simp: fn_ok_def cb_init_def)
  then show "0 \<le> ret_size C M f" "x \<in> set (concat (mBlocks f)) \<Longrightarrow> ret_fits C M (ret_size C M f) x" using r by auto
  have "0 < length (mBlocks f)" using assms(1) by (auto simp: fn_ok_def)
  then show "start_block C (mParams f) 0 b =
     \<lparr>cb_code = [], cb_frame_size = 0, cb_jumps = [], cb_operands = param_slots C 0 (ret_size C M f) (mParams f) Map.empty,
      cb_blocks = (replicate (length (mBlocks f)) \<lparr>mEmitOfs = -1, mPhiOutgoing = []\<rparr>)[0 := \<lparr>mEmitOfs = 0, mPhiOutgoing = []\<rparr>],
      cb_return = (if ret_size C M f > 0 then Some 0 else None), cb_max_return = ret_size C M f, cb_error = None\<rparr>"
    using m(1,2) r by (auto simp: start_block_def HandleParams_def cb_init_def GetCodePos_def Let_def)
qed

section \<open>The whole function\<close>

text \<open>The instructions before position \<open>(k, j)\<close>.\<close>

definition before :: "be_function \<Rightarrow> nat \<Rightarrow> nat \<Rightarrow> (int \<times> be_inst) list" where
  "before f k j = concat (take k (mBlocks f)) @ take j (mBlocks f ! k)"

lemma before_Suc: "j < length (mBlocks f ! k) \<Longrightarrow> before f k (Suc j) = before f k j @ [mBlocks f ! k ! j]"
  by (simp add: before_def take_Suc_conv_app_nth)

lemma before_next: "k < length (mBlocks f) \<Longrightarrow> before f (Suc k) 0 = before f k (length (mBlocks f ! k))"
  by (simp add: before_def take_Suc_conv_app_nth)

lemma before_fresh:
  assumes "distinct (map fst (concat (mBlocks f)))" "k < length (mBlocks f)" "j < length (mBlocks f ! k)"
  shows "fst (mBlocks f ! k ! j) \<notin> fst ` set (before f k j)"
proof -
  have "concat (mBlocks f) = concat (take k (mBlocks f)) @ mBlocks f ! k @ concat (drop (Suc k) (mBlocks f))"
    using assms(2) by (metis append_take_drop_id Cons_nth_drop_Suc concat.simps(2) concat_append)
  also have "mBlocks f ! k = take j (mBlocks f ! k) @ mBlocks f ! k ! j # drop (Suc j) (mBlocks f ! k)"
    using assms(3) by (simp add: id_take_nth_drop)
  finally have "concat (mBlocks f) = before f k j @ mBlocks f ! k ! j # drop (Suc j) (mBlocks f ! k) @ concat (drop (Suc k) (mBlocks f))"
    by (simp add: before_def)
  with assms(1) show ?thesis by simp
qed

lemma inst_in: "k < length (mBlocks f) \<Longrightarrow> j < length (mBlocks f ! k) \<Longrightarrow> mBlocks f ! k ! j \<in> set (concat (mBlocks f))"
  by (simp add: bexI [of _ "mBlocks f ! k"])

text \<open>What holds before every instruction.\<close>

definition cb_inv :: "ce_input \<Rightarrow> be_module \<Rightarrow> be_function \<Rightarrow> nat \<Rightarrow> nat \<Rightarrow> ce_builder \<Rightarrow> bool" where
  "cb_inv C M f k j b \<longleftrightarrow>
     cb_sized C b \<and> no_phis b \<and> length (cb_blocks b) = length (mBlocks f) \<and>
     (\<forall>i. cb_operands b (BeInst i) \<noteq> None \<longrightarrow> i \<in> fst ` set (before f k j)) \<and>
     extends_b (start_block C (mParams f) 0 (cb_init (length (mBlocks f))\<lparr>cb_max_return := ret_size C M f\<rparr>)) b"

text \<open>One instruction, as \<open>build_insts\<close> performs it.\<close>

definition with_result :: "int \<Rightarrow> ce_operand \<Rightarrow> ce_builder \<Rightarrow> ce_builder" where
  "with_result i r b = (if r = CeOperandKind_None then b else b\<lparr>cb_operands := (cb_operands b)(BeInst i \<mapsto> r)\<rparr>)"

lemma build_one:
  assumes "build_insts C k [(i, inst)] (h, b) = Some (h', b')"
  obtains r b1 where "h' = (h \<and> keeps_head inst)" "build_inst C k h' i inst b = Some (r, b1)" "b' = with_result i r b1"
proof (cases "build_inst C k (h \<and> keeps_head inst) i inst b")
  case None
  with assms show ?thesis by (simp add: Let_def)
next
  case (Some a)
  with assms that show ?thesis by (cases a) (auto simp: Let_def with_result_def split: if_splits)
qed

lemma with_result_extends: "cb_operands b (BeInst i) = None \<Longrightarrow> extends_b b (with_result i r b)"
  by (auto simp: with_result_def extends_b_def map_le_def GetCodePos_def)

lemma with_result_simps [simp]:
  "cb_code (with_result i r b) = cb_code b" "cb_frame_size (with_result i r b) = cb_frame_size b"
  "cb_jumps (with_result i r b) = cb_jumps b" "cb_blocks (with_result i r b) = cb_blocks b"
  "cb_return (with_result i r b) = cb_return b" "cb_error (with_result i r b) = cb_error b"
  "GetCodePos (with_result i r b) = GetCodePos b"
  by (simp_all add: with_result_def GetCodePos_def)

lemma bld_step:
  assumes "bld C M f k (Suc j) = Some (h', b')" "mBlocks f ! k ! j = (i, inst)"
  obtains h b r b1 where "bld C M f k j = Some (h, b)" "h' = (h \<and> keeps_head inst)"
    "build_inst C k h' i inst b = Some (r, b1)" "b' = with_result i r b1"
proof -
  from assms obtain h b where 1: "bld C M f k j = Some (h, b)" "build_insts C k [(i, inst)] (h, b) = Some (h', b')"
    by (auto simp: bind_eq_Some_conv simp del: build_insts.simps)
  from 1(2) show thesis by (rule build_one) (use 1(1) that in blast)
qed

lemma cb_inv_step:
  assumes inv: "cb_inv C M f k j b" and ok: "fn_ok C f"
    and kj: "k < length (mBlocks f)" "j < length (mBlocks f ! k)" and i: "mBlocks f ! k ! j = (i, inst)"
    and b: "build_inst C k h i inst b = Some (r, b1)"
  shows "grows b b1" "op_sized C r" "cb_operands b (BeInst i) = None" "extends_b b (with_result i r b1)"
    "cb_inv C M f k (Suc j) (with_result i r b1)"
proof -
  have "inst_ok C inst" using ok inst_in [OF kj] i by (force simp: fn_ok_def simp del: set_concat)
  with emits_opD [OF emits_build_inst b] inv show g: "grows b b1" and o: "op_sized C r" by (auto simp: cb_inv_def)
  have "i \<notin> fst ` set (before f k j)" using before_fresh [OF _ kj] ok i by (auto simp: fn_ok_def)
  then show n: "cb_operands b (BeInst i) = None" using inv by (auto simp: cb_inv_def)
  have "cb_operands b1 = cb_operands b" using g by (simp add: grows_def)
  with n with_result_extends [of b1 i r] grows_extends [OF g]
  show e: "extends_b b (with_result i r b1)" by (auto intro: extends_trans)
  have "cb_sized C (with_result i r b1)" using inv g o by (auto simp: cb_inv_def cb_sized_def grows_def with_result_def)
  moreover have "no_phis (with_result i r b1)" using inv no_phis_grows [OF g] by (simp add: cb_inv_def no_phis_def)
  moreover have "length (cb_blocks (with_result i r b1)) = length (mBlocks f)"
    using inv g by (auto simp: cb_inv_def grows_def)
  moreover have "i' \<in> fst ` set (before f k (Suc j))" if "cb_operands (with_result i r b1) (BeInst i') \<noteq> None" for i'
    using that inv g i unfolding before_Suc [OF kj(2)]
    by (auto simp: cb_inv_def with_result_def grows_def split: if_splits)
  ultimately show "cb_inv C M f k (Suc j) (with_result i r b1)"
    using inv e unfolding cb_inv_def by (blast intro: extends_trans)
qed

lemma start_extends: "0 < k \<Longrightarrow> extends_b b (start_block C ps k b)"
  by (auto simp: start_block_def extends_b_def GetCodePos_def Let_def)

lemma cb_inv_next:
  assumes "cb_inv C M f k (length (mBlocks f ! k)) b" "k < length (mBlocks f)"
  shows "cb_inv C M f (Suc k) 0 (start_block C (mParams f) (Suc k) b)"
proof -
  have e: "extends_b b (start_block C (mParams f) (Suc k) b)" by (rule start_extends) simp
  have "no_phis (start_block C (mParams f) (Suc k) b)"
  proof (cases "Suc k < length (cb_blocks b)")
    case True
    then have "mPhiOutgoing (cb_blocks b ! Suc k) = []" using assms(1) by (simp add: cb_inv_def no_phis_def)
    with assms(1) show ?thesis
      by (auto simp: cb_inv_def no_phis_def start_block_def dest!: set_update_subset_insert [THEN subsetD])
  next
    case False
    with assms(1) show ?thesis by (simp add: cb_inv_def no_phis_def start_block_def list_update_beyond)
  qed
  moreover have "cb_operands (start_block C (mParams f) (Suc k) b) = cb_operands b"
    "length (cb_blocks (start_block C (mParams f) (Suc k) b)) = length (cb_blocks b)"
    by (simp_all add: start_block_def Let_def)
  ultimately show ?thesis using assms e unfolding cb_inv_def
    by (auto simp: cb_sized_def before_next intro: extends_trans)
qed

lemma bld_inv:
  "fn_ok C f \<Longrightarrow> k < length (mBlocks f) \<Longrightarrow> j \<le> length (mBlocks f ! k) \<Longrightarrow> bld C M f k j = Some (h, b) \<Longrightarrow>
   cb_inv C M f k j b"
proof (induction C M f k j arbitrary: h b rule: bld.induct)
  case (1 C M f)
  then obtain b0 where p: "pre_blocks C M 0 (mBlocks f) (cb_init (length (mBlocks f))) = Some b0"
    and b: "b = start_block C (mParams f) 0 b0" by auto
  from pre_blocks_ok [OF p] 1(1) obtain m where b0: "b0 = cb_init (length (mBlocks f))\<lparr>cb_max_return := m\<rparr>"
    by (auto simp: fn_ok_def)
  then have "m = ret_size C M f" using p by (simp add: ret_size_def)
  with b b0 have "extends_b (start_block C (mParams f) 0 (cb_init (length (mBlocks f))\<lparr>cb_max_return := ret_size C M f\<rparr>)) b"
    by simp
  moreover have "cb_sized C b" "no_phis b" "length (cb_blocks b) = length (mBlocks f)"
    "\<forall>i. cb_operands b (BeInst i) = None"
    using 1(1) unfolding b start_first(1) [OF 1(1) p]
    by (auto simp: cb_sized_def fn_ok_def no_phis_def param_slots_eq split: be_value.splits if_splits
        dest!: set_update_subset_insert [THEN subsetD])
  ultimately show ?case by (simp add: cb_inv_def)
next
  case (2 C M f k)
  then obtain b0 where "bld C M f k (length (mBlocks f ! k)) = Some (h, b0)" "b = start_block C (mParams f) (Suc k) b0"
    by auto
  with 2 show ?case by (auto intro: cb_inv_next)
next
  case (3 C M f k j)
  obtain i inst where i: "mBlocks f ! k ! j = (i, inst)" by fastforce
  from bld_step [OF 3(5) i] obtain h0 b0 r b1 where s: "bld C M f k j = Some (h0, b0)"
    "build_inst C k h i inst b0 = Some (r, b1)" "b = with_result i r b1" by metis
  show ?case unfolding s(3)
    by (rule cb_inv_step(5) [OF 3(1) [OF 3(2,3) _ s(1)] 3(2,3) _ i s(2)]) (use 3(4) in auto)
qed

text \<open>The builder at a later position extends the one before, and knows where the block began.\<close>

lemma bld_later:
  "fn_ok C f \<Longrightarrow> k' < length (mBlocks f) \<Longrightarrow> j' \<le> length (mBlocks f ! k') \<Longrightarrow> bld C M f k' j' = Some (h', b') \<Longrightarrow>
   bld C M f k j = Some (h, b) \<Longrightarrow> j \<le> length (mBlocks f ! k) \<Longrightarrow> k < k' \<or> k = k' \<and> j \<le> j' \<Longrightarrow>
   extends_b b b' \<and> (j = 0 \<longrightarrow> mEmitOfs (cb_blocks b' ! k) = GetCodePos b)"
proof (induction C M f k' j' arbitrary: h' b' rule: bld.induct)
  case (1 C M f)
  then have "cb_inv C M f 0 0 b'" by (intro bld_inv) auto
  with 1 show ?case by (auto simp: cb_inv_def start_block_def GetCodePos_def HandleParams_def Let_def)
next
  case (2 C M f k')
  then obtain b0 where b0: "bld C M f k' (length (mBlocks f ! k')) = Some (h', b0)" "b' = start_block C (mParams f) (Suc k') b0"
    by auto
  have inv: "cb_inv C M f k' (length (mBlocks f ! k')) b0" using 2(2,3) b0(1) by (intro bld_inv) auto
  show ?case
  proof (cases "k = Suc k'")
    case True
    then have "b' = b" "j = 0" using 2(5,6,8) by auto
    moreover have "mEmitOfs (cb_blocks b' ! Suc k') = GetCodePos b'"
      using 2(3) inv b0(2) by (simp add: start_block_def GetCodePos_def cb_inv_def)
    ultimately show ?thesis using True by simp
  next
    case False
    with 2(8) have "k \<le> k'" by auto
    moreover have "extends_b b0 b'" unfolding b0(2) by (rule start_extends) simp
    moreover have "mEmitOfs (cb_blocks b' ! k) = mEmitOfs (cb_blocks b0 ! k)"
      using \<open>k \<le> k'\<close> unfolding b0(2) by (simp add: start_block_def)
    ultimately show ?thesis using 2(1) [OF 2(2) _ _ b0(1) 2(6,7)] 2(3,7)
      by (auto simp: le_less intro: extends_trans)
  qed
next
  case (3 C M f k' j')
  show ?case
  proof (cases "k = k' \<and> j = Suc j'")
    case True
    with 3(5,6) show ?thesis by simp
  next
    case False
    obtain i inst where i: "mBlocks f ! k' ! j' = (i, inst)" by fastforce
    from bld_step [OF 3(5) i] obtain h0 b0 r b1 where s: "bld C M f k' j' = Some (h0, b0)"
      "build_inst C k' h' i inst b0 = Some (r, b1)" "b' = with_result i r b1" by metis
    have inv: "cb_inv C M f k' j' b0" using 3(2,3,4) s(1) by (intro bld_inv) auto
    have j': "j' < length (mBlocks f ! k')" using 3(4) by simp
    note st = cb_inv_step [OF inv 3(2,3) j' i s(2)]
    have "extends_b b b0 \<and> (j = 0 \<longrightarrow> mEmitOfs (cb_blocks b0 ! k) = GetCodePos b)"
      using 3(1) [OF 3(2,3) _ s(1) 3(6,7)] 3(8) False j' by auto
    moreover have "cb_blocks b' = cb_blocks b0" using st(1) s(3) by (simp add: grows_def)
    ultimately show ?thesis using st(4) s(3) by (auto intro: extends_trans)
  qed
qed

section \<open>Filling in the jumps\<close>

lemma slice_len: "slice xs p n = Some bs \<Longrightarrow> 0 \<le> p \<and> p + int n \<le> int (length xs)"
  by (auto simp: slice_def split: if_splits)

lemma length_patch: "0 \<le> p \<Longrightarrow> p + 4 \<le> int (length code) \<Longrightarrow> length (patch_i32 p v code) = length code"
  by (auto simp: patch_i32_def)

lemma patch_placed: "0 \<le> p \<Longrightarrow> p + 4 \<le> int (length code) \<Longrightarrow> placed (patch_i32 p v code) p (le_bytes 4 v)"
  by (auto simp: placed_def patch_i32_def slice_def)

lemma nth_patch:
  assumes "0 \<le> p" "p + 4 \<le> int (length code)" "m < length code" "int m < p \<or> p + 4 \<le> int m"
  shows "patch_i32 p v code ! m = code ! m"
proof (cases "int m < p")
  case True
  then have "m < nat p" "nat p \<le> length code" using assms(2) by auto
  then show ?thesis by (simp add: patch_i32_def nth_append)
next
  case False
  define pre where "pre = take (nat p) code @ le_bytes 4 v"
  have pre: "length pre = nat p + 4" using assms(1,2) by (simp add: pre_def)
  have m: "nat p + 4 \<le> m" using False assms by auto
  have "patch_i32 p v code = pre @ drop (nat p + 4) code" by (simp add: patch_i32_def pre_def)
  then have "patch_i32 p v code ! m = drop (nat p + 4) code ! (m - (nat p + 4))" using m by (simp add: nth_append pre)
  also have "\<dots> = code ! m" using m assms(3) by simp
  finally show ?thesis .
qed

lemma slice_patch:
  assumes "0 \<le> p" "p + 4 \<le> int (length code)" "a + int n \<le> p \<or> p + 4 \<le> a"
  shows "slice (patch_i32 p v code) a n = slice code a n"
proof -
  have "take n (drop (nat a) (patch_i32 p v code)) = take n (drop (nat a) code)" if "0 \<le> a" "a + int n \<le> int (length code)"
  proof (rule nth_equalityI)
    show "length (take n (drop (nat a) (patch_i32 p v code))) = length (take n (drop (nat a) code))"
      using length_patch [OF assms(1,2)] by simp
    fix i assume "i < length (take n (drop (nat a) (patch_i32 p v code)))"
    then have i: "i < n" by simp
    have "patch_i32 p v code ! (nat a + i) = code ! (nat a + i)"
      by (rule nth_patch [OF assms(1,2)]) (use i that assms(3) in auto)
    with i show "take n (drop (nat a) (patch_i32 p v code)) ! i = take n (drop (nat a) code) ! i"
      using that length_patch [OF assms(1,2), of v] by simp
  qed
  then show ?thesis by (simp add: slice_def length_patch [OF assms(1,2)])
qed

lemma patch_jumps_spec:
  "patch_jumps blks js code = Some code' \<Longrightarrow> gaps lo js (int (length code)) \<Longrightarrow> 0 \<le> lo \<Longrightarrow>
   length code' = length code \<and>
   (\<forall>a n. (\<forall>(p, k) \<in> set js. a + int n \<le> p \<or> p + 4 \<le> a) \<longrightarrow> slice code' a n = slice code a n) \<and>
   (\<forall>(p, k) \<in> set js. k < length blks \<and> placed code' p (le_bytes 4 (mEmitOfs (blks ! k) - p - 4)))"
proof (induction blks js code arbitrary: lo rule: patch_jumps.induct)
  case (1 blks code)
  then show ?case by simp
next
  case (2 blks p k js code)
  let ?c = "patch_i32 p (mEmitOfs (blks ! k) - p - 4) code"
  from 2(2) have k: "k < length blks" "patch_jumps blks js ?c = Some code'" by (auto split: if_splits)
  from 2(3,4) have p: "0 \<le> p" "p + 4 \<le> int (length code)" "gaps (p + 4) js (int (length code))" by (auto dest: gaps_le)
  have l: "length ?c = length code" using p by (simp add: length_patch)
  with 2(1) [OF k, of "p + 4"] p have IH: "length code' = length code"
    "\<forall>a n. (\<forall>(p, k) \<in> set js. a + int n \<le> p \<or> p + 4 \<le> a) \<longrightarrow> slice code' a n = slice ?c a n"
    "\<forall>(p, k) \<in> set js. k < length blks \<and> placed code' p (le_bytes 4 (mEmitOfs (blks ! k) - p - 4))" by auto
  have "\<forall>(q, k) \<in> set js. p + int 4 \<le> q \<or> q + 4 \<le> p" using gaps_in [OF p(3)] by auto
  then have "slice code' p 4 = slice ?c p 4" using IH(2) by blast
  then have "placed code' p (le_bytes 4 (mEmitOfs (blks ! k) - p - 4))"
    using patch_placed [OF p(1,2)] by (simp add: placed_def)
  moreover have "slice code' a n = slice code a n" if "\<forall>(q, k) \<in> set ((p, k) # js). a + int n \<le> q \<or> q + 4 \<le> a" for a n
    using IH(2) slice_patch [OF p(1,2)] that by auto
  ultimately show ?case using IH(1,3) k(1) by auto
qed

end
