(* ===== verification/Be_Semantics.thy ===== *)
theory Be_Semantics
  imports Be_Module Ce_Builder
begin

text \<open>
  A reference semantics of the backend's instructions on integers and booleans: what a function
  computes, independently of how \<open>CeBuilder\<close> lays it out.  It covers local variables, arithmetic,
  comparisons, conversions and branches.  \<open>None\<close> stands for undefined behaviour and for the
  instructions outside this fragment.

  A value is the unsigned representative of its bits together with its type.  It also names its
  holder, the instruction or variable whose storage it occupies in the code of \<open>CeBuilder\<close>.  In
  the \<^emph>\<open>strict\<close> mode a value is lost as soon as its holder is written again; otherwise holders have no
  effect.
\<close>

unbundle bit_operations_syntax

section \<open>Values\<close>

text \<open>The integer suffix of the scalar types.\<close>

definition scalar :: "be_type \<Rightarrow> ce_int option" where
  "scalar t = (case mTypeCode t of
     BeTypeCode_Boolean \<Rightarrow> Some I8 | BeTypeCode_Int8 \<Rightarrow> Some I8 | BeTypeCode_Int16 \<Rightarrow> Some I16
   | BeTypeCode_Int32 \<Rightarrow> Some I32 | BeTypeCode_Int64 \<Rightarrow> Some I64 | _ \<Rightarrow> None)"

definition val_ok :: "be_type \<Rightarrow> int \<Rightarrow> bool" where
  "val_ok t x = (case scalar t of
     None \<Rightarrow> False
   | Some i \<Rightarrow> in_u (int_bytes i) x \<and> (mTypeCode t = BeTypeCode_Boolean \<longrightarrow> x < 2))"

text \<open>
  The binary operations on \<open>n\<close> bytes; \<open>Inl\<close> is a trap.  A signed quotient that does not fit and a
  shift by the width or more are undefined.
\<close>

definition ir_binary :: "be_binary_op_kind \<Rightarrow> nat \<Rightarrow> int \<Rightarrow> int \<Rightarrow> (string + int) option" where
  "ir_binary k n x y =
     (let sx = wrap_s n x; sy = wrap_s n y; ok = (\<lambda>v. Some (Inr (wrap_u n v)));
          divided = (\<lambda>r. if y = 0 then Some (Inl ''Division by zero'') else r);
          fits = (\<lambda>r. if sx = - (256 ^ n div 2) \<and> sy = -1 then None else r);
          shift = (\<lambda>r. if y < 8 * int n then r else None)
      in case k of
           BeBinaryOpKind_Add \<Rightarrow> ok (x + y)
         | BeBinaryOpKind_Subtract \<Rightarrow> ok (x - y)
         | BeBinaryOpKind_Multiply \<Rightarrow> ok (x * y)
         | BeBinaryOpKind_SDivide \<Rightarrow> divided (fits (ok (c_div sx sy)))
         | BeBinaryOpKind_UDivide \<Rightarrow> divided (ok (x div y))
         | BeBinaryOpKind_SModulus \<Rightarrow> divided (fits (ok (c_mod sx sy)))
         | BeBinaryOpKind_UModulus \<Rightarrow> divided (ok (x mod y))
         | BeBinaryOpKind_BitwiseAnd \<Rightarrow> ok (x AND y)
         | BeBinaryOpKind_BitwiseOr \<Rightarrow> ok (x OR y)
         | BeBinaryOpKind_ExclusiveOr \<Rightarrow> ok (x XOR y)
         | BeBinaryOpKind_LeftShift \<Rightarrow> shift (ok (x * 2 ^ nat y))
         | BeBinaryOpKind_RightShift \<Rightarrow> shift (ok (x div 2 ^ nat y))
         | BeBinaryOpKind_ARightShift \<Rightarrow> shift (ok (sx div 2 ^ nat y)))"

definition is_shift :: "be_binary_op_kind \<Rightarrow> bool" where
  "is_shift k \<longleftrightarrow> k \<in> {BeBinaryOpKind_LeftShift, BeBinaryOpKind_RightShift, BeBinaryOpKind_ARightShift}"

primrec ir_cmp :: "be_cmp_kind \<Rightarrow> nat \<Rightarrow> int \<Rightarrow> int \<Rightarrow> bool" where
  "ir_cmp BeCmpKind_SLT n x y = (wrap_s n x < wrap_s n y)"
| "ir_cmp BeCmpKind_ULT n x y = (x < y)"
| "ir_cmp BeCmpKind_SLE n x y = (wrap_s n x \<le> wrap_s n y)"
| "ir_cmp BeCmpKind_ULE n x y = (x \<le> y)"
| "ir_cmp BeCmpKind_EQ n x y = (x = y)"
| "ir_cmp BeCmpKind_NE n x y = (x \<noteq> y)"
| "ir_cmp BeCmpKind_SGT n x y = (wrap_s n x > wrap_s n y)"
| "ir_cmp BeCmpKind_UGT n x y = (x > y)"
| "ir_cmp BeCmpKind_SGE n x y = (wrap_s n x \<ge> wrap_s n y)"
| "ir_cmp BeCmpKind_UGE n x y = (x \<ge> y)"

text \<open>A conversion from \<open>m\<close> to \<open>n\<close> bytes extends the sign only between two signed types.\<close>

definition ir_cast :: "nat \<Rightarrow> nat \<Rightarrow> bool \<Rightarrow> int \<Rightarrow> int" where
  "ir_cast m n sx x = (if n \<le> m then wrap_u n x else if sx then wrap_u n (wrap_s m x) else x)"

section \<open>States\<close>

text \<open>A variable is the id of its \<open>BeAllocaInst\<close>, with its type and, once stored, its value.\<close>

record ir_state =
  ir_block :: nat
  ir_pos :: nat
  ir_vals :: "be_value \<rightharpoonup> be_type \<times> int \<times> be_value"
  ir_vars :: "int \<rightharpoonup> be_type \<times> int option"

datatype (plugins only: size code) ir_result =
    IrNext ir_state
  | IrDone "(be_type \<times> int) option"
  | IrTrap string

definition ir_kill :: "bool \<Rightarrow> be_value \<Rightarrow> ir_state \<Rightarrow> ir_state" where
  "ir_kill strict h s =
     (if strict then s\<lparr>ir_vals := (\<lambda>v. case ir_vals s v of
                         Some (t, x, h') \<Rightarrow> if h' = h then None else Some (t, x, h') | None \<Rightarrow> None)\<rparr>
      else s)"

text \<open>An operand; a constant has no holder.\<close>

definition ir_get :: "ir_state \<Rightarrow> be_value option \<Rightarrow> (be_type \<times> int \<times> be_value option) option" where
  "ir_get s v =
     (case v of
        None \<Rightarrow> None
      | Some (BeConstant t w) \<Rightarrow>
          (case scalar t of
             None \<Rightarrow> None
           | Some i \<Rightarrow> (let x = wrap_u (int_bytes i) (uint w) in if val_ok t x then Some (t, x, None) else None))
      | Some x \<Rightarrow> map_option (\<lambda>(t, x, h). (t, x, Some h)) (ir_vals s x))"

definition ir_next :: "ir_state \<Rightarrow> ir_result option" where
  "ir_next s = Some (IrNext (s\<lparr>ir_pos := Suc (ir_pos s)\<rparr>))"

definition ir_set :: "int \<Rightarrow> be_type \<Rightarrow> int \<Rightarrow> be_value option \<Rightarrow> ir_state \<Rightarrow> ir_result option" where
  "ir_set i t x h s =
     (if val_ok t x
      then ir_next (s\<lparr>ir_vals := (ir_vals s)(BeInst i \<mapsto> (t, x, case h of None \<Rightarrow> BeInst i | Some h' \<Rightarrow> h'))\<rparr>)
      else None)"

definition ir_goto :: "be_function \<Rightarrow> nat \<Rightarrow> ir_state \<Rightarrow> ir_result option" where
  "ir_goto f k s = (if k < length (mBlocks f) then Some (IrNext (s\<lparr>ir_block := k, ir_pos := 0\<rparr>)) else None)"

text \<open>The block a switch goes to; its cases are distinct constants of the type of its value.\<close>

definition ir_case :: "be_type \<Rightarrow> int \<Rightarrow> nat \<Rightarrow> (be_type \<times> u64 \<times> nat) list \<Rightarrow> nat option" where
  "ir_case t x d cs =
     (case scalar t of
        None \<Rightarrow> None
      | Some i \<Rightarrow>
          (let key = (\<lambda>(u, w, k). wrap_u (int_bytes i) (uint w))
           in if list_all (\<lambda>c. fst c = t \<and> val_ok t (key c)) cs \<and> distinct (map key cs)
              then (case find (\<lambda>c. key c = x) cs of None \<Rightarrow> Some d | Some (u, w, k) \<Rightarrow> Some k)
              else None))"

section \<open>Steps\<close>

text \<open>Loads and stores of local variables.\<close>

definition ir_load :: "ce_input \<Rightarrow> int \<Rightarrow> int \<Rightarrow> ir_state \<Rightarrow> ir_result option" where
  "ir_load C i p s =
     (case ir_vars s p of
        Some (t, Some x) \<Rightarrow> ir_set i t x (if ci_refs C i \<le> 1 then Some (BeInst p) else None) s
      | _ \<Rightarrow> None)"

definition ir_store :: "bool \<Rightarrow> be_value option \<Rightarrow> int \<Rightarrow> ir_state \<Rightarrow> ir_result option" where
  "ir_store strict v p s = do {
     (t, x, _) \<leftarrow> ir_get s v;
     (u, _) \<leftarrow> ir_vars s p;
     if u = t
     then (let s1 = ir_kill strict (BeInst p) s in ir_next (s1\<lparr>ir_vars := (ir_vars s1)(p \<mapsto> (t, Some x))\<rparr>))
     else None }"

definition ir_variable :: "be_value option \<Rightarrow> int option" where
  "ir_variable v = (case v of Some (BeInst p) \<Rightarrow> Some p | _ \<Rightarrow> None)"

text \<open>The effect of instruction \<open>i\<close> on a state in which the storage of \<open>i\<close> is already given up.\<close>

primrec ir_inst :: "ce_input \<Rightarrow> be_module \<Rightarrow> bool \<Rightarrow> be_function \<Rightarrow> int \<Rightarrow> be_inst \<Rightarrow> ir_state \<Rightarrow> ir_result option" where
  "ir_inst C M strict f i (BeBinaryOpInst k l r ov) s = do {
     (t, x, _) \<leftarrow> ir_get s l; (u, y, _) \<leftarrow> ir_get s r; w \<leftarrow> scalar t;
     if u = t \<or> is_shift k
     then do { z \<leftarrow> ir_binary k (int_bytes w) x y;
               case z of Inl msg \<Rightarrow> Some (IrTrap msg) | Inr v \<Rightarrow> ir_set i t v None s }
     else None }"
| "ir_inst C M strict f i (BeCmpInst k l r) s = do {
     (t, x, _) \<leftarrow> ir_get s l; (u, y, _) \<leftarrow> ir_get s r; w \<leftarrow> scalar t;
     if u = t
     then ir_set i (GetPrimitiveType BeTypeCode_Boolean) (if ir_cmp k (int_bytes w) x y then 1 else 0) None s
     else None }"
| "ir_inst C M strict f i (BeNumericCastInst v t vs ts) s = do {
     (u, x, h) \<leftarrow> ir_get s v; m \<leftarrow> scalar u; n \<leftarrow> scalar t;
     ir_set i t (ir_cast (int_bytes m) (int_bytes n) (vs \<and> ts) x)
       (if int_bytes n \<le> int_bytes m then h else None) s }"
| "ir_inst C M strict f i (BeNegInst v) s = do {
     (t, x, _) \<leftarrow> ir_get s v; w \<leftarrow> scalar t; ir_set i t (wrap_u (int_bytes w) (- x)) None s }"
| "ir_inst C M strict f i (BeNotInst v) s = do {
     (t, x, _) \<leftarrow> ir_get s v; w \<leftarrow> scalar t;
     ir_set i t (if mTypeCode t = BeTypeCode_Boolean then 1 - x else wrap_u (int_bytes w) (NOT x)) None s }"
| "ir_inst C M strict f i BeNopInst s = ir_next s"
| "ir_inst C M strict f i BeUnreachableInst s = None"
| "ir_inst C M strict f i (BeUndefValueInst t) s = None"
| "ir_inst C M strict f i (BeBitCastInst v t) s = None"
| "ir_inst C M strict f i (BeAllocaInst t n) s =
     (if n = None \<and> scalar t \<noteq> None then ir_next (s\<lparr>ir_vars := (ir_vars s)(i \<mapsto> (t, None))\<rparr>) else None)"
| "ir_inst C M strict f i (BeLoadInst p) s = do { q \<leftarrow> ir_variable p; ir_load C i q s }"
| "ir_inst C M strict f i (BeStoreInst v p) s = do { q \<leftarrow> ir_variable p; ir_store strict v q s }"
| "ir_inst C M strict f i (BeBrInst k) s = ir_goto f k s"
| "ir_inst C M strict f i (BeCondBrInst c k1 k2) s = do {
     (t, x, _) \<leftarrow> ir_get s c;
     if mTypeCode t = BeTypeCode_Boolean then ir_goto f (if x = 1 then k1 else k2) s else None }"
| "ir_inst C M strict f i (BePhiInst t ins) s = None"
| "ir_inst C M strict f i (BeSwitchInst v d cs) s = do {
     (t, x, _) \<leftarrow> ir_get s v; k \<leftarrow> ir_case t x d cs; ir_goto f k s }"
| "ir_inst C M strict f i (BeRetInst v) s =
     (if v = None then Some (IrDone None)
      else do {
        (t, x, _) \<leftarrow> ir_get s v;
        if value_type M v = Some t then Some (IrDone (Some (t, x))) else None })"
| "ir_inst C M strict f i (BeSetRetInst v n) s = None"

definition ir_step :: "ce_input \<Rightarrow> be_module \<Rightarrow> bool \<Rightarrow> be_function \<Rightarrow> ir_state \<Rightarrow> ir_result option" where
  "ir_step C M strict f s =
     (if ir_block s < length (mBlocks f) \<and> ir_pos s < length (mBlocks f ! ir_block s)
      then (let (i, inst) = mBlocks f ! ir_block s ! ir_pos s
            in ir_inst C M strict f i inst (ir_kill strict (BeInst i) s))
      else None)"

fun ir_run :: "ce_input \<Rightarrow> be_module \<Rightarrow> bool \<Rightarrow> be_function \<Rightarrow> nat \<Rightarrow> ir_state \<Rightarrow> ir_result option" where
  "ir_run C M strict f 0 s = Some (IrNext s)"
| "ir_run C M strict f (Suc n) s =
     (case ir_step C M strict f s of Some (IrNext s1) \<Rightarrow> ir_run C M strict f n s1 | r \<Rightarrow> r)"

text \<open>The start of a function on the given arguments.\<close>

definition ir_init :: "be_function \<Rightarrow> int list \<Rightarrow> ir_state" where
  "ir_init f xs = \<lparr>ir_block = 0, ir_pos = 0,
     ir_vals = (\<lambda>v. case v of
        BeArgument n \<Rightarrow> if n < length (mParams f) \<and> n < length xs
                        then Some (mParams f ! n, xs ! n, BeArgument n) else None
      | _ \<Rightarrow> None),
     ir_vars = Map.empty\<rparr>"

section \<open>Strict runs are runs\<close>

text \<open>A strict state knows a part of the values of the other one.\<close>

definition ir_below :: "ir_state \<Rightarrow> ir_state \<Rightarrow> bool" where
  "ir_below s s' \<longleftrightarrow> ir_vals s \<subseteq>\<^sub>m ir_vals s' \<and> ir_vars s' = ir_vars s \<and> ir_block s' = ir_block s \<and> ir_pos s' = ir_pos s"

definition ir_same :: "ir_result \<Rightarrow> ir_result \<Rightarrow> bool" where
  "ir_same r r' \<longleftrightarrow> (case r of IrNext s \<Rightarrow> \<exists>s'. r' = IrNext s' \<and> ir_below s s' | _ \<Rightarrow> r' = r)"


lemma ir_below_refl [simp]: "ir_below s s"
  by (simp add: ir_below_def)

lemma ir_below_kill: "ir_below s s' \<Longrightarrow> ir_below (ir_kill b h s) s'"
  by (auto simp: ir_below_def ir_kill_def map_le_def split: option.splits if_splits dest!: bspec [OF _ domI])

lemma ir_get_below: "ir_below s s' \<Longrightarrow> ir_get s v = Some r \<Longrightarrow> ir_get s' v = Some r"
  by (auto simp: ir_below_def ir_get_def map_le_def split: option.splits be_value.splits dest!: bspec [OF _ domI])

lemma ir_same_next: "ir_below s s' \<Longrightarrow> ir_next s = Some r \<Longrightarrow> \<exists>r'. ir_next s' = Some r' \<and> ir_same r r'"
  by (auto simp: ir_next_def ir_same_def ir_below_def)

lemma map_le_upd: "m \<subseteq>\<^sub>m m' \<Longrightarrow> m(k \<mapsto> v) \<subseteq>\<^sub>m m'(k \<mapsto> v)"
  by (auto simp: map_le_def)

lemma ir_same_set:
  "ir_below s s' \<Longrightarrow> ir_set i t x h s = Some r \<Longrightarrow> \<exists>r'. ir_set i t x h s' = Some r' \<and> ir_same r r'"
  by (auto simp: ir_set_def ir_next_def ir_same_def ir_below_def map_le_upd split: if_splits)

lemma ir_same_goto: "ir_below s s' \<Longrightarrow> ir_goto f k s = Some r \<Longrightarrow> \<exists>r'. ir_goto f k s' = Some r' \<and> ir_same r r'"
  by (auto simp: ir_goto_def ir_same_def ir_below_def split: if_splits)

lemma ir_same_done [simp]: "ir_same (IrDone v) r \<longleftrightarrow> r = IrDone v" "ir_same (IrTrap m) r \<longleftrightarrow> r = IrTrap m"
  by (auto simp: ir_same_def)

lemmas ir_same_rules = ir_same_next ir_same_set ir_same_goto

lemma ir_vars_below: "ir_below s s' \<Longrightarrow> ir_vars s' = ir_vars s"
  by (simp add: ir_below_def)

lemma ir_below_vars: "ir_below s s' \<Longrightarrow> ir_below (s\<lparr>ir_vars := m\<rparr>) (s'\<lparr>ir_vars := m\<rparr>)"
  by (auto simp: ir_below_def)

lemma ir_same_store:
  assumes b: "ir_below s s'" and r: "ir_store strict v p s = Some r"
  shows "\<exists>r'. ir_store False v p s' = Some r' \<and> ir_same r r'"
proof -
  define s1 where "s1 = ir_kill strict (BeInst p) s"
  have b1: "ir_below s1 s'" unfolding s1_def by (rule ir_below_kill [OF b])
  from r obtain t x h z where g: "ir_get s v = Some (t, x, h)" "ir_vars s p = Some (t, z)"
    and n: "ir_next (s1\<lparr>ir_vars := (ir_vars s1)(p \<mapsto> (t, Some x))\<rparr>) = Some r"
    unfolding ir_store_def s1_def [symmetric] Let_def by (auto simp: bind_eq_Some_conv split: if_splits)
  from ir_same_next [OF ir_below_vars [OF b1] n] show ?thesis
    by (simp add: ir_store_def ir_get_below [OF b g(1)] ir_vars_below [OF b] g(2) ir_kill_def ir_vars_below [OF b1, symmetric])
qed

lemma ir_same_load:
  "ir_below s s' \<Longrightarrow> ir_load C i p s = Some r \<Longrightarrow> \<exists>r'. ir_load C i p s' = Some r' \<and> ir_same r r'"
  by (auto simp: ir_load_def ir_vars_below split: option.splits intro!: ir_same_set)

lemma ir_inst_below:
  assumes b: "ir_below s s'" and r: "ir_inst C M strict f i inst s = Some r"
  shows "\<exists>r'. ir_inst C M False f i inst s' = Some r' \<and> ir_same r r'"
proof (cases inst)
  case (BeAllocaInst t n)
  with r show ?thesis
    by (auto simp: ir_vars_below [OF b] split: if_splits intro!: ir_same_next ir_below_vars b)
qed (use r in \<open>auto split: if_splits bind_splits sum.splits dest!: ir_get_below [OF b]
       intro!: ir_same_rules [OF b] ir_same_store [OF b] ir_same_load [OF b]\<close>)

lemma ir_step_below:
  assumes b: "ir_below s s'" and r: "ir_step C M strict f s = Some r"
  shows "\<exists>r'. ir_step C M False f s' = Some r' \<and> ir_same r r'"
proof -
  have "ir_block s' = ir_block s" "ir_pos s' = ir_pos s" using b by (auto simp: ir_below_def)
  with r ir_inst_below [OF ir_below_kill [OF b]] show ?thesis
    by (auto simp: ir_step_def ir_kill_def [of False] split: if_splits prod.splits)
qed

lemma ir_run_below:
  "ir_below s s' \<Longrightarrow> ir_run C M strict f n s = Some r \<Longrightarrow> \<exists>r'. ir_run C M False f n s' = Some r' \<and> ir_same r r'"
proof (induction n arbitrary: s s')
  case 0
  then show ?case by (auto simp: ir_same_def)
next
  case (Suc n)
  from Suc.prems(2) obtain r1 where r1: "ir_step C M strict f s = Some r1"
    by (auto split: option.splits)
  from ir_step_below [OF Suc.prems(1) this] obtain r2 where
    r2: "ir_step C M False f s' = Some r2" "ir_same r1 r2" by blast
  show ?case
  proof (cases r1)
    case (IrNext s1)
    with r2 obtain s2 where "r2 = IrNext s2" "ir_below s1 s2" by (auto simp: ir_same_def)
    with Suc.IH [of s1 s2] Suc.prems(2) r1 r2 IrNext show ?thesis by simp
  qed (use Suc.prems(2) r1 r2 in auto)
qed

end
