(* ===== verification/Ce_Builder_Sim.thy ===== *)
theory Ce_Builder_Sim
  imports Ce_Builder_Props Be_Semantics
begin

text \<open>
  The code of \<open>CeBuilder\<close> on the virtual machine: each emitted piece, started where it begins, runs
  to its end and leaves the value of its instruction in the slot of the result, and touches only
  the slots it allocated.
\<close>

unbundle bit_operations_syntax

section \<open>The finished function\<close>

definition built :: "ce_input \<Rightarrow> be_module \<Rightarrow> be_function \<Rightarrow> ce_function \<Rightarrow> bool" where
  "built C M f cf \<longleftrightarrow> fn_ok C f \<and> CeBuild C M f = Some cf \<and> \<not> mFailed cf"

text \<open>The code between two builders is in the finished code.\<close>

definition has_code :: "ce_function \<Rightarrow> ce_builder \<Rightarrow> ce_builder \<Rightarrow> bool" where
  "has_code cf b b' \<longleftrightarrow> placed (mCode cf) (GetCodePos b) (drop (length (cb_code b)) (cb_code b'))"

lemma has_code_split:
  assumes "grows b b1" "grows b1 b2"
  shows "has_code cf b b2 \<longleftrightarrow> has_code cf b b1 \<and> has_code cf b1 b2"
proof -
  from assms obtain s1 s2 where "cb_code b1 = cb_code b @ s1" "cb_code b2 = cb_code b1 @ s2"
    unfolding grows_def by blast
  then show ?thesis by (simp add: has_code_def placed_append)
qed

lemma has_code_emit:
  "cb_code b' = cb_code b @ seg \<Longrightarrow> has_code cf b b' \<longleftrightarrow> placed (mCode cf) (GetCodePos b) seg"
  by (simp add: has_code_def)

lemma bld_all:
  assumes "built C M f cf"
  obtains h bF where "bld C M f (length (mBlocks f) - 1) (length (last (mBlocks f))) = Some (h, bF)"
    "patch_jumps (cb_blocks bF) (cb_jumps bF) (cb_code bF) = Some (mCode cf)"
    "mFrameSize cf = cb_frame_size bF" "cb_error bF = None"
    "\<And>k j. k < length (mBlocks f) \<Longrightarrow> j \<le> length (mBlocks f ! k) \<Longrightarrow> \<exists>hb. bld C M f k j = Some hb"
proof -
  from assms have ok: "fn_ok C f" and cf: "CeBuild C M f = Some cf" and nf: "\<not> mFailed cf" by (auto simp: built_def)
  from cf obtain b1 bF code where p: "pre_blocks C M 0 (mBlocks f) (cb_init (length (mBlocks f))) = Some b1"
    and b: "build_blocks C (mParams f) 0 (mBlocks f) (True, b1) = Some bF"
    and j: "patch_jumps (cb_blocks bF) (cb_jumps bF) (cb_code bF) = Some code"
    and cf': "cf = \<lparr>mFunctionKind = CeFunctionKind_Normal,
        mFailed = (code = [] \<or> cb_error (if code = [] then cb_fail ''No method definition available'' bF else bF) \<noteq> None),
        mIsVarReturn = False, mCode = code,
        mFrameSize = (if code = [] then 0 else cb_frame_size (if code = [] then cb_fail ''No method definition available'' bF else bF))\<rparr>"
    by (auto simp: CeBuild_def bind_eq_Some_conv Let_def)
  have ne: "code \<noteq> []" "cb_error bF = None" using nf cf' by auto
  have "0 < length (mBlocks f)" using ok by (auto simp: fn_ok_def)
  from build_blocks_bld [of C f 0 True b1 bF M, simplified, OF b] this p obtain h where
    all: "\<forall>k' < length (mBlocks f). \<forall>j \<le> length (mBlocks f ! k'). \<exists>a b. bld C M f k' j = Some (a, b)"
    and last: "bld C M f (length (mBlocks f) - 1) (length (last (mBlocks f))) = Some (h, bF)" by auto
  show thesis by (rule that [OF last]) (use j cf' ne all in auto)
qed

text \<open>The finished code around a builder before some instruction, and the targets of the jumps.\<close>

definition target :: "ce_input \<Rightarrow> be_module \<Rightarrow> be_function \<Rightarrow> nat \<Rightarrow> int" where
  "target C M f k = (case bld C M f k 0 of Some (h, b) \<Rightarrow> GetCodePos b | None \<Rightarrow> 0)"

lemma last_pos: "mBlocks f \<noteq> [] \<Longrightarrow> last (mBlocks f) = mBlocks f ! (length (mBlocks f) - 1)"
  by (rule last_conv_nth)

text \<open>The finished builder, reached from every position.\<close>

definition finished :: "ce_input \<Rightarrow> be_module \<Rightarrow> be_function \<Rightarrow> ce_function \<Rightarrow> ce_builder \<Rightarrow> bool" where
  "finished C M f cf bF \<longleftrightarrow>
     patch_jumps (cb_blocks bF) (cb_jumps bF) (cb_code bF) = Some (mCode cf) \<and> mFrameSize cf = cb_frame_size bF \<and>
     cb_error bF = None \<and>
     (\<forall>k j h b. k < length (mBlocks f) \<longrightarrow> j \<le> length (mBlocks f ! k) \<longrightarrow> bld C M f k j = Some (h, b) \<longrightarrow>
        extends_b b bF \<and> (j = 0 \<longrightarrow> mEmitOfs (cb_blocks bF ! k) = GetCodePos b))"

lemma built_finished:
  assumes "built C M f cf"
  obtains bF where "finished C M f cf bF"
    "\<And>k j. k < length (mBlocks f) \<Longrightarrow> j \<le> length (mBlocks f ! k) \<Longrightarrow> \<exists>hb. bld C M f k j = Some hb"
proof -
  from bld_all [OF assms] obtain h bF where F:
    "bld C M f (length (mBlocks f) - 1) (length (last (mBlocks f))) = Some (h, bF)"
    "patch_jumps (cb_blocks bF) (cb_jumps bF) (cb_code bF) = Some (mCode cf)"
    "mFrameSize cf = cb_frame_size bF" "cb_error bF = None"
    "\<And>k j. k < length (mBlocks f) \<Longrightarrow> j \<le> length (mBlocks f ! k) \<Longrightarrow> \<exists>hb. bld C M f k j = Some hb" by metis
  have ok: "fn_ok C f" and ne: "mBlocks f \<noteq> []" using assms by (auto simp: built_def fn_ok_def)
  have l: "length (mBlocks f) - 1 < length (mBlocks f)" using ne by simp
  have "extends_b b bF \<and> (j = 0 \<longrightarrow> mEmitOfs (cb_blocks bF ! k) = GetCodePos b)"
    if "k < length (mBlocks f)" "j \<le> length (mBlocks f ! k)" "bld C M f k j = Some (h', b)" for k j h' b
  proof -
    have "k < length (mBlocks f) - 1 \<or> k = length (mBlocks f) - 1 \<and> j \<le> length (last (mBlocks f))"
      using that(1,2) last_pos [OF ne] by (cases "k = length (mBlocks f) - 1") auto
    then show ?thesis using last_pos [OF ne] by (intro bld_later [OF ok l _ F(1) that(3,2)]) auto
  qed
  then have "finished C M f cf bF" unfolding finished_def using F(2-4) by blast
  then show thesis using F(5) by (rule that)
qed

lemma bld_from_start:
  assumes ok: "fn_ok C f" and kj: "k < length (mBlocks f)" "j \<le> length (mBlocks f ! k)" and b: "bld C M f k j = Some (h, b)"
  shows "gaps 0 (cb_jumps b) (GetCodePos b)" "0 \<le> cb_frame_size b" "cb_return b = (if ret_size C M f > 0 then Some 0 else None)"
proof -
  have "cb_inv C M f k j b" using assms by (intro bld_inv) auto
  then have e: "extends_b (start_block C (mParams f) 0 (cb_init (length (mBlocks f))\<lparr>cb_max_return := ret_size C M f\<rparr>)) b"
    by (simp add: cb_inv_def)
  then show "gaps 0 (cb_jumps b) (GetCodePos b)" "0 \<le> cb_frame_size b"
    "cb_return b = (if ret_size C M f > 0 then Some 0 else None)"
    by (auto simp: extends_b_def start_block_def HandleParams_def cb_init_def GetCodePos_def Let_def)
qed

lemma finished_code:
  assumes fin: "finished C M f cf bF" and g0: "gaps 0 (cb_jumps b) (GetCodePos b)"
    and "extends_b b b'" "extends_b b' bF" "cb_jumps b' = cb_jumps b"
  shows "has_code cf b b'"
proof -
  from assms(3) obtain seg where seg: "cb_code b' = cb_code b @ seg" unfolding extends_b_def by blast
  from assms(4) obtain s2 js where s2: "cb_code bF = cb_code b' @ s2" "cb_jumps bF = cb_jumps b @ js"
    "gaps (GetCodePos b') js (GetCodePos bF)" using assms(5) unfolding extends_b_def by metis
  have pos: "GetCodePos b' = GetCodePos b + int (length seg)" using seg by simp
  then have "gaps 0 (cb_jumps bF) (GetCodePos bF)"
    unfolding s2(2) by (intro gaps_append [OF gaps_mono [OF g0] s2(3)]) simp
  then have sp: "\<forall>a n. (\<forall>(p, k) \<in> set (cb_jumps bF). a + int n \<le> p \<or> p + 4 \<le> a) \<longrightarrow> slice (mCode cf) a n = slice (cb_code bF) a n"
    using fin patch_jumps_spec [of "cb_blocks bF" "cb_jumps bF" "cb_code bF" "mCode cf" 0]
    by (auto simp: finished_def GetCodePos_def)
  have "\<forall>(p, k) \<in> set (cb_jumps bF). GetCodePos b + int (length seg) \<le> p \<or> p + 4 \<le> GetCodePos b"
    using gaps_in [OF g0] gaps_in [OF s2(3)] pos unfolding s2(2) by auto
  with sp have "slice (mCode cf) (GetCodePos b) (length seg) = slice (cb_code bF) (GetCodePos b) (length seg)" by blast
  then show ?thesis unfolding has_code_emit [OF seg] placed_def s2(1) seg
    by (simp add: GetCodePos_def)
qed

lemma finished_jump:
  assumes fin: "finished C M f cf bF" and g0: "gaps 0 (cb_jumps bF) (GetCodePos bF)"
    and "(p, k) \<in> set (cb_jumps bF)" "length (cb_blocks bF) = length (mBlocks f)"
    and all: "\<exists>hb. bld C M f k 0 = Some hb"
  shows "k < length (mBlocks f)" "placed (mCode cf) p (le_bytes 4 (target C M f k - p - 4))"
proof -
  have "k < length (cb_blocks bF)" "placed (mCode cf) p (le_bytes 4 (mEmitOfs (cb_blocks bF ! k) - p - 4))"
    using fin patch_jumps_spec [of "cb_blocks bF" "cb_jumps bF" "cb_code bF" "mCode cf" 0] g0 assms(3)
    by (auto simp: finished_def GetCodePos_def)
  moreover from this(1) assms(4) show k: "k < length (mBlocks f)" by simp
  moreover obtain h b where b: "bld C M f k 0 = Some (h, b)" using all by auto
  moreover have "mEmitOfs (cb_blocks bF ! k) = GetCodePos b"
    using fin k b unfolding finished_def by blast
  ultimately show "placed (mCode cf) p (le_bytes 4 (target C M f k - p - 4))"
    by (simp add: target_def)
qed

section \<open>Steps of the machine\<close>

definition ce_steps :: "ce_env \<Rightarrow> ce_state \<Rightarrow> ce_state \<Rightarrow> bool" where
  "ce_steps e s s' \<longleftrightarrow> (\<exists>n. ce_run n e s = Some (CeNext s'))"

lemma ce_run_append: "ce_run m e s = Some (CeNext s1) \<Longrightarrow> ce_run (m + n) e s = ce_run n e s1"
  by (induction m arbitrary: s) (auto split: option.splits ce_result.splits)

lemma ce_steps_refl [simp]: "ce_steps e s s"
  by (auto simp: ce_steps_def intro: exI [of _ 0])

lemma ce_steps_trans [trans]: "ce_steps e s s1 \<Longrightarrow> ce_steps e s1 s2 \<Longrightarrow> ce_steps e s s2"
  by (auto simp: ce_steps_def) (metis ce_run_append)

lemma ce_steps_one: "ce_step e s = Some (CeNext s1) \<Longrightarrow> ce_steps e s s1"
  by (auto simp: ce_steps_def intro!: exI [of _ 1])

text \<open>
  A state in which the function runs in the frame at \<open>F\<close>, with \<open>hi\<close> bytes above it; the instruction
  pointer is where the builder stood.
\<close>

definition frame_ok :: "ce_function \<Rightarrow> int \<Rightarrow> int \<Rightarrow> ce_state \<Rightarrow> bool" where
  "frame_ok cf F hi s \<longleftrightarrow>
     x_fn s = cf \<and> x_frame s = F \<and> 0 \<le> mFrameSize cf \<and> mFrameSize cf \<le> F \<and> 0 \<le> hi \<and> F + hi \<le> x_mem_size s \<and>
     x_mem_size s < 2 ^ 31"

definition slot_ok :: "ce_function \<Rightarrow> int \<Rightarrow> int \<Rightarrow> nat \<Rightarrow> bool" where
  "slot_ok cf hi o' n \<longleftrightarrow> - mFrameSize cf \<le> o' \<and> o' + int n \<le> hi"

lemma slot_in_mem: "frame_ok cf F hi s \<Longrightarrow> slot_ok cf hi o' n \<Longrightarrow> in_mem s (F + o') (int n)"
  by (auto simp: frame_ok_def slot_ok_def in_mem_def)

lemma slot_in_s: "frame_ok cf F hi s \<Longrightarrow> slot_ok cf hi o' n \<Longrightarrow> in_s 4 o'"
  by (auto simp: frame_ok_def slot_ok_def in_s_def)

text \<open>Only the bytes between two frame offsets have changed, and the instruction pointer.\<close>

definition touches :: "ce_state \<Rightarrow> int \<Rightarrow> int \<Rightarrow> ce_state \<Rightarrow> bool" where
  "touches s lo hi s' \<longleftrightarrow>
     s' = s\<lparr>x_mem := x_mem s', x_inst := x_inst s'\<rparr> \<and>
     (\<forall>a. a < x_frame s + lo \<or> x_frame s + hi \<le> a \<longrightarrow> x_mem s' a = x_mem s a)"

lemma touchesI:
  assumes "s' = s\<lparr>x_mem := m, x_inst := p\<rparr>" "\<And>a. a < x_frame s + lo \<or> x_frame s + hi \<le> a \<Longrightarrow> m a = x_mem s a"
  shows "touches s lo hi s'"
  using assms by (simp add: touches_def)

lemma touchesE:
  assumes "touches s lo hi s'"
  obtains m p where "s' = s\<lparr>x_mem := m, x_inst := p\<rparr>" "\<And>a. a < x_frame s + lo \<or> x_frame s + hi \<le> a \<Longrightarrow> m a = x_mem s a"
  using assms unfolding touches_def by blast

lemma touches_eq:
  assumes "touches s lo hi s'"
  shows "x_fn s' = x_fn s" "x_frame s' = x_frame s" "x_mem_size s' = x_mem_size s" "x_calls s' = x_calls s"
  using assms by (auto elim!: touchesE)

lemma touches_refl [simp]: "touches s lo hi s"
  by (rule touchesI [where m = "x_mem s" and p = "x_inst s"]) auto

lemma touches_trans:
  assumes "touches s lo hi s1" "touches s1 lo' hi' s2" "l \<le> lo" "l \<le> lo'" "hi \<le> h" "hi' \<le> h"
  shows "touches s l h s2"
  using assms by (elim touchesE) (auto intro!: touchesI)

lemma touches_mono: "touches s lo hi s' \<Longrightarrow> l \<le> lo \<Longrightarrow> hi \<le> h \<Longrightarrow> touches s l h s'"
  by (elim touchesE) (auto intro!: touchesI)

lemma touches_frame_ok: "touches s lo hi s' \<Longrightarrow> frame_ok cf F h s' = frame_ok cf F h s"
  by (simp add: frame_ok_def touches_eq)

lemma touches_bytes:
  assumes "touches s lo hi s'" "o' + int n \<le> lo \<or> hi \<le> o'"
  shows "ce_bytes s' (x_frame s + o') n = ce_bytes s (x_frame s + o') n"
  using assms by (elim touchesE) (auto simp: ce_bytes_def)

lemma touches_put: "lo \<le> o' \<Longrightarrow> o' + int (length bs) \<le> hi \<Longrightarrow> touches s lo hi (adv (ce_put s (x_frame s + o') bs) k)"
  by (rule touchesI [where m = "x_mem (ce_put s (x_frame s + o') bs)" and p = "x_inst s + k"]) (auto simp: adv_def ce_put_def)

lemma touches_adv [simp]: "touches s lo hi (adv s k)"
  by (rule touchesI [where m = "x_mem s" and p = "x_inst s + k"]) (auto simp: adv_def)

lemma ce_put_simps [simp]:
  "x_inst (ce_put s a bs) = x_inst s" "x_frame (ce_put s a bs) = x_frame s" "x_fn (ce_put s a bs) = x_fn s"
  by (simp_all add: ce_put_def)

section \<open>Scalars in memory\<close>

lemma scalar_size: "scalar t = Some i \<Longrightarrow> type_size C t = int (int_bytes i)"
  by (cases t) (auto simp: scalar_def split: be_type_code.splits)

lemma scalar_intable: "scalar t = Some i \<Longrightarrow> be_IsIntable t"
  by (cases t) (auto simp: scalar_def be_IsIntable_def split: be_type_code.splits)

lemma int_bytes_pos [simp]: "0 < int_bytes i" "int_bytes i \<le> 8"
  by (cases i; simp)+

lemma num_op_scalar: "scalar t = Some i \<Longrightarrow> num_op C what iop fop t b = (ce_code iop + int_idx i, b)"
  by (cases i) (simp_all add: num_op_def scalar_size scalar_intable)

text \<open>A scalar at a frame offset.\<close>

definition holds :: "ce_state \<Rightarrow> int \<Rightarrow> be_type \<Rightarrow> int \<Rightarrow> bool" where
  "holds s o' t x \<longleftrightarrow>
     (case scalar t of None \<Rightarrow> False
      | Some i \<Rightarrow> val_ok t x \<and> ce_bytes s (x_frame s + o') (int_bytes i) = le_bytes (int_bytes i) x)"

lemma val_ok_in_u: "val_ok t x \<Longrightarrow> scalar t = Some i \<Longrightarrow> in_u (int_bytes i) x"
  by (simp add: val_ok_def)

lemma holds_bytes:
  "holds s o' t x \<Longrightarrow> scalar t = Some i \<Longrightarrow> ce_bytes s (x_frame s + o') (int_bytes i) = le_bytes (int_bytes i) x"
  by (simp add: holds_def)

lemma holds_val: "holds s o' t x \<Longrightarrow> val_ok t x"
  by (auto simp: holds_def split: option.splits)

lemma le_bytes_le: "k \<le> n \<Longrightarrow> take k (le_bytes n v) = le_bytes k v"
proof (induction n arbitrary: k v)
  case (Suc n)
  then show ?case by (cases k) auto
qed simp

lemma ce_bytes_le: "k \<le> n \<Longrightarrow> ce_bytes s a k = take k (ce_bytes s a n)"
  by (simp add: ce_bytes_def take_map)

lemma holds_low:
  assumes "holds s o' t x" "scalar t = Some i" "k \<le> int_bytes i"
  shows "ce_bytes s (x_frame s + o') k = le_bytes k x"
  using assms ce_bytes_le [OF assms(3), of s "x_frame s + o'"] by (simp add: holds_bytes le_bytes_le)

lemma holds_touches:
  assumes "touches s lo hi s'" "\<And>i. scalar t = Some i \<Longrightarrow> o' + int (int_bytes i) \<le> lo \<or> hi \<le> o'"
  shows "holds s' o' t x = holds s o' t x"
proof (cases "scalar t")
  case None
  then show ?thesis by (simp add: holds_def)
next
  case (Some i)
  from touches_bytes [OF assms(1) assms(2) [OF Some]] show ?thesis by (simp add: holds_def Some touches_eq [OF assms(1)])
qed

lemma holds_put:
  "val_ok t x \<Longrightarrow> scalar t = Some i \<Longrightarrow> holds (adv (ce_put s (x_frame s + o') (le_bytes (int_bytes i) x)) k) o' t x"
  by (simp add: holds_def ce_bytes_put_same)

section \<open>Arithmetic\<close>

text \<open>The members of the families of \<open>binary_ops\<close> and \<open>cmp_ops\<close>.\<close>

primrec bin_op :: "be_binary_op_kind \<Rightarrow> ce_int \<Rightarrow> ce_op" where
  "bin_op BeBinaryOpKind_Add i = Arith (CeOp_Add (KI i))"
| "bin_op BeBinaryOpKind_Subtract i = Arith (CeOp_Sub (KI i))"
| "bin_op BeBinaryOpKind_Multiply i = Arith (CeOp_Mul (KI i))"
| "bin_op BeBinaryOpKind_SDivide i = Arith (CeOp_Div (KI i))"
| "bin_op BeBinaryOpKind_UDivide i = Arith (CeOp_DivU i)"
| "bin_op BeBinaryOpKind_SModulus i = Arith (CeOp_Mod (KI i))"
| "bin_op BeBinaryOpKind_UModulus i = Arith (CeOp_ModU i)"
| "bin_op BeBinaryOpKind_BitwiseAnd i = Arith (CeOp_And i)"
| "bin_op BeBinaryOpKind_BitwiseOr i = Arith (CeOp_Or i)"
| "bin_op BeBinaryOpKind_ExclusiveOr i = Arith (CeOp_Xor i)"
| "bin_op BeBinaryOpKind_LeftShift i = Arith (CeOp_Shl i)"
| "bin_op BeBinaryOpKind_RightShift i = Arith (CeOp_ShrU i)"
| "bin_op BeBinaryOpKind_ARightShift i = Arith (CeOp_Shr i)"

primrec cmp_op :: "be_cmp_kind \<Rightarrow> ce_int \<Rightarrow> ce_op" where
  "cmp_op BeCmpKind_SLT i = Cmp (CeOp_Cmp_SLT (KI i))"
| "cmp_op BeCmpKind_ULT i = Cmp (CeOp_Cmp_ULT i)"
| "cmp_op BeCmpKind_SLE i = Cmp (CeOp_Cmp_SLE (KI i))"
| "cmp_op BeCmpKind_ULE i = Cmp (CeOp_Cmp_ULE i)"
| "cmp_op BeCmpKind_EQ i = Cmp (CeOp_Cmp_EQ (KI i))"
| "cmp_op BeCmpKind_NE i = Cmp (CeOp_Cmp_NE (KI i))"
| "cmp_op BeCmpKind_SGT i = Cmp (CeOp_Cmp_SGT (KI i))"
| "cmp_op BeCmpKind_UGT i = Cmp (CeOp_Cmp_UGT i)"
| "cmp_op BeCmpKind_SGE i = Cmp (CeOp_Cmp_SGE (KI i))"
| "cmp_op BeCmpKind_UGE i = Cmp (CeOp_Cmp_UGE i)"

lemma binary_ops_code: "ce_code (fst (binary_ops k)) + int_idx i = ce_code (bin_op k i)"
  by (cases k) simp_all

lemma cmp_ops_code: "ce_code (fst (cmp_ops k)) + int_idx i = ce_code (cmp_op k i)"
  by (cases k) simp_all

lemma le_bytes_cong: "wrap_u n v = wrap_u n w \<Longrightarrow> le_bytes n v = le_bytes n w"
  by (simp add: le_bytes_inj)

text \<open>What the machine computes on the bytes of two scalars.\<close>

definition bin_fun :: "be_binary_op_kind \<Rightarrow> nat \<Rightarrow> u8 list \<Rightarrow> u8 list \<Rightarrow> u8 list option" where
  "bin_fun k n =
     (case k of
        BeBinaryOpKind_Add \<Rightarrow> s_op n (+) | BeBinaryOpKind_Subtract \<Rightarrow> s_op n (-) | BeBinaryOpKind_Multiply \<Rightarrow> s_op n (*)
      | BeBinaryOpKind_SDivide \<Rightarrow> s_div_op n c_div | BeBinaryOpKind_UDivide \<Rightarrow> u_op n (div)
      | BeBinaryOpKind_SModulus \<Rightarrow> s_div_op n c_mod | BeBinaryOpKind_UModulus \<Rightarrow> u_op n (mod)
      | BeBinaryOpKind_BitwiseAnd \<Rightarrow> u_op n (AND) | BeBinaryOpKind_BitwiseOr \<Rightarrow> u_op n (OR)
      | BeBinaryOpKind_ExclusiveOr \<Rightarrow> u_op n (XOR) | BeBinaryOpKind_LeftShift \<Rightarrow> shl_op n
      | BeBinaryOpKind_RightShift \<Rightarrow> ushr_op n | BeBinaryOpKind_ARightShift \<Rightarrow> sshr_op n)"

definition is_div :: "be_binary_op_kind \<Rightarrow> bool" where
  "is_div k \<longleftrightarrow> k \<in> {BeBinaryOpKind_SDivide, BeBinaryOpKind_UDivide, BeBinaryOpKind_SModulus, BeBinaryOpKind_UModulus}"

lemma exec_bin_op:
  "exec_op e (bin_op k i) s =
     (if is_div k then exec_bin_div (int_bytes i) s_zero (bin_fun k (int_bytes i)) s
      else exec_bin (int_bytes i) (if is_shift k then 1 else int_bytes i) (bin_fun k (int_bytes i)) s)"
  by (cases k) (simp_all add: is_div_def is_shift_def bin_fun_def exec_num_bin_def exec_num_div_def exec_arith_defs Let_def)

lemma bin_fun_spec:
  assumes r: "ir_binary k n x y = Some (Inr z)" and n: "0 < n" "n \<le> 8" and x: "in_u n x" and y: "0 \<le> y" "\<not> is_shift k \<Longrightarrow> in_u n y"
  shows "bin_fun k n (le_bytes n x) (le_bytes (if is_shift k then 1 else n) y) = Some (le_bytes n z)"
proof -
  have p: "wrap_u n (wrap_s n x + wrap_s n y) = wrap_u n (x + y)" "wrap_u n (wrap_s n x - wrap_s n y) = wrap_u n (x - y)"
    "wrap_u n (wrap_s n x * wrap_s n y) = wrap_u n (x * y)"
    using wrap_u_add [of n "wrap_s n x" "wrap_s n y"] wrap_u_diff [of n "wrap_s n x" "wrap_s n y"]
      wrap_u_mult [of n "wrap_s n x" "wrap_s n y"] wrap_u_add [of n x y] wrap_u_diff [of n x y] wrap_u_mult [of n x y]
    by (simp_all add: wrap_u_wrap_s)
  have l: "wrap_u n (wrap_s n x * 2 ^ nat y) = wrap_u n (x * 2 ^ nat y)"
    using wrap_u_mult [of n "wrap_s n x" "2 ^ nat y"] wrap_u_mult [of n x "2 ^ nat y"] by (simp add: wrap_u_wrap_s)
  have b: "wrap_u 1 y = y" "shift_ok n y" if "y < 8 * int n"
    using that y(1) n by (auto simp: wrap_u_def shift_ok_def)
  show ?thesis
    using r x y n p l b
    by (cases k)
      (auto simp: ir_binary_def bin_fun_def is_shift_def s_op_def u_op_def s_div_op_def shl_op_def ushr_op_def sshr_op_def
        Let_def div_overflow_def wrap_u_id le_bytes_inj wrap_simps simp del: le_bytes.simps One_nat_def split: if_splits)
qed

text \<open>One step of each opcode the builder emits for scalars, with its operands at frame offsets.\<close>

abbreviation op_bytes :: "ce_op \<Rightarrow> u8 list" where
  "op_bytes op \<equiv> le_bytes 2 (int (ce_code op))"

definition slot_of :: "ce_function \<Rightarrow> int \<Rightarrow> int \<Rightarrow> be_type \<Rightarrow> bool" where
  "slot_of cf hi o' t \<longleftrightarrow> (case scalar t of None \<Rightarrow> False | Some i \<Rightarrow> slot_ok cf hi o' (int_bytes i))"

lemma slot_ofD: "slot_of cf hi o' t \<Longrightarrow> scalar t = Some i \<Longrightarrow> slot_ok cf hi o' (int_bytes i)"
  by (simp add: slot_of_def)

lemma slot_low: "slot_ok cf hi o' n \<Longrightarrow> k \<le> n \<Longrightarrow> slot_ok cf hi o' k"
  by (auto simp: slot_ok_def)

lemma frame_okD: "frame_ok cf F hi s \<Longrightarrow> x_frame s = F"
  by (simp add: frame_ok_def)

lemma step_bin_op:
  assumes c: "code_at s (op_bytes (bin_op k i) @ le_bytes 4 r @ le_bytes 4 p @ le_bytes 4 q)"
    and f: "frame_ok cf F hi s" and t: "scalar t = Some i" and u: "scalar u \<noteq> None" "u = t \<or> is_shift k"
    and sl: "slot_of cf hi r t" "slot_of cf hi p t" "slot_of cf hi q u"
    and h: "holds s p t x" "holds s q u y"
  shows "ir_binary k (int_bytes i) x y = Some (Inr z) \<Longrightarrow>
           ce_step e s = Some (CeNext (adv (ce_put s (x_frame s + r) (le_bytes (int_bytes i) z)) 14))"
    and "ir_binary k (int_bytes i) x y = Some (Inl msg) \<Longrightarrow> \<exists>s'. ce_step e s = Some (CeFail msg s')"
proof -
  let ?n = "int_bytes i" let ?m = "if is_shift k then 1 else ?n"
  obtain j where j: "scalar u = Some j" using u(1) by auto
  have mj: "?m \<le> int_bytes j" using u(2) t j by (cases j) auto
  note st = step_at [OF c]
  have in4: "in_s 4 r" "in_s 4 p" "in_s 4 q"
    using sl slot_ofD [OF sl(1) t] slot_ofD [OF sl(2) t] slot_ofD [OF sl(3) j] slot_in_s [OF f] by blast+
  have mem: "in_mem (adv s 2) (x_frame (adv s 2) + p) (int ?n)" "in_mem (adv s 2) (x_frame (adv s 2) + q) (int ?m)"
    "in_mem (adv s 2) (x_frame (adv s 2) + r) (int ?n)"
    using slot_in_mem [OF f slot_ofD [OF sl(2) t]] slot_in_mem [OF f slot_low [OF slot_ofD [OF sl(3) j] mj]]
      slot_in_mem [OF f slot_ofD [OF sl(1) t]] frame_okD [OF f] by auto
  have bs: "ce_bytes (adv s 2) (x_frame (adv s 2) + p) ?n = le_bytes ?n x"
    "ce_bytes (adv s 2) (x_frame (adv s 2) + q) ?m = le_bytes ?m y"
    using holds_bytes [OF h(1) t] holds_low [OF h(2) j mj] by auto
  have x: "in_u ?n x" using val_ok_in_u [OF holds_val [OF h(1)] t] .
  have yj: "in_u (int_bytes j) y" using val_ok_in_u [OF holds_val [OF h(2)] j] .
  have y: "0 \<le> y" "\<not> is_shift k \<Longrightarrow> in_u ?n y" using yj u(2) t j by (auto simp: in_u_def)
  { assume r: "ir_binary k ?n x y = Some (Inr z)"
    note bf = bin_fun_spec [OF r int_bytes_pos x y]
    show "ce_step e s = Some (CeNext (adv (ce_put s (x_frame s + r) (le_bytes ?n z)) 14))"
    proof (cases "is_div k")
      case False
      have "exec_bin ?n ?m (bin_fun k ?n) (adv s 2) = Some (CeNext (adv (ce_put (adv s 2) (x_frame (adv s 2) + r) (le_bytes ?n z)) 12))"
        by (rule exec_bin_at [OF st(2) in4 mem(1,2)]) (use bs bf mem(3) in simp_all)
      then show ?thesis using False st(1) [of e] by (simp add: exec_bin_op ce_put_adv)
    next
      case True
      then have ns: "\<not> is_shift k" by (auto simp: is_div_def is_shift_def)
      then have "y \<noteq> 0" using True r by (auto simp: is_div_def ir_binary_def Let_def split: if_splits)
      with y(2) [OF ns] have nz: "\<not> s_zero (le_bytes ?n y)" by (simp add: s_zero_def wrap_u_id)
      have "exec_bin_div ?n s_zero (bin_fun k ?n) (adv s 2) = exec_bin ?n ?n (bin_fun k ?n) (adv s 2)"
        by (rule exec_bin_div_at [OF st(2) in4 mem(1)]) (use bs nz ns mem in simp_all)
      moreover have "exec_bin ?n ?m (bin_fun k ?n) (adv s 2) = Some (CeNext (adv (ce_put (adv s 2) (x_frame (adv s 2) + r) (le_bytes ?n z)) 12))"
        by (rule exec_bin_at [OF st(2) in4 mem(1,2)]) (use bs bf mem(3) in simp_all)
      ultimately show ?thesis using True ns st(1) [of e] by (simp add: exec_bin_op ce_put_adv)
    qed }
  { assume r: "ir_binary k ?n x y = Some (Inl msg)"
    then have k: "is_div k" "y = 0" "msg = ''Division by zero''"
      by (cases k; simp add: ir_binary_def Let_def is_div_def split: if_splits)+
    then have ns: "\<not> is_shift k" by (auto simp: is_div_def is_shift_def)
    have z: "s_zero (le_bytes ?n y)" using k by (simp add: s_zero_def wrap_u_def)
    have "\<exists>s'. exec_bin_div ?n s_zero (bin_fun k ?n) (adv s 2) = Some (CeFail msg s')" unfolding k(3)
      by (rule exec_bin_div_at [OF st(2) in4 mem(1)]) (use bs z ns mem in simp_all)
    then show "\<exists>s'. ce_step e s = Some (CeFail msg s')" using k(1) st(1) [of e] by (simp add: exec_bin_op) }
qed

lemma bool_byte_le: "bool_byte b = le_bytes 1 (if b then 1 else 0)"
  by (simp add: bool_byte_def)

text \<open>What a comparison of the machine computes on the bytes of two scalars.\<close>

definition cmp_fun :: "be_cmp_kind \<Rightarrow> u8 list \<Rightarrow> u8 list \<Rightarrow> bool" where
  "cmp_fun k x y =
     (case k of
        BeCmpKind_SLT \<Rightarrow> le_sint x < le_sint y | BeCmpKind_ULT \<Rightarrow> le_uint x < le_uint y
      | BeCmpKind_SLE \<Rightarrow> le_sint x \<le> le_sint y | BeCmpKind_ULE \<Rightarrow> le_uint x \<le> le_uint y
      | BeCmpKind_EQ \<Rightarrow> le_sint x = le_sint y | BeCmpKind_NE \<Rightarrow> le_sint x \<noteq> le_sint y
      | BeCmpKind_SGT \<Rightarrow> le_sint x > le_sint y | BeCmpKind_UGT \<Rightarrow> le_uint x > le_uint y
      | BeCmpKind_SGE \<Rightarrow> le_sint x \<ge> le_sint y | BeCmpKind_UGE \<Rightarrow> le_uint x \<ge> le_uint y)"

lemma exec_cmp_op: "exec_op e (cmp_op k i) s = exec_cmp (int_bytes i) (cmp_fun k) s"
  by (cases k) (simp_all add: exec_num_cmp_def exec_int_ucmp_def cmp_fun_def [abs_def])

lemma cmp_fun_spec:
  assumes "in_u n x" "in_u n y"
  shows "cmp_fun k (le_bytes n x) (le_bytes n y) = ir_cmp k n x y"
proof -
  have "wrap_s n x = wrap_s n y \<longleftrightarrow> x = y"
    using assms wrap_u_eq_iff_wrap_s [of n x y] by (simp add: wrap_u_id)
  then show ?thesis using assms by (cases k) (simp_all add: cmp_fun_def wrap_u_id)
qed

lemma step_cmp_op:
  assumes c: "code_at s (op_bytes (cmp_op k i) @ le_bytes 4 r @ le_bytes 4 p @ le_bytes 4 q)"
    and f: "frame_ok cf F hi s" and t: "scalar t = Some i"
    and sl: "slot_ok cf hi r 1" "slot_of cf hi p t" "slot_of cf hi q t"
    and h: "holds s p t x" "holds s q t y"
  shows "ce_step e s = Some (CeNext (adv (ce_put s (x_frame s + r) (le_bytes 1 (if ir_cmp k (int_bytes i) x y then 1 else 0))) 14))"
proof -
  let ?n = "int_bytes i"
  note st = step_at [OF c]
  have in4: "in_s 4 r" "in_s 4 p" "in_s 4 q"
    using sl(1) slot_ofD [OF sl(2) t] slot_ofD [OF sl(3) t] slot_in_s [OF f] by blast+
  have mem: "in_mem (adv s 2) (x_frame (adv s 2) + p) (int ?n)" "in_mem (adv s 2) (x_frame (adv s 2) + q) (int ?n)"
    "in_mem (adv s 2) (x_frame (adv s 2) + r) 1"
    using slot_in_mem [OF f slot_ofD [OF sl(2) t]] slot_in_mem [OF f slot_ofD [OF sl(3) t]]
      slot_in_mem [OF f sl(1)] frame_okD [OF f] by auto
  have "cmp_fun k (le_bytes ?n x) (le_bytes ?n y) = ir_cmp k ?n x y"
    by (rule cmp_fun_spec [OF val_ok_in_u [OF holds_val [OF h(1)] t] val_ok_in_u [OF holds_val [OF h(2)] t]])
  then have v: "(\<lambda>x y. Some (bool_byte (cmp_fun k x y))) (ce_bytes (adv s 2) (x_frame (adv s 2) + p) ?n)
      (ce_bytes (adv s 2) (x_frame (adv s 2) + q) ?n) = Some (le_bytes 1 (if ir_cmp k ?n x y then 1 else 0))"
    using holds_bytes [OF h(1) t] holds_bytes [OF h(2) t] bool_byte_le by (simp del: le_bytes.simps One_nat_def)
  have "exec_cmp ?n (cmp_fun k) (adv s 2) =
      Some (CeNext (adv (ce_put (adv s 2) (x_frame (adv s 2) + r) (le_bytes 1 (if ir_cmp k ?n x y then 1 else 0))) 12))"
    unfolding exec_cmp_def by (rule exec_bin_at [OF st(2) in4 mem(1,2)]) (use v mem(3) in simp_all)
  then show ?thesis using st(1) [of e] by (simp add: exec_cmp_op ce_put_adv del: le_bytes.simps One_nat_def)
qed

text \<open>Unary operations.\<close>

lemma step_un_op:
  assumes c: "code_at s (op_bytes op @ le_bytes 4 r @ le_bytes 4 p)"
    and ex: "\<And>s. exec_op e op s = exec_un (int_bytes i) g s"
    and f: "frame_ok cf F hi s" and t: "scalar t = Some i"
    and sl: "slot_of cf hi r t" "slot_of cf hi p t" and h: "holds s p t x"
    and g: "g (le_bytes (int_bytes i) x) = le_bytes (int_bytes i) z"
  shows "ce_step e s = Some (CeNext (adv (ce_put s (x_frame s + r) (le_bytes (int_bytes i) z)) 10))"
proof -
  let ?n = "int_bytes i"
  note st = step_at [OF c]
  have in4: "in_s 4 r" "in_s 4 p" using slot_ofD [OF sl(1) t] slot_ofD [OF sl(2) t] slot_in_s [OF f] by blast+
  have mem: "in_mem (adv s 2) (x_frame (adv s 2) + p) (int ?n)" "in_mem (adv s 2) (x_frame (adv s 2) + r) (int ?n)"
    using slot_in_mem [OF f slot_ofD [OF sl(2) t]] slot_in_mem [OF f slot_ofD [OF sl(1) t]] frame_okD [OF f] by auto
  have b: "g (ce_bytes (adv s 2) (x_frame (adv s 2) + p) ?n) = le_bytes ?n z" using holds_bytes [OF h t] g by simp
  have "exec_un ?n g (adv s 2) = Some (CeNext (adv (ce_put (adv s 2) (x_frame (adv s 2) + r)
      (g (ce_bytes (adv s 2) (x_frame (adv s 2) + p) ?n))) 8))"
    by (rule exec_un_at [OF st(2) in4 mem(1)]) (use mem(2) b in simp)
  then show ?thesis using st(1) [of e] ex b by (simp add: ce_put_adv)
qed

lemma step_neg:
  assumes "code_at s (op_bytes (Unary (CeOp_Neg (KI i))) @ le_bytes 4 r @ le_bytes 4 p)" "frame_ok cf F hi s"
    "scalar t = Some i" "slot_of cf hi r t" "slot_of cf hi p t" "holds s p t x"
  shows "ce_step e s = Some (CeNext (adv (ce_put s (x_frame s + r) (le_bytes (int_bytes i) (wrap_u (int_bytes i) (- x)))) 10))"
proof (rule step_un_op [OF assms(1) _ assms(2-6), where g = "\<lambda>x. le_bytes (int_bytes i) (- le_sint x)"])
  have "wrap_u n (- wrap_s n x) = wrap_u n (- x)" for n
    using wrap_u_diff [of n 0 "wrap_s n x"] wrap_u_diff [of n 0 x] by (simp add: wrap_u_wrap_s)
  then show "le_bytes (int_bytes i) (- le_sint (le_bytes (int_bytes i) x)) = le_bytes (int_bytes i) (wrap_u (int_bytes i) (- x))"
    by (simp add: le_bytes_inj wrap_simps)
qed (simp add: Let_def)

lemma step_not:
  assumes "code_at s (op_bytes (Unary (CeOp_Not i)) @ le_bytes 4 r @ le_bytes 4 p)" "frame_ok cf F hi s"
    "scalar t = Some i" "slot_of cf hi r t" "slot_of cf hi p t" "holds s p t x"
  shows "ce_step e s = Some (CeNext (adv (ce_put s (x_frame s + r) (le_bytes (int_bytes i) (wrap_u (int_bytes i) (NOT x)))) 10))"
proof (rule step_un_op [OF assms(1) _ assms(2-6), where g = "\<lambda>x. le_bytes (int_bytes i) (NOT (le_sint x))"])
  have "NOT v = -1 - v" for v :: int by (simp add: not_int_def)
  then have "wrap_u n (NOT (wrap_s n x)) = wrap_u n (NOT x)" for n
    using wrap_u_diff [of n "-1" "wrap_s n x"] wrap_u_diff [of n "-1" x] by (simp only: wrap_u_wrap_s)
  then show "le_bytes (int_bytes i) (NOT (le_sint (le_bytes (int_bytes i) x))) = le_bytes (int_bytes i) (wrap_u (int_bytes i) (NOT x))"
    by (simp add: le_bytes_inj wrap_simps)
qed (simp add: Let_def)

lemma step_not_bool:
  assumes c: "code_at s (op_bytes (Unary CeOp_Not_I1) @ le_bytes 4 r @ le_bytes 4 p)" and f: "frame_ok cf F hi s"
    and t: "mTypeCode t = BeTypeCode_Boolean" and sl: "slot_of cf hi r t" "slot_of cf hi p t" and h: "holds s p t x"
  shows "ce_step e s = Some (CeNext (adv (ce_put s (x_frame s + r) (le_bytes 1 (1 - x))) 10))"
proof -
  have i: "scalar t = Some I8" using t by (simp add: scalar_def)
  note st = step_at [OF c]
  have in4: "in_s 4 r" "in_s 4 p" using slot_ofD [OF sl(1) i] slot_ofD [OF sl(2) i] slot_in_s [OF f] by blast+
  have mem: "in_mem s (x_frame s + p) 1" "in_mem s (x_frame s + r) 1"
    using slot_in_mem [OF f slot_ofD [OF sl(2) i]] slot_in_mem [OF f slot_ofD [OF sl(1) i]] frame_okD [OF f] by auto
  have b: "ce_bytes s (x_frame s + p) 1 = le_bytes 1 x" using holds_bytes [OF h i] by simp
  have "x = 0 \<or> x = 1" using holds_val [OF h] i t by (auto simp: val_ok_def in_u_def)
  moreover from st(2) have cs: "code_at (adv s 2) (le_bytes 4 r)" "code_at (adv s 6) (le_bytes 4 p)"
    unfolding code_at_append by simp_all
  ultimately have "exec_op e (Unary CeOp_Not_I1) (adv s 2) = Some (CeNext (adv (ce_put s (x_frame s + r) (le_bytes 1 (1 - x))) 10))"
    using frame_ref_at [OF cs(1) in4(1)] get_frame_at [OF cs(2) in4(2), of 1] mem b
    by (auto simp: get_frame_bool_def bool_byte_def mem_write_def ce_ok_def ce_put_adv)
  then show ?thesis using st(1) [of e] by simp
qed

text \<open>Conversions that widen.\<close>

definition conv_op :: "bool \<Rightarrow> be_type \<Rightarrow> be_type \<Rightarrow> ce_conv_op option" where
  "conv_op sx from to = (if sx then signed_conv else unsigned_conv) (mTypeCode from) (mTypeCode to)"

lemma conv_op_types:
  assumes "conv_op sx t u = Some cop" "scalar t = Some i" "scalar u = Some j" "\<not> int_bytes j \<le> int_bytes i"
  shows "conv_types cop = (if sx then (TI (int_bytes i), TI (int_bytes j)) else (TU (int_bytes i), TU (int_bytes j)))"
  using assms
  by (cases "mTypeCode t"; cases "mTypeCode u") (auto simp: conv_op_def scalar_def signed_conv_def unsigned_conv_def split: if_splits)

lemma step_conv:
  assumes c: "code_at s (op_bytes (Conv cop) @ le_bytes 4 r @ le_bytes 4 p)" and f: "frame_ok cf F hi s"
    and t: "scalar t = Some i" "scalar u = Some j" and cop: "conv_op sx t u = Some cop" and w: "\<not> int_bytes j \<le> int_bytes i"
    and sl: "slot_of cf hi r u" "slot_of cf hi p t" and h: "holds s p t x"
  shows "ce_step e s = Some (CeNext (adv (ce_put s (x_frame s + r)
           (le_bytes (int_bytes j) (ir_cast (int_bytes i) (int_bytes j) sx x))) 10))"
proof -
  let ?m = "int_bytes i" let ?n = "int_bytes j"
  note st = step_at [OF c]
  have in4: "in_s 4 r" "in_s 4 p" using slot_ofD [OF sl(1) t(2)] slot_ofD [OF sl(2) t(1)] slot_in_s [OF f] by blast+
  have mem: "in_mem s (x_frame s + p) (int ?m)" "in_mem s (x_frame s + r) (int ?n)"
    using slot_in_mem [OF f slot_ofD [OF sl(2) t(1)]] slot_in_mem [OF f slot_ofD [OF sl(1) t(2)]] frame_okD [OF f] by auto
  have b: "ce_bytes s (x_frame s + p) ?m = le_bytes ?m x" using holds_bytes [OF h t(1)] .
  from st(2) have cs: "code_at (adv s 2) (le_bytes 4 r)" "code_at (adv s 6) (le_bytes 4 p)"
    unfolding code_at_append by simp_all
  have "c_cast (e_fpu e) (if sx then TI ?m else TU ?m) (if sx then TI ?n else TU ?n) (le_bytes ?m x) =
      Some (le_bytes ?n (ir_cast ?m ?n sx x))"
    using w val_ok_in_u [OF holds_val [OF h] t(1)] by (simp add: c_cast_def ir_cast_def wrap_u_id)
  then have "exec_op e (Conv cop) (adv s 2) = Some (CeNext (adv (ce_put s (x_frame s + r) (le_bytes ?n (ir_cast ?m ?n sx x))) 10))"
    using frame_ref_at [OF cs(1) in4(1)] get_frame_at [OF cs(2) in4(2), of "int ?m"] mem b conv_op_types [OF cop t w]
    by (cases sx) (simp_all add: exec_conv_def mem_write_def ce_ok_def ce_put_adv)
  then show ?thesis using st(1) [of e] by simp
qed

text \<open>The constant and the move of each width.\<close>

primrec int_size :: "ce_int \<Rightarrow> ce_size" where
  "int_size I8 = CeSizeClass_8" | "int_size I16 = CeSizeClass_16" | "int_size I32 = CeSizeClass_32" | "int_size I64 = CeSizeClass_64"

lemma int_size_simps [simp]: "size_bytes (int_size i) = Some (int_bytes i)" "size_idx (int_size i) = int_idx i"
  "GetSizeClass (int (int_bytes i)) = int_size i"
  by (cases i; simp add: GetSizeClass_def)+

lemma step_const:
  assumes c: "code_at s (op_bytes (Mem (CeOp_Const (int_size i))) @ le_bytes 4 r @ bs)" and f: "frame_ok cf F hi s"
    and n: "length bs = int_bytes i" and sl: "slot_ok cf hi r (int_bytes i)"
  shows "ce_step e s = Some (CeNext (adv (ce_put s (x_frame s + r) bs) (6 + int (int_bytes i))))"
proof -
  note st = step_at [OF c]
  from st(2) have cs: "code_at (adv s 2) (le_bytes 4 r)" "code_at (adv s 6) bs" unfolding code_at_append by simp_all
  have "exec_op e (Mem (CeOp_Const (int_size i))) (adv s 2) = Some (CeNext (adv (ce_put s (x_frame s + r) bs) (6 + int (int_bytes i))))"
    using frame_ref_at [OF cs(1) slot_in_s [OF f sl]] get_inst_at [OF cs(2) n] slot_in_mem [OF f sl] frame_okD [OF f] n
    by (simp add: exec_const_def mem_write_def ce_ok_def ce_put_adv)
  then show ?thesis using st(1) [of e] by simp
qed

lemma step_move:
  assumes c: "code_at s (op_bytes (Mem (CeOp_Move (int_size i))) @ le_bytes 4 p @ le_bytes 4 r)" and f: "frame_ok cf F hi s"
    and t: "scalar t = Some i" and sl: "slot_ok cf hi r (int_bytes i)" "slot_of cf hi p t" and h: "holds s p t x"
  shows "ce_step e s = Some (CeNext (adv (ce_put s (x_frame s + r) (le_bytes (int_bytes i) x)) 10))"
proof -
  note st = step_at [OF c]
  from st(2) have cs: "code_at (adv s 2) (le_bytes 4 p)" "code_at (adv s 6) (le_bytes 4 r)" unfolding code_at_append by simp_all
  have in4: "in_s 4 r" "in_s 4 p" using sl(1) slot_ofD [OF sl(2) t] slot_in_s [OF f] by blast+
  have "exec_op e (Mem (CeOp_Move (int_size i))) (adv s 2) = Some (CeNext (adv (ce_put s (x_frame s + r) (le_bytes (int_bytes i) x)) 10))"
    using get_frame_at [OF cs(1) in4(2), of "int (int_bytes i)"] frame_ref_at [OF cs(2) in4(1)] holds_bytes [OF h t]
      slot_in_mem [OF f sl(1)] slot_in_mem [OF f slot_ofD [OF sl(2) t]] frame_okD [OF f]
    by (simp add: exec_move_def mem_write_def ce_ok_def ce_put_adv)
  then show ?thesis using st(1) [of e] by simp
qed

lemma adv_again: "adv s a\<lparr>x_inst := x_inst s + a + b\<rparr> = adv s (a + b)"
  by (simp add: adv_def add.assoc)

lemma step_jmp:
  assumes c: "code_at s (op_bytes (Ctl CeOp_Jmp) @ le_bytes 4 v)" "in_s 4 v"
  shows "ce_step e s = Some (CeNext (adv s (6 + v)))"
proof -
  note st = step_at [OF c(1)]
  have "exec_op e (Ctl CeOp_Jmp) (adv s 2) = Some (CeNext (adv s (6 + v)))"
    using get_i32_at [OF st(2) c(2)] by (simp add: ce_ok_def adv_def add.assoc)
  then show ?thesis using st(1) [of e] by simp
qed

lemma step_jmp_if:
  assumes c: "code_at s (op_bytes (Ctl CeOp_JmpIf) @ le_bytes 4 v @ le_bytes 4 p)" "in_s 4 v" and f: "frame_ok cf F hi s"
    and t: "mTypeCode t = BeTypeCode_Boolean" and sl: "slot_of cf hi p t" and h: "holds s p t x"
  shows "ce_step e s = Some (CeNext (adv s (if x = 1 then 6 + v else 10)))"
proof -
  have i: "scalar t = Some I8" using t by (simp add: scalar_def)
  note st = step_at [OF c(1)]
  have in4: "in_s 4 p" using slot_ofD [OF sl i] slot_in_s [OF f] by blast
  have b: "ce_bytes s (x_frame s + p) 1 = le_bytes 1 x" using holds_bytes [OF h i] by simp
  have x: "x = 0 \<or> x = 1" using holds_val [OF h] i t by (auto simp: val_ok_def in_u_def)
  from st(2) have cs: "code_at (adv s 2) (le_bytes 4 v)" "code_at (adv s 6) (le_bytes 4 p)" unfolding code_at_append by simp_all
  have "get_frame_bool (adv s 6) = Some (x = 1, adv s 10)"
    using get_frame_at [OF cs(2) in4, of 1] slot_in_mem [OF f slot_ofD [OF sl i]] frame_okD [OF f] b x
    by (auto simp: get_frame_bool_def)
  then have "exec_op e (Ctl CeOp_JmpIf) (adv s 2) = Some (CeNext (adv s (if x = 1 then 6 + v else 10)))"
    using get_i32_at [OF cs(1) c(2)] x by (auto simp: jump_if_def ce_ok_def adv_again)
  then show ?thesis using st(1) [of e] by simp
qed

end
