(* ===== verification/Ce_Builder_Run.thy ===== *)
theory Ce_Builder_Run
  imports Ce_Builder_Sim
begin

text \<open>
  The simulation of the reference semantics by the code of \<open>CeBuilder\<close>: the shape of the code each
  instruction becomes, the parts of the frame that belong to each instruction, and one lemma per
  instruction.
\<close>

section \<open>Shapes\<close>

text \<open>Code and frame space added at the end; everything else unchanged.\<close>

definition piece :: "u8 list \<Rightarrow> int \<Rightarrow> ce_builder \<Rightarrow> ce_builder" where
  "piece seg n b = b\<lparr>cb_code := cb_code b @ seg, cb_frame_size := cb_frame_size b + n\<rparr>"

lemma piece_simps [simp]:
  "cb_code (piece seg n b) = cb_code b @ seg" "cb_frame_size (piece seg n b) = cb_frame_size b + n"
  "cb_jumps (piece seg n b) = cb_jumps b" "cb_operands (piece seg n b) = cb_operands b"
  "cb_blocks (piece seg n b) = cb_blocks b" "cb_error (piece seg n b) = cb_error b" "cb_return (piece seg n b) = cb_return b"
  "cb_max_return (piece seg n b) = cb_max_return b"
  "GetCodePos (piece seg n b) = GetCodePos b + int (length seg)"
  "piece seg2 n2 (piece seg n b) = piece (seg @ seg2) (n + n2) b" "piece [] 0 b = b"
  by (simp_all add: piece_def GetCodePos_def add.assoc)

lemma emit_piece: "emit bs b = piece bs 0 b" "emit_op n b = piece (le_bytes 2 (int n)) 0 b" "emit_i32 v b = piece (le_bytes 4 v) 0 b"
  by (simp_all add: emit_def emit_op_def emit_i32_def piece_def)

lemma alloc_piece:
  "scalar t = Some i \<Longrightarrow> FrameAlloc C t b =
     (CeOperandKind_FrameOfs (- (cb_frame_size b + int (int_bytes i))) t, piece [] (int (int_bytes i)) b)"
  by (simp add: FrameAlloc_def piece_def scalar_size Let_def)

lemma offset_piece [simp]: "EmitFrameOffset (CeOperandKind_FrameOfs o' t) b = Some (piece (le_bytes 4 o') 0 b)"
  by (simp add: EmitFrameOffset_def emit_piece)

lemma grows_piece: "0 \<le> n \<Longrightarrow> grows b (piece seg n b)"
  by (simp add: grows_def)

lemma has_code_piece: "has_code cf b (piece seg n b) \<longleftrightarrow> placed (mCode cf) (GetCodePos b) seg"
  by (simp add: has_code_def)

lemma const_shape:
  assumes "emit_const C t bs b = Some (r, b')" "scalar t = Some i" "length bs = int_bytes i"
  shows "r = CeOperandKind_FrameOfs (- cb_frame_size b') t \<and>
    b' = piece (op_bytes (Mem (CeOp_Const (int_size i))) @ le_bytes 4 (- (cb_frame_size b + int (int_bytes i))) @ bs)
           (int (int_bytes i)) b"
  using assms by (cases i) (auto simp: emit_const_def alloc_piece emit_piece Let_def bind_eq_Some_conv GetSizeClass_def)

lemma binary_shape:
  assumes "EmitBinaryOp C iop fop (CeOperandKind_FrameOfs p t) (CeOperandKind_FrameOfs q u) CeOperandKind_None b = Some (r, b')"
    and "scalar t = Some i"
  shows "r = CeOperandKind_FrameOfs (- cb_frame_size b') t \<and>
    b' = piece (le_bytes 2 (int (ce_code iop + int_idx i)) @ le_bytes 4 (- (cb_frame_size b + int (int_bytes i))) @
                le_bytes 4 p @ le_bytes 4 q) (int (int_bytes i)) b"
  using assms scalar_intable [OF assms(2)]
  by (auto simp: EmitBinaryOp_def num_op_scalar alloc_piece emit_piece bind_eq_Some_conv simp del: le_bytes.simps)

lemma cmp_shape:
  assumes "EmitBinaryOp C iop fop (CeOperandKind_FrameOfs p t) (CeOperandKind_FrameOfs q u) (CeOperandKind_FrameOfs r0 v) b = Some (r, b')"
    and "scalar t = Some i"
  shows "r = CeOperandKind_FrameOfs r0 v \<and>
    b' = piece (le_bytes 2 (int (ce_code iop + int_idx i)) @ le_bytes 4 r0 @ le_bytes 4 p @ le_bytes 4 q) 0 b"
  using assms scalar_intable [OF assms(2)]
  by (auto simp: EmitBinaryOp_def num_op_scalar alloc_piece emit_piece bind_eq_Some_conv simp del: le_bytes.simps)

lemma unary_shape:
  assumes "EmitUnaryOp C iop fop (CeOperandKind_FrameOfs p t) b = Some (r, b')" "scalar t = Some i"
  shows "r = CeOperandKind_FrameOfs (- cb_frame_size b') t \<and>
    b' = piece (le_bytes 2 (int (ce_code iop + int_idx i)) @ le_bytes 4 (- (cb_frame_size b + int (int_bytes i))) @ le_bytes 4 p)
           (int (int_bytes i)) b"
  using assms
  by (auto simp: EmitUnaryOp_def num_op_scalar alloc_piece emit_piece bind_eq_Some_conv simp del: le_bytes.simps)

lemma cast_shape:
  assumes "EmitNumericCast C (CeOperandKind_FrameOfs p t) u vs ts b = Some (r, b')" "scalar t = Some i" "scalar u = Some j"
    and "cb_error b' = None"
  shows "if int_bytes j \<le> int_bytes i then r = CeOperandKind_FrameOfs p u \<and> b' = b
    else \<exists>cop. conv_op (vs \<and> ts) t u = Some cop \<and> r = CeOperandKind_FrameOfs (- cb_frame_size b') u \<and>
      b' = piece (op_bytes (Conv cop) @ le_bytes 4 (- (cb_frame_size b + int (int_bytes j))) @ le_bytes 4 p) (int (int_bytes j)) b"
  using assms scalar_intable [OF assms(2)] scalar_intable [OF assms(3)]
  by (auto simp: EmitNumericCast_def scalar_size alloc_piece emit_piece bind_eq_Some_conv conv_op_def cb_fail_def
      split: if_splits option.splits simp del: le_bytes.simps)

lemma move_shape:
  assumes "EmitSizedOp C (Mem (CeOp_Move CeSizeClass_8)) (CeOperandKind_FrameOfs p t) any b = Some b'" "scalar t = Some i"
  shows "b' = piece (op_bytes (Mem (CeOp_Move (int_size i))) @ le_bytes 4 p) 0 b"
  using assms by (cases i) (auto simp: EmitSizedOp_def sized_op_def scalar_size emit_piece Let_def bind_eq_Some_conv simp del: le_bytes.simps)

lemma get_const_shape:
  assumes "GetOperand_const C t w False b = Some (r, b')" "scalar t = Some i"
  shows "r = CeOperandKind_FrameOfs (- cb_frame_size b') t \<and>
    b' = piece (op_bytes (Mem (CeOp_Const (int_size i))) @ le_bytes 4 (- (cb_frame_size b + int (int_bytes i))) @
           le_bytes (int_bytes i) (uint w)) (int (int_bytes i)) b"
proof -
  have "emit_const C t (le_bytes (int_bytes i) (uint w)) b = Some (r, b')"
    using assms by (auto simp: GetOperand_const_def scalar_def be_IsInt_def scalar_size [OF assms(2)] split: be_type_code.splits)
  from const_shape [OF this assms(2)] show ?thesis by simp
qed

section \<open>The parts of the frame\<close>

text \<open>Positions in program order.\<close>

definition pos_in :: "be_function \<Rightarrow> nat \<Rightarrow> nat \<Rightarrow> bool" where
  "pos_in f k j \<longleftrightarrow> k < length (mBlocks f) \<and> j < length (mBlocks f ! k)"

lemma same_inst_same_pos:
  assumes d: "distinct (map fst (concat (mBlocks f)))" and p: "pos_in f k j" "pos_in f k' j'"
    and e: "fst (mBlocks f ! k ! j) = fst (mBlocks f ! k' ! j')"
  shows "k = k' \<and> j = j'"
proof -
  have before: "fst (mBlocks f ! k1 ! j1) \<in> fst ` set (before f k2 j2)"
    if "pos_in f k1 j1" "pos_in f k2 j2" "k1 < k2 \<or> k1 = k2 \<and> j1 < j2" for k1 j1 k2 j2
    using that(3)
  proof
    assume "k1 < k2"
    then have "mBlocks f ! k1 \<in> set (take k2 (mBlocks f))"
      using that(1) by (auto simp: in_set_conv_nth pos_in_def intro!: exI [of _ k1])
    moreover have "mBlocks f ! k1 ! j1 \<in> set (mBlocks f ! k1)" using that(1) by (simp add: pos_in_def)
    ultimately show ?thesis by (auto simp: before_def)
  next
    assume "k1 = k2 \<and> j1 < j2"
    then have "mBlocks f ! k1 ! j1 \<in> set (take j2 (mBlocks f ! k2))"
      using that(1) by (auto simp: in_set_conv_nth pos_in_def intro!: exI [of _ j1])
    then show ?thesis by (auto simp: before_def)
  qed
  have "\<not> (k < k' \<or> k = k' \<and> j < j')" using before [OF p] before_fresh [OF d, of k' j'] p e by (auto simp: pos_in_def)
  moreover have "\<not> (k' < k \<or> k' = k \<and> j' < j)" using before [OF p(2,1)] before_fresh [OF d, of k j] p e by (auto simp: pos_in_def)
  ultimately show ?thesis by linarith
qed

text \<open>
  The frame offsets that belong to a value: those an instruction allocates, and those of a
  parameter.
\<close>

definition frame_at :: "ce_input \<Rightarrow> be_module \<Rightarrow> be_function \<Rightarrow> nat \<Rightarrow> nat \<Rightarrow> int" where
  "frame_at C M f k j = (case bld C M f k j of Some (h, b) \<Rightarrow> cb_frame_size b | None \<Rightarrow> 0)"

definition region :: "ce_input \<Rightarrow> be_module \<Rightarrow> be_function \<Rightarrow> be_value \<Rightarrow> int set" where
  "region C M f v =
     (case v of
        BeInst i \<Rightarrow> {a. \<exists>k j. pos_in f k j \<and> fst (mBlocks f ! k ! j) = i \<and>
                            - frame_at C M f k (Suc j) \<le> a \<and> a < - frame_at C M f k j}
      | BeArgument n \<Rightarrow> if n < length (mParams f)
                        then {param_ofs C (ret_size C M f) (mParams f) n ..< param_ofs C (ret_size C M f) (mParams f) (Suc n)} else {}
      | _ \<Rightarrow> {})"

definition frame_top :: "ce_input \<Rightarrow> be_module \<Rightarrow> be_function \<Rightarrow> int" where
  "frame_top C M f = param_ofs C (ret_size C M f) (mParams f) (length (mParams f))"

lemma region_inst:
  assumes "fn_ok C f" "pos_in f k j" "mBlocks f ! k ! j = (i, inst)"
  shows "region C M f (BeInst i) = {- frame_at C M f k (Suc j) ..< - frame_at C M f k j}"
proof -
  have u: "k' = k" "j' = j" if "pos_in f k' j'" "fst (mBlocks f ! k' ! j') = i" for k' j'
    using same_inst_same_pos [OF _ that(1) assms(2)] that(2) assms(1,3) by (auto simp: fn_ok_def)
  have i: "fst (mBlocks f ! k ! j) = i" by (simp add: assms(3))
  show ?thesis
  proof (intro set_eqI iffI)
    fix a assume "a \<in> region C M f (BeInst i)"
    then obtain k' j' where p: "pos_in f k' j'" "fst (mBlocks f ! k' ! j') = i"
      "- frame_at C M f k' (Suc j') \<le> a" "a < - frame_at C M f k' j'"
      unfolding region_def be_value.case by blast
    then show "a \<in> {- frame_at C M f k (Suc j) ..< - frame_at C M f k j}" using u [OF p(1,2)] by simp
  next
    fix a assume "a \<in> {- frame_at C M f k (Suc j) ..< - frame_at C M f k j}"
    then show "a \<in> region C M f (BeInst i)" unfolding region_def be_value.case
      by (intro CollectI exI conjI) (use assms(2) i in auto)
  qed
qed

lemma frame_at_mono:
  assumes b: "built C M f cf" and p: "k < length (mBlocks f)" "j \<le> length (mBlocks f ! k)"
    "k' < length (mBlocks f)" "j' \<le> length (mBlocks f ! k')" and le: "k < k' \<or> k = k' \<and> j \<le> j'"
  shows "frame_at C M f k j \<le> frame_at C M f k' j'"
proof -
  have ok: "fn_ok C f" using b by (simp add: built_def)
  from built_finished [OF b] p obtain h b1 h' b2 where s: "bld C M f k j = Some (h, b1)" "bld C M f k' j' = Some (h', b2)"
    by (metis surj_pair)
  from bld_later [OF ok p(3,4) s(2,1) p(2) le] s show ?thesis by (simp add: frame_at_def extends_b_def)
qed

lemma frame_at_bounds:
  assumes b: "built C M f cf" and p: "k < length (mBlocks f)" "j \<le> length (mBlocks f ! k)"
  shows "0 \<le> frame_at C M f k j" "frame_at C M f k j \<le> mFrameSize cf"
proof -
  have ok: "fn_ok C f" using b by (simp add: built_def)
  from built_finished [OF b] obtain bF where F: "finished C M f cf bF"
    "\<And>k j. k < length (mBlocks f) \<Longrightarrow> j \<le> length (mBlocks f ! k) \<Longrightarrow> \<exists>hb. bld C M f k j = Some hb" by metis
  from F(2) [OF p] obtain h b1 where s: "bld C M f k j = Some (h, b1)" by auto
  from F(1) p s have "extends_b b1 bF" by (auto simp: finished_def)
  with F(1) show "frame_at C M f k j \<le> mFrameSize cf" using s by (simp add: frame_at_def finished_def extends_b_def)
  from bld_from_start(2) [OF ok p s] show "0 \<le> frame_at C M f k j" using s by (simp add: frame_at_def)
qed

lemma param_ofs_Suc: "n < length ts \<Longrightarrow> param_ofs C ofs ts (Suc n) = param_ofs C ofs ts n + type_size C (ts ! n)"
  by (simp add: param_ofs_def take_Suc_conv_app_nth)

lemma param_ofs_mono:
  assumes "\<forall>t \<in> set ts. 0 \<le> type_size C t" "m \<le> n" "n \<le> length ts"
  shows "param_ofs C ofs ts m \<le> param_ofs C ofs ts n"
  using assms(2,3)
proof (induction n rule: dec_induct)
  case (step n)
  then have "ts ! n \<in> set ts" "n < length ts" by simp_all
  with step assms(1) show ?case by (fastforce simp: param_ofs_Suc)
qed simp

lemma params_sized: "fn_ok C f \<Longrightarrow> \<forall>t \<in> set (mParams f). 0 \<le> type_size C t"
  by (auto simp: fn_ok_def sized_size)

lemma ret_size_nonneg: "built C M f cf \<Longrightarrow> 0 \<le> ret_size C M f"
  using start_first(2) [of C f M] by (auto simp: built_def CeBuild_def bind_eq_Some_conv)

lemma region_bounds:
  assumes b: "built C M f cf"
  shows "region C M f v \<subseteq> {- mFrameSize cf ..< frame_top C M f}"
proof (cases v)
  case (BeInst i)
  have "0 \<le> frame_top C M f"
    using ret_size_nonneg [OF b] param_ofs_mono [OF params_sized, of C f 0 "length (mParams f)" "ret_size C M f"] b
    by (simp add: frame_top_def built_def param_ofs_def)
  then show ?thesis using frame_at_bounds [OF b]
    by (auto simp: region_def BeInst pos_in_def) (smt (verit, best) Suc_leI, smt (verit) less_imp_le_nat)
next
  case (BeArgument n)
  have "0 \<le> mFrameSize cf" using frame_at_bounds [OF b, of 0 0] b by (fastforce simp: built_def fn_ok_def)
  moreover have "ret_size C M f = param_ofs C (ret_size C M f) (mParams f) 0" by (simp add: param_ofs_def)
  ultimately show ?thesis
    using param_ofs_mono [OF params_sized, of C f 0 n "ret_size C M f"] ret_size_nonneg [OF b] b
      param_ofs_mono [OF params_sized, of C f "Suc n" "length (mParams f)" "ret_size C M f"]
    by (auto simp: region_def BeArgument built_def frame_top_def)
qed (simp_all add: region_def)

lemma region_disjoint:
  assumes b: "built C M f cf" and ne: "v \<noteq> w"
  shows "region C M f v \<inter> region C M f w = {}"
proof -
  have ok: "fn_ok C f" using b by (simp add: built_def)
  have insts: "region C M f (BeInst i) \<inter> region C M f (BeInst i') = {}" if "i \<noteq> i'" for i i'
  proof (rule ccontr)
    assume "region C M f (BeInst i) \<inter> region C M f (BeInst i') \<noteq> {}"
    then obtain a where "a \<in> region C M f (BeInst i)" "a \<in> region C M f (BeInst i')" by blast
    then obtain k j k' j' where p: "pos_in f k j" "pos_in f k' j'" and n: "fst (mBlocks f ! k ! j) = i" "fst (mBlocks f ! k' ! j') = i'"
      and a: "- frame_at C M f k (Suc j) \<le> a" "a < - frame_at C M f k j"
        "- frame_at C M f k' (Suc j') \<le> a" "a < - frame_at C M f k' j'"
      unfolding region_def be_value.case by blast
    have "k < k' \<or> k = k' \<and> j < j' \<or> k' < k \<or> k' = k \<and> j' < j" using n that by (metis linorder_neqE_nat)
    then show False
      using a p frame_at_mono [OF b, of k "Suc j" k' j'] frame_at_mono [OF b, of k' "Suc j'" k j]
      by (auto simp: pos_in_def)
  qed
  have mixed: "region C M f (BeInst i) \<inter> region C M f (BeArgument n) = {}" for i n
  proof -
    have "a < 0" if "a \<in> region C M f (BeInst i)" for a
      using that frame_at_bounds(1) [OF b] by (auto simp: region_def pos_in_def) (smt (verit) less_imp_le_nat)
    moreover have "0 \<le> a" if "a \<in> region C M f (BeArgument n)" for a
      using that ret_size_nonneg [OF b] param_ofs_mono [OF params_sized [OF ok], of 0 n "ret_size C M f"]
      by (auto simp: region_def param_ofs_def split: if_splits)
    ultimately show ?thesis by fastforce
  qed
  have args: "region C M f (BeArgument m) \<inter> region C M f (BeArgument n) = {}" if "m \<noteq> n" for m n
    using that param_ofs_mono [OF params_sized [OF ok], of "Suc m" n "ret_size C M f"]
      param_ofs_mono [OF params_sized [OF ok], of "Suc n" m "ret_size C M f"]
    by (cases "m < n") (auto simp: region_def not_less)
  have none: "region C M f (BeConstant t w) = {}" "region C M f (BeUndefConstant u) = {}" for t w u
    by (simp_all add: region_def)
  show ?thesis
  proof (cases v)
    case (BeInst i)
    then show ?thesis using ne insts mixed none by (cases w) simp_all
  next
    case (BeArgument n)
    then show ?thesis using ne args mixed [of _ n] none by (cases w) (simp_all add: Int_commute)
  qed (simp_all add: none)
qed

section \<open>The code of one instruction\<close>

definition final_ops :: "ce_input \<Rightarrow> be_module \<Rightarrow> be_function \<Rightarrow> be_value \<rightharpoonup> ce_operand" where
  "final_ops C M f v =
     (case bld C M f (length (mBlocks f) - 1) (length (last (mBlocks f))) of Some (h, b) \<Rightarrow> cb_operands b v | None \<Rightarrow> None)"

text \<open>Everything the proofs need about the builder before and after an instruction.\<close>

definition inst_built ::
  "ce_input \<Rightarrow> be_module \<Rightarrow> be_function \<Rightarrow> ce_function \<Rightarrow> nat \<Rightarrow> nat \<Rightarrow> int \<Rightarrow> ce_builder \<Rightarrow> ce_operand \<Rightarrow> ce_builder \<Rightarrow> bool" where
  "inst_built C M f cf k j i b r b1 \<longleftrightarrow>
     pos_in f k j \<and> (\<exists>h. bld C M f k (Suc j) = Some (h, with_result i r b1)) \<and> cb_sized C b \<and> no_phis b \<and>
     grows b b1 \<and> cb_error b1 = None \<and>
     region C M f (BeInst i) = {- cb_frame_size b1 ..< - cb_frame_size b} \<and> 0 \<le> cb_frame_size b \<and>
     cb_frame_size b1 \<le> mFrameSize cf \<and>
     (r \<noteq> CeOperandKind_None \<longrightarrow> final_ops C M f (BeInst i) = Some r) \<and> cb_operands b \<subseteq>\<^sub>m final_ops C M f \<and>
     cb_return b = (if ret_size C M f > 0 then Some 0 else None) \<and>
     (\<forall>c c'. grows b c \<longrightarrow> grows c c' \<longrightarrow> grows c' b1 \<longrightarrow> cb_jumps c' = cb_jumps c \<longrightarrow> has_code cf c c') \<and>
     (\<forall>(p, t) \<in> set (cb_jumps b1). t < length (mBlocks f) \<and> placed (mCode cf) p (le_bytes 4 (target C M f t - p - 4)))"

lemma finished_ext:
  "finished C M f cf bF \<Longrightarrow> k < length (mBlocks f) \<Longrightarrow> j \<le> length (mBlocks f ! k) \<Longrightarrow> bld C M f k j = Some (h, b) \<Longrightarrow> extends_b b bF"
  unfolding finished_def by blast

declare bld.simps(3) [simp del]

lemma inst_setup:
  assumes bt: "built C M f cf" and p: "pos_in f k j" and i: "mBlocks f ! k ! j = (i, inst)" and b: "bld C M f k j = Some (h, b)"
  obtains r b1 where "build_inst C k (h \<and> keeps_head inst) i inst b = Some (r, b1)" "inst_built C M f cf k j i b r b1"
proof -
  have ok: "fn_ok C f" using bt by (simp add: built_def)
  from p have kj: "k < length (mBlocks f)" "j < length (mBlocks f ! k)" by (auto simp: pos_in_def)
  from built_finished [OF bt] obtain bF where F: "finished C M f cf bF"
    and all: "\<And>k j. k < length (mBlocks f) \<Longrightarrow> j \<le> length (mBlocks f ! k) \<Longrightarrow> \<exists>hb. bld C M f k j = Some hb" by metis
  from bld_all [OF bt] obtain hL bL where L: "bld C M f (length (mBlocks f) - 1) (length (last (mBlocks f))) = Some (hL, bL)"
    by metis
  from all [of k "Suc j"] kj obtain h' b' where s': "bld C M f k (Suc j) = Some (h', b')" by fastforce
  from bld_step [OF s' i] b obtain r b1 where r: "h' = (h \<and> keeps_head inst)" "build_inst C k h' i inst b = Some (r, b1)"
    "b' = with_result i r b1" by (metis option.inject prod.inject)
  have inv: "cb_inv C M f k j b" using kj by (intro bld_inv [OF ok _ _ b]) auto
  note st = cb_inv_step [OF inv ok kj i r(2)]
  have ex: "extends_b b' bF" using finished_ext [OF F kj(1) _ s'] kj(2) by simp
  have err: "cb_error b1 = None" using ex F r(3) by (auto simp: extends_b_def finished_def)
  have g0: "gaps 0 (cb_jumps b) (GetCodePos b)" "0 \<le> cb_frame_size b" "cb_return b = (if ret_size C M f > 0 then Some 0 else None)"
    using bld_from_start [OF ok kj(1) _ b] kj by auto
  have cov: "has_code cf c c'" if "grows b c" "grows c c'" "grows c' b1" "cb_jumps c' = cb_jumps c" for c c'
  proof -
    from that(1) g0(1) have "gaps 0 (cb_jumps c) (GetCodePos c)" by (auto simp: grows_def intro: gaps_append)
    moreover have "extends_b b1 bF"
    proof -
      have "cb_operands b1 = cb_operands b" using st(1) by (simp add: grows_def)
      then have "extends_b b1 (with_result i r b1)" using st(3) by (simp add: with_result_extends)
      with ex show ?thesis unfolding r(3) by (rule extends_trans [rotated])
    qed
    ultimately show ?thesis using F that
      by (blast intro: finished_code grows_extends extends_trans)
  qed
  have reg: "region C M f (BeInst i) = {- cb_frame_size b1 ..< - cb_frame_size b}"
    using region_inst [OF ok p i] b s' r(3) by (simp add: frame_at_def)
  have ml: "length (mBlocks f) - 1 < length (mBlocks f)" using kj(1) by simp
  have lastp: "last (mBlocks f) = mBlocks f ! (length (mBlocks f) - 1)" using kj(1) by (intro last_pos) auto
  have toL: "extends_b c bL" if "k' < length (mBlocks f)" "j' \<le> length (mBlocks f ! k')" "bld C M f k' j' = Some (h1, c)" for k' j' h1 c
  proof -
    have "k' < length (mBlocks f) - 1 \<or> k' = length (mBlocks f) - 1 \<and> j' \<le> length (last (mBlocks f))"
      using that(1,2) lastp by (cases "k' = length (mBlocks f) - 1") auto
    then show ?thesis using bld_later [OF ok ml _ L that(3,2)] lastp by auto
  qed
  have fin: "final_ops C M f = cb_operands bL" by (rule ext) (simp only: final_ops_def L option.case prod.case)
  have f1: "cb_operands b \<subseteq>\<^sub>m final_ops C M f" using toL [OF kj(1) _ b] kj(2) by (simp add: extends_b_def fin)
  have f2: "final_ops C M f (BeInst i) = Some r" if "r \<noteq> CeOperandKind_None"
  proof -
    have "cb_operands b' (BeInst i) = Some r" using r(3) that by (simp add: with_result_def)
    moreover have "cb_operands b' \<subseteq>\<^sub>m cb_operands bL" using toL [OF kj(1) _ s'] kj(2) by (simp add: extends_b_def)
    ultimately show ?thesis by (auto simp: fin map_le_def dest!: bspec [OF _ domI])
  qed
  have jumps: "\<forall>(p, t) \<in> set (cb_jumps b1). t < length (mBlocks f) \<and> placed (mCode cf) p (le_bytes 4 (target C M f t - p - 4))"
  proof (clarify, intro conjI)
    fix p t assume "(p, t) \<in> set (cb_jumps b1)"
    then have inF: "(p, t) \<in> set (cb_jumps bF)" using ex r(3) by (auto simp: extends_b_def)
    have "gaps 0 (cb_jumps b') (GetCodePos b')" using bld_from_start(1) [OF ok kj(1) _ s'] kj(2) by simp
    then have gF: "gaps 0 (cb_jumps bF) (GetCodePos bF)" using ex by (auto simp: extends_b_def intro: gaps_append)
    have len: "length (cb_blocks bF) = length (mBlocks f)"
      using ex inv st(5) r(3) by (simp add: extends_b_def cb_inv_def)
    have "t < length (cb_blocks bF)"
      using F patch_jumps_spec [of "cb_blocks bF" "cb_jumps bF" "cb_code bF" "mCode cf" 0] gF inF
      by (auto simp: finished_def GetCodePos_def)
    then have t: "t < length (mBlocks f)" using len by simp
    then obtain hb where hb: "bld C M f t 0 = Some hb" using all by (metis le0)
    show "t < length (mBlocks f)" by (rule t)
    show "placed (mCode cf) p (le_bytes 4 (target C M f t - p - 4))"
      by (rule finished_jump(2) [OF F gF inF len]) (use hb in blast)
  qed
  have le: "cb_frame_size b1 \<le> mFrameSize cf" using ex F r(3) by (simp add: extends_b_def finished_def)
  have "inst_built C M f cf k j i b r b1" unfolding inst_built_def
    using p s' r(3) inv st(1) err reg g0 le f1 f2 cov jumps by (auto simp: cb_inv_def)
  then show thesis using r(1,2) that by blast
qed

end
