(* ===== verification/Ce_Builder_Step.thy ===== *)
theory Ce_Builder_Step
  imports Ce_Builder_Run
begin

text \<open>
  The code of one instruction against the reference semantics of \<^verbatim>\<open>Be_Semantics\<close>: the relation
  between the states of the two sides, and for each instruction the lemma that its code, started in
  a related state, ends in one.
\<close>

section \<open>The relation between the states\<close>

text \<open>The frame offsets of a scalar.\<close>

definition offs :: "int \<Rightarrow> be_type \<Rightarrow> int set" where
  "offs o' t = {o' ..< o' + (case scalar t of Some i \<Rightarrow> int (int_bytes i) | None \<Rightarrow> 0)}"

lemma holds_scalar: "holds s o' t x \<Longrightarrow> \<exists>i. scalar t = Some i"
  by (auto simp: holds_def split: option.splits)

lemma holds_kept:
  assumes "touches s lo hi s'" "offs o' t \<inter> {lo ..< hi} = {}"
  shows "holds s' o' t x = holds s o' t x"
proof (cases "scalar t")
  case None
  then show ?thesis by (simp add: holds_def)
next
  case (Some i)
  from assms(1) obtain m p where s': "s' = s\<lparr>x_mem := m, x_inst := p\<rparr>"
    and m: "\<And>a. a < x_frame s + lo \<or> x_frame s + hi \<le> a \<Longrightarrow> m a = x_mem s a" by (rule touchesE) blast
  have "m (x_frame s + o' + int k) = x_mem s (x_frame s + o' + int k)" if "k < int_bytes i" for k
  proof (rule m)
    have "o' + int k \<in> offs o' t" using that by (simp add: offs_def Some)
    with assms(2) have "o' + int k \<notin> {lo ..< hi}" by blast
    then show "x_frame s + o' + int k < x_frame s + lo \<or> x_frame s + hi \<le> x_frame s + o' + int k" by auto
  qed
  then have "ce_bytes s' (x_frame s + o') (int_bytes i) = ce_bytes s (x_frame s + o') (int_bytes i)"
    by (simp add: ce_bytes_def s')
  then show ?thesis by (simp add: holds_def Some s')
qed

lemma slot_of_within:
  assumes "offs o' t \<subseteq> {- mFrameSize cf ..< hi}" "scalar t = Some i"
  shows "slot_of cf hi o' t"
proof -
  have "0 < int_bytes i" by simp
  then have "o' \<in> offs o' t" "o' + int (int_bytes i) - 1 \<in> offs o' t" by (auto simp: offs_def assms(2))
  with assms(1) have "o' \<in> {- mFrameSize cf ..< hi}" "o' + int (int_bytes i) - 1 \<in> {- mFrameSize cf ..< hi}" by blast+
  then show ?thesis by (auto simp: slot_of_def slot_ok_def assms(2))
qed

lemma slot_of_region:
  "built C M f cf \<Longrightarrow> offs o' t \<subseteq> region C M f v \<Longrightarrow> scalar t = Some i \<Longrightarrow> slot_of cf (frame_top C M f) o' t"
  by (rule slot_of_within) (use region_bounds in blast)+

text \<open>The values and the variables of the reference semantics are in their slots.\<close>

definition sim_vals :: "ce_input \<Rightarrow> be_module \<Rightarrow> be_function \<Rightarrow> ir_state \<Rightarrow> ce_state \<Rightarrow> bool" where
  "sim_vals C M f a s \<longleftrightarrow>
     (\<forall>v t x h. ir_vals a v = Some (t, x, h) \<longrightarrow>
        (\<exists>o'. final_ops C M f v = Some (CeOperandKind_FrameOfs o' t) \<and> holds s o' t x \<and> offs o' t \<subseteq> region C M f h))"

definition is_variable :: "be_function \<Rightarrow> int \<Rightarrow> bool" where
  "is_variable f p \<longleftrightarrow> (\<exists>k j t. pos_in f k j \<and> mBlocks f ! k ! j = (p, BeAllocaInst t None))"

definition sim_vars :: "ce_input \<Rightarrow> be_module \<Rightarrow> be_function \<Rightarrow> ir_state \<Rightarrow> ce_state \<Rightarrow> bool" where
  "sim_vars C M f a s \<longleftrightarrow>
     (\<forall>p t xo. ir_vars a p = Some (t, xo) \<longrightarrow> scalar t \<noteq> None \<and> is_variable f p \<and>
        (\<exists>o'. final_ops C M f (BeInst p) = Some (CeOperandKind_AllocaAddr o' t) \<and> offs o' t \<subseteq> region C M f (BeInst p) \<and>
              (\<forall>x. xo = Some x \<longrightarrow> holds s o' t x)))"

text \<open>
  Inside instruction \<open>i\<close>: nothing that is still needed lies in the part of the frame that belongs
  to it.
\<close>

definition live ::
  "ce_input \<Rightarrow> be_module \<Rightarrow> be_function \<Rightarrow> ce_function \<Rightarrow> int \<Rightarrow> int \<Rightarrow> ir_state \<Rightarrow> ce_state \<Rightarrow> bool" where
  "live C M f cf F i a s \<longleftrightarrow>
     built C M f cf \<and> frame_ok cf F (frame_top C M f) s \<and> sim_vals C M f a s \<and> sim_vars C M f a s \<and>
     (\<forall>v t x h. ir_vals a v = Some (t, x, h) \<longrightarrow> h \<noteq> BeInst i) \<and> ir_vars a i = None"

lemma live_touches:
  assumes l: "live C M f cf F i a s" and t: "touches s lo hi s'" and r: "{lo ..< hi} \<subseteq> region C M f (BeInst i)"
  shows "live C M f cf F i a s'"
proof -
  have bt: "built C M f cf" using l by (simp add: live_def)
  have keep: "holds s' o' t x = holds s o' t x" if "offs o' t \<subseteq> region C M f h" "h \<noteq> BeInst i" for o' t x h
    using that r region_disjoint [OF bt that(2)] by (intro holds_kept [OF t]) blast
  have "sim_vals C M f a s'" unfolding sim_vals_def
  proof (intro allI impI)
    fix v t x h assume v: "ir_vals a v = Some (t, x, h)"
    then obtain o' where o': "final_ops C M f v = Some (CeOperandKind_FrameOfs o' t)" "holds s o' t x" "offs o' t \<subseteq> region C M f h"
      using l unfolding live_def sim_vals_def by blast
    have "h \<noteq> BeInst i" using l v by (auto simp: live_def)
    with keep o' show "\<exists>o'. final_ops C M f v = Some (CeOperandKind_FrameOfs o' t) \<and> holds s' o' t x \<and> offs o' t \<subseteq> region C M f h"
      by blast
  qed
  moreover have "sim_vars C M f a s'" unfolding sim_vars_def
  proof (intro allI impI)
    fix p t xo assume p: "ir_vars a p = Some (t, xo)"
    then have ne: "BeInst p \<noteq> BeInst i" using l by (auto simp: live_def)
    from p l obtain o' where o': "scalar t \<noteq> None" "is_variable f p"
      "final_ops C M f (BeInst p) = Some (CeOperandKind_AllocaAddr o' t)" "offs o' t \<subseteq> region C M f (BeInst p)"
      "\<forall>x. xo = Some x \<longrightarrow> holds s o' t x" unfolding live_def sim_vars_def by metis
    with keep [OF o'(4) ne] show "scalar t \<noteq> None \<and> is_variable f p \<and>
        (\<exists>o'. final_ops C M f (BeInst p) = Some (CeOperandKind_AllocaAddr o' t) \<and> offs o' t \<subseteq> region C M f (BeInst p) \<and>
              (\<forall>x. xo = Some x \<longrightarrow> holds s' o' t x))" by simp
  qed
  ultimately show ?thesis using l by (simp add: live_def touches_frame_ok [OF t])
qed


section \<open>Inside an instruction\<close>

text \<open>
  The machine has run the code of instruction \<open>i\<close> from state \<open>sI\<close> up to the builder \<open>b\<close>; \<open>b0\<close> and
  \<open>b1\<close> are the builders around the instruction, whose operand is \<open>r1\<close>.
\<close>

definition inside ::
  "ce_input \<Rightarrow> be_module \<Rightarrow> be_function \<Rightarrow> ce_function \<Rightarrow> ce_env \<Rightarrow> int \<Rightarrow> nat \<Rightarrow> nat \<Rightarrow> int \<Rightarrow> ce_builder \<Rightarrow> ce_operand \<Rightarrow>
   ce_builder \<Rightarrow> ir_state \<Rightarrow> ce_state \<Rightarrow> ce_builder \<Rightarrow> ce_state \<Rightarrow> bool" where
  "inside C M f cf e F k j i b0 r1 b1 a sI b s \<longleftrightarrow>
     inst_built C M f cf k j i b0 r1 b1 \<and> live C M f cf F i a s \<and> grows b0 b \<and> grows b b1 \<and> x_inst s = GetCodePos b \<and>
     ce_steps e sI s \<and> touches sI (- mFrameSize cf) (frame_top C M f) s"

lemma grows_frame: "grows b b' \<Longrightarrow> cb_frame_size b \<le> cb_frame_size b'"
  by (simp add: grows_def)

lemma grows_error: "grows b b' \<Longrightarrow> cb_error b' = None \<Longrightarrow> cb_error b = None"
  by (simp add: grows_def)

lemma frame_top_nonneg: "built C M f cf \<Longrightarrow> 0 \<le> frame_top C M f"
  using ret_size_nonneg [of C M f cf] param_ofs_mono [OF params_sized, of C f 0 "length (mParams f)" "ret_size C M f"]
  by (simp add: frame_top_def built_def param_ofs_def)

lemma insideD:
  assumes "inside C M f cf e F k j i b0 r1 b1 a sI b s"
  shows "inst_built C M f cf k j i b0 r1 b1" "live C M f cf F i a s" "built C M f cf" "frame_ok cf F (frame_top C M f) s"
    "grows b0 b" "grows b b1" "x_inst s = GetCodePos b" "x_frame s = F" "x_fn s = cf"
    "region C M f (BeInst i) = {- cb_frame_size b1 ..< - cb_frame_size b0}"
    "cb_frame_size b0 \<le> cb_frame_size b" "cb_frame_size b \<le> cb_frame_size b1" "cb_error b = None" "cb_operands b = cb_operands b0"
    "- cb_frame_size b0 \<le> frame_top C M f" "- mFrameSize cf \<le> - cb_frame_size b1"
  using assms frame_top_nonneg [of C M f cf]
  by (auto simp: inside_def live_def frame_ok_def inst_built_def grows_frame dest: grows_error)
     (auto simp: grows_def)

lemma inside_code:
  assumes I: "inside C M f cf e F k j i b0 r1 b1 a sI b s" and g: "grows b b'" "grows b' b1" "cb_jumps b' = cb_jumps b"
    and c: "cb_code b' = cb_code b @ seg"
  shows "code_at s seg"
proof -
  have "has_code cf b b'" using insideD(1) [OF I] insideD(5) [OF I] g unfolding inst_built_def by blast
  then show ?thesis using insideD(7,9) [OF I] by (simp add: has_code_emit [OF c])
qed

lemma inside_step:
  assumes I: "inside C M f cf e F k j i b0 r1 b1 a sI b s" and st: "ce_step e s = Some (CeNext s')"
    and t: "touches s lo hi s'" "- cb_frame_size b1 \<le> lo" "hi \<le> - cb_frame_size b0"
    and p: "x_inst s' = GetCodePos b'" and g: "grows b b'" "grows b' b1"
  shows "inside C M f cf e F k j i b0 r1 b1 a sI b' s'"
proof -
  note d = insideD [OF I]
  have "{lo ..< hi} \<subseteq> region C M f (BeInst i)" unfolding d(10) using t(2,3) by auto
  then have l: "live C M f cf F i a s'" by (rule live_touches [OF d(2) t(1)])
  have "touches sI (- mFrameSize cf) (frame_top C M f) s" using I by (simp add: inside_def)
  then have "touches sI (- mFrameSize cf) (frame_top C M f) s'"
    by (rule touches_trans [OF _ t(1)]) (use t(2,3) d(15,16) in auto)
  moreover have "ce_steps e sI s'" using I ce_steps_one [OF st] by (auto simp: inside_def intro: ce_steps_trans)
  moreover have "grows b0 b'" by (rule grows_trans [OF d(5) g(1)])
  ultimately show ?thesis using d(1) l p g(2) by (simp add: inside_def)
qed

text \<open>An operand of the instruction: where its value is, and that the rest of the code leaves it alone.\<close>

definition opnd ::
  "ce_input \<Rightarrow> be_module \<Rightarrow> be_function \<Rightarrow> ce_function \<Rightarrow> ce_builder \<Rightarrow> ce_builder \<Rightarrow> ce_builder \<Rightarrow> be_value option \<Rightarrow> ce_operand \<Rightarrow>
   be_type \<Rightarrow> int \<Rightarrow> ce_state \<Rightarrow> bool" where
  "opnd C M f cf b0 b1 b h r t x s \<longleftrightarrow>
     (\<exists>o'. r = CeOperandKind_FrameOfs o' t \<and> holds s o' t x \<and> slot_of cf (frame_top C M f) o' t \<and>
        offs o' t \<subseteq> (case h of None \<Rightarrow> {- cb_frame_size b1 ..< - cb_frame_size b0} | Some h' \<Rightarrow> region C M f h') \<and>
        offs o' t \<inter> {- cb_frame_size b1 ..< - cb_frame_size b} = {})"

lemma opnd_kept:
  assumes "opnd C M f cf b0 b1 b h r t x s" "touches s lo hi s'" "- cb_frame_size b1 \<le> lo" "hi \<le> - cb_frame_size b" "grows b b'"
  shows "opnd C M f cf b0 b1 b' h r t x s'"
proof -
  from assms(1) obtain o' where o': "r = CeOperandKind_FrameOfs o' t" "holds s o' t x" "slot_of cf (frame_top C M f) o' t"
    "offs o' t \<subseteq> (case h of None \<Rightarrow> {- cb_frame_size b1 ..< - cb_frame_size b0} | Some h' \<Rightarrow> region C M f h')"
    "offs o' t \<inter> {- cb_frame_size b1 ..< - cb_frame_size b} = {}" unfolding opnd_def by blast
  have "{lo ..< hi} \<subseteq> {- cb_frame_size b1 ..< - cb_frame_size b}" using assms(3,4) by auto
  then have "holds s' o' t x" using o'(2,5) holds_kept [OF assms(2)] by blast
  moreover have "{- cb_frame_size b1 ..< - cb_frame_size b'} \<subseteq> {- cb_frame_size b1 ..< - cb_frame_size b}"
    using grows_frame [OF assms(5)] by auto
  ultimately show ?thesis unfolding opnd_def using o' by blast
qed


lemma kept_val:
  assumes "live C M f cf F i a s" "ir_vals a v = Some (t, x, h)"
  obtains o' where "final_ops C M f v = Some (CeOperandKind_FrameOfs o' t)" "holds s o' t x" "offs o' t \<subseteq> region C M f h"
    "offs o' t \<inter> region C M f (BeInst i) = {}"
proof -
  from assms obtain o' where o': "final_ops C M f v = Some (CeOperandKind_FrameOfs o' t)" "holds s o' t x"
    "offs o' t \<subseteq> region C M f h" unfolding live_def sim_vals_def by blast
  have "built C M f cf" "h \<noteq> BeInst i" using assms by (auto simp: live_def)
  then have "region C M f h \<inter> region C M f (BeInst i) = {}" by (rule region_disjoint)
  with o' that show thesis by blast
qed

text \<open>\<open>GetOperand\<close>: the slot of the value, or the code that loads a constant.\<close>

lemma missing_error: "operand_missing C b = (r, b') \<Longrightarrow> cb_error b' \<noteq> None"
  by (auto simp: operand_missing_def FrameAlloc_def cb_fail_def Let_def split: option.splits)

lemma operand_slot:
  assumes I: "inside C M f cf e F k j i b0 r1 b1 a sI b s"
    and g: "GetOperand C (Some v) al False b = Some (r, b')" "grows b' b1"
    and v: "ir_vals a v = Some (t, x, h)" "\<not> (\<exists>t w. v = BeConstant t w)"
  shows "b' = b \<and> opnd C M f cf b0 b1 b (Some h) r t x s"
proof -
  note d = insideD [OF I]
  from kept_val [OF d(2) v(1)] obtain o' where o': "final_ops C M f v = Some (CeOperandKind_FrameOfs o' t)" "holds s o' t x"
    "offs o' t \<subseteq> region C M f h" "offs o' t \<inter> region C M f (BeInst i) = {}" by metis
  have err: "cb_error b' = None" using grows_error [OF g(2)] d(1) by (simp add: inst_built_def)
  have ops: "cb_operands b \<subseteq>\<^sub>m final_ops C M f" using d(1,14) by (simp add: inst_built_def)
  have nc: "\<not> (\<exists>u. v = BeUndefConstant u)" using g(1) by (auto simp: GetOperand_def)
  have "cb_operands b v \<noteq> None"
  proof
    assume "cb_operands b v = None"
    then have "operand_missing C b = (r, b')" using g(1) nc v(2) by (cases v) (auto simp: GetOperand_def)
    with err show False by (simp add: missing_error)
  qed
  then have "cb_operands b v = Some (CeOperandKind_FrameOfs o' t)" using ops o'(1) by (auto simp: map_le_def dest!: bspec [OF _ domI])
  then have "b' = b" "r = CeOperandKind_FrameOfs o' t" using g(1) nc v(2) by (cases v; auto simp: GetOperand_def)+
  moreover obtain w where "scalar t = Some w" using holds_scalar [OF o'(2)] by blast
  then have "slot_of cf (frame_top C M f) o' t" using d(3) o'(3) by (rule slot_of_region [rotated 2])
  moreover have "{- cb_frame_size b1 ..< - cb_frame_size b} \<subseteq> region C M f (BeInst i)" unfolding d(10) using d(11) by auto
  ultimately show ?thesis using o' by (auto simp: opnd_def)
qed

lemma opnd_here:
  assumes I: "inside C M f cf e F k j i b0 r1 b1 a sI b s" and h: "holds s (- cb_frame_size b) t x" and w: "scalar t = Some w"
    and n: "cb_frame_size b0 + int (int_bytes w) \<le> cb_frame_size b"
  shows "opnd C M f cf b0 b1 b None (CeOperandKind_FrameOfs (- cb_frame_size b) t) t x s"
proof -
  note d = insideD [OF I]
  have o': "offs (- cb_frame_size b) t = {- cb_frame_size b ..< - cb_frame_size b + int (int_bytes w)}" by (simp add: offs_def w)
  then have "offs (- cb_frame_size b) t \<subseteq> {- mFrameSize cf ..< frame_top C M f}" using d(11,12,15,16) n by auto
  then show ?thesis using slot_of_within h w o' d(11,12) n by (auto simp: opnd_def)
qed

text \<open>A piece of code that fills a new slot.\<close>

lemma inside_fill:
  assumes I: "inside C M f cf e F k j i b0 r1 b1 a sI b s"
    and b': "b' = piece seg (int (int_bytes w)) b" "grows b' b1"
    and st: "code_at s seg \<Longrightarrow> slot_ok cf (frame_top C M f) (- cb_frame_size b') (int_bytes w) \<Longrightarrow>
               ce_step e s = Some (CeNext (adv (ce_put s (x_frame s + - cb_frame_size b') (le_bytes m v)) (int (length seg))))"
    and m: "m \<le> int_bytes w"
  shows "\<exists>s'. s' = adv (ce_put s (x_frame s + - cb_frame_size b') (le_bytes m v)) (int (length seg)) \<and>
    inside C M f cf e F k j i b0 r1 b1 a sI b' s' \<and> touches s (- cb_frame_size b') (- cb_frame_size b) s'"
proof -
  note d = insideD [OF I]
  let ?s = "adv (ce_put s (x_frame s + - cb_frame_size b') (le_bytes m v)) (int (length seg))"
  have g: "grows b b'" unfolding b'(1) by (rule grows_piece) simp
  have le: "cb_frame_size b' \<le> cb_frame_size b1" by (rule grows_frame [OF b'(2)])
  have c: "code_at s seg" by (rule inside_code [OF I g b'(2)]) (simp_all add: b'(1))
  have sl: "slot_ok cf (frame_top C M f) (- cb_frame_size b') (int_bytes w)"
    using b'(1) le d(11,15,16) by (simp add: slot_ok_def)
  have t: "touches s (- cb_frame_size b') (- cb_frame_size b) ?s" by (rule touches_put) (use m b'(1) in simp_all)
  have "inside C M f cf e F k j i b0 r1 b1 a sI b' ?s"
    by (rule inside_step [OF I st [OF c sl] t _ _ _ g b'(2)]) (use le d(7,11) b'(1) in simp_all)
  with t show ?thesis by blast
qed


lemma piece_frame: "b' = piece seg n b \<Longrightarrow> cb_frame_size b' = cb_frame_size b + n"
  by simp

lemma piece_shape: "b' = piece seg n b \<Longrightarrow> cb_jumps b' = cb_jumps b" "b' = piece seg n b \<Longrightarrow> cb_code b' = cb_code b @ seg"
  by simp_all

lemma new_slot:
  assumes I: "inside C M f cf e F k j i b0 r1 b1 a sI b s" and b1: "b1 = piece seg (int (int_bytes w)) b" and t: "scalar t = Some w"
  shows "slot_of cf (frame_top C M f) (- cb_frame_size b1) t"
  using insideD(11,15,16) [OF I] piece_frame [OF b1] by (simp add: slot_of_def slot_ok_def t)

lemma operand_const:
  assumes I: "inside C M f cf e F k j i b0 r1 b1 a sI b s"
    and g: "GetOperand C (Some (BeConstant t w)) al False b = Some (r, b')" "grows b' b1"
    and t: "scalar t = Some n" and x: "x = wrap_u (int_bytes n) (uint w)" "val_ok t x"
  shows "\<exists>s'. inside C M f cf e F k j i b0 r1 b1 a sI b' s' \<and> opnd C M f cf b0 b1 b' None r t x s' \<and>
    touches s (- cb_frame_size b') (- cb_frame_size b) s'"
proof -
  note d = insideD [OF I]
  have "GetOperand_const C t w False b = Some (r, b')" using g(1) by (simp add: GetOperand_def)
  from get_const_shape [OF this t] have r: "r = CeOperandKind_FrameOfs (- cb_frame_size b') t"
    and b': "b' = piece (op_bytes (Mem (CeOp_Const (int_size n))) @ le_bytes 4 (- cb_frame_size b') @ le_bytes (int_bytes n) x)
      (int (int_bytes n)) b" by (auto simp: x(1) le_bytes_inj wrap_simps)
  have "\<exists>s'. s' = adv (ce_put s (x_frame s + - cb_frame_size b') (le_bytes (int_bytes n) x)) (6 + int (int_bytes n)) \<and>
    inside C M f cf e F k j i b0 r1 b1 a sI b' s' \<and> touches s (- cb_frame_size b') (- cb_frame_size b) s'"
    using inside_fill [OF I b' g(2), of "int_bytes n" x] step_const [OF _ d(4), of n "- cb_frame_size b'" "le_bytes (int_bytes n) x"]
    by (simp add: add.assoc)
  then obtain s' where s': "s' = adv (ce_put s (x_frame s + - cb_frame_size b') (le_bytes (int_bytes n) x)) (6 + int (int_bytes n))"
    "inside C M f cf e F k j i b0 r1 b1 a sI b' s'" "touches s (- cb_frame_size b') (- cb_frame_size b) s'" by blast
  have "holds s' (- cb_frame_size b') t x" unfolding s'(1) by (rule holds_put [OF x(2) t])
  moreover have "cb_frame_size b0 + int (int_bytes n) \<le> cb_frame_size b'" using d(11) piece_frame [OF b'] by simp
  ultimately have "opnd C M f cf b0 b1 b' None r t x s'" unfolding r by (rule opnd_here [OF s'(2) _ t])
  with s' show ?thesis by blast
qed

lemma operand_sim:
  assumes I: "inside C M f cf e F k j i b0 r1 b1 a sI b s"
    and g: "GetOperand C v al False b = Some (r, b')" "grows b' b1"
    and v: "ir_get a v = Some (t, x, h)"
  obtains s' where "inside C M f cf e F k j i b0 r1 b1 a sI b' s'" "opnd C M f cf b0 b1 b' h r t x s'"
    "touches s (- cb_frame_size b') (- cb_frame_size b) s'"
proof -
  from v obtain u where u: "v = Some u" by (auto simp: ir_get_def split: option.splits)
  show thesis
  proof (cases "\<exists>t w. u = BeConstant t w")
    case True
    then obtain t' w where w: "u = BeConstant t' w" by blast
    then obtain n where n: "scalar t' = Some n" "t' = t" "x = wrap_u (int_bytes n) (uint w)" "val_ok t x" "h = None"
      using v u by (auto simp: ir_get_def Let_def split: option.splits if_splits)
    have gc: "GetOperand C (Some (BeConstant t w)) al False b = Some (r, b')" using g(1) u w n(2) by simp
    have "scalar t = Some n" using n(1,2) by simp
    from operand_const [OF I gc g(2) this n(3,4)] that n(5) show thesis by blast
  next
    case False
    then obtain h' where h': "ir_vals a u = Some (t, x, h')" "h = Some h'"
      using v u by (auto simp: ir_get_def split: option.splits be_value.splits)
    have "GetOperand C (Some u) al False b = Some (r, b')" using g(1) u by simp
    from operand_slot [OF I this g(2) h'(1) False] that [of s] I h'(2) show thesis by auto
  qed
qed


section \<open>Between instructions\<close>

text \<open>
  The shape of the functions considered: a branch ends its block, and the local variables are
  declared in the head of the function, before any other instruction than a conversion.
\<close>

definition is_alloca :: "int \<times> be_inst \<Rightarrow> bool" where
  "is_alloca x = (case snd x of BeAllocaInst t n \<Rightarrow> True | _ \<Rightarrow> False)"

definition is_br :: "int \<times> be_inst \<Rightarrow> bool" where
  "is_br x = (case snd x of BeBrInst k \<Rightarrow> True | _ \<Rightarrow> False)"

definition fn_shape :: "be_function \<Rightarrow> bool" where
  "fn_shape f \<longleftrightarrow>
     list_all (\<lambda>blk. list_all (\<lambda>x. \<not> is_br x) (butlast blk)) (mBlocks f) \<and>
     list_all (\<lambda>blk. list_all (\<lambda>x. \<not> is_alloca x) blk) (tl (mBlocks f)) \<and>
     list_all (\<lambda>x. \<not> is_alloca x) (dropWhile (\<lambda>x. keeps_head (snd x)) (hd (mBlocks f)))"

lemma br_last: "fn_shape f \<Longrightarrow> pos_in f k j \<Longrightarrow> is_br (mBlocks f ! k ! j) \<Longrightarrow> Suc j = length (mBlocks f ! k)"
proof (rule ccontr)
  assume f: "fn_shape f" "pos_in f k j" "is_br (mBlocks f ! k ! j)" and "Suc j \<noteq> length (mBlocks f ! k)"
  then have "j < length (butlast (mBlocks f ! k))" unfolding pos_in_def length_butlast by linarith
  moreover from this have "butlast (mBlocks f ! k) ! j = mBlocks f ! k ! j" by (rule nth_butlast)
  ultimately have "mBlocks f ! k ! j \<in> set (butlast (mBlocks f ! k))" by (metis nth_mem)
  moreover have "mBlocks f ! k \<in> set (mBlocks f)" using f(2) by (simp add: pos_in_def)
  ultimately show False using f(1,3) by (auto simp: fn_shape_def list_all_iff)
qed

lemma alloca_head:
  assumes f: "fn_shape f" "pos_in f k j" "is_alloca (mBlocks f ! k ! j)"
  shows "k = 0 \<and> (\<forall>j' < j. keeps_head (snd (mBlocks f ! 0 ! j')))"
proof -
  have p: "k < length (mBlocks f)" "j < length (mBlocks f ! k)" using f(2) by (auto simp: pos_in_def)
  have k: "k = 0"
  proof (rule ccontr)
    assume "k \<noteq> 0"
    then have "mBlocks f ! k \<in> set (tl (mBlocks f))" using p(1)
      by (cases "mBlocks f") (auto simp: nth_Cons' in_set_conv_nth intro!: exI [of _ "k - 1"])
    moreover have "mBlocks f ! k ! j \<in> set (mBlocks f ! k)" using p(2) by simp
    ultimately show False using f(1,3) by (auto simp: fn_shape_def list_all_iff)
  qed
  define B where "B = mBlocks f ! 0"
  define n where "n = length (takeWhile (\<lambda>x. keeps_head (snd x)) B)"
  have "hd (mBlocks f) = B" using p(1) by (cases "mBlocks f") (simp_all add: B_def)
  then have na: "\<forall>x \<in> set (drop n B). \<not> is_alloca x" using f(1) by (simp add: fn_shape_def list_all_iff dropWhile_eq_drop n_def)
  have "j < n"
  proof (rule ccontr)
    assume "\<not> j < n"
    then have "drop n B ! (j - n) = B ! j" "j - n < length (drop n B)" using p k by (auto simp: B_def)
    then have "B ! j \<in> set (drop n B)" by (metis nth_mem)
    with na f(3) k show False by (simp add: B_def)
  qed
  have "keeps_head (snd (B ! j'))" if "j' < j" for j'
    using that \<open>j < n\<close> nth_length_takeWhile takeWhile_nth [of j' "\<lambda>x. keeps_head (snd x)" B]
    by (metis (no_types, lifting) less_trans n_def nth_mem set_takeWhileD)
  with k show ?thesis by (simp add: B_def)
qed

text \<open>The flag of the builder says that only declarations and conversions came before.\<close>

lemma head_flag:
  "bld C M f 0 j = Some (h, b) \<Longrightarrow> \<forall>j' < j. keeps_head (snd (mBlocks f ! 0 ! j')) \<Longrightarrow> h"
proof (induction j arbitrary: h b)
  case (Suc j)
  obtain i inst where i: "mBlocks f ! 0 ! j = (i, inst)" by fastforce
  from bld_step [OF Suc.prems(1) i] obtain h0 b0 where "bld C M f 0 j = Some (h0, b0)" "h = (h0 \<and> keeps_head inst)" by metis
  with Suc.IH [of h0 b0] Suc.prems(2) i show ?case by (metis less_Suc_eq snd_conv)
qed auto

definition code_ok :: "ce_input \<Rightarrow> be_module \<Rightarrow> be_function \<Rightarrow> ce_function \<Rightarrow> bool" where
  "code_ok C M f cf \<longleftrightarrow> built C M f cf \<and> fn_shape f \<and> int (length (mCode cf)) < 2 ^ 31"

definition sim :: "ce_input \<Rightarrow> be_module \<Rightarrow> be_function \<Rightarrow> ce_function \<Rightarrow> int \<Rightarrow> ir_state \<Rightarrow> ce_state \<Rightarrow> bool" where
  "sim C M f cf F a s \<longleftrightarrow>
     code_ok C M f cf \<and> ir_block a < length (mBlocks f) \<and> ir_pos a \<le> length (mBlocks f ! ir_block a) \<and>
     (\<exists>h b. bld C M f (ir_block a) (ir_pos a) = Some (h, b) \<and> x_inst s = GetCodePos b) \<and>
     frame_ok cf F (frame_top C M f) s \<and> sim_vals C M f a s \<and> sim_vars C M f a s"

text \<open>What one step has to reach.\<close>

definition reaches :: "ce_env \<Rightarrow> ce_function \<Rightarrow> int \<Rightarrow> ce_state \<Rightarrow> ce_state \<Rightarrow> bool" where
  "reaches e cf hi s s' \<longleftrightarrow> ce_steps e s s' \<and> touches s (- mFrameSize cf) hi s'"

lemma inside_reaches: "inside C M f cf e F k j i b0 r1 b1 a sI b s \<Longrightarrow> reaches e cf (frame_top C M f) sI s"
  by (simp add: inside_def reaches_def)

text \<open>The end of an instruction without a result, and with one.\<close>

lemma sim_next:
  assumes I: "inside C M f cf e F k j i b0 r1 b1 a sI b1 s" and ok: "code_ok C M f cf" and p: "ir_block a = k" "ir_pos a = j"
  shows "sim C M f cf F (a\<lparr>ir_pos := Suc j\<rparr>) s"
proof -
  note d = insideD [OF I]
  obtain h where "bld C M f k (Suc j) = Some (h, with_result i r1 b1)" "pos_in f k j" using d(1) by (auto simp: inst_built_def)
  then show ?thesis using ok d(2,4,7) p by (auto simp: sim_def live_def pos_in_def sim_vals_def sim_vars_def)
qed

lemma sim_result:
  assumes I: "inside C M f cf e F k j i b0 r1 b1 a sI b1 s" and ok: "code_ok C M f cf" and p: "ir_block a = k" "ir_pos a = j"
    and r: "r1 = CeOperandKind_FrameOfs o' t" "holds s o' t x" "offs o' t \<subseteq> region C M f h"
  shows "sim C M f cf F (a\<lparr>ir_vals := (ir_vals a)(BeInst i \<mapsto> (t, x, h)), ir_pos := Suc j\<rparr>) s"
proof -
  note d = insideD [OF I]
  have "final_ops C M f (BeInst i) = Some (CeOperandKind_FrameOfs o' t)" using d(1) r(1) by (simp add: inst_built_def)
  with r(2,3) d(2) have "sim_vals C M f (a\<lparr>ir_vals := (ir_vals a)(BeInst i \<mapsto> (t, x, h)), ir_pos := Suc j\<rparr>) s"
    by (auto simp: sim_vals_def live_def)
  with sim_next [OF I ok p] show ?thesis by (simp add: sim_def sim_vars_def p)
qed

text \<open>\<open>ir_set\<close>: the result is in a new slot or in that of an operand.\<close>

lemma sim_set:
  assumes I: "inside C M f cf e F k j i b0 r1 b1 a sI b1 s" and ok: "code_ok C M f cf" and p: "ir_block a = k" "ir_pos a = j"
    and r: "opnd C M f cf b0 b1 b1 h r1 t x s" and a': "ir_set i t x h a = Some (IrNext a')"
  shows "sim C M f cf F a' s"
proof -
  note d = insideD [OF I]
  from r obtain o' where o': "r1 = CeOperandKind_FrameOfs o' t" "holds s o' t x"
    "offs o' t \<subseteq> (case h of None \<Rightarrow> {- cb_frame_size b1 ..< - cb_frame_size b0} | Some h' \<Rightarrow> region C M f h')"
    unfolding opnd_def by blast
  then have "offs o' t \<subseteq> region C M f (case h of None \<Rightarrow> BeInst i | Some h' \<Rightarrow> h')" using d(10) by (cases h) auto
  from sim_result [OF I ok p o'(1,2) this] a' p show ?thesis by (auto simp: ir_set_def ir_next_def split: if_splits)
qed


section \<open>One lemma per instruction\<close>

definition outcome ::
  "ce_input \<Rightarrow> be_module \<Rightarrow> be_function \<Rightarrow> ce_function \<Rightarrow> ce_env \<Rightarrow> int \<Rightarrow> ce_state \<Rightarrow> ir_result \<Rightarrow> bool" where
  "outcome C M f cf e F s res \<longleftrightarrow>
     (case res of
        IrNext a' \<Rightarrow> \<exists>s'. reaches e cf (frame_top C M f) s s' \<and> sim C M f cf F a' s'
      | IrTrap msg \<Rightarrow> \<exists>s' s''. reaches e cf (frame_top C M f) s s' \<and> ce_step e s' = Some (CeFail msg s'')
      | IrDone v \<Rightarrow> \<exists>s'. reaches e cf (frame_top C M f) s s' \<and> code_at s' (op_bytes (Ctl CeOp_Ret)) \<and>
                       (\<forall>t x. v = Some (t, x) \<longrightarrow> holds s' 0 t x))"

text \<open>Instruction \<open>i\<close> of the function is about to run.\<close>

definition starts ::
  "ce_input \<Rightarrow> be_module \<Rightarrow> be_function \<Rightarrow> ce_function \<Rightarrow> ce_env \<Rightarrow> int \<Rightarrow> nat \<Rightarrow> nat \<Rightarrow> int \<Rightarrow> ce_builder \<Rightarrow> ce_operand \<Rightarrow>
   ce_builder \<Rightarrow> ir_state \<Rightarrow> ce_state \<Rightarrow> be_inst \<Rightarrow> bool" where
  "starts C M f cf e F k j i b0 r1 b1 a s inst \<longleftrightarrow>
     inside C M f cf e F k j i b0 r1 b1 a s b0 s \<and> code_ok C M f cf \<and> ir_block a = k \<and> ir_pos a = j \<and> inst_ok C inst \<and>
     mBlocks f ! k ! j = (i, inst) \<and> (\<exists>h. build_inst C k h i inst b0 = Some (r1, b1))"

lemma startsD:
  assumes "starts C M f cf e F k j i b0 r1 b1 a s inst"
  shows "inside C M f cf e F k j i b0 r1 b1 a s b0 s" "code_ok C M f cf" "ir_block a = k" "ir_pos a = j" "inst_ok C inst"
    "mBlocks f ! k ! j = (i, inst)" "\<exists>h. build_inst C k h i inst b0 = Some (r1, b1)"
  using assms by (auto simp: starts_def)

lemma sim_start:
  assumes S: "sim C M f cf F a s" and p: "pos_in f (ir_block a) (ir_pos a)"
    and i: "mBlocks f ! ir_block a ! ir_pos a = (i, inst)" "\<not> is_alloca (i, inst)"
  obtains b0 r1 b1 where "starts C M f cf e F (ir_block a) (ir_pos a) i b0 r1 b1 (ir_kill True (BeInst i) a) s inst"
proof -
  have bt: "built C M f cf" and ok: "code_ok C M f cf" using S by (auto simp: sim_def code_ok_def)
  have fok: "fn_ok C f" using bt by (simp add: built_def)
  from S obtain h b0 where b0: "bld C M f (ir_block a) (ir_pos a) = Some (h, b0)" "x_inst s = GetCodePos b0"
    by (auto simp: sim_def)
  from inst_setup [OF bt p i(1) b0(1)] obtain r1 b1 where
    r1: "build_inst C (ir_block a) (h \<and> keeps_head inst) i inst b0 = Some (r1, b1)"
    "inst_built C M f cf (ir_block a) (ir_pos a) i b0 r1 b1" by metis
  let ?a = "ir_kill True (BeInst i) a"
  have novar: "ir_vars a i = None"
  proof (rule ccontr)
    assume "ir_vars a i \<noteq> None"
    then obtain t xo where "ir_vars a i = Some (t, xo)" by auto
    with S have "is_variable f i" unfolding sim_def sim_vars_def by blast
    then obtain k' j' t' where v: "pos_in f k' j'" "mBlocks f ! k' ! j' = (i, BeAllocaInst t' None)" by (auto simp: is_variable_def)
    then have "k' = ir_block a \<and> j' = ir_pos a"
      using same_inst_same_pos [OF _ v(1) p] fok i(1) by (auto simp: fn_ok_def)
    with v(2) i show False by (auto simp: is_alloca_def)
  qed
  have l: "live C M f cf F i ?a s" using S novar bt
    by (auto simp: live_def sim_def sim_vals_def sim_vars_def ir_kill_def split: option.splits if_splits)
  have io: "inst_ok C inst" using fok p i(1) inst_in [of "ir_block a" f "ir_pos a"]
    by (force simp: fn_ok_def pos_in_def simp del: set_concat)
  have "inside C M f cf e F (ir_block a) (ir_pos a) i b0 r1 b1 ?a s b0 s"
    using r1(2) l b0(2) by (simp add: inside_def inst_built_def)
  then show thesis using that r1(1) ok io i(1) by (auto simp: starts_def ir_kill_def)
qed

lemma get_grows:
  "GetOperand C v al imm b = Some (r, b') \<Longrightarrow> cb_sized C b \<Longrightarrow> val_sized C v \<Longrightarrow> grows b b' \<and> op_sized C r \<and> cb_sized C b'"
  using emits_opD [OF emits_GetOperand] cb_sized_grows by blast

lemma starts_sized: "starts C M f cf e F k j i b0 r1 b1 a s inst \<Longrightarrow> cb_sized C b0"
  by (auto simp: starts_def inside_def inst_built_def)

lemma two_operands:
  assumes I: "inside C M f cf e F k j i b0 r1 b1 a sI b s"
    and g: "GetOperand C l False False b = Some (x', bA)" "GetOperand C r False False bA = Some (y', bB)"
      "grows bA bB" "grows bB b1"
    and v: "ir_get a l = Some (t, x, h)" "ir_get a r = Some (u, y, h')"
  obtains s' where "inside C M f cf e F k j i b0 r1 b1 a sI bB s'" "opnd C M f cf b0 b1 bB h x' t x s'"
    "opnd C M f cf b0 b1 bB h' y' u y s'"
proof -
  from operand_sim [OF I g(1) grows_trans [OF g(3,4)] v(1)] obtain s1 where
    1: "inside C M f cf e F k j i b0 r1 b1 a sI bA s1" "opnd C M f cf b0 b1 bA h x' t x s1" by metis
  from operand_sim [OF 1(1) g(2,4) v(2)] obtain s2 where
    2: "inside C M f cf e F k j i b0 r1 b1 a sI bB s2" "opnd C M f cf b0 b1 bB h' y' u y s2"
    "touches s1 (- cb_frame_size bB) (- cb_frame_size bA) s2" by metis
  have "opnd C M f cf b0 b1 bB h x' t x s2"
    by (rule opnd_kept [OF 1(2) 2(3) _ _ g(3)]) (use grows_frame [OF g(4)] in simp_all)
  with 2 that show thesis by blast
qed

text \<open>A result in a new slot.\<close>

lemma fill_result:
  assumes I: "inside C M f cf e F k j i b0 r1 b1 a sI b s" and ok: "code_ok C M f cf" and p: "ir_block a = k" "ir_pos a = j"
    and r1: "r1 = CeOperandKind_FrameOfs (- cb_frame_size b1) t" and b1: "b1 = piece seg (int (int_bytes w)) b"
    and t: "scalar t = Some w" and a': "ir_set i t z None a = Some (IrNext a')"
    and st: "code_at s seg \<Longrightarrow> slot_of cf (frame_top C M f) (- cb_frame_size b1) t \<Longrightarrow>
               ce_step e s = Some (CeNext (adv (ce_put s (x_frame s + - cb_frame_size b1) (le_bytes (int_bytes w) z)) (int (length seg))))"
  shows "outcome C M f cf e F sI (IrNext a')"
proof -
  have "grows b1 b1" by simp
  from inside_fill [OF I b1 this, of "int_bytes w" z] st t obtain s' where
    s': "s' = adv (ce_put s (x_frame s + - cb_frame_size b1) (le_bytes (int_bytes w) z)) (int (length seg))"
    "inside C M f cf e F k j i b0 r1 b1 a sI b1 s'" by (auto simp: slot_of_def)
  have z: "val_ok t z" using a' by (simp add: ir_set_def split: if_splits)
  have "holds s' (- cb_frame_size b1) t z" unfolding s'(1) by (rule holds_put [OF z t])
  moreover have "cb_frame_size b0 + int (int_bytes w) \<le> cb_frame_size b1" using insideD(11) [OF I] piece_frame [OF b1] by simp
  ultimately have "opnd C M f cf b0 b1 b1 None r1 t z s'" unfolding r1 using opnd_here [OF s'(2) _ t] r1 by simp
  from sim_set [OF s'(2) ok p this a'] inside_reaches [OF s'(2)] show ?thesis by (auto simp: outcome_def)
qed

lemma outcome_binary:
  assumes S: "starts C M f cf e F k j i b0 r1 b1 a s (BeBinaryOpInst op l r ov)"
    and res: "ir_inst C M True f i (BeBinaryOpInst op l r ov) a = Some res"
  shows "outcome C M f cf e F s res"
proof -
  note st = startsD [OF S]
  from st(7) obtain x' bA y' bB where b: "GetOperand C l False False b0 = Some (x', bA)" "GetOperand C r False False bA = Some (y', bB)"
    "EmitBinaryOp C (fst (binary_ops op)) (snd (binary_ops op)) x' y' CeOperandKind_None bB = Some (r1, b1)"
    by (auto simp: build_inst_def build_binary_def bind_eq_Some_conv)
  from res obtain t x h u y h' w z where v: "ir_get a l = Some (t, x, h)" "ir_get a r = Some (u, y, h')" "scalar t = Some w"
    "u = t \<or> is_shift op" "ir_binary op (int_bytes w) x y = Some z"
    and z: "(case z of Inl msg \<Rightarrow> Some (IrTrap msg) | Inr v \<Rightarrow> ir_set i t v None a) = Some res"
    by (auto simp: bind_eq_Some_conv split: if_splits)
  have sz: "val_sized C l" "val_sized C r" using st(5) by simp_all
  note gA = get_grows [OF b(1) starts_sized [OF S] sz(1)]
  note gB = get_grows [OF b(2) _ sz(2)]
  have g: "grows bA bB" "grows bB b1" using gA gB emits_opD [OF emits_EmitBinaryOp b(3)] by simp_all
  from two_operands [OF st(1) b(1,2) g v(1,2)] obtain s1 where
    1: "inside C M f cf e F k j i b0 r1 b1 a s bB s1" "opnd C M f cf b0 b1 bB h x' t x s1" "opnd C M f cf b0 b1 bB h' y' u y s1"
    by metis
  from 1(2,3) obtain p q where o': "x' = CeOperandKind_FrameOfs p t" "y' = CeOperandKind_FrameOfs q u" "holds s1 p t x" "holds s1 q u y"
    "slot_of cf (frame_top C M f) p t" "slot_of cf (frame_top C M f) q u" by (auto simp: opnd_def)
  let ?seg = "op_bytes (bin_op op w) @ le_bytes 4 (- cb_frame_size b1) @ le_bytes 4 p @ le_bytes 4 q"
  from binary_shape [OF b(3) [unfolded o'(1,2)] v(3)] have r1: "r1 = CeOperandKind_FrameOfs (- cb_frame_size b1) t"
    and b1: "b1 = piece ?seg (int (int_bytes w)) bB" by (auto simp: binary_ops_code)
  have us: "scalar u \<noteq> None" using holds_scalar [OF o'(4)] by auto
  show ?thesis
  proof (cases z)
    case (Inr v')
    then have a': "ir_set i t v' None a = Some res" and zz: "ir_binary op (int_bytes w) x y = Some (Inr v')" using z v(5) by simp_all
    then obtain a' where "res = IrNext a'" by (auto simp: ir_set_def ir_next_def split: if_splits)
    moreover have "outcome C M f cf e F s (IrNext a')"
      by (rule fill_result [OF 1(1) st(2-4) r1 b1 v(3)])
        (use a' calculation step_bin_op(1) [OF _ insideD(4) [OF 1(1)] v(3) us v(4) _ o'(5,6,3,4) zz] in simp_all)
    ultimately show ?thesis by simp
  next
    case (Inl msg)
    have "code_at s1 ?seg" by (rule inside_code [OF 1(1) g(2) grows_refl piece_shape [OF b1]])
    moreover have "slot_of cf (frame_top C M f) (- cb_frame_size b1) t" by (rule new_slot [OF 1(1) b1 v(3)])
    ultimately have "\<exists>s'. ce_step e s1 = Some (CeFail msg s')"
      by (rule step_bin_op(2) [OF _ insideD(4) [OF 1(1)] v(3) us v(4) _ o'(5,6,3,4)]) (use v(5) Inl in simp)
    moreover have "res = IrTrap msg" using z Inl by simp
    ultimately show ?thesis using inside_reaches [OF 1(1)] by (auto simp only: outcome_def ir_result.case)
  qed
qed


lemma ir_set_next: "ir_set i t x h a = Some res \<Longrightarrow> \<exists>a'. res = IrNext a'"
  by (auto simp: ir_set_def ir_next_def split: if_splits)

lemma opnd_slot:
  assumes "opnd C M f cf b0 b1 b h r t x s"
  obtains o' where "r = CeOperandKind_FrameOfs o' t" "holds s o' t x" "slot_of cf (frame_top C M f) o' t"
  using assms by (auto simp: opnd_def)

text \<open>A comparison writes its truth value to a slot allocated after its operands.\<close>

lemma outcome_cmp:
  assumes S: "starts C M f cf e F k j i b0 r1 b1 a s (BeCmpInst op l r)"
    and res: "ir_inst C M True f i (BeCmpInst op l r) a = Some res"
  shows "outcome C M f cf e F s res"
proof -
  note st = startsD [OF S]
  let ?B = "GetPrimitiveType BeTypeCode_Boolean"
  have B: "scalar ?B = Some I8" by (simp add: scalar_def GetPrimitiveType_def)
  from st(7) obtain x' bA y' bB where b: "GetOperand C l False False b0 = Some (x', bA)" "GetOperand C r False False bA = Some (y', bB)"
    and e: "EmitBinaryOp C (fst (cmp_ops op)) (snd (cmp_ops op)) x' y' (CeOperandKind_FrameOfs (- (cb_frame_size bB + 1)) ?B)
      (piece [] 1 bB) = Some (r1, b1)"
    by (auto simp: build_inst_def build_cmp_def bind_eq_Some_conv alloc_piece [OF B])
  from res obtain t x h y h' w where v: "ir_get a l = Some (t, x, h)" "ir_get a r = Some (t, y, h')" "scalar t = Some w"
    and z: "ir_set i ?B (if ir_cmp op (int_bytes w) x y then 1 else 0) None a = Some res"
    by (auto simp: bind_eq_Some_conv split: if_splits)
  have sz: "val_sized C l" "val_sized C r" using st(5) by simp_all
  note gA = get_grows [OF b(1) starts_sized [OF S] sz(1)]
  note gB = get_grows [OF b(2) _ sz(2)]
  have "grows bB (piece [] 1 bB)" by (rule grows_piece) simp
  then have g: "grows bA bB" "grows bB b1" using gA gB emits_opD [OF emits_EmitBinaryOp e] by (auto intro: grows_trans)
  from two_operands [OF st(1) b g v(1,2)] obtain s1 where
    1: "inside C M f cf e F k j i b0 r1 b1 a s bB s1" "opnd C M f cf b0 b1 bB h x' t x s1" "opnd C M f cf b0 b1 bB h' y' t y s1"
    by metis
  from opnd_slot [OF 1(2)] opnd_slot [OF 1(3)] obtain p q where
    o': "x' = CeOperandKind_FrameOfs p t" "y' = CeOperandKind_FrameOfs q t" "holds s1 p t x" "holds s1 q t y"
    "slot_of cf (frame_top C M f) p t" "slot_of cf (frame_top C M f) q t" by metis
  let ?seg = "op_bytes (cmp_op op w) @ le_bytes 4 (- (cb_frame_size bB + 1)) @ le_bytes 4 p @ le_bytes 4 q"
  from cmp_shape [OF e [unfolded o'(1,2)] v(3)] have r1: "r1 = CeOperandKind_FrameOfs (- cb_frame_size b1) ?B"
    and b1: "b1 = piece ?seg (int (int_bytes I8)) bB" by (auto simp: cmp_ops_code)
  from ir_set_next [OF z] obtain a' where a': "res = IrNext a'" by blast
  have fs: "- (cb_frame_size bB + 1) = - cb_frame_size b1" using piece_frame [OF b1] by simp
  have "outcome C M f cf e F s (IrNext a')"
    by (rule fill_result [OF 1(1) st(2-4) r1 b1 B])
      (use z a' step_cmp_op [OF _ insideD(4) [OF 1(1)] v(3) _ o'(5,6,3,4)] fs in \<open>auto dest: slot_ofD [OF _ B]\<close>)
  then show ?thesis by (simp add: a')
qed


text \<open>Negation and complement.\<close>

lemma outcome_unary:
  assumes S: "starts C M f cf e F k j i b0 r1 b1 a s inst"
    and v: "ir_get a v = Some (t, x, h)" "scalar t = Some w" "val_sized C v" and z: "ir_set i t z None a = Some res"
    and b: "GetOperand C v False False b0 = Some (x', bA)" "EmitUnaryOp C iop fop x' bA = Some (r1, b1)"
    and op: "ce_code iop + int_idx w = ce_code op'"
    and step: "\<And>s hi r p. code_at s (op_bytes op' @ le_bytes 4 r @ le_bytes 4 p) \<Longrightarrow> frame_ok cf F hi s \<Longrightarrow>
      slot_of cf hi r t \<Longrightarrow> slot_of cf hi p t \<Longrightarrow> holds s p t x \<Longrightarrow>
      ce_step e s = Some (CeNext (adv (ce_put s (x_frame s + r) (le_bytes (int_bytes w) z)) 10))"
  shows "outcome C M f cf e F s res"
proof -
  note st = startsD [OF S]
  note gA = get_grows [OF b(1) starts_sized [OF S] v(3)]
  have g: "grows bA b1" using gA emits_opD [OF emits_EmitUnaryOp b(2)] by simp
  from operand_sim [OF st(1) b(1) g v(1)] obtain s1 where
    1: "inside C M f cf e F k j i b0 r1 b1 a s bA s1" "opnd C M f cf b0 b1 bA h x' t x s1" by metis
  from opnd_slot [OF 1(2)] obtain p where
    o': "x' = CeOperandKind_FrameOfs p t" "holds s1 p t x" "slot_of cf (frame_top C M f) p t" by metis
  from unary_shape [OF b(2) [unfolded o'(1)] v(2)] have r1: "r1 = CeOperandKind_FrameOfs (- cb_frame_size b1) t"
    and b1: "b1 = piece (op_bytes op' @ le_bytes 4 (- cb_frame_size b1) @ le_bytes 4 p) (int (int_bytes w)) bA"
    by (auto simp: op)
  from ir_set_next [OF z] obtain a' where a': "res = IrNext a'" by blast
  have "outcome C M f cf e F s (IrNext a')"
    by (rule fill_result [OF 1(1) st(2-4) r1 b1 v(2)])
      (use z a' step [OF _ insideD(4) [OF 1(1)] _ o'(3,2)] in simp_all)
  then show ?thesis by (simp add: a')
qed

lemma outcome_neg:
  assumes S: "starts C M f cf e F k j i b0 r1 b1 a s (BeNegInst v)"
    and res: "ir_inst C M True f i (BeNegInst v) a = Some res"
  shows "outcome C M f cf e F s res"
proof -
  from startsD(7) [OF S] obtain x' bA where b: "GetOperand C v False False b0 = Some (x', bA)"
    "EmitUnaryOp C (Unary (CeOp_Neg (KI I8))) (Unary (CeOp_Neg (KF F32))) x' bA = Some (r1, b1)"
    by (auto simp: build_inst_def bind_eq_Some_conv)
  from res obtain t x h w where v: "ir_get a v = Some (t, x, h)" "scalar t = Some w"
    and z: "ir_set i t (wrap_u (int_bytes w) (- x)) None a = Some res" by (auto simp: bind_eq_Some_conv)
  have sz: "val_sized C v" using startsD(5) [OF S] by simp
  have op: "ce_code (Unary (CeOp_Neg (KI I8))) + int_idx w = ce_code (Unary (CeOp_Neg (KI w)))" by simp
  show ?thesis by (rule outcome_unary [OF S v sz z b op]) (rule step_neg [OF _ _ v(2)])
qed

lemma outcome_not:
  assumes S: "starts C M f cf e F k j i b0 r1 b1 a s (BeNotInst v)"
    and res: "ir_inst C M True f i (BeNotInst v) a = Some res"
  shows "outcome C M f cf e F s res"
proof -
  from startsD(7) [OF S] obtain x' bA u where b: "GetOperand C v False False b0 = Some (x', bA)" "op_type x' = Some u"
    "EmitUnaryOp C (if mTypeCode u = BeTypeCode_Boolean then Unary CeOp_Not_I1 else Unary (CeOp_Not I8)) (Ctl CeOp_InvalidOp)
       x' bA = Some (r1, b1)"
    by (auto simp: build_inst_def build_not_def bind_eq_Some_conv)
  from res obtain t x h w where v: "ir_get a v = Some (t, x, h)" "scalar t = Some w"
    and z: "ir_set i t (if mTypeCode t = BeTypeCode_Boolean then 1 - x else wrap_u (int_bytes w) (NOT x)) None a = Some res"
    by (auto simp: bind_eq_Some_conv)
  have sz: "val_sized C v" using startsD(5) [OF S] by simp
  have "op_sized C x'" using get_grows [OF b(1) starts_sized [OF S] sz] by simp
  then have "grows bA b1" using emits_opD [OF emits_EmitUnaryOp b(3)] by simp
  from operand_sim [OF startsD(1) [OF S] b(1) this v(1)] have u: "u = t" using b(2) by (metis opnd_slot op_type.simps(2) option.inject)
  show ?thesis
  proof (cases "mTypeCode t = BeTypeCode_Boolean")
    case True
    then have w: "w = I8" using v(2) by (simp add: scalar_def)
    have op: "ce_code (if mTypeCode t = BeTypeCode_Boolean then Unary CeOp_Not_I1 else Unary (CeOp_Not I8)) + int_idx w =
      ce_code (Unary CeOp_Not_I1)" using True w by simp
    show ?thesis
      by (rule outcome_unary [OF S v sz z b(1) b(3) [unfolded u] op])
        (use step_not_bool [OF _ _ True] True w in simp)
  next
    case False
    have op: "ce_code (if mTypeCode t = BeTypeCode_Boolean then Unary CeOp_Not_I1 else Unary (CeOp_Not I8)) + int_idx w =
      ce_code (Unary (CeOp_Not w))" using False by simp
    show ?thesis
      by (rule outcome_unary [OF S v sz z b(1) b(3) [unfolded u] op])
        (use step_not [OF _ _ v(2)] False in simp)
  qed
qed


text \<open>A conversion that does not widen reads the low bytes of its operand.\<close>

lemma opnd_low:
  assumes o': "opnd C M f cf b0 b1 b h (CeOperandKind_FrameOfs p t) t x s" and t: "scalar t = Some m" "scalar u = Some n"
    and le: "int_bytes n \<le> int_bytes m" and z: "val_ok u (wrap_u (int_bytes n) x)"
  shows "opnd C M f cf b0 b1 b h (CeOperandKind_FrameOfs p u) u (wrap_u (int_bytes n) x) s"
proof -
  have "offs p u \<subseteq> offs p t" using le by (auto simp: offs_def t)
  moreover have "ce_bytes s (x_frame s + p) (int_bytes n) = le_bytes (int_bytes n) x"
    using o' by (intro holds_low [OF _ t(1) le]) (auto simp: opnd_def)
  then have "holds s p u (wrap_u (int_bytes n) x)" using z by (simp add: holds_def t(2) le_bytes_inj wrap_simps)
  moreover have "slot_of cf (frame_top C M f) p u" using o' le by (auto simp: opnd_def slot_of_def t slot_ok_def)
  ultimately show ?thesis using o' by (auto simp: opnd_def)
qed

lemma outcome_cast:
  assumes S: "starts C M f cf e F k j i b0 r1 b1 a s (BeNumericCastInst v u vs ts)"
    and res: "ir_inst C M True f i (BeNumericCastInst v u vs ts) a = Some res"
  shows "outcome C M f cf e F s res"
proof -
  note st = startsD [OF S]
  from st(7) obtain x' bA where b: "GetOperand C v False False b0 = Some (x', bA)" "EmitNumericCast C x' u vs ts bA = Some (r1, b1)"
    by (auto simp: build_inst_def bind_eq_Some_conv)
  from res obtain t x h m n where v: "ir_get a v = Some (t, x, h)" "scalar t = Some m" "scalar u = Some n"
    and z: "ir_set i u (ir_cast (int_bytes m) (int_bytes n) (vs \<and> ts) x) (if int_bytes n \<le> int_bytes m then h else None) a = Some res"
    by (auto simp: bind_eq_Some_conv)
  have sz: "val_sized C v" "sized (ci_context C) u" using st(5) by simp_all
  note gA = get_grows [OF b(1) starts_sized [OF S] sz(1)]
  have g: "grows bA b1" using gA emits_opD [OF emits_EmitNumericCast b(2)] sz(2) by simp
  from operand_sim [OF st(1) b(1) g v(1)] obtain s1 where
    1: "inside C M f cf e F k j i b0 r1 b1 a s bA s1" "opnd C M f cf b0 b1 bA h x' t x s1" by metis
  from opnd_slot [OF 1(2)] obtain p where
    o': "x' = CeOperandKind_FrameOfs p t" "holds s1 p t x" "slot_of cf (frame_top C M f) p t" by metis
  have err: "cb_error b1 = None" using insideD(1) [OF 1(1)] by (simp add: inst_built_def)
  note shape = cast_shape [OF b(2) [unfolded o'(1)] v(2,3) err]
  from ir_set_next [OF z] obtain a' where a': "res = IrNext a'" by blast
  have zv: "val_ok u (ir_cast (int_bytes m) (int_bytes n) (vs \<and> ts) x)" using z by (simp add: ir_set_def split: if_splits)
  show ?thesis
  proof (cases "int_bytes n \<le> int_bytes m")
    case True
    then have r: "r1 = CeOperandKind_FrameOfs p u" "b1 = bA" using shape by simp_all
    have I: "inside C M f cf e F k j i b0 r1 b1 a s b1 s1" using 1(1) r(2) by simp
    have c: "ir_cast (int_bytes m) (int_bytes n) (vs \<and> ts) x = wrap_u (int_bytes n) x" using True by (simp add: ir_cast_def)
    have "opnd C M f cf b0 b1 b1 h r1 u (ir_cast (int_bytes m) (int_bytes n) (vs \<and> ts) x) s1"
      using opnd_low [OF 1(2) [unfolded o'(1)] v(2,3) True] zv r c by simp
    from sim_set [OF I st(2-4) this] z True a' inside_reaches [OF I] show ?thesis by (auto simp: outcome_def)
  next
    case False
    then obtain cop where cop: "conv_op (vs \<and> ts) t u = Some cop" and r1: "r1 = CeOperandKind_FrameOfs (- cb_frame_size b1) u"
      and b1: "b1 = piece (op_bytes (Conv cop) @ le_bytes 4 (- cb_frame_size b1) @ le_bytes 4 p) (int (int_bytes n)) bA"
      using shape by auto
    have "outcome C M f cf e F s (IrNext a')"
      by (rule fill_result [OF 1(1) st(2-4) r1 b1 v(3)])
        (use z a' False step_conv [OF _ insideD(4) [OF 1(1)] v(2,3) cop False _ o'(3,2)] in simp_all)
    then show ?thesis by (simp add: a')
  qed
qed

section \<open>Local variables\<close>

lemma kept_var:
  assumes "live C M f cf F i a s" "ir_vars a p = Some (t, xo)"
  obtains o' where "scalar t \<noteq> None" "p \<noteq> i" "final_ops C M f (BeInst p) = Some (CeOperandKind_AllocaAddr o' t)"
    "offs o' t \<subseteq> region C M f (BeInst p)" "\<And>x. xo = Some x \<Longrightarrow> holds s o' t x"
proof -
  have "p \<noteq> i" using assms by (auto simp: live_def)
  then show thesis using assms that unfolding live_def sim_vars_def by metis
qed

text \<open>The operand that names a variable is its address in the frame.\<close>

lemma variable_operand:
  assumes I: "inside C M f cf e F k j i b0 r1 b1 a sI b s"
    and g: "GetOperand C v True False b = Some (q', b')" "grows b' b1"
    and v: "ir_variable v = Some p" "final_ops C M f (BeInst p) = Some (CeOperandKind_AllocaAddr o' t)"
  shows "q' = CeOperandKind_AllocaAddr o' t \<and> b' = b"
proof -
  note d = insideD [OF I]
  have vp: "v = Some (BeInst p)" using v(1) by (auto simp: ir_variable_def split: option.splits be_value.splits)
  have err: "cb_error b' = None" using grows_error [OF g(2)] d(1) by (simp add: inst_built_def)
  have ops: "cb_operands b \<subseteq>\<^sub>m final_ops C M f" using d(1,14) by (simp add: inst_built_def)
  have "cb_operands b (BeInst p) \<noteq> None"
  proof
    assume "cb_operands b (BeInst p) = None"
    then have "operand_missing C b = (q', b')" using g(1) vp by (auto simp: GetOperand_def)
    with err show False by (simp add: missing_error)
  qed
  then have "cb_operands b (BeInst p) = Some (CeOperandKind_AllocaAddr o' t)" using ops v(2)
    by (auto simp: map_le_def dest!: bspec [OF _ domI])
  then show ?thesis using g(1) vp by (auto simp: GetOperand_def)
qed

lemma ir_load_some:
  "ir_load C i p a = Some res \<Longrightarrow>
   \<exists>t x. ir_vars a p = Some (t, Some x) \<and> ir_set i t x (if ci_refs C i \<le> 1 then Some (BeInst p) else None) a = Some res"
  by (auto simp: ir_load_def split: option.splits prod.splits)

lemma outcome_load:
  assumes S: "starts C M f cf e F k j i b0 r1 b1 a s (BeLoadInst v)"
    and res: "ir_inst C M True f i (BeLoadInst v) a = Some res"
  shows "outcome C M f cf e F s res"
proof -
  note st = startsD [OF S]
  from st(7) obtain q' bA where b: "GetOperand C v True False b0 = Some (q', bA)" "EmitLoad C q' (ci_refs C i) bA = Some (r1, b1)"
    by (auto simp: build_inst_def bind_eq_Some_conv)
  from res obtain p t x where p: "ir_variable v = Some p" "ir_vars a p = Some (t, Some x)"
    and z: "ir_set i t x (if ci_refs C i \<le> 1 then Some (BeInst p) else None) a = Some res"
    by (auto simp: bind_eq_Some_conv dest!: ir_load_some)
  note d = insideD [OF st(1)]
  from kept_var [OF d(2) p(2)] obtain o' w where o': "scalar t = Some w" "p \<noteq> i"
    "final_ops C M f (BeInst p) = Some (CeOperandKind_AllocaAddr o' t)" "offs o' t \<subseteq> region C M f (BeInst p)" "holds s o' t x"
    by (metis option.exhaust)
  have sz: "val_sized C v" using st(5) by simp
  note gA = get_grows [OF b(1) starts_sized [OF S] sz]
  have g: "grows bA b1" using gA emits_opD [OF emits_EmitLoad b(2)] by simp
  from variable_operand [OF st(1) b(1) g p(1) o'(3)] have q': "q' = CeOperandKind_AllocaAddr o' t" "bA = b0" by simp_all
  from ir_set_next [OF z] obtain a' where a': "res = IrNext a'" by blast
  have sl: "slot_of cf (frame_top C M f) o' t" by (rule slot_of_region [OF d(3) o'(4,1)])
  show ?thesis
  proof (cases "ci_refs C i \<le> 1")
    case True
    then have r: "r1 = CeOperandKind_FrameOfs o' t" "b1 = b0" using b(2) q' by (simp_all add: EmitLoad_def)
    have I: "inside C M f cf e F k j i b0 r1 b1 a s b1 s" using st(1) r(2) by simp
    have "opnd C M f cf b0 b1 b1 (Some (BeInst p)) r1 t x s" using o' sl r by (auto simp: opnd_def)
    from sim_set [OF I st(2-4) this] z True a' inside_reaches [OF I] show ?thesis by (auto simp: outcome_def)
  next
    case False
    then obtain b2 where e: "EmitSizedOp C (Mem (CeOp_Move CeSizeClass_8)) (CeOperandKind_FrameOfs o' t) True
        (piece [] (int (int_bytes w)) b0) = Some b2"
      and r: "r1 = CeOperandKind_FrameOfs (- (cb_frame_size b0 + int (int_bytes w))) t"
        "b1 = piece (le_bytes 4 (- (cb_frame_size b0 + int (int_bytes w)))) 0 b2"
      using b(2) q' by (auto simp: EmitLoad_def alloc_piece [OF o'(1)] bind_eq_Some_conv)
    from r(2) move_shape [OF e o'(1)] have
      b1: "b1 = piece (op_bytes (Mem (CeOp_Move (int_size w))) @ le_bytes 4 o' @ le_bytes 4 (- (cb_frame_size b0 + int (int_bytes w))))
        (int (int_bytes w)) b0" by simp
    have fs: "cb_frame_size b0 + int (int_bytes w) = cb_frame_size b1" using piece_frame [OF b1] by simp
    have "outcome C M f cf e F s (IrNext a')"
      by (rule fill_result [OF st(1-4) r(1) [unfolded fs] b1 [unfolded fs] o'(1)])
        (use z a' False step_move [OF _ insideD(4) [OF st(1)] o'(1) _ sl o'(5)] in \<open>simp_all add: slot_of_def o'(1)\<close>)
    then show ?thesis by (simp add: a')
  qed
qed


text \<open>A store changes one variable, and the values that were still read from it are given up.\<close>

lemma sim_store:
  assumes I: "inside C M f cf e F k j i b0 r1 b1 a sI b s" and ok: "code_ok C M f cf" and p: "ir_block a = k" "ir_pos a = j"
    and v: "ir_vars a p' = Some (t, xo)" "final_ops C M f (BeInst p') = Some (CeOperandKind_AllocaAddr o' t)"
      "offs o' t \<subseteq> region C M f (BeInst p')" "scalar t = Some w" "val_ok t x"
    and st: "ce_step e s = Some (CeNext s')" "s' = adv (ce_put s (x_frame s + o') (le_bytes (int_bytes w) x)) n"
    and q: "x_inst s' = GetCodePos b1"
  shows "reaches e cf (frame_top C M f) sI s' \<and>
    sim C M f cf F ((ir_kill True (BeInst p') a)\<lparr>ir_vars := (ir_vars a)(p' \<mapsto> (t, Some x)), ir_pos := Suc j\<rparr>) s'"
proof -
  note d = insideD [OF I]
  have of: "offs o' t = {o' ..< o' + int (int_bytes w)}" by (simp add: offs_def v(4))
  have t: "touches s o' (o' + int (int_bytes w)) s'" unfolding st(2) by (rule touches_put) simp_all
  have sl: "- mFrameSize cf \<le> o'" "o' + int (int_bytes w) \<le> frame_top C M f"
    using slot_ofD [OF slot_of_region [OF d(3) v(3,4)] v(4)] by (simp_all add: slot_ok_def)
  have "touches sI (- mFrameSize cf) (frame_top C M f) s" using I by (simp add: inside_def)
  then have "touches sI (- mFrameSize cf) (frame_top C M f) s'" by (rule touches_trans [OF _ t]) (use sl in auto)
  moreover have "ce_steps e sI s'" using I ce_steps_one [OF st(1)] by (auto simp: inside_def intro: ce_steps_trans)
  ultimately have r: "reaches e cf (frame_top C M f) sI s'" by (simp add: reaches_def)
  have keep: "holds s' o2 u y = holds s o2 u y" if "offs o2 u \<subseteq> region C M f h" "h \<noteq> BeInst p'" for o2 u y h
    using that v(3) region_disjoint [OF d(3) that(2)] unfolding of by (intro holds_kept [OF t]) blast
  let ?a = "(ir_kill True (BeInst p') a)\<lparr>ir_vars := (ir_vars a)(p' \<mapsto> (t, Some x)), ir_pos := Suc j\<rparr>"
  have "sim_vals C M f ?a s'" unfolding sim_vals_def
  proof (intro allI impI)
    fix v' u y h assume "ir_vals ?a v' = Some (u, y, h)"
    then have h: "ir_vals a v' = Some (u, y, h)" "h \<noteq> BeInst p'" by (auto simp: ir_kill_def split: option.splits if_splits)
    from kept_val [OF d(2) h(1)] keep [OF _ h(2)] show
      "\<exists>o'. final_ops C M f v' = Some (CeOperandKind_FrameOfs o' u) \<and> holds s' o' u y \<and> offs o' u \<subseteq> region C M f h" by metis
  qed
  moreover have "sim_vars C M f ?a s'" unfolding sim_vars_def
  proof (intro allI impI)
    fix p2 u xo' assume u: "ir_vars ?a p2 = Some (u, xo')"
    show "scalar u \<noteq> None \<and> is_variable f p2 \<and>
        (\<exists>o'. final_ops C M f (BeInst p2) = Some (CeOperandKind_AllocaAddr o' u) \<and> offs o' u \<subseteq> region C M f (BeInst p2) \<and>
              (\<forall>y. xo' = Some y \<longrightarrow> holds s' o' u y))"
    proof (cases "p2 = p'")
      case True
      have "holds s' o' t x" unfolding st(2) by (rule holds_put [OF v(5,4)])
      moreover have "is_variable f p'" using d(2) v(1) unfolding live_def sim_vars_def by blast
      ultimately show ?thesis using u True v(2-4) by auto
    next
      case False
      then have u': "ir_vars a p2 = Some (u, xo')" using u by simp
      then have iv: "is_variable f p2" using d(2) unfolding live_def sim_vars_def by blast
      from kept_var [OF d(2) u'] obtain o2 where o2: "scalar u \<noteq> None" "final_ops C M f (BeInst p2) = Some (CeOperandKind_AllocaAddr o2 u)"
        "offs o2 u \<subseteq> region C M f (BeInst p2)" "\<And>x. xo' = Some x \<Longrightarrow> holds s o2 u x" by metis
      have "BeInst p2 \<noteq> BeInst p'" using False by simp
      from keep [OF o2(3) this] o2 iv show ?thesis by simp
    qed
  qed
  moreover obtain h where "bld C M f k (Suc j) = Some (h, with_result i r1 b1)" "pos_in f k j" using d(1) by (auto simp: inst_built_def)
  moreover have "frame_ok cf F (frame_top C M f) s'" using d(4) by (simp add: touches_frame_ok [OF t])
  ultimately show ?thesis using r ok p q by (auto simp: sim_def pos_in_def ir_kill_def)
qed


lemma outcome_store:
  assumes S: "starts C M f cf e F k j i b0 r1 b1 a s (BeStoreInst v pv)"
    and res: "ir_inst C M True f i (BeStoreInst v pv) a = Some res"
  shows "outcome C M f cf e F s res"
proof -
  note st = startsD [OF S]
  from res obtain p' t x h xo where p': "ir_variable pv = Some p'" "ir_get a v = Some (t, x, h)" "ir_vars a p' = Some (t, xo)"
    and r: "res = IrNext ((ir_kill True (BeInst p') a)\<lparr>ir_vars := (ir_vars a)(p' \<mapsto> (t, Some x)), ir_pos := Suc j\<rparr>)"
    using st(4) by (auto simp: bind_eq_Some_conv ir_store_def ir_next_def ir_kill_def Let_def split: if_splits)
  note d = insideD [OF st(1)]
  from kept_var [OF d(2) p'(3)] obtain o' w where o': "scalar t = Some w" "p' \<noteq> i"
    "final_ops C M f (BeInst p') = Some (CeOperandKind_AllocaAddr o' t)" "offs o' t \<subseteq> region C M f (BeInst p')"
    by (metis option.exhaust)
  from st(7) obtain x' bA q' bB where b: "GetOperand C v False False b0 = Some (x', bA)" "GetOperand C pv True False bA = Some (q', bB)"
    and c: "no_result (case q' of
       CeOperandKind_AllocaAddr o' t \<Rightarrow>
         do { b3 \<leftarrow> EmitSizedOp C (Mem (CeOp_Move CeSizeClass_8)) x' True bB; Some (emit_i32 o' b3) }
     | _ \<Rightarrow> do { b3 \<leftarrow> EmitSizedOp C (Mem (CeOp_Store CeSizeClass_8)) x' True bB; EmitFrameOffset q' b3 }) = Some (r1, b1)"
    by (auto simp: build_inst_def build_store_def no_result_def bind_eq_Some_conv)
  have sz: "val_sized C v" "val_sized C pv" using st(5) by simp_all
  note gA = get_grows [OF b(1) starts_sized [OF S] sz(1)]
  note gB = get_grows [OF b(2) _ sz(2)]
  have gB1: "grows bB b1" using c
    by (auto simp: no_result_def bind_eq_Some_conv split: ce_operand.splits dest!: grows_EmitSizedOp grows_EmitFrameOffset
        intro: grows_trans grows_step(3) grows_piece)
  have g: "grows bA b1" using gA gB gB1 by (auto intro: grows_trans)
  from operand_sim [OF st(1) b(1) g p'(2)] obtain s1 where
    1: "inside C M f cf e F k j i b0 r1 b1 a s bA s1" "opnd C M f cf b0 b1 bA h x' t x s1" by metis
  from opnd_slot [OF 1(2)] obtain q where
    q: "x' = CeOperandKind_FrameOfs q t" "holds s1 q t x" "slot_of cf (frame_top C M f) q t" by metis
  from variable_operand [OF 1(1) b(2) gB1 p'(1) o'(3)] have q': "q' = CeOperandKind_AllocaAddr o' t" "bB = bA" by simp_all
  from c q' q(1) obtain b3 where e: "EmitSizedOp C (Mem (CeOp_Move CeSizeClass_8)) (CeOperandKind_FrameOfs q t) True bA = Some b3"
    "b1 = emit_i32 o' b3" by (auto simp: no_result_def bind_eq_Some_conv)
  let ?seg = "op_bytes (Mem (CeOp_Move (int_size w))) @ le_bytes 4 q @ le_bytes 4 o'"
  from e(2) move_shape [OF e(1) o'(1)] have b1: "b1 = piece ?seg 0 bA" by (simp add: emit_piece)
  have cs: "code_at s1 ?seg" by (rule inside_code [OF 1(1) g grows_refl piece_shape [OF b1]])
  have sl: "slot_ok cf (frame_top C M f) o' (int_bytes w)" by (rule slot_ofD [OF slot_of_region [OF d(3) o'(4,1)] o'(1)])
  note step = step_move [OF cs insideD(4) [OF 1(1)] o'(1) sl q(3,2)]
  have x: "val_ok t x" by (rule holds_val [OF q(2)])
  have "x_inst (adv (ce_put s1 (x_frame s1 + o') (le_bytes (int_bytes w) x)) 10) = GetCodePos b1"
    using insideD(7) [OF 1(1)] b1 by simp
  from sim_store [OF 1(1) st(2-4) p'(3) o'(3,4,1) x step refl this] show ?thesis by (auto simp: outcome_def r)
qed


text \<open>A declaration: the variable has no value, and no code runs.\<close>

lemma outcome_alloca:
  assumes S: "sim C M f cf F a s" and p: "pos_in f (ir_block a) (ir_pos a)"
    and i: "mBlocks f ! ir_block a ! ir_pos a = (i, BeAllocaInst t None)" "scalar t = Some w"
    and a': "a' = (ir_kill True (BeInst i) a)\<lparr>ir_vars := (ir_vars a)(i \<mapsto> (t, None)), ir_pos := Suc (ir_pos a)\<rparr>"
  shows "outcome C M f cf e F s (IrNext a')"
proof -
  have bt: "built C M f cf" and ok: "code_ok C M f cf" using S by (auto simp: sim_def code_ok_def)
  from S obtain h b0 where b0: "bld C M f (ir_block a) (ir_pos a) = Some (h, b0)" "x_inst s = GetCodePos b0"
    by (auto simp: sim_def)
  from inst_setup [OF bt p i(1) b0(1)] obtain r1 b1 where
    r1: "build_inst C (ir_block a) (h \<and> keeps_head (BeAllocaInst t None)) i (BeAllocaInst t None) b0 = Some (r1, b1)"
    "inst_built C M f cf (ir_block a) (ir_pos a) i b0 r1 b1" by metis
  have "is_alloca (mBlocks f ! ir_block a ! ir_pos a)" using i(1) by (simp add: is_alloca_def)
  then have "ir_block a = 0" "\<forall>j' < ir_pos a. keeps_head (snd (mBlocks f ! 0 ! j'))"
    using alloca_head [OF _ p] ok by (auto simp: code_ok_def)
  then have h using b0(1) head_flag by metis
  then have b1: "r1 = CeOperandKind_AllocaAddr (- cb_frame_size b1) t" "b1 = piece [] (int (int_bytes w)) b0"
    using r1(1) by (auto simp: build_inst_def build_alloca_def keeps_head_def Let_def scalar_size [OF i(2)] piece_def)
  have fin: "final_ops C M f (BeInst i) = Some (CeOperandKind_AllocaAddr (- cb_frame_size b1) t)"
    using r1(2) b1(1) by (simp add: inst_built_def)
  have reg: "offs (- cb_frame_size b1) t \<subseteq> region C M f (BeInst i)"
    using r1(2) piece_frame [OF b1(2)] by (simp add: inst_built_def offs_def i(2))
  have iv: "is_variable f i" using p i(1) by (auto simp: is_variable_def)
  have vals: "sim_vals C M f a' s" using S by (auto simp: sim_def sim_vals_def a' ir_kill_def split: option.splits if_splits)
  have vars: "sim_vars C M f a' s" unfolding sim_vars_def
  proof (intro allI impI)
    fix q u xo assume u: "ir_vars a' q = Some (u, xo)"
    show "scalar u \<noteq> None \<and> is_variable f q \<and>
        (\<exists>o'. final_ops C M f (BeInst q) = Some (CeOperandKind_AllocaAddr o' u) \<and> offs o' u \<subseteq> region C M f (BeInst q) \<and>
              (\<forall>y. xo = Some y \<longrightarrow> holds s o' u y))"
    proof (cases "q = i")
      case True
      with u fin reg iv i(2) show ?thesis by (auto simp: a')
    next
      case False
      with u have "ir_vars a q = Some (u, xo)" by (simp add: a')
      with S show ?thesis unfolding sim_def sim_vars_def by blast
    qed
  qed
  obtain h' where "bld C M f (ir_block a) (Suc (ir_pos a)) = Some (h', with_result i r1 b1)"
    using r1(2) by (auto simp: inst_built_def)
  then have "sim C M f cf F a' s" using S ok p b0(2) vals vars b1(2)
    by (auto simp: sim_def a' pos_in_def ir_kill_def)
  moreover have "reaches e cf (frame_top C M f) s s" by (simp add: reaches_def)
  ultimately show ?thesis by (auto simp: outcome_def)
qed

section \<open>Branches\<close>

lemma target_bounds:
  assumes bt: "built C M f cf" and k: "k < length (mBlocks f)"
  shows "0 \<le> target C M f k" "target C M f k \<le> int (length (mCode cf))" "\<exists>h b. bld C M f k 0 = Some (h, b) \<and> GetCodePos b = target C M f k"
proof -
  from bld_all [OF bt] obtain hL bL where L: "bld C M f (length (mBlocks f) - 1) (length (last (mBlocks f))) = Some (hL, bL)"
    "patch_jumps (cb_blocks bL) (cb_jumps bL) (cb_code bL) = Some (mCode cf)"
    "\<And>k j. k < length (mBlocks f) \<Longrightarrow> j \<le> length (mBlocks f ! k) \<Longrightarrow> \<exists>hb. bld C M f k j = Some hb" by metis
  have ok: "fn_ok C f" and ne: "mBlocks f \<noteq> []" using bt by (auto simp: built_def fn_ok_def)
  have ml: "length (mBlocks f) - 1 < length (mBlocks f)" using ne by simp
  note lp = last_pos [OF ne]
  obtain h b where b: "bld C M f k 0 = Some (h, b)" using L(3) [OF k] by fastforce
  have "k < length (mBlocks f) - 1 \<or> k = length (mBlocks f) - 1" using k by linarith
  then have "extends_b b bL" using bld_later [OF ok ml _ L(1) b] lp by auto
  then have "GetCodePos b \<le> GetCodePos bL" by (auto simp: extends_b_def GetCodePos_def)
  moreover have "gaps 0 (cb_jumps bL) (GetCodePos bL)" using bld_from_start(1) [OF ok ml _ L(1)] lp by simp
  then have "length (mCode cf) = length (cb_code bL)" using patch_jumps_spec [OF L(2), of 0] by (simp add: GetCodePos_def)
  ultimately show "0 \<le> target C M f k" "target C M f k \<le> int (length (mCode cf))"
    "\<exists>h b. bld C M f k 0 = Some (h, b) \<and> GetCodePos b = target C M f k"
    by (auto simp: target_def b GetCodePos_def)
qed

text \<open>The code of \<open>EmitJump\<close>, with the offset filled in.\<close>

lemma jump_code:
  assumes I: "inside C M f cf e F k j i b0 r1 b1 a sI b s" and g: "grows (EmitJump op t b) b1" and ok: "code_ok C M f cf"
  shows "t < length (mBlocks f)" "code_at s (op_bytes (Ctl op) @ le_bytes 4 (target C M f t - GetCodePos b - 6))"
    "in_s 4 (target C M f t - GetCodePos b - 6)"
proof -
  note d = insideD [OF I]
  let ?b = "emit_op (ctl_code op) b"
  have p: "GetCodePos ?b = GetCodePos b + 2" by (simp add: emit_piece)
  have "(GetCodePos ?b, t) \<in> set (cb_jumps (EmitJump op t b))" by (simp add: EmitJump_def Let_def emit_i32_def emit_def)
  then have "(GetCodePos ?b, t) \<in> set (cb_jumps b1)" using g by (auto simp: grows_def)
  with d(1) have t: "t < length (mBlocks f)" and pl: "placed (mCode cf) (GetCodePos b + 2) (le_bytes 4 (target C M f t - GetCodePos b - 6))"
    by (auto simp: inst_built_def p algebra_simps)
  have gb: "grows ?b b1"
  proof (rule grows_trans [OF _ g])
    show "grows ?b (EmitJump op t b)" unfolding EmitJump_def Let_def
      by (auto simp: grows_def emit_i32_def emit_def GetCodePos_def emit_op_def)
  qed
  have "code_at s (op_bytes (Ctl op))"
    by (rule inside_code [OF I _ gb]) (simp_all add: emit_piece grows_piece)
  with pl show "code_at s (op_bytes (Ctl op) @ le_bytes 4 (target C M f t - GetCodePos b - 6))"
    using d(7,9) by (simp add: placed_append)
  show "t < length (mBlocks f)" by (rule t)
  have "GetCodePos b + 6 \<le> int (length (mCode cf))" "0 \<le> GetCodePos b"
    using pl slice_len by (fastforce simp: placed_def, simp add: GetCodePos_def)
  then show "in_s 4 (target C M f t - GetCodePos b - 6)"
    using target_bounds(1,2) [OF d(3) t] ok by (simp add: in_s_def code_ok_def)
qed

lemma sim_goto:
  assumes I: "inside C M f cf e F k j i b0 r1 b1 a sI b s" and ok: "code_ok C M f cf"
    and t: "t < length (mBlocks f)" and st: "ce_steps e s (adv s n)" "x_inst (adv s n) = target C M f t"
  shows "outcome C M f cf e F sI (IrNext (a\<lparr>ir_block := t, ir_pos := 0\<rparr>))"
proof -
  note d = insideD [OF I]
  have tc: "touches s 0 0 (adv s n)" by simp
  have l: "live C M f cf F i a (adv s n)" by (rule live_touches [OF d(2) tc]) simp
  have "touches sI (- mFrameSize cf) (frame_top C M f) s" using I by (simp add: inside_def)
  then have "touches sI (- mFrameSize cf) (frame_top C M f) (adv s n)"
    by (rule touches_trans [OF _ tc]) (use frame_top_nonneg [OF d(3)] d(4) in \<open>auto simp: frame_ok_def\<close>)
  moreover have "ce_steps e sI (adv s n)" using I st(1) by (auto simp: inside_def intro: ce_steps_trans)
  moreover have "sim C M f cf F (a\<lparr>ir_block := t, ir_pos := 0\<rparr>) (adv s n)"
    using target_bounds(3) [OF d(3) t] l ok t st(2) by (auto simp: sim_def live_def sim_vals_def sim_vars_def)
  ultimately show ?thesis by (auto simp: outcome_def reaches_def)
qed


lemma inside_placed:
  assumes I: "inside C M f cf e F k j i b0 r1 b1 a sI b s" and g: "grows b c" "grows c c'" "grows c' b1" "cb_jumps c' = cb_jumps c"
    and c: "cb_code c' = cb_code c @ seg"
  shows "placed (mCode cf) (GetCodePos c) seg"
proof -
  have "has_code cf c c'" using insideD(1) [OF I] grows_trans [OF insideD(5) [OF I] g(1)] g unfolding inst_built_def by blast
  then show ?thesis by (simp add: has_code_emit [OF c])
qed

lemma EmitJump_pos [simp]: "GetCodePos (EmitJump op t b) = GetCodePos b + 6"
  by (simp add: EmitJump_def emit_op_def emit_i32_def emit_def GetCodePos_def Let_def)

lemma EmitJump_keeps [simp]:
  "cb_frame_size (EmitJump op t b) = cb_frame_size b" "cb_operands (EmitJump op t b) = cb_operands b"
  "cb_blocks (EmitJump op t b) = cb_blocks b"
  by (simp_all add: EmitJump_def emit_op_def emit_i32_def emit_def Let_def)

text \<open>A conditional jump on the truth value at offset \<open>p\<close>: to the target, or on to the code behind it.\<close>

lemma cond_jump:
  assumes I: "inside C M f cf e F k j i b0 r1 b1 a sI b s" and ok: "code_ok C M f cf"
    and bj: "bj = piece (le_bytes 4 p) 0 (EmitJump CeOp_JmpIf t b)" "grows bj b1"
    and B: "mTypeCode B = BeTypeCode_Boolean" and p: "slot_of cf (frame_top C M f) p B" "holds s p B x"
  shows "x = 1 \<Longrightarrow> outcome C M f cf e F sI (IrNext (a\<lparr>ir_block := t, ir_pos := 0\<rparr>))"
    and "x \<noteq> 1 \<Longrightarrow> inside C M f cf e F k j i b0 r1 b1 a sI bj (adv s 10)"
proof -
  note d = insideD [OF I]
  have gp: "grows (EmitJump CeOp_JmpIf t b) bj" unfolding bj(1) by (rule grows_piece) simp
  have g: "grows (EmitJump CeOp_JmpIf t b) b1" by (rule grows_trans [OF gp bj(2)])
  let ?v = "target C M f t - GetCodePos b - 6"
  note jc = jump_code [OF I g ok]
  have "placed (mCode cf) (GetCodePos b + 6) (le_bytes 4 p)"
    using inside_placed [OF I _ gp bj(2), of "le_bytes 4 p"] bj(1) by simp
  then have "code_at s (op_bytes (Ctl CeOp_JmpIf) @ le_bytes 4 ?v @ le_bytes 4 p)"
    using jc(2) d(7,9) by (simp add: placed_append add.commute [of 6])
  note st = step_jmp_if [OF this jc(3) d(4) B p]
  show "outcome C M f cf e F sI (IrNext (a\<lparr>ir_block := t, ir_pos := 0\<rparr>))" if "x = 1"
    by (rule sim_goto [OF I ok jc(1) ce_steps_one [OF st]]) (use that d(7) in simp)
  show "inside C M f cf e F k j i b0 r1 b1 a sI bj (adv s 10)" if "x \<noteq> 1"
  proof (rule inside_step [OF I])
    show "ce_step e s = Some (CeNext (adv s 10))" using st that by simp
    show "touches s (- cb_frame_size b1) (- cb_frame_size b0) (adv s 10)" by simp
    show "x_inst (adv s 10) = GetCodePos bj" using d(7) bj(1) by simp
    show "grows b bj" using gp by (rule grows_trans [OF grows_EmitJump])
  qed (use bj(2) in auto)
qed

lemma jump_goto:
  assumes I: "inside C M f cf e F k j i b0 r1 b1 a sI b s" and ok: "code_ok C M f cf" and g: "b1 = EmitJump CeOp_Jmp t b"
  shows "outcome C M f cf e F sI (IrNext (a\<lparr>ir_block := t, ir_pos := 0\<rparr>))"
proof -
  have "grows (EmitJump CeOp_Jmp t b) b1" using g by simp
  note jc = jump_code [OF I this ok]
  show ?thesis by (rule sim_goto [OF I ok jc(1) ce_steps_one [OF step_jmp [OF jc(2,3)]]]) (simp add: insideD(7) [OF I])
qed

lemma inside_no_phis:
  assumes I: "inside C M f cf e F k j i b0 r1 b1 a sI b s"
  shows "no_phis b"
proof -
  have "no_phis b0" using insideD(1) [OF I] by (simp add: inst_built_def)
  then show ?thesis using no_phis_grows [OF insideD(5) [OF I]] by simp
qed

lemma start_block_pos: "0 < k \<Longrightarrow> GetCodePos (start_block C ps k b) = GetCodePos b"
  by (simp add: start_block_def GetCodePos_def Let_def)

lemma outcome_br:
  assumes S: "starts C M f cf e F k j i b0 r1 b1 a s (BeBrInst t)"
    and res: "ir_inst C M True f i (BeBrInst t) a = Some res"
  shows "outcome C M f cf e F s res"
proof -
  note st = startsD [OF S]
  note d = insideD [OF st(1)]
  from res have t: "t < length (mBlocks f)" and r: "res = IrNext (a\<lparr>ir_block := t, ir_pos := 0\<rparr>)"
    by (auto simp: ir_goto_def split: if_splits)
  from st(7) have b1: "b1 = (if t = k + 1 then b0 else EmitJump CeOp_Jmp t b0)"
    by (auto simp: build_inst_def no_result_def build_br_def bind_eq_Some_conv dest!: FlushPhi_none [OF inside_no_phis [OF st(1)]])
  show ?thesis
  proof (cases "t = k + 1")
    case True
    have p: "pos_in f k j" using d(1) by (simp add: inst_built_def)
    have "Suc j = length (mBlocks f ! k)" using st(2,6) by (intro br_last [OF _ p]) (auto simp: code_ok_def is_br_def)
    moreover obtain h where "bld C M f k (Suc j) = Some (h, with_result i r1 b1)" using d(1) by (auto simp: inst_built_def)
    ultimately have "target C M f t = GetCodePos b0" using b1 True by (simp add: target_def start_block_pos)
    then have "outcome C M f cf e F s (IrNext (a\<lparr>ir_block := t, ir_pos := 0\<rparr>))"
      using d(7) by (intro sim_goto [OF st(1,2) t, of 0]) simp_all
    then show ?thesis by (simp add: r)
  next
    case False
    with b1 have "b1 = EmitJump CeOp_Jmp t b0" by simp
    from jump_goto [OF st(1,2) this] show ?thesis by (simp add: r)
  qed
qed

lemma outcome_cond_br:
  assumes S: "starts C M f cf e F k j i b0 r1 b1 a s (BeCondBrInst c t1 t2)"
    and res: "ir_inst C M True f i (BeCondBrInst c t1 t2) a = Some res"
  shows "outcome C M f cf e F s res"
proof -
  note st = startsD [OF S]
  from res obtain B x h where v: "ir_get a c = Some (B, x, h)" "mTypeCode B = BeTypeCode_Boolean"
    and r: "res = IrNext (a\<lparr>ir_block := if x = 1 then t1 else t2, ir_pos := 0\<rparr>)"
    by (auto simp: bind_eq_Some_conv ir_goto_def split: if_splits)
  from st(7) obtain x' bA b2 bj b4 where b: "GetOperand C c True False b0 = Some (x', bA)" "FlushPhi C k t1 bA = Some b2"
    "EmitFrameOffset x' (EmitJump CeOp_JmpIf t1 b2) = Some bj" "FlushPhi C k t2 bj = Some b4" "b1 = EmitJump CeOp_Jmp t2 b4"
    by (auto simp: build_inst_def no_result_def build_cond_br_def bind_eq_Some_conv)
  have sz: "val_sized C c" using st(5) by simp
  note gA = get_grows [OF b(1) starts_sized [OF S] sz]
  have nA: "no_phis bA" using no_phis_grows inside_no_phis [OF st(1)] gA by blast
  have b2: "b2 = bA" by (rule FlushPhi_none [OF nA b(2)])
  have gj: "grows bA bj" using grows_EmitFrameOffset [OF b(3)] b2 by (auto intro: grows_trans [OF grows_EmitJump])
  have "no_phis bj" using no_phis_grows [OF gj] nA by simp
  from FlushPhi_none [OF this b(4)] have b4: "b1 = EmitJump CeOp_Jmp t2 bj" using b(5) by simp
  then have g: "grows bj b1" by simp
  from operand_sim [OF st(1) b(1) grows_trans [OF gj g] v(1)] obtain s1 where
    1: "inside C M f cf e F k j i b0 r1 b1 a s bA s1" "opnd C M f cf b0 b1 bA h x' B x s1" by metis
  from opnd_slot [OF 1(2)] obtain p where
    o': "x' = CeOperandKind_FrameOfs p B" "holds s1 p B x" "slot_of cf (frame_top C M f) p B" by metis
  have bj: "bj = piece (le_bytes 4 p) 0 (EmitJump CeOp_JmpIf t1 bA)" using b(3) o'(1) b2 by simp
  note cj = cond_jump [OF 1(1) st(2) bj g v(2) o'(3,2)]
  show ?thesis
  proof (cases "x = 1")
    case True
    with cj(1) r show ?thesis by simp
  next
    case False
    from jump_goto [OF cj(2) [OF False] st(2) b4] False r show ?thesis by simp
  qed
qed


section \<open>Switches\<close>

text \<open>The order of the cases does not matter, as their values are distinct.\<close>

lemma find_distinct: "distinct (map key xs) \<Longrightarrow> find (\<lambda>c. key c = x) xs = Some c \<longleftrightarrow> c \<in> set xs \<and> key c = x"
  by (induction xs) auto

lemma find_sort:
  assumes "distinct (map key xs)"
  shows "find (\<lambda>c. key c = x) (sort_key g xs) = find (\<lambda>c. key c = x) xs"
proof -
  have d: "distinct (map key (sort_key g xs))" using assms by (simp add: distinct_map)
  have "find (\<lambda>c. key c = x) (sort_key g xs) = Some c \<longleftrightarrow> find (\<lambda>c. key c = x) xs = Some c" for c
    by (simp add: find_distinct [OF d] find_distinct [OF assms])
  then show ?thesis by (metis option.exhaust)
qed

definition case_key :: "nat \<Rightarrow> be_type \<times> u64 \<times> nat \<Rightarrow> int" where
  "case_key n = (\<lambda>(u, w, k). wrap_u n (uint w))"

lemma one_le_bytes: "1 \<le> int_bytes n"
  by (cases n) simp_all

lemma sim_cases:
  assumes "inside C M f cf e F k j i b0 r1 b1 a sI b s" and ok: "code_ok C M f cf"
    and "build_cases C v cs b = Some b'" and jmp: "b1 = EmitJump CeOp_Jmp d b'" and "cb_sized C b"
    and v: "ir_get a v = Some (t, x, h)" "scalar t = Some n" "val_sized C v"
    and "\<forall>c \<in> set cs. fst c = t \<and> val_ok t (case_key (int_bytes n) c) \<and> sized (ci_context C) t"
  shows "outcome C M f cf e F sI (IrNext (a\<lparr>ir_block :=
           (case find (\<lambda>c. case_key (int_bytes n) c = x) cs of None \<Rightarrow> d | Some (u, w, k) \<Rightarrow> k), ir_pos := 0\<rparr>))"
  using assms(1,3,5,9)
proof (induction cs arbitrary: b s)
  case Nil
  then have "b1 = EmitJump CeOp_Jmp d b" using jmp by simp
  from jump_goto [OF Nil(1) ok this] show ?case by simp
next
  case (Cons c cs)
  obtain u ww blk where c: "c = (u, ww, blk)" by (metis prod_cases3)
  have ct: "u = t" "val_ok t (wrap_u (int_bytes n) (uint ww))" "sized (ci_context C) t"
    using Cons.prems(4) c by (auto simp: case_key_def)
  from Cons.prems(2) c ct(1) obtain x' bA y' bB r bC bj where
    b: "GetOperand C v False False b = Some (x', bA)" "GetOperand C (Some (BeConstant t ww)) False False bA = Some (y', bB)"
    and e: "EmitBinaryOp C (fst (cmp_ops BeCmpKind_EQ)) (snd (cmp_ops BeCmpKind_EQ)) x' y' CeOperandKind_None bB = Some (r, bC)"
    and j: "EmitFrameOffset r (EmitJump CeOp_JmpIf blk bC) = Some bj" and rest: "build_cases C v cs bj = Some b'"
    by (auto simp: bind_eq_Some_conv simp del: cmp_ops.simps)
  note gA = get_grows [OF b(1) Cons.prems(3) v(3)]
  have "val_sized C (Some (BeConstant t ww))" using ct(3) by (simp add: val_sized_def)
  note gB = get_grows [OF b(2) _ this]
  have gC: "grows bB bC" using gA gB emits_opD [OF emits_EmitBinaryOp e] by simp
  have gj: "grows bC bj" using grows_EmitFrameOffset [OF j] by (auto intro: grows_trans [OF grows_EmitJump])
  have szj: "cb_sized C bj" using gA gB gC gj cb_sized_grows by blast
  have "emits_b bj (build_cases C v cs bj)" using szj v(3) Cons.prems(4) ct(3)
    by (intro emits_build_cases) (auto split: prod.split)
  then have g1: "grows bj b1" using rest jmp by (auto intro: grows_trans)
  have gCj: "grows bC b1" by (rule grows_trans [OF gj g1])
  have cv: "ir_get a (Some (BeConstant t ww)) = Some (t, wrap_u (int_bytes n) (uint ww), None)"
    using v(2) ct(2) by (simp add: ir_get_def Let_def)
  from two_operands [OF Cons.prems(1) b _ grows_trans [OF gC gCj] v(1) cv] gA gB obtain s1 where
    1: "inside C M f cf e F k j i b0 r1 b1 a sI bB s1" "opnd C M f cf b0 b1 bB h x' t x s1"
      "opnd C M f cf b0 b1 bB None y' t (wrap_u (int_bytes n) (uint ww)) s1" by metis
  from opnd_slot [OF 1(2)] opnd_slot [OF 1(3)] obtain p q where
    o': "x' = CeOperandKind_FrameOfs p t" "y' = CeOperandKind_FrameOfs q t" "holds s1 p t x"
      "holds s1 q t (wrap_u (int_bytes n) (uint ww))"
      "slot_of cf (frame_top C M f) p t" "slot_of cf (frame_top C M f) q t" by metis
  let ?eq = "x = wrap_u (int_bytes n) (uint ww)"
  let ?B = "GetPrimitiveType BeTypeCode_Boolean"
  have B: "scalar ?B = Some I8" "mTypeCode ?B = BeTypeCode_Boolean" by (simp_all add: scalar_def GetPrimitiveType_def)
  let ?seg = "op_bytes (cmp_op BeCmpKind_EQ n) @ le_bytes 4 (- cb_frame_size bC) @ le_bytes 4 p @ le_bytes 4 q"
  from binary_shape [OF e [unfolded o'(1,2)] v(2)] have r: "r = CeOperandKind_FrameOfs (- cb_frame_size bC) t"
    and bC: "bC = piece ?seg (int (int_bytes n)) bB" unfolding cmp_ops_code by auto
  have "ce_step e s1 = Some (CeNext (adv (ce_put s1 (x_frame s1 + - cb_frame_size bC) (le_bytes 1 (if ?eq then 1 else 0))) (int (length ?seg))))"
    if "code_at s1 ?seg" "slot_ok cf (frame_top C M f) (- cb_frame_size bC) (int_bytes n)"
    using step_cmp_op [OF that(1) insideD(4) [OF 1(1)] v(2) slot_low [OF that(2) one_le_bytes] o'(5,6,3,4)] by simp
  from inside_fill [OF 1(1) bC gCj this one_le_bytes] obtain s2 where
    s2: "s2 = adv (ce_put s1 (x_frame s1 + - cb_frame_size bC) (le_bytes (int_bytes I8) (if ?eq then 1 else 0))) (int (length ?seg))"
    and I2: "inside C M f cf e F k j i b0 r1 b1 a sI bC s2" by (auto simp del: le_bytes.simps One_nat_def)
  have "val_ok ?B (if ?eq then 1 else 0)" by (simp add: val_ok_def B in_u_def)
  then have hold: "holds s2 (- cb_frame_size bC) ?B (if ?eq then 1 else 0)" unfolding s2 by (rule holds_put [OF _ B(1)])
  have "slot_ok cf (frame_top C M f) (- cb_frame_size bC) 1"
    using insideD(11,12,15,16) [OF I2] insideD(11) [OF 1(1)] piece_frame [OF bC] int_bytes_pos(1) [of n]
    by (auto simp: slot_ok_def simp del: int_bytes_pos)
  then have sl: "slot_of cf (frame_top C M f) (- cb_frame_size bC) ?B" by (simp add: slot_of_def B)
  have bj: "bj = piece (le_bytes 4 (- cb_frame_size bC)) 0 (EmitJump CeOp_JmpIf blk bC)" using j r by simp
  note cj = cond_jump [OF I2 ok bj g1 B(2) sl hold]
  show ?case
  proof (cases ?eq)
    case True
    with cj(1) show ?thesis by (simp add: c case_key_def)
  next
    case False
    have "inside C M f cf e F k j i b0 r1 b1 a sI bj (adv s2 10)" using cj(2) False by simp
    from Cons.IH [OF this rest szj] Cons.prems(4) False show ?thesis by (auto simp: c case_key_def)
  qed
qed


lemma outcome_switch:
  assumes S: "starts C M f cf e F k j i b0 r1 b1 a s (BeSwitchInst v d cs)"
    and res: "ir_inst C M True f i (BeSwitchInst v d cs) a = Some res"
  shows "outcome C M f cf e F s res"
proof -
  note st = startsD [OF S]
  from res obtain t x h g where v: "ir_get a v = Some (t, x, h)" "ir_case t x d cs = Some g"
    and r: "res = IrNext (a\<lparr>ir_block := g, ir_pos := 0\<rparr>)" by (auto simp: bind_eq_Some_conv ir_goto_def split: if_splits)
  from v(2) obtain n where n: "scalar t = Some n" by (auto simp: ir_case_def split: option.splits)
  have key: "(\<lambda>(u, w, k). wrap_u (int_bytes n) (uint w)) = case_key (int_bytes n)" by (simp add: case_key_def)
  from v(2) have cs: "\<forall>c \<in> set cs. fst c = t \<and> val_ok t (case_key (int_bytes n) c)" "distinct (map (case_key (int_bytes n)) cs)"
    and g: "g = (case find (\<lambda>c. case_key (int_bytes n) c = x) cs of None \<Rightarrow> d | Some (u, w, k) \<Rightarrow> k)"
    by (auto simp: ir_case_def n Let_def key list_all_iff split: if_splits option.splits)
  from st(7) obtain b' where b: "build_cases C v (sort_key (\<lambda>(t, w, blk). sint w) cs) b0 = Some b'" "b1 = EmitJump CeOp_Jmp d b'"
    by (auto simp: build_inst_def no_result_def build_switch_def bind_eq_Some_conv)
  have sz: "val_sized C v" "\<forall>(t, w, k) \<in> set cs. sized (ci_context C) t" using st(5) by simp_all
  have "outcome C M f cf e F s (IrNext (a\<lparr>ir_block :=
       (case find (\<lambda>c. case_key (int_bytes n) c = x) (sort_key (\<lambda>(t, w, blk). sint w) cs) of None \<Rightarrow> d | Some (u, w, k) \<Rightarrow> k),
       ir_pos := 0\<rparr>))"
    by (rule sim_cases [OF st(1,2) b starts_sized [OF S] v(1) n sz(1)]) (use cs(1) sz(2) in \<open>fastforce split: prod.splits\<close>)
  then show ?thesis unfolding find_sort [OF cs(2)] r g .
qed

section \<open>Returning\<close>

lemma ret_size_fits:
  assumes bt: "built C M f cf" and p: "pos_in f k j" "mBlocks f ! k ! j = (i, BeRetInst v)" and t: "value_type M v = Some t"
  shows "type_size C t \<le> frame_top C M f"
proof -
  have ok: "fn_ok C f" using bt by (simp add: built_def)
  from bt obtain b where b: "pre_blocks C M 0 (mBlocks f) (cb_init (length (mBlocks f))) = Some b"
    by (auto simp: built_def CeBuild_def bind_eq_Some_conv)
  have "(i, BeRetInst v) \<in> set (concat (mBlocks f))" using inst_in [of k f j] p by (simp add: pos_in_def)
  from start_first(3) [OF ok b this] have "type_size C t \<le> ret_size C M f" using t
    by (cases v) (auto simp: ret_fits_def value_type_def [of M None])
  moreover have "ret_size C M f \<le> frame_top C M f"
    using param_ofs_mono [OF params_sized [OF ok], of 0 "length (mParams f)" "ret_size C M f"]
    by (simp add: frame_top_def param_ofs_def)
  ultimately show ?thesis by simp
qed

lemma outcome_ret:
  assumes S: "starts C M f cf e F k j i b0 r1 b1 a s (BeRetInst v)"
    and res: "ir_inst C M True f i (BeRetInst v) a = Some res"
  shows "outcome C M f cf e F s res"
proof -
  note st = startsD [OF S]
  note d = insideD [OF st(1)]
  from st(7) obtain b' where b: "build_ret_value C v b0 = Some b'" "b1 = emit_op (ce_code (Ctl CeOp_Ret)) b'"
    by (auto simp: build_inst_def no_result_def)
  have ret: "placed (mCode cf) (GetCodePos b') (op_bytes (Ctl CeOp_Ret))" if "grows b0 b'"
    by (rule inside_placed [OF st(1) that, of b1]) (simp_all add: b(2) emit_piece grows_piece)
  show ?thesis
  proof (cases v)
    case None
    then have "b' = b0" "res = IrDone None" using b(1) res by (simp_all add: build_ret_value_def)
    moreover have "reaches e cf (frame_top C M f) s s" by (simp add: reaches_def)
    ultimately show ?thesis using ret d(7,9) by (auto simp: outcome_def)
  next
    case (Some v')
    with res obtain t x h where t: "ir_get a v = Some (t, x, h)" "value_type M v = Some t" and r: "res = IrDone (Some (t, x))"
      by (auto simp: bind_eq_Some_conv split: if_splits)
    from b(1) Some obtain x' bA u where bA: "GetOperand C v False False b0 = Some (x', bA)" "op_type x' = Some u"
      and c: "(if type_size C u > 0 then (case cb_return bA of None \<Rightarrow> None
         | Some o' \<Rightarrow> do { b2 \<leftarrow> EmitSizedOp C (Mem (CeOp_Move CeSizeClass_8)) x' True bA; Some (emit_i32 o' b2) }) else Some bA) = Some b'"
      by (auto simp: build_ret_value_def bind_eq_Some_conv)
    have sz: "val_sized C v" using st(5) by simp
    note gA = get_grows [OF bA(1) starts_sized [OF S] sz]
    have gb': "grows bA b'" using c by (auto simp: bind_eq_Some_conv dest!: grows_EmitSizedOp split: if_splits option.splits
        intro: grows_trans grows_step(3))
    have g: "grows bA b1" using gb' unfolding b(2) by (rule grows_step(2))
    from operand_sim [OF st(1) bA(1) g t(1)] obtain s1 where
      1: "inside C M f cf e F k j i b0 r1 b1 a s bA s1" "opnd C M f cf b0 b1 bA h x' t x s1" by metis
    from opnd_slot [OF 1(2)] obtain p where
      o': "x' = CeOperandKind_FrameOfs p t" "holds s1 p t x" "slot_of cf (frame_top C M f) p t" by metis
    from holds_scalar [OF o'(2)] obtain w where w: "scalar t = Some w" by blast
    have fits: "int (int_bytes w) \<le> frame_top C M f"
      using ret_size_fits [OF d(3) _ st(6) t(2)] d(1) by (simp add: inst_built_def scalar_size [OF w])
    have ut: "u = t" using bA(2) o'(1) by simp
    have "cb_return bA = (if ret_size C M f > 0 then Some 0 else None)" using d(1) gA by (simp add: inst_built_def grows_def)
    with c ut o'(1) obtain b2 where e: "EmitSizedOp C (Mem (CeOp_Move CeSizeClass_8)) (CeOperandKind_FrameOfs p t) True bA = Some b2"
      "b' = emit_i32 0 b2" by (auto simp: scalar_size [OF w] bind_eq_Some_conv split: if_splits)
    let ?seg = "op_bytes (Mem (CeOp_Move (int_size w))) @ le_bytes 4 p @ le_bytes 4 0"
    from e(2) move_shape [OF e(1) w] have b': "b' = piece ?seg 0 bA" by (simp add: emit_piece)
    have gb1: "grows b' b1" unfolding b(2) by simp
    have cs: "code_at s1 ?seg" by (rule inside_code [OF 1(1) gb' gb1 piece_shape [OF b']])
    have sl: "slot_ok cf (frame_top C M f) 0 (int_bytes w)" using fits d(4) by (simp add: slot_ok_def frame_ok_def)
    let ?s = "adv (ce_put s1 (x_frame s1 + 0) (le_bytes (int_bytes w) x)) 10"
    note step = step_move [OF cs insideD(4) [OF 1(1)] w sl o'(3,2)]
    have t2: "touches s1 0 (int (int_bytes w)) ?s" by (rule touches_put) simp_all
    have "touches s (- mFrameSize cf) (frame_top C M f) s1" using 1(1) by (simp add: inside_def)
    then have "touches s (- mFrameSize cf) (frame_top C M f) ?s"
      by (rule touches_trans [OF _ t2]) (use fits d(4) in \<open>auto simp: frame_ok_def\<close>)
    moreover have "ce_steps e s ?s" using 1(1) ce_steps_one [OF step] by (auto simp: inside_def intro: ce_steps_trans)
    moreover have "holds ?s 0 t x" by (rule holds_put [OF holds_val [OF o'(2)] w])
    moreover have "code_at ?s (op_bytes (Ctl CeOp_Ret))"
      using ret [OF grows_trans [OF _ gb']] gA insideD(7,9) [OF 1(1)] b' by (simp add: add.assoc)
    ultimately show ?thesis by (auto simp: outcome_def r reaches_def)
  qed
qed

lemma outcome_nop:
  assumes S: "starts C M f cf e F k j i b0 r1 b1 a s BeNopInst"
    and res: "ir_inst C M True f i BeNopInst a = Some res"
  shows "outcome C M f cf e F s res"
proof -
  note st = startsD [OF S]
  from st(7) have "b1 = b0" by (auto simp: build_inst_def)
  then have I: "inside C M f cf e F k j i b0 r1 b1 a s b1 s" using st(1) by simp
  from sim_next [OF I st(2-4)] inside_reaches [OF I] res st(4) show ?thesis by (auto simp: outcome_def ir_next_def)
qed

end
