(* ===== verification/Ce_Builder_Spec.thy ===== *)
theory Ce_Builder_Spec
  imports Ce_Builder_Step
begin

text \<open>
  \<open>CeBuilder\<close> preserves the meaning of a function: the code it emits, run on the virtual machine,
  simulates the reference semantics of \<^verbatim>\<open>Be_Semantics\<close>.  The interface is that of a forward
  simulation between two transition systems.
\<close>

section \<open>Simulation\<close>

text \<open>
  A forward simulation: every step of the abstract side is matched by a run of the concrete side,
  and so is the end of the run.
\<close>

locale forward_simulation =
  fixes step :: "'a \<Rightarrow> 'a \<Rightarrow> bool" and stop :: "'a \<Rightarrow> 'r \<Rightarrow> bool"
    and run :: "'s \<Rightarrow> 's \<Rightarrow> bool" and finish :: "'s \<Rightarrow> 'r \<Rightarrow> bool" and match :: "'a \<Rightarrow> 's \<Rightarrow> bool"
  assumes run_refl: "run s s" and run_trans: "run s s1 \<Longrightarrow> run s1 s2 \<Longrightarrow> run s s2"
    and step_sim: "match a s \<Longrightarrow> step a a' \<Longrightarrow> \<exists>s'. run s s' \<and> match a' s'"
    and stop_sim: "match a s \<Longrightarrow> stop a r \<Longrightarrow> \<exists>s'. run s s' \<and> finish s' r"
begin

lemma steps_sim: "step\<^sup>*\<^sup>* a a' \<Longrightarrow> match a s \<Longrightarrow> \<exists>s'. run s s' \<and> match a' s'"
proof (induction rule: rtranclp_induct)
  case base
  then show ?case using run_refl by blast
next
  case (step a1 a2)
  then show ?case using step_sim run_trans by blast
qed

lemma result_sim: "step\<^sup>*\<^sup>* a a' \<Longrightarrow> stop a' r \<Longrightarrow> match a s \<Longrightarrow> \<exists>s'. run s s' \<and> finish s' r"
  using steps_sim stop_sim run_trans by blast

end

definition finishes :: "ce_env \<Rightarrow> ce_state \<Rightarrow> ir_result \<Rightarrow> bool" where
  "finishes e s r \<longleftrightarrow>
     (case r of
        IrNext a \<Rightarrow> False
      | IrTrap msg \<Rightarrow> \<exists>s'. ce_step e s = Some (CeFail msg s')
      | IrDone v \<Rightarrow> code_at s (op_bytes (Ctl CeOp_Ret)) \<and> (\<forall>t x. v = Some (t, x) \<longrightarrow> holds s 0 t x))"

lemma outcome_sim:
  assumes S: "sim C M f cf F a s" and r: "ir_step C M True f a = Some res"
  shows "outcome C M f cf e F s res"
proof -
  from r have p: "pos_in f (ir_block a) (ir_pos a)" by (auto simp: ir_step_def pos_in_def split: if_splits)
  obtain i inst where i: "mBlocks f ! ir_block a ! ir_pos a = (i, inst)" by fastforce
  let ?a = "ir_kill True (BeInst i) a"
  from r p i have res: "ir_inst C M True f i inst ?a = Some res" by (auto simp: ir_step_def pos_in_def)
  show ?thesis
  proof (cases "is_alloca (i, inst)")
    case True
    then obtain t n where inst: "inst = BeAllocaInst t n" by (auto simp: is_alloca_def split: be_inst.splits)
    with res obtain w where "n = None" "scalar t = Some w"
      "res = IrNext (?a\<lparr>ir_vars := (ir_vars a)(i \<mapsto> (t, None)), ir_pos := Suc (ir_pos a)\<rparr>)"
      by (auto simp: ir_next_def ir_kill_def split: if_splits)
    then show ?thesis using outcome_alloca [OF S p, of i t w] i inst by simp
  next
    case False
    from sim_start [OF S p i False] obtain b0 r1 b1 where
      st: "starts C M f cf e F (ir_block a) (ir_pos a) i b0 r1 b1 ?a s inst" by metis
    show ?thesis
    proof (cases inst)
      case (BeAllocaInst t n)
      with False show ?thesis by (simp add: is_alloca_def)
    qed (use st res outcome_binary outcome_cmp outcome_neg outcome_not outcome_cast outcome_load outcome_store
           outcome_br outcome_cond_br outcome_switch outcome_ret outcome_nop in \<open>auto; fail\<close>)+
  qed
qed

interpretation ce_sim: forward_simulation
    "\<lambda>a a'. ir_step C M True f a = Some (IrNext a')"
    "\<lambda>a r. ir_step C M True f a = Some r \<and> (\<forall>a'. r \<noteq> IrNext a')"
    "reaches e cf (frame_top C M f)" "finishes e" "sim C M f cf F" for C M f cf e F
proof unfold_locales
  fix s s1 s2
  show "reaches e cf (frame_top C M f) s s" by (simp add: reaches_def)
  show "reaches e cf (frame_top C M f) s s1 \<Longrightarrow> reaches e cf (frame_top C M f) s1 s2 \<Longrightarrow> reaches e cf (frame_top C M f) s s2"
    by (auto simp: reaches_def intro: ce_steps_trans touches_trans)
next
  fix a s a' assume "sim C M f cf F a s" "ir_step C M True f a = Some (IrNext a')"
  from outcome_sim [OF this] show "\<exists>s'. reaches e cf (frame_top C M f) s s' \<and> sim C M f cf F a' s'" by (simp add: outcome_def)
next
  fix a s r assume "sim C M f cf F a s" "ir_step C M True f a = Some r \<and> (\<forall>a'. r \<noteq> IrNext a')"
  then have "outcome C M f cf e F s r" "\<forall>a'. r \<noteq> IrNext a'" using outcome_sim by auto
  then show "\<exists>s'. reaches e cf (frame_top C M f) s s' \<and> finishes e s' r" by (auto simp: outcome_def finishes_def split: ir_result.splits)
qed

text \<open>A run of the reference semantics, as steps and the end.\<close>

lemma ir_run_steps:
  "ir_run C M strict f n a = Some r \<Longrightarrow> \<forall>a'. r \<noteq> IrNext a' \<Longrightarrow>
   \<exists>a'. (\<lambda>a a'. ir_step C M strict f a = Some (IrNext a'))\<^sup>*\<^sup>* a a' \<and> ir_step C M strict f a' = Some r"
proof (induction n arbitrary: a)
  case (Suc n)
  from Suc.prems(1) obtain r1 where r1: "ir_step C M strict f a = Some r1" by (auto split: option.splits)
  show ?case
  proof (cases r1)
    case (IrNext a1)
    with Suc.prems r1 have "ir_run C M strict f n a1 = Some r" by simp
    from Suc.IH [OF this Suc.prems(2)] r1 IrNext show ?thesis by (meson converse_rtranclp_into_rtranclp)
  qed (use Suc.prems r1 in auto)
qed auto


section \<open>The start of a function\<close>

lemma final_ops_ext:
  assumes bt: "built C M f cf" and k: "k < length (mBlocks f)" "j \<le> length (mBlocks f ! k)" and b: "bld C M f k j = Some (h, b)"
  shows "cb_operands b \<subseteq>\<^sub>m final_ops C M f"
proof -
  from bld_all [OF bt] obtain hL bL where L: "bld C M f (length (mBlocks f) - 1) (length (last (mBlocks f))) = Some (hL, bL)"
    by metis
  have ok: "fn_ok C f" and ne: "mBlocks f \<noteq> []" using bt by (auto simp: built_def fn_ok_def)
  have ml: "length (mBlocks f) - 1 < length (mBlocks f)" using ne by simp
  note lp = last_pos [OF ne]
  have "k < length (mBlocks f) - 1 \<or> k = length (mBlocks f) - 1 \<and> j \<le> length (last (mBlocks f))"
    using k lp by (cases "k = length (mBlocks f) - 1") auto
  then have "extends_b b bL" using bld_later [OF ok ml _ L b k(2)] lp by auto
  moreover have "final_ops C M f = cb_operands bL" by (rule ext) (simp only: final_ops_def L option.case prod.case)
  ultimately show ?thesis by (simp add: extends_b_def)
qed

text \<open>
  The machine at the entry of the function: the frame is at \<open>F\<close>, the arguments lie above the slot
  of the returned value, and there is no caller.
\<close>

definition ce_entry :: "ce_input \<Rightarrow> be_module \<Rightarrow> be_function \<Rightarrow> ce_function \<Rightarrow> int list \<Rightarrow> ce_state \<Rightarrow> bool" where
  "ce_entry C M f cf xs s \<longleftrightarrow>
     x_fn s = cf \<and> x_inst s = 0 \<and> x_calls s = [] \<and> mFrameSize cf \<le> x_frame s \<and> x_mem_size s < 2 ^ 31 \<and>
     x_frame s + frame_top C M f \<le> x_mem_size s \<and>
     list_all (\<lambda>n. holds s (param_ofs C (ret_size C M f) (mParams f) n) (mParams f ! n) (xs ! n)) [0 ..< length (mParams f)]"

lemma sim_init:
  assumes ok: "code_ok C M f cf" and en: "ce_entry C M f cf xs s"
  shows "sim C M f cf (x_frame s) (ir_init f xs) s"
proof -
  have bt: "built C M f cf" using ok by (simp add: code_ok_def)
  then have fok: "fn_ok C f" and ne: "mBlocks f \<noteq> []" by (auto simp: built_def fn_ok_def)
  from bt obtain b where b: "pre_blocks C M 0 (mBlocks f) (cb_init (length (mBlocks f))) = Some b"
    by (auto simp: built_def CeBuild_def bind_eq_Some_conv)
  define b0 where "b0 = start_block C (mParams f) 0 b"
  have bld0: "bld C M f 0 0 = Some (True, b0)" using b by (simp add: b0_def)
  note s0 = start_first(1) [OF fok b, folded b0_def]
  have ops: "param_slots C 0 (ret_size C M f) (mParams f) Map.empty \<subseteq>\<^sub>m final_ops C M f"
    using final_ops_ext [OF bt _ _ bld0] ne s0 by simp
  have pos: "x_inst s = GetCodePos b0" using en s0 by (simp add: ce_entry_def GetCodePos_def)
  have "0 \<le> mFrameSize cf" using region_bounds [OF bt] frame_at_bounds [OF bt, of 0 0] ne by simp
  then have fr: "frame_ok cf (x_frame s) (frame_top C M f) s" using en frame_top_nonneg [OF bt] by (simp add: frame_ok_def ce_entry_def)
  have "sim_vals C M f (ir_init f xs) s" unfolding sim_vals_def
  proof (intro allI impI)
    fix v t x h assume "ir_vals (ir_init f xs) v = Some (t, x, h)"
    then obtain n where n: "v = BeArgument n" "n < length (mParams f)" "t = mParams f ! n" "x = xs ! n" "h = v"
      by (auto simp: ir_init_def split: be_value.splits if_splits)
    have slot: "param_slots C 0 (ret_size C M f) (mParams f) Map.empty v =
        Some (CeOperandKind_FrameOfs (param_ofs C (ret_size C M f) (mParams f) n) t)"
      using n by (simp add: param_slots_eq)
    then have "final_ops C M f v = Some (CeOperandKind_FrameOfs (param_ofs C (ret_size C M f) (mParams f) n) t)"
      using ops by (auto simp: map_le_def dest!: bspec [OF _ domI])
    moreover have hold: "holds s (param_ofs C (ret_size C M f) (mParams f) n) t x"
      using en n by (simp add: ce_entry_def list_all_iff)
    moreover have "offs (param_ofs C (ret_size C M f) (mParams f) n) t \<subseteq> region C M f h"
      using holds_scalar [OF hold] n by (auto simp: offs_def region_def param_ofs_Suc scalar_size)
    ultimately show "\<exists>o'. final_ops C M f v = Some (CeOperandKind_FrameOfs o' t) \<and> holds s o' t x \<and> offs o' t \<subseteq> region C M f h"
      by blast
  qed
  then show ?thesis using ok bld0 pos fr ne by (auto simp: sim_def ir_init_def sim_vars_def)
qed

section \<open>Correctness\<close>

text \<open>The bytes outside the frame of the function, which reaches from its slots to its parameters.\<close>

definition same_outside :: "ce_state \<Rightarrow> int \<Rightarrow> int \<Rightarrow> ce_state \<Rightarrow> bool" where
  "same_outside s lo hi s' \<longleftrightarrow> (\<forall>p. p < lo \<or> hi \<le> p \<longrightarrow> x_mem s' p = x_mem s p)"

lemma ce_steps_end: "ce_steps e s s1 \<Longrightarrow> ce_step e s1 = Some r \<Longrightarrow> \<forall>s2. r \<noteq> CeNext s2 \<Longrightarrow> \<exists>n. ce_run n e s = Some r"
proof -
  assume "ce_steps e s s1" "ce_step e s1 = Some r" "\<forall>s2. r \<noteq> CeNext s2"
  then obtain n where "ce_run n e s = Some (CeNext s1)" "ce_run 1 e s1 = Some r"
    by (auto simp: ce_steps_def split: ce_result.splits)
  then have "ce_run (n + 1) e s = Some r" using ce_run_append by metis
  then show ?thesis by blast
qed

lemma ce_run_result:
  assumes b: "CeBuild C M f = Some cf" "\<not> mFailed cf" "fn_ok C f" "fn_shape f" "int (length (mCode cf)) < 2 ^ 31"
    and en: "ce_entry C M f cf xs s"
    and r: "ir_run C M True f n (ir_init f xs) = Some r" "\<forall>a. r \<noteq> IrNext a"
  shows "\<exists>s1. reaches e cf (frame_top C M f) s s1 \<and> finishes e s1 r"
proof -
  have ok: "code_ok C M f cf" using b by (simp add: code_ok_def built_def)
  from ir_run_steps [OF r] obtain a' where a': "(\<lambda>a a'. ir_step C M True f a = Some (IrNext a'))\<^sup>*\<^sup>* (ir_init f xs) a'"
    "ir_step C M True f a' = Some r" by blast
  from ce_sim.result_sim [OF a'(1) _ sim_init [OF ok en]] a'(2) r(2) show ?thesis by blast
qed

section \<open>An example\<close>

text \<open>
  A loop over two local variables: the sum of the numbers up to the argument, and a hundred divided by it.
\<close>

definition demo_int :: be_type where
  "demo_int = BePrim BeTypeCode_Int32"

definition demo_function :: be_function where
  "demo_function = \<lparr>mBlocks =
     [[(0, BeAllocaInst demo_int None), (1, BeAllocaInst demo_int None),
       (2, BeStoreInst (Some (BeArgument 0)) (Some (BeInst 0))),
       (3, BeStoreInst (Some (BeConstant demo_int 0)) (Some (BeInst 1))),
       (4, BeBrInst 1)],
      [(5, BeLoadInst (Some (BeInst 0))),
       (6, BeCmpInst BeCmpKind_SGT (Some (BeInst 5)) (Some (BeConstant demo_int 0))),
       (7, BeCondBrInst (Some (BeInst 6)) 2 3)],
      [(8, BeLoadInst (Some (BeInst 1))), (9, BeLoadInst (Some (BeInst 0))),
       (10, BeBinaryOpInst BeBinaryOpKind_Add (Some (BeInst 8)) (Some (BeInst 9)) 0),
       (11, BeStoreInst (Some (BeInst 10)) (Some (BeInst 1))),
       (12, BeLoadInst (Some (BeInst 0))),
       (13, BeBinaryOpInst BeBinaryOpKind_Subtract (Some (BeInst 12)) (Some (BeConstant demo_int 1)) 0),
       (14, BeStoreInst (Some (BeInst 13)) (Some (BeInst 0))),
       (15, BeBrInst 1)],
      [(16, BeLoadInst (Some (BeInst 1))),
       (17, BeBinaryOpInst BeBinaryOpKind_SDivide (Some (BeConstant demo_int 100)) (Some (BeInst 16)) 0),
       (18, BeRetInst (Some (BeInst 17)))]],
     mParams = [demo_int]\<rparr>"

definition demo_module :: be_module where
  "demo_module = \<lparr>mInstructions = [], mInsertPos = -1, m_types = [17 \<mapsto> demo_int], m_params = [demo_int]\<rparr>"

definition demo_input :: ce_input where
  "demo_input = \<lparr>ci_context = \<lparr>mPointerSize = 8, c_structs = []\<rparr>, ci_fpu = demo_fpu, ci_refs = (\<lambda>i. 1)\<rparr>"

definition demo_code :: ce_function where
  "demo_code = the (CeBuild demo_input demo_module demo_function)"

lemma demo_built:
  "CeBuild demo_input demo_module demo_function = Some demo_code" "\<not> mFailed demo_code"
  "mFrameSize demo_code = 37" "length (mCode demo_code) = 170"
proof -
  have "case CeBuild demo_input demo_module demo_function of None \<Rightarrow> False
    | Some cf \<Rightarrow> \<not> mFailed cf \<and> mFrameSize cf = 37 \<and> length (mCode cf) = 170"
    by code_simp
  then show "CeBuild demo_input demo_module demo_function = Some demo_code" "\<not> mFailed demo_code"
    "mFrameSize demo_code = 37" "length (mCode demo_code) = 170"
    by (simp_all add: demo_code_def split: option.splits)
qed


text \<open>The argument lies four bytes above the frame, behind the slot of the result.\<close>

definition demo_entry :: "int \<Rightarrow> ce_state" where
  "demo_entry n = \<lparr>x_mem = (\<lambda>p. if p = 104 then word_of_int n else 0), x_mem_size = 4096, x_inst = 0, x_stack = 63, x_frame = 100,
     x_fn = demo_code, x_calls = [], x_heap = ch_init, x_ret_type = 0, x_errs = []\<rparr>"

lemma demo_fn: "fn_ok demo_input demo_function" "fn_shape demo_function"
  by code_simp+

lemma demo_ret_size: "ret_size demo_input demo_module demo_function = 4"
  by code_simp

lemma demo_entered: "ce_entry demo_input demo_module demo_function demo_code [2] (demo_entry 2)"
   "ce_entry demo_input demo_module demo_function demo_code [0] (demo_entry 0)"
proof -
  have f: "mParams demo_function = [demo_int]" "type_size demo_input demo_int = 4" "scalar demo_int = Some I32"
    "mTypeCode demo_int = BeTypeCode_Int32" "le_bytes 4 2 = [2, 0, 0, 0]" "le_bytes 4 0 = [0, 0, 0, 0]"
    "[0 ..< 4 :: nat] = [0, 1, 2, 3]" by code_simp+
  then show "ce_entry demo_input demo_module demo_function demo_code [2] (demo_entry 2)"
    "ce_entry demo_input demo_module demo_function demo_code [0] (demo_entry 0)"
    by (simp_all add: ce_entry_def demo_entry_def demo_built(3) frame_top_def demo_ret_size param_ofs_def
        holds_def val_ok_def in_u_def ce_bytes_def)
qed

lemma demo_runs:
  "ir_run demo_input demo_module True demo_function 40 (ir_init demo_function [2]) = Some (IrDone (Some (demo_int, 33)))"
  "ir_run demo_input demo_module True demo_function 40 (ir_init demo_function [0]) = Some (IrTrap ''Division by zero'')"
proof -
  have "case ir_run demo_input demo_module True demo_function 40 (ir_init demo_function [2]) of
    Some (IrDone v) \<Rightarrow> v = Some (demo_int, 33) | _ \<Rightarrow> False" by code_simp
  then show "ir_run demo_input demo_module True demo_function 40 (ir_init demo_function [2]) = Some (IrDone (Some (demo_int, 33)))"
    by (simp split: option.splits ir_result.splits)
  have "case ir_run demo_input demo_module True demo_function 40 (ir_init demo_function [0]) of
    Some (IrTrap v) \<Rightarrow> v = ''Division by zero'' | _ \<Rightarrow> False" by code_simp
  then show "ir_run demo_input demo_module True demo_function 40 (ir_init demo_function [0]) = Some (IrTrap ''Division by zero'')"
    by (simp split: option.splits ir_result.splits)
qed

section \<open>Properties\<close>

text \<open>
  C1 (Code generation preserves results).  Let \<open>CeBuild\<close> succeed on a function without phi
  instructions, with its local variables declared at its head, and let the function run to a return
  in the reference semantics, on scalars and with every value used before its storage is written
  again.  Then the emitted code, entered with the same arguments, runs on the virtual machine until it is
  done.  The returned value lies at the frame address, and no byte outside the frame has changed.
\<close>

theorem ce_build_correct:
  assumes "CeBuild C M f = Some cf" "\<not> mFailed cf" "fn_ok C f" "fn_shape f" "int (length (mCode cf)) < 2 ^ 31"
    and "ce_entry C M f cf xs s"
    and "ir_run C M True f n (ir_init f xs) = Some (IrDone v)"
  shows "ir_run C M False f n (ir_init f xs) = Some (IrDone v) \<and>
    (\<exists>m s'. ce_run m e s = Some (CeDone s') \<and> (\<forall>t x. v = Some (t, x) \<longrightarrow> holds s' 0 t x) \<and>
       same_outside s (x_frame s - mFrameSize cf) (x_frame s + frame_top C M f) s')"
proof (intro conjI)
  show "ir_run C M False f n (ir_init f xs) = Some (IrDone v)"
    using ir_run_below [OF ir_below_refl assms(7)] by simp
  from ce_run_result [OF assms, where e = e] obtain s1 where s1: "reaches e cf (frame_top C M f) s s1" "finishes e s1 (IrDone v)" by auto
  have cs: "code_at s1 (op_bytes (Ctl CeOp_Ret) @ [])" and h: "\<forall>t x. v = Some (t, x) \<longrightarrow> holds s1 0 t x"
    using s1(2) by (simp_all add: finishes_def)
  have "touches s (- mFrameSize cf) (frame_top C M f) s1" using s1(1) by (simp add: reaches_def)
  then have "x_calls s1 = []" using assms(6) touches_eq(4) by (metis ce_entry_def)
  then have "ce_step e s1 = Some (CeDone (adv s1 2))" using step_at(1) [OF cs, of e] by simp
  then obtain m where "ce_run m e s = Some (CeDone (adv s1 2))" using ce_steps_end [of e s s1] s1(1) by (auto simp: reaches_def)
  moreover have "same_outside s (x_frame s - mFrameSize cf) (x_frame s + frame_top C M f) (adv s1 2)"
    using s1(1) by (auto simp: reaches_def same_outside_def elim!: touchesE)
  moreover have "\<forall>t x. v = Some (t, x) \<longrightarrow> holds (adv s1 2) 0 t x"
    using h holds_kept [OF touches_adv [where lo = 0 and hi = 0]] by simp
  ultimately show "\<exists>m s'. ce_run m e s = Some (CeDone s') \<and> (\<forall>t x. v = Some (t, x) \<longrightarrow> holds s' 0 t x) \<and>
       same_outside s (x_frame s - mFrameSize cf) (x_frame s + frame_top C M f) s'" by blast
qed

lemma ce_build_correct_witness:
  "\<forall>e. \<exists>m s'. ce_run m e (demo_entry 2) = Some (CeDone s') \<and> holds s' 0 demo_int 33"
proof
  fix e
  show "\<exists>m s'. ce_run m e (demo_entry 2) = Some (CeDone s') \<and> holds s' 0 demo_int 33"
    using ce_build_correct [OF demo_built(1,2) demo_fn _ demo_entered(1) demo_runs(1), of e] by (auto simp: demo_built(4))
qed

text \<open>
  C2 (Code generation preserves traps).  Where the reference semantics of such a function traps, a
  division by zero, the emitted code stops on the virtual machine with the same message.
\<close>

theorem ce_build_trap:
  assumes "CeBuild C M f = Some cf" "\<not> mFailed cf" "fn_ok C f" "fn_shape f" "int (length (mCode cf)) < 2 ^ 31"
    and "ce_entry C M f cf xs s"
    and "ir_run C M True f n (ir_init f xs) = Some (IrTrap msg)"
  shows "\<exists>m s'. ce_run m e s = Some (CeFail msg s')"
proof -
  from ce_run_result [OF assms, where e = e] obtain s1 s2 where "ce_steps e s s1" "ce_step e s1 = Some (CeFail msg s2)"
    by (auto simp: reaches_def finishes_def)
  from ce_steps_end [OF this] show ?thesis by blast
qed

lemma ce_build_trap_witness: "\<forall>e. \<exists>m s'. ce_run m e (demo_entry 0) = Some (CeFail ''Division by zero'' s')"
proof
  fix e
  show "\<exists>m s'. ce_run m e (demo_entry 0) = Some (CeFail ''Division by zero'' s')"
    by (rule ce_build_trap [OF demo_built(1,2) demo_fn _ demo_entered(2) demo_runs(2)]) (simp add: demo_built(4))
qed

section \<open>A load that is not copied\<close>

text \<open>
  A variable is stored, loaded, stored again, and the loaded value is returned.  The load has a
  single use, so \<open>EmitLoad\<close> makes no copy and the return reads the variable itself.
\<close>

definition alias_function :: be_function where
  "alias_function = \<lparr>mBlocks =
     [[(0, BeAllocaInst demo_int None), (1, BeStoreInst (Some (BeArgument 0)) (Some (BeInst 0))),
       (17, BeLoadInst (Some (BeInst 0))), (3, BeStoreInst (Some (BeArgument 1)) (Some (BeInst 0))),
       (4, BeRetInst (Some (BeInst 17)))]],
     mParams = [demo_int, demo_int]\<rparr>"

definition alias_code :: ce_function where
  "alias_code = the (CeBuild demo_input demo_module alias_function)"

definition move_i32 :: "int \<Rightarrow> int \<Rightarrow> u8 list" where
  "move_i32 p r = op_bytes (Mem (CeOp_Move CeSizeClass_32)) @ le_bytes 4 p @ le_bytes 4 r"

lemma alias_built:
  "CeBuild demo_input demo_module alias_function = Some alias_code" "mFrameSize alias_code = 4"
  "mCode alias_code = move_i32 4 (-4) @ move_i32 8 (-4) @ move_i32 (-4) 0 @ op_bytes (Ctl CeOp_Ret)"
proof -
  have "case CeBuild demo_input demo_module alias_function of None \<Rightarrow> False
    | Some cf \<Rightarrow> mFrameSize cf = 4 \<and> mCode cf = move_i32 4 (-4) @ move_i32 8 (-4) @ move_i32 (-4) 0 @ op_bytes (Ctl CeOp_Ret)"
    by code_simp
  then show "CeBuild demo_input demo_module alias_function = Some alias_code" "mFrameSize alias_code = 4"
  "mCode alias_code = move_i32 4 (-4) @ move_i32 8 (-4) @ move_i32 (-4) 0 @ op_bytes (Ctl CeOp_Ret)"
    by (simp_all add: alias_code_def split: option.splits)
qed

lemma alias_frame: "ret_size demo_input demo_module alias_function = 4" "mParams alias_function = [demo_int, demo_int]"
  "type_size demo_input demo_int = 4" "scalar demo_int = Some I32"
  by code_simp+

lemma alias_run:
  assumes "val_ok demo_int x" "val_ok demo_int y"
  shows "ir_run demo_input demo_module False alias_function 5 (ir_init alias_function [x, y]) = Some (IrDone (Some (demo_int, x)))"
  using assms
  by (simp add: numeral_nat ir_step_def ir_init_def alias_function_def ir_kill_def ir_next_def ir_store_def ir_load_def ir_variable_def
      ir_get_def ir_set_def alias_frame(4) demo_module_def value_type_def)

text \<open>One move of the machine, at position \<open>k\<close> of the code.\<close>

lemma alias_move:
  assumes f: "frame_ok alias_code F 12 s" and k: "x_inst s = k" "placed (mCode alias_code) k (move_i32 p r)"
    and sl: "- 4 \<le> p" "p \<le> 8" "- 4 \<le> r" "r \<le> 8" and h: "holds s p demo_int x"
  shows "\<exists>s'. ce_step e s = Some (CeNext s') \<and> frame_ok alias_code F 12 s' \<and> x_inst s' = k + 10 \<and> x_calls s' = x_calls s \<and>
    holds s' r demo_int x \<and> (\<forall>q y. q + 4 \<le> r \<or> r + 4 \<le> q \<longrightarrow> holds s q demo_int y \<longrightarrow> holds s' q demo_int y)"
proof -
  let ?s = "adv (ce_put s (x_frame s + r) (le_bytes (int_bytes I32) x)) 10"
  have "x_fn s = alias_code" using f by (simp add: frame_ok_def)
  then have "code_at s (op_bytes (Mem (CeOp_Move (int_size I32))) @ le_bytes 4 p @ le_bytes 4 r)" using k by (simp add: move_i32_def)
  then have "ce_step e s = Some (CeNext ?s)"
    by (rule step_move [OF _ f alias_frame(4) _ _ h]) (use sl alias_built(2) in \<open>simp_all add: slot_ok_def slot_of_def alias_frame(4)\<close>)
  moreover have t: "touches s r (r + 4) ?s" by (rule touches_put) simp_all
  moreover have "holds ?s r demo_int x" by (rule holds_put [OF holds_val [OF h] alias_frame(4)])
  moreover have "holds ?s q demo_int y" if "q + 4 \<le> r \<or> r + 4 \<le> q" "holds s q demo_int y" for q y
    using holds_touches [OF t, of demo_int q] that alias_frame(4) by simp
  ultimately show ?thesis using touches_eq [OF t] touches_frame_ok [OF t] f k(1) by (intro exI [of _ ?s]) simp
qed

definition alias_entry :: ce_state where
  "alias_entry = (demo_entry 7)\<lparr>x_mem := (\<lambda>p. if p = 104 then 7 else if p = 108 then 9 else 0), x_fn := alias_code\<rparr>"

lemma alias_entered: "ce_entry demo_input demo_module alias_function alias_code [7, 9] alias_entry"
proof -
  have "le_bytes 4 7 = [7, 0, 0, 0]" "le_bytes 4 9 = [9, 0, 0, 0]" "mTypeCode demo_int = BeTypeCode_Int32"
    "[0 ..< 4 :: nat] = [0, 1, 2, 3]" "[0 ..< 2 :: nat] = [0, 1]" by code_simp+
  then show ?thesis
    by (simp add: ce_entry_def alias_entry_def demo_entry_def alias_built(2) frame_top_def alias_frame param_ofs_def
        holds_def val_ok_def in_u_def ce_bytes_def numeral_2_eq_2)
qed

text \<open>
  C5 (A load that is used after a store).  Where a value loaded from a local variable has a single
  use, and the variable is written between the load and the use, the emitted code returns what was
  stored last: for all arguments \<open>x\<close> and \<open>y\<close> this function returns \<open>x\<close>, and its code \<open>y\<close>.
\<close>

theorem load_alias_miscompiled:
  assumes "ce_entry demo_input demo_module alias_function alias_code [x, y] s"
  shows "ir_run demo_input demo_module False alias_function 5 (ir_init alias_function [x, y]) = Some (IrDone (Some (demo_int, x))) \<and>
    (\<exists>m s'. ce_run m e s = Some (CeDone s') \<and> holds s' 0 demo_int y)"
proof -
  have top: "frame_top demo_input demo_module alias_function = 12" by (simp add: frame_top_def alias_frame param_ofs_def)
  have h: "holds s 4 demo_int x" "holds s 8 demo_int y" and f: "frame_ok alias_code (x_frame s) 12 s" and i: "x_inst s = 0" "x_calls s = []"
    using assms by (auto simp: ce_entry_def alias_frame param_ofs_def frame_ok_def top alias_built(2) upt_rec)
  have pl: "placed (mCode alias_code) 0 (move_i32 4 (-4))" "placed (mCode alias_code) 10 (move_i32 8 (-4))"
    "placed (mCode alias_code) 20 (move_i32 (-4) 0)" "placed (mCode alias_code) 30 (op_bytes (Ctl CeOp_Ret) @ [])"
    unfolding alias_built(3) by code_simp+
  from alias_move [OF f i(1) pl(1) _ _ _ _ h(1), of e] h(2) obtain s1 where
    1: "ce_step e s = Some (CeNext s1)" "frame_ok alias_code (x_frame s) 12 s1" "x_inst s1 = 10" "x_calls s1 = []" "holds s1 8 demo_int y"
    using i(2) by auto
  from alias_move [OF 1(2,3) pl(2) _ _ _ _ 1(5), of e] obtain s2 where
    2: "ce_step e s1 = Some (CeNext s2)" "frame_ok alias_code (x_frame s) 12 s2" "x_inst s2 = 20" "x_calls s2 = []" "holds s2 (-4) demo_int y"
    using 1(4) by auto
  from alias_move [OF 2(2,3) pl(3) _ _ _ _ 2(5), of e] obtain s3 where
    3: "ce_step e s2 = Some (CeNext s3)" "frame_ok alias_code (x_frame s) 12 s3" "x_inst s3 = 30" "x_calls s3 = []" "holds s3 0 demo_int y"
    using 2(4) by auto
  have "code_at s3 (op_bytes (Ctl CeOp_Ret) @ [])" using pl(4) 3(2,3) by (simp add: frame_ok_def)
  then have "ce_step e s3 = Some (CeDone (adv s3 2))" using step_at(1) [of s3 "Ctl CeOp_Ret" "[]" e] 3(4) by simp
  moreover have "ce_steps e s s3" using 1(1) 2(1) 3(1) by (blast intro: ce_steps_one ce_steps_trans)
  ultimately obtain m where "ce_run m e s = Some (CeDone (adv s3 2))" using ce_steps_end by blast
  moreover have "holds (adv s3 2) 0 demo_int y" using holds_touches [OF touches_adv, of demo_int 0 0 0] 3(5) alias_frame(4) by simp
  ultimately show ?thesis using alias_run [OF holds_val [OF h(1)] holds_val [OF h(2)]] by blast
qed

lemma load_alias_miscompiled_witness:
  "\<forall>e. ir_run demo_input demo_module False alias_function 5 (ir_init alias_function [7, 9]) = Some (IrDone (Some (demo_int, 7))) \<and>
    (\<exists>m s'. ce_run m e alias_entry = Some (CeDone s') \<and> holds s' 0 demo_int 9)"
  using load_alias_miscompiled [OF alias_entered] by blast

end
