(* ===== verification/Beef_Dict.thy ===== *)
theory Beef_Dict
  imports Beef_Prelude "HOL-Library.Monad_Syntax"
begin

text \<open>
  \<open>Dictionary\<close> (\<^verbatim>\<open>BeefySysLib/util/Dictionary.h\<close>), the hash table of the compiler: an
  array of buckets, each the head of a chain through the entries, and a free list through the
  removed ones.

  An index is an \<open>int\<close>, negative where the code means that there is none.  \<open>None\<close> stands for an
  access outside an array or through a null pointer, a failed assertion and \<open>BF_FATAL\<close>.  The hash
  function \<open>BeefHash\<close> is a parameter, and so is an entry of freshly allocated memory; keys are compared
  by equality.
\<close>

unbundle bit_operations_syntax

section \<open>State\<close>

text \<open>A destroyed or not yet constructed key or value is \<open>None\<close>.\<close>

record ('k, 'v) dict_entry =
  mKey :: "'k option"
  mValue :: "'v option"
  mNext :: int
  mHashCode :: int

record ('k, 'v) dict =
  mBuckets :: "int list option"
  mEntries :: "('k, 'v) dict_entry list"
  mAllocSize :: int
  mCount :: int
  mFreeList :: int
  mFreeCount :: int

text \<open>What the template arguments provide: the hash function, and the memory of \<open>TAlloc\<close>.\<close>

record ('k, 'v) dict_args =
  BeefHash :: "'k \<Rightarrow> u64"
  raw_entry :: "('k, 'v) dict_entry"

text \<open>Reading an array.\<close>

definition at :: "'a list \<Rightarrow> int \<Rightarrow> 'a option" where
  "at xs i = (if 0 \<le> i \<and> i < int (length xs) then Some (xs ! nat i) else None)"

text \<open>The lower 31 bits of the hash.\<close>

definition hash_code :: "('k, 'v) dict_args \<Rightarrow> 'k \<Rightarrow> int" where
  "hash_code H k = uint ((ucast (BeefHash H k) :: u32) AND 0x7FFFFFFF)"

section \<open>Sizes\<close>

definition GetPrimeish :: "int \<Rightarrow> int" where
  "GetPrimeish n = n OR 1"

definition ExpandSize :: "int \<Rightarrow> int" where
  "ExpandSize oldSize = GetPrimeish (wrap_s 4 (2 * oldSize))"

section \<open>Allocation\<close>

definition dict_empty :: "('k, 'v) dict" where
  "dict_empty = \<lparr>mBuckets = None, mEntries = [], mAllocSize = 0, mCount = 0, mFreeList = 0, mFreeCount = 0\<rparr>"

definition Initialize :: "('k, 'v) dict_args \<Rightarrow> int \<Rightarrow> ('k, 'v) dict \<Rightarrow> ('k, 'v) dict" where
  "Initialize H capacity d =
     (let n = GetPrimeish capacity
      in d\<lparr>mEntries := replicate (nat n) (raw_entry H), mAllocSize := n, mBuckets := Some (replicate (nat n) (-1)),
           mFreeList := -1\<rparr>)"

text \<open>The last loop of \<open>Resize\<close> puts every entry in use at the head of its bucket.\<close>

primrec link_entries ::
  "nat list \<Rightarrow> ('k, 'v) dict_entry list \<times> int list \<Rightarrow> ('k, 'v) dict_entry list \<times> int list" where
  "link_entries [] eb = eb"
| "link_entries (i # is) eb =
     (let (es, bs) = eb; e = es ! i; bucket = nat (mHashCode e mod int (length bs))
      in link_entries is
           (if mHashCode e \<ge> 0 then (es[i := e\<lparr>mNext := bs ! bucket\<rparr>], bs[bucket := int i]) else (es, bs)))"

definition rehash_entry :: "('k, 'v) dict_args \<Rightarrow> ('k, 'v) dict_entry \<Rightarrow> ('k, 'v) dict_entry" where
  "rehash_entry H e =
     (if mHashCode e \<noteq> -1 then (case mKey e of None \<Rightarrow> e | Some k \<Rightarrow> e\<lparr>mHashCode := hash_code H k\<rparr>) else e)"

text \<open>A size that an \<open>int_cosize\<close> index cannot reach is refused, as is one smaller than the old one.\<close>

definition Resize :: "('k, 'v) dict_args \<Rightarrow> int \<Rightarrow> bool \<Rightarrow> ('k, 'v) dict \<Rightarrow> ('k, 'v) dict option" where
  "Resize H newSize forceNewHashCodes d =
     (if newSize < mAllocSize d \<or> newSize < mCount d \<or> newSize \<le> 0 \<or> newSize \<ge> 2 ^ 31 then None
      else
        (let n = nat (mCount d);
             old = take n (mEntries d);
             moved = (if forceNewHashCodes then map (rehash_entry H) old else old);
             fresh = replicate (nat newSize - n) ((raw_entry H)\<lparr>mHashCode := -1\<rparr>);
             (es, bs) = link_entries [0 ..< n] (moved @ fresh, replicate (nat newSize) (-1))
         in Some (d\<lparr>mBuckets := Some bs, mEntries := es, mAllocSize := newSize\<rparr>)))"

definition Reserve :: "('k, 'v) dict_args \<Rightarrow> int \<Rightarrow> ('k, 'v) dict \<Rightarrow> ('k, 'v) dict option" where
  "Reserve H n d = (if n > mAllocSize d then Resize H n False d else Some d)"

section \<open>Lookup\<close>

text \<open>The walk along a chain: the first entry in use that satisfies the test, with the one before it.\<close>

partial_function (option) find_last ::
  "('k, 'v) dict_entry list \<Rightarrow> (int \<Rightarrow> ('k, 'v) dict_entry \<Rightarrow> bool) \<Rightarrow> int \<Rightarrow> int \<Rightarrow> (int \<times> int) option option" where
  "find_last es test i prev =
     (if i < 0 then Some None
      else case at es i of
        None \<Rightarrow> None
      | Some e \<Rightarrow> if test i e then Some (Some (i, prev)) else find_last es test (mNext e) i)"

definition key_test :: "int \<Rightarrow> 'k \<Rightarrow> int \<Rightarrow> ('k, 'v) dict_entry \<Rightarrow> bool" where
  "key_test hashCode k i e \<longleftrightarrow> mHashCode e = hashCode \<and> mKey e = Some k"

text \<open>The walk along the bucket of a hash code; without buckets nothing is found.\<close>

definition find_in_bucket ::
  "('k, 'v) dict \<Rightarrow> int \<Rightarrow> (int \<Rightarrow> ('k, 'v) dict_entry \<Rightarrow> bool) \<Rightarrow> (int \<times> int) option option" where
  "find_in_bucket d hashCode test =
     (case mBuckets d of
        None \<Rightarrow> Some None
      | Some bs \<Rightarrow> (case at bs (hashCode mod mAllocSize d) of
                      None \<Rightarrow> None
                    | Some i \<Rightarrow> find_last (mEntries d) test i (-1)))"

definition FindEntry :: "('k, 'v) dict_args \<Rightarrow> 'k \<Rightarrow> ('k, 'v) dict \<Rightarrow> int option" where
  "FindEntry H k d =
     (case find_in_bucket d (hash_code H k) (key_test (hash_code H k) k) of
        None \<Rightarrow> None
      | Some None \<Rightarrow> Some (-1)
      | Some (Some (i, prev)) \<Rightarrow> Some i)"

definition ContainsKey :: "('k, 'v) dict_args \<Rightarrow> 'k \<Rightarrow> ('k, 'v) dict \<Rightarrow> bool option" where
  "ContainsKey H k d = map_option (\<lambda>i. i \<ge> 0) (FindEntry H k d)"

text \<open>\<open>TryGetValue(key, TValue**)\<close>: the pointer is the index of the entry.\<close>

definition TryGetValue_ptr :: "('k, 'v) dict_args \<Rightarrow> 'k \<Rightarrow> ('k, 'v) dict \<Rightarrow> int option option" where
  "TryGetValue_ptr H k d = map_option (\<lambda>i. if i \<ge> 0 then Some i else None) (FindEntry H k d)"

text \<open>The value of an entry in use.\<close>

definition value_at :: "int \<Rightarrow> ('k, 'v) dict \<Rightarrow> 'v option" where
  "value_at i d = (case at (mEntries d) i of None \<Rightarrow> None | Some e \<Rightarrow> mValue e)"

text \<open>\<open>TryGetValue(key, TValue*)\<close>\<close>

definition TryGetValue :: "('k, 'v) dict_args \<Rightarrow> 'k \<Rightarrow> ('k, 'v) dict \<Rightarrow> 'v option option" where
  "TryGetValue H k d =
     (case FindEntry H k d of
        None \<Rightarrow> None
      | Some i \<Rightarrow> if i \<ge> 0 then map_option Some (value_at i d) else Some None)"

text \<open>\<open>operator[] const\<close>\<close>

definition get_const :: "('k, 'v) dict_args \<Rightarrow> 'k \<Rightarrow> ('k, 'v) dict \<Rightarrow> 'v option" where
  "get_const H k d = (case FindEntry H k d of None \<Rightarrow> None | Some i \<Rightarrow> if i \<ge> 0 then value_at i d else None)"

definition GetCount :: "('k, 'v) dict \<Rightarrow> int" where
  "GetCount d = mCount d - mFreeCount d"

definition IsEmpty :: "('k, 'v) dict \<Rightarrow> bool" where
  "IsEmpty d \<longleftrightarrow> mCount d - mFreeCount d = 0"

section \<open>Insertion\<close>

text \<open>The slot for a new entry: from the free list, or the next one of the array, which may grow.\<close>

definition take_slot :: "('k, 'v) dict_args \<Rightarrow> ('k, 'v) dict \<Rightarrow> (int \<times> ('k, 'v) dict) option" where
  "take_slot H d =
     (if mFreeCount d > 0
      then (case at (mEntries d) (mFreeList d) of
              None \<Rightarrow> None
            | Some e \<Rightarrow> Some (mFreeList d, d\<lparr>mFreeList := mNext e, mFreeCount := mFreeCount d - 1\<rparr>))
      else
        (case (if mCount d = mAllocSize d then Resize H (ExpandSize (mCount d)) False d else Some d) of
           None \<Rightarrow> None
         | Some d1 \<Rightarrow> Some (mCount d1, d1\<lparr>mCount := mCount d1 + 1\<rparr>)))"

text \<open>The entry is linked at the head of its bucket; its value is left to the caller.\<close>

definition link_slot :: "int \<Rightarrow> 'k \<Rightarrow> int \<Rightarrow> ('k, 'v) dict \<Rightarrow> ('k, 'v) dict option" where
  "link_slot hashCode k index d =
     (case mBuckets d of
        None \<Rightarrow> None
      | Some bs \<Rightarrow>
          (let bucket = hashCode mod mAllocSize d
           in case (at bs bucket, at (mEntries d) index) of
                (Some b, Some e) \<Rightarrow>
                  Some (d\<lparr>mEntries := (mEntries d)[nat index := e\<lparr>mHashCode := hashCode, mNext := b, mKey := Some k\<rparr>],
                          mBuckets := Some (bs[nat bucket := index])\<rparr>)
              | _ \<Rightarrow> None))"

definition Insert :: "('k, 'v) dict_args \<Rightarrow> 'k \<Rightarrow> bool \<Rightarrow> ('k, 'v) dict \<Rightarrow> (bool \<times> int \<times> ('k, 'v) dict) option" where
  "Insert H k forceAdd d =
     (let d0 = (if mBuckets d = None then Initialize H 0 d else d);
          hashCode = hash_code H k
      in case (if forceAdd then Some None else find_in_bucket d0 hashCode (key_test hashCode k)) of
           None \<Rightarrow> None
         | Some (Some (i, prev)) \<Rightarrow> Some (False, i, d0)
         | Some None \<Rightarrow>
             (case take_slot H d0 of
                None \<Rightarrow> None
              | Some (index, d1) \<Rightarrow>
                  (case link_slot hashCode k index d1 of None \<Rightarrow> None | Some d2 \<Rightarrow> Some (True, index, d2))))"

text \<open>The placement \<open>new\<close> of the value.\<close>

definition put_value :: "int \<Rightarrow> 'v \<Rightarrow> ('k, 'v) dict \<Rightarrow> ('k, 'v) dict" where
  "put_value i v d = d\<lparr>mEntries := (mEntries d)[nat i := (mEntries d ! nat i)\<lparr>mValue := Some v\<rparr>]\<rparr>"

definition ForceAdd :: "('k, 'v) dict_args \<Rightarrow> 'k \<Rightarrow> 'v \<Rightarrow> ('k, 'v) dict \<Rightarrow> ('k, 'v) dict option" where
  "ForceAdd H k v d = (case Insert H k True d of None \<Rightarrow> None | Some (added, i, d1) \<Rightarrow> Some (put_value i v d1))"

definition TryAdd :: "('k, 'v) dict_args \<Rightarrow> 'k \<Rightarrow> 'v \<Rightarrow> ('k, 'v) dict \<Rightarrow> (bool \<times> ('k, 'v) dict) option" where
  "TryAdd H k v d =
     (case Insert H k False d of
        None \<Rightarrow> None
      | Some (added, i, d1) \<Rightarrow> if added then Some (True, put_value i v d1) else Some (False, d1))"

text \<open>
  \<open>TryAdd(key, keyPtr, valuePtr)\<close> and \<open>operator[]\<close> construct a default value in a new entry;
  \<open>TryAddRaw\<close> constructs none.
\<close>

definition TryAdd_ptr :: "('k, 'v) dict_args \<Rightarrow> 'v \<Rightarrow> 'k \<Rightarrow> ('k, 'v) dict \<Rightarrow> (bool \<times> int \<times> ('k, 'v) dict) option" where
  "TryAdd_ptr H dflt k d =
     (case Insert H k False d of
        None \<Rightarrow> None
      | Some (added, i, d1) \<Rightarrow> if added then Some (True, i, put_value i dflt d1) else Some (False, i, d1))"

definition TryAddRaw :: "('k, 'v) dict_args \<Rightarrow> 'k \<Rightarrow> ('k, 'v) dict \<Rightarrow> (bool \<times> int \<times> ('k, 'v) dict) option" where
  "TryAddRaw H k d = Insert H k False d"

definition get_or_add :: "('k, 'v) dict_args \<Rightarrow> 'v \<Rightarrow> 'k \<Rightarrow> ('k, 'v) dict \<Rightarrow> (int \<times> ('k, 'v) dict) option" where
  "get_or_add H dflt k d =
     (case Insert H k False d of
        None \<Rightarrow> None
      | Some (added, i, d1) \<Rightarrow> Some (i, if added then put_value i dflt d1 else d1))"

section \<open>Removal\<close>

text \<open>Unlink entry \<open>i\<close> behind \<open>prev\<close>, destroy it and put it on the free list.\<close>

definition RemoveIdx :: "int \<Rightarrow> int \<Rightarrow> int \<Rightarrow> ('k, 'v) dict \<Rightarrow> ('k, 'v) dict option" where
  "RemoveIdx bucket i prev d =
     (case at (mEntries d) i of
        None \<Rightarrow> None
      | Some e \<Rightarrow>
          (case (if prev < 0
                 then (case mBuckets d of
                         None \<Rightarrow> None
                       | Some bs \<Rightarrow> if at bs bucket = None then None else Some (d\<lparr>mBuckets := Some (bs[nat bucket := mNext e])\<rparr>))
                 else (case at (mEntries d) prev of
                         None \<Rightarrow> None
                       | Some l \<Rightarrow> Some (d\<lparr>mEntries := (mEntries d)[nat prev := l\<lparr>mNext := mNext e\<rparr>]\<rparr>))) of
             None \<Rightarrow> None
           | Some d1 \<Rightarrow>
               Some (d1\<lparr>mEntries := (mEntries d1)[nat i := \<lparr>mKey = None, mValue = None, mNext = mFreeList d, mHashCode = -1\<rparr>],
                        mFreeList := i, mFreeCount := mFreeCount d + 1\<rparr>)))"

definition remove_found ::
  "('k, 'v) dict \<Rightarrow> int \<Rightarrow> (int \<Rightarrow> ('k, 'v) dict_entry \<Rightarrow> bool) \<Rightarrow> (int option \<times> ('k, 'v) dict) option" where
  "remove_found d hashCode test =
     (case find_in_bucket d hashCode test of
        None \<Rightarrow> None
      | Some None \<Rightarrow> Some (None, d)
      | Some (Some (i, prev)) \<Rightarrow>
          (case RemoveIdx (hashCode mod mAllocSize d) i prev d of None \<Rightarrow> None | Some d1 \<Rightarrow> Some (Some i, d1)))"

text \<open>\<open>Remove(key)\<close>\<close>

definition Remove :: "('k, 'v) dict_args \<Rightarrow> 'k \<Rightarrow> ('k, 'v) dict \<Rightarrow> (bool \<times> ('k, 'v) dict) option" where
  "Remove H k d =
     (case remove_found d (hash_code H k) (key_test (hash_code H k) k) of
        None \<Rightarrow> None | Some (r, d1) \<Rightarrow> Some (r \<noteq> None, d1))"

text \<open>\<open>Remove(key, valuePtr)\<close> gives the removed value.\<close>

definition Remove_get :: "('k, 'v) dict_args \<Rightarrow> 'k \<Rightarrow> ('k, 'v) dict \<Rightarrow> ('v option \<times> ('k, 'v) dict) option" where
  "Remove_get H k d =
     (case remove_found d (hash_code H k) (key_test (hash_code H k) k) of
        None \<Rightarrow> None
      | Some (None, d1) \<Rightarrow> Some (None, d1)
      | Some (Some i, d1) \<Rightarrow> (case value_at i d of None \<Rightarrow> None | Some v \<Rightarrow> Some (Some v, d1)))"

text \<open>\<open>Remove(key, value)\<close> removes an entry with this key and this value.\<close>

definition Remove_pair :: "('k, 'v) dict_args \<Rightarrow> 'k \<Rightarrow> 'v \<Rightarrow> ('k, 'v) dict \<Rightarrow> (bool \<times> ('k, 'v) dict) option" where
  "Remove_pair H k v d =
     (case remove_found d (hash_code H k) (\<lambda>i e. key_test (hash_code H k) k i e \<and> mValue e = Some v) of
        None \<Rightarrow> None | Some (r, d1) \<Rightarrow> Some (r \<noteq> None, d1))"

definition Clear :: "('k, 'v) dict \<Rightarrow> ('k, 'v) dict" where
  "Clear d =
     (if mCount d > 0
      then d\<lparr>mBuckets := map_option (\<lambda>bs. map (\<lambda>b. -1) bs) (mBuckets d),
             mEntries := map (\<lambda>e. e\<lparr>mHashCode := -1, mKey := None, mValue := None\<rparr>) (take (nat (mCount d)) (mEntries d)) @
                         drop (nat (mCount d)) (mEntries d),
             mFreeList := -1, mCount := 0, mFreeCount := 0\<rparr>
      else d)"

section \<open>Iteration\<close>

record dict_iter =
  mIdx :: int
  mCurrentIdx :: int

definition dict_end :: "('k, 'v) dict \<Rightarrow> dict_iter" where
  "dict_end d = \<lparr>mIdx = mCount d + 1, mCurrentIdx = -1\<rparr>"

text \<open>\<open>MoveNext\<close>; a negative index is huge as an unsigned one.\<close>

function next_used :: "('k, 'v) dict \<Rightarrow> int \<Rightarrow> dict_iter option" where
  "next_used d i =
     (if 0 \<le> i \<and> i < mCount d
      then (case at (mEntries d) i of
              None \<Rightarrow> None
            | Some e \<Rightarrow> if mHashCode e \<ge> 0 then Some \<lparr>mIdx = i + 1, mCurrentIdx = i\<rparr> else next_used d (i + 1))
      else Some (dict_end d))"
  by pat_completeness auto
termination by (relation "measure (\<lambda>(d, i). nat (mCount d - i))") auto

definition MoveNext :: "('k, 'v) dict \<Rightarrow> dict_iter \<Rightarrow> dict_iter option" where
  "MoveNext d it = next_used d (mIdx it)"

definition dict_begin :: "('k, 'v) dict \<Rightarrow> dict_iter option" where
  "dict_begin d = MoveNext d \<lparr>mIdx = 0, mCurrentIdx = 0\<rparr>"

text \<open>\<open>operator==\<close> of two iterators of the same dictionary.\<close>

definition iter_eq :: "dict_iter \<Rightarrow> dict_iter \<Rightarrow> bool" where
  "iter_eq a b \<longleftrightarrow> mIdx a = mIdx b"

definition Find :: "('k, 'v) dict_args \<Rightarrow> 'k \<Rightarrow> ('k, 'v) dict \<Rightarrow> dict_iter option" where
  "Find H k d = map_option (\<lambda>i. if i \<ge> 0 then \<lparr>mIdx = i, mCurrentIdx = i\<rparr> else dict_end d) (FindEntry H k d)"

text \<open>\<open>NextWithSameKey\<close> goes on along the chain.\<close>

definition NextWithSameKey :: "('k, 'v) dict_args \<Rightarrow> 'k \<Rightarrow> ('k, 'v) dict \<Rightarrow> dict_iter \<Rightarrow> (bool \<times> dict_iter) option" where
  "NextWithSameKey H k d it =
     (if mCurrentIdx it < 0 then Some (False, dict_end d)
      else case at (mEntries d) (mCurrentIdx it) of
             None \<Rightarrow> None
           | Some e \<Rightarrow>
               (case find_last (mEntries d) (key_test (hash_code H k) k) (mNext e) (-1) of
                  None \<Rightarrow> None
                | Some None \<Rightarrow> Some (False, dict_end d)
                | Some (Some (i, prev)) \<Rightarrow> Some (True, \<lparr>mIdx = i, mCurrentIdx = i\<rparr>)))"

text \<open>\<open>Remove(iterator)\<close>: the iterator to the entry after it.\<close>

definition Remove_iter :: "dict_iter \<Rightarrow> ('k, 'v) dict \<Rightarrow> (dict_iter \<times> ('k, 'v) dict) option" where
  "Remove_iter it d = do {
     next_it \<leftarrow> MoveNext d it;
     e \<leftarrow> at (mEntries d) (mCurrentIdx it);
     if mHashCode e < 0 \<or> mBuckets d = None then None
     else case remove_found d (mHashCode e) (\<lambda>i e'. mHashCode e' = mHashCode e \<and> i = mCurrentIdx it) of
            None \<Rightarrow> None
          | Some (None, d1) \<Rightarrow> None
          | Some (Some i, d1) \<Rightarrow> Some (next_it, d1) }"

text \<open>A range \<open>for\<close> loop: the keys and values from \<open>begin\<close> to \<open>end\<close>.\<close>

partial_function (option) items_from :: "('k, 'v) dict \<Rightarrow> dict_iter \<Rightarrow> ('k \<times> 'v) list option" where
  "items_from d it =
     (if iter_eq it (dict_end d) then Some []
      else do {
        e \<leftarrow> at (mEntries d) (mCurrentIdx it);
        k \<leftarrow> mKey e; v \<leftarrow> mValue e;
        it' \<leftarrow> MoveNext d it;
        rest \<leftarrow> items_from d it';
        Some ((k, v) # rest) })"

definition dict_items :: "('k, 'v) dict \<Rightarrow> ('k \<times> 'v) list option" where
  "dict_items d = do { it \<leftarrow> dict_begin d; items_from d it }"

section \<open>Copies\<close>

definition dict_copy :: "('k, 'v) dict_args \<Rightarrow> ('k, 'v) dict \<Rightarrow> ('k, 'v) dict" where
  "dict_copy H d =
     (if mAllocSize d = 0 then d\<lparr>mBuckets := None, mEntries := []\<rparr>
      else d\<lparr>mEntries := take (nat (mCount d)) (mEntries d) @
                         replicate (nat (mAllocSize d) - nat (mCount d)) ((raw_entry H)\<lparr>mHashCode := -1\<rparr>)\<rparr>)"

text \<open>The move constructor: the new dictionary and what is left of the old one.\<close>

definition dict_move :: "('k, 'v) dict \<Rightarrow> ('k, 'v) dict \<times> ('k, 'v) dict" where
  "dict_move d = (d, dict_empty)"

primrec force_add_all :: "('k, 'v) dict_args \<Rightarrow> ('k \<times> 'v) list \<Rightarrow> ('k, 'v) dict \<Rightarrow> ('k, 'v) dict option" where
  "force_add_all H [] d = Some d"
| "force_add_all H (kv # kvs) d = do { d1 \<leftarrow> ForceAdd H (fst kv) (snd kv) d; force_add_all H kvs d1 }"

text \<open>\<open>operator=\<close> for two different objects.\<close>

definition dict_assign :: "('k, 'v) dict_args \<Rightarrow> ('k, 'v) dict \<Rightarrow> ('k, 'v) dict \<Rightarrow> ('k, 'v) dict option" where
  "dict_assign H rhs d = do { kvs \<leftarrow> dict_items rhs; force_add_all H kvs (Clear d) }"

end
