(* ===== verification/Beef_Dict_Props.thy ===== *)
theory Beef_Dict_Props
  imports Beef_Dict "HOL-Library.Multiset"
begin

text \<open>
  The representation of \<open>Dictionary\<close>, described by the chain of each bucket and the free list, the multiset
  of pairs it stands for, and what each operation does to both.
\<close>

unbundle bit_operations_syntax

section \<open>Chains\<close>

primrec chain :: "('k, 'v) dict_entry list \<Rightarrow> int \<Rightarrow> nat list \<Rightarrow> bool" where
  "chain es i [] \<longleftrightarrow> i < 0"
| "chain es i (x # xs) \<longleftrightarrow> i = int x \<and> x < length es \<and> chain es (mNext (es ! x)) xs"

text \<open>The free list is cut off by the number of its entries.\<close>

primrec free_chain :: "('k, 'v) dict_entry list \<Rightarrow> int \<Rightarrow> nat list \<Rightarrow> bool" where
  "free_chain es i [] \<longleftrightarrow> True"
| "free_chain es i (x # xs) \<longleftrightarrow> i = int x \<and> x < length es \<and> free_chain es (mNext (es ! x)) xs"

lemma chain_update [simp]: "y \<notin> set xs \<Longrightarrow> chain (es[y := e]) i xs = chain es i xs"
  by (induction xs arbitrary: i) auto

lemma free_chain_update [simp]: "y \<notin> set xs \<Longrightarrow> free_chain (es[y := e]) i xs = free_chain es i xs"
  by (induction xs arbitrary: i) auto

lemma chain_bounds: "chain es i xs \<Longrightarrow> x \<in> set xs \<Longrightarrow> x < length es"
  by (induction xs arbitrary: i) auto

lemma chain_unlink:
  "chain es i (as @ [l, x] @ bs) \<Longrightarrow> distinct (as @ [l, x] @ bs) \<Longrightarrow>
   chain (es[l := (es ! l)\<lparr>mNext := mNext (es ! x)\<rparr>]) i (as @ [l] @ bs)"
  by (induction as arbitrary: i) auto

lemma find_last_chain:
  assumes "chain es i xs"
  shows "(\<forall>x \<in> set xs. \<not> test (int x) (es ! x)) \<and> find_last es test i p = Some None \<or>
    (\<exists>as x bs. xs = as @ x # bs \<and> (\<forall>y \<in> set as. \<not> test (int y) (es ! y)) \<and> test (int x) (es ! x) \<and>
       find_last es test i p = Some (Some (int x, if as = [] then p else int (last as))))"
  using assms
proof (induction xs arbitrary: i p)
  case Nil
  then show ?case by (simp add: find_last.simps)
next
  case (Cons x xs)
  then have s: "find_last es test i p =
      (if test (int x) (es ! x) then Some (Some (int x, p)) else find_last es test (mNext (es ! x)) (int x))"
    by (subst find_last.simps) (simp add: at_def)
  show ?case
  proof (cases "test (int x) (es ! x)")
    case True
    then show ?thesis using s by (intro disjI2 exI [of _ "[]"] exI [of _ x] exI [of _ xs]) simp
  next
    case False
    from Cons have "chain es (mNext (es ! x)) xs" by simp
    from Cons.IH [OF this, of "int x"] show ?thesis
    proof (elim disjE exE conjE)
      fix as y bs assume "xs = as @ y # bs" "\<forall>z \<in> set as. \<not> test (int z) (es ! z)" "test (int y) (es ! y)"
        "find_last es test (mNext (es ! x)) (int x) = Some (Some (int y, if as = [] then int x else int (last as)))"
      with False s show ?thesis by (intro disjI2 exI [of _ "x # as"] exI [of _ y] exI [of _ bs]) simp
    qed (use False s in simp)
  qed
qed

section \<open>Buckets\<close>

definition entry_ok :: "('k, 'v) dict_args \<Rightarrow> ('k, 'v) dict_entry \<Rightarrow> bool" where
  "entry_ok H e \<longleftrightarrow> (\<exists>k v. mKey e = Some k \<and> mValue e = Some v \<and> mHashCode e = hash_code H k)"

lemma hash_code_range: "0 \<le> hash_code H k" "hash_code H k < 2 ^ 31"
proof -
  have "(ucast (BeefHash H k) :: u32) AND 0x7FFFFFFF = take_bit 31 (ucast (BeefHash H k) :: u32)"
    by (simp add: take_bit_eq_mask mask_eq_exp_minus_1)
  then have "hash_code H k = take_bit 31 (uint (ucast (BeefHash H k) :: u32))"
    unfolding hash_code_def by (simp only: unsigned_take_bit_eq)
  then show "0 \<le> hash_code H k" "hash_code H k < 2 ^ 31"
    by (simp_all add: take_bit_eq_mod)
qed

lemma entry_ok_used: "entry_ok H e \<Longrightarrow> 0 \<le> mHashCode e"
  by (auto simp: entry_ok_def hash_code_range)

definition buckets_ok :: "('k, 'v) dict_args \<Rightarrow> ('k, 'v) dict_entry list \<Rightarrow> int list \<Rightarrow> nat list list \<Rightarrow> bool" where
  "buckets_ok H es bs cs \<longleftrightarrow>
     length bs = length cs \<and> cs \<noteq> [] \<and> distinct (concat cs) \<and>
     (\<forall>b < length cs. chain es (bs ! b) (cs ! b)) \<and>
     (\<forall>b < length cs. \<forall>x \<in> set (cs ! b). entry_ok H (es ! x) \<and> mHashCode (es ! x) mod int (length cs) = int b)"

lemma mset_concat_update: "b < length cs \<Longrightarrow> mset (concat (cs[b := ys])) + mset (cs ! b) = mset (concat cs) + mset ys"
proof (induction cs arbitrary: b)
  case (Cons c cs)
  then show ?case by (cases b) (auto simp: ac_simps)
qed simp

lemma in_concat: "b < length cs \<Longrightarrow> x \<in> set (cs ! b) \<Longrightarrow> x \<in> set (concat cs)"
  by (auto simp: in_set_conv_nth intro!: bexI [of _ "cs ! b"])

lemma concat_disjoint:
  "distinct (concat cs) \<Longrightarrow> b < length cs \<Longrightarrow> b' < length cs \<Longrightarrow> b' \<noteq> b \<Longrightarrow> y \<in> set (cs ! b) \<Longrightarrow> y \<notin> set (cs ! b')"
proof (induction cs arbitrary: b b')
  case (Cons c cs)
  have d: "set c \<inter> set (concat cs) = {}" "distinct (concat cs)" using Cons.prems(1) by auto
  show ?case
  proof (cases b)
    case 0
    then obtain n where n: "b' = Suc n" using Cons.prems(4) by (cases b') auto
    then show ?thesis using d(1) 0 Cons.prems(3,5) in_concat [of n cs y] by (simp del: set_concat) blast
  next
    case (Suc m)
    then have y: "y \<in> set (cs ! m)" "m < length cs" using Cons.prems(2,5) by simp_all
    show ?thesis
    proof (cases b')
      case 0
      then show ?thesis using d(1) in_concat [OF y(2,1)] by (simp del: set_concat) blast
    next
      case (Suc n)
      then show ?thesis using Cons.IH [OF d(2) y(2), of n] Cons.prems(3,4) \<open>b = Suc m\<close> y(1) by simp
    qed
  qed
qed simp

lemma concat_same: "distinct (concat cs) \<Longrightarrow> b < length cs \<Longrightarrow> distinct (cs ! b)"
  by (induction cs arbitrary: b) (auto simp: nth_Cons split: nat.splits)

lemma distinct_by_mset: "mset xs = mset ys \<Longrightarrow> distinct ys \<Longrightarrow> distinct xs"
  using mset_eq_imp_distinct_iff by blast

lemma buckets_bounds: "buckets_ok H es bs cs \<Longrightarrow> x \<in> set (concat cs) \<Longrightarrow> x < length es"
  by (auto simp: buckets_ok_def in_set_conv_nth [of _ cs]) (metis chain_bounds)

lemma buckets_entry: "buckets_ok H es bs cs \<Longrightarrow> x \<in> set (concat cs) \<Longrightarrow> entry_ok H (es ! x)"
  unfolding buckets_ok_def by (auto simp: in_set_conv_nth [of _ cs])

text \<open>A new entry at the head of its bucket.\<close>

lemma buckets_link:
  assumes ok: "buckets_ok H es bs cs" and i: "i \<notin> set (concat cs)" "i < length es"
    and b: "b < length cs" "mHashCode e mod int (length cs) = int b" and e: "entry_ok H e" "mNext e = bs ! b"
  shows "buckets_ok H (es[i := e]) (bs[b := int i]) (cs[b := i # cs ! b])"
    and "mset (concat (cs[b := i # cs ! b])) = add_mset i (mset (concat cs))"
proof -
  show m: "mset (concat (cs[b := i # cs ! b])) = add_mset i (mset (concat cs))"
    using mset_concat_update [OF b(1), of "i # cs ! b"] by simp
  then have "mset (concat (cs[b := i # cs ! b])) = mset (i # concat cs)" by simp
  moreover have "distinct (i # concat cs)" using i(1) ok by (simp add: buckets_ok_def)
  ultimately have d: "distinct (concat (cs[b := i # cs ! b]))" by (rule distinct_by_mset)
  have ni: "i \<notin> set (cs ! b')" if "b' < length cs" for b' using i(1) in_concat [OF that] by blast
  show "buckets_ok H (es[i := e]) (bs[b := int i]) (cs[b := i # cs ! b])"
    unfolding buckets_ok_def
  proof (intro conjI allI impI ballI)
    fix b' assume "b' < length (cs[b := i # cs ! b])"
    then have b': "b' < length cs" by simp
    show "chain (es[i := e]) (bs[b := int i] ! b') (cs[b := i # cs ! b] ! b')"
      using ok b' b e(2) i ni [OF b'] by (cases "b' = b") (auto simp: buckets_ok_def)
    fix x assume x: "x \<in> set (cs[b := i # cs ! b] ! b')"
    show "entry_ok H (es[i := e] ! x)" "mHashCode (es[i := e] ! x) mod int (length (cs[b := i # cs ! b])) = int b'"
      using ok b' b e(1) i(2) ni [OF b'] x by (cases "x = i"; cases "b' = b"; auto simp: buckets_ok_def)+
  qed (use ok d in \<open>auto simp: buckets_ok_def\<close>)
qed

text \<open>Unlinking an entry.\<close>

lemma buckets_unlink:
  assumes ok: "buckets_ok H es bs cs" and b: "b < length cs" and cb: "cs ! b = as @ x # ys"
    and es': "es' = (if as = [] then es else es[last as := (es ! last as)\<lparr>mNext := mNext (es ! x)\<rparr>])"
    and bs': "bs' = (if as = [] then bs[b := mNext (es ! x)] else bs)"
  shows "buckets_ok H (es'[x := e]) bs' (cs[b := as @ ys])"
    and "mset (concat cs) = add_mset x (mset (concat (cs[b := as @ ys])))"
proof -
  show m: "mset (concat cs) = add_mset x (mset (concat (cs[b := as @ ys])))"
    using mset_concat_update [OF b, of "as @ ys"] by (simp add: cb ac_simps)
  then have "mset (x # concat (cs[b := as @ ys])) = mset (concat cs)" by simp
  moreover have dcs: "distinct (concat cs)" using ok by (simp add: buckets_ok_def)
  ultimately have d: "distinct (x # concat (cs[b := as @ ys]))" by (rule distinct_by_mset)
  have dc: "distinct (cs ! b)" by (rule concat_same [OF dcs b])
  have c: "chain es (bs ! b) (as @ x # ys)" using ok b cb by (auto simp: buckets_ok_def)
  have la: "last as \<in> set (cs ! b)" if "as \<noteq> []" using that cb by simp
  show "buckets_ok H (es'[x := e]) bs' (cs[b := as @ ys])"
    unfolding buckets_ok_def
  proof (intro conjI allI impI ballI)
    fix b' assume "b' < length (cs[b := as @ ys])"
    then have b': "b' < length cs" by simp
    have xn: "x \<notin> set (cs[b := as @ ys] ! b')" using d in_concat [of b' "cs[b := as @ ys]"] b' by auto
    show "chain (es'[x := e]) (bs' ! b') (cs[b := as @ ys] ! b')"
    proof (cases "b' = b")
      case False
      then have "last as \<notin> set (cs ! b')" if "as \<noteq> []" using concat_disjoint [OF dcs b b' _ la [OF that]] by simp
      then show ?thesis using ok b' False xn es' bs' by (auto simp: buckets_ok_def)
    next
      case True
      have "chain es' (bs' ! b) (as @ ys)"
      proof (cases as rule: rev_cases)
        case Nil
        then show ?thesis using c es' bs' b ok by (simp add: buckets_ok_def)
      next
        case (snoc as0 l)
        then show ?thesis using chain_unlink [of es "bs ! b" as0 l x ys] c dc cb es' bs' by simp
      qed
      then show ?thesis using True xn b by simp
    qed
    fix y assume y: "y \<in> set (cs[b := as @ ys] ! b')"
    then have yc: "y \<in> set (cs ! b')" "y \<noteq> x" using xn cb b by (cases "b' = b"; auto)+
    have same: "mKey (es' ! y) = mKey (es ! y) \<and> mValue (es' ! y) = mValue (es ! y) \<and> mHashCode (es' ! y) = mHashCode (es ! y)"
      using chain_bounds [OF c] es' by (cases "as \<noteq> [] \<and> y = last as") (auto simp: nth_list_update)
    show "entry_ok H (es'[x := e] ! y)" "mHashCode (es'[x := e] ! y) mod int (length (cs[b := as @ ys])) = int b'"
      using ok b' yc same by (auto simp: buckets_ok_def entry_ok_def)
  qed (use ok d bs' in \<open>auto simp: buckets_ok_def\<close>)
qed


section \<open>The invariant\<close>

definition dict_rep :: "('k, 'v) dict_args \<Rightarrow> ('k, 'v) dict \<Rightarrow> int list \<Rightarrow> nat list list \<Rightarrow> nat list \<Rightarrow> bool" where
  "dict_rep H d bs cs fl \<longleftrightarrow>
     mBuckets d = Some bs \<and> buckets_ok H (mEntries d) bs cs \<and> mAllocSize d = int (length cs) \<and>
     length (mEntries d) = length cs \<and> 0 \<le> mCount d \<and> mCount d \<le> mAllocSize d \<and>
     free_chain (mEntries d) (mFreeList d) fl \<and> mFreeCount d = int (length fl) \<and> distinct fl \<and>
     set fl \<inter> set (concat cs) = {} \<and> set fl \<union> set (concat cs) = {..< nat (mCount d)} \<and>
     (\<forall>x \<in> set fl. mHashCode (mEntries d ! x) = -1)"

lemma dict_repD:
  assumes "dict_rep H d bs cs fl"
  shows "mBuckets d = Some bs" "buckets_ok H (mEntries d) bs cs" "mAllocSize d = int (length cs)" "length (mEntries d) = length cs"
    "0 \<le> mCount d" "mCount d \<le> mAllocSize d" "free_chain (mEntries d) (mFreeList d) fl" "mFreeCount d = int (length fl)" "distinct fl"
    "set fl \<inter> set (concat cs) = {}" "set fl \<union> set (concat cs) = {..< nat (mCount d)}"
    "\<forall>x \<in> set fl. mHashCode (mEntries d ! x) = -1" "cs \<noteq> []" "length bs = length cs"
  using assms unfolding dict_rep_def buckets_ok_def by blast+

definition dict_null :: "('k, 'v) dict \<Rightarrow> bool" where
  "dict_null d \<longleftrightarrow> mBuckets d = None \<and> mEntries d = [] \<and> mAllocSize d = 0 \<and> mCount d = 0 \<and> mFreeCount d = 0"

definition dict_ok :: "('k, 'v) dict_args \<Rightarrow> ('k, 'v) dict \<Rightarrow> bool" where
  "dict_ok H d \<longleftrightarrow> dict_null d \<or> (\<exists>bs cs fl. dict_rep H d bs cs fl)"

declare next_used.simps [simp del]

text \<open>The pairs of the entries in use.\<close>

definition entry_pair :: "('k, 'v) dict_entry \<Rightarrow> 'k \<times> 'v" where
  "entry_pair e = (the (mKey e), the (mValue e))"

definition used_indices :: "('k, 'v) dict \<Rightarrow> nat list" where
  "used_indices d = filter (\<lambda>i. mHashCode (mEntries d ! i) \<ge> 0) [0 ..< nat (mCount d)]"

definition dict_abs :: "('k, 'v) dict \<Rightarrow> ('k \<times> 'v) multiset" where
  "dict_abs d = image_mset (\<lambda>i. entry_pair (mEntries d ! i)) (mset (used_indices d))"

lemma dict_abs_null: "dict_null d \<Longrightarrow> dict_abs d = {#}"
  by (simp add: dict_null_def dict_abs_def used_indices_def)

lemma rep_used:
  assumes "dict_rep H d bs cs fl"
  shows "set (concat cs) = set (used_indices d)" "mset (concat cs) = mset (used_indices d)"
proof -
  have u: "0 \<le> mHashCode (mEntries d ! x)" if "x \<in> set (concat cs)" for x
    using assms that unfolding dict_rep_def by (blast intro: entry_ok_used buckets_entry)
  have f: "\<not> 0 \<le> mHashCode (mEntries d ! x)" if "x \<in> set fl" for x using assms that by (simp add: dict_rep_def)
  have c: "set fl \<union> set (concat cs) = {..< nat (mCount d)}" using assms by (simp add: dict_rep_def)
  show s: "set (concat cs) = set (used_indices d)"
  proof (intro set_eqI iffI)
    fix x assume x: "x \<in> set (concat cs)"
    then have "x < nat (mCount d)" using c by blast
    with u [OF x] show "x \<in> set (used_indices d)" by (simp add: used_indices_def)
  next
    fix x assume "x \<in> set (used_indices d)"
    then have "x \<in> {..< nat (mCount d)}" "0 \<le> mHashCode (mEntries d ! x)" by (simp_all add: used_indices_def)
    then show "x \<in> set (concat cs)" using c f by blast
  qed
  have "distinct (concat cs)" "distinct (used_indices d)"
    using assms by (simp_all add: dict_rep_def buckets_ok_def used_indices_def)
  then show "mset (concat cs) = mset (used_indices d)" using s set_eq_iff_mset_eq_distinct by blast
qed

lemma rep_abs: "dict_rep H d bs cs fl \<Longrightarrow> dict_abs d = image_mset (\<lambda>i. entry_pair (mEntries d ! i)) (mset (concat cs))"
  by (simp add: dict_abs_def rep_used)

lemma image_mset_update:
  "x \<notin># M \<Longrightarrow> image_mset (\<lambda>i. f (es[x := e] ! i)) M = image_mset (\<lambda>i. f (es ! i)) M"
  by (intro image_mset_cong) (metis nth_list_update_neq)

section \<open>Growing\<close>

text \<open>\<open>link_entries\<close> moves the entries in use of the list into the buckets and leaves the others alone.\<close>

definition strip :: "('k, 'v) dict_entry \<Rightarrow> ('k, 'v) dict_entry" where
  "strip e = e\<lparr>mNext := 0\<rparr>"

lemma strip_eq: "strip e = strip e' \<Longrightarrow> mKey e = mKey e' \<and> mValue e = mValue e' \<and> mHashCode e = mHashCode e'"
  by (cases e; cases e') (simp add: strip_def)

lemma link_entries_ok:
  assumes "buckets_ok H es bs cs" "distinct is" "set is \<inter> set (concat cs) = {}" "\<forall>i \<in> set is. i < length es"
    and "\<forall>i \<in> set is. mHashCode (es ! i) \<ge> 0 \<longrightarrow> entry_ok H (es ! i)" "link_entries is (es, bs) = (es', bs')"
  shows "\<exists>cs'. buckets_ok H es' bs' cs' \<and> length cs' = length cs \<and> length es' = length es \<and>
    set (concat cs') = set (concat cs) \<union> {i \<in> set is. mHashCode (es ! i) \<ge> 0} \<and> map strip es' = map strip es \<and>
    (\<forall>j. \<not> mHashCode (es ! j) \<ge> 0 \<longrightarrow> es' ! j = es ! j)"
  using assms
proof (induction "is" arbitrary: es bs cs)
  case Nil
  then show ?case by (intro exI [of _ cs]) simp
next
  case (Cons i "is")
  show ?case
  proof (cases "mHashCode (es ! i) \<ge> 0")
    case False
    with Cons.prems have "link_entries is (es, bs) = (es', bs')" by (simp add: Let_def)
    moreover have "{j \<in> set (i # is). mHashCode (es ! j) \<ge> 0} = {j \<in> set is. mHashCode (es ! j) \<ge> 0}" using False by auto
    ultimately show ?thesis using Cons.IH [OF Cons.prems(1)] Cons.prems(2-5) by simp
  next
    case True
    let ?e = "es ! i"
    define b where "b = nat (mHashCode ?e mod int (length bs))"
    let ?e' = "?e\<lparr>mNext := bs ! b\<rparr>"
    have l: "length bs = length cs" "cs \<noteq> []" using Cons.prems(1) by (simp_all add: buckets_ok_def)
    have b: "b < length cs" "mHashCode ?e' mod int (length cs) = int b"
      using l True by (simp_all add: b_def nat_less_iff)
    have e: "entry_ok H ?e'" using Cons.prems(5) True by (simp add: entry_ok_def)
    have i: "i \<notin> set (concat cs)" "i < length es" using Cons.prems(3,4) by auto
    from buckets_link [OF Cons.prems(1) i b e] have
      ok: "buckets_ok H (es[i := ?e']) (bs[b := int i]) (cs[b := i # cs ! b])"
      and m: "mset (concat (cs[b := i # cs ! b])) = add_mset i (mset (concat cs))" by simp_all
    from m have sc: "set (concat (cs[b := i # cs ! b])) = insert i (set (concat cs))"
      by (metis set_mset_add_mset_insert set_mset_mset)
    have r: "link_entries is (es[i := ?e'], bs[b := int i]) = (es', bs')"
      using Cons.prems(6) True by (simp add: Let_def b_def)
    have h: "mHashCode (es[i := ?e'] ! j) = mHashCode (es ! j)" for j by (cases "j = i") (simp_all add: nth_list_update i(2))
    have st: "map strip (es[i := ?e']) = map strip es"
      using i(2) by (auto simp: map_update strip_def intro: nth_equalityI simp: nth_list_update)
    have nx: "\<forall>j \<in> set is. es[i := ?e'] ! j = es ! j" using Cons.prems(2) by (metis distinct.simps(2) nth_list_update_neq)
    have "\<exists>cs'. buckets_ok H es' bs' cs' \<and> length cs' = length (cs[b := i # cs ! b]) \<and> length es' = length (es[i := ?e']) \<and>
      set (concat cs') = set (concat (cs[b := i # cs ! b])) \<union> {j \<in> set is. mHashCode (es[i := ?e'] ! j) \<ge> 0} \<and>
      map strip es' = map strip (es[i := ?e']) \<and> (\<forall>j. \<not> mHashCode (es[i := ?e'] ! j) \<ge> 0 \<longrightarrow> es' ! j = es[i := ?e'] ! j)"
      by (rule Cons.IH [OF ok _ _ _ _ r]) (use Cons.prems(2-5) sc nx h in \<open>auto simp del: set_concat\<close>)
    then obtain cs' where cs': "buckets_ok H es' bs' cs'" "length cs' = length cs" "length es' = length es"
      "set (concat cs') = insert i (set (concat cs)) \<union> {j \<in> set is. mHashCode (es ! j) \<ge> 0}" "map strip es' = map strip es"
      and keep: "\<forall>j. \<not> mHashCode (es ! j) \<ge> 0 \<longrightarrow> es' ! j = es[i := ?e'] ! j"
      unfolding sc st h by auto
    have "\<forall>j. \<not> mHashCode (es ! j) \<ge> 0 \<longrightarrow> es' ! j = es ! j" using keep True by (metis nth_list_update_neq)
    with cs' True show ?thesis by (intro exI [of _ cs']) (auto simp del: set_concat)
  qed
qed


lemma free_chain_cong:
  "free_chain es i xs \<Longrightarrow> \<forall>x \<in> set xs. es' ! x = es ! x \<Longrightarrow> length es \<le> length es' \<Longrightarrow> free_chain es' i xs"
  by (induction xs arbitrary: i) auto

lemma buckets_init: "0 < n \<Longrightarrow> buckets_ok H es (replicate n (-1)) (replicate n [])"
  by (auto simp: buckets_ok_def)

lemma entries_mono: "map strip es' = map strip es \<Longrightarrow> x < length es \<Longrightarrow> entry_pair (es' ! x) = entry_pair (es ! x) \<and>
    mHashCode (es' ! x) = mHashCode (es ! x)"
proof -
  assume "map strip es' = map strip es" "x < length es"
  then have "strip (es' ! x) = strip (es ! x)" by (metis length_map nth_map)
  from strip_eq [OF this] show ?thesis by (simp add: entry_pair_def)
qed

text \<open>Re-hashing does not change entries that are in order.\<close>

lemma rehash_id: "entry_ok H e \<or> mHashCode e = -1 \<Longrightarrow> rehash_entry H e = e"
  by (auto simp: rehash_entry_def entry_ok_def)

lemma Resize_ok:
  assumes rep: "dict_rep H d bs cs fl" and n: "mAllocSize d \<le> n" and lim: "n < 2 ^ 31"
  shows "\<exists>d' bs' cs'. Resize H n force d = Some d' \<and> dict_rep H d' bs' cs' fl \<and> dict_abs d' = dict_abs d \<and>
    mAllocSize d' = n \<and> mCount d' = mCount d \<and> mFreeCount d' = mFreeCount d"
proof -
  let ?c = "nat (mCount d)"
  have c: "?c \<le> length (mEntries d)" "mCount d \<le> n" "0 \<le> mCount d" and bk: "buckets_ok H (mEntries d) bs cs"
    and ln: "length (mEntries d) = length cs" "0 < length cs" "mAllocSize d = int (length cs)"
    using rep n by (auto simp: dict_rep_def buckets_ok_def)
  have part: "set fl \<union> set (concat cs) = {..< ?c}" and dead: "\<forall>x \<in> set fl. mHashCode (mEntries d ! x) = -1"
    using rep by (simp_all add: dict_rep_def)
  have each: "entry_ok H (mEntries d ! x) \<or> mHashCode (mEntries d ! x) = -1" if "x < ?c" for x
    using that part dead buckets_entry [OF bk, of x] by blast
  let ?old = "take ?c (mEntries d)"
  have "map (rehash_entry H) ?old = ?old"
    using each c(1) by (intro nth_equalityI) (auto simp: rehash_id)
  then have moved: "(if force then map (rehash_entry H) ?old else ?old) = ?old" by simp
  define fresh where "fresh = replicate (nat n - ?c) ((raw_entry H)\<lparr>mHashCode := -1\<rparr>)"
  define es0 where "es0 = ?old @ fresh"
  have l0: "length es0 = nat n" using c by (simp add: es0_def fresh_def)
  have e0: "es0 ! x = mEntries d ! x" if "x < ?c" for x using that c(1) by (simp add: es0_def nth_append)
  obtain es' bs' where le: "link_entries [0 ..< ?c] (es0, replicate (nat n) (-1)) = (es', bs')" by fastforce
  have "0 < n" using ln(2,3) n by linarith
  then have n0: "0 < nat n" "0 < n" by simp_all
  have ok: "\<forall>i \<in> set [0 ..< ?c]. mHashCode (es0 ! i) \<ge> 0 \<longrightarrow> entry_ok H (es0 ! i)" using each by (fastforce simp: e0)
  have lt: "\<forall>i \<in> set [0 ..< ?c]. i < length es0" using l0 c by auto
  have dj: "set [0 ..< ?c] \<inter> set (concat (replicate (nat n) ([] :: nat list))) = {}" by auto
  from link_entries_ok [OF buckets_init [OF n0(1)] distinct_upt dj lt ok le] obtain cs' where
    cs': "buckets_ok H es' bs' cs'" "length cs' = nat n" "length es' = length es0"
      "set (concat cs') = {i \<in> set [0 ..< ?c]. mHashCode (es0 ! i) \<ge> 0}" "map strip es' = map strip es0"
      "\<forall>j. \<not> mHashCode (es0 ! j) \<ge> 0 \<longrightarrow> es' ! j = es0 ! j" by auto
  let ?d = "d\<lparr>mBuckets := Some bs', mEntries := es', mAllocSize := n\<rparr>"
  have r: "Resize H n force d = Some ?d"
    using n c n0 le lim by (simp add: Resize_def Let_def moved fresh_def [symmetric] es0_def [symmetric])
  have used: "set (concat cs') = set (concat cs)"
    unfolding cs'(4) rep_used(1) [OF rep] used_indices_def using e0 by auto
  have fl: "es' ! x = mEntries d ! x" if "x \<in> set fl" for x
  proof -
    have "x < ?c" "mHashCode (mEntries d ! x) = -1" using that part dead by auto
    then show ?thesis using cs'(6) e0 by simp
  qed
  have "free_chain es' (mFreeList d) fl"
    by (rule free_chain_cong [of "mEntries d"]) (use rep fl l0 cs'(3) n ln in \<open>auto simp: dict_rep_def\<close>)
  then have rep': "dict_rep H ?d bs' cs' fl"
    using rep cs'(1-3) l0 n0 c fl used by (auto simp: dict_rep_def simp del: set_concat)
  have "dict_abs ?d = dict_abs d"
  proof -
    have "mset (concat cs') = mset (concat cs)"
      using used cs'(1) bk set_eq_iff_mset_eq_distinct [of "concat cs'" "concat cs"] by (simp add: buckets_ok_def del: set_concat)
    moreover have "entry_pair (es' ! x) = entry_pair (mEntries d ! x)" if "x \<in> set (concat cs)" for x
    proof -
      have "x < ?c" using that part by blast
      then show ?thesis using entries_mono [OF cs'(5), of x] e0 l0 c by simp
    qed
    ultimately show ?thesis unfolding rep_abs [OF rep'] rep_abs [OF rep] by (auto intro!: image_mset_cong simp del: set_concat)
  qed
  with r rep' show ?thesis by (intro exI [of _ ?d] exI [of _ bs'] exI [of _ cs']) simp
qed


section \<open>Lookup\<close>

lemma find_bucket:
  assumes rep: "dict_rep H d bs cs fl" and hc: "0 \<le> hc"
  shows "(find_in_bucket d hc test = Some None \<and> (\<forall>x \<in> set (concat cs). mHashCode (mEntries d ! x) = hc \<longrightarrow> \<not> test (int x) (mEntries d ! x))) \<or>
    (\<exists>b as x ys. b < length cs \<and> hc mod mAllocSize d = int b \<and> cs ! b = as @ x # ys \<and> test (int x) (mEntries d ! x) \<and>
       find_in_bucket d hc test = Some (Some (int x, if as = [] then -1 else int (last as))))"
proof -
  have bk: "buckets_ok H (mEntries d) bs cs" and al: "mAllocSize d = int (length cs)" and mb: "mBuckets d = Some bs"
    using rep by (simp_all add: dict_rep_def)
  have l: "length bs = length cs" "0 < length cs" using bk by (auto simp: buckets_ok_def)
  define b where "b = nat (hc mod mAllocSize d)"
  have b: "b < length cs" "hc mod mAllocSize d = int b" using l hc by (simp_all add: b_def al nat_less_iff)
  have c: "chain (mEntries d) (bs ! b) (cs ! b)" using bk b(1) by (simp add: buckets_ok_def)
  have f: "find_in_bucket d hc test = find_last (mEntries d) test (bs ! b) (-1)"
    using b l by (simp add: find_in_bucket_def mb at_def)
  have own: "x \<in> set (cs ! b)" if x: "x \<in> set (concat cs)" "mHashCode (mEntries d ! x) = hc" for x
  proof -
    from x(1) obtain b' where b': "b' < length cs" "x \<in> set (cs ! b')" by (auto simp: in_set_conv_nth [of _ cs])
    with bk x(2) have "hc mod int (length cs) = int b'" by (auto simp: buckets_ok_def)
    then have "b' = b" using b(2) al by simp
    with b' show ?thesis by simp
  qed
  from find_last_chain [OF c, of test "-1"] show ?thesis
  proof (elim disjE exE conjE)
    assume "\<forall>x \<in> set (cs ! b). \<not> test (int x) (mEntries d ! x)" "find_last (mEntries d) test (bs ! b) (-1) = Some None"
    then show ?thesis using f own by (intro disjI1) auto
  next
    fix as x ys assume "cs ! b = as @ x # ys" "test (int x) (mEntries d ! x)"
      "find_last (mEntries d) test (bs ! b) (-1) = Some (Some (int x, if as = [] then -1 else int (last as)))"
    then show ?thesis using f b by (intro disjI2 exI [of _ b] exI [of _ as] exI [of _ x] exI [of _ ys]) simp
  qed
qed

lemma in_abs:
  assumes rep: "dict_rep H d bs cs fl" and x: "x \<in> set (concat cs)"
  shows "entry_pair (mEntries d ! x) \<in># dict_abs d"
  unfolding rep_abs [OF rep] in_image_mset set_mset_mset by (rule imageI [OF x])

text \<open>The key of a pair in the table is found in the bucket of its hash code.\<close>

lemma abs_entry:
  assumes rep: "dict_rep H d bs cs fl" and kv: "(k, v) \<in># dict_abs d"
  obtains x where "x \<in> set (concat cs)" "mKey (mEntries d ! x) = Some k" "mValue (mEntries d ! x) = Some v"
    "mHashCode (mEntries d ! x) = hash_code H k"
proof -
  have bk: "buckets_ok H (mEntries d) bs cs" using rep by (simp add: dict_rep_def)
  from kv obtain x where x: "x \<in> set (concat cs)" "entry_pair (mEntries d ! x) = (k, v)"
    unfolding rep_abs [OF rep] by (auto simp del: set_concat)
  from buckets_entry [OF bk x(1)] x(2) have "mKey (mEntries d ! x) = Some k" "mValue (mEntries d ! x) = Some v"
    "mHashCode (mEntries d ! x) = hash_code H k" by (auto simp: entry_ok_def entry_pair_def)
  with x(1) show thesis by (rule that)
qed

lemma find_key:
  assumes rep: "dict_rep H d bs cs fl"
  shows "(find_in_bucket d (hash_code H k) (key_test (hash_code H k) k) = Some None \<and> (\<forall>v. (k, v) \<notin># dict_abs d)) \<or>
    (\<exists>b as x ys v. b < length cs \<and> hash_code H k mod mAllocSize d = int b \<and> cs ! b = as @ x # ys \<and>
       mKey (mEntries d ! x) = Some k \<and> mValue (mEntries d ! x) = Some v \<and> (k, v) \<in># dict_abs d \<and>
       find_in_bucket d (hash_code H k) (key_test (hash_code H k) k) = Some (Some (int x, if as = [] then -1 else int (last as))))"
proof -
  have bk: "buckets_ok H (mEntries d) bs cs" using rep by (simp add: dict_rep_def)
  from find_bucket [OF rep hash_code_range(1), of H k "key_test (hash_code H k) k"] show ?thesis
  proof (elim disjE exE conjE)
    assume f: "find_in_bucket d (hash_code H k) (key_test (hash_code H k) k) = Some None"
      "\<forall>x \<in> set (concat cs). mHashCode (mEntries d ! x) = hash_code H k \<longrightarrow> \<not> key_test (hash_code H k) k (int x) (mEntries d ! x)"
    have "(k, v) \<notin># dict_abs d" for v
    proof
      assume "(k, v) \<in># dict_abs d"
      from abs_entry [OF rep this] f(2) show False by (auto simp: key_test_def simp del: set_concat)
    qed
    with f(1) show ?thesis by blast
  next
    fix b as x ys assume f: "b < length cs" "hash_code H k mod mAllocSize d = int b" "cs ! b = as @ x # ys"
      "key_test (hash_code H k) k (int x) (mEntries d ! x)"
      "find_in_bucket d (hash_code H k) (key_test (hash_code H k) k) = Some (Some (int x, if as = [] then -1 else int (last as)))"
    have x: "x \<in> set (concat cs)" using in_concat [OF f(1)] f(3) by simp
    then obtain v where v: "mKey (mEntries d ! x) = Some k" "mValue (mEntries d ! x) = Some v"
      using buckets_entry [OF bk x] f(4) by (auto simp: entry_ok_def key_test_def)
    have "(k, v) \<in># dict_abs d" using in_abs [OF rep x] v by (simp add: entry_pair_def)
    with f v show ?thesis by blast
  qed
qed

section \<open>Adding an entry\<close>

text \<open>A slot that is neither in a bucket nor on the free list.\<close>

definition dict_slot :: "('k, 'v) dict_args \<Rightarrow> ('k, 'v) dict \<Rightarrow> int list \<Rightarrow> nat list list \<Rightarrow> nat list \<Rightarrow> nat \<Rightarrow> bool" where
  "dict_slot H d bs cs fl i \<longleftrightarrow>
     mBuckets d = Some bs \<and> buckets_ok H (mEntries d) bs cs \<and> mAllocSize d = int (length cs) \<and>
     length (mEntries d) = length cs \<and> 0 \<le> mCount d \<and> mCount d \<le> mAllocSize d \<and>
     free_chain (mEntries d) (mFreeList d) fl \<and> mFreeCount d = int (length fl) \<and> distinct fl \<and>
     set fl \<inter> set (concat cs) = {} \<and> set fl \<union> set (concat cs) = {..< nat (mCount d)} - {i} \<and> i < nat (mCount d) \<and>
     (\<forall>x \<in> set fl. mHashCode (mEntries d ! x) = -1)"

lemma ExpandSize_small: "0 \<le> n \<Longrightarrow> n < 2 ^ 30 \<Longrightarrow> ExpandSize n = 2 * n + 1"
  by (simp add: ExpandSize_def GetPrimeish_def wrap_s_id in_s_def or_one_eq)

lemma take_slot_ok:
  assumes rep: "dict_rep H d bs cs fl" and small: "mCount d < 2 ^ 30"
  shows "\<exists>i d1 bs1 cs1 fl1. take_slot H d = Some (int i, d1) \<and> dict_slot H d1 bs1 cs1 fl1 i \<and>
    image_mset (\<lambda>i. entry_pair (mEntries d1 ! i)) (mset (concat cs1)) = dict_abs d \<and> mCount d1 \<le> mCount d + 1"
proof (cases "mFreeCount d > 0")
  case True
  then obtain i fl1 where fl: "fl = i # fl1" using rep by (cases fl) (auto simp: dict_rep_def)
  have i: "mFreeList d = int i" "i < length (mEntries d)" using rep fl by (simp_all add: dict_rep_def)
  let ?d = "d\<lparr>mFreeList := mNext (mEntries d ! i), mFreeCount := mFreeCount d - 1\<rparr>"
  have t: "take_slot H d = Some (int i, ?d)" using True i by (simp add: take_slot_def at_def)
  have "i < nat (mCount d)" using rep fl unfolding dict_rep_def by auto
  then have "dict_slot H ?d bs cs fl1 i" using rep fl by (auto simp: dict_rep_def dict_slot_def simp del: set_concat)
  then show ?thesis using t rep_abs [OF rep] by (intro exI [of _ i] exI [of _ ?d] exI [of _ bs] exI [of _ cs] exI [of _ fl1]) simp
next
  case False
  then have fl: "fl = []" "mFreeCount d = 0" using rep by (auto simp: dict_rep_def)
  have grown: "\<exists>d1 bs1 cs1. (if mCount d = mAllocSize d then Resize H (ExpandSize (mCount d)) False d else Some d) = Some d1 \<and>
      dict_rep H d1 bs1 cs1 [] \<and> dict_abs d1 = dict_abs d \<and> mCount d1 < mAllocSize d1 \<and> mCount d1 = mCount d \<and> mFreeCount d1 = 0"
  proof (cases "mCount d = mAllocSize d")
    case True
    have c: "0 \<le> mCount d" using rep by (simp add: dict_rep_def)
    have "mAllocSize d \<le> ExpandSize (mCount d)" using ExpandSize_small [OF c small] c True by simp
    moreover have "ExpandSize (mCount d) < 2 ^ 31" using ExpandSize_small [OF c small] small by simp
    ultimately obtain d1 bs1 cs1 where
      "Resize H (ExpandSize (mCount d)) False d = Some d1" "dict_rep H d1 bs1 cs1 fl" "dict_abs d1 = dict_abs d"
      "mAllocSize d1 = ExpandSize (mCount d)" "mCount d1 = mCount d" "mFreeCount d1 = mFreeCount d"
      using Resize_ok [OF rep, of "ExpandSize (mCount d)" False] by blast
    then show ?thesis using True ExpandSize_small [OF c small] fl c
      by (intro exI [of _ d1] exI [of _ bs1] exI [of _ cs1]) simp
  next
    case False
    then show ?thesis using rep fl by (intro exI [of _ d] exI [of _ bs] exI [of _ cs]) (auto simp: dict_rep_def)
  qed
  then obtain d1 bs1 cs1 where d1: "(if mCount d = mAllocSize d then Resize H (ExpandSize (mCount d)) False d else Some d) = Some d1"
    "dict_rep H d1 bs1 cs1 []" "dict_abs d1 = dict_abs d" "mCount d1 < mAllocSize d1" "mCount d1 = mCount d" "mFreeCount d1 = 0" by blast
  let ?i = "nat (mCount d1)" let ?d = "d1\<lparr>mCount := mCount d1 + 1\<rparr>"
  have c: "0 \<le> mCount d1" using d1(2) by (simp add: dict_rep_def)
  have t: "take_slot H d = Some (int ?i, ?d)" using False d1(1) c by (simp add: take_slot_def)
  have "{..< nat (mCount d1 + 1)} - {nat (mCount d1)} = {..< nat (mCount d1)}" using c by (auto simp: nat_add_distrib)
  then have "dict_slot H ?d bs1 cs1 [] ?i" using d1(2,4) c by (auto simp: dict_rep_def dict_slot_def simp del: set_concat)
  then show ?thesis using t rep_abs [OF d1(2)] d1(3,5,6) fl
    by (intro exI [of _ ?i] exI [of _ ?d] exI [of _ bs1] exI [of _ cs1] exI [of _ "[]"]) simp
qed

lemma link_put_ok:
  assumes sl: "dict_slot H d bs cs fl i"
  shows "\<exists>d1 bs1 cs1. link_slot (hash_code H k) k (int i) d = Some d1 \<and> dict_rep H (put_value (int i) v d1) bs1 cs1 fl \<and>
    dict_abs (put_value (int i) v d1) = add_mset (k, v) (image_mset (\<lambda>i. entry_pair (mEntries d ! i)) (mset (concat cs))) \<and>
    mCount (put_value (int i) v d1) = mCount d \<and> value_at (int i) (put_value (int i) v d1) = Some v"
proof -
  have bk: "buckets_ok H (mEntries d) bs cs" and al: "mAllocSize d = int (length cs)" "mBuckets d = Some bs"
    and le: "length (mEntries d) = length cs" using sl by (simp_all add: dict_slot_def)
  have l: "length bs = length cs" "0 < length cs" using bk by (auto simp: buckets_ok_def)
  have i: "i < length (mEntries d)" "i \<notin> set (concat cs)" "i \<notin> set fl" using sl by (auto simp: dict_slot_def)
  define b where "b = nat (hash_code H k mod mAllocSize d)"
  have b: "b < length cs" "hash_code H k mod mAllocSize d = int b"
    using l hash_code_range(1) [of H k] by (simp_all add: b_def al nat_less_iff)
  define e where "e = (mEntries d ! i)\<lparr>mHashCode := hash_code H k, mNext := bs ! b, mKey := Some k\<rparr>"
  define e' where "e' = e\<lparr>mValue := Some v\<rparr>"
  let ?d1 = "d\<lparr>mEntries := (mEntries d)[i := e], mBuckets := Some (bs[b := int i])\<rparr>"
  have lk: "link_slot (hash_code H k) k (int i) d = Some ?d1"
    using b l i le by (simp add: link_slot_def al(2) at_def e_def Let_def)
  have p: "put_value (int i) v ?d1 = d\<lparr>mEntries := (mEntries d)[i := e'], mBuckets := Some (bs[b := int i])\<rparr>"
    using i by (simp add: put_value_def e'_def)
  have e': "entry_ok H e'" "mNext e' = bs ! b" "mHashCode e' mod int (length cs) = int b" "entry_pair e' = (k, v)"
    using b(2) al by (simp_all add: e'_def e_def entry_ok_def entry_pair_def)
  note bl = buckets_link [OF bk i(2,1) b(1) e'(3,1,2)]
  from bl(2) have sc: "set (concat (cs[b := i # cs ! b])) = insert i (set (concat cs))"
    by (metis set_mset_add_mset_insert set_mset_mset)
  have u: "set fl \<union> insert i (set (concat cs)) = {..< nat (mCount d)}" "set fl \<inter> insert i (set (concat cs)) = {}"
    using sl i(3) by (auto simp: dict_slot_def simp del: set_concat)
  have rep: "dict_rep H (put_value (int i) v ?d1) (bs[b := int i]) (cs[b := i # cs ! b]) fl"
    unfolding dict_rep_def sc p using sl bl(1) u i by (auto simp: dict_slot_def nth_list_update simp del: set_concat)
  have "dict_abs (put_value (int i) v ?d1) = add_mset (k, v) (image_mset (\<lambda>i. entry_pair (mEntries d ! i)) (mset (concat cs)))"
    unfolding rep_abs [OF rep] bl(2) using image_mset_update [of i "mset (concat cs)" entry_pair "mEntries d" e'] i e'(4)
    by (simp add: p del: set_concat)
  with lk rep show ?thesis
    by (intro exI [of _ ?d1] exI [of _ "bs[b := int i]"] exI [of _ "cs[b := i # cs ! b]"])
      (use i in \<open>simp add: p value_at_def at_def e'_def\<close>)
qed


text \<open>A dictionary without memory is given a first bucket.\<close>

definition with_buckets :: "('k, 'v) dict_args \<Rightarrow> ('k, 'v) dict \<Rightarrow> ('k, 'v) dict" where
  "with_buckets H d = (if mBuckets d = None then Initialize H 0 d else d)"

lemma with_buckets_ok:
  assumes "dict_ok H d"
  obtains bs cs fl where "dict_rep H (with_buckets H d) bs cs fl" "dict_abs (with_buckets H d) = dict_abs d"
    "mCount (with_buckets H d) = mCount d"
  using assms unfolding dict_ok_def
proof (elim disjE exE)
  fix bs cs fl assume r: "dict_rep H d bs cs fl"
  then have "with_buckets H d = d" by (simp add: with_buckets_def dict_rep_def)
  with r that show thesis by simp
next
  assume n: "dict_null d"
  have p: "GetPrimeish 0 = 1" by (simp add: GetPrimeish_def)
  have "dict_rep H (with_buckets H d) [-1] [[]] []"
    using n by (simp add: with_buckets_def dict_null_def Initialize_def p dict_rep_def buckets_ok_def)
  moreover have "dict_abs (with_buckets H d) = dict_abs d" "mCount (with_buckets H d) = mCount d"
    using n by (simp_all add: with_buckets_def dict_null_def Initialize_def p Let_def dict_abs_def used_indices_def)
  ultimately show thesis by (rule that)
qed

text \<open>What \<open>Insert\<close> does, with the value that its caller constructs.\<close>

lemma Insert_new:
  assumes ok: "dict_ok H d" and small: "mCount d < 2 ^ 30" and new: "force \<or> (\<forall>v. (k, v) \<notin># dict_abs d)"
  shows "\<exists>i d1. Insert H k force d = Some (True, i, d1) \<and> dict_ok H (put_value i v d1) \<and> 0 \<le> i \<and>
    dict_abs (put_value i v d1) = add_mset (k, v) (dict_abs d) \<and> mCount (put_value i v d1) \<le> mCount d + 1 \<and>
    value_at i (put_value i v d1) = Some v"
proof -
  from with_buckets_ok [OF ok] obtain bs cs fl where w: "dict_rep H (with_buckets H d) bs cs fl"
    "dict_abs (with_buckets H d) = dict_abs d" "mCount (with_buckets H d) = mCount d" by metis
  have "mCount (with_buckets H d) < 2 ^ 30" using small w(3) by simp
  from take_slot_ok [OF w(1) this] obtain i d1 bs1 cs1 fl1 where
    t: "take_slot H (with_buckets H d) = Some (int i, d1)" "dict_slot H d1 bs1 cs1 fl1 i"
      "image_mset (\<lambda>i. entry_pair (mEntries d1 ! i)) (mset (concat cs1)) = dict_abs (with_buckets H d)"
      "mCount d1 \<le> mCount (with_buckets H d) + 1" by blast
  from link_put_ok [OF t(2), of k v] obtain d2 bs2 cs2 where
    l: "link_slot (hash_code H k) k (int i) d1 = Some d2" "dict_rep H (put_value (int i) v d2) bs2 cs2 fl1"
      "dict_abs (put_value (int i) v d2) = add_mset (k, v) (image_mset (\<lambda>i. entry_pair (mEntries d1 ! i)) (mset (concat cs1)))"
      "mCount (put_value (int i) v d2) = mCount d1" "value_at (int i) (put_value (int i) v d2) = Some v" by blast
  have "(if force then Some None else find_in_bucket (with_buckets H d) (hash_code H k) (key_test (hash_code H k) k)) = Some None"
    using find_key [OF w(1), of k] new w(2) by (cases force) auto
  then have "Insert H k force d = Some (True, int i, d2)"
    using t(1) l(1) by (simp add: Insert_def with_buckets_def [symmetric] Let_def)
  then show ?thesis using l t(3,4) w(2,3) by (intro exI [of _ "int i"] exI [of _ d2]) (auto simp: dict_ok_def)
qed

lemma Insert_old:
  assumes ok: "dict_ok H d" and old: "(k, v) \<in># dict_abs d"
  shows "\<exists>i d1 v'. Insert H k False d = Some (False, i, d1) \<and> dict_ok H d1 \<and> dict_abs d1 = dict_abs d \<and> 0 \<le> i \<and>
    mCount d1 = mCount d \<and> (k, v') \<in># dict_abs d \<and> value_at i d1 = Some v'"
proof -
  from with_buckets_ok [OF ok] obtain bs cs fl where w: "dict_rep H (with_buckets H d) bs cs fl"
    "dict_abs (with_buckets H d) = dict_abs d" "mCount (with_buckets H d) = mCount d" by metis
  from find_key [OF w(1), of k] old w(2) obtain b as x ys v' where
    f: "b < length cs" "cs ! b = as @ x # ys" "mValue (mEntries (with_buckets H d) ! x) = Some v'" "(k, v') \<in># dict_abs (with_buckets H d)"
      "find_in_bucket (with_buckets H d) (hash_code H k) (key_test (hash_code H k) k) =
         Some (Some (int x, if as = [] then -1 else int (last as)))" by metis
  have "x < length (mEntries (with_buckets H d))"
    using w(1) in_concat [OF f(1), of x] f(2) by (auto simp: dict_rep_def intro: buckets_bounds simp del: set_concat)
  then have "value_at (int x) (with_buckets H d) = Some v'" using f(3) by (simp add: value_at_def at_def)
  moreover have "Insert H k False d = Some (False, int x, with_buckets H d)"
    using f(5) by (simp add: Insert_def with_buckets_def [symmetric] Let_def)
  ultimately show ?thesis using w f(4)
    by (intro exI [of _ "int x"] exI [of _ "with_buckets H d"] exI [of _ v']) (auto simp: dict_ok_def)
qed

lemma ForceAdd_ok:
  assumes "dict_ok H d" "mCount d < 2 ^ 30"
  shows "\<exists>d'. ForceAdd H k v d = Some d' \<and> dict_ok H d' \<and> dict_abs d' = add_mset (k, v) (dict_abs d) \<and> mCount d' \<le> mCount d + 1"
  using Insert_new [OF assms, of True k v] by (auto simp: ForceAdd_def)

lemma TryAdd_ok:
  assumes "dict_ok H d" "mCount d < 2 ^ 30"
  shows "\<exists>d'. TryAdd H k v d = Some (\<forall>w. (k, w) \<notin># dict_abs d, d') \<and> dict_ok H d' \<and> mCount d' \<le> mCount d + 1 \<and>
    dict_abs d' = (if \<forall>w. (k, w) \<notin># dict_abs d then add_mset (k, v) (dict_abs d) else dict_abs d)"
proof (cases "\<forall>w. (k, w) \<notin># dict_abs d")
  case True
  with Insert_new [OF assms, of False k v] show ?thesis by (auto simp: TryAdd_def)
next
  case False
  then obtain w where "(k, w) \<in># dict_abs d" by blast
  from Insert_old [OF assms(1) this] False show ?thesis by (auto simp: TryAdd_def)
qed

text \<open>\<open>operator[]\<close> and \<open>TryAdd\<close> with pointers give the entry of the key.\<close>

lemma get_or_add_ok:
  assumes "dict_ok H d" "mCount d < 2 ^ 30"
  shows "\<exists>i d' w. get_or_add H v k d = Some (i, d') \<and> TryAdd_ptr H v k d = Some (\<forall>w. (k, w) \<notin># dict_abs d, i, d') \<and>
    dict_ok H d' \<and> value_at i d' = Some w \<and> (k, w) \<in># dict_abs d' \<and> mCount d' \<le> mCount d + 1 \<and>
    dict_abs d' = (if \<forall>w. (k, w) \<notin># dict_abs d then add_mset (k, v) (dict_abs d) else dict_abs d)"
proof (cases "\<forall>w. (k, w) \<notin># dict_abs d")
  case True
  with Insert_new [OF assms, of False k v] obtain i d1 where
    i: "Insert H k False d = Some (True, i, d1)" "dict_ok H (put_value i v d1)" "mCount (put_value i v d1) \<le> mCount d + 1"
      "dict_abs (put_value i v d1) = add_mset (k, v) (dict_abs d)" "value_at i (put_value i v d1) = Some v" by blast
  with True show ?thesis
    by (intro exI [of _ i] exI [of _ "put_value i v d1"] exI [of _ v]) (simp add: get_or_add_def TryAdd_ptr_def)
next
  case False
  then obtain w where "(k, w) \<in># dict_abs d" by blast
  from Insert_old [OF assms(1) this] obtain i d1 v' where
    i: "Insert H k False d = Some (False, i, d1)" "dict_ok H d1" "dict_abs d1 = dict_abs d" "mCount d1 = mCount d"
      "(k, v') \<in># dict_abs d" "value_at i d1 = Some v'" by blast
  with False show ?thesis by (intro exI [of _ i] exI [of _ d1] exI [of _ v']) (simp add: get_or_add_def TryAdd_ptr_def)
qed


section \<open>Lookups on the multiset\<close>

lemma null_find: "dict_null d \<Longrightarrow> find_in_bucket d hc test = Some None"
  by (simp add: dict_null_def find_in_bucket_def)

lemma TryGetValue_ok:
  assumes "dict_ok H d"
  shows "\<exists>r. TryGetValue H k d = Some r \<and> get_const H k d = r \<and> ContainsKey H k d = Some (r \<noteq> None) \<and>
    (case r of None \<Rightarrow> \<forall>v. (k, v) \<notin># dict_abs d | Some v \<Rightarrow> (k, v) \<in># dict_abs d)"
  using assms unfolding dict_ok_def
proof (elim disjE exE)
  assume "dict_null d"
  then show ?thesis
    by (simp add: TryGetValue_def get_const_def ContainsKey_def FindEntry_def null_find dict_abs_null)
next
  fix bs cs fl assume rep: "dict_rep H d bs cs fl"
  from find_key [OF rep, of k] show ?thesis
  proof (elim disjE exE conjE)
    fix b as x ys v assume f: "b < length cs" "cs ! b = as @ x # ys" "mValue (mEntries d ! x) = Some v" "(k, v) \<in># dict_abs d"
      "find_in_bucket d (hash_code H k) (key_test (hash_code H k) k) = Some (Some (int x, if as = [] then -1 else int (last as)))"
    have "x < length (mEntries d)"
      using rep in_concat [OF f(1), of x] f(2) by (auto simp: dict_rep_def intro: buckets_bounds simp del: set_concat)
    with f show ?thesis by (simp add: TryGetValue_def get_const_def ContainsKey_def FindEntry_def value_at_def at_def)
  qed (simp add: TryGetValue_def get_const_def ContainsKey_def FindEntry_def)
qed

lemma rep_count:
  assumes rep: "dict_rep H d bs cs fl"
  shows "GetCount d = int (size (dict_abs d))"
proof -
  have d: "distinct (concat cs)" "distinct fl" "set fl \<inter> set (concat cs) = {}"
    and u: "set fl \<union> set (concat cs) = {..< nat (mCount d)}" and c: "0 \<le> mCount d" "mFreeCount d = int (length fl)"
    using rep by (simp_all add: dict_rep_def buckets_ok_def)
  have "card (set fl \<union> set (concat cs)) = length fl + length (concat cs)"
    using d by (simp add: card_Un_disjoint distinct_card del: set_concat)
  then have "int (length fl) + int (length (concat cs)) = mCount d" using u c by simp
  moreover have "size (dict_abs d) = length (concat cs)" unfolding rep_abs [OF rep] by simp
  ultimately show ?thesis using c by (simp add: GetCount_def)
qed

lemma GetCount_ok: "dict_ok H d \<Longrightarrow> GetCount d = int (size (dict_abs d)) \<and> IsEmpty d = (dict_abs d = {#})"
proof -
  assume ok: "dict_ok H d"
  have c: "GetCount d = int (size (dict_abs d))" using ok unfolding dict_ok_def
  proof (elim disjE exE)
    assume n: "dict_null d"
    then show ?thesis by (simp add: dict_abs_null GetCount_def) (simp add: dict_null_def)
  next
    fix bs cs fl assume "dict_rep H d bs cs fl"
    then show ?thesis by (rule rep_count)
  qed
  then show ?thesis by (simp add: IsEmpty_def GetCount_def)
qed

section \<open>Removal on the multiset\<close>

text \<open>The entries other than \<open>x\<close> keep everything but their link.\<close>

definition same_but :: "nat \<Rightarrow> ('k, 'v) dict \<Rightarrow> ('k, 'v) dict \<Rightarrow> bool" where
  "same_but x d d' \<longleftrightarrow> mCount d' = mCount d \<and> mHashCode (mEntries d' ! x) = -1 \<and>
     (\<forall>y. y \<noteq> x \<longrightarrow> strip (mEntries d' ! y) = strip (mEntries d ! y))"

lemma RemoveIdx_ok:
  assumes rep: "dict_rep H d bs cs fl" and b: "b < length cs" and cb: "cs ! b = as @ x # ys"
  shows "\<exists>d'. RemoveIdx (int b) (int x) (if as = [] then -1 else int (last as)) d = Some d' \<and> dict_ok H d' \<and>
    dict_abs d = add_mset (entry_pair (mEntries d ! x)) (dict_abs d') \<and> same_but x d d'"
proof -
  have bk: "buckets_ok H (mEntries d) bs cs" and al: "mBuckets d = Some bs" "length (mEntries d) = length cs"
    using rep by (simp_all add: dict_rep_def)
  have lb: "length bs = length cs" using bk by (simp add: buckets_ok_def)
  have x: "x \<in> set (concat cs)" using in_concat [OF b] cb by simp
  have xl: "x < length (mEntries d)" by (rule buckets_bounds [OF bk x])
  have la: "last as < length (mEntries d) \<and> last as \<in> set (concat cs)" if "as \<noteq> []"
  proof -
    have "last as \<in> set (concat cs)" using in_concat [OF b, of "last as"] cb that by simp
    then show ?thesis using buckets_bounds [OF bk] by blast
  qed
  have dcb: "distinct (as @ x # ys)" using concat_same [of cs b] bk b cb by (simp add: buckets_ok_def)
  let ?dead = "\<lparr>mKey = None, mValue = None, mNext = mFreeList d, mHashCode = -1\<rparr>"
  define es where "es = (if as = [] then mEntries d else (mEntries d)[last as := (mEntries d ! last as)\<lparr>mNext := mNext (mEntries d ! x)\<rparr>])"
  define bs' where "bs' = (if as = [] then bs[b := mNext (mEntries d ! x)] else bs)"
  note bu1 = buckets_unlink(1) [OF bk b cb es_def bs'_def, of ?dead] and bu2 = buckets_unlink(2) [OF bk b cb es_def bs'_def]
  let ?d = "d\<lparr>mBuckets := Some bs', mEntries := es[x := ?dead], mFreeList := int x, mFreeCount := mFreeCount d + 1\<rparr>"
  have r: "RemoveIdx (int b) (int x) (if as = [] then -1 else int (last as)) d = Some ?d"
    using al b lb xl la by (cases "as = []") (auto simp: RemoveIdx_def at_def es_def bs'_def)
  have le: "length es = length (mEntries d)" by (simp add: es_def)
  have part: "set fl \<inter> set (concat cs) = {}" "set fl \<union> set (concat cs) = {..< nat (mCount d)}" using rep by (simp_all add: dict_rep_def)
  define C where "C = concat (cs[b := as @ ys])"
  have m: "mset (concat cs) = add_mset x (mset C)" using bu2 by (simp add: C_def)
  have sC: "set (concat cs) = insert x (set C)" using m by (metis set_mset_add_mset_insert set_mset_mset)
  have "distinct (x # C)" using distinct_by_mset [of "x # C" "concat cs"] m bk by (simp add: buckets_ok_def)
  then have xC: "x \<notin> set C" by simp
  have xf: "x \<notin> set fl" using part(1) x by blast
  have es_fl: "es ! y = mEntries d ! y" if "y \<in> set fl" for y
    using that part(1) la by (cases "as = []") (auto simp: es_def nth_list_update simp del: set_concat)
  have f0: "mAllocSize d = int (length cs)" "0 \<le> mCount d" "mCount d \<le> mAllocSize d" "mFreeCount d = int (length fl)" "distinct fl"
    and fr: "free_chain (mEntries d) (mFreeList d) fl" and hd: "\<forall>y \<in> set fl. mHashCode (mEntries d ! y) = -1"
    using rep by (simp_all add: dict_rep_def)
  have "free_chain es (mFreeList d) fl" by (rule free_chain_cong [OF fr]) (use es_fl le in simp_all)
  then have fc: "free_chain (es[x := ?dead]) (int x) (x # fl)" using xl le xf by simp
  have dead: "\<forall>y \<in> set (x # fl). mHashCode (es[x := ?dead] ! y) = -1"
    using hd es_fl xl le by (simp add: nth_list_update)
  have u: "set (x # fl) \<union> set C = {..< nat (mCount d)}" "set (x # fl) \<inter> set C = {}"
    using part sC xC by auto
  have rep': "dict_rep H ?d bs' (cs[b := as @ ys]) (x # fl)"
    unfolding dict_rep_def C_def [symmetric] using bu1 fc dead u xf le al(2) f0 by (simp del: free_chain.simps set_simps)
  have keep: "strip (es ! y) = strip (mEntries d ! y)" for y
    using la by (cases "y = last as") (auto simp: es_def strip_def nth_list_update)
  then have pair: "entry_pair (es ! y) = entry_pair (mEntries d ! y)" for y using strip_eq [OF keep [of y]] by (simp add: entry_pair_def)
  have "dict_abs d = add_mset (entry_pair (mEntries d ! x)) (dict_abs ?d)"
  proof -
    have "image_mset (\<lambda>i. entry_pair (es[x := ?dead] ! i)) (mset C) = image_mset (\<lambda>i. entry_pair (mEntries d ! i)) (mset C)"
      using image_mset_update [of x "mset C" entry_pair es ?dead] xC pair by simp
    then show ?thesis unfolding rep_abs [OF rep] rep_abs [OF rep'] m C_def [symmetric] by simp
  qed
  moreover have "same_but x d ?d" unfolding same_but_def using keep xl le by (auto simp: nth_list_update)
  ultimately show ?thesis using r rep' by (intro exI [of _ ?d]) (auto simp: dict_ok_def)
qed

lemma remove_found_ok:
  assumes rep: "dict_rep H d bs cs fl" and hc: "0 \<le> hc"
  shows "(remove_found d hc test = Some (None, d) \<and>
      (\<forall>x \<in> set (concat cs). mHashCode (mEntries d ! x) = hc \<longrightarrow> \<not> test (int x) (mEntries d ! x))) \<or>
    (\<exists>x d'. remove_found d hc test = Some (Some (int x), d') \<and> x \<in> set (concat cs) \<and> test (int x) (mEntries d ! x) \<and> dict_ok H d' \<and>
       dict_abs d = add_mset (entry_pair (mEntries d ! x)) (dict_abs d') \<and> same_but x d d')"
  using find_bucket [OF rep hc, of test]
proof (elim disjE exE conjE)
  fix b as x ys assume f: "b < length cs" "hc mod mAllocSize d = int b" "cs ! b = as @ x # ys" "test (int x) (mEntries d ! x)"
    "find_in_bucket d hc test = Some (Some (int x, if as = [] then -1 else int (last as)))"
  from RemoveIdx_ok [OF rep f(1,3)] obtain d' where d': "RemoveIdx (int b) (int x) (if as = [] then -1 else int (last as)) d = Some d'"
    "dict_ok H d'" "dict_abs d = add_mset (entry_pair (mEntries d ! x)) (dict_abs d')" "same_but x d d'" by blast
  have "remove_found d hc test = Some (Some (int x), d')" using f(2,5) d'(1) by (simp add: remove_found_def)
  moreover have "x \<in> set (concat cs)" using in_concat [OF f(1)] f(3) by simp
  ultimately show ?thesis using f(4) d'(2-4) by blast
qed (simp add: remove_found_def)

lemma Remove_ok:
  assumes "dict_ok H d"
  shows "(\<exists>v d'. Remove H k d = Some (True, d') \<and> Remove_get H k d = Some (Some v, d') \<and> dict_ok H d' \<and> mCount d' = mCount d \<and>
       dict_abs d = add_mset (k, v) (dict_abs d')) \<or>
    (Remove H k d = Some (False, d) \<and> Remove_get H k d = Some (None, d) \<and> (\<forall>v. (k, v) \<notin># dict_abs d))"
  using assms unfolding dict_ok_def [of H d]
proof (elim disjE exE)
  assume "dict_null d"
  then show ?thesis by (simp add: Remove_def Remove_get_def remove_found_def null_find dict_abs_null)
next
  fix bs cs fl assume rep: "dict_rep H d bs cs fl"
  have bk: "buckets_ok H (mEntries d) bs cs" using rep by (simp add: dict_rep_def)
  from remove_found_ok [OF rep hash_code_range(1), of H k "key_test (hash_code H k) k"] show ?thesis
  proof (elim disjE exE conjE)
    assume r: "remove_found d (hash_code H k) (key_test (hash_code H k) k) = Some (None, d)"
      "\<forall>x \<in> set (concat cs). mHashCode (mEntries d ! x) = hash_code H k \<longrightarrow> \<not> key_test (hash_code H k) k (int x) (mEntries d ! x)"
    have "(k, v) \<notin># dict_abs d" for v
    proof
      assume "(k, v) \<in># dict_abs d"
      from abs_entry [OF rep this] r(2) show False by (auto simp: key_test_def simp del: set_concat)
    qed
    with r(1) show ?thesis by (simp add: Remove_def Remove_get_def)
  next
    fix x d' assume r: "remove_found d (hash_code H k) (key_test (hash_code H k) k) = Some (Some (int x), d')"
      "x \<in> set (concat cs)" "key_test (hash_code H k) k (int x) (mEntries d ! x)" "dict_ok H d'"
      "dict_abs d = add_mset (entry_pair (mEntries d ! x)) (dict_abs d')" "same_but x d d'"
    from buckets_entry [OF bk r(2)] r(3) obtain v where v: "mKey (mEntries d ! x) = Some k" "mValue (mEntries d ! x) = Some v"
      by (auto simp: entry_ok_def key_test_def)
    have "x < length (mEntries d)" by (rule buckets_bounds [OF bk r(2)])
    then have "value_at (int x) d = Some v" using v by (simp add: value_at_def at_def)
    with r v show ?thesis by (auto simp: Remove_def Remove_get_def entry_pair_def same_but_def)
  qed
qed


lemma Remove_pair_ok:
  assumes "dict_ok H d"
  shows "\<exists>d'. Remove_pair H k v d = Some ((k, v) \<in># dict_abs d, d') \<and> dict_ok H d' \<and> mCount d' = mCount d \<and>
    dict_abs d' = dict_abs d - {#(k, v)#}"
  using assms unfolding dict_ok_def [of H d]
proof (elim disjE exE)
  assume n: "dict_null d"
  then have "dict_ok H d" by (simp add: dict_ok_def)
  with n show ?thesis by (simp add: Remove_pair_def remove_found_def null_find dict_abs_null)
next
  fix bs cs fl assume rep: "dict_rep H d bs cs fl"
  have bk: "buckets_ok H (mEntries d) bs cs" using rep by (simp add: dict_rep_def)
  let ?t = "\<lambda>i e. key_test (hash_code H k) k i e \<and> mValue e = Some v"
  from remove_found_ok [OF rep hash_code_range(1), of H k ?t] show ?thesis
  proof (elim disjE exE conjE)
    assume r: "remove_found d (hash_code H k) ?t = Some (None, d)"
      "\<forall>x \<in> set (concat cs). mHashCode (mEntries d ! x) = hash_code H k \<longrightarrow> \<not> ?t (int x) (mEntries d ! x)"
    have "(k, v) \<notin># dict_abs d"
    proof
      assume "(k, v) \<in># dict_abs d"
      from abs_entry [OF rep this] r(2) show False by (auto simp: key_test_def simp del: set_concat)
    qed
    moreover have "dict_ok H d" using rep by (auto simp: dict_ok_def)
    ultimately show ?thesis using r(1) by (simp add: Remove_pair_def)
  next
    fix x d' assume r: "remove_found d (hash_code H k) ?t = Some (Some (int x), d')" "x \<in> set (concat cs)"
      "key_test (hash_code H k) k (int x) (mEntries d ! x)" "mValue (mEntries d ! x) = Some v" "dict_ok H d'"
      "dict_abs d = add_mset (entry_pair (mEntries d ! x)) (dict_abs d')" "same_but x d d'"
    then show ?thesis by (auto simp: Remove_pair_def entry_pair_def key_test_def same_but_def)
  qed
qed

section \<open>Clearing, reserving and copying\<close>

lemma fresh_rep:
  assumes "0 < n" "length es = n" "mBuckets d = Some (replicate n (-1))" "mEntries d = es" "mAllocSize d = int n" "mCount d = 0" "mFreeCount d = 0"
  shows "dict_rep H d (replicate n (-1)) (replicate n []) []" "dict_abs d = {#}"
  using assms buckets_init [OF assms(1)] by (simp_all add: dict_rep_def dict_abs_def used_indices_def)

lemma Clear_ok: "dict_ok H d \<Longrightarrow> dict_ok H (Clear d) \<and> dict_abs (Clear d) = {#} \<and> mCount (Clear d) = 0"
  unfolding dict_ok_def [of H d]
proof (elim disjE exE)
  assume n: "dict_null d"
  then have "Clear d = d" by (simp add: Clear_def dict_null_def)
  then show ?thesis using n dict_abs_null [OF n] by (simp add: dict_ok_def) (simp add: dict_null_def)
next
  fix bs cs fl assume rep: "dict_rep H d bs cs fl"
  show ?thesis
  proof (cases "mCount d > 0")
    case False
    then have "mCount d = 0" "Clear d = d" using rep by (simp_all add: dict_rep_def Clear_def)
    then show ?thesis using rep by (auto simp: dict_ok_def dict_abs_def used_indices_def)
  next
    case True
    have b: "mBuckets d = Some bs" "length bs = length cs" "cs \<noteq> []" "mAllocSize d = int (length cs)" "length (mEntries d) = length cs"
      using rep by (simp_all add: dict_rep_def buckets_ok_def)
    have "map (\<lambda>b. -1 :: int) bs = replicate (length cs) (-1)" using b(2) by (intro nth_equalityI) simp_all
    then have f: "mBuckets (Clear d) = Some (replicate (length cs) (-1))" using True b by (simp add: Clear_def)
    have l: "length (mEntries (Clear d)) = length cs" "0 < length cs" using True b(3,5) by (simp_all add: Clear_def)
    have z: "mAllocSize (Clear d) = int (length cs)" "mCount (Clear d) = 0" "mFreeCount (Clear d) = 0" using True b(4) by (simp_all add: Clear_def)
    from fresh_rep(1) [OF l(2,1) f refl z, of H] fresh_rep(2) [OF l(2,1) f refl z] z(2) show ?thesis by (auto simp: dict_ok_def)
  qed
qed

lemma Reserve_ok:
  assumes ok: "dict_ok H d" and lim: "n < 2 ^ 31"
  shows "\<exists>d'. Reserve H n d = Some d' \<and> dict_ok H d' \<and> dict_abs d' = dict_abs d \<and> mCount d' = mCount d \<and> n \<le> mAllocSize d'"
proof (cases "n > mAllocSize d")
  case False
  then show ?thesis using ok by (simp add: Reserve_def)
next
  case True
  from ok show ?thesis unfolding dict_ok_def [of H d]
  proof (elim disjE exE)
    fix bs cs fl assume rep: "dict_rep H d bs cs fl"
    have "mAllocSize d \<le> n" using True by simp
    from Resize_ok [OF rep this lim, of False] True show ?thesis by (auto simp: Reserve_def dict_ok_def)
  next
    assume nl: "dict_null d"
    then have n: "0 < n" "0 < nat n" using True by (simp_all add: dict_null_def)
    let ?es = "replicate (nat n) ((raw_entry H)\<lparr>mHashCode := -1\<rparr>)"
    let ?d = "d\<lparr>mBuckets := Some (replicate (nat n) (-1)), mEntries := ?es, mAllocSize := n\<rparr>"
    have "Reserve H n d = Some ?d" using nl n lim by (simp add: Reserve_def Resize_def dict_null_def)
    moreover have "dict_ok H ?d" "dict_abs ?d = {#}"
      using fresh_rep(1) [OF n(2), of ?es ?d H] fresh_rep(2) [OF n(2), of ?es ?d] nl n by (auto simp: dict_ok_def dict_null_def)
    ultimately show ?thesis using nl by (simp add: dict_abs_null)
  qed
qed

lemma chain_cong: "chain es i xs \<Longrightarrow> \<forall>x \<in> set xs. es' ! x = es ! x \<Longrightarrow> length es \<le> length es' \<Longrightarrow> chain es' i xs"
  by (induction xs arbitrary: i) auto

lemma buckets_cong:
  assumes "buckets_ok H es bs cs" "\<And>x. x \<in> set (concat cs) \<Longrightarrow> es' ! x = es ! x" "length es \<le> length es'"
  shows "buckets_ok H es' bs cs"
  using assms in_concat [of _ cs] unfolding buckets_ok_def by (auto intro: chain_cong simp del: set_concat)

lemma dict_copy_ok:
  assumes ok: "dict_ok H d"
  shows "dict_ok H (dict_copy H d)" "dict_abs (dict_copy H d) = dict_abs d" "mCount (dict_copy H d) = mCount d"
proof -
  have "dict_ok H (dict_copy H d) \<and> dict_abs (dict_copy H d) = dict_abs d" using ok unfolding dict_ok_def [of H d]
  proof (elim disjE exE)
    assume n: "dict_null d"
    then have "dict_null (dict_copy H d)" by (simp add: dict_copy_def dict_null_def)
    then show ?thesis using n by (simp add: dict_ok_def dict_abs_null)
  next
    fix bs cs fl assume rep: "dict_rep H d bs cs fl"
    have al: "mAllocSize d = int (length cs)" "length (mEntries d) = length cs" "cs \<noteq> []" "0 \<le> mCount d" "mCount d \<le> mAllocSize d"
      using rep by (simp_all add: dict_rep_def buckets_ok_def)
    define es where "es = take (nat (mCount d)) (mEntries d) @
      replicate (nat (mAllocSize d) - nat (mCount d)) ((raw_entry H)\<lparr>mHashCode := -1\<rparr>)"
    have c: "dict_copy H d = d\<lparr>mEntries := es\<rparr>" using al by (simp add: dict_copy_def es_def)
    have le: "length es = length (mEntries d)" using al by (simp add: es_def)
    have e: "es ! x = mEntries d ! x" if "x < nat (mCount d)" for x using that al by (simp add: es_def nth_append)
    have part: "set fl \<union> set (concat cs) = {..< nat (mCount d)}" using rep by (simp add: dict_rep_def)
    then have eq: "es ! x = mEntries d ! x" if "x \<in> set fl \<or> x \<in> set (concat cs)" for x using that e by blast
    note r = dict_repD [OF rep]
    have bk: "buckets_ok H es bs cs" by (rule buckets_cong [OF r(2)]) (use eq le in simp_all)
    have fc: "free_chain es (mFreeList d) fl" by (rule free_chain_cong [OF r(7)]) (use eq le in simp_all)
    have hd: "\<forall>y \<in> set fl. mHashCode (es ! y) = -1" using r(12) eq by simp
    have rep': "dict_rep H (d\<lparr>mEntries := es\<rparr>) bs cs fl"
      unfolding dict_rep_def using r bk fc hd le by (simp del: set_concat)
    have "dict_abs (d\<lparr>mEntries := es\<rparr>) = dict_abs d"
      unfolding rep_abs [OF rep] rep_abs [OF rep'] using eq by (intro image_mset_cong) simp
    then show ?thesis using rep' by (auto simp: c dict_ok_def)
  qed
  then show "dict_ok H (dict_copy H d)" "dict_abs (dict_copy H d) = dict_abs d" by auto
  show "mCount (dict_copy H d) = mCount d" by (simp add: dict_copy_def)
qed

section \<open>Iteration\<close>

definition used_from :: "('k, 'v) dict \<Rightarrow> nat \<Rightarrow> nat list" where
  "used_from d i = filter (\<lambda>j. mHashCode (mEntries d ! j) \<ge> 0) [i ..< nat (mCount d)]"

definition iter_at :: "('k, 'v) dict \<Rightarrow> nat list \<Rightarrow> dict_iter" where
  "iter_at d xs = (case xs of [] \<Rightarrow> dict_end d | x # ys \<Rightarrow> \<lparr>mIdx = int x + 1, mCurrentIdx = int x\<rparr>)"

lemma iter_at_Cons: "iter_at d (x # xs) = \<lparr>mIdx = int x + 1, mCurrentIdx = int x\<rparr>"
  by (simp add: iter_at_def)

lemma used_from_step:
  "i < nat (mCount d) \<Longrightarrow> used_from d i = (if mHashCode (mEntries d ! i) \<ge> 0 then i # used_from d (Suc i) else used_from d (Suc i))"
  by (simp add: used_from_def upt_conv_Cons)

lemma used_from_Cons:
  "used_from d i = x # xs \<Longrightarrow> xs = used_from d (Suc x) \<and> x < nat (mCount d) \<and> mHashCode (mEntries d ! x) \<ge> 0"
proof (induction "nat (mCount d) - i" arbitrary: i)
  case 0
  then show ?case by (simp add: used_from_def)
next
  case (Suc n)
  then have i: "i < nat (mCount d)" "n = nat (mCount d) - Suc i" by simp_all
  show ?case
  proof (cases "mHashCode (mEntries d ! i) \<ge> 0")
    case True
    then show ?thesis using Suc.prems used_from_step [OF i(1)] i(1) by auto
  next
    case False
    then show ?thesis using Suc.prems used_from_step [OF i(1)] Suc.hyps(1) [OF i(2)] by simp
  qed
qed

lemma next_used_ok:
  "nat (mCount d) \<le> length (mEntries d) \<Longrightarrow> next_used d (int i) = Some (iter_at d (used_from d i))"
proof (induction "nat (mCount d) - i" arbitrary: i)
  case 0
  then have "\<not> int i < mCount d" by simp
  then show ?case using 0 by (simp add: next_used.simps [of d "int i"] used_from_def iter_at_def)
next
  case (Suc n)
  then have i: "i < nat (mCount d)" "int i < mCount d" "i < length (mEntries d)" by simp_all
  have "n = nat (mCount d) - Suc i" using Suc.hyps(2) by simp
  from Suc.hyps(1) [OF this Suc.prems] have n: "next_used d (int i + 1) = Some (iter_at d (used_from d (Suc i)))"
    by (simp add: add.commute)
  show ?case
  proof (cases "mHashCode (mEntries d ! i) \<ge> 0")
    case True
    then show ?thesis using i used_from_step [OF i(1)] by (simp add: next_used.simps [of d "int i"] at_def iter_at_def)
  next
    case False
    then show ?thesis using i used_from_step [OF i(1)] n by (simp add: next_used.simps [of d "int i"] at_def)
  qed
qed

lemma rep_length: "dict_ok H d \<Longrightarrow> nat (mCount d) \<le> length (mEntries d)"
  by (auto simp: dict_ok_def dict_rep_def dict_null_def)

lemma used_entry: "dict_ok H d \<Longrightarrow> x \<in> set (used_indices d) \<Longrightarrow> entry_ok H (mEntries d ! x)"
  unfolding dict_ok_def
proof (elim disjE exE)
  fix bs cs fl assume "dict_rep H d bs cs fl" "x \<in> set (used_indices d)"
  then show ?thesis using rep_used(1) [of H d bs cs fl] buckets_entry [OF dict_repD(2)] by blast
qed (simp add: used_indices_def dict_null_def)

lemma items_from_ok:
  assumes "dict_ok H d"
  shows "items_from d (iter_at d (used_from d i)) = Some (map (\<lambda>x. entry_pair (mEntries d ! x)) (used_from d i))"
proof (induction "used_from d i" arbitrary: i)
  case Nil
  then show ?case by (simp add: items_from.simps iter_at_def iter_eq_def Nil [symmetric])
next
  case (Cons x xs)
  note c = Cons.hyps(2) [symmetric]
  from used_from_Cons [OF c] have x: "xs = used_from d (Suc x)" "x < nat (mCount d)" "mHashCode (mEntries d ! x) \<ge> 0" by simp_all
  then have "x \<in> set (used_indices d)" by (simp add: used_indices_def)
  from used_entry [OF assms this] obtain k v where kv: "mKey (mEntries d ! x) = Some k" "mValue (mEntries d ! x) = Some v"
    by (auto simp: entry_ok_def)
  have n: "next_used d (int x + 1) = Some (iter_at d (used_from d (Suc x)))"
    using next_used_ok [OF rep_length [OF assms], of "Suc x"] by (simp add: add.commute)
  have l: "x < length (mEntries d)" using x(2) rep_length [OF assms] by simp
  have ne: "\<not> iter_eq (iter_at d (x # xs)) (dict_end d)" using x(2) by (simp add: iter_eq_def iter_at_def dict_end_def)
  have "items_from d (iter_at d (x # xs)) = Some (entry_pair (mEntries d ! x) # map (\<lambda>x. entry_pair (mEntries d ! x)) xs)"
    using ne l kv n Cons.hyps(1) [OF x(1)] x(1)
    by (subst items_from.simps) (simp add: iter_at_Cons at_def MoveNext_def entry_pair_def)
  then show ?case by (simp add: c)
qed

lemma dict_items_ok:
  assumes "dict_ok H d"
  shows "\<exists>kvs. dict_items d = Some kvs \<and> mset kvs = dict_abs d"
proof -
  have "dict_begin d = Some (iter_at d (used_from d 0))"
    using next_used_ok [OF rep_length [OF assms], of 0] by (simp add: dict_begin_def MoveNext_def)
  then have "dict_items d = Some (map (\<lambda>x. entry_pair (mEntries d ! x)) (used_from d 0))"
    using items_from_ok [OF assms] by (simp add: dict_items_def)
  then show ?thesis by (simp add: dict_abs_def used_from_def used_indices_def)
qed


text \<open>Removing the entry of an iterator gives the iterator to the next entry of the smaller table.\<close>

lemma Remove_iter_ok:
  assumes ok: "dict_ok H d" and x: "used_from d i = x # xs"
  shows "\<exists>d'. Remove_iter (iter_at d (x # xs)) d = Some (iter_at d' (used_from d' (Suc x)), d') \<and> dict_ok H d' \<and>
    dict_abs d = add_mset (entry_pair (mEntries d ! x)) (dict_abs d') \<and> used_from d' (Suc x) = xs \<and>
    (\<forall>y \<in> set xs. entry_pair (mEntries d' ! y) = entry_pair (mEntries d ! y))"
proof -
  from used_from_Cons [OF x] have xs: "xs = used_from d (Suc x)" "x < nat (mCount d)" "mHashCode (mEntries d ! x) \<ge> 0" by simp_all
  then have xu: "x \<in> set (used_indices d)" by (simp add: used_indices_def)
  from ok xs(2) obtain bs cs fl where rep: "dict_rep H d bs cs fl" by (auto simp: dict_ok_def dict_null_def)
  note r = dict_repD [OF rep]
  let ?h = "mHashCode (mEntries d ! x)"
  let ?t = "\<lambda>i e'. mHashCode e' = ?h \<and> i = int x"
  have xc: "x \<in> set (concat cs)" using rep_used(1) [OF rep] xu by blast
  have l: "x < length (mEntries d)" using xs(2) rep_length [OF ok] by simp
  have n: "MoveNext d (iter_at d (x # xs)) = Some (iter_at d xs)"
    using next_used_ok [OF rep_length [OF ok], of "Suc x"] xs(1) by (simp add: MoveNext_def iter_at_Cons add.commute)
  from remove_found_ok [OF rep xs(3), of ?t] obtain d' where
    d': "remove_found d ?h ?t = Some (Some (int x), d')" "dict_ok H d'"
      "dict_abs d = add_mset (entry_pair (mEntries d ! x)) (dict_abs d')" "same_but x d d'"
    using xc by auto
  have sb: "mCount d' = mCount d" "strip (mEntries d' ! y) = strip (mEntries d ! y)" if "y \<noteq> x" for y
    using d'(4) that by (simp_all add: same_but_def)
  have hy: "mHashCode (mEntries d' ! y) = mHashCode (mEntries d ! y)" if "y \<noteq> x" for y using strip_eq [OF sb(2) [OF that]] by simp
  have u: "used_from d' (Suc x) = xs"
    unfolding xs(1) used_from_def using d'(4) hy by (intro filter_cong) (auto simp: same_but_def)
  have e: "iter_at d xs = iter_at d' xs" using d'(4) by (cases xs) (simp_all add: iter_at_def dict_end_def same_but_def)
  have rm: "Remove_iter (iter_at d (x # xs)) d = Some (iter_at d' xs, d')"
    unfolding Remove_iter_def n e using xs(3) r(1) l d'(1) by (simp add: iter_at_Cons at_def)
  have "entry_pair (mEntries d' ! y) = entry_pair (mEntries d ! y)" if "y \<in> set xs" for y
  proof -
    have "y \<noteq> x" using that xs(1) by (auto simp: used_from_def)
    from strip_eq [OF sb(2) [OF this]] show ?thesis by (simp add: entry_pair_def)
  qed
  with rm d'(2,3) u show ?thesis by (intro exI [of _ d']) simp
qed

end
