(* ===== verification/Beef_Dict_Spec.thy ===== *)
theory Beef_Dict_Spec
  imports Beef_Dict_Props
begin

text \<open>
  What \<open>Dictionary\<close> promises to its clients: every operation is the one of a multiset of pairs, and as long
  as no key is added twice the table is a map, with the laws of the interface \<open>map_store\<close>.
\<close>

section \<open>Operations\<close>

text \<open>The operations a client calls, and what they return.\<close>

datatype ('k, 'v) dict_op =
    DictForceAdd 'k 'v
  | DictTryAdd 'k 'v
  | DictIndex 'k
  | DictTryGet 'k
  | DictContains 'k
  | DictRemove 'k
  | DictRemovePair 'k 'v
  | DictCount
  | DictReserve int
  | DictClear
  | DictCopy
  | DictItems

datatype ('k, 'v) dict_result =
    DictDone
  | DictBool bool
  | DictValue "'v option"
  | DictNumber int
  | DictList "('k \<times> 'v) list"

definition dict_exec ::
  "('k, 'v) dict_args \<Rightarrow> 'v \<Rightarrow> ('k, 'v) dict_op \<Rightarrow> ('k, 'v) dict \<Rightarrow> (('k, 'v) dict_result \<times> ('k, 'v) dict) option" where
  "dict_exec H dflt op d =
     (case op of
        DictForceAdd k v \<Rightarrow> map_option (\<lambda>d1. (DictDone, d1)) (ForceAdd H k v d)
      | DictTryAdd k v \<Rightarrow> map_option (\<lambda>(b, d1). (DictBool b, d1)) (TryAdd H k v d)
      | DictIndex k \<Rightarrow> do { (i, d1) \<leftarrow> get_or_add H dflt k d; v \<leftarrow> value_at i d1; Some (DictValue (Some v), d1) }
      | DictTryGet k \<Rightarrow> map_option (\<lambda>v. (DictValue v, d)) (TryGetValue H k d)
      | DictContains k \<Rightarrow> map_option (\<lambda>b. (DictBool b, d)) (ContainsKey H k d)
      | DictRemove k \<Rightarrow> map_option (\<lambda>(b, d1). (DictBool b, d1)) (Remove H k d)
      | DictRemovePair k v \<Rightarrow> map_option (\<lambda>(b, d1). (DictBool b, d1)) (Remove_pair H k v d)
      | DictCount \<Rightarrow> Some (DictNumber (GetCount d), d)
      | DictReserve n \<Rightarrow> map_option (\<lambda>d1. (DictDone, d1)) (Reserve H n d)
      | DictClear \<Rightarrow> Some (DictDone, Clear d)
      | DictCopy \<Rightarrow> Some (DictDone, dict_copy H d)
      | DictItems \<Rightarrow> map_option (\<lambda>kvs. (DictList kvs, d)) (dict_items d))"

text \<open>The abstract operations on a multiset of pairs.\<close>

inductive dict_spec ::
  "'v \<Rightarrow> ('k, 'v) dict_op \<Rightarrow> ('k \<times> 'v) multiset \<Rightarrow> ('k, 'v) dict_result \<Rightarrow> ('k \<times> 'v) multiset \<Rightarrow> bool" for dflt where
  spec_force: "dict_spec dflt (DictForceAdd k v) M DictDone (add_mset (k, v) M)"
| spec_try_new: "\<forall>w. (k, w) \<notin># M \<Longrightarrow> dict_spec dflt (DictTryAdd k v) M (DictBool True) (add_mset (k, v) M)"
| spec_try_old: "(k, w) \<in># M \<Longrightarrow> dict_spec dflt (DictTryAdd k v) M (DictBool False) M"
| spec_index_new: "\<forall>w. (k, w) \<notin># M \<Longrightarrow> dict_spec dflt (DictIndex k) M (DictValue (Some dflt)) (add_mset (k, dflt) M)"
| spec_index_old: "(k, w) \<in># M \<Longrightarrow> dict_spec dflt (DictIndex k) M (DictValue (Some w)) M"
| spec_get_none: "\<forall>w. (k, w) \<notin># M \<Longrightarrow> dict_spec dflt (DictTryGet k) M (DictValue None) M"
| spec_get_some: "(k, w) \<in># M \<Longrightarrow> dict_spec dflt (DictTryGet k) M (DictValue (Some w)) M"
| spec_contains: "dict_spec dflt (DictContains k) M (DictBool (\<exists>w. (k, w) \<in># M)) M"
| spec_remove_none: "\<forall>w. (k, w) \<notin># M \<Longrightarrow> dict_spec dflt (DictRemove k) M (DictBool False) M"
| spec_remove_some: "dict_spec dflt (DictRemove k) (add_mset (k, w) M) (DictBool True) M"
| spec_remove_pair: "dict_spec dflt (DictRemovePair k v) M (DictBool ((k, v) \<in># M)) (M - {#(k, v)#})"
| spec_count: "dict_spec dflt DictCount M (DictNumber (int (size M))) M"
| spec_reserve: "dict_spec dflt (DictReserve n) M DictDone M"
| spec_clear: "dict_spec dflt DictClear M DictDone {#}"
| spec_copy: "dict_spec dflt DictCopy M DictDone M"
| spec_items: "mset kvs = M \<Longrightarrow> dict_spec dflt DictItems M (DictList kvs) M"

lemmas dict_spec_rules = dict_spec.intros

inductive_cases spec_try_addE: "dict_spec dflt (DictTryAdd k v) M r M'"
inductive_cases spec_removeE: "dict_spec dflt (DictRemove k) M r M'"
inductive_simps spec_try_get: "dict_spec dflt (DictTryGet k) M (DictValue r) M'"

text \<open>One operation.  A reserved size must be one an index can reach.\<close>

definition dict_op_ok :: "('k, 'v) dict_op \<Rightarrow> bool" where
  "dict_op_ok op = (case op of DictReserve n \<Rightarrow> n < 2 ^ 31 | _ \<Rightarrow> True)"

lemma dict_exec_ok:
  assumes ok: "dict_ok H d" and small: "mCount d < 2 ^ 30" and op: "dict_op_ok op"
  shows "\<exists>r d'. dict_exec H dflt op d = Some (r, d') \<and> dict_ok H d' \<and> mCount d' \<le> mCount d + 1 \<and>
    dict_spec dflt op (dict_abs d) r (dict_abs d')" (is "?goal")
proof -
  have I: ?goal if "dict_exec H dflt op d = Some (r, d')" "dict_ok H d'" "mCount d' \<le> mCount d + 1"
    "dict_spec dflt op (dict_abs d) r (dict_abs d')" for r d' using that by blast
  show ?thesis
  proof (cases op)
    case (DictForceAdd k v)
    from ForceAdd_ok [OF ok small, of k v] obtain d' where "ForceAdd H k v d = Some d'" "dict_ok H d'"
      "dict_abs d' = add_mset (k, v) (dict_abs d)" "mCount d' \<le> mCount d + 1" by blast
    then show ?thesis using DictForceAdd by (intro I [of DictDone d']) (simp_all add: dict_exec_def spec_force)
  next
    case (DictTryAdd k v)
    let ?new = "\<forall>w. (k, w) \<notin># dict_abs d"
    from TryAdd_ok [OF ok small, of k v] obtain d' where d': "TryAdd H k v d = Some (?new, d')" "dict_ok H d'"
      "mCount d' \<le> mCount d + 1" "dict_abs d' = (if ?new then add_mset (k, v) (dict_abs d) else dict_abs d)" by blast
    have "dict_spec dflt op (dict_abs d) (DictBool ?new) (dict_abs d')" 
    proof (cases ?new)
      case True
      with d'(4) show ?thesis using spec_try_new [OF True, of dflt v] DictTryAdd by simp
    next
      case False
      then obtain w where w: "(k, w) \<in># dict_abs d" by blast
      have eq: "dict_abs d' = dict_abs d" "?new = False" using False d'(4) w by auto
      show ?thesis unfolding eq DictTryAdd by (rule spec_try_old [OF w])
    qed
    then show ?thesis using DictTryAdd d' by (intro I [of "DictBool ?new" d']) (simp_all add: dict_exec_def)
  next
    case (DictIndex k)
    let ?new = "\<forall>w. (k, w) \<notin># dict_abs d"
    from get_or_add_ok [OF ok small, of dflt k] obtain i d' w where g: "get_or_add H dflt k d = Some (i, d')" "dict_ok H d'"
      "value_at i d' = Some w" "(k, w) \<in># dict_abs d'" "mCount d' \<le> mCount d + 1"
      "dict_abs d' = (if ?new then add_mset (k, dflt) (dict_abs d) else dict_abs d)" by blast
    have "dict_spec dflt op (dict_abs d) (DictValue (Some w)) (dict_abs d')"
    proof (cases ?new)
      case True
      with g(4,6) have "w = dflt" by auto
      then show ?thesis using spec_index_new [OF True] True g(6) DictIndex by simp
    next
      case False
      then have "dict_abs d' = dict_abs d" using g(6) by simp
      then show ?thesis using spec_index_old [of k w "dict_abs d" dflt] g(4) DictIndex by simp
    qed
    then show ?thesis using DictIndex g by (intro I [of "DictValue (Some w)" d']) (simp_all add: dict_exec_def)
  next
    case (DictTryGet k)
    from TryGetValue_ok [OF ok, of k] obtain r where r: "TryGetValue H k d = Some r"
      "case r of None \<Rightarrow> \<forall>v. (k, v) \<notin># dict_abs d | Some v \<Rightarrow> (k, v) \<in># dict_abs d" by blast
    have "dict_spec dflt op (dict_abs d) (DictValue r) (dict_abs d)"
      using r(2) unfolding DictTryGet by (cases r) (simp_all add: spec_get_none spec_get_some)
    then show ?thesis using DictTryGet r(1) ok by (intro I [of "DictValue r" d]) (simp_all add: dict_exec_def)
  next
    case (DictContains k)
    from TryGetValue_ok [OF ok, of k] obtain r where r: "ContainsKey H k d = Some (r \<noteq> None)"
      "case r of None \<Rightarrow> \<forall>v. (k, v) \<notin># dict_abs d | Some v \<Rightarrow> (k, v) \<in># dict_abs d" by blast
    then have "(r \<noteq> None) = (\<exists>w. (k, w) \<in># dict_abs d)" by (auto split: option.splits)
    then show ?thesis using DictContains r(1) ok spec_contains [of dflt k "dict_abs d"]
      by (intro I [of "DictBool (\<exists>w. (k, w) \<in># dict_abs d)" d]) (simp_all add: dict_exec_def)
  next
    case (DictRemove k)
    from Remove_ok [OF ok, of k] consider
      v d' where "Remove H k d = Some (True, d')" "dict_ok H d'" "mCount d' = mCount d" "dict_abs d = add_mset (k, v) (dict_abs d')"
      | "Remove H k d = Some (False, d)" "\<forall>v. (k, v) \<notin># dict_abs d" by blast
    then show ?thesis
    proof cases
      case 1
      then show ?thesis using DictRemove spec_remove_some [of dflt k v "dict_abs d'"]
        by (intro I [of "DictBool True" d']) (simp_all add: dict_exec_def)
    next
      case 2
      then show ?thesis using DictRemove ok spec_remove_none [OF 2(2), of dflt]
        by (intro I [of "DictBool False" d]) (simp_all add: dict_exec_def)
    qed
  next
    case (DictRemovePair k v)
    from Remove_pair_ok [OF ok, of k v] obtain d' where d': "Remove_pair H k v d = Some ((k, v) \<in># dict_abs d, d')"
      "dict_ok H d'" "mCount d' = mCount d" "dict_abs d' = dict_abs d - {#(k, v)#}" by blast
    then show ?thesis using DictRemovePair spec_remove_pair [of dflt k v "dict_abs d"]
      by (intro I [of "DictBool ((k, v) \<in># dict_abs d)" d']) (simp_all add: dict_exec_def)
  next
    case DictCount
    then show ?thesis using GetCount_ok [OF ok] ok spec_count [of dflt "dict_abs d"]
      by (intro I [of "DictNumber (GetCount d)" d]) (simp_all add: dict_exec_def)
  next
    case (DictReserve n)
    from op DictReserve have "n < 2 ^ 31" by (simp add: dict_op_ok_def)
    from Reserve_ok [OF ok this] obtain d' where "Reserve H n d = Some d'" "dict_ok H d'" "dict_abs d' = dict_abs d"
      "mCount d' = mCount d" by blast
    then show ?thesis using DictReserve by (intro I [of DictDone d']) (simp_all add: dict_exec_def spec_reserve)
  next
    case DictClear
    have "0 \<le> mCount d" using ok by (auto simp: dict_ok_def dict_rep_def dict_null_def)
    then show ?thesis using DictClear Clear_ok [OF ok] by (intro I [of DictDone "Clear d"]) (simp_all add: dict_exec_def spec_clear)
  next
    case DictCopy
    then show ?thesis using dict_copy_ok [OF ok] by (intro I [of DictDone "dict_copy H d"]) (simp_all add: dict_exec_def spec_copy)
  next
    case DictItems
    from dict_items_ok [OF ok] obtain kvs where "dict_items d = Some kvs" "mset kvs = dict_abs d" by blast
    then show ?thesis using DictItems ok by (intro I [of "DictList kvs" d]) (simp_all add: dict_exec_def spec_items)
  qed
qed

section \<open>Sequences of operations\<close>

primrec dict_run ::
  "('k, 'v) dict_args \<Rightarrow> 'v \<Rightarrow> ('k, 'v) dict_op list \<Rightarrow> ('k, 'v) dict \<Rightarrow> (('k, 'v) dict_result list \<times> ('k, 'v) dict) option" where
  "dict_run H dflt [] d = Some ([], d)"
| "dict_run H dflt (op # ops) d = do {
     (r, d1) \<leftarrow> dict_exec H dflt op d;
     (rs, d2) \<leftarrow> dict_run H dflt ops d1;
     Some (r # rs, d2) }"

inductive dict_spec_run ::
  "'v \<Rightarrow> ('k, 'v) dict_op list \<Rightarrow> ('k \<times> 'v) multiset \<Rightarrow> ('k, 'v) dict_result list \<Rightarrow> ('k \<times> 'v) multiset \<Rightarrow> bool" for dflt where
  spec_run_Nil: "dict_spec_run dflt [] M [] M"
| spec_run_Cons: "dict_spec dflt op M r M1 \<Longrightarrow> dict_spec_run dflt ops M1 rs M2 \<Longrightarrow> dict_spec_run dflt (op # ops) M (r # rs) M2"

inductive_simps spec_run_simps: "dict_spec_run dflt [] M rs M'" "dict_spec_run dflt (op # ops) M rs M'"

lemma dict_run_ok:
  "dict_ok H d \<Longrightarrow> mCount d + int (length ops) \<le> 2 ^ 30 \<Longrightarrow> list_all dict_op_ok ops \<Longrightarrow>
   \<exists>rs d'. dict_run H dflt ops d = Some (rs, d') \<and> dict_ok H d' \<and> dict_spec_run dflt ops (dict_abs d) rs (dict_abs d')"
proof (induction ops arbitrary: d)
  case Nil
  then show ?case by (simp add: spec_run_Nil)
next
  case (Cons op ops)
  have "mCount d < 2 ^ 30" "dict_op_ok op" using Cons.prems(2,3) by simp_all
  from dict_exec_ok [OF Cons.prems(1) this, of dflt] obtain r d1 where
    d1: "dict_exec H dflt op d = Some (r, d1)" "dict_ok H d1" "mCount d1 \<le> mCount d + 1" "dict_spec dflt op (dict_abs d) r (dict_abs d1)" by blast
  have "mCount d1 + int (length ops) \<le> 2 ^ 30" "list_all dict_op_ok ops" using d1(3) Cons.prems(2,3) by simp_all
  from Cons.IH [OF d1(2) this] obtain rs d' where
    "dict_run H dflt ops d1 = Some (rs, d')" "dict_ok H d'" "dict_spec_run dflt ops (dict_abs d1) rs (dict_abs d')" by blast
  with d1(1,4) show ?case by (intro exI [of _ "r # rs"] exI [of _ d']) (simp add: spec_run_Cons)
qed

lemma dict_empty_ok: "dict_ok H dict_empty" "dict_abs dict_empty = {#}" "mCount dict_empty = 0"
  by (simp_all add: dict_ok_def dict_null_def dict_empty_def dict_abs_def used_indices_def)

text \<open>A hash function under which the small keys of the examples collide.\<close>

definition demo_args :: "(int, int) dict_args" where
  "demo_args = \<lparr>BeefHash = \<lambda>k. word_of_int (k mod 4), raw_entry = \<lparr>mKey = None, mValue = None, mNext = 0, mHashCode = 0\<rparr>\<rparr>"

definition demo_ops :: "(int, int) dict_op list" where
  "demo_ops = [DictTryAdd 1 10, DictTryAdd 5 50, DictForceAdd 9 90, DictTryAdd 5 51, DictRemove 5, DictTryGet 9, DictIndex 13, DictCount, DictItems]"

text \<open>
  C29 (The hash table is a multiset of pairs).  Any sequence of at most \<open>2 ^ 30\<close> calls of \<open>ForceAdd\<close>,
  \<open>TryAdd\<close>, \<open>operator[]\<close>, \<open>TryGetValue\<close>, \<open>ContainsKey\<close>, both \<open>Remove\<close>, \<open>GetCount\<close>, \<open>Reserve\<close>, \<open>Clear\<close>, the copy
  constructor and a range \<open>for\<close>, on an empty dictionary, runs to its end: no access leaves an array and no walk
  along a chain fails to end, whatever the hash function.  Each result and each new content is one that the
  multiset of pairs allows.
\<close>

theorem dict_refines:
  assumes "length ops \<le> 2 ^ 30" and "list_all dict_op_ok ops"
  shows "\<exists>rs d. dict_run H dflt ops dict_empty = Some (rs, d) \<and> dict_ok H d \<and> dict_spec_run dflt ops {#} rs (dict_abs d)"
proof -
  have "mCount (dict_empty :: ('a, 'b) dict) + int (length ops) \<le> 2 ^ 30" using assms(1) by (simp add: dict_empty_ok(3))
  from dict_run_ok [OF dict_empty_ok(1) this assms(2)] show ?thesis by (simp add: dict_empty_ok(2))
qed

lemma dict_refines_witness:
  "list_all dict_op_ok demo_ops \<and>
   (\<exists>rs d. dict_run demo_args 0 demo_ops dict_empty = Some (rs, d) \<and> dict_spec_run 0 demo_ops {#} rs (dict_abs d))"
  using dict_refines [of demo_ops demo_args 0] by (auto simp: demo_ops_def dict_op_ok_def)

section \<open>The dictionary as a map\<close>

text \<open>What a store of a map promises: lookup, insertion of a new key and removal.\<close>

locale map_store =
  fixes get :: "'k \<Rightarrow> 's \<Rightarrow> 'v option option"
    and add :: "'k \<Rightarrow> 'v \<Rightarrow> 's \<Rightarrow> (bool \<times> 's) option"
    and del :: "'k \<Rightarrow> 's \<Rightarrow> (bool \<times> 's) option"
    and inv :: "'s \<Rightarrow> bool"
    and used :: "'s \<Rightarrow> int"
    and cap :: int
    and view :: "'s \<Rightarrow> 'k \<rightharpoonup> 'v"
  assumes get_law: "inv s \<Longrightarrow> get k s = Some (view s k)"
    and add_law: "inv s \<Longrightarrow> used s < cap \<Longrightarrow>
      \<exists>s'. add k v s = Some (view s k = None, s') \<and> inv s' \<and> used s' \<le> used s + 1 \<and>
        view s' = (if view s k = None then (view s)(k \<mapsto> v) else view s)"
    and del_law: "inv s \<Longrightarrow> \<exists>s'. del k s = Some (view s k \<noteq> None, s') \<and> inv s' \<and> used s' = used s \<and> view s' = (view s)(k := None)"

text \<open>A store that can also be listed.\<close>

locale listed_store = map_store get add del inv used cap view
  for get :: "'k \<Rightarrow> 's \<Rightarrow> 'v option option" and add del inv used cap view +
  fixes items :: "'s \<Rightarrow> ('k \<times> 'v) list option"
  assumes items_law: "inv s \<Longrightarrow> \<exists>kvs. items s = Some kvs \<and> distinct (map fst kvs) \<and> map_of kvs = view s"

datatype ('k, 'v) map_op = MapAdd 'k 'v | MapDel 'k | MapGet 'k

datatype 'v map_result = MapBool bool | MapValue "'v option"

text \<open>The operations on a map, and the calls of a store.\<close>

definition map_sem :: "('k, 'v) map_op \<Rightarrow> ('k \<rightharpoonup> 'v) \<Rightarrow> 'v map_result \<times> ('k \<rightharpoonup> 'v)" where
  "map_sem op m =
     (case op of
        MapAdd k v \<Rightarrow> if m k = None then (MapBool True, m(k \<mapsto> v)) else (MapBool False, m)
      | MapDel k \<Rightarrow> (MapBool (m k \<noteq> None), m(k := None))
      | MapGet k \<Rightarrow> (MapValue (m k), m))"

primrec map_run :: "('k, 'v) map_op list \<Rightarrow> ('k \<rightharpoonup> 'v) \<Rightarrow> 'v map_result list \<times> ('k \<rightharpoonup> 'v)" where
  "map_run [] m = ([], m)"
| "map_run (op # ops) m = (let (r, m1) = map_sem op m; (rs, m2) = map_run ops m1 in (r # rs, m2))"

definition store_exec ::
  "('k \<Rightarrow> 's \<Rightarrow> 'v option option) \<Rightarrow> ('k \<Rightarrow> 'v \<Rightarrow> 's \<Rightarrow> (bool \<times> 's) option) \<Rightarrow> ('k \<Rightarrow> 's \<Rightarrow> (bool \<times> 's) option) \<Rightarrow>
   ('k, 'v) map_op \<Rightarrow> 's \<Rightarrow> ('v map_result \<times> 's) option" where
  "store_exec get add del op s =
     (case op of
        MapAdd k v \<Rightarrow> map_option (\<lambda>(b, s1). (MapBool b, s1)) (add k v s)
      | MapDel k \<Rightarrow> map_option (\<lambda>(b, s1). (MapBool b, s1)) (del k s)
      | MapGet k \<Rightarrow> map_option (\<lambda>v. (MapValue v, s)) (get k s))"

primrec store_run ::
  "('k \<Rightarrow> 's \<Rightarrow> 'v option option) \<Rightarrow> ('k \<Rightarrow> 'v \<Rightarrow> 's \<Rightarrow> (bool \<times> 's) option) \<Rightarrow> ('k \<Rightarrow> 's \<Rightarrow> (bool \<times> 's) option) \<Rightarrow>
   ('k, 'v) map_op list \<Rightarrow> 's \<Rightarrow> ('v map_result list \<times> 's) option" where
  "store_run get add del [] s = Some ([], s)"
| "store_run get add del (op # ops) s = do {
     (r, s1) \<leftarrow> store_exec get add del op s;
     (rs, s2) \<leftarrow> store_run get add del ops s1;
     Some (r # rs, s2) }"

context map_store
begin

lemma exec_sem:
  assumes "inv s" "used s < cap"
  shows "\<exists>s'. store_exec get add del op s = Some (fst (map_sem op (view s)), s') \<and> inv s' \<and> used s' \<le> used s + 1 \<and>
    view s' = snd (map_sem op (view s))"
proof (cases op)
  case (MapAdd k v)
  from add_law [OF assms, of k v] obtain s' where "add k v s = Some (view s k = None, s')" "inv s'" "used s' \<le> used s + 1"
    "view s' = (if view s k = None then (view s)(k \<mapsto> v) else view s)" by blast
  then show ?thesis using MapAdd by (cases "view s k") (simp_all add: store_exec_def map_sem_def)
next
  case (MapDel k)
  from del_law [OF assms(1), of k] obtain s' where "del k s = Some (view s k \<noteq> None, s')" "inv s'" "used s' = used s"
    "view s' = (view s)(k := None)" by blast
  then show ?thesis using MapDel by (simp add: store_exec_def map_sem_def)
next
  case (MapGet k)
  then show ?thesis using get_law [OF assms(1), of k] assms(1) by (simp add: store_exec_def map_sem_def)
qed

lemma run_sem:
  "inv s \<Longrightarrow> used s + int (length ops) \<le> cap \<Longrightarrow>
   \<exists>s'. store_run get add del ops s = Some (fst (map_run ops (view s)), s') \<and> inv s' \<and> view s' = snd (map_run ops (view s))"
proof (induction ops arbitrary: s)
  case Nil
  then show ?case by simp
next
  case (Cons op ops)
  have "used s < cap" using Cons.prems(2) by simp
  from exec_sem [OF Cons.prems(1) this, of op] obtain s1 where
    s1: "store_exec get add del op s = Some (fst (map_sem op (view s)), s1)" "inv s1" "used s1 \<le> used s + 1"
      "view s1 = snd (map_sem op (view s))" by blast
  have "used s1 + int (length ops) \<le> cap" using s1(3) Cons.prems(2) by simp
  from Cons.IH [OF s1(2) this] s1(1,4) show ?case by (auto simp: split_beta)
qed

end

context listed_store
begin

lemma run_items:
  assumes "inv s" "used s + int (length ops) \<le> cap" and m: "m = map_run ops (view s)"
  shows "\<exists>s' kvs. store_run get add del ops s = Some (fst m, s') \<and>
    items s' = Some kvs \<and> distinct (map fst kvs) \<and> map_of kvs = snd m"
proof -
  from run_sem [OF assms(1,2)] obtain s' where
    s': "store_run get add del ops s = Some (fst m, s')" "inv s'" "view s' = snd m" unfolding m by blast
  from items_law [OF s'(2)] s'(1,3) show ?thesis by auto
qed

end

text \<open>The content as a map.\<close>

definition dict_pairs :: "('k, 'v) dict \<Rightarrow> ('k \<times> 'v) list" where
  "dict_pairs d = map (\<lambda>i. entry_pair (mEntries d ! i)) (used_indices d)"

definition dict_map :: "('k, 'v) dict \<Rightarrow> 'k \<rightharpoonup> 'v" where
  "dict_map d = map_of (dict_pairs d)"

definition dict_inv :: "('k, 'v) dict_args \<Rightarrow> ('k, 'v) dict \<Rightarrow> bool" where
  "dict_inv H d \<longleftrightarrow> dict_ok H d \<and> distinct (map fst (dict_pairs d))"

lemma mset_dict_pairs: "mset (dict_pairs d) = dict_abs d"
  by (simp add: dict_pairs_def dict_abs_def)

lemma same_pairs:
  assumes m: "mset xs = mset ys" and d: "distinct (map fst ys)"
  shows "distinct (map fst xs)" "map_of xs = map_of ys"
proof -
  have "mset (map fst xs) = mset (map fst ys)" using m by simp
  from distinct_by_mset [OF this d] show dx: "distinct (map fst xs)" .
  from m have "set xs = set ys" by (rule mset_eq_setD)
  then show "map_of xs = map_of ys" using map_of_inject_set [OF dx d] by simp
qed

lemma dict_map_iff: "dict_inv H d \<Longrightarrow> dict_map d k = Some v \<longleftrightarrow> (k, v) \<in># dict_abs d"
  unfolding dict_inv_def dict_map_def mset_dict_pairs [symmetric] by simp

lemma dict_map_none: "dict_map d k = None \<longleftrightarrow> (\<forall>v. (k, v) \<notin># dict_abs d)"
  unfolding dict_map_def mset_dict_pairs [symmetric] map_of_eq_None_iff by force

lemma dict_get_law:
  assumes "dict_inv H d"
  shows "TryGetValue H k d = Some (dict_map d k)"
proof -
  have "dict_ok H d" using assms by (simp add: dict_inv_def)
  from TryGetValue_ok [OF this, of k] obtain r where r: "TryGetValue H k d = Some r"
    "case r of None \<Rightarrow> \<forall>v. (k, v) \<notin># dict_abs d | Some v \<Rightarrow> (k, v) \<in># dict_abs d" by blast
  have "r = dict_map d k"
  proof (cases r)
    case None
    with r(2) show ?thesis using dict_map_none [of d k] by simp
  next
    case (Some v)
    with r(2) have "(k, v) \<in># dict_abs d" by simp
    then show ?thesis using dict_map_iff [OF assms, of k v] Some by simp
  qed
  with r(1) show ?thesis by simp
qed

lemma dict_add_law:
  assumes inv: "dict_inv H d" and small: "mCount d < 2 ^ 30"
  shows "\<exists>d'. TryAdd H k v d = Some (dict_map d k = None, d') \<and> dict_inv H d' \<and> mCount d' \<le> mCount d + 1 \<and>
    dict_map d' = (if dict_map d k = None then (dict_map d)(k \<mapsto> v) else dict_map d)"
proof -
  have ok: "dict_ok H d" and ds: "distinct (map fst (dict_pairs d))" using inv by (simp_all add: dict_inv_def)
  from TryAdd_ok [OF ok small, of k v] obtain d' where d': "TryAdd H k v d = Some (dict_map d k = None, d')" "dict_ok H d'"
    "mCount d' \<le> mCount d + 1" "dict_abs d' = (if dict_map d k = None then add_mset (k, v) (dict_abs d) else dict_abs d)"
    unfolding dict_map_none by blast
  let ?ps = "if dict_map d k = None then (k, v) # dict_pairs d else dict_pairs d"
  have "mset (dict_pairs d') = mset ?ps" using d'(4) by (simp add: mset_dict_pairs)
  moreover have "distinct (map fst ?ps)" using ds unfolding dict_map_def map_of_eq_None_iff by auto
  ultimately have "distinct (map fst (dict_pairs d'))" "dict_map d' = map_of ?ps"
    unfolding dict_map_def [of d'] by (rule same_pairs)+
  then show ?thesis using d' by (intro exI [of _ d']) (simp add: dict_inv_def dict_map_def)
qed

lemma dict_del_law:
  assumes inv: "dict_inv H d"
  shows "\<exists>d'. Remove H k d = Some (dict_map d k \<noteq> None, d') \<and> dict_inv H d' \<and> mCount d' = mCount d \<and>
    dict_map d' = (dict_map d)(k := None)"
proof -
  have ok: "dict_ok H d" and ds: "distinct (map fst (dict_pairs d))" using inv by (simp_all add: dict_inv_def)
  from Remove_ok [OF ok, of k] consider
    v d' where "Remove H k d = Some (True, d')" "dict_ok H d'" "mCount d' = mCount d" "dict_abs d = add_mset (k, v) (dict_abs d')"
    | "Remove H k d = Some (False, d)" "\<forall>v. (k, v) \<notin># dict_abs d" by blast
  then show ?thesis
  proof cases
    case 1
    have m: "mset ((k, v) # dict_pairs d') = mset (dict_pairs d)" using 1(4) by (simp add: mset_dict_pairs)
    from same_pairs [OF m ds] have d2: "distinct (map fst (dict_pairs d'))" "k \<notin> fst ` set (dict_pairs d')"
      and eq: "dict_map d = (dict_map d')(k \<mapsto> v)" by (simp_all add: dict_map_def)
    then have "dict_map d' k = None" by (simp add: dict_map_def map_of_eq_None_iff)
    then have "dict_map d' = (dict_map d)(k := None)" unfolding eq by auto
    then show ?thesis using 1(1-3) d2 eq by (intro exI [of _ d']) (simp add: dict_inv_def)
  next
    case 2
    then have "dict_map d k = None" by (simp add: dict_map_none)
    then show ?thesis using 2(1) inv by (intro exI [of _ d]) auto
  qed
qed

interpretation dict_store: listed_store "TryGetValue H" "TryAdd H" "Remove H" "dict_inv H" mCount "2 ^ 30" dict_map dict_items for H
proof
  show "TryGetValue H k s = Some (dict_map s k)" if "dict_inv H s" for s k using that by (rule dict_get_law)
  show "\<exists>s'. TryAdd H k v s = Some (dict_map s k = None, s') \<and> dict_inv H s' \<and> mCount s' \<le> mCount s + 1 \<and>
      dict_map s' = (if dict_map s k = None then (dict_map s)(k \<mapsto> v) else dict_map s)"
    if "dict_inv H s" "mCount s < 2 ^ 30" for s k v using that by (rule dict_add_law)
  show "\<exists>s'. Remove H k s = Some (dict_map s k \<noteq> None, s') \<and> dict_inv H s' \<and> mCount s' = mCount s \<and> dict_map s' = (dict_map s)(k := None)"
    if "dict_inv H s" for s k using that by (rule dict_del_law)
  show "\<exists>kvs. dict_items s = Some kvs \<and> distinct (map fst kvs) \<and> map_of kvs = dict_map s" if inv: "dict_inv H s" for s
  proof -
    from inv have ok: "dict_ok H s" and ds: "distinct (map fst (dict_pairs s))" by (simp_all add: dict_inv_def)
    from dict_items_ok [OF ok] obtain kvs where kvs: "dict_items s = Some kvs" "mset kvs = dict_abs s" by blast
    from kvs(2) have "mset kvs = mset (dict_pairs s)" by (simp add: mset_dict_pairs)
    from same_pairs [OF this ds] kvs(1) show ?thesis by (simp add: dict_map_def)
  qed
qed

lemma dict_empty_map: "dict_inv H dict_empty" "dict_map dict_empty = Map.empty"
  using dict_empty_ok(1) by (simp_all add: dict_inv_def dict_map_def dict_pairs_def used_indices_def dict_empty_def)

definition demo_map_ops :: "(int, int) map_op list" where
  "demo_map_ops = [MapAdd 1 10, MapAdd 5 50, MapAdd 5 51, MapDel 1, MapGet 5, MapAdd 9 90, MapDel 9, MapGet 1]"

text \<open>
  C30 (The hash table is a map).  A dictionary that is only filled by \<open>TryAdd\<close> answers any sequence of at most
  \<open>2 ^ 30\<close> calls of \<open>TryAdd\<close>, \<open>Remove\<close> and \<open>TryGetValue\<close> the way a finite map does, whatever the hash function
  and its collisions, and a range \<open>for\<close> afterwards visits every pair of that map once.
\<close>

theorem dict_is_map:
  assumes "length ops \<le> 2 ^ 30" and "m = map_run ops Map.empty"
  shows "\<exists>d kvs. store_run (TryGetValue H) (TryAdd H) (Remove H) ops dict_empty = Some (fst m, d) \<and>
    dict_items d = Some kvs \<and> distinct (map fst kvs) \<and> map_of kvs = snd m"
proof -
  have n: "mCount (dict_empty :: ('a, 'b) dict) + int (length ops) \<le> 2 ^ 30" using assms(1) by (simp add: dict_empty_ok(3))
  show ?thesis using dict_store.run_items [OF dict_empty_map(1) n, of m H] assms(2) by (simp add: dict_empty_map(2))
qed

lemma dict_is_map_witness:
  "\<exists>d kvs. store_run (TryGetValue demo_args) (TryAdd demo_args) (Remove demo_args) demo_map_ops dict_empty =
     Some ([MapBool True, MapBool True, MapBool False, MapBool True, MapValue (Some 50), MapBool True, MapBool True, MapValue None], d) \<and>
     dict_items d = Some kvs \<and> map_of kvs = [5 \<mapsto> 50]"
proof -
  have l: "length demo_map_ops \<le> 2 ^ 30" by (simp add: demo_map_ops_def)
  have m: "map_run demo_map_ops Map.empty =
    ([MapBool True, MapBool True, MapBool False, MapBool True, MapValue (Some 50), MapBool True, MapBool True, MapValue None], [5 \<mapsto> 50])"
    by (auto simp: demo_map_ops_def map_sem_def)
  from dict_is_map [OF l m [symmetric], of demo_args] show ?thesis by auto
qed

section \<open>Iterators of Find\<close>

text \<open>
  C31 (The iterator of \<open>Find\<close> does not advance).  \<open>Find\<close> makes its iterator with \<open>mIdx\<close> at the entry found, where
  \<open>MoveNext\<close> leaves it one behind.  So \<open>++\<close> stays at the entry, and \<open>Remove\<close> of this iterator gives back an
  iterator to the entry it has destroyed.
\<close>

theorem find_iterator_revisits:
  assumes ok: "dict_ok H d" and kv: "(k, v) \<in># dict_abs d"
  shows "\<exists>it it' d'. Find H k d = Some it \<and> MoveNext d it = Some it' \<and> mCurrentIdx it' = mCurrentIdx it \<and>
    Remove_iter it d = Some (it', d') \<and> map_option mHashCode (at (mEntries d') (mCurrentIdx it')) = Some (-1)"
proof -
  have "\<not> dict_null d" using kv dict_abs_null [of d] by auto
  then obtain bs cs fl where rep: "dict_rep H d bs cs fl" using ok by (auto simp: dict_ok_def)
  from find_key [OF rep, of k] kv obtain b as x ys where f: "b < length cs" "cs ! b = as @ x # ys"
    "find_in_bucket d (hash_code H k) (key_test (hash_code H k) k) = Some (Some (int x, if as = [] then -1 else int (last as)))" by blast
  have xc: "x \<in> set (concat cs)" using in_concat [OF f(1), of x] f(2) by simp
  have x: "x < nat (mCount d)" "0 \<le> mHashCode (mEntries d ! x)" using xc rep_used(1) [OF rep] by (auto simp: used_indices_def)
  then have l: "x < length (mEntries d)" using rep_length [OF ok] by simp
  let ?h = "mHashCode (mEntries d ! x)" let ?it = "\<lparr>mIdx = int x, mCurrentIdx = int x\<rparr>"
  have fi: "Find H k d = Some ?it" using f(3) by (simp add: Find_def FindEntry_def)
  have mv: "MoveNext d ?it = Some \<lparr>mIdx = int x + 1, mCurrentIdx = int x\<rparr>"
    using x l by (simp add: MoveNext_def next_used.simps at_def)
  from remove_found_ok [OF rep x(2), of "\<lambda>i e'. mHashCode e' = ?h \<and> i = int x"] xc obtain d' where
    d': "remove_found d ?h (\<lambda>i e'. mHashCode e' = ?h \<and> i = int x) = Some (Some (int x), d')" "dict_ok H d'" "same_but x d d'" by auto
  have rm: "Remove_iter ?it d = Some (\<lparr>mIdx = int x + 1, mCurrentIdx = int x\<rparr>, d')"
    unfolding Remove_iter_def mv using x(2) l d'(1) dict_repD(1) [OF rep] by (simp add: at_def)
  have "x < length (mEntries d')" using rep_length [OF d'(2)] d'(3) x(1) by (simp add: same_but_def)
  then show ?thesis using fi mv rm d'(3) by (simp add: same_but_def at_def)
qed

lemma find_iterator_witness:
  "\<exists>d it it' d'. TryAdd demo_args 1 10 dict_empty = Some (True, d) \<and> Find demo_args 1 d = Some it \<and> MoveNext d it = Some it' \<and>
     mCurrentIdx it' = mCurrentIdx it \<and> Remove_iter it d = Some (it', d')"
proof -
  have "mCount (dict_empty :: (int, int) dict) < 2 ^ 30" by (simp add: dict_empty_ok(3))
  from TryAdd_ok [OF dict_empty_ok(1) this, of demo_args 1 10] obtain d where d: "TryAdd demo_args 1 10 dict_empty = Some (True, d)"
    "dict_ok demo_args d" "(1, 10) \<in># dict_abs d" by (auto simp: dict_empty_ok(2))
  from find_iterator_revisits [OF d(2,3)] d(1) show ?thesis by blast
qed

end
