(* ===== verification/Bf_Token.thy ===== *)
theory Bf_Token
  imports Main
begin

text \<open>
  \<open>enum BfToken\<close> (\<^verbatim>\<open>Compiler/BfAst.h\<close>), its texts (\<open>BfTokenToString\<close> in \<^verbatim>\<open>Compiler/BfAst.cpp\<close>), and
  the keywords that \<open>BfParser::NextToken\<close> (\<^verbatim>\<open>Compiler/BfParser.cpp\<close>) looks for.  The enumeration is split
  into five runs, in its order: three of keywords, the assignments and comparisons, the other symbols.
\<close>

section \<open>Tokens\<close>

datatype (plugins only: size code) bf_keyword_af =
  BfToken_Abstract | BfToken_AlignOf | BfToken_AllocType | BfToken_Append | BfToken_As |
  BfToken_Asm | BfToken_AsmNewline | BfToken_Base | BfToken_Box | BfToken_Break |
  BfToken_Case | BfToken_Catch | BfToken_Checked | BfToken_Class | BfToken_Comptype |
  BfToken_Concrete | BfToken_Const | BfToken_Continue | BfToken_Decltype | BfToken_Default |
  BfToken_Defer | BfToken_Delegate | BfToken_Delete | BfToken_Do | BfToken_Else |
  BfToken_Enum | BfToken_Explicit | BfToken_Extern | BfToken_Extension | BfToken_Fallthrough |
  BfToken_Finally | BfToken_Fixed | BfToken_For | BfToken_Function

datatype (plugins only: size code) bf_keyword_gp =
  BfToken_Goto | BfToken_If | BfToken_Implicit | BfToken_In | BfToken_Inline |
  BfToken_Interface | BfToken_Internal | BfToken_Is | BfToken_IsConst | BfToken_Let |
  BfToken_Mixin | BfToken_Mut | BfToken_NameOf | BfToken_Namespace | BfToken_New |
  BfToken_Not | BfToken_Null | BfToken_Nullable | BfToken_OffsetOf | BfToken_Operator |
  BfToken_Out | BfToken_Override | BfToken_Params | BfToken_Private | BfToken_Protected |
  BfToken_Public

datatype (plugins only: size code) bf_keyword_rz =
  BfToken_ReadOnly | BfToken_Repeat | BfToken_Ref | BfToken_RetType | BfToken_Return |
  BfToken_Scope | BfToken_Sealed | BfToken_SizeOf | BfToken_Static | BfToken_StrideOf |
  BfToken_Struct | BfToken_Switch | BfToken_This | BfToken_Throw | BfToken_Try |
  BfToken_TypeAlias | BfToken_TypeOf | BfToken_Unchecked | BfToken_Unsigned | BfToken_Using |
  BfToken_Var | BfToken_Virtual | BfToken_Volatile | BfToken_When | BfToken_Where |
  BfToken_While | BfToken_Yield

datatype (plugins only: size code) bf_assign_symbol =
  BfToken_AssignEquals | BfToken_CompareEquals | BfToken_CompareStrictEquals |
  BfToken_CompareNotEquals | BfToken_CompareStrictNotEquals | BfToken_LessEquals |
  BfToken_GreaterEquals | BfToken_Spaceship | BfToken_PlusEquals | BfToken_MinusEquals |
  BfToken_MultiplyEquals | BfToken_DivideEquals | BfToken_ModulusEquals |
  BfToken_ShiftLeftEquals | BfToken_ShiftRightEquals | BfToken_AndEquals | BfToken_AndMinus |
  BfToken_AndPlus | BfToken_AndStar | BfToken_AndMinusEquals | BfToken_AndPlusEquals |
  BfToken_AndStarEquals | BfToken_OrEquals | BfToken_XorEquals | BfToken_NullCoalsceEquals

datatype (plugins only: size code) bf_punct_symbol =
  BfToken_LBrace | BfToken_RBrace | BfToken_LParen | BfToken_RParen | BfToken_LBracket |
  BfToken_RBracket | BfToken_LChevron | BfToken_RChevron | BfToken_LDblChevron |
  BfToken_RDblChevron | BfToken_Semicolon | BfToken_Colon | BfToken_ColonColon |
  BfToken_Comma | BfToken_Dot | BfToken_DotDot | BfToken_DotDotDot | BfToken_DotDotLess |
  BfToken_QuestionDot | BfToken_QuestionLBracket | BfToken_AutocompleteDot | BfToken_Plus |
  BfToken_Minus | BfToken_DblPlus | BfToken_DblMinus | BfToken_Star | BfToken_ForwardSlash |
  BfToken_Modulus | BfToken_Ampersand | BfToken_At | BfToken_DblAmpersand | BfToken_Bar |
  BfToken_DblBar | BfToken_Bang | BfToken_Carat | BfToken_Tilde | BfToken_Question |
  BfToken_DblQuestion | BfToken_Arrow | BfToken_FatArrow

datatype (plugins only: size code) bf_token =
  BfToken_None | KwA bf_keyword_af | KwG bf_keyword_gp | KwR bf_keyword_rz | Asg bf_assign_symbol | Pun bf_punct_symbol

section \<open>Texts\<close>

text \<open>\<open>None\<close> is the \<open>BF_FATAL\<close> at the end of \<open>BfTokenToString\<close>.\<close>

fun keyword_af_text :: "bf_keyword_af \<Rightarrow> string option" where
  "keyword_af_text BfToken_Abstract = Some ''abstract''"
| "keyword_af_text BfToken_AlignOf = Some ''alignof''"
| "keyword_af_text BfToken_AllocType = Some ''alloctype''"
| "keyword_af_text BfToken_Append = Some ''append''"
| "keyword_af_text BfToken_As = Some ''as''"
| "keyword_af_text BfToken_Asm = Some ''asm''"
| "keyword_af_text BfToken_AsmNewline = Some [CHR 0x0A]"
| "keyword_af_text BfToken_Base = Some ''base''"
| "keyword_af_text BfToken_Box = Some ''box''"
| "keyword_af_text BfToken_Break = Some ''break''"
| "keyword_af_text BfToken_Case = Some ''case''"
| "keyword_af_text BfToken_Catch = Some ''catch''"
| "keyword_af_text BfToken_Checked = Some ''checked''"
| "keyword_af_text BfToken_Class = Some ''class''"
| "keyword_af_text BfToken_Comptype = Some ''comptype''"
| "keyword_af_text BfToken_Concrete = Some ''concrete''"
| "keyword_af_text BfToken_Const = Some ''const''"
| "keyword_af_text BfToken_Continue = Some ''continue''"
| "keyword_af_text BfToken_Decltype = Some ''decltype''"
| "keyword_af_text BfToken_Default = Some ''default''"
| "keyword_af_text BfToken_Defer = Some ''defer''"
| "keyword_af_text BfToken_Delegate = Some ''delegate''"
| "keyword_af_text BfToken_Delete = Some ''delete''"
| "keyword_af_text BfToken_Do = Some ''do''"
| "keyword_af_text BfToken_Else = Some ''else''"
| "keyword_af_text BfToken_Enum = Some ''enum''"
| "keyword_af_text BfToken_Explicit = Some ''explicit''"
| "keyword_af_text BfToken_Extern = Some ''extern''"
| "keyword_af_text BfToken_Extension = Some ''extension''"
| "keyword_af_text BfToken_Fallthrough = Some ''fallthrough''"
| "keyword_af_text BfToken_Finally = Some ''finally''"
| "keyword_af_text BfToken_Fixed = Some ''fixed''"
| "keyword_af_text BfToken_For = Some ''for''"
| "keyword_af_text BfToken_Function = Some ''function''"

fun keyword_gp_text :: "bf_keyword_gp \<Rightarrow> string option" where
  "keyword_gp_text BfToken_Goto = Some ''goto''"
| "keyword_gp_text BfToken_If = Some ''if''"
| "keyword_gp_text BfToken_Implicit = Some ''implicit''"
| "keyword_gp_text BfToken_In = Some ''in''"
| "keyword_gp_text BfToken_Inline = None"
| "keyword_gp_text BfToken_Interface = Some ''interface''"
| "keyword_gp_text BfToken_Internal = Some ''internal''"
| "keyword_gp_text BfToken_Is = Some ''is''"
| "keyword_gp_text BfToken_IsConst = Some ''isconst''"
| "keyword_gp_text BfToken_Let = Some ''let''"
| "keyword_gp_text BfToken_Mixin = Some ''mixin''"
| "keyword_gp_text BfToken_Mut = Some ''mut''"
| "keyword_gp_text BfToken_NameOf = Some ''nameof''"
| "keyword_gp_text BfToken_Namespace = Some ''namespace''"
| "keyword_gp_text BfToken_New = Some ''new''"
| "keyword_gp_text BfToken_Not = Some ''not''"
| "keyword_gp_text BfToken_Null = Some ''null''"
| "keyword_gp_text BfToken_Nullable = Some ''nullable''"
| "keyword_gp_text BfToken_OffsetOf = Some ''offsetof''"
| "keyword_gp_text BfToken_Operator = Some ''operator''"
| "keyword_gp_text BfToken_Out = Some ''out''"
| "keyword_gp_text BfToken_Override = Some ''override''"
| "keyword_gp_text BfToken_Params = Some ''params''"
| "keyword_gp_text BfToken_Private = Some ''private''"
| "keyword_gp_text BfToken_Protected = Some ''protected''"
| "keyword_gp_text BfToken_Public = Some ''public''"

fun keyword_rz_text :: "bf_keyword_rz \<Rightarrow> string option" where
  "keyword_rz_text BfToken_ReadOnly = Some ''readonly''"
| "keyword_rz_text BfToken_Repeat = Some ''repeat''"
| "keyword_rz_text BfToken_Ref = Some ''ref''"
| "keyword_rz_text BfToken_RetType = Some ''rettype''"
| "keyword_rz_text BfToken_Return = Some ''return''"
| "keyword_rz_text BfToken_Scope = Some ''scope''"
| "keyword_rz_text BfToken_Sealed = Some ''sealed''"
| "keyword_rz_text BfToken_SizeOf = Some ''sizeof''"
| "keyword_rz_text BfToken_Static = Some ''static''"
| "keyword_rz_text BfToken_StrideOf = Some ''strideof''"
| "keyword_rz_text BfToken_Struct = Some ''struct''"
| "keyword_rz_text BfToken_Switch = Some ''switch''"
| "keyword_rz_text BfToken_This = Some ''this''"
| "keyword_rz_text BfToken_Throw = Some ''throw''"
| "keyword_rz_text BfToken_Try = Some ''try''"
| "keyword_rz_text BfToken_TypeAlias = Some ''typealias''"
| "keyword_rz_text BfToken_TypeOf = Some ''typeof''"
| "keyword_rz_text BfToken_Unchecked = Some ''unchecked''"
| "keyword_rz_text BfToken_Unsigned = Some ''unsigned''"
| "keyword_rz_text BfToken_Using = Some ''using''"
| "keyword_rz_text BfToken_Var = Some ''var''"
| "keyword_rz_text BfToken_Virtual = Some ''virtual''"
| "keyword_rz_text BfToken_Volatile = Some ''volatile''"
| "keyword_rz_text BfToken_When = Some ''when''"
| "keyword_rz_text BfToken_Where = Some ''where''"
| "keyword_rz_text BfToken_While = Some ''while''"
| "keyword_rz_text BfToken_Yield = Some ''yield''"

fun assign_text :: "bf_assign_symbol \<Rightarrow> string option" where
  "assign_text BfToken_AssignEquals = Some ''=''"
| "assign_text BfToken_CompareEquals = Some ''==''"
| "assign_text BfToken_CompareStrictEquals = Some ''===''"
| "assign_text BfToken_CompareNotEquals = Some ''!=''"
| "assign_text BfToken_CompareStrictNotEquals = Some ''!==''"
| "assign_text BfToken_LessEquals = Some ''<=''"
| "assign_text BfToken_GreaterEquals = Some ''>=''"
| "assign_text BfToken_Spaceship = Some ''<=>''"
| "assign_text BfToken_PlusEquals = Some ''+=''"
| "assign_text BfToken_MinusEquals = Some ''-=''"
| "assign_text BfToken_MultiplyEquals = Some ''*=''"
| "assign_text BfToken_DivideEquals = Some ''/=''"
| "assign_text BfToken_ModulusEquals = Some ''%=''"
| "assign_text BfToken_ShiftLeftEquals = Some ''<<=''"
| "assign_text BfToken_ShiftRightEquals = Some ''>>=''"
| "assign_text BfToken_AndEquals = Some ''&=''"
| "assign_text BfToken_AndMinus = Some ''&-''"
| "assign_text BfToken_AndPlus = Some ''&+''"
| "assign_text BfToken_AndStar = Some ''&*''"
| "assign_text BfToken_AndMinusEquals = Some ''&-=''"
| "assign_text BfToken_AndPlusEquals = Some ''&+=''"
| "assign_text BfToken_AndStarEquals = Some ''&*=''"
| "assign_text BfToken_OrEquals = Some ''|=''"
| "assign_text BfToken_XorEquals = Some ''^=''"
| "assign_text BfToken_NullCoalsceEquals = Some ''??=''"

fun punct_text :: "bf_punct_symbol \<Rightarrow> string option" where
  "punct_text BfToken_LBrace = Some ''{''"
| "punct_text BfToken_RBrace = Some ''}''"
| "punct_text BfToken_LParen = Some ''(''"
| "punct_text BfToken_RParen = Some '')''"
| "punct_text BfToken_LBracket = Some ''[''"
| "punct_text BfToken_RBracket = Some '']''"
| "punct_text BfToken_LChevron = Some ''<''"
| "punct_text BfToken_RChevron = Some ''>''"
| "punct_text BfToken_LDblChevron = Some ''<<''"
| "punct_text BfToken_RDblChevron = Some ''>>''"
| "punct_text BfToken_Semicolon = Some '';''"
| "punct_text BfToken_Colon = Some '':''"
| "punct_text BfToken_ColonColon = Some ''::''"
| "punct_text BfToken_Comma = Some '',''"
| "punct_text BfToken_Dot = Some ''.''"
| "punct_text BfToken_DotDot = Some ''..''"
| "punct_text BfToken_DotDotDot = Some ''...''"
| "punct_text BfToken_DotDotLess = Some ''..<''"
| "punct_text BfToken_QuestionDot = Some ''?.''"
| "punct_text BfToken_QuestionLBracket = Some ''?[''"
| "punct_text BfToken_AutocompleteDot = Some ''.''"
| "punct_text BfToken_Plus = Some ''+''"
| "punct_text BfToken_Minus = Some ''-''"
| "punct_text BfToken_DblPlus = Some ''++''"
| "punct_text BfToken_DblMinus = Some ''--''"
| "punct_text BfToken_Star = Some ''*''"
| "punct_text BfToken_ForwardSlash = Some ''/''"
| "punct_text BfToken_Modulus = Some ''%''"
| "punct_text BfToken_Ampersand = Some ''&''"
| "punct_text BfToken_At = Some ''@''"
| "punct_text BfToken_DblAmpersand = Some ''&&''"
| "punct_text BfToken_Bar = Some ''|''"
| "punct_text BfToken_DblBar = Some ''||''"
| "punct_text BfToken_Bang = Some ''!''"
| "punct_text BfToken_Carat = Some ''^''"
| "punct_text BfToken_Tilde = Some ''~''"
| "punct_text BfToken_Question = Some ''?''"
| "punct_text BfToken_DblQuestion = Some ''??''"
| "punct_text BfToken_Arrow = Some ''->''"
| "punct_text BfToken_FatArrow = Some ''=>''"

definition BfTokenToString :: "bf_token \<Rightarrow> string option" where
  "BfTokenToString t =
     (case t of BfToken_None \<Rightarrow> None | KwA k \<Rightarrow> keyword_af_text k | KwG k \<Rightarrow> keyword_gp_text k | KwR k \<Rightarrow> keyword_rz_text k
              | Asg s \<Rightarrow> assign_text s | Pun s \<Rightarrow> punct_text s)"

text \<open>\<open>(token >= BfToken_Abstract) && (token <= BfToken_Yield)\<close>\<close>

definition BfTokenIsKeyword :: "bf_token \<Rightarrow> bool" where
  "BfTokenIsKeyword t = (case t of KwA k \<Rightarrow> True | KwG k \<Rightarrow> True | KwR k \<Rightarrow> True | _ \<Rightarrow> False)"

section \<open>Keywords\<close>

text \<open>The mode in which a keyword is one: always, not in compatibility mode, or only there.\<close>

datatype (plugins only: size code) bf_keyword_mode = KwAny | KwBeef | KwCompat

text \<open>
  The cases of the switch on the first four characters of a word (\<open>TOKEN_HASH\<close>), padded with \<open>NUL\<close>, with the
  words compared in each.  \<open>true\<close> and \<open>false\<close>, which make literals, are not listed.
\<close>

definition keyword_cases_af :: "(string \<times> (bf_keyword_mode \<times> string \<times> bf_token) list) list" where
  "keyword_cases_af = [
     (''abst'', [(KwBeef, ''abstract'', KwA BfToken_Abstract)]),
     (''allo'', [(KwAny, ''alloctype'', KwA BfToken_AllocType)]),
     (''alig'', [(KwAny, ''alignof'', KwA BfToken_AlignOf)]),
     (''appe'', [(KwBeef, ''append'', KwA BfToken_Append)]),
     (''as'' @ [CHR 0x00, CHR 0x00], [(KwBeef, ''as'', KwA BfToken_As)]),
     (''asm'' @ [CHR 0x00], [(KwAny, ''asm'', KwA BfToken_Asm)]),
     (''base'', [(KwAny, ''base'', KwA BfToken_Base)]),
     (''box'' @ [CHR 0x00], [(KwBeef, ''box'', KwA BfToken_Box)]),
     (''brea'', [(KwAny, ''break'', KwA BfToken_Break)]),
     (''case'', [(KwAny, ''case'', KwA BfToken_Case)]),
     (''catc'', [(KwAny, ''catch'', KwA BfToken_Catch)]),
     (''chec'', [(KwBeef, ''checked'', KwA BfToken_Checked)]),
     (''clas'', [(KwAny, ''class'', KwA BfToken_Class)]),
     (''comp'', [(KwBeef, ''comptype'', KwA BfToken_Comptype)]),
     (''conc'', [(KwBeef, ''concrete'', KwA BfToken_Concrete)]),
     (''cons'', [(KwAny, ''const'', KwA BfToken_Const)]),
     (''cont'', [(KwAny, ''continue'', KwA BfToken_Continue)]),
     (''decl'', [(KwAny, ''decltype'', KwA BfToken_Decltype)]),
     (''defa'', [(KwAny, ''default'', KwA BfToken_Default)]),
     (''defe'', [(KwBeef, ''defer'', KwA BfToken_Defer)]),
     (''dele'', [(KwBeef, ''delegate'', KwA BfToken_Delegate), (KwAny, ''delete'', KwA BfToken_Delete)]),
     (''do'' @ [CHR 0x00, CHR 0x00], [(KwAny, ''do'', KwA BfToken_Do)]),
     (''else'', [(KwAny, ''else'', KwA BfToken_Else)]),
     (''enum'', [(KwAny, ''enum'', KwA BfToken_Enum)]),
     (''expl'', [(KwBeef, ''explicit'', KwA BfToken_Explicit)]),
     (''exte'', [(KwAny, ''extern'', KwA BfToken_Extern), (KwBeef, ''extension'', KwA BfToken_Extension)]),
     (''fall'', [(KwBeef, ''fallthrough'', KwA BfToken_Fallthrough)]),
     (''fina'', [(KwAny, ''finally'', KwA BfToken_Finally)]),
     (''fixe'', [(KwAny, ''fixed'', KwA BfToken_Fixed)]),
     (''for'' @ [CHR 0x00], [(KwAny, ''for'', KwA BfToken_For)]),
     (''fore'', [(KwBeef, ''foreach'', KwA BfToken_For)]),
     (''func'', [(KwBeef, ''function'', KwA BfToken_Function)])]"

definition keyword_cases_go :: "(string \<times> (bf_keyword_mode \<times> string \<times> bf_token) list) list" where
  "keyword_cases_go = [
     (''goto'', [(KwAny, ''goto'', KwG BfToken_Goto)]),
     (''if'' @ [CHR 0x00, CHR 0x00], [(KwAny, ''if'', KwG BfToken_If)]),
     (''impl'', [(KwBeef, ''implicit'', KwG BfToken_Implicit)]),
     (''in'' @ [CHR 0x00, CHR 0x00], [(KwBeef, ''in'', KwG BfToken_In)]),
     (''inli'', [(KwBeef, ''inline'', KwG BfToken_Inline)]),
     (''inte'', [(KwBeef, ''interface'', KwG BfToken_Interface), (KwBeef, ''internal'', KwG BfToken_Internal)]),
     (''is'' @ [CHR 0x00, CHR 0x00], [(KwBeef, ''is'', KwG BfToken_Is)]),
     (''isco'', [(KwBeef, ''isconst'', KwG BfToken_IsConst)]),
     (''let'' @ [CHR 0x00], [(KwBeef, ''let'', KwG BfToken_Let)]),
     (''mixi'', [(KwBeef, ''mixin'', KwG BfToken_Mixin)]),
     (''mut'' @ [CHR 0x00], [(KwBeef, ''mut'', KwG BfToken_Mut)]),
     (''name'', [(KwAny, ''namespace'', KwG BfToken_Namespace), (KwAny, ''nameof'', KwG BfToken_NameOf)]),
     (''new'' @ [CHR 0x00], [(KwAny, ''new'', KwG BfToken_New)]),
     (''null'', [(KwAny, ''null'', KwG BfToken_Null), (KwAny, ''nullable'', KwG BfToken_Nullable)]),
     (''offs'', [(KwAny, ''offsetof'', KwG BfToken_OffsetOf)]),
     (''oper'', [(KwAny, ''operator'', KwG BfToken_Operator)]),
     (''out'' @ [CHR 0x00], [(KwBeef, ''out'', KwG BfToken_Out)]),
     (''over'', [(KwAny, ''override'', KwG BfToken_Override)])]"

definition keyword_cases_py :: "(string \<times> (bf_keyword_mode \<times> string \<times> bf_token) list) list" where
  "keyword_cases_py = [
     (''para'', [(KwBeef, ''params'', KwG BfToken_Params)]),
     (''priv'', [(KwAny, ''private'', KwG BfToken_Private)]),
     (''prot'', [(KwAny, ''protected'', KwG BfToken_Protected)]),
     (''publ'', [(KwAny, ''public'', KwG BfToken_Public)]),
     (''read'', [(KwBeef, ''readonly'', KwR BfToken_ReadOnly)]),
     (''ref'' @ [CHR 0x00], [(KwBeef, ''ref'', KwR BfToken_Ref)]),
     (''repe'', [(KwBeef, ''repeat'', KwR BfToken_Repeat)]),
     (''rett'', [(KwBeef, ''rettype'', KwR BfToken_RetType)]),
     (''retu'', [(KwAny, ''return'', KwR BfToken_Return)]),
     (''scop'', [(KwBeef, ''scope'', KwR BfToken_Scope)]),
     (''seal'', [(KwBeef, ''sealed'', KwR BfToken_Sealed)]),
     (''size'', [(KwAny, ''sizeof'', KwR BfToken_SizeOf)]),
     (''stat'', [(KwAny, ''static'', KwR BfToken_Static)]),
     (''stri'', [(KwAny, ''strideof'', KwR BfToken_StrideOf)]),
     (''stru'', [(KwAny, ''struct'', KwR BfToken_Struct)]),
     (''swit'', [(KwAny, ''switch'', KwR BfToken_Switch)]),
     (''this'', [(KwAny, ''this'', KwR BfToken_This)]),
     (''thro'', [(KwAny, ''throw'', KwR BfToken_Throw)]),
     (''try'' @ [CHR 0x00], [(KwAny, ''try'', KwR BfToken_Try)]),
     (''type'', [(KwAny, ''typeof'', KwR BfToken_TypeOf), (KwAny, ''typealias'', KwR BfToken_TypeAlias)]),
     (''unch'', [(KwAny, ''unchecked'', KwR BfToken_Unchecked)]),
     (''unsi'', [(KwCompat, ''unsigned'', KwR BfToken_Unsigned)]),
     (''usin'', [(KwAny, ''using'', KwR BfToken_Using)]),
     (''var'' @ [CHR 0x00], [(KwBeef, ''var'', KwR BfToken_Var)]),
     (''virt'', [(KwAny, ''virtual'', KwR BfToken_Virtual)]),
     (''vola'', [(KwAny, ''volatile'', KwR BfToken_Volatile)]),
     (''when'', [(KwAny, ''when'', KwR BfToken_When)]),
     (''wher'', [(KwAny, ''where'', KwR BfToken_Where)]),
     (''whil'', [(KwAny, ''while'', KwR BfToken_While)]),
     (''yiel'', [(KwBeef, ''yield'', KwR BfToken_Yield)])]"

definition keyword_cases :: "(string \<times> (bf_keyword_mode \<times> string \<times> bf_token) list) list" where
  "keyword_cases = keyword_cases_af @ keyword_cases_go @ keyword_cases_py"

end
