(* ===== verification/Beef_Utf8.thy ===== *)
theory Beef_Utf8
  imports Beef_Prelude
begin

text \<open>
  The UTF-8 functions of \<^verbatim>\<open>BeefySysLib/util/UTF8.cpp\<close> that work on one character.  A C string is a
  list of bytes with its terminator; \<open>None\<close> stands for a read outside of it, or outside of a table.
\<close>

unbundle bit_operations_syntax

section \<open>Reading bytes\<close>

definition rd :: "string \<Rightarrow> nat \<Rightarrow> char option" where
  "rd s i = (if i < length s then Some (s ! i) else None)"

text \<open>\<open>(unsigned char)c\<close> as an \<open>int\<close>\<close>

definition byte :: "char \<Rightarrow> nat" where
  "byte c = of_char c"

text \<open>\<open>#define isutf(c) (((c)&0xC0)!=0x80)\<close>\<close>

definition isutf :: "char \<Rightarrow> bool" where
  "isutf c \<longleftrightarrow> byte c AND 0xC0 \<noteq> 0x80"

text \<open>The table of the numbers of trailing bytes has these six runs.\<close>

definition trailingBytesForUTF8 :: "char \<Rightarrow> nat" where
  "trailingBytesForUTF8 c =
     (let b = byte c
      in if b < 0xC0 then 0 else if b < 0xE0 then 1 else if b < 0xF0 then 2
         else if b < 0xF8 then 3 else if b < 0xFC then 4 else 5)"

definition offsetsFromUTF8 :: "u32 list" where
  "offsetsFromUTF8 = [0x00000000, 0x00003080, 0x000E2080, 0x03C82080, 0xFA082080, 0x82082080]"

section \<open>Decoding\<close>

definition u8_seqlen_byte :: "char \<Rightarrow> nat" where
  "u8_seqlen_byte c = trailingBytesForUTF8 c + 1"

definition u8_seqlen :: "u32 \<Rightarrow> nat" where
  "u8_seqlen ch = (if ch < 0x80 then 1 else if ch < 0x800 then 2 else if ch < 0x10000 then 3 else if ch < 0x110000 then 4 else 5)"

text \<open>The falling cases of the switch: \<open>n + 1\<close> bytes, shifted by six bits each.\<close>

primrec u8_gather :: "string \<Rightarrow> nat \<Rightarrow> nat \<Rightarrow> u32 \<Rightarrow> u32 option" where
  "u8_gather s i 0 ch = do { c \<leftarrow> rd s i; Some (ch + word_of_nat (byte c)) }"
| "u8_gather s i (Suc n) ch = do { c \<leftarrow> rd s i; u8_gather s (Suc i) n (push_bit 6 (ch + word_of_nat (byte c))) }"

text \<open>
  \<open>u8_toucs(src, srcsz, outLen)\<close> on the bytes from position \<open>i\<close>, of which \<open>srcsz\<close> belong to the string: the
  character and the length.  A sequence of five or six bytes has no case in the switch.
\<close>

definition u8_toucs :: "string \<Rightarrow> nat \<Rightarrow> int \<Rightarrow> (u32 \<times> nat) option" where
  "u8_toucs s i srcsz = do {
     c \<leftarrow> rd s i;
     let nb = trailingBytesForUTF8 c;
     if (if srcsz = -1 then byte c = 0 else int nb \<ge> srcsz) then Some (0, nb + 1)
     else do {
       ch \<leftarrow> (if nb \<le> 3 then u8_gather s i nb 0 else Some 0);
       Some (ch - offsetsFromUTF8 ! nb, nb + 1) } }"

lemma u8_toucs_length: "u8_toucs s i k = Some (ch, n) \<Longrightarrow> 0 < n"
  by (auto simp: u8_toucs_def Let_def split: Option.bind_splits if_splits)

text \<open>\<open>u8_nextchar\<close>: the first byte and every continuation byte after it.\<close>

function nextchar_loop :: "string \<Rightarrow> nat \<Rightarrow> u32 \<Rightarrow> nat \<Rightarrow> (u32 \<times> nat \<times> nat) option" where
  "nextchar_loop s i ch sz = do {
     c \<leftarrow> rd s i;
     let ch1 = push_bit 6 ch + word_of_nat (byte c);
     if ch1 = 0 then Some (ch1, Suc sz, Suc i)
     else do {
       c1 \<leftarrow> rd s (Suc i);
       if byte c1 \<noteq> 0 \<and> \<not> isutf c1 then nextchar_loop s (Suc i) ch1 (Suc sz) else Some (ch1, Suc sz, Suc i) } }"
  by pat_completeness auto
termination by (relation "measure (\<lambda>(s, i, ch, sz). length s - i)") (auto simp: rd_def split: if_splits)

declare nextchar_loop.simps [simp del]

definition u8_nextchar :: "string \<Rightarrow> nat \<Rightarrow> (u32 \<times> nat) option" where
  "u8_nextchar s i = do {
     (ch, sz, j) \<leftarrow> nextchar_loop s i 0 0;
     if sz \<le> 6 then Some (ch - offsetsFromUTF8 ! (sz - 1), j) else None }"

section \<open>Encoding\<close>

definition utf8_byte :: "u32 \<Rightarrow> char" where
  "utf8_byte w = char_of (unat (w AND 0xFF))"

text \<open>
  \<open>u8_toutf8(dest, sz, ch)\<close>: the length, and the bytes stored, which a terminator follows where there is
  room.  When the character does not fit nothing is stored; above \<open>0x10FFFF\<close> the length is 0.
\<close>

definition u8_toutf8 :: "nat \<Rightarrow> u32 \<Rightarrow> nat \<times> string" where
  "u8_toutf8 sz ch =
     (let bs =
        (if ch < 0x80 then [utf8_byte ch]
         else if ch < 0x800 then [utf8_byte (drop_bit 6 ch OR 0xC0), utf8_byte (ch AND 0x3F OR 0x80)]
         else if ch < 0x10000 then
           [utf8_byte (drop_bit 12 ch OR 0xE0), utf8_byte (drop_bit 6 ch AND 0x3F OR 0x80), utf8_byte (ch AND 0x3F OR 0x80)]
         else if ch < 0x110000 then
           [utf8_byte (drop_bit 18 ch OR 0xF0), utf8_byte (drop_bit 12 ch AND 0x3F OR 0x80),
            utf8_byte (drop_bit 6 ch AND 0x3F OR 0x80), utf8_byte (ch AND 0x3F OR 0x80)]
         else [])
      in (length bs, if length bs > sz then [] else if length bs < sz then bs @ [CHR 0x00] else bs))"

text \<open>Appending a C string: the bytes before the terminator.\<close>

definition c_str :: "string \<Rightarrow> string" where
  "c_str bs = takeWhile (\<lambda>c. c \<noteq> CHR 0x00) bs"

section \<open>Combining marks\<close>

definition UTF8IsCombiningMark :: "u32 \<Rightarrow> bool" where
  "UTF8IsCombiningMark c \<longleftrightarrow> (c \<ge> 0x0300 \<and> c \<le> 0x036F) \<or> (c \<ge> 0x1DC0 \<and> c \<le> 0x1DFF)"

text \<open>\<open>UTF8Categorize\<close>: the numbers of code points and of combining marks.\<close>

function categorize_from :: "string \<Rightarrow> nat \<Rightarrow> nat \<Rightarrow> (nat \<times> nat) option" where
  "categorize_from s len i =
     (if i < len then do {
        (ch, n) \<leftarrow> u8_toucs s i (int len - int i);
        (cps, marks) \<leftarrow> categorize_from s len (i + n);
        Some (cps + 1, if UTF8IsCombiningMark ch then marks + 1 else marks) }
      else Some (0, 0))"
  by pat_completeness auto
termination by (relation "measure (\<lambda>(s, len, i). len - i)") (auto dest: u8_toucs_length)

declare categorize_from.simps [simp del]

definition UTF8Categorize :: "string \<Rightarrow> (nat \<times> nat) option" where
  "UTF8Categorize s = categorize_from (s @ [CHR 0x00]) (length s) 0"

section \<open>Round trip\<close>

lemma or_high:
  assumes "x < 2 ^ n"
  shows "x OR push_bit n y = x + push_bit n (y :: nat)"
proof (rule disjunctive_add [symmetric])
  fix m
  have "x = take_bit n x" using assms by (simp add: take_bit_nat_eq_self)
  then have "bit x m \<Longrightarrow> m < n" using bit_take_bit_iff [of n x m] by simp
  then show "\<not> bit x m \<or> \<not> bit (push_bit n y) m" by (auto simp: bit_push_bit_iff_nat)
qed

lemma or_marker:
  "x < 64 \<Longrightarrow> x OR 0x80 = x + (0x80 :: nat)" "x < 32 \<Longrightarrow> x OR 0xC0 = x + (0xC0 :: nat)"
  "x < 16 \<Longrightarrow> x OR 0xE0 = x + (0xE0 :: nat)" "x < 8 \<Longrightarrow> x OR 0xF0 = x + (0xF0 :: nat)"
  using or_high [of x 6 2] or_high [of x 5 6] or_high [of x 4 14] or_high [of x 3 30] by (simp_all add: push_bit_nat_def)

lemma and_low: "(x :: nat) AND 0x3F = x mod 64" "(x :: nat) AND 0xFF = x mod 256"
  using take_bit_eq_mask [of 6 x] take_bit_eq_mask [of 8 x] by (simp_all add: take_bit_eq_mod mask_eq_exp_minus_1)

lemma unat_drop [simp]: "unat (drop_bit n (ch :: u32)) = unat ch div 2 ^ n"
  by (subst unat_drop_bit_eq) (rule drop_bit_eq_div)

lemma unat_pieces [simp]:
  "unat ((ch :: u32) AND 0x3F) = unat ch mod 64"
  "unat (ch AND 0xFF) = unat ch mod 256" "unat (v OR w :: u32) = unat v OR unat w"
  by (simp_all add: unsigned_and_eq unsigned_or_eq and_low)

lemma byte_utf8: "byte (utf8_byte w) = unat w mod 256"
  by (simp add: byte_def utf8_byte_def of_char_of)

lemma gather_bytes:
  assumes "rd s i = Some a" "rd s (i + 1) = Some b"
  shows "u8_gather s i 1 0 = Some (word_of_nat (byte a * 64 + byte b))"
    "rd s (i + 2) = Some c \<Longrightarrow> u8_gather s i 2 0 = Some (word_of_nat ((byte a * 64 + byte b) * 64 + byte c))"
    "rd s (i + 2) = Some c \<Longrightarrow> rd s (i + 3) = Some d \<Longrightarrow>
       u8_gather s i 3 0 = Some (word_of_nat (((byte a * 64 + byte b) * 64 + byte c) * 64 + byte d))"
  using assms by (simp_all add: numeral_2_eq_2 numeral_3_eq_3 push_bit_eq_mult algebra_simps)

lemma minus_offset: "n = unat ch + unat off \<Longrightarrow> word_of_nat n - off = (ch :: u32)"
  by simp

text \<open>
  Decoding an encoded character gives it back, with its length, which is also the one of its first byte.
\<close>

lemma utf8_decode_encode:
  assumes ch: "ch < 0x110000" and e: "u8_toutf8 sz ch = (n, bs)" and sz: "4 \<le> sz"
  shows "u8_toucs (pre @ take n bs @ post) (length pre) (int n) = Some (ch, n)" "n = u8_seqlen ch" "n = u8_seqlen_byte (hd bs)"
proof -
  let ?x = "unat ch"
  have x: "?x < 0x110000" using ch by (simp add: word_less_nat_alt)
  have lt: "ch < 0x80 \<longleftrightarrow> ?x < 0x80" "ch < 0x800 \<longleftrightarrow> ?x < 0x800" "ch < 0x10000 \<longleftrightarrow> ?x < 0x10000" "ch < 0x110000 \<longleftrightarrow> ?x < 0x110000"
    by (simp_all add: word_less_nat_alt)
  consider "?x < 0x80" | "0x80 \<le> ?x" "?x < 0x800" | "0x800 \<le> ?x" "?x < 0x10000" | "0x10000 \<le> ?x" using x by linarith
  then have "u8_toucs (pre @ take n bs @ post) (length pre) (int n) = Some (ch, n) \<and> n = u8_seqlen ch \<and> n = u8_seqlen_byte (hd bs)"
  proof cases
    case 1
    then show ?thesis using e sz by (auto simp: u8_toutf8_def lt Let_def u8_toucs_def rd_def nth_append byte_utf8 trailingBytesForUTF8_def
      u8_seqlen_def u8_seqlen_byte_def offsetsFromUTF8_def)
  next
    case 2
    let ?a = "utf8_byte (drop_bit 6 ch OR 0xC0)" and ?b = "utf8_byte (ch AND 0x3F OR 0x80)"
    have a: "?x div 64 < 32" using 2 by (simp add: less_mult_imp_div_less)
    have bs: "n = 2" "take n bs = [?a, ?b]" "hd bs = ?a" using e sz 2 by (auto simp: u8_toutf8_def lt Let_def)
    have v: "byte ?a = ?x div 64 + 0xC0" "byte ?b = ?x mod 64 + 0x80" using a by (simp_all add: byte_utf8 or_marker)
    let ?s = "pre @ take n bs @ post"
    have r: "rd ?s (length pre) = Some ?a" "rd ?s (length pre + 1) = Some ?b" unfolding bs(2) by (simp_all add: rd_def nth_append)
    have t: "trailingBytesForUTF8 ?a = 1" using v(1) a 2 by (simp add: trailingBytesForUTF8_def Let_def)
    have "byte ?a * 64 + byte ?b = ?x + unat (0x3080 :: u32)" unfolding v by simp
    from minus_offset [OF this] have "u8_toucs ?s (length pre) (int n) = Some (ch, n)"
      using gather_bytes(1) [OF r] r(1) t bs(1) by (simp add: u8_toucs_def offsetsFromUTF8_def)
    then show ?thesis using 2 bs t by (simp add: u8_seqlen_def lt u8_seqlen_byte_def)
  next
    case 3
    let ?a = "utf8_byte (drop_bit 12 ch OR 0xE0)" and ?b = "utf8_byte (drop_bit 6 ch AND 0x3F OR 0x80)" and ?c = "utf8_byte (ch AND 0x3F OR 0x80)"
    have a: "?x div 4096 < 16" using 3 by (simp add: less_mult_imp_div_less)
    have bs: "n = 3" "take n bs = [?a, ?b, ?c]" "hd bs = ?a" using e sz 3 by (auto simp: u8_toutf8_def lt Let_def)
    have v: "byte ?a = ?x div 4096 + 0xE0" "byte ?b = ?x div 64 mod 64 + 0x80" "byte ?c = ?x mod 64 + 0x80"
      using a by (simp_all add: byte_utf8 or_marker)
    let ?s = "pre @ take n bs @ post"
    have r: "rd ?s (length pre) = Some ?a" "rd ?s (length pre + 1) = Some ?b" "rd ?s (length pre + 2) = Some ?c"
      unfolding bs(2) by (simp_all add: rd_def nth_append)
    have t: "trailingBytesForUTF8 ?a = 2" using v(1) a by (simp add: trailingBytesForUTF8_def Let_def)
    have u: "unat (0xE2080 :: u32) = 0xE2080" by simp
    have "(byte ?a * 64 + byte ?b) * 64 + byte ?c = ?x + unat (0xE2080 :: u32)"
      using div_mult_mod_eq [of "?x div 64" 64] unfolding v u by (simp add: div_mult2_eq [symmetric] algebra_simps)
    from minus_offset [OF this] have "u8_toucs ?s (length pre) (int n) = Some (ch, n)"
      using gather_bytes(2) [OF r] r(1) t bs(1) by (simp add: u8_toucs_def offsetsFromUTF8_def)
    then show ?thesis using 3 bs t by (simp add: u8_seqlen_def lt u8_seqlen_byte_def)
  next
    case 4
    let ?a = "utf8_byte (drop_bit 18 ch OR 0xF0)" and ?b = "utf8_byte (drop_bit 12 ch AND 0x3F OR 0x80)"
    let ?c = "utf8_byte (drop_bit 6 ch AND 0x3F OR 0x80)" and ?d = "utf8_byte (ch AND 0x3F OR 0x80)"
    have a: "?x div 262144 < 8" using x by (simp add: less_mult_imp_div_less)
    have bs: "n = 4" "take n bs = [?a, ?b, ?c, ?d]" "hd bs = ?a" using e sz 4 x by (auto simp: u8_toutf8_def lt Let_def)
    have v: "byte ?a = ?x div 262144 + 0xF0" "byte ?b = ?x div 4096 mod 64 + 0x80" "byte ?c = ?x div 64 mod 64 + 0x80" "byte ?d = ?x mod 64 + 0x80"
      using a by (simp_all add: byte_utf8 or_marker)
    let ?s = "pre @ take n bs @ post"
    have r: "rd ?s (length pre) = Some ?a" "rd ?s (length pre + 1) = Some ?b" "rd ?s (length pre + 2) = Some ?c" "rd ?s (length pre + 3) = Some ?d"
      unfolding bs(2) by (simp_all add: rd_def nth_append)
    have t: "trailingBytesForUTF8 ?a = 3" using v(1) a by (simp add: trailingBytesForUTF8_def Let_def)
    have u: "unat (0x3C82080 :: u32) = 0x3C82080" by simp
    have "((byte ?a * 64 + byte ?b) * 64 + byte ?c) * 64 + byte ?d = ?x + unat (0x3C82080 :: u32)"
      using div_mult_mod_eq [of "?x div 64" 64] div_mult_mod_eq [of "?x div 4096" 64] unfolding v u
      by (simp add: div_mult2_eq [symmetric] algebra_simps)
    from minus_offset [OF this] have "u8_toucs ?s (length pre) (int n) = Some (ch, n)"
      using gather_bytes(3) [OF r] r(1) t bs(1) by (simp add: u8_toucs_def offsetsFromUTF8_def)
    then show ?thesis using 4 x bs t by (simp add: u8_seqlen_def lt u8_seqlen_byte_def)
  qed
  then show "u8_toucs (pre @ take n bs @ post) (length pre) (int n) = Some (ch, n)" "n = u8_seqlen ch" "n = u8_seqlen_byte (hd bs)" by blast+
qed

text \<open>
  C39 (UTF-8 round trip). A character below 0x110000 is written by u8_toutf8 in u8_seqlen bytes, of which the
  first shows the number to u8_seqlen on strings, and u8_toucs reads the character and the number back, whatever
  stands around the bytes.
\<close>

theorem utf8_roundtrip:
  assumes "ch < 0x110000" and "u8_toutf8 sz ch = (n, bs)" and "4 \<le> sz"
  shows "u8_toucs (pre @ take n bs @ post) (length pre) (int n) = Some (ch, n) \<and> n = u8_seqlen ch \<and> n = u8_seqlen_byte (hd bs)"
  using utf8_decode_encode [OF assms] by simp

lemma utf8_roundtrip_witness:
  "u8_toucs ([CHR ''a''] @ [char_of (0xE2 :: nat), char_of (0x82 :: nat), char_of (0xAC :: nat)] @ []) 1 3 = Some (0x20AC, 3) \<and>
   3 = u8_seqlen 0x20AC \<and> 3 = u8_seqlen_byte (char_of (0xE2 :: nat))"
proof -
  have "u8_toutf8 8 0x20AC = (3, [char_of (0xE2 :: nat), char_of (0x82 :: nat), char_of (0xAC :: nat), CHR 0x00])"
    by code_simp
  from utf8_roundtrip [OF _ this, of "[CHR ''a'']" "[]"] show ?thesis by simp
qed

end
