(* ===== verification/Bf_Lexer.thy ===== *)
theory Bf_Lexer
  imports Bf_Token Beef_Utf8 Beef_Const
begin

text \<open>
  The lexer of the compiler, \<open>BfParser::NextToken\<close> (\<^verbatim>\<open>Compiler/BfParser.cpp\<close>).

  The source is the list of its bytes with the terminator; \<open>None\<close> stands for a read outside of it.  A
  directive of the preprocessor and an interpolated expression need the parser that is built on the
  lexer: where the code calls it, a step of the lexer ends with an outcome of its own.  The category of a
  character (\<open>utf8proc\<close>) and the conversion of a decimal number to floating point (\<open>strtod\<close>) are parameters.
\<close>

unbundle bit_operations_syntax

section \<open>Characters\<close>

abbreviation "chr_nl \<equiv> CHR 0x0A"
abbreviation "chr_nul \<equiv> CHR 0x00"

definition between :: "char \<Rightarrow> char \<Rightarrow> char \<Rightarrow> bool" where
  "between a b c \<longleftrightarrow> byte a \<le> byte c \<and> byte c \<le> byte b"

abbreviation "is_digit \<equiv> between CHR ''0'' CHR ''9''"
abbreviation "is_upper \<equiv> between CHR ''A'' CHR ''Z''"
abbreviation "is_lower \<equiv> between CHR ''a'' CHR ''z''"

definition IsWhitespace :: "char \<Rightarrow> bool" where
  "IsWhitespace c \<longleftrightarrow> c = CHR '' '' \<or> c = CHR 0x09 \<or> c = chr_nl \<or> c = CHR 0x0D"

definition IsWhitespaceOrPunctuation :: "char \<Rightarrow> bool" where
  "IsWhitespaceOrPunctuation c \<longleftrightarrow>
     c \<in> set '',;:()[]{}<>/-=+!%&|#@`^~*?'' \<or> c = chr_nl \<or> c = CHR '' '' \<or> c = CHR 0x09 \<or> c = CHR 0x0B \<or> c = CHR 0x0C \<or> c = CHR 0x0D"

text \<open>\<open>isspace\<close> of the C locale\<close>

definition isspace :: "char \<Rightarrow> bool" where
  "isspace c \<longleftrightarrow> c = CHR '' '' \<or> between CHR 0x09 CHR 0x0D c"

text \<open>The value of a hexadecimal digit.\<close>

definition hex_value :: "char \<Rightarrow> nat option" where
  "hex_value c =
     (if is_digit c then Some (byte c - byte CHR ''0'')
      else if between CHR ''a'' CHR ''f'' c then Some (byte c - byte CHR ''a'' + 0xA)
      else if between CHR ''A'' CHR ''F'' c then Some (byte c - byte CHR ''A'' + 0xA)
      else None)"

datatype (plugins only: size code) utf8proc_category =
    CAT_CN | CAT_LU | CAT_LL | CAT_LT | CAT_LM | CAT_LO | CAT_MN | CAT_MC | CAT_ME | CAT_ND | CAT_NL | CAT_NO
  | CAT_PC | CAT_PD | CAT_PS | CAT_PE | CAT_PI | CAT_PF | CAT_PO | CAT_SM | CAT_SC | CAT_SK | CAT_SO
  | CAT_ZS | CAT_ZL | CAT_ZP | CAT_CC | CAT_CF | CAT_CS | CAT_CO

text \<open>The categories that may start an identifier, and those that may continue one.\<close>

definition starts_ident :: "utf8proc_category \<Rightarrow> bool" where
  "starts_ident cat \<longleftrightarrow> cat \<in> {CAT_LU, CAT_LL, CAT_LT, CAT_LM, CAT_LO, CAT_NL, CAT_SM, CAT_SC, CAT_SK, CAT_SO}"

definition continues_ident :: "utf8proc_category \<Rightarrow> bool" where
  "continues_ident cat \<longleftrightarrow> starts_ident cat \<or> cat \<in> {CAT_MN, CAT_MC, CAT_ND, CAT_PC, CAT_CF}"

text \<open>What the lexer takes from other libraries: bit patterns stand for floating point numbers.\<close>

record lex_env =
  char_category :: "u32 \<Rightarrow> utf8proc_category"
  strtod :: "string \<Rightarrow> u64"
  to_single :: "u64 \<Rightarrow> u32"

section \<open>State\<close>

datatype (plugins only: size code) bf_syntax_token =
    BfSyntaxToken_None | BfSyntaxToken_Token | BfSyntaxToken_Identifier | BfSyntaxToken_CharQuote
  | BfSyntaxToken_StringQuote | BfSyntaxToken_ForwardSlash | BfSyntaxToken_Literal | BfSyntaxToken_CommentLine
  | BfSyntaxToken_CommentBlock | BfSyntaxToken_GeneratedNode | BfSyntaxToken_FAILED | BfSyntaxToken_HIT_END_IDX
  | BfSyntaxToken_EOF

datatype (plugins only: size code) bf_comment_kind =
    BfCommentKind_Line | BfCommentKind_Block | BfCommentKind_Documentation_Block_Pre
  | BfCommentKind_Documentation_Line_Pre | BfCommentKind_Documentation_Block_Post | BfCommentKind_Documentation_Line_Post

text \<open>A literal: the numbers of \<open>BfVariant\<close> share 64 bits.\<close>

record bf_variant =
  mTypeCode :: bf_type_code
  mUInt64 :: u64
  mString :: string
  mWarnType :: int

text \<open>A node of a comment, with the positions \<open>BfAstNode::Init\<close> takes from the parser.\<close>

record bf_comment =
  mCommentKind :: bf_comment_kind
  com_trivia :: nat
  com_start :: nat
  com_end :: nat

text \<open>
  The parser.  Positions in the source are natural numbers, which are the \<open>int\<close>s of the code for sources below
  2 GB.  \<open>mJumpTable\<close> holds the index and the line of an entry; a message is kept with the position it
  is reported at, without the character it may quote.
\<close>

record bf_parser =
  mSrc :: string
  mOrigSrcLength :: int
  mCompatMode :: bool
  mInAsmBlock :: bool
  mPreprocessorIgnoreDepth :: int
  in_ignored_section :: bool
  mSrcIdx :: nat
  mLineStart :: nat
  mLineNum :: nat
  mJumpTable :: "(nat \<times> nat) list"
  mSyntaxToken :: bf_syntax_token
  mToken :: bf_token
  mTriviaStart :: nat
  mTokenStart :: nat
  mTokenEnd :: nat
  mLiteral :: bf_variant
  mPendingSideNodes :: "bf_comment list"
  mErrorNodes :: "(nat \<times> nat \<times> nat) list"
  p_errors :: "(string \<times> int) list"
  p_warnings :: "(string \<times> int) list"

definition PARSER_JUMPTABLE_DIVIDE :: nat where
  "PARSER_JUMPTABLE_DIVIDE = 64"

text \<open>\<open>SetSource\<close> for a source that is not in the cache.\<close>

definition SetSource :: "bool \<Rightarrow> string \<Rightarrow> bf_parser" where
  "SetSource compat_mode data = \<lparr>
     mSrc = data @ [chr_nul], mOrigSrcLength = int (length data), mCompatMode = compat_mode, mInAsmBlock = False,
     mPreprocessorIgnoreDepth = 0, in_ignored_section = False, mSrcIdx = 0, mLineStart = 0, mLineNum = 0,
     mJumpTable = replicate ((length data + 1 + PARSER_JUMPTABLE_DIVIDE - 1) div PARSER_JUMPTABLE_DIVIDE) (0, 0),
     mSyntaxToken = BfSyntaxToken_None, mToken = BfToken_None, mTriviaStart = 0, mTokenStart = 0, mTokenEnd = 0,
     mLiteral = \<lparr>mTypeCode = BfTypeCode_None, mUInt64 = 0, mString = [], mWarnType = 0\<rparr>,
     mPendingSideNodes = [], mErrorNodes = [], p_errors = [], p_warnings = []\<rparr>"

text \<open>The character \<open>mSrc[mSrcIdx + k]\<close>, and \<open>mSrcIdx += k\<close>.\<close>

definition cur :: "bf_parser \<Rightarrow> nat \<Rightarrow> char option" where
  "cur p k = rd (mSrc p) (mSrcIdx p + k)"

definition adv :: "nat \<Rightarrow> bf_parser \<Rightarrow> bf_parser" where
  "adv k p = p\<lparr>mSrcIdx := mSrcIdx p + k\<rparr>"

section \<open>Messages and lines\<close>

definition FailAt :: "string \<Rightarrow> nat \<Rightarrow> bf_parser \<Rightarrow> bf_parser" where
  "FailAt msg i p = p\<lparr>p_errors := p_errors p @ [(msg, int i)]\<rparr>"

definition Fail_ofs :: "string \<Rightarrow> int \<Rightarrow> bf_parser \<Rightarrow> bf_parser" where
  "Fail_ofs msg ofs p = p\<lparr>p_errors := p_errors p @ [(msg, int (mSrcIdx p) + ofs)]\<rparr>"

abbreviation Fail :: "string \<Rightarrow> bf_parser \<Rightarrow> bf_parser" where
  "Fail msg \<equiv> Fail_ofs msg (-1)"

definition TokenFail_ofs :: "string \<Rightarrow> int \<Rightarrow> bf_parser \<Rightarrow> bf_parser" where
  "TokenFail_ofs msg ofs p = (if in_ignored_section p then p else Fail_ofs msg ofs p)"

abbreviation TokenFail :: "string \<Rightarrow> bf_parser \<Rightarrow> bf_parser" where
  "TokenFail msg \<equiv> TokenFail_ofs msg (-1)"

definition UnexpectedCharacter :: "bf_parser \<Rightarrow> bf_parser option" where
  "UnexpectedCharacter p =
     (if in_ignored_section p then Some p
      else do {
        (c, i) \<leftarrow> u8_nextchar (mSrc p) (mTokenStart p);
        Some ((FailAt ''Unexpected character'' (mTokenStart p) p)\<lparr>mSrcIdx := i\<rparr>) })"

text \<open>The index asserted to be in the jump table.\<close>

definition NewLine :: "bf_parser \<Rightarrow> bf_parser option" where
  "NewLine p =
     (let p1 = p\<lparr>mLineStart := mSrcIdx p, mLineNum := mLineNum p + 1\<rparr>; i = mSrcIdx p div PARSER_JUMPTABLE_DIVIDE
      in if i = 0 then Some p1
         else if i < length (mJumpTable p) then Some (p1\<lparr>mJumpTable := (mJumpTable p)[i := (mSrcIdx p, mLineNum p1)]\<rparr>)
         else None)"

lemma NewLine_src: "NewLine p = Some p1 \<Longrightarrow> mSrc p1 = mSrc p \<and> mSrcIdx p1 = mSrcIdx p"
  by (auto simp: NewLine_def Let_def split: if_splits)

definition AddErrorNode :: "nat \<Rightarrow> nat \<Rightarrow> bf_parser \<Rightarrow> bf_parser" where
  "AddErrorNode i j p = p\<lparr>mErrorNodes := mErrorNodes p @ [(mTriviaStart p, i, j)]\<rparr>"

text \<open>A comparison with a text, character by character.\<close>

primrec src_match :: "string \<Rightarrow> nat \<Rightarrow> string \<Rightarrow> bool option" where
  "src_match s i [] = Some True"
| "src_match s i (x # xs) = do { c \<leftarrow> rd s i; if c = x then src_match s (Suc i) xs else Some False }"

section \<open>Symbols\<close>

text \<open>A token that ends \<open>n\<close> characters after the one read last.\<close>

definition tok :: "bf_token \<Rightarrow> nat \<Rightarrow> bf_parser \<Rightarrow> bf_parser" where
  "tok t n p = p\<lparr>mToken := t, mSyntaxToken := BfSyntaxToken_Token, mSrcIdx := mSrcIdx p + n, mTokenEnd := mSrcIdx p + n\<rparr>"

text \<open>
  The tests at the start of \<open>HandlePreprocessor\<close> by which three equal characters turn out to be no conflict
  marker, the line holding other text before them; \<open>at\<close> is the value of \<open>mSrcIdx\<close> in the call.
\<close>

definition declines_marker :: "char \<Rightarrow> nat \<Rightarrow> bf_parser \<Rightarrow> bool" where
  "declines_marker c at p \<longleftrightarrow>
     (mPreprocessorIgnoreDepth p = 0 \<and> list_ex (\<lambda>i. \<not> isspace (mSrc p ! i)) [mLineStart p ..< at - 1]) \<or>
     (c = CHR ''<'' \<or> c = CHR ''='') \<and> mPreprocessorIgnoreDepth p > 0 \<or> c = CHR ''>'' \<and> mPreprocessorIgnoreDepth p > 1"

text \<open>How the body of the loop ends: with \<open>return\<close>, with another round, or where the parser would be called.\<close>

datatype (plugins only: size code) lex_outcome =
    LexReturn
  | LexNext (set_verbatim: bool) (set_interpolate: bool)
  | LexPreprocessor
  | LexInterpolate

type_synonym lex_step = "(lex_outcome \<times> bf_parser) option"

definition done_tok :: "bf_token \<Rightarrow> nat \<Rightarrow> bf_parser \<Rightarrow> lex_step" where
  "done_tok t n p = Some (LexReturn, tok t n p)"

definition lex_bang :: "bf_parser \<Rightarrow> lex_step" where
  "lex_bang p = do {
     c \<leftarrow> cur p 0;
     if c = CHR ''='' then do {
       d \<leftarrow> cur p 1;
       if d = CHR ''='' then done_tok (Asg BfToken_CompareStrictNotEquals) 2 p else done_tok (Asg BfToken_CompareNotEquals) 1 p }
     else done_tok (Pun BfToken_Bang) 0 p }"

definition lex_equals :: "bf_parser \<Rightarrow> lex_step" where
  "lex_equals p = do {
     c \<leftarrow> cur p 0;
     if c = CHR ''='' then do {
       d \<leftarrow> cur p 1;
       if d = CHR ''='' then do {
         e \<leftarrow> cur p 2;
         if e = CHR ''='' \<and> \<not> declines_marker e (mSrcIdx p) p then Some (LexPreprocessor, p)
         else done_tok (Asg BfToken_CompareStrictEquals) 2 p }
       else done_tok (Asg BfToken_CompareEquals) 1 p }
     else if c = CHR ''>'' then done_tok (Pun BfToken_FatArrow) 1 p
     else done_tok (Asg BfToken_AssignEquals) 0 p }"

definition lex_plus :: "bf_parser \<Rightarrow> lex_step" where
  "lex_plus p = do {
     c \<leftarrow> cur p 0;
     if c = CHR ''+'' then done_tok (Pun BfToken_DblPlus) 1 p
     else if c = CHR ''='' then done_tok (Asg BfToken_PlusEquals) 1 p
     else done_tok (Pun BfToken_Plus) 0 p }"

text \<open>The symbols \<open>^\<close>, \<open>%\<close> and \<open>*\<close>, which only \<open>=\<close> may follow.\<close>

definition lex_op_equals :: "bf_token \<Rightarrow> bf_token \<Rightarrow> bf_parser \<Rightarrow> lex_step" where
  "lex_op_equals t teq p = do { c \<leftarrow> cur p 0; if c = CHR ''='' then done_tok teq 1 p else done_tok t 0 p }"

definition lex_ampersand :: "bf_parser \<Rightarrow> lex_step" where
  "lex_ampersand p = do {
     c \<leftarrow> cur p 0;
     if c = CHR ''&'' then done_tok (Pun BfToken_DblAmpersand) 1 p
     else if c = CHR ''='' then done_tok (Asg BfToken_AndEquals) 1 p
     else if c = CHR ''+'' then do {
       d \<leftarrow> cur p 1; if d = CHR ''='' then done_tok (Asg BfToken_AndPlusEquals) 2 p else done_tok (Asg BfToken_AndPlus) 1 p }
     else if c = CHR ''-'' then do {
       d \<leftarrow> cur p 1; if d = CHR ''='' then done_tok (Asg BfToken_AndMinusEquals) 2 p else done_tok (Asg BfToken_AndMinus) 1 p }
     else if c = CHR ''*'' then do {
       d \<leftarrow> cur p 1; if d = CHR ''='' then done_tok (Asg BfToken_AndStarEquals) 2 p else done_tok (Asg BfToken_AndStar) 1 p }
     else done_tok (Pun BfToken_Ampersand) 0 p }"

definition lex_bar :: "bf_parser \<Rightarrow> lex_step" where
  "lex_bar p = do {
     c \<leftarrow> cur p 0;
     if c = CHR ''|'' then done_tok (Pun BfToken_DblBar) 1 p
     else if c = CHR ''='' then done_tok (Asg BfToken_OrEquals) 1 p
     else done_tok (Pun BfToken_Bar) 0 p }"

definition lex_question :: "bf_parser \<Rightarrow> lex_step" where
  "lex_question p = do {
     c \<leftarrow> cur p 0;
     if c = CHR ''?'' then do {
       d \<leftarrow> cur p 1; if d = CHR ''='' then done_tok (Asg BfToken_NullCoalsceEquals) 2 p else done_tok (Pun BfToken_DblQuestion) 1 p }
     else if c = CHR ''.'' then done_tok (Pun BfToken_QuestionDot) 1 p
     else if c = CHR ''['' then done_tok (Pun BfToken_QuestionLBracket) 1 p
     else done_tok (Pun BfToken_Question) 0 p }"

text \<open>\<open>HandlePreprocessor\<close> is called with the position after the first character of a marker.\<close>

definition lex_less :: "bf_parser \<Rightarrow> lex_step" where
  "lex_less p = do {
     c \<leftarrow> cur p 0;
     if c = CHR ''<'' then do {
       d \<leftarrow> cur p 1;
       if d = CHR ''='' then done_tok (Asg BfToken_ShiftLeftEquals) 2 p
       else if d = CHR ''<'' \<and> \<not> declines_marker d (mSrcIdx p) p then Some (LexPreprocessor, p)
       else done_tok (Pun BfToken_LDblChevron) 1 p }
     else if c = CHR ''='' then do {
       d \<leftarrow> cur p 1; if d = CHR ''>'' then done_tok (Asg BfToken_Spaceship) 2 p else done_tok (Asg BfToken_LessEquals) 1 p }
     else done_tok (Pun BfToken_LChevron) 0 p }"

definition lex_greater :: "bf_parser \<Rightarrow> lex_step" where
  "lex_greater p = do {
     c \<leftarrow> cur p 0;
     if c = CHR ''>'' then do {
       d \<leftarrow> cur p 1;
       if d = CHR ''='' then done_tok (Asg BfToken_ShiftRightEquals) 2 p
       else if d = CHR ''>'' \<and> \<not> declines_marker d (mSrcIdx p) p then Some (LexPreprocessor, p)
       else done_tok (Pun BfToken_RDblChevron) 1 p }
     else if c = CHR ''='' then done_tok (Asg BfToken_GreaterEquals) 1 p
     else done_tok (Pun BfToken_RChevron) 0 p }"

definition lex_dot :: "bf_parser \<Rightarrow> lex_step" where
  "lex_dot p = do {
     c \<leftarrow> cur p 0;
     if c = CHR ''.'' then do {
       d \<leftarrow> cur p 1;
       if d = CHR ''.'' then done_tok (Pun BfToken_DotDotDot) 2 p
       else if d = CHR ''<'' then done_tok (Pun BfToken_DotDotLess) 2 p
       else done_tok (Pun BfToken_DotDot) 1 p }
     else done_tok (Pun BfToken_Dot) 0 p }"

definition lex_colon :: "bf_parser \<Rightarrow> lex_step" where
  "lex_colon p = do {
     c \<leftarrow> cur p 0;
     if c = CHR '':'' then done_tok (if mCompatMode p then Pun BfToken_Dot else Pun BfToken_ColonColon) 1 p
     else done_tok (Pun BfToken_Colon) 0 p }"

definition lex_minus :: "bf_parser \<Rightarrow> lex_step" where
  "lex_minus p = do {
     c \<leftarrow> cur p 0;
     if c = CHR ''-'' then done_tok (Pun BfToken_DblMinus) 1 p
     else if c = CHR ''='' then done_tok (Asg BfToken_MinusEquals) 1 p
     else if c = CHR ''>'' then done_tok (if mCompatMode p then Pun BfToken_Dot else Pun BfToken_Arrow) 1 p
     else done_tok (Pun BfToken_Minus) 0 p }"

section \<open>Comments\<close>

definition BfIsCommentBlock :: "bf_comment_kind \<Rightarrow> bool" where
  "BfIsCommentBlock k \<longleftrightarrow> k \<in> {BfCommentKind_Block, BfCommentKind_Documentation_Block_Pre, BfCommentKind_Documentation_Block_Post}"

text \<open>A prefix that must be followed by anything but the given character.\<close>

definition src_match_not :: "string \<Rightarrow> nat \<Rightarrow> string \<Rightarrow> char \<Rightarrow> bool option" where
  "src_match_not s i xs x = do {
     m \<leftarrow> src_match s i xs;
     if m then do { c \<leftarrow> rd s (i + length xs); Some (c \<noteq> x) } else Some False }"

definition GetCommentKind :: "string \<Rightarrow> nat \<Rightarrow> bf_comment_kind option" where
  "GetCommentKind s i = do {
     a \<leftarrow> src_match s i ''/**<'';
     if a then Some BfCommentKind_Documentation_Block_Post
     else do {
       b \<leftarrow> src_match s i ''///<'';
       if b then Some BfCommentKind_Documentation_Line_Post
       else do {
         c \<leftarrow> src_match_not s i ''/**'' CHR ''/'';
         if c then Some BfCommentKind_Documentation_Block_Pre
         else do {
           d \<leftarrow> src_match_not s i ''///'' CHR ''/'';
           if d then Some BfCommentKind_Documentation_Line_Pre
           else do {
             e \<leftarrow> src_match s i ''/*'';
             Some (if e then BfCommentKind_Block else BfCommentKind_Line) } } } } }"

text \<open>The end of a line, which is not read.\<close>

function line_end :: "string \<Rightarrow> nat \<Rightarrow> nat option" where
  "line_end s i = do { c \<leftarrow> rd s i; if c = chr_nl \<or> c = chr_nul then Some i else line_end s (Suc i) }"
  by pat_completeness auto
termination by (relation "measure (\<lambda>(s, i). length s - i)") (auto simp: rd_def split: if_splits)

declare line_end.simps [simp del]

definition add_comment :: "bf_comment_kind \<Rightarrow> bf_parser \<Rightarrow> bf_parser" where
  "add_comment k p = p\<lparr>mPendingSideNodes := mPendingSideNodes p @
     [\<lparr>mCommentKind = k, com_trivia = mTriviaStart p, com_start = mTokenStart p, com_end = mTokenEnd p\<rparr>]\<rparr>"

text \<open>A line of documentation is folded into the comment before it when both are of one kind.\<close>

definition fold_comment :: "bf_comment_kind \<Rightarrow> bf_parser \<Rightarrow> bf_parser option option" where
  "fold_comment kind p =
     (if mPendingSideNodes p = [] then Some None
      else (let com = last (mPendingSideNodes p)
            in if com_trivia com = mTriviaStart p
               then do {
                 prev \<leftarrow> GetCommentKind (mSrc p) (com_start com);
                 Some (if \<not> BfIsCommentBlock kind \<and> kind = prev
                       then Some (p\<lparr>mPendingSideNodes := butlast (mPendingSideNodes p) @ [com\<lparr>com_end := mSrcIdx p\<rparr>]\<rparr>)
                       else None) }
               else Some None))"

definition lex_line_comment :: "bool \<Rightarrow> bf_parser \<Rightarrow> lex_step" where
  "lex_line_comment disablePreprocessor p = do {
     i \<leftarrow> line_end (mSrc p) (mSrcIdx p);
     let p1 = p\<lparr>mSrcIdx := i, mTokenEnd := i\<rparr>;
     if in_ignored_section p1 then Some (LexNext False False, p1)
     else do {
       kind \<leftarrow> GetCommentKind (mSrc p1) (mTokenStart p1);
       folded \<leftarrow> fold_comment kind p1;
       Some (LexNext False False,
         case folded of Some p2 \<Rightarrow> p2 | None \<Rightarrow> if disablePreprocessor then p1 else add_comment kind p1) } }"

text \<open>The nested comment of a block: after its end, with the lines counted.\<close>

function block_loop :: "nat \<Rightarrow> bf_parser \<Rightarrow> bf_parser option" where
  "block_loop nest p = do {
     c \<leftarrow> cur p 0;
     if c = chr_nl
     then do { p1 \<leftarrow> NewLine (adv 1 p); block_loop nest p1 }
     else if c = chr_nul then Some p
     else do {
       d \<leftarrow> cur p 1;
       if c = CHR ''*'' \<and> d = CHR ''/''
       then (if nest = 1 then Some (adv 2 p) else block_loop (nest - 1) (adv 2 p))
       else if \<not> mCompatMode p \<and> c = CHR ''/'' \<and> d = CHR ''*'' \<and> mSrc p ! (mSrcIdx p - 1) \<noteq> CHR ''/''
       then block_loop (nest + 1) (adv 2 p)
       else block_loop nest (adv 1 p) } }"
  by pat_completeness auto
termination
  by (relation "measure (\<lambda>(nest, p). length (mSrc p) - mSrcIdx p)")
    (auto simp: cur_def rd_def adv_def dest!: NewLine_src split: if_splits)

declare block_loop.simps [simp del]

definition lex_block_comment :: "bf_parser \<Rightarrow> lex_step" where
  "lex_block_comment p = do {
     p1 \<leftarrow> block_loop 1 (adv 1 p);
     let p2 = p1\<lparr>mTokenEnd := mSrcIdx p1\<rparr>;
     if in_ignored_section p2 then Some (LexNext False False, p2)
     else do {
       kind \<leftarrow> GetCommentKind (mSrc p2) (mTokenStart p2);
       Some (LexNext False False, add_comment kind p2) } }"

definition lex_slash :: "bool \<Rightarrow> bf_parser \<Rightarrow> lex_step" where
  "lex_slash disablePreprocessor p = do {
     c \<leftarrow> cur p 0;
     if c = CHR ''/'' then lex_line_comment disablePreprocessor p
     else if c = CHR ''='' then done_tok (Asg BfToken_DivideEquals) 1 p
     else if c = CHR ''*'' then lex_block_comment p
     else done_tok (Pun BfToken_ForwardSlash) 0 p }"

section \<open>Numbers\<close>

text \<open>\<open>ParseLiteralDouble\<close>: the text of the token without separators and suffix.\<close>

definition ParseLiteralDouble :: "lex_env \<Rightarrow> bf_parser \<Rightarrow> u64" where
  "ParseLiteralDouble e p =
     (let len = min (mTokenEnd p - mTokenStart p) 255;
          buf = filter (\<lambda>c. c \<noteq> CHR 0x27) (take len (drop (mTokenStart p) (mSrc p)))
      in strtod e (if last buf \<in> set ''dDfF'' then butlast buf else buf))"

text \<open>The literal: an integer of a type, a double, or a single precision number in the low half.\<close>

definition lit :: "bf_type_code \<Rightarrow> u64 \<Rightarrow> bf_parser \<Rightarrow> bf_parser" where
  "lit tc v p = p\<lparr>mLiteral := (mLiteral p)\<lparr>mTypeCode := tc, mUInt64 := v\<rparr>, mSyntaxToken := BfSyntaxToken_Literal\<rparr>"

definition lit_double :: "lex_env \<Rightarrow> bf_parser \<Rightarrow> bf_parser" where
  "lit_double e p = lit BfTypeCode_Double (ParseLiteralDouble e p) p"

definition lit_float :: "lex_env \<Rightarrow> bf_parser \<Rightarrow> bf_parser" where
  "lit_float e p =
     lit BfTypeCode_Float (mUInt64 (mLiteral p) AND 0xFFFFFFFF00000000 OR ucast (to_single e (ParseLiteralDouble e p))) p"

definition token_end :: "nat \<Rightarrow> bf_parser \<Rightarrow> bf_parser" where
  "token_end i p = p\<lparr>mTokenEnd := i, mSrcIdx := i\<rparr>"

text \<open>
  An exponent: the first character that does not belong to it, which stays unread, the sign and whether there
  was a digit.
\<close>

function exp_loop :: "int \<Rightarrow> bool \<Rightarrow> bf_parser \<Rightarrow> (char \<times> int \<times> bool \<times> bf_parser) option" where
  "exp_loop sg hasExp p = do {
     c \<leftarrow> cur p 0;
     if c = CHR ''+'' then exp_loop 1 hasExp (if sg \<noteq> 0 then TokenFail ''Format error'' (adv 1 p) else adv 1 p)
     else if c = CHR ''-'' then exp_loop (-1) hasExp (if sg \<noteq> 0 then TokenFail ''Format error'' (adv 1 p) else adv 1 p)
     else if is_digit c then exp_loop sg True (adv 1 p)
     else Some (c, sg, hasExp, p) }"
  by pat_completeness auto
termination
  by (relation "measure (\<lambda>(sg, h, p). length (mSrc p) - mSrcIdx p)")
    (auto simp: cur_def rd_def adv_def TokenFail_ofs_def Fail_ofs_def split: if_splits)

declare exp_loop.simps [simp del]

lemma exp_loop_src: "exp_loop sg h p = Some (c, sg2, h2, p2) \<Longrightarrow> mSrc p2 = mSrc p \<and> mSrcIdx p \<le> mSrcIdx p2"
proof (induction sg h p rule: exp_loop.induct)
  case (1 sg h p)
  from "1.prems" obtain x where x: "cur p 0 = Some x" by (subst (asm) exp_loop.simps) (auto split: Option.bind_splits)
  show ?case using "1.prems" "1.IH" [OF x] x
    by (subst (asm) exp_loop.simps) (auto simp: adv_def TokenFail_ofs_def Fail_ofs_def split: if_splits)
qed

text \<open>
  The loop over the rest of a floating point number.  A letter right after the dot shows that the dot belongs
  to a member of the integer before it.
\<close>

function float_loop :: "lex_env \<Rightarrow> u64 \<Rightarrow> int \<Rightarrow> bool \<Rightarrow> bf_parser \<Rightarrow> bf_parser option" where
  "float_loop e val sg hasExp p = do {
     c \<leftarrow> cur p 0;
     if IsWhitespaceOrPunctuation c then Some (lit_double e (token_end (mSrcIdx p) p))
     else if c = CHR ''e'' \<or> c = CHR ''E'' then
       (case exp_loop sg hasExp (if hasExp then TokenFail ''Format error'' (adv 1 p) else adv 1 p) of
          None \<Rightarrow> None
        | Some (c1, sgn1, hasExp1, p1) \<Rightarrow>
            if length (mSrc p1) - mSrcIdx p1 < length (mSrc p) - mSrcIdx p
            then float_loop e val sgn1 hasExp1 (if \<not> hasExp1 then TokenFail ''Expected an exponent'' p1 else p1)
            else None)
     else if c = CHR ''f'' \<or> c = CHR ''F'' then Some (lit_float e (token_end (mSrcIdx p + 1) p))
     else if c = CHR ''d'' \<or> c = CHR ''D'' then Some (lit_double e (token_end (mSrcIdx p + 1) p))
     else if is_digit c then float_loop e val sg hasExp (adv 1 p)
     else if (is_upper c \<or> is_lower c) \<and> mSrc p ! (mSrcIdx p - 1) = CHR ''.''
     then Some (lit BfTypeCode_IntUnknown val (token_end (mSrcIdx p - 1) p))
     else Some (TokenFail_ofs ''Unexpected character while parsing number'' 0 (lit_double e (token_end (mSrcIdx p) p))) }"
  by pat_completeness auto
termination
  by (relation "measure (\<lambda>(e, v, sg, h, p). length (mSrc p) - mSrcIdx p)")
    (auto simp: cur_def rd_def adv_def TokenFail_ofs_def Fail_ofs_def dest!: exp_loop_src split: if_splits)

declare float_loop.simps [simp del]

text \<open>What the loop over the digits of a number keeps.\<close>

record num_state =
  n_val :: u64
  n_base :: nat
  n_hex :: nat
  n_overflow :: bool
  n_seps :: bool
  n_lead :: bool

definition digit_value :: "nat \<Rightarrow> char \<Rightarrow> nat option" where
  "digit_value base c =
     (if is_digit c \<and> byte c < byte CHR ''0'' + base then Some (byte c - byte CHR ''0'')
      else if base = 0x10 \<and> between CHR ''A'' CHR ''F'' c then Some (byte c - byte CHR ''A'' + 0xA)
      else if base = 0x10 \<and> between CHR ''a'' CHR ''f'' c then Some (byte c - byte CHR ''a'' + 0xA)
      else None)"

definition add_digit :: "nat \<Rightarrow> num_state \<Rightarrow> num_state" where
  "add_digit d st =
     (let val = n_val st * word_of_nat (n_base st) + word_of_nat d
      in st\<lparr>n_val := val, n_hex := (if n_base st = 0x10 then n_hex st + 1 else n_hex st),
            n_overflow := (n_overflow st \<or> n_val st > val)\<rparr>)"

text \<open>The end of a number without suffix; the last character read is given back.\<close>

definition number_end :: "num_state \<Rightarrow> bf_parser \<Rightarrow> bf_parser" where
  "number_end st p =
     (let p1 = token_end (mSrcIdx p - 1) p; val = n_val st; hex = n_hex st
      in if n_base st = 0x10 \<and> (hex \<ge> 16 \<or> n_seps st \<and> hex > 8 \<or> n_lead st \<and> hex = 8)
         then lit (if val \<ge> 0x8000000000000000 then BfTypeCode_UInt64 else BfTypeCode_Int64) val
                (if hex > 16 then FailAt ''Too many hex digits for int64'' (mTokenStart p1) p1 else p1)
         else
           (let p2 = (if n_base st = 0x10 \<and> hex = 7 then p1\<lparr>mLiteral := (mLiteral p1)\<lparr>mWarnType := 4201\<rparr>\<rparr> else p1);
                p3 = (if n_base st = 0x10 \<and> hex = 9 then p2\<lparr>mLiteral := (mLiteral p2)\<lparr>mWarnType := 4202\<rparr>\<rparr> else p2)
            in if n_overflow st
               then lit BfTypeCode_Int64 val (FailAt ''Value doesn't fit into int64'' (mTokenStart p3) p3)
               else lit (if val \<ge> 0x8000000000000000 then BfTypeCode_UInt64
                         else if val > 0xFFFFFFFF then BfTypeCode_Int64 else BfTypeCode_IntUnknown) val p3))"

text \<open>The suffixes \<open>UL\<close> and \<open>LU\<close>, of which the first letter has been read.\<close>

definition suffix_uint64 :: "num_state \<Rightarrow> bf_parser \<Rightarrow> bf_parser" where
  "suffix_uint64 st p =
     (let p1 = lit BfTypeCode_UInt64 (n_val st) (token_end (mSrcIdx p + 1) p)
      in if n_hex st > 16 then FailAt ''Too many hex digits for int64'' (mTokenStart p1) p1
         else if n_overflow st then FailAt ''Value doesn't fit into uint64'' (mTokenStart p1) p1 else p1)"

definition suffix_u :: "num_state \<Rightarrow> bf_parser \<Rightarrow> bf_parser option" where
  "suffix_u st p = do {
     d \<leftarrow> cur p 0;
     if d = CHR ''l'' \<or> d = CHR ''L''
     then Some (suffix_uint64 st (if d = CHR ''l'' then TokenFail ''Uppercase 'L' required for int64'' p else p))
     else
       (let val = (ucast (ucast (n_val st) :: u32) :: u64);
            p1 = lit BfTypeCode_UIntPtr val (token_end (mSrcIdx p) p)
        in Some (if n_overflow st \<or> n_val st \<noteq> val then FailAt ''Value doesn't fit into uint32'' (mTokenStart p1) p1 else p1)) }"

definition suffix_l :: "num_state \<Rightarrow> char \<Rightarrow> bf_parser \<Rightarrow> bf_parser option" where
  "suffix_l st c p = do {
     let p1 = (if c = CHR ''l'' then TokenFail ''Uppercase 'L' required for int64'' p else p);
     d \<leftarrow> cur p1 0;
     if d = CHR ''u'' \<or> d = CHR ''U'' then Some (suffix_uint64 st p1)
     else
       (let val = n_val st;
            p2 = lit (if val = 0x8000000000000000 then BfTypeCode_UInt64 else BfTypeCode_Int64) val (token_end (mSrcIdx p1) p1);
            overflow = (n_overflow st \<or> val > 0x8000000000000000)
        in Some (if n_base st = 0x10
                 then (if n_hex st > 16 then FailAt ''Too many hex digits for int64'' (mTokenStart p2) p2 else p2)
                 else if overflow then FailAt ''Value doesn't fit into int64'' (mTokenStart p2) p2 else p2)) }"

definition number_suffix :: "lex_env \<Rightarrow> num_state \<Rightarrow> char \<Rightarrow> bf_parser \<Rightarrow> bf_parser option" where
  "number_suffix e st c p =
     (if c = CHR ''u'' \<or> c = CHR ''U'' then suffix_u st p
      else if c = CHR ''l'' \<or> c = CHR ''L'' then suffix_l st c p
      else if c = CHR ''f'' \<or> c = CHR ''F'' then Some (lit_float e (token_end (mSrcIdx p) p))
      else if c = CHR ''d'' \<or> c = CHR ''D'' then Some (lit_double e (token_end (mSrcIdx p) p))
      else Some (TokenFail_ofs ''Unexpected character while parsing number'' 0
                  (lit BfTypeCode_IntUnknown (n_val st) (token_end (mSrcIdx p - 1) p))))"

text \<open>
  The loop over the digits.  After an exponent the character that ended it has not been read, unlike the
  others.
\<close>

function number_loop :: "lex_env \<Rightarrow> bool \<Rightarrow> num_state \<Rightarrow> bf_parser \<Rightarrow> bf_parser option" where
  "number_loop e prevIsDot st p = do {
     c0 \<leftarrow> cur p 0;
     if c0 = CHR 0x27
     then number_loop e prevIsDot (st\<lparr>n_seps := True, n_lead := (n_lead st \<or> n_base st = 0x10 \<and> n_hex st = 0)\<rparr>) (adv 1 p)
     else do {
       (c, sg, hasExp, p1) \<leftarrow>
         (if n_base st = 10 \<and> (c0 = CHR ''e'' \<or> c0 = CHR ''E'')
          then do {
            (c, sg, hasExp, p1) \<leftarrow> exp_loop 0 False (adv 1 p);
            Some (c, sg, hasExp, if \<not> hasExp then TokenFail ''Expected an exponent'' p1 else p1) }
          else Some (c0, 0, False, adv 1 p));
       hasDot \<leftarrow> (if c = CHR ''.'' then do { d \<leftarrow> cur p1 0; Some (d \<noteq> CHR ''.'') } else Some False);
       if hasDot \<and> \<not> prevIsDot \<or> hasExp then float_loop e (n_val st) sg hasExp p1
       else if c = CHR ''.'' \<or> IsWhitespaceOrPunctuation c then Some (number_end st p1)
       else (case digit_value (n_base st) c of
               Some d \<Rightarrow> number_loop e prevIsDot (add_digit d st) p1
             | None \<Rightarrow> number_suffix e st c p1) } }"
  by pat_completeness auto
termination
  by (relation "measure (\<lambda>(e, d, st, p). length (mSrc p) - mSrcIdx p)")
    (auto simp: cur_def rd_def adv_def TokenFail_ofs_def Fail_ofs_def dest!: exp_loop_src split: if_splits Option.bind_splits)

declare number_loop.simps [simp del]

text \<open>A number, of which the first digit has been read: its base, and the rest.\<close>

definition number_base :: "char \<Rightarrow> bf_parser \<Rightarrow> (nat \<times> bf_parser) option" where
  "number_base c p =
     (if c = CHR ''0''
      then do {
        d \<leftarrow> cur p 0;
        Some (if d = CHR ''b'' \<or> d = CHR ''B'' then (2, adv 1 p)
              else if d = CHR ''o'' \<or> d = CHR ''O'' then (8, adv 1 p)
              else if d = CHR ''x'' \<or> d = CHR ''X'' then (16, adv 1 p)
              else (10, p)) }
      else Some (10, p))"

definition lex_number :: "lex_env \<Rightarrow> bf_token \<Rightarrow> char \<Rightarrow> bf_parser \<Rightarrow> lex_step" where
  "lex_number e prevToken c p = do {
     (base, p1) \<leftarrow> number_base c p;
     p2 \<leftarrow> number_loop e (prevToken = Pun BfToken_Dot)
            \<lparr>n_val = word_of_nat (byte c - byte CHR ''0''), n_base = base, n_hex = 0, n_overflow = False, n_seps = False, n_lead = False\<rparr> p1;
     Some (LexReturn, p2) }"

section \<open>Words\<close>

text \<open>\<open>GetTokenHash\<close>: the first four characters of a word; the test is made once more after the fourth.\<close>

primrec token_hash :: "string \<Rightarrow> nat \<Rightarrow> nat \<Rightarrow> string option" where
  "token_hash s i 0 = do { c \<leftarrow> rd s i; Some [] }"
| "token_hash s i (Suc n) = do {
     c \<leftarrow> rd s i;
     if IsWhitespaceOrPunctuation c then Some (replicate (Suc n) chr_nul)
     else do { h \<leftarrow> token_hash s (Suc i) n; Some (c # h) } }"

definition GetTokenHash :: "bf_parser \<Rightarrow> string option" where
  "GetTokenHash p = token_hash (mSrc p) (mSrcIdx p - 1) 4"

text \<open>\<open>SrcPtrHasToken\<close>: the end of the word, when the source has it followed by a space or punctuation.\<close>

definition SrcPtrHasToken :: "string \<Rightarrow> bf_parser \<Rightarrow> nat option option" where
  "SrcPtrHasToken name p = do {
     m \<leftarrow> src_match (mSrc p) (mSrcIdx p - 1) name;
     if m then do {
       c \<leftarrow> rd (mSrc p) (mSrcIdx p - 1 + length name);
       Some (if IsWhitespaceOrPunctuation c then Some (mSrcIdx p - 1 + length name) else None) }
     else Some None }"

definition mode_ok :: "bf_keyword_mode \<Rightarrow> bool \<Rightarrow> bool" where
  "mode_ok m compat_mode = (case m of KwAny \<Rightarrow> True | KwBeef \<Rightarrow> \<not> compat_mode | KwCompat \<Rightarrow> compat_mode)"

text \<open>The words of one case of the switch, in their order.\<close>

primrec first_word :: "(bf_keyword_mode \<times> string \<times> bf_token) list \<Rightarrow> bf_parser \<Rightarrow> (nat \<times> string \<times> bf_token) option option" where
  "first_word [] p = Some None"
| "first_word (w # ws) p =
     (if mode_ok (fst w) (mCompatMode p)
      then do {
        r \<leftarrow> SrcPtrHasToken (fst (snd w)) p;
        (case r of Some i \<Rightarrow> Some (Some (i, snd w)) | None \<Rightarrow> first_word ws p) }
      else first_word ws p)"

text \<open>A literal or a keyword at the character read last, if there is one.\<close>

definition lex_keyword :: "bf_parser \<Rightarrow> bf_parser option option" where
  "lex_keyword p = do {
     h \<leftarrow> GetTokenHash p;
     if h = ''true'' \<or> h = ''fals''
     then do {
       r \<leftarrow> SrcPtrHasToken (if h = ''true'' then ''true'' else ''false'') p;
       Some (case r of Some i \<Rightarrow> Some (lit BfTypeCode_Boolean (if h = ''true'' then 1 else 0) (token_end i p)) | None \<Rightarrow> None) }
     else do {
       r \<leftarrow> first_word (case map_of keyword_cases h of Some ws \<Rightarrow> ws | None \<Rightarrow> []) p;
       Some (case r of
               None \<Rightarrow> None
             | Some (i, w, t) \<Rightarrow>
                 (let p1 = (token_end i p)\<lparr>mToken := t, mSyntaxToken := BfSyntaxToken_Token\<rparr>
                  in Some (if w = ''foreach''
                           then p1\<lparr>p_warnings := p_warnings p1 @ [(''foreach should be renamed to for'', int (mTokenStart p1))]\<rparr>
                           else p1))) } }"

text \<open>A character of several bytes: its category, and the position after it.\<close>

definition wide_char :: "lex_env \<Rightarrow> bf_parser \<Rightarrow> nat \<Rightarrow> (utf8proc_category \<times> nat) option" where
  "wide_char e p i = do {
     (c32, n) \<leftarrow> u8_toucs (mSrc p) i (mOrigSrcLength p - int i);
     Some (char_category e c32, i + n) }"

lemma wide_char_pos: "wide_char e p i = Some (cat, j) \<Longrightarrow> i < j"
  by (auto simp: wide_char_def dest: u8_toucs_length split: Option.bind_splits)

text \<open>The end of an identifier.\<close>

function ident_end :: "lex_env \<Rightarrow> bf_parser \<Rightarrow> nat \<Rightarrow> nat option" where
  "ident_end e p i = do {
     c \<leftarrow> rd (mSrc p) i;
     let valid = is_upper c \<or> is_lower c \<or> c = CHR ''_'' \<or> is_digit c \<or>
                 mCompatMode p \<and> (c = CHR ''$'' \<or> c = CHR ''`'' \<or> c = CHR 0x27);
     if byte c \<ge> 0xC0
     then do {
       (cat, j) \<leftarrow> wide_char e p i;
       if continues_ident cat then ident_end e p j else Some i }
     else if valid then ident_end e p (Suc i)
     else Some i }"
  by pat_completeness auto
termination
  by (relation "measure (\<lambda>(e, p, i). length (mSrc p) - i)") (auto simp: rd_def dest: wide_char_pos split: if_splits)

declare ident_end.simps [simp del]

text \<open>The local variables of \<open>NextToken\<close> that outlive a round of its loop.\<close>

record lex_locals =
  isLineStart :: bool
  isVerbatim :: bool
  interpolateSetting :: nat
  stringStart :: "nat option"

text \<open>A token that starts at the prefix of a verbatim or interpolated one, if there is one.\<close>

definition start_at :: "lex_locals \<Rightarrow> bf_parser \<Rightarrow> bf_parser" where
  "start_at loc p = (case stringStart loc of None \<Rightarrow> p | Some i \<Rightarrow> p\<lparr>mTokenStart := i\<rparr>)"

text \<open>A backslash of compatibility mode, followed only by blanks on its line.\<close>

function at_line_end :: "string \<Rightarrow> nat \<Rightarrow> bool option" where
  "at_line_end s i = do {
     c \<leftarrow> rd s i;
     if c = CHR 0x0D \<or> c = chr_nl then Some True
     else if c \<noteq> CHR '' '' \<and> c \<noteq> CHR 0x09 then Some False
     else at_line_end s (Suc i) }"
  by pat_completeness auto
termination by (relation "measure (\<lambda>(s, i). length s - i)") (auto simp: rd_def split: if_splits)

declare at_line_end.simps [simp del]

text \<open>An identifier, or a character that starts no token; \<open>c\<close> has been read.\<close>

definition lex_identifier :: "lex_env \<Rightarrow> lex_locals \<Rightarrow> char \<Rightarrow> bf_parser \<Rightarrow> lex_step" where
  "lex_identifier e loc c p = do {
     (wide, p1) \<leftarrow>
       (if byte c \<ge> 0xC0
        then do { (cat, j) \<leftarrow> wide_char e p (mSrcIdx p - 1); Some (starts_ident cat, p\<lparr>mSrcIdx := j\<rparr>) }
        else Some (False, p));
     if wide \<or> mCompatMode p \<and> (c = CHR ''$'' \<or> c = CHR ''`'') \<or> is_upper c \<or> is_lower c \<or> c = CHR ''_''
     then do {
       i \<leftarrow> ident_end e p1 (mSrcIdx p1);
       Some (LexReturn, (token_end i (start_at loc p1))\<lparr>mSyntaxToken := BfSyntaxToken_Identifier\<rparr>) }
     else do {
       p2 \<leftarrow> UnexpectedCharacter ((AddErrorNode (mTokenStart p1) (mSrcIdx p1) p1)\<lparr>mTriviaStart := mSrcIdx p1\<rparr>);
       Some (LexNext False False, p2) } }"

definition lex_word :: "lex_env \<Rightarrow> lex_locals \<Rightarrow> char \<Rightarrow> bf_parser \<Rightarrow> lex_step" where
  "lex_word e loc c p = do {
     joined \<leftarrow> (if mCompatMode p \<and> c = CHR 0x5C then at_line_end (mSrc p) (mSrcIdx p) else Some False);
     if joined then Some (LexNext False False, p)
     else do {
       kw \<leftarrow> (if isVerbatim loc then Some None else lex_keyword p);
       (case kw of Some p1 \<Rightarrow> Some (LexReturn, p1) | None \<Rightarrow> lex_identifier e loc c p) } }"

section \<open>Strings\<close>

text \<open>What the loop over a string knows of it.\<close>

record str_ctx =
  sc_start :: char
  sc_multi :: bool
  sc_verbatim :: bool
  sc_interp :: nat
  sc_lines :: nat
  sc_header :: string

text \<open>
  The first pass over a string of several lines: the indentation of the closing delimiter, the number of line
  ends before it, and the messages.
\<close>

function multi_scan ::
  "string \<Rightarrow> nat \<Rightarrow> nat \<Rightarrow> nat \<Rightarrow> nat option \<Rightarrow> (string \<times> int) list \<Rightarrow> (string \<times> nat \<times> (string \<times> int) list) option" where
  "multi_scan s i lineStart lineIdx bad errs = do {
     c \<leftarrow> rd s i;
     closing \<leftarrow> src_match s i [CHR 0x22, CHR 0x22, CHR 0x22];
     if closing
     then (let text = take (i - lineStart) (drop lineStart s); header = takeWhile (\<lambda>c. c = CHR '' '' \<or> c = CHR 0x09) text
           in Some (header, lineIdx,
                if length header < length text
                then errs @ [(''Multi-line string literal closing delimiter must begin on a new line'', int (lineStart + length header))]
                else errs))
     else if c = chr_nl
     then multi_scan s (Suc i) (Suc i) (Suc lineIdx) None
            (case bad of None \<Rightarrow> errs | Some b \<Rightarrow> errs @ [(''Multi-line string literal content must begin on a new line'', int b)])
     else if c = chr_nul then Some ([], lineIdx, errs)
     else if c = CHR '' '' \<or> c = CHR 0x09 \<or> c = CHR 0x0D then multi_scan s (Suc i) lineStart lineIdx bad errs
     else multi_scan s (Suc i) lineStart lineIdx (if lineIdx = 0 \<and> bad = None then Some i else bad) errs }"
  by pat_completeness auto
termination by (relation "measure (\<lambda>(s, i, l, n, b, es). length s - i)") (auto simp: rd_def split: if_splits)

declare multi_scan.simps [simp del]

text \<open>The indentation of a line, compared with that of the closing delimiter.\<close>

primrec indent_loop :: "nat \<Rightarrow> string \<Rightarrow> bf_parser \<Rightarrow> bf_parser option" where
  "indent_loop lineStart [] p = Some p"
| "indent_loop lineStart (w # ws) p = do {
     c \<leftarrow> cur p 0;
     if c = CHR 0x0D then indent_loop lineStart ws p
     else if c = chr_nl then Some p
     else if w = c then indent_loop lineStart ws (adv 1 p)
     else Some (if c = CHR '' '' then FailAt ''Unexpected space in indentation of line in multi-line string literal'' (mSrcIdx p) p
                else if c = CHR 0x09 then FailAt ''Unexpected tab in indentation of line in multi-line string literal'' (mSrcIdx p) p
                else FailAt ''Insufficient indentation of line in multi-line string literal'' lineStart p) }"

text \<open>The digits of a hexadecimal escape, as many as wanted.\<close>

primrec hex_escape :: "nat \<Rightarrow> nat \<Rightarrow> bf_parser \<Rightarrow> (nat \<times> bf_parser) option" where
  "hex_escape 0 val p = Some (val, p)"
| "hex_escape (Suc n) val p = do {
     c \<leftarrow> cur p 0;
     (case hex_value c of
        None \<Rightarrow> Some (val, Fail ''Expected two hex characters'' p)
      | Some d \<Rightarrow> hex_escape n (val * 0x10 + d) (adv 1 p)) }"

text \<open>The digits of a Unicode escape up to its brace; a 32-bit value wraps around.\<close>

function unicode_escape :: "nat \<Rightarrow> u32 \<Rightarrow> bf_parser \<Rightarrow> (u32 \<times> bf_parser) option" where
  "unicode_escape n val p = do {
     c \<leftarrow> cur p 0;
     if c = CHR ''}''
     then Some (val, adv 1 (if n = 0 then Fail ''Unicode escape sequence expects hex digits'' p else p))
     else (case hex_value c of
             None \<Rightarrow> Some (val, Fail ''Hex encoding error'' p)
           | Some d \<Rightarrow>
               unicode_escape (n + 1) (val * 0x10 + word_of_nat d)
                 (if n + 1 > 8 then Fail ''Too many hex digits for an unicode scalar'' (adv 1 p) else adv 1 p)) }"
  by pat_completeness auto
termination
  by (relation "measure (\<lambda>(n, v, p). length (mSrc p) - mSrcIdx p)")
    (auto simp: cur_def rd_def adv_def Fail_ofs_def split: if_splits)

declare unicode_escape.simps [simp del]

definition simple_escape :: "char \<Rightarrow> char option" where
  "simple_escape c =
     (if c = CHR ''0'' then Some chr_nul else if c = CHR ''a'' then Some CHR 0x07 else if c = CHR ''b'' then Some CHR 0x08
      else if c = CHR ''f'' then Some CHR 0x0C else if c = CHR ''n'' then Some chr_nl else if c = CHR ''r'' then Some CHR 0x0D
      else if c = CHR ''t'' then Some CHR 0x09 else if c = CHR ''v'' then Some CHR 0x0B
      else if c = CHR 0x5C \<or> c = CHR 0x22 \<or> c = CHR 0x27 then Some c else None)"

text \<open>The escape after a backslash: the characters it adds.\<close>

definition lex_escape :: "nat \<Rightarrow> bf_parser \<Rightarrow> (string \<times> bf_parser) option" where
  "lex_escape interp p = do {
     c \<leftarrow> cur p 0;
     let p1 = adv 1 p;
     (case simple_escape c of
        Some x \<Rightarrow> Some ([x], p1)
      | None \<Rightarrow>
          if c = CHR ''{'' \<or> c = CHR ''}''
          then Some (if interp > 0 then ([c, c], p1) else ([c], Fail ''Invalid escape sequence'' p1))
          else if c = CHR ''x''
          then do { (val, p2) \<leftarrow> hex_escape 2 0 p1; Some ([char_of val], p2) }
          else if c = CHR ''u''
          then do {
            d \<leftarrow> cur p1 0;
            if d \<noteq> CHR ''{'' then Some ([], Fail ''Expected hexadecimal code in braces after unicode escape'' p1)
            else do {
              (val, p2) \<leftarrow> unicode_escape 0 0 (adv 1 p1);
              let (size, bytes) = u8_toutf8 8 val;
              Some (c_str bytes, if size = 0 then FailAt ''Invalid unicode scalar'' (mSrcIdx p1 + 1) p2 else p2) } }
          else Some ([c], Fail ''Unrecognized escape sequence'' p1)) }"

text \<open>The last character before position \<open>i\<close> that is no white space, for a message.\<close>

fun last_text :: "string \<Rightarrow> nat \<Rightarrow> nat" where
  "last_text s 0 = 0"
| "last_text s (Suc i) = (if IsWhitespace (s ! Suc i) then last_text s i else Suc i)"

text \<open>The braces that follow a brace of an interpolated string.\<close>

function brace_run :: "char \<Rightarrow> string \<Rightarrow> nat \<Rightarrow> nat option" where
  "brace_run b s i = do { c \<leftarrow> rd s i; if c = b then do { n \<leftarrow> brace_run b s (Suc i); Some (Suc n) } else Some 0 }"
  by pat_completeness auto
termination by (relation "measure (\<lambda>(b, s, i). length s - i)") (auto simp: rd_def split: if_splits)

declare brace_run.simps [simp del]

text \<open>The numbers of opening braces that start an expression, and the braces kept of others.\<close>

definition opens_expr :: "nat \<Rightarrow> nat \<Rightarrow> bool" where
  "opens_expr interp count \<longleftrightarrow> interp = 1 \<and> odd count \<or> interp > 1 \<and> count \<ge> interp"

definition kept_braces :: "nat \<Rightarrow> nat \<Rightarrow> nat" where
  "kept_braces interp count = (if interp = 1 then count else count * 2)"

text \<open>
  The characters of a string up to its closing delimiter.  An \<open>Inl\<close> result is the first expression of an
  interpolated string, where the code calls the parser; before it no closing brace belongs to one.
\<close>

partial_function (option) string_loop ::
  "str_ctx \<Rightarrow> nat \<Rightarrow> string \<Rightarrow> bf_parser \<Rightarrow> (bf_parser + string \<times> bf_parser) option" where
  "string_loop sc lineIdx str p = do {
     c \<leftarrow> cur p 0;
     let p1 = adv 1 p;
     if c = chr_nul then Some (Inr (str, FailAt ''String not terminated'' (mTokenStart p) p))
     else if c = chr_nl then
       (if sc_multi sc
        then do {
          p2 \<leftarrow> indent_loop (mSrcIdx p1) (sc_header sc) p1;
          p3 \<leftarrow> NewLine p2;
          string_loop sc (lineIdx + 1) (if 0 < lineIdx \<and> lineIdx + 2 < sc_lines sc then str @ [chr_nl] else str) p3 }
        else Some (Inr (str, FailAt ''Newline not allowed in string'' (last_text (mSrc p) (mSrcIdx p - 1)) p)))
     else if c = CHR 0x22 \<and> c = sc_start sc then
       (if sc_multi sc
        then do {
          q \<leftarrow> src_match (mSrc p) (mSrcIdx p1) [CHR 0x22, CHR 0x22];
          if q then Some (Inr (str, adv 2 p1)) else string_loop sc lineIdx (str @ [CHR 0x22]) p1 }
        else do {
          d \<leftarrow> cur p1 0;
          if d = CHR 0x22 then string_loop sc lineIdx (str @ [CHR 0x22]) (adv 1 p1) else Some (Inr (str, p1)) })
     else if c = CHR 0x27 \<and> c = sc_start sc then Some (Inr (str, p1))
     else if c = CHR 0x5C \<and> \<not> sc_verbatim sc
     then do { (x, p2) \<leftarrow> lex_escape (sc_interp sc) p1; string_loop sc lineIdx (str @ x) p2 }
     else if sc_interp sc > 0 \<and> (c = CHR ''{'' \<or> c = CHR ''}'')
     then do {
       n \<leftarrow> brace_run c (mSrc p1) (mSrcIdx p1);
       let p2 = adv n p1;
       if c = CHR ''{'' \<and> opens_expr (sc_interp sc) (n + 1) then Some (Inl p2)
       else string_loop sc lineIdx (str @ replicate (kept_braces (sc_interp sc) (n + 1)) c)
              (if c = CHR ''}'' \<and> sc_interp sc = 1 \<and> odd (n + 1) then FailAt ''Unpaired closing brace.'' (mSrcIdx p2 - 1) p2 else p2) }
     else string_loop sc lineIdx (str @ [c]) p1 }"

declare string_loop.simps [code]

text \<open>The value of a character literal; a wrong one leaves the number of the literal before it.\<close>

definition char_literal :: "string \<Rightarrow> bf_parser \<Rightarrow> bf_parser option" where
  "char_literal str p = do {
     p1 \<leftarrow>
       (case str of
          [] \<Rightarrow> Some (if in_ignored_section p then p else FailAt ''Empty char literal'' (mTokenStart p) p)
        | [c] \<Rightarrow> Some (p\<lparr>mLiteral := (mLiteral p)\<lparr>mUInt64 := word_of_nat (byte c)\<rparr>\<rparr>)
        | c # d # cs \<Rightarrow>
            if u8_seqlen_byte c = length str
            then do {
              (ch, n) \<leftarrow> u8_toucs (str @ [chr_nul]) 0 (int (length str));
              Some (p\<lparr>mLiteral := (mLiteral p)\<lparr>mUInt64 := ucast ch\<rparr>\<rparr>) }
            else if in_ignored_section p then Some p
            else do {
              (cps, marks) \<leftarrow> (if length str < 64 then UTF8Categorize str else Some (2, 0));
              Some (FailAt (if int cps - int marks \<le> 1 then ''Grapheme clusters cannot be used as character literals''
                            else ''Too many characters in character literal'') (mTokenStart p + 1) p) });
     let val = sint (mUInt64 (mLiteral p1));
     Some (p1\<lparr>mLiteral := (mLiteral p1)\<lparr>mTypeCode :=
       (if val \<ge> 0x8000 then BfTypeCode_Char32 else if val \<ge> 0x80 then BfTypeCode_Char16 else BfTypeCode_Char8)\<rparr>\<rparr>) }"

text \<open>The literal of a string or a character that has been read.\<close>

definition string_end :: "lex_locals \<Rightarrow> char \<Rightarrow> string \<Rightarrow> bf_parser \<Rightarrow> lex_step" where
  "string_end loc c str p =
     (let p1 = (start_at loc p)\<lparr>mTokenEnd := mSrcIdx p, mSyntaxToken := BfSyntaxToken_Literal\<rparr>
      in if c = CHR 0x27 then do { p2 \<leftarrow> char_literal str p1; Some (LexReturn, p2) }
         else
           (let p2 = p1\<lparr>mLiteral := (mLiteral p1)\<lparr>mTypeCode := BfTypeCode_CharPtr, mString := str\<rparr>\<rparr>
            in Some (LexReturn,
                 if interpolateSetting loc > 0 then p2\<lparr>mSyntaxToken := BfSyntaxToken_GeneratedNode, mToken := BfToken_None\<rparr> else p2)))"

definition lex_string :: "lex_locals \<Rightarrow> char \<Rightarrow> bf_parser \<Rightarrow> lex_step" where
  "lex_string loc c p = do {
     multi \<leftarrow> src_match (mSrc p) (mSrcIdx p) [CHR 0x22, CHR 0x22];
     let p1 = (if multi then adv 2 p else p);
     (header, lines, errs) \<leftarrow> (if multi then multi_scan (mSrc p1) (mSrcIdx p1) (mSrcIdx p1) 0 None [] else Some ([], 0, []));
     r \<leftarrow> string_loop \<lparr>sc_start = c, sc_multi = multi, sc_verbatim = isVerbatim loc, sc_interp = interpolateSetting loc,
                        sc_lines = lines + 1, sc_header = header\<rparr> 0 [] (p1\<lparr>p_errors := p_errors p1 @ errs\<rparr>);
     (case r of
        Inl p2 \<Rightarrow> Some (LexInterpolate, p2)
      | Inr (str, p2) \<Rightarrow> string_end loc c str p2) }"

section \<open>NextToken\<close>

text \<open>The prefixes of verbatim and interpolated tokens.\<close>

definition lex_at :: "bf_parser \<Rightarrow> lex_step" where
  "lex_at p = do {
     c \<leftarrow> cur p 0;
     if c = CHR 0x22 \<or> c = CHR ''$'' \<or> between CHR ''A'' CHR ''a'' c \<or> is_lower c \<or> c = CHR ''_'' \<or> c = CHR ''@''
     then Some (LexNext True False, p)
     else Some (LexReturn, p\<lparr>mSyntaxToken := BfSyntaxToken_Identifier\<rparr>) }"

definition lex_dollar :: "bf_parser \<Rightarrow> lex_step" where
  "lex_dollar p = do {
     c \<leftarrow> cur p 0;
     if c = CHR 0x22 \<or> c = CHR ''@'' \<or> c = CHR ''$'' then Some (LexNext False True, p)
     else Some (LexNext False False, if \<not> mCompatMode p then Fail ''Expected to precede string'' p else p) }"

definition lex_hash :: "bool \<Rightarrow> bf_parser \<Rightarrow> lex_step" where
  "lex_hash disablePreprocessor p =
     (if disablePreprocessor
      then do { p1 \<leftarrow> UnexpectedCharacter (p\<lparr>mTokenStart := mSrcIdx p - 1\<rparr>); Some (LexNext False False, p1) }
      else Some (LexPreprocessor, p))"

definition lex_newline :: "bf_parser \<Rightarrow> lex_step" where
  "lex_newline p = do {
     p1 \<leftarrow> NewLine p;
     if mInAsmBlock p1 then done_tok (KwA BfToken_AsmNewline) 0 p1 else Some (LexNext False False, p1) }"

text \<open>The symbols of one character.\<close>

definition single_symbols :: "(char \<times> bf_punct_symbol) list" where
  "single_symbols = [
     (CHR ''~'', BfToken_Tilde), (CHR '','', BfToken_Comma), (CHR ''('', BfToken_LParen), (CHR '')'', BfToken_RParen),
     (CHR ''{'', BfToken_LBrace), (CHR ''}'', BfToken_RBrace), (CHR ''['', BfToken_LBracket), (CHR '']'', BfToken_RBracket)]"

text \<open>The switch on the character just read.\<close>

definition lex_char :: "lex_env \<Rightarrow> bool \<Rightarrow> bf_token \<Rightarrow> lex_locals \<Rightarrow> char \<Rightarrow> bf_parser \<Rightarrow> lex_step" where
  "lex_char e disablePreprocessor prevToken loc c p =
     (if c = CHR ''!'' then lex_bang p
      else if c = CHR ''='' then lex_equals p
      else if c = CHR ''+'' then lex_plus p
      else if c = CHR ''^'' then lex_op_equals (Pun BfToken_Carat) (Asg BfToken_XorEquals) p
      else if c = CHR ''%'' then lex_op_equals (Pun BfToken_Modulus) (Asg BfToken_ModulusEquals) p
      else if c = CHR ''&'' then lex_ampersand p
      else if c = CHR ''|'' then lex_bar p
      else if c = CHR ''*'' then lex_op_equals (Pun BfToken_Star) (Asg BfToken_MultiplyEquals) p
      else if c = CHR ''?'' then lex_question p
      else if c = CHR ''<'' then lex_less p
      else if c = CHR ''>'' then lex_greater p
      else if c = CHR ''@'' then lex_at p
      else if c = CHR ''$'' then lex_dollar p
      else if c = CHR 0x22 \<or> c = CHR 0x27 then lex_string loc c p
      else if c = CHR ''/'' then lex_slash disablePreprocessor p
      else if c = CHR ''#'' then lex_hash disablePreprocessor p
      else if c = CHR ''.'' then lex_dot p
      else if c = CHR '';'' then done_tok (if mInAsmBlock p then KwA BfToken_AsmNewline else Pun BfToken_Semicolon) 0 p
      else if c = CHR '':'' then lex_colon p
      else if c = chr_nl then lex_newline p
      else if c = CHR '' '' \<or> c = CHR 0x09 \<or> c = CHR 0x0B \<or> c = CHR 0x0C \<or> c = CHR 0x0D then Some (LexNext False False, p)
      else if c = chr_nul then Some (LexReturn, p\<lparr>mSrcIdx := mSrcIdx p - 1, mSyntaxToken := BfSyntaxToken_EOF\<rparr>)
      else if c = CHR ''-'' then lex_minus p
      else if is_digit c then lex_number e prevToken c p
      else (case map_of single_symbols c of
              Some t \<Rightarrow> done_tok (Pun t) 0 p
            | None \<Rightarrow> lex_word e loc c p))"

text \<open>The flags of a prefix, after the switch.\<close>

definition set_flags :: "lex_outcome \<Rightarrow> bf_parser \<Rightarrow> lex_locals \<Rightarrow> lex_locals" where
  "set_flags r p loc =
     (case r of
        LexNext v i \<Rightarrow>
          (let loc1 = (if v \<and> \<not> isVerbatim loc then loc\<lparr>isVerbatim := True, stringStart := Some (mTokenStart p)\<rparr> else loc)
           in if i then loc1\<lparr>stringStart := (if interpolateSetting loc1 = 0 then Some (mTokenStart p) else stringStart loc1),
                             interpolateSetting := interpolateSetting loc1 + 1\<rparr> else loc1)
      | _ \<Rightarrow> loc)"

text \<open>A section whose condition is false, in which only directives and conflict markers count.\<close>

definition lex_ignored :: "lex_locals \<Rightarrow> char \<Rightarrow> bf_parser \<Rightarrow> (lex_outcome \<times> lex_locals \<times> bf_parser) option option" where
  "lex_ignored loc c p =
     (if c = chr_nul then Some (Some (LexReturn, loc, p\<lparr>mSrcIdx := mSrcIdx p - 1, mSyntaxToken := BfSyntaxToken_EOF\<rparr>))
      else do {
        marker \<leftarrow> (if c = CHR ''>'' then src_match (mSrc p) (mSrcIdx p) ''>>'' else Some False);
        if marker \<or> c = CHR ''#'' \<and> isLineStart loc then Some None
        else if c = chr_nl then do { p1 \<leftarrow> NewLine p; Some (Some (LexNext False False, loc\<lparr>isLineStart := True\<rparr>, p1)) }
        else if IsWhitespace c then Some (Some (LexNext False False, loc, p))
        else Some (Some (LexNext False False, loc\<lparr>isLineStart := False\<rparr>, p)) })"

text \<open>One round of the loop.\<close>

definition lex_round ::
  "lex_env \<Rightarrow> nat option \<Rightarrow> bool \<Rightarrow> bool \<Rightarrow> bf_token \<Rightarrow> lex_locals \<Rightarrow> bf_parser \<Rightarrow> (lex_outcome \<times> lex_locals \<times> bf_parser) option" where
  "lex_round e endIdx outerIsInterpolate disablePreprocessor prevToken loc p =
     (if (case endIdx of Some i \<Rightarrow> mSrcIdx p \<ge> i | None \<Rightarrow> False)
      then Some (LexReturn, loc, p\<lparr>mSyntaxToken := BfSyntaxToken_HIT_END_IDX\<rparr>)
      else do {
        c \<leftarrow> cur p 0;
        let p1 = p\<lparr>mTokenStart := mSrcIdx p, mTokenEnd := mSrcIdx p + 1, mSrcIdx := mSrcIdx p + 1\<rparr>;
        if outerIsInterpolate \<and> c = CHR 0x22 then Some (LexReturn, loc, p1\<lparr>mSyntaxToken := BfSyntaxToken_StringQuote\<rparr>)
        else do {
          skipped \<leftarrow> (if mPreprocessorIgnoreDepth p1 > 0 \<and> endIdx = None then lex_ignored loc c p1 else Some None);
          (case skipped of
             Some r \<Rightarrow> Some r
           | None \<Rightarrow> do {
               (r, p2) \<leftarrow> lex_char e disablePreprocessor prevToken loc c p1;
               Some (r, set_flags r p2 loc, p2) }) } })"

partial_function (option) lex_loop ::
  "lex_env \<Rightarrow> nat option \<Rightarrow> bool \<Rightarrow> bool \<Rightarrow> bf_token \<Rightarrow> lex_locals \<Rightarrow> bf_parser \<Rightarrow> lex_step" where
  "lex_loop e endIdx outerIsInterpolate disablePreprocessor prevToken loc p = do {
     (r, loc1, p1) \<leftarrow> lex_round e endIdx outerIsInterpolate disablePreprocessor prevToken loc p;
     (case r of
        LexNext v i \<Rightarrow> lex_loop e endIdx outerIsInterpolate disablePreprocessor prevToken loc1 p1
      | _ \<Rightarrow> Some (r, p1)) }"

declare lex_loop.simps [code]

definition lex_start :: lex_locals where
  "lex_start = \<lparr>isLineStart = True, isVerbatim = False, interpolateSetting = 0, stringStart = None\<rparr>"

definition NextToken :: "lex_env \<Rightarrow> nat option \<Rightarrow> bool \<Rightarrow> bool \<Rightarrow> bf_parser \<Rightarrow> lex_step" where
  "NextToken e endIdx outerIsInterpolate disablePreprocessor p =
     (let p1 = p\<lparr>mToken := BfToken_None\<rparr>;
          p2 = (if mSyntaxToken p1 = BfSyntaxToken_EOF then Fail ''Unexpected end of file'' p1 else p1)
      in lex_loop e endIdx outerIsInterpolate disablePreprocessor (mToken p) lex_start (p2\<lparr>mTriviaStart := mSrcIdx p2\<rparr>))"

text \<open>
  The tokens of a file, the way \<open>ParseBlock\<close> with \<open>mScanOnly\<close> goes through them, apart from its message for a
  second \<open>asm\<close>.
\<close>

record bf_token_view =
  tv_kind :: bf_syntax_token
  tv_token :: bf_token
  tv_start :: nat
  tv_end :: nat
  tv_literal :: bf_variant

definition token_view :: "bf_parser \<Rightarrow> bf_token_view" where
  "token_view p = \<lparr>tv_kind = mSyntaxToken p, tv_token = mToken p, tv_start = mTokenStart p, tv_end = mTokenEnd p, tv_literal = mLiteral p\<rparr>"

partial_function (option) scan_tokens :: "lex_env \<Rightarrow> bf_parser \<Rightarrow> (bf_token_view list \<times> lex_outcome \<times> bf_parser) option" where
  "scan_tokens e p = do {
     (r, p1) \<leftarrow> NextToken e None False False p;
     if r \<noteq> LexReturn \<or> mSyntaxToken p1 = BfSyntaxToken_EOF then Some ([], r, p1)
     else do { (ts, r2, p2) \<leftarrow> scan_tokens e p1; Some (token_view p1 # ts, r2, p2) } }"

declare scan_tokens.simps [code]

end
