(* ===== verification/Beef_Slash.thy ===== *)
theory Beef_Slash
  imports Bf_Lexer
begin

text \<open>
  \<open>SlashString\<close> (\<^verbatim>\<open>BeefySysLib/Common.cpp\<close>), which writes a string as the text of a literal.  The
  category of a character is a parameter, as in the lexer.
\<close>

section \<open>Numbers of a format\<close>

definition hex_char :: "nat \<Rightarrow> char" where
  "hex_char d = ''0123456789abcdef'' ! d"

text \<open>\<open>%x\<close>\<close>

fun hex_text :: "nat \<Rightarrow> string" where
  "hex_text n = (if n < 16 then [hex_char n] else hex_text (n div 16) @ [hex_char (n mod 16)])"

declare hex_text.simps [simp del]

text \<open>\<open>%02x\<close> and \<open>%04x\<close>\<close>

definition hex_pad :: "nat \<Rightarrow> nat \<Rightarrow> string" where
  "hex_pad k n = (let ds = hex_text n in replicate (k - length ds) CHR ''0'' @ ds)"

section \<open>SlashString\<close>

text \<open>What the loop remembers of the character before.\<close>

record slash_state =
  prevEndedInSlashedNum :: bool
  noNextHex :: bool
  lastWasVisibleChar :: bool

definition is_hex_digit :: "char \<Rightarrow> bool" where
  "is_hex_digit c \<longleftrightarrow> is_digit c \<or> between CHR ''a'' CHR ''f'' c \<or> between CHR ''A'' CHR ''F'' c"

text \<open>The characters with an escape of their own.\<close>

definition slash_escape :: "char \<Rightarrow> string option" where
  "slash_escape c =
     (if c = chr_nul then Some [CHR 0x5C, CHR ''0''] else if c = CHR 0x07 then Some [CHR 0x5C, CHR ''a'']
      else if c = CHR 0x08 then Some [CHR 0x5C, CHR ''b''] else if c = CHR 0x09 then Some [CHR 0x5C, CHR ''t'']
      else if c = chr_nl then Some [CHR 0x5C, CHR ''n''] else if c = CHR 0x0B then Some [CHR 0x5C, CHR ''v'']
      else if c = CHR 0x0C then Some [CHR 0x5C, CHR ''f''] else if c = CHR 0x0D then Some [CHR 0x5C, CHR ''r'']
      else if c = CHR 0x22 then Some [CHR 0x5C, CHR 0x22] else if c = CHR 0x5C then Some [CHR 0x5C, CHR 0x5C]
      else None)"

text \<open>The categories that are written as numbers.\<close>

definition slash_hidden :: "utf8proc_category \<Rightarrow> bool" where
  "slash_hidden cat \<longleftrightarrow> cat \<in> {CAT_ZS, CAT_ZL, CAT_ZP, CAT_CC, CAT_CF, CAT_CO}"

text \<open>
  A sequence of UTF-8 at position \<open>i\<close>, when it is complete: what is written, and the length; \<open>True\<close> forbids a
  hexadecimal digit after it.  An outer \<open>None\<close> is a read outside of the string.
\<close>

definition slash_sequence ::
  "lex_env \<Rightarrow> bool \<Rightarrow> string \<Rightarrow> nat \<Rightarrow> bool \<Rightarrow> (string \<times> nat \<times> bool) option option" where
  "slash_sequence e beefString s i lastVisible =
     (let seqLen = u8_seqlen_byte (s ! i)
      in if seqLen > 1 \<and> i + seqLen \<le> length s
         then do {
           (c32, n) \<leftarrow> u8_toucs (s @ [chr_nul]) i (int (length s) - int i);
           Some (if UTF8IsCombiningMark c32 \<and> \<not> lastVisible \<or> slash_hidden (char_category e c32)
                 then Some (if beefString then CHR 0x5C # ''u{'' @ hex_text (unat c32) @ ''}''
                            else CHR 0x5C # ''u'' @ hex_pad 4 (unat c32), seqLen, \<not> beefString)
                 else if \<forall>c \<in> set (take (seqLen - 1) (drop (i + 1) s)). \<not> isutf c
                 then Some (take seqLen (drop i s), seqLen, False)
                 else None) }
         else Some None)"

text \<open>The bytes of the default case that are no complete sequence.\<close>

definition slash_byte :: "bool \<Rightarrow> bool \<Rightarrow> char \<Rightarrow> slash_state \<Rightarrow> string \<times> slash_state" where
  "slash_byte utf8encode beefString c st =
     (if byte c \<ge> 0x80 \<and> utf8encode
      then ([char_of (0xC0 OR byte c div 64), char_of (0x80 OR byte c mod 64)], st)
      else if byte c \<ge> 32 \<and> byte c < 0x80
      then ([c], st\<lparr>prevEndedInSlashedNum := False, lastWasVisibleChar := True\<rparr>)
      else (CHR 0x5C # ''x'' @ hex_pad 2 (byte c),
            st\<lparr>prevEndedInSlashedNum := True, lastWasVisibleChar := False, noNextHex := \<not> beefString\<rparr>))"

text \<open>One round: what is written, the number of bytes taken and the state after it.\<close>

definition slash_round ::
  "lex_env \<Rightarrow> bool \<Rightarrow> bool \<Rightarrow> bool \<Rightarrow> string \<Rightarrow> nat \<Rightarrow> slash_state \<Rightarrow> (string \<times> nat \<times> slash_state) option" where
  "slash_round e utf8decode utf8encode beefString s i st =
     (let c = s ! i;
          sep = (if noNextHex st \<and> is_hex_digit c then [CHR 0x22, CHR 0x22] else []);
          st1 = st\<lparr>noNextHex := False\<rparr>
      in (case slash_escape c of
            Some x \<Rightarrow> Some (sep @ x, 1, st1\<lparr>prevEndedInSlashedNum := (c = chr_nul), lastWasVisibleChar := False\<rparr>)
          | None \<Rightarrow> do {
              let split = (if is_digit c \<and> prevEndedInSlashedNum st1 then [CHR 0x22, CHR '' '', CHR 0x22] else []);
              q \<leftarrow> (if byte c \<ge> 0x80 \<and> utf8decode then slash_sequence e beefString s i (lastWasVisibleChar st1) else Some None);
              (case q of
                 Some (x, n, hex) \<Rightarrow> Some (sep @ split @ x, n, st1\<lparr>noNextHex := hex\<rparr>)
               | None \<Rightarrow> (let (x, st2) = slash_byte utf8encode beefString c st1 in Some (sep @ split @ x, 1, st2))) }))"

lemma slash_round_length: "slash_round e d u b s i st = Some (x, n, st1) \<Longrightarrow> 0 < n"
  by (auto simp: slash_round_def slash_sequence_def u8_seqlen_byte_def Let_def split: option.splits if_splits prod.splits Option.bind_splits)

function slash_loop :: "lex_env \<Rightarrow> bool \<Rightarrow> bool \<Rightarrow> bool \<Rightarrow> string \<Rightarrow> nat \<Rightarrow> slash_state \<Rightarrow> string option" where
  "slash_loop e d u b s i st =
     (if i < length s
      then do { (x, n, st1) \<leftarrow> slash_round e d u b s i st; out \<leftarrow> slash_loop e d u b s (i + n) st1; Some (x @ out) }
      else Some [])"
  by pat_completeness auto
termination by (relation "measure (\<lambda>(e, d, u, b, s, i, st). length s - i)") (auto dest: slash_round_length)

declare slash_loop.simps [simp del]

definition SlashString :: "lex_env \<Rightarrow> string \<Rightarrow> bool \<Rightarrow> bool \<Rightarrow> bool \<Rightarrow> string option" where
  "SlashString e s utf8decode utf8encode beefString =
     slash_loop e utf8decode utf8encode beefString s 0 \<lparr>prevEndedInSlashedNum = False, noNextHex = False, lastWasVisibleChar = False\<rparr>"

end
