(* ===== verification/Bf_Lexer_Props.thy ===== *)
theory Bf_Lexer_Props
  imports Bf_Lexer
begin

text \<open>
  The lexer reads nothing outside its source and always goes on: on a terminated source that ends with a
  line end every round of \<open>NextToken\<close> has a result, and a token takes at least one character.
\<close>

section \<open>Sources\<close>

text \<open>
  A source is terminated, its last line is ended, and no character is followed by six or more
  continuation bytes of UTF-8.
\<close>

definition src_ok :: "string \<Rightarrow> bool" where
  "src_ok s \<longleftrightarrow> s \<noteq> [] \<and> s ! (length s - 1) = chr_nul \<and>
     (\<forall>i \<in> {..< length s - 1}. s ! i \<noteq> chr_nul \<and> (i + 2 = length s \<longrightarrow> s ! i = chr_nl) \<and>
        list_ex isutf (take 6 (drop (Suc i) s)))"

lemma rd_simps: "rd s i = Some c \<longleftrightarrow> i < length s \<and> c = s ! i" "rd s i = None \<longleftrightarrow> length s \<le> i"
  by (auto simp: rd_def)

lemma src_ok_step: "src_ok s \<Longrightarrow> i < length s \<Longrightarrow> s ! i \<noteq> chr_nul \<Longrightarrow> Suc i < length s"
  unfolding src_ok_def by (metis Suc_lessI diff_Suc_1)

lemma src_ok_text: "src_ok s \<Longrightarrow> i < length s \<Longrightarrow> s ! i \<noteq> chr_nul \<Longrightarrow> s ! i \<noteq> chr_nl \<Longrightarrow> Suc (Suc i) < length s"
proof -
  assume ok: "src_ok s" and i: "i < length s" "s ! i \<noteq> chr_nul" "s ! i \<noteq> chr_nl"
  have l: "Suc i < length s" by (rule src_ok_step [OF ok i(1,2)])
  then have "i \<in> {..< length s - 1}" by simp
  with ok i(3) have "i + 2 \<noteq> length s" by (auto simp: src_ok_def)
  with l show ?thesis by simp
qed

lemma src_match_total:
  "src_ok s \<Longrightarrow> i < length s \<Longrightarrow> chr_nul \<notin> set xs \<Longrightarrow>
   \<exists>b. src_match s i xs = Some b \<and> (b \<longrightarrow> i + length xs < length s)"
proof (induction xs arbitrary: i)
  case Nil
  then show ?case by auto
next
  case (Cons x xs)
  show ?case
  proof (cases "s ! i = x")
    case True
    have "Suc i < length s" using src_ok_step [OF Cons.prems(1,2)] True Cons.prems(3) by auto
    from Cons.IH [OF Cons.prems(1) this] Cons.prems(3) True Cons.prems(2) show ?thesis by (auto simp: rd_def)
  next
    case False
    then show ?thesis using Cons.prems(2) by (auto simp: rd_def)
  qed
qed

lemma src_match_not_total:
  assumes "src_ok s" "i < length s" "chr_nul \<notin> set xs"
  shows "\<exists>b. src_match_not s i xs x = Some b"
  using src_match_total [OF assms] by (auto simp: src_match_not_def rd_def)

lemma GetCommentKind_total:
  assumes "src_ok s" "i < length s"
  shows "\<exists>k. GetCommentKind s i = Some k"
proof -
  from src_match_total [OF assms, of "''/**<''"] obtain a where a: "src_match s i ''/**<'' = Some a" by auto
  from src_match_total [OF assms, of "''///<''"] obtain b where b: "src_match s i ''///<'' = Some b" by auto
  from src_match_not_total [OF assms, of "''/**''" "CHR ''/''"] obtain c where c: "src_match_not s i ''/**'' CHR ''/'' = Some c" by auto
  from src_match_not_total [OF assms, of "''///''" "CHR ''/''"] obtain d where d: "src_match_not s i ''///'' CHR ''/'' = Some d" by auto
  from src_match_total [OF assms, of "''/*''"] obtain e where e: "src_match s i ''/*'' = Some e" by auto
  show ?thesis by (simp add: GetCommentKind_def a b c d e del: src_match.simps)
qed

section \<open>The parser between rounds\<close>

text \<open>What the steps of the lexer rely on.\<close>

definition parser_ok :: "bf_parser \<Rightarrow> bool" where
  "parser_ok p \<longleftrightarrow> src_ok (mSrc p) \<and> mSrcIdx p < length (mSrc p) \<and> mOrigSrcLength p = int (length (mSrc p)) - 1 \<and>
     length (mJumpTable p) * PARSER_JUMPTABLE_DIVIDE \<ge> length (mSrc p) \<and>
     (\<forall>com \<in> set (mPendingSideNodes p). com_start com < length (mSrc p))"

text \<open>The fields a step leaves alone.\<close>

definition keeps :: "bf_parser \<Rightarrow> bf_parser \<Rightarrow> bool" where
  "keeps p p1 \<longleftrightarrow> mSrc p1 = mSrc p \<and> mOrigSrcLength p1 = mOrigSrcLength p \<and> length (mJumpTable p1) = length (mJumpTable p) \<and>
     in_ignored_section p1 = in_ignored_section p \<and> mPreprocessorIgnoreDepth p1 = mPreprocessorIgnoreDepth p \<and>
     mPendingSideNodes p1 = mPendingSideNodes p"

lemma keeps_refl [simp]: "keeps p p"
  by (simp add: keeps_def)

lemma keeps_trans: "keeps p p1 \<Longrightarrow> keeps p1 p2 \<Longrightarrow> keeps p p2"
  by (simp add: keeps_def)

lemma keeps_ok: "parser_ok p \<Longrightarrow> keeps p p1 \<Longrightarrow> mSrcIdx p1 < length (mSrc p1) \<Longrightarrow> parser_ok p1"
  by (simp add: parser_ok_def keeps_def)

text \<open>The state of the preprocessor, which only a directive changes.\<close>

definition same_pp :: "bf_parser \<Rightarrow> bf_parser \<Rightarrow> bool" where
  "same_pp p p1 \<longleftrightarrow> in_ignored_section p1 = in_ignored_section p \<and> mPreprocessorIgnoreDepth p1 = mPreprocessorIgnoreDepth p"

lemma same_pp_refl [simp]: "same_pp p p"
  by (simp add: same_pp_def)

lemma keeps_same_pp: "keeps p p1 \<Longrightarrow> same_pp p p1"
  by (simp add: same_pp_def keeps_def)

named_theorems keeps_simps \<open>steps that only change the other fields\<close>

lemma keeps_updates [keeps_simps]:
  "keeps p (p1\<lparr>mSrcIdx := i\<rparr>) = keeps p p1" "keeps p (p1\<lparr>mToken := t\<rparr>) = keeps p p1" "keeps p (p1\<lparr>mSyntaxToken := k\<rparr>) = keeps p p1"
  "keeps p (p1\<lparr>mTokenStart := i\<rparr>) = keeps p p1" "keeps p (p1\<lparr>mTokenEnd := i\<rparr>) = keeps p p1" "keeps p (p1\<lparr>mTriviaStart := i\<rparr>) = keeps p p1"
  "keeps p (p1\<lparr>mLiteral := v\<rparr>) = keeps p p1" "keeps p (p1\<lparr>p_errors := es\<rparr>) = keeps p p1" "keeps p (p1\<lparr>p_warnings := es\<rparr>) = keeps p p1"
  "keeps p (p1\<lparr>mErrorNodes := ns\<rparr>) = keeps p p1"
  by (simp_all add: keeps_def)

lemma keeps_steps [keeps_simps]:
  "keeps p (adv k p1) = keeps p p1" "keeps p (tok t k p1) = keeps p p1" "keeps p (FailAt msg i p1) = keeps p p1"
  "keeps p (Fail_ofs msg ofs p1) = keeps p p1" "keeps p (TokenFail_ofs msg ofs p1) = keeps p p1" "keeps p (lit tc v p1) = keeps p p1"
  "keeps p (lit_double e p1) = keeps p p1" "keeps p (lit_float e p1) = keeps p p1" "keeps p (token_end i p1) = keeps p p1"
  "keeps p (AddErrorNode i j p1) = keeps p p1"
  by (simp_all add: keeps_def adv_def tok_def FailAt_def Fail_ofs_def TokenFail_ofs_def lit_def lit_double_def lit_float_def
      token_end_def AddErrorNode_def)

named_theorems idx_simps \<open>the positions after a step\<close>

lemma idx_steps [idx_simps]:
  "mSrcIdx (adv k p) = mSrcIdx p + k" "mSrcIdx (tok t k p) = mSrcIdx p + k" "mSrcIdx (FailAt msg i p) = mSrcIdx p"
  "mSrcIdx (Fail_ofs msg ofs p) = mSrcIdx p" "mSrcIdx (TokenFail_ofs msg ofs p) = mSrcIdx p" "mSrcIdx (lit tc v p) = mSrcIdx p"
  "mSrcIdx (lit_double e p) = mSrcIdx p" "mSrcIdx (lit_float e p) = mSrcIdx p" "mSrcIdx (token_end i p) = i"
  "mSrcIdx (AddErrorNode i j p) = mSrcIdx p"
  "mSrc (adv k p) = mSrc p" "mSrc (tok t k p) = mSrc p" "mSrc (FailAt msg i p) = mSrc p"
  "mSrc (Fail_ofs msg ofs p) = mSrc p" "mSrc (TokenFail_ofs msg ofs p) = mSrc p" "mSrc (lit tc v p) = mSrc p"
  "mSrc (lit_double e p) = mSrc p" "mSrc (lit_float e p) = mSrc p" "mSrc (token_end i p) = mSrc p"
  "mSrc (AddErrorNode i j p) = mSrc p"
  "mTokenStart (adv k p) = mTokenStart p" "mTokenStart (tok t k p) = mTokenStart p" "mTokenStart (FailAt msg i p) = mTokenStart p"
  "mTokenStart (Fail_ofs msg ofs p) = mTokenStart p" "mTokenStart (TokenFail_ofs msg ofs p) = mTokenStart p" "mTokenStart (lit tc v p) = mTokenStart p"
  "mTokenStart (lit_double e p) = mTokenStart p" "mTokenStart (lit_float e p) = mTokenStart p" "mTokenStart (token_end i p) = mTokenStart p"
  "mTokenStart (AddErrorNode i j p) = mTokenStart p"
  by (simp_all add: adv_def tok_def FailAt_def Fail_ofs_def TokenFail_ofs_def lit_def lit_double_def lit_float_def token_end_def AddErrorNode_def)

lemma end_steps [idx_simps]:
  "mTokenEnd (tok t k p) = mSrcIdx p + k" "mTokenEnd (FailAt msg i p) = mTokenEnd p"
  "mTokenEnd (Fail_ofs msg ofs p) = mTokenEnd p" "mTokenEnd (TokenFail_ofs msg ofs p) = mTokenEnd p" "mTokenEnd (lit tc v p) = mTokenEnd p"
  "mTokenEnd (lit_double e p) = mTokenEnd p" "mTokenEnd (lit_float e p) = mTokenEnd p" "mTokenEnd (token_end i p) = i"
  "mSyntaxToken (tok t k p) = BfSyntaxToken_Token" "mSyntaxToken (FailAt msg i p) = mSyntaxToken p"
  "mSyntaxToken (Fail_ofs msg ofs p) = mSyntaxToken p" "mSyntaxToken (TokenFail_ofs msg ofs p) = mSyntaxToken p"
  "mSyntaxToken (lit tc v p) = BfSyntaxToken_Literal" "mSyntaxToken (lit_double e p) = BfSyntaxToken_Literal"
  "mSyntaxToken (lit_float e p) = BfSyntaxToken_Literal"
  by (simp_all add: tok_def FailAt_def Fail_ofs_def TokenFail_ofs_def lit_def lit_double_def lit_float_def token_end_def)

text \<open>A token that has been read: it ends where the parser is, at or behind position \<open>i\<close>.\<close>

definition node_tokens :: "bf_syntax_token set" where
  "node_tokens = {BfSyntaxToken_Token, BfSyntaxToken_Identifier, BfSyntaxToken_Literal, BfSyntaxToken_GeneratedNode}"

lemma node_tokens_simps [simp]:
  "BfSyntaxToken_Token \<in> node_tokens" "BfSyntaxToken_Identifier \<in> node_tokens" "BfSyntaxToken_Literal \<in> node_tokens"
  "BfSyntaxToken_GeneratedNode \<in> node_tokens" "BfSyntaxToken_EOF \<notin> node_tokens" "BfSyntaxToken_HIT_END_IDX \<notin> node_tokens"
  by (simp_all add: node_tokens_def)

definition finished :: "nat \<Rightarrow> bf_parser \<Rightarrow> bf_parser \<Rightarrow> bool" where
  "finished i p p1 \<longleftrightarrow> keeps p p1 \<and> mTokenStart p1 = mTokenStart p \<and> mTokenEnd p1 = mSrcIdx p1 \<and> i \<le> mSrcIdx p1 \<and>
     mSrcIdx p1 < length (mSrc p) \<and> mSyntaxToken p1 \<in> node_tokens"

lemma finishedI:
  "keeps p p1 \<Longrightarrow> mTokenStart p1 = mTokenStart p \<Longrightarrow> mTokenEnd p1 = mSrcIdx p1 \<Longrightarrow> i \<le> mSrcIdx p1 \<Longrightarrow>
   mSrcIdx p1 < length (mSrc p) \<Longrightarrow> mSyntaxToken p1 \<in> node_tokens \<Longrightarrow> finished i p p1"
  by (simp add: finished_def)

lemma finished_trans:
  "finished j q p1 \<Longrightarrow> keeps p q \<Longrightarrow> mTokenStart q = mTokenStart p \<Longrightarrow> i \<le> j \<Longrightarrow> finished i p p1"
  by (auto simp: finished_def keeps_def)

lemma finished_tok: "mSrcIdx p + k < length (mSrc p) \<Longrightarrow> finished (mSrcIdx p) p (tok t k p)"
  by (simp add: finished_def keeps_simps idx_simps)

text \<open>Reading at and after the position.\<close>

lemma cur_0: "parser_ok p \<Longrightarrow> cur p 0 = Some (mSrc p ! mSrcIdx p)"
  by (simp add: cur_def rd_def parser_ok_def)

lemma cur_step: "parser_ok p \<Longrightarrow> cur p 0 = Some c \<Longrightarrow> c \<noteq> chr_nul \<Longrightarrow> parser_ok (adv 1 p) \<and> (\<exists>d. cur p 1 = Some d)"
  using src_ok_step [of "mSrc p" "mSrcIdx p"] by (auto simp: cur_def rd_def parser_ok_def adv_def split: if_splits)

lemma cur_step2:
  "parser_ok p \<Longrightarrow> cur p 0 = Some c \<Longrightarrow> c \<noteq> chr_nul \<Longrightarrow> cur p 1 = Some d \<Longrightarrow> d \<noteq> chr_nul \<Longrightarrow> parser_ok (adv 2 p) \<and> (\<exists>e. cur p 2 = Some e)"
  using src_ok_step [of "mSrc p" "Suc (mSrcIdx p)"] by (auto simp: cur_def rd_def parser_ok_def adv_def split: if_splits)

lemma adv_ok: "parser_ok (adv k p) \<Longrightarrow> mSrcIdx p + k < length (mSrc p)"
  by (simp add: parser_ok_def adv_def)

section \<open>Symbols\<close>

text \<open>
  A round is in order: its token is finished, at the position of the round or of a prefix, or the next round
  can go on.
\<close>

definition step_ok :: "lex_locals \<Rightarrow> bf_parser \<Rightarrow> lex_outcome \<Rightarrow> bf_parser \<Rightarrow> bool" where
  "step_ok loc p r p1 \<longleftrightarrow> parser_ok p1 \<and> mSrc p1 = mSrc p \<and> mSrcIdx p \<le> mSrcIdx p1 \<and> same_pp p p1 \<and>
     (r = LexReturn \<longrightarrow> finished (mSrcIdx p) p p1 \<or> finished (mSrcIdx p) (start_at loc p) p1) \<and>
     (\<forall>v i. r = LexNext v i \<longrightarrow> v \<or> i \<longrightarrow> mTokenStart p1 = mTokenStart p)"

definition ok_step :: "lex_locals \<Rightarrow> bf_parser \<Rightarrow> lex_step \<Rightarrow> bool" where
  "ok_step loc p R \<longleftrightarrow> (\<exists>r p1. R = Some (r, p1) \<and> step_ok loc p r p1)"

lemma ok_stepI: "step_ok loc p r p1 \<Longrightarrow> ok_step loc p (Some (r, p1))"
  by (auto simp: ok_step_def)

lemma finished_step: "parser_ok p \<Longrightarrow> finished (mSrcIdx p) p p1 \<Longrightarrow> step_ok loc p LexReturn p1"
  by (auto simp: step_ok_def finished_def keeps_def parser_ok_def same_pp_def)

lemma done_tok_ok: "parser_ok p \<Longrightarrow> parser_ok (adv k p) \<Longrightarrow> ok_step loc p (done_tok t k p)"
  unfolding done_tok_def by (intro ok_stepI finished_step finished_tok) (auto dest: adv_ok)

lemma stay_ok: "parser_ok p \<Longrightarrow> r \<noteq> LexReturn \<Longrightarrow> ok_step loc p (Some (r, p))"
  by (intro ok_stepI) (simp add: step_ok_def)

lemma bind_cur_0: "parser_ok p \<Longrightarrow> (\<And>c. cur p 0 = Some c \<Longrightarrow> ok_step loc p (f c)) \<Longrightarrow> ok_step loc p (cur p 0 \<bind> f)"
  by (simp add: cur_0)

lemma bind_cur_1:
  "parser_ok p \<Longrightarrow> cur p 0 = Some c \<Longrightarrow> c \<noteq> chr_nul \<Longrightarrow> (\<And>d. cur p 1 = Some d \<Longrightarrow> ok_step loc p (f d)) \<Longrightarrow> ok_step loc p (cur p 1 \<bind> f)"
  using cur_step by fastforce

lemma bind_cur_2:
  "parser_ok p \<Longrightarrow> cur p 0 = Some c \<Longrightarrow> c \<noteq> chr_nul \<Longrightarrow> cur p 1 = Some d \<Longrightarrow> d \<noteq> chr_nul \<Longrightarrow>
   (\<And>e. cur p 2 = Some e \<Longrightarrow> ok_step loc p (f e)) \<Longrightarrow> ok_step loc p (cur p 2 \<bind> f)"
  using cur_step2 by fastforce

lemma if_ok: "(b \<Longrightarrow> ok_step loc p A) \<Longrightarrow> (\<not> b \<Longrightarrow> ok_step loc p B) \<Longrightarrow> ok_step loc p (if b then A else B)"
  by simp

lemmas ok_intros = if_ok bind_cur_0 done_tok_ok stay_ok

lemma adv_0 [simp]: "adv 0 p = p"
  by (simp add: adv_def)

lemma adv_1_ok: "parser_ok p \<Longrightarrow> cur p 0 = Some c \<Longrightarrow> c \<noteq> chr_nul \<Longrightarrow> parser_ok (adv 1 p)"
  using cur_step by blast

lemma adv_2_ok: "parser_ok p \<Longrightarrow> cur p 0 = Some c \<Longrightarrow> c \<noteq> chr_nul \<Longrightarrow> cur p 1 = Some d \<Longrightarrow> d \<noteq> chr_nul \<Longrightarrow> parser_ok (adv 2 p)"
  using cur_step2 by blast

lemma peek_cases:
  assumes ok: "parser_ok p"
  obtains "cur p 0 = Some chr_nul"
  | c where "cur p 0 = Some c" "c \<noteq> chr_nul" "cur p 1 = Some chr_nul" "parser_ok (adv 1 p)"
  | c d e where "cur p 0 = Some c" "c \<noteq> chr_nul" "cur p 1 = Some d" "d \<noteq> chr_nul" "cur p 2 = Some e" "parser_ok (adv 1 p)" "parser_ok (adv 2 p)"
proof -
  obtain c where c: "cur p 0 = Some c" using cur_0 [OF ok] by blast
  show thesis
  proof (cases "c = chr_nul")
    case True
    then show ?thesis using c that(1) by simp
  next
    case False
    from cur_step [OF ok c False] obtain d where d: "cur p 1 = Some d" "parser_ok (adv 1 p)" by blast
    show ?thesis
    proof (cases "d = chr_nul")
      case True
      then show ?thesis using that(2) [OF c False] d by simp
    next
      case F: False
      from cur_step2 [OF ok c False d(1) F] obtain e where "cur p 2 = Some e" "parser_ok (adv 2 p)" by blast
      then show ?thesis using that(3) [OF c False d(1) F] d by simp
    qed
  qed
qed

lemma symbols_ok:
  assumes ok: "parser_ok p"
  shows "ok_step loc p (lex_bang p)" "ok_step loc p (lex_equals p)" "ok_step loc p (lex_plus p)" "ok_step loc p (lex_op_equals t teq p)"
    "ok_step loc p (lex_ampersand p)" "ok_step loc p (lex_bar p)" "ok_step loc p (lex_question p)" "ok_step loc p (lex_less p)"
    "ok_step loc p (lex_greater p)" "ok_step loc p (lex_dot p)" "ok_step loc p (lex_colon p)" "ok_step loc p (lex_minus p)"
  by (rule peek_cases [OF ok];
    simp add: ok done_tok_ok stay_ok lex_bang_def lex_equals_def lex_plus_def lex_op_equals_def lex_ampersand_def lex_bar_def
      lex_question_def lex_less_def lex_greater_def lex_dot_def lex_colon_def lex_minus_def)+

section \<open>Comments\<close>

text \<open>A step inside a token: the parser only goes forward.\<close>

definition moves :: "bf_parser \<Rightarrow> bf_parser \<Rightarrow> bool" where
  "moves p p1 \<longleftrightarrow> keeps p p1 \<and> mTokenStart p1 = mTokenStart p \<and> mSrcIdx p \<le> mSrcIdx p1 \<and> mSrcIdx p1 < length (mSrc p)"

lemma moves_refl: "parser_ok p \<Longrightarrow> moves p p"
  by (simp add: moves_def parser_ok_def)

lemma moves_trans: "moves p p1 \<Longrightarrow> moves p1 p2 \<Longrightarrow> moves p p2"
  by (auto simp: moves_def keeps_def)

lemma moves_adv_trans: "moves (adv k p) p1 \<Longrightarrow> moves p p1"
  by (auto simp: moves_def keeps_def idx_simps adv_def)

lemma moves_ok: "parser_ok p \<Longrightarrow> moves p p1 \<Longrightarrow> parser_ok p1"
  by (auto simp: moves_def keeps_def parser_ok_def)

lemma moves_adv: "parser_ok (adv k p) \<Longrightarrow> moves p (adv k p)"
  by (auto simp: moves_def keeps_simps idx_simps parser_ok_def)

lemma NewLine_total:
  assumes "parser_ok p"
  shows "\<exists>p1. NewLine p = Some p1 \<and> moves p p1 \<and> mSrcIdx p1 = mSrcIdx p \<and> mTokenEnd p1 = mTokenEnd p"
proof -
  have "mSrcIdx p div PARSER_JUMPTABLE_DIVIDE < length (mJumpTable p)"
    using assms by (simp add: parser_ok_def PARSER_JUMPTABLE_DIVIDE_def less_mult_imp_div_less)
  then show ?thesis using assms by (auto simp: NewLine_def Let_def moves_def keeps_def parser_ok_def)
qed

lemma line_end_total: "src_ok s \<Longrightarrow> i < length s \<Longrightarrow> \<exists>j. line_end s i = Some j \<and> i \<le> j \<and> j < length s"
proof (induction s i rule: line_end.induct)
  case (1 s i)
  show ?case
  proof (cases "s ! i = chr_nl \<or> s ! i = chr_nul")
    case True
    then show ?thesis using 1(3) by (subst line_end.simps) (auto simp: rd_def)
  next
    case False
    have r: "rd s i = Some (s ! i)" using 1(3) by (simp add: rd_def)
    have "Suc i < length s" using src_ok_step [OF 1(2,3)] False by simp
    from "1.IH" [OF r False 1(2) this] False r show ?thesis by (subst line_end.simps) auto
  qed
qed

lemma block_loop_total: "parser_ok p \<Longrightarrow> \<exists>p1. block_loop nest p = Some p1 \<and> moves p p1"
proof (induction nest p rule: block_loop.induct)
  case (1 nest p)
  note ok = "1.prems"
  show ?case
  proof (rule peek_cases [OF ok], goal_cases)
    case 1
    then show ?case using moves_refl [OF ok] by (subst block_loop.simps) simp
  next
    case (2 c)
    show ?case
    proof (cases "c = chr_nl")
      case True
      from NewLine_total [OF 2(4)] obtain p1 where p1: "NewLine (adv 1 p) = Some p1" "moves (adv 1 p) p1" by blast
      then have m: "moves p p1" using moves_adv [OF 2(4)] moves_trans by blast
      from "1.IH"(1) [OF 2(1) True p1(1) moves_ok [OF ok m]] show ?thesis
        using 2(1) True p1(1) m by (subst block_loop.simps) (auto intro: moves_trans)
    next
      case False
      from "1.IH"(4) [OF 2(1) False 2(2,3) _ _ 2(4)] show ?thesis
        using 2 False moves_adv [OF 2(4)] by (subst block_loop.simps) (auto intro: moves_trans)
    qed
  next
    case (3 c d e)
    note m1 = moves_adv [OF 3(6)] and m2 = moves_adv [OF 3(7)]
    show ?case
    proof (cases "c = chr_nl")
      case True
      from NewLine_total [OF 3(6)] obtain p1 where p1: "NewLine (adv 1 p) = Some p1" "moves (adv 1 p) p1" by blast
      then have m: "moves p p1" using m1 moves_trans by blast
      from "1.IH"(1) [OF 3(1) True p1(1) moves_ok [OF ok m]] show ?thesis
        using 3(1) True p1(1) m by (subst block_loop.simps) (auto intro: moves_trans)
    next
      case False
      let ?close = "c = CHR ''*'' \<and> d = CHR ''/''"
      let ?open = "\<not> mCompatMode p \<and> c = CHR ''/'' \<and> d = CHR ''*'' \<and> mSrc p ! (mSrcIdx p - 1) \<noteq> CHR ''/''"
      have eq: "block_loop nest p = (if ?close then if nest = 1 then Some (adv 2 p) else block_loop (nest - 1) (adv 2 p)
          else if ?open then block_loop (nest + 1) (adv 2 p) else block_loop nest (adv 1 p))"
        using 3(1,2,3) False by (subst block_loop.simps) simp
      consider ?close "nest = 1" | ?close "nest \<noteq> 1" | "\<not> ?close" ?open | "\<not> ?close" "\<not> ?open" by argo
      then show ?thesis
      proof cases
        case 1
        then show ?thesis using eq m2 by simp
      next
        case 2
        from "1.IH"(2) [OF 3(1) False 3(2,3) 2 3(7)] show ?thesis using eq 2 m2 moves_trans by (simp del: One_nat_def) blast
      next
        case n: 3
        from "1.IH"(3) [OF 3(1) False 3(2,3) n 3(7)] have "\<exists>p1. block_loop (nest + 1) (adv 2 p) = Some p1 \<and> moves p p1"
          using m2 moves_trans by blast
        then show ?thesis unfolding eq if_not_P [OF n(1)] if_P [OF n(2)] .
      next
        case 4
        from "1.IH"(4) [OF 3(1) False 3(2,3) 4 3(6)] have "\<exists>p1. block_loop nest (adv 1 p) = Some p1 \<and> moves p p1"
          using m1 moves_trans by blast
        then show ?thesis unfolding eq if_not_P [OF 4(1)] if_not_P [OF 4(2)] .
      qed
    qed
  qed
qed

text \<open>A character has been read: the token starts with it.\<close>

definition in_token :: "char \<Rightarrow> bf_parser \<Rightarrow> bool" where
  "in_token c p \<longleftrightarrow> parser_ok p \<and> c \<noteq> chr_nul \<and> mSrcIdx p = Suc (mTokenStart p) \<and> mTokenEnd p = mSrcIdx p \<and> mSrc p ! mTokenStart p = c"

lemma in_token_ok: "in_token c p \<Longrightarrow> parser_ok p"
  by (simp add: in_token_def)

lemma in_token_text: "in_token c p \<Longrightarrow> c \<noteq> chr_nl \<Longrightarrow> mSrc p ! mSrcIdx p \<noteq> chr_nul \<and> Suc (mSrcIdx p) < length (mSrc p)"
  using src_ok_text [of "mSrc p" "mTokenStart p"] by (auto simp: in_token_def parser_ok_def src_ok_def)

lemma step_okI:
  "parser_ok p1 \<Longrightarrow> mSrc p1 = mSrc p \<Longrightarrow> mSrcIdx p \<le> mSrcIdx p1 \<Longrightarrow> same_pp p p1 \<Longrightarrow> step_ok loc p (LexNext False False) p1"
  by (simp add: step_ok_def)

lemma add_comment_ok: "parser_ok p \<Longrightarrow> mTokenStart p < length (mSrc p) \<Longrightarrow> parser_ok (add_comment k p)"
  by (auto simp: parser_ok_def add_comment_def)

lemma fold_comment_total:
  assumes "parser_ok p"
  shows "\<exists>r. fold_comment k p = Some r \<and> (\<forall>p1. r = Some p1 \<longrightarrow> parser_ok p1 \<and> mSrc p1 = mSrc p \<and> mSrcIdx p1 = mSrcIdx p \<and> same_pp p p1)"
proof (cases "mPendingSideNodes p = []")
  case True
  then show ?thesis by (simp add: fold_comment_def)
next
  case False
  let ?com = "last (mPendingSideNodes p)"
  have "?com \<in> set (mPendingSideNodes p)" using False by simp
  then have c: "com_start ?com < length (mSrc p)" using assms by (auto simp: parser_ok_def)
  have "src_ok (mSrc p)" using assms by (simp add: parser_ok_def)
  from GetCommentKind_total [OF this c] obtain g where g: "GetCommentKind (mSrc p) (com_start ?com) = Some g" by blast
  have b: "\<forall>com \<in> set (butlast (mPendingSideNodes p)). com_start com < length (mSrc p)"
    using assms by (meson in_set_butlastD parser_ok_def)
  have ok: "parser_ok (p\<lparr>mPendingSideNodes := butlast (mPendingSideNodes p) @ [?com\<lparr>com_end := mSrcIdx p\<rparr>]\<rparr>)"
    using assms c b by (simp add: parser_ok_def)
  show ?thesis
  proof (cases "com_trivia ?com = mTriviaStart p")
    case True
    then show ?thesis using g ok False by (simp add: fold_comment_def Let_def same_pp_def)
  next
    case F: False
    then show ?thesis using False by (simp add: fold_comment_def Let_def)
  qed
qed

lemma lex_line_comment_ok:
  assumes t: "in_token c p"
  shows "ok_step loc p (lex_line_comment dis p)"
proof -
  have ok: "parser_ok p" using t by (rule in_token_ok)
  then have s: "src_ok (mSrc p)" "mSrcIdx p < length (mSrc p)" by (simp_all add: parser_ok_def)
  from line_end_total [OF s(1,2)] obtain i where i: "line_end (mSrc p) (mSrcIdx p) = Some i" "mSrcIdx p \<le> i" "i < length (mSrc p)" by blast
  let ?p1 = "p\<lparr>mSrcIdx := i, mTokenEnd := i\<rparr>"
  have ok1: "parser_ok ?p1" using ok i(3) by (simp add: parser_ok_def)
  have ts: "mTokenStart p < length (mSrc p)" using t s(2) by (simp add: in_token_def)
  from GetCommentKind_total [OF s(1) this] obtain k where k: "GetCommentKind (mSrc p) (mTokenStart p) = Some k" by blast
  from fold_comment_total [OF ok1] obtain r where r: "fold_comment k ?p1 = Some r"
    "\<forall>p1. r = Some p1 \<longrightarrow> parser_ok p1 \<and> mSrc p1 = mSrc p \<and> mSrcIdx p1 = i \<and> same_pp ?p1 p1" by auto
  have eq: "lex_line_comment dis p = Some (LexNext False False,
      if in_ignored_section p then ?p1 else case r of Some p2 \<Rightarrow> p2 | None \<Rightarrow> if dis then ?p1 else add_comment k ?p1)"
    using i(1) k r(1) by (simp add: lex_line_comment_def Let_def)
  show ?thesis unfolding eq
    using r(2) ok1 ts i(2) add_comment_ok [OF ok1]
    by (cases r) (auto intro!: ok_stepI step_okI simp: add_comment_def same_pp_def)
qed

lemma lex_block_comment_ok:
  assumes t: "in_token c p" and a: "parser_ok (adv 1 p)"
  shows "ok_step loc p (lex_block_comment p)"
proof -
  have ok: "parser_ok p" using t by (rule in_token_ok)
  then have s: "src_ok (mSrc p)" "mSrcIdx p < length (mSrc p)" by (simp_all add: parser_ok_def)
  from block_loop_total [OF a] obtain p1 where p1: "block_loop 1 (adv 1 p) = Some p1" "moves (adv 1 p) p1" by blast
  have m: "moves p p1" using moves_adv [OF a] p1(2) by (rule moves_trans)
  let ?p2 = "p1\<lparr>mTokenEnd := mSrcIdx p1\<rparr>"
  have ok2: "parser_ok ?p2" using moves_ok [OF ok m] by (simp add: parser_ok_def)
  have ts: "mTokenStart p1 < length (mSrc p1)" "mSrc p1 = mSrc p" "mSrcIdx p \<le> mSrcIdx p1" "same_pp p p1"
    using t s(2) m by (auto simp: in_token_def moves_def keeps_def same_pp_def)
  from GetCommentKind_total [of "mSrc p1", OF _ ts(1)] s(1) ts(2) obtain k where k: "GetCommentKind (mSrc p1) (mTokenStart p1) = Some k" by auto
  have eq: "lex_block_comment p = Some (LexNext False False, if in_ignored_section p1 then ?p2 else add_comment k ?p2)"
    using p1(1) k by (simp add: lex_block_comment_def Let_def)
  show ?thesis unfolding eq
    by (rule ok_stepI, rule step_okI) (use add_comment_ok [OF ok2] ok2 ts in \<open>auto simp: add_comment_def same_pp_def\<close>)
qed

lemma lex_slash_ok:
  assumes t: "in_token c p"
  shows "ok_step loc p (lex_slash dis p)"
  by (rule peek_cases [OF in_token_ok [OF t]]; simp add: in_token_ok [OF t] done_tok_ok lex_slash_def lex_line_comment_ok [OF t] lex_block_comment_ok [OF t])

section \<open>Numbers\<close>

lemma moves_fail [simp]:
  "moves p (TokenFail_ofs msg ofs p1) = moves p p1" "moves (TokenFail_ofs msg ofs p) p1 = moves p p1"
  "moves p (Fail_ofs msg ofs p1) = moves p p1" "moves (Fail_ofs msg ofs p) p1 = moves p p1"
  "moves p (FailAt msg i p1) = moves p p1" "moves (FailAt msg i p) p1 = moves p p1"
  by (simp_all add: moves_def keeps_def TokenFail_ofs_def Fail_ofs_def FailAt_def)

lemma cur_steps [simp]:
  "cur (TokenFail_ofs msg ofs p) k = cur p k" "cur (Fail_ofs msg ofs p) k = cur p k" "cur (FailAt msg i p) k = cur p k" "cur (adv n p) k = cur p (n + k)"
  by (simp_all add: cur_def idx_simps add.assoc)

lemma parser_ok_fail [simp]:
  "parser_ok (TokenFail_ofs msg ofs p) = parser_ok p" "parser_ok (Fail_ofs msg ofs p) = parser_ok p" "parser_ok (FailAt msg i p) = parser_ok p"
  by (simp_all add: parser_ok_def TokenFail_ofs_def Fail_ofs_def FailAt_def)

lemma exp_loop_total:
  "parser_ok p \<Longrightarrow> \<exists>c sg2 h2 p1. exp_loop sg h p = Some (c, sg2, h2, p1) \<and> moves p p1 \<and> cur p1 0 = Some c"
proof (induction sg h p rule: exp_loop.induct)
  case (1 sg h p)
  obtain c where c: "cur p 0 = Some c" using cur_0 [OF "1.prems"] by blast
  show ?case
  proof (cases "c = CHR ''+'' \<or> c = CHR ''-'' \<or> is_digit c")
    case True
    then have "c \<noteq> chr_nul" by (auto simp: between_def byte_def)
    then have a: "parser_ok (adv 1 p)" by (rule adv_1_ok [OF "1.prems" c])
    have m: "moves p (adv 1 p)" by (rule moves_adv [OF a])
    consider (p) "c = CHR ''+''" | (m) "c = CHR ''-''" | (d) "c \<noteq> CHR ''+''" "c \<noteq> CHR ''-''" "is_digit c" using True by blast
    then show ?thesis
    proof cases
      case p
      from "1.IH"(1) [OF c p] a show ?thesis using c p
        by (subst exp_loop.simps) (auto split: if_splits, (erule moves_adv_trans)+)
    next
      case n: m
      then have "c \<noteq> CHR ''+''" by simp
      from "1.IH"(2) [OF c this n] a show ?thesis using c n
        by (subst exp_loop.simps) (auto split: if_splits, (erule moves_adv_trans)+)
    next
      case d
      from "1.IH"(3) [OF c d a] show ?thesis using c d by (subst exp_loop.simps) (auto intro: moves_adv_trans)
    qed
  next
    case False
    then show ?thesis using c moves_refl [OF "1.prems"] by (subst exp_loop.simps) simp
  qed
qed

text \<open>The end of a literal: at a position that is in the source and not before \<open>i\<close>.\<close>

lemma keeps_moves: "moves p p1 \<Longrightarrow> keeps p p1"
  by (simp add: moves_def)

lemma finished_lit:
  assumes "moves p p1" "i \<le> j" "j < length (mSrc p)"
  shows "finished i p (lit tc v (token_end j p1))" "finished i p (lit_double e (token_end j p1))" "finished i p (lit_float e (token_end j p1))"
  using assms by (simp_all add: finished_def keeps_simps idx_simps moves_def lit_double_def lit_float_def)

lemma finished_fail [simp]:
  "finished i p (TokenFail_ofs msg ofs p1) = finished i p p1" "finished i p (Fail_ofs msg ofs p1) = finished i p p1"
  "finished i p (FailAt msg k p1) = finished i p p1"
  by (simp_all add: finished_def keeps_simps idx_simps)

lemma finished_moves: "finished j p1 p2 \<Longrightarrow> moves p p1 \<Longrightarrow> i \<le> j \<Longrightarrow> finished i p p2"
  by (auto simp: finished_def moves_def keeps_def)

lemma moves_length: "moves p p1 \<Longrightarrow> mSrc p1 = mSrc p \<and> mSrcIdx p1 < length (mSrc p) \<and> mSrcIdx p \<le> mSrcIdx p1"
  by (simp add: moves_def keeps_def)

lemma float_loop_total:
  "parser_ok p \<Longrightarrow> i < mSrcIdx p \<Longrightarrow> \<exists>p1. float_loop e v sg h p = Some p1 \<and> finished i p p1"
proof (induction e v sg h p rule: float_loop.induct)
  case (1 e v sg h p)
  note ok = "1.prems"(1)
  have l: "mSrcIdx p < length (mSrc p)" using ok by (simp add: parser_ok_def)
  obtain c where c: "cur p 0 = Some c" using cur_0 [OF ok] by blast
  note m0 = moves_refl [OF ok]
  consider (w) "IsWhitespaceOrPunctuation c"
    | (x) "\<not> IsWhitespaceOrPunctuation c" "c = CHR ''e'' \<or> c = CHR ''E''"
    | (f) "\<not> IsWhitespaceOrPunctuation c" "c = CHR ''f'' \<or> c = CHR ''F'' \<or> c = CHR ''d'' \<or> c = CHR ''D''"
    | (n) "\<not> IsWhitespaceOrPunctuation c" "\<not> (c = CHR ''e'' \<or> c = CHR ''E'')" "\<not> (c = CHR ''f'' \<or> c = CHR ''F'')"
        "\<not> (c = CHR ''d'' \<or> c = CHR ''D'')" "is_digit c"
    | (y) "\<not> IsWhitespaceOrPunctuation c" "\<not> (c = CHR ''e'' \<or> c = CHR ''E'')" "\<not> (c = CHR ''f'' \<or> c = CHR ''F'')"
        "\<not> (c = CHR ''d'' \<or> c = CHR ''D'')" "\<not> is_digit c"
    by blast
  then show ?case
  proof cases
    case w
    then show ?thesis using c l finished_lit [OF m0, of i "mSrcIdx p"] "1.prems"(2) by (subst float_loop.simps) simp
  next
    case x
    have nul: "c \<noteq> chr_nul" using x by auto
    have a: "parser_ok (adv 1 p)" by (rule adv_1_ok [OF ok c nul])
    let ?q = "if h then TokenFail ''Format error'' (adv 1 p) else adv 1 p"
    have "parser_ok ?q" using a by simp
    from exp_loop_total [OF this, of sg h] obtain c1 s1 h1 p1 where p1: "exp_loop sg h ?q = Some (c1, s1, h1, p1)" "moves ?q p1" "cur p1 0 = Some c1"
      by blast
    have m1: "moves (adv 1 p) p1" using p1(2) by (simp split: if_splits)
    then have m: "moves p p1" by (rule moves_adv_trans)
    have less: "length (mSrc p1) - mSrcIdx p1 < length (mSrc p) - mSrcIdx p" and i1: "i < mSrcIdx p1"
      using moves_length [OF m1] l "1.prems"(2) by (auto simp: idx_simps)
    let ?r = "if \<not> h1 then TokenFail ''Expected an exponent'' p1 else p1"
    have ok2: "parser_ok ?r" "i < mSrcIdx ?r" using moves_ok [OF ok m] i1 by (simp_all add: idx_simps)
    have m2: "moves p ?r" using m by simp
    from "1.IH"(1) [OF c x p1(1) refl refl refl less ok2] obtain p2 where p2: "float_loop e v s1 h1 ?r = Some p2" "finished i ?r p2" by blast
    have "finished i p p2" by (rule finished_moves [OF p2(2) m2 order_refl])
    moreover have "float_loop e v sg h p = float_loop e v s1 h1 ?r" using c x p1(1) less by (subst float_loop.simps) simp
    ultimately show ?thesis using p2(1) by metis
  next
    case f
    have nul: "c \<noteq> chr_nul" using f by auto
    have a: "mSrcIdx p + 1 < length (mSrc p)" using adv_ok [OF adv_1_ok [OF ok c nul]] by simp
    show ?thesis using f c finished_lit [OF m0 _ a, of i] "1.prems"(2) by (subst float_loop.simps) auto
  next
    case n
    have nul: "c \<noteq> chr_nul" using n(5) by (auto simp: between_def byte_def)
    have a: "parser_ok (adv 1 p)" by (rule adv_1_ok [OF ok c nul])
    have "i < mSrcIdx (adv 1 p)" using "1.prems"(2) by (simp add: idx_simps)
    from "1.IH"(2) [OF c n a this] obtain p1 where p1: "float_loop e v sg h (adv 1 p) = Some p1" "finished i (adv 1 p) p1" by blast
    show ?thesis using c n p1(1) finished_moves [OF p1(2) moves_adv [OF a] order_refl] by (subst float_loop.simps) simp
  next
    case y
    have "i \<le> mSrcIdx p - 1" "mSrcIdx p - 1 < length (mSrc p)" "i \<le> mSrcIdx p" using l "1.prems"(2) by simp_all
    then show ?thesis using c y finished_lit [OF m0, of i "mSrcIdx p - 1"] finished_lit [OF m0, of i "mSrcIdx p"] l
      by (subst float_loop.simps) simp
  qed
qed

lemma number_end_finished:
  assumes "parser_ok p" "i < mSrcIdx p"
  shows "finished i p (number_end st p)"
proof -
  have j: "i \<le> mSrcIdx p - 1" "mSrcIdx p - 1 < length (mSrc p)" using assms by (auto simp: parser_ok_def)
  then show ?thesis
    by (simp add: number_end_def Let_def finished_def keeps_simps idx_simps token_end_def)
qed

lemma suffix_total:
  assumes ok: "parser_ok p" and i: "i < mSrcIdx p"
  shows "\<exists>p1. suffix_u st p = Some p1 \<and> finished i p p1" "\<exists>p1. suffix_l st c p = Some p1 \<and> finished i p p1"
    "\<exists>p1. number_suffix e st c p = Some p1 \<and> finished i p p1"
proof -
  have l: "mSrcIdx p < length (mSrc p)" using ok by (simp add: parser_ok_def)
  obtain d where d: "cur p 0 = Some d" using cur_0 [OF ok] by blast
  note m0 = moves_refl [OF ok]
  have long: "d \<noteq> chr_nul \<Longrightarrow> finished i p (suffix_uint64 st p)" "d \<noteq> chr_nul \<Longrightarrow> finished i p (suffix_uint64 st (TokenFail_ofs m k p))" for m k
  proof -
    assume "d \<noteq> chr_nul"
    then have a: "mSrcIdx p + 1 < length (mSrc p)" using adv_ok [OF adv_1_ok [OF ok d]] by simp
    show "finished i p (suffix_uint64 st p)"
      using finished_lit(1) [OF m0 _ a, of i] i by (simp add: suffix_uint64_def Let_def)
    have "moves p (TokenFail_ofs m k p)" using m0 by simp
    from finished_lit(1) [OF this _ a, of i] i show "finished i p (suffix_uint64 st (TokenFail_ofs m k p))"
      by (simp add: suffix_uint64_def Let_def idx_simps)
  qed
  have m1: "moves p (TokenFail_ofs m k p)" for m k using m0 by simp
  have j: "i \<le> mSrcIdx p" "i \<le> mSrcIdx p - 1" "mSrcIdx p - 1 < length (mSrc p)" using i l by simp_all
  show u: "\<exists>p1. suffix_u st p = Some p1 \<and> finished i p p1"
    using d long finished_lit(1) [OF m0 j(1) l] by (simp add: suffix_u_def Let_def)
  show l: "\<exists>p1. suffix_l st c p = Some p1 \<and> finished i p p1"
    using d long finished_lit(1) [OF m0 j(1) l] finished_lit(1) [OF m1 j(1) l] by (simp add: suffix_l_def Let_def idx_simps)
  show "\<exists>p1. number_suffix e st c p = Some p1 \<and> finished i p p1"
    using u l finished_lit [OF m0 j(1) \<open>mSrcIdx p < _\<close>] finished_lit(1) [OF m0 j(2,3)] by (simp add: number_suffix_def)
qed

lemma number_loop_total:
  "parser_ok p \<Longrightarrow> i \<le> mSrcIdx p \<Longrightarrow> 0 < mSrcIdx p \<Longrightarrow> \<exists>p1. number_loop e d st p = Some p1 \<and> finished i p p1"
proof (induction e d st p rule: number_loop.induct)
  case (1 e d st p)
  note ok = "1.prems"(1)
  have l: "mSrcIdx p < length (mSrc p)" using ok by (simp add: parser_ok_def)
  obtain c0 where c0: "cur p 0 = Some c0" using cur_0 [OF ok] by blast
  show ?case
  proof (cases "c0 = chr_nul")
    case True
    have "number_loop e d st p = number_suffix e st chr_nul (adv 1 p)"
      using c0 True by (subst number_loop.simps) (simp add: IsWhitespaceOrPunctuation_def digit_value_def between_def byte_def)
    moreover have "number_suffix e st chr_nul (adv 1 p) = Some (TokenFail_ofs ''Unexpected character while parsing number'' 0
        (lit BfTypeCode_IntUnknown (n_val st) (token_end (mSrcIdx p) (adv 1 p))))" by (simp add: number_suffix_def idx_simps)
    moreover have "finished i p (lit BfTypeCode_IntUnknown (n_val st) (token_end (mSrcIdx p) (adv 1 p)))"
      using l "1.prems"(2) by (simp add: finished_def keeps_simps idx_simps)
    ultimately show ?thesis by simp
  next
    case nul: False
    have a: "parser_ok (adv 1 p)" by (rule adv_1_ok [OF ok c0 nul])
    have ma: "moves p (adv 1 p)" by (rule moves_adv [OF a])
    show ?thesis
    proof (cases "c0 = CHR 0x27")
      case True
      from "1.IH"(1) [OF c0 True a] "1.prems" obtain p1 where
        "number_loop e d (st\<lparr>n_seps := True, n_lead := (n_lead st \<or> n_base st = 0x10 \<and> n_hex st = 0)\<rparr>) (adv 1 p) = Some p1" "finished i (adv 1 p) p1"
        by (auto simp: idx_simps)
      then show ?thesis using c0 True finished_moves [OF _ ma order_refl] by (subst number_loop.simps) simp
    next
      case sep: False
      obtain c sg h p1 where first:
        "(if n_base st = 10 \<and> (c0 = CHR ''e'' \<or> c0 = CHR ''E'')
          then exp_loop 0 False (adv 1 p) \<bind> (\<lambda>(c, sg, hasExp, p1). Some (c, sg, hasExp, if \<not> hasExp then TokenFail ''Expected an exponent'' p1 else p1))
          else Some (c0, 0, False, adv 1 p)) = Some (c, sg, h, p1)"
        and m1: "moves (adv 1 p) p1"
      proof (cases "n_base st = 10 \<and> (c0 = CHR ''e'' \<or> c0 = CHR ''E'')")
        case True
        from exp_loop_total [OF a, of 0 False] obtain c sg h p1
          where e: "exp_loop 0 False (adv 1 p) = Some (c, sg, h, p1)" "moves (adv 1 p) p1" by blast
        show ?thesis by (rule that [of c sg h "if \<not> h then TokenFail ''Expected an exponent'' p1 else p1"]) (use True e in simp_all)
      next
        case False
        show ?thesis by (rule that [of c0 0 False "adv 1 p"]) (rule if_not_P [OF False], rule moves_refl [OF a])
      qed
      have m: "moves p p1" using m1 by (rule moves_adv_trans)
      have ok1: "parser_ok p1" by (rule moves_ok [OF ok m])
      have i1: "i < mSrcIdx p1" "0 < mSrcIdx p1" using moves_length [OF m1] "1.prems"(2) by (auto simp: idx_simps)
      obtain e1 where e1: "cur p1 0 = Some e1" using cur_0 [OF ok1] by blast
      let ?dot = "c = CHR ''.'' \<and> e1 \<noteq> CHR ''.''"
      have eq: "number_loop e d st p =
          (if ?dot \<and> \<not> d \<or> h then float_loop e (n_val st) sg h p1
           else if c = CHR ''.'' \<or> IsWhitespaceOrPunctuation c then Some (number_end st p1)
           else (case digit_value (n_base st) c of Some x \<Rightarrow> number_loop e d (add_digit x st) p1 | None \<Rightarrow> number_suffix e st c p1))"
        using c0 sep first e1 by (subst number_loop.simps) simp
      have "\<exists>p2. number_loop e d st p = Some p2 \<and> finished i p1 p2"
      proof -
        consider (f) "?dot \<and> \<not> d \<or> h" | (n) "\<not> (?dot \<and> \<not> d \<or> h)" "c = CHR ''.'' \<or> IsWhitespaceOrPunctuation c"
          | (x) x where "\<not> (?dot \<and> \<not> d \<or> h)" "\<not> (c = CHR ''.'' \<or> IsWhitespaceOrPunctuation c)" "digit_value (n_base st) c = Some x"
          | (s) "\<not> (?dot \<and> \<not> d \<or> h)" "\<not> (c = CHR ''.'' \<or> IsWhitespaceOrPunctuation c)" "digit_value (n_base st) c = None" by fastforce
        then show ?thesis
        proof cases
          case f
          then show ?thesis using eq float_loop_total [OF ok1 i1(1)] by (simp only: if_True)
        next
          case n
          then show ?thesis using eq number_end_finished [OF ok1 i1(1)] by (simp only: if_True if_False) blast
        next
          case x
          have dot: "(if c = CHR ''.'' then cur p1 0 \<bind> (\<lambda>d. Some (d \<noteq> CHR ''.'')) else Some False) = Some ?dot" using e1 by simp
          from "1.IH"(2) [OF c0 sep first refl refl refl dot x ok1] i1 obtain p2
            where "number_loop e d (add_digit x st) p1 = Some p2" "finished i p1 p2" by auto
          then show ?thesis using eq x by (simp only: if_False option.case) blast
        next
          case s
          then show ?thesis using eq suffix_total(3) [OF ok1 i1(1)] by (simp only: if_False option.case)
        qed
      qed
      then show ?thesis using finished_moves [OF _ m order_refl] by blast
    qed
  qed
qed

lemma number_base_total:
  assumes ok: "parser_ok p"
  shows "\<exists>base p1. number_base c p = Some (base, p1) \<and> moves p p1"
proof -
  obtain d where d: "cur p 0 = Some d" using cur_0 [OF ok] by blast
  have "d \<noteq> chr_nul \<Longrightarrow> moves p (adv 1 p)" using moves_adv adv_1_ok [OF ok d] by blast
  with d moves_refl [OF ok] show ?thesis by (simp add: number_base_def)
qed

lemma lex_number_ok:
  assumes t: "in_token c p"
  shows "ok_step loc p (lex_number e pt c p)"
proof -
  have ok: "parser_ok p" and i: "0 < mSrcIdx p" using t by (simp_all add: in_token_def)
  from number_base_total [OF ok] obtain base p1 where b: "number_base c p = Some (base, p1)" and m: "moves p p1" by blast
  have ok1: "parser_ok p1" by (rule moves_ok [OF ok m])
  have i1: "mSrcIdx p \<le> mSrcIdx p1" "0 < mSrcIdx p1" using moves_length [OF m] i by auto
  from number_loop_total [OF ok1 i1] obtain p2 where p2: "number_loop e (pt = Pun BfToken_Dot)
      \<lparr>n_val = word_of_nat (byte c - byte CHR ''0''), n_base = base, n_hex = 0, n_overflow = False, n_seps = False, n_lead = False\<rparr> p1 = Some p2"
    "finished (mSrcIdx p) p1 p2" by blast
  have "lex_number e pt c p = Some (LexReturn, p2)" by (simp add: lex_number_def b p2(1))
  then show ?thesis using finished_step [OF ok finished_moves [OF p2(2) m order_refl]] by (simp add: ok_stepI)
qed

section \<open>Words\<close>

lemma src_ok_next: "src_ok s \<Longrightarrow> i < length s \<Longrightarrow> s ! i \<noteq> chr_nul \<Longrightarrow> s ! i \<noteq> chr_nl \<Longrightarrow> s ! Suc i \<noteq> chr_nul"
  using src_ok_text [of s i] by (simp add: src_ok_def)

lemma token_hash_total: "src_ok s \<Longrightarrow> i < length s \<Longrightarrow> s ! i \<noteq> chr_nul \<Longrightarrow> \<exists>h. token_hash s i n = Some h"
proof (induction n arbitrary: i)
  case 0
  then show ?case by (simp add: rd_def)
next
  case (Suc n)
  show ?case
  proof (cases "IsWhitespaceOrPunctuation (s ! i)")
    case True
    then show ?thesis using Suc.prems by (simp add: rd_def)
  next
    case False
    then have "s ! i \<noteq> chr_nl" by (auto simp: IsWhitespaceOrPunctuation_def)
    from Suc.IH [OF Suc.prems(1), of "Suc i"] src_ok_next [OF Suc.prems this] src_ok_step [OF Suc.prems] False
    show ?thesis using Suc.prems by (auto simp: rd_def)
  qed
qed

lemma SrcPtrHasToken_total:
  assumes t: "in_token c p" and n: "chr_nul \<notin> set name" "name \<noteq> []"
  shows "\<exists>r. SrcPtrHasToken name p = Some r \<and> (\<forall>i. r = Some i \<longrightarrow> mSrcIdx p \<le> i \<and> i < length (mSrc p))"
proof -
  have ok: "src_ok (mSrc p)" "mSrcIdx p - 1 < length (mSrc p)" and i: "0 < mSrcIdx p" using t by (auto simp: in_token_def parser_ok_def)
  from src_match_total [OF ok n(1)] obtain b where b: "src_match (mSrc p) (mSrcIdx p - 1) name = Some b"
    "b \<longrightarrow> mSrcIdx p - 1 + length name < length (mSrc p)" by blast
  have "length name > 0" using n(2) by simp
  with i have l: "mSrcIdx p \<le> mSrcIdx p - 1 + length name" by linarith
  show ?thesis
  proof (cases b)
    case True
    then show ?thesis using b l by (simp add: SrcPtrHasToken_def rd_def)
  next
    case False
    then show ?thesis using b by (simp add: SrcPtrHasToken_def)
  qed
qed

lemma keyword_cases_words: "\<forall>(h, ws) \<in> set keyword_cases. \<forall>(m, w, t) \<in> set ws. chr_nul \<notin> set w \<and> w \<noteq> []"
  by code_simp

lemma first_word_total:
  assumes t: "in_token c p"
  shows "\<forall>(m, w, t) \<in> set ws. chr_nul \<notin> set w \<and> w \<noteq> [] \<Longrightarrow>
    \<exists>r. first_word ws p = Some r \<and> (\<forall>i w. r = Some (i, w) \<longrightarrow> mSrcIdx p \<le> i \<and> i < length (mSrc p))"
proof (induction ws)
  case Nil
  then show ?case by simp
next
  case (Cons x ws)
  obtain m w t where x: "x = (m, w, t)" by (cases x)
  have w: "chr_nul \<notin> set w" "w \<noteq> []" using Cons.prems x by auto
  from SrcPtrHasToken_total [OF assms w] obtain r where r: "SrcPtrHasToken w p = Some r"
    "\<forall>i. r = Some i \<longrightarrow> mSrcIdx p \<le> i \<and> i < length (mSrc p)" by blast
  from Cons.IH Cons.prems obtain q where q: "first_word ws p = Some q"
    "\<forall>i w. q = Some (i, w) \<longrightarrow> mSrcIdx p \<le> i \<and> i < length (mSrc p)" by auto
  show ?case
  proof (cases "mode_ok m (mCompatMode p)")
    case True
    then show ?thesis using x r q by (cases r) simp_all
  next
    case False
    then show ?thesis using x q by simp
  qed
qed

lemma finished_token_end:
  assumes "in_token c p" "mSrcIdx p \<le> i" "i < length (mSrc p)"
  shows "finished (mSrcIdx p) p (lit tc v (token_end i p))"
    "finished (mSrcIdx p) p ((token_end i p)\<lparr>mToken := t, mSyntaxToken := BfSyntaxToken_Token\<rparr>)"
    "finished (mSrcIdx p) p ((token_end i p)\<lparr>mToken := t, mSyntaxToken := BfSyntaxToken_Token, p_warnings := ws\<rparr>)"
  using assms by (simp_all add: finished_def keeps_simps idx_simps token_end_def)

lemma lex_keyword_total:
  assumes t: "in_token c p"
  shows "\<exists>r. lex_keyword p = Some r \<and> (\<forall>p1. r = Some p1 \<longrightarrow> finished (mSrcIdx p) p p1)"
proof -
  have ok: "src_ok (mSrc p)" "mSrcIdx p - 1 < length (mSrc p)" "mSrc p ! (mSrcIdx p - 1) \<noteq> chr_nul"
    using t by (auto simp: in_token_def parser_ok_def)
  from token_hash_total [OF ok] obtain h where h: "GetTokenHash p = Some h" by (auto simp: GetTokenHash_def)
  show ?thesis
  proof (cases "h = ''true'' \<or> h = ''fals''")
    case True
    let ?w = "if h = ''true'' then ''true'' else ''false''"
    have "chr_nul \<notin> set ?w" "?w \<noteq> []" by simp_all
    from SrcPtrHasToken_total [OF t this] obtain r where r: "SrcPtrHasToken ?w p = Some r"
      "\<forall>i. r = Some i \<longrightarrow> mSrcIdx p \<le> i \<and> i < length (mSrc p)" by blast
    have "lex_keyword p = Some (case r of Some i \<Rightarrow> Some (lit BfTypeCode_Boolean (if h = ''true'' then 1 else 0) (token_end i p)) | None \<Rightarrow> None)"
      using h True r(1) by (simp add: lex_keyword_def)
    then show ?thesis using r(2) finished_token_end(1) [OF t] by (cases r) simp_all
  next
    case False
    let ?ws = "case map_of keyword_cases h of Some ws \<Rightarrow> ws | None \<Rightarrow> []"
    have "\<forall>(m, w, t) \<in> set ?ws. chr_nul \<notin> set w \<and> w \<noteq> []"
      using keyword_cases_words by (cases "map_of keyword_cases h") (auto dest!: map_of_SomeD)
    from first_word_total [OF t this] obtain r where r: "first_word ?ws p = Some r"
      "\<forall>i w. r = Some (i, w) \<longrightarrow> mSrcIdx p \<le> i \<and> i < length (mSrc p)" by blast
    then show ?thesis using h False finished_token_end(2,3) [OF t]
      by (cases r) (auto simp: lex_keyword_def Let_def)
  qed
qed

text \<open>A character of several bytes ends in the source, or is the character 0 with which no identifier goes on.\<close>

lemma gather_total: "i + n < length s \<Longrightarrow> \<exists>ch. u8_gather s i n x = Some ch"
  by (induction n arbitrary: i x) (auto simp: rd_def)

lemma u8_toucs_total:
  assumes "i < length s" "0 < k" "int i + k < int (length s)"
  shows "\<exists>ch n. u8_toucs s i k = Some (ch, n) \<and> (ch \<noteq> 0 \<longrightarrow> int n \<le> k)"
proof -
  let ?nb = "trailingBytesForUTF8 (s ! i)"
  show ?thesis
  proof (cases "int ?nb \<ge> k")
    case True
    then show ?thesis using assms by (simp add: u8_toucs_def rd_def)
  next
    case False
    then obtain ch where "u8_gather s i ?nb 0 = Some ch" using gather_total [of i ?nb s 0] assms(3) by auto
    then show ?thesis using False assms by (simp add: u8_toucs_def rd_def Let_def)
  qed
qed

lemma wide_char_total:
  assumes ok: "parser_ok p" and i: "i < length (mSrc p)" "mSrc p ! i \<noteq> chr_nul" and e: "char_category e 0 = CAT_CC"
  shows "\<exists>cat j. wide_char e p i = Some (cat, j) \<and> i < j \<and> (cat \<noteq> CAT_CC \<longrightarrow> j < length (mSrc p))"
proof -
  have "Suc i < length (mSrc p)" using ok src_ok_step [OF _ i] by (simp add: parser_ok_def)
  then have "0 < mOrigSrcLength p - int i" "int i + (mOrigSrcLength p - int i) < int (length (mSrc p))"
    using ok by (simp_all add: parser_ok_def)
  from u8_toucs_total [OF i(1) this] obtain ch n where n: "u8_toucs (mSrc p) i (mOrigSrcLength p - int i) = Some (ch, n)"
    "ch \<noteq> 0 \<longrightarrow> int n \<le> mOrigSrcLength p - int i" by blast
  have w: "wide_char e p i = Some (char_category e ch, i + n)" using n(1) by (simp add: wide_char_def)
  have "i < i + n" using wide_char_pos [OF w] .
  moreover have "char_category e ch \<noteq> CAT_CC \<longrightarrow> i + n < length (mSrc p)" using e n(2) ok by (auto simp: parser_ok_def)
  ultimately show ?thesis using w by blast
qed

text \<open>No character is cut off by the end of the source.\<close>

definition wide_ok :: "string \<Rightarrow> bool" where
  "wide_ok s \<longleftrightarrow> (\<forall>i \<in> {..< length s - 1}. byte (s ! i) \<ge> 0xC0 \<longrightarrow> i + trailingBytesForUTF8 (s ! i) + 1 < length s)"

definition skip_ok :: "bf_parser \<Rightarrow> bool" where
  "skip_ok p \<longleftrightarrow> (in_ignored_section p \<longrightarrow> wide_ok (mSrc p))"

lemma wide_char_length:
  assumes "parser_ok p" "i < length (mSrc p)" "byte (mSrc p ! i) \<ge> 0xC0" "wide_ok (mSrc p)" "wide_char e p i = Some (cat, j)"
  shows "j < length (mSrc p)"
proof -
  have "mSrc p ! i \<noteq> chr_nul" using assms(3) by (auto simp: byte_def)
  then have "Suc i < length (mSrc p)" using src_ok_step [OF _ assms(2)] assms(1) by (simp add: parser_ok_def)
  then have "i + trailingBytesForUTF8 (mSrc p ! i) + 1 < length (mSrc p)" using assms(3,4) by (auto simp: wide_ok_def)
  moreover have "j = i + trailingBytesForUTF8 (mSrc p ! i) + 1"
    using assms(5) assms(2) by (auto simp: wide_char_def u8_toucs_def rd_def Let_def split: Option.bind_splits if_splits)
  ultimately show ?thesis by simp
qed

lemma continues_CC: "continues_ident cat \<Longrightarrow> cat \<noteq> CAT_CC"
  by (auto simp: continues_ident_def starts_ident_def)

lemma ident_end_total:
  "parser_ok p \<Longrightarrow> char_category e 0 = CAT_CC \<Longrightarrow> i < length (mSrc p) \<Longrightarrow> \<exists>j. ident_end e p i = Some j \<and> i \<le> j \<and> j < length (mSrc p)"
proof (induction e p i rule: ident_end.induct)
  case (1 e p i)
  note ok = "1.prems"(1) and cc = "1.prems"(2) and l = "1.prems"(3)
  let ?c = "mSrc p ! i"
  have r: "rd (mSrc p) i = Some ?c" using l by (simp add: rd_def)
  show ?case
  proof (cases "0xC0 \<le> byte ?c")
    case True
    then have "?c \<noteq> chr_nul" by (auto simp: byte_def)
    from wide_char_total [OF ok l this cc] obtain cat j where w: "wide_char e p i = Some (cat, j)" "i < j" "cat \<noteq> CAT_CC \<longrightarrow> j < length (mSrc p)" by blast
    show ?thesis
    proof (cases "continues_ident cat")
      case T: True
      then have j: "j < length (mSrc p)" using w(3) continues_CC by blast
      from "1.IH"(1) [OF r refl True w(1) refl T ok cc j] obtain k where "ident_end e p j = Some k" "j \<le> k" "k < length (mSrc p)" by blast
      then show ?thesis using r True T w(1,2) by (subst ident_end.simps) simp
    next
      case False
      then show ?thesis using r True w(1) l by (subst ident_end.simps) simp
    qed
  next
    case False
    let ?v = "is_upper ?c \<or> is_lower ?c \<or> ?c = CHR ''_'' \<or> is_digit ?c \<or> mCompatMode p \<and> (?c = CHR ''$'' \<or> ?c = CHR ''`'' \<or> ?c = CHR 0x27)"
    show ?thesis
    proof (cases ?v)
      case True
      then have "?c \<noteq> chr_nul" by (auto simp: between_def byte_def)
      then have "Suc i < length (mSrc p)" using ok src_ok_step [OF _ l] by (simp add: parser_ok_def)
      from "1.IH"(2) [OF r refl False True ok cc this] obtain k where "ident_end e p (Suc i) = Some k" "Suc i \<le> k" "k < length (mSrc p)" by blast
      then show ?thesis using r False True by (subst ident_end.simps) simp
    next
      case F: False
      then show ?thesis using r False l by (subst ident_end.simps) auto
    qed
  qed
qed

lemma at_line_end_total: "src_ok s \<Longrightarrow> i < length s \<Longrightarrow> \<exists>b. at_line_end s i = Some b"
proof (induction s i rule: at_line_end.induct)
  case (1 s i)
  have r: "rd s i = Some (s ! i)" using 1(3) by (simp add: rd_def)
  show ?case
  proof (cases "s ! i = CHR '' '' \<or> s ! i = CHR 0x09")
    case True
    then have n: "\<not> (s ! i = CHR 0x0D \<or> s ! i = chr_nl)" "\<not> (s ! i \<noteq> CHR '' '' \<and> s ! i \<noteq> CHR 0x09)" "s ! i \<noteq> chr_nul" by auto
    from "1.IH" [OF r n(1,2) 1(2) src_ok_step [OF 1(2,3) n(3)]] show ?thesis using r n by (subst at_line_end.simps) auto
  next
    case False
    then show ?thesis using r by (subst at_line_end.simps) auto
  qed
qed

lemma nextchar_total:
  "src_ok s \<Longrightarrow> i < length s \<Longrightarrow> s ! i \<noteq> chr_nul \<Longrightarrow> list_ex isutf (take n (drop (Suc i) s)) \<Longrightarrow>
   \<exists>ch1 sz1 j. nextchar_loop s i ch sz = Some (ch1, sz1, j) \<and> sz1 \<le> sz + n \<and> i < j \<and> j < length s"
proof (induction n arbitrary: i ch sz)
  case 0
  then show ?case by simp
next
  case (Suc n)
  let ?c = "s ! i" and ?d = "s ! Suc i"
  have l: "Suc i < length s" by (rule src_ok_step [OF Suc.prems(1-3)])
  have r: "rd s i = Some ?c" "rd s (Suc i) = Some ?d" using l by (simp_all add: rd_def)
  have d: "drop (Suc i) s = ?d # drop (Suc (Suc i)) s" using l by (simp add: Cons_nth_drop_Suc)
  show ?case
  proof (cases "push_bit 6 ch + word_of_nat (byte ?c) \<noteq> 0 \<and> byte ?d \<noteq> 0 \<and> \<not> isutf ?d")
    case True
    then have "?d \<noteq> chr_nul" by (auto simp: byte_def)
    from Suc.IH [OF Suc.prems(1) l this, of "push_bit 6 ch + word_of_nat (byte ?c)" "Suc sz"] Suc.prems(4) True d
    obtain ch1 sz1 j where "nextchar_loop s (Suc i) (push_bit 6 ch + word_of_nat (byte ?c)) (Suc sz) = Some (ch1, sz1, j)"
      "sz1 \<le> Suc sz + n" "Suc i < j" "j < length s" by auto
    then show ?thesis using r True by (subst nextchar_loop.simps) simp
  next
    case False
    then show ?thesis using r l by (subst nextchar_loop.simps) (auto simp: Let_def)
  qed
qed

lemma UnexpectedCharacter_total:
  assumes t: "in_token c p" and q: "keeps p q" "mTokenStart q = mTokenStart p"
    and i: "mSrcIdx p \<le> mSrcIdx q" "in_ignored_section p \<Longrightarrow> mSrcIdx q < length (mSrc p)"
  shows "\<exists>p1. UnexpectedCharacter q = Some p1 \<and> parser_ok p1 \<and> mSrc p1 = mSrc p \<and> mSrcIdx p \<le> mSrcIdx p1 \<and> same_pp p p1"
proof (cases "in_ignored_section p")
  case True
  have "parser_ok q" using keeps_ok [OF _ q(1)] t i(2) True q(1) by (simp add: in_token_def keeps_def)
  then show ?thesis using True q(1) i(1) by (simp add: UnexpectedCharacter_def keeps_def same_pp_def)
next
  case False
  let ?i = "mTokenStart p"
  have ok: "parser_ok p" "src_ok (mSrc p)" using t by (simp_all add: in_token_def parser_ok_def)
  have c: "mSrc p ! ?i \<noteq> chr_nul" "?i < length (mSrc p)" "mSrcIdx p = Suc ?i" using t by (auto simp: in_token_def parser_ok_def)
  from src_ok_step [OF ok(2) c(2,1)] have "?i \<in> {..< length (mSrc p) - 1}" by simp
  then have u: "list_ex isutf (take 6 (drop (Suc ?i) (mSrc p)))" using ok(2) by (simp add: src_ok_def del: drop_Suc)
  from nextchar_total [OF ok(2) c(2,1) u, of 0 0] obtain ch sz j where n: "nextchar_loop (mSrc p) ?i 0 0 = Some (ch, sz, j)" "sz \<le> 6"
    "?i < j" "j < length (mSrc p)" by auto
  have s: "mSrc q = mSrc p" "\<not> in_ignored_section q" "same_pp p q" using q(1) False by (simp_all add: keeps_def same_pp_def)
  have "UnexpectedCharacter q = Some ((FailAt ''Unexpected character'' ?i q)\<lparr>mSrcIdx := j\<rparr>)"
    using n(1,2) s q(2) by (simp add: UnexpectedCharacter_def u8_nextchar_def)
  moreover have "parser_ok ((FailAt ''Unexpected character'' ?i q)\<lparr>mSrcIdx := j\<rparr>)"
    by (rule keeps_ok [OF ok(1)]) (use q(1) n(4) s in \<open>simp_all add: keeps_simps idx_simps\<close>)
  ultimately show ?thesis using n(3) c(3) s by (simp add: idx_simps same_pp_def FailAt_def)
qed

lemma start_at_simps [simp]:
  "mSrcIdx (start_at loc p) = mSrcIdx p" "mSrc (start_at loc p) = mSrc p" "keeps q (start_at loc p) = keeps q p" "keeps (start_at loc p) q = keeps p q"
  by (simp_all add: start_at_def keeps_def split: option.splits)

lemma lex_identifier_ok:
  assumes t: "in_token c p" and e: "char_category e 0 = CAT_CC" and sk: "skip_ok p"
  shows "ok_step loc p (lex_identifier e loc c p)"
proof -
  have ok: "parser_ok p" using t by (rule in_token_ok)
  have ts: "mTokenStart p < length (mSrc p)" "mSrc p ! mTokenStart p \<noteq> chr_nul" "mSrcIdx p - 1 = mTokenStart p" "mSrcIdx p < length (mSrc p)"
    using t by (auto simp: in_token_def parser_ok_def)
  obtain w p1 where first: "(if byte c \<ge> 0xC0
      then do { (cat, j) \<leftarrow> wide_char e p (mSrcIdx p - 1); Some (starts_ident cat, p\<lparr>mSrcIdx := j\<rparr>) } else Some (False, p)) = Some (w, p1)"
    and p1: "keeps p p1" "mTokenStart p1 = mTokenStart p" "mSrcIdx p \<le> mSrcIdx p1"
      "\<not> byte c \<ge> 0xC0 \<or> w \<or> in_ignored_section p \<longrightarrow> mSrcIdx p1 < length (mSrc p)"
  proof (cases "byte c \<ge> 0xC0")
    case True
    from wide_char_total [OF ok ts(1,2) e] obtain cat j where "wide_char e p (mTokenStart p) = Some (cat, j)" "mTokenStart p < j"
      "cat \<noteq> CAT_CC \<longrightarrow> j < length (mSrc p)" by blast
    moreover from this have "in_ignored_section p \<longrightarrow> j < length (mSrc p)"
      using wide_char_length [OF ok ts(1) _ _ \<open>wide_char e p (mTokenStart p) = Some (cat, j)\<close>] True t sk by (auto simp: skip_ok_def in_token_def)
    ultimately show ?thesis using True ts t continues_CC [of cat]
      by (intro that [of "starts_ident cat" "p\<lparr>mSrcIdx := j\<rparr>"]) (auto simp: keeps_simps in_token_def continues_ident_def)
  next
    case False
    then show ?thesis using ts by (intro that [of False p]) simp_all
  qed
  let ?word = "w \<or> mCompatMode p \<and> (c = CHR ''$'' \<or> c = CHR ''`'') \<or> is_upper c \<or> is_lower c \<or> c = CHR ''_''"
  show ?thesis
  proof (cases ?word)
    case True
    then have "\<not> byte c \<ge> 0xC0 \<or> w" by (auto simp: between_def byte_def)
    with p1(4) have l: "mSrcIdx p1 < length (mSrc p)" by simp
    have ok1: "parser_ok p1" using keeps_ok [OF ok p1(1)] l p1(1) by (simp add: keeps_def)
    have s: "mSrc p1 = mSrc p" using p1(1) by (simp add: keeps_def)
    from ident_end_total [OF ok1 e, of "mSrcIdx p1"] l s obtain i where i: "ident_end e p1 (mSrcIdx p1) = Some i" "mSrcIdx p1 \<le> i" "i < length (mSrc p)" by auto
    let ?r = "(token_end i (start_at loc p1))\<lparr>mSyntaxToken := BfSyntaxToken_Identifier\<rparr>"
    have eq: "lex_identifier e loc c p = Some (LexReturn, ?r)"
      unfolding lex_identifier_def first using True i(1) by auto
    have "mTokenStart (start_at loc p1) = mTokenStart (start_at loc p)" using p1(2) by (simp add: start_at_def split: option.splits)
    then have "finished (mSrcIdx p) (start_at loc p) ?r" using p1(1,3) i by (simp add: finished_def keeps_simps token_end_def)
    moreover have "parser_ok ?r" using keeps_ok [OF ok, of ?r] p1(1) i(3) s by (simp add: keeps_simps token_end_def)
    moreover have "same_pp p ?r" using keeps_same_pp [of p ?r] p1(1) by (simp add: keeps_simps token_end_def)
    ultimately show ?thesis unfolding eq using p1(3) i s by (intro ok_stepI) (simp add: step_ok_def token_end_def)
  next
    case False
    let ?q = "(AddErrorNode (mTokenStart p1) (mSrcIdx p1) p1)\<lparr>mTriviaStart := mSrcIdx p1\<rparr>"
    have "keeps p ?q" "mTokenStart ?q = mTokenStart p" "mSrcIdx p \<le> mSrcIdx ?q" "in_ignored_section p \<Longrightarrow> mSrcIdx ?q < length (mSrc p)"
      using p1 by (simp_all add: keeps_simps idx_simps)
    from UnexpectedCharacter_total [OF t this] obtain p2 where
      p2: "UnexpectedCharacter ?q = Some p2" "parser_ok p2" "mSrc p2 = mSrc p" "mSrcIdx p \<le> mSrcIdx p2" "same_pp p p2" by blast
    have eq: "lex_identifier e loc c p = Some (LexNext False False, p2)"
      unfolding lex_identifier_def first using False p2(1) by auto
    show ?thesis unfolding eq by (intro ok_stepI step_okI) (use p2 in simp_all)
  qed
qed

lemma lex_word_ok:
  assumes t: "in_token c p" and e: "char_category e 0 = CAT_CC" and sk: "skip_ok p"
  shows "ok_step loc p (lex_word e loc c p)"
proof -
  have ok: "parser_ok p" using t by (rule in_token_ok)
  then have s: "src_ok (mSrc p)" "mSrcIdx p < length (mSrc p)" by (simp_all add: parser_ok_def)
  from at_line_end_total [OF s] obtain b where b: "at_line_end (mSrc p) (mSrcIdx p) = Some b" by blast
  from lex_keyword_total [OF t] obtain r where r: "lex_keyword p = Some r" "\<forall>p1. r = Some p1 \<longrightarrow> finished (mSrcIdx p) p p1" by blast
  note word = lex_identifier_ok [OF t e sk, of loc]
  show ?thesis
  proof (cases "mCompatMode p \<and> c = CHR 0x5C \<and> b")
    case True
    then show ?thesis using b stay_ok [OF ok] by (simp add: lex_word_def)
  next
    case F: False
    then have eq: "lex_word e loc c p = (case if isVerbatim loc then None else r of Some p1 \<Rightarrow> Some (LexReturn, p1) | None \<Rightarrow> lex_identifier e loc c p)"
      using b r(1) by (auto simp: lex_word_def)
    show ?thesis
    proof (cases "if isVerbatim loc then None else r")
      case None
      then show ?thesis using eq word by simp
    next
      case (Some p1)
      then have "finished (mSrcIdx p) p p1" using r(2) by (simp split: if_splits)
      then show ?thesis using eq Some finished_step [OF ok] by (simp add: ok_stepI)
    qed
  qed
qed

section \<open>Strings\<close>

lemma multi_scan_total:
  "src_ok s \<Longrightarrow> i < length s \<Longrightarrow> \<exists>header n es. multi_scan s i ls k bad errs = Some (header, n, es) \<and> chr_nul \<notin> set header"
proof (induction s i ls k bad errs rule: multi_scan.induct)
  case (1 s i ls k bad errs)
  have r: "rd s i = Some (s ! i)" using 1(5) by (simp add: rd_def)
  from src_match_total [OF 1(4,5), of "[CHR 0x22, CHR 0x22, CHR 0x22]"] obtain m where m: "src_match s i [CHR 0x22, CHR 0x22, CHR 0x22] = Some m" by auto
  note del = src_match.simps
  have h: "chr_nul \<notin> set (takeWhile (\<lambda>c. c = CHR '' '' \<or> c = CHR 0x09) xs)" for xs
    by (auto dest: set_takeWhileD)
  show ?case
  proof (cases "m \<or> s ! i = chr_nul")
    case True
    then show ?thesis using r m h by (subst multi_scan.simps) (auto simp: Let_def simp del: del)
  next
    case False
    then have n: "\<not> m" "s ! i \<noteq> chr_nul" by simp_all
    have l: "Suc i < length s" by (rule src_ok_step [OF 1(4,5) n(2)])
    consider (nl) "s ! i = chr_nl"
      | (sp) "s ! i \<noteq> chr_nl" "s ! i = CHR '' '' \<or> s ! i = CHR 0x09 \<or> s ! i = CHR 0x0D"
      | (x) "s ! i \<noteq> chr_nl" "\<not> (s ! i = CHR '' '' \<or> s ! i = CHR 0x09 \<or> s ! i = CHR 0x0D)" by blast
    then show ?thesis
    proof cases
      case nl
      from "1.IH"(1) [OF r m n(1) nl 1(4) l] show ?thesis
        using r m n(1) nl by (subst multi_scan.simps) (simp only: Option.bind.simps if_False if_True simp_thms)
    next
      case sp
      from "1.IH"(2) [OF r m n(1) sp(1) n(2) sp(2) 1(4) l] show ?thesis
        using r m n sp by (subst multi_scan.simps) (simp only: Option.bind.simps if_False if_True simp_thms)
    next
      case x
      from "1.IH"(3) [OF r m n(1) x(1) n(2) x(2) 1(4) l] show ?thesis
        using r m n x by (subst multi_scan.simps) (simp only: Option.bind.simps if_False if_True simp_thms)
    qed
  qed
qed

lemma indent_total: "chr_nul \<notin> set ws \<Longrightarrow> parser_ok p \<Longrightarrow> \<exists>p1. indent_loop ls ws p = Some p1 \<and> moves p p1"
proof (induction ws arbitrary: p)
  case Nil
  then show ?case using moves_refl by simp
next
  case (Cons w ws)
  obtain c where c: "cur p 0 = Some c" using cur_0 [OF Cons.prems(2)] by blast
  note m0 = moves_refl [OF Cons.prems(2)]
  from Cons.IH [OF _ Cons.prems(2)] Cons.prems(1) obtain p1 where p1: "indent_loop ls ws p = Some p1" "moves p p1" by auto
  show ?case
  proof (cases "w = c")
    case True
    then have a: "parser_ok (adv 1 p)" using adv_1_ok [OF Cons.prems(2) c] Cons.prems(1) by auto
    from Cons.IH [OF _ a] Cons.prems(1) obtain p2 where "indent_loop ls ws (adv 1 p) = Some p2" "moves (adv 1 p) p2" by auto
    then show ?thesis using c True p1 m0 moves_adv_trans by (simp add: moves_adv_trans)
  next
    case False
    then show ?thesis using c p1 m0 by simp
  qed
qed

lemma hex_value_nul: "hex_value c = Some d \<Longrightarrow> c \<noteq> chr_nul"
  by (auto simp: hex_value_def between_def byte_def)

lemma hex_escape_total: "parser_ok p \<Longrightarrow> \<exists>v p1. hex_escape n val p = Some (v, p1) \<and> moves p p1"
proof (induction n arbitrary: val p)
  case 0
  then show ?case using moves_refl by simp
next
  case (Suc n)
  obtain c where c: "cur p 0 = Some c" using cur_0 [OF Suc.prems] by blast
  show ?case
  proof (cases "hex_value c")
    case None
    then show ?thesis using c moves_refl [OF Suc.prems] by simp
  next
    case (Some d)
    have a: "parser_ok (adv 1 p)" by (rule adv_1_ok [OF Suc.prems c hex_value_nul [OF Some]])
    from Suc.IH [OF a] obtain v p1 where "hex_escape n (val * 0x10 + d) (adv 1 p) = Some (v, p1)" "moves (adv 1 p) p1" by blast
    then show ?thesis using c Some by (auto dest: moves_adv_trans)
  qed
qed

lemma unicode_escape_total: "parser_ok p \<Longrightarrow> \<exists>v p1. unicode_escape n val p = Some (v, p1) \<and> moves p p1"
proof (induction n val p rule: unicode_escape.induct)
  case (1 n val p)
  note ok = "1.prems"
  obtain c where c: "cur p 0 = Some c" using cur_0 [OF ok] by blast
  show ?case
  proof (cases "c = CHR ''}''")
    case True
    have a: "parser_ok (adv 1 p)" by (rule adv_1_ok [OF ok c]) (simp add: True)
    have "adv 1 (if n = 0 then Fail ''Unicode escape sequence expects hex digits'' p else p)
      = (if n = 0 then (adv 1 p)\<lparr>p_errors := p_errors p @ [(''Unicode escape sequence expects hex digits'', int (mSrcIdx p) - 1)]\<rparr> else adv 1 p)"
      by (simp add: adv_def Fail_ofs_def)
    moreover have "moves p ((adv 1 p)\<lparr>p_errors := es\<rparr>)" for es using moves_adv [OF a] by (simp add: moves_def keeps_simps)
    ultimately show ?thesis using c True moves_adv [OF a] by (subst unicode_escape.simps) simp
  next
    case False
    show ?thesis
    proof (cases "hex_value c")
      case None
      then show ?thesis using c False moves_refl [OF ok] by (subst unicode_escape.simps) simp
    next
      case (Some d)
      have a: "parser_ok (adv 1 p)" by (rule adv_1_ok [OF ok c hex_value_nul [OF Some]])
      let ?q = "if n + 1 > 8 then Fail ''Too many hex digits for an unicode scalar'' (adv 1 p) else adv 1 p"
      have "parser_ok ?q" using a by simp
      from "1.IH" [OF c False Some this] obtain v p1 where p1: "unicode_escape (n + 1) (val * 0x10 + word_of_nat d) ?q = Some (v, p1)" "moves ?q p1" by blast
      have "moves (adv 1 p) p1" using p1(2) by (simp split: if_splits)
      then have "moves p p1" by (rule moves_adv_trans)
      moreover have "unicode_escape n val p = Some (v, p1)" using c False Some p1(1) by (subst unicode_escape.simps) simp
      ultimately show ?thesis by blast
    qed
  qed
qed

lemma lex_escape_total:
  assumes ok: "parser_ok p" and c: "cur p 0 = Some c" "c \<noteq> chr_nul"
  shows "\<exists>x p1. lex_escape k p = Some (x, p1) \<and> moves p p1"
proof -
  have a: "parser_ok (adv 1 p)" by (rule adv_1_ok [OF ok c])
  note m = moves_adv [OF a]
  obtain d where d: "cur (adv 1 p) 0 = Some d" using cur_0 [OF a] by blast
  from hex_escape_total [OF a, of 2 0] obtain v p1 where x: "hex_escape 2 0 (adv 1 p) = Some (v, p1)" "moves (adv 1 p) p1" by blast
  have mx: "moves p p1" by (rule moves_adv_trans [OF x(2)])
  have u: "\<exists>v p2. unicode_escape 0 0 (adv 1 (adv 1 p)) = Some (v, p2) \<and> moves p p2" if "d = CHR ''{''"
  proof -
    have "parser_ok (adv 1 (adv 1 p))" by (rule adv_1_ok [OF a d]) (simp add: that)
    from unicode_escape_total [OF this, of 0 0] show ?thesis using moves_adv_trans by blast
  qed
  show ?thesis
  proof (cases "simple_escape c")
    case (Some y)
    then show ?thesis using c m by (simp add: lex_escape_def Let_def)
  next
    case None
    show ?thesis
    proof (cases "c = CHR ''u'' \<and> d = CHR ''{''")
      case True
      from u obtain w p2 where w: "unicode_escape 0 0 (adv 1 (adv 1 p)) = Some (w, p2)" "moves p p2" using True by blast
      have "lex_escape k p = Some (c_str (snd (u8_toutf8 8 w)),
          if fst (u8_toutf8 8 w) = 0 then FailAt ''Invalid unicode scalar'' (mSrcIdx (adv 1 p) + 1) p2 else p2)"
        using None True c(1) d w(1) by (simp add: lex_escape_def Let_def split_beta del: unicode_escape.simps)
      then show ?thesis using w(2) by simp
    next
      case False
      then show ?thesis using None c(1) d x(1) m mx by (auto simp: lex_escape_def Let_def)
    qed
  qed
qed

lemma brace_run_total:
  "b \<noteq> chr_nul \<Longrightarrow> src_ok s \<Longrightarrow> i < length s \<Longrightarrow> \<exists>n. brace_run b s i = Some n \<and> i + n < length s"
proof (induction b s i rule: brace_run.induct)
  case (1 b s i)
  have r: "rd s i = Some (s ! i)" using 1(4) by (simp add: rd_def)
  show ?case
  proof (cases "s ! i = b")
    case True
    have "Suc i < length s" using src_ok_step [OF 1(3,4)] True 1(2) by simp
    from "1.IH" [OF r True 1(2,3) this] obtain n where "brace_run b s (Suc i) = Some n" "Suc i + n < length s" by blast
    then show ?thesis using r True by (subst brace_run.simps) simp
  next
    case False
    then show ?thesis using r 1(4) by (subst brace_run.simps) simp
  qed
qed

definition string_ok :: "bf_parser \<Rightarrow> bf_parser + string \<times> bf_parser \<Rightarrow> bool" where
  "string_ok p r = (case r of Inl p1 \<Rightarrow> moves p p1 | Inr (str, p1) \<Rightarrow> moves p p1)"

lemma string_ok_trans: "moves p p1 \<Longrightarrow> string_ok p1 r \<Longrightarrow> string_ok p r"
  by (auto simp: string_ok_def intro: moves_trans split: sum.splits)

lemma string_ok_simps [simp]: "string_ok p (Inl p1) = moves p p1" "string_ok p (Inr (str, p1)) = moves p p1"
  by (simp_all add: string_ok_def)

lemma string_loop_total:
  "chr_nul \<notin> set (sc_header sc) \<Longrightarrow> parser_ok p \<Longrightarrow> \<exists>r. string_loop sc k str p = Some r \<and> string_ok p r"
proof (induction "length (mSrc p) - mSrcIdx p" arbitrary: p k str rule: less_induct)
  case less
  note ok = less.prems(2)
  have s: "src_ok (mSrc p)" and l: "mSrcIdx p < length (mSrc p)" using ok by (simp_all add: parser_ok_def)
  have step: "\<exists>r. string_loop sc k1 str1 p1 = Some r \<and> string_ok p r" if "moves (adv 1 p) p1" for p1 k1 str1
  proof -
    have m: "moves p p1" using that by (rule moves_adv_trans)
    have "length (mSrc p1) - mSrcIdx p1 < length (mSrc p) - mSrcIdx p"
      unfolding conjunct1 [OF moves_length [OF that], simplified idx_simps]
      by (rule diff_less_mono2) (use moves_length [OF that] l in \<open>auto simp: idx_simps\<close>)
    from less.hyps [OF this less.prems(1) moves_ok [OF ok m]] obtain r where "string_loop sc k1 str1 p1 = Some r" "string_ok p1 r" by blast
    then show ?thesis using string_ok_trans [OF m] by blast
  qed
  obtain c where c: "cur p 0 = Some c" using cur_0 [OF ok] by blast
  show ?case
  proof (cases "c = chr_nul")
    case True
    then show ?thesis using c moves_refl [OF ok] by (subst string_loop.simps) (simp add: Let_def)
  next
    case nul: False
    have a: "parser_ok (adv 1 p)" by (rule adv_1_ok [OF ok c nul])
    note ma = moves_adv [OF a] and m1 = moves_refl [OF a]
    obtain d where d: "cur (adv 1 p) 0 = Some d" using cur_0 [OF a] by blast
    consider (nl) "c = chr_nl" | (q) "c \<noteq> chr_nl" "c = CHR 0x22 \<and> c = sc_start sc"
      | (a) "c \<noteq> chr_nl" "\<not> (c = CHR 0x22 \<and> c = sc_start sc)" "c = CHR 0x27 \<and> c = sc_start sc"
      | (b) "c \<noteq> chr_nl" "\<not> (c = CHR 0x22 \<and> c = sc_start sc)" "\<not> (c = CHR 0x27 \<and> c = sc_start sc)" "c = CHR 0x5C \<and> \<not> sc_verbatim sc"
      | (i) "c \<noteq> chr_nl" "\<not> (c = CHR 0x22 \<and> c = sc_start sc)" "\<not> (c = CHR 0x27 \<and> c = sc_start sc)" "\<not> (c = CHR 0x5C \<and> \<not> sc_verbatim sc)"
      by blast
    then show ?thesis
    proof cases
      case nl
      show ?thesis
      proof (cases "sc_multi sc")
        case True
        from indent_total [OF less.prems(1) a, of "mSrcIdx (adv 1 p)"] obtain p2 where
          p2: "indent_loop (mSrcIdx (adv 1 p)) (sc_header sc) (adv 1 p) = Some p2" "moves (adv 1 p) p2" by blast
        from NewLine_total [OF moves_ok [OF a p2(2)]] obtain p3 where p3: "NewLine p2 = Some p3" "moves p2 p3" by blast
        have "string_loop sc k str p = string_loop sc (k + 1) (if 0 < k \<and> k + 2 < sc_lines sc then str @ [chr_nl] else str) p3"
          using c nl True p2(1) p3(1) by (subst string_loop.simps) (simp add: Let_def del: adv_0 One_nat_def)
        then show ?thesis using step [OF moves_trans [OF p2(2) p3(2)]] by presburger
      next
        case False
        then show ?thesis using c nl moves_refl [OF ok] by (subst string_loop.simps) (simp add: Let_def)
      qed
    next
      case q
      then have q: "c = CHR 0x22" "sc_start sc = CHR 0x22" by metis+
      show ?thesis
      proof (cases "sc_multi sc")
        case True
        have "mSrcIdx (adv 1 p) < length (mSrc p)" using a by (simp add: parser_ok_def idx_simps)
        from src_match_total [OF s this, of "[CHR 0x22, CHR 0x22]"] obtain b where
          b: "src_match (mSrc p) (mSrcIdx (adv 1 p)) [CHR 0x22, CHR 0x22] = Some b" "b \<longrightarrow> mSrcIdx (adv 1 p) + 2 < length (mSrc p)" by auto
        have "string_loop sc k str p = (if b then Some (Inr (str, adv 2 (adv 1 p))) else string_loop sc k (str @ [CHR 0x22]) (adv 1 p))"
          using c q True b(1) by (subst string_loop.simps) (simp add: Let_def del: adv_0 One_nat_def src_match.simps)
        moreover have "b \<Longrightarrow> moves p (adv 2 (adv 1 p))" using b(2) by (simp add: moves_def keeps_simps idx_simps)
        ultimately show ?thesis using step [OF m1] by (cases b) simp_all
      next
        case False
        have "string_loop sc k str p = (if d = CHR 0x22 then string_loop sc k (str @ [CHR 0x22]) (adv 1 (adv 1 p)) else Some (Inr (str, adv 1 p)))"
          using c q False d by (subst string_loop.simps) (simp add: Let_def del: cur_steps adv_0 One_nat_def)
        moreover have "d = CHR 0x22 \<Longrightarrow> moves (adv 1 p) (adv 1 (adv 1 p))" using moves_adv [OF adv_1_ok [OF a d]] by simp
        ultimately show ?thesis using step [of "adv 1 (adv 1 p)"] ma by (cases "d = CHR 0x22") simp_all
      qed
    next
      case a
      then have "c = CHR 0x27" "sc_start sc = CHR 0x27" by metis+
      then show ?thesis using c ma by (subst string_loop.simps) (simp add: Let_def)
    next
      case b
      have "d \<noteq> chr_nul" using src_ok_next [OF s l] c d nul b(1) by (auto simp: cur_def rd_def idx_simps split: if_splits)
      from lex_escape_total [OF a d this, of "sc_interp sc"] obtain x p2 where p2: "lex_escape (sc_interp sc) (adv 1 p) = Some (x, p2)" "moves (adv 1 p) p2" by blast
      have "c = CHR 0x5C" "\<not> sc_verbatim sc" using b by simp_all
      then have "string_loop sc k str p = string_loop sc k (str @ x) p2"
        using c p2(1) by (subst string_loop.simps) (simp add: Let_def)
      then show ?thesis using step [OF p2(2)] by presburger
    next
      case i
      show ?thesis
      proof (cases "sc_interp sc > 0 \<and> (c = CHR ''{'' \<or> c = CHR ''}'')")
        case True
        have "mSrcIdx (adv 1 p) < length (mSrc p)" using a by (simp add: parser_ok_def idx_simps)
        from brace_run_total [OF nul s this] obtain n where
          n: "brace_run c (mSrc (adv 1 p)) (mSrcIdx (adv 1 p)) = Some n" "mSrcIdx (adv 1 p) + n < length (mSrc p)" by (auto simp: idx_simps)
        have mn: "moves (adv 1 p) (adv n (adv 1 p))" using n(2) by (simp add: moves_def keeps_simps idx_simps)
        show ?thesis
        proof (cases "c = CHR ''{'' \<and> opens_expr (sc_interp sc) (n + 1)")
          case T: True
          have "string_loop sc k str p = Some (Inl (adv n (adv 1 p)))"
            using c nul i True T n(1) by (subst string_loop.simps) (simp only: Option.bind.simps if_True if_False Let_def simp_thms)
          then show ?thesis using moves_adv_trans [OF mn] by simp
        next
          case False
          let ?q = "if c = CHR ''}'' \<and> sc_interp sc = 1 \<and> odd (n + 1)
            then FailAt ''Unpaired closing brace.'' (mSrcIdx (adv n (adv 1 p)) - 1) (adv n (adv 1 p)) else adv n (adv 1 p)"
          have "string_loop sc k str p = string_loop sc k (str @ replicate (kept_braces (sc_interp sc) (n + 1)) c) ?q"
            using c nul i True False n(1) by (subst string_loop.simps) (simp only: Option.bind.simps if_True if_False Let_def simp_thms)
          moreover have "moves (adv 1 p) ?q" using mn by simp
          ultimately show ?thesis using step by presburger
        qed
      next
        case False
        have "string_loop sc k str p = string_loop sc k (str @ [c]) (adv 1 p)"
          using c nul i False by (subst string_loop.simps) (simp only: Option.bind.simps if_False Let_def)
        then show ?thesis using step [OF m1] by presburger
      qed
    qed
  qed
qed

lemma categorize_total: "\<exists>r. categorize_from (s @ [chr_nul]) (length s) i = Some r"
proof (induction "s @ [chr_nul]" "length s" i rule: categorize_from.induct)
  case (1 i)
  show ?case
  proof (cases "i < length s")
    case True
    from u8_toucs_total [of i "s @ [chr_nul]" "int (length s) - int i"] True obtain ch n where
      n: "u8_toucs (s @ [chr_nul]) i (int (length s) - int i) = Some (ch, n)" by auto
    from 1 [OF True n refl] obtain cps marks where "categorize_from (s @ [chr_nul]) (length s) (i + n) = Some (cps, marks)" by auto
    then show ?thesis using True n by (subst categorize_from.simps) simp
  next
    case False
    then show ?thesis by (subst categorize_from.simps) simp
  qed
qed

lemma char_literal_total:
  assumes f: "finished i p q"
  shows "\<exists>p1. char_literal str q = Some p1 \<and> finished i p p1"
proof -
  have lits: "finished i p (q\<lparr>mLiteral := v\<rparr>)" "finished i p ((FailAt msg k q)\<lparr>mLiteral := v\<rparr>)" for v msg k
    using f by (simp_all add: finished_def keeps_simps idx_simps)
  have "\<exists>p1. (case str of
      [] \<Rightarrow> Some (if in_ignored_section q then q else FailAt ''Empty char literal'' (mTokenStart q) q)
    | [c] \<Rightarrow> Some (q\<lparr>mLiteral := (mLiteral q)\<lparr>mUInt64 := word_of_nat (byte c)\<rparr>\<rparr>)
    | c # d # cs \<Rightarrow>
        if u8_seqlen_byte c = length str
        then do { (ch, n) \<leftarrow> u8_toucs (str @ [chr_nul]) 0 (int (length str)); Some (q\<lparr>mLiteral := (mLiteral q)\<lparr>mUInt64 := ucast ch\<rparr>\<rparr>) }
        else if in_ignored_section q then Some q
        else do {
          (cps, marks) \<leftarrow> (if length str < 64 then UTF8Categorize str else Some (2, 0));
          Some (FailAt (if int cps - int marks \<le> 1 then ''Grapheme clusters cannot be used as character literals''
                        else ''Too many characters in character literal'') (mTokenStart q + 1) q) }) = Some p1 \<and>
    (\<forall>v. finished i p (p1\<lparr>mLiteral := v\<rparr>))"
  proof (cases str)
    case Nil
    then show ?thesis using lits by simp
  next
    case (Cons c cs)
    show ?thesis
    proof (cases cs)
      case Nil
      then show ?thesis using Cons lits by simp
    next
      case (Cons d ds)
      from categorize_total [of str 0] obtain r where r: "UTF8Categorize str = Some r" unfolding UTF8Categorize_def by blast
      from u8_toucs_total [of 0 "str @ [chr_nul]" "int (length str)"] \<open>str = c # cs\<close> obtain ch n where
        "u8_toucs (str @ [chr_nul]) 0 (int (length str)) = Some (ch, n)" by auto
      then show ?thesis using \<open>str = c # cs\<close> Cons r lits by (auto simp: split_beta)
    qed
  qed
  then obtain p1 where p1: "\<forall>v. finished i p (p1\<lparr>mLiteral := v\<rparr>)"
    "char_literal str q = (let val = sint (mUInt64 (mLiteral p1)) in Some (p1\<lparr>mLiteral := (mLiteral p1)\<lparr>mTypeCode :=
       (if val \<ge> 0x8000 then BfTypeCode_Char32 else if val \<ge> 0x80 then BfTypeCode_Char16 else BfTypeCode_Char8)\<rparr>\<rparr>))"
    by (auto simp: char_literal_def)
  then show ?thesis by (simp add: Let_def)
qed

lemma lex_string_ok:
  assumes t: "in_token c p"
  shows "ok_step loc p (lex_string loc c p)"
proof -
  have ok: "parser_ok p" using t by (rule in_token_ok)
  then have s: "src_ok (mSrc p)" "mSrcIdx p < length (mSrc p)" by (simp_all add: parser_ok_def)
  from src_match_total [OF s, of "[CHR 0x22, CHR 0x22]"] obtain m where m: "src_match (mSrc p) (mSrcIdx p) [CHR 0x22, CHR 0x22] = Some m"
    "m \<longrightarrow> mSrcIdx p + 2 < length (mSrc p)" by auto
  define p1 where "p1 = (if m then adv 2 p else p)"
  have m1: "moves p p1" using m(2) moves_refl [OF ok] by (simp add: p1_def moves_def keeps_simps idx_simps)
  have s1: "src_ok (mSrc p1)" "mSrcIdx p1 < length (mSrc p1)" using moves_ok [OF ok m1] by (simp_all add: parser_ok_def)
  from multi_scan_total [OF s1, of "mSrcIdx p1" 0 None "[]"] obtain header lines errs where h:
    "(if m then multi_scan (mSrc p1) (mSrcIdx p1) (mSrcIdx p1) 0 None [] else Some ([], 0, [])) = Some (header, lines, errs)"
    "chr_nul \<notin> set header" by (cases m) auto
  let ?sc = "\<lparr>sc_start = c, sc_multi = m, sc_verbatim = isVerbatim loc, sc_interp = interpolateSetting loc, sc_lines = lines + 1, sc_header = header\<rparr>"
  let ?q = "p1\<lparr>p_errors := p_errors p1 @ errs\<rparr>"
  have mq: "moves p ?q" using m1 by (simp add: moves_def keeps_simps)
  have "chr_nul \<notin> set (sc_header ?sc)" using h(2) by simp
  from string_loop_total [OF this moves_ok [OF ok mq], of 0 "[]"] obtain r where r: "string_loop ?sc 0 [] ?q = Some r" "string_ok ?q r" by blast
  have eq: "lex_string loc c p = (case r of
      Inl p2 \<Rightarrow> Some (LexInterpolate, p2)
    | Inr (str, p2) \<Rightarrow> string_end loc c str p2)"
    by (simp only: lex_string_def m(1) p1_def [symmetric] Let_def h(1) r(1) Option.bind.simps prod.case)
  show ?thesis
  proof (cases r)
    case (Inl p2)
    then have "moves p p2" using r(2) moves_trans [OF mq] by simp
    then show ?thesis unfolding eq Inl sum.case using moves_ok [OF ok] by (intro ok_stepI) (auto simp: step_ok_def moves_def keeps_def same_pp_def)
  next
    case (Inr z)
    obtain str p2 where z: "z = (str, p2)" by (cases z)
    then have m2: "moves p p2" using r(2) Inr moves_trans [OF mq] by simp
    let ?p3 = "(start_at loc p2)\<lparr>mTokenEnd := mSrcIdx p2, mSyntaxToken := BfSyntaxToken_Literal\<rparr>"
    have "mTokenStart (start_at loc p2) = mTokenStart (start_at loc p)" using m2 by (simp add: start_at_def moves_def split: option.splits)
    then have f3: "finished (mSrcIdx p) (start_at loc p) ?p3" using m2 by (simp add: finished_def keeps_simps moves_def)
    have fin: "ok_step loc p (Some (LexReturn, q))" if "finished (mSrcIdx p) (start_at loc p) q" for q
    proof (intro ok_stepI)
      have k: "keeps p q" "mSrcIdx q < length (mSrc p)" "mSrcIdx p \<le> mSrcIdx q" using that by (simp_all add: finished_def)
      then have "mSrc q = mSrc p" by (simp add: keeps_def)
      with k show "step_ok loc p LexReturn q" using keeps_ok [OF ok k(1)] keeps_same_pp [OF k(1)] that by (simp add: step_ok_def)
    qed
    show ?thesis
    proof (cases "c = CHR 0x27")
      case True
      from char_literal_total [OF f3, of str] obtain p4 where "char_literal str ?p3 = Some p4" "finished (mSrcIdx p) (start_at loc p) p4" by blast
      then show ?thesis unfolding eq Inr z sum.case prod.case string_end_def Let_def using fin True by simp
    next
      case False
      let ?p4 = "?p3\<lparr>mLiteral := (mLiteral ?p3)\<lparr>mTypeCode := BfTypeCode_CharPtr, mString := str\<rparr>\<rparr>"
      have "finished (mSrcIdx p) (start_at loc p) ?p4"
        "finished (mSrcIdx p) (start_at loc p) (?p4\<lparr>mSyntaxToken := BfSyntaxToken_GeneratedNode, mToken := BfToken_None\<rparr>)"
        using f3 by (simp_all add: finished_def keeps_simps)
      then show ?thesis unfolding eq Inr z sum.case prod.case string_end_def Let_def using fin False by simp
    qed
  qed
qed

section \<open>Rounds\<close>

lemma lex_newline_ok:
  assumes "parser_ok p"
  shows "ok_step loc p (lex_newline p)"
proof -
  from NewLine_total [OF assms] obtain p1 where p1: "NewLine p = Some p1" "moves p p1" "mSrcIdx p1 = mSrcIdx p" by blast
  have ok1: "parser_ok p1" by (rule moves_ok [OF assms p1(2)])
  show ?thesis
  proof (cases "mInAsmBlock p1")
    case True
    have "finished (mSrcIdx p1) p1 (tok (KwA BfToken_AsmNewline) 0 p1)" using ok1 by (intro finished_tok) (simp add: parser_ok_def)
    from finished_moves [OF this p1(2), of "mSrcIdx p"] p1(3) show ?thesis
      using True p1(1) finished_step [OF assms] by (simp add: lex_newline_def done_tok_def ok_stepI)
  next
    case False
    have "step_ok loc p (LexNext False False) p1" using ok1 p1 by (intro step_okI) (simp_all add: moves_def keeps_def same_pp_def)
    then show ?thesis using False p1(1) by (simp add: lex_newline_def ok_stepI)
  qed
qed

lemma lex_hash_ok:
  assumes t: "in_token c p"
  shows "ok_step loc p (lex_hash dis p)"
proof (cases dis)
  case True
  have q: "p\<lparr>mTokenStart := mSrcIdx p - 1\<rparr> = p" using t by (simp add: in_token_def)
  have "mSrcIdx p < length (mSrc p)" using t by (simp add: in_token_def parser_ok_def)
  from UnexpectedCharacter_total [OF t keeps_refl refl order_refl this] obtain p1 where
    "UnexpectedCharacter p = Some p1" "parser_ok p1" "mSrc p1 = mSrc p" "mSrcIdx p \<le> mSrcIdx p1" "same_pp p p1" by blast
  then show ?thesis using True q by (simp add: lex_hash_def ok_stepI step_okI)
next
  case False
  then show ?thesis using stay_ok [OF in_token_ok [OF t]] by (simp add: lex_hash_def)
qed

lemma lex_prefixes_ok:
  assumes t: "in_token c p"
  shows "ok_step loc p (lex_at p)" "ok_step loc p (lex_dollar p)"
proof -
  have ok: "parser_ok p" using t by (rule in_token_ok)
  obtain d where d: "cur p 0 = Some d" using cur_0 [OF ok] by blast
  have "finished (mSrcIdx p) p (p\<lparr>mSyntaxToken := BfSyntaxToken_Identifier\<rparr>)"
    using t ok by (simp add: finished_def keeps_simps in_token_def parser_ok_def)
  then show "ok_step loc p (lex_at p)"
    using d stay_ok [OF ok] by (simp add: lex_at_def ok_stepI finished_step [OF ok])
  have "step_ok loc p (LexNext False False) (Fail ''Expected to precede string'' p)" using ok by (intro step_okI) (simp_all add: idx_simps same_pp_def, simp add: Fail_ofs_def)
  then show "ok_step loc p (lex_dollar p)"
    using d stay_ok [OF ok] by (simp add: lex_dollar_def ok_stepI)
qed

lemma lex_char_ok:
  assumes t: "in_token c p" and e: "char_category e 0 = CAT_CC" and sk: "skip_ok p"
  shows "ok_step loc p (lex_char e dis pt loc c p)"
proof -
  have ok: "parser_ok p" and nul: "c \<noteq> chr_nul" using t by (simp_all add: in_token_def)
  have d0: "ok_step loc p (done_tok t 0 p)" for t using done_tok_ok [OF ok, of 0] ok by simp
  have w: "ok_step loc p (case map_of single_symbols c of Some t \<Rightarrow> done_tok (Pun t) 0 p | None \<Rightarrow> lex_word e loc c p)"
    by (cases "map_of single_symbols c") (simp_all add: d0 lex_word_ok [OF t e sk])
  show ?thesis
    unfolding lex_char_def
    by (intro if_ok symbols_ok lex_prefixes_ok [OF t] lex_string_ok [OF t] lex_slash_ok [OF t] lex_hash_ok [OF t] lex_newline_ok
        lex_number_ok [OF t] d0 w ok) (use nul stay_ok [OF ok] in auto)
qed

text \<open>Between rounds the prefix of a token lies behind position \<open>lo\<close>.\<close>

definition locals_ok :: "nat \<Rightarrow> bf_parser \<Rightarrow> lex_locals \<Rightarrow> bool" where
  "locals_ok lo p loc \<longleftrightarrow> (\<forall>i. stringStart loc = Some i \<longrightarrow> lo \<le> i \<and> i \<le> mSrcIdx p)"

definition round_ok :: "nat option \<Rightarrow> nat \<Rightarrow> bf_parser \<Rightarrow> lex_outcome \<Rightarrow> lex_locals \<Rightarrow> bf_parser \<Rightarrow> bool" where
  "round_ok endIdx lo p r loc p1 \<longleftrightarrow> parser_ok p1 \<and> mSrc p1 = mSrc p \<and> same_pp p p1 \<and> mSrcIdx p \<le> mSrcIdx p1 \<and>
     (case r of
        LexReturn \<Rightarrow>
          (if mSyntaxToken p1 = BfSyntaxToken_EOF then Suc (mSrcIdx p1) = length (mSrc p)
           else if mSyntaxToken p1 = BfSyntaxToken_HIT_END_IDX then endIdx \<noteq> None
           else mSyntaxToken p1 \<in> node_tokens \<and> lo \<le> mTokenStart p1 \<and> mTokenStart p1 < mTokenEnd p1 \<and> mTokenEnd p1 = mSrcIdx p1 \<and>
             mSrcIdx p < mSrcIdx p1)
      | LexNext v i \<Rightarrow> mSrcIdx p < mSrcIdx p1 \<and> locals_ok lo p1 loc
      | _ \<Rightarrow> mSrcIdx p < mSrcIdx p1)"

lemma src_ok_end: "src_ok s \<Longrightarrow> i < length s \<Longrightarrow> s ! i = chr_nul \<Longrightarrow> Suc i = length s"
  by (cases "Suc i = length s") (auto simp: src_ok_def)

abbreviation char_read :: "bf_parser \<Rightarrow> bf_parser" where
  "char_read p \<equiv> p\<lparr>mTokenStart := mSrcIdx p, mTokenEnd := mSrcIdx p + 1, mSrcIdx := mSrcIdx p + 1\<rparr>"

lemma char_read_ok:
  assumes "parser_ok p" "mSrc p ! mSrcIdx p \<noteq> chr_nul"
  shows "in_token (mSrc p ! mSrcIdx p) (char_read p)"
  using assms src_ok_step [of "mSrc p" "mSrcIdx p"] by (simp add: in_token_def parser_ok_def)

text \<open>The switch, in a round that starts with \<open>p\<close>.\<close>

lemma switch_ok:
  assumes ok: "parser_ok p" and sk: "skip_ok p" and e: "char_category e 0 = CAT_CC" and lo: "lo \<le> mSrcIdx p" "locals_ok lo p loc"
    and c: "c = mSrc p ! mSrcIdx p"
  shows "\<exists>r p2. lex_char e dis pt loc c (char_read p) = Some (r, p2) \<and> round_ok endIdx lo p r (set_flags r p2 loc) p2"
proof (cases "c = chr_nul")
  case True
  have "lex_char e dis pt loc c (char_read p) = Some (LexReturn, (char_read p)\<lparr>mSrcIdx := mSrcIdx p, mSyntaxToken := BfSyntaxToken_EOF\<rparr>)"
    unfolding lex_char_def using True by simp
  moreover have "Suc (mSrcIdx p) = length (mSrc p)" using src_ok_end True c ok by (auto simp: parser_ok_def)
  ultimately show ?thesis using ok by (simp add: round_ok_def parser_ok_def same_pp_def)
next
  case False
  let ?p1 = "char_read p"
  have t: "in_token c ?p1" using char_read_ok [OF ok] False c by simp
  have "skip_ok ?p1" using sk by (simp add: skip_ok_def)
  from lex_char_ok [OF t e this] obtain r p2 where r: "lex_char e dis pt loc c ?p1 = Some (r, p2)" "step_ok loc ?p1 r p2"
    unfolding ok_step_def by blast
  have p2: "parser_ok p2" "mSrc p2 = mSrc p" "Suc (mSrcIdx p) \<le> mSrcIdx p2" "same_pp p p2" using r(2) by (simp_all add: step_ok_def same_pp_def)
  have "round_ok endIdx lo p r (set_flags r p2 loc) p2"
  proof (cases r)
    case LexReturn
    then have "finished (Suc (mSrcIdx p)) ?p1 p2 \<or> finished (Suc (mSrcIdx p)) (start_at loc ?p1) p2" using r(2) by (simp add: step_ok_def)
    then show ?thesis using LexReturn p2 lo by (auto simp: round_ok_def finished_def start_at_def locals_ok_def split: option.splits)
  next
    case (LexNext v i)
    have "v \<or> i \<longrightarrow> mTokenStart p2 = mSrcIdx p" using r(2) LexNext by (simp add: step_ok_def)
    then have "locals_ok lo p2 (set_flags r p2 loc)" using lo p2(3) LexNext by (auto simp: locals_ok_def set_flags_def Let_def)
    then show ?thesis using LexNext p2 by (simp add: round_ok_def)
  qed (use p2 in \<open>simp_all add: round_ok_def\<close>)
  then show ?thesis using r(1) by blast
qed

text \<open>The characters of an ignored section.\<close>

lemma lex_ignored_ok:
  assumes ok: "parser_ok p" and lo: "locals_ok lo p loc" and c: "c = mSrc p ! mSrcIdx p"
  shows "\<exists>r. lex_ignored loc c (char_read p) = Some r \<and>
    (\<forall>q loc1 p1. r = Some (q, loc1, p1) \<longrightarrow> round_ok endIdx lo p q loc1 p1 \<and> q \<noteq> LexPreprocessor \<and> q \<noteq> LexInterpolate)"
proof (cases "c = chr_nul")
  case True
  then have "Suc (mSrcIdx p) = length (mSrc p)" using src_ok_end c ok by (auto simp: parser_ok_def)
  then show ?thesis using True ok by (auto simp: lex_ignored_def round_ok_def parser_ok_def same_pp_def)
next
  case False
  let ?p1 = "char_read p"
  have p1: "parser_ok ?p1" using char_read_ok [OF ok] False c by (auto intro: in_token_ok)
  then have "src_ok (mSrc p)" "Suc (mSrcIdx p) < length (mSrc p)" by (simp_all add: parser_ok_def)
  from src_match_total [OF this, of "''>>''"] obtain m where m: "src_match (mSrc p) (Suc (mSrcIdx p)) ''>>'' = Some m" by auto
  from NewLine_total [OF p1] obtain p2 where p2: "NewLine ?p1 = Some p2" "moves ?p1 p2" "mSrcIdx p2 = Suc (mSrcIdx p)" by auto
  have ok2: "parser_ok p2" by (rule moves_ok [OF p1 p2(2)])
  have r1: "round_ok endIdx lo p (LexNext False False) (loc\<lparr>isLineStart := b\<rparr>) q"
    if "parser_ok q" "keeps ?p1 q" "mSrcIdx q = Suc (mSrcIdx p)" for b q
    using that lo by (auto simp: round_ok_def keeps_def same_pp_def locals_ok_def)
  note r2 = r1 [OF ok2 _ p2(3), of True] r1 [OF p1, of "isLineStart loc"] r1 [OF p1, of False]
  have "keeps ?p1 p2" using p2(2) by (simp add: moves_def)
  then show ?thesis using False m p2(1) r2 by (simp add: lex_ignored_def)
qed

lemma lex_round_ok:
  assumes ok: "parser_ok p" and sk: "skip_ok p" and e: "char_category e 0 = CAT_CC" and lo: "lo \<le> mSrcIdx p" "locals_ok lo p loc"
  shows "\<exists>r loc1 p1. lex_round e endIdx False dis pt loc p = Some (r, loc1, p1) \<and> round_ok endIdx lo p r loc1 p1"
proof (cases "case endIdx of Some i \<Rightarrow> mSrcIdx p \<ge> i | None \<Rightarrow> False")
  case True
  then have "endIdx \<noteq> None" by (cases endIdx) simp_all
  then show ?thesis using True ok by (simp add: lex_round_def round_ok_def parser_ok_def same_pp_def)
next
  case False
  define c where "c = mSrc p ! mSrcIdx p"
  have c: "cur p 0 = Some c" using cur_0 [OF ok] by (simp add: c_def)
  from switch_ok [OF ok sk e lo c_def] obtain r p2 where
    sw: "lex_char e dis pt loc c (char_read p) = Some (r, p2)" "round_ok endIdx lo p r (set_flags r p2 loc) p2" by blast
  from lex_ignored_ok [OF ok lo(2) c_def] obtain s where s: "lex_ignored loc c (char_read p) = Some s"
    "\<forall>q loc1 p1. s = Some (q, loc1, p1) \<longrightarrow> round_ok endIdx lo p q loc1 p1" by blast
  have eq: "lex_round e endIdx False dis pt loc p =
      (case (if mPreprocessorIgnoreDepth p > 0 \<and> endIdx = None then s else None) of
         Some r \<Rightarrow> Some r | None \<Rightarrow> Some (r, set_flags r p2 loc, p2))"
    using c False s(1) sw(1) by (simp add: lex_round_def Let_def)
  show ?thesis unfolding eq using s(2) sw(2) by (auto split: option.splits)
qed

text \<open>A token, and the tokens of a file.\<close>

definition token_ok :: "nat option \<Rightarrow> nat \<Rightarrow> bf_parser \<Rightarrow> lex_outcome \<Rightarrow> bf_parser \<Rightarrow> bool" where
  "token_ok endIdx lo p r p1 \<longleftrightarrow> round_ok endIdx lo p r lex_start p1 \<and> (\<forall>v i. r \<noteq> LexNext v i)"

lemma skip_ok_same: "skip_ok p \<Longrightarrow> same_pp p p1 \<Longrightarrow> mSrc p1 = mSrc p \<Longrightarrow> skip_ok p1"
  by (simp add: skip_ok_def same_pp_def)

lemma token_ok_later:
  "token_ok endIdx lo p1 q p2 \<Longrightarrow> mSrc p1 = mSrc p \<Longrightarrow> same_pp p p1 \<Longrightarrow> mSrcIdx p \<le> mSrcIdx p1 \<Longrightarrow> token_ok endIdx lo p q p2"
  by (auto simp: token_ok_def round_ok_def same_pp_def split: lex_outcome.splits if_splits)

lemma lex_loop_total:
  assumes e: "char_category e 0 = CAT_CC"
  shows "parser_ok p \<Longrightarrow> skip_ok p \<Longrightarrow> lo \<le> mSrcIdx p \<Longrightarrow> locals_ok lo p loc \<Longrightarrow>
    \<exists>r p1. lex_loop e endIdx False dis pt loc p = Some (r, p1) \<and> token_ok endIdx lo p r p1"
proof (induction "length (mSrc p) - mSrcIdx p" arbitrary: p loc rule: less_induct)
  case less
  from lex_round_ok [OF less.prems(1,2) e less.prems(3,4)] obtain r loc1 p1 where
    r: "lex_round e endIdx False dis pt loc p = Some (r, loc1, p1)" "round_ok endIdx lo p r loc1 p1" by blast
  show ?case
  proof (cases r)
    case (LexNext v i)
    have p1: "parser_ok p1" "mSrc p1 = mSrc p" "mSrcIdx p < mSrcIdx p1" "locals_ok lo p1 loc1" "same_pp p p1"
      using r(2) LexNext by (simp_all add: round_ok_def)
    have "length (mSrc p1) - mSrcIdx p1 < length (mSrc p) - mSrcIdx p"
      unfolding p1(2) by (rule diff_less_mono2 [OF p1(3)]) (use less.prems(1) in \<open>simp add: parser_ok_def\<close>)
    from less.hyps [OF this p1(1) skip_ok_same [OF less.prems(2) p1(5,2)] _ p1(4)] less.prems(3) p1(3) obtain q p2 where
      q: "lex_loop e endIdx False dis pt loc1 p1 = Some (q, p2)" "token_ok endIdx lo p1 q p2" by auto
    have "token_ok endIdx lo p q p2" by (rule token_ok_later [OF q(2) p1(2,5)]) (use p1(3) in simp)
    then show ?thesis using r(1) LexNext q(1) by (subst lex_loop.simps) simp
  qed (use r in \<open>subst lex_loop.simps, simp add: token_ok_def round_ok_def\<close>)+
qed

lemma NextToken_total:
  assumes ok: "parser_ok p" and sk: "skip_ok p" and e: "char_category e 0 = CAT_CC"
  shows "\<exists>r p1. NextToken e None False dis p = Some (r, p1) \<and> token_ok None (mSrcIdx p) p r p1"
proof -
  let ?p1 = "p\<lparr>mToken := BfToken_None\<rparr>"
  let ?p2 = "if mSyntaxToken ?p1 = BfSyntaxToken_EOF then Fail ''Unexpected end of file'' ?p1 else ?p1"
  let ?p3 = "?p2\<lparr>mTriviaStart := mSrcIdx ?p2\<rparr>"
  have p3: "parser_ok ?p3" "mSrcIdx ?p3 = mSrcIdx p" "mSrc ?p3 = mSrc p" "same_pp p ?p3" using ok by (simp_all add: parser_ok_def Fail_ofs_def same_pp_def)
  have "locals_ok (mSrcIdx p) ?p3 lex_start" by (simp add: locals_ok_def lex_start_def)
  from lex_loop_total [OF e p3(1) skip_ok_same [OF sk p3(4,3)] _ this, of None dis "mToken p"] p3(2) obtain r p1 where
    r: "lex_loop e None False dis (mToken p) lex_start ?p3 = Some (r, p1)" "token_ok None (mSrcIdx p) ?p3 r p1" by auto
  have "token_ok None (mSrcIdx p) p r p1" by (rule token_ok_later [OF r(2) p3(3,4)]) (subst p3(2), rule order_refl)
  moreover have "NextToken e None False dis p = Some (r, p1)" using r(1) by (simp add: NextToken_def Let_def)
  ultimately show ?thesis by blast
qed

section \<open>Files\<close>

text \<open>
  What a client that loops over tokens needs of their source: a call returns, and while there is \<open>more\<close> the
  source has less \<open>room\<close>.
\<close>

locale token_source =
  fixes fetch :: "'s \<Rightarrow> ('r \<times> 's) option"
    and good :: "'s \<Rightarrow> bool"
    and more :: "'r \<Rightarrow> 's \<Rightarrow> bool"
    and room :: "'s \<Rightarrow> nat"
  assumes returns: "good s \<Longrightarrow> \<exists>r s1. fetch s = Some (r, s1)"
    and goes_on: "good s \<Longrightarrow> fetch s = Some (r, s1) \<Longrightarrow> more r s1 \<Longrightarrow> good s1 \<and> room s1 < room s"
begin

lemma token_induct [consumes 1, case_names step]:
  assumes s: "good s" and step: "\<And>s r s1. good s \<Longrightarrow> fetch s = Some (r, s1) \<Longrightarrow> (more r s1 \<Longrightarrow> P s1) \<Longrightarrow> P s"
  shows "P s"
  using s
proof (induction "room s" arbitrary: s rule: less_induct)
  case less
  from returns [OF less.prems] obtain r s1 where r: "fetch s = Some (r, s1)" by blast
  show ?case by (rule step [OF less.prems r]) (use goes_on [OF less.prems r] less.hyps in blast)
qed

end

text \<open>The lexer with its environment.\<close>

definition fetch_token :: "lex_env \<times> bf_parser \<Rightarrow> (lex_outcome \<times> lex_env \<times> bf_parser) option" where
  "fetch_token s = map_option (\<lambda>(r, p). (r, fst s, p)) (NextToken (fst s) None False False (snd s))"

definition source_good :: "lex_env \<times> bf_parser \<Rightarrow> bool" where
  "source_good s \<longleftrightarrow> parser_ok (snd s) \<and> skip_ok (snd s) \<and> char_category (fst s) 0 = CAT_CC"

definition source_more :: "lex_outcome \<Rightarrow> lex_env \<times> bf_parser \<Rightarrow> bool" where
  "source_more r s \<longleftrightarrow> r = LexReturn \<and> mSyntaxToken (snd s) \<noteq> BfSyntaxToken_EOF"

definition source_room :: "lex_env \<times> bf_parser \<Rightarrow> nat" where
  "source_room s = length (mSrc (snd s)) - mSrcIdx (snd s)"

lemma fetch_token_simp: "fetch_token (e, p) = map_option (\<lambda>(r, p). (r, e, p)) (NextToken e None False False p)"
  by (simp add: fetch_token_def)

lemma fetch_token_ok: "source_good (e, p) \<Longrightarrow> \<exists>r p1. NextToken e None False False p = Some (r, p1) \<and> token_ok None (mSrcIdx p) p r p1"
  by (rule NextToken_total) (simp_all add: source_good_def)

lemma token_ok_more:
  assumes "token_ok None (mSrcIdx p) p r p1" "source_more r (e, p1)"
  shows "parser_ok p1" "mSrc p1 = mSrc p" "mSrcIdx p \<le> mTokenStart p1" "mTokenStart p1 < mTokenEnd p1" "mTokenEnd p1 = mSrcIdx p1"
    "mSrcIdx p < mSrcIdx p1" "same_pp p p1"
  using assms by (simp_all add: token_ok_def round_ok_def source_more_def split: if_splits)

interpretation lexer: token_source fetch_token source_good source_more source_room
proof
  fix s :: "lex_env \<times> bf_parser"
  assume "source_good s"
  then show "\<exists>r s1. fetch_token s = Some (r, s1)" using fetch_token_ok [of "fst s" "snd s"] by (auto simp: fetch_token_def)
next
  fix s :: "lex_env \<times> bf_parser" and r s1
  assume g: "source_good s" and f: "fetch_token s = Some (r, s1)" and m: "source_more r s1"
  obtain e p where s: "s = (e, p)" by (cases s)
  from fetch_token_ok g obtain q p1 where q: "NextToken e None False False p = Some (q, p1)" "token_ok None (mSrcIdx p) p q p1" unfolding s by blast
  then have s1: "q = r" "s1 = (e, p1)" using f by (simp_all add: s fetch_token_def)
  note t = token_ok_more [OF q(2) [unfolded s1(1)] m [unfolded s1(2)]]
  have "length (mSrc p1) - mSrcIdx p1 < length (mSrc p) - mSrcIdx p"
    unfolding t(2) by (rule diff_less_mono2) (use t in \<open>auto simp: parser_ok_def\<close>)
  then show "source_good s1 \<and> source_room s1 < source_room s" using t(1) g skip_ok_same [of p p1] t(2,7)
    by (simp add: s s1 source_good_def source_room_def)
qed

definition spans :: "nat \<Rightarrow> nat \<Rightarrow> bf_token_view list \<Rightarrow> bool" where
  "spans lo hi ts \<longleftrightarrow> (\<forall>t \<in> set ts. lo \<le> tv_start t \<and> tv_start t < tv_end t \<and> tv_end t \<le> hi) \<and>
     sorted_wrt (\<lambda>t u. tv_end t \<le> tv_start u) ts"

definition scan_ok :: "lex_env \<times> bf_parser \<Rightarrow> bool" where
  "scan_ok s \<longleftrightarrow> (\<exists>ts r p. scan_tokens (fst s) (snd s) = Some (ts, r, p) \<and> (\<forall>v i. r \<noteq> LexNext v i) \<and>
     (r = LexReturn \<longrightarrow> Suc (mSrcIdx p) = length (mSrc (snd s))) \<and> spans (mSrcIdx (snd s)) (length (mSrc (snd s)) - 1) ts)"

lemma scan_tokens_total: "source_good s \<Longrightarrow> scan_ok s"
proof (induction s rule: lexer.token_induct)
  case (step s r s1)
  obtain e p where s: "s = (e, p)" by (cases s)
  from fetch_token_ok step(1) obtain q p1 where q: "NextToken e None False False p = Some (q, p1)" "token_ok None (mSrcIdx p) p q p1" unfolding s by blast
  then have s1: "q = r" "s1 = (e, p1)" using step(2) by (simp_all add: s fetch_token_def)
  note r = q [unfolded s1(1)]
  show ?case
  proof (cases "source_more r s1")
    case False
    then have "scan_tokens e p = Some ([], r, p1)" using r(1) by (subst scan_tokens.simps) (auto simp: source_more_def s1)
    then show ?thesis using r(2) False by (auto simp: scan_ok_def s s1 token_ok_def round_ok_def spans_def source_more_def)
  next
    case True
    note t = token_ok_more [OF r(2) True [unfolded s1(2)]]
    have l: "mSrcIdx p1 < length (mSrc p)" using t(1,2) by (simp add: parser_ok_def)
    from step(3) [OF True] obtain ts k p2 where
      k: "scan_tokens e p1 = Some (ts, k, p2)" "\<forall>v i. k \<noteq> LexNext v i" "k = LexReturn \<longrightarrow> Suc (mSrcIdx p2) = length (mSrc p)"
        "spans (mSrcIdx p1) (length (mSrc p) - 1) ts" by (auto simp: scan_ok_def s1 t(2))
    have "scan_tokens e p = Some (token_view p1 # ts, k, p2)"
      using r(1) True k(1) by (subst scan_tokens.simps) (auto simp: source_more_def s1)
    moreover have "spans (mSrcIdx p) (length (mSrc p) - 1) (token_view p1 # ts)"
      using k(4) t l by (fastforce simp: spans_def token_view_def)
    ultimately show ?thesis using k(2,3) by (auto simp: scan_ok_def s)
  qed
qed

lemma SetSource_ok: "src_ok (data @ [chr_nul]) \<Longrightarrow> parser_ok (SetSource compat_mode data) \<and> skip_ok (SetSource compat_mode data)"
  by (simp add: parser_ok_def skip_ok_def SetSource_def PARSER_JUMPTABLE_DIVIDE_def)

end
