(* ===== verification/Bf_Lexer_Spec.thy ===== *)
theory Bf_Lexer_Spec
  imports Bf_Lexer_Props
begin

text \<open>
  What the lexer promises: it reaches the end of every source with its tokens in order, the text of a token is
  read back as this token, and decimal literals have their value, up to an overflow test that is incomplete.
\<close>

section \<open>Progress\<close>

text \<open>A world whose characters are all ASCII and that has no floating point numbers, for the examples.\<close>

definition plain_env :: lex_env where
  "plain_env = \<lparr>char_category = (\<lambda>_. CAT_CC), strtod = (\<lambda>_. 0), to_single = (\<lambda>_. 0)\<rparr>"

text \<open>
  C33 (Progress). On a source that ends with a line end, contains no NUL and has no run of six continuation
  bytes, the lexer reads nothing outside the source, every call of NextToken returns, and the calls reach the
  end of the source unless a directive or an interpolated string hands over to the parser; the tokens are
  not empty, lie inside the source and do not overlap.
\<close>

theorem lexer_reaches_end:
  assumes "src_ok (data @ [chr_nul])" and "char_category e 0 = CAT_CC"
  shows "\<exists>ts r p. scan_tokens e (SetSource compat_mode data) = Some (ts, r, p) \<and> (\<forall>v i. r \<noteq> LexNext v i) \<and>
    (r = LexReturn \<longrightarrow> mSrcIdx p = length data) \<and>
    (\<forall>t \<in> set ts. tv_start t < tv_end t \<and> tv_end t \<le> length data) \<and> sorted_wrt (\<lambda>t u. tv_end t \<le> tv_start u) ts"
proof -
  have "source_good (e, SetSource compat_mode data)" using SetSource_ok [OF assms(1)] assms(2) by (simp add: source_good_def)
  from scan_tokens_total [OF this] show ?thesis by (auto simp: scan_ok_def spans_def SetSource_def)
qed

definition sample_source :: string where
  "sample_source = ''int a = 0x1F; // b'' @ [chr_nl]"

lemma sample_source_ok: "src_ok (sample_source @ [chr_nul])"
  by code_simp

lemma lexer_reaches_end_witness:
  "\<exists>ts r p. scan_tokens plain_env (SetSource False sample_source) = Some (ts, r, p) \<and> (\<forall>v i. r \<noteq> LexNext v i) \<and>
    (r = LexReturn \<longrightarrow> mSrcIdx p = length sample_source) \<and>
    (\<forall>t \<in> set ts. tv_start t < tv_end t \<and> tv_end t \<le> length sample_source) \<and> sorted_wrt (\<lambda>t u. tv_end t \<le> tv_start u) ts"
  by (rule lexer_reaches_end [OF sample_source_ok]) (simp add: plain_env_def)

section \<open>Decimal literals\<close>

text \<open>The number that decimal digits write, after the digits of \<open>v\<close>.\<close>

definition dec_value :: "nat \<Rightarrow> string \<Rightarrow> nat" where
  "dec_value v ds = foldl (\<lambda>v c. v * 10 + (byte c - byte CHR ''0'')) v ds"

lemma dec_value_simps [simp]:
  "dec_value v [] = v" "dec_value v (c # ds) = dec_value (v * 10 + (byte c - byte CHR ''0'')) ds"
  by (simp_all add: dec_value_def)

lemma dec_value_ge: "v \<le> dec_value v ds"
proof (induction ds arbitrary: v)
  case (Cons c ds)
  have "v \<le> v * 10 + (byte c - byte CHR ''0'')" by simp
  also have "\<dots> \<le> dec_value \<dots> ds" by (rule Cons)
  finally show ?case by simp
qed simp

lemma digit_cases:
  assumes "is_digit c"
  shows "c \<in> set ''0123456789''"
proof -
  have "byte c \<in> {48 .. 57}" using assms by (simp add: between_def byte_def)
  then have "byte c = 48 \<or> byte c = 49 \<or> byte c = 50 \<or> byte c = 51 \<or> byte c = 52 \<or>
      byte c = 53 \<or> byte c = 54 \<or> byte c = 55 \<or> byte c = 56 \<or> byte c = 57" by simp presburger
  then have "byte c \<in> byte ` set ''0123456789''" by (simp add: byte_def)
  then show ?thesis by (auto simp: byte_def simp del: set_simps)
qed

lemma digit_plain:
  assumes "is_digit c"
  shows "digit_value 10 c = Some (byte c - byte CHR ''0'')" "\<not> IsWhitespaceOrPunctuation c" "c \<noteq> CHR ''.''" "c \<noteq> CHR 0x27"
    "c \<noteq> CHR ''e''" "c \<noteq> CHR ''E''" "byte c - byte CHR ''0'' < 10"
  using digit_cases [OF assms] by (auto simp: digit_value_def between_def byte_def IsWhitespaceOrPunctuation_def)

lemma punct_plain:
  assumes "IsWhitespaceOrPunctuation c"
  shows "c \<noteq> CHR ''.''" "c \<noteq> CHR 0x27" "c \<noteq> CHR ''e''" "c \<noteq> CHR ''E''" "c \<notin> set ''bBoOxX''"
  using assms by (auto simp: IsWhitespaceOrPunctuation_def)

lemma cur_drop:
  assumes "drop (mSrcIdx p) (mSrc p) = c # cs"
  shows "cur p 0 = Some c" "drop (mSrcIdx (adv 1 p)) (mSrc (adv 1 p)) = cs"
proof -
  have "mSrcIdx p < length (mSrc p)" using assms by (metis drop_all leI list.distinct(1))
  then show "cur p 0 = Some c" using assms by (simp add: cur_def rd_def nth_via_drop)
  show "drop (mSrcIdx (adv 1 p)) (mSrc (adv 1 p)) = cs" using assms by (simp add: idx_simps drop_Suc flip: tl_drop)
qed

lemma add_digit_dec:
  assumes "d < 10" "v * 10 + d < 2 ^ 64" "n_base st = 10" "\<not> n_overflow st" "n_val st = word_of_nat v"
  shows "add_digit d st = st\<lparr>n_val := word_of_nat (v * 10 + d)\<rparr>"
proof -
  have "unat (word_of_nat n :: u64) = n" if "n < 2 ^ 64" for n
    using that by (simp add: unat_of_nat take_bit_nat_eq_self)
  from this [of v] this [of "v * 10 + d"] assms(2)
  have "unat (word_of_nat v :: u64) \<le> unat (word_of_nat (v * 10 + d) :: u64)" by (simp del: of_nat_add of_nat_mult)
  then show ?thesis using assms by (simp add: add_digit_def Let_def word_le_nat_alt algebra_simps not_less)
qed

lemma number_loop_digits:
  "drop (mSrcIdx p) (mSrc p) = ds @ rest \<Longrightarrow> \<forall>c \<in> set ds. is_digit c \<Longrightarrow> n_base st = 10 \<Longrightarrow> \<not> n_overflow st \<Longrightarrow>
   n_val st = word_of_nat v \<Longrightarrow> dec_value v ds < 2 ^ 64 \<Longrightarrow>
   number_loop e d st p = number_loop e d (st\<lparr>n_val := word_of_nat (dec_value v ds)\<rparr>) (adv (length ds) p)"
proof (induction ds arbitrary: p st v)
  case Nil
  then have "st\<lparr>n_val := word_of_nat v\<rparr> = st" by (cases st) simp
  then show ?case by simp
next
  case (Cons c ds)
  have c: "is_digit c" using Cons.prems(2) by simp
  have "drop (mSrcIdx p) (mSrc p) = c # ds @ rest" using Cons.prems(1) by simp
  note r = cur_drop [OF this]
  let ?v = "v * 10 + (byte c - byte CHR ''0'')"
  have v: "?v < 2 ^ 64" "dec_value ?v ds < 2 ^ 64" using Cons.prems(6) dec_value_ge [of ?v ds] by simp_all
  have s: "add_digit (byte c - byte CHR ''0'') st = st\<lparr>n_val := word_of_nat ?v\<rparr>"
    by (rule add_digit_dec) (use v(1) Cons.prems digit_plain(7) [OF c] in simp_all)
  have "number_loop e d st p = number_loop e d (st\<lparr>n_val := word_of_nat ?v\<rparr>) (adv 1 p)"
    using r(1) digit_plain [OF c] Cons.prems(3) s by (subst number_loop.simps) simp
  also have "\<dots> = number_loop e d (st\<lparr>n_val := word_of_nat (dec_value ?v ds)\<rparr>) (adv (length ds) (adv 1 p))"
    using Cons.IH [OF r(2) _ _ _ _ v(2), of "st\<lparr>n_val := word_of_nat ?v\<rparr>"] Cons.prems by simp
  also have "adv (length ds) (adv 1 p) = adv (length (c # ds)) p" by (simp add: adv_def)
  finally show ?case by simp
qed

text \<open>The type of a decimal literal.\<close>

definition dec_type :: "nat \<Rightarrow> bf_type_code" where
  "dec_type v = (if v \<ge> 2 ^ 63 then BfTypeCode_UInt64 else if v \<ge> 2 ^ 32 then BfTypeCode_Int64 else BfTypeCode_IntUnknown)"

lemma number_end_dec:
  assumes "n_base st = 10" "\<not> n_overflow st" "n_val st = word_of_nat v" "v < 2 ^ 64"
  shows "number_end st p = lit (dec_type v) (word_of_nat v) (token_end (mSrcIdx p - 1) p)"
proof -
  have "unat (word_of_nat v :: u64) = v" using assms(4) by (simp add: unat_of_nat take_bit_nat_eq_self)
  then have "(if n_val st \<ge> 0x8000000000000000 then BfTypeCode_UInt64
      else if n_val st > 0xFFFFFFFF then BfTypeCode_Int64 else BfTypeCode_IntUnknown) = dec_type v"
    by (simp add: assms(3) dec_type_def word_le_nat_alt word_less_nat_alt)
  then show ?thesis unfolding number_end_def Let_def using assms by simp
qed

lemma lex_char_digit:
  assumes "is_digit c"
  shows "lex_char e dis pt loc c p = lex_number e pt c p"
proof -
  have "c = CHR ''0'' \<or> c = CHR ''1'' \<or> c = CHR ''2'' \<or> c = CHR ''3'' \<or> c = CHR ''4'' \<or>
      c = CHR ''5'' \<or> c = CHR ''6'' \<or> c = CHR ''7'' \<or> c = CHR ''8'' \<or> c = CHR ''9''"
    using digit_cases [OF assms] by simp
  then show ?thesis by (elim disjE) (simp_all add: lex_char_def between_def byte_def)
qed

lemma number_base_dec:
  assumes "cur p 0 = Some d" "is_digit d \<or> IsWhitespaceOrPunctuation d"
  shows "number_base c p = Some (10, p)"
proof -
  have "d \<notin> set ''bBoOxX''" using assms(2) punct_plain(5) digit_cases by fastforce
  then show ?thesis using assms(1) by (simp add: number_base_def)
qed

text \<open>
  C35 (Decimal literals). Decimal digits that write a number below 2^64, followed by white space or
  punctuation, are read as one literal with this value and no message; its type is UInt64 from 2^63, Int64
  from 2^32 and open below.
\<close>

theorem decimal_literal:
  assumes src: "drop (mSrcIdx p) (mSrc p) = ds @ t # rest" and ds: "ds \<noteq> []" "\<forall>c \<in> set ds. is_digit c" and t: "IsWhitespaceOrPunctuation t"
    and v: "dec_value 0 ds < 2 ^ 64" and p: "mPreprocessorIgnoreDepth p = 0" "mSyntaxToken p \<noteq> BfSyntaxToken_EOF"
  shows "NextToken e None False dis p = Some (LexReturn, p\<lparr>mToken := BfToken_None, mTriviaStart := mSrcIdx p, mTokenStart := mSrcIdx p,
    mTokenEnd := mSrcIdx p + length ds, mSrcIdx := mSrcIdx p + length ds, mSyntaxToken := BfSyntaxToken_Literal,
    mLiteral := (mLiteral p)\<lparr>mTypeCode := dec_type (dec_value 0 ds), mUInt64 := word_of_nat (dec_value 0 ds)\<rparr>\<rparr>)"
proof -
  obtain c cs where c: "ds = c # cs" using ds(1) by (cases ds) simp_all
  let ?p0 = "p\<lparr>mToken := BfToken_None, mTriviaStart := mSrcIdx p\<rparr>"
  let ?p1 = "?p0\<lparr>mTokenStart := mSrcIdx p, mTokenEnd := mSrcIdx p + 1, mSrcIdx := mSrcIdx p + 1\<rparr>"
  have d: "is_digit c" "\<forall>c \<in> set cs. is_digit c" using ds(2) c by simp_all
  note s0 = cur_drop [of p c "cs @ t # rest", unfolded src c, simplified]
  have c0: "cur ?p0 0 = Some c" using s0(1) by (simp add: cur_def)
  have s1: "drop (mSrcIdx ?p1) (mSrc ?p1) = cs @ t # rest" using s0(2) by (simp add: idx_simps)
  let ?v = "dec_value 0 ds" and ?x = "byte c - byte CHR ''0''"
  have v0: "dec_value ?x cs = ?v" by (simp add: c)
  let ?st = "\<lparr>n_val = word_of_nat ?x, n_base = 10, n_hex = 0, n_overflow = False, n_seps = False, n_lead = False\<rparr>"
  let ?st1 = "?st\<lparr>n_val := word_of_nat ?v\<rparr>" and ?p2 = "adv (length cs) ?p1"
  have base: "number_base c ?p1 = Some (10, ?p1)"
  proof (cases cs)
    case Nil
    then show ?thesis using cur_drop(1) [of ?p1 t rest] s1 t by (intro number_base_dec [of _ t]) simp_all
  next
    case (Cons d ds1)
    then show ?thesis using cur_drop(1) [of ?p1 d "ds1 @ t # rest"] s1 d(2) by (intro number_base_dec [of _ d]) simp_all
  qed
  have s2: "drop (mSrcIdx ?p2) (mSrc ?p2) = t # rest" using arg_cong [OF s1, of "drop (length cs)"] by (simp add: idx_simps add.commute)
  have loop: "number_loop e pd ?st ?p1 = Some (number_end ?st1 (adv 1 ?p2))" for pd
  proof -
    have "number_loop e pd ?st ?p1 = number_loop e pd ?st1 ?p2"
      using number_loop_digits [OF s1 d(2), of ?st ?x e pd] v v0 by simp
    also have "\<dots> = Some (number_end ?st1 (adv 1 ?p2))"
      using cur_drop(1) [OF s2] punct_plain [OF t] t by (subst number_loop.simps) simp
    finally show ?thesis .
  qed
  have num: "lex_number e pt c ?p1 = Some (LexReturn, number_end ?st1 (adv 1 ?p2))" for pt
    by (simp only: lex_number_def base Option.bind.simps prod.case loop)
  also have "number_end ?st1 (adv 1 ?p2) = ?p0\<lparr>mTokenStart := mSrcIdx p, mTokenEnd := mSrcIdx p + length ds, mSrcIdx := mSrcIdx p + length ds,
      mSyntaxToken := BfSyntaxToken_Literal, mLiteral := (mLiteral p)\<lparr>mTypeCode := dec_type ?v, mUInt64 := word_of_nat ?v\<rparr>\<rparr>"
    by (subst number_end_dec [OF _ _ _ v]) (simp_all add: lit_def token_end_def adv_def c)
  finally have num: "lex_number e pt c ?p1 = Some (LexReturn, ?p0\<lparr>mTokenStart := mSrcIdx p, mTokenEnd := mSrcIdx p + length ds,
      mSrcIdx := mSrcIdx p + length ds, mSyntaxToken := BfSyntaxToken_Literal,
      mLiteral := (mLiteral p)\<lparr>mTypeCode := dec_type ?v, mUInt64 := word_of_nat ?v\<rparr>\<rparr>)" for pt .
  have "lex_round e None False dis pt lex_start ?p0 = Some (LexReturn, lex_start, ?p0\<lparr>mTokenStart := mSrcIdx p, mTokenEnd := mSrcIdx p + length ds,
      mSrcIdx := mSrcIdx p + length ds, mSyntaxToken := BfSyntaxToken_Literal,
      mLiteral := (mLiteral p)\<lparr>mTypeCode := dec_type ?v, mUInt64 := word_of_nat ?v\<rparr>\<rparr>)" for pt
    using c0 p(1) num by (simp add: lex_round_def Let_def lex_char_digit [OF d(1)] set_flags_def)
  then show ?thesis using p(2) by (simp add: NextToken_def Let_def lex_loop.simps)
qed

lemma decimal_literal_witness:
  "NextToken plain_env None False False (SetSource False ''4294967296;'') = Some (LexReturn,
    (SetSource False ''4294967296;'')\<lparr>mToken := BfToken_None, mTriviaStart := 0, mTokenStart := 0, mTokenEnd := 10, mSrcIdx := 10,
      mSyntaxToken := BfSyntaxToken_Literal,
      mLiteral := (mLiteral (SetSource False ''4294967296;''))\<lparr>mTypeCode := BfTypeCode_Int64, mUInt64 := 4294967296\<rparr>\<rparr>)"
proof -
  have v: "dec_value 0 ''4294967296'' = 4294967296" by (simp add: byte_def)
  have s: "mSrcIdx (SetSource False ''4294967296;'') = 0" "mSrc (SetSource False ''4294967296;'') = ''4294967296;'' @ [chr_nul]"
    "mPreprocessorIgnoreDepth (SetSource False ''4294967296;'') = 0" "mSyntaxToken (SetSource False ''4294967296;'') \<noteq> BfSyntaxToken_EOF"
    by (simp_all add: SetSource_def)
  have "drop (mSrcIdx (SetSource False ''4294967296;'')) (mSrc (SetSource False ''4294967296;'')) = ''4294967296'' @ CHR '';'' # [chr_nul]"
    unfolding s by simp
  from decimal_literal [OF this _ _ _ _ s(3,4), of plain_env False] show ?thesis
    by (simp add: v s(1) dec_type_def between_def byte_def IsWhitespaceOrPunctuation_def)
qed

text \<open>
  The overflow of a decimal literal is noticed only when the wrapped value is smaller than
  the one before the last digit: 2^64 is reported, but 3 * 10^19 is taken for 11553255926290448384.
\<close>

theorem overflow_missed:
  "map_option (\<lambda>(r, p). (mUInt64 (mLiteral p), map fst (p_errors p)))
     (NextToken e None False False (SetSource False ''18446744073709551616;'')) = Some (0, [''Value doesn't fit into int64''])
   \<and> map_option (\<lambda>(r, p). (mTypeCode (mLiteral p), mUInt64 (mLiteral p), p_errors p))
     (NextToken e None False False (SetSource False ''30000000000000000000;'')) = Some (BfTypeCode_UInt64, 11553255926290448384, [])"
  by code_simp

section \<open>The texts of tokens\<close>

text \<open>The text and a space are read as the token.\<close>

definition lexes_as :: "lex_env \<Rightarrow> string \<Rightarrow> bf_token \<Rightarrow> bool" where
  "lexes_as e s t =
     (case NextToken e None False False (SetSource False (s @ '' '')) of
        None \<Rightarrow> False
      | Some (r, p) \<Rightarrow>
          (case r of LexReturn \<Rightarrow> True | _ \<Rightarrow> False) \<and> (case mSyntaxToken p of BfSyntaxToken_Token \<Rightarrow> True | _ \<Rightarrow> False) \<and>
          mToken p = t \<and> mTokenStart p = 0 \<and> mTokenEnd p = length s \<and> p_errors p = [])"

lemma is_return: "(case r of LexReturn \<Rightarrow> True | _ \<Rightarrow> False) \<longleftrightarrow> r = LexReturn"
  by (cases r) simp_all

lemma is_token: "(case k of BfSyntaxToken_Token \<Rightarrow> True | _ \<Rightarrow> False) \<longleftrightarrow> k = BfSyntaxToken_Token"
  by (cases k) simp_all

definition lexes_back :: "lex_env \<Rightarrow> string option \<Rightarrow> bf_token \<Rightarrow> bool" where
  "lexes_back e s t = (case s of None \<Rightarrow> True | Some s1 \<Rightarrow> lexes_as e s1 t)"

lemma lexes_back_None [simp]: "lexes_back e None t"
  by (simp add: lexes_back_def)

lemma keyword_af_lexes_1:
  "list_all (\<lambda>k. lexes_back e (keyword_af_text k) (KwA k))
    [BfToken_Abstract, BfToken_AlignOf, BfToken_AllocType, BfToken_Append, BfToken_As, BfToken_Asm, BfToken_Base,
     BfToken_Box, BfToken_Break, BfToken_Case, BfToken_Catch, BfToken_Checked]"
  by code_simp

lemma keyword_af_lexes_2:
  "list_all (\<lambda>k. lexes_back e (keyword_af_text k) (KwA k))
    [BfToken_Class, BfToken_Comptype, BfToken_Concrete, BfToken_Const, BfToken_Continue, BfToken_Decltype,
     BfToken_Default, BfToken_Defer, BfToken_Delegate, BfToken_Delete, BfToken_Do, BfToken_Else]"
  by code_simp

lemma keyword_af_lexes_3:
  "list_all (\<lambda>k. lexes_back e (keyword_af_text k) (KwA k))
    [BfToken_Enum, BfToken_Explicit, BfToken_Extern, BfToken_Extension, BfToken_Fallthrough, BfToken_Finally,
     BfToken_Fixed, BfToken_For, BfToken_Function]"
  by code_simp

lemma keyword_af_lexes: "k \<notin> {BfToken_AsmNewline} \<Longrightarrow> lexes_back e (keyword_af_text k) (KwA k)"
  using keyword_af_lexes_1 [of e] keyword_af_lexes_2 [of e] keyword_af_lexes_3 [of e] by (cases k) simp_all

lemma keyword_gp_lexes_1:
  "list_all (\<lambda>k. lexes_back e (keyword_gp_text k) (KwG k))
    [BfToken_Goto, BfToken_If, BfToken_Implicit, BfToken_In, BfToken_Interface, BfToken_Internal, BfToken_Is,
     BfToken_IsConst, BfToken_Let, BfToken_Mixin, BfToken_Mut, BfToken_NameOf]"
  by code_simp

lemma keyword_gp_lexes_2:
  "list_all (\<lambda>k. lexes_back e (keyword_gp_text k) (KwG k))
    [BfToken_Namespace, BfToken_New, BfToken_Null, BfToken_Nullable, BfToken_OffsetOf, BfToken_Operator,
     BfToken_Out, BfToken_Override, BfToken_Params, BfToken_Private, BfToken_Protected, BfToken_Public]"
  by code_simp

lemma keyword_gp_lexes: "k \<notin> {BfToken_Not} \<Longrightarrow> lexes_back e (keyword_gp_text k) (KwG k)"
  using keyword_gp_lexes_1 [of e] keyword_gp_lexes_2 [of e] by (cases k) simp_all

lemma keyword_rz_lexes_1:
  "list_all (\<lambda>k. lexes_back e (keyword_rz_text k) (KwR k))
    [BfToken_ReadOnly, BfToken_Repeat, BfToken_Ref, BfToken_RetType, BfToken_Return, BfToken_Scope, BfToken_Sealed,
     BfToken_SizeOf, BfToken_Static, BfToken_StrideOf, BfToken_Struct, BfToken_Switch]"
  by code_simp

lemma keyword_rz_lexes_2:
  "list_all (\<lambda>k. lexes_back e (keyword_rz_text k) (KwR k))
    [BfToken_This, BfToken_Throw, BfToken_Try, BfToken_TypeAlias, BfToken_TypeOf, BfToken_Unchecked, BfToken_Using,
     BfToken_Var, BfToken_Virtual, BfToken_Volatile, BfToken_When, BfToken_Where]"
  by code_simp

lemma keyword_rz_lexes_3:
  "list_all (\<lambda>k. lexes_back e (keyword_rz_text k) (KwR k))
    [BfToken_While, BfToken_Yield]"
  by code_simp

lemma keyword_rz_lexes: "k \<notin> {BfToken_Unsigned} \<Longrightarrow> lexes_back e (keyword_rz_text k) (KwR k)"
  using keyword_rz_lexes_1 [of e] keyword_rz_lexes_2 [of e] keyword_rz_lexes_3 [of e] by (cases k) simp_all

lemma assign_lexes_1:
  "list_all (\<lambda>k. lexes_back e (assign_text k) (Asg k))
    [BfToken_AssignEquals, BfToken_CompareEquals, BfToken_CompareStrictEquals, BfToken_CompareNotEquals,
     BfToken_CompareStrictNotEquals, BfToken_LessEquals, BfToken_GreaterEquals, BfToken_Spaceship,
     BfToken_PlusEquals, BfToken_MinusEquals, BfToken_MultiplyEquals, BfToken_DivideEquals]"
  by code_simp

lemma assign_lexes_2:
  "list_all (\<lambda>k. lexes_back e (assign_text k) (Asg k))
    [BfToken_ModulusEquals, BfToken_ShiftLeftEquals, BfToken_ShiftRightEquals, BfToken_AndEquals, BfToken_AndMinus,
     BfToken_AndPlus, BfToken_AndStar, BfToken_AndMinusEquals, BfToken_AndPlusEquals, BfToken_AndStarEquals,
     BfToken_OrEquals, BfToken_XorEquals]"
  by code_simp

lemma assign_lexes_3:
  "list_all (\<lambda>k. lexes_back e (assign_text k) (Asg k))
    [BfToken_NullCoalsceEquals]"
  by code_simp

lemma assign_lexes: "lexes_back e (assign_text k) (Asg k)"
  using assign_lexes_1 [of e] assign_lexes_2 [of e] assign_lexes_3 [of e] by (cases k) simp_all

lemma punct_lexes_1:
  "list_all (\<lambda>k. lexes_back e (punct_text k) (Pun k))
    [BfToken_LBrace, BfToken_RBrace, BfToken_LParen, BfToken_RParen, BfToken_LBracket, BfToken_RBracket,
     BfToken_LChevron, BfToken_RChevron, BfToken_LDblChevron, BfToken_RDblChevron, BfToken_Semicolon,
     BfToken_Colon, BfToken_ColonColon, BfToken_Comma, BfToken_Dot, BfToken_DotDot, BfToken_DotDotDot,
     BfToken_DotDotLess, BfToken_QuestionDot, BfToken_QuestionLBracket]"
  by code_simp

lemma punct_lexes_2:
  "list_all (\<lambda>k. lexes_back e (punct_text k) (Pun k))
    [BfToken_Plus, BfToken_Minus, BfToken_DblPlus, BfToken_DblMinus, BfToken_Star, BfToken_ForwardSlash,
     BfToken_Modulus, BfToken_Ampersand, BfToken_DblAmpersand, BfToken_Bar, BfToken_DblBar, BfToken_Bang,
     BfToken_Carat, BfToken_Tilde, BfToken_Question, BfToken_DblQuestion, BfToken_Arrow, BfToken_FatArrow]"
  by code_simp

lemma punct_lexes: "k \<notin> {BfToken_AutocompleteDot, BfToken_At} \<Longrightarrow> lexes_back e (punct_text k) (Pun k)"
  using punct_lexes_1 [of e] punct_lexes_2 [of e] by (cases k) simp_all

text \<open>
  C34 (Token texts). The text BfTokenToString gives for a token, followed by a space, is read by NextToken as
  this token, from the first to the last character and without a message.  Five tokens are not read this
  way: the line end and the dot of the tools, at-sign prefixes, and the words not and unsigned.
\<close>

theorem token_text_roundtrip:
  assumes "BfTokenToString t = Some s"
    and "t \<notin> {KwA BfToken_AsmNewline, KwG BfToken_Not, KwR BfToken_Unsigned, Pun BfToken_AutocompleteDot, Pun BfToken_At}"
  shows "\<exists>p. NextToken e None False False (SetSource False (s @ '' '')) = Some (LexReturn, p) \<and> mSyntaxToken p = BfSyntaxToken_Token \<and>
    mToken p = t \<and> mTokenStart p = 0 \<and> mTokenEnd p = length s \<and> p_errors p = []"
proof -
  have "lexes_back e (BfTokenToString t) t"
    using assms(2) keyword_af_lexes keyword_gp_lexes keyword_rz_lexes assign_lexes punct_lexes
    by (cases t) (simp_all add: BfTokenToString_def)
  then have "lexes_as e s t" using assms(1) by (simp add: lexes_back_def)
  then show ?thesis by (auto simp: lexes_as_def is_token is_return split: option.splits)
qed

lemma token_text_roundtrip_witness:
  "\<exists>p. NextToken plain_env None False False (SetSource False (''while'' @ '' '')) = Some (LexReturn, p) \<and> mSyntaxToken p = BfSyntaxToken_Token \<and>
    mToken p = KwR BfToken_While \<and> mTokenStart p = 0 \<and> mTokenEnd p = length ''while'' \<and> p_errors p = []"
  by (rule token_text_roundtrip) (simp_all add: BfTokenToString_def)

end
