(* ===== verification/Beef_Slash_Spec.thy ===== *)
theory Beef_Slash_Spec
  imports Beef_Slash Bf_Lexer_Spec
begin

section \<open>Without UTF-8\<close>

text \<open>What \<open>SlashString\<close> writes for a Beef literal when it does not look at UTF-8: byte after byte.\<close>

definition printable :: "char \<Rightarrow> bool" where
  "printable c \<longleftrightarrow> 32 \<le> byte c \<and> byte c < 0x80"

definition enc :: "char \<Rightarrow> string" where
  "enc c = (case slash_escape c of Some x \<Rightarrow> x | None \<Rightarrow> if printable c then [c] else CHR 0x5C # ''x'' @ hex_pad 2 (byte c))"

definition slashed_num :: "char \<Rightarrow> bool" where
  "slashed_num c \<longleftrightarrow> c = chr_nul \<or> slash_escape c = None \<and> \<not> printable c"

fun slash_plain :: "bool \<Rightarrow> string \<Rightarrow> string" where
  "slash_plain prev [] = []"
| "slash_plain prev (c # cs) = (if is_digit c \<and> prev then [CHR 0x22, CHR '' '', CHR 0x22] else []) @ enc c @ slash_plain (slashed_num c) cs"

text \<open>The part of a string before a digit that follows an escape in digits.\<close>

fun before_split :: "bool \<Rightarrow> string \<Rightarrow> string" where
  "before_split prev [] = []"
| "before_split prev (c # cs) = (if is_digit c \<and> prev then [] else c # before_split (slashed_num c) cs)"

lemma digit_no_escape: "is_digit c \<Longrightarrow> slash_escape c = None"
  using digit_cases [of c] by (auto simp: slash_escape_def)

lemma slash_round_plain:
  assumes "\<not> noNextHex st"
  shows "slash_round e False False True s i st =
    Some ((if is_digit (s ! i) \<and> prevEndedInSlashedNum st then [CHR 0x22, CHR '' '', CHR 0x22] else []) @ enc (s ! i), 1,
      st\<lparr>prevEndedInSlashedNum := slashed_num (s ! i), lastWasVisibleChar := slash_escape (s ! i) = None \<and> printable (s ! i)\<rparr>)"
proof -
  have st: "st\<lparr>noNextHex := False\<rparr> = st" using assms by (cases st) simp
  show ?thesis
  proof (cases "slash_escape (s ! i)")
    case None
    then have "s ! i \<noteq> chr_nul" by (auto simp: slash_escape_def)
    then show ?thesis using None assms
      by (cases st) (simp add: slash_round_def Let_def slash_byte_def enc_def slashed_num_def printable_def)
  next
    case (Some x)
    then have "\<not> is_digit (s ! i)" using digit_no_escape by fastforce
    then show ?thesis using Some assms by (cases st) (simp add: slash_round_def Let_def enc_def slashed_num_def)
  qed
qed

lemma SlashString_plain: "SlashString e s False False True = Some (slash_plain False s)"
proof -
  have "\<not> noNextHex st \<Longrightarrow> slash_loop e False False True s i st = Some (slash_plain (prevEndedInSlashedNum st) (drop i s))" for i st
  proof (induction "length s - i" arbitrary: i st)
    case 0
    then show ?case by (subst slash_loop.simps) simp
  next
    case (Suc n)
    then have i: "i < length s" "n = length s - (i + 1)" by simp_all
    let ?st = "st\<lparr>prevEndedInSlashedNum := slashed_num (s ! i), lastWasVisibleChar := slash_escape (s ! i) = None \<and> printable (s ! i)\<rparr>"
    have "slash_loop e False False True s (i + 1) ?st = Some (slash_plain (slashed_num (s ! i)) (drop (i + 1) s))"
      using Suc.hyps(1) [OF i(2), of ?st] Suc.prems by simp
    then show ?case using i(1) slash_round_plain [OF Suc.prems]
      by (subst slash_loop.simps) (simp add: Cons_nth_drop_Suc [symmetric])
  qed
  from this [of "\<lparr>prevEndedInSlashedNum = False, noNextHex = False, lastWasVisibleChar = False\<rparr>" 0] show ?thesis by (simp add: SlashString_def)
qed

section \<open>Reading it back\<close>

lemma hex_value_char: "d < 16 \<Longrightarrow> hex_value (hex_char d) = Some d"
proof -
  assume "d < 16"
  then have "d \<in> set [0, 1, 2, 3, 4, 5, 6, 7, 8, 9, 10, 11, 12, 13, 14, 15]" by simp presburger
  then show ?thesis by (auto simp: hex_char_def hex_value_def between_def byte_def)
qed

lemma hex_pad_byte: "b < 256 \<Longrightarrow> hex_pad 2 b = [hex_char (b div 16), hex_char (b mod 16)]"
proof -
  assume b: "b < 256"
  then have "b div 16 < 16" by simp
  then have "hex_text (b div 16) = [hex_char (b div 16)]" by (subst hex_text.simps) simp
  then show ?thesis using b by (cases "b < 16") (simp_all add: hex_pad_def hex_text.simps [of b] hex_char_def)
qed

lemma byte_less: "byte c < 256"
  by (simp add: byte_def)

text \<open>The bytes at the position of the parser.\<close>

definition ahead :: "bf_parser \<Rightarrow> string \<Rightarrow> bool" where
  "ahead p s \<longleftrightarrow> drop (mSrcIdx p) (mSrc p) = s"

lemma ahead_cur: "ahead p (c # s) \<Longrightarrow> cur p 0 = Some c" and ahead_adv: "ahead p (c # s) \<Longrightarrow> ahead (adv 1 p) s"
  using cur_drop [of p c s] by (simp_all add: ahead_def)

lemma adv_adv [simp]: "adv a (adv b p) = adv (b + a) p"
  by (simp add: adv_def add.assoc)

text \<open>A string with double quotes, without prefixes and of one line.\<close>

definition plain_ctx :: "str_ctx \<Rightarrow> bool" where
  "plain_ctx sc \<longleftrightarrow> sc_start sc = CHR 0x22 \<and> \<not> sc_multi sc \<and> \<not> sc_verbatim sc \<and> sc_interp sc = 0"

lemma string_loop_escape:
  assumes "plain_ctx sc" "ahead p (CHR 0x5C # s)" "lex_escape 0 (adv 1 p) = Some (x, p1)"
  shows "string_loop sc k str p = string_loop sc k (str @ x) p1"
  using assms ahead_cur [OF assms(2)] by (subst string_loop.simps) (simp add: plain_ctx_def Let_def)

lemma lex_escape_hex:
  assumes "ahead p (CHR ''x'' # hex_pad 2 (byte c) @ s)"
  shows "lex_escape 0 p = Some ([c], adv 3 p)"
proof -
  have h: "hex_pad 2 (byte c) = [hex_char (byte c div 16), hex_char (byte c mod 16)]" by (rule hex_pad_byte [OF byte_less])
  have a: "ahead p (CHR ''x'' # hex_char (byte c div 16) # hex_char (byte c mod 16) # s)" using assms h by simp
  have d: "byte c div 16 < 16" "byte c mod 16 < 16" using byte_less [of c] by simp_all
  have "hex_escape 2 0 (adv 1 p) = Some (byte c, adv 3 p)"
    using ahead_cur [OF ahead_adv [OF a]] ahead_cur [OF ahead_adv [OF ahead_adv [OF a]]] hex_value_char [OF d(1)] hex_value_char [OF d(2)]
    by (simp add: numeral_2_eq_2 numeral_3_eq_3)
  then show ?thesis using ahead_cur [OF a] by (simp add: lex_escape_def simple_escape_def Let_def byte_def)
qed

lemma lex_escape_simple: "simple_escape d = Some c \<Longrightarrow> ahead p (d # s) \<Longrightarrow> lex_escape 0 p = Some ([c], adv 1 p)"
  by (simp add: lex_escape_def ahead_cur)

lemma simple_escapes:
  "simple_escape CHR ''0'' = Some chr_nul" "simple_escape CHR ''a'' = Some CHR 0x07" "simple_escape CHR ''b'' = Some CHR 0x08"
  "simple_escape CHR ''t'' = Some CHR 0x09" "simple_escape CHR ''n'' = Some chr_nl" "simple_escape CHR ''v'' = Some CHR 0x0B"
  "simple_escape CHR ''f'' = Some CHR 0x0C" "simple_escape CHR ''r'' = Some CHR 0x0D" "simple_escape CHR 0x22 = Some CHR 0x22"
  "simple_escape CHR 0x5C = Some CHR 0x5C"
  by (simp_all add: simple_escape_def)

lemma slash_escape_simple:
  assumes "slash_escape c = Some x"
  shows "\<exists>d. x = [CHR 0x5C, d] \<and> simple_escape d = Some c"
proof -
  have "c = chr_nul \<or> c = CHR 0x07 \<or> c = CHR 0x08 \<or> c = CHR 0x09 \<or> c = chr_nl \<or> c = CHR 0x0B \<or> c = CHR 0x0C \<or>
      c = CHR 0x0D \<or> c = CHR 0x22 \<or> c = CHR 0x5C"
    using assms unfolding slash_escape_def by (metis option.distinct(1))
  then show ?thesis using assms by (elim disjE) (simp_all add: slash_escape_def simple_escapes eq_commute [of _ x])
qed

lemma string_loop_enc:
  assumes sc: "plain_ctx sc" and p: "ahead p (enc c @ s)"
  shows "string_loop sc k str p = string_loop sc k (str @ [c]) (adv (length (enc c)) p)"
proof (cases "slash_escape c")
  case (Some x)
  then obtain d where x: "x = [CHR 0x5C, d]" "simple_escape d = Some c" using slash_escape_simple by blast
  have a: "ahead p (CHR 0x5C # d # s)" using p Some x(1) by (simp add: enc_def)
  from string_loop_escape [OF sc a lex_escape_simple [OF x(2) ahead_adv [OF a]]] Some x(1) show ?thesis by (simp add: enc_def numeral_2_eq_2)
next
  case None
  show ?thesis
  proof (cases "printable c")
    case True
    then have a: "ahead p (c # s)" "enc c = [c]" using p None by (simp_all add: enc_def)
    have "c \<noteq> chr_nul" "c \<noteq> chr_nl" "c \<noteq> CHR 0x22" "c \<noteq> CHR 0x5C" using None by (auto simp: slash_escape_def)
    then show ?thesis using ahead_cur [OF a(1)] a(2) sc by (subst string_loop.simps) (simp add: plain_ctx_def Let_def)
  next
    case False
    have a: "ahead p (CHR 0x5C # CHR ''x'' # hex_pad 2 (byte c) @ s)" using p None False by (simp add: enc_def)
    from string_loop_escape [OF sc a lex_escape_hex [OF ahead_adv [OF a]]] None False show ?thesis
      by (simp add: enc_def hex_pad_byte [OF byte_less] numeral_3_eq_3)
  qed
qed

lemma enc_nonempty: "enc c \<noteq> []" "hd (enc c) \<noteq> CHR 0x22"
proof -
  have "\<exists>d s. enc c = d # s \<and> d \<noteq> CHR 0x22"
  proof (cases "slash_escape c")
    case None
    then have "c \<noteq> CHR 0x22" by (auto simp: slash_escape_def)
    then show ?thesis using None by (simp add: enc_def)
  next
    case (Some x)
    then show ?thesis using slash_escape_simple [OF Some] by (auto simp: enc_def)
  qed
  then show "enc c \<noteq> []" "hd (enc c) \<noteq> CHR 0x22" by auto
qed

lemma ahead_adv_app: "ahead p (xs @ s) \<Longrightarrow> ahead (adv (length xs) p) s"
  by (metis ahead_def append_eq_conv_conj drop_drop idx_steps(1) idx_steps(11) add.commute)

lemma string_loop_quote:
  assumes "plain_ctx sc" "ahead p (CHR 0x22 # t # s)" "t \<noteq> CHR 0x22"
  shows "string_loop sc k str p = Some (Inr (str, adv 1 p))"
  using assms(1,3) ahead_cur [OF assms(2)] ahead_cur [OF ahead_adv [OF assms(2)]]
  by (subst string_loop.simps) (simp add: plain_ctx_def Let_def)

lemma string_loop_slash:
  "plain_ctx sc \<Longrightarrow> ahead p (slash_plain prev s @ CHR 0x22 # t # rest) \<Longrightarrow> t \<noteq> CHR 0x22 \<Longrightarrow>
   \<exists>n. string_loop sc k str p = Some (Inr (str @ before_split prev s, adv n p)) \<and>
     (before_split prev s = s \<longleftrightarrow> n = length (slash_plain prev s) + 1)"
proof (induction s arbitrary: prev str p)
  case Nil
  have "string_loop sc k str p = Some (Inr (str, adv 1 p))" by (rule string_loop_quote) (use Nil in auto)
  then show ?case by (intro exI [of _ 1]) simp
next
  case (Cons c s)
  show ?case
  proof (cases "is_digit c \<and> prev")
    case True
    have "string_loop sc k str p = Some (Inr (str, adv 1 p))" by (rule string_loop_quote [OF Cons.prems(1)]) (use Cons.prems(2) True in auto)
    then show ?thesis using True by (intro exI [of _ 1]) simp
  next
    case False
    let ?n = "length (enc c)"
    have a: "ahead p (enc c @ slash_plain (slashed_num c) s @ CHR 0x22 # t # rest)" using Cons.prems(2) False by auto
    from Cons.IH [OF Cons.prems(1) ahead_adv_app [OF a] Cons.prems(3), of "str @ [c]"] obtain n where
      n: "string_loop sc k (str @ [c]) (adv ?n p) = Some (Inr ((str @ [c]) @ before_split (slashed_num c) s, adv n (adv ?n p)))"
        "before_split (slashed_num c) s = s \<longleftrightarrow> n = length (slash_plain (slashed_num c) s) + 1" by blast
    have "string_loop sc k str p = Some (Inr (str @ c # before_split (slashed_num c) s, adv (?n + n) p))"
      using string_loop_enc [OF Cons.prems(1) a] n(1) by simp
    moreover have "before_split prev (c # s) = c # s \<longleftrightarrow> ?n + n = length (slash_plain prev (c # s)) + 1" using False n(2) by auto
    ultimately show ?thesis using False by auto
  qed
qed

lemma lex_char_quote: "lex_char e dis pt loc CHR 0x22 p = lex_string loc CHR 0x22 p"
  by (simp add: lex_char_def)

lemma hd_slash: "\<not> prev \<Longrightarrow> slash_plain prev s @ CHR 0x22 # t # rest = x # y # zs \<Longrightarrow> t \<noteq> CHR 0x22 \<Longrightarrow> x = CHR 0x22 \<Longrightarrow> y \<noteq> CHR 0x22"
  using enc_nonempty [of "hd s"] by (cases s; cases "enc (hd s)") auto

text \<open>
  C40 (Strings written and read). The text SlashString makes of a string without looking at UTF-8, in
  double quotes, is read by NextToken as a string literal without a message: the literal is the string, and it
  ends with the closing quote, unless a digit follows a character that is written as a number; then the
  text holds a quote before this digit, and the literal ends there.
\<close>

theorem slash_string_reads_back:
  assumes w: "SlashString e1 s False False True = Some out" and src: "drop (mSrcIdx p) (mSrc p) = CHR 0x22 # out @ CHR 0x22 # t # rest"
    and t: "t \<noteq> CHR 0x22" and p: "mPreprocessorIgnoreDepth p = 0" "mSyntaxToken p \<noteq> BfSyntaxToken_EOF"
  shows "\<exists>p1. NextToken e None False dis p = Some (LexReturn, p1) \<and> mSyntaxToken p1 = BfSyntaxToken_Literal \<and>
    mTypeCode (mLiteral p1) = BfTypeCode_CharPtr \<and> mString (mLiteral p1) = before_split False s \<and> p_errors p1 = p_errors p \<and>
    mTokenStart p1 = mSrcIdx p \<and> mTokenEnd p1 = mSrcIdx p1 \<and> (before_split False s = s \<longleftrightarrow> mTokenEnd p1 = mSrcIdx p + length out + 2)"
proof -
  have out: "out = slash_plain False s" using w by (simp add: SlashString_plain)
  let ?p0 = "p\<lparr>mToken := BfToken_None, mTriviaStart := mSrcIdx p\<rparr>"
  let ?p1 = "?p0\<lparr>mTokenStart := mSrcIdx p, mTokenEnd := mSrcIdx p + 1, mSrcIdx := mSrcIdx p + 1\<rparr>"
  have c0: "cur ?p0 0 = Some CHR 0x22" using cur_drop(1) [OF src] by (simp add: cur_def)
  have a: "ahead ?p1 (slash_plain False s @ CHR 0x22 # t # rest)" using cur_drop(2) [OF src] by (simp add: ahead_def idx_simps out)
  let ?sc = "\<lparr>sc_start = CHR 0x22, sc_multi = False, sc_verbatim = False, sc_interp = 0, sc_lines = 1, sc_header = []\<rparr>"
  have "plain_ctx ?sc" by (simp add: plain_ctx_def)
  from string_loop_slash [OF this a t, of 0 "[]"] obtain n where
    n: "string_loop ?sc 0 [] ?p1 = Some (Inr (before_split False s, adv n ?p1))" "before_split False s = s \<longleftrightarrow> n = length out + 1"
    by (auto simp: out)
  obtain x y zs where xy: "slash_plain False s @ CHR 0x22 # t # rest = x # y # zs"
    by (cases "slash_plain False s"; cases "tl (slash_plain False s)") auto
  have "src_match (mSrc ?p1) (mSrcIdx ?p1) [CHR 0x22, CHR 0x22] = Some False"
  proof -
    have "rd (mSrc ?p1) (mSrcIdx ?p1) = Some x" "rd (mSrc ?p1) (Suc (mSrcIdx ?p1)) = Some y"
      using ahead_cur [OF a [unfolded xy]] ahead_cur [OF ahead_adv [OF a [unfolded xy]]] by (simp_all add: cur_def idx_simps)
    then show ?thesis using hd_slash [OF _ xy t] by simp
  qed
  then have str: "lex_string lex_start CHR 0x22 ?p1 = string_end lex_start CHR 0x22 (before_split False s) (adv n ?p1)"
    using n(1) by (simp add: lex_string_def lex_start_def Let_def del: src_match.simps)
  have "lex_round e None False dis pt lex_start ?p0 = do {
      (r, p2) \<leftarrow> string_end lex_start CHR 0x22 (before_split False s) (adv n ?p1); Some (r, set_flags r p2 lex_start, p2) }" for pt
    using c0 p(1) str by (simp add: lex_round_def Let_def lex_char_quote)
  then show ?thesis using p(2) n(2)
    by (simp add: NextToken_def Let_def lex_loop.simps string_end_def set_flags_def lex_start_def start_at_def idx_simps) (simp add: adv_def)
qed

lemma slash_string_reads_back_witness:
  "\<exists>p1. NextToken plain_env None False False (SetSource False ([CHR 0x22, CHR ''a'', CHR 0x5C, CHR ''n'', CHR 0x22] @ '';'')) = Some (LexReturn, p1) \<and>
    mSyntaxToken p1 = BfSyntaxToken_Literal \<and> mTypeCode (mLiteral p1) = BfTypeCode_CharPtr \<and>
    mString (mLiteral p1) = [CHR ''a'', chr_nl] \<and> p_errors p1 = [] \<and> mTokenStart p1 = 0 \<and> mTokenEnd p1 = 5"
proof -
  define p where "p = SetSource False ([CHR 0x22, CHR ''a'', CHR 0x5C, CHR ''n'', CHR 0x22] @ '';'')"
  have w: "SlashString plain_env [CHR ''a'', chr_nl] False False True = Some [CHR ''a'', CHR 0x5C, CHR ''n'']"
    by code_simp
  have s: "mSrcIdx p = 0" "mSrc p = [CHR 0x22, CHR ''a'', CHR 0x5C, CHR ''n'', CHR 0x22, CHR '';'', chr_nul]" "p_errors p = []"
    "mPreprocessorIgnoreDepth p = 0" "mSyntaxToken p \<noteq> BfSyntaxToken_EOF"
    by (simp_all add: p_def SetSource_def)
  have "drop (mSrcIdx p) (mSrc p) = CHR 0x22 # [CHR ''a'', CHR 0x5C, CHR ''n''] @ CHR 0x22 # CHR '';'' # [chr_nul]"
    unfolding s by simp
  moreover have "before_split False [CHR ''a'', chr_nl] = [CHR ''a'', chr_nl]" by code_simp
  ultimately show ?thesis using slash_string_reads_back [OF w _ _ s(4,5), of "CHR '';''" "[chr_nul]" plain_env False]
    unfolding p_def [symmetric] by (auto simp: s(1,3))
qed

end
