(* ===== verification/Bf_Preproc.thy ===== *)
theory Bf_Preproc
  imports Bf_Lexer
begin

text \<open>
  The preprocessor of the parser, \<open>BfParser::HandlePreprocessor\<close> and what it calls
  (\<^verbatim>\<open>Compiler/BfParser.cpp\<close>), over the lexer.

  The parser of expressions (\<open>BfReducer\<close>) and \<open>atoi\<close> are parameters.  \<open>None\<close> stands for a read outside the
  source, for \<open>NULL\<close> where a node is used, and for an assertion that fails.
\<close>

section \<open>Nodes and expressions\<close>

datatype (plugins only: size code) bf_binary_op =
    BfBinaryOp_None | BfBinaryOp_Add | BfBinaryOp_Subtract | BfBinaryOp_Multiply | BfBinaryOp_OverflowAdd
  | BfBinaryOp_OverflowSubtract | BfBinaryOp_OverflowMultiply | BfBinaryOp_Divide | BfBinaryOp_Modulus
  | BfBinaryOp_BitwiseAnd | BfBinaryOp_BitwiseOr | BfBinaryOp_ExclusiveOr | BfBinaryOp_LeftShift
  | BfBinaryOp_RightShift | BfBinaryOp_Equality | BfBinaryOp_StrictEquality | BfBinaryOp_InEquality
  | BfBinaryOp_StrictInEquality | BfBinaryOp_GreaterThan | BfBinaryOp_LessThan | BfBinaryOp_GreaterThanOrEqual
  | BfBinaryOp_LessThanOrEqual | BfBinaryOp_Compare | BfBinaryOp_ConditionalAnd | BfBinaryOp_ConditionalOr
  | BfBinaryOp_NullCoalesce | BfBinaryOp_Is | BfBinaryOp_As | BfBinaryOp_Range | BfBinaryOp_ClosedRange

datatype (plugins only: size code) bf_unary_op =
    BfUnaryOp_None | BfUnaryOp_AddressOf | BfUnaryOp_Arrow | BfUnaryOp_Dereference | BfUnaryOp_Negate | BfUnaryOp_Not
  | BfUnaryOp_Positive | BfUnaryOp_InvertBits | BfUnaryOp_Increment | BfUnaryOp_Decrement | BfUnaryOp_PostIncrement
  | BfUnaryOp_PostDecrement | BfUnaryOp_NullConditional | BfUnaryOp_Ref | BfUnaryOp_Out | BfUnaryOp_Mut
  | BfUnaryOp_Params | BfUnaryOp_Cascade | BfUnaryOp_FromEnd | BfUnaryOp_PartialRangeUpTo
  | BfUnaryOp_PartialRangeThrough | BfUnaryOp_PartialRangeFrom

text \<open>
  The expressions \<open>EvaluatePreprocessor\<close> tells apart, with the start of a node where it is reported;
  \<open>NoExpression\<close> is \<open>NULL\<close>.
\<close>

datatype bf_expression =
    NoExpression
  | BfBinaryOperatorExpression nat bf_binary_op bf_expression bf_expression
  | BfUnaryOperatorExpression nat bf_unary_op bf_expression
  | BfIdentifierNode string
  | BfParenthesizedExpression bf_expression
  | BfLiteralExpression nat bf_variant
  | OtherExpression nat

datatype (plugins only: size code) node_kind = NodeToken bf_token | NodeIdentifier | NodeLiteral bf_variant | NodeGenerated

record bf_node =
  node_kind :: node_kind
  node_start :: nat
  node_end :: nat

text \<open>A block that has been parsed inline; its children are never none.\<close>

type_synonym bf_block = "bf_node list"

definition block_start :: "bf_block \<Rightarrow> nat" where
  "block_start b = fold min (map node_start b) (node_start (hd b))"

definition block_end :: "bf_block \<Rightarrow> nat" where
  "block_end b = fold max (map node_end b) (node_end (hd b))"

record bf_preprocessor_node =
  pn_trivia :: nat
  pn_start :: nat
  pn_end :: nat
  pn_command :: "nat \<times> nat"
  mArgument :: "bf_block option"

section \<open>State\<close>

datatype (plugins only: size code) bf_define_state = BfDefineState_FromProject | BfDefineState_ManualSet | BfDefineState_ManualUnset

datatype (plugins only: size code) maybe_bool = MaybeBool_None | MaybeBool_False | MaybeBool_True

record bf_warning_change =
  mWarningNumber :: int
  mEnable :: bool

text \<open>
  The fields of the parser and of its data that the preprocessor works on.  The top of
  \<open>mPreprocessorNodeStack\<close> comes first; \<open>in_ignored_section\<close> of the lexer says that
  \<open>mPreprocessorIgnoredSectionNode\<close> is not \<open>NULL\<close>, \<open>section_start\<close> is where that node starts, and \<open>ignored_sections\<close>
  has the nodes whose end has been set.  \<open>mDependencies\<close> holds the names of the projects the
  project depends on, when there is a project.
\<close>

record bf_preproc =
  pp_lex :: bf_parser
  mQuickCompatMode :: bool
  mCompleteParse :: bool
  mDependencies :: "string list option"
  mAddedDependsDefines :: bool
  mPreprocessorDefines :: "string \<Rightarrow> bf_define_state option"
  mDefines_Def :: "string set"
  mDefines_NoDef :: "string set"
  mPreprocessorNodeStack :: "(bf_preprocessor_node \<times> bool) list"
  section_start :: nat
  ignored_sections :: "(nat \<times> nat) list"
  mPreprocessorIgnoredSectionStarts :: "nat set"
  mUnwarns :: "nat set"
  mWarningEnabledChanges :: "(nat \<times> bf_warning_change) list"
  preprocessor_nodes :: "bf_preprocessor_node list"

text \<open>
  What the preprocessor takes from elsewhere: for the text of the source and the nodes of a block,
  \<open>CreateExpression\<close> gives an expression, the nodes behind it and the messages.
\<close>

record pp_env =
  tok_env :: lex_env
  CreateExpression :: "string \<Rightarrow> bool \<Rightarrow> bf_node list \<Rightarrow> bf_expression \<times> bf_node list \<times> (string \<times> int) list"
  atoi :: "string \<Rightarrow> int"

abbreviation ignore_depth :: "bf_preproc \<Rightarrow> int" where
  "ignore_depth st \<equiv> mPreprocessorIgnoreDepth (pp_lex st)"

definition on_lex :: "(bf_parser \<Rightarrow> bf_parser) \<Rightarrow> bf_preproc \<Rightarrow> bf_preproc" where
  "on_lex f st = st\<lparr>pp_lex := f (pp_lex st)\<rparr>"

definition pp_fail :: "string \<Rightarrow> nat \<Rightarrow> bf_preproc \<Rightarrow> bf_preproc" where
  "pp_fail msg i = on_lex (FailAt msg i)"

definition src_text :: "string \<Rightarrow> nat \<Rightarrow> nat \<Rightarrow> string" where
  "src_text s i j = take (j - i) (drop i s)"

definition node_text :: "bf_preproc \<Rightarrow> bf_node \<Rightarrow> string" where
  "node_text st n = src_text (mSrc (pp_lex st)) (node_start n) (node_end n)"

definition block_text :: "bf_preproc \<Rightarrow> bf_block \<Rightarrow> string" where
  "block_text st b = src_text (mSrc (pp_lex st)) (block_start b) (block_end b)"

section \<open>Warnings\<close>

definition set_change :: "nat \<Rightarrow> bf_warning_change \<Rightarrow> bf_preproc \<Rightarrow> bf_preproc" where
  "set_change i c st = st\<lparr>mWarningEnabledChanges := (i, c) # filter (\<lambda>(j, _). j \<noteq> i) (mWarningEnabledChanges st)\<rparr>"

definition IsWarningEnabledAtSrcIndex :: "bf_preproc \<Rightarrow> int \<Rightarrow> nat \<Rightarrow> bool" where
  "IsWarningEnabledAtSrcIndex st n i \<longleftrightarrow>
     (let cs = filter (\<lambda>(j, c). j \<le> i \<and> (mWarningNumber c = n \<or> mWarningNumber c = -1)) (mWarningEnabledChanges st)
      in 1 + sum_list (map (\<lambda>(_, c). if mEnable c then 1 else -1) cs) > (0::int))"

text \<open>
  \<open>IsUnwarnedAt\<close>: a node that starts behind an \<open>#unwarn\<close> with at most one line end between them.
\<close>

primrec unwarn_reaches :: "string \<Rightarrow> nat \<Rightarrow> nat \<Rightarrow> nat \<Rightarrow> bool" where
  "unwarn_reaches s u lines 0 = True"
| "unwarn_reaches s u lines (Suc i) =
     (if i < u then True
      else if s ! i = chr_nl then (if lines = 1 then False else unwarn_reaches s u (Suc lines) i)
      else unwarn_reaches s u lines i)"

definition IsUnwarnedAt :: "bf_preproc \<Rightarrow> nat \<Rightarrow> bool" where
  "IsUnwarnedAt st start \<longleftrightarrow>
     (let us = Set.filter (\<lambda>u. u \<le> start) (mUnwarns st)
      in us \<noteq> {} \<and> unwarn_reaches (mSrc (pp_lex st)) (Max us) 0 start)"

definition WarnAt :: "int \<Rightarrow> string \<Rightarrow> nat \<Rightarrow> bf_preproc \<Rightarrow> bf_preproc" where
  "WarnAt n msg i st =
     (if IsWarningEnabledAtSrcIndex st n i then on_lex (\<lambda>p. p\<lparr>p_warnings := p_warnings p @ [(msg, int i)]\<rparr>) st else st)"

text \<open>\<open>HandlePragma\<close>\<close>

definition quoted :: "string \<Rightarrow> string" where
  "quoted s = CHR 0x22 # s @ [CHR 0x22]"

definition disable_or_restore :: "string \<Rightarrow> string" where
  "disable_or_restore what = ''Expected '' @ quoted ''disable'' @ '' or '' @ quoted ''restore'' @ '' after '' @ quoted what"

definition pragma_number :: "pp_env \<Rightarrow> bool \<Rightarrow> bf_node \<Rightarrow> bf_preproc \<Rightarrow> bf_preproc" where
  "pragma_number e enable n st =
     (let s = node_text st n
      in if s = '','' then st
         else if list_all is_digit s \<and> atoi e s > 0
         then set_change (node_start n) \<lparr>mWarningNumber = atoi e s, mEnable = enable\<rparr> st
         else pp_fail ''Expected decimal warning number'' (node_start n) st)"

definition HandlePragma :: "pp_env \<Rightarrow> bf_block \<Rightarrow> bf_preproc \<Rightarrow> bf_preproc option" where
  "HandlePragma e block st =
     (case block of
        [] \<Rightarrow> None
      | param # rest \<Rightarrow> Some (
          if node_text st param = ''warning''
          then (case rest of
                  [] \<Rightarrow> pp_fail (disable_or_restore ''warning'') (node_end param - 1) st
                | n # ns \<Rightarrow>
                    (let dis = (node_text st n = ''disable'');
                         known = (dis \<or> node_text st n = ''restore'');
                         st1 = (if known then st else pp_fail (disable_or_restore ''warning'') (node_start n) st);
                         st2 = fold (pragma_number e (\<not> dis)) ns st1
                     in if ns = [] then set_change (node_start n) \<lparr>mWarningNumber = -1, mEnable = \<not> dis\<rparr> st2 else st2))
          else if node_text st param = ''format''
          then (case rest of
                  [] \<Rightarrow> st
                | n # ns \<Rightarrow>
                    if node_text st n \<noteq> ''disable'' \<and> node_text st n \<noteq> ''restore''
                    then pp_fail (disable_or_restore ''format'') (node_end param - 1) st else st)
          else pp_fail ''Unknown #pragma directive'' (node_start param) st))"

section \<open>Conditions\<close>

definition HandleDefine :: "string \<Rightarrow> bf_preproc \<Rightarrow> bf_preproc" where
  "HandleDefine name st = st\<lparr>mPreprocessorDefines := (mPreprocessorDefines st)(name \<mapsto> BfDefineState_ManualSet)\<rparr>"

definition HandleUndefine :: "string \<Rightarrow> bf_preproc \<Rightarrow> bf_preproc" where
  "HandleUndefine name st = st\<lparr>mPreprocessorDefines := (mPreprocessorDefines st)(name \<mapsto> BfDefineState_ManualUnset)\<rparr>"

definition toupper :: "char \<Rightarrow> char" where
  "toupper c = (if is_lower c then char_of (byte c - 32) else c)"

definition isalnum :: "char \<Rightarrow> bool" where
  "isalnum c \<longleftrightarrow> is_digit c \<or> is_upper c \<or> is_lower c"

definition depends_macro :: "string \<Rightarrow> string" where
  "depends_macro dep = map (\<lambda>c. if isalnum c then c else CHR ''_'') (map toupper (''BF_DEPENDS_'' @ dep))"

definition is_depends :: "string \<Rightarrow> bool" where
  "is_depends name \<longleftrightarrow> take 11 name = ''BF_DEPENDS_''"

definition add_depends :: "string \<Rightarrow> bf_preproc \<Rightarrow> bf_preproc" where
  "add_depends name st =
     (case mDependencies st of
        Some deps \<Rightarrow>
          if \<not> mAddedDependsDefines st \<and> is_depends name
          then st\<lparr>mPreprocessorDefines := fold (\<lambda>dep m. m(depends_macro dep \<mapsto> BfDefineState_FromProject)) deps (mPreprocessorDefines st),
                  mAddedDependsDefines := True\<rparr>
          else st
      | None \<Rightarrow> st)"

definition HandleIfDef :: "string \<Rightarrow> bf_preproc \<Rightarrow> maybe_bool \<times> bf_preproc" where
  "HandleIfDef name st =
     (let st1 = add_depends name st
      in case mPreprocessorDefines st1 name of
           Some d \<Rightarrow>
             (if d \<noteq> BfDefineState_ManualUnset then MaybeBool_True else MaybeBool_False,
              if d = BfDefineState_FromProject then st1\<lparr>mDefines_Def := insert name (mDefines_Def st1)\<rparr> else st1)
         | None \<Rightarrow> (MaybeBool_False, st1\<lparr>mDefines_NoDef := insert name (mDefines_NoDef st1)\<rparr>))"

definition invalid_condition :: "nat \<Rightarrow> bf_preproc \<Rightarrow> bool \<times> bf_preproc" where
  "invalid_condition i st = (False, pp_fail ''Invalid preprocessor expression'' i st)"

primrec EvaluatePreprocessor :: "bf_expression \<Rightarrow> bf_preproc \<Rightarrow> bool \<times> bf_preproc" where
  "EvaluatePreprocessor NoExpression st = (False, st)"
| "EvaluatePreprocessor (BfBinaryOperatorExpression i bop l r) st =
     (if bop = BfBinaryOp_ConditionalOr
      then (let (b, st1) = EvaluatePreprocessor l st in if b then (True, st1) else EvaluatePreprocessor r st1)
      else if bop = BfBinaryOp_ConditionalAnd
      then (let (b, st1) = EvaluatePreprocessor l st in if b then EvaluatePreprocessor r st1 else (False, st1))
      else invalid_condition i st)"
| "EvaluatePreprocessor (BfUnaryOperatorExpression i uop x) st =
     (if uop = BfUnaryOp_Not then (let (b, st1) = EvaluatePreprocessor x st in (\<not> b, st1)) else invalid_condition i st)"
| "EvaluatePreprocessor (BfIdentifierNode name) st = (let (m, st1) = HandleIfDef name st in (m = MaybeBool_True, st1))"
| "EvaluatePreprocessor (BfParenthesizedExpression x) st = EvaluatePreprocessor x st"
| "EvaluatePreprocessor (BfLiteralExpression i v) st =
     (if mTypeCode v = BfTypeCode_Boolean then (mUInt64 v AND 0xFF \<noteq> 0, st) else invalid_condition i st)"
| "EvaluatePreprocessor (OtherExpression i) st = invalid_condition i st"

definition CreateInlineExpressionFromNode :: "pp_env \<Rightarrow> bf_block \<Rightarrow> bf_preproc \<Rightarrow> bf_expression \<times> bf_preproc" where
  "CreateInlineExpressionFromNode e block st =
     (case block of
        [] \<Rightarrow> (NoExpression, st)
      | _ # _ \<Rightarrow>
          (let (x, rest, msgs) = CreateExpression e (mSrc (pp_lex st)) (mCompatMode (pp_lex st)) block;
               st1 = on_lex (\<lambda>p. p\<lparr>p_errors := p_errors p @ msgs\<rparr>) st
           in (x, if x \<noteq> NoExpression \<and> rest \<noteq> [] then pp_fail ''Expression parsing error'' (node_start (hd rest)) st1 else st1)))"

definition HandleProcessorCondition :: "pp_env \<Rightarrow> bf_block option \<Rightarrow> bf_preproc \<Rightarrow> maybe_bool \<times> bf_preproc" where
  "HandleProcessorCondition e param st =
     (case param of
        None \<Rightarrow> (MaybeBool_False, st)
      | Some block \<Rightarrow>
          (let (x, st1) = CreateInlineExpressionFromNode e block st
           in if x = NoExpression then (MaybeBool_False, st1)
              else (let (b, st2) = EvaluatePreprocessor x st1 in (if b then MaybeBool_True else MaybeBool_False, st2))))"

section \<open>Directives\<close>

text \<open>A directive that has been read, with where it and its name start.\<close>

record pp_directive =
  d_pragma :: string
  d_param :: string
  d_block :: "bf_block option"
  d_start :: nat
  d_name :: nat

text \<open>The locals the branches of \<open>HandlePreprocessor\<close> set.\<close>

record pp_locals =
  wantsSingleParam :: bool
  wantedParam :: bool
  addToPreprocessorAccept :: bool
  addToPreprocessorAcceptResolved :: bool
  triviaStart :: nat

definition pp_start :: "nat \<Rightarrow> pp_locals" where
  "pp_start trivia = \<lparr>wantsSingleParam = True, wantedParam = False, addToPreprocessorAccept = False,
     addToPreprocessorAcceptResolved = True, triviaStart = trivia\<rparr>"

definition set_depth :: "int \<Rightarrow> bf_preproc \<Rightarrow> bf_preproc" where
  "set_depth n = on_lex (\<lambda>p. p\<lparr>mPreprocessorIgnoreDepth := n\<rparr>)"

definition push_node :: "bf_preprocessor_node \<Rightarrow> bool \<Rightarrow> bf_preproc \<Rightarrow> bf_preproc" where
  "push_node n resolved st = st\<lparr>mPreprocessorNodeStack := (n, resolved) # mPreprocessorNodeStack st\<rparr>"

definition pop_node :: "bf_preproc \<Rightarrow> bf_preproc" where
  "pop_node st = st\<lparr>mPreprocessorNodeStack := tl (mPreprocessorNodeStack st)\<rparr>"

definition ignored_from_here :: "bf_preproc \<Rightarrow> bf_preproc" where
  "ignored_from_here st = st\<lparr>mPreprocessorIgnoredSectionStarts := insert (mSrcIdx (pp_lex st)) (mPreprocessorIgnoredSectionStarts st)\<rparr>"

definition end_section :: "nat \<Rightarrow> bf_preproc \<Rightarrow> bf_preproc" where
  "end_section i st = (on_lex (\<lambda>p. p\<lparr>in_ignored_section := False\<rparr>) st)\<lparr>ignored_sections := ignored_sections st @ [(section_start st, i)]\<rparr>"

text \<open>The section ends and the top of the stack is taken off: what follows counts again.\<close>

definition resume :: "nat \<Rightarrow> bf_preproc \<Rightarrow> bf_preproc" where
  "resume i st = end_section i (set_depth 0 (pop_node st))"

definition at_if :: "bf_preproc \<Rightarrow> string \<Rightarrow> bool" where
  "at_if st pragma \<longleftrightarrow> pragma = ''if'' \<or> mCompatMode (pp_lex st) \<and> (pragma = ''ifdef'' \<or> pragma = ''ifndef'')"

text \<open>\<open>mPreprocessorIgnoreDepth == 1\<close>, and no branch of the innermost condition has been taken.\<close>

definition awaits_branch :: "bf_preproc \<Rightarrow> bool" where
  "awaits_branch st \<longleftrightarrow> ignore_depth st = 1 \<and> \<not> snd (hd (mPreprocessorNodeStack st))"

text \<open>A directive in a section that is ignored; without locals the function returns.\<close>

definition skipped_directive :: "pp_env \<Rightarrow> pp_directive \<Rightarrow> nat \<Rightarrow> bf_preproc \<Rightarrow> (pp_locals option \<times> bf_preproc) option" where
  "skipped_directive e d trivia st =
     (let loc = pp_start trivia;
          ignoreEnd = max (section_start st) (mLineStart (pp_lex st) - 1);
          back = loc\<lparr>triviaStart := ignoreEnd\<rparr>;
          pragma = d_pragma d
      in if mPreprocessorNodeStack st = [] \<or> \<not> in_ignored_section (pp_lex st) then None
         else Some (
           if pragma = ''endif'' \<or> pragma = ''>>>''
           then (let st1 = set_depth (ignore_depth st - 1) st
                 in if ignore_depth st1 > 0 then (None, st1) else (Some back, resume ignoreEnd st1))
           else if at_if st pragma then (None, set_depth (ignore_depth st + 1) st)
           else if pragma = ''else''
           then (if mCompatMode (pp_lex st) \<and> (case d_block d of Some b \<Rightarrow> block_text st b = ''if'' | None \<Rightarrow> False)
                 then (let (found, st1) = HandleProcessorCondition e (d_block d) st
                       in (None, if found \<noteq> MaybeBool_False then resume ignoreEnd st1 else ignored_from_here st1))
                 else if awaits_branch st then (Some (back\<lparr>addToPreprocessorAccept := True\<rparr>), resume ignoreEnd st)
                 else (None, st))
           else if pragma = ''elif'' \<and> awaits_branch st
           then (let (found, st1) = HandleProcessorCondition e (d_block d) st
                 in if found \<noteq> MaybeBool_False
                    then (Some (back\<lparr>wantsSingleParam := False, wantedParam := True, addToPreprocessorAccept := True\<rparr>), resume ignoreEnd st1)
                    else (None, ignored_from_here st1))
           else (None, st)))"

definition if_condition :: "pp_env \<Rightarrow> pp_directive \<Rightarrow> bf_preproc \<Rightarrow> bool \<times> bf_preproc" where
  "if_condition e d st =
     (if d_pragma d = ''<<<'' then (True, pp_fail ''Conflict marker found'' (d_start d) st)
      else if mQuickCompatMode st then (False, st)
      else if d_pragma d = ''if'' then (let (m, st1) = HandleProcessorCondition e (d_block d) st in (m \<noteq> MaybeBool_False, st1))
      else if d_pragma d = ''ifdef'' then (let (m, st1) = HandleIfDef (d_param d) st in (m \<noteq> MaybeBool_False, st1))
      else (let (m, st1) = HandleIfDef (d_param d) st in (m \<noteq> MaybeBool_True, st1)))"

text \<open>The first child of the block, if there is one.\<close>

definition first_child :: "bf_preproc \<Rightarrow> pp_directive \<Rightarrow> string option" where
  "first_child st d = (case d_block d of Some (n # _) \<Rightarrow> Some (node_text st n) | _ \<Rightarrow> None)"

text \<open>The branches that have no effect on the conditions.\<close>

definition plain_directive :: "pp_env \<Rightarrow> pp_directive \<Rightarrow> pp_locals \<Rightarrow> bf_preproc \<Rightarrow> (pp_locals \<times> bf_preproc) option" where
  "plain_directive e d loc st =
     (let pragma = d_pragma d; compat_mode = mCompatMode (pp_lex st);
          wanted = loc\<lparr>wantedParam := True\<rparr>; free = wanted\<lparr>wantsSingleParam := False\<rparr>
      in if pragma = ''define'' then Some (wanted, case first_child st d of Some s \<Rightarrow> HandleDefine s st | None \<Rightarrow> st)
         else if pragma = ''undef'' then Some (wanted, case first_child st d of Some s \<Rightarrow> HandleUndefine s st | None \<Rightarrow> st)
         else if pragma = ''error'' then Some (free, pp_fail (d_param d) (d_start d) st)
         else if pragma = ''warning'' then Some (free, WarnAt 1030 (d_param d) (d_start d) st)
         else if pragma = ''region'' then Some (free, st)
         else if pragma = ''endregion'' then Some (loc\<lparr>wantsSingleParam := False, wantedParam := d_param d \<noteq> []\<rparr>, st)
         else if pragma = ''pragma''
         then (case d_block d of
                 Some b \<Rightarrow> do { st1 \<leftarrow> HandlePragma e b st; Some (free, st1) }
               | None \<Rightarrow> Some (free, st))
         else if pragma = ''unwarn'' then Some (loc, st\<lparr>mUnwarns := insert (mSrcIdx (pp_lex st)) (mUnwarns st)\<rparr>)
         else if compat_mode \<and> (pragma = ''include'' \<or> pragma = ''include_next'') then Some (wanted, st)
         else Some (loc, pp_fail ''Unknown preprocessor directive'' (d_start d) st))"

text \<open>\<open>#else\<close> and \<open>#elif\<close> behind a branch that has been taken.\<close>

definition branch_done :: "string \<Rightarrow> pp_directive \<Rightarrow> bf_preproc \<Rightarrow> bf_preproc option" where
  "branch_done msg d st =
     (if mQuickCompatMode st \<or> mCompleteParse st then Some st
      else case mPreprocessorNodeStack st of
             [] \<Rightarrow> Some (pp_fail msg (d_start d) st)
           | (_, resolved) # _ \<Rightarrow> if resolved then Some (set_depth 1 st) else None)"

definition active_directive :: "pp_env \<Rightarrow> pp_directive \<Rightarrow> nat \<Rightarrow> bf_preproc \<Rightarrow> (pp_locals \<times> bf_preproc) option" where
  "active_directive e d trivia st =
     (let loc = pp_start trivia; pragma = d_pragma d
      in if at_if st pragma \<or> pragma = ''<<<''
         then (let (found, st1) = if_condition e d st;
                   st2 = (if found then st1 else ignored_from_here st1);
                   ignored = (\<not> found \<and> \<not> mQuickCompatMode st \<and> \<not> mCompleteParse st)
               in Some (loc\<lparr>wantsSingleParam := False, wantedParam := pragma \<noteq> ''<<<'', addToPreprocessorAccept := True,
                            addToPreprocessorAcceptResolved := \<not> ignored\<rparr>, if ignored then set_depth 1 st2 else st2))
         else if pragma = ''else'' \<or> pragma = ''===''
         then do { st1 \<leftarrow> branch_done ''Unexpected #else'' d st; Some (loc, st1) }
         else if pragma = ''elif''
         then do { st1 \<leftarrow> branch_done ''Unexpected #elif'' d st; Some (loc\<lparr>wantsSingleParam := False, wantedParam := True\<rparr>, st1) }
         else if pragma = ''endif''
         then Some (loc, if mPreprocessorNodeStack st = [] then pp_fail ''Unexpected #endif'' (d_start d) st else pop_node st)
         else plain_directive e d loc st)"

text \<open>The messages on the parameters of a directive.\<close>

definition check_params :: "pp_directive \<Rightarrow> pp_locals \<Rightarrow> bf_preproc \<Rightarrow> bf_preproc" where
  "check_params d loc st =
     (let st1 = (case d_block d of
                   Some b \<Rightarrow> if wantsSingleParam loc \<and> length b > 1 then pp_fail ''Only one parameter expected'' (block_start b) st else st
                 | None \<Rightarrow> st)
      in if wantedParam loc \<and> d_block d = None then pp_fail ''Expected parameter'' (d_start d) st1
         else if \<not> wantedParam loc \<and> d_block d \<noteq> None then pp_fail ''Parameter not expected'' (d_start d) st1
         else st1)"

text \<open>The nodes of the directive, and of a section that starts to be ignored.\<close>

definition add_nodes :: "pp_directive \<Rightarrow> pp_locals \<Rightarrow> bf_preproc \<Rightarrow> bf_preproc" where
  "add_nodes d loc st =
     (let i = mSrcIdx (pp_lex st);
          nameEnd = d_name d + length (d_pragma d);
          node = \<lparr>pn_trivia = triviaStart loc, pn_start = min (d_start d) (d_name d), pn_end = max i nameEnd, pn_command = (d_name d, nameEnd),
                  mArgument = d_block d\<rparr>;
          st1 = (on_lex (\<lambda>p. p\<lparr>mTokenStart := i, mTokenEnd := i, mTriviaStart := i\<rparr>) st)\<lparr>preprocessor_nodes := preprocessor_nodes st @ [node]\<rparr>;
          st2 = (if addToPreprocessorAccept loc then push_node node (addToPreprocessorAcceptResolved loc) st1 else st1)
      in if ignore_depth st2 > 0 then (on_lex (\<lambda>p. p\<lparr>in_ignored_section := True\<rparr>) st2)\<lparr>section_start := i\<rparr> else st2)"

definition run_directive :: "pp_env \<Rightarrow> pp_directive \<Rightarrow> nat \<Rightarrow> bf_preproc \<Rightarrow> bf_preproc option" where
  "run_directive e d trivia st =
     (if ignore_depth st > 0
      then do {
        (loc, st1) \<leftarrow> skipped_directive e d trivia st;
        (case loc of None \<Rightarrow> Some st1 | Some loc \<Rightarrow> Some (add_nodes d loc (check_params d loc st1))) }
      else do {
        (loc, st1) \<leftarrow> active_directive e d trivia st;
        Some (add_nodes d loc (check_params d loc st1)) })"

section \<open>Reading a directive\<close>

text \<open>A line end at \<open>i\<close> with a backslash before it, but for blanks.\<close>

function is_continued :: "string \<Rightarrow> nat \<Rightarrow> nat \<Rightarrow> bool" where
  "is_continued s start i =
     (if i \<le> start then False
      else if s ! (i - 1) = CHR 0x5C then True
      else if s ! (i - 1) = CHR '' '' \<or> s ! (i - 1) = CHR 0x09 then is_continued s start (i - 1)
      else False)"
  by pat_completeness auto
termination by (relation "measure (\<lambda>(s, start, i). i)") auto

declare is_continued.simps [simp del]

text \<open>
  The characters of a directive: where it ends, where its name starts, and what ends the name.
\<close>

function directive_scan ::
  "string \<Rightarrow> nat \<Rightarrow> bool \<Rightarrow> nat \<Rightarrow> nat option \<Rightarrow> nat option \<Rightarrow> (nat \<times> nat option \<times> nat option) option" where
  "directive_scan s start marker i charIdx spaceIdx = do {
     c \<leftarrow> rd s i;
     if c = chr_nl \<and> \<not> is_continued s start i then Some (Suc i, charIdx, spaceIdx)
     else if c = chr_nul then Some (i, charIdx, spaceIdx)
     else if charIdx = None
     then directive_scan s start marker (Suc i)
            (if if marker then \<not> IsWhitespace c else \<not> IsWhitespaceOrPunctuation c then Some i else None) spaceIdx
     else directive_scan s start marker (Suc i) charIdx
            (if IsWhitespaceOrPunctuation c \<and> spaceIdx = None then Some i else spaceIdx) }"
  by pat_completeness auto
termination by (relation "measure (\<lambda>(s, start, m, i, c, sp). length s - i)") (auto simp: rd_def split: if_splits)

declare directive_scan.simps [simp del]

text \<open>The position behind the last character before \<open>j\<close> that is not blank.\<close>

primrec trim_end :: "string \<Rightarrow> nat \<Rightarrow> nat \<Rightarrow> nat" where
  "trim_end s start 0 = 0"
| "trim_end s start (Suc j) = (if start \<le> j \<and> IsWhitespace (s ! j) then trim_end s start j else Suc j)"

text \<open>How \<open>HandlePreprocessor\<close> ends: it returns, or an interpolated string needs the parser.\<close>

datatype (plugins only: size code) pp_outcome = PPReturn bool | PPInterpolate

type_synonym pp_step = "(pp_outcome \<times> bf_preproc) option"

text \<open>\<open>ParseInlineBlock\<close>, from a position up to another one.\<close>

type_synonym pp_inline = "nat \<Rightarrow> nat \<Rightarrow> bf_preproc \<Rightarrow> (bf_block option option \<times> bf_preproc) option"

definition set_idx :: "nat \<Rightarrow> bf_preproc \<Rightarrow> bf_preproc" where
  "set_idx i = on_lex (\<lambda>p. p\<lparr>mSrcIdx := i\<rparr>)"

definition marker_name :: "char \<Rightarrow> string" where
  "marker_name c = (if c = CHR ''<'' \<or> c = CHR ''='' \<or> c = CHR ''>'' then [c, c, c] else [])"

text \<open>A directive whose name ends at \<open>sp\<close>, with the parameter behind it.\<close>

definition param_directive :: "pp_env \<Rightarrow> pp_inline \<Rightarrow> nat \<Rightarrow> nat \<Rightarrow> nat \<Rightarrow> nat \<Rightarrow> nat \<Rightarrow> bf_preproc \<Rightarrow> pp_step" where
  "param_directive e inline trivia start ci sp endx st = do {
     let s = mSrc (pp_lex st);
     (block, st1) \<leftarrow> inline sp endx st;
     (case block of
        None \<Rightarrow> Some (PPInterpolate, st1)
      | Some b \<Rightarrow> do {
          st2 \<leftarrow> run_directive e \<lparr>d_pragma = src_text s ci sp, d_param = dropWhile isspace (src_text s sp endx), d_block = b,
                                  d_start = start, d_name = ci\<rparr> trivia st1;
          Some (PPReturn True, st2) }) }"

definition HandlePreprocessor :: "pp_env \<Rightarrow> pp_inline \<Rightarrow> bf_preproc \<Rightarrow> pp_step" where
  "HandlePreprocessor e inline st =
     (let p = pp_lex st; s = mSrc p; start = mSrcIdx p - 1; trivia = mTriviaStart p; depth = ignore_depth st;
          lead = find (\<lambda>i. \<not> isspace (s ! i)) [mLineStart p ..< start];
          c = s ! start; marker = marker_name c
      in if depth = 0 \<and> lead \<noteq> None \<and> c \<noteq> CHR ''#'' then Some (PPReturn False, st)
         else let st1 = (case lead of
                           Some i \<Rightarrow> if depth = 0 then pp_fail ''Preprocessor directives must appear as the first non-whitespace character on a line'' i st else st
                         | None \<Rightarrow> st)
         in if (c = CHR ''<'' \<or> c = CHR ''='') \<and> depth > 0 \<or> c = CHR ''>'' \<and> depth > 1 then Some (PPReturn False, st1)
         else do {
           (i, charIdx, spaceIdx) \<leftarrow> directive_scan s start (marker \<noteq> []) (mSrcIdx p) None None;
           let st2 = set_idx i st1;
           let endx = trim_end s start i;
           (case charIdx of
              None \<Rightarrow> Some (PPReturn True, pp_fail ''Preprocessor directive expected'' start st2)
            | Some ci \<Rightarrow>
                if marker \<noteq> []
                then do {
                  st3 \<leftarrow> run_directive e \<lparr>d_pragma = marker, d_param = [], d_block = None, d_start = start, d_name = ci\<rparr> trivia (set_idx (i - 1) st2);
                  Some (PPReturn True, st3) }
                else (case spaceIdx of
                        Some sp \<Rightarrow> param_directive e inline trivia start ci sp endx st2
                      | None \<Rightarrow> do {
                          st3 \<leftarrow> run_directive e \<lparr>d_pragma = src_text s ci endx, d_param = [], d_block = None, d_start = start, d_name = ci\<rparr>
                                  trivia (set_idx endx st2);
                          Some (PPReturn True, st3) })) })"

section \<open>Tokens\<close>

text \<open>
  The loop of \<open>NextToken\<close> with a given handler of directives; the symbols make sure it does not decline.
\<close>

partial_function (option) token_loop ::
  "pp_env \<Rightarrow> (bf_preproc \<Rightarrow> pp_step) \<Rightarrow> nat option \<Rightarrow> bool \<Rightarrow> bool \<Rightarrow> bf_token \<Rightarrow> lex_locals \<Rightarrow> bf_preproc \<Rightarrow>
   (lex_outcome \<times> bf_preproc) option" where
  "token_loop e handler endIdx outer dis prevToken loc st = do {
     (r, loc1, p1) \<leftarrow> lex_round (tok_env e) endIdx outer dis prevToken loc (pp_lex st);
     let st1 = st\<lparr>pp_lex := p1\<rparr>;
     (case r of
        LexNext v i \<Rightarrow> token_loop e handler endIdx outer dis prevToken loc1 st1
      | LexPreprocessor \<Rightarrow> do {
          (r2, st2) \<leftarrow> handler st1;
          (case r2 of
             PPInterpolate \<Rightarrow> Some (LexInterpolate, st2)
           | PPReturn b \<Rightarrow>
               if \<not> b then None
               else if mSrc p1 ! (mSrcIdx p1 - 1) = CHR ''#'' \<and> mSyntaxToken (pp_lex st2) = BfSyntaxToken_EOF then Some (LexReturn, st2)
               else token_loop e handler endIdx outer dis prevToken loc1 st2) }
      | _ \<Rightarrow> Some (r, st1)) }"

declare token_loop.simps [code]

definition token_start :: "bf_parser \<Rightarrow> bf_parser" where
  "token_start p =
     (let p1 = p\<lparr>mToken := BfToken_None\<rparr>;
          p2 = (if mSyntaxToken p1 = BfSyntaxToken_EOF then Fail ''Unexpected end of file'' p1 else p1)
      in p2\<lparr>mTriviaStart := mSrcIdx p2\<rparr>)"

definition next_token_with :: "pp_env \<Rightarrow> (bf_preproc \<Rightarrow> pp_step) \<Rightarrow> nat option \<Rightarrow> bool \<Rightarrow> bf_preproc \<Rightarrow> (lex_outcome \<times> bf_preproc) option" where
  "next_token_with e handler endIdx dis st =
     token_loop e handler endIdx False dis (mToken (pp_lex st)) lex_start (on_lex token_start st)"

text \<open>
  The block of a directive.  Its tokens are read with \<open>disablePreprocessor\<close>, so \<open>HandlePreprocessor\<close> is only called for
  conflict markers there, and a marker has no block of its own.
  While a file is parsed the root of the side nodes has no children yet, so \<open>GetLast\<close> is
  \<open>NULL\<close> and the position is set back to the end of the last token.
\<close>

definition HandleMarker :: "pp_env \<Rightarrow> bf_preproc \<Rightarrow> pp_step" where
  "HandleMarker e = HandlePreprocessor e (\<lambda>_ _ _. None)"

definition CreateNode :: "bf_parser \<Rightarrow> bf_node option \<times> bf_parser" where
  "CreateNode p =
     (let node = (\<lambda>k. Some \<lparr>node_kind = k, node_start = mTokenStart p, node_end = mTokenEnd p\<rparr>)
      in case mSyntaxToken p of
           BfSyntaxToken_Token \<Rightarrow> (node (NodeToken (mToken p)), p)
         | BfSyntaxToken_Identifier \<Rightarrow> (node NodeIdentifier, p)
         | BfSyntaxToken_Literal \<Rightarrow>
             (node (NodeLiteral (mLiteral p)), p\<lparr>mLiteral := (mLiteral p)\<lparr>mTypeCode := BfTypeCode_None, mWarnType := 0\<rparr>\<rparr>)
         | BfSyntaxToken_GeneratedNode \<Rightarrow> (node NodeGenerated, p)
         | _ \<Rightarrow> (None, p))"

record inline_locals =
  usedEndIdx :: nat
  usedLineNum :: nat
  usedLineStart :: nat
  childArr :: "bf_node list"

definition block_of :: "bf_node list \<Rightarrow> bf_block option" where
  "block_of ns = (if ns = [] then None else Some ns)"

partial_function (option) inline_loop ::
  "pp_env \<Rightarrow> nat \<Rightarrow> inline_locals \<Rightarrow> bf_preproc \<Rightarrow> (bf_block option option \<times> bf_preproc) option" where
  "inline_loop e endx loc st = do {
     (r, st1) \<leftarrow> next_token_with e (HandleMarker e) (Some endx) True st;
     if r \<noteq> LexReturn then Some (None, st1)
     else if mSyntaxToken (pp_lex st1) = BfSyntaxToken_HIT_END_IDX
     then Some (Some (block_of (childArr loc)),
            on_lex (\<lambda>p. p\<lparr>mSrcIdx := usedEndIdx loc, mLineNum := usedLineNum loc, mLineStart := usedLineStart loc\<rparr>) st1)
     else (case CreateNode (pp_lex st1) of
             (None, p2) \<Rightarrow> Some (Some (block_of (childArr loc)), st1\<lparr>pp_lex := p2\<rparr>)
           | (Some n, p2) \<Rightarrow>
               inline_loop e endx
                 \<lparr>usedEndIdx = mSrcIdx (pp_lex st1), usedLineNum = mLineNum (pp_lex st1), usedLineStart = mLineStart (pp_lex st1),
                  childArr = childArr loc @ [n]\<rparr> (st1\<lparr>pp_lex := p2\<rparr>)) }"

declare inline_loop.simps [code]

definition ParseInlineBlock :: "pp_env \<Rightarrow> pp_inline" where
  "ParseInlineBlock e i endx st =
     (let st1 = set_idx i st
      in inline_loop e endx \<lparr>usedEndIdx = i, usedLineNum = mLineNum (pp_lex st1), usedLineStart = mLineStart (pp_lex st1), childArr = []\<rparr> st1)"

definition pp_next_token :: "pp_env \<Rightarrow> bf_preproc \<Rightarrow> (lex_outcome \<times> bf_preproc) option" where
  "pp_next_token e = next_token_with e (HandlePreprocessor e (ParseInlineBlock e)) None False"

section \<open>Files\<close>

text \<open>
  The tokens of a file, the way \<open>ParseBlock\<close> with \<open>mScanOnly\<close> goes through them, apart from its message for a
  second \<open>asm\<close>.
\<close>

partial_function (option) pp_scan :: "pp_env \<Rightarrow> bf_preproc \<Rightarrow> (bf_token_view list \<times> lex_outcome \<times> bf_preproc) option" where
  "pp_scan e st = do {
     (r, st1) \<leftarrow> pp_next_token e st;
     let p1 = pp_lex st1;
     if r \<noteq> LexReturn then Some ([], r, st1)
     else if mSyntaxToken p1 = BfSyntaxToken_EOF
     then Some ([], r, if in_ignored_section p1 then st1\<lparr>ignored_sections := ignored_sections st1 @ [(section_start st1, mSrcIdx p1)]\<rparr> else st1)
     else do { (ts, r2, st2) \<leftarrow> pp_scan e st1; Some (if in_ignored_section p1 then ts else token_view p1 # ts, r2, st2) } }"

declare pp_scan.simps [code]

text \<open>A parser with the macros and the dependencies of its project, and \<open>Parse\<close> of what it scans.\<close>

definition new_parser :: "bool \<Rightarrow> bool \<Rightarrow> bool \<Rightarrow> (string list \<times> string list) option \<Rightarrow> string \<Rightarrow> bf_preproc" where
  "new_parser compat_mode quick complete project data =
     \<lparr>pp_lex = SetSource compat_mode data, mQuickCompatMode = quick, mCompleteParse = complete, mDependencies = map_option snd project,
      mAddedDependsDefines = False,
      mPreprocessorDefines = (case project of
          Some (macros, _) \<Rightarrow> (\<lambda>name. if name \<in> set macros then Some BfDefineState_FromProject else None)
        | None \<Rightarrow> (\<lambda>_. None)),
      mDefines_Def = {}, mDefines_NoDef = {}, mPreprocessorNodeStack = [], section_start = 0, ignored_sections = [],
      mPreprocessorIgnoredSectionStarts = {}, mUnwarns = {}, mWarningEnabledChanges = [], preprocessor_nodes = []\<rparr>"

definition check_endif :: "bf_preproc \<Rightarrow> bf_preproc" where
  "check_endif st =
     (case mPreprocessorNodeStack st of
        [] \<Rightarrow> st
      | (n, _) # _ \<Rightarrow> if IsUnwarnedAt st (pn_start n) then st else WarnAt 0 ''No matching #endif found'' (pn_start n) st)"

definition Parse_tokens :: "pp_env \<Rightarrow> bf_preproc \<Rightarrow> (bf_token_view list \<times> lex_outcome \<times> bf_preproc) option" where
  "Parse_tokens e st = do { (ts, r, st1) \<leftarrow> pp_scan e st; Some (ts, r, check_endif st1) }"

end
