(* ===== verification/Bf_Preproc_Props.thy ===== *)
theory Bf_Preproc_Props
  imports Bf_Preproc Bf_Lexer_Props
begin

text \<open>
  The preprocessor always goes on: the conditions stay nested, no assertion of the code fails, and every
  token and every directive has a result.
\<close>

section \<open>Steps that leave the conditions alone\<close>

text \<open>What no directive changes of the lexer.\<close>

definition same_source :: "bf_parser \<Rightarrow> bf_parser \<Rightarrow> bool" where
  "same_source p p1 \<longleftrightarrow> mSrc p1 = mSrc p \<and> mSrcIdx p1 = mSrcIdx p \<and> mOrigSrcLength p1 = mOrigSrcLength p \<and> mJumpTable p1 = mJumpTable p \<and>
     mPendingSideNodes p1 = mPendingSideNodes p \<and> mCompatMode p1 = mCompatMode p \<and> mSyntaxToken p1 = mSyntaxToken p"

text \<open>The state of the conditions: depth, section and stack.\<close>

definition control :: "bf_preproc \<Rightarrow> int \<times> bool \<times> bool list" where
  "control st = (ignore_depth st, in_ignored_section (pp_lex st), map snd (mPreprocessorNodeStack st))"

definition modes_same :: "bf_preproc \<Rightarrow> bf_preproc \<Rightarrow> bool" where
  "modes_same st st1 \<longleftrightarrow> same_source (pp_lex st) (pp_lex st1) \<and> mQuickCompatMode st1 = mQuickCompatMode st \<and> mCompleteParse st1 = mCompleteParse st"

definition quiet :: "bf_preproc \<Rightarrow> bf_preproc \<Rightarrow> bool" where
  "quiet st st1 \<longleftrightarrow> modes_same st st1 \<and> control st1 = control st"

lemmas quiet_defs = quiet_def modes_same_def same_source_def control_def

named_theorems quiet_intros

lemma quiet_refl [simp, quiet_intros]: "quiet st st"
  by (simp add: quiet_defs)

lemma quiet_lex:
  "quiet st st1 \<Longrightarrow> quiet st (st1\<lparr>pp_lex := (pp_lex st1)\<lparr>p_errors := es\<rparr>\<rparr>)"
  "quiet st st1 \<Longrightarrow> quiet st (st1\<lparr>pp_lex := (pp_lex st1)\<lparr>p_warnings := ws\<rparr>\<rparr>)"
  by (simp_all add: quiet_defs)

lemma quiet_trans: "quiet st st1 \<Longrightarrow> quiet st1 st2 \<Longrightarrow> quiet st st2"
  by (simp add: quiet_defs)

lemma quiet_fail [quiet_intros]: "quiet st st1 \<Longrightarrow> quiet st (pp_fail msg i st1)"
  by (simp add: pp_fail_def on_lex_def FailAt_def quiet_lex)

lemma quiet_updates [quiet_intros]:
  "quiet st st1 \<Longrightarrow> quiet st (st1\<lparr>mPreprocessorDefines := m\<rparr>)" "quiet st st1 \<Longrightarrow> quiet st (st1\<lparr>mDefines_Def := ds\<rparr>)"
  "quiet st st1 \<Longrightarrow> quiet st (st1\<lparr>mDefines_NoDef := ds\<rparr>)" "quiet st st1 \<Longrightarrow> quiet st (st1\<lparr>mAddedDependsDefines := b\<rparr>)"
  "quiet st st1 \<Longrightarrow> quiet st (st1\<lparr>mUnwarns := us\<rparr>)" "quiet st st1 \<Longrightarrow> quiet st (st1\<lparr>mWarningEnabledChanges := cs\<rparr>)"
  "quiet st st1 \<Longrightarrow> quiet st (st1\<lparr>mPreprocessorIgnoredSectionStarts := is\<rparr>)"
  by (simp_all add: quiet_defs)

lemma quiet_IfDef [quiet_intros]: "quiet st st1 \<Longrightarrow> quiet st (snd (HandleIfDef name st1))"
  by (auto simp: HandleIfDef_def add_depends_def Let_def intro!: quiet_intros split: option.splits)

lemma quiet_Evaluate [quiet_intros]: "quiet st st1 \<Longrightarrow> quiet st (snd (EvaluatePreprocessor x st1))"
proof (induction x arbitrary: st1)
  case (BfBinaryOperatorExpression i bop l r)
  have l: "quiet st (snd (EvaluatePreprocessor l st1))" by (rule BfBinaryOperatorExpression.IH(1) [OF BfBinaryOperatorExpression.prems])
  from BfBinaryOperatorExpression.IH(2) [OF l] l BfBinaryOperatorExpression.prems show ?case
    by (auto simp: split_beta invalid_condition_def intro!: quiet_intros)
qed (auto simp: invalid_condition_def split_beta intro!: quiet_intros)

lemma quiet_Create: "quiet st st1 \<Longrightarrow> quiet st (snd (CreateInlineExpressionFromNode e b st1))"
  by (auto simp: CreateInlineExpressionFromNode_def split_beta Let_def on_lex_def intro!: quiet_intros quiet_lex split: list.splits)

lemma quiet_Condition [quiet_intros]: "quiet st st1 \<Longrightarrow> quiet st (snd (HandleProcessorCondition e b st1))"
  by (auto simp: HandleProcessorCondition_def split_beta Let_def intro!: quiet_intros quiet_Create split: option.splits)

lemma quiet_fold: "(\<And>x st1. quiet st st1 \<Longrightarrow> quiet st (f x st1)) \<Longrightarrow> quiet st st1 \<Longrightarrow> quiet st (fold f xs st1)"
  by (induction xs arbitrary: st1) simp_all

lemma quiet_number: "quiet st st1 \<Longrightarrow> quiet st (pragma_number e b n st1)"
  by (simp add: pragma_number_def Let_def set_change_def quiet_intros)

lemma quiet_Pragma:
  assumes "b \<noteq> []"
  shows "\<exists>st1. HandlePragma e b st = Some st1 \<and> quiet st st1"
proof -
  have f: "quiet st (fold (pragma_number e d) ns st1)" if "quiet st st1" for d ns st1
    by (rule quiet_fold [OF _ that]) (rule quiet_number)
  from assms obtain n ns where "b = n # ns" by (cases b) auto
  then show ?thesis
    by (auto simp: HandlePragma_def Let_def set_change_def intro!: quiet_intros f split: list.splits)
qed

lemma quiet_warn [quiet_intros]: "quiet st st1 \<Longrightarrow> quiet st (WarnAt n msg i st1)"
  by (simp add: WarnAt_def on_lex_def quiet_lex)

lemma quiet_plain:
  assumes "d_block d \<noteq> Some []"
  shows "\<exists>loc1 st1. plain_directive e d loc st = Some (loc1, st1) \<and> quiet st st1 \<and>
    addToPreprocessorAccept loc1 = addToPreprocessorAccept loc"
proof (cases "d_pragma d = ''pragma'' \<and> d_block d \<noteq> None")
  case True
  with assms obtain b where b: "d_block d = Some b" "b \<noteq> []" by auto
  from quiet_Pragma [OF b(2)] obtain st1 where "HandlePragma e b st = Some st1" "quiet st st1" by blast
  then show ?thesis using True b(1) by (simp add: plain_directive_def Let_def)
next
  case False
  then show ?thesis
    by (auto simp: plain_directive_def Let_def HandleDefine_def HandleUndefine_def intro!: quiet_intros split: option.splits)
qed

lemma quiet_ignored [quiet_intros]: "quiet st st1 \<Longrightarrow> quiet st (ignored_from_here st1)"
  by (simp add: ignored_from_here_def quiet_intros)

lemma quiet_if [quiet_intros]: "quiet st st1 \<Longrightarrow> quiet st (snd (if_condition e d st1))"
  by (simp add: if_condition_def split_beta Let_def quiet_intros)

lemma quiet_check [quiet_intros]: "quiet st st1 \<Longrightarrow> quiet st (check_params d loc st1)"
  by (auto simp: check_params_def Let_def intro!: quiet_intros split: option.splits)

section \<open>Conditions\<close>

text \<open>
  Nothing is ignored, and every condition that is open is in the branch that counts; or a condition inside
  of such ones is in a branch that is ignored.
\<close>

definition nested :: "int \<times> bool \<times> bool list \<Rightarrow> bool" where
  "nested c \<longleftrightarrow> (case c of (n, b, rs) \<Rightarrow>
     if n = 0 then \<not> b \<and> list_all id rs else n > 0 \<and> b \<and> rs \<noteq> [] \<and> list_all id (tl rs))"

definition nesting_ok :: "bf_preproc \<Rightarrow> bool" where
  "nesting_ok st \<longleftrightarrow> nested (control st) \<and> (ignore_depth st > 0 \<longrightarrow> \<not> mQuickCompatMode st \<and> \<not> mCompleteParse st)"

named_theorems control_simps

lemma control_depth [control_simps]: "control (set_depth n st) = (n, snd (control st))"
  by (simp add: control_def set_depth_def on_lex_def)

lemma control_resume [control_simps]: "control (resume i st) = (0, False, tl (snd (snd (control st))))"
  by (simp add: control_def resume_def end_section_def set_depth_def on_lex_def pop_node_def map_tl)

lemma control_pop [control_simps]: "control (pop_node st) = (fst (control st), fst (snd (control st)), tl (snd (snd (control st))))"
  by (simp add: control_def pop_node_def map_tl)

lemma control_add [control_simps]:
  "control (add_nodes d loc st) = (fst (control st), fst (control st) > 0 \<or> fst (snd (control st)),
     (if addToPreprocessorAccept loc then [addToPreprocessorAcceptResolved loc] else []) @ snd (snd (control st)))"
  by (simp add: control_def add_nodes_def Let_def on_lex_def push_node_def)

lemma control_depth_eq: "ignore_depth st = fst (control st)" "in_ignored_section (pp_lex st) = fst (snd (control st))"
  "mPreprocessorNodeStack st = [] \<longleftrightarrow> snd (snd (control st)) = []"
  "snd (snd (control st)) \<noteq> [] \<Longrightarrow> snd (hd (mPreprocessorNodeStack st)) = hd (snd (snd (control st)))"
  by (simp_all add: control_def hd_map)

lemma modes_trans: "modes_same st st1 \<Longrightarrow> modes_same st1 st2 \<Longrightarrow> modes_same st st2"
  by (simp add: modes_same_def same_source_def)

lemma modes_steps [simp]:
  "modes_same st (set_depth n st1) = modes_same st st1" "modes_same st (resume i st1) = modes_same st st1"
  "modes_same st (pop_node st1) = modes_same st st1" "modes_same st (add_nodes d loc st1) = modes_same st st1"
  by (simp_all add: modes_same_def same_source_def set_depth_def resume_def end_section_def pop_node_def add_nodes_def on_lex_def Let_def push_node_def)

lemma quiet_control: "quiet st st1 \<Longrightarrow> control st1 = control st" and quiet_modes: "quiet st st1 \<Longrightarrow> modes_same st st1"
  by (simp_all add: quiet_def)

text \<open>The effect of a directive on the conditions, in a section that is ignored and elsewhere.\<close>

definition condition_value :: "pp_env \<Rightarrow> pp_directive \<Rightarrow> bf_preproc \<Rightarrow> bool" where
  "condition_value e d st \<longleftrightarrow> fst (HandleProcessorCondition e (d_block d) st) \<noteq> MaybeBool_False"

definition compat_else_if :: "pp_directive \<Rightarrow> bf_preproc \<Rightarrow> bool" where
  "compat_else_if d st \<longleftrightarrow> mCompatMode (pp_lex st) \<and> (case d_block d of Some b \<Rightarrow> block_text st b = ''if'' | None \<Rightarrow> False)"

definition skipped_control :: "pp_env \<Rightarrow> pp_directive \<Rightarrow> bf_preproc \<Rightarrow> int \<times> bool \<times> bool list" where
  "skipped_control e d st =
     (let (n, b, rs) = control st; pragma = d_pragma d
      in if pragma = ''endif'' \<or> pragma = ''>>>'' then if n > 1 then (n - 1, b, rs) else (0, False, tl rs)
         else if at_if st pragma then (n + 1, b, rs)
         else if pragma = ''else''
         then if compat_else_if d st then if condition_value e d st then (0, False, tl rs) else (n, b, rs)
              else if n = 1 \<and> \<not> hd rs then (0, False, True # tl rs) else (n, b, rs)
         else if pragma = ''elif'' \<and> n = 1 \<and> \<not> hd rs \<and> condition_value e d st then (0, False, True # tl rs)
         else (n, b, rs))"

lemma run_skipped:
  assumes n: "nesting_ok st" "ignore_depth st > 0"
  shows "\<exists>st1. run_directive e d trivia st = Some st1 \<and> control st1 = skipped_control e d st \<and> modes_same st st1"
proof -
  obtain n b rs where c: "control st = (n, b, rs)" by (cases "control st")
  then have d: "n > 0" "b" "rs \<noteq> []" "ignore_depth st = n" "mPreprocessorNodeStack st \<noteq> []" "in_ignored_section (pp_lex st)"
    "awaits_branch st \<longleftrightarrow> n = 1 \<and> \<not> hd rs"
    using n control_depth_eq [of st] by (simp_all add: nesting_ok_def nested_def awaits_branch_def split: if_splits)
  obtain m st1 where m: "HandleProcessorCondition e (d_block d) st = (m, st1)" by (cases "HandleProcessorCondition e (d_block d) st")
  from quiet_Condition [OF quiet_refl, of st e "d_block d"] have "quiet st st1" by (simp add: m)
  then have st1: "control st1 = (n, b, rs)" "modes_same st st1" using quiet_control quiet_modes c by auto
  have q: "control (check_params d loc s) = control s" "modes_same st (check_params d loc s) = modes_same st s" for loc s
    using quiet_check [OF quiet_refl, of s d loc] by (auto simp: quiet_defs)
  have i: "control (ignored_from_here s) = control s" "modes_same st (ignored_from_here s) = modes_same st s" for s
    using quiet_ignored [OF quiet_refl, of s] by (auto simp: quiet_defs)
  have ms: "modes_same st st" using quiet_modes by simp
  note defs = run_directive_def skipped_directive_def skipped_control_def compat_else_if_def condition_value_def Let_def
  have depth: "ignore_depth (set_depth k s) = k" for k s by (simp add: set_depth_def on_lex_def)
  consider "d_pragma d = ''endif'' \<or> d_pragma d = ''>>>''" | "\<not> (d_pragma d = ''endif'' \<or> d_pragma d = ''>>>'')" by blast
  then show ?thesis
  proof cases
    case 1
    then show ?thesis using d c ms by (simp add: defs control_simps q depth pp_start_def)
  next
    case 2
    then show ?thesis using d c ms st1 m by (simp add: defs control_simps q i pp_start_def)
  qed
qed

definition active_control :: "pp_env \<Rightarrow> pp_directive \<Rightarrow> bf_preproc \<Rightarrow> int \<times> bool \<times> bool list" where
  "active_control e d st =
     (let (n, b, rs) = control st; pragma = d_pragma d; all_branches = (mQuickCompatMode st \<or> mCompleteParse st)
      in if at_if st pragma \<or> pragma = ''<<<''
         then if fst (if_condition e d st) \<or> all_branches then (0, False, True # rs) else (1, True, False # rs)
         else if pragma = ''else'' \<or> pragma = ''==='' \<or> pragma = ''elif''
         then if all_branches \<or> rs = [] then (0, False, rs) else (1, True, rs)
         else if pragma = ''endif'' then (0, False, tl rs)
         else (0, False, rs))"

lemma run_active:
  assumes n: "nesting_ok st" "ignore_depth st = 0" and b: "d_block d \<noteq> Some []"
  shows "\<exists>st1. run_directive e d trivia st = Some st1 \<and> control st1 = active_control e d st \<and> modes_same st st1"
proof -
  obtain n b rs where c: "control st = (n, b, rs)" by (cases "control st")
  then have d: "n = 0" "\<not> b" "list_all id rs" "ignore_depth st = n" "mPreprocessorNodeStack st = [] \<longleftrightarrow> rs = []"
    using n control_depth_eq [of st] by (simp_all add: nesting_ok_def nested_def split: if_splits)
  obtain f st1 where f: "if_condition e d st = (f, st1)" by (cases "if_condition e d st")
  from quiet_if [OF quiet_refl, of st e d] have "quiet st st1" by (simp add: f)
  then have st1: "control st1 = (n, b, rs)" "modes_same st st1" using quiet_control quiet_modes c by auto
  have q: "control (check_params d loc s) = control s" "modes_same st (check_params d loc s) = modes_same st s" for loc s
    using quiet_check [OF quiet_refl, of s d loc] by (auto simp: quiet_defs)
  have i: "control (ignored_from_here s) = control s" "modes_same st (ignored_from_here s) = modes_same st s" for s
    using quiet_ignored [OF quiet_refl, of s] by (auto simp: quiet_defs)
  have fl: "control (pp_fail msg k s) = control s" "modes_same st (pp_fail msg k s) = modes_same st s" for msg k s
    using quiet_fail [OF quiet_refl, of s msg k] by (auto simp: quiet_defs)
  have ms: "modes_same st st" using quiet_modes by simp
  from quiet_plain [OF b, of e "pp_start trivia" st] obtain loc2 st2 where
    p: "plain_directive e d (pp_start trivia) st = Some (loc2, st2)" "quiet st st2" "\<not> addToPreprocessorAccept loc2" by (auto simp: pp_start_def)
  then have st2: "control st2 = (n, b, rs)" "modes_same st st2" using quiet_control quiet_modes c by auto
  have bd: "branch_done msg d st = Some (if mQuickCompatMode st \<or> mCompleteParse st then st else if rs = [] then pp_fail msg (d_start d) st else set_depth 1 st)" for msg
    using d c by (cases "mPreprocessorNodeStack st") (auto simp: branch_done_def control_def)
  note defs = run_directive_def active_directive_def active_control_def Let_def
  show ?thesis
  proof (cases "at_if st (d_pragma d) \<or> d_pragma d = ''<<<''")
    case True
    then show ?thesis using d c ms st1 by (simp add: defs control_simps q i f pp_start_def)
  next
    case False
    then show ?thesis using d c ms st2 p by (simp add: defs control_simps q i fl bd pp_start_def)
  qed
qed

lemma skipped_nested:
  assumes "nested (control st)" "ignore_depth st > 0"
  shows "nested (skipped_control e d st)"
proof -
  obtain n b rs where c: "control st = (n, b, rs)" by (cases "control st")
  with assms control_depth_eq [of st] obtain r rs1 where "n > 0" "b" "rs = r # rs1" "list_all id rs1"
    by (cases rs) (auto simp: nested_def split: if_splits)
  then show ?thesis by (auto simp: skipped_control_def c nested_def Let_def)
qed

lemma active_nested:
  assumes "nested (control st)" "ignore_depth st = 0"
  shows "nested (active_control e d st)"
proof -
  obtain n b rs where c: "control st = (n, b, rs)" by (cases "control st")
  with assms control_depth_eq [of st] have "list_all id rs" by (auto simp: nested_def split: if_splits)
  then show ?thesis by (cases rs) (auto simp: active_control_def c nested_def Let_def)
qed

lemma active_modes: "ignore_depth st = 0 \<Longrightarrow> fst (active_control e d st) > 0 \<Longrightarrow> \<not> mQuickCompatMode st \<and> \<not> mCompleteParse st"
  by (auto simp: active_control_def Let_def split_beta split: if_splits)

lemma run_directive_total:
  assumes n: "nesting_ok st" and b: "d_block d \<noteq> Some []"
  shows "\<exists>st1. run_directive e d trivia st = Some st1 \<and> nesting_ok st1 \<and> modes_same st st1"
proof (cases "ignore_depth st > 0")
  case True
  from run_skipped [OF n True] obtain st1 where
    st1: "run_directive e d trivia st = Some st1" "control st1 = skipped_control e d st" "modes_same st st1" by blast
  have "nesting_ok st1" using n skipped_nested [OF _ True, of e d] st1(2,3) True by (simp add: nesting_ok_def modes_same_def)
  then show ?thesis using st1 by blast
next
  case False
  then have z: "ignore_depth st = 0" using n control_depth_eq(1) [of st] by (auto simp: nesting_ok_def nested_def split: prod.splits if_splits)
  from run_active [OF n z b] obtain st1 where
    st1: "run_directive e d trivia st = Some st1" "control st1 = active_control e d st" "modes_same st st1" by blast
  have "nesting_ok st1" using n active_nested [OF _ z, of e d] active_modes [OF z, of e d] st1(2,3) control_depth_eq(1) [of st1]
    by (simp add: nesting_ok_def modes_same_def)
  then show ?thesis using st1 by blast
qed

section \<open>Where directives start\<close>

definition directive_char :: "bool \<Rightarrow> char \<Rightarrow> bf_parser \<Rightarrow> bool" where
  "directive_char dis c p \<longleftrightarrow>
     c = CHR ''#'' \<and> \<not> dis \<or> (c = CHR ''<'' \<or> c = CHR ''='' \<or> c = CHR ''>'') \<and> \<not> declines_marker c (mSrcIdx p) p"

text \<open>A step that asks for the preprocessor does so where it started, and only if \<open>P\<close>.\<close>

definition only_if :: "bool \<Rightarrow> bf_parser \<Rightarrow> lex_step \<Rightarrow> bool" where
  "only_if P p R \<longleftrightarrow> (\<forall>q. R = Some (LexPreprocessor, q) \<longrightarrow> q = p \<and> P)"

lemma only_ret: "r \<noteq> LexPreprocessor \<Longrightarrow> only_if P p (Some (r, q))" and only_none: "only_if P p None" and only_self: "P \<Longrightarrow> only_if P p (Some (r, p))"
  and only_done: "only_if P p (done_tok t n q)"
  by (simp_all add: only_if_def done_tok_def)

lemma only_bind: "(\<And>x. only_if P p (f x)) \<Longrightarrow> only_if P p (m \<bind> f)"
  by (cases m) (simp_all add: only_if_def)

lemma only_cond: "(b \<Longrightarrow> only_if P p A) \<Longrightarrow> (\<not> b \<Longrightarrow> only_if P p B) \<Longrightarrow> only_if P p (if b then A else B)"
  by simp

lemma only_option: "only_if P p A \<Longrightarrow> (\<And>x. only_if P p (f x)) \<Longrightarrow> only_if P p (case v of None \<Rightarrow> A | Some x \<Rightarrow> f x)"
  and only_sum: "(\<And>x. only_if P p (f x)) \<Longrightarrow> (\<And>y. only_if P p (g y)) \<Longrightarrow> only_if P p (case s of Inl x \<Rightarrow> f x | Inr y \<Rightarrow> g y)"
  and only_prod: "(\<And>x y. only_if P p (h x y)) \<Longrightarrow> only_if P p (case z of (x, y) \<Rightarrow> h x y)"
  by (simp_all split: option.split sum.split prod.split)

lemmas only_intros = only_bind only_cond only_option only_sum only_prod only_ret only_none only_done

lemma only_symbols:
  "only_if P p (lex_bang q)" "only_if P p (lex_plus q)" "only_if P p (lex_op_equals t teq q)" "only_if P p (lex_ampersand q)" "only_if P p (lex_bar q)"
  "only_if P p (lex_question q)" "only_if P p (lex_dot q)" "only_if P p (lex_colon q)" "only_if P p (lex_minus q)" "only_if P p (lex_at q)" "only_if P p (lex_dollar q)"
  "only_if P p (lex_newline q)"
  unfolding lex_bang_def lex_plus_def lex_op_equals_def lex_ampersand_def lex_bar_def lex_question_def lex_dot_def lex_colon_def lex_minus_def lex_at_def
    lex_dollar_def lex_newline_def
  by (intro only_intros; simp)+

lemma only_words:
  "only_if P p (lex_slash dis q)" "only_if P p (lex_string loc c q)" "only_if P p (lex_number e pt c q)" "only_if P p (lex_word e loc c q)"
  unfolding lex_slash_def lex_line_comment_def lex_block_comment_def lex_string_def string_end_def lex_number_def lex_word_def lex_identifier_def Let_def
  by (intro only_intros; simp)+

lemma only_directives:
  "only_if (directive_char dis CHR ''='' p) p (lex_equals p)" "only_if (directive_char dis CHR ''<'' p) p (lex_less p)"
  "only_if (directive_char dis CHR ''>'' p) p (lex_greater p)" "only_if (directive_char dis CHR ''#'' p) p (lex_hash dis p)"
  unfolding lex_equals_def lex_less_def lex_greater_def lex_hash_def
  by (intro only_intros only_self; simp add: directive_char_def)+

lemma lex_char_directive:
  assumes "lex_char e dis pt loc c p = Some (LexPreprocessor, q)"
  shows "q = p \<and> directive_char dis c p"
proof -
  have "only_if (directive_char dis c p) p (lex_char e dis pt loc c p)"
    unfolding lex_char_def
    by (intro only_intros only_symbols only_words; (simp add: only_directives; fail)?; simp)
  then show ?thesis using assms by (simp add: only_if_def)
qed

lemma lex_round_directive:
  assumes "lex_round e endIdx outer dis pt loc p = Some (LexPreprocessor, loc1, q)"
  shows "q = char_read p \<and> directive_char dis (mSrc p ! mSrcIdx p) q \<and> loc1 = loc"
proof -
  have i: "lex_ignored loc c p1 \<noteq> Some (Some (LexPreprocessor, loc1, q))" for c p1
    by (auto simp: lex_ignored_def split: Option.bind_splits)
  from assms show ?thesis
    by (auto simp: lex_round_def Let_def i cur_def rd_def set_flags_def dest!: lex_char_directive split: Option.bind_splits if_splits option.splits prod.splits)
qed

text \<open>A round after which the loop goes on leaves the kind of the last token.\<close>

definition next_keeps :: "bf_parser \<Rightarrow> lex_step \<Rightarrow> bool" where
  "next_keeps p R \<longleftrightarrow> (\<forall>v i q. R = Some (LexNext v i, q) \<longrightarrow> mSyntaxToken q = mSyntaxToken p)"

lemma nk_ret: "(\<forall>v i. r \<noteq> LexNext v i) \<Longrightarrow> next_keeps p (Some (r, q))" and nk_same: "mSyntaxToken q = mSyntaxToken p \<Longrightarrow> next_keeps p (Some (r, q))"
  and nk_done: "next_keeps p (done_tok t n q)"
  by (simp_all add: next_keeps_def done_tok_def)

lemma nk_bind: "(\<And>x. m = Some x \<Longrightarrow> next_keeps p (f x)) \<Longrightarrow> next_keeps p (m \<bind> f)"
  by (cases m) (simp_all add: next_keeps_def)

lemma nk_cond: "(b \<Longrightarrow> next_keeps p A) \<Longrightarrow> (\<not> b \<Longrightarrow> next_keeps p B) \<Longrightarrow> next_keeps p (if b then A else B)"
  by simp

lemma nk_option: "(v = None \<Longrightarrow> next_keeps p A) \<Longrightarrow> (\<And>x. v = Some x \<Longrightarrow> next_keeps p (f x)) \<Longrightarrow> next_keeps p (case v of None \<Rightarrow> A | Some x \<Rightarrow> f x)"
  and nk_sum: "(\<And>x. next_keeps p (f x)) \<Longrightarrow> (\<And>y. next_keeps p (g y)) \<Longrightarrow> next_keeps p (case s of Inl x \<Rightarrow> f x | Inr y \<Rightarrow> g y)"
  and nk_prod: "(\<And>x y. z = (x, y) \<Longrightarrow> next_keeps p (h x y)) \<Longrightarrow> next_keeps p (case z of (x, y) \<Rightarrow> h x y)"
  by (simp_all split: option.split sum.split prod.split)

lemmas nk_intros = nk_bind nk_cond nk_option nk_sum nk_prod nk_ret nk_done

lemma kind_steps:
  "NewLine p = Some q \<Longrightarrow> mSyntaxToken q = mSyntaxToken p" "UnexpectedCharacter p = Some q \<Longrightarrow> mSyntaxToken q = mSyntaxToken p"
  "fold_comment k p = Some (Some q) \<Longrightarrow> mSyntaxToken q = mSyntaxToken p"
  by (auto simp: NewLine_def UnexpectedCharacter_def fold_comment_def FailAt_def Let_def split: if_splits Option.bind_splits)

lemma block_body:
  assumes "block_loop nest p = Some q"
  shows "do {
     c \<leftarrow> cur p 0;
     if c = chr_nl
     then do { p1 \<leftarrow> NewLine (adv 1 p); block_loop nest p1 }
     else if c = chr_nul then Some p
     else do {
       d \<leftarrow> cur p 1;
       if c = CHR ''*'' \<and> d = CHR ''/''
       then (if nest = 1 then Some (adv 2 p) else block_loop (nest - 1) (adv 2 p))
       else if \<not> mCompatMode p \<and> c = CHR ''/'' \<and> d = CHR ''*'' \<and> mSrc p ! (mSrcIdx p - 1) \<noteq> CHR ''/''
       then block_loop (nest + 1) (adv 2 p)
       else block_loop nest (adv 1 p) } } = Some q"
  using assms by (rule trans [OF block_loop.simps [symmetric]])

lemma block_loop_cases:
  assumes "block_loop nest p = Some q"
  obtains (line) p1 where "cur p 0 \<noteq> None" "NewLine (adv 1 p) = Some p1" "block_loop nest p1 = Some q"
    | (ends) n where "q = adv n p"
    | (inner) m n where "cur p 0 \<noteq> None" "n > 0" "block_loop m (adv n p) = Some q"
proof -
  have z: "p = adv 0 p" by (simp add: adv_def)
  note b = block_body [OF assms]
  obtain c where c: "cur p 0 = Some c" using b by (cases "cur p 0") simp_all
  note b1 = b [unfolded c Option.bind.simps]
  show thesis
  proof (cases "c = chr_nl")
    case True
    note b2 = b1 [unfolded if_P [OF True]]
    obtain p1 where p1: "NewLine (adv 1 p) = Some p1" using b2 by (cases "NewLine (adv 1 p)") simp_all
    show thesis by (rule line [OF _ p1]) (use b2 p1 c in simp_all)
  next
    case nl: False
    note b2 = b1 [unfolded if_not_P [OF nl]]
    show thesis
    proof (cases "c = chr_nul")
      case True
      then have "q = p" using b2 by simp
      then show thesis using z ends [of 0] by simp
    next
      case False
      note b3 = b2 [unfolded if_not_P [OF False]]
      obtain d where d: "cur p 1 = Some d" using b3 by (cases "cur p 1") simp_all
      have c0: "cur p 0 \<noteq> None" using c by simp
      from b3 [unfolded d Option.bind.simps] have "q = adv 2 p \<or> (\<exists>m. block_loop m (adv 2 p) = Some q) \<or> block_loop nest (adv 1 p) = Some q"
        by (auto split: if_split_asm)
      then show thesis by (elim disjE exE) (rule ends inner [OF c0 zero_less_numeral] inner [OF c0 zero_less_one], assumption)+
    qed
  qed
qed
lemma kind_block: "block_loop nest p = Some q \<Longrightarrow> mSyntaxToken q = mSyntaxToken p"
proof (induction "length (mSrc p) - mSrcIdx p" arbitrary: nest p rule: less_induct)
  case less
  from less.prems show ?case
  proof (cases rule: block_loop_cases)
    case (line p1)
    then have "length (mSrc p1) - mSrcIdx p1 < length (mSrc p) - mSrcIdx p"
      using NewLine_src [OF line(2)] by (auto simp: cur_def rd_def adv_def split: if_splits)
    from less.hyps [OF this line(3)] kind_steps(1) [OF line(2)] show ?thesis by (simp add: adv_def)
  next
    case (ends n)
    then show ?thesis by (simp add: adv_def)
  next
    case (inner m n)
    then have "length (mSrc (adv n p)) - mSrcIdx (adv n p) < length (mSrc p) - mSrcIdx p"
      by (auto simp: cur_def rd_def adv_def split: if_splits)
    from less.hyps [OF this inner(3)] show ?thesis by (simp add: adv_def)
  qed
qed

lemma nk_symbols:
  "next_keeps p (lex_bang q)" "next_keeps p (lex_plus q)" "next_keeps p (lex_op_equals t teq q)" "next_keeps p (lex_ampersand q)" "next_keeps p (lex_bar q)"
  "next_keeps p (lex_question q)" "next_keeps p (lex_dot q)" "next_keeps p (lex_colon q)" "next_keeps p (lex_minus q)" "next_keeps p (lex_equals q)"
  "next_keeps p (lex_less q)" "next_keeps p (lex_greater q)" "next_keeps p (lex_string loc c q)" "next_keeps p (lex_number e pt c q)"
  unfolding lex_bang_def lex_plus_def lex_op_equals_def lex_ampersand_def lex_bar_def lex_question_def lex_dot_def lex_colon_def lex_minus_def
    lex_equals_def lex_less_def lex_greater_def lex_string_def string_end_def lex_number_def Let_def
  by (intro nk_intros; simp)+

lemma nk_words:
  "next_keeps p (lex_at p)" "next_keeps p (lex_dollar p)" "next_keeps p (lex_newline p)" "next_keeps p (lex_hash dis p)"
  unfolding lex_at_def lex_dollar_def lex_newline_def lex_hash_def
  by ((intro nk_intros nk_same; simp add: Fail_ofs_def kind_steps)+)

lemma nk_slash: "next_keeps p (lex_slash dis p)"
  unfolding lex_slash_def lex_line_comment_def lex_block_comment_def Let_def
  by (intro nk_intros nk_same) (auto simp: add_comment_def adv_def dest!: kind_steps kind_block split: option.splits)

lemma kind_wide:
  "(if b then do { (cat, j) \<leftarrow> W; Some (starts_ident cat, p\<lparr>mSrcIdx := j\<rparr>) } else Some (False, p)) = Some (w, p1) \<Longrightarrow>
   mSyntaxToken p1 = mSyntaxToken p"
  by (auto split: Option.bind_splits if_splits)

lemma kind_error_node: "mSyntaxToken ((AddErrorNode i j p)\<lparr>mTriviaStart := k\<rparr>) = mSyntaxToken p"
  by (simp add: AddErrorNode_def)

lemma nk_word: "next_keeps p (lex_word e loc c p)"
proof -
  have "next_keeps p (lex_identifier e loc c p)"
    unfolding lex_identifier_def
    by (intro nk_bind nk_prod nk_cond) (simp_all only: nk_ret nk_same kind_steps(2) kind_error_node kind_wide lex_outcome.distinct simp_thms)
  then show ?thesis
    unfolding lex_word_def by (intro nk_intros nk_same) simp_all
qed

lemma lex_char_kind:
  assumes "lex_char e dis pt loc c p = Some (LexNext v i, q)"
  shows "mSyntaxToken q = mSyntaxToken p"
proof -
  have "next_keeps p (lex_char e dis pt loc c p)"
    unfolding lex_char_def by (intro nk_intros nk_symbols nk_words nk_slash nk_word nk_same; simp)
  then show ?thesis using assms by (simp add: next_keeps_def)
qed

lemma lex_round_kind:
  assumes "lex_round e endIdx outer dis pt loc p = Some (LexNext v i, loc1, q)"
  shows "mSyntaxToken q = mSyntaxToken p"
  using assms
  by (auto simp: lex_round_def Let_def lex_ignored_def dest!: lex_char_kind kind_steps split: Option.bind_splits if_splits option.splits prod.splits)

text \<open>At the terminator a round ends the loop.\<close>

lemma lex_round_end:
  assumes "lex_round e endIdx False dis pt loc p = Some (r, loc1, q)" "mSrc p ! mSrcIdx p = chr_nul"
  shows "r = LexReturn"
proof -
  have "lex_char e dis pt loc chr_nul p1 = Some (LexReturn, p1\<lparr>mSrcIdx := mSrcIdx p1 - 1, mSyntaxToken := BfSyntaxToken_EOF\<rparr>)" for p1
    by (simp add: lex_char_def)
  then show ?thesis using assms
    by (auto simp: lex_round_def Let_def lex_ignored_def cur_def rd_def split: Option.bind_splits if_splits option.splits prod.splits)
qed

section \<open>Directives have a result\<close>

text \<open>The lexer is in order, at the end of the source after its last token, and the conditions are nested.\<close>

definition eof_ok :: "bf_parser \<Rightarrow> bool" where
  "eof_ok p \<longleftrightarrow> (mSyntaxToken p = BfSyntaxToken_EOF \<longrightarrow> Suc (mSrcIdx p) = length (mSrc p))"

definition st_ok :: "bf_preproc \<Rightarrow> bool" where
  "st_ok st \<longleftrightarrow> parser_ok (pp_lex st) \<and> wide_ok (mSrc (pp_lex st)) \<and> eof_ok (pp_lex st) \<and> nesting_ok st"

text \<open>The parser is in order and has not gone back.\<close>

definition advanced :: "bf_preproc \<Rightarrow> bf_preproc \<Rightarrow> bool" where
  "advanced st st1 \<longleftrightarrow> st_ok st1 \<and> mSrc (pp_lex st1) = mSrc (pp_lex st) \<and> mSrcIdx (pp_lex st) \<le> mSrcIdx (pp_lex st1)"

lemma advanced_refl: "st_ok st \<Longrightarrow> advanced st st"
  by (simp add: advanced_def)

lemma advanced_trans: "advanced st st1 \<Longrightarrow> advanced st1 st2 \<Longrightarrow> advanced st st2"
  by (auto simp: advanced_def)

lemma same_source_ok: "parser_ok p \<Longrightarrow> same_source p p1 \<Longrightarrow> parser_ok p1"
  by (simp add: parser_ok_def same_source_def)

lemma run_directive_ok:
  assumes "st_ok st" "d_block d \<noteq> Some []"
  shows "\<exists>st1. run_directive e d trivia st = Some st1 \<and> advanced st st1"
proof -
  from run_directive_total [of st d e trivia] assms obtain st1 where
    "run_directive e d trivia st = Some st1" "nesting_ok st1" "modes_same st st1" by (auto simp: st_ok_def)
  then show ?thesis using assms(1) same_source_ok [of "pp_lex st" "pp_lex st1"]
    by (auto simp: advanced_def st_ok_def modes_same_def eof_ok_def) (auto simp: same_source_def)
qed

lemma st_ok_fail: "st_ok (pp_fail msg i st) = st_ok st" "pp_lex (pp_fail msg i st) = FailAt msg i (pp_lex st)"
  by (simp_all add: st_ok_def pp_fail_def on_lex_def FailAt_def parser_ok_def nesting_ok_def control_def eof_ok_def)

lemma st_ok_idx: "st_ok st \<Longrightarrow> mSyntaxToken (pp_lex st) \<noteq> BfSyntaxToken_EOF \<Longrightarrow> i < length (mSrc (pp_lex st)) \<Longrightarrow> st_ok (set_idx i st)"
  and lex_set_idx [simp]: "pp_lex (set_idx i st) = (pp_lex st)\<lparr>mSrcIdx := i\<rparr>"
  by (simp_all add: st_ok_def set_idx_def on_lex_def parser_ok_def nesting_ok_def control_def eof_ok_def)

lemma not_blank: "\<not> IsWhitespaceOrPunctuation c \<Longrightarrow> \<not> IsWhitespace c"
  by (auto simp: IsWhitespaceOrPunctuation_def IsWhitespace_def)

text \<open>Where the parts of a directive lie, when the scan goes from \<open>i\<close> to \<open>j\<close>.\<close>

definition parts_ok :: "string \<Rightarrow> nat \<Rightarrow> nat \<Rightarrow> nat option \<Rightarrow> nat option \<Rightarrow> nat option \<Rightarrow> nat option \<Rightarrow> bool" where
  "parts_ok s i j c0 c1 s0 s1 \<longleftrightarrow>
     (case c0 of Some k \<Rightarrow> c1 = Some k | None \<Rightarrow> (\<forall>k. c1 = Some k \<longrightarrow> i \<le> k \<and> k < j \<and> \<not> IsWhitespace (s ! k))) \<and>
     (case s0 of Some k \<Rightarrow> s1 = Some k | None \<Rightarrow> (\<forall>k. s1 = Some k \<longrightarrow> i \<le> k \<and> k < j))"

lemma directive_scan_total:
  assumes ok: "src_ok s"
  shows "i < length s \<Longrightarrow> \<exists>j c1 s1. directive_scan s start m i c0 s0 = Some (j, c1, s1) \<and> i \<le> j \<and> j < length s \<and> parts_ok s i j c0 c1 s0 s1"
proof (induction "length s - i" arbitrary: i c0 s0 rule: less_induct)
  case less
  let ?c = "s ! i"
  have rd: "rd s i = Some ?c" using less.prems by (simp add: rd_def)
  consider "?c = chr_nul" | "?c = chr_nl" "\<not> is_continued s start i" | "?c \<noteq> chr_nul" "\<not> (?c = chr_nl \<and> \<not> is_continued s start i)" by blast
  then show ?case
  proof cases
    case 1
    then show ?thesis using rd less.prems by (subst directive_scan.simps) (auto simp: parts_ok_def split: option.splits)
  next
    case 2
    then show ?thesis using rd src_ok_step [OF ok less.prems]
      by (subst directive_scan.simps) (auto simp: parts_ok_def split: option.splits)
  next
    case 3
    let ?c1 = "if c0 = None then (if if m then \<not> IsWhitespace ?c else \<not> IsWhitespaceOrPunctuation ?c then Some i else None) else c0"
    let ?s1 = "if c0 = None then s0 else (if IsWhitespaceOrPunctuation ?c \<and> s0 = None then Some i else s0)"
    have n: "Suc i < length s" using src_ok_step [OF ok less.prems 3(1)] .
    have eq: "directive_scan s start m i c0 s0 = directive_scan s start m (Suc i) ?c1 ?s1"
      using 3 rd by (subst directive_scan.simps) auto
    have "length s - Suc i < length s - i" using less.prems by simp
    from less.hyps [OF this n, of ?c1 ?s1] obtain j c2 s2 where
      j: "directive_scan s start m (Suc i) ?c1 ?s1 = Some (j, c2, s2)" "Suc i \<le> j" "j < length s" "parts_ok s (Suc i) j ?c1 c2 ?s1 s2" by blast
    have "parts_ok s i j c0 c2 s0 s2" using j(2,4) not_blank [of ?c] by (auto simp: parts_ok_def split: option.splits if_splits)
    then show ?thesis unfolding eq using j by auto
  qed
qed

lemma trim_end_bounds: "start \<le> k \<Longrightarrow> k < j \<Longrightarrow> \<not> IsWhitespace (s ! k) \<Longrightarrow> k < trim_end s start j \<and> trim_end s start j \<le> j"
proof (induction j)
  case (Suc j)
  then show ?case by (cases "k = j") auto
qed simp

definition inline_good :: "pp_inline \<Rightarrow> bool" where
  "inline_good inline \<longleftrightarrow> (\<forall>sp endx st. st_ok st \<longrightarrow> mSyntaxToken (pp_lex st) \<noteq> BfSyntaxToken_EOF \<longrightarrow> sp < length (mSrc (pp_lex st)) \<longrightarrow>
     (\<exists>b st1. inline sp endx st = Some (b, st1) \<and> b \<noteq> Some (Some []) \<and> (b \<noteq> None \<longrightarrow> advanced (set_idx sp st) st1)))"

definition handler_good :: "bool \<Rightarrow> (bf_preproc \<Rightarrow> pp_step) \<Rightarrow> bool" where
  "handler_good dis h \<longleftrightarrow> (\<forall>st. st_ok st \<longrightarrow> mSyntaxToken (pp_lex st) \<noteq> BfSyntaxToken_EOF \<longrightarrow> mSrcIdx (pp_lex st) > 0 \<longrightarrow>
     directive_char dis (mSrc (pp_lex st) ! (mSrcIdx (pp_lex st) - 1)) (pp_lex st) \<longrightarrow>
     (\<exists>r st1. h st = Some (r, st1) \<and> (r = PPReturn True \<and> advanced st st1 \<or> r = PPInterpolate)))"

lemma find_None: "find P xs = None \<longleftrightarrow> \<not> list_ex P xs"
  by (induction xs) auto

lemma param_directive_ok:
  assumes "st_ok st" "mSyntaxToken (pp_lex st) \<noteq> BfSyntaxToken_EOF" "sp < length (mSrc (pp_lex st))" "inline_good inline"
  shows "\<exists>r st1. param_directive e inline trivia start ci sp endx st = Some (r, st1) \<and>
    (r = PPReturn True \<and> advanced (set_idx sp st) st1 \<or> r = PPInterpolate)"
proof -
  from assms obtain b st1 where b: "inline sp endx st = Some (b, st1)" "b \<noteq> Some (Some [])" "b \<noteq> None \<longrightarrow> advanced (set_idx sp st) st1"
    unfolding inline_good_def by blast
  show ?thesis
  proof (cases b)
    case None
    then show ?thesis using b by (simp add: param_directive_def Let_def)
  next
    case (Some blk)
    let ?d = "\<lparr>d_pragma = src_text (mSrc (pp_lex st)) ci sp, d_param = dropWhile isspace (src_text (mSrc (pp_lex st)) sp endx), d_block = blk,
      d_start = start, d_name = ci\<rparr>"
    have "st_ok st1" using b(3) Some by (simp add: advanced_def)
    from run_directive_ok [OF this, of ?d e trivia] b(2) Some obtain st2 where
      "run_directive e ?d trivia st1 = Some st2" "advanced st1 st2" by auto
    then show ?thesis using b(1,3) Some advanced_trans by (fastforce simp: param_directive_def Let_def)
  qed
qed

lemma HandlePreprocessor_good:
  assumes inl: "dis \<or> inline_good inline"
  shows "handler_good dis (HandlePreprocessor e inline)"
  unfolding handler_good_def
proof (intro allI impI)
  fix st :: bf_preproc
  let ?p = "pp_lex st" let ?s = "mSrc ?p" let ?start = "mSrcIdx ?p - 1" let ?c = "?s ! ?start"
  let ?lead = "find (\<lambda>i. \<not> isspace (?s ! i)) [mLineStart ?p ..< ?start]"
  assume ok: "st_ok st" and ne: "mSyntaxToken ?p \<noteq> BfSyntaxToken_EOF" and pos: "mSrcIdx ?p > 0" and dc: "directive_char dis ?c ?p"
  have src: "src_ok ?s" "mSrcIdx ?p < length ?s" using ok by (simp_all add: st_ok_def parser_ok_def)
  have go: "\<not> (ignore_depth st = 0 \<and> ?lead \<noteq> None \<and> ?c \<noteq> CHR ''#'')"
    "\<not> ((?c = CHR ''<'' \<or> ?c = CHR ''='') \<and> ignore_depth st > 0 \<or> ?c = CHR ''>'' \<and> ignore_depth st > 1)"
    using dc by (auto simp: directive_char_def declines_marker_def find_None)
  define st1 where "st1 = (case ?lead of
      Some i \<Rightarrow> if ignore_depth st = 0 then pp_fail ''Preprocessor directives must appear as the first non-whitespace character on a line'' i st else st
    | None \<Rightarrow> st)"
  have st1: "st_ok st1" "mSrc (pp_lex st1) = ?s" "mSrcIdx (pp_lex st1) = mSrcIdx ?p" "mSyntaxToken (pp_lex st1) \<noteq> BfSyntaxToken_EOF"
    using ok ne by (auto simp: st1_def st_ok_fail FailAt_def split: option.splits)
  have unmarked: "marker_name ?c = [] \<longleftrightarrow> ?c = CHR ''#''" using dc by (auto simp: directive_char_def marker_name_def)
  from directive_scan_total [OF src, of ?start "marker_name ?c \<noteq> []" None None] obtain j ci sp where
    j: "directive_scan ?s ?start (marker_name ?c \<noteq> []) (mSrcIdx ?p) None None = Some (j, ci, sp)" "mSrcIdx ?p \<le> j" "j < length ?s"
      "parts_ok ?s (mSrcIdx ?p) j None ci None sp" by blast
  let ?st2 = "set_idx j st1"
  let ?endx = "trim_end ?s ?start j"
  let ?d = "\<lambda>pragma ci. \<lparr>d_pragma = pragma, d_param = [], d_block = None, d_start = ?start, d_name = ci\<rparr>"
  have eq: "HandlePreprocessor e inline st = (case ci of
      None \<Rightarrow> Some (PPReturn True, pp_fail ''Preprocessor directive expected'' ?start ?st2)
    | Some ci \<Rightarrow>
        if marker_name ?c \<noteq> []
        then do { st3 \<leftarrow> run_directive e (?d (marker_name ?c) ci) (mTriviaStart ?p) (set_idx (j - 1) ?st2); Some (PPReturn True, st3) }
        else (case sp of
                Some sp \<Rightarrow> param_directive e inline (mTriviaStart ?p) ?start ci sp ?endx ?st2
              | None \<Rightarrow> do { st3 \<leftarrow> run_directive e (?d (src_text ?s ci ?endx) ci) (mTriviaStart ?p) (set_idx ?endx ?st2); Some (PPReturn True, st3) }))"
    unfolding HandlePreprocessor_def Let_def st1_def [symmetric] by (simp only: go if_False j(1) Option.bind.simps prod.case)
  have st2: "st_ok ?st2" by (rule st_ok_idx [OF st1(1,4)]) (simp add: st1 j)
  have run: "\<exists>st3. run_directive e (?d pragma ci) tr (set_idx k ?st2) = Some st3 \<and> advanced st st3"
    if "mSrcIdx ?p \<le> k" "k < length ?s" for pragma ci tr k
  proof -
    have "st_ok (set_idx k ?st2)" by (rule st_ok_idx [OF st2]) (simp_all add: st1 that)
    from run_directive_ok [OF this, of "?d pragma ci" e tr] obtain st3 where
      "run_directive e (?d pragma ci) tr (set_idx k ?st2) = Some st3" "advanced (set_idx k ?st2) st3" by auto
    then show ?thesis using that by (auto simp: advanced_def st1)
  qed
  show "\<exists>r st1. HandlePreprocessor e inline st = Some (r, st1) \<and> (r = PPReturn True \<and> advanced st st1 \<or> r = PPInterpolate)"
  proof (cases ci)
    case None
    then show ?thesis unfolding eq using st2 j(2) by (simp add: advanced_def st_ok_fail FailAt_def st1)
  next
    case (Some k)
    then have k: "mSrcIdx ?p \<le> k" "k < j" "\<not> IsWhitespace (?s ! k)" using j(4) by (auto simp: parts_ok_def)
    show ?thesis
    proof (cases "marker_name ?c = []")
      case False
      have "mSrcIdx ?p \<le> j - 1" "j - 1 < length ?s" using k j(3) by linarith+
      from run [OF this] obtain st3 where
        "run_directive e (?d (marker_name ?c) k) (mTriviaStart ?p) (set_idx (j - 1) ?st2) = Some st3" "advanced st st3" by blast
      then show ?thesis unfolding eq using Some False by simp
    next
      case True
      have te: "k < ?endx" "?endx \<le> j" using trim_end_bounds [of ?start k j ?s] k pos by auto
      show ?thesis
      proof (cases sp)
        case N: None
        from run [of ?endx "src_text ?s k ?endx" k "mTriviaStart ?p"] k j te obtain st3 where
          "run_directive e (?d (src_text ?s k ?endx) k) (mTriviaStart ?p) (set_idx ?endx ?st2) = Some st3" "advanced st st3" by auto
        then show ?thesis unfolding eq using Some True N by simp
      next
        case S: (Some l)
        have l: "mSrcIdx ?p \<le> l" "l < j" using j(4) S by (auto simp: parts_ok_def)
        have "\<not> dis" using dc True unmarked by (auto simp: directive_char_def)
        then have "inline_good inline" using inl by simp
        from param_directive_ok [OF st2 _ _ this, of l e "mTriviaStart ?p" ?start k ?endx] l j st1 obtain r st3 where
          r: "param_directive e inline (mTriviaStart ?p) ?start k l ?endx ?st2 = Some (r, st3)"
          "r = PPReturn True \<and> advanced (set_idx l ?st2) st3 \<or> r = PPInterpolate" by auto
        have "r = PPReturn True \<and> advanced st st3 \<or> r = PPInterpolate" using r(2) l(1) by (auto simp: advanced_def st1)
        then show ?thesis unfolding eq using Some True S r by simp
      qed
    qed
  qed
qed

section \<open>Tokens\<close>

definition pp_token_ok :: "nat option \<Rightarrow> nat \<Rightarrow> bf_preproc \<Rightarrow> lex_outcome \<Rightarrow> bf_preproc \<Rightarrow> bool" where
  "pp_token_ok endIdx lo st r st1 \<longleftrightarrow> (r = LexReturn \<or> r = LexInterpolate) \<and>
     (r = LexReturn \<longrightarrow> advanced st st1 \<and> (let p1 = pp_lex st1 in
        mSyntaxToken p1 = BfSyntaxToken_EOF \<or> mSyntaxToken p1 = BfSyntaxToken_HIT_END_IDX \<and> endIdx \<noteq> None \<or>
        mSyntaxToken p1 \<in> node_tokens \<and> lo \<le> mTokenStart p1 \<and> mTokenStart p1 < mTokenEnd p1 \<and> mTokenEnd p1 = mSrcIdx p1 \<and>
          mSrcIdx (pp_lex st) < mSrcIdx p1))"

lemma pp_token_later: "pp_token_ok endIdx lo st1 r st2 \<Longrightarrow> advanced st st1 \<Longrightarrow> pp_token_ok endIdx lo st r st2"
  using advanced_trans [of st st1 st2] by (auto simp: pp_token_ok_def Let_def) (auto simp: advanced_def)

lemma nesting_lex: "same_pp (pp_lex st) p1 \<Longrightarrow> nesting_ok (st\<lparr>pp_lex := p1\<rparr>) = nesting_ok st"
  by (simp add: nesting_ok_def control_def same_pp_def)

lemma skip_ok_wide: "wide_ok (mSrc p) \<Longrightarrow> skip_ok p"
  by (simp add: skip_ok_def)

lemma token_loop_total:
  assumes e: "char_category (tok_env e) 0 = CAT_CC" and h: "handler_good dis h"
  shows "st_ok st \<Longrightarrow> lo \<le> mSrcIdx (pp_lex st) \<Longrightarrow> locals_ok lo (pp_lex st) loc \<Longrightarrow>
    \<exists>r st1. token_loop e h endIdx False dis pt loc st = Some (r, st1) \<and> pp_token_ok endIdx lo st r st1"
proof (induction "length (mSrc (pp_lex st)) - mSrcIdx (pp_lex st)" arbitrary: st loc rule: less_induct)
  case less
  let ?p = "pp_lex st"
  have ok: "parser_ok ?p" "skip_ok ?p" using less.prems(1) by (simp_all add: st_ok_def skip_ok_wide)
  from lex_round_ok [OF ok e less.prems(2,3), of endIdx dis pt] obtain r loc1 p1 where
    r: "lex_round (tok_env e) endIdx False dis pt loc ?p = Some (r, loc1, p1)" "round_ok endIdx lo ?p r loc1 p1" by blast
  have p1: "parser_ok p1" "mSrc p1 = mSrc ?p" "same_pp ?p p1" "mSrcIdx ?p \<le> mSrcIdx p1" using r(2) by (simp_all add: round_ok_def)
  let ?st1 = "st\<lparr>pp_lex := p1\<rparr>"
  have adv: "advanced st ?st1" if "eof_ok p1"
    using that less.prems(1) p1 by (simp add: advanced_def st_ok_def nesting_lex)
  have room: "length (mSrc (pp_lex st2)) - mSrcIdx (pp_lex st2) < length (mSrc ?p) - mSrcIdx ?p"
    if "advanced ?st1 st2" "mSrcIdx ?p < mSrcIdx p1" for st2
    using that ok(1) p1(2) by (auto simp: advanced_def parser_ok_def)
  have ne: "mSyntaxToken ?p \<noteq> BfSyntaxToken_EOF" if "r \<noteq> LexReturn"
  proof
    assume "mSyntaxToken ?p = BfSyntaxToken_EOF"
    then have "Suc (mSrcIdx ?p) = length (mSrc ?p)" using less.prems(1) by (simp add: st_ok_def eof_ok_def)
    then have "mSrcIdx ?p = length (mSrc ?p) - 1" by simp
    then have "mSrc ?p ! mSrcIdx ?p = chr_nul" using ok(1) by (simp add: parser_ok_def src_ok_def)
    from lex_round_end [OF r(1) this] that show False by simp
  qed
  have again: "\<exists>q st3. token_loop e h endIdx False dis pt loc1 st2 = Some (q, st3) \<and> pp_token_ok endIdx lo st q st3"
    if a: "advanced ?st1 st2" "advanced st ?st1" and l: "mSrcIdx ?p < mSrcIdx p1" "locals_ok lo p1 loc1" for st2
  proof -
    have lo: "lo \<le> mSrcIdx (pp_lex st2)" "locals_ok lo (pp_lex st2) loc1" "st_ok st2"
      using a l less.prems(2) by (force simp: advanced_def locals_ok_def)+
    from less.hyps [OF room [OF a(1) l(1)] lo(3,1,2)] obtain q st3 where
      "token_loop e h endIdx False dis pt loc1 st2 = Some (q, st3)" "pp_token_ok endIdx lo st2 q st3" by blast
    then show ?thesis using pp_token_later advanced_trans a by blast
  qed
  show ?case
  proof (cases r)
    case LexReturn
    have "eof_ok p1" using r(2) LexReturn p1(2) by (simp add: round_ok_def eof_ok_def split: if_splits)
    then have "pp_token_ok endIdx lo st r ?st1" using adv r(2) LexReturn by (auto simp: pp_token_ok_def round_ok_def Let_def split: if_splits)
    then show ?thesis using r(1) LexReturn by (subst token_loop.simps) (simp add: Let_def)
  next
    case (LexNext v i)
    then have k: "eof_ok p1" using lex_round_kind r(1) ne by (simp add: eof_ok_def)
    have "mSrcIdx ?p < mSrcIdx p1" "locals_ok lo p1 loc1" using r(2) LexNext by (simp_all add: round_ok_def)
    from again [OF _ adv [OF k] this, of ?st1] adv [OF k] show ?thesis
      using r(1) LexNext by (subst token_loop.simps) (simp add: Let_def advanced_def)
  next
    case LexPreprocessor
    note d = lex_round_directive [OF r(1) [unfolded LexPreprocessor], THEN conjunct1]
      lex_round_directive [OF r(1) [unfolded LexPreprocessor], THEN conjunct2, THEN conjunct1]
      lex_round_directive [OF r(1) [unfolded LexPreprocessor], THEN conjunct2, THEN conjunct2]
    have ne1: "mSyntaxToken p1 \<noteq> BfSyntaxToken_EOF" using ne LexPreprocessor d(1) by simp
    then have k: "eof_ok p1" by (simp add: eof_ok_def)
    have l: "mSrcIdx ?p < mSrcIdx p1" "locals_ok lo p1 loc1" using d less.prems(3) by (auto simp: locals_ok_def)
    have "st_ok ?st1" using adv [OF k] by (simp add: advanced_def)
    moreover have "mSrcIdx p1 > 0" "directive_char dis (mSrc p1 ! (mSrcIdx p1 - 1)) p1" using d(2) unfolding d(1) by simp_all
    ultimately obtain q st2 where
      q: "h ?st1 = Some (q, st2)" "q = PPReturn True \<and> advanced ?st1 st2 \<or> q = PPInterpolate"
      using h [unfolded handler_good_def, rule_format, of ?st1] ne1 by auto
    show ?thesis
    proof (cases q)
      case PPInterpolate
      have "pp_token_ok endIdx lo st LexInterpolate st2" by (simp add: pp_token_ok_def)
      then show ?thesis using r(1) LexPreprocessor q(1) PPInterpolate by (subst token_loop.simps) (simp add: Let_def)
    next
      case (PPReturn b)
      then have b: "b" and q3: "advanced ?st1 st2" using q(2) by simp_all
      show ?thesis
      proof (cases "mSrc p1 ! (mSrcIdx p1 - 1) = CHR ''#'' \<and> mSyntaxToken (pp_lex st2) = BfSyntaxToken_EOF")
        case True
        have "pp_token_ok endIdx lo st LexReturn st2" using advanced_trans [OF adv [OF k] q3] True by (simp add: pp_token_ok_def)
        then show ?thesis using r(1) LexPreprocessor q(1) PPReturn b True by (subst token_loop.simps) (simp add: Let_def)
      next
        case False
        from again [OF q3 adv [OF k] l] show ?thesis
          using r(1) LexPreprocessor q(1) PPReturn b False by (subst token_loop.simps) (simp only: Let_def Option.bind.simps prod.case lex_outcome.case pp_outcome.case if_False simp_thms)
      qed
    qed
  next
    case LexInterpolate
    then show ?thesis using r(1) by (subst token_loop.simps) (simp add: Let_def pp_token_ok_def)
  qed
qed

lemma next_token_total:
  assumes e: "char_category (tok_env e) 0 = CAT_CC" and h: "handler_good dis h" and ok: "st_ok st"
  shows "\<exists>r st1. next_token_with e h endIdx dis st = Some (r, st1) \<and> pp_token_ok endIdx (mSrcIdx (pp_lex st)) st r st1"
proof -
  let ?p = "token_start (pp_lex st)"
  have p: "mSrc ?p = mSrc (pp_lex st)" "mSrcIdx ?p = mSrcIdx (pp_lex st)" "same_pp (pp_lex st) ?p" "mSyntaxToken ?p = mSyntaxToken (pp_lex st)"
    "parser_ok ?p = parser_ok (pp_lex st)"
    by (simp_all add: token_start_def Let_def Fail_ofs_def same_pp_def parser_ok_def)
  have ok1: "st_ok (on_lex token_start st)" using ok p nesting_lex [OF p(3)] by (simp add: st_ok_def on_lex_def eof_ok_def)
  have "locals_ok (mSrcIdx (pp_lex st)) ?p lex_start" by (simp add: locals_ok_def lex_start_def)
  from token_loop_total [OF e h ok1, of "mSrcIdx (pp_lex st)" lex_start endIdx "mToken (pp_lex st)"] this p obtain r st1 where
    r: "token_loop e h endIdx False dis (mToken (pp_lex st)) lex_start (on_lex token_start st) = Some (r, st1)"
      "pp_token_ok endIdx (mSrcIdx (pp_lex st)) (on_lex token_start st) r st1" by (auto simp: on_lex_def)
  have "advanced st (on_lex token_start st)" using ok1 p by (simp add: advanced_def on_lex_def)
  then show ?thesis using r pp_token_later unfolding next_token_with_def by blast
qed

lemma CreateNode_node: "mSyntaxToken p \<in> node_tokens \<Longrightarrow> \<exists>n q. CreateNode p = (Some n, q)"
  by (auto simp: CreateNode_def node_tokens_def)

lemma CreateNode_ok:
  assumes "st_ok st" "CreateNode (pp_lex st) = (n, q)"
  shows "st_ok (st\<lparr>pp_lex := q\<rparr>) \<and> mSrc q = mSrc (pp_lex st) \<and> mSrcIdx q = mSrcIdx (pp_lex st)"
  using assms
  by (auto simp: CreateNode_def st_ok_def parser_ok_def eof_ok_def nesting_ok_def control_def split: bf_syntax_token.splits)

text \<open>The block of a directive; positions only go up.\<close>

lemma inline_loop_total:
  assumes e: "char_category (tok_env e) 0 = CAT_CC"
  shows "st_ok st \<Longrightarrow> i0 \<le> usedEndIdx loc \<Longrightarrow> usedEndIdx loc \<le> mSrcIdx (pp_lex st) \<Longrightarrow>
    \<exists>b st1. inline_loop e endx loc st = Some (b, st1) \<and> b \<noteq> Some (Some []) \<and>
      (b \<noteq> None \<longrightarrow> st_ok st1 \<and> mSrc (pp_lex st1) = mSrc (pp_lex st) \<and> i0 \<le> mSrcIdx (pp_lex st1))"
proof (induction "length (mSrc (pp_lex st)) - mSrcIdx (pp_lex st)" arbitrary: st loc rule: less_induct)
  case less
  have hm: "handler_good True (HandleMarker e)" unfolding HandleMarker_def by (rule HandlePreprocessor_good) simp
  from next_token_total [OF e hm less.prems(1), of "Some endx"] obtain r st1 where
    r: "next_token_with e (HandleMarker e) (Some endx) True st = Some (r, st1)" "pp_token_ok (Some endx) (mSrcIdx (pp_lex st)) st r st1" by blast
  show ?case
  proof (cases "r = LexReturn")
    case False
    then show ?thesis using r(1) by (subst inline_loop.simps) simp
  next
    case True
    let ?p1 = "pp_lex st1"
    have a: "advanced st st1" using r(2) True by (simp add: pp_token_ok_def)
    then have a1: "st_ok st1" "mSrc ?p1 = mSrc (pp_lex st)" "mSrcIdx (pp_lex st) \<le> mSrcIdx ?p1" "mSrcIdx (pp_lex st) < length (mSrc (pp_lex st))"
      using less.prems(1) by (auto simp: advanced_def st_ok_def parser_ok_def)
    have blk: "block_of (childArr loc) \<noteq> Some []" by (simp add: block_of_def)
    show ?thesis
    proof (cases "mSyntaxToken ?p1 = BfSyntaxToken_HIT_END_IDX")
      case hit: True
      let ?st2 = "on_lex (\<lambda>p. p\<lparr>mSrcIdx := usedEndIdx loc, mLineNum := usedLineNum loc, mLineStart := usedLineStart loc\<rparr>) st1"
      have "st_ok ?st2" using a1 hit less.prems(3)
        by (simp add: st_ok_def on_lex_def parser_ok_def eof_ok_def nesting_ok_def control_def)
      then show ?thesis using r(1) True hit blk less.prems(2) a1(2) by (subst inline_loop.simps) (simp add: on_lex_def)
    next
      case nohit: False
      obtain n q where n: "CreateNode ?p1 = (n, q)" by (cases "CreateNode ?p1")
      from CreateNode_ok [OF a1(1) n] have q: "st_ok (st1\<lparr>pp_lex := q\<rparr>)" "mSrc q = mSrc ?p1" "mSrcIdx q = mSrcIdx ?p1" by simp_all
      show ?thesis
      proof (cases n)
        case None
        then show ?thesis using r(1) True nohit n blk q a1 less.prems(2,3) by (subst inline_loop.simps) simp
      next
        case (Some nd)
        have "mSyntaxToken ?p1 \<noteq> BfSyntaxToken_EOF" using n Some by (auto simp: CreateNode_def)
        then have l: "mSrcIdx (pp_lex st) < mSrcIdx ?p1" using r(2) True nohit by (auto simp: pp_token_ok_def Let_def)
        let ?loc = "\<lparr>usedEndIdx = mSrcIdx ?p1, usedLineNum = mLineNum ?p1, usedLineStart = mLineStart ?p1, childArr = childArr loc @ [nd]\<rparr>"
        let ?st2 = "st1\<lparr>pp_lex := q\<rparr>"
        have "length (mSrc (pp_lex ?st2)) - mSrcIdx (pp_lex ?st2) < length (mSrc (pp_lex st)) - mSrcIdx (pp_lex st)"
          using l a1(4) q(2,3) a1(2) by simp
        from less.hyps [OF this q(1), of ?loc] q(3) l less.prems(2,3) obtain b st3 where
          "inline_loop e endx ?loc ?st2 = Some (b, st3)" "b \<noteq> Some (Some [])"
          "b \<noteq> None \<longrightarrow> st_ok st3 \<and> mSrc (pp_lex st3) = mSrc q \<and> i0 \<le> mSrcIdx (pp_lex st3)" by auto
        then show ?thesis using r(1) True nohit n Some q(2) a1(2) by (subst inline_loop.simps) simp
      qed
    qed
  qed
qed

lemma ParseInlineBlock_good:
  assumes "char_category (tok_env e) 0 = CAT_CC"
  shows "inline_good (ParseInlineBlock e)"
  unfolding inline_good_def
proof (intro allI impI)
  fix sp endx and st :: bf_preproc
  assume st: "st_ok st" "mSyntaxToken (pp_lex st) \<noteq> BfSyntaxToken_EOF" "sp < length (mSrc (pp_lex st))"
  from inline_loop_total [OF assms st_ok_idx [OF st], of sp "\<lparr>usedEndIdx = sp, usedLineNum = mLineNum (pp_lex (set_idx sp st)),
      usedLineStart = mLineStart (pp_lex (set_idx sp st)), childArr = []\<rparr>" endx]
  show "\<exists>b st1. ParseInlineBlock e sp endx st = Some (b, st1) \<and> b \<noteq> Some (Some []) \<and> (b \<noteq> None \<longrightarrow> advanced (set_idx sp st) st1)"
    by (auto simp: ParseInlineBlock_def Let_def advanced_def)
qed

lemma pp_next_token_total:
  assumes "char_category (tok_env e) 0 = CAT_CC" "st_ok st"
  shows "\<exists>r st1. pp_next_token e st = Some (r, st1) \<and> pp_token_ok None (mSrcIdx (pp_lex st)) st r st1"
proof -
  have "handler_good False (HandlePreprocessor e (ParseInlineBlock e))"
    by (rule HandlePreprocessor_good) (simp add: ParseInlineBlock_good [OF assms(1)])
  from next_token_total [OF assms(1) this assms(2)] show ?thesis by (simp add: pp_next_token_def)
qed

section \<open>Files\<close>

definition fetch_pp :: "pp_env \<times> bf_preproc \<Rightarrow> (lex_outcome \<times> pp_env \<times> bf_preproc) option" where
  "fetch_pp s = map_option (\<lambda>(r, st). (r, fst s, st)) (pp_next_token (fst s) (snd s))"

definition pp_good :: "pp_env \<times> bf_preproc \<Rightarrow> bool" where
  "pp_good s \<longleftrightarrow> st_ok (snd s) \<and> char_category (tok_env (fst s)) 0 = CAT_CC"

definition pp_more :: "lex_outcome \<Rightarrow> pp_env \<times> bf_preproc \<Rightarrow> bool" where
  "pp_more r s \<longleftrightarrow> r = LexReturn \<and> mSyntaxToken (pp_lex (snd s)) \<noteq> BfSyntaxToken_EOF"

definition pp_room :: "pp_env \<times> bf_preproc \<Rightarrow> nat" where
  "pp_room s = length (mSrc (pp_lex (snd s))) - mSrcIdx (pp_lex (snd s))"

lemma pp_token_more:
  assumes "pp_token_ok None lo st r st1" "pp_more r (e, st1)"
  shows "advanced st st1" "lo \<le> mTokenStart (pp_lex st1)" "mTokenStart (pp_lex st1) < mTokenEnd (pp_lex st1)"
    "mTokenEnd (pp_lex st1) = mSrcIdx (pp_lex st1)" "mSrcIdx (pp_lex st) < mSrcIdx (pp_lex st1)"
  using assms by (auto simp: pp_token_ok_def pp_more_def Let_def)

interpretation preproc: token_source fetch_pp pp_good pp_more pp_room
proof
  fix s :: "pp_env \<times> bf_preproc"
  assume "pp_good s"
  then show "\<exists>r s1. fetch_pp s = Some (r, s1)" using pp_next_token_total [of "fst s" "snd s"] by (auto simp: fetch_pp_def pp_good_def)
next
  fix s :: "pp_env \<times> bf_preproc" and r s1
  assume g: "pp_good s" and f: "fetch_pp s = Some (r, s1)" and m: "pp_more r s1"
  obtain e st where s: "s = (e, st)" by (cases s)
  from pp_next_token_total [of e st] g obtain q st1 where
    q: "pp_next_token e st = Some (q, st1)" "pp_token_ok None (mSrcIdx (pp_lex st)) st q st1" by (auto simp: s pp_good_def)
  then have s1: "q = r" "s1 = (e, st1)" using f by (simp_all add: s fetch_pp_def)
  note t = pp_token_more [OF q(2) [unfolded s1(1)] m [unfolded s1(2)]]
  show "pp_good s1 \<and> pp_room s1 < pp_room s"
    using t g by (auto simp: s s1 pp_good_def pp_room_def advanced_def st_ok_def parser_ok_def)
qed

definition pp_scan_ok :: "pp_env \<times> bf_preproc \<Rightarrow> bool" where
  "pp_scan_ok s \<longleftrightarrow> (\<exists>ts r st. pp_scan (fst s) (snd s) = Some (ts, r, st) \<and> (r = LexReturn \<or> r = LexInterpolate) \<and>
     (r = LexReturn \<longrightarrow> st_ok st \<and> Suc (mSrcIdx (pp_lex st)) = length (mSrc (pp_lex (snd s)))) \<and>
     spans (mSrcIdx (pp_lex (snd s))) (length (mSrc (pp_lex (snd s))) - 1) ts)"

lemma pp_scan_total: "pp_good s \<Longrightarrow> pp_scan_ok s"
proof (induction s rule: preproc.token_induct)
  case (step s r s1)
  obtain e st where s: "s = (e, st)" by (cases s)
  from pp_next_token_total [of e st] step(1) obtain q st1 where
    q: "pp_next_token e st = Some (q, st1)" "pp_token_ok None (mSrcIdx (pp_lex st)) st q st1" by (auto simp: s pp_good_def)
  then have s1: "q = r" "s1 = (e, st1)" using step(2) by (simp_all add: s fetch_pp_def)
  note r = q [unfolded s1(1)]
  show ?case
  proof (cases "pp_more r s1")
    case False
    show ?thesis
    proof (cases "r = LexReturn")
      case True
      then have eof: "mSyntaxToken (pp_lex st1) = BfSyntaxToken_EOF" using False by (simp add: pp_more_def s1)
      have a: "advanced st st1" using r(2) True by (simp add: pp_token_ok_def)
      have sec: "st_ok (st1\<lparr>ignored_sections := x\<rparr>) = st_ok st1" for x by (simp add: st_ok_def nesting_ok_def control_def)
      have "pp_scan e st = Some ([], LexReturn, if in_ignored_section (pp_lex st1)
          then st1\<lparr>ignored_sections := ignored_sections st1 @ [(section_start st1, mSrcIdx (pp_lex st1))]\<rparr> else st1)"
        using r(1) True eof by (subst pp_scan.simps) (simp add: Let_def)
      then show ?thesis using a eof sec by (auto simp: pp_scan_ok_def s advanced_def st_ok_def eof_ok_def spans_def)
    next
      case no: False
      then have "pp_scan e st = Some ([], r, st1)" using r(1) by (subst pp_scan.simps) (simp add: Let_def)
      then show ?thesis using r(2) no by (auto simp: pp_scan_ok_def s pp_token_ok_def spans_def)
    qed
  next
    case True
    note t = pp_token_more [OF r(2) True [unfolded s1(2)]]
    have src: "mSrc (pp_lex st1) = mSrc (pp_lex st)" "mSrcIdx (pp_lex st1) < length (mSrc (pp_lex st))"
      using t(1) by (auto simp: advanced_def st_ok_def parser_ok_def)
    from step(3) [OF True] obtain ts k st2 where
      k: "pp_scan e st1 = Some (ts, k, st2)" "k = LexReturn \<or> k = LexInterpolate"
        "k = LexReturn \<longrightarrow> st_ok st2 \<and> Suc (mSrcIdx (pp_lex st2)) = length (mSrc (pp_lex st))"
        "spans (mSrcIdx (pp_lex st1)) (length (mSrc (pp_lex st)) - 1) ts" by (auto simp: pp_scan_ok_def s1 src(1))
    have "pp_scan e st = Some (if in_ignored_section (pp_lex st1) then ts else token_view (pp_lex st1) # ts, k, st2)"
      using r(1) True k(1) by (subst pp_scan.simps) (auto simp: pp_more_def s1 Let_def)
    moreover have "spans (mSrcIdx (pp_lex st)) (length (mSrc (pp_lex st)) - 1) (if in_ignored_section (pp_lex st1) then ts else token_view (pp_lex st1) # ts)"
      using k(4) t src(2) by (fastforce simp: spans_def token_view_def)
    ultimately show ?thesis using k(2,3) by (auto simp: pp_scan_ok_def s)
  qed
qed

lemma new_parser_ok:
  "src_ok (data @ [chr_nul]) \<Longrightarrow> wide_ok (data @ [chr_nul]) \<Longrightarrow> st_ok (new_parser compat_mode quick complete project data)"
  using SetSource_ok [of data compat_mode]
  by (simp add: st_ok_def new_parser_def eof_ok_def nesting_ok_def nested_def control_def) (simp add: SetSource_def)

end
