(* ===== verification/Bf_Preproc_Spec.thy ===== *)
theory Bf_Preproc_Spec
  imports Bf_Preproc_Props Bf_Lexer_Spec
begin

text \<open>
  What the preprocessor promises: the directives implement a stack of conditions of which at most one branch
  counts, and every file is scanned to its end with its conditions nested.
\<close>

section \<open>Conditions as a stack\<close>

text \<open>
  The state of a condition that is open: its branch counts, no branch has been taken yet, or the branch that
  is to be taken is over, or the whole condition is ignored.
\<close>

datatype branch_state = Counts | Waits | Over

datatype condition_step = StepIf bool | StepElse | StepElif bool | StepEndif

definition all_count :: "branch_state list \<Rightarrow> bool" where
  "all_count fs \<longleftrightarrow> list_all (\<lambda>f. f = Counts) fs"

fun next_branch :: "bool \<Rightarrow> branch_state \<Rightarrow> branch_state" where
  "next_branch c Counts = Over"
| "next_branch c Waits = (if c then Counts else Waits)"
| "next_branch c Over = Over"

definition on_top :: "('a \<Rightarrow> 'a) \<Rightarrow> 'a list \<Rightarrow> 'a list" where
  "on_top f xs = (case xs of [] \<Rightarrow> [] | x # xs \<Rightarrow> f x # xs)"

fun condition_effect :: "condition_step \<Rightarrow> branch_state list \<Rightarrow> branch_state list" where
  "condition_effect (StepIf c) fs = (if all_count fs then (if c then Counts else Waits) else Over) # fs"
| "condition_effect StepElse fs = on_top (next_branch True) fs"
| "condition_effect (StepElif c) fs = on_top (next_branch c) fs"
| "condition_effect StepEndif fs = tl fs"

text \<open>The stack the fields of the parser stand for: the depth counts the conditions that are open in an ignored one.\<close>

definition branch_states :: "bf_preproc \<Rightarrow> branch_state list" where
  "branch_states st =
     (case control st of (n, b, rs) \<Rightarrow>
        if n = 0 then map (\<lambda>_. Counts) rs
        else replicate (nat n - 1) Over @ (if hd rs then Over else Waits) # map (\<lambda>_. Counts) (tl rs))"

text \<open>The step a directive is, with the value its condition has in the state at hand.\<close>

definition directive_step :: "pp_env \<Rightarrow> pp_directive \<Rightarrow> bf_preproc \<Rightarrow> condition_step option" where
  "directive_step e d st =
     (let pragma = d_pragma d; active = (ignore_depth st = 0)
      in if pragma = ''if'' then Some (StepIf (condition_value e d st))
         else if pragma = ''else'' then Some StepElse
         else if pragma = ''elif'' then Some (StepElif (condition_value e d st))
         else if pragma = ''endif'' then Some StepEndif
         else if pragma = ''<<<'' \<and> active then Some (StepIf True)
         else if pragma = ''==='' \<and> active then Some StepElse
         else if pragma = ''>>>'' \<and> \<not> active then Some StepEndif
         else None)"

definition plain_mode :: "bf_preproc \<Rightarrow> bool" where
  "plain_mode st \<longleftrightarrow> \<not> mCompatMode (pp_lex st) \<and> \<not> mQuickCompatMode st \<and> \<not> mCompleteParse st"

lemma all_count_map: "all_count (map (\<lambda>_. Counts) rs)" and all_count_Cons: "all_count (f # fs) \<longleftrightarrow> f = Counts \<and> all_count fs"
  and all_count_Nil: "all_count []"
  by (simp_all add: all_count_def list_all_iff)

lemma on_top_Cons: "on_top f (x # xs) = f x # xs"
  by (simp add: on_top_def)

lemma step_skipped:
  assumes n: "nesting_ok st" "ignore_depth st > 0" and m: "plain_mode st"
    and st1: "control st1 = skipped_control e d st"
  shows "branch_states st1 = (case directive_step e d st of Some s \<Rightarrow> condition_effect s (branch_states st) | None \<Rightarrow> branch_states st)"
proof -
  obtain n b rs where c: "control st = (n, b, rs)" by (cases "control st")
  with assms control_depth_eq(1) [of st] obtain r rs1 where r: "n > 0" "b" "rs = r # rs1" "list_all id rs1" "ignore_depth st = n"
    by (cases rs) (auto simp: nesting_ok_def nested_def split: if_splits)
  have nc: "\<not> all_count (replicate k Over @ (if r then Over else Waits) # fs)" for k fs by (simp add: all_count_def)
  have at: "at_if st p \<longleftrightarrow> p = ''if''" "\<not> compat_else_if d st" for p using m by (simp_all add: at_if_def compat_else_if_def plain_mode_def)
  have s: "control st1 =
     (let pragma = d_pragma d
      in if pragma = ''endif'' \<or> pragma = ''>>>'' then if n > 1 then (n - 1, b, rs) else (0, False, tl rs)
         else if pragma = ''if'' then (n + 1, b, rs)
         else if pragma = ''else'' then if n = 1 \<and> \<not> hd rs then (0, False, True # tl rs) else (n, b, rs)
         else if pragma = ''elif'' \<and> n = 1 \<and> \<not> hd rs \<and> condition_value e d st then (0, False, True # tl rs)
         else (n, b, rs))"
    by (simp only: st1 skipped_control_def c at Let_def prod.case if_False)
  show ?thesis
  proof (cases "n = 1")
    case True
    then show ?thesis using r c nc [of 0]
      by (auto simp: branch_states_def s directive_step_def Let_def on_top_Cons all_count_Cons)
  next
    case False
    define k where "k = nat (n - 2)"
    have "n = int k + 2" using False r(1) by (simp add: k_def)
    then have k: "n > 1" "nat n = Suc (Suc k)" "nat (n - 1) = Suc k" "nat (n + 1) = Suc (Suc (Suc k))" by simp_all
    show ?thesis using r c k False nc [of "Suc k"]
      by (auto simp: branch_states_def s directive_step_def Let_def on_top_Cons all_count_Cons)
  qed
qed

lemma step_active:
  assumes n: "nesting_ok st" "ignore_depth st = 0" and m: "plain_mode st"
    and st1: "control st1 = active_control e d st"
  shows "branch_states st1 = (case directive_step e d st of Some s \<Rightarrow> condition_effect s (branch_states st) | None \<Rightarrow> branch_states st)"
proof -
  obtain n b rs where c: "control st = (n, b, rs)" by (cases "control st")
  with assms control_depth_eq(1) [of st] have r: "n = 0" "\<not> b" "list_all id rs" by (auto simp: nesting_ok_def nested_def split: if_splits)
  have i: "fst (if_condition e d st) = condition_value e d st" if "d_pragma d = ''if''"
    using that m by (simp add: if_condition_def condition_value_def plain_mode_def split_beta)
  have i2: "fst (if_condition e d st)" if "d_pragma d = ''<<<''"
    using that by (simp add: if_condition_def)
  have s: "control st1 =
     (let pragma = d_pragma d
      in if pragma = ''if'' \<or> pragma = ''<<<'' then if fst (if_condition e d st) then (0, False, True # rs) else (1, True, False # rs)
         else if pragma = ''else'' \<or> pragma = ''==='' \<or> pragma = ''elif'' then if rs = [] then (0, False, rs) else (1, True, rs)
         else if pragma = ''endif'' then (0, False, tl rs)
         else (0, False, rs))"
    using m by (simp add: st1 active_control_def c at_if_def plain_mode_def)
  show ?thesis
    using r c i i2 n(2) by (cases rs) (auto simp: branch_states_def s directive_step_def Let_def on_top_def all_count_map all_count_Cons all_count_Nil)
qed

text \<open>
  C37 (Conditions are a stack). A directive read in a parser whose conditions are nested has a result, leaves
  them nested, and acts on the stack they stand for as its kind and its condition say: no assertion of the
  code fails, the depth and the flags together describe one stack of conditions.
\<close>

theorem conditions_are_a_stack:
  assumes n: "nesting_ok st" and m: "plain_mode st" and b: "d_block d \<noteq> Some []"
  shows "\<exists>st1. run_directive e d trivia st = Some st1 \<and> nesting_ok st1 \<and> plain_mode st1 \<and>
    branch_states st1 = (case directive_step e d st of Some s \<Rightarrow> condition_effect s (branch_states st) | None \<Rightarrow> branch_states st) \<and>
    (ignore_depth st1 = 0 \<longleftrightarrow> all_count (branch_states st1))"
proof -
  from run_directive_total [OF n b, of e trivia] obtain st1 where
    st1: "run_directive e d trivia st = Some st1" "nesting_ok st1" "modes_same st st1" by blast
  have c: "if ignore_depth st > 0 then control st1 = skipped_control e d st else ignore_depth st = 0 \<and> control st1 = active_control e d st"
    using run_skipped [OF n, of e d trivia] run_active [OF n _ b, of e trivia] st1(1) n control_depth_eq(1) [of st]
    by (auto simp: nesting_ok_def nested_def split: prod.splits if_splits)
  have "branch_states st1 = (case directive_step e d st of Some s \<Rightarrow> condition_effect s (branch_states st) | None \<Rightarrow> branch_states st)"
    using c step_skipped [OF n _ m] step_active [OF n _ m] by (auto split: if_splits)
  moreover have "ignore_depth st1 = 0 \<longleftrightarrow> all_count (branch_states st1)"
    using st1(2) control_depth_eq(1) [of st1]
    by (cases "control st1") (auto simp: branch_states_def all_count_def nesting_ok_def nested_def list_all_iff split: if_splits)
  ultimately show ?thesis using st1 m by (auto simp: plain_mode_def modes_same_def same_source_def)
qed

text \<open>
  An environment for the examples: a condition is the name of a macro.
\<close>

definition macro_env :: pp_env where
  "macro_env = \<lparr>tok_env = plain_env, CreateExpression = (\<lambda>s compat_mode ns. case ns of
       [n] \<Rightarrow> (BfIdentifierNode (src_text s (node_start n) (node_end n)), [], []) | _ \<Rightarrow> (NoExpression, [], [])), atoi = (\<lambda>_. 0)\<rparr>"

text \<open>\<open>#if\<close> without a condition, in a new parser.\<close>

theorem conditions_are_a_stack_witness:
  "\<exists>st1. run_directive macro_env \<lparr>d_pragma = ''if'', d_param = [], d_block = None, d_start = 0, d_name = 1\<rparr> 0
      (new_parser False False False None ''#if'') = Some st1 \<and> branch_states st1 = [Waits] \<and> ignore_depth st1 \<noteq> 0"
proof -
  let ?st = "new_parser False False False None ''#if''" and ?d = "\<lparr>d_pragma = ''if'', d_param = [], d_block = None, d_start = 0, d_name = 1\<rparr>"
  have c: "control ?st = (0, False, [])" by (simp add: control_def new_parser_def SetSource_def)
  then have "nesting_ok ?st" "branch_states ?st = []" "ignore_depth ?st = 0"
    using control_depth_eq(1) [of ?st] by (simp_all add: nesting_ok_def nested_def branch_states_def)
  moreover have "plain_mode ?st" by (simp add: plain_mode_def new_parser_def SetSource_def)
  ultimately show ?thesis using conditions_are_a_stack [of ?st ?d macro_env 0]
    by (auto simp: directive_step_def condition_value_def HandleProcessorCondition_def all_count_def)
qed

section \<open>Whole files\<close>

lemma endif_quiet: "quiet st (check_endif st)"
  by (auto simp: check_endif_def intro!: quiet_intros split: list.split)

text \<open>
  C36 (Files with directives). On a source that ends with a line end, contains no NUL, has no run of six
  continuation bytes and no character cut off by its end, the parser reads all tokens with their directives:
  nothing is read outside the source, no assertion fails, and either the end of the source is reached with the
  conditions nested, or an interpolated string hands over to the parser; the tokens of the branches that count
  are not empty, lie in the source and do not overlap.
\<close>

theorem preprocessed_scan:
  assumes "src_ok (data @ [chr_nul])" "wide_ok (data @ [chr_nul])" "char_category (tok_env e) 0 = CAT_CC"
  shows "\<exists>ts r st1. Parse_tokens e (new_parser compat_mode quick complete project data) = Some (ts, r, st1) \<and>
    (r = LexReturn \<and> nesting_ok st1 \<and> mSrcIdx (pp_lex st1) = length data \<or> r = LexInterpolate) \<and>
    (\<forall>t \<in> set ts. tv_start t < tv_end t \<and> tv_end t \<le> length data) \<and> sorted_wrt (\<lambda>t u. tv_end t \<le> tv_start u) ts"
proof -
  let ?st = "new_parser compat_mode quick complete project data"
  have g: "pp_good (e, ?st)" using new_parser_ok [OF assms(1,2)] assms(3) by (simp add: pp_good_def)
  have src: "mSrc (pp_lex ?st) = data @ [chr_nul]" "mSrcIdx (pp_lex ?st) = 0" by (simp_all add: new_parser_def SetSource_def)
  from pp_scan_total [OF g] obtain ts r st where
    r: "pp_scan e ?st = Some (ts, r, st)" "r = LexReturn \<or> r = LexInterpolate"
      "r = LexReturn \<longrightarrow> st_ok st \<and> mSrcIdx (pp_lex st) = length data" "spans 0 (length data) ts"
    by (auto simp: pp_scan_ok_def src)
  have "nesting_ok (check_endif st) = nesting_ok st" "mSrcIdx (pp_lex (check_endif st)) = mSrcIdx (pp_lex st)"
    using endif_quiet [of st] by (auto simp: nesting_ok_def quiet_def modes_same_def same_source_def control_depth_eq(1))
  with r show ?thesis by (auto simp: Parse_tokens_def spans_def st_ok_def)
qed

text \<open>A file with one condition.\<close>

definition macro_source :: string where
  "macro_source = ''#if A'' @ [chr_nl] @ ''b;'' @ [chr_nl] @ ''#endif'' @ [chr_nl]"

theorem preprocessed_scan_witness:
  "\<exists>ts r st1. Parse_tokens macro_env (new_parser False False False None macro_source) = Some (ts, r, st1) \<and>
    (r = LexReturn \<and> nesting_ok st1 \<and> mSrcIdx (pp_lex st1) = length macro_source \<or> r = LexInterpolate) \<and>
    (\<forall>t \<in> set ts. tv_start t < tv_end t \<and> tv_end t \<le> length macro_source) \<and> sorted_wrt (\<lambda>t u. tv_end t \<le> tv_start u) ts"
proof (rule preprocessed_scan)
  show "src_ok (macro_source @ [chr_nul])" "wide_ok (macro_source @ [chr_nul])" by code_simp+
qed (simp add: macro_env_def plain_env_def)

text \<open>
  A conflict marker ends an ignored section even inside of a line, so \<open>>>>\<close> in the text of an ignored branch does.
\<close>

theorem marker_ends_ignored_section:
  assumes n: "nesting_ok st" "ignore_depth st = 1" and d: "d_pragma d = ''>>>''"
  shows "\<exists>st1. run_directive e d trivia st = Some st1 \<and> ignore_depth st1 = 0"
proof -
  obtain b rs where c: "control st = (1, b, rs)" using n(2) control_depth_eq(1) [of st] by (cases "control st") simp
  from run_skipped [OF n(1), of e d trivia] n(2) obtain st1 where
    st1: "run_directive e d trivia st = Some st1" "control st1 = skipped_control e d st" by auto
  moreover have "fst (skipped_control e d st) = 0" using c d by (simp add: skipped_control_def)
  ultimately show ?thesis using control_depth_eq(1) [of st1] by simp
qed

end
