(* ===== verification/Bf_Preproc_Cache.thy ===== *)
theory Bf_Preproc_Cache
  imports Bf_Preproc_Spec
begin

text \<open>
  The cache of parsed files.  An entry records the macros a condition has asked for;
  \<open>BfParserCache::DataEntry\<close> compares them with the macros of the project that asks for the file.
\<close>

section \<open>The test of the cache\<close>

definition macros_match :: "string set \<Rightarrow> bf_preproc \<Rightarrow> bool" where
  "macros_match macros st \<longleftrightarrow> (\<forall>d \<in> mDefines_Def st. d \<in> macros) \<and> (\<forall>d \<in> mDefines_NoDef st. d \<notin> macros)"

text \<open>
  The data of a parsed file, and what is asked of the cache: a file by its name and text, on behalf of a project.
\<close>

record parser_data =
  pd_mFileName :: string
  pd_mSrc :: string
  pd_parsed :: bf_preproc

record lookup_entry =
  le_mFileName :: string
  le_mSrc :: string
  le_mPreprocessorMacros :: "string list"

definition DataEntry_equals :: "parser_data \<Rightarrow> lookup_entry \<Rightarrow> bool" where
  "DataEntry_equals d lookup \<longleftrightarrow>
     pd_mFileName d = le_mFileName lookup \<and> length (pd_mSrc d) = length (le_mSrc lookup) \<and> pd_mSrc d = le_mSrc lookup \<and>
     macros_match (set (le_mPreprocessorMacros lookup)) (pd_parsed d)"

text \<open>
  Two tables of macros that differ at most in what the projects define: the second one is of the
  project with the given macros.
\<close>

definition defines_differ :: "string set \<Rightarrow> (string \<Rightarrow> bf_define_state option) \<Rightarrow> (string \<Rightarrow> bf_define_state option) \<Rightarrow> bool" where
  "defines_differ macros f g \<longleftrightarrow> (\<forall>n. f n = g n \<or>
     (if n \<in> macros then f n = None \<and> g n = Some BfDefineState_FromProject else f n = Some BfDefineState_FromProject \<and> g n = None))"

definition twin :: "string set \<Rightarrow> bf_preproc \<Rightarrow> bf_preproc \<Rightarrow> bool" where
  "twin macros st st2 \<longleftrightarrow> (\<exists>g. st2 = st\<lparr>mPreprocessorDefines := g\<rparr> \<and> defines_differ macros (mPreprocessorDefines st) g)"

definition later :: "bf_preproc \<Rightarrow> bf_preproc \<Rightarrow> bool" where
  "later st st1 \<longleftrightarrow> mDefines_Def st \<subseteq> mDefines_Def st1 \<and> mDefines_NoDef st \<subseteq> mDefines_NoDef st1"

lemma later_refl [simp]: "later st st"
  by (simp add: later_def)

lemma later_trans: "later st st1 \<Longrightarrow> later st1 st2 \<Longrightarrow> later st st2"
  by (auto simp: later_def)

lemma matches_later: "macros_match m st1 \<Longrightarrow> later st st1 \<Longrightarrow> macros_match m st"
  by (auto simp: macros_match_def later_def)

text \<open>
  A step does the same in both parsers, as long as the macros it has asked for agree; \<open>same_sim\<close> has the step of
  each parser, for recursive functions and their approximations.
\<close>

definition same_sim :: "string set \<Rightarrow> (bf_preproc \<Rightarrow> ('a \<times> bf_preproc) option) \<Rightarrow> (bf_preproc \<Rightarrow> ('a \<times> bf_preproc) option) \<Rightarrow> bool" where
  "same_sim m f f2 \<longleftrightarrow> (\<forall>st x st1. f st = Some (x, st1) \<longrightarrow> later st st1 \<and>
     (\<forall>st2. macros_match m st1 \<longrightarrow> twin m st st2 \<longrightarrow> (\<exists>st3. f2 st2 = Some (x, st3) \<and> twin m st1 st3)))"

abbreviation same_step :: "string set \<Rightarrow> (bf_preproc \<Rightarrow> ('a \<times> bf_preproc) option) \<Rightarrow> bool" where
  "same_step m f \<equiv> same_sim m f f"

lemma same_stepD:
  assumes "same_sim m f f2" "f st = Some (x, st1)"
  shows "later st st1" "macros_match m st1 \<Longrightarrow> twin m st st2 \<Longrightarrow> \<exists>st3. f2 st2 = Some (x, st3) \<and> twin m st1 st3"
  using assms unfolding same_sim_def by blast+

text \<open>Steps that neither read nor change the tables.\<close>

definition blind :: "(bf_preproc \<Rightarrow> bf_preproc) \<Rightarrow> bool" where
  "blind f \<longleftrightarrow> (\<forall>st g. f (st\<lparr>mPreprocessorDefines := g\<rparr>) = (f st)\<lparr>mPreprocessorDefines := g\<rparr>) \<and>
     (\<forall>st. mDefines_Def (f st) = mDefines_Def st \<and> mDefines_NoDef (f st) = mDefines_NoDef st)"

named_theorems blind_intros

lemma blind_id [blind_intros]: "blind (\<lambda>st. st)"
  by (simp add: blind_def)

lemma blind_comp: "blind f \<Longrightarrow> blind g \<Longrightarrow> blind (\<lambda>st. f (g st))"
  by (simp add: blind_def)

lemma blind_twin:
  assumes "blind f" "twin m st st2"
  shows "twin m (f st) (f st2)"
proof -
  from assms(2) obtain g where g: "st2 = st\<lparr>mPreprocessorDefines := g\<rparr>" "defines_differ m (mPreprocessorDefines st) g" unfolding twin_def by blast
  have f: "f (st\<lparr>mPreprocessorDefines := h\<rparr>) = (f st)\<lparr>mPreprocessorDefines := h\<rparr>" for h using assms(1) by (simp add: blind_def)
  have "f st = (f st)\<lparr>mPreprocessorDefines := mPreprocessorDefines st\<rparr>" using f [of "mPreprocessorDefines st"] by simp
  then have "mPreprocessorDefines (f st) = mPreprocessorDefines st" by (metis bf_preproc.select_convs(6) bf_preproc.surjective bf_preproc.update_convs(6))
  then show ?thesis using g f by (auto simp: twin_def)
qed

lemma blind_later: "blind f \<Longrightarrow> later st (f st)"
  by (simp add: blind_def later_def)

lemma blind_basic [blind_intros]:
  "blind (on_lex h)" "blind (pp_fail msg i)" "blind (set_idx i)" "blind (set_depth n)" "blind (push_node nd r)" "blind pop_node" "blind ignored_from_here"
  "blind (end_section i)" "blind (WarnAt k msg i)" "blind (set_change i c)" "blind (\<lambda>st. st\<lparr>mUnwarns := insert (mSrcIdx (pp_lex st)) (mUnwarns st)\<rparr>)"
  by (simp_all add: blind_def on_lex_def pp_fail_def set_idx_def set_depth_def push_node_def pop_node_def ignored_from_here_def end_section_def
      WarnAt_def IsWarningEnabledAtSrcIndex_def set_change_def)

lemma blind_more [blind_intros]:
  "blind (resume i)" "blind (check_params d loc)" "blind (add_nodes d loc)" "blind (pragma_number e b n)" "blind (\<lambda>st. st\<lparr>pp_lex := p\<rparr>)"
  by (simp_all add: blind_def resume_def end_section_def set_depth_def pop_node_def on_lex_def check_params_def pp_fail_def add_nodes_def push_node_def
      pragma_number_def node_text_def set_change_def Let_def split: option.split)

lemma blind_fold: "(\<And>x. blind (f x)) \<Longrightarrow> blind (fold f xs)"
proof (induction xs)
  case Nil
  show ?case by (simp add: blind_def)
next
  case (Cons x xs)
  from blind_comp [OF Cons.IH [OF Cons.prems] Cons.prems [of x]] show ?case by simp
qed

lemma twin_fields:
  assumes "twin m st st2"
  shows "pp_lex st2 = pp_lex st" "mQuickCompatMode st2 = mQuickCompatMode st" "mCompleteParse st2 = mCompleteParse st"
    "mPreprocessorNodeStack st2 = mPreprocessorNodeStack st" "section_start st2 = section_start st" "mDependencies st2 = mDependencies st"
    "mAddedDependsDefines st2 = mAddedDependsDefines st" "mDefines_Def st2 = mDefines_Def st" "mDefines_NoDef st2 = mDefines_NoDef st"
    "ignored_sections st2 = ignored_sections st" "mWarningEnabledChanges st2 = mWarningEnabledChanges st" "mUnwarns st2 = mUnwarns st"
    "mPreprocessorIgnoredSectionStarts st2 = mPreprocessorIgnoredSectionStarts st" "preprocessor_nodes st2 = preprocessor_nodes st"
    "defines_differ m (mPreprocessorDefines st) (mPreprocessorDefines st2)"
  using assms by (auto simp: twin_def)

section \<open>Conditions\<close>

lemma differ_update: "defines_differ m f g \<Longrightarrow> defines_differ m (f(n \<mapsto> v)) (g(n \<mapsto> v))"
  unfolding defines_differ_def by (metis fun_upd_apply)

lemma twin_record:
  assumes "twin m st st2"
  shows "twin m (st\<lparr>mDefines_Def := s\<rparr>) (st2\<lparr>mDefines_Def := s\<rparr>)" "twin m (st\<lparr>mDefines_NoDef := s\<rparr>) (st2\<lparr>mDefines_NoDef := s\<rparr>)"
    "twin m (st\<lparr>mPreprocessorDefines := (mPreprocessorDefines st)(n \<mapsto> v)\<rparr>) (st2\<lparr>mPreprocessorDefines := (mPreprocessorDefines st2)(n \<mapsto> v)\<rparr>)"
proof -
  from assms obtain g where g: "st2 = st\<lparr>mPreprocessorDefines := g\<rparr>" "defines_differ m (mPreprocessorDefines st) g" unfolding twin_def by blast
  show "twin m (st\<lparr>mDefines_Def := s\<rparr>) (st2\<lparr>mDefines_Def := s\<rparr>)" "twin m (st\<lparr>mDefines_NoDef := s\<rparr>) (st2\<lparr>mDefines_NoDef := s\<rparr>)"
    unfolding twin_def using g by (auto intro!: exI [of _ g])
  show "twin m (st\<lparr>mPreprocessorDefines := (mPreprocessorDefines st)(n \<mapsto> v)\<rparr>) (st2\<lparr>mPreprocessorDefines := (mPreprocessorDefines st2)(n \<mapsto> v)\<rparr>)"
    unfolding twin_def using g differ_update by (auto intro!: exI [of _ "g(n \<mapsto> v)"])
qed

lemma add_depends_twin:
  assumes "twin m st st2"
  shows "twin m (add_depends name st) (add_depends name st2)"
proof -
  from assms obtain g where g: "st2 = st\<lparr>mPreprocessorDefines := g\<rparr>" "defines_differ m (mPreprocessorDefines st) g" unfolding twin_def by blast
  have f: "defines_differ m f g \<Longrightarrow> defines_differ m (fold (\<lambda>dep t. t(depends_macro dep \<mapsto> BfDefineState_FromProject)) deps f)
      (fold (\<lambda>dep t. t(depends_macro dep \<mapsto> BfDefineState_FromProject)) deps g)" for deps f g
    by (induction deps arbitrary: f g) (simp_all add: differ_update)
  show ?thesis
    unfolding twin_def using g f
    by (intro exI [of _ "mPreprocessorDefines (add_depends name (st\<lparr>mPreprocessorDefines := g\<rparr>))"])
      (auto simp: add_depends_def split: option.split)
qed

lemma add_depends_record: "mDefines_Def (add_depends name st) = mDefines_Def st" "mDefines_NoDef (add_depends name st) = mDefines_NoDef st"
  by (simp_all add: add_depends_def split: option.split)

lemma HandleIfDef_same: "same_step m (\<lambda>st. Some (HandleIfDef name st))"
  unfolding same_sim_def
proof (intro allI impI, goal_cases)
  case (1 st x st1)
  let ?a = "add_depends name st"
  have later: "later st st1" using 1 by (auto simp: HandleIfDef_def Let_def later_def add_depends_record split: option.splits if_splits)
  have "\<exists>st3. Some (HandleIfDef name st2) = Some (x, st3) \<and> twin m st1 st3" if m: "macros_match m st1" and t: "twin m st st2" for st2
  proof -
    let ?b = "add_depends name st2"
    have ab: "twin m ?a ?b" by (rule add_depends_twin [OF t])
    have "mPreprocessorDefines ?a name = mPreprocessorDefines ?b name"
    proof (rule ccontr)
      assume "mPreprocessorDefines ?a name \<noteq> mPreprocessorDefines ?b name"
      then have d: "if name \<in> m then mPreprocessorDefines ?a name = None else mPreprocessorDefines ?a name = Some BfDefineState_FromProject"
        using twin_fields(15) [OF ab] unfolding defines_differ_def by metis
      show False using 1 m d by (auto simp: HandleIfDef_def Let_def macros_match_def split: if_splits)
    qed
    then show ?thesis using 1 ab twin_record(1,2) [OF ab] twin_fields(8,9) [OF ab] by (auto simp: HandleIfDef_def Let_def split: option.splits)
  qed
  with later show ?case by blast
qed

lemma same_blind: "blind f \<Longrightarrow> same_step m (\<lambda>st. Some (x, f st))"
  by (auto simp: same_sim_def blind_later intro: blind_twin)

lemma same_bind:
  assumes "same_sim m f f2" "\<And>x. same_sim m (g x) (g2 x)"
  shows "same_sim m (\<lambda>st. f st \<bind> (\<lambda>(x, st1). g x st1)) (\<lambda>st. f2 st \<bind> (\<lambda>(x, st1). g2 x st1))"
  unfolding same_sim_def
proof (intro allI impI, goal_cases)
  case (1 st y st1)
  then obtain x s where f: "f st = Some (x, s)" and g: "g x s = Some (y, st1)" by (auto split: Option.bind_splits)
  have l: "later st s" "later s st1" using same_stepD(1) [OF assms(1) f] same_stepD(1) [OF assms(2) g] .
  have "\<exists>st3. f2 st2 \<bind> (\<lambda>(x, st1). g2 x st1) = Some (y, st3) \<and> twin m st1 st3" if m: "macros_match m st1" and t: "twin m st st2" for st2
  proof -
    from same_stepD(2) [OF assms(1) f matches_later [OF m l(2)] t] obtain s2 where s2: "f2 st2 = Some (x, s2)" "twin m s s2" by blast
    from same_stepD(2) [OF assms(2) g m s2(2)] obtain st3 where "g2 x s2 = Some (y, st3)" "twin m st1 st3" by blast
    then show ?thesis using s2(1) by auto
  qed
  then show ?case using later_trans [OF l] by blast
qed

text \<open>A step that is chosen by what twins have in common.\<close>

lemma same_read:
  assumes "\<And>st st2. twin m st st2 \<Longrightarrow> r st2 = r st" "\<And>v. same_sim m (g v) (g2 v)"
  shows "same_sim m (\<lambda>st. g (r st) st) (\<lambda>st. g2 (r st) st)"
  unfolding same_sim_def
proof (intro allI impI, goal_cases)
  case (1 st x st1)
  show ?case
  proof (intro conjI allI impI)
    show "later st st1" by (rule same_stepD(1) [OF assms(2) 1])
    fix st2
    assume "macros_match m st1" "twin m st st2"
    then show "\<exists>st3. g2 (r st2) st2 = Some (x, st3) \<and> twin m st1 st3"
      using same_stepD(2) [OF assms(2) 1] assms(1) by metis
  qed
qed

lemma same_none: "same_sim m (\<lambda>st. None) f"
  by (simp add: same_sim_def)

lemma same_if: "same_sim m f f2 \<Longrightarrow> same_sim m g g2 \<Longrightarrow> same_sim m (\<lambda>st. if b then f st else g st) (\<lambda>st. if b then f2 st else g2 st)"
  by (cases b) simp_all

lemma same_then:
  assumes "blind h" "same_sim m g g2"
  shows "same_sim m (\<lambda>st. g (h st)) (\<lambda>st. g2 (h st))"
  using same_bind [OF same_blind [OF assms(1), of m "()"], of "\<lambda>_. g" "\<lambda>_. g2"] assms(2) by simp

lemma Evaluate_same: "same_step m (\<lambda>st. Some (EvaluatePreprocessor x st))"
proof (induction x)
  case NoExpression
  show ?case using same_blind [OF blind_id, of m False] by simp
next
  case (BfBinaryOperatorExpression i bop l r)
  have inv: "same_step m (\<lambda>st. Some (invalid_condition i st))" unfolding invalid_condition_def by (rule same_blind) (rule blind_intros)
  have "same_step m (\<lambda>st. Some (EvaluatePreprocessor l st) \<bind> (\<lambda>(b, st1). if b then Some (True, st1) else Some (EvaluatePreprocessor r st1)))"
    "same_step m (\<lambda>st. Some (EvaluatePreprocessor l st) \<bind> (\<lambda>(b, st1). if b then Some (EvaluatePreprocessor r st1) else Some (False, st1)))"
    by (intro same_bind same_if BfBinaryOperatorExpression.IH same_blind blind_id)+
  then have "same_step m (\<lambda>st. Some (let (b, st1) = EvaluatePreprocessor l st in if b then (True, st1) else EvaluatePreprocessor r st1))"
    "same_step m (\<lambda>st. Some (let (b, st1) = EvaluatePreprocessor l st in if b then EvaluatePreprocessor r st1 else (False, st1)))"
    by (simp_all add: split_beta if_distrib [of Some])
  then show ?case using inv by (cases bop) simp_all
next
  case (BfUnaryOperatorExpression i uop x)
  have inv: "same_step m (\<lambda>st. Some (invalid_condition i st))" unfolding invalid_condition_def by (rule same_blind) (rule blind_intros)
  have "same_step m (\<lambda>st. Some (EvaluatePreprocessor x st) \<bind> (\<lambda>(b, st1). Some (\<not> b, st1)))"
    by (intro same_bind BfUnaryOperatorExpression.IH same_blind blind_id)
  then show ?case using inv by (cases uop) (simp_all add: split_beta Let_def)
next
  case (BfIdentifierNode name)
  have "same_step m (\<lambda>st. Some (HandleIfDef name st) \<bind> (\<lambda>(v, st1). Some (v = MaybeBool_True, st1)))"
    by (intro same_bind HandleIfDef_same same_blind blind_id)
  then show ?case by (simp add: split_beta Let_def)
next
  case (BfParenthesizedExpression x)
  then show ?case by simp
next
  case (BfLiteralExpression i v)
  have inv: "same_step m (\<lambda>st. Some (invalid_condition i st))" unfolding invalid_condition_def by (rule same_blind) (rule blind_intros)
  then show ?case using same_blind [OF blind_id] by (cases "mTypeCode v = BfTypeCode_Boolean") simp_all
next
  case (OtherExpression i)
  have inv: "same_step m (\<lambda>st. Some (invalid_condition i st))" unfolding invalid_condition_def by (rule same_blind) (rule blind_intros)
  then show ?case by simp
qed

lemma blind_if [blind_intros]: "blind f \<Longrightarrow> blind g \<Longrightarrow> blind (\<lambda>st. if c then f st else g st)"
  by (cases c) simp_all

lemma twin_lex: "twin m st st2 \<Longrightarrow> pp_lex st2 = pp_lex st"
  by (rule twin_fields)

lemma Create_same: "same_step m (\<lambda>st. Some (CreateInlineExpressionFromNode e b st))"
proof (cases b)
  case Nil
  then show ?thesis using same_blind [OF blind_id] by (simp add: CreateInlineExpressionFromNode_def)
next
  case (Cons n ns)
  let ?r = "\<lambda>st. CreateExpression e (mSrc (pp_lex st)) (mCompatMode (pp_lex st)) b"
  let ?g = "\<lambda>(x, rest, msgs) st. Some (x, if x \<noteq> NoExpression \<and> rest \<noteq> [] then pp_fail ''Expression parsing error'' (node_start (hd rest))
      (on_lex (\<lambda>p. p\<lparr>p_errors := p_errors p @ msgs\<rparr>) st) else on_lex (\<lambda>p. p\<lparr>p_errors := p_errors p @ msgs\<rparr>) st)"
  have "same_step m (?g v)" for v
    by (cases v) (simp, intro same_blind blind_intros blind_comp [of "pp_fail _ _"])
  from same_read [of m ?r ?g, OF _ this] have "same_step m (\<lambda>st. ?g (?r st) st)" by (simp add: twin_lex)
  then show ?thesis using Cons by (simp add: CreateInlineExpressionFromNode_def split_beta Let_def)
qed

lemma Condition_same: "same_step m (\<lambda>st. Some (HandleProcessorCondition e b st))"
proof (cases b)
  case None
  then show ?thesis using same_blind [OF blind_id] by (simp add: HandleProcessorCondition_def)
next
  case (Some blk)
  have "same_step m (\<lambda>st. Some (CreateInlineExpressionFromNode e blk st) \<bind> (\<lambda>(x, st1). if x = NoExpression then Some (MaybeBool_False, st1)
      else Some (EvaluatePreprocessor x st1) \<bind> (\<lambda>(b, st2). Some (if b then MaybeBool_True else MaybeBool_False, st2))))"
    by (intro same_bind same_if Create_same Evaluate_same same_blind blind_id)
  then show ?thesis using Some by (simp add: HandleProcessorCondition_def split_beta Let_def if_distrib [of Some] cong: if_cong)
qed

section \<open>Directives\<close>

lemma if_condition_same: "same_step m (\<lambda>st. Some (if_condition e d st))"
proof -
  have "same_step m (\<lambda>st. (\<lambda>quick st. if d_pragma d = ''<<<'' then Some (True, pp_fail ''Conflict marker found'' (d_start d) st)
      else if quick then Some (False, st)
      else if d_pragma d = ''if'' then Some (HandleProcessorCondition e (d_block d) st) \<bind> (\<lambda>(v, st1). Some (v \<noteq> MaybeBool_False, st1))
      else if d_pragma d = ''ifdef'' then Some (HandleIfDef (d_param d) st) \<bind> (\<lambda>(v, st1). Some (v \<noteq> MaybeBool_False, st1))
      else Some (HandleIfDef (d_param d) st) \<bind> (\<lambda>(v, st1). Some (v \<noteq> MaybeBool_True, st1))) (mQuickCompatMode st) st)"
    by (rule same_read [OF twin_fields(2)], assumption)
      (intro same_if same_bind Condition_same HandleIfDef_same same_blind blind_intros)
  then show ?thesis by (simp add: if_condition_def split_beta Let_def if_distrib [of Some] cong: if_cong)
qed

lemma ignore_depth_set: "ignore_depth (set_depth k st) = k"
  by (simp add: set_depth_def on_lex_def)

lemma skipped_same: "same_step m (skipped_directive e d trivia)"
proof -
  let ?r = "\<lambda>st. (mPreprocessorNodeStack st, pp_lex st, section_start st)"
  let ?resumed = "\<lambda>i. (pp_start trivia)\<lparr>triviaStart := i\<rparr>"
  let ?g = "\<lambda>(stk :: (bf_preprocessor_node \<times> bool) list, p, sec) st.
     let n = mPreprocessorIgnoreDepth p; i = max sec (mLineStart p - 1); waits = (n = 1 \<and> \<not> snd (hd stk)); pragma = d_pragma d
     in if stk = [] \<or> \<not> in_ignored_section p then None
        else if pragma = ''endif'' \<or> pragma = ''>>>''
        then if n - 1 > 0 then Some (None, set_depth (n - 1) st) else Some (Some (?resumed i), resume i (set_depth (n - 1) st))
        else if pragma = ''if'' \<or> mCompatMode p \<and> (pragma = ''ifdef'' \<or> pragma = ''ifndef'') then Some (None, set_depth (n + 1) st)
        else if pragma = ''else''
        then if mCompatMode p \<and> (case d_block d of Some b \<Rightarrow> src_text (mSrc p) (block_start b) (block_end b) = ''if'' | None \<Rightarrow> False)
             then Some (HandleProcessorCondition e (d_block d) st) \<bind>
               (\<lambda>(found, st1). Some (None, if found \<noteq> MaybeBool_False then resume i st1 else ignored_from_here st1))
             else if waits then Some (Some ((?resumed i)\<lparr>addToPreprocessorAccept := True\<rparr>), resume i st)
             else Some (None, st)
        else if pragma = ''elif'' \<and> waits
        then Some (HandleProcessorCondition e (d_block d) st) \<bind>
          (\<lambda>(found, st1). if found \<noteq> MaybeBool_False
             then Some (Some ((?resumed i)\<lparr>wantsSingleParam := False, wantedParam := True, addToPreprocessorAccept := True\<rparr>), resume i st1)
             else Some (None, ignored_from_here st1))
        else Some (None, st)"
  have "same_step m (?g v)" for v
  proof (cases v)
    case (fields stk p sec)
    show ?thesis
      unfolding fields prod.case Let_def
      by (intro same_if same_bind Condition_same same_none same_blind blind_intros blind_comp [of "resume _"])
  qed
  from same_read [of m ?r ?g, OF _ this] have "same_step m (\<lambda>st. ?g (?r st) st)" by (simp add: twin_fields)
  moreover have "skipped_directive e d trivia = (\<lambda>st. ?g (?r st) st)"
    by (rule ext) (simp add: skipped_directive_def Let_def ignore_depth_set at_if_def awaits_branch_def block_text_def split_beta if_distrib [of Some]
        cong: if_cong option.case_cong)
  ultimately show ?thesis by simp
qed

lemma blind_read:
  assumes "\<And>st g. r (st\<lparr>mPreprocessorDefines := g\<rparr>) = r st" "\<And>v. blind (f v)"
  shows "blind (\<lambda>st. f (r st) st)"
  using assms by (simp add: blind_def)

lemma blind_pragma_warning:
  "blind (\<lambda>st. fold (pragma_number e b) ns (if c then st else pp_fail msg i st))"
  "blind (\<lambda>st. set_change j w (fold (pragma_number e b) ns (if c then st else pp_fail msg i st)))"
proof -
  have "blind (fold (pragma_number e b) ns)" by (intro blind_fold blind_intros)
  moreover have "blind (\<lambda>st. if c then st else pp_fail msg i st)" by (intro blind_intros)
  ultimately show f: "blind (\<lambda>st. fold (pragma_number e b) ns (if c then st else pp_fail msg i st))" by (rule blind_comp)
  have "blind (set_change j w)" by (intro blind_intros)
  from blind_comp [OF this f] show "blind (\<lambda>st. set_change j w (fold (pragma_number e b) ns (if c then st else pp_fail msg i st)))" .
qed

lemma Pragma_same: "same_step m (\<lambda>st. HandlePragma e b st \<bind> (\<lambda>st1. Some (x, st1)))"
proof (cases b)
  case Nil
  then show ?thesis by (simp add: HandlePragma_def same_none)
next
  case (Cons param rest)
  let ?t = "\<lambda>s n. src_text s (node_start n) (node_end n)"
  let ?dis = "\<lambda>s n. ?t s n = ''disable''" and ?known = "\<lambda>s n. ?t s n = ''disable'' \<or> ?t s n = ''restore''"
  let ?set = "\<lambda>s n ns st. fold (pragma_number e (\<not> ?dis s n)) ns
      (if ?known s n then st else pp_fail (disable_or_restore ''warning'') (node_start n) st)"
  let ?f = "\<lambda>s st. if ?t s param = ''warning''
     then (case rest of [] \<Rightarrow> pp_fail (disable_or_restore ''warning'') (node_end param - 1) st
        | n # ns \<Rightarrow> if ns = [] then set_change (node_start n) \<lparr>mWarningNumber = -1, mEnable = \<not> ?dis s n\<rparr> (?set s n ns st) else ?set s n ns st)
     else if ?t s param = ''format''
     then (case rest of [] \<Rightarrow> st
        | n # ns \<Rightarrow> if ?t s n \<noteq> ''disable'' \<and> ?t s n \<noteq> ''restore'' then pp_fail (disable_or_restore ''format'') (node_end param - 1) st else st)
     else pp_fail ''Unknown #pragma directive'' (node_start param) st"
  have "blind (?f s)" for s
    by (cases rest; simp only: list.case; intro blind_if blind_pragma_warning blind_intros)
  from blind_read [of "\<lambda>st. mSrc (pp_lex st)" ?f, OF _ this] have "blind (\<lambda>st. ?f (mSrc (pp_lex st)) st)" by simp
  from same_blind [OF this, of m x] show ?thesis
    using Cons by (simp only: HandlePragma_def node_text_def Let_def list.case Option.bind.simps)
qed

lemma Define_same: "same_step m (\<lambda>st. Some (x, HandleDefine name st))" "same_step m (\<lambda>st. Some (x, HandleUndefine name st))"
  by (auto simp: same_sim_def HandleDefine_def HandleUndefine_def later_def intro: twin_record)

lemma plain_same: "same_step m (plain_directive e d loc)"
proof -
  let ?w = "loc\<lparr>wantedParam := True\<rparr>"
  let ?free = "?w\<lparr>wantsSingleParam := False\<rparr>"
  let ?g = "\<lambda>(c, fc) st. let pragma = d_pragma d in
    if pragma = ''define'' then (case fc of Some s \<Rightarrow> Some (?w, HandleDefine s st) | None \<Rightarrow> Some (?w, st))
    else if pragma = ''undef'' then (case fc of Some s \<Rightarrow> Some (?w, HandleUndefine s st) | None \<Rightarrow> Some (?w, st))
    else if pragma = ''error'' then Some (?free, pp_fail (d_param d) (d_start d) st)
    else if pragma = ''warning'' then Some (?free, WarnAt 1030 (d_param d) (d_start d) st)
    else if pragma = ''region'' then Some (?free, st)
    else if pragma = ''endregion'' then Some (loc\<lparr>wantsSingleParam := False, wantedParam := d_param d \<noteq> []\<rparr>, st)
    else if pragma = ''pragma''
    then (case d_block d of Some b \<Rightarrow> HandlePragma e b st \<bind> (\<lambda>st1. Some (?free, st1)) | None \<Rightarrow> Some (?free, st))
    else if pragma = ''unwarn'' then Some (loc, st\<lparr>mUnwarns := insert (mSrcIdx (pp_lex st)) (mUnwarns st)\<rparr>)
    else if c \<and> (pragma = ''include'' \<or> pragma = ''include_next'') then Some (?w, st)
    else Some (loc, pp_fail ''Unknown preprocessor directive'' (d_start d) st)"
  have "same_step m (?g v)" for v
  proof (cases v)
    case (Pair c fc)
    show ?thesis
      unfolding Pair prod.case Let_def
      by (cases fc; cases "d_block d"; simp only: option.case; intro same_if Pragma_same Define_same same_blind blind_intros)
  qed
  from same_read [of m "\<lambda>st. (mCompatMode (pp_lex st), first_child st d)" ?g, OF _ this]
  have "same_step m (\<lambda>st. ?g (mCompatMode (pp_lex st), first_child st d) st)" by (simp add: twin_fields first_child_def node_text_def cong: option.case_cong list.case_cong)
  moreover have "plain_directive e d loc = (\<lambda>st. ?g (mCompatMode (pp_lex st), first_child st d) st)"
    by (rule ext) (simp add: plain_directive_def Let_def split: option.split)
  ultimately show ?thesis by simp
qed

lemma done_same: "same_step m (\<lambda>st. branch_done msg d st \<bind> (\<lambda>st1. Some (x, st1)))"
proof -
  let ?r = "\<lambda>st. (mQuickCompatMode st \<or> mCompleteParse st, mPreprocessorNodeStack st)"
  let ?g = "\<lambda>(all, stk) st. if all then Some (x, st) else case stk of [] \<Rightarrow> Some (x, pp_fail msg (d_start d) st)
     | (nd, resolved) # ns \<Rightarrow> if resolved then Some (x, set_depth 1 st) else None"
  have "same_step m (?g v)" for v
    by (cases v; cases "snd v") (auto intro!: same_if same_none same_blind blind_intros split: prod.split)
  from same_read [of m ?r ?g, OF _ this] have "same_step m (\<lambda>st. ?g (?r st) st)" by (simp add: twin_fields)
  moreover have "(\<lambda>st. branch_done msg d st \<bind> (\<lambda>st1. Some (x, st1))) = (\<lambda>st. ?g (?r st) st)"
    by (rule ext) (auto simp: branch_done_def split: list.split)
  ultimately show ?thesis by simp
qed

lemma active_same: "same_step m (active_directive e d trivia)"
proof -
  let ?loc = "pp_start trivia"
  let ?r = "\<lambda>st. (mQuickCompatMode st \<or> mCompleteParse st, mCompatMode (pp_lex st), mPreprocessorNodeStack st = [])"
  let ?g = "\<lambda>(all, c, bottom) st. let pragma = d_pragma d in
     if pragma = ''if'' \<or> c \<and> (pragma = ''ifdef'' \<or> pragma = ''ifndef'') \<or> pragma = ''<<<''
     then Some (if_condition e d st) \<bind> (\<lambda>(found, st1).
        Some (?loc\<lparr>wantsSingleParam := False, wantedParam := pragma \<noteq> ''<<<'', addToPreprocessorAccept := True,
                   addToPreprocessorAcceptResolved := found \<or> all\<rparr>,
              if found then st1 else if all then ignored_from_here st1 else set_depth 1 (ignored_from_here st1)))
     else if pragma = ''else'' \<or> pragma = ''==='' then branch_done ''Unexpected #else'' d st \<bind> (\<lambda>st1. Some (?loc, st1))
     else if pragma = ''elif'' then branch_done ''Unexpected #elif'' d st \<bind> (\<lambda>st1. Some (?loc\<lparr>wantsSingleParam := False, wantedParam := True\<rparr>, st1))
     else if pragma = ''endif'' then Some (?loc, if bottom then pp_fail ''Unexpected #endif'' (d_start d) st else pop_node st)
     else plain_directive e d ?loc st"
  have "same_step m (?g v)" for v
  proof (cases v)
    case (fields all c bottom)
    show ?thesis
      unfolding fields prod.case Let_def
      by (intro same_if same_bind if_condition_same done_same plain_same same_blind blind_intros blind_comp [of "set_depth _"])
  qed
  from same_read [of m ?r ?g, OF _ this] have "same_step m (\<lambda>st. ?g (?r st) st)" by (simp add: twin_fields)
  moreover have "active_directive e d trivia = (\<lambda>st. ?g (?r st) st)"
    by (rule ext) (auto simp: active_directive_def Let_def at_if_def split_beta)
  ultimately show ?thesis by simp
qed

lemma run_same: "same_step m (\<lambda>st. run_directive e d trivia st \<bind> (\<lambda>st1. Some (x, st1)))"
proof -
  let ?g = "\<lambda>n st. if n > 0
     then skipped_directive e d trivia st \<bind> (\<lambda>(loc, st1). case loc of None \<Rightarrow> Some (x, st1)
        | Some loc \<Rightarrow> Some (x, add_nodes d loc (check_params d loc st1)))
     else active_directive e d trivia st \<bind> (\<lambda>(loc, st1). Some (x, add_nodes d loc (check_params d loc st1)))"
  have o: "same_step m (\<lambda>st1. case loc of None \<Rightarrow> Some (x, st1) | Some loc \<Rightarrow> Some (x, add_nodes d loc (check_params d loc st1)))" for loc
    by (cases loc) (auto intro!: same_blind blind_intros blind_comp [of "add_nodes _ _"])
  have "same_step m (?g n)" for n
    by (intro same_if same_bind skipped_same active_same o same_blind blind_intros blind_comp [of "add_nodes _ _"])
  from same_read [of m ignore_depth ?g, OF _ this] have "same_step m (\<lambda>st. ?g (ignore_depth st) st)" by (simp add: twin_fields)
  moreover have "(\<lambda>st. run_directive e d trivia st \<bind> (\<lambda>st1. Some (x, st1))) = (\<lambda>st. ?g (ignore_depth st) st)"
    by (rule ext) (auto simp: run_directive_def split_beta split: Option.bind_splits option.split)
  ultimately show ?thesis by simp
qed

lemma param_same:
  assumes "\<And>i j. same_step m (inline i j)"
  shows "same_step m (param_directive e inline trivia start ci sp endx)"
proof -
  let ?g = "\<lambda>s st. inline sp endx st \<bind> (\<lambda>(block, st1). case block of None \<Rightarrow> Some (PPInterpolate, st1)
     | Some b \<Rightarrow> run_directive e \<lparr>d_pragma = src_text s ci sp, d_param = dropWhile isspace (src_text s sp endx), d_block = b,
                                  d_start = start, d_name = ci\<rparr> trivia st1 \<bind> (\<lambda>st2. Some (PPReturn True, st2)))"
  have o: "same_step m (\<lambda>st1. case block of None \<Rightarrow> Some (PPInterpolate, st1) | Some b \<Rightarrow> run_directive e (d b) trivia st1 \<bind> (\<lambda>st2. Some (PPReturn True, st2)))"
    for block d
    by (cases block) (simp_all add: run_same same_blind [OF blind_id])
  have "same_step m (?g s)" for s by (intro same_bind assms o)
  from same_read [of m "\<lambda>st. mSrc (pp_lex st)" ?g, OF _ this] have "same_step m (\<lambda>st. ?g (mSrc (pp_lex st)) st)" by (simp add: twin_fields)
  then show ?thesis by (simp only: param_directive_def [abs_def] Let_def)
qed

lemma blind_comps: "blind f \<Longrightarrow> blind (\<lambda>st. set_idx i (f st))" "blind f \<Longrightarrow> blind (\<lambda>st. pp_fail msg i (f st))"
  by (rule blind_comp; (rule blind_intros | assumption))+

lemma Handle_same:
  assumes "\<And>i j. same_step m (inline i j)"
  shows "same_step m (HandlePreprocessor e inline)"
proof -
  let ?g = "\<lambda>p st. let s = mSrc p; start = mSrcIdx p - 1; trivia = mTriviaStart p; depth = mPreprocessorIgnoreDepth p;
          lead = find (\<lambda>i. \<not> isspace (s ! i)) [mLineStart p ..< start];
          c = s ! start; marker = marker_name c
      in if depth = 0 \<and> lead \<noteq> None \<and> c \<noteq> CHR ''#'' then Some (PPReturn False, st)
         else let st1 = (case lead of
                           Some i \<Rightarrow> if depth = 0 then pp_fail ''Preprocessor directives must appear as the first non-whitespace character on a line'' i st else st
                         | None \<Rightarrow> st)
         in if (c = CHR ''<'' \<or> c = CHR ''='') \<and> depth > 0 \<or> c = CHR ''>'' \<and> depth > 1 then Some (PPReturn False, st1)
         else directive_scan s start (marker \<noteq> []) (mSrcIdx p) None None \<bind> (\<lambda>(i, charIdx, spaceIdx).
           let st2 = set_idx i st1; endx = trim_end s start i in
           (case charIdx of
              None \<Rightarrow> Some (PPReturn True, pp_fail ''Preprocessor directive expected'' start st2)
            | Some ci \<Rightarrow>
                if marker \<noteq> []
                then run_directive e \<lparr>d_pragma = marker, d_param = [], d_block = None, d_start = start, d_name = ci\<rparr> trivia (set_idx (i - 1) st2)
                  \<bind> (\<lambda>st3. Some (PPReturn True, st3))
                else (case spaceIdx of
                        Some sp \<Rightarrow> param_directive e inline trivia start ci sp endx st2
                      | None \<Rightarrow> run_directive e \<lparr>d_pragma = src_text s ci endx, d_param = [], d_block = None, d_start = start, d_name = ci\<rparr>
                                  trivia (set_idx endx st2) \<bind> (\<lambda>st3. Some (PPReturn True, st3)))))"
  note steps = same_if same_then [OF _ run_same] same_then [OF _ param_same [OF assms]] same_none same_blind blind_comps blind_if blind_intros
  have "same_step m (?g p)" for p
  proof -
    let ?lead = "find (\<lambda>i. \<not> isspace (mSrc p ! i)) [mLineStart p ..< mSrcIdx p - 1]"
    let ?scan = "directive_scan (mSrc p) (mSrcIdx p - 1) (marker_name (mSrc p ! (mSrcIdx p - 1)) \<noteq> []) (mSrcIdx p) None None"
    show ?thesis
    proof (cases ?scan)
      case None
      then show ?thesis by (cases ?lead; simp only: Let_def option.case Option.bind.simps; intro steps)
    next
      case (Some r)
      obtain i charIdx spaceIdx where "r = (i, charIdx, spaceIdx)" by (cases r)
      with Some show ?thesis
        by (cases ?lead; cases charIdx; cases spaceIdx; simp only: Let_def option.case Option.bind.simps prod.case; intro steps)
    qed
  qed
  from same_read [of m pp_lex ?g, OF _ this] have "same_step m (\<lambda>st. ?g (pp_lex st) st)" by (simp only: twin_lex)
  then show ?thesis by (simp only: HandlePreprocessor_def [abs_def] Let_def)
qed

section \<open>Tokens and files\<close>

definition same_at :: "string set \<Rightarrow> (bf_preproc \<Rightarrow> ('a \<times> bf_preproc) option) \<Rightarrow> bf_preproc \<Rightarrow> 'a \<times> bf_preproc \<Rightarrow> bool" where
  "same_at m f st r \<longleftrightarrow> later st (snd r) \<and>
     (\<forall>st2. macros_match m (snd r) \<longrightarrow> twin m st st2 \<longrightarrow> (\<exists>st3. f st2 = Some (fst r, st3) \<and> twin m (snd r) st3))"

lemma same_sim_at: "same_sim m f f2 \<longleftrightarrow> (\<forall>st r. f st = Some r \<longrightarrow> same_at m f2 st r)"
  unfolding same_sim_def same_at_def by auto

text \<open>A round of a loop, with what follows it as a parameter.\<close>

definition token_body ::
  "pp_env \<Rightarrow> (bf_preproc \<Rightarrow> pp_step) \<Rightarrow> nat option \<Rightarrow> bool \<Rightarrow> bool \<Rightarrow> bf_token \<Rightarrow>
   (lex_locals \<Rightarrow> bf_preproc \<Rightarrow> (lex_outcome \<times> bf_preproc) option) \<Rightarrow> lex_locals \<Rightarrow> bf_preproc \<Rightarrow> (lex_outcome \<times> bf_preproc) option" where
  "token_body e h endIdx outer dis prev nxt loc st =
     lex_round (tok_env e) endIdx outer dis prev loc (pp_lex st) \<bind> (\<lambda>(r, loc1, p1).
       case r of
         LexNext v i \<Rightarrow> nxt loc1 (st\<lparr>pp_lex := p1\<rparr>)
       | LexPreprocessor \<Rightarrow> h (st\<lparr>pp_lex := p1\<rparr>) \<bind> (\<lambda>(r2, st2). case r2 of PPInterpolate \<Rightarrow> Some (LexInterpolate, st2)
           | PPReturn b \<Rightarrow> if \<not> b then None
                else if mSrc p1 ! (mSrcIdx p1 - 1) = CHR ''#'' \<and> mSyntaxToken (pp_lex st2) = BfSyntaxToken_EOF then Some (LexReturn, st2)
                else nxt loc1 st2)
       | _ \<Rightarrow> Some (r, st\<lparr>pp_lex := p1\<rparr>))"

lemma token_loop_body: "token_loop e h endIdx outer dis prev loc st = token_body e h endIdx outer dis prev (token_loop e h endIdx outer dis prev) loc st"
  by (subst token_loop.simps) (simp add: token_body_def Let_def)

lemma token_body_ext: "token_body e h endIdx outer dis prev (token_loop e h endIdx outer dis prev) loc = token_loop e h endIdx outer dis prev loc"
  by (rule ext) (rule token_loop_body [symmetric])

lemma token_loop_raw:
  assumes step: "\<And>nxt loc st r. (\<And>loc st r. nxt loc st = Some r \<Longrightarrow> P loc st r) \<Longrightarrow> token_body e h endIdx outer dis prev nxt loc st = Some r \<Longrightarrow> P loc st r"
    and r: "token_loop e h endIdx outer dis prev loc st = Some r"
  shows "P loc st r"
proof -
  let ?P = "\<lambda>e' h' endIdx' outer' dis' prev' loc st r.
    e' = e \<and> h' = h \<and> endIdx' = endIdx \<and> outer' = outer \<and> dis' = dis \<and> prev' = prev \<longrightarrow> P loc st r"
  have "?P e h endIdx outer dis prev loc st r"
  proof (rule token_loop.raw_induct [of ?P, OF _ r], intro impI, elim conjE, goal_cases)
    case (1 nxt e' h' endIdx' outer' dis' prev' loc st r)
    show ?case
    proof (rule step [of "nxt e h endIdx outer dis prev"])
      show "\<And>loc st r. nxt e h endIdx outer dis prev loc st = Some r \<Longrightarrow> P loc st r" using 1(1) by blast
      show "token_body e h endIdx outer dis prev (nxt e h endIdx outer dis prev) loc st = Some r"
        using 1(2) unfolding 1(3-8) token_body_def Let_def .
    qed
  qed
  then show ?thesis by simp
qed

text \<open>The induction behind the three loops.\<close>

lemma same_at_sim: "(\<And>st r. f st = Some r \<Longrightarrow> same_at m f2 st r) \<Longrightarrow> same_sim m f f2"
  and same_simD: "same_sim m f f2 \<Longrightarrow> f st = Some r \<Longrightarrow> same_at m f2 st r"
  using same_sim_at by blast+

lemma token_body_same:
  assumes h: "same_step m h" and f: "\<And>loc. same_sim m (f1 loc) (f2 loc)"
  shows "same_sim m (token_body e h endIdx outer dis prev f1 loc) (token_body e h endIdx outer dis prev f2 loc)"
proof -
  let ?k = "\<lambda>nxt loc p1 (r2, st2). case r2 of PPInterpolate \<Rightarrow> Some (LexInterpolate, st2)
          | PPReturn b \<Rightarrow> if \<not> b then None
               else if mSrc p1 ! (mSrcIdx p1 - 1) = CHR ''#'' \<and> mSyntaxToken (pp_lex st2) = BfSyntaxToken_EOF then Some (LexReturn, st2)
               else nxt loc st2"
  let ?g = "\<lambda>nxt v st. v \<bind> (\<lambda>(r, loc1, p1).
     case r of LexNext v i \<Rightarrow> nxt loc1 (st\<lparr>pp_lex := p1\<rparr>)
      | LexPreprocessor \<Rightarrow> h (st\<lparr>pp_lex := p1\<rparr>) \<bind> (\<lambda>(r2, st2). ?k nxt loc1 p1 (r2, st2))
      | _ \<Rightarrow> Some (r, st\<lparr>pp_lex := p1\<rparr>))"
  have eof: "same_sim m (\<lambda>st2. if C \<and> mSyntaxToken (pp_lex st2) = BfSyntaxToken_EOF then Some (LexReturn, st2) else f1 loc st2)
      (\<lambda>st2. if C \<and> mSyntaxToken (pp_lex st2) = BfSyntaxToken_EOF then Some (LexReturn, st2) else f2 loc st2)" for C loc
  proof -
    let ?f = "\<lambda>nxt b st2. if b then Some (LexReturn, st2) else nxt loc st2"
    have "same_sim m (?f f1 b) (?f f2 b)" for b by (intro same_if same_blind blind_id f)
    from same_read [of m "\<lambda>st2. C \<and> mSyntaxToken (pp_lex st2) = BfSyntaxToken_EOF" "?f f1" "?f f2", OF _ this] show ?thesis
      by (simp only: twin_lex)
  qed
  have k: "same_sim m (\<lambda>st2. ?k f1 loc p1 (r2, st2)) (\<lambda>st2. ?k f2 loc p1 (r2, st2))" for r2 p1 loc
    by (cases r2; simp only: prod.case pp_outcome.case; intro same_if same_none eof same_blind blind_id)
  have "same_sim m (?g f1 v) (?g f2 v)" for v
  proof (cases v)
    case None
    then show ?thesis by (simp add: same_none)
  next
    case (Some w)
    obtain r loc1 p1 where w: "w = (r, loc1, p1)" by (cases w)
    have lex: "blind (\<lambda>st. st\<lparr>pp_lex := p1\<rparr>)" by (intro blind_intros)
    show ?thesis
      unfolding Some w Option.bind.simps prod.case
      by (cases r; simp only: lex_outcome.case;
          intro same_then [OF lex f] same_then [OF lex same_bind [OF h k, unfolded prod.case]] same_blind lex)
  qed
  from same_read [of m "\<lambda>st. lex_round (tok_env e) endIdx outer dis prev loc (pp_lex st)" "?g f1" "?g f2", OF _ this] show ?thesis
    unfolding token_body_def [abs_def] by (simp only: twin_lex prod.case)
qed

lemma token_loop_same:
  assumes "same_step m h"
  shows "same_step m (token_loop e h endIdx outer dis prev loc)"
proof (rule same_at_sim)
  fix st r
  assume "token_loop e h endIdx outer dis prev loc st = Some r"
  then show "same_at m (token_loop e h endIdx outer dis prev loc) st r"
  proof (rule token_loop_raw [rotated])
    fix nxt loc st r
    assume n: "\<And>loc st r. nxt loc st = Some r \<Longrightarrow> same_at m (token_loop e h endIdx outer dis prev loc) st r"
      and r: "token_body e h endIdx outer dis prev nxt loc st = Some r"
    have "same_sim m (nxt loc) (token_loop e h endIdx outer dis prev loc)" for loc by (rule same_at_sim) (rule n)
    from same_simD [OF token_body_same [OF assms this] r]
    show "same_at m (token_loop e h endIdx outer dis prev loc) st r" by (simp only: token_body_ext)
  qed
qed

lemma next_same: "same_step m h \<Longrightarrow> same_step m (next_token_with e h endIdx dis)"
  unfolding next_token_with_def [abs_def]
  by (rule same_read [of m "\<lambda>st. mToken (pp_lex st)", OF _ same_then [OF blind_basic(1) token_loop_same]]) (simp_all add: twin_lex)

definition inline_body ::
  "pp_env \<Rightarrow> nat \<Rightarrow> (inline_locals \<Rightarrow> bf_preproc \<Rightarrow> (bf_block option option \<times> bf_preproc) option) \<Rightarrow> inline_locals \<Rightarrow> bf_preproc \<Rightarrow>
   (bf_block option option \<times> bf_preproc) option" where
  "inline_body e endx nxt loc st = next_token_with e (HandleMarker e) (Some endx) True st \<bind> (\<lambda>(r, st1).
     let p = pp_lex st1 in
     if r \<noteq> LexReturn then Some (None, st1)
     else if mSyntaxToken p = BfSyntaxToken_HIT_END_IDX
     then Some (Some (block_of (childArr loc)),
            on_lex (\<lambda>p. p\<lparr>mSrcIdx := usedEndIdx loc, mLineNum := usedLineNum loc, mLineStart := usedLineStart loc\<rparr>) st1)
     else (case CreateNode p of
             (None, p2) \<Rightarrow> Some (Some (block_of (childArr loc)), st1\<lparr>pp_lex := p2\<rparr>)
           | (Some n, p2) \<Rightarrow>
               nxt \<lparr>usedEndIdx = mSrcIdx p, usedLineNum = mLineNum p, usedLineStart = mLineStart p, childArr = childArr loc @ [n]\<rparr> (st1\<lparr>pp_lex := p2\<rparr>)))"

lemma inline_loop_body: "inline_loop e endx loc st = inline_body e endx (inline_loop e endx) loc st"
  by (subst inline_loop.simps) (simp add: inline_body_def Let_def)

lemma inline_body_ext: "inline_body e endx (inline_loop e endx) loc = inline_loop e endx loc"
  by (rule ext) (rule inline_loop_body [symmetric])

lemma inline_loop_raw:
  assumes step: "\<And>nxt loc st r. (\<And>loc st r. nxt loc st = Some r \<Longrightarrow> P loc st r) \<Longrightarrow> inline_body e endx nxt loc st = Some r \<Longrightarrow> P loc st r"
    and r: "inline_loop e endx loc st = Some r"
  shows "P loc st r"
proof -
  let ?P = "\<lambda>e' endx' loc st r. e' = e \<and> endx' = endx \<longrightarrow> P loc st r"
  have "?P e endx loc st r"
  proof (rule inline_loop.raw_induct [of ?P, OF _ r], intro impI, elim conjE, goal_cases)
    case (1 nxt e' endx' loc st r)
    show ?case
    proof (rule step [of "nxt e endx"])
      show "\<And>loc st r. nxt e endx loc st = Some r \<Longrightarrow> P loc st r" using 1(1) by blast
      show "inline_body e endx (nxt e endx) loc st = Some r" using 1(2) unfolding 1(3,4) inline_body_def Let_def .
    qed
  qed
  then show ?thesis by simp
qed

lemma inline_body_same:
  assumes f: "\<And>loc. same_sim m (f1 loc) (f2 loc)"
  shows "same_sim m (inline_body e endx f1 loc) (inline_body e endx f2 loc)"
proof -
  have hm: "same_step m (HandleMarker e)" unfolding HandleMarker_def by (rule Handle_same) (rule same_none)
  let ?k = "\<lambda>nxt r p st1. if r \<noteq> LexReturn then Some (None, st1)
     else if mSyntaxToken p = BfSyntaxToken_HIT_END_IDX
     then Some (Some (block_of (childArr loc)),
            on_lex (\<lambda>p. p\<lparr>mSrcIdx := usedEndIdx loc, mLineNum := usedLineNum loc, mLineStart := usedLineStart loc\<rparr>) st1)
     else (case CreateNode p of
             (None, p2) \<Rightarrow> Some (Some (block_of (childArr loc)), st1\<lparr>pp_lex := p2\<rparr>)
           | (Some n, p2) \<Rightarrow>
               nxt \<lparr>usedEndIdx = mSrcIdx p, usedLineNum = mLineNum p, usedLineStart = mLineStart p, childArr = childArr loc @ [n]\<rparr> (st1\<lparr>pp_lex := p2\<rparr>))"
  have "same_sim m (?k f1 r p) (?k f2 r p)" for r p
  proof (cases "CreateNode p")
    case (Pair n p2)
    then show ?thesis
      by (cases n; simp only: Pair prod.case option.case; intro same_if same_then [OF blind_more(5) f] same_blind blind_intros)
  qed
  from same_read [of m pp_lex "?k f1 r" "?k f2 r" for r, OF _ this] have
    "same_sim m (\<lambda>st. ?k f1 r (pp_lex st) st) (\<lambda>st. ?k f2 r (pp_lex st) st)" for r by (simp only: twin_lex)
  from same_bind [OF next_same [OF hm, of e "Some endx" True] this] show ?thesis unfolding inline_body_def [abs_def] Let_def .
qed

lemma inline_same: "same_step m (ParseInlineBlock e i endx)"
proof -
  have l: "same_step m (inline_loop e endx loc)" for loc
  proof (rule same_at_sim)
    fix st r
    assume "inline_loop e endx loc st = Some r"
    then show "same_at m (inline_loop e endx loc) st r"
    proof (rule inline_loop_raw [rotated])
      fix nxt loc st r
      assume n: "\<And>loc st r. nxt loc st = Some r \<Longrightarrow> same_at m (inline_loop e endx loc) st r"
        and r: "inline_body e endx nxt loc st = Some r"
      have "same_sim m (nxt loc) (inline_loop e endx loc)" for loc by (rule same_at_sim) (rule n)
      from same_simD [OF inline_body_same [OF this] r]
      show "same_at m (inline_loop e endx loc) st r" by (simp only: inline_body_ext)
    qed
  qed
  let ?g = "\<lambda>p st. inline_loop e endx \<lparr>usedEndIdx = i, usedLineNum = mLineNum p, usedLineStart = mLineStart p, childArr = []\<rparr> (set_idx i st)"
  have "same_step m (?g p)" for p by (rule same_then [OF blind_basic(3) l])
  moreover have "pp_lex (set_idx i st2) = pp_lex (set_idx i st)" if "twin m st st2" for st st2
    using twin_lex [OF that] by (simp add: set_idx_def on_lex_def)
  ultimately have "same_step m (\<lambda>st. ?g (pp_lex (set_idx i st)) st)" by (rule same_read [of m "\<lambda>st. pp_lex (set_idx i st)" ?g, rotated])
  then show ?thesis unfolding ParseInlineBlock_def [abs_def] Let_def .
qed

definition scan_body ::
  "pp_env \<Rightarrow> (bf_preproc \<Rightarrow> (bf_token_view list \<times> lex_outcome \<times> bf_preproc) option) \<Rightarrow> bf_preproc \<Rightarrow>
   (bf_token_view list \<times> lex_outcome \<times> bf_preproc) option" where
  "scan_body e nxt st = pp_next_token e st \<bind> (\<lambda>(r, st1).
     let p = pp_lex st1 in
     if r \<noteq> LexReturn then Some ([], r, st1)
     else if mSyntaxToken p = BfSyntaxToken_EOF
     then Some ([], r, if in_ignored_section p then st1\<lparr>ignored_sections := ignored_sections st1 @ [(section_start st1, mSrcIdx p)]\<rparr> else st1)
     else nxt st1 \<bind> (\<lambda>(ts, r2, st2). Some (if in_ignored_section p then ts else token_view p # ts, r2, st2)))"

lemma scan_body_ext: "scan_body e (pp_scan e) = pp_scan e"
proof
  show "scan_body e (pp_scan e) st = pp_scan e st" for st by (subst pp_scan.simps) (simp add: scan_body_def Let_def)
qed

lemma scan_raw:
  assumes step: "\<And>nxt st r. (\<And>st r. nxt st = Some r \<Longrightarrow> P st r) \<Longrightarrow> scan_body e nxt st = Some r \<Longrightarrow> P st r"
    and r: "pp_scan e st = Some r"
  shows "P st r"
proof -
  let ?P = "\<lambda>e' st r. e' = e \<longrightarrow> P st r"
  have "?P e st r"
  proof (rule pp_scan.raw_induct [of ?P, OF _ r], intro impI, goal_cases)
    case (1 nxt e' st r)
    show ?case
    proof (rule step [of "nxt e"])
      show "\<And>st r. nxt e st = Some r \<Longrightarrow> P st r" using 1(1) by blast
      show "scan_body e (nxt e) st = Some r" using 1(2) unfolding 1(3) scan_body_def Let_def .
    qed
  qed
  then show ?thesis by simp
qed

text \<open>The result of a scan is taken as a pair, the last component of which is the state.\<close>

definition regroup :: "('a \<times> 'b \<times> 'c) option \<Rightarrow> (('a \<times> 'b) \<times> 'c) option" where
  "regroup = map_option (\<lambda>(x, y, z). ((x, y), z))"

lemma scan_body_same:
  assumes f: "same_sim m (\<lambda>st. regroup (f1 st)) (\<lambda>st. regroup (f2 st))"
  shows "same_sim m (\<lambda>st. regroup (scan_body e f1 st)) (\<lambda>st. regroup (scan_body e f2 st))"
proof -
  have hm: "same_step m (pp_next_token e)" unfolding pp_next_token_def
    by (intro next_same Handle_same inline_same)
  let ?k = "\<lambda>nxt r p st1. if r \<noteq> LexReturn then Some (([], r), st1)
     else if mSyntaxToken p = BfSyntaxToken_EOF
     then Some (([], r), if in_ignored_section p then st1\<lparr>ignored_sections := ignored_sections st1 @ [(section_start st1, mSrcIdx p)]\<rparr> else st1)
     else regroup (nxt st1) \<bind> (\<lambda>((ts, r2), st2). Some ((if in_ignored_section p then ts else token_view p # ts, r2), st2))"
  have sec: "blind (\<lambda>st1. st1\<lparr>ignored_sections := ignored_sections st1 @ [(section_start st1, i)]\<rparr>)" for i by (simp add: blind_def)
  have again: "same_sim m (\<lambda>st1. regroup (f1 st1) \<bind> (\<lambda>((ts, r2), st2). Some ((g ts, r2), st2)))
      (\<lambda>st1. regroup (f2 st1) \<bind> (\<lambda>((ts, r2), st2). Some ((g ts, r2), st2)))" for g :: "bf_token_view list \<Rightarrow> bf_token_view list"
  proof -
    have eq: "(\<lambda>((ts, r2), st2). Some ((g ts, r2), st2)) = (\<lambda>(x, st2). Some ((g (fst x), snd x), st2))"
      by (rule ext) (simp add: split_beta)
    show ?thesis unfolding eq by (intro same_bind f same_blind blind_id)
  qed
  have "same_sim m (?k f1 r p) (?k f2 r p)" for r p
    by (intro same_if same_blind blind_if sec blind_id again)
  from same_read [of m pp_lex "?k f1 r" "?k f2 r" for r, OF _ this] have
    "same_sim m (\<lambda>st. ?k f1 r (pp_lex st) st) (\<lambda>st. ?k f2 r (pp_lex st) st)" for r by (simp only: twin_lex)
  note s = same_bind [OF hm this]
  have "regroup (scan_body e f st) = pp_next_token e st \<bind> (\<lambda>(r, st). ?k f r (pp_lex st) st)" for f st
    by (auto simp: scan_body_def regroup_def Let_def split: Option.bind_splits)
  then show ?thesis using s by (simp only:)
qed

lemma scan_same: "same_step m (\<lambda>st. regroup (pp_scan e st))"
proof -
  have "\<forall>q. regroup (Some r) = Some q \<longrightarrow> same_at m (\<lambda>st. regroup (pp_scan e st)) st q" if "pp_scan e st = Some r" for st r
    using that
  proof (rule scan_raw [rotated])
    fix nxt st r
    assume n: "\<And>st r. nxt st = Some r \<Longrightarrow> \<forall>q. regroup (Some r) = Some q \<longrightarrow> same_at m (\<lambda>st. regroup (pp_scan e st)) st q"
      and r: "scan_body e nxt st = Some r"
    have "same_sim m (\<lambda>st. regroup (nxt st)) (\<lambda>st. regroup (pp_scan e st))"
      by (rule same_at_sim) (use n in \<open>auto simp: regroup_def\<close>)
    note sim = scan_body_same [OF this, of e, unfolded scan_body_ext]
    show "\<forall>q. regroup (Some r) = Some q \<longrightarrow> same_at m (\<lambda>st. regroup (pp_scan e st)) st q"
    proof (intro allI impI)
      fix q
      assume "regroup (Some r) = Some q"
      with r have "regroup (scan_body e nxt st) = Some q" by simp
      then show "same_at m (\<lambda>st. regroup (pp_scan e st)) st q" by (rule same_simD [OF sim])
    qed
  qed
  then show ?thesis by (intro same_at_sim) (auto simp: regroup_def)
qed

lemma endif_blind: "blind check_endif"
proof -
  let ?r = "\<lambda>st. case mPreprocessorNodeStack st of [] \<Rightarrow> None | (n, _) # _ \<Rightarrow> if IsUnwarnedAt st (pn_start n) then None else Some (pn_start n)"
  let ?f = "\<lambda>v st. case v of None \<Rightarrow> st | Some i \<Rightarrow> WarnAt 0 ''No matching #endif found'' i st"
  have "blind (?f v)" for v
    by (cases v) (auto intro: blind_intros)
  moreover have "IsUnwarnedAt (st\<lparr>mPreprocessorDefines := g\<rparr>) i = IsUnwarnedAt st i" for st g i by (simp add: IsUnwarnedAt_def)
  then have "?r (st\<lparr>mPreprocessorDefines := g\<rparr>) = ?r st" for st g by (simp split: list.split)
  ultimately have "blind (\<lambda>st. ?f (?r st) st)" by (intro blind_read [of ?r ?f])
  moreover have "check_endif = (\<lambda>st. ?f (?r st) st)"
    by (rule ext) (auto simp: check_endif_def split: list.split)
  ultimately show ?thesis by simp
qed

text \<open>
  C38 (The cache of parsed files). Let a file have been parsed for a project, and let the cache find its entry equal
  to what is asked for on behalf of a second project: the same name and text, every macro of the project that a
  condition saw defined is a macro of the second one, and none that a condition missed is.  If the projects
  have the same dependencies, parsing the file for the second one gives the same tokens, messages, warnings and
  nodes, so the data of the first one may be used again.
\<close>

theorem cached_parse_reusable:
  assumes p: "Parse_tokens e (new_parser compat_mode quick complete (Some (macros1, deps)) data) = Some (ts, r, st1)"
    and c: "DataEntry_equals \<lparr>pd_mFileName = name, pd_mSrc = data, pd_parsed = st1\<rparr> lookup"
  shows "\<exists>table. Parse_tokens e (new_parser compat_mode quick complete (Some (le_mPreprocessorMacros lookup, deps)) (le_mSrc lookup)) =
    Some (ts, r, st1\<lparr>mPreprocessorDefines := table\<rparr>)"
proof -
  let ?macros2 = "le_mPreprocessorMacros lookup"
  let ?m = "set ?macros2"
  let ?new = "\<lambda>ms. new_parser compat_mode quick complete (Some (ms, deps)) data"
  have src: "le_mSrc lookup = data" and m: "macros_match ?m st1" using c by (simp_all add: DataEntry_equals_def)
  have t: "twin ?m (?new macros1) (?new ?macros2)"
    unfolding twin_def by (intro exI [of _ "mPreprocessorDefines (?new ?macros2)"]) (auto simp: new_parser_def defines_differ_def)
  from p obtain st0 where s: "pp_scan e (?new macros1) = Some (ts, r, st0)" "st1 = check_endif st0"
    by (auto simp: Parse_tokens_def split: Option.bind_splits)
  have "macros_match ?m st0" using m matches_later blind_later [OF endif_blind] s(2) by blast
  with same_stepD(2) [OF scan_same, of e "?new macros1" "(ts, r)" st0 ?m] t s(1) obtain st3 where
    "regroup (pp_scan e (?new ?macros2)) = Some ((ts, r), st3)" "twin ?m st0 st3" by (auto simp: regroup_def)
  then obtain g where "pp_scan e (?new ?macros2) = Some (ts, r, st0\<lparr>mPreprocessorDefines := g\<rparr>)" by (auto simp: regroup_def twin_def)
  moreover have "check_endif (st0\<lparr>mPreprocessorDefines := g\<rparr>) = st1\<lparr>mPreprocessorDefines := g\<rparr>"
    using endif_blind s(2) by (simp add: blind_def)
  ultimately show ?thesis unfolding src by (intro exI [of _ g]) (simp add: Parse_tokens_def)
qed

text \<open>The example file, parsed for a project with the macro \<open>A\<close> and used again for one with \<open>A\<close> and \<open>B\<close>.\<close>

theorem cached_parse_reusable_witness:
  "\<exists>ts st. Parse_tokens macro_env (new_parser False False False (Some ([''B'', ''A''], [])) macro_source) = Some (ts, LexReturn, st) \<and>
    map tv_start ts = [6, 7] \<and> mDefines_Def st = {''A''}"
proof -
  let ?run = "Parse_tokens macro_env (new_parser False False False (Some ([''A''], [])) macro_source)"
  let ?ask = "\<lparr>le_mFileName = ''A.bf'', le_mSrc = macro_source, le_mPreprocessorMacros = [''B'', ''A'']\<rparr>"
  have "case ?run of None \<Rightarrow> False | Some (ts, r, st) \<Rightarrow>
      map tv_start ts = [6, 7] \<and> r = LexReturn \<and> mDefines_Def st = {''A''} \<and> mDefines_NoDef st = {}" by code_simp
  then obtain ts st where r: "?run = Some (ts, LexReturn, st)" "map tv_start ts = [6, 7]" "mDefines_Def st = {''A''}" "mDefines_NoDef st = {}"
    by (auto split: option.splits)
  then have "DataEntry_equals \<lparr>pd_mFileName = ''A.bf'', pd_mSrc = macro_source, pd_parsed = st\<rparr> ?ask"
    by (simp add: DataEntry_equals_def macros_match_def)
  from cached_parse_reusable [OF r(1) this] r(2,3) show ?thesis by auto
qed

end
