(* ===== verification/Spec2Isabelle.thy ===== *)
theory Spec2Isabelle
  imports Ce_OpInfo Beef_Heap_Spec Ce_Machine_Spec Beef_Checked Beef_Fold_Spec Beef_IRStream_Spec Be_Layout Ce_Builder_Spec Beef_Dict_Spec Beef_Slash_Spec Bf_Preproc_Cache
begin

text \<open>
  \<^bold>\<open>A verification library for the lexer, the preprocessor and the middle of the Beef compiler.\<close>

  \<^bold>\<open>The program.\<close>  The compiler (\<^verbatim>\<open>IDEHelper\<close>) reads a source with the lexer \<open>BfParser::NextToken\<close>
  (\<^verbatim>\<open>Compiler/BfParser.cpp\<close>), which hands directives to \<open>HandlePreprocessor\<close> of the same file, parses and
  resolves the program and then emits an intermediate representation through \<open>BfIRBuilder\<close> (\<^verbatim>\<open>Compiler/BfIRBuilder.cpp\<close>).  The builder
  folds constants as it goes and writes every other operation as a command into a byte stream
  (\<^verbatim>\<open>BeefySysLib/util/ChunkedDataBuffer.cpp\<close>).  A code generator decodes the stream:
  \<open>BeIRCodeGen\<close> (\<^verbatim>\<open>Backend/BeIRCodeGen.cpp\<close>) turns it into the instructions of a \<open>BeModule\<close>
  (\<^verbatim>\<open>Backend/BeModule.cpp\<close>, types in \<^verbatim>\<open>Backend/BeContext.cpp\<close>).  Code that has to run at compile
  time is compiled once more, by \<open>CeBuilder\<close> (\<^verbatim>\<open>Compiler/CeMachine.cpp\<close>), into byte code that
  \<open>CeContext::Execute\<close> interprets in a flat memory whose heap is a \<open>ContiguousHeap\<close>
  (\<^verbatim>\<open>BeefySysLib/util/Heap.cpp\<close>).  The library follows this path.

  \<^bold>\<open>Theories.\<close>

  \<^item> \<^verbatim>\<open>Beef_Prelude\<close>: machine integers by width (\<open>wrap_u\<close>, \<open>wrap_s\<close>), little-endian bytes, byte
    arrays, the truncating division of C++; the lemma collections \<open>mem_simps\<close> and \<open>wrap_simps\<close>.
  \<^item> \<^verbatim>\<open>Beef_Utf8\<close>: characters in UTF-8 (\<^verbatim>\<open>BeefySysLib/util/UTF8.cpp\<close>) and their round trip.
  \<^item> \<^verbatim>\<open>Bf_Token\<close>: \<open>enum BfToken\<close>, the texts of the tokens (\<^verbatim>\<open>Compiler/BfAst.cpp\<close>) and the keywords.
  \<^item> \<^verbatim>\<open>Bf_Lexer\<close>, \<^verbatim>\<open>Bf_Lexer_Props\<close>, \<^verbatim>\<open>Bf_Lexer_Spec\<close>: \<open>BfParser::NextToken\<close>, one function per case
    of its switch over the record \<open>bf_parser\<close>; \<open>None\<close> is a read outside the source.  No step does so and
    every call returns, stated for clients by the locale \<open>token_source\<close>; the texts of tokens and decimal
    literals are read as what they are.
  \<^item> \<^verbatim>\<open>Bf_Preproc\<close>, \<^verbatim>\<open>Bf_Preproc_Props\<close>, \<^verbatim>\<open>Bf_Preproc_Spec\<close>, \<^verbatim>\<open>Bf_Preproc_Cache\<close>: the preprocessor over
    the record \<open>bf_preproc\<close>: directives, conditions, ignored sections, warnings and the tokens of a file.  Its depth,
    flag and node stack refine one stack of conditions, every file is scanned to its end (by the locale
    \<open>token_source\<close> again), and a parse the cache accepts for another project is the parse of that project.
  \<^item> \<^verbatim>\<open>Beef_Slash\<close>, \<^verbatim>\<open>Beef_Slash_Spec\<close>: \<open>SlashString\<close> (\<^verbatim>\<open>BeefySysLib/Common.cpp\<close>), which writes strings as
    literals, and what the lexer reads back.
  \<^item> \<^verbatim>\<open>Ce_Ops\<close>, \<^verbatim>\<open>Ce_OpInfo\<close>: \<open>enum CeOp\<close> with its numbering, the table \<open>gOpInfo\<close>, \<open>GetInstSize\<close>.
  \<^item> \<^verbatim>\<open>Beef_Heap\<close>, \<^verbatim>\<open>Beef_Heap_Inv\<close>, \<^verbatim>\<open>Beef_Heap_Spec\<close>: \<open>ContiguousHeap\<close> with its block headers in
    a tiled array and its lists; the invariant \<open>ch_wf\<close> and what \<open>Alloc\<close>, \<open>Free\<close>, \<open>Clear\<close> promise.
  \<^item> \<^verbatim>\<open>Ce_Machine\<close>, \<^verbatim>\<open>Ce_Machine_Props\<close>, \<^verbatim>\<open>Ce_Machine_Spec\<close>: \<open>CeContext::Execute\<close>, one function per
    group of opcodes over the record \<open>ce_state\<close> of its locals; \<open>None\<close> is undefined behaviour.
    Reachable states, widths of instructions, checked memory accesses, calls, machine arithmetic.
  \<^item> \<^verbatim>\<open>Beef_Checked\<close>: the overflow-checked arithmetic of the folder.
  \<^item> \<^verbatim>\<open>Beef_Const\<close>, \<^verbatim>\<open>Beef_Const_Spec\<close>: the pool of constants of \<open>BfIRConstHolder\<close> as a list of
    objects, its queries, and the meaning of a constant.
  \<^item> \<^verbatim>\<open>Beef_Fold\<close>, \<^verbatim>\<open>Beef_Fold_Spec\<close>: the \<open>Create\<close> operations of \<open>BfIRBuilder\<close> on scalars, which
    fold or write a command, and what the folded constant is on every type.
  \<^item> \<^verbatim>\<open>Beef_Stream\<close>, \<^verbatim>\<open>Beef_Stream_Spec\<close>, \<^verbatim>\<open>Beef_Sleb\<close>: the chunked buffer as a queue of bytes and
    the variable-length integers.
  \<^item> \<^verbatim>\<open>Be_Module\<close>, \<^verbatim>\<open>Be_Layout\<close>: the backend's types, values and instructions; the layout of structs.
  \<^item> \<^verbatim>\<open>Beef_IRStream\<close>, \<^verbatim>\<open>Beef_IRStream_Spec\<close>: the encoding of commands and their decoding, with a
    locale \<open>codec\<close> for a writer and a reader that agree, and the refinement of the whole stream.
  \<^item> \<^verbatim>\<open>Ce_Builder\<close>: \<open>CeBuilder\<close> with its frame, operands, jumps and passes.
  \<^item> \<^verbatim>\<open>Be_Semantics\<close>: a reference semantics of the backend's instructions, on values of the type of each
    instruction, in which reading a value that was not computed is undefined.
  \<^item> \<^verbatim>\<open>Ce_Builder_Props\<close> (passes and code placement), \<^verbatim>\<open>Ce_Builder_Sim\<close> (the relation between a state of
    that semantics and one of the virtual machine), \<^verbatim>\<open>Ce_Builder_Run\<close> (the byte code of one opcode),
    \<^verbatim>\<open>Ce_Builder_Step\<close> (the code of one instruction), \<^verbatim>\<open>Ce_Builder_Spec\<close> (the locale
    \<open>forward_simulation\<close>, and the correctness of the emitted code for functions without phi instructions).
  \<^item> \<^verbatim>\<open>Beef_Dict\<close>, \<^verbatim>\<open>Beef_Dict_Props\<close>, \<^verbatim>\<open>Beef_Dict_Spec\<close>: \<open>Dictionary\<close>
    (\<^verbatim>\<open>BeefySysLib/util/Dictionary.h\<close>), the hash table the compiler keeps its functions, types and
    constants in: buckets, chains and free list, and the contract of a map as the locale \<open>map_store\<close>.

  \<^bold>\<open>Bounds and fuel.\<close>  \<open>ce_run\<close> takes the number of steps to make, because evaluated code need not
  end.  Recursive queries of the pool of constants take the size of the pool as fuel, which is enough
  because a well-formed object refers to earlier objects only.  \<open>ch_alloc\<close> retries at most twice.
  The walk along a chain of a dictionary is a partial function; it is proved to end on every dictionary
  that its operations build.  The code of a function must be shorter than \<open>2 ^ 31\<close> bytes, the positions
  of \<open>CeBuilder\<close> being of type \<open>int\<close>, and a dictionary may take \<open>2 ^ 30\<close> insertions, after which the
  doubled size would not be an \<open>int\<close>.  The loops of the lexer over a string, over its rounds and over the
  tokens of a file are partial functions, proved to end.  All other functions are total.

  Where the code keeps an \<open>int\<close> of 32 bits, the model does so too (the layout of structs, the addresses of
  evaluated code, the folder), with these exceptions, in which it takes unbounded integers and holds below 2 GB:
  the size of a chunked buffer and of the data handed over by \<open>GetBufferData\<close>, the number of commands in a stream,
  and the positions of the lexer in a source.

  \<^bold>\<open>Not modelled.\<close>  The syntax tree and the semantic analysis (\<^verbatim>\<open>Compiler/Bf*.cpp\<close> apart from the
  functions above), the LLVM code generator, the machine code backend (\<^verbatim>\<open>Backend/BeMCContext.cpp\<close>, object
  files), the linker, the debuggers, the services of the IDE, the run time library, and everything
  vendored.  Where the lexer calls the parser, for a directive or for an expression in a string, a step of the
  lexer ends with \<open>LexPreprocessor\<close>, which \<open>token_loop\<close> of the preprocessor goes on from, or with \<open>LexInterpolate\<close>.
  The parser of conditions (\<open>BfReducer\<close>) and \<open>atoi\<close> are parameters of the preprocessor (\<open>pp_env\<close>), which does not
  count the messages against \<open>sMaxErrors\<close>; the categories of characters and \<open>strtod\<close>
  are parameters of the lexer (\<open>lex_env\<close>).  Floating point is a parameter (\<open>ce_fpu\<close>), like the requests of
  evaluated code to the front end, which leave the model as \<open>CeOutside\<close>.
\<close>

end
